(* ===== verification/Prelude.thy ===== *)
theory Prelude
  imports Main "HOL-Library.AList" "HOL-Library.List_Lexorder" "HOL-Library.Char_ord"
    "HOL-Library.Sublist"
begin

text \<open>
  Shared vocabulary of the development.

  The program is Python.  A Python \<^verbatim>\<open>str\<close> is modelled as a \<^typ>\<open>string\<close>: a list of
  \<^typ>\<open>char\<close>, one per code point below 256 (the Latin-1 range), so that \<^verbatim>\<open>len\<close>, indexing and
  slicing count the same units as the program.  This theory holds the string methods the
  program calls (\<^verbatim>\<open>strip\<close>, \<^verbatim>\<open>split\<close>, \<^verbatim>\<open>partition\<close>, \<^verbatim>\<open>lower\<close>, \<^verbatim>\<open>startswith\<close>, \<^verbatim>\<open>splitlines\<close>, \<dots>),
  decimal printing, ordered dictionaries as association lists, and SQLite tables with an integer
  primary key as row lists; then the lemmas on them that every component uses.
\<close>

section \<open>Results\<close>

text \<open>A Python exception carries its message; \<open>Inl\<close> is \<^verbatim>\<open>raise\<close>.\<close>

type_synonym 'a result = "string + 'a"

named_theorems str_simps \<open>unfolding rules for the modelled string methods\<close>

section \<open>Characters\<close>

definition py_isspace :: "char \<Rightarrow> bool" where
  "py_isspace c = (let n = (of_char c :: nat) in
     (9 \<le> n \<and> n \<le> 13) \<or> (28 \<le> n \<and> n \<le> 32) \<or> n = 133 \<or> n = 160)"

definition is_ascii :: "char \<Rightarrow> bool" where
  "is_ascii c = ((of_char c :: nat) < 128)"

definition is_ascii_digit :: "char \<Rightarrow> bool" where
  "is_ascii_digit c = (let n = (of_char c :: nat) in 48 \<le> n \<and> n \<le> 57)"

definition is_ascii_lower :: "char \<Rightarrow> bool" where
  "is_ascii_lower c = (let n = (of_char c :: nat) in 97 \<le> n \<and> n \<le> 122)"

definition is_ascii_upper :: "char \<Rightarrow> bool" where
  "is_ascii_upper c = (let n = (of_char c :: nat) in 65 \<le> n \<and> n \<le> 90)"

text \<open>\<^verbatim>\<open>str.isdigit\<close> of one character: the decimal digits and the superscripts two, three, one.\<close>

definition py_isdigit :: "char \<Rightarrow> bool" where
  "py_isdigit c = (let n = (of_char c :: nat) in is_ascii_digit c \<or> n = 178 \<or> n = 179 \<or> n = 185)"

text \<open>
  \<^verbatim>\<open>str.isalnum\<close> of one character: ASCII letters and digits; above 127 the ordinal indicators, the
  micro sign, the superscript digits, the vulgar fractions and the Latin-1 letters.
\<close>

definition py_isalnum :: "char \<Rightarrow> bool" where
  "py_isalnum c = (let n = (of_char c :: nat) in
     is_ascii_digit c \<or> is_ascii_lower c \<or> is_ascii_upper c \<or>
     n = 170 \<or> n = 178 \<or> n = 179 \<or> n = 181 \<or> n = 185 \<or> n = 186 \<or>
     (188 \<le> n \<and> n \<le> 190) \<or> (192 \<le> n \<and> n \<noteq> 215 \<and> n \<noteq> 247))"

definition is_control :: "char \<Rightarrow> bool" where
  "is_control c = (let n = (of_char c :: nat) in n < 32 \<or> n = 127)"

definition lower_char :: "char \<Rightarrow> char" where
  "lower_char c = (let n = (of_char c :: nat) in
     if (65 \<le> n \<and> n \<le> 90) \<or> (192 \<le> n \<and> n \<le> 222 \<and> n \<noteq> 215) then char_of (n + 32) else c)"

text \<open>ASCII upper-casing, enough where the program compares with an ASCII word.\<close>

definition upper_char :: "char \<Rightarrow> char" where
  "upper_char c = (if is_ascii_lower c then char_of ((of_char c :: nat) - 32) else c)"

section \<open>String methods\<close>

definition py_lower :: "string \<Rightarrow> string" where
  "py_lower s = map lower_char s"

definition py_upper :: "string \<Rightarrow> string" where
  "py_upper s = map upper_char s"

definition py_isascii :: "string \<Rightarrow> bool" where
  "py_isascii s = list_all is_ascii s"

definition lstrip_by :: "('a \<Rightarrow> bool) \<Rightarrow> 'a list \<Rightarrow> 'a list" where
  "lstrip_by p s = dropWhile p s"

definition rstrip_by :: "('a \<Rightarrow> bool) \<Rightarrow> 'a list \<Rightarrow> 'a list" where
  "rstrip_by p s = rev (dropWhile p (rev s))"

definition strip_by :: "('a \<Rightarrow> bool) \<Rightarrow> 'a list \<Rightarrow> 'a list" where
  "strip_by p s = rstrip_by p (lstrip_by p s)"

abbreviation py_strip :: "string \<Rightarrow> string" where
  "py_strip s \<equiv> strip_by py_isspace s"

abbreviation strip_dots :: "string \<Rightarrow> string" where
  "strip_dots s \<equiv> strip_by (\<lambda>c. c = CHR ''.'') s"

definition startswith :: "'a list \<Rightarrow> 'a list \<Rightarrow> bool" where
  "startswith s p = (take (length p) s = p)"

definition endswith :: "'a list \<Rightarrow> 'a list \<Rightarrow> bool" where
  "endswith s p = (length p \<le> length s \<and> drop (length s - length p) s = p)"

text \<open>\<^verbatim>\<open>sub in s\<close>\<close>

fun contains :: "'a list \<Rightarrow> 'a list \<Rightarrow> bool" where
  "contains [] sub = (sub = [])"
| "contains (x # s) sub = (startswith (x # s) sub \<or> contains s sub)"

text \<open>\<^verbatim>\<open>s.find(c)\<close> for a one-character needle; \<open>None\<close> is -1.\<close>

fun find_char :: "'a \<Rightarrow> 'a list \<Rightarrow> nat option" where
  "find_char c [] = None"
| "find_char c (x # s) = (if x = c then Some 0 else map_option Suc (find_char c s))"

text \<open>\<^verbatim>\<open>s.rfind(sub)\<close>\<close>

fun rfind :: "'a list \<Rightarrow> 'a list \<Rightarrow> nat option" where
  "rfind [] sub = (if sub = [] then Some 0 else None)"
| "rfind (x # s) sub =
     (case rfind s sub of
        Some i \<Rightarrow> Some (Suc i)
      | None \<Rightarrow> if startswith (x # s) sub then Some 0 else None)"

text \<open>\<^verbatim>\<open>s.partition(c)\<close>: what is before the first \<open>c\<close>, whether there is one, what is after it.\<close>

fun partition_char :: "'a \<Rightarrow> 'a list \<Rightarrow> 'a list \<times> bool \<times> 'a list" where
  "partition_char c [] = ([], False, [])"
| "partition_char c (x # s) =
     (if x = c then ([], True, s)
      else (case partition_char c s of (h, f, t) \<Rightarrow> (x # h, f, t)))"

text \<open>\<^verbatim>\<open>s.split(c)\<close> for a one-character separator; never empty.\<close>

fun split_char :: "'a \<Rightarrow> 'a list \<Rightarrow> 'a list list" where
  "split_char c [] = [[]]"
| "split_char c (x # s) =
     (if x = c then [] # split_char c s
      else (case split_char c s of [] \<Rightarrow> [[x]] | w # ws \<Rightarrow> (x # w) # ws))"

text \<open>\<^verbatim>\<open>s.split()\<close>: the maximal runs of non-blank characters.\<close>

fun split_ws_aux :: "string \<Rightarrow> string \<Rightarrow> string list" where
  "split_ws_aux w [] = (if w = [] then [] else [rev w])"
| "split_ws_aux w (c # s) =
     (if py_isspace c then (if w = [] then split_ws_aux [] s else rev w # split_ws_aux [] s)
      else split_ws_aux (c # w) s)"

definition split_ws :: "string \<Rightarrow> string list" where
  "split_ws s = split_ws_aux [] s"

text \<open>\<^verbatim>\<open>s.split(None, 1)\<close>: the first word, and the rest without its leading blanks, if any.\<close>

definition split_ws1 :: "string \<Rightarrow> string list" where
  "split_ws1 s =
     (let t = dropWhile py_isspace s in
      if t = [] then []
      else let w = takeWhile (\<lambda>c. \<not> py_isspace c) t;
               r = dropWhile py_isspace (dropWhile (\<lambda>c. \<not> py_isspace c) t)
           in if r = [] then [w] else [w, r])"

text \<open>\<^verbatim>\<open>sep.join(xs)\<close>\<close>

fun join :: "'a list \<Rightarrow> 'a list list \<Rightarrow> 'a list" where
  "join sep [] = []"
| "join sep [x] = x"
| "join sep (x # y # xs) = x @ sep @ join sep (y # xs)"

definition count_char :: "'a \<Rightarrow> 'a list \<Rightarrow> nat" where
  "count_char c s = length (filter (\<lambda>x. x = c) s)"

text \<open>
  \<^verbatim>\<open>s.splitlines()\<close>: line feed, carriage return (a CR LF pair is one break), vertical tab, form
  feed, the separators 28 to 30 and next-line end a line; no empty last line.
\<close>

definition is_linebreak :: "char \<Rightarrow> bool" where
  "is_linebreak c = (let n = (of_char c :: nat) in (10 \<le> n \<and> n \<le> 13) \<or> (28 \<le> n \<and> n \<le> 30) \<or> n = 133)"

fun splitlines_aux :: "string \<Rightarrow> string \<Rightarrow> string list" where
  "splitlines_aux w [] = (if w = [] then [] else [rev w])"
| "splitlines_aux w [c] = (if is_linebreak c then [rev w] else [rev (c # w)])"
| "splitlines_aux w (c # d # s) =
     (if c = CHR 0x0D \<and> d = CHR 0x0A then rev w # splitlines_aux [] s
      else if is_linebreak c then rev w # splitlines_aux [] (d # s)
      else splitlines_aux (c # w) (d # s))"

definition splitlines :: "string \<Rightarrow> string list" where
  "splitlines s = splitlines_aux [] s"

text \<open>\<^verbatim>\<open>str(n)\<close> of a natural number.\<close>

definition digit_char :: "nat \<Rightarrow> char" where
  "digit_char d = char_of (48 + d)"

fun str_nat :: "nat \<Rightarrow> string" where
  "str_nat n = (if n < 10 then [digit_char n] else str_nat (n div 10) @ [digit_char (n mod 10)])"

declare str_nat.simps [simp del]

definition str_int :: "int \<Rightarrow> string" where
  "str_int i = (if i < 0 then ''-'' @ str_nat (nat (- i)) else str_nat (nat i))"

text \<open>\<^verbatim>\<open>int(s)\<close> of a string of ASCII digits.\<close>

definition digits_val :: "string \<Rightarrow> nat" where
  "digits_val s = foldl (\<lambda>a c. 10 * a + ((of_char c :: nat) - 48)) 0 s"

text \<open>The dot that separates DNS labels, and the name a wildcard owner has.\<close>

abbreviation (input) dot :: char where "dot \<equiv> CHR ''.''"

definition wildcard :: "string \<Rightarrow> string" where
  "wildcard name = ''*.'' @ name"

text \<open>\<^verbatim>\<open>d == name or d.endswith("." + name)\<close>: the name \<open>d\<close> is \<open>name\<close> or lies below it.\<close>

definition below :: "string \<Rightarrow> string \<Rightarrow> bool" where
  "below d name = endswith d (dot # name)"

definition covers :: "string \<Rightarrow> string \<Rightarrow> bool" where
  "covers name d = (d = name \<or> below d name)"

section \<open>Dictionaries and sets\<close>

text \<open>
  A Python dictionary keeps insertion order; it is an association list with distinct keys.
  Assignment is \<^const>\<open>AList.update\<close> (in place, or appended), deletion \<^const>\<open>AList.delete\<close>.
  A Python set of strings that is only iterated sorted or asked for membership is a \<^typ>\<open>string set\<close>;
  \<^verbatim>\<open>sorted(s)\<close> is \<^const>\<open>sorted_list_of_set\<close>, and \<open>sorted_keys\<close> gives \<^verbatim>\<open>sorted(d)\<close>.
\<close>

definition sorted_keys :: "('k::linorder \<times> 'v) list \<Rightarrow> 'k list" where
  "sorted_keys d = sort (map fst d)"

definition dict_setdefault :: "'k \<Rightarrow> 'v \<Rightarrow> ('k \<times> 'v) list \<Rightarrow> ('k \<times> 'v) list" where
  "dict_setdefault k v d = (case map_of d k of None \<Rightarrow> d @ [(k, v)] | Some _ \<Rightarrow> d)"

definition dict_get :: "('k \<times> 'v) list \<Rightarrow> 'k \<Rightarrow> 'v \<Rightarrow> 'v" where
  "dict_get d k v = (case map_of d k of None \<Rightarrow> v | Some w \<Rightarrow> w)"

section \<open>Tables with an integer primary key\<close>

text \<open>
  A SQLite table with \<^verbatim>\<open>INTEGER PRIMARY KEY\<close> is its rows in rowid order, the order in which a
  \<^verbatim>\<open>SELECT\<close> without \<^verbatim>\<open>ORDER BY\<close> visits them.  A new row gets the largest rowid in use plus one.
\<close>

definition next_rowid :: "('r \<Rightarrow> nat) \<Rightarrow> 'r list \<Rightarrow> nat" where
  "next_rowid rid t = Suc (foldr max (map rid t) 0)"

definition insert_row :: "('r \<Rightarrow> nat) \<Rightarrow> (nat \<Rightarrow> 'r \<Rightarrow> 'r) \<Rightarrow> 'r \<Rightarrow> 'r list \<Rightarrow> 'r list" where
  "insert_row rid put r t = t @ [put (next_rowid rid t) r]"

definition row_by_id :: "('r \<Rightarrow> nat) \<Rightarrow> nat \<Rightarrow> 'r list \<Rightarrow> 'r option" where
  "row_by_id rid i t = List.find (\<lambda>r. rid r = i) t"

definition update_where :: "('r \<Rightarrow> bool) \<Rightarrow> ('r \<Rightarrow> 'r) \<Rightarrow> 'r list \<Rightarrow> 'r list" where
  "update_where p f t = map (\<lambda>r. if p r then f r else r) t"

definition delete_where :: "('r \<Rightarrow> bool) \<Rightarrow> 'r list \<Rightarrow> 'r list" where
  "delete_where p t = filter (\<lambda>r. \<not> p r) t"

definition rowids_ok :: "('r \<Rightarrow> nat) \<Rightarrow> 'r list \<Rightarrow> bool" where
  "rowids_ok rid t = sorted_wrt (<) (map rid t)"

section \<open>Lemmas\<close>

subsection \<open>Prefixes, suffixes, stripping\<close>

lemma startswith_iff_prefix [simp]: "startswith s p \<longleftrightarrow> prefix p s"
  unfolding startswith_def
proof
  assume "take (length p) s = p"
  then show "prefix p s" by (metis take_is_prefix)
next
  assume "prefix p s"
  then obtain u where "s = p @ u" by (auto simp: prefix_def)
  then show "take (length p) s = p" by simp
qed

lemma endswith_iff_suffix [simp]: "endswith s p \<longleftrightarrow> suffix p s"
  unfolding endswith_def
proof
  assume "length p \<le> length s \<and> drop (length s - length p) s = p"
  then show "suffix p s" by (metis suffix_drop)
next
  assume "suffix p s"
  then obtain u where "s = u @ p" by (auto simp: suffix_def)
  then show "length p \<le> length s \<and> drop (length s - length p) s = p" by simp
qed

lemma length_dropWhile_less [termination_simp]: "length (dropWhile p s) < Suc (length s)"
  by (simp add: le_imp_less_Suc length_dropWhile_le)

lemma below_iff: "below d name \<longleftrightarrow> (\<exists>u. d = u @ dot # name)"
  by (simp add: below_def suffix_def)

lemma below_trans: "below a b \<Longrightarrow> below b c \<Longrightarrow> below a c"
  by (auto simp: below_iff)

lemma covers_refl [simp, intro]: "covers n n"
  by (simp add: covers_def)

lemma covers_trans: "covers a b \<Longrightarrow> covers b c \<Longrightarrow> covers a c"
  by (auto simp: covers_def intro: below_trans)

lemma below_length: "below d n \<Longrightarrow> length n < length d"
  by (auto simp: below_iff)

lemma below_irrefl [simp]: "\<not> below d d"
  by (auto dest: below_length)

lemma set_lstrip_by: "set (lstrip_by p s) \<subseteq> set s"
  by (simp add: lstrip_by_def set_dropWhileD subsetI)

lemma set_rstrip_by: "set (rstrip_by p s) \<subseteq> set s"
  by (auto simp: rstrip_by_def dest: set_dropWhileD)

lemma set_strip_by: "set (strip_by p s) \<subseteq> set s"
  unfolding strip_by_def using set_rstrip_by set_lstrip_by by (metis subset_trans)

lemma lstrip_by_id: "s = [] \<or> \<not> p (hd s) \<Longrightarrow> lstrip_by p s = s"
  by (cases s) (auto simp: lstrip_by_def)

lemma rstrip_by_id: "s = [] \<or> \<not> p (last s) \<Longrightarrow> rstrip_by p s = s"
  by (cases s rule: rev_cases) (auto simp: rstrip_by_def)

lemma strip_by_id: "s = [] \<or> (\<not> p (hd s) \<and> \<not> p (last s)) \<Longrightarrow> strip_by p s = s"
  by (auto simp: strip_by_def lstrip_by_id rstrip_by_id)

lemma strip_by_none: "\<forall>c\<in>set s. \<not> p c \<Longrightarrow> strip_by p s = s"
  by (rule strip_by_id) (cases "s = []", auto)

lemma rstrip_by_last: "rstrip_by p s \<noteq> [] \<Longrightarrow> \<not> p (last (rstrip_by p s))"
  unfolding rstrip_by_def by (metis hd_dropWhile hd_rev last_rev rev_is_Nil_conv rev_rev_ident)

lemma rstrip_by_append_last:
  "\<not> p x \<Longrightarrow> rstrip_by p (s @ x # t) = s @ x # rstrip_by p t"
  by (simp add: rstrip_by_def dropWhile_append)

lemma rstrip_by_Cons:
  "rstrip_by p (x # s) = (if rstrip_by p s = [] \<and> p x then [] else x # rstrip_by p s)"
  by (auto simp: rstrip_by_def dropWhile_append)

lemma strip_by_ends:
  assumes "strip_by p s \<noteq> []"
  shows "\<not> p (hd (strip_by p s))" "\<not> p (last (strip_by p s))"
proof -
  let ?t = "lstrip_by p s"
  from assms have ne: "rstrip_by p ?t \<noteq> []" by (simp add: strip_by_def)
  then show "\<not> p (last (strip_by p s))" by (simp add: strip_by_def rstrip_by_last)
  from ne have "?t \<noteq> []" by (auto simp: rstrip_by_def)
  then obtain x xs where t: "?t = x # xs" by (cases ?t) auto
  then have "\<not> p x" unfolding lstrip_by_def by (metis dropWhile_eq_Cons_conv)
  with t ne show "\<not> p (hd (strip_by p s))"
    by (simp add: strip_by_def rstrip_by_Cons)
qed

lemma strip_by_idem [simp]: "strip_by p (strip_by p s) = strip_by p s"
  by (rule strip_by_id) (use strip_by_ends in blast)

lemma length_strip_by: "length (strip_by p s) \<le> length s"
  by (simp add: strip_by_def rstrip_by_def lstrip_by_def)
     (metis le_trans length_dropWhile_le length_rev)

subsection \<open>Splitting and joining\<close>

lemma split_char_ne [simp]: "split_char c s \<noteq> []"
  by (cases s) (auto split: list.splits)

lemma join_split_char [simp]: "join [c] (split_char c s) = s"
proof (induction s)
  case Nil
  show ?case by simp
next
  case (Cons x s)
  obtain w ws where "split_char c s = w # ws" by (cases "split_char c s") auto
  with Cons show ?case by (cases ws) auto
qed

lemma split_char_no_sep: "w \<in> set (split_char c s) \<Longrightarrow> c \<notin> set w"
  by (induction s arbitrary: w) (auto split: list.splits if_splits)

lemma split_char_subset: "w \<in> set (split_char c s) \<Longrightarrow> set w \<subseteq> set s"
  by (induction s arbitrary: w) (fastforce split: list.splits if_splits)+

lemma split_char_single: "c \<notin> set s \<Longrightarrow> split_char c s = [s]"
  by (induction s) auto

lemma split_char_append: "split_char c (a @ c # b) = split_char c a @ split_char c b"
  by (induction a) (auto split: list.splits)

lemma split_char_join:
  "ws \<noteq> [] \<Longrightarrow> \<forall>w\<in>set ws. c \<notin> set w \<Longrightarrow> split_char c (join [c] ws) = ws"
  by (induction "[c]" ws rule: join.induct) (auto simp: split_char_append split_char_single)

lemma length_split_char: "length (split_char c s) = Suc (count_char c s)"
  by (induction s) (auto simp: count_char_def split: list.splits)

lemma join_append:
  "a \<noteq> [] \<Longrightarrow> b \<noteq> [] \<Longrightarrow> join sep (a @ b) = join sep a @ sep @ join sep b"
  by (induction sep a rule: join.induct) (auto simp: neq_Nil_conv)

lemma partition_char_none: "c \<notin> set s \<Longrightarrow> partition_char c s = (s, False, [])"
  by (induction s) auto

lemma partition_char_hit: "c \<notin> set a \<Longrightarrow> partition_char c (a @ c # b) = (a, True, b)"
  by (induction a) auto

lemma partition_char_sound:
  "partition_char c s = (h, f, t) \<Longrightarrow> c \<notin> set h \<and> (if f then s = h @ c # t else s = h \<and> t = [])"
  by (induction s arbitrary: h) (auto split: prod.splits if_splits)

lemma find_char_None [simp]: "find_char c s = None \<longleftrightarrow> c \<notin> set s"
  by (induction s) auto

lemma find_char_absent [simp]: "c \<notin> set s \<Longrightarrow> find_char c s = None"
  by simp

lemma find_char_Some:
  "find_char c s = Some i \<Longrightarrow> i < length s \<and> s ! i = c \<and> c \<notin> set (take i s)"
  by (induction s arbitrary: i) (auto split: if_splits)

lemma find_char_append: "c \<notin> set a \<Longrightarrow> find_char c (a @ c # b) = Some (length a)"
  by (induction a) auto

lemma contains_iff_sublist: "contains s sub \<longleftrightarrow> sublist sub s"
proof (induction s)
  case Nil
  show ?case by simp
next
  case (Cons x s)
  then show ?case by (simp add: sublist_Cons_right)
qed

lemma contains_iff: "contains s sub \<longleftrightarrow> (\<exists>u v. s = u @ sub @ v)"
  by (simp add: contains_iff_sublist sublist_def)

lemma contains_single [simp]: "contains s [c] \<longleftrightarrow> c \<in> set s"
  by (auto simp: contains_iff in_set_conv_decomp)

lemma split_ws_aux_none:
  "\<forall>c\<in>set s. \<not> py_isspace c \<Longrightarrow> split_ws_aux w s = (if w = [] \<and> s = [] then [] else [rev w @ s])"
  by (induction s arbitrary: w) auto

lemma split_ws_single: "s \<noteq> [] \<Longrightarrow> \<forall>c\<in>set s. \<not> py_isspace c \<Longrightarrow> split_ws s = [s]"
  by (simp add: split_ws_def split_ws_aux_none)

lemma split_ws_aux_words:
  "\<forall>c\<in>set w. \<not> py_isspace c \<Longrightarrow> x \<in> set (split_ws_aux w s) \<Longrightarrow>
     x \<noteq> [] \<and> set x \<subseteq> set w \<union> set s \<and> (\<forall>c\<in>set x. \<not> py_isspace c)"
proof (induction s arbitrary: w)
  case Nil
  then show ?case by (auto split: if_splits)
next
  case (Cons c s)
  then show ?case
  proof (cases "py_isspace c")
    case True
    with Cons.prems have "x = rev w \<and> w \<noteq> [] \<or> x \<in> set (split_ws_aux [] s)" by (auto split: if_splits)
    with Cons.prems(1) Cons.IH [of "[]"] show ?thesis by auto
  next
    case False
    with Cons.prems Cons.IH [of "c # w"] show ?thesis by auto
  qed
qed

lemma split_ws_words:
  "x \<in> set (split_ws s) \<Longrightarrow> x \<noteq> [] \<and> set x \<subseteq> set s \<and> (\<forall>c\<in>set x. \<not> py_isspace c)"
  using split_ws_aux_words [of "[]" x s] by (simp add: split_ws_def)

lemma split_ws_aux_ne: "w \<noteq> [] \<or> (\<exists>c\<in>set s. \<not> py_isspace c) \<Longrightarrow> split_ws_aux w s \<noteq> []"
  by (induction s arbitrary: w) auto

lemma split_ws_ne: "c \<in> set s \<Longrightarrow> \<not> py_isspace c \<Longrightarrow> split_ws s \<noteq> []"
  using split_ws_aux_ne [of "[]" s] by (auto simp: split_ws_def)

subsection \<open>Characters\<close>

lemma lower_char_idem [simp]: "lower_char (lower_char c) = lower_char c"
  by (auto simp: lower_char_def Let_def)

lemma py_lower_idem [simp]: "py_lower (py_lower s) = py_lower s"
  by (simp add: py_lower_def)

lemma is_control_not_graphic: "is_control c \<Longrightarrow> \<not> is_ascii_digit c \<and> \<not> is_ascii_lower c \<and> c \<noteq> dot"
  by (auto simp: is_control_def is_ascii_digit_def is_ascii_lower_def Let_def)

subsection \<open>Dictionaries\<close>

lemma map_of_setdefault:
  "map_of (dict_setdefault k v d) =
     (if map_of d k = None then (map_of d)(k \<mapsto> v) else map_of d)"
  by (auto simp: dict_setdefault_def map_add_def fun_eq_iff split: option.splits)

lemma distinct_setdefault:
  "distinct (map fst d) \<Longrightarrow> distinct (map fst (dict_setdefault k v d))"
  by (auto simp: dict_setdefault_def map_of_eq_None_iff split: option.splits)

subsection \<open>Rows\<close>

lemma next_rowid_greater: "r \<in> set t \<Longrightarrow> rid r < next_rowid rid t"
proof -
  have "rid r \<le> foldr max (map rid t) 0" if "r \<in> set t"
    using that by (induction t) auto
  then show "r \<in> set t \<Longrightarrow> ?thesis" by (simp add: next_rowid_def less_Suc_eq_le)
qed

lemma next_rowid_pos [simp]: "0 < next_rowid rid t"
  by (simp add: next_rowid_def)

lemma rowids_ok_append:
  "rowids_ok rid t \<Longrightarrow> rid r = next_rowid rid t \<Longrightarrow> rowids_ok rid (t @ [r])"
  by (auto simp: rowids_ok_def sorted_wrt_append next_rowid_greater)

lemma rowids_ok_delete: "rowids_ok rid t \<Longrightarrow> rowids_ok rid (delete_where p t)"
  by (auto simp: rowids_ok_def delete_where_def sorted_wrt_map intro: sorted_wrt_filter)

lemma rowids_ok_update:
  "rowids_ok rid t \<Longrightarrow> (\<And>r. rid (f r) = rid r) \<Longrightarrow> rowids_ok rid (update_where p f t)"
proof -
  assume "rowids_ok rid t" and f: "\<And>r. rid (f r) = rid r"
  moreover have "map rid (update_where p f t) = map rid t"
    by (auto simp: update_where_def f)
  ultimately show ?thesis by (simp add: rowids_ok_def)
qed

lemma rowids_ok_distinct: "rowids_ok rid t \<Longrightarrow> distinct (map rid t)"
  by (simp add: rowids_ok_def strict_sorted_iff)

lemma row_by_id_Some: "row_by_id rid i t = Some r \<Longrightarrow> r \<in> set t \<and> rid r = i"
  unfolding row_by_id_def by (auto simp: find_Some_iff)

lemma row_by_id_None: "row_by_id rid i t = None \<longleftrightarrow> (\<forall>r\<in>set t. rid r \<noteq> i)"
  by (auto simp: row_by_id_def find_None_iff)

lemma row_by_id_unique:
  "rowids_ok rid t \<Longrightarrow> r \<in> set t \<Longrightarrow> row_by_id rid (rid r) t = Some r"
proof (cases "row_by_id rid (rid r) t")
  case None
  assume "r \<in> set t"
  with None show ?thesis by (auto simp: row_by_id_None)
next
  case (Some r')
  assume ok: "rowids_ok rid t" and r: "r \<in> set t"
  from Some have "r' \<in> set t" "rid r' = rid r" by (auto dest: row_by_id_Some)
  with ok r have "r' = r"
    by (metis rowids_ok_distinct distinct_map inj_onD)
  with Some show ?thesis by simp
qed

lemma set_update_where: "r \<in> set (update_where p f t) \<longleftrightarrow> (\<exists>r'\<in>set t. r = (if p r' then f r' else r'))"
  by (auto simp: update_where_def)

lemma set_delete_where [simp]: "set (delete_where p t) = {r \<in> set t. \<not> p r}"
  by (auto simp: delete_where_def)

lemma find_append_None: "List.find p (a @ b) = (case List.find p a of None \<Rightarrow> List.find p b | Some x \<Rightarrow> Some x)"
  by (induction a) auto

lemma find_filter_id: "\<lbrakk>\<And>x. p x \<Longrightarrow> q x\<rbrakk> \<Longrightarrow> List.find p (filter q t) = List.find p t"
  by (induction t) auto

subsection \<open>The table interface\<close>

text \<open>
  A row type with a primary key: \<open>rid\<close> reads it, \<open>put\<close> writes it.  The laws say what a lookup by key
  returns after each statement, and that keys stay strictly increasing.
\<close>

locale id_table =
  fixes rid :: "'r \<Rightarrow> nat"
    and put :: "nat \<Rightarrow> 'r \<Rightarrow> 'r"
  assumes rid_put: "rid (put i r) = i"
begin

lemma insert_keeps_ids: "rowids_ok rid t \<Longrightarrow> rowids_ok rid (insert_row rid put r t)"
  unfolding insert_row_def by (rule rowids_ok_append) (simp_all add: rid_put)

lemma lookup_inserted:
  "row_by_id rid (next_rowid rid t) (insert_row rid put r t) = Some (put (next_rowid rid t) r)"
proof -
  have "row_by_id rid (next_rowid rid t) t = None"
    using next_rowid_greater [of _ t rid] by (fastforce simp: row_by_id_None)
  then show ?thesis by (simp add: row_by_id_def insert_row_def find_append_None rid_put)
qed

lemma lookup_insert_other:
  "i \<noteq> next_rowid rid t \<Longrightarrow> row_by_id rid i (insert_row rid put r t) = row_by_id rid i t"
  by (simp add: row_by_id_def insert_row_def find_append_None rid_put split: option.split)

lemma lookup_deleted: "row_by_id rid i (delete_where (\<lambda>r. rid r = i) t) = None"
  by (simp add: row_by_id_None)

lemma lookup_delete_other:
  "j \<noteq> i \<Longrightarrow> row_by_id rid j (delete_where (\<lambda>r. rid r = i) t) = row_by_id rid j t"
  unfolding row_by_id_def delete_where_def by (rule find_filter_id) auto

lemma lookup_updated:
  "(\<And>r. rid (f r) = rid r) \<Longrightarrow>
   row_by_id rid j (update_where (\<lambda>r. rid r = i) f t) =
     map_option (\<lambda>r. if j = i then f r else r) (row_by_id rid j t)"
  by (induction t) (auto simp: row_by_id_def update_where_def)

end

end
