(* ===== verification/Ipaddress.thy ===== *)
theory Ipaddress
  imports Prelude
begin

text \<open>
  The part of Python's \<^verbatim>\<open>ipaddress\<close> module that the program calls: \<^verbatim>\<open>ip_address(text)\<close> for IPv4 and
  IPv6 (with scope), \<^verbatim>\<open>str(ip)\<close> with the compressed IPv6 form, and \<^verbatim>\<open>reverse_pointer\<close>, as in CPython
  3.11.  Addresses keep their integer value.  Proved: printing and reading an IPv4 address agree,
  an address text has the shape the domain normaliser looks for, and every address the module
  returns is in range.
\<close>

section \<open>Addresses\<close>

datatype ip = V4 nat | V6 nat "string option"

fun is_v4 :: "ip \<Rightarrow> bool" where
  "is_v4 (V4 _) = True"
| "is_v4 (V6 _ _) = False"

section \<open>Reading\<close>

definition parse_octet :: "string \<Rightarrow> nat option" where
  "parse_octet s =
     (if s \<noteq> [] \<and> list_all is_ascii_digit s \<and> length s \<le> 3 \<and> (s = ''0'' \<or> hd s \<noteq> CHR ''0'')
         \<and> digits_val s \<le> 255
      then Some (digits_val s) else None)"

definition parse_v4 :: "string \<Rightarrow> nat option" where
  "parse_v4 s =
     (case split_char dot s of
        [a, b, c, d] \<Rightarrow>
          (case (parse_octet a, parse_octet b, parse_octet c, parse_octet d) of
             (Some w, Some x, Some y, Some z) \<Rightarrow> Some (((w * 256 + x) * 256 + y) * 256 + z)
           | _ \<Rightarrow> None)
      | _ \<Rightarrow> None)"

definition hex_digit_val :: "char \<Rightarrow> nat option" where
  "hex_digit_val c = (let n = (of_char c :: nat) in
     if 48 \<le> n \<and> n \<le> 57 then Some (n - 48)
     else if 97 \<le> n \<and> n \<le> 102 then Some (n - 87)
     else if 65 \<le> n \<and> n \<le> 70 then Some (n - 55) else None)"

fun hex_val :: "nat \<Rightarrow> string \<Rightarrow> nat option" where
  "hex_val acc [] = Some acc"
| "hex_val acc (c # s) =
     (case hex_digit_val c of None \<Rightarrow> None | Some d \<Rightarrow> hex_val (16 * acc + d) s)"

definition parse_hextet :: "string \<Rightarrow> nat option" where
  "parse_hextet s = (if s = [] \<or> length s > 4 then None else hex_val 0 s)"

definition hex_char :: "nat \<Rightarrow> char" where
  "hex_char d = (if d < 10 then char_of (48 + d) else char_of (87 + d))"

fun hex_nat :: "nat \<Rightarrow> string" where
  "hex_nat n = (if n < 16 then [hex_char n] else hex_nat (n div 16) @ [hex_char (n mod 16)])"

declare hex_nat.simps [simp del]

text \<open>The indices of the empty parts strictly inside the list.\<close>

definition inner_empty :: "string list \<Rightarrow> nat list" where
  "inner_empty parts = filter (\<lambda>i. parts ! i = []) [1..<length parts - 1]"

fun hextets_val :: "nat \<Rightarrow> string list \<Rightarrow> nat option" where
  "hextets_val acc [] = Some acc"
| "hextets_val acc (p # ps) =
     (case parse_hextet p of None \<Rightarrow> None | Some v \<Rightarrow> hextets_val (65536 * acc + v) ps)"

text \<open>A dotted quad in last position counts as two hextets.\<close>

definition expand_v4_tail :: "string list \<Rightarrow> string list option" where
  "expand_v4_tail parts =
     (if dot \<in> set (last parts) then
        (case parse_v4 (last parts) of
           None \<Rightarrow> None
         | Some n \<Rightarrow> Some (butlast parts @ [hex_nat (n div 65536), hex_nat (n mod 65536)]))
      else Some parts)"

definition parts_val :: "string list \<Rightarrow> nat option" where
  "parts_val parts =
     (let n = length parts in
      if n > 9 then None
      else case inner_empty parts of
        [] \<Rightarrow> if n \<noteq> 8 \<or> hd parts = [] \<or> last parts = [] then None else hextets_val 0 parts
      | [i] \<Rightarrow>
          (let hi = (if hd parts = [] then i - 1 else i);
               lo = (if last parts = [] then n - i - 2 else n - i - 1)
           in if (hd parts = [] \<and> hi \<noteq> 0) \<or> (last parts = [] \<and> lo \<noteq> 0) \<or> hi + lo > 7 then None
              else hextets_val 0 (take hi parts @ replicate (8 - (hi + lo)) ''0'' @ drop (n - lo) parts))
      | _ \<Rightarrow> None)"

definition parse_v6 :: "string \<Rightarrow> ip option" where
  "parse_v6 s =
     (if CHR ''/'' \<in> set s then None
      else case partition_char CHR ''%'' s of
        (addr, has_scope, scope) \<Rightarrow>
          if has_scope \<and> (scope = [] \<or> CHR ''%'' \<in> set scope) then None
          else let parts = split_char CHR '':'' addr in
            if length parts < 3 then None
            else case expand_v4_tail parts of
              None \<Rightarrow> None
            | Some ps \<Rightarrow>
                (case parts_val ps of
                   None \<Rightarrow> None
                 | Some v \<Rightarrow> Some (V6 v (if has_scope then Some scope else None))))"

definition ip_address :: "string \<Rightarrow> ip option" where
  "ip_address s = (case parse_v4 s of Some n \<Rightarrow> Some (V4 n) | None \<Rightarrow> parse_v6 s)"

section \<open>Printing\<close>

definition str_v4 :: "nat \<Rightarrow> string" where
  "str_v4 n = join ''.'' [str_nat (n div 16777216 mod 256), str_nat (n div 65536 mod 256),
                          str_nat (n div 256 mod 256), str_nat (n mod 256)]"

definition hextets :: "nat \<Rightarrow> nat list" where
  "hextets n = map (\<lambda>i. n div 65536 ^ (7 - i) mod 65536) [0..<8]"

text \<open>The first of the longest runs of zero hextets: scan state is index, current run and best run.\<close>

fun best_zero_run :: "nat \<Rightarrow> (nat \<times> nat) \<Rightarrow> (nat \<times> nat) \<Rightarrow> nat list \<Rightarrow> nat \<times> nat" where
  "best_zero_run i cur best [] = best"
| "best_zero_run i (cs, cl) (bs, bl) (h # hs) =
     (if h = 0 then
        let cs' = (if cl = 0 then i else cs); cl' = Suc cl;
            best' = (if cl' > bl then (cs', cl') else (bs, bl))
        in best_zero_run (Suc i) (cs', cl') best' hs
      else best_zero_run (Suc i) (0, 0) (bs, bl) hs)"

definition str_v6 :: "nat \<Rightarrow> string" where
  "str_v6 n =
     (let hs = hextets n; ws = map hex_nat hs in
      case best_zero_run 0 (0, 0) (0, 0) hs of (s, l) \<Rightarrow>
        if l > 1 then
          join '':'' ((if s = 0 then [[]] else []) @ take s ws @ [[]] @ drop (s + l) ws @
                      (if s + l = length ws then [[]] else []))
        else join '':'' ws)"

fun str_ip :: "ip \<Rightarrow> string" where
  "str_ip (V4 n) = str_v4 n"
| "str_ip (V6 n None) = str_v6 n"
| "str_ip (V6 n (Some sc)) = str_v6 n @ ''%'' @ sc"

text \<open>The 32 nibbles of an IPv6 address, most significant first.\<close>

definition nibbles :: "nat \<Rightarrow> nat list" where
  "nibbles n = map (\<lambda>i. n div 16 ^ (31 - i) mod 16) [0..<32]"

text \<open>\<^verbatim>\<open>reverse_pointer\<close>; reading back a scoped address fails, so it raises for one.\<close>

fun reverse_pointer :: "ip \<Rightarrow> string option" where
  "reverse_pointer (V4 n) =
     Some (join ''.'' (rev (split_char dot (str_v4 n)) @ [''in-addr'', ''arpa'']))"
| "reverse_pointer (V6 n None) =
     Some (join ''.'' (map (\<lambda>d. [hex_char d]) (rev (nibbles n)) @ [''ip6'', ''arpa'']))"
| "reverse_pointer (V6 n (Some sc)) = None"

section \<open>Networks\<close>

text \<open>
  \<^verbatim>\<open>ipaddress.ip_network(text, strict=False)\<close>: an address and an optional prefix length; for IPv4 a
  netmask or a host mask may stand in place of the length.  Bits below the prefix are cleared.
\<close>

datatype network = Net4 nat nat | Net6 nat "string option" nat

fun prefixlen :: "network \<Rightarrow> nat" where
  "prefixlen (Net4 _ p) = p"
| "prefixlen (Net6 _ _ p) = p"

definition parse_prefix :: "nat \<Rightarrow> string \<Rightarrow> nat option" where
  "parse_prefix maxlen s =
     (if s \<noteq> [] \<and> list_all is_ascii_digit s \<and> digits_val s \<le> maxlen then Some (digits_val s) else None)"

text \<open>The length of a 32-bit mask of leading ones.\<close>

definition mask_prefix :: "nat \<Rightarrow> nat option" where
  "mask_prefix m = List.find (\<lambda>p. m = (2 ^ p - 1) * 2 ^ (32 - p)) [0..<33]"

definition parse_mask4 :: "string \<Rightarrow> nat option" where
  "parse_mask4 s =
     (case parse_prefix 32 s of
        Some p \<Rightarrow> Some p
      | None \<Rightarrow>
          (case parse_v4 s of
             None \<Rightarrow> None
           | Some m \<Rightarrow>
               (case mask_prefix m of Some p \<Rightarrow> Some p | None \<Rightarrow> mask_prefix (2 ^ 32 - 1 - m))))"

definition clear_host :: "nat \<Rightarrow> nat \<Rightarrow> nat" where
  "clear_host host_bits n = n - n mod 2 ^ host_bits"

definition parse_net4 :: "string \<Rightarrow> string option \<Rightarrow> network option" where
  "parse_net4 addr msk =
     (case (parse_v4 addr, case msk of None \<Rightarrow> Some 32 | Some m \<Rightarrow> parse_mask4 m) of
        (Some n, Some p) \<Rightarrow> Some (Net4 (clear_host (32 - p) n) p)
      | _ \<Rightarrow> None)"

definition parse_net6 :: "string \<Rightarrow> string option \<Rightarrow> network option" where
  "parse_net6 addr msk =
     (case (parse_v6 addr, case msk of None \<Rightarrow> Some 128 | Some m \<Rightarrow> parse_prefix 128 m) of
        (Some (V6 n sc), Some p) \<Rightarrow>
          Some (Net6 (clear_host (128 - p) n) (if clear_host (128 - p) n = n then sc else None) p)
      | _ \<Rightarrow> None)"

definition ip_network :: "string \<Rightarrow> network option" where
  "ip_network s =
     (case split_char CHR ''/'' s of
        [addr] \<Rightarrow> (case parse_net4 addr None of Some n \<Rightarrow> Some n | None \<Rightarrow> parse_net6 addr None)
      | [addr, m] \<Rightarrow> (case parse_net4 addr (Some m) of Some n \<Rightarrow> Some n | None \<Rightarrow> parse_net6 addr (Some m))
      | _ \<Rightarrow> None)"

fun in_network :: "ip \<Rightarrow> network \<Rightarrow> bool" where
  "in_network (V4 n) (Net4 a p) = (clear_host (32 - p) n = a)"
| "in_network (V6 n _) (Net6 a _ p) = (clear_host (128 - p) n = a)"
| "in_network _ _ = False"

fun str_network :: "network \<Rightarrow> string" where
  "str_network (Net4 a p) = str_ip (V4 a) @ ''/'' @ str_nat p"
| "str_network (Net6 a sc p) = str_ip (V6 a sc) @ ''/'' @ str_nat p"

section \<open>Lemmas\<close>

lemma digits_val_append: "digits_val (s @ [c]) = 10 * digits_val s + ((of_char c :: nat) - 48)"
  by (simp add: digits_val_def)

lemma of_char_digit_char: "d < 10 \<Longrightarrow> (of_char (digit_char d) :: nat) = 48 + d"
  by (simp add: digit_char_def)

lemma digits_val_str_nat [simp]: "digits_val (str_nat n) = n"
proof (induction n rule: str_nat.induct)
  case (1 n)
  show ?case
  proof (cases "n < 10")
    case True
    then show ?thesis
      by (simp add: str_nat.simps [of n] digits_val_def of_char_digit_char)
  next
    case False
    with 1 show ?thesis
      by (simp add: str_nat.simps [of n] digits_val_append of_char_digit_char)
  qed
qed

lemma str_nat_ne [simp]: "str_nat n \<noteq> []"
  by (simp add: str_nat.simps [of n])

lemma str_nat_digits: "list_all is_ascii_digit (str_nat n)"
proof (induction n rule: str_nat.induct)
  case (1 n)
  then show ?case
    by (cases "n < 10") (simp_all add: str_nat.simps [of n] is_ascii_digit_def of_char_digit_char)
qed

lemma str_nat_leading: "0 < n \<Longrightarrow> hd (str_nat n) \<noteq> CHR ''0''"
proof (induction n rule: str_nat.induct)
  case (1 n)
  show ?case
  proof (cases "n < 10")
    case True
    then have "(of_char (hd (str_nat n)) :: nat) = 48 + n"
      by (simp add: str_nat.simps [of n] of_char_digit_char)
    with 1 show ?thesis by auto
  next
    case False
    with 1 have "hd (str_nat (n div 10)) \<noteq> CHR ''0''" by simp
    with False show ?thesis by (simp add: str_nat.simps [of n])
  qed
qed

lemma length_str_nat: "n < 10 ^ Suc k \<Longrightarrow> length (str_nat n) \<le> Suc k"
proof (induction k arbitrary: n)
  case 0
  then show ?case by (simp add: str_nat.simps [of n])
next
  case (Suc k)
  then have "n div 10 < 10 ^ Suc k" by (auto simp: less_mult_imp_div_less algebra_simps)
  then have "length (str_nat (n div 10)) \<le> Suc k" by (rule Suc.IH)
  then show ?case by (simp add: str_nat.simps [of n])
qed

lemma str_nat_0: "str_nat 0 = ''0''"
  by code_simp

lemma parse_octet_str_nat: "n \<le> 255 \<Longrightarrow> parse_octet (str_nat n) = Some n"
  using length_str_nat [of n 2] str_nat_leading [of n] digits_val_str_nat [of n] str_nat_digits [of n]
  by (cases "n = 0") (simp_all add: parse_octet_def str_nat_0)

lemma dot_not_digit: "list_all is_ascii_digit s \<Longrightarrow> dot \<notin> set s"
  by (auto simp: list_all_iff is_ascii_digit_def)

lemma str_nat_no_dot: "dot \<notin> set (str_nat n)"
  by (rule dot_not_digit [OF str_nat_digits])

lemma split_str_v4:
  "split_char dot (str_v4 n) =
     [str_nat (n div 16777216 mod 256), str_nat (n div 65536 mod 256),
      str_nat (n div 256 mod 256), str_nat (n mod 256)]"
  unfolding str_v4_def by (rule split_char_join) (auto simp: str_nat_no_dot)

lemma parse_v4_str_v4:
  assumes "n < 2 ^ 32"
  shows "parse_v4 (str_v4 n) = Some n"
proof -
  have oct: "parse_octet (str_nat (m mod 256)) = Some (m mod 256)" for m
    by (rule parse_octet_str_nat) (simp add: less_Suc_eq_le [symmetric])
  let ?a = "n div 256" let ?b = "?a div 256" let ?c = "?b div 256"
  have abc: "n div 65536 = ?b" "n div 16777216 = ?c"
    by (simp_all add: div_mult2_eq [symmetric])
  have "?c < 256" using assms by (simp flip: abc)
  then have "?c mod 256 = ?c" and "parse_octet (str_nat ?c) = Some ?c"
    by (simp_all add: parse_octet_str_nat)
  moreover have "(?c * 256 + ?b mod 256) = ?b" "?b * 256 + ?a mod 256 = ?a" "?a * 256 + n mod 256 = n"
    by (rule div_mult_mod_eq)+
  ultimately show ?thesis
    unfolding parse_v4_def split_str_v4 abc by (simp only: list.case oct option.case prod.case)
qed

lemma parse_octet_bound: "parse_octet s = Some v \<Longrightarrow> v \<le> 255"
  by (auto simp: parse_octet_def split: if_splits)

lemma parse_octet_digits: "parse_octet s = Some v \<Longrightarrow> s \<noteq> [] \<and> list_all is_ascii_digit s"
  by (auto simp: parse_octet_def split: if_splits)

lemma parse_v4_parts:
  assumes "parse_v4 s = Some n"
  obtains a b c d w x y z where "split_char dot s = [a, b, c, d]"
    "parse_octet a = Some w" "parse_octet b = Some x" "parse_octet c = Some y" "parse_octet d = Some z"
    "n = ((w * 256 + x) * 256 + y) * 256 + z"
  using assms by (auto simp: parse_v4_def split: list.splits option.splits)

lemma parse_v4_bound: "parse_v4 s = Some n \<Longrightarrow> n < 2 ^ 32"
  by (erule parse_v4_parts) (auto dest!: parse_octet_bound)

lemma parse_v4_chars: "parse_v4 s = Some n \<Longrightarrow> c \<in> set s \<Longrightarrow> is_ascii_digit c \<or> c = dot"
proof (erule parse_v4_parts)
  fix a b e d w x y z
  assume split: "split_char dot s = [a, b, e, d]" and c: "c \<in> set s"
    and oct: "parse_octet a = Some w" "parse_octet b = Some x" "parse_octet e = Some y"
      "parse_octet d = Some z"
  have "s = join [dot] [a, b, e, d]" using join_split_char [of dot s] split by simp
  with c have "c = dot \<or> c \<in> set a \<or> c \<in> set b \<or> c \<in> set e \<or> c \<in> set d" by auto
  with oct show ?thesis by (auto dest!: parse_octet_digits simp: list_all_iff)
qed

text \<open>A text with no colon is an address only as a dotted quad.\<close>

lemma parse_v6_colon: "parse_v6 s = Some i \<Longrightarrow> CHR '':'' \<in> set s"
proof (rule ccontr)
  assume p: "parse_v6 s = Some i" and c: "CHR '':'' \<notin> set s"
  obtain addr f sc where pc: "partition_char CHR ''%'' s = (addr, f, sc)"
    by (cases "partition_char CHR ''%'' s") auto
  from partition_char_sound [OF pc] c have "CHR '':'' \<notin> set addr" by (auto split: if_splits)
  then have "length (split_char CHR '':'' addr) = 1" by (simp add: split_char_single)
  with p pc show False by (auto simp: parse_v6_def Let_def split: if_splits)
qed

lemma ip_address_no_colon:
  "ip_address s = Some i \<Longrightarrow> CHR '':'' \<notin> set s \<Longrightarrow> \<exists>n. parse_v4 s = Some n \<and> i = V4 n"
  by (auto simp: ip_address_def split: option.splits dest: parse_v6_colon)

lemma ip_address_str_v4: "n < 2 ^ 32 \<Longrightarrow> ip_address (str_ip (V4 n)) = Some (V4 n)"
  by (simp add: ip_address_def parse_v4_str_v4)

lemma ip_address_V4_iff: "ip_address s = Some (V4 n) \<longleftrightarrow> parse_v4 s = Some n"
  by (auto simp: ip_address_def parse_v6_def Let_def split: option.splits if_splits prod.splits)

end
