(* ===== verification/Domain_Names.thy ===== *)
theory Domain_Names
  imports Ipaddress
begin

text \<open>
  Domain-name validation.  \<^verbatim>\<open>normalize_domain\<close> of \<^verbatim>\<open>app/alderpointdns_compiler.py\<close> is the gate every
  filter rule and every blocklist line goes through; \<^verbatim>\<open>normalize_domain\<close>, \<^verbatim>\<open>validate_label\<close> and
  \<^verbatim>\<open>normalize_fqdn\<close> of \<^verbatim>\<open>app/local_dns.py\<close> are its counterparts for local records (prefix \<open>local_\<close>).
  The regular expressions of the source are given as predicates on the dot-separated labels; the
  Python rule that a pattern's final \<^verbatim>\<open>$\<close> also matches before one trailing line feed is kept
  (\<open>drop_final_newline\<close>).

  Parameters: \<open>idna_unicode\<close> is the IDNA codec on a name with non-ASCII characters, \<open>re_compile_error\<close>
  and \<open>re_search\<close> are Python's regular-expression compiler and matcher, \<open>ip_is_private\<close> the
  address-registry lookup of the \<^verbatim>\<open>ipaddress\<close> module.
\<close>

record stdlib =
  idna_unicode :: "string \<Rightarrow> string option"
  re_compile_error :: "string \<Rightarrow> string option"
  re_search :: "string \<Rightarrow> string \<Rightarrow> bool"
  ip_is_private :: "ip \<Rightarrow> bool"

text \<open>An instance for examples: no IDNA names, every pattern compiles and matches nothing, private IPv4.\<close>

definition plain_lib :: stdlib where
  "plain_lib = \<lparr>idna_unicode = (\<lambda>_. None), re_compile_error = (\<lambda>_. None), re_search = (\<lambda>_ _. False),
     ip_is_private = is_v4\<rparr>"

section \<open>Labels\<close>

definition newline :: char where
  "newline = CHR 0x0A"

definition ldh_char :: "char \<Rightarrow> bool" where
  "ldh_char c = (is_ascii_lower c \<or> is_ascii_digit c)"

definition ldh_underscore :: "char \<Rightarrow> bool" where
  "ldh_underscore c = (ldh_char c \<or> c = CHR ''_'')"

text \<open>\<^verbatim>\<open>[x](?:[x-]{0,61}[x])?\<close> for a character class \<^verbatim>\<open>x\<close>\<close>

definition label_re :: "(char \<Rightarrow> bool) \<Rightarrow> string \<Rightarrow> bool" where
  "label_re p s =
     (s \<noteq> [] \<and> length s \<le> 63 \<and> p (hd s) \<and> p (last s) \<and> list_all (\<lambda>c. p c \<or> c = CHR ''-'') s)"

definition drop_final_newline :: "string \<Rightarrow> string" where
  "drop_final_newline s = (if s \<noteq> [] \<and> last s = newline then butlast s else s)"

text \<open>\<^verbatim>\<open>DOMAIN_RE\<close> of the compiler: at least two labels, an optional final dot, at most 253 characters
  before it.\<close>

definition domain_re :: "string \<Rightarrow> bool" where
  "domain_re s =
     (let b = drop_final_newline s; parts = split_char dot b;
          labels = (if last parts = [] then butlast parts else parts)
      in (if last parts = [] then length b \<le> 254 else length b \<le> 253)
         \<and> 2 \<le> length labels \<and> list_all (label_re ldh_underscore) labels)"

section \<open>\<open>normalize_domain\<close> of the compiler\<close>

definition looks_like_ip_literal :: "string \<Rightarrow> bool" where
  "looks_like_ip_literal value =
     (if CHR '':'' \<in> set value then True
      else if dot \<notin> set value then False
      else list_all (list_all py_isdigit) (filter (\<lambda>part. part \<noteq> []) (split_char dot value)))"

definition could_be_ip_literal :: "string \<Rightarrow> bool" where
  "could_be_ip_literal value =
     (case value of [] \<Rightarrow> False
      | first # _ \<Rightarrow> py_isdigit first \<or> first = CHR '':'' \<or> CHR '':'' \<in> set value)"

definition is_hosts_line :: "string \<Rightarrow> bool" where
  "is_hosts_line first_token =
     (if \<not> could_be_ip_literal first_token then False else ip_address first_token \<noteq> None)"

definition normalize_domain :: "stdlib \<Rightarrow> string \<Rightarrow> string option" where
  "normalize_domain lib raw =
     (let value = py_lower (strip_dots (py_strip raw)) in
      if value = [] \<or> length value > 253 then None
      else if contains value ''://'' \<or> CHR ''/'' \<in> set value \<or> CHR '':'' \<in> set value \<or> CHR ''@'' \<in> set value
      then None
      else case (if \<not> py_isascii value then idna_unicode lib value else Some value) of
        None \<Rightarrow> None
      | Some v \<Rightarrow>
          if \<not> domain_re (v @ [dot]) then None
          else if looks_like_ip_literal v \<and> ip_address v \<noteq> None then None
          else Some v)"

section \<open>Validation of local records\<close>

text \<open>\<^verbatim>\<open>s.encode("idna")\<close>: an ASCII name is returned unchanged when its labels have legal lengths.\<close>

definition idna_encode :: "stdlib \<Rightarrow> string \<Rightarrow> string option" where
  "idna_encode lib s =
     (if py_isascii s then
        (let labels = split_char dot s in
         if list_all (\<lambda>l. 0 < length l \<and> length l < 64) (butlast labels) \<and> length (last labels) < 64
         then Some s else None)
      else idna_unicode lib s)"

definition local_domain_re :: "string \<Rightarrow> bool" where
  "local_domain_re s =
     (let b = drop_final_newline s; labels = split_char dot b
      in length b \<le> 253 \<and> 2 \<le> length labels \<and> list_all (label_re ldh_char) labels)"

definition local_normalize_domain :: "stdlib \<Rightarrow> string \<Rightarrow> string result" where
  "local_normalize_domain lib value =
     (let domain = py_lower (strip_dots (py_strip value)) in
      if domain = ''local''
      then Inl ''.local conflicts with multicast DNS; use home.arpa or another internal domain''
      else case idna_encode lib domain of
        None \<Rightarrow> Inl ''domain is not valid IDNA''
      | Some d \<Rightarrow> if \<not> local_domain_re d then Inl ''domain is invalid'' else Inr d)"

definition validate_label :: "string \<Rightarrow> string result" where
  "validate_label value =
     (let label = py_lower (strip_dots (py_strip value)) in
      if \<not> label_re ldh_char (drop_final_newline label) then Inl ''hostname is invalid''
      else Inr label)"

text \<open>A value of a form field or a JSON document: an integer or a text.\<close>

datatype pyval = PyInt int | PyStr string | PyBool bool | PyNone

text \<open>\<^verbatim>\<open>int(text)\<close>: blanks around, an optional sign, digits with single underscores between them.\<close>

fun int_digits :: "bool \<Rightarrow> string \<Rightarrow> string option" where
  "int_digits prev_digit [] = (if prev_digit then Some [] else None)"
| "int_digits prev_digit (c # s) =
     (if is_ascii_digit c then map_option (\<lambda>t. c # t) (int_digits True s)
      else if c = CHR ''_'' \<and> prev_digit then int_digits False s
      else None)"

definition int_of_str :: "string \<Rightarrow> int option" where
  "int_of_str raw =
     (let s = py_strip raw in
      case s of
        [] \<Rightarrow> None
      | c # t \<Rightarrow>
          if c = CHR ''-'' then map_option (\<lambda>d. - int (digits_val d)) (int_digits False t)
          else if c = CHR ''+'' then map_option (\<lambda>d. int (digits_val d)) (int_digits False t)
          else map_option (\<lambda>d. int (digits_val d)) (int_digits False s))"

fun py_int :: "pyval \<Rightarrow> int option" where
  "py_int (PyInt i) = Some i"
| "py_int (PyStr s) = int_of_str s"
| "py_int (PyBool b) = Some (if b then 1 else 0)"
| "py_int PyNone = None"

definition validate_ttl :: "pyval \<Rightarrow> int result" where
  "validate_ttl value =
     (case py_int value of
        None \<Rightarrow> Inl ''TTL must be a number''
      | Some ttl \<Rightarrow>
          if ttl < 30 \<or> ttl > 86400 then Inl ''TTL must be between 30 and 86400 seconds''
          else Inr ttl)"

definition normalize_fqdn :: "stdlib \<Rightarrow> string \<Rightarrow> string option \<Rightarrow> string result" where
  "normalize_fqdn lib value domain =
     (let fqdn = py_lower (strip_dots (py_strip value)) in
      case domain of
        Some d \<Rightarrow>
          if d \<noteq> [] \<and> dot \<notin> set fqdn then
            (case validate_label fqdn of
               Inl e \<Rightarrow> Inl e
             | Inr l \<Rightarrow> local_normalize_domain lib (l @ [dot] @ d))
          else local_normalize_domain lib fqdn
      | None \<Rightarrow> local_normalize_domain lib fqdn)"

section \<open>Well-formed names\<close>

definition wf_domain :: "string \<Rightarrow> bool" where
  "wf_domain d =
     (length d \<le> 253 \<and> 2 \<le> length (split_char dot d) \<and>
      list_all (label_re ldh_underscore) (split_char dot d))"

text \<open>What the compiler's normaliser returns: well formed, and not the text of an IP address.\<close>

definition wf_name :: "string \<Rightarrow> bool" where
  "wf_name d = (wf_domain d \<and> ip_address d = None)"

definition name_char :: "char \<Rightarrow> bool" where
  "name_char c = (ldh_underscore c \<or> c = CHR ''-'' \<or> c = dot)"

lemma label_re_chars: "label_re p s \<Longrightarrow> c \<in> set s \<Longrightarrow> p c \<or> c = CHR ''-''"
  by (auto simp: label_re_def list_all_iff)

lemma in_split_char: "x \<in> set s \<Longrightarrow> x = c \<or> (\<exists>w\<in>set (split_char c s). x \<in> set w)"
  by (induction s) (auto split: list.splits if_splits)

lemma wf_domain_chars: "wf_domain d \<Longrightarrow> c \<in> set d \<Longrightarrow> name_char c"
  unfolding wf_domain_def name_char_def list_all_iff
  using in_split_char [of c d dot] by (auto dest: label_re_chars)

lemma name_char_facts:
  assumes "name_char c"
  shows "is_ascii c" "\<not> py_isspace c" "\<not> is_control c" "\<not> is_linebreak c" "lower_char c = c"
    "c \<notin> set ''/:@;$!#^|*%''"
  using assms
  by (auto simp: name_char_def ldh_underscore_def ldh_char_def is_ascii_lower_def is_ascii_digit_def
      is_ascii_def py_isspace_def is_control_def is_linebreak_def lower_char_def Let_def)

lemma split_char_ends:
  "s \<noteq> [] \<Longrightarrow> hd (split_char c s) \<noteq> [] \<Longrightarrow> hd s \<noteq> c"
  by (cases s) (auto split: if_splits)

lemma split_char_last_ends: "s \<noteq> [] \<Longrightarrow> last (split_char c s) \<noteq> [] \<Longrightarrow> last s \<noteq> c"
proof (induction s)
  case (Cons x s)
  then show ?case by (cases s) (auto split: list.splits if_splits)
qed simp

lemma wf_domain_ne: "wf_domain d \<Longrightarrow> d \<noteq> []"
  by (auto simp: wf_domain_def)

lemma wf_domain_labels_ne: "wf_domain d \<Longrightarrow> w \<in> set (split_char dot d) \<Longrightarrow> w \<noteq> []"
  by (auto simp: wf_domain_def list_all_iff label_re_def)

lemma wf_domain_no_edge_dot:
  assumes "wf_domain d"
  shows "hd d \<noteq> dot" "last d \<noteq> dot"
  using split_char_ends [of d dot] split_char_last_ends [of d dot] wf_domain_ne [OF assms]
    wf_domain_labels_ne [OF assms]
  by (metis hd_in_set last_in_set split_char_ne)+

lemma wf_domain_strip: "wf_domain d \<Longrightarrow> py_strip d = d"
  by (rule strip_by_none) (use wf_domain_chars name_char_facts in blast)

lemma wf_domain_strip_dots: "wf_domain d \<Longrightarrow> strip_dots d = d"
  by (rule strip_by_id) (use wf_domain_no_edge_dot in blast)

lemma wf_domain_lower: "wf_domain d \<Longrightarrow> py_lower d = d"
  unfolding py_lower_def by (rule map_idI) (use wf_domain_chars name_char_facts in blast)

lemma wf_domain_ascii: "wf_domain d \<Longrightarrow> py_isascii d"
  unfolding py_isascii_def list_all_iff using wf_domain_chars name_char_facts by blast

lemma wf_domain_excludes:
  assumes "wf_domain d" "c \<in> set ''/:@;$!#^|*%''"
  shows "c \<notin> set d"
  using assms wf_domain_chars name_char_facts(6) by blast

lemma domain_re_dot: "domain_re (v @ [dot]) \<longleftrightarrow> wf_domain v"
proof -
  have "drop_final_newline (v @ [dot]) = v @ [dot]"
    by (simp add: drop_final_newline_def newline_def)
  moreover have "split_char dot (v @ [dot]) = split_char dot v @ [[]]"
    using split_char_append [of dot v "[]"] by simp
  ultimately show ?thesis by (auto simp: domain_re_def wf_domain_def Let_def)
qed

text \<open>An address text is recognised by the cheap test that guards the address parser.\<close>

lemma parse_v4_looks_like_ip: "parse_v4 v = Some n \<Longrightarrow> looks_like_ip_literal v"
proof (erule parse_v4_parts)
  fix a b c d w x y z
  assume split: "split_char dot v = [a, b, c, d]"
    and oct: "parse_octet a = Some w" "parse_octet b = Some x" "parse_octet c = Some y"
      "parse_octet d = Some z"
  from split have "dot \<in> set v" using split_char_single [of dot v] by auto
  moreover have "list_all py_isdigit l" if "parse_octet l = Some k" for l k
    using parse_octet_digits [OF that] by (simp add: list_all_iff py_isdigit_def Let_def)
  ultimately show ?thesis using oct by (simp add: looks_like_ip_literal_def split)
qed

lemma normalize_domain_name:
  assumes "normalize_domain lib raw = Some d"
  shows "wf_name d"
proof -
  from assms have wf: "wf_domain d" and ip: "\<not> (looks_like_ip_literal d \<and> ip_address d \<noteq> None)"
    by (auto simp: normalize_domain_def Let_def domain_re_dot split: if_splits option.splits)
  have "CHR '':'' \<notin> set d" using wf by (rule wf_domain_excludes) simp
  with ip have "ip_address d = None"
    by (cases "ip_address d") (auto dest: ip_address_no_colon parse_v4_looks_like_ip)
  with wf show ?thesis by (simp add: wf_name_def)
qed

lemma normalize_domain_fix:
  assumes "wf_name d"
  shows "normalize_domain lib d = Some d"
proof -
  from assms have wf: "wf_domain d" and ip: "ip_address d = None" by (auto simp: wf_name_def)
  have no: "CHR ''/'' \<notin> set d" "CHR '':'' \<notin> set d" "CHR ''@'' \<notin> set d"
    using wf by (auto elim: wf_domain_excludes [THEN notE])
  moreover have "\<not> contains d ''://''" using no by (auto simp: contains_iff)
  moreover have "length d \<le> 253" "d \<noteq> []" using wf wf_domain_ne by (auto simp: wf_domain_def)
  ultimately show ?thesis using wf ip
    by (simp add: normalize_domain_def Let_def wf_domain_strip wf_domain_strip_dots
        wf_domain_lower wf_domain_ascii domain_re_dot)
qed

section \<open>The normaliser as an interface\<close>

text \<open>
  What the rule parser and the blocklist parser rely on: an accepted text has a canonical name, and
  a canonical name is its own normal form.
\<close>

locale name_normalizer =
  fixes norm :: "string \<Rightarrow> string option"
    and canonical :: "string \<Rightarrow> bool"
  assumes norm_canonical: "norm raw = Some d \<Longrightarrow> canonical d"
    and canonical_fix: "canonical d \<Longrightarrow> norm d = Some d"
begin

lemma norm_idem: "norm raw = Some d \<Longrightarrow> norm d = Some d"
  by (blast intro: norm_canonical canonical_fix)

lemma canonical_iff: "canonical d \<longleftrightarrow> norm d = Some d"
  by (blast intro: norm_canonical canonical_fix)

lemma norm_range: "(\<exists>raw. norm raw = Some d) \<longleftrightarrow> canonical d"
  by (blast intro: norm_canonical canonical_fix)

end

interpretation compiler_names: name_normalizer "normalize_domain lib" wf_name for lib
  by unfold_locales (auto intro: normalize_domain_name normalize_domain_fix)

section \<open>Lines\<close>

lemma newline_is_linebreak: "is_linebreak newline"
  by (simp add: is_linebreak_def newline_def)

lemma splitlines_aux_line:
  "\<forall>c\<in>set l. \<not> is_linebreak c \<Longrightarrow> splitlines_aux w (l @ newline # rest) = (rev w @ l) # splitlines_aux [] rest"
proof (induction l arbitrary: w)
  case Nil
  show ?case by (cases rest) (simp_all add: newline_is_linebreak, simp add: newline_def)
next
  case (Cons c l)
  have "c \<noteq> CHR 0x0D" using Cons.prems by (auto simp: is_linebreak_def)
  with Cons show ?case by (cases "l @ newline # rest") auto
qed

lemma splitlines_join:
  "ls \<noteq> [] \<Longrightarrow> \<forall>l\<in>set ls. \<forall>c\<in>set l. \<not> is_linebreak c \<Longrightarrow> splitlines (join [newline] ls @ [newline]) = ls"
proof -
  have "splitlines_aux [] (join [newline] ls @ [newline]) = ls"
    if "ls \<noteq> []" "\<forall>l\<in>set ls. \<forall>c\<in>set l. \<not> is_linebreak c"
    using that
  proof (induction "[newline]" ls rule: join.induct)
    case (2 x)
    then show ?case using splitlines_aux_line [of x "[]" "[]"] by simp
  next
    case (3 x y xs)
    then show ?case
      using splitlines_aux_line [of x "[]" "join [newline] (y # xs) @ [newline]"] by simp
  qed simp
  then show "ls \<noteq> [] \<Longrightarrow> \<forall>l\<in>set ls. \<forall>c\<in>set l. \<not> is_linebreak c \<Longrightarrow> ?thesis" by (simp add: splitlines_def)
qed

lemma splitlines_concat:
  assumes "\<forall>l\<in>set ls. \<forall>c\<in>set l. \<not> is_linebreak c"
  shows "splitlines (concat (map (\<lambda>l. l @ [newline]) ls)) = ls"
proof -
  have "splitlines_aux [] (concat (map (\<lambda>l. l @ [newline]) ls)) = ls"
    using assms by (induction ls) (simp_all add: splitlines_aux_line)
  then show ?thesis by (simp add: splitlines_def)
qed

section \<open>Properties\<close>

text \<open>
  a name accepted by the compiler's normaliser is canonical (lower case, 2 or more labels of at
  most 63 characters, at most 253 in all, not an address) and normalising it again changes nothing;
  and every canonical name is accepted as it is.
\<close>

theorem normalize_domain_canonical:
  assumes "normalize_domain lib raw = Some d"
  shows "wf_name d \<and> normalize_domain lib d = Some d"
  using compiler_names.norm_canonical [OF assms] compiler_names.norm_idem [OF assms] by blast

theorem normalize_domain_canonical_witness:
  "wf_name ''ads.example.com'' \<and> normalize_domain plain_lib ''ads.example.com'' = Some ''ads.example.com''"
  by (rule normalize_domain_canonical [of plain_lib "'' ADS.Example.com. ''"]) code_simp

end
