(* ===== verification/Regex_Safety.thy ===== *)
theory Regex_Safety
  imports Domain_Names
begin

text \<open>
  The checks a regular-expression rule must pass (\<^verbatim>\<open>app/custom_rules.py\<close>): \<^verbatim>\<open>_class_end\<close>,
  \<^verbatim>\<open>posix_ere_incompatibility\<close>, \<^verbatim>\<open>nested_quantifier_risk\<close>, and \<^verbatim>\<open>deployed_pattern\<close>, which rewrites the
  pattern written for dnsdist.  The scanners are index loops over the pattern, as in the source; the
  measure is the number of characters left.  A token view of a pattern (\<open>tokens\<close>) is the reference
  against which the portability scan is proved exact.
\<close>

abbreviation (input) backslash :: char where "backslash \<equiv> CHR 0x5C"

section \<open>Bracket expressions\<close>

function class_end_loop :: "string \<Rightarrow> nat \<Rightarrow> nat option" where
  "class_end_loop pattern i =
     (if i < length pattern then
        if pattern ! i = backslash then class_end_loop pattern (i + 2)
        else if pattern ! i = CHR '']'' then Some i
        else class_end_loop pattern (i + 1)
      else None)"
  by pat_completeness auto
termination
  by (relation "measure (\<lambda>(p, i). length p - i)") auto

declare class_end_loop.simps [simp del]

definition class_end :: "string \<Rightarrow> nat \<Rightarrow> nat option" where
  "class_end pattern start =
     (let i = start + 1;
          i = (if i < length pattern \<and> pattern ! i = CHR ''^'' then i + 1 else i);
          i = (if i < length pattern \<and> pattern ! i = CHR '']'' then i + 1 else i)
      in class_end_loop pattern i)"

lemma class_end_loop_bounds:
  "class_end_loop pattern i = Some e \<Longrightarrow> i \<le> e \<and> e < length pattern \<and> pattern ! e = CHR '']''"
proof (induction pattern i rule: class_end_loop.induct)
  case (1 pattern i)
  from "1.prems" 1(1,2) show ?case
    by (subst (asm) class_end_loop.simps) (auto split: if_splits)
qed

lemma class_end_bounds:
  "class_end pattern start = Some e \<Longrightarrow> start < e \<and> e < length pattern \<and> pattern ! e = CHR '']''"
  unfolding class_end_def Let_def by (drule class_end_loop_bounds) (auto split: if_splits)

section \<open>Portability to POSIX extended expressions\<close>

definition posix_quantifier :: "char \<Rightarrow> bool" where
  "posix_quantifier ch = (ch \<in> set ''*+?}'')"

function posix_scan :: "string \<Rightarrow> nat \<Rightarrow> bool \<Rightarrow> string option" where
  "posix_scan pattern i last_quantifiable =
     (if i < length pattern then
        let ch = pattern ! i in
        if ch = backslash then
          if i + 1 \<ge> length pattern then Some ''pattern ends with a trailing backslash''
          else if py_isalnum (pattern ! (i + 1))
          then Some (''escape sequence '' @ [backslash, pattern ! (i + 1)] @
                     '' is not portable to POSIX extended regex'')
          else posix_scan pattern (i + 2) False
        else if ch = CHR ''['' then
          (case class_end pattern i of
             None \<Rightarrow> Some ''unterminated character class''
           | Some e \<Rightarrow> posix_scan pattern (e + 1) False)
        else if ch = CHR ''('' \<and> i + 1 < length pattern \<and> pattern ! (i + 1) = CHR ''?'' then
          Some ''group constructs starting with (? are not portable to POSIX extended regex''
        else if ch = CHR ''?'' \<and> last_quantifiable then
          Some ''non-greedy quantifiers are not portable to POSIX extended regex''
        else posix_scan pattern (i + 1) (posix_quantifier ch)
      else None)"
  by pat_completeness auto
termination
  by (relation "measure (\<lambda>(p, i, q). length p - i)") (auto dest: class_end_bounds)

declare posix_scan.simps [simp del]

definition posix_ere_incompatibility :: "string \<Rightarrow> string option" where
  "posix_ere_incompatibility pattern = posix_scan pattern 0 False"

section \<open>Nested quantifiers\<close>

text \<open>
  \<open>stack\<close> holds one flag per open group, innermost first; it is never empty.
\<close>

definition mark_top :: "bool list \<Rightarrow> bool list" where
  "mark_top stack = (case stack of [] \<Rightarrow> [] | _ # s \<Rightarrow> True # s)"

definition find_from :: "char \<Rightarrow> string \<Rightarrow> nat \<Rightarrow> nat option" where
  "find_from c s i = map_option (\<lambda>k. i + k) (find_char c (drop i s))"

lemma find_from_ge: "find_from c s i = Some e \<Longrightarrow> i \<le> e"
  by (auto simp: find_from_def)

definition nested_reason :: string where
  "nested_reason = ''pattern contains a quantified atom nested inside a quantified group (catastrophic backtracking risk, e.g. (a+)+)''"

function nested_scan :: "string \<Rightarrow> nat \<Rightarrow> bool list \<Rightarrow> bool \<Rightarrow> string option" where
  "nested_scan pattern i stack last_quantifiable =
     (if i < length pattern then
        let ch = pattern ! i in
        if ch = backslash then nested_scan pattern (i + 2) stack True
        else if ch = CHR ''['' then
          (case class_end pattern i of
             None \<Rightarrow> None
           | Some e \<Rightarrow> nested_scan pattern (e + 1) stack True)
        else if ch = CHR ''('' then nested_scan pattern (i + 1) (False # stack) False
        else if ch = CHR '')'' then
          let inner_risk = (if length stack > 1 then hd stack else False);
              stack' = (if length stack > 1 then tl stack else stack)
          in if i + 1 < length pattern \<and> pattern ! (i + 1) \<in> set ''*+{'' \<and> inner_risk
             then Some nested_reason
             else nested_scan pattern (i + 1) stack' True
        else if ch \<in> set ''*+'' then
          nested_scan pattern (i + 1) (if last_quantifiable then mark_top stack else stack) False
        else if ch = CHR ''{'' then
          (case find_from CHR ''}'' pattern i of
             None \<Rightarrow> nested_scan pattern (i + 1) stack False
           | Some e \<Rightarrow>
               nested_scan pattern (e + 1) (if last_quantifiable then mark_top stack else stack) False)
        else if ch \<in> set ''|^$'' then nested_scan pattern (i + 1) stack False
        else nested_scan pattern (i + 1) stack True
      else None)"
  by pat_completeness auto
termination
  by (relation "measure (\<lambda>(p, i, s, q). length p - i)") (auto dest: class_end_bounds find_from_ge)

declare nested_scan.simps [simp del]

definition nested_quantifier_risk :: "string \<Rightarrow> string option" where
  "nested_quantifier_risk pattern = nested_scan pattern 0 [False] False"

text \<open>Both scanners give a reason when they refuse.\<close>

lemma nested_scan_reason: "nested_scan p i st q \<noteq> Some []"
proof (induction p i st q rule: nested_scan.induct)
  case (1 p i st q)
  show ?case
    by (subst nested_scan.simps) (use 1 in \<open>auto simp: Let_def nested_reason_def split: option.split\<close>)
qed

lemma posix_scan_reason: "posix_scan p i q \<noteq> Some []"
proof (induction p i q rule: posix_scan.induct)
  case (1 p i q)
  show ?case
    by (subst posix_scan.simps) (use 1 in \<open>auto simp: Let_def split: option.split\<close>)
qed

section \<open>The deployed pattern\<close>

definition deployed_pattern :: "string \<Rightarrow> string" where
  "deployed_pattern pattern =
     (if pattern \<noteq> [] \<and> last pattern = CHR ''$'' then
        let body = butlast pattern;
            trailing_backslashes = length body - length (rstrip_by (\<lambda>c. c = backslash) body)
        in if trailing_backslashes mod 2 = 0 then body @ [backslash] @ ''.?$'' else pattern
      else pattern)"

lemma deployed_pattern_chars:
  "c \<in> set (deployed_pattern p) \<Longrightarrow> c \<in> set p \<or> c \<in> {backslash, CHR ''.'', CHR ''?'', CHR ''$''}"
  by (auto simp: deployed_pattern_def Let_def split: if_splits dest: in_set_butlastD)

lemma deployed_pattern_no_control:
  "\<forall>c\<in>set p. \<not> is_control c \<Longrightarrow> \<forall>c\<in>set (deployed_pattern p). \<not> is_control c"
  by (auto dest!: deployed_pattern_chars simp: is_control_def Let_def)

lemma deployed_pattern_ne: "p \<noteq> [] \<Longrightarrow> deployed_pattern p \<noteq> []"
  by (auto simp: deployed_pattern_def Let_def)

section \<open>Reference: tokens\<close>

text \<open>
  A pattern is a sequence of escapes, bracket expressions and literal characters.  \<open>tokens\<close> reads
  it, or says why it cannot.  A token sequence is portable when no escape names a letter or digit, no
  group opens with a question mark, and no question mark follows a quantifier.
\<close>

datatype token = Esc char | Class | Lit char

function tokens :: "string \<Rightarrow> nat \<Rightarrow> token list option" where
  "tokens pattern i =
     (if i < length pattern then
        if pattern ! i = backslash then
          if i + 1 \<ge> length pattern then None
          else map_option (\<lambda>ts. Esc (pattern ! (i + 1)) # ts) (tokens pattern (i + 2))
        else if pattern ! i = CHR ''['' then
          (case class_end pattern i of
             None \<Rightarrow> None
           | Some e \<Rightarrow> map_option (\<lambda>ts. Class # ts) (tokens pattern (e + 1)))
        else map_option (\<lambda>ts. Lit (pattern ! i) # ts) (tokens pattern (i + 1))
      else Some [])"
  by pat_completeness auto
termination
  by (relation "measure (\<lambda>(p, i). length p - i)") (auto dest: class_end_bounds)

declare tokens.simps [simp del]

fun portable_from :: "bool \<Rightarrow> token list \<Rightarrow> bool" where
  "portable_from q [] = True"
| "portable_from q (Esc c # ts) = (\<not> py_isalnum c \<and> portable_from False ts)"
| "portable_from q (Class # ts) = portable_from False ts"
| "portable_from q (Lit c # ts) =
     (\<not> (c = CHR ''('' \<and> ts \<noteq> [] \<and> hd ts = Lit CHR ''?'') \<and>
      \<not> (c = CHR ''?'' \<and> q) \<and> portable_from (posix_quantifier c) ts)"

definition portable :: "string \<Rightarrow> bool" where
  "portable pattern = (\<exists>ts. tokens pattern 0 = Some ts \<and> portable_from False ts)"

lemma tokens_next_question:
  "tokens pattern i = Some ts \<Longrightarrow>
     (ts \<noteq> [] \<and> hd ts = Lit CHR ''?'') \<longleftrightarrow> (i < length pattern \<and> pattern ! i = CHR ''?'')"
  by (subst (asm) tokens.simps) (auto split: if_splits option.splits)

lemma posix_scan_portable:
  "posix_scan pattern i q = None \<longleftrightarrow>
     (\<exists>ts. tokens pattern i = Some ts \<and> portable_from q ts)"
proof (induction pattern i q rule: posix_scan.induct)
  case (1 pattern i q)
  show ?case
  proof (cases "i < length pattern")
    case False
    then show ?thesis by (simp add: posix_scan.simps [of pattern i] tokens.simps [of pattern i])
  next
    case i: True
    consider (esc) "pattern ! i = backslash" | (cls) "pattern ! i = CHR ''[''"
      | (lit) "pattern ! i \<noteq> backslash" "pattern ! i \<noteq> CHR ''[''" by blast
    then show ?thesis
    proof cases
      case esc
      with i 1(1) [OF i refl esc] show ?thesis
        by (auto simp: posix_scan.simps [of pattern i] tokens.simps [of pattern i] Let_def)
    next
      case cls
      show ?thesis
      proof (cases "class_end pattern i")
        case None
        with i cls show ?thesis
          by (simp add: posix_scan.simps [of pattern i] tokens.simps [of pattern i] Let_def)
      next
        case (Some e)
        then have "\<not> e \<le> i" by (auto dest: class_end_bounds)
        with i cls Some 1(2) [OF i refl _ cls Some] show ?thesis
          by (auto simp: posix_scan.simps [of pattern i] tokens.simps [of pattern i] Let_def)
      qed
    next
      case lit
      show ?thesis
      proof (cases "(pattern ! i = CHR ''('' \<and> i + 1 < length pattern \<and> pattern ! (i + 1) = CHR ''?'')
                    \<or> (pattern ! i = CHR ''?'' \<and> q)")
        case True
        with i lit tokens_next_question [of pattern "i + 1"] show ?thesis
          by (auto simp: posix_scan.simps [of pattern i] tokens.simps [of pattern i] Let_def)
      next
        case False
        with i lit 1(3) [OF i refl lit(1) lit(2)] tokens_next_question [of pattern "i + 1"]
        show ?thesis
          by (auto simp: posix_scan.simps [of pattern i] tokens.simps [of pattern i] Let_def)
      qed
    qed
  qed
qed

section \<open>Detection of the quantified-group shape\<close>

text \<open>Characters that the nesting scan treats as plain atoms.\<close>

definition plain_atom :: "char \<Rightarrow> bool" where
  "plain_atom c = (c \<notin> set ''[()*+{|^$'' \<and> c \<noteq> backslash)"

lemma nested_scan_step:
  "nested_scan (pre @ ch # rest) (length pre) stack q =
     (if ch = CHR ''('' then nested_scan (pre @ ch # rest) (Suc (length pre)) (False # stack) False
      else if plain_atom ch then nested_scan (pre @ ch # rest) (Suc (length pre)) stack True
      else nested_scan (pre @ ch # rest) (length pre) stack q)"
  by (simp add: nested_scan.simps [of _ "length pre"] plain_atom_def Let_def)

lemma nested_scan_plain:
  "list_all plain_atom u \<Longrightarrow>
     nested_scan (pre @ u @ rest) (length pre) stack q =
     nested_scan (pre @ u @ rest) (length pre + length u) stack (u \<noteq> [] \<or> q)"
proof (induction u arbitrary: pre q)
  case Nil
  then show ?case by simp
next
  case (Cons c u)
  from Cons.prems have "plain_atom c" and u: "list_all plain_atom u" by auto
  then have "nested_scan (pre @ c # u @ rest) (length pre) stack q =
      nested_scan (pre @ c # u @ rest) (Suc (length pre)) stack True"
    by (subst nested_scan_step) (auto simp: plain_atom_def)
  also have "\<dots> = nested_scan ((pre @ [c]) @ u @ rest) (length (pre @ [c])) stack True" by simp
  also have "\<dots> = nested_scan ((pre @ [c]) @ u @ rest) (length (pre @ [c]) + length u) stack (u \<noteq> [] \<or> True)"
    by (rule Cons.IH [OF u])
  finally show ?case by simp
qed

lemma nested_scan_quantifier:
  "ch = CHR ''*'' \<or> ch = CHR ''+'' \<Longrightarrow>
   nested_scan (pre @ ch # rest) (length pre) stack True =
   nested_scan (pre @ ch # rest) (Suc (length pre)) (mark_top stack) False"
  by (auto simp: nested_scan.simps [of _ "length pre"] Let_def)

lemma nested_scan_close_risky:
  "q2 \<in> set ''*+{'' \<Longrightarrow> stack \<noteq> [] \<Longrightarrow>
   nested_scan (pre @ CHR '')'' # q2 # rest) (length pre) (True # stack) q = Some nested_reason"
  by (subst nested_scan.simps) (auto simp: Let_def nth_append)

lemma nested_scan_detects:
  assumes plain: "list_all plain_atom u" "list_all plain_atom v" "list_all plain_atom w" "w \<noteq> []"
    and q1: "q1 = CHR ''*'' \<or> q1 = CHR ''+''" and q2: "q2 \<in> set ''*+{''"
  shows "nested_quantifier_risk (u @ ''('' @ w @ [q1] @ v @ '')'' @ [q2] @ rest) = Some nested_reason"
proof -
  let ?p = "u @ ''('' @ w @ [q1] @ v @ '')'' @ [q2] @ rest"
  let ?a = "length u" let ?b = "Suc ?a" let ?c = "?b + length w" let ?d = "Suc ?c" let ?e = "?d + length v"
  have "nested_scan ?p 0 [False] False = nested_scan ?p ?a [False] (u \<noteq> [])"
    using nested_scan_plain [of u "[]" "''('' @ w @ [q1] @ v @ '')'' @ [q2] @ rest"] plain(1) by simp
  also have "\<dots> = nested_scan ?p ?b [False, False] False"
    using nested_scan_step [of u "CHR ''(''" "w @ [q1] @ v @ '')'' @ [q2] @ rest"] by simp
  also have "\<dots> = nested_scan ?p ?c [False, False] True"
    using nested_scan_plain [of w "u @ ''(''" "[q1] @ v @ '')'' @ [q2] @ rest"] plain(3,4) by simp
  also have "\<dots> = nested_scan ?p ?d [True, False] False"
    using nested_scan_quantifier [OF q1, of "u @ ''('' @ w" "v @ '')'' @ [q2] @ rest"]
    by (simp add: mark_top_def)
  also have "\<dots> = nested_scan ?p ?e [True, False] (v \<noteq> [])"
    using nested_scan_plain [of v "u @ ''('' @ w @ [q1]" "'')'' @ [q2] @ rest"] plain(2)
    by (simp add: add.assoc add.left_commute)
  also have "\<dots> = Some nested_reason"
    using nested_scan_close_risky [OF q2, of "[False]" "u @ ''('' @ w @ [q1] @ v" rest]
    by (simp add: add.assoc add.left_commute)
  finally show ?thesis by (simp add: nested_quantifier_risk_def)
qed

section \<open>Properties\<close>

text \<open>
  the POSIX check accepts a pattern exactly when it reads as a sequence of escapes, bracket
  expressions and literals in which no escape names a letter or digit, no group opens with a question
  mark and no question mark follows a quantifier.
\<close>

theorem posix_check_exact: "posix_ere_incompatibility p = None \<longleftrightarrow> portable p"
  by (simp add: posix_ere_incompatibility_def posix_scan_portable portable_def)

text \<open>
  a quantified group whose body holds a quantified atom, the shape of catastrophic backtracking,
  is reported wherever the group stands among plain atoms.
\<close>

theorem nested_quantifier_detected:
  assumes "list_all plain_atom u" "list_all plain_atom v" "list_all plain_atom w" "w \<noteq> []"
    and "q1 = CHR ''*'' \<or> q1 = CHR ''+''" and "q2 \<in> set ''*+{''"
  shows "nested_quantifier_risk (u @ ''('' @ w @ [q1] @ v @ '')'' @ [q2] @ rest) = Some nested_reason"
  by (rule nested_scan_detects [OF assms])

theorem nested_quantifier_detected_witness:
  "nested_quantifier_risk (''ads'' @ ''('' @ ''a'' @ [CHR ''+''] @ ''b'' @ '')'' @ [CHR ''*''] @ ''x'') = Some nested_reason"
  by (rule nested_quantifier_detected) code_simp+

text \<open>
  the scan keeps no risk across an inner group: the pattern \<^verbatim>\<open>((a+))+\<close>, which backtracks
  exponentially, is accepted.
\<close>

theorem nested_quantifier_misses_inner_group:
  "nested_quantifier_risk ''((a+))+'' = None \<and> nested_quantifier_risk ''(a+)+'' = Some nested_reason"
  by code_simp

end
