(* ===== verification/Rule_Parser.thy ===== *)
theory Rule_Parser
  imports Regex_Safety
begin

text \<open>
  The custom-rule parser of \<^verbatim>\<open>app/custom_rules.py\<close> (section "Parsing"): one line of AdGuard, Pi-hole or
  hosts syntax becomes a list of classified rules.  \<open>parse_rule\<close> and its helpers keep the source's
  order of tests.  Shown: every rule the parser returns is well formed (\<open>rule_ok\<close>): a rule that is
  not valid has no action, a valid one has the canonical name, the address or the safe pattern its
  type needs; and the normalised text of a domain rule parses back to the same rule.
\<close>

section \<open>Parsed rules\<close>

datatype rule_kind = Rblock | Rallow | Rrewrite | Rregex_block | Rregex_allow | Rcomment | Runsupported

datatype rule_action = Ablock | Aallow | Arewrite | Anone

datatype vstate = Valid | Unsupported | Invalid

datatype family = Ipv4 | Ipv6

record parsed_rule =
  rule_text :: string
  normalized :: string
  rule_type :: rule_kind
  action :: rule_action
  domain :: "string option"
  match_subdomains :: bool
  pattern :: "string option"
  rewrite_address :: "string option"
  address_family :: "family option"
  qtype_restriction :: "string option"
  priority :: int
  validation_state :: vstate
  unsupported_reason :: string
  comment :: string

text \<open>The dataclass with its defaults.\<close>

definition ParsedRule :: "string \<Rightarrow> parsed_rule" where
  "ParsedRule text =
     \<lparr>rule_text = text, normalized = [], rule_type = Runsupported, action = Anone, domain = None,
      match_subdomains = False, pattern = None, rewrite_address = None, address_family = None,
      qtype_restriction = None, priority = 0, validation_state = Valid, unsupported_reason = [],
      comment = []\<rparr>"

definition MAX_REGEX_LENGTH :: nat where "MAX_REGEX_LENGTH = 512"

definition IMPORTANT_PRIORITY :: int where "IMPORTANT_PRIORITY = 100"

definition BLOCKING_SENTINELS :: "string list" where
  "BLOCKING_SENTINELS = [''0.0.0.0'', ''::'']"

definition UNSUPPORTED_MODIFIER_REASONS :: "(string \<times> string) list" where
  "UNSUPPORTED_MODIFIER_REASONS =
     [(''client'', ''modifier $client cannot be preserved: Alderpoint DNS has no per-client rule enforcement''),
      (''ctag'', ''modifier $ctag cannot be preserved: Alderpoint DNS has no client tags''),
      (''denyallow'', ''modifier $denyallow cannot be preserved: per-rule domain exclusions are not supported''),
      (''dnstype'', ''modifier $dnstype cannot be preserved: query-type restricted rules are not supported''),
      (''badfilter'', ''modifier $badfilter cannot be preserved: rule-cancellation rules are not supported'')]"

definition invalid_rule :: "string \<Rightarrow> string \<Rightarrow> parsed_rule" where
  "invalid_rule text reason =
     (ParsedRule text)\<lparr>normalized := text, validation_state := Invalid, unsupported_reason := reason\<rparr>"

definition unsupported_rule :: "parsed_rule \<Rightarrow> string \<Rightarrow> parsed_rule" where
  "unsupported_rule rule reason =
     rule\<lparr>rule_type := Runsupported, action := Anone, validation_state := Unsupported,
          unsupported_reason := reason\<rparr>"

section \<open>Regular-expression rules and modifiers\<close>

definition validate_regex :: "stdlib \<Rightarrow> parsed_rule \<Rightarrow> parsed_rule" where
  "validate_regex lib rule =
     (let pat = (case pattern rule of None \<Rightarrow> [] | Some p \<Rightarrow> p) in
      if length pat > MAX_REGEX_LENGTH then
        unsupported_rule rule (''regex exceeds the '' @ str_nat MAX_REGEX_LENGTH @ '' character limit'')
      else if list_ex is_control pat then
        unsupported_rule rule ''regex contains control characters or newlines''
      else case re_compile_error lib pat of
        Some exc \<Rightarrow> unsupported_rule rule (''regex does not compile: '' @ exc)
      | None \<Rightarrow>
          (case posix_ere_incompatibility pat of
             Some reason \<Rightarrow> unsupported_rule rule reason
           | None \<Rightarrow>
               (case nested_quantifier_risk pat of
                  Some reason \<Rightarrow> unsupported_rule rule reason
                | None \<Rightarrow> rule)))"

definition family_of :: "ip \<Rightarrow> family" where
  "family_of i = (if is_v4 i then Ipv4 else Ipv6)"

definition dnsrewrite_reason :: "string \<Rightarrow> string \<Rightarrow> string" where
  "dnsrewrite_reason value why = ''modifier $dnsrewrite='' @ value @ '' cannot be preserved: '' @ why"

definition parse_dnsrewrite :: "string \<Rightarrow> ip option \<times> string" where
  "parse_dnsrewrite value =
     (let parts = split_char CHR '';'' value;
          wanted = (if length parts = 3 then py_upper (py_strip (parts ! 1)) else []);
          candidate =
            (if length parts = 1 then Some (py_strip (parts ! 0))
             else if length parts = 3 \<and> py_upper (py_strip (parts ! 0)) = ''NOERROR''
                     \<and> wanted \<in> {''A'', ''AAAA''}
             then Some (py_strip (parts ! 2))
             else None)
      in case candidate of
        None \<Rightarrow> (None, dnsrewrite_reason value ''only plain A/AAAA address rewrites are supported'')
      | Some cand \<Rightarrow>
          (case ip_address cand of
             None \<Rightarrow> (None, dnsrewrite_reason value ''the rewrite target is not an IP address'')
           | Some i \<Rightarrow>
               if length parts = 3 \<and> wanted \<noteq> (if is_v4 i then ''A'' else ''AAAA'')
               then (None, dnsrewrite_reason value ''record type does not match the address family'')
               else (Some i, [])))"

text \<open>One modifier: \<open>Inl\<close> is the early \<^verbatim>\<open>return\<close> out of the loop, \<open>Inr\<close> goes on.\<close>

definition parse_modifier :: "parsed_rule \<Rightarrow> string \<Rightarrow> parsed_rule + parsed_rule" where
  "parse_modifier rule raw0 =
     (let raw = py_strip raw0 in
      if raw = [] then Inr rule
      else case partition_char CHR ''='' raw of (name0, _, value) \<Rightarrow>
        let name = py_lower (py_strip name0) in
        if name = ''important'' then Inr (rule\<lparr>priority := IMPORTANT_PRIORITY\<rparr>)
        else if name = ''dnsrewrite'' then
          if action rule = Aallow
          then Inl (unsupported_rule rule ''modifier $dnsrewrite cannot be preserved on an exception rule'')
          else (case parse_dnsrewrite value of
            (None, reason) \<Rightarrow> Inl (unsupported_rule rule reason)
          | (Some i, _) \<Rightarrow>
              Inr (rule\<lparr>rule_type := Rrewrite, action := Arewrite,
                        rewrite_address := Some (str_ip i), address_family := Some (family_of i)\<rparr>))
        else Inl (unsupported_rule rule
          (case map_of UNSUPPORTED_MODIFIER_REASONS name of
             Some reason \<Rightarrow> reason
           | None \<Rightarrow> ''modifier $'' @ name @
               '' is not supported; the rule was kept inactive instead of activating a broadened rule'')))"

fun parse_modifier_list :: "parsed_rule \<Rightarrow> string list \<Rightarrow> parsed_rule" where
  "parse_modifier_list rule [] = rule"
| "parse_modifier_list rule (raw # raws) =
     (case parse_modifier rule raw of
        Inl r \<Rightarrow> r
      | Inr r \<Rightarrow> parse_modifier_list r raws)"

definition parse_modifiers :: "parsed_rule \<Rightarrow> string \<Rightarrow> parsed_rule" where
  "parse_modifiers rule modifier_text = parse_modifier_list rule (split_char CHR '','' modifier_text)"

text \<open>The modifiers behind the closing slash, and the body up to it.\<close>

definition split_regex_modifiers :: "string \<Rightarrow> string \<times> string" where
  "split_regex_modifiers body =
     (if \<not> endswith body ''/'' then
        (case rfind body ''/$'' of
           Some idx \<Rightarrow> if idx > 0 then (drop (idx + 2) body, take (idx + 1) body) else ([], body)
         | None \<Rightarrow> ([], body))
      else ([], body))"

definition new_regex_rule :: "string \<Rightarrow> bool \<Rightarrow> string \<Rightarrow> parsed_rule" where
  "new_regex_rule raw is_allow pat =
     (ParsedRule raw)\<lparr>
        normalized := (if is_allow then ''@@'' else []) @ ''/'' @ pat @ ''/'',
        rule_type := (if is_allow then Rregex_allow else Rregex_block),
        action := (if is_allow then Aallow else Ablock),
        pattern := Some pat\<rparr>"

definition regex_modifiers :: "parsed_rule \<Rightarrow> string \<Rightarrow> parsed_rule" where
  "regex_modifiers rule modifier_text =
     (if validation_state rule = Valid \<and> modifier_text \<noteq> [] then
        let rule' = parse_modifiers rule modifier_text in
        if rule_type rule' = Rrewrite
        then unsupported_rule rule' ''modifier $dnsrewrite cannot be preserved on a regex rule''
        else rule'
      else rule)"

definition parse_regex_rule :: "stdlib \<Rightarrow> string \<Rightarrow> parsed_rule" where
  "parse_regex_rule lib raw =
     (let is_allow = startswith raw ''@@'';
          (modifier_text, body) = split_regex_modifiers (if is_allow then drop 2 raw else raw)
      in if length body < 3 \<or> \<not> startswith body ''/'' \<or> \<not> endswith body ''/''
         then invalid_rule raw ''regex rules must be enclosed in / /''
         else regex_modifiers (validate_regex lib (new_regex_rule raw is_allow (butlast (tl body)))) modifier_text)"

section \<open>Hosts lines\<close>

definition quoted :: "string \<Rightarrow> string" where
  "quoted s = [CHR 0x27] @ s @ [CHR 0x27]"

definition hosts_rule :: "stdlib \<Rightarrow> string \<Rightarrow> ip \<Rightarrow> string \<Rightarrow> string \<Rightarrow> parsed_rule" where
  "hosts_rule lib address i inline_comment host =
     (let text = address @ '' '' @ host in
      case normalize_domain lib host of
        None \<Rightarrow> invalid_rule text (quoted host @ '' is not a valid hostname'')
      | Some d \<Rightarrow>
          if str_ip i \<in> set BLOCKING_SENTINELS then
            (ParsedRule text)\<lparr>normalized := ''|'' @ d @ ''^'', rule_type := Rblock, action := Ablock,
               domain := Some d, match_subdomains := False, comment := inline_comment\<rparr>
          else
            (ParsedRule text)\<lparr>normalized := str_ip i @ '' '' @ d, rule_type := Rrewrite,
               action := Arewrite, domain := Some d, match_subdomains := False,
               rewrite_address := Some (str_ip i), address_family := Some (family_of i),
               comment := inline_comment\<rparr>)"

text \<open>
  \<^verbatim>\<open>parts[0]\<close> exists at the only call: a stripped, non-empty line that does not start with \<^verbatim>\<open>#\<close>
  (\<open>hosts_parts_ne\<close> below).
\<close>

definition parse_hosts_line :: "stdlib \<Rightarrow> string \<Rightarrow> parsed_rule list" where
  "parse_hosts_line lib raw =
     (case partition_char CHR ''#'' raw of (body, _, inline) \<Rightarrow>
        let inline_comment = py_strip inline in
        case split_ws body of
          [] \<Rightarrow> []
        | address # hosts \<Rightarrow>
            (case ip_address address of
               None \<Rightarrow> []
             | Some i \<Rightarrow>
                 if hosts = [] then [invalid_rule raw ''hosts entry has no hostname'']
                 else map (hosts_rule lib address i inline_comment) hosts))"

section \<open>The parser\<close>

definition show_opt :: "string option \<Rightarrow> string" where
  "show_opt v = (case v of None \<Rightarrow> ''None'' | Some s \<Rightarrow> s)"

definition normalized_form :: "parsed_rule \<Rightarrow> string" where
  "normalized_form rule =
     (if rule_type rule = Rrewrite then
        (if match_subdomains rule then ''||'' else ''|'') @ show_opt (domain rule) @ ''^'' @
        ''$dnsrewrite='' @ show_opt (rewrite_address rule)
      else
        (if action rule = Aallow then ''@@'' else []) @ (if match_subdomains rule then ''||'' else ''|'') @
        show_opt (domain rule) @ ''^'')"

text \<open>The loop over the terminators; \<open>None\<close> is the early return for text after one.\<close>

fun cut_terminators :: "string \<Rightarrow> string \<Rightarrow> string option" where
  "cut_terminators [] candidate = Some candidate"
| "cut_terminators (t # ts) candidate =
     (case find_char t candidate of
        None \<Rightarrow> cut_terminators ts candidate
      | Some e \<Rightarrow> if drop (e + 1) candidate \<noteq> [] then None else cut_terminators ts (take e candidate))"

definition is_cosmetic :: "string \<Rightarrow> bool" where
  "is_cosmetic raw =
     (contains raw ''##'' \<or> contains raw ''#@#'' \<or> contains raw ''#%#'' \<or> contains raw ''#$#'')"

definition parse_domain_rule :: "stdlib \<Rightarrow> string \<Rightarrow> bool \<Rightarrow> parsed_rule" where
  "parse_domain_rule lib raw plain_domain_subdomains =
     (let is_allow = startswith raw ''@@'';
          body = (if is_allow then drop 2 raw else raw)
      in case partition_char CHR ''$'' body of (base0, _, modifier_text) \<Rightarrow>
        let base = py_strip base0;
            rule = (ParsedRule raw)\<lparr>normalized := raw,
                     action := (if is_allow then Aallow else Ablock),
                     rule_type := (if is_allow then Rallow else Rblock)\<rparr>;
            (subs, candidate) =
              (if startswith base ''||'' then (True, drop 2 base)
               else if startswith base ''|'' then (False, drop 1 base)
               else (plain_domain_subdomains, base));
            rule = rule\<lparr>match_subdomains := subs\<rparr>
        in case cut_terminators ''^|'' candidate of
             None \<Rightarrow> unsupported_rule rule
               ''rules with a path or anchor after the domain are not supported for DNS filtering''
           | Some cand \<Rightarrow>
               (case normalize_domain lib cand of
                  None \<Rightarrow> invalid_rule raw (quoted cand @ '' is not a valid domain name'')
                | Some d \<Rightarrow>
                    let rule = rule\<lparr>domain := Some d\<rparr>;
                        rule = (if modifier_text \<noteq> [] then parse_modifiers rule modifier_text else rule)
                    in if validation_state rule \<noteq> Valid then rule
                       else rule\<lparr>normalized := normalized_form rule\<rparr>))"

definition parse_rule :: "stdlib \<Rightarrow> string \<Rightarrow> bool \<Rightarrow> parsed_rule list" where
  "parse_rule lib text plain_domain_subdomains =
     (let raw = py_strip text in
      if raw = [] then []
      else if CHR 0x0A \<in> set raw \<or> CHR 0x0D \<in> set raw
      then [invalid_rule (take 120 (hd (splitlines raw))) ''a rule must be a single line'']
      else if list_ex (\<lambda>c. is_control c \<and> c \<noteq> CHR 0x09) raw
      then [invalid_rule raw ''rule contains control characters'']
      else if startswith raw ''!'' \<or> startswith raw ''#''
      then [(ParsedRule raw)\<lparr>normalized := raw, rule_type := Rcomment, action := Anone,
               comment := py_strip (lstrip_by (\<lambda>c. c \<in> set ''!#'') raw)\<rparr>]
      else if startswith raw ''/'' \<or> startswith raw ''@@/'' then [parse_regex_rule lib raw]
      else let hosts_rules = parse_hosts_line lib raw in
        if hosts_rules \<noteq> [] then hosts_rules
        else if is_cosmetic raw
        then [unsupported_rule ((ParsedRule raw)\<lparr>normalized := raw\<rparr>)
                ''cosmetic and scriptlet rules have no DNS effect and are not supported'']
        else [parse_domain_rule lib raw plain_domain_subdomains])"

section \<open>Well-formed rules\<close>

definition safe_pattern :: "stdlib \<Rightarrow> string \<Rightarrow> bool" where
  "safe_pattern lib p =
     (p \<noteq> [] \<and> length p \<le> MAX_REGEX_LENGTH \<and> list_all (\<lambda>c. \<not> is_control c) p \<and>
      re_compile_error lib p = None \<and> posix_ere_incompatibility p = None \<and>
      nested_quantifier_risk p = None)"

definition name_ok :: "('a) parsed_rule_scheme \<Rightarrow> bool" where
  "name_ok r = (case domain r of None \<Rightarrow> False | Some d \<Rightarrow> wf_name d)"

definition address_ok :: "('a) parsed_rule_scheme \<Rightarrow> bool" where
  "address_ok r = (\<exists>i. rewrite_address r = Some (str_ip i) \<and> address_family r = Some (family_of i))"

definition pattern_ok :: "stdlib \<Rightarrow> ('a) parsed_rule_scheme \<Rightarrow> bool" where
  "pattern_ok lib r = (case pattern r of None \<Rightarrow> False | Some p \<Rightarrow> safe_pattern lib p)"

definition rule_ok :: "stdlib \<Rightarrow> ('a) parsed_rule_scheme \<Rightarrow> bool" where
  "rule_ok lib r =
     (if validation_state r \<noteq> Valid then rule_type r = Runsupported \<and> action r = Anone
      else case rule_type r of
        Rblock \<Rightarrow> action r = Ablock \<and> name_ok r
      | Rallow \<Rightarrow> action r = Aallow \<and> name_ok r
      | Rrewrite \<Rightarrow> action r = Arewrite \<and> name_ok r \<and> address_ok r
      | Rregex_block \<Rightarrow> action r = Ablock \<and> pattern_ok lib r
      | Rregex_allow \<Rightarrow> action r = Aallow \<and> pattern_ok lib r
      | Rcomment \<Rightarrow> action r = Anone
      | Runsupported \<Rightarrow> False)"

lemmas rule_ok_defs = rule_ok_def name_ok_def address_ok_def pattern_ok_def

lemma rule_ok_invalid [simp, intro]: "rule_ok lib (invalid_rule t why)"
  by (simp add: rule_ok_def invalid_rule_def ParsedRule_def)

lemma rule_ok_unsupported [simp, intro]: "rule_ok lib (unsupported_rule r why)"
  by (simp add: rule_ok_def unsupported_rule_def)

lemma unsupported_not_valid [simp]:
  "validation_state (unsupported_rule r why) = Unsupported"
  "rule_type (unsupported_rule r why) = Runsupported"
  "action (unsupported_rule r why) = Anone"
  by (simp_all add: unsupported_rule_def)

text \<open>What a pass over the modifiers can do to a valid rule.\<close>

definition modified :: "parsed_rule \<Rightarrow> parsed_rule \<Rightarrow> bool" where
  "modified r r' =
     ((\<exists>s why. r' = unsupported_rule s why) \<or>
      (validation_state r' = Valid \<and> domain r' = domain r \<and> pattern r' = pattern r \<and>
       match_subdomains r' = match_subdomains r \<and> rule_text r' = rule_text r \<and>
       ((rule_type r' = rule_type r \<and> action r' = action r \<and>
         rewrite_address r' = rewrite_address r \<and> address_family r' = address_family r) \<or>
        (rule_type r' = Rrewrite \<and> action r' = Arewrite \<and> address_ok r' \<and> action r \<noteq> Aallow))))"

lemma modified_refl: "validation_state r = Valid \<Longrightarrow> modified r r"
  by (simp add: modified_def)

lemma modified_trans: "modified r s \<Longrightarrow> validation_state s = Valid \<Longrightarrow> modified s t \<Longrightarrow> modified r t"
  unfolding modified_def by (auto simp: address_ok_def)

lemma parse_modifier_Inl: "parse_modifier r raw = Inl r' \<Longrightarrow> \<exists>s why. r' = unsupported_rule s why"
  by (auto simp: parse_modifier_def Let_def split: if_splits prod.splits option.splits)

lemma parse_modifier_Inr:
  "parse_modifier r raw = Inr r' \<Longrightarrow> validation_state r = Valid \<Longrightarrow> validation_state r' = Valid \<and> modified r r'"
  by (auto simp: parse_modifier_def modified_def address_ok_def Let_def
      split: if_splits prod.splits option.splits)

lemma parse_modifier_list_modified:
  "validation_state r = Valid \<Longrightarrow> modified r (parse_modifier_list r raws)"
proof (induction raws arbitrary: r)
  case Nil
  then show ?case by (simp add: modified_refl)
next
  case (Cons raw raws)
  show ?case
  proof (cases "parse_modifier r raw")
    case (Inl s)
    then show ?thesis by (auto dest: parse_modifier_Inl simp: modified_def)
  next
    case (Inr s)
    with Cons.prems have s: "validation_state s = Valid" "modified r s"
      by (auto dest: parse_modifier_Inr)
    from s(2) s(1) Cons.IH [OF s(1)] have "modified r (parse_modifier_list s raws)"
      by (rule modified_trans)
    with Inr show ?thesis by simp
  qed
qed

lemma parse_modifiers_modified: "validation_state r = Valid \<Longrightarrow> modified r (parse_modifiers r text)"
  by (simp add: parse_modifiers_def parse_modifier_list_modified)

lemma validate_regex_cases:
  assumes "pattern r = Some p" "p \<noteq> []"
  shows "(\<exists>why. validate_regex lib r = unsupported_rule r why) \<or>
         (validate_regex lib r = r \<and> safe_pattern lib p)"
proof -
  have "list_all (\<lambda>c. \<not> is_control c) p" if "\<not> list_ex is_control p"
    using that by (auto simp: list_all_iff list_ex_iff)
  then show ?thesis
    using assms by (auto simp: validate_regex_def safe_pattern_def Let_def split: option.splits)
qed

lemma regex_rule_ok:
  fixes r :: parsed_rule
  assumes "validation_state r = Valid" "pattern r = Some p" "safe_pattern lib p"
    and "rule_type r = Rregex_allow \<and> action r = Aallow \<or> rule_type r = Rregex_block \<and> action r = Ablock"
    and "modified r r'" "rule_type r' \<noteq> Rrewrite"
  shows "rule_ok lib r'"
  using assms by (auto simp: modified_def rule_ok_def pattern_ok_def)

lemma regex_modifiers_ok:
  assumes "pat \<noteq> []"
  shows "rule_ok lib (regex_modifiers (validate_regex lib (new_regex_rule raw al pat)) ms)"
proof -
  let ?r = "new_regex_rule raw al pat"
  have r: "pattern ?r = Some pat" "validation_state ?r = Valid" "rule_type ?r \<noteq> Rrewrite"
    "rule_type ?r = Rregex_allow \<and> action ?r = Aallow \<or> rule_type ?r = Rregex_block \<and> action ?r = Ablock"
    by (simp_all add: new_regex_rule_def ParsedRule_def)
  from validate_regex_cases [OF r(1) assms] show ?thesis
  proof
    assume "\<exists>why. validate_regex lib ?r = unsupported_rule ?r why"
    then show ?thesis by (auto simp: regex_modifiers_def)
  next
    assume v: "validate_regex lib ?r = ?r \<and> safe_pattern lib pat"
    note ok = regex_rule_ok [OF r(2,1) conjunct2 [OF v] r(4)]
    show ?thesis
      using ok [OF modified_refl [OF r(2)] r(3)] ok [OF parse_modifiers_modified [OF r(2)]] v
      by (simp add: regex_modifiers_def Let_def)
  qed
qed

lemma parse_regex_rule_ok: "rule_ok lib (parse_regex_rule lib raw)"
proof -
  obtain ms body where sp: "split_regex_modifiers (if startswith raw ''@@'' then drop 2 raw else raw) = (ms, body)"
    by (rule prod.exhaust)
  have "butlast (tl body) \<noteq> []" if "\<not> length body < 3"
    using that by (auto simp: butlast_conv_take dest: arg_cong [where f = length])
  then show ?thesis
    unfolding parse_regex_rule_def Let_def sp prod.case by (simp add: regex_modifiers_ok)
qed

lemma hosts_rule_ok: "rule_ok lib (hosts_rule lib a i cm host)"
proof (cases "normalize_domain lib host")
  case None
  then show ?thesis by (simp add: hosts_rule_def Let_def)
next
  case (Some d)
  then have "wf_name d" by (rule compiler_names.norm_canonical)
  with Some show ?thesis by (auto simp: hosts_rule_def rule_ok_defs ParsedRule_def Let_def)
qed

lemma parse_hosts_line_ok: "r \<in> set (parse_hosts_line lib raw) \<Longrightarrow> rule_ok lib r"
  by (auto simp: parse_hosts_line_def hosts_rule_ok Let_def split: prod.splits list.splits option.splits if_splits)

text \<open>A modified domain rule with a canonical name is well formed.\<close>

lemma domain_rule_ok:
  fixes r :: parsed_rule
  assumes "validation_state r = Valid" "domain r = Some d" "wf_name d"
    and "rule_type r = Rallow \<and> action r = Aallow \<or> rule_type r = Rblock \<and> action r = Ablock"
    and "modified r r'"
  shows "rule_ok lib r'" "validation_state r' = Valid \<Longrightarrow> rule_ok lib (r'\<lparr>normalized := n\<rparr>)"
  using assms by (auto simp: modified_def rule_ok_defs)

lemma parse_domain_rule_ok: "rule_ok lib (parse_domain_rule lib raw plain)"
proof -
  obtain base0 f ms where p: "partition_char CHR ''$'' (if prefix ''@@'' raw then drop 2 raw else raw) = (base0, f, ms)"
    by (metis prod_cases3)
  obtain subs cand where sc: "(if startswith (py_strip base0) ''||'' then (True, drop 2 (py_strip base0))
      else if startswith (py_strip base0) ''|'' then (False, drop 1 (py_strip base0))
      else (plain, py_strip base0)) = (subs, cand)" by (metis surj_pair)
  define r where "r = (ParsedRule raw)\<lparr>normalized := raw,
                     action := (if prefix ''@@'' raw then Aallow else Ablock),
                     rule_type := (if prefix ''@@'' raw then Rallow else Rblock), match_subdomains := subs\<rparr>"
  have eq: "parse_domain_rule lib raw plain =
     (case cut_terminators ''^|'' cand of
        None \<Rightarrow> unsupported_rule r ''rules with a path or anchor after the domain are not supported for DNS filtering''
      | Some cand \<Rightarrow>
          (case normalize_domain lib cand of
             None \<Rightarrow> invalid_rule raw (quoted cand @ '' is not a valid domain name'')
           | Some d \<Rightarrow>
               let rule = (if ms \<noteq> [] then parse_modifiers (r\<lparr>domain := Some d\<rparr>) ms else r\<lparr>domain := Some d\<rparr>)
               in if validation_state rule \<noteq> Valid then rule else rule\<lparr>normalized := normalized_form rule\<rparr>))"
    using p sc unfolding parse_domain_rule_def r_def Let_def
    by (auto simp: Let_def split: option.splits)
  show ?thesis
  proof (cases "cut_terminators ''^|'' cand")
    case None
    then show ?thesis by (simp add: eq)
  next
    case (Some c)
    show ?thesis
    proof (cases "normalize_domain lib c")
      case None
      with Some show ?thesis by (simp add: eq)
    next
      case (Some d)
      define s where "s = r\<lparr>domain := Some d\<rparr>"
      have s: "validation_state s = Valid" "domain s = Some d"
        "rule_type s = Rallow \<and> action s = Aallow \<or> rule_type s = Rblock \<and> action s = Ablock"
        by (simp_all add: s_def r_def ParsedRule_def)
      have d: "wf_name d" using Some by (rule compiler_names.norm_canonical)
      note ok = domain_rule_ok [OF s(1,2) d s(3)]
      have "rule_ok lib (let rule = (if ms \<noteq> [] then parse_modifiers s ms else s)
               in if validation_state rule \<noteq> Valid then rule else rule\<lparr>normalized := normalized_form rule\<rparr>)"
        using ok [OF modified_refl [OF s(1)]] ok [OF parse_modifiers_modified [OF s(1)]]
        by (simp add: Let_def)
      with Some \<open>cut_terminators ''^|'' cand = Some c\<close> show ?thesis
        unfolding eq by (simp only: option.case s_def)
    qed
  qed
qed

lemma parse_rule_ok: "r \<in> set (parse_rule lib text plain) \<Longrightarrow> rule_ok lib r"
  unfolding parse_rule_def Let_def
  by (auto simp: parse_regex_rule_ok parse_domain_rule_ok split: if_splits intro: parse_hosts_line_ok)
     (simp_all add: rule_ok_def ParsedRule_def)

subsection \<open>Reasons\<close>

text \<open>A rule has a reason exactly when it was not accepted.\<close>

definition explained :: "('a) parsed_rule_scheme \<Rightarrow> bool" where
  "explained r = (unsupported_reason r \<noteq> [] \<longleftrightarrow> validation_state r \<noteq> Valid)"

lemma explained_new [simp]: "explained (ParsedRule t)"
  by (simp add: explained_def ParsedRule_def)

lemma explained_invalid [simp]: "explained (invalid_rule t why) \<longleftrightarrow> why \<noteq> []"
  by (simp add: explained_def invalid_rule_def)

lemma explained_unsupported [simp]: "explained (unsupported_rule r why) \<longleftrightarrow> why \<noteq> []"
  by (simp add: explained_def unsupported_rule_def)

lemma explained_updates [simp]:
  "explained (r\<lparr>normalized := a\<rparr>) = explained r" "explained (r\<lparr>rule_type := b\<rparr>) = explained r" "explained (r\<lparr>action := c\<rparr>) = explained r"
  "explained (r\<lparr>domain := d\<rparr>) = explained r" "explained (r\<lparr>pattern := d\<rparr>) = explained r" "explained (r\<lparr>match_subdomains := e\<rparr>) = explained r"
  "explained (r\<lparr>rewrite_address := d\<rparr>) = explained r" "explained (r\<lparr>address_family := f\<rparr>) = explained r"
  "explained (r\<lparr>priority := g\<rparr>) = explained r" "explained (r\<lparr>comment := a\<rparr>) = explained r"
  by (simp_all add: explained_def)

lemma explained_modifier:
  assumes "explained r"
  shows "(case parse_modifier r raw of Inl s \<Rightarrow> explained s | Inr s \<Rightarrow> explained s)"
proof -
  have "fst (parse_dnsrewrite v) = None \<Longrightarrow> snd (parse_dnsrewrite v) \<noteq> []" for v
    by (auto simp: parse_dnsrewrite_def dnsrewrite_reason_def Let_def split: option.splits if_splits)
  moreover have "map_of UNSUPPORTED_MODIFIER_REASONS n \<noteq> Some []" for n
    by (auto simp: UNSUPPORTED_MODIFIER_REASONS_def)
  ultimately show ?thesis using assms
    by (auto simp: parse_modifier_def Let_def split: prod.split option.split) (metis fst_conv snd_conv)+
qed

lemma explained_modifier_list: "explained r \<Longrightarrow> explained (parse_modifier_list r raws)"
proof (induction raws arbitrary: r)
  case (Cons raw raws)
  then show ?case using explained_modifier [of r raw] by (auto split: sum.splits)
qed simp

lemma explained_modifiers: "explained r \<Longrightarrow> explained (parse_modifiers r text)"
  by (simp add: parse_modifiers_def explained_modifier_list)

lemma explained_regex: "explained r \<Longrightarrow> explained (validate_regex lib r)"
  using nested_scan_reason posix_scan_reason
  by (auto simp: validate_regex_def Let_def posix_ere_incompatibility_def nested_quantifier_risk_def split: option.split)

lemma explained_parse_regex: "explained (parse_regex_rule lib raw)"
  by (auto simp: parse_regex_rule_def regex_modifiers_def Let_def new_regex_rule_def intro!: explained_regex explained_modifiers split: prod.split)

lemma explained_hosts_rule: "explained (hosts_rule lib a i cm host)"
  by (simp add: hosts_rule_def Let_def quoted_def split: option.split)

lemma explained_hosts: "r \<in> set (parse_hosts_line lib raw) \<Longrightarrow> explained r"
  by (auto simp: parse_hosts_line_def explained_hosts_rule Let_def split: prod.splits list.splits option.splits if_splits)

lemma explained_domain: "explained (parse_domain_rule lib raw plain)"
proof -
  obtain base0 f ms where p: "partition_char CHR ''$'' (if startswith raw ''@@'' then drop 2 raw else raw) = (base0, f, ms)"
    by (metis prod_cases3)
  obtain subs cand where sc: "(if startswith (py_strip base0) ''||'' then (True, drop 2 (py_strip base0))
      else if startswith (py_strip base0) ''|'' then (False, drop 1 (py_strip base0))
      else (plain, py_strip base0)) = (subs, cand)" by (metis surj_pair)
  have "explained (let rule = (if ms \<noteq> [] then parse_modifiers r ms else r) in
      if validation_state rule \<noteq> Valid then rule else rule\<lparr>normalized := normalized_form rule\<rparr>)" if "explained r" for r
    using that explained_modifiers [of r ms] by (simp add: Let_def)
  then show ?thesis unfolding parse_domain_rule_def Let_def p prod.case sc by (simp add: quoted_def split: option.split)
qed

lemma parse_rule_explained: "r \<in> set (parse_rule lib text plain) \<Longrightarrow> explained r"
  unfolding parse_rule_def Let_def
  by (auto simp: explained_parse_regex explained_domain split: if_splits intro: explained_hosts)

text \<open>The unreachable branch of the hosts parser.\<close>

lemma hosts_parts_ne:
  assumes "raw = py_strip text" "raw \<noteq> []" "\<not> startswith raw ''#''"
    "partition_char CHR ''#'' raw = (body, f, inline)"
  shows "split_ws body \<noteq> []"
proof -
  from assms(1,2) have h: "\<not> py_isspace (hd raw)" using strip_by_ends by blast
  from assms(2,3) obtain x xs where raw: "raw = x # xs" "x \<noteq> CHR ''#''" by (cases raw) auto
  with assms(4) have "x \<in> set body" by (auto split: prod.splits)
  with h raw show ?thesis by (auto dest: split_ws_ne)
qed

section \<open>Printing and parsing\<close>

definition rule_prefix :: "bool \<Rightarrow> bool \<Rightarrow> string" where
  "rule_prefix allow subs = (if allow then ''@@'' else []) @ (if subs then ''||'' else ''|'')"

text \<open>Texts without blanks, comment marks or a colon are never hosts lines.\<close>

lemma not_hosts_line:
  assumes "raw \<noteq> []" "\<forall>c\<in>set raw. \<not> py_isspace c" "CHR ''#'' \<notin> set raw" "ip_address raw = None"
  shows "parse_hosts_line lib raw = []"
  using assms by (simp add: parse_hosts_line_def partition_char_none split_ws_single)

lemma no_hash_not_cosmetic: "CHR ''#'' \<notin> set raw \<Longrightarrow> \<not> is_cosmetic raw"
  by (auto simp: is_cosmetic_def contains_iff)

lemma anchored_text_facts:
  assumes "wf_name d" and t: "t = rule_prefix allow subs @ d @ ''^''"
  shows "t \<noteq> []" "\<forall>c\<in>set t. \<not> py_isspace c" "\<forall>c\<in>set t. \<not> is_control c" "CHR ''#'' \<notin> set t"
    "CHR ''$'' \<notin> set t" "ip_address t = None" "\<not> prefix ''!'' t" "\<not> prefix ''/'' t" "\<not> prefix ''@@/'' t"
    "\<not> prefix ''#'' t"
proof -
  have wf: "wf_domain d" using assms(1) by (simp add: wf_name_def)
  have ch: "c \<in> set t \<Longrightarrow> name_char c \<or> c \<in> {CHR ''@'', CHR ''|'', CHR ''^''}" for c
    using wf_domain_chars [OF wf] by (auto simp: t rule_prefix_def split: if_splits)
  have no: "CHR ''#'' \<notin> set d" "CHR ''$'' \<notin> set d" "CHR '':'' \<notin> set d"
    using wf by (auto elim: wf_domain_excludes [THEN notE])
  show "t \<noteq> []" by (simp add: t)
  show "\<forall>c\<in>set t. \<not> py_isspace c" using ch name_char_facts(2)
    by (fastforce simp: py_isspace_def Let_def)
  show "\<forall>c\<in>set t. \<not> is_control c" using ch name_char_facts(3)
    by (fastforce simp: is_control_def Let_def)
  show "CHR ''#'' \<notin> set t" "CHR ''$'' \<notin> set t"
    using no by (auto simp: t rule_prefix_def split: if_splits)
  show "ip_address t = None"
  proof (rule ccontr)
    assume "ip_address t \<noteq> None"
    moreover have "CHR '':'' \<notin> set t" using no by (auto simp: t rule_prefix_def split: if_splits)
    ultimately obtain n where "parse_v4 t = Some n" by (auto dest: ip_address_no_colon)
    moreover have "CHR ''^'' \<in> set t" by (simp add: t)
    ultimately show False by (auto dest!: parse_v4_chars simp: is_ascii_digit_def Let_def)
  qed
  show "\<not> prefix ''!'' t" "\<not> prefix ''/'' t" "\<not> prefix ''@@/'' t" "\<not> prefix ''#'' t"
    by (auto simp: t rule_prefix_def split: if_splits)
qed

lemma cut_terminators_name:
  assumes "wf_name d"
  shows "cut_terminators ''^|'' (d @ ''^'') = Some d"
proof -
  have no: "CHR ''^'' \<notin> set d" "CHR ''|'' \<notin> set d"
    using assms by (auto simp: wf_name_def elim: wf_domain_excludes [THEN notE])
  then have "find_char CHR ''^'' (d @ ''^'') = Some (length d)" by (intro find_char_append)
  moreover have "find_char CHR ''|'' d = None" using no by simp
  ultimately show ?thesis by simp
qed

lemma parse_domain_rule_anchored:
  assumes d: "wf_name d" and t: "t = rule_prefix allow subs @ d @ ''^''"
  shows "parse_domain_rule lib t plain =
     (ParsedRule t)\<lparr>normalized := t, action := (if allow then Aallow else Ablock),
        rule_type := (if allow then Rallow else Rblock), match_subdomains := subs, domain := Some d\<rparr>"
proof -
  let ?body = "(if subs then ''||'' else ''|'') @ d @ ''^''"
  have al: "startswith t ''@@'' \<longleftrightarrow> allow" "(if allow then drop 2 t else t) = ?body"
    by (auto simp: t rule_prefix_def)
  have part: "partition_char CHR ''$'' ?body = (?body, False, [])"
    using anchored_text_facts(5) [OF d t] by (intro partition_char_none) (auto simp: t rule_prefix_def split: if_splits)
  have strip: "py_strip ?body = ?body"
    by (rule strip_by_none) (use anchored_text_facts(2) [OF d t] in \<open>auto simp: t rule_prefix_def split: if_splits\<close>)
  have "wf_domain d" using d by (simp add: wf_name_def)
  then have nd: "d \<noteq> []" "hd d \<noteq> CHR ''|''"
    using wf_domain_ne wf_domain_excludes [of d "CHR ''|''"] hd_in_set by fastforce+
  have subs: "(if startswith ?body ''||'' then (True, drop 2 ?body)
       else if startswith ?body ''|'' then (False, drop 1 ?body) else (plain, ?body)) = (subs, d @ ''^'')"
    using nd by (cases d) auto
  show ?thesis
    unfolding parse_domain_rule_def Let_def al(1) al(2) part prod.case strip subs cut_terminators_name [OF d]
      option.case compiler_names.canonical_fix [OF d]
    by (simp add: ParsedRule_def normalized_form_def show_opt_def t rule_prefix_def)
qed

lemma parse_anchored:
  assumes d: "wf_name d" and t: "t = rule_prefix allow subs @ d @ ''^''"
  shows "parse_rule lib t plain =
     [(ParsedRule t)\<lparr>normalized := t, action := (if allow then Aallow else Ablock),
        rule_type := (if allow then Rallow else Rblock), match_subdomains := subs, domain := Some d\<rparr>]"
proof -
  note F = anchored_text_facts [OF d t]
  have "py_strip t = t" by (rule strip_by_none [OF F(2)])
  moreover have "CHR 0x0A \<notin> set t" "CHR 0x0D \<notin> set t"
    using F(3) by (auto simp: is_control_def Let_def)
  moreover have "\<not> list_ex (\<lambda>c. is_control c \<and> c \<noteq> CHR 0x09) t"
    using F(3) by (auto simp: list_ex_iff)
  moreover have "parse_hosts_line lib t = []" by (rule not_hosts_line [OF F(1,2,4,6)])
  ultimately show ?thesis
    using F no_hash_not_cosmetic [OF F(4)] parse_domain_rule_anchored [OF d t, of lib plain]
    by (simp add: parse_rule_def Let_def)
qed

section \<open>Properties\<close>

text \<open>
  C32: every rule the parser returns is well formed for its kind: an accepted block, allow or rewrite
  rule has a canonical name (a rewrite also the canonical text of its address and its family), a regex
  rule a pattern that passed every safety check, and a rejected text never carries an action.  A rule
  carries a reason exactly when it was not accepted.
\<close>

theorem parsed_rules_well_formed:
  assumes "r \<in> set (parse_rule lib raw plain)"
  shows "rule_ok lib r \<and> (unsupported_reason r \<noteq> [] \<longleftrightarrow> validation_state r \<noteq> Valid)"
  using parse_rule_ok [OF assms] parse_rule_explained [OF assms] by (simp add: explained_def)

theorem parsed_rules_well_formed_witness:
  "rule_ok plain_lib (hd (parse_rule plain_lib ''||ads.example.com^$client=x'' True)) \<and>
   unsupported_reason (hd (parse_rule plain_lib ''||ads.example.com^$client=x'' True)) \<noteq> []"
proof -
  let ?r = "hd (parse_rule plain_lib ''||ads.example.com^$client=x'' True)"
  have "?r \<in> set (parse_rule plain_lib ''||ads.example.com^$client=x'' True)" "validation_state ?r \<noteq> Valid" by code_simp+
  then show ?thesis using parsed_rules_well_formed by blast
qed

text \<open>
  printing and parsing a name rule are inverse: for a canonical name, the anchored text
  (\<^verbatim>\<open>||name^\<close> with subdomains, \<^verbatim>\<open>|name^\<close> without, \<^verbatim>\<open>@@\<close> in front for an allow rule) parses to
  exactly that rule, with the text as its normal form.
\<close>

theorem anchored_rule_round_trip:
  assumes "wf_name d"
  shows "parse_rule lib (rule_prefix allow subs @ d @ ''^'') plain =
     [(ParsedRule (rule_prefix allow subs @ d @ ''^''))\<lparr>normalized := rule_prefix allow subs @ d @ ''^'',
        action := (if allow then Aallow else Ablock),
        rule_type := (if allow then Rallow else Rblock), match_subdomains := subs, domain := Some d\<rparr>]"
  by (rule parse_anchored [OF assms refl])

theorem anchored_rule_round_trip_witness:
  "parse_rule plain_lib (rule_prefix True True @ ''example.com'' @ ''^'') False =
     [(ParsedRule (rule_prefix True True @ ''example.com'' @ ''^''))\<lparr>normalized := rule_prefix True True @ ''example.com'' @ ''^'',
        action := (if True then Aallow else Ablock),
        rule_type := (if True then Rallow else Rblock), match_subdomains := True, domain := Some ''example.com''\<rparr>]"
  by (rule anchored_rule_round_trip) code_simp

end
