(* ===== verification/Source_Lists.thy ===== *)
theory Source_Lists
  imports Rule_Parser
begin

text \<open>
  Blocklist sources (\<^verbatim>\<open>app/alderpointdns_compiler.py\<close>): classification of one source line with its
  fast path, the line loop with its statistics, the parse cache with its artifact files, the
  download, the merge of all sources and the health shown for a source.  \<open>sha\<close> is SHA-256 as hex
  text.  Shown: the fast path gives what the full parser gives (except for one alias), every collected
  name is canonical, the statistics add up within a source and across sources, and a cache hit returns
  what parsing would return.
\<close>

section \<open>One line\<close>

datatype line_kind = Lskip | Lblock | Lallow | Linvalid | Lunsupported

type_synonym line_result = "line_kind \<times> string option \<times> string"

definition LOCALHOST_ALIASES :: "string list" where
  "LOCALHOST_ALIASES = [''localhost'', ''localhost.localdomain'', ''ip6-localhost'', ''ip6-loopback'']"

definition ADGUARD_DNSREWRITE_BLOCKPAGE_TARGETS :: "string list" where
  "ADGUARD_DNSREWRITE_BLOCKPAGE_TARGETS = [''ad-block.dns.adguard.com'']"

definition adguard_blockpage_normalize :: "string \<Rightarrow> string" where
  "adguard_blockpage_normalize txt0 =
     (if \<not> contains txt0 ''$dnsrewrite='' then txt0
      else case partition_char CHR ''$'' txt0 of (head, sep, mods) \<Rightarrow>
        if \<not> sep then txt0
        else if list_ex (\<lambda>target. py_strip mods = ''dnsrewrite='' @ target) ADGUARD_DNSREWRITE_BLOCKPAGE_TARGETS
        then py_strip head else txt0)"

definition fast_char :: "char \<Rightarrow> bool" where
  "fast_char c = (is_ascii_lower c \<or> is_ascii_upper c \<or> is_ascii_digit c \<or> c \<in> {CHR ''.'', CHR ''_'', CHR ''-''})"

definition fast_candidate :: "bool \<Rightarrow> string \<Rightarrow> string option" where
  "fast_candidate is_allow body =
     (if startswith body ''||'' \<and> endswith body ''^'' \<and> count_char CHR ''^'' body = 1 then Some (butlast (drop 2 body))
      else if startswith body ''|'' \<and> endswith body ''^'' \<and> count_char CHR ''^'' body = 1 then Some (butlast (drop 1 body))
      else if \<not> is_allow \<and> list_all fast_char body then Some body
      else if is_allow \<and> list_all fast_char body then Some body
      else None)"

definition fast_common_source_rule :: "stdlib \<Rightarrow> string \<Rightarrow> line_result list option" where
  "fast_common_source_rule lib raw =
     (let is_allow = startswith raw ''@@'';
          body = (if is_allow then drop 2 raw else raw)
      in case fast_candidate is_allow body of
           None \<Rightarrow> None
         | Some candidate \<Rightarrow>
             if candidate = [] \<or> \<not> list_all fast_char candidate then None
             else (case normalize_domain lib candidate of
                     None \<Rightarrow> None
                   | Some d \<Rightarrow> Some [(if is_allow then Lallow else Lblock, Some d, [])]))"

definition hosts_name_result :: "stdlib \<Rightarrow> string \<Rightarrow> line_result" where
  "hosts_name_result lib host =
     (if py_lower (strip_dots host) \<in> set LOCALHOST_ALIASES then (Lskip, None, [])
      else case normalize_domain lib host of
        None \<Rightarrow> (Linvalid, None, quoted host @ '' is not a valid hostname'')
      | Some d \<Rightarrow> if d \<in> set LOCALHOST_ALIASES then (Lskip, None, []) else (Lblock, Some d, []))"

definition classify_rule :: "parsed_rule \<Rightarrow> line_result" where
  "classify_rule rule =
     (if validation_state rule = Invalid then (Linvalid, None, unsupported_reason rule)
      else if validation_state rule = Unsupported then (Lunsupported, None, unsupported_reason rule)
      else if rule_type rule \<in> {Rregex_block, Rregex_allow}
      then (Lunsupported, None, ''regex rules are not supported for blocklist sources'')
      else if rule_type rule = Rrewrite
      then (Lunsupported, None, ''modifier $dnsrewrite to an IP address is not supported for blocklist sources'')
      else if (case domain rule of None \<Rightarrow> False | Some d \<Rightarrow> d \<in> set LOCALHOST_ALIASES) then (Lskip, None, [])
      else (if action rule = Aallow then Lallow else Lblock, domain rule, []))"

definition parse_slow :: "stdlib \<Rightarrow> string \<Rightarrow> line_result list" where
  "parse_slow lib norm =
     map classify_rule (filter (\<lambda>rule. rule_type rule \<noteq> Rcomment) (parse_rule lib norm True))"

definition parse_source_line :: "stdlib \<Rightarrow> string \<Rightarrow> line_result list" where
  "parse_source_line lib raw =
     (let first_token = (case split_ws1 raw of [] \<Rightarrow> [] | w # _ \<Rightarrow> w) in
      if is_hosts_line first_token then
        (let parts = split_ws (fst (partition_char CHR ''#'' raw)) in
         if length parts < 2 then [(Linvalid, None, ''hosts entry has no hostname'')]
         else map (hosts_name_result lib) (tl parts))
      else
        let norm = adguard_blockpage_normalize raw in
        (case fast_common_source_rule lib norm of
           Some common \<Rightarrow> common
         | None \<Rightarrow> parse_slow lib norm))"

section \<open>The line loop\<close>

record rejected =
  rj_line :: nat
  rj_kind :: line_kind
  rj_reason :: string
  rj_excerpt :: string

record parse_stats =
  downloaded_entries :: nat
  parsed_rules :: nat
  accepted_domains :: nat
  duplicate_domains :: nat
  invalid_rules :: nat
  unsupported_rules :: nat
  unique_active_domains :: nat
  exceptions :: nat
  rejected_samples :: "rejected list"

definition ParseStats :: parse_stats where
  "ParseStats = \<lparr>downloaded_entries = 0, parsed_rules = 0, accepted_domains = 0, duplicate_domains = 0,
     invalid_rules = 0, unsupported_rules = 0, unique_active_domains = 0, exceptions = 0, rejected_samples = []\<rparr>"

text \<open>The blocked names, the allowed names and the statistics so far.\<close>

type_synonym parse_state = "string set \<times> string set \<times> parse_stats"

definition reject_line :: "nat \<Rightarrow> string \<Rightarrow> line_kind \<Rightarrow> string \<Rightarrow> parse_stats \<Rightarrow> parse_stats" where
  "reject_line n raw kind reason st =
     (let st = (if kind = Linvalid then st\<lparr>invalid_rules := invalid_rules st + 1\<rparr>
                else st\<lparr>unsupported_rules := unsupported_rules st + 1\<rparr>)
      in if length (rejected_samples st) < 20 then
           st\<lparr>rejected_samples := rejected_samples st @
              [\<lparr>rj_line = n, rj_kind = kind,
                rj_reason = (if reason \<noteq> [] then reason
                             else (if kind = Linvalid then ''invalid'' else ''unsupported'') @ '' entry''),
                rj_excerpt = take 120 raw\<rparr>]\<rparr>
         else st)"

definition take_result :: "nat \<Rightarrow> string \<Rightarrow> line_result \<Rightarrow> parse_state \<Rightarrow> parse_state" where
  "take_result n raw res state =
     (case (res, state) of ((kind, d, reason), (bs, als, st)) \<Rightarrow>
        if kind = Lskip then state
        else if kind = Linvalid \<or> kind = Lunsupported then (bs, als, reject_line n raw kind reason st)
        else
          let st = st\<lparr>parsed_rules := parsed_rules st + 1\<rparr>; name = show_opt d in
          if name \<in> (if kind = Lallow then als else bs) then (bs, als, st)
          else let st = st\<lparr>accepted_domains := accepted_domains st + 1\<rparr> in
            if kind = Lallow then (bs, insert name als, st\<lparr>exceptions := exceptions st + 1\<rparr>)
            else (insert name bs, als, st))"

definition skipped_line :: "string \<Rightarrow> bool" where
  "skipped_line raw =
     (raw = [] \<or> startswith raw ''#'' \<or> startswith raw ''!'' \<or> startswith raw ''//'' \<or>
      startswith raw ''['' \<and> endswith raw '']'')"

definition parse_line :: "stdlib \<Rightarrow> nat \<times> string \<Rightarrow> parse_state \<Rightarrow> parse_state" where
  "parse_line lib numbered state =
     (case (numbered, state) of ((n, line), (bs, als, st)) \<Rightarrow>
        let raw = py_strip line in
        if skipped_line raw then state
        else fold (take_result n raw) (parse_source_line lib raw)
               (bs, als, st\<lparr>downloaded_entries := downloaded_entries st + 1\<rparr>))"

definition parse_rule_lines :: "stdlib \<Rightarrow> string list \<Rightarrow> parse_state" where
  "parse_rule_lines lib lines =
     (case fold (parse_line lib) (enumerate 1 lines) ({}, {}, ParseStats) of
        (bs, als, st) \<Rightarrow>
          (bs, als, st\<lparr>unique_active_domains := card bs,
                       duplicate_domains := parsed_rules st - accepted_domains st\<rparr>))"

definition parse_rules :: "stdlib \<Rightarrow> string \<Rightarrow> parse_state" where
  "parse_rules lib content = parse_rule_lines lib (splitlines content)"

section \<open>Files of a source\<close>

text \<open>\<^verbatim>\<open>re.sub(r"[^a-zA-Z0-9_.-]+", "-", s)\<close>\<close>

fun dash_runs :: "bool \<Rightarrow> string \<Rightarrow> string" where
  "dash_runs in_run [] = []"
| "dash_runs in_run (c # s) =
     (if fast_char c then c # dash_runs False s
      else if in_run then dash_runs True s else CHR ''-'' # dash_runs True s)"

definition slug :: "(string \<Rightarrow> string) \<Rightarrow> string \<Rightarrow> string" where
  "slug sha name =
     (let value = strip_by (\<lambda>c. c = CHR ''-'') (dash_runs False (py_lower (py_strip name)))
      in if value \<noteq> [] then value else take 16 (sha name))"

record source_row =
  src_id :: nat
  src_name :: string
  src_url :: string
  src_enabled :: bool
  src_category :: string
  last_attempt :: "string option"
  last_success :: "string option"
  last_error :: "string option"
  http_status :: "nat option"
  downloaded_bytes :: nat
  using_cached_copy :: bool
  src_stats :: parse_stats
  last_warning :: string
  final_active_domains :: nat

record cache_row =
  cr_source_id :: nat
  cr_sha256 :: string
  cr_parser_version :: string
  cr_blocks_path :: string
  cr_allows_path :: string
  cr_stats :: parse_stats
  cr_updated_at :: string

text \<open>Files by path; \<open>db\<close> is the pair of tables this module owns.\<close>

type_synonym file_map = "(string \<times> string) list"

record source_db =
  sources :: "source_row list"
  parse_cache :: "cache_row list"

definition current_path :: "(string \<Rightarrow> string) \<Rightarrow> source_row \<Rightarrow> string" where
  "current_path sha s = ''current/'' @ str_nat (src_id s) @ ''-'' @ slug sha (src_name s) @ ''.txt''"

definition PARSER_CACHE_VERSION :: string where
  "PARSER_CACHE_VERSION = ''2026-08-09-v1-parser-fastpath''"

definition read_domain_artifact :: "file_map \<Rightarrow> string \<Rightarrow> string set option" where
  "read_domain_artifact files path =
     map_option (\<lambda>content. set (filter (\<lambda>l. l \<noteq> []) (map py_strip (splitlines content)))) (map_of files path)"

definition artifact_text :: "string set \<Rightarrow> string" where
  "artifact_text domains = concat (map (\<lambda>d. d @ [newline]) (sorted_list_of_set domains))"

definition write_domain_artifact :: "string \<Rightarrow> string set \<Rightarrow> file_map \<Rightarrow> file_map" where
  "write_domain_artifact path domains files = AList.update path (artifact_text domains) files"

text \<open>Lines of a file opened in text mode: CR and CR LF read as LF.\<close>

fun universal_newlines :: "string \<Rightarrow> string" where
  "universal_newlines [] = []"
| "universal_newlines [c] = (if c = CHR 0x0D then [newline] else [c])"
| "universal_newlines (c # d # s) =
     (if c = CHR 0x0D then (if d = newline then newline # universal_newlines s else newline # universal_newlines (d # s))
      else c # universal_newlines (d # s))"

definition file_lines :: "string \<Rightarrow> string list" where
  "file_lines content =
     (let ls = split_char newline (universal_newlines content) in if last ls = [] then butlast ls else ls)"

text \<open>The statistics as stored in a cache row (\<^verbatim>\<open>_stats_to_json\<close>, \<^verbatim>\<open>_stats_from_json\<close>): at most 20 samples.\<close>

definition stored_stats :: "parse_stats \<Rightarrow> parse_stats" where
  "stored_stats st = st\<lparr>rejected_samples := take 20 (rejected_samples st)\<rparr>"

definition cache_hit :: "string \<Rightarrow> source_row \<Rightarrow> cache_row list \<Rightarrow> cache_row option" where
  "cache_hit h s cache =
     List.find (\<lambda>c. cr_source_id c = src_id s \<and> cr_sha256 c = h \<and> cr_parser_version c = PARSER_CACHE_VERSION) cache"

definition upsert_cache :: "cache_row \<Rightarrow> cache_row list \<Rightarrow> cache_row list" where
  "upsert_cache row cache =
     (if list_ex (\<lambda>c. cr_source_id c = cr_source_id row) cache
      then update_where (\<lambda>c. cr_source_id c = cr_source_id row) (\<lambda>_. row) cache
      else cache @ [row])"

definition artifact_prefix :: "source_row \<Rightarrow> string \<Rightarrow> string" where
  "artifact_prefix s h = ''cache/'' @ str_nat (src_id s) @ ''-'' @ h"

definition read_cached :: "cache_row option \<Rightarrow> file_map \<Rightarrow> parse_state option" where
  "read_cached hit files =
     (case hit of
        None \<Rightarrow> None
      | Some c \<Rightarrow>
          (case (read_domain_artifact files (cr_blocks_path c), read_domain_artifact files (cr_allows_path c)) of
             (Some bs, Some als) \<Rightarrow> Some (bs, als, stored_stats (cr_stats c))
           | _ \<Rightarrow> None))"

definition parse_source_file ::
  "stdlib \<Rightarrow> (string \<Rightarrow> string) \<Rightarrow> string \<Rightarrow> source_row \<Rightarrow> string \<Rightarrow> file_map \<Rightarrow> cache_row list \<Rightarrow>
   parse_state \<times> file_map \<times> cache_row list" where
  "parse_source_file lib sha ts s content files cache =
     (let h = sha content in
      case read_cached (cache_hit h s cache) files of
        Some result \<Rightarrow> (result, files, cache)
      | None \<Rightarrow>
          (case parse_rule_lines lib (file_lines content) of (bs, als, st) \<Rightarrow>
             let bp = artifact_prefix s h @ ''.blocks''; ap = artifact_prefix s h @ ''.allows'' in
             ((bs, als, st),
              write_domain_artifact ap als (write_domain_artifact bp bs files),
              upsert_cache \<lparr>cr_source_id = src_id s, cr_sha256 = h, cr_parser_version = PARSER_CACHE_VERSION,
                cr_blocks_path = bp, cr_allows_path = ap, cr_stats = stored_stats st, cr_updated_at = ts\<rparr> cache)))"

section \<open>Downloads\<close>

definition MAX_SOURCE_BYTES :: nat where "MAX_SOURCE_BYTES = 25 * 1024 * 1024"

definition TOTAL_TIMEOUT :: nat where "TOTAL_TIMEOUT = 60"

text \<open>
  What the network gives: an error on opening, or a status and a stream of reads, each with the
  seconds elapsed when it is attempted; a read is data, the end, or a fault.
\<close>

datatype net_read = Data string | Eof | Fault string

datatype fetch = OpenError string | Opened "nat option" "(nat \<times> net_read) list"

record source_result =
  sr_source_id :: nat
  sr_name :: string
  sr_success :: bool
  sr_http_status :: "nat option"
  sr_downloaded_bytes :: nat
  sr_path :: "string option"
  sr_error :: "string option"

fun read_body :: "(nat \<times> net_read) list \<Rightarrow> nat \<Rightarrow> string \<Rightarrow> nat \<times> string result" where
  "read_body [] bytes acc = (bytes, Inr acc)"
| "read_body ((elapsed, r) # rs) bytes acc =
     (if elapsed > TOTAL_TIMEOUT then (bytes, Inl ''source download exceeded total timeout'')
      else case r of
        Eof \<Rightarrow> (bytes, Inr acc)
      | Fault e \<Rightarrow> (bytes, Inl e)
      | Data chunk \<Rightarrow>
          if chunk = [] then (bytes, Inr acc)
          else let bytes = bytes + length chunk in
            if bytes > MAX_SOURCE_BYTES
            then (bytes, Inl (''source exceeds '' @ str_nat MAX_SOURCE_BYTES @ '' byte limit''))
            else read_body rs bytes (acc @ chunk))"

definition download_source ::
  "(string \<Rightarrow> string) \<Rightarrow> source_row \<Rightarrow> fetch \<Rightarrow> file_map \<Rightarrow> source_result \<times> file_map" where
  "download_source sha s f files =
     (let path = current_path sha s;
          failed = (\<lambda>status bytes e.
            \<lparr>sr_source_id = src_id s, sr_name = src_name s, sr_success = False, sr_http_status = status,
             sr_downloaded_bytes = bytes, sr_path = (if map_of files path \<noteq> None then Some path else None),
             sr_error = Some e\<rparr>)
      in case f of
           OpenError e \<Rightarrow> (failed None 0 e, files)
         | Opened status reads \<Rightarrow>
             (case read_body reads 0 [] of
                (bytes, Inl e) \<Rightarrow> (failed status bytes e, files)
              | (bytes, Inr body) \<Rightarrow>
                  (\<lparr>sr_source_id = src_id s, sr_name = src_name s, sr_success = True, sr_http_status = status,
                    sr_downloaded_bytes = bytes, sr_path = Some path, sr_error = None\<rparr>,
                   AList.update path body files)))"

section \<open>Recording\<close>

definition record_download_result :: "string \<Rightarrow> source_result \<Rightarrow> bool \<Rightarrow> source_row list \<Rightarrow> source_row list" where
  "record_download_result ts result using_cached t =
     update_where (\<lambda>s. src_id s = sr_source_id result)
       (\<lambda>s. s\<lparr>last_attempt := Some ts, http_status := sr_http_status result,
               downloaded_bytes := sr_downloaded_bytes result, last_error := sr_error result,
               using_cached_copy := using_cached,
               last_success := (if sr_success result then Some ts else last_success s)\<rparr>) t"

definition warning_text :: "parse_stats \<Rightarrow> string" where
  "warning_text st =
     (let parts = (if invalid_rules st \<noteq> 0 then [str_nat (invalid_rules st) @ '' invalid''] else []) @
                  (if unsupported_rules st \<noteq> 0 then [str_nat (unsupported_rules st) @ '' unsupported''] else [])
      in if parts \<noteq> [] then join '', '' parts @ '' entries'' else [])"

definition record_parse_stats :: "nat \<Rightarrow> parse_stats \<Rightarrow> source_row list \<Rightarrow> source_row list" where
  "record_parse_stats i st t =
     update_where (\<lambda>s. src_id s = i) (\<lambda>s. s\<lparr>src_stats := stored_stats st, last_warning := warning_text st\<rparr>) t"

section \<open>Merging the sources\<close>

definition enabled_sources :: "source_row list \<Rightarrow> source_row list" where
  "enabled_sources t = filter src_enabled t"

text \<open>The first loop: a download, or the copy already on disk, for every enabled source.\<close>

fun fetch_all ::
  "(string \<Rightarrow> string) \<Rightarrow> (nat \<Rightarrow> fetch) option \<Rightarrow> source_row list \<Rightarrow> file_map \<Rightarrow>
   (source_row \<times> source_result) list \<times> (source_result \<times> bool) list \<times> file_map" where
  "fetch_all sha net [] files = ([], [], files)"
| "fetch_all sha net (s # ss) files =
     (case net of
        Some fetch_of \<Rightarrow>
          (case download_source sha s (fetch_of (src_id s)) files of (result, files1) \<Rightarrow>
             let using_cached = (\<not> sr_success result \<and>
                   (case sr_path result of None \<Rightarrow> False | Some p \<Rightarrow> map_of files1 p \<noteq> None))
             in case fetch_all sha net ss files1 of (pending, downloads, files2) \<Rightarrow>
                  ((s, result) # pending, (result, using_cached) # downloads, files2))
      | None \<Rightarrow>
          let path = current_path sha s;
              result = \<lparr>sr_source_id = src_id s, sr_name = src_name s, sr_success = (map_of files path \<noteq> None),
                        sr_http_status = None, sr_downloaded_bytes = 0, sr_path = Some path, sr_error = None\<rparr>
          in case fetch_all sha net ss files of (pending, downloads, files2) \<Rightarrow>
               ((s, result) # pending, downloads, files2))"

text \<open>What the second loop gathers: one entry per source (its row, names and statistics), and the errors.\<close>

record gathered =
  ga_entries :: "(source_row \<times> parse_state) list"
  ga_errors :: "string list"
  ga_files :: file_map
  ga_cache :: "cache_row list"

definition gather_source ::
  "stdlib \<Rightarrow> (string \<Rightarrow> string) \<Rightarrow> string \<Rightarrow> source_row \<times> source_result \<Rightarrow> gathered \<Rightarrow> gathered" where
  "gather_source lib sha ts item g =
     (case item of (s, result) \<Rightarrow>
        let errs = (case sr_error result of None \<Rightarrow> ga_errors g
                    | Some e \<Rightarrow> if e = [] then ga_errors g else ga_errors g @ [sr_name result @ '': '' @ e])
        in case Option.bind (sr_path result) (map_of (ga_files g)) of
             None \<Rightarrow> g\<lparr>ga_entries := ga_entries g @ [(s, ({}, {}, ParseStats))], ga_errors := errs\<rparr>
           | Some content \<Rightarrow>
               (case parse_source_file lib sha ts s content (ga_files g) (ga_cache g) of
                  (parsed, files, cache) \<Rightarrow>
                    \<lparr>ga_entries = ga_entries g @ [(s, parsed)], ga_errors = errs, ga_files = files, ga_cache = cache\<rparr>))"

text \<open>The third loop: names an earlier source carried already do not count as this source's own.\<close>

fun attribute_unique :: "string set \<Rightarrow> (source_row \<times> parse_state) list \<Rightarrow> (source_row \<times> parse_state) list" where
  "attribute_unique seen [] = []"
| "attribute_unique seen ((s, (bs, als, st)) # es) =
     (let u = card (bs - seen);
          st = st\<lparr>unique_active_domains := u,
                  duplicate_domains := (parsed_rules st - accepted_domains st) + (card bs - u)\<rparr>
      in (s, (bs, als, st)) # attribute_unique (seen \<union> bs) es)"

definition blocks_of :: "(source_row \<times> parse_state) list \<Rightarrow> string set" where
  "blocks_of es = \<Union> (set (map (\<lambda>e. fst (snd e)) es))"

definition allows_of :: "(source_row \<times> parse_state) list \<Rightarrow> string set" where
  "allows_of es = \<Union> (set (map (\<lambda>e. fst (snd (snd e))) es))"

definition stats_of :: "source_row \<times> parse_state \<Rightarrow> parse_stats" where
  "stats_of e = snd (snd (snd e))"

record collected =
  co_blocks :: "string set"
  co_allows :: "string set"
  co_entries :: "(source_row \<times> parse_state) list"
  co_errors :: "string list"
  co_files :: file_map
  co_db :: source_db

definition collect_rules ::
  "stdlib \<Rightarrow> (string \<Rightarrow> string) \<Rightarrow> string \<Rightarrow> (nat \<Rightarrow> fetch) option \<Rightarrow> source_db \<Rightarrow> file_map \<Rightarrow> collected" where
  "collect_rules lib sha ts net db files =
     (case fetch_all sha net (enabled_sources (sources db)) files of
        (pending, downloads, files1) \<Rightarrow>
          let g = fold (gather_source lib sha ts) pending
                    \<lparr>ga_entries = [], ga_errors = [], ga_files = files1, ga_cache = parse_cache db\<rparr>;
              entries = attribute_unique {} (ga_entries g);
              active_blocks = blocks_of entries - allows_of entries;
              t1 = fold (\<lambda>(r, c). record_download_result ts r c) downloads (sources db);
              t2 = fold (\<lambda>e. record_parse_stats (src_id (fst e)) (stats_of e)) entries t1;
              t3 = update_where src_enabled (\<lambda>s. s\<lparr>final_active_domains := card active_blocks\<rparr>) t2
          in \<lparr>co_blocks = active_blocks, co_allows = allows_of entries, co_entries = entries,
              co_errors = ga_errors g, co_files = ga_files g,
              co_db = \<lparr>sources = t3, parse_cache = ga_cache g\<rparr>\<rparr>)"

section \<open>Health\<close>

datatype health = Healthy | HealthyRedundant | HealthWarning | UnsupportedFormat | HealthError | UsingCached
  | Pending | HealthDisabled

definition source_health :: "source_row \<Rightarrow> health" where
  "source_health s =
     (let st = src_stats s; err = (case last_error s of None \<Rightarrow> False | Some e \<Rightarrow> e \<noteq> []) in
      if \<not> src_enabled s then HealthDisabled
      else if last_success s = None \<or> last_success s = Some [] then (if err then HealthError else Pending)
      else if err then (if using_cached_copy s then UsingCached else HealthError)
      else if downloaded_entries st \<noteq> 0 \<and> parsed_rules st = 0 then UnsupportedFormat
      else if invalid_rules st \<noteq> 0 \<or> unsupported_rules st \<noteq> 0 then HealthWarning
      else if parsed_rules st \<noteq> 0 \<and> unique_active_domains st = 0 then HealthyRedundant
      else Healthy)"

section \<open>Every collected name is canonical\<close>

definition result_ok :: "line_result \<Rightarrow> bool" where
  "result_ok res = (fst res \<in> {Lblock, Lallow} \<longrightarrow> (\<exists>d. fst (snd res) = Some d \<and> wf_name d))"

lemma fast_common_ok:
  assumes "fast_common_source_rule lib raw = Some rs" "r \<in> set rs"
  shows "result_ok r"
proof -
  from assms obtain cand d k where "normalize_domain lib cand = Some d" "r = (k, Some d, [])"
    by (auto simp: fast_common_source_rule_def Let_def split: option.splits if_splits)
  then show ?thesis by (auto simp: result_ok_def dest: compiler_names.norm_canonical)
qed

lemma classify_rule_ok: "rule_ok lib r \<Longrightarrow> rule_type r \<noteq> Rcomment \<Longrightarrow> result_ok (classify_rule r)"
  by (cases "validation_state r"; cases "rule_type r")
     (auto simp: classify_rule_def result_ok_def rule_ok_defs split: option.splits)

lemma parse_source_line_ok: "r \<in> set (parse_source_line lib raw) \<Longrightarrow> result_ok r"
proof -
  have hosts: "result_ok (hosts_name_result lib h)" for h
    by (auto simp: hosts_name_result_def result_ok_def split: option.splits dest: compiler_names.norm_canonical)
  have slow: "result_ok x" if "x \<in> set (parse_slow lib norm)" for x norm
    using that by (auto simp: parse_slow_def intro: classify_rule_ok [OF parse_rule_ok])
  assume "r \<in> set (parse_source_line lib raw)"
  then consider "r = (Linvalid, None, ''hosts entry has no hostname'')" | h where "r = hosts_name_result lib h"
    | norm rs where "fast_common_source_rule lib norm = Some rs" "r \<in> set rs" | norm where "r \<in> set (parse_slow lib norm)"
    unfolding parse_source_line_def Let_def by (auto split: option.splits if_splits)
  then show ?thesis
    by cases (simp add: result_ok_def, simp add: hosts, metis fast_common_ok, metis slow)
qed

section \<open>Statistics of one source\<close>

definition stats_ok :: "parse_state \<Rightarrow> bool" where
  "stats_ok ps =
     (case ps of (bs, als, st) \<Rightarrow>
        finite bs \<and> finite als \<and> (\<forall>d\<in>bs \<union> als. wf_name d) \<and>
        accepted_domains st = card bs + card als \<and> exceptions st = card als \<and>
        accepted_domains st \<le> parsed_rules st \<and> length (rejected_samples st) \<le> 20 \<and>
        length (rejected_samples st) \<le> invalid_rules st + unsupported_rules st)"

lemma stats_ok_empty: "stats_ok ({}, {}, ParseStats)"
  by (simp add: stats_ok_def ParseStats_def)

lemma reject_line_ok: "stats_ok (bs, als, st) \<Longrightarrow> stats_ok (bs, als, reject_line n raw k why st)"
  by (auto simp: stats_ok_def reject_line_def Let_def)

lemma take_result_ok:
  assumes ok: "stats_ok ps" and r: "result_ok r"
  shows "stats_ok (take_result n raw r ps)"
proof -
  obtain k d why where res: "r = (k, d, why)" by (cases r) auto
  obtain bs als st where ps: "ps = (bs, als, st)" by (cases ps) auto
  show ?thesis
  proof (cases k)
    case Lblock
    with r res obtain x where "d = Some x" "wf_name x" by (auto simp: result_ok_def)
    with ok Lblock show ?thesis by (auto simp: res ps take_result_def stats_ok_def show_opt_def Let_def)
  next
    case Lallow
    with r res obtain x where "d = Some x" "wf_name x" by (auto simp: result_ok_def)
    with ok Lallow show ?thesis by (auto simp: res ps take_result_def stats_ok_def show_opt_def Let_def)
  qed (use ok reject_line_ok in \<open>simp_all add: res ps take_result_def\<close>)
qed

lemma fold_keeps: "(\<And>x s. x \<in> set xs \<Longrightarrow> P s \<Longrightarrow> P (f x s)) \<Longrightarrow> P s \<Longrightarrow> P (fold f xs s)"
  by (induction xs arbitrary: s) auto

lemma parse_line_ok: "stats_ok ps \<Longrightarrow> stats_ok (parse_line lib x ps)"
proof -
  assume ok: "stats_ok ps"
  obtain n line where x: "x = (n, line)" by (cases x)
  obtain bs als st where ps: "ps = (bs, als, st)" by (cases ps) auto
  have "stats_ok (bs, als, st\<lparr>downloaded_entries := downloaded_entries st + 1\<rparr>)"
    using ok by (simp add: ps stats_ok_def)
  then have "stats_ok (fold (take_result n (py_strip line)) (parse_source_line lib (py_strip line))
      (bs, als, st\<lparr>downloaded_entries := downloaded_entries st + 1\<rparr>))"
    by (intro fold_keeps [where P = stats_ok] take_result_ok parse_source_line_ok)
  with ok show ?thesis by (simp add: parse_line_def x ps Let_def)
qed

lemma parse_rule_lines_ok:
  assumes "parse_rule_lines lib lines = (bs, als, st)"
  shows "stats_ok (bs, als, st)" "unique_active_domains st = card bs"
    "parsed_rules st = accepted_domains st + duplicate_domains st"
proof -
  obtain b a s where f: "fold (parse_line lib) (enumerate 1 lines) ({}, {}, ParseStats) = (b, a, s)" by (metis prod_cases3)
  have "stats_ok (b, a, s)"
    unfolding f [symmetric] by (intro fold_keeps [where P = stats_ok] parse_line_ok stats_ok_empty)
  with assms f show "stats_ok (bs, als, st)" "unique_active_domains st = card bs"
    "parsed_rules st = accepted_domains st + duplicate_domains st"
    by (auto simp: parse_rule_lines_def stats_ok_def)
qed

section \<open>Attribution across sources\<close>

lemma attribute_unique_sum:
  "(\<forall>e\<in>set es. finite (fst (snd e))) \<Longrightarrow>
   sum_list (map (\<lambda>e. unique_active_domains (stats_of e)) (attribute_unique seen es)) = card (blocks_of es - seen)"
proof (induction seen es rule: attribute_unique.induct)
  case (2 seen s bs als st es)
  have fin: "finite bs" "finite (blocks_of es)" using 2 by (auto simp: blocks_of_def)
  have "blocks_of ((s, bs, als, st) # es) - seen = (bs - seen) \<union> (blocks_of es - (seen \<union> bs))"
    by (auto simp: blocks_of_def)
  moreover have "card ((bs - seen) \<union> (blocks_of es - (seen \<union> bs))) = card (bs - seen) + card (blocks_of es - (seen \<union> bs))"
    using fin by (intro card_Un_disjoint) auto
  ultimately show ?case using 2 by (simp add: Let_def stats_of_def)
qed (simp add: blocks_of_def)

lemma attribute_unique_same:
  "blocks_of (attribute_unique seen es) = blocks_of es" "allows_of (attribute_unique seen es) = allows_of es"
  "map fst (attribute_unique seen es) = map fst es"
  by (induction seen es rule: attribute_unique.induct) (simp_all add: blocks_of_def allows_of_def Let_def)

lemma attribute_unique_balance:
  "(\<forall>e\<in>set es. stats_ok (snd e)) \<Longrightarrow> e \<in> set (attribute_unique seen es) \<Longrightarrow>
   stats_ok (snd e) \<and>
   parsed_rules (stats_of e) = duplicate_domains (stats_of e) + unique_active_domains (stats_of e) + exceptions (stats_of e)"
proof (induction seen es rule: attribute_unique.induct)
  case (2 seen s bs als st es)
  show ?case
  proof (cases "e \<in> set (attribute_unique (seen \<union> bs) es)")
    case True
    with 2 show ?thesis by (simp add: Let_def)
  next
    case False
    have ok: "stats_ok (bs, als, st)" using 2(2) by simp
    then have "card (bs - seen) \<le> card bs" by (auto simp: stats_ok_def intro: card_mono)
    with False 2(3) ok show ?thesis by (auto simp: Let_def stats_of_def stats_ok_def)
  qed
qed simp

section \<open>The parse cache\<close>

lemma wf_name_line: "wf_name d \<Longrightarrow> (\<forall>c\<in>set d. \<not> is_linebreak c) \<and> py_strip d = d \<and> d \<noteq> []"
  using name_char_facts(4) wf_domain_chars wf_domain_strip wf_domain_ne by (auto simp: wf_name_def)

lemma artifact_round_trip:
  assumes "finite D" "\<forall>d\<in>D. wf_name d"
  shows "set (filter (\<lambda>l. l \<noteq> []) (map py_strip (splitlines (artifact_text D)))) = D"
proof -
  have names: "\<forall>d\<in>set (sorted_list_of_set D). wf_name d" using assms by simp
  have "splitlines (artifact_text D) = sorted_list_of_set D"
    unfolding artifact_text_def by (rule splitlines_concat) (use names wf_name_line in blast)
  moreover have "map py_strip (sorted_list_of_set D) = sorted_list_of_set D"
    by (rule map_idI) (use names wf_name_line in blast)
  moreover have "filter (\<lambda>l. l \<noteq> []) (sorted_list_of_set D) = sorted_list_of_set D"
    by (rule filter_True) (use names wf_name_line in blast)
  ultimately show ?thesis using assms(1) by simp
qed

definition artifact_path :: "nat \<Rightarrow> string \<Rightarrow> string \<Rightarrow> string" where
  "artifact_path i h ext = (''cache/'' @ str_nat i @ ''-'' @ h) @ ext"

lemma str_nat_inject [simp]: "str_nat i = str_nat j \<longleftrightarrow> i = j"
  by (metis digits_val_str_nat)

lemma artifact_path_inject:
  assumes "artifact_path i h e = artifact_path j h' e'" "{e, e'} \<subseteq> {''.blocks'', ''.allows''}"
  shows "i = j \<and> h = h' \<and> e = e'"
proof -
  have pre: "takeWhile (\<lambda>c. c \<noteq> CHR ''-'') (str_nat k @ CHR ''-'' # r) = str_nat k" for k r
  proof -
    have "\<forall>c\<in>set (str_nat k). c \<noteq> CHR ''-''"
      using str_nat_digits [of k] by (auto simp: list_all_iff is_ascii_digit_def Let_def)
    then show ?thesis by (simp add: takeWhile_append)
  qed
  from assms(1) have eq: "str_nat i @ CHR ''-'' # h @ e = str_nat j @ CHR ''-'' # h' @ e'"
    by (simp add: artifact_path_def)
  then have "str_nat i = str_nat j" by (metis pre)
  with eq have "i = j" "h @ e = h' @ e'" by simp_all
  moreover have "length e = length e'" using assms(2) by auto
  ultimately show ?thesis by simp
qed

lemma artifact_path_ext:
  "artifact_path i h ''.blocks'' \<noteq> artifact_path j h' ''.allows''"
  "artifact_path i h ''.allows'' \<noteq> artifact_path j h' ''.blocks''"
  using artifact_path_inject [of i h "''.blocks''" j h' "''.allows''"]
    artifact_path_inject [of i h "''.allows''" j h' "''.blocks''"] by auto

lemma artifact_path_same:
  "artifact_path i h ''.blocks'' = artifact_path j h' ''.blocks'' \<Longrightarrow> h = h'"
  "artifact_path i h ''.allows'' = artifact_path j h' ''.allows'' \<Longrightarrow> h = h'"
  using artifact_path_inject [of i h "''.blocks''" j h' "''.blocks''"]
    artifact_path_inject [of i h "''.allows''" j h' "''.allows''"] by auto

text \<open>A cache row holds what parsing some content with its hash gives; \<open>K\<close> is the set of contents ever parsed.\<close>

definition row_sound :: "stdlib \<Rightarrow> (string \<Rightarrow> string) \<Rightarrow> string set \<Rightarrow> file_map \<Rightarrow> cache_row \<Rightarrow> bool" where
  "row_sound lib sha K files c =
     (\<exists>content bs als st. content \<in> K \<and> cr_sha256 c = sha content \<and> parse_rule_lines lib (file_lines content) = (bs, als, st) \<and>
        cr_blocks_path c = artifact_path (cr_source_id c) (sha content) ''.blocks'' \<and>
        cr_allows_path c = artifact_path (cr_source_id c) (sha content) ''.allows'' \<and>
        map_of files (cr_blocks_path c) = Some (artifact_text bs) \<and>
        map_of files (cr_allows_path c) = Some (artifact_text als) \<and> cr_stats c = stored_stats st)"

definition cache_sound :: "stdlib \<Rightarrow> (string \<Rightarrow> string) \<Rightarrow> string set \<Rightarrow> file_map \<Rightarrow> cache_row list \<Rightarrow> bool" where
  "cache_sound lib sha K files cache = (\<forall>c\<in>set cache. row_sound lib sha K files c)"

lemma stored_stats_small: "stats_ok (bs, als, st) \<Longrightarrow> stored_stats st = st"
  by (simp add: stats_ok_def stored_stats_def)

lemma read_cached_sound:
  assumes "inj_on sha K" "content \<in> K" "cache_sound lib sha K files cache" "cache_hit (sha content) s cache = Some c"
  shows "read_cached (Some c) files = Some (parse_rule_lines lib (file_lines content))"
proof -
  from assms(4) have c: "c \<in> set cache" "cr_sha256 c = sha content" by (auto simp: cache_hit_def find_Some_iff)
  with assms(3) have "row_sound lib sha K files c" by (simp add: cache_sound_def)
  then obtain content' bs als st where k: "content' \<in> K" and r: "cr_sha256 c = sha content'"
    "parse_rule_lines lib (file_lines content') = (bs, als, st)"
    "map_of files (cr_blocks_path c) = Some (artifact_text bs)"
    "map_of files (cr_allows_path c) = Some (artifact_text als)" "cr_stats c = stored_stats st"
    by (auto simp: row_sound_def)
  from r(1) c(2) have "content' = content" by (intro inj_onD [OF assms(1) _ k assms(2)]) simp
  note ok = parse_rule_lines_ok(1) [OF r(2)]
  have "read_domain_artifact files (cr_blocks_path c) = Some bs" "read_domain_artifact files (cr_allows_path c) = Some als"
    using ok artifact_round_trip by (auto simp: read_domain_artifact_def r(3,4) stats_ok_def)
  then show ?thesis using stored_stats_small [OF ok] r(2,5) \<open>content' = content\<close> by (simp add: read_cached_def)
qed

lemma parse_source_file_sound:
  assumes inj: "inj_on sha K" and k: "content \<in> K" and cs: "cache_sound lib sha K files cache"
    and p: "parse_source_file lib sha ts s content files cache = (result, files', cache')"
  shows "result = parse_rule_lines lib (file_lines content)" "cache_sound lib sha K files' cache'"
proof -
  obtain bs als st where parsed: "parse_rule_lines lib (file_lines content) = (bs, als, st)" by (metis prod_cases3)
  show "result = parse_rule_lines lib (file_lines content)"
  proof (cases "read_cached (cache_hit (sha content) s cache) files")
    case None
    with p parsed show ?thesis by (simp add: parse_source_file_def Let_def)
  next
    case (Some x)
    then obtain c where "cache_hit (sha content) s cache = Some c"
      by (cases "cache_hit (sha content) s cache") (auto simp: read_cached_def)
    with read_cached_sound [OF inj k cs this] Some p show ?thesis by (simp add: parse_source_file_def Let_def)
  qed
  show "cache_sound lib sha K files' cache'"
  proof (cases "read_cached (cache_hit (sha content) s cache) files")
    case (Some x)
    with p cs show ?thesis by (simp add: parse_source_file_def Let_def)
  next
    case None
    let ?bp = "artifact_path (src_id s) (sha content) ''.blocks''"
    let ?ap = "artifact_path (src_id s) (sha content) ''.allows''"
    let ?row = "\<lparr>cr_source_id = src_id s, cr_sha256 = sha content, cr_parser_version = PARSER_CACHE_VERSION,
                cr_blocks_path = ?bp, cr_allows_path = ?ap, cr_stats = stored_stats st, cr_updated_at = ts\<rparr>"
    have new: "files' = write_domain_artifact ?ap als (write_domain_artifact ?bp bs files)" "cache' = upsert_cache ?row cache"
      using p None parsed by (auto simp: parse_source_file_def Let_def artifact_prefix_def artifact_path_def)
    have ne: "?ap \<noteq> ?bp" by (rule artifact_path_ext(2))
    have look: "map_of files' = (map_of files)(?bp \<mapsto> artifact_text bs, ?ap \<mapsto> artifact_text als)"
      by (simp add: new(1) write_domain_artifact_def update_conv')
    have row: "row_sound lib sha K files' ?row" unfolding row_sound_def
      by (rule exI [of _ content], rule exI [of _ bs], rule exI [of _ als], rule exI [of _ st])
         (simp add: k parsed look ne ne [symmetric])
    have old: "row_sound lib sha K files' c" if "c \<in> set cache" for c
    proof -
      have "row_sound lib sha K files c" using cs that by (simp add: cache_sound_def)
      then obtain y b a t where yk: "y \<in> K" and y: "cr_sha256 c = sha y" "parse_rule_lines lib (file_lines y) = (b, a, t)"
        "cr_blocks_path c = artifact_path (cr_source_id c) (sha y) ''.blocks''"
        "cr_allows_path c = artifact_path (cr_source_id c) (sha y) ''.allows''"
        "map_of files (cr_blocks_path c) = Some (artifact_text b)"
        "map_of files (cr_allows_path c) = Some (artifact_text a)" "cr_stats c = stored_stats t"
        unfolding row_sound_def by (elim exE conjE) (rule that; assumption)
      have same: "b = bs \<and> a = als" if "sha y = sha content"
        using y(2) parsed inj_onD [OF inj that yk k] by simp
      have bp: "cr_blocks_path c \<noteq> ?ap" "cr_blocks_path c = ?bp \<Longrightarrow> b = bs"
        using same artifact_path_ext(1) artifact_path_same unfolding y(3) by blast+
      have ap: "cr_allows_path c \<noteq> ?bp" "cr_allows_path c = ?ap \<Longrightarrow> a = als"
        using same artifact_path_ext(2) artifact_path_same unfolding y(4) by blast+
      have "map_of files' (cr_blocks_path c) = Some (artifact_text b)"
        using bp y(5) unfolding look by (cases "cr_blocks_path c = ?bp") simp_all
      moreover have "map_of files' (cr_allows_path c) = Some (artifact_text a)"
        using ap y(6) unfolding look by (cases "cr_allows_path c = ?ap") simp_all
      ultimately show ?thesis unfolding row_sound_def using y yk by blast
    qed
    have "c \<in> insert ?row (set cache)" if "c \<in> set cache'" for c
      using that unfolding new(2) upsert_cache_def by (auto simp: set_update_where split: if_splits)
    with row old show ?thesis unfolding cache_sound_def by blast
  qed
qed

section \<open>The fast path\<close>

lemma fast_char_facts:
  assumes "fast_char c"
  shows "\<not> py_isspace c" "\<not> is_control c" "c \<notin> set ''/:@;$!#^|*%''"
  using assms by (auto simp: fast_char_def is_ascii_lower_def is_ascii_upper_def is_ascii_digit_def
      py_isspace_def is_control_def Let_def)

text \<open>A line the fast path accepts: an exception mark, anchors and a candidate name.\<close>

definition fast_line :: "bool \<Rightarrow> string \<Rightarrow> string \<Rightarrow> string \<Rightarrow> string" where
  "fast_line allow pre cand suf = (if allow then ''@@'' else []) @ pre @ cand @ suf"

definition anchors :: "string \<Rightarrow> string \<Rightarrow> bool" where
  "anchors pre suf = (pre = [] \<and> suf = [] \<or> pre \<in> {''||'', ''|''} \<and> suf = ''^'')"

lemma anchored_body:
  assumes "prefix pre body" "suffix ''^'' body" "count_char CHR ''^'' body = 1" "CHR ''^'' \<notin> set pre"
  shows "body = pre @ butlast (drop (length pre) body) @ ''^''"
proof -
  obtain r where r: "body = pre @ r" using assms(1) by (auto simp: prefix_def)
  obtain u where u: "body = u @ ''^''" using assms(2) by (auto simp: suffix_def)
  have "r \<noteq> []" using r u assms(4) by (auto simp: append_eq_append_conv2 dest: arg_cong [where f = set])
  then have "last r = CHR ''^''" using r u by (metis last_appendR last_snoc)
  then have "r = butlast r @ ''^''" using \<open>r \<noteq> []\<close> by (metis append_butlast_last_id)
  with r show ?thesis by simp
qed

lemma fast_candidate_shape:
  assumes "fast_candidate allow body = Some cand"
  shows "\<exists>pre suf. anchors pre suf \<and> body = pre @ cand @ suf"
proof -
  consider "prefix ''||'' body" "suffix ''^'' body" "count_char CHR ''^'' body = 1" "cand = butlast (drop 2 body)"
    | "prefix ''|'' body" "suffix ''^'' body" "count_char CHR ''^'' body = 1" "cand = butlast (drop 1 body)"
    | "cand = body"
    using assms by (auto simp: fast_candidate_def split: if_splits)
  then show ?thesis
  proof cases
    case 1
    then have "body = ''||'' @ cand @ ''^''" using anchored_body [of "''||''" body] by (simp add: numeral_2_eq_2)
    then show ?thesis by (intro exI [of _ "''||''"] exI [of _ "''^''"]) (simp add: anchors_def)
  next
    case 2
    then have "body = ''|'' @ cand @ ''^''" using anchored_body [of "''|''" body] by simp
    then show ?thesis by (intro exI [of _ "''|''"] exI [of _ "''^''"]) (simp add: anchors_def)
  next
    case 3
    then show ?thesis by (intro exI [of _ "[]"]) (simp add: anchors_def)
  qed
qed

lemma fast_common_shape:
  assumes "fast_common_source_rule lib raw = Some rs"
  obtains allow pre cand suf d where "raw = fast_line allow pre cand suf" "anchors pre suf" "cand \<noteq> []"
    "list_all fast_char cand" "normalize_domain lib cand = Some d"
    "rs = [(if allow then Lallow else Lblock, Some d, [])]"
proof -
  let ?al = "prefix ''@@'' raw"
  from assms obtain cand d where c: "fast_candidate ?al (if ?al then drop 2 raw else raw) = Some cand"
    "cand \<noteq> []" "list_all fast_char cand" "normalize_domain lib cand = Some d"
    "rs = [(if ?al then Lallow else Lblock, Some d, [])]"
    by (auto simp: fast_common_source_rule_def Let_def split: option.splits if_splits)
  from fast_candidate_shape [OF c(1)] obtain pre suf where "anchors pre suf" "(if ?al then drop 2 raw else raw) = pre @ cand @ suf"
    by blast
  moreover from this(2) have "raw = fast_line ?al pre cand suf"
    by (auto simp: fast_line_def prefix_def split: if_splits)
  ultimately show thesis using c that by blast
qed

lemma normalized_not_ip:
  assumes "normalize_domain lib cand = Some d" "list_all fast_char cand"
  shows "ip_address cand = None"
proof (rule ccontr)
  assume "ip_address cand \<noteq> None"
  moreover have "CHR '':'' \<notin> set cand" using assms(2) fast_char_facts(3) by (force simp: list_all_iff)
  ultimately obtain n where n: "parse_v4 cand = Some n" by (auto dest: ip_address_no_colon)
  then have chars: "\<forall>c\<in>set cand. is_ascii_digit c \<or> c = dot" using parse_v4_chars by blast
  obtain a b e f where sp: "split_char dot cand = [a, b, e, f]" "a \<noteq> []" "f \<noteq> []"
    using n by (rule parse_v4_parts) (auto dest!: parse_octet_digits)
  then have ends: "cand \<noteq> []" "hd cand \<noteq> dot" "last cand \<noteq> dot"
    using split_char_ends [of cand dot] split_char_last_ends [of cand dot] by (auto, force+)
  have sd: "strip_dots cand = cand" by (rule strip_by_id) (use ends in simp)
  have ps: "py_strip cand = cand"
    by (rule strip_by_none) (use assms(2) fast_char_facts(1) in \<open>auto simp: list_all_iff\<close>)
  have lo: "py_lower cand = cand"
    unfolding py_lower_def by (rule map_idI) (use chars in \<open>auto simp: lower_char_def is_ascii_digit_def Let_def\<close>)
  have as: "py_isascii cand"
    using chars by (auto simp: py_isascii_def list_all_iff is_ascii_def is_ascii_digit_def Let_def)
  have "looks_like_ip_literal cand" by (rule parse_v4_looks_like_ip [OF n])
  moreover have "ip_address cand \<noteq> None" using n by (simp add: ip_address_def)
  ultimately have "normalize_domain lib cand = None"
    unfolding normalize_domain_def Let_def ps sd lo by (simp add: as)
  with assms(1) show False by simp
qed

lemma fast_line_facts:
  assumes raw: "raw = fast_line allow pre cand suf" and an: "anchors pre suf" and cand: "cand \<noteq> []" "list_all fast_char cand"
    and norm: "normalize_domain lib cand = Some d"
  shows "raw \<noteq> []" "\<forall>c\<in>set raw. \<not> py_isspace c" "\<forall>c\<in>set raw. \<not> is_control c" "CHR ''#'' \<notin> set raw"
    "CHR ''$'' \<notin> set raw" "ip_address raw = None" "\<not> prefix ''!'' raw" "\<not> prefix ''/'' raw" "\<not> prefix ''@@/'' raw"
    "\<not> prefix ''#'' raw" "prefix ''@@'' raw \<longleftrightarrow> allow"
proof -
  have ch: "fast_char c \<or> c \<in> {CHR ''@'', CHR ''|'', CHR ''^''}" if "c \<in> set raw" for c
    using that an cand(2) by (auto simp: raw fast_line_def anchors_def list_all_iff split: if_splits)
  show "raw \<noteq> []" using cand(1) by (simp add: raw fast_line_def)
  show "\<forall>c\<in>set raw. \<not> py_isspace c" using ch fast_char_facts(1) by (fastforce simp: py_isspace_def Let_def)
  show "\<forall>c\<in>set raw. \<not> is_control c" using ch fast_char_facts(2) by (fastforce simp: is_control_def Let_def)
  have no: "x \<notin> set raw" if "x \<in> set ''/:;$!#*%''" for x
  proof
    assume "x \<in> set raw"
    with ch [OF this] fast_char_facts(3) [of x] that show False by auto
  qed
  show "CHR ''#'' \<notin> set raw" "CHR ''$'' \<notin> set raw" using no by simp_all
  show "\<not> prefix ''!'' raw" "\<not> prefix ''/'' raw" "\<not> prefix ''@@/'' raw" "\<not> prefix ''#'' raw"
    using no [of "CHR ''!''"] no [of "CHR ''/''"] no [of "CHR ''#''"] by (auto simp: prefix_def)
  have "hd cand \<noteq> CHR ''@''" using cand fast_char_facts(3) [of "hd cand"] by (auto simp: list_all_iff)
  then show "prefix ''@@'' raw \<longleftrightarrow> allow"
    using cand(1) an by (cases cand) (auto simp: raw fast_line_def anchors_def)
  show "ip_address raw = None"
  proof (cases "allow \<or> pre \<noteq> []")
    case False
    with an have "raw = cand" by (simp add: raw fast_line_def anchors_def)
    then show ?thesis using normalized_not_ip [OF norm cand(2)] by simp
  next
    case True
    then have "hd raw \<in> {CHR ''@'', CHR ''|''}" "raw \<noteq> []" using an by (auto simp: raw fast_line_def anchors_def)
    then have sp: "CHR ''@'' \<in> set raw \<or> CHR ''|'' \<in> set raw" by (metis hd_in_set insertE singletonD)
    have "CHR '':'' \<notin> set raw" using no by simp
    have "parse_v4 raw = None"
    proof (rule ccontr)
      assume "parse_v4 raw \<noteq> None"
      then obtain n where n: "parse_v4 raw = Some n" by blast
      from sp parse_v4_chars [OF n] show False by (fastforce simp: is_ascii_digit_def Let_def)
    qed
    with \<open>CHR '':'' \<notin> set raw\<close> show ?thesis
      by (cases "ip_address raw") (auto dest: ip_address_no_colon)
  qed
qed

lemma cut_terminators_fast:
  assumes "list_all fast_char cand" "suf = [] \<or> suf = ''^''"
  shows "cut_terminators ''^|'' (cand @ suf) = Some cand"
proof -
  have no: "CHR ''^'' \<notin> set cand" "CHR ''|'' \<notin> set cand"
    using assms(1) fast_char_facts(3) by (force simp: list_all_iff)+
  then have "find_char CHR ''^'' (cand @ ''^'') = Some (length cand)" by (intro find_char_append)
  with no assms(2) show ?thesis by auto
qed

lemma parse_domain_rule_fast:
  assumes raw: "raw = fast_line allow pre cand suf" and an: "anchors pre suf" and cand: "cand \<noteq> []" "list_all fast_char cand"
    and norm: "normalize_domain lib cand = Some d"
  shows "validation_state (parse_domain_rule lib raw True) = Valid \<and> domain (parse_domain_rule lib raw True) = Some d \<and>
    rule_type (parse_domain_rule lib raw True) = (if allow then Rallow else Rblock) \<and>
    action (parse_domain_rule lib raw True) = (if allow then Aallow else Ablock)"
proof -
  note F = fast_line_facts [OF raw an cand norm]
  let ?body = "pre @ cand @ suf"
  have al: "startswith raw ''@@'' \<longleftrightarrow> allow" "(if allow then drop 2 raw else raw) = ?body"
    using F(11) by (auto simp: raw fast_line_def)
  have sub: "set ?body \<subseteq> set raw" by (auto simp: raw fast_line_def)
  have part: "partition_char CHR ''$'' ?body = (?body, False, [])"
    using F(5) sub by (intro partition_char_none) blast
  have strip: "py_strip ?body = ?body" by (rule strip_by_none) (use F(2) sub in blast)
  have "hd cand \<noteq> CHR ''|''" using cand fast_char_facts(3) [of "hd cand"] by (auto simp: list_all_iff)
  then have subs: "\<exists>b. (if startswith ?body ''||'' then (True, drop 2 ?body)
       else if startswith ?body ''|'' then (False, drop 1 ?body) else (True, ?body)) = (b, cand @ suf)"
    using an cand(1) by (cases cand) (auto simp: anchors_def)
  then obtain b where b: "(if startswith ?body ''||'' then (True, drop 2 ?body)
       else if startswith ?body ''|'' then (False, drop 1 ?body) else (True, ?body)) = (b, cand @ suf)" by blast
  have "suf = [] \<or> suf = ''^''" using an by (auto simp: anchors_def)
  note ct = cut_terminators_fast [OF cand(2) this]
  show ?thesis
    unfolding parse_domain_rule_def Let_def al(1) al(2) part prod.case strip b ct option.case norm
    by (simp add: ParsedRule_def)
qed

lemma fast_path_agrees:
  assumes "fast_common_source_rule lib raw = Some [(k, Some d, why)]" "d \<notin> set LOCALHOST_ALIASES"
  shows "parse_slow lib raw = [(k, Some d, why)]"
proof -
  from assms(1) obtain allow pre cand suf where raw: "raw = fast_line allow pre cand suf" and an: "anchors pre suf"
    and cand: "cand \<noteq> []" "list_all fast_char cand" and norm: "normalize_domain lib cand = Some d"
    and res: "k = (if allow then Lallow else Lblock)" "why = []"
    by (rule fast_common_shape) auto
  note F = fast_line_facts [OF raw an cand norm]
  have "py_strip raw = raw" by (rule strip_by_none [OF F(2)])
  moreover have "CHR 0x0A \<notin> set raw" "CHR 0x0D \<notin> set raw" using F(3) by (auto simp: is_control_def Let_def)
  moreover have "\<not> list_ex (\<lambda>c. is_control c \<and> c \<noteq> CHR 0x09) raw" using F(3) by (auto simp: list_ex_iff)
  moreover have "parse_hosts_line lib raw = []" by (rule not_hosts_line [OF F(1,2,4,6)])
  ultimately have "parse_rule lib raw True = [parse_domain_rule lib raw True]"
    using F no_hash_not_cosmetic [OF F(4)] by (simp add: parse_rule_def Let_def)
  then show ?thesis using parse_domain_rule_fast [OF raw an cand norm] assms(2) res
    by (cases allow) (simp_all add: parse_slow_def classify_rule_def)
qed

section \<open>A whole collection run\<close>

text \<open>Downloaded copies and cache artifacts never share a path.\<close>

lemma artifact_not_current: "prefix ''current/'' p \<Longrightarrow> p \<noteq> artifact_path i h e"
  by (auto simp: prefix_def artifact_path_def)

lemma current_path_prefix: "prefix ''current/'' (current_path sha s)"
  by (simp add: current_path_def)

lemma row_sound_files:
  assumes "row_sound lib sha K files c" "\<And>i h e. map_of files' (artifact_path i h e) = map_of files (artifact_path i h e)"
  shows "row_sound lib sha K files' c"
  using assms unfolding row_sound_def by metis

lemma cache_sound_download:
  assumes "cache_sound lib sha K files cache"
  shows "cache_sound lib sha K (AList.update (current_path sha s) body files) cache"
proof -
  have "map_of (AList.update (current_path sha s) body files) (artifact_path i h e) = map_of files (artifact_path i h e)" for i h e
    using artifact_not_current [OF current_path_prefix, of sha s i h e] by (simp add: update_conv')
  with assms show ?thesis unfolding cache_sound_def by (blast intro: row_sound_files)
qed

lemma download_source_cases:
  assumes "download_source sha s f files = (r, files')"
  shows "(sr_path r = None \<or> sr_path r = Some (current_path sha s)) \<and>
    (files' = files \<or> (\<exists>body. files' = AList.update (current_path sha s) body files))"
  using assms by (auto simp: download_source_def Let_def split: fetch.splits sum.splits prod.splits if_splits)

lemma fetch_all_facts:
  "fetch_all sha net ss files = (pending, downloads, files') \<Longrightarrow>
   map fst pending = ss \<and>
   (\<forall>(s, r)\<in>set pending. sr_path r = None \<or> sr_path r = Some (current_path sha s)) \<and>
   (cache_sound lib sha K files cache \<longrightarrow> cache_sound lib sha K files' cache)"
proof (induction ss arbitrary: files pending downloads files')
  case (Cons s ss)
  show ?case
  proof (cases net)
    case None
    obtain p1 d1 files2 where f: "fetch_all sha net ss files = (p1, d1, files2)" by (metis prod_cases3)
    have out: "fst (hd pending) = s" "sr_path (snd (hd pending)) = Some (current_path sha s)"
      "pending = hd pending # p1" "files' = files2" using Cons.prems None f by (auto simp: Let_def)
    have IH: "map fst p1 = ss \<and> (\<forall>(s, r)\<in>set p1. sr_path r = None \<or> sr_path r = Some (current_path sha s)) \<and>
        (cache_sound lib sha K files cache \<longrightarrow> cache_sound lib sha K files2 cache)"
      by (rule Cons.IH [OF f])
    obtain r0 where "pending = (s, r0) # p1" "sr_path r0 = Some (current_path sha s)"
      using out(1-3) by (metis prod.collapse)
    with IH show ?thesis unfolding out(4) by simp
  next
    case (Some fetch_of)
    obtain r files1 where d: "download_source sha s (fetch_of (src_id s)) files = (r, files1)" by (metis surj_pair)
    obtain p1 d1 files2 where f: "fetch_all sha net ss files1 = (p1, d1, files2)" by (metis prod_cases3)
    have out: "pending = (s, r) # p1" "files' = files2" using Cons.prems Some d f by (auto simp: Let_def)
    have "cache_sound lib sha K files1 cache" if "cache_sound lib sha K files cache"
      using download_source_cases [OF d] that cache_sound_download by blast
    then show ?thesis using Cons.IH [OF f] download_source_cases [OF d] by (auto simp: out)
  qed
qed simp

definition gather_inv :: "stdlib \<Rightarrow> (string \<Rightarrow> string) \<Rightarrow> string set \<Rightarrow> file_map \<Rightarrow> gathered \<Rightarrow> bool" where
  "gather_inv lib sha K files g =
     (cache_sound lib sha K (ga_files g) (ga_cache g) \<and>
      (\<forall>p. prefix ''current/'' p \<longrightarrow> map_of (ga_files g) p = map_of files p) \<and>
      (\<forall>e\<in>set (ga_entries g). stats_ok (snd e)))"

lemma parse_source_file_files:
  assumes "parse_source_file lib sha ts s content files cache = (result, files', cache')" "prefix ''current/'' p"
  shows "map_of files' p = map_of files p"
proof -
  have "p \<noteq> artifact_prefix s h @ e" for h e
    using artifact_not_current [OF assms(2), of "src_id s" h e] by (simp add: artifact_prefix_def artifact_path_def)
  then show ?thesis using assms(1)
    by (auto simp: parse_source_file_def Let_def write_domain_artifact_def update_conv' split: option.splits prod.splits)
qed

lemma gather_source_inv:
  assumes g: "gather_inv lib sha K files g" and inj: "inj_on sha K"
    and K: "\<And>p content. prefix ''current/'' p \<Longrightarrow> map_of files p = Some content \<Longrightarrow> content \<in> K"
    and path: "sr_path r = None \<or> sr_path r = Some (current_path sha s)"
  shows "gather_inv lib sha K files (gather_source lib sha ts (s, r) g)"
proof (cases "Option.bind (sr_path r) (map_of (ga_files g))")
  case None
  with g show ?thesis
    by (auto simp: gather_source_def gather_inv_def Let_def stats_ok_empty split: option.splits)
next
  case (Some content)
  with path have "map_of (ga_files g) (current_path sha s) = Some content" by (auto simp: bind_eq_Some_conv)
  with g have k: "content \<in> K"
    using K [OF current_path_prefix] current_path_prefix by (auto simp: gather_inv_def)
  obtain res f c where p: "parse_source_file lib sha ts s content (ga_files g) (ga_cache g) = (res, f, c)"
    by (metis prod_cases3)
  have cs: "cache_sound lib sha K (ga_files g) (ga_cache g)" using g by (simp add: gather_inv_def)
  note ps = parse_source_file_sound [OF inj k cs p]
  have "stats_ok res" using parse_rule_lines_ok(1) ps(1) by (metis prod_cases3)
  with g Some p ps(2) parse_source_file_files [OF p] show ?thesis
    by (auto simp: gather_source_def gather_inv_def Let_def split: option.splits)
qed

lemma gather_all_inv:
  assumes "inj_on sha K" "\<And>p content. prefix ''current/'' p \<Longrightarrow> map_of files p = Some content \<Longrightarrow> content \<in> K"
    and "\<forall>(s, r)\<in>set pending. sr_path r = None \<or> sr_path r = Some (current_path sha s)"
    and "cache_sound lib sha K files cache"
  shows "gather_inv lib sha K files (fold (gather_source lib sha ts) pending
    \<lparr>ga_entries = [], ga_errors = [], ga_files = files, ga_cache = cache\<rparr>)"
proof (rule fold_keeps [where P = "gather_inv lib sha K files"])
  fix x g assume x: "x \<in> set pending" and g: "gather_inv lib sha K files g"
  obtain s r where sr: "x = (s, r)" by (cases x)
  show "gather_inv lib sha K files (gather_source lib sha ts x g)"
    unfolding sr by (rule gather_source_inv [OF g assms(1)]) (use assms(2,3) x sr in auto)
qed (use assms(4) in \<open>simp add: gather_inv_def\<close>)

lemma stats_ok_finite: "stats_ok (bs, als, st) \<Longrightarrow> finite bs" "stats_ok (bs, als, st) \<Longrightarrow> d \<in> bs \<Longrightarrow> wf_name d"
  by (simp_all add: stats_ok_def)

lemma collect_rules_totals:
  fixes ts :: string
  assumes "inj_on sha K" "cache_sound lib sha K files (parse_cache db)"
    and fetched: "fetch_all sha net (enabled_sources (sources db)) files = (pending, downloads, files1)"
    and K: "\<And>p content. prefix ''current/'' p \<Longrightarrow> map_of files1 p = Some content \<Longrightarrow> content \<in> K"
  defines "c \<equiv> collect_rules lib sha ts net db files"
  shows "sum_list (map (\<lambda>e. unique_active_domains (stats_of e)) (co_entries c)) = card (blocks_of (co_entries c))"
    "e \<in> set (co_entries c) \<Longrightarrow>
       parsed_rules (stats_of e) = duplicate_domains (stats_of e) + unique_active_domains (stats_of e) + exceptions (stats_of e)"
    "co_blocks c = blocks_of (co_entries c) - allows_of (co_entries c)"
    "finite (co_blocks c)" "d \<in> co_blocks c \<Longrightarrow> wf_name d"
proof -
  note ff = fetch_all_facts [OF fetched, of lib K "parse_cache db"]
  let ?g = "fold (gather_source lib sha ts) pending \<lparr>ga_entries = [], ga_errors = [], ga_files = files1, ga_cache = parse_cache db\<rparr>"
  have "gather_inv lib sha K files1 ?g"
    using ff assms(2) by (intro gather_all_inv [OF assms(1) K]) auto
  then have ok: "\<forall>e\<in>set (ga_entries ?g). stats_ok (snd e)" by (simp add: gather_inv_def)
  have co: "co_entries c = attribute_unique {} (ga_entries ?g)"
    "co_blocks c = blocks_of (co_entries c) - allows_of (co_entries c)"
    by (simp_all add: c_def collect_rules_def fetched Let_def)
  have fin: "\<forall>e\<in>set (ga_entries ?g). finite (fst (snd e))"
    using ok stats_ok_finite(1) by (metis prod.exhaust_sel)
  have wf: "wf_name d" if "d \<in> blocks_of (ga_entries ?g)" for d
  proof -
    from that obtain e where "e \<in> set (ga_entries ?g)" "d \<in> fst (snd e)" by (auto simp: blocks_of_def)
    with ok show ?thesis using stats_ok_finite(2) [of "fst (snd e)" "fst (snd (snd e))" "snd (snd (snd e))"] by simp
  qed
  show "sum_list (map (\<lambda>e. unique_active_domains (stats_of e)) (co_entries c)) = card (blocks_of (co_entries c))"
    using attribute_unique_sum [OF fin, of "{}"] by (simp add: co attribute_unique_same)
  show "e \<in> set (co_entries c) \<Longrightarrow>
       parsed_rules (stats_of e) = duplicate_domains (stats_of e) + unique_active_domains (stats_of e) + exceptions (stats_of e)"
    using attribute_unique_balance [OF ok] by (simp add: co)
  show "co_blocks c = blocks_of (co_entries c) - allows_of (co_entries c)" by (rule co(2))
  have "finite (blocks_of (ga_entries ?g))" using fin by (auto simp: blocks_of_def)
  then show "finite (co_blocks c)" by (simp add: co attribute_unique_same)
  show "d \<in> co_blocks c \<Longrightarrow> wf_name d" using wf by (simp add: co attribute_unique_same)
qed

section \<open>Properties\<close>

text \<open>
  C30: the fast path of the blocklist parser is an optimisation only: when it recognises a line, the
  full rule parser gives the same result, unless the name is one of the localhost aliases.
\<close>

theorem fast_path_equals_parser:
  assumes "fast_common_source_rule lib raw = Some [(k, Some d, why)]" "d \<notin> set LOCALHOST_ALIASES"
  shows "parse_slow lib raw = [(k, Some d, why)]"
  by (rule fast_path_agrees [OF assms])

theorem fast_path_equals_parser_witness:
  "parse_slow plain_lib ''@@||cdn.example.com^'' = [(Lallow, Some ''cdn.example.com'', [])]"
  by (rule fast_path_equals_parser) code_simp+

text \<open>
  for the alias \<^verbatim>\<open>localhost.localdomain\<close> the fast path blocks a name that the full parser
  skips.
\<close>

theorem fast_path_blocks_localhost_alias:
  "fast_common_source_rule plain_lib ''localhost.localdomain'' = Some [(Lblock, Some ''localhost.localdomain'', [])] \<and>
   parse_slow plain_lib ''localhost.localdomain'' = [(Lskip, None, [])]"
  by code_simp

text \<open>
  the statistics of one source add up, for any text: accepted names are the distinct block and
  allow names, every parsed rule is accepted or a duplicate, at most 20 rejected lines are kept and
  never more than were rejected, and every collected name is canonical.
\<close>

theorem source_statistics_add_up:
  "(case parse_rule_lines lib lines of (bs, als, st) \<Rightarrow>
      stats_ok (bs, als, st) \<and> unique_active_domains st = card bs \<and>
      parsed_rules st = accepted_domains st + duplicate_domains st)"
  by (auto split: prod.splits dest: parse_rule_lines_ok)

text \<open>
  an artifact file of the parse cache reads back as the set of names that was written.
\<close>

theorem parse_artifact_round_trip:
  assumes "finite D" "\<forall>d\<in>D. wf_name d"
  shows "read_domain_artifact (write_domain_artifact path D files) path = Some D"
  using artifact_round_trip [OF assms]
  by (simp add: read_domain_artifact_def write_domain_artifact_def update_conv')

theorem parse_artifact_round_trip_witness:
  "read_domain_artifact (write_domain_artifact ''p'' {''a.example'', ''b.example''} []) ''p'' = Some {''a.example'', ''b.example''}"
proof (rule parse_artifact_round_trip)
  show "\<forall>d\<in>{''a.example'', ''b.example''}. wf_name d" by code_simp
qed simp

text \<open>
  C29: the parse cache is transparent: if the hash is injective on the contents ever parsed and every
  cache row was written for one of them, parsing a source through the cache gives what parsing its
  content gives, hit or miss, and the cache stays sound.
\<close>

theorem parse_cache_transparent:
  assumes "inj_on sha K" "content \<in> K" "cache_sound lib sha K files cache"
  shows "fst (parse_source_file lib sha ts s content files cache) = parse_rule_lines lib (file_lines content) \<and>
    cache_sound lib sha K (fst (snd (parse_source_file lib sha ts s content files cache)))
      (snd (snd (parse_source_file lib sha ts s content files cache)))"
  using parse_source_file_sound [OF assms, of ts s] by (metis prod.collapse)

definition example_source :: source_row where
  "example_source = \<lparr>src_id = 1, src_name = ''list'', src_url = [], src_enabled = True, src_category = ''malware'',
     last_attempt = None, last_success = None, last_error = None, http_status = None, downloaded_bytes = 0,
     using_cached_copy = False, src_stats = ParseStats, last_warning = [], final_active_domains = 0\<rparr>"

theorem parse_cache_transparent_witness:
  "fst (parse_source_file plain_lib id ''t'' example_source ''||ads.example.com^'' [] []) =
     parse_rule_lines plain_lib (file_lines ''||ads.example.com^'') \<and>
   cache_sound plain_lib id UNIV (fst (snd (parse_source_file plain_lib id ''t'' example_source ''||ads.example.com^'' [] [])))
      (snd (snd (parse_source_file plain_lib id ''t'' example_source ''||ads.example.com^'' [] [])))"
  by (rule parse_cache_transparent) (simp_all add: cache_sound_def)

text \<open>
  over all sources, each blocked name is counted as unique for exactly one source, each source's
  parsed rules are its unique names, its duplicates and its exceptions, and the active set is finite,
  canonical and free of every name an exception allows.
\<close>

theorem collected_rules_add_up:
  assumes "inj_on sha K" "cache_sound lib sha K files (parse_cache db)"
    and "\<And>p content. prefix ''current/'' p \<Longrightarrow>
      map_of (snd (snd (fetch_all sha net (enabled_sources (sources db)) files))) p = Some content \<Longrightarrow> content \<in> K"
  shows "sum_list (map (\<lambda>e. unique_active_domains (stats_of e)) (co_entries (collect_rules lib sha ts net db files)))
      = card (blocks_of (co_entries (collect_rules lib sha ts net db files))) \<and>
    (\<forall>e\<in>set (co_entries (collect_rules lib sha ts net db files)).
       parsed_rules (stats_of e) = duplicate_domains (stats_of e) + unique_active_domains (stats_of e) + exceptions (stats_of e)) \<and>
    co_blocks (collect_rules lib sha ts net db files) =
      blocks_of (co_entries (collect_rules lib sha ts net db files)) - allows_of (co_entries (collect_rules lib sha ts net db files)) \<and>
    finite (co_blocks (collect_rules lib sha ts net db files)) \<and>
    (\<forall>d\<in>co_blocks (collect_rules lib sha ts net db files). wf_name d)"
proof -
  obtain pending downloads files1 where f: "fetch_all sha net (enabled_sources (sources db)) files = (pending, downloads, files1)"
    by (metis prod_cases3)
  have K: "content \<in> K" if "prefix ''current/'' p" "map_of files1 p = Some content" for p content
    using assms(3) [of p content] that f by simp
  note T = collect_rules_totals [where ts = ts, OF assms(1,2) f]
  show ?thesis by (intro conjI ballI; (rule T(1) | rule T(2) | rule T(3) | rule T(4) | rule T(5)); (erule K | assumption)?)
qed

definition example_sources :: source_db where
  "example_sources = \<lparr>sources = [example_source], parse_cache = []\<rparr>"

theorem collected_rules_add_up_witness:
  "card (blocks_of (co_entries (collect_rules plain_lib id ''t'' None example_sources [(''current/1-list.txt'', ''ads.example.com'')])))
   = sum_list (map (\<lambda>e. unique_active_domains (stats_of e))
       (co_entries (collect_rules plain_lib id ''t'' None example_sources [(''current/1-list.txt'', ''ads.example.com'')])))"
  using collected_rules_add_up [of id UNIV plain_lib "[(''current/1-list.txt'', ''ads.example.com'')]" example_sources None "''t''"]
  by (simp add: cache_sound_def example_sources_def)

end
