(* ===== verification/Local_Dns.thy ===== *)
theory Local_Dns
  imports Domain_Names "HOL-Library.Product_Lexorder"
begin

text \<open>
  Local authoritative records and client aliases (\<^verbatim>\<open>app/local_dns.py\<close>): the settings, record and alias
  tables, the operations on them, the rendering of zone files and the deployment with its rollback.
  Every operation takes the clock reading \<open>ts\<close>; \<open>lib\<close> carries the library functions, \<open>sip\<close> is what
  \<^verbatim>\<open>detect_server_ip\<close> finds.  \<open>Inl\<close> is an exception; the surrounding transaction is rolled back, so the
  database stays as it was.  Shown: the table invariant and its preservation, that names survive the
  zone-relative form, that every enabled record is in the zone file of its own zone, that serial
  numbers grow, that the longest matching alias wins, and what a failed deployment leaves installed.
\<close>

section \<open>Tables\<close>

datatype rtype = TA | TAAAA | TPTR | TCNAME

definition show_rtype :: "rtype \<Rightarrow> string" where
  "show_rtype t = (case t of TA \<Rightarrow> ''A'' | TAAAA \<Rightarrow> ''AAAA'' | TPTR \<Rightarrow> ''PTR'' | TCNAME \<Rightarrow> ''CNAME'')"

definition read_rtype :: "string \<Rightarrow> rtype option" where
  "read_rtype s =
     (if s = ''A'' then Some TA else if s = ''AAAA'' then Some TAAAA else if s = ''PTR'' then Some TPTR
      else if s = ''CNAME'' then Some TCNAME else None)"

record local_record =
  ld_id :: nat
  ld_name :: string
  ld_fqdn :: string
  ld_type :: rtype
  ld_value :: string
  ld_ttl :: int
  ld_comment :: string
  ld_enabled :: bool
  ld_auto_ptr :: bool
  ld_ptr_record_id :: "nat option"
  ld_created_at :: string
  ld_updated_at :: string

record alias_row =
  al_id :: nat
  al_cidr :: string
  al_display_name :: string
  al_description :: string
  al_created_at :: string
  al_updated_at :: string

datatype deploy_status = Running | Deployed | Failed | RolledBack | RollbackFailed

record local_deployment =
  dep_id :: nat
  dep_status :: deploy_status
  dep_reverse_zones :: nat
  dep_serial :: nat
  dep_message :: string

record local_db =
  dns_settings :: "(string \<times> string) list"
  dns_records :: "local_record list"
  client_aliases :: "alias_row list"
  dns_deployments :: "local_deployment list"

interpretation record_table: id_table ld_id "\<lambda>i r. r\<lparr>ld_id := i\<rparr>"
  by unfold_locales simp

interpretation alias_table: id_table al_id "\<lambda>i r. r\<lparr>al_id := i\<rparr>"
  by unfold_locales simp

interpretation deployment_table: id_table dep_id "\<lambda>i r. r\<lparr>dep_id := i\<rparr>"
  by unfold_locales simp

definition DEFAULT_DOMAIN :: string where "DEFAULT_DOMAIN = ''home.arpa''"

definition LOCAL_NS :: string where "LOCAL_NS = ''alderpointdns-local-ns''"

text \<open>\<^verbatim>\<open>init_db\<close>: the tables exist and the default settings are inserted where a key is missing.\<close>

definition local_init_db :: "string \<Rightarrow> local_db \<Rightarrow> local_db" where
  "local_init_db sip db =
     db\<lparr>dns_settings :=
       fold (\<lambda>(k, v). dict_setdefault k v)
         [(''internal_domain'', DEFAULT_DOMAIN), (''default_ttl'', ''300''),
          (''server_hostname'', ''alderpointdns''), (''server_ip'', sip)] (dns_settings db)\<rparr>"

section \<open>Settings\<close>

definition ip_error :: "string \<Rightarrow> string" where
  "ip_error s = [CHR 0x27] @ s @ [CHR 0x27] @ '' does not appear to be an IPv4 or IPv6 address''"

definition ip_address_or_raise :: "string \<Rightarrow> ip result" where
  "ip_address_or_raise s = (case ip_address s of None \<Rightarrow> Inl (ip_error s) | Some i \<Rightarrow> Inr i)"

text \<open>One key of \<^verbatim>\<open>update_settings\<close>, the value given as text.\<close>

definition clean_setting :: "stdlib \<Rightarrow> string \<Rightarrow> string \<Rightarrow> string result" where
  "clean_setting lib key value =
     (if key = ''internal_domain'' then local_normalize_domain lib value
      else if key = ''default_ttl'' then
        (case validate_ttl (PyStr value) of Inl e \<Rightarrow> Inl e | Inr t \<Rightarrow> Inr (str_int t))
      else if key = ''server_ip'' \<and> value \<noteq> [] then
        (case ip_address_or_raise (py_strip value) of Inl e \<Rightarrow> Inl e | Inr i \<Rightarrow> Inr (str_ip i))
      else Inr value)"

fun put_settings :: "stdlib \<Rightarrow> (string \<times> string) list \<Rightarrow> (string \<times> string) list \<Rightarrow> (string \<times> string) list result" where
  "put_settings lib [] d = Inr d"
| "put_settings lib ((k, v) # kvs) d =
     (case clean_setting lib k v of
        Inl e \<Rightarrow> Inl e
      | Inr w \<Rightarrow> put_settings lib kvs (AList.update k w d))"

definition update_settings :: "stdlib \<Rightarrow> string \<Rightarrow> (string \<times> string) list \<Rightarrow> local_db \<Rightarrow> local_db result" where
  "update_settings lib sip values db0 =
     (let db = local_init_db sip db0 in
      case put_settings lib values (dns_settings db) of
        Inl e \<Rightarrow> Inl e
      | Inr d \<Rightarrow> Inr (db\<lparr>dns_settings := d\<rparr>))"

section \<open>Reverse names\<close>

definition ptr_owner_for_ip :: "string \<Rightarrow> (string \<times> string) result" where
  "ptr_owner_for_ip address =
     (case ip_address address of
        None \<Rightarrow> Inl (ip_error address)
      | Some (V4 n) \<Rightarrow>
          (let octets = split_char dot (str_ip (V4 n))
           in Inr (octets ! 3, join ''.'' (rev (take 3 octets)) @ ''.in-addr.arpa''))
      | Some i \<Rightarrow>
          (case reverse_pointer i of
             None \<Rightarrow> Inl (ip_error address)
           | Some p \<Rightarrow> (let nibs = split_char dot p in Inr (hd nibs, join ''.'' (tl nibs)))))"

definition ip_network_zone :: "string \<Rightarrow> string result" where
  "ip_network_zone address = map_sum id snd (ptr_owner_for_ip address)"

section \<open>Findings and validation\<close>

datatype severity = Conflict | Warn

definition rstrip_dots :: "string \<Rightarrow> string" where
  "rstrip_dots s = rstrip_by (\<lambda>c. c = dot) s"

text \<open>\<^verbatim>\<open>AND id<>?\<close> when the record's own id is given (and is not 0).\<close>

definition other_row :: "nat option \<Rightarrow> local_record \<Rightarrow> bool" where
  "other_row rid r = (case rid of None \<Rightarrow> True | Some i \<Rightarrow> i = 0 \<or> ld_id r \<noteq> i)"

definition cname_findings :: "local_record list \<Rightarrow> string \<Rightarrow> rtype \<Rightarrow> nat option \<Rightarrow> (severity \<times> string) list" where
  "cname_findings t fqdn ty rid =
     (if ty = TCNAME then
        (if list_ex (\<lambda>r. ld_fqdn r = fqdn \<and> other_row rid r \<and> ld_type r \<noteq> TCNAME) t
         then [(Conflict, ''A CNAME conflicts with another record.'')] else [])
      else (if list_ex (\<lambda>r. ld_fqdn r = fqdn \<and> other_row rid r \<and> ld_type r = TCNAME) t
            then [(Conflict, ''This hostname already has a CNAME record.'')] else []))"

definition address_findings :: "stdlib \<Rightarrow> local_record list \<Rightarrow> string \<Rightarrow> string \<Rightarrow> (severity \<times> string) list result" where
  "address_findings lib t fqdn value =
     (case ip_address value of
        None \<Rightarrow> Inr []
      | Some i \<Rightarrow>
          (case ptr_owner_for_ip (str_ip i) of
             Inl e \<Rightarrow> Inl e
           | Inr (owner, zone) \<Rightarrow>
               Inr ((case List.find (\<lambda>r. ld_fqdn r = owner @ ''.'' @ zone \<and> ld_type r = TPTR \<and> ld_enabled r) t of
                       None \<Rightarrow> []
                     | Some r \<Rightarrow>
                         if rstrip_dots (ld_value r) \<noteq> fqdn
                         then [(Conflict, ''This IP already has a different PTR record.'')] else []) @
                    (if \<not> ip_is_private lib i
                     then [(Warn, ''Public IP address outside common private networks. Imported as requested.'')]
                     else []))))"

definition ptr_findings :: "local_record list \<Rightarrow> string \<Rightarrow> (severity \<times> string) list" where
  "ptr_findings t value =
     (if list_ex (\<lambda>r. ld_fqdn r = rstrip_dots value \<and> ld_type r \<in> {TA, TAAAA}) t then []
      else [(Conflict, ''The PTR target lacks a corresponding A or AAAA record.'')])"

definition record_findings ::
  "stdlib \<Rightarrow> local_record list \<Rightarrow> string \<Rightarrow> rtype \<Rightarrow> string \<Rightarrow> nat option \<Rightarrow> (severity \<times> string) list result" where
  "record_findings lib t fqdn ty value rid =
     (let f1 = (if list_ex (\<lambda>r. ld_fqdn r = fqdn \<and> other_row rid r \<and> ld_enabled r) t
                then [(Conflict, ''A hostname already exists.'')] else []);
          f2 = cname_findings t fqdn ty rid
      in case (if ty \<in> {TA, TAAAA} then address_findings lib t fqdn value else Inr []) of
           Inl e \<Rightarrow> Inl e
         | Inr f3 \<Rightarrow> Inr (f1 @ f2 @ f3 @ (if ty = TPTR then ptr_findings t value else [])))"

definition conflicts_of :: "(severity \<times> string) list \<Rightarrow> string list" where
  "conflicts_of fs = map snd (filter (\<lambda>f. fst f = Conflict) fs)"

definition record_conflicts ::
  "stdlib \<Rightarrow> local_record list \<Rightarrow> string \<Rightarrow> rtype \<Rightarrow> string \<Rightarrow> nat option \<Rightarrow> string list result" where
  "record_conflicts lib t fqdn ty value rid = map_sum id conflicts_of (record_findings lib t fqdn ty value rid)"

definition record_warnings ::
  "stdlib \<Rightarrow> local_record list \<Rightarrow> string \<Rightarrow> rtype \<Rightarrow> string \<Rightarrow> nat option \<Rightarrow> string list result" where
  "record_warnings lib t fqdn ty value rid = map_sum id (map snd) (record_findings lib t fqdn ty value rid)"

definition validate_value :: "stdlib \<Rightarrow> rtype \<Rightarrow> string \<Rightarrow> string result" where
  "validate_value lib ty value =
     (case ty of
        TA \<Rightarrow> (case ip_address_or_raise (py_strip value) of
                 Inl e \<Rightarrow> Inl e
               | Inr i \<Rightarrow> if \<not> is_v4 i then Inl ''A records require an IPv4 address'' else Inr (str_ip i))
      | TAAAA \<Rightarrow> (case ip_address_or_raise (py_strip value) of
                 Inl e \<Rightarrow> Inl e
               | Inr i \<Rightarrow> if is_v4 i then Inl ''AAAA records require an IPv6 address'' else Inr (str_ip i))
      | _ \<Rightarrow> local_normalize_domain lib value)"

definition validate_record ::
  "stdlib \<Rightarrow> string \<Rightarrow> string \<Rightarrow> string \<Rightarrow> pyval \<Rightarrow> (rtype \<times> string \<times> string \<times> int) result" where
  "validate_record lib record_type fqdn value ttl =
     (case read_rtype (py_upper (py_strip record_type)) of
        None \<Rightarrow> Inl ''record type is not supported''
      | Some ty \<Rightarrow>
     (case local_normalize_domain lib fqdn of
        Inl e \<Rightarrow> Inl e
      | Inr name \<Rightarrow>
     (case validate_ttl ttl of
        Inl e \<Rightarrow> Inl e
      | Inr clean_ttl \<Rightarrow>
     (case validate_value lib ty value of
        Inl e \<Rightarrow> Inl e
      | Inr clean_value \<Rightarrow> Inr (ty, name, clean_value, clean_ttl)))))"

section \<open>Operations on records\<close>

definition same_key :: "string \<Rightarrow> rtype \<Rightarrow> string \<Rightarrow> local_record \<Rightarrow> bool" where
  "same_key fqdn ty value r = (ld_fqdn r = fqdn \<and> ld_type r = ty \<and> ld_value r = value)"

definition unique_error :: string where
  "unique_error = ''UNIQUE constraint failed: local_dns_records.fqdn, local_dns_records.record_type, local_dns_records.value''"

definition new_local_record ::
  "string \<Rightarrow> string \<Rightarrow> string \<Rightarrow> rtype \<Rightarrow> string \<Rightarrow> int \<Rightarrow> string \<Rightarrow> bool \<Rightarrow> bool \<Rightarrow> local_record" where
  "new_local_record ts name fqdn ty value ttl cm en aptr =
     \<lparr>ld_id = 0, ld_name = name, ld_fqdn = fqdn, ld_type = ty, ld_value = value, ld_ttl = ttl,
      ld_comment = cm, ld_enabled = en, ld_auto_ptr = aptr, ld_ptr_record_id = None,
      ld_created_at = ts, ld_updated_at = ts\<rparr>"

text \<open>\<^verbatim>\<open>INSERT\<close> under the table's \<^verbatim>\<open>UNIQUE(fqdn, record_type, value)\<close>\<close>

definition insert_record :: "local_record \<Rightarrow> local_record list \<Rightarrow> local_record list result" where
  "insert_record r t =
     (if list_ex (same_key (ld_fqdn r) (ld_type r) (ld_value r)) t then Inl unique_error
      else Inr (insert_row ld_id (\<lambda>i r. r\<lparr>ld_id := i\<rparr>) r t))"

text \<open>\<^verbatim>\<open>INSERT OR REPLACE\<close>: the new rowid is chosen before the clashing row goes.\<close>

definition replace_record :: "local_record \<Rightarrow> local_record list \<Rightarrow> local_record list" where
  "replace_record r t =
     delete_where (same_key (ld_fqdn r) (ld_type r) (ld_value r)) t @ [r\<lparr>ld_id := next_rowid ld_id t\<rparr>]"

definition join_words :: "string list \<Rightarrow> string" where
  "join_words ws = join '' '' ws"

text \<open>The reverse record that \<^verbatim>\<open>auto_ptr\<close> adds for the row \<open>rid\<close>.\<close>

definition add_auto_ptr ::
  "stdlib \<Rightarrow> string \<Rightarrow> string \<Rightarrow> ip \<Rightarrow> int \<Rightarrow> bool \<Rightarrow> nat \<Rightarrow> local_record list \<Rightarrow> local_record list result" where
  "add_auto_ptr lib ts fqdn i ttl override rid t =
     (case ptr_owner_for_ip (str_ip i) of
        Inl e \<Rightarrow> Inl e
      | Inr (owner, zone) \<Rightarrow>
          let ptr_fqdn = owner @ ''.'' @ zone in
          (case record_conflicts lib t ptr_fqdn TPTR fqdn None of
             Inl e \<Rightarrow> Inl e
           | Inr cs \<Rightarrow>
               if cs \<noteq> [] \<and> \<not> override then Inl (join_words cs)
               else Inr (update_where (\<lambda>r. ld_id r = rid) (\<lambda>r. r\<lparr>ld_ptr_record_id := Some (next_rowid ld_id t)\<rparr>)
                     (replace_record (new_local_record ts owner ptr_fqdn TPTR fqdn ttl (''reverse for '' @ fqdn)
                        True False) t))))"

definition add_host ::
  "stdlib \<Rightarrow> string \<Rightarrow> string \<Rightarrow> string \<Rightarrow> string \<Rightarrow> string \<Rightarrow> pyval \<Rightarrow> string \<Rightarrow> bool \<Rightarrow> bool \<Rightarrow>
   local_db \<Rightarrow> (local_db \<times> string list) result" where
  "add_host lib ts sip hostname domain_arg address ttl cm auto_ptr override db0 =
     (let db = local_init_db sip db0; t = dns_records db in
      case local_normalize_domain lib
             (if domain_arg \<noteq> [] then domain_arg else dict_get (dns_settings db) ''internal_domain'' []) of
        Inl e \<Rightarrow> Inl e
      | Inr local_domain \<Rightarrow>
     (case validate_label hostname of
        Inl e \<Rightarrow> Inl e
      | Inr label \<Rightarrow>
     (let fqdn = label @ ''.'' @ local_domain in
      case ip_address_or_raise (py_strip address) of
        Inl e \<Rightarrow> Inl e
      | Inr i \<Rightarrow>
     (let ty = (if is_v4 i then TA else TAAAA) in
      case validate_ttl ttl of
        Inl e \<Rightarrow> Inl e
      | Inr ttl_int \<Rightarrow>
     (case record_findings lib t fqdn ty (str_ip i) None of
        Inl e \<Rightarrow> Inl e
      | Inr findings \<Rightarrow>
          if conflicts_of findings \<noteq> [] \<and> \<not> override then Inl (join_words (conflicts_of findings))
          else
     (case insert_record (new_local_record ts label fqdn ty (str_ip i) ttl_int cm True auto_ptr) t of
        Inl e \<Rightarrow> Inl e
      | Inr t1 \<Rightarrow>
     (case (if auto_ptr then add_auto_ptr lib ts fqdn i ttl_int override (next_rowid ld_id t) t1 else Inr t1) of
        Inl e \<Rightarrow> Inl e
      | Inr t2 \<Rightarrow> Inr (db\<lparr>dns_records := t2\<rparr>, map snd findings))))))))"

definition first_label :: "string \<Rightarrow> string" where
  "first_label name = fst (partition_char dot name)"

definition add_record ::
  "stdlib \<Rightarrow> string \<Rightarrow> string \<Rightarrow> string \<Rightarrow> string \<Rightarrow> string \<Rightarrow> pyval \<Rightarrow> string \<Rightarrow> bool \<Rightarrow> bool \<Rightarrow>
   local_db \<Rightarrow> (local_db \<times> string list) result" where
  "add_record lib ts sip record_type fqdn value ttl cm en override db0 =
     (let db = local_init_db sip db0; t = dns_records db in
      case validate_record lib record_type fqdn value ttl of
        Inl e \<Rightarrow> Inl e
      | Inr (ty, name, clean_value, ttl_int) \<Rightarrow>
     (case record_findings lib t name ty clean_value None of
        Inl e \<Rightarrow> Inl e
      | Inr findings \<Rightarrow>
          if conflicts_of findings \<noteq> [] \<and> \<not> override then Inl (join_words (conflicts_of findings))
          else
     (case insert_record (new_local_record ts (first_label name) name ty clean_value ttl_int cm en False) t of
        Inl e \<Rightarrow> Inl e
      | Inr t1 \<Rightarrow> Inr (db\<lparr>dns_records := t1\<rparr>, map snd findings))))"

definition change_record ::
  "string \<Rightarrow> string \<Rightarrow> rtype \<Rightarrow> string \<Rightarrow> int \<Rightarrow> string \<Rightarrow> bool \<Rightarrow> local_record \<Rightarrow> local_record" where
  "change_record ts name ty value ttl cm en r =
     r\<lparr>ld_name := first_label name, ld_fqdn := name, ld_type := ty, ld_value := value, ld_ttl := ttl,
       ld_comment := cm, ld_enabled := en, ld_updated_at := ts\<rparr>"

definition update_record ::
  "stdlib \<Rightarrow> string \<Rightarrow> string \<Rightarrow> nat \<Rightarrow> string \<Rightarrow> string \<Rightarrow> string \<Rightarrow> pyval \<Rightarrow> string \<Rightarrow> bool \<Rightarrow> bool \<Rightarrow>
   local_db \<Rightarrow> (local_db \<times> string list) result" where
  "update_record lib ts sip rid record_type fqdn value ttl cm en override db0 =
     (let db = local_init_db sip db0; t = dns_records db in
      case validate_record lib record_type fqdn value ttl of
        Inl e \<Rightarrow> Inl e
      | Inr (ty, name, clean_value, ttl_int) \<Rightarrow>
     (case record_findings lib t name ty clean_value (Some rid) of
        Inl e \<Rightarrow> Inl e
      | Inr findings \<Rightarrow>
          if conflicts_of findings \<noteq> [] \<and> \<not> override then Inl (join_words (conflicts_of findings))
          else if list_ex (\<lambda>r. ld_id r = rid) t \<and> list_ex (\<lambda>r. ld_id r \<noteq> rid \<and> same_key name ty clean_value r) t
          then Inl unique_error
          else Inr (db\<lparr>dns_records :=
                        update_where (\<lambda>r. ld_id r = rid) (change_record ts name ty clean_value ttl_int cm en) t\<rparr>,
                    map snd findings)))"

definition toggle_record :: "string \<Rightarrow> string \<Rightarrow> nat \<Rightarrow> local_db \<Rightarrow> local_db" where
  "toggle_record ts sip rid db0 =
     (let db = local_init_db sip db0 in
      db\<lparr>dns_records := update_where (\<lambda>r. ld_id r = rid)
           (\<lambda>r. r\<lparr>ld_enabled := \<not> ld_enabled r, ld_updated_at := ts\<rparr>) (dns_records db)\<rparr>)"

definition delete_record :: "string \<Rightarrow> nat \<Rightarrow> local_db \<Rightarrow> local_db" where
  "delete_record sip rid db0 =
     (let db = local_init_db sip db0; t = dns_records db;
          t1 = delete_where (\<lambda>r. ld_id r = rid) t
      in db\<lparr>dns_records :=
            (case row_by_id ld_id rid t of
               None \<Rightarrow> t1
             | Some row \<Rightarrow>
                 (case ld_ptr_record_id row of
                    None \<Rightarrow> t1
                  | Some p \<Rightarrow> if p = 0 then t1 else delete_where (\<lambda>r. ld_id r = p) t1))\<rparr>)"

section \<open>Aliases\<close>

definition upsert_alias :: "string \<Rightarrow> string \<Rightarrow> string \<Rightarrow> string \<Rightarrow> string \<Rightarrow> local_db \<Rightarrow> local_db result" where
  "upsert_alias ts sip cidr display description db0 =
     (case ip_network (py_strip cidr) of
        None \<Rightarrow> Inl ([CHR 0x27] @ py_strip cidr @ [CHR 0x27] @ '' does not appear to be an IPv4 or IPv6 network'')
      | Some net \<Rightarrow>
          let name = py_strip display in
          if name = [] then Inl ''display name is required''
          else let db = local_init_db sip db0; t = client_aliases db; key = str_network net in
            Inr (db\<lparr>client_aliases :=
              (if list_ex (\<lambda>r. al_cidr r = key) t
               then update_where (\<lambda>r. al_cidr r = key)
                      (\<lambda>r. r\<lparr>al_display_name := name, al_description := description, al_updated_at := ts\<rparr>) t
               else insert_row al_id (\<lambda>i r. r\<lparr>al_id := i\<rparr>)
                      \<lparr>al_id = 0, al_cidr = key, al_display_name = name, al_description = description,
                       al_created_at = ts, al_updated_at = ts\<rparr> t)\<rparr>))"

definition delete_alias :: "string \<Rightarrow> nat \<Rightarrow> local_db \<Rightarrow> local_db" where
  "delete_alias sip i db0 =
     (let db = local_init_db sip db0 in
      db\<lparr>client_aliases := delete_where (\<lambda>r. al_id r = i) (client_aliases db)\<rparr>)"

definition ptr_hostname_for_ip :: "local_record list \<Rightarrow> string \<Rightarrow> string option result" where
  "ptr_hostname_for_ip t address =
     (case ptr_owner_for_ip address of
        Inl e \<Rightarrow> Inl e
      | Inr (owner, zone) \<Rightarrow>
          Inr (map_option ld_value
            (List.find (\<lambda>r. ld_fqdn r = owner @ ''.'' @ zone \<and> ld_type r = TPTR \<and> ld_enabled r) t)))"

text \<open>The loop over the aliases: the longest prefix so far, the earlier row on a tie.\<close>

fun best_alias :: "ip \<Rightarrow> alias_row list \<Rightarrow> (nat \<times> string) option \<Rightarrow> (nat \<times> string) option result" where
  "best_alias i [] best = Inr best"
| "best_alias i (r # rs) best =
     (case ip_network (al_cidr r) of
        None \<Rightarrow> Inl ([CHR 0x27] @ al_cidr r @ [CHR 0x27] @ '' does not appear to be an IPv4 or IPv6 network'')
      | Some net \<Rightarrow>
          best_alias i rs
            (if in_network i net \<and> (case best of None \<Rightarrow> True | Some (p, _) \<Rightarrow> prefixlen net > p)
             then Some (prefixlen net, al_display_name r) else best))"

definition alias_for_client :: "string \<Rightarrow> string \<Rightarrow> local_db \<Rightarrow> string option result" where
  "alias_for_client sip client db0 =
     (case ip_address client of
        None \<Rightarrow> Inr None
      | Some i \<Rightarrow>
          let db = local_init_db sip db0 in
          (case best_alias i (client_aliases db) None of
             Inl e \<Rightarrow> Inl e
           | Inr (Some (p, name)) \<Rightarrow> Inr (Some name)
           | Inr None \<Rightarrow>
               (case ptr_hostname_for_ip (dns_records db) (str_ip i) of
                  Inl e \<Rightarrow> Inl e
                | Inr None \<Rightarrow> Inr None
                | Inr (Some ptr) \<Rightarrow>
                    Inr (if ptr = [] then None else Some (ptr @ '' ('' @ str_ip i @ '')'')))))"

section \<open>Zone files\<close>

text \<open>\<open>today\<close> is \<^verbatim>\<open>int(time.strftime("%Y%m%d00"))\<close>.\<close>

definition next_serial :: "nat \<Rightarrow> local_deployment list \<Rightarrow> nat" where
  "next_serial today deps =
     (let current = (case List.find (\<lambda>d. dep_status d = Deployed) (rev deps) of
                       None \<Rightarrow> today | Some d \<Rightarrow> dep_serial d)
      in max (current + 1) today)"

definition rel_name :: "string \<Rightarrow> string \<Rightarrow> string" where
  "rel_name fqdn zone =
     (let sfx = ''.'' @ zone in
      if fqdn = zone then ''@''
      else if endswith fqdn sfx then
        (let head = take (length fqdn - length sfx) fqdn in if head = [] then ''@'' else head)
      else fqdn @ ''.'')"

definition record_line :: "string \<Rightarrow> local_record \<Rightarrow> string" where
  "record_line zone row =
     (let name = rel_name (ld_fqdn row) zone;
          target = (if ld_type row \<in> {TPTR, TCNAME} then ld_value row @ ''.'' else ld_value row)
      in name @ '' '' @ str_int (ld_ttl row) @ '' IN '' @ show_rtype (ld_type row) @ '' '' @ target)"

definition render_zone :: "string \<Rightarrow> local_record list \<Rightarrow> nat \<Rightarrow> int \<Rightarrow> string" where
  "render_zone zone records serial default_ttl =
     (let ns = LOCAL_NS @ ''.'' @ zone @ ''.'';
          header =
            [''$ORIGIN '' @ zone @ ''.'',
             ''$TTL '' @ str_int default_ttl,
             ''@ IN SOA '' @ ns @ '' hostmaster.'' @ zone @ ''. ( '' @ str_nat serial @ '' 1h 15m 30d 5m )'',
             ''@ IN NS '' @ ns,
             LOCAL_NS @ '' IN A 127.0.0.1'',
             []]
      in join [newline] (header @ map (record_line zone) records) @ [newline])"

definition forward_zone_for_fqdn :: "string \<Rightarrow> string \<Rightarrow> string" where
  "forward_zone_for_fqdn fqdn internal_domain =
     (if fqdn = internal_domain \<or> endswith fqdn (''.'' @ internal_domain) then internal_domain
      else let labels = split_char dot fqdn in
        if length labels < 3 then fqdn else join ''.'' (tl labels))"

text \<open>A rendered zone; the file is \<^verbatim>\<open><zone>.zone\<close> in the staging or the live directory.\<close>

record zone_file =
  zf_zone :: string
  zf_text :: string

text \<open>\<^verbatim>\<open>d.setdefault(zone, []).append(row)\<close> for every row, in order.\<close>

definition group_by_zone ::
  "(local_record \<Rightarrow> string) \<Rightarrow> local_record list \<Rightarrow> (string \<times> local_record list) list \<Rightarrow>
   (string \<times> local_record list) list" where
  "group_by_zone zone_of rows d0 =
     fold (\<lambda>row d. let z = zone_of row; d = dict_setdefault z [] d in AList.update z (dict_get d z [] @ [row]) d)
       rows d0"

definition sorted_items :: "('k::linorder \<times> 'v) list \<Rightarrow> ('k \<times> 'v) list" where
  "sorted_items d = sort_key fst d"

definition enabled_records :: "local_record list \<Rightarrow> local_record list" where
  "enabled_records t =
     sort_key (\<lambda>r. (ld_fqdn r, show_rtype (ld_type r), ld_value r)) (filter ld_enabled t)"

definition ptr_zone :: "string \<Rightarrow> string" where
  "ptr_zone fqdn = join ''.'' (tl (split_char dot fqdn))"

definition forward_groups :: "string \<Rightarrow> local_record list \<Rightarrow> (string \<times> local_record list) list" where
  "forward_groups dm rows =
     group_by_zone (\<lambda>r. forward_zone_for_fqdn (ld_fqdn r) dm)
       (filter (\<lambda>r. ld_type r \<in> {TA, TAAAA, TCNAME}) rows) [(dm, [])]"

definition reverse_groups :: "local_record list \<Rightarrow> (string \<times> local_record list) list" where
  "reverse_groups rows = group_by_zone (\<lambda>r. ptr_zone (ld_fqdn r)) (filter (\<lambda>r. ld_type r = TPTR) rows) []"

definition build_zone_files :: "stdlib \<Rightarrow> string \<Rightarrow> nat \<Rightarrow> local_db \<Rightarrow> zone_file list result" where
  "build_zone_files lib sip serial db0 =
     (let db = local_init_db sip db0; cfg = dns_settings db in
      case local_normalize_domain lib (dict_get cfg ''internal_domain'' DEFAULT_DOMAIN) of
        Inl e \<Rightarrow> Inl e
      | Inr dm \<Rightarrow>
     (case validate_ttl (PyStr (dict_get cfg ''default_ttl'' ''300'')) of
        Inl e \<Rightarrow> Inl e
      | Inr ttl \<Rightarrow>
          let rows = enabled_records (dns_records db);
              zf = (\<lambda>(zone, rs). \<lparr>zf_zone = zone, zf_text = render_zone zone rs serial ttl\<rparr>)
          in Inr (map zf (sorted_items (forward_groups dm rows)) @ map zf (sorted_items (reverse_groups rows)))))"

definition tab :: char where "tab = CHR 0x09"

definition include_stanza :: "string \<Rightarrow> zone_file \<Rightarrow> string list" where
  "include_stanza dir z =
     [''zone '' @ [CHR 0x22] @ zf_zone z @ [CHR 0x22] @ '' {'',
      tab # ''type primary;'',
      tab # ''file '' @ [CHR 0x22] @ dir @ ''/'' @ zf_zone z @ ''.zone'' @ [CHR 0x22] @ '';'',
      tab # ''allow-query { '' @ [CHR 0x22] @ ''alderpointdns_clients'' @ [CHR 0x22] @ ''; localhost; };'',
      tab # ''allow-transfer { none; };'',
      ''};'',
      []]"

definition LOCAL_ZONE_DIR :: string where
  "LOCAL_ZONE_DIR = ''/var/lib/alderpointdns/compiled/bind/local''"

definition render_include :: "zone_file list \<Rightarrow> string" where
  "render_include zones =
     join [newline] ([''// Managed by Alderpoint DNS Local DNS. Do not edit by hand.'', []] @
       concat (map (include_stanza LOCAL_ZONE_DIR) zones))"

section \<open>Deployment\<close>

text \<open>
  The files the deployment owns: the live zone directory (zone name to text, \<open>None\<close> when it does not
  exist), the include file and BIND's \<^verbatim>\<open>named.conf.local\<close>.
\<close>

record bind_fs =
  fs_zone_dir :: "(string \<times> string) list option"
  fs_zones_conf :: "string option"
  fs_named_local :: "string option"

datatype dig_query = DigName string rtype | DigReverse string

text \<open>
  The programs the deployment runs: whether \<^verbatim>\<open>named-checkzone\<close> accepts a zone text, whether
  \<^verbatim>\<open>named-checkconf\<close> and \<^verbatim>\<open>rndc reconfig\<close> accept the installed files, and the exit code and output
  of each \<^verbatim>\<open>dig\<close> attempt.
\<close>

record bind_tools =
  tool_checkzone :: "string \<Rightarrow> string \<Rightarrow> bool"
  tool_checkconf :: "bind_fs \<Rightarrow> bool"
  tool_reconfig :: "bind_fs \<Rightarrow> bool"
  tool_dig :: "bind_fs \<Rightarrow> dig_query \<Rightarrow> nat \<Rightarrow> int \<times> string"

definition dig_contains :: "(nat \<Rightarrow> int \<times> string) \<Rightarrow> string \<Rightarrow> nat \<Rightarrow> bool" where
  "dig_contains answer expected attempts =
     (let expected_lower = py_lower (rstrip_dots expected) in
      list_ex (\<lambda>k. case answer k of (rc, out) \<Rightarrow>
          rc = 0 \<and> contains (py_lower (rstrip_by (\<lambda>c. c = dot \<or> c = newline) out)) expected_lower)
        [0..<attempts])"

text \<open>The first twenty enabled address records are looked up, and their reverse records.\<close>

fun check_lookups :: "(dig_query \<Rightarrow> nat \<Rightarrow> int \<times> string) \<Rightarrow> local_record list \<Rightarrow> local_record list \<Rightarrow> unit result" where
  "check_lookups dig t [] = Inr ()"
| "check_lookups dig t (row # rows) =
     (if \<not> dig_contains (dig (DigName (ld_fqdn row) (ld_type row))) (ld_value row) 5
      then Inl (''forward lookup failed for '' @ ld_fqdn row)
      else if (case ld_ptr_record_id row of
                 None \<Rightarrow> False
               | Some p \<Rightarrow> p \<noteq> 0 \<and> row_by_id ld_id p t \<noteq> None \<and>
                           \<not> dig_contains (dig (DigReverse (ld_value row))) (ld_fqdn row) 5)
      then Inl (''reverse lookup failed for '' @ ld_value row)
      else check_lookups dig t rows)"

definition validate_dns_results :: "(dig_query \<Rightarrow> nat \<Rightarrow> int \<times> string) \<Rightarrow> local_record list \<Rightarrow> unit result" where
  "validate_dns_results dig t =
     check_lookups dig t (take 20 (filter (\<lambda>r. ld_enabled r \<and> ld_type r \<in> {TA, TAAAA}) t))"

definition include_line :: string where
  "include_line = ''include '' @ [CHR 0x22] @ ''/var/lib/alderpointdns/compiled/bind/local-zones.conf'' @ [CHR 0x22] @ '';''"

definition ensure_named_include :: "bind_fs \<Rightarrow> bind_fs" where
  "ensure_named_include fs =
     (let current = (case fs_named_local fs of None \<Rightarrow> [] | Some s \<Rightarrow> s) in
      if contains current include_line then fs
      else fs\<lparr>fs_named_local :=
             Some (rstrip_by py_isspace current @ [newline, newline] @ include_line @ [newline])\<rparr>)"

text \<open>
  \<^verbatim>\<open>os.replace\<close> of the staged zone files in order.  Two zones of one name share a staged file, so the
  second move finds it gone.
\<close>

fun install_zones :: "(string \<times> string) list \<Rightarrow> string list \<Rightarrow> (string \<times> string) list \<Rightarrow>
    (string \<times> string) list \<times> unit result" where
  "install_zones staged [] live = (live, Inr ())"
| "install_zones staged (z # zs) live =
     (case map_of staged z of
        None \<Rightarrow> (live, Inl (''No such file or directory: '' @ z @ ''.zone''))
      | Some txt \<Rightarrow> install_zones (AList.delete z staged) zs (AList.update z txt live))"

text \<open>The copies taken before the installation; \<open>None\<close> when there was nothing to copy.\<close>

definition take_backup :: "bind_fs \<Rightarrow> bind_fs option" where
  "take_backup fs =
     (if fs_zone_dir fs \<noteq> None \<or> fs_zones_conf fs \<noteq> None \<or> fs_named_local fs \<noteq> None then Some fs else None)"

definition restore_backup :: "bind_fs \<Rightarrow> bind_fs \<Rightarrow> bind_fs" where
  "restore_backup bk fs =
     fs\<lparr>fs_zone_dir := fs_zone_dir bk, fs_zones_conf := fs_zones_conf bk,
        fs_named_local := (case fs_named_local bk of Some s \<Rightarrow> Some s | None \<Rightarrow> fs_named_local fs)\<rparr>"

text \<open>From the staged zones to the checks of the running server: the files, whether the installation
  was complete, and the outcome.\<close>

definition install_and_check :: "bind_tools \<Rightarrow> local_record list \<Rightarrow> zone_file list \<Rightarrow> bind_fs \<Rightarrow>
    bind_fs \<times> bool \<times> unit result" where
  "install_and_check tools t zones fs =
     (let staged = fold (\<lambda>z d. AList.update (zf_zone z) (zf_text z) d) zones [] in
      case install_zones staged (map zf_zone zones) [] of
        (live, Inl e) \<Rightarrow> (fs\<lparr>fs_zone_dir := Some live\<rparr>, False, Inl e)
      | (live, Inr _) \<Rightarrow>
          let fs1 = ensure_named_include (fs\<lparr>fs_zone_dir := Some live, fs_zones_conf := Some (render_include zones)\<rparr>) in
          if \<not> tool_checkconf tools fs1 then (fs1, True, Inl ''named-checkconf failed'')
          else if \<not> tool_reconfig tools fs1 then (fs1, True, Inl ''rndc reconfig failed'')
          else (fs1, True, validate_dns_results (tool_dig tools fs1) t))"

definition first_bad_zone :: "bind_tools \<Rightarrow> zone_file list \<Rightarrow> zone_file option" where
  "first_bad_zone tools zones = List.find (\<lambda>z. \<not> tool_checkzone tools (zf_zone z) (zf_text z)) zones"

definition deploy_files :: "bind_tools \<Rightarrow> local_record list \<Rightarrow> zone_file list result \<Rightarrow> bind_fs \<Rightarrow>
    bind_fs \<times> deploy_status \<times> nat \<times> string" where
  "deploy_files tools t built fs =
     (case built of
        Inl e \<Rightarrow> (fs, Failed, 0, e)
      | Inr zones \<Rightarrow>
          let reverse_count = length zones - 1 in
          (case first_bad_zone tools zones of
             Some z \<Rightarrow> (fs, Failed, reverse_count, ''named-checkzone failed for '' @ zf_zone z)
           | None \<Rightarrow>
               (case install_and_check tools t zones fs of
                  (fs1, _, Inr _) \<Rightarrow>
                    (fs1, Deployed, reverse_count, ''deployed '' @ str_nat (length zones) @ '' local DNS zones'')
                | (fs1, installed, Inl e) \<Rightarrow>
                    (case take_backup fs of
                       Some bk \<Rightarrow> if installed then (restore_backup bk fs1, RolledBack, reverse_count, e)
                                  else (fs1, Failed, reverse_count, e)
                     | None \<Rightarrow> (fs1, Failed, reverse_count, e)))))"

text \<open>
  \<^verbatim>\<open>deploy_zones\<close>: the row of this run is inserted as running and updated at the end on every path; a
  failed run re-raises after that (\<open>Inl\<close>).
\<close>

definition deploy_zones ::
  "stdlib \<Rightarrow> bind_tools \<Rightarrow> string \<Rightarrow> nat \<Rightarrow> local_db \<Rightarrow> bind_fs \<Rightarrow> local_db \<times> bind_fs \<times> nat result" where
  "deploy_zones lib tools sip today db0 fs =
     (let db = local_init_db sip db0; deps = dns_deployments db; rid = next_rowid dep_id deps;
          running = insert_row dep_id (\<lambda>i r. r\<lparr>dep_id := i\<rparr>)
            \<lparr>dep_id = 0, dep_status = Running, dep_reverse_zones = 0, dep_serial = 0, dep_message = []\<rparr> deps;
          serial = next_serial today running
      in case deploy_files tools (dns_records db) (build_zone_files lib sip serial db) fs of
           (fs', status, reverse_count, msg) \<Rightarrow>
             (db\<lparr>dns_deployments :=
                update_where (\<lambda>d. dep_id d = rid)
                  (\<lambda>d. d\<lparr>dep_status := status, dep_reverse_zones := reverse_count, dep_serial := serial,
                         dep_message := msg\<rparr>) running\<rparr>,
              fs', if status = Deployed then Inr rid else Inl msg))"

section \<open>Import previews\<close>

text \<open>A CSV row as the reader gives it: field name to text.\<close>

type_synonym csv_row = "(string \<times> string) list"

record preview_item =
  pv_line :: nat
  pv_valid :: bool
  pv_record :: csv_row
  pv_ttl :: pyval
  pv_warnings :: "string list"
  pv_error :: string

definition preview_row :: "stdlib \<Rightarrow> local_record list \<Rightarrow> nat \<Rightarrow> csv_row \<Rightarrow> preview_item" where
  "preview_row lib t line row =
     (let ttl = (case map_of row ''ttl'' of None \<Rightarrow> PyInt 300 | Some v \<Rightarrow> PyStr v);
          bad = (\<lambda>e. \<lparr>pv_line = line, pv_valid = False, pv_record = row, pv_ttl = ttl, pv_warnings = [], pv_error = e\<rparr>)
      in case validate_record lib (dict_get row ''record_type'' []) (dict_get row ''fqdn'' []) (dict_get row ''value'' []) ttl of
           Inl e \<Rightarrow> bad e
         | Inr (ty, fqdn, value, clean_ttl) \<Rightarrow>
             (case record_warnings lib t fqdn ty value None of
                Inl e \<Rightarrow> bad e
              | Inr ws \<Rightarrow>
                  \<lparr>pv_line = line, pv_valid = True,
                   pv_record = [(''fqdn'', fqdn), (''record_type'', show_rtype ty), (''value'', value),
                                (''enabled'', dict_get row ''enabled'' ''1''), (''comment'', dict_get row ''comment'' [])],
                   pv_ttl = PyInt clean_ttl, pv_warnings = ws, pv_error = []\<rparr>))"

definition csv_preview :: "stdlib \<Rightarrow> string \<Rightarrow> csv_row list \<Rightarrow> local_db \<Rightarrow> preview_item list" where
  "csv_preview lib sip rows db =
     map (\<lambda>(n, row). preview_row lib (dns_records (local_init_db sip db)) n row) (enumerate 2 rows)"

fun import_items :: "stdlib \<Rightarrow> string \<Rightarrow> string \<Rightarrow> bool \<Rightarrow> preview_item list \<Rightarrow> nat \<Rightarrow> local_db \<Rightarrow> local_db \<times> nat result" where
  "import_items lib ts sip override [] count db = (db, Inr count)"
| "import_items lib ts sip override (item # items) count db =
     (let r = pv_record item in
      case add_record lib ts sip (dict_get r ''record_type'' []) (dict_get r ''fqdn'' []) (dict_get r ''value'' [])
             (pv_ttl item) (dict_get r ''comment'' []) (dict_get r ''enabled'' ''1'' \<noteq> ''0'') override db of
        Inl e \<Rightarrow> (db, Inl e)
      | Inr (db', _) \<Rightarrow> import_items lib ts sip override items (count + 1) db')"

definition csv_import :: "stdlib \<Rightarrow> string \<Rightarrow> string \<Rightarrow> csv_row list \<Rightarrow> bool \<Rightarrow> local_db \<Rightarrow> local_db \<times> nat result" where
  "csv_import lib ts sip rows override db =
     (let preview = csv_preview lib sip rows db in
      if list_ex (\<lambda>i. \<not> pv_valid i) preview then (db, Inl ''CSV contains validation errors'')
      else import_items lib ts sip override preview 0 db)"

record hosts_item =
  hp_line :: nat
  hp_valid :: bool
  hp_records :: "(string \<times> rtype \<times> string) list"
  hp_error :: string

fun hosts_names :: "stdlib \<Rightarrow> string \<Rightarrow> ip \<Rightarrow> string list \<Rightarrow> (string \<times> rtype \<times> string) list \<Rightarrow>
    (string \<times> rtype \<times> string) list \<times> unit result" where
  "hosts_names lib dm i [] acc = (acc, Inr ())"
| "hosts_names lib dm i (h # hs) acc =
     (case normalize_fqdn lib h (Some dm) of
        Inl e \<Rightarrow> (acc, Inl e)
      | Inr fqdn \<Rightarrow> hosts_names lib dm i hs (acc @ [(fqdn, if is_v4 i then TA else TAAAA, str_ip i)]))"

definition hosts_line :: "stdlib \<Rightarrow> string \<Rightarrow> nat \<Rightarrow> string list \<Rightarrow> hosts_item" where
  "hosts_line lib dm n parts =
     (case ip_address_or_raise (hd parts) of
        Inl e \<Rightarrow> \<lparr>hp_line = n, hp_valid = False, hp_records = [], hp_error = e\<rparr>
      | Inr i \<Rightarrow>
          (case hosts_names lib dm i (tl parts) [] of
             (rs, Inl e) \<Rightarrow> \<lparr>hp_line = n, hp_valid = False, hp_records = rs, hp_error = e\<rparr>
           | (rs, Inr _) \<Rightarrow> \<lparr>hp_line = n, hp_valid = True, hp_records = rs, hp_error = []\<rparr>))"

definition hosts_preview :: "stdlib \<Rightarrow> string \<Rightarrow> string \<Rightarrow> hosts_item list result" where
  "hosts_preview lib content dom_arg =
     (case local_normalize_domain lib dom_arg of
        Inl e \<Rightarrow> Inl e
      | Inr dm \<Rightarrow>
          Inr (concat (map (\<lambda>(n, raw).
                 let line = py_strip (fst (partition_char CHR ''#'' raw)) in
                 if line = [] then [] else [hosts_line lib dm n (split_ws line)])
               (enumerate 1 (splitlines content)))))"

section \<open>The record table invariant\<close>

definition rec_key :: "local_record \<Rightarrow> string \<times> rtype \<times> string" where
  "rec_key r = (ld_fqdn r, ld_type r, ld_value r)"

definition value_ok :: "rtype \<Rightarrow> string \<Rightarrow> bool" where
  "value_ok ty v =
     (case ty of TA \<Rightarrow> (\<exists>i. is_v4 i \<and> v = str_ip i) | TAAAA \<Rightarrow> (\<exists>i. \<not> is_v4 i \<and> v = str_ip i) | _ \<Rightarrow> True)"

definition record_ok :: "local_record \<Rightarrow> bool" where
  "record_ok r = (30 \<le> ld_ttl r \<and> ld_ttl r \<le> 86400 \<and> value_ok (ld_type r) (ld_value r))"

definition records_ok :: "local_record list \<Rightarrow> bool" where
  "records_ok t = (rowids_ok ld_id t \<and> distinct (map rec_key t) \<and> (\<forall>r\<in>set t. record_ok r))"

lemma same_key_iff: "same_key f ty v r \<longleftrightarrow> rec_key r = (f, ty, v)"
  by (auto simp: same_key_def rec_key_def)

lemma rec_key_id [simp]: "rec_key (r\<lparr>ld_id := i\<rparr>) = rec_key r" "record_ok (r\<lparr>ld_id := i\<rparr>) = record_ok r"
  by (simp_all add: rec_key_def record_ok_def)

lemma insert_record_ok:
  assumes "records_ok t" "record_ok r" "insert_record r t = Inr t'"
  shows "records_ok t'"
proof -
  have new: "rec_key r \<notin> rec_key ` set t" and t': "t' = insert_row ld_id (\<lambda>i r. r\<lparr>ld_id := i\<rparr>) r t"
    using assms(3) by (auto simp: insert_record_def list_ex_iff same_key_iff rec_key_def split: if_splits)
  have "rowids_ok ld_id t'" unfolding t'
    using assms(1) by (intro record_table.insert_keeps_ids) (simp add: records_ok_def)
  with new assms(1,2) show ?thesis by (auto simp: records_ok_def t' insert_row_def)
qed

lemma replace_record_ok:
  assumes "records_ok t" "record_ok r"
  shows "records_ok (replace_record r t)"
proof -
  let ?d = "delete_where (same_key (ld_fqdn r) (ld_type r) (ld_value r)) t"
  have "rowids_ok ld_id ?d" using assms(1) by (simp add: records_ok_def rowids_ok_delete)
  then have "rowids_ok ld_id (replace_record r t)"
    unfolding replace_record_def rowids_ok_def
    by (auto simp: sorted_wrt_append next_rowid_greater)
  moreover have "distinct (map rec_key ?d)"
    using assms(1) by (simp add: records_ok_def delete_where_def distinct_map_filter)
  ultimately show ?thesis using assms
    by (auto simp: records_ok_def replace_record_def same_key_iff rec_key_def [of r])
qed

lemma records_ok_delete: "records_ok t \<Longrightarrow> records_ok (delete_where p t)"
  by (auto simp: records_ok_def rowids_ok_delete delete_where_def distinct_map_filter
      intro: rowids_ok_delete [unfolded delete_where_def])

lemma records_ok_update:
  assumes "records_ok t" "\<And>r. ld_id (f r) = ld_id r" "\<And>r. rec_key (f r) = rec_key r"
    "\<And>r. record_ok r \<Longrightarrow> record_ok (f r)"
  shows "records_ok (update_where p f t)"
proof -
  have "map rec_key (update_where p f t) = map rec_key t" by (simp add: update_where_def assms(3))
  moreover have "rowids_ok ld_id (update_where p f t)"
    using assms(1,2) by (intro rowids_ok_update) (simp_all add: records_ok_def)
  ultimately show ?thesis using assms(1,4) by (auto simp: records_ok_def set_update_where)
qed

lemma validate_ttl_bounds: "validate_ttl v = Inr t \<Longrightarrow> 30 \<le> t \<and> t \<le> 86400"
  by (auto simp: validate_ttl_def split: option.splits if_splits)

lemma validate_value_ok: "validate_value lib ty v = Inr w \<Longrightarrow> value_ok ty w"
  by (cases ty) (auto simp: validate_value_def value_ok_def split: sum.splits if_splits)

lemma validate_record_ok:
  "validate_record lib rt f v t = Inr (ty, name, w, ttl) \<Longrightarrow> 30 \<le> ttl \<and> ttl \<le> 86400 \<and> value_ok ty w"
  by (auto simp: validate_record_def split: option.splits sum.splits
      dest: validate_ttl_bounds validate_value_ok)

lemma new_local_record_ok:
  "record_ok (new_local_record ts n f ty v ttl cm en ap) \<longleftrightarrow> 30 \<le> ttl \<and> ttl \<le> 86400 \<and> value_ok ty v"
  by (simp add: record_ok_def new_local_record_def)

lemma local_init_db_records [simp]:
  "dns_records (local_init_db sip db) = dns_records db"
  "client_aliases (local_init_db sip db) = client_aliases db"
  "dns_deployments (local_init_db sip db) = dns_deployments db"
  by (simp_all add: local_init_db_def)

lemma add_record_ok:
  assumes "records_ok (dns_records db)" "add_record lib ts sip rt f v ttl cm en ov db = Inr (db', ws)"
  shows "records_ok (dns_records db')"
proof -
  from assms(2) obtain ty name w n t1 where v: "validate_record lib rt f v ttl = Inr (ty, name, w, n)"
    and t1: "insert_record (new_local_record ts (first_label name) name ty w n cm en False) (dns_records db) = Inr t1"
    and db': "dns_records db' = t1"
    unfolding add_record_def Let_def by (auto split: sum.splits if_split_asm)
  from validate_record_ok [OF v] show ?thesis
    unfolding db' by (intro insert_record_ok [OF assms(1) _ t1]) (simp add: new_local_record_ok)
qed

lemma add_auto_ptr_ok:
  assumes "records_ok t" "30 \<le> ttl" "ttl \<le> 86400" "add_auto_ptr lib ts f i ttl ov rid t = Inr t'"
  shows "records_ok t'"
proof -
  obtain owner zone where t': "t' = update_where (\<lambda>r. ld_id r = rid) (\<lambda>r. r\<lparr>ld_ptr_record_id := Some (next_rowid ld_id t)\<rparr>)
      (replace_record (new_local_record ts owner (owner @ ''.'' @ zone) TPTR f ttl (''reverse for '' @ f) True False) t)"
    using assms(4) by (auto simp: add_auto_ptr_def Let_def split: sum.splits if_splits)
  have "records_ok (replace_record (new_local_record ts owner (owner @ ''.'' @ zone) TPTR f ttl (''reverse for '' @ f) True False) t)"
    using assms by (intro replace_record_ok) (simp_all add: new_local_record_ok value_ok_def)
  then show ?thesis unfolding t' by (rule records_ok_update) (simp_all add: rec_key_def record_ok_def)
qed

lemma guard_Inr: "((if c then Inl e else x) = Inr y) \<longleftrightarrow> \<not> c \<and> x = Inr y"
  by simp

lemma add_host_steps:
  assumes "add_host lib ts sip h d a ttl cm ap ov db = Inr (db', ws)"
  obtains label f i ty n t1 t2 where "validate_ttl ttl = Inr n" "value_ok ty (str_ip i)"
    "insert_record (new_local_record ts label f ty (str_ip i) n cm True ap) (dns_records db) = Inr t1"
    "(if ap then add_auto_ptr lib ts f i n ov (next_rowid ld_id (dns_records db)) t1 else Inr t1) = Inr t2"
    "db' = (local_init_db sip db)\<lparr>dns_records := t2\<rparr>"
proof -
  have ty: "value_ok (if is_v4 i then TA else TAAAA) (str_ip i)" for i by (auto simp: value_ok_def)
  show thesis
    using assms unfolding add_host_def Let_def
    by (clarsimp simp only: guard_Inr local_init_db_records sum.inject Pair_inject split: sum.splits)
       (rule that [OF _ ty]; (assumption | rule refl))
qed

lemma add_host_ok:
  assumes "records_ok (dns_records db)" "add_host lib ts sip h d a ttl cm ap ov db = Inr (db', ws)"
  shows "records_ok (dns_records db')"
proof -
  from assms(2) obtain label f i ty n t1 t2 where ttl: "validate_ttl ttl = Inr n"
    and ty: "value_ok ty (str_ip i)"
    and t1: "insert_record (new_local_record ts label f ty (str_ip i) n cm True ap) (dns_records db) = Inr t1"
    and t2: "(if ap then add_auto_ptr lib ts f i n ov (next_rowid ld_id (dns_records db)) t1 else Inr t1) = Inr t2"
    and db': "db' = (local_init_db sip db)\<lparr>dns_records := t2\<rparr>" by (rule add_host_steps)
  from validate_ttl_bounds [OF ttl] have n: "30 \<le> n" "n \<le> 86400" by simp_all
  have "records_ok t1"
    by (rule insert_record_ok [OF assms(1) _ t1]) (use n ty in \<open>simp add: new_local_record_ok\<close>)
  then have "records_ok t2" using t2 n by (auto split: if_splits intro: add_auto_ptr_ok)
  then show ?thesis by (simp add: db')
qed

lemma change_record_sel [simp]:
  "ld_id (change_record ts name ty v ttl cm en r) = ld_id r"
  "rec_key (change_record ts name ty v ttl cm en r) = (name, ty, v)"
  "record_ok (change_record ts name ty v ttl cm en r) \<longleftrightarrow> 30 \<le> ttl \<and> ttl \<le> 86400 \<and> value_ok ty v"
  by (simp_all add: change_record_def rec_key_def record_ok_def)

lemma update_where_Cons: "update_where p f (x # xs) = (if p x then f x else x) # update_where p f xs"
  by (simp add: update_where_def)

text \<open>Giving one row a key that no other row has keeps keys distinct.\<close>

lemma distinct_rekey:
  assumes "distinct (map k t)" "distinct (map i t)" "\<And>r. r \<in> set t \<Longrightarrow> i r \<noteq> x \<Longrightarrow> k r \<noteq> key" "\<And>r. k (f r) = key"
  shows "distinct (map k (update_where (\<lambda>r. i r = x) f t))"
  using assms(1-3)
proof (induction t)
  case (Cons r t)
  have upd: "k ` set (update_where (\<lambda>r. i r = x) f t) \<subseteq> k ` {s \<in> set t. i s \<noteq> x} \<union> (if x \<in> i ` set t then {key} else {})"
    by (auto simp: set_update_where assms(4))
  show ?case
  proof (cases "i r = x")
    case True
    with Cons.prems(2) have "x \<notin> i ` set t" by auto
    with upd Cons.prems(3) have "key \<notin> k ` set (update_where (\<lambda>r. i r = x) f t)" by fastforce
    with True Cons show ?thesis by (simp add: update_where_Cons assms(4))
  next
    case False
    with Cons.prems have "k r \<noteq> key" "k r \<notin> k ` set t" by auto
    with upd have "k r \<notin> k ` set (update_where (\<lambda>r. i r = x) f t)" by (auto split: if_splits)
    with False Cons show ?thesis by (simp add: update_where_Cons)
  qed
qed (simp add: update_where_def)

lemma update_record_ok:
  assumes ok: "records_ok (dns_records db)"
    and upd: "update_record lib ts sip rid rt f v ttl cm en ov db = Inr (db', ws)"
  shows "records_ok (dns_records db')"
proof -
  let ?t = "dns_records db"
  from upd obtain ty name w n where v: "validate_record lib rt f v ttl = Inr (ty, name, w, n)"
    and nodup: "\<not> (list_ex (\<lambda>r. ld_id r = rid) ?t \<and> list_ex (\<lambda>r. ld_id r \<noteq> rid \<and> same_key name ty w r) ?t)"
    and db': "dns_records db' = update_where (\<lambda>r. ld_id r = rid) (change_record ts name ty w n cm en) ?t"
    unfolding update_record_def Let_def by (auto split: sum.splits if_split_asm)
  show ?thesis
  proof (cases "list_ex (\<lambda>r. ld_id r = rid) ?t")
    case False
    then have "dns_records db' = ?t" unfolding db' update_where_def by (intro map_idI) (auto simp: list_ex_iff)
    with ok show ?thesis by simp
  next
    case True
    with nodup have other: "\<And>r. r \<in> set ?t \<Longrightarrow> ld_id r \<noteq> rid \<Longrightarrow> rec_key r \<noteq> (name, ty, w)"
      by (auto simp: list_ex_iff same_key_iff)
    have "distinct (map rec_key (dns_records db'))"
      unfolding db' using ok rowids_ok_distinct [of ld_id ?t]
      by (intro distinct_rekey [OF _ _ other]) (simp_all add: records_ok_def)
    moreover have "rowids_ok ld_id (dns_records db')"
      unfolding db' using ok by (intro rowids_ok_update) (simp_all add: records_ok_def)
    moreover have "\<forall>r\<in>set (dns_records db'). record_ok r"
      using ok validate_record_ok [OF v] by (auto simp: db' set_update_where records_ok_def)
    ultimately show ?thesis by (simp add: records_ok_def)
  qed
qed

lemma toggle_record_ok: "records_ok (dns_records db) \<Longrightarrow> records_ok (dns_records (toggle_record ts sip rid db))"
  unfolding toggle_record_def Let_def
  by (simp, rule records_ok_update) (simp_all add: rec_key_def record_ok_def)

lemma delete_record_ok: "records_ok (dns_records db) \<Longrightarrow> records_ok (dns_records (delete_record sip rid db))"
  by (auto simp: delete_record_def Let_def records_ok_delete split: option.split)

lemma import_items_ok:
  "records_ok (dns_records db) \<Longrightarrow> import_items lib ts sip ov items k db = (db', r) \<Longrightarrow> records_ok (dns_records db')"
  by (induction items arbitrary: k db) (auto simp: Let_def split: sum.splits prod.splits dest: add_record_ok)

text \<open>The operations on the record table, and the tables they lead to from an empty one.\<close>

inductive local_step :: "stdlib \<Rightarrow> local_db \<Rightarrow> local_db \<Rightarrow> bool" for lib where
  ls_host: "add_host lib ts sip h d a ttl cm ap ov db = Inr (db', ws) \<Longrightarrow> local_step lib db db'"
| ls_add: "add_record lib ts sip rt f v ttl cm en ov db = Inr (db', ws) \<Longrightarrow> local_step lib db db'"
| ls_update: "update_record lib ts sip rid rt f v ttl cm en ov db = Inr (db', ws) \<Longrightarrow> local_step lib db db'"
| ls_toggle: "local_step lib db (toggle_record ts sip rid db)"
| ls_delete: "local_step lib db (delete_record sip rid db)"
| ls_csv: "csv_import lib ts sip rows ov db = (db', r) \<Longrightarrow> local_step lib db db'"
| ls_alias: "upsert_alias ts sip cidr nm desc db = Inr db' \<Longrightarrow> local_step lib db db'"
| ls_unalias: "local_step lib db (delete_alias sip rid db)"
| ls_settings: "update_settings lib sip kvs db = Inr db' \<Longrightarrow> local_step lib db db'"

inductive local_reachable :: "stdlib \<Rightarrow> local_db \<Rightarrow> bool" for lib where
  lr_empty: "dns_records db = [] \<Longrightarrow> local_reachable lib db"
| lr_step: "local_reachable lib db \<Longrightarrow> local_step lib db db' \<Longrightarrow> local_reachable lib db'"

lemma local_step_ok: "local_step lib db db' \<Longrightarrow> records_ok (dns_records db) \<Longrightarrow> records_ok (dns_records db')"
proof (induction rule: local_step.induct)
  case (ls_csv ts sip rows ov db db' r)
  then show ?case by (auto simp: csv_import_def Let_def split: if_splits dest: import_items_ok)
next
  case (ls_alias ts sip cidr nm desc db db')
  then show ?case by (auto simp: upsert_alias_def Let_def split: option.splits if_splits)
next
  case (ls_settings sip kvs db db')
  then show ?case by (auto simp: update_settings_def Let_def split: sum.splits)
qed (auto simp: delete_alias_def Let_def intro: toggle_record_ok delete_record_ok
    dest: add_host_ok add_record_ok update_record_ok)

lemma local_reachable_ok: "local_reachable lib db \<Longrightarrow> records_ok (dns_records db)"
  by (induction rule: local_reachable.induct) (auto simp: records_ok_def rowids_ok_def dest: local_step_ok)

section \<open>Names and zones\<close>

definition wf_local :: "string \<Rightarrow> bool" where
  "wf_local d = list_all (label_re ldh_char) (split_char dot d)"

text \<open>How a name server reads an owner field of a zone file.\<close>

definition absolute_name :: "string \<Rightarrow> string \<Rightarrow> string" where
  "absolute_name rel zone =
     (if rel = ''@'' then zone else if rel \<noteq> [] \<and> last rel = dot then butlast rel else rel @ ''.'' @ zone)"

lemma wf_local_split: "wf_local (u @ dot # z) \<longleftrightarrow> wf_local u \<and> wf_local z"
  by (simp add: wf_local_def split_char_append)

lemma wf_local_facts:
  assumes "wf_local u"
  shows "u \<noteq> []" "last u \<noteq> dot" "u \<noteq> ''@''"
proof -
  have ne: "w \<noteq> []" if "w \<in> set (split_char dot u)" for w
    using assms that by (auto simp: wf_local_def list_all_iff label_re_def)
  then show u: "u \<noteq> []" by auto
  from u ne [of "last (split_char dot u)"] show "last u \<noteq> dot"
    using split_char_last_ends [of u dot] by simp
  show "u \<noteq> ''@''"
  proof
    assume "u = ''@''"
    with assms show False
      by (simp add: wf_local_def label_re_def ldh_char_def is_ascii_lower_def is_ascii_digit_def)
  qed
qed

lemma rel_name_absolute:
  assumes "wf_local fqdn"
  shows "absolute_name (rel_name fqdn zone) zone = fqdn"
proof (cases "fqdn = zone")
  case True
  then show ?thesis by (simp add: rel_name_def absolute_name_def)
next
  case False
  show ?thesis
  proof (cases "suffix (''.'' @ zone) fqdn")
    case True
    then obtain u where u: "fqdn = u @ dot # zone" by (auto simp: suffix_def)
    with assms have "wf_local u" by (simp add: wf_local_split)
    from wf_local_facts [OF this] False True show ?thesis
      by (simp add: rel_name_def absolute_name_def u)
  next
    case no: False
    have "fqdn @ ''.'' \<noteq> ''@''" by (cases fqdn) simp_all
    with False no show ?thesis by (simp add: rel_name_def absolute_name_def)
  qed
qed

definition home_zone :: "string \<Rightarrow> local_record \<Rightarrow> string" where
  "home_zone dm r = (if ld_type r = TPTR then ptr_zone (ld_fqdn r) else forward_zone_for_fqdn (ld_fqdn r) dm)"

lemma join_tl_covers:
  assumes "2 \<le> length (split_char dot f)"
  shows "below f (join ''.'' (tl (split_char dot f)))"
proof -
  obtain w v vs where "split_char dot f = w # v # vs"
    using assms by (cases "split_char dot f"; cases "tl (split_char dot f)") auto
  then obtain ws where ws: "split_char dot f = w # ws" "ws \<noteq> []" by blast
  have "f = join [dot] (w # ws)" using join_split_char [of dot f] ws by simp
  also have "\<dots> = w @ dot # join [dot] ws" using ws(2) by (cases ws) auto
  finally show ?thesis using ws by (auto simp: below_iff)
qed

lemma forward_zone_covers: "covers (forward_zone_for_fqdn f dm) f"
proof -
  have "below f (join ''.'' (tl (split_char dot f)))" if "\<not> length (split_char dot f) < 3"
    using that by (intro join_tl_covers) simp
  then show ?thesis by (auto simp: forward_zone_for_fqdn_def covers_def below_def Let_def)
qed

lemma group_by_zone_Cons:
  "group_by_zone zo (r # rs) d =
     group_by_zone zo rs (let z = zo r; d = dict_setdefault z [] d in AList.update z (dict_get d z [] @ [r]) d)"
  by (simp add: group_by_zone_def)

lemma group_by_zone_lookup:
  "map_of (group_by_zone zo rows d) z =
     (let mine = filter (\<lambda>r. zo r = z) rows in
      case map_of d z of None \<Rightarrow> if mine = [] then None else Some mine | Some l \<Rightarrow> Some (l @ mine))"
proof (induction rows arbitrary: d)
  case Nil
  show ?case by (simp add: group_by_zone_def split: option.split)
next
  case (Cons r rows)
  show ?case
    by (auto simp: group_by_zone_Cons Cons.IH Let_def update_conv' map_of_setdefault dict_get_def split: option.splits)
qed

lemma group_by_zone_distinct: "distinct (map fst d) \<Longrightarrow> distinct (map fst (group_by_zone zo rows d))"
  by (induction rows arbitrary: d)
     (simp_all add: group_by_zone_Cons Let_def distinct_update distinct_setdefault, simp add: group_by_zone_def)

lemma set_sorted_items [simp]: "set (sorted_items d) = set d"
  by (simp add: sorted_items_def)

lemma set_enabled_records: "set (enabled_records t) = {r \<in> set t. ld_enabled r}"
  by (auto simp: enabled_records_def)

text \<open>The rows whose records the file of a zone holds.\<close>

definition zone_rows :: "string \<Rightarrow> bool \<Rightarrow> string \<Rightarrow> local_record list \<Rightarrow> local_record list" where
  "zone_rows dm reverse z t =
     filter (\<lambda>r. (ld_type r = TPTR) = reverse \<and> home_zone dm r = z) (enabled_records t)"

lemma forward_groups_lookup:
  "map_of (forward_groups dm rows) z =
     (let mine = filter (\<lambda>r. ld_type r \<noteq> TPTR \<and> home_zone dm r = z) rows in
      if z = dm then Some mine else if mine = [] then None else Some mine)"
proof -
  have "filter (\<lambda>r. forward_zone_for_fqdn (ld_fqdn r) dm = z) (filter (\<lambda>r. ld_type r \<in> {TA, TAAAA, TCNAME}) rows) =
    filter (\<lambda>r. ld_type r \<noteq> TPTR \<and> home_zone dm r = z) rows"
    unfolding filter_filter by (rule filter_cong) (auto simp: home_zone_def, metis rtype.exhaust)
  note eq = this
  show ?thesis unfolding forward_groups_def group_by_zone_lookup Let_def eq by simp
qed

lemma reverse_groups_lookup:
  "map_of (reverse_groups rows) z =
     (let mine = filter (\<lambda>r. ld_type r = TPTR \<and> home_zone dm r = z) rows in if mine = [] then None else Some mine)"
proof -
  have "filter (\<lambda>r. ptr_zone (ld_fqdn r) = z) (filter (\<lambda>r. ld_type r = TPTR) rows) =
    filter (\<lambda>r. ld_type r = TPTR \<and> home_zone dm r = z) rows"
    unfolding filter_filter by (rule filter_cong) (auto simp: home_zone_def)
  then show ?thesis unfolding reverse_groups_def group_by_zone_lookup Let_def by simp
qed

lemma groups_distinct:
  "distinct (map fst (forward_groups dm rows))" "distinct (map fst (reverse_groups rows))"
  unfolding forward_groups_def reverse_groups_def by (rule group_by_zone_distinct, simp)+

lemma build_zone_files_cases:
  assumes "build_zone_files lib sip serial db = Inr zones"
  obtains dm ttl where
    "local_normalize_domain lib (dict_get (dns_settings (local_init_db sip db)) ''internal_domain'' DEFAULT_DOMAIN) = Inr dm"
    "30 \<le> ttl" "ttl \<le> 86400"
    "\<And>z x. \<lparr>zf_zone = z, zf_text = x\<rparr> \<in> set zones \<longleftrightarrow>
       (\<exists>rs. x = render_zone z rs serial ttl \<and>
         (map_of (forward_groups dm (enabled_records (dns_records db))) z = Some rs \<or>
          map_of (reverse_groups (enabled_records (dns_records db))) z = Some rs))"
proof -
  from assms obtain dm ttl where
    dm: "local_normalize_domain lib (dict_get (dns_settings (local_init_db sip db)) ''internal_domain'' DEFAULT_DOMAIN) = Inr dm"
    and ttl: "validate_ttl (PyStr (dict_get (dns_settings (local_init_db sip db)) ''default_ttl'' ''300'')) = Inr ttl"
    and z: "zones = (let rows = enabled_records (dns_records db);
              zf = (\<lambda>(zone, rs). \<lparr>zf_zone = zone, zf_text = render_zone zone rs serial ttl\<rparr>)
          in map zf (sorted_items (forward_groups dm rows)) @ map zf (sorted_items (reverse_groups rows)))"
    unfolding build_zone_files_def Let_def by (auto split: sum.splits)
  have mem: "(k, v) \<in> set (forward_groups dm (enabled_records (dns_records db))) \<longleftrightarrow>
      map_of (forward_groups dm (enabled_records (dns_records db))) k = Some v"
    "(k, v) \<in> set (reverse_groups (enabled_records (dns_records db))) \<longleftrightarrow>
      map_of (reverse_groups (enabled_records (dns_records db))) k = Some v" for k v
    by (simp_all add: map_of_eq_Some_iff groups_distinct)
  have "\<lparr>zf_zone = k, zf_text = x\<rparr> \<in> set zones \<longleftrightarrow>
       (\<exists>rs. x = render_zone k rs serial ttl \<and>
         (map_of (forward_groups dm (enabled_records (dns_records db))) k = Some rs \<or>
          map_of (reverse_groups (enabled_records (dns_records db))) k = Some rs))" for k x
    unfolding z mem [symmetric] Let_def by (auto simp: image_iff split: prod.splits)
  with dm validate_ttl_bounds [OF ttl] show thesis using that by blast
qed

section \<open>Serial numbers\<close>

definition deployed_serials :: "local_deployment list \<Rightarrow> nat list" where
  "deployed_serials deps = map dep_serial (filter (\<lambda>d. dep_status d = Deployed) deps)"

definition deployments_ok :: "local_deployment list \<Rightarrow> bool" where
  "deployments_ok deps = (rowids_ok dep_id deps \<and> sorted_wrt (<) (deployed_serials deps))"

lemma find_rev_last:
  "List.find p (rev xs) = (if filter p xs = [] then None else Some (last (filter p xs)))"
  by (induction xs rule: rev_induct) auto

lemma sorted_wrt_last: "sorted_wrt (<) (xs :: nat list) \<Longrightarrow> x \<in> set xs \<Longrightarrow> x \<le> last xs"
  by (induction xs rule: rev_induct) (auto simp: sorted_wrt_append less_imp_le)

lemma next_serial_greater:
  assumes "deployments_ok deps" "s \<in> set (deployed_serials deps)"
  shows "s < next_serial today deps"
proof -
  let ?ds = "filter (\<lambda>d. dep_status d = Deployed) deps"
  have ne: "?ds \<noteq> []" using assms(2) by (auto simp: deployed_serials_def filter_empty_conv)
  have "s \<le> last (deployed_serials deps)"
    using assms by (intro sorted_wrt_last) (simp_all add: deployments_ok_def)
  also have "last (deployed_serials deps) = dep_serial (last ?ds)"
    using ne by (simp add: deployed_serials_def last_map)
  finally show ?thesis using ne by (simp add: next_serial_def find_rev_last Let_def)
qed

lemma next_serial_running:
  "dep_status d \<noteq> Deployed \<Longrightarrow> next_serial today (deps @ [d]) = next_serial today deps"
  by (simp add: next_serial_def)

lemma deploy_zones_row:
  assumes "deploy_zones lib tools sip today db fs = (db', fs', r)"
  obtains status rc msg where
    "deploy_files tools (dns_records db)
       (build_zone_files lib sip (next_serial today (dns_deployments db)) (local_init_db sip db)) fs = (fs', status, rc, msg)"
    "dns_deployments db' = dns_deployments db @
       [\<lparr>dep_id = next_rowid dep_id (dns_deployments db), dep_status = status, dep_reverse_zones = rc,
         dep_serial = next_serial today (dns_deployments db), dep_message = msg\<rparr>]"
    "r = (if status = Deployed then Inr (next_rowid dep_id (dns_deployments db)) else Inl msg)"
    "dns_records db' = dns_records db"
proof -
  let ?deps = "dns_deployments db"
  have keep: "update_where (\<lambda>d. dep_id d = next_rowid dep_id ?deps) f ?deps = ?deps" for f
    unfolding update_where_def using next_rowid_greater [of _ ?deps dep_id] by (intro map_idI) fastforce
  show thesis
    using assms that keep unfolding deploy_zones_def Let_def insert_row_def
    by (auto simp: next_serial_running update_where_def split: prod.splits)
qed

lemma deploy_zones_deployments_ok:
  assumes ok: "deployments_ok (dns_deployments db)" and dep: "deploy_zones lib tools sip today db fs = (db', fs', r)"
  shows "deployments_ok (dns_deployments db')"
proof -
  from dep obtain status rc msg where db': "dns_deployments db' = dns_deployments db @
       [\<lparr>dep_id = next_rowid dep_id (dns_deployments db), dep_status = status, dep_reverse_zones = rc,
         dep_serial = next_serial today (dns_deployments db), dep_message = msg\<rparr>]"
    by (rule deploy_zones_row)
  have "rowids_ok dep_id (dns_deployments db')"
    unfolding db' using ok by (intro rowids_ok_append) (simp_all add: deployments_ok_def)
  moreover have "sorted_wrt (<) (deployed_serials (dns_deployments db'))"
    using ok next_serial_greater [OF ok]
    by (auto simp: db' deployments_ok_def deployed_serials_def sorted_wrt_append)
  ultimately show ?thesis by (simp add: deployments_ok_def)
qed

section \<open>What a failed deployment leaves\<close>

lemma staged_lookup:
  "map_of (fold (\<lambda>z d. AList.update (zf_zone z) (zf_text z) d) zones d0) k =
     (case List.find (\<lambda>z. zf_zone z = k) (rev zones) of Some z \<Rightarrow> Some (zf_text z) | None \<Rightarrow> map_of d0 k)"
  by (induction zones arbitrary: d0) (auto simp: update_conv' find_append_None split: option.splits)

lemma staged_dom:
  "dom (map_of (fold (\<lambda>z d. AList.update (zf_zone z) (zf_text z) d) zones d0)) = zf_zone ` set zones \<union> dom (map_of d0)"
  by (induction zones arbitrary: d0) (auto simp: update_conv' dom_def)

lemma install_zones_distinct:
  "distinct zs \<Longrightarrow> set zs \<subseteq> dom (map_of staged) \<Longrightarrow>
   \<exists>l. install_zones staged zs live = (l, Inr ()) \<and> (\<forall>k. map_of l k = (if k \<in> set zs then map_of staged k else map_of live k))"
proof (induction zs arbitrary: staged live)
  case (Cons z zs)
  then obtain content where content: "map_of staged z = Some content" by auto
  have "set zs \<subseteq> dom (map_of (AList.delete z staged))" using Cons.prems by (auto simp: delete_conv' dom_def)
  with Cons.IH [of "AList.delete z staged" "AList.update z content live"] Cons.prems(1) content show ?case
    by (fastforce simp: delete_conv' update_conv')
qed simp

lemma install_and_check_installed:
  assumes "distinct (map zf_zone zones)" "install_and_check tools t zones fs = (fs1, b, r)"
  shows "b"
proof -
  let ?staged = "fold (\<lambda>z d. AList.update (zf_zone z) (zf_text z) d) zones []"
  from install_zones_distinct [OF assms(1), of ?staged "[]"]
  obtain l where "install_zones ?staged (map zf_zone zones) [] = (l, Inr ())" by (auto simp: staged_dom)
  with assms(2) show ?thesis by (auto simp: install_and_check_def Let_def split: if_splits)
qed

lemma restore_backup_same: "fs_named_local fs \<noteq> None \<Longrightarrow> restore_backup fs fs1 = fs"
  by (cases fs; cases fs1) (auto simp: restore_backup_def)

lemma deploy_files_restores:
  assumes "deploy_files tools t built fs = (fs', st, rc, msg)" "st \<noteq> Deployed" "fs_named_local fs \<noteq> None"
    and "\<And>zones. built = Inr zones \<Longrightarrow> distinct (map zf_zone zones)"
  shows "fs' = fs"
proof (cases built)
  case (Inl e)
  with assms(1) show ?thesis by (simp add: deploy_files_def)
next
  case (Inr zones)
  show ?thesis
  proof (cases "first_bad_zone tools zones")
    case (Some z)
    with assms(1) Inr show ?thesis by (simp add: deploy_files_def Let_def)
  next
    case None
    obtain fs1 b r where ic: "install_and_check tools t zones fs = (fs1, b, r)" by (metis prod_cases3)
    from install_and_check_installed [OF assms(4) [OF Inr] ic] have b by simp
    have "take_backup fs = Some fs" using assms(3) by (simp add: take_backup_def)
    with assms(1,2) Inr None ic \<open>b\<close> show ?thesis
      by (cases r) (auto simp: deploy_files_def Let_def restore_backup_same [OF assms(3)])
  qed
qed

section \<open>Aliases\<close>

definition alias_nets :: "alias_row list \<Rightarrow> (network \<times> string) list" where
  "alias_nets rows = map (\<lambda>r. (the (ip_network (al_cidr r)), al_display_name r)) rows"

definition at_least :: "nat \<Rightarrow> (nat \<times> string) option \<Rightarrow> bool" where
  "at_least p best = (case best of None \<Rightarrow> False | Some (q, _) \<Rightarrow> p \<le> q)"

text \<open>The result is the start value or a matching alias, and no matching alias is longer.\<close>

definition alias_result ::
  "ip \<Rightarrow> (network \<times> string) list \<Rightarrow> (nat \<times> string) option \<Rightarrow> (nat \<times> string) option \<Rightarrow> bool" where
  "alias_result i nets best best' =
     ((best' = best \<or> (\<exists>x\<in>set nets. in_network i (fst x) \<and> best' = Some (prefixlen (fst x), snd x))) \<and>
      (\<forall>p. at_least p best \<longrightarrow> at_least p best') \<and>
      (\<forall>x\<in>set nets. in_network i (fst x) \<longrightarrow> at_least (prefixlen (fst x)) best'))"

lemma alias_result_Cons:
  assumes "alias_result i nets b1 b2"
    and b1: "b1 = (if in_network i net \<and> (case best of None \<Rightarrow> True | Some (p, _) \<Rightarrow> prefixlen net > p)
                   then Some (prefixlen net, nm) else best)"
  shows "alias_result i ((net, nm) # nets) best b2"
proof -
  have up: "at_least p b1 \<Longrightarrow> at_least p b2" for p using assms(1) by (simp add: alias_result_def)
  have "b1 = best \<or> in_network i net \<and> b1 = Some (prefixlen net, nm)" by (simp add: b1)
  then have "b2 = best \<or> (\<exists>x\<in>set ((net, nm) # nets). in_network i (fst x) \<and> b2 = Some (prefixlen (fst x), snd x))"
    using assms(1) by (auto simp: alias_result_def)
  moreover have "at_least p b2" if "at_least p best" for p
    using that by (intro up) (auto simp: b1 at_least_def split: option.splits)
  moreover have "at_least (prefixlen net) b2" if "in_network i net"
    using that by (intro up) (auto simp: b1 at_least_def split: option.splits)
  ultimately show ?thesis using assms(1) by (simp add: alias_result_def)
qed

lemma best_alias_longest:
  assumes "\<forall>r\<in>set rows. ip_network (al_cidr r) \<noteq> None"
  shows "\<exists>best'. best_alias i rows best = Inr best' \<and> alias_result i (alias_nets rows) best best'"
  using assms
proof (induction rows arbitrary: best)
  case Nil
  show ?case by (simp add: alias_nets_def alias_result_def)
next
  case (Cons r rows)
  then obtain net where net: "ip_network (al_cidr r) = Some net" by auto
  define b1 where "b1 = (if in_network i net \<and> (case best of None \<Rightarrow> True | Some (p, _) \<Rightarrow> prefixlen net > p)
             then Some (prefixlen net, al_display_name r) else best)"
  from Cons.IH [of b1] Cons.prems obtain b2 where b2: "best_alias i rows b1 = Inr b2"
    "alias_result i (alias_nets rows) b1 b2" by auto
  from b2(1) have "best_alias i (r # rows) best = Inr b2" by (simp add: net b1_def)
  moreover have "alias_result i (alias_nets (r # rows)) best b2"
    using alias_result_Cons [OF b2(2) b1_def] by (simp add: alias_nets_def net)
  ultimately show ?case by blast
qed

section \<open>Reverse names of IPv4 addresses\<close>

lemma ptr_owner_v4:
  assumes "n < 2 ^ 32"
  shows "\<exists>owner zone. ptr_owner_for_ip (str_ip (V4 n)) = Inr (owner, zone) \<and>
    Some (owner @ ''.'' @ zone) = reverse_pointer (V4 n) \<and> ptr_zone (owner @ ''.'' @ zone) = zone"
proof -
  let ?o = "str_nat (n mod 256)"
  let ?z = "join ''.'' [str_nat (n div 256 mod 256), str_nat (n div 65536 mod 256), str_nat (n div 16777216 mod 256)] @ ''.in-addr.arpa''"
  have 1: "ptr_owner_for_ip (str_ip (V4 n)) = Inr (?o, ?z)"
    unfolding ptr_owner_for_ip_def ip_address_str_v4 [OF assms] Let_def
    by (simp add: split_str_v4 numeral_3_eq_3)
  have 2: "Some (?o @ ''.'' @ ?z) = reverse_pointer (V4 n)"
    by (simp add: split_str_v4)
  have "split_char dot (?o @ dot # ?z) = ?o # split_char dot ?z"
    by (simp add: split_char_append split_char_single str_nat_no_dot)
  then have 3: "ptr_zone (?o @ ''.'' @ ?z) = ?z" by (simp only: ptr_zone_def append_Cons append_Nil list.sel join_split_char)
  from 1 2 3 show ?thesis by blast
qed

section \<open>Properties\<close>

text \<open>
  whatever sequence of host additions, record edits, toggles, deletions, imports, alias and
  settings changes is run, row ids increase, no two records share name, type and value, every TTL is
  between 30 seconds and a day, and the value of every A or AAAA record is the canonical text of an
  address of that family.
\<close>

theorem local_records_invariant:
  assumes "local_reachable lib db"
  shows "records_ok (dns_records db)"
  using assms by (rule local_reachable_ok)

definition empty_local :: local_db where
  "empty_local = \<lparr>dns_settings = [], dns_records = [], client_aliases = [], dns_deployments = []\<rparr>"

theorem local_records_invariant_witness:
  "records_ok (dns_records (toggle_record ''t'' ''10.0.0.2'' 1 empty_local))"
proof (rule local_records_invariant)
  have "local_reachable plain_lib empty_local" by (rule lr_empty) (simp add: empty_local_def)
  then show "local_reachable plain_lib (toggle_record ''t'' ''10.0.0.2'' 1 empty_local)"
    by (rule lr_step) (rule ls_toggle)
qed

text \<open>
  owner names in zone files are faithful: what a name server reads for the relative name the
  renderer writes is the record's own name, for every zone.
\<close>

theorem relative_name_round_trip:
  assumes "wf_local fqdn"
  shows "absolute_name (rel_name fqdn zone) zone = fqdn"
  by (rule rel_name_absolute [OF assms])

theorem relative_name_round_trip_witness:
  "absolute_name (rel_name ''nas.home.arpa'' ''home.arpa'') ''home.arpa'' = ''nas.home.arpa''"
  by (rule relative_name_round_trip) code_simp

text \<open>
  every enabled record is published: the zone files built for a database contain, for each
  enabled record, the file of its own zone (the parent of a reverse name, the internal domain or the
  record's own forward zone otherwise), rendered from a record list that holds the record; and every
  rendered list holds only enabled records.
\<close>

theorem enabled_records_published:
  assumes "build_zone_files lib sip serial db = Inr zones"
  shows "\<exists>dm ttl. (\<forall>r\<in>set (dns_records db). ld_enabled r \<longrightarrow>
      (\<exists>rs. r \<in> set rs \<and> \<lparr>zf_zone = home_zone dm r, zf_text = render_zone (home_zone dm r) rs serial ttl\<rparr> \<in> set zones)) \<and>
    (\<forall>z\<in>set zones. \<exists>rs. zf_text z = render_zone (zf_zone z) rs serial ttl \<and>
       set rs \<subseteq> {r \<in> set (dns_records db). ld_enabled r \<and> home_zone dm r = zf_zone z}) \<and>
    30 \<le> ttl \<and> ttl \<le> 86400"
proof -
  obtain dm ttl where ttl: "30 \<le> ttl" "ttl \<le> 86400"
    and mem: "\<And>z x. \<lparr>zf_zone = z, zf_text = x\<rparr> \<in> set zones \<longleftrightarrow>
       (\<exists>rs. x = render_zone z rs serial ttl \<and>
         (map_of (forward_groups dm (enabled_records (dns_records db))) z = Some rs \<or>
          map_of (reverse_groups (enabled_records (dns_records db))) z = Some rs))"
    using build_zone_files_cases [OF assms] by metis
  have set_en: "set (enabled_records (dns_records db)) = {r \<in> set (dns_records db). ld_enabled r}"
    by (auto simp: enabled_records_def)
  have pub: "\<exists>rs. r \<in> set rs \<and> \<lparr>zf_zone = home_zone dm r, zf_text = render_zone (home_zone dm r) rs serial ttl\<rparr> \<in> set zones"
    if "r \<in> set (dns_records db)" "ld_enabled r" for r
  proof -
    let ?rows = "enabled_records (dns_records db)"
    let ?mine = "filter (\<lambda>x. (ld_type x = TPTR) = (ld_type r = TPTR) \<and> home_zone dm x = home_zone dm r) ?rows"
    have r: "r \<in> set ?mine" using that by (simp add: set_en)
    then have "map_of (forward_groups dm ?rows) (home_zone dm r) = Some ?mine \<or>
        map_of (reverse_groups ?rows) (home_zone dm r) = Some ?mine"
      by (cases "ld_type r = TPTR")
         (auto simp: forward_groups_lookup reverse_groups_lookup [where dm = dm] Let_def filter_empty_conv)
    then show ?thesis using r mem by blast
  qed
  have only: "\<exists>rs. zf_text z = render_zone (zf_zone z) rs serial ttl \<and>
       set rs \<subseteq> {r \<in> set (dns_records db). ld_enabled r \<and> home_zone dm r = zf_zone z}" if "z \<in> set zones" for z
  proof -
    have "\<lparr>zf_zone = zf_zone z, zf_text = zf_text z\<rparr> = z" by (cases z) simp
    with that have "\<lparr>zf_zone = zf_zone z, zf_text = zf_text z\<rparr> \<in> set zones" by metis
    then obtain rs where "zf_text z = render_zone (zf_zone z) rs serial ttl"
      "map_of (forward_groups dm (enabled_records (dns_records db))) (zf_zone z) = Some rs \<or>
       map_of (reverse_groups (enabled_records (dns_records db))) (zf_zone z) = Some rs" using mem by blast
    then show ?thesis
      by (auto simp: forward_groups_lookup reverse_groups_lookup [where dm = dm] Let_def set_en split: if_splits)
  qed
  show ?thesis using pub only ttl by blast
qed

lemma example_zones: "\<exists>zones. build_zone_files plain_lib ''10.0.0.2'' 7 empty_local = Inr zones"
proof -
  have "(case build_zone_files plain_lib ''10.0.0.2'' 7 empty_local of Inr _ \<Rightarrow> True | Inl _ \<Rightarrow> False)" by code_simp
  then show ?thesis by (auto split: sum.splits)
qed

theorem enabled_records_published_witness:
  "\<exists>zones dm ttl. build_zone_files plain_lib ''10.0.0.2'' 7 empty_local = Inr zones \<and>
     (\<forall>z\<in>set zones. \<exists>rs. zf_text z = render_zone (zf_zone z) rs 7 ttl \<and>
       set rs \<subseteq> {r \<in> set (dns_records empty_local). ld_enabled r \<and> home_zone dm r = zf_zone z})"
  using example_zones enabled_records_published [of plain_lib "''10.0.0.2''" 7 empty_local] by blast

text \<open>
  zone serials strictly increase: the serial of a new deployment is larger than that of every
  successful deployment before it, and the table keeps this property, whatever the date and the
  outcome.
\<close>

theorem zone_serials_increase:
  assumes "deployments_ok (dns_deployments db)" "deploy_zones lib tools sip today db fs = (db', fs', r)"
  shows "deployments_ok (dns_deployments db') \<and>
    (\<forall>s\<in>set (deployed_serials (dns_deployments db)). s < dep_serial (last (dns_deployments db')))"
proof -
  from deploy_zones_row [OF assms(2)] have "dep_serial (last (dns_deployments db')) = next_serial today (dns_deployments db)"
    by force
  then show ?thesis
    using deploy_zones_deployments_ok [OF assms] next_serial_greater [OF assms(1)] by simp
qed

definition ok_tools :: bind_tools where
  "ok_tools = \<lparr>tool_checkzone = (\<lambda>_ _. True), tool_checkconf = (\<lambda>_. True), tool_reconfig = (\<lambda>_. True),
     tool_dig = (\<lambda>_ _ _. (0, []))\<rparr>"

definition empty_fs :: bind_fs where
  "empty_fs = \<lparr>fs_zone_dir = None, fs_zones_conf = None, fs_named_local = Some []\<rparr>"

theorem zone_serials_increase_witness:
  "deployments_ok (dns_deployments (fst (deploy_zones plain_lib ok_tools ''10.0.0.2'' 2026010100 empty_local empty_fs)))"
proof -
  have "deployments_ok (dns_deployments empty_local)"
    by (simp add: empty_local_def deployments_ok_def rowids_ok_def deployed_serials_def)
  then show ?thesis
    using zone_serials_increase [of empty_local plain_lib ok_tools "''10.0.0.2''" 2026010100 empty_fs] by (metis prod.collapse)
qed

text \<open>
  C28: a failed deployment of the local zones leaves the name server's files as they were: when the
  run reports an error, \<^verbatim>\<open>named.conf.local\<close> existed and no two zones share a name, the zone directory,
  the include file and \<^verbatim>\<open>named.conf.local\<close> are unchanged, whichever check failed.
\<close>

theorem failed_zone_deployment_restores_files:
  assumes "deploy_zones lib tools sip today db fs = (db', fs', Inl e)" "fs_named_local fs \<noteq> None"
    and "\<And>zones. build_zone_files lib sip (next_serial today (dns_deployments db)) (local_init_db sip db) = Inr zones
      \<Longrightarrow> distinct (map zf_zone zones)"
  shows "fs' = fs"
proof -
  obtain status rc msg where d: "deploy_files tools (dns_records db)
      (build_zone_files lib sip (next_serial today (dns_deployments db)) (local_init_db sip db)) fs = (fs', status, rc, msg)"
    and r: "Inl e = (if status = Deployed then Inr (next_rowid dep_id (dns_deployments db)) else Inl msg)"
    using deploy_zones_row [OF assms(1)] by metis
  from r have "status \<noteq> Deployed" by (auto split: if_splits)
  from deploy_files_restores [OF d this assms(2,3)] show ?thesis .
qed

theorem failed_zone_deployment_restores_files_witness:
  "\<exists>db' e. deploy_zones plain_lib (ok_tools\<lparr>tool_checkzone := \<lambda>_ _. False\<rparr>) ''10.0.0.2'' 7 empty_local empty_fs = (db', empty_fs, Inl e)"
proof -
  let ?d = "deploy_zones plain_lib (ok_tools\<lparr>tool_checkzone := \<lambda>_ _. False\<rparr>) ''10.0.0.2'' 7 empty_local empty_fs"
  have "(case snd (snd ?d) of Inl _ \<Rightarrow> True | Inr _ \<Rightarrow> False)" by code_simp
  then obtain db' fs' e where d: "?d = (db', fs', Inl e)" by (cases ?d) (auto split: sum.splits)
  have "(case build_zone_files plain_lib ''10.0.0.2'' (next_serial 7 (dns_deployments empty_local)) (local_init_db ''10.0.0.2'' empty_local) of
      Inr zones \<Rightarrow> distinct (map zf_zone zones) | Inl _ \<Rightarrow> True)" by code_simp
  then have "fs' = empty_fs"
    by (intro failed_zone_deployment_restores_files [OF d]) (auto simp: empty_fs_def)
  with d show ?thesis by blast
qed

text \<open>
  a client is shown under the most specific alias: when every stored alias is a network, the
  scan returns a matching alias of maximal prefix length, and none only when no alias matches.
\<close>

theorem alias_longest_prefix:
  assumes "\<forall>r\<in>set rows. ip_network (al_cidr r) \<noteq> None"
  shows "\<exists>best. best_alias i rows None = Inr best \<and> alias_result i (alias_nets rows) None best"
  by (rule best_alias_longest [OF assms])

theorem alias_longest_prefix_witness:
  "\<exists>best. best_alias (V4 5) [\<lparr>al_id = 1, al_cidr = ''10.0.0.0/8'', al_display_name = ''lan'', al_description = [], al_created_at = [],
       al_updated_at = []\<rparr>] None = Inr best \<and>
     alias_result (V4 5) (alias_nets [\<lparr>al_id = 1, al_cidr = ''10.0.0.0/8'', al_display_name = ''lan'', al_description = [], al_created_at = [],
       al_updated_at = []\<rparr>]) None best"
  by (rule alias_longest_prefix)
     (simp add: ip_network_def parse_net4_def parse_v4_def parse_octet_def parse_mask4_def parse_prefix_def
       digits_val_def is_ascii_digit_def)

text \<open>
  the owner and zone of a reverse record: for every IPv4 address they join to the address's
  reverse-pointer name, and the zone is the one the zone builder files that name under.
\<close>

theorem reverse_record_names_v4:
  assumes "n < 2 ^ 32"
  shows "\<exists>owner zone. ptr_owner_for_ip (str_ip (V4 n)) = Inr (owner, zone) \<and>
    Some (owner @ ''.'' @ zone) = reverse_pointer (V4 n) \<and> ptr_zone (owner @ ''.'' @ zone) = zone"
  by (rule ptr_owner_v4 [OF assms])

theorem reverse_record_names_v4_witness:
  "\<exists>owner zone. ptr_owner_for_ip (str_ip (V4 3232235777)) = Inr (owner, zone) \<and>
    Some (owner @ ''.'' @ zone) = reverse_pointer (V4 3232235777) \<and> ptr_zone (owner @ ''.'' @ zone) = zone"
  by (rule reverse_record_names_v4) simp

end
