(* ===== verification/Dns_Cache.thy ===== *)
theory Dns_Cache
  imports Local_Dns
begin

text \<open>
  The tuning of the recursive cache (\<^verbatim>\<open>app/dns_cache.py\<close>): the settings table with its validation, the
  generated options file of the name server, its deployment with backup and rollback, and the queue of
  cache flushes.  \<^verbatim>\<open>/proc/meminfo\<close>, \<^verbatim>\<open>named-checkconf\<close>, \<^verbatim>\<open>rndc\<close>, \<^verbatim>\<open>dig\<close> and the redaction of log
  texts (\<open>sanitize\<close>) are arguments; plain file operations succeed.  Shown: accepted settings are in
  range and render to the options they stand for, a failed deployment restores the options file, and
  the flush queue is emptied by one run.
\<close>

section \<open>Settings\<close>

text \<open>\<^verbatim>\<open>line.split()[1]\<close> of a line with one word is an uncaught \<^verbatim>\<open>IndexError\<close>.\<close>

definition detect_total_memory_mb :: "string option \<Rightarrow> int result" where
  "detect_total_memory_mb meminfo =
     (case meminfo of
        None \<Rightarrow> Inr 2048
      | Some content \<Rightarrow>
          (case List.find (\<lambda>line. startswith line ''MemTotal:'') (splitlines content) of
             None \<Rightarrow> Inr 2048
           | Some line \<Rightarrow>
               (case split_ws line of
                  _ # word # _ \<Rightarrow>
                    (case int_of_str word of Some kb \<Rightarrow> Inr (max 1 (kb div 1024)) | None \<Rightarrow> Inr 2048)
                | _ \<Rightarrow> Inl ''list index out of range'')))"

definition detect_default_cache_size_mb :: "int \<Rightarrow> int" where
  "detect_default_cache_size_mb total_mb = max 64 (min 512 (total_mb div 8))"

type_synonym cache_settings = "(string \<times> string) list"

definition cache_defaults :: "int \<Rightarrow> cache_settings" where
  "cache_defaults total_mb =
     [(''max_cache_size_mb'', str_int (detect_default_cache_size_mb total_mb)),
      (''min_cache_ttl'', ''0''), (''max_cache_ttl'', ''604800''),
      (''min_ncache_ttl'', ''0''), (''max_ncache_ttl'', ''10800''),
      (''prefetch_enabled'', ''0''), (''prefetch_trigger'', ''2''), (''prefetch_eligible'', ''10''),
      (''serve_stale_enabled'', ''0''), (''max_stale_ttl'', ''86400''),
      (''stale_answer_client_timeout'', ''off''), (''recursive_clients'', ''1000'')]"

record cache_deployment =
  cd_id :: nat
  cd_started_at :: string
  cd_finished_at :: "string option"
  cd_status :: deploy_status
  cd_message :: string
  cd_validation_output :: string

datatype flush_scope = FlushAll | FlushName | FlushTree

datatype flush_status = FlushPending | FlushCompleted | FlushFailed | FlushSkipped

record cache_flush =
  fl_id :: nat
  fl_requested_at :: string
  fl_finished_at :: "string option"
  fl_scope :: flush_scope
  fl_target :: "string option"
  fl_status :: flush_status
  fl_message :: string

record cache_db =
  cache_settings_table :: cache_settings
  cache_deployments :: "cache_deployment list"
  cache_flushes :: "cache_flush list"

interpretation cache_deployment_table: id_table cd_id "\<lambda>i r. r\<lparr>cd_id := i\<rparr>"
  by unfold_locales simp

interpretation cache_flush_table: id_table fl_id "\<lambda>i r. r\<lparr>fl_id := i\<rparr>"
  by unfold_locales simp

definition cache_init_db :: "int \<Rightarrow> cache_db \<Rightarrow> cache_db" where
  "cache_init_db total_mb db =
     db\<lparr>cache_settings_table :=
       fold (\<lambda>(k, v) d. dict_setdefault k v d) (cache_defaults total_mb) (cache_settings_table db)\<rparr>"

definition cache_settings_of :: "int \<Rightarrow> cache_db \<Rightarrow> cache_db \<times> cache_settings" where
  "cache_settings_of total_mb db = (let db = cache_init_db total_mb db in (db, cache_settings_table db))"

text \<open>\<^verbatim>\<open>str(value)\<close> of a form value.\<close>

fun py_str :: "pyval \<Rightarrow> string" where
  "py_str (PyInt i) = str_int i"
| "py_str (PyStr s) = s"
| "py_str (PyBool b) = (if b then ''True'' else ''False'')"
| "py_str PyNone = ''None''"

definition validate_int :: "string \<Rightarrow> pyval \<Rightarrow> int \<Rightarrow> int \<Rightarrow> int result" where
  "validate_int name value min_v max_v =
     (case py_int value of
        None \<Rightarrow> Inl (name @ '' must be an integer'')
      | Some parsed \<Rightarrow>
          if min_v \<le> parsed \<and> parsed \<le> max_v then Inr parsed
          else Inl (name @ '' must be between '' @ str_int min_v @ '' and '' @ str_int max_v))"

definition then_ok :: "'a result \<Rightarrow> ('a \<Rightarrow> 'b result) \<Rightarrow> 'b result" where
  "then_ok r f = (case r of Inl e \<Rightarrow> Inl e | Inr x \<Rightarrow> f x)"

definition truthy :: "pyval \<Rightarrow> bool" where
  "truthy v = (py_str v \<in> {''1'', ''true'', ''on'', ''yes''})"

definition validate_stale_timeout :: "pyval \<Rightarrow> string result" where
  "validate_stale_timeout v =
     (let timeout_raw = py_lower (py_strip (py_str v)) in
      if timeout_raw \<in> {''off'', []} then Inr ''off''
      else then_ok (validate_int ''stale_answer_client_timeout'' (PyStr timeout_raw) 0 60000) (\<lambda>t. Inr (str_int t)))"

definition max_size_ceiling :: "int \<Rightarrow> int" where
  "max_size_ceiling total_mb = max 64 ((total_mb * 3) div 4)"

definition cache_validate_settings :: "int \<Rightarrow> (string \<times> pyval) list \<Rightarrow> cache_settings result" where
  "cache_validate_settings total_mb values =
     then_ok (validate_int ''max_cache_size_mb'' (dict_get values ''max_cache_size_mb'' PyNone) 16 (max_size_ceiling total_mb)) (\<lambda>size.
     then_ok (validate_int ''min_cache_ttl'' (dict_get values ''min_cache_ttl'' PyNone) 0 86400) (\<lambda>min_ttl.
     then_ok (validate_int ''max_cache_ttl'' (dict_get values ''max_cache_ttl'' PyNone) 0 2592000) (\<lambda>max_ttl.
     if min_ttl > max_ttl then Inl ''min_cache_ttl must not exceed max_cache_ttl'' else
     then_ok (validate_int ''min_ncache_ttl'' (dict_get values ''min_ncache_ttl'' PyNone) 0 86400) (\<lambda>min_nttl.
     then_ok (validate_int ''max_ncache_ttl'' (dict_get values ''max_ncache_ttl'' PyNone) 0 604800) (\<lambda>max_nttl.
     if min_nttl > max_nttl then Inl ''min_ncache_ttl must not exceed max_ncache_ttl'' else
     then_ok (validate_int ''prefetch_trigger'' (dict_get values ''prefetch_trigger'' (PyInt 2)) 1 3600) (\<lambda>trigger.
     then_ok (validate_int ''prefetch_eligible'' (dict_get values ''prefetch_eligible'' (PyInt 10)) trigger 86400) (\<lambda>eligible.
     then_ok (validate_int ''max_stale_ttl'' (dict_get values ''max_stale_ttl'' (PyInt 86400)) 60 604800) (\<lambda>stale.
     then_ok (validate_stale_timeout (dict_get values ''stale_answer_client_timeout'' (PyStr ''off''))) (\<lambda>timeout.
     then_ok (validate_int ''recursive_clients'' (dict_get values ''recursive_clients'' (PyInt 1000)) 100 100000) (\<lambda>clients.
       Inr [(''max_cache_size_mb'', str_int size), (''min_cache_ttl'', str_int min_ttl), (''max_cache_ttl'', str_int max_ttl),
            (''min_ncache_ttl'', str_int min_nttl), (''max_ncache_ttl'', str_int max_nttl),
            (''prefetch_enabled'', if truthy (dict_get values ''prefetch_enabled'' (PyStr ''0'')) then ''1'' else ''0''),
            (''prefetch_trigger'', str_int trigger), (''prefetch_eligible'', str_int eligible),
            (''serve_stale_enabled'', if truthy (dict_get values ''serve_stale_enabled'' (PyStr ''0'')) then ''1'' else ''0''),
            (''max_stale_ttl'', str_int stale), (''stale_answer_client_timeout'', timeout),
            (''recursive_clients'', str_int clients)]))))))))))"

definition cache_update_settings :: "int \<Rightarrow> (string \<times> pyval) list \<Rightarrow> cache_db \<Rightarrow> cache_db result" where
  "cache_update_settings total_mb values db =
     then_ok (cache_validate_settings total_mb values) (\<lambda>validated.
       let db = cache_init_db total_mb db in
       Inr (db\<lparr>cache_settings_table := fold (\<lambda>(k, v) d. AList.update k v d) validated (cache_settings_table db)\<rparr>))"

section \<open>The options file\<close>

text \<open>\<^verbatim>\<open>int(cfg[key])\<close>.\<close>

definition cfg_int :: "cache_settings \<Rightarrow> string \<Rightarrow> int result" where
  "cfg_int cfg key =
     (case map_of cfg key of
        None \<Rightarrow> Inl key
      | Some v \<Rightarrow> (case int_of_str v of None \<Rightarrow> Inl ''invalid literal for int() with base 10'' | Some i \<Rightarrow> Inr i))"

definition prefetch_line :: "cache_settings \<Rightarrow> string result" where
  "prefetch_line cfg =
     (if map_of cfg ''prefetch_enabled'' = Some ''1'' then
        then_ok (cfg_int cfg ''prefetch_trigger'') (\<lambda>t. then_ok (cfg_int cfg ''prefetch_eligible'') (\<lambda>e.
          Inr (''prefetch '' @ str_int t @ '' '' @ str_int e @ '';'')))
      else Inr ''prefetch 0;'')"

definition stale_lines :: "cache_settings \<Rightarrow> string list result" where
  "stale_lines cfg =
     (if map_of cfg ''serve_stale_enabled'' = Some ''1'' then
        then_ok (cfg_int cfg ''max_stale_ttl'') (\<lambda>m.
          Inr [''stale-answer-enable yes;'', ''max-stale-ttl '' @ str_int m @ '';'',
               ''stale-answer-client-timeout '' @ dict_get cfg ''stale_answer_client_timeout'' ''off'' @ '';''])
      else Inr [''stale-answer-enable no;''])"

definition cache_header :: string where
  "cache_header = ''// Managed by Alderpoint DNS. Generated cache tuning options; do not edit by hand.''"

definition render_cache_options :: "cache_settings \<Rightarrow> string result" where
  "render_cache_options cfg =
     then_ok (cfg_int cfg ''max_cache_size_mb'') (\<lambda>size.
     then_ok (cfg_int cfg ''min_cache_ttl'') (\<lambda>min_ttl.
     then_ok (cfg_int cfg ''max_cache_ttl'') (\<lambda>max_ttl.
     then_ok (cfg_int cfg ''min_ncache_ttl'') (\<lambda>min_nttl.
     then_ok (cfg_int cfg ''max_ncache_ttl'') (\<lambda>max_nttl.
     then_ok (cfg_int (dict_setdefault ''recursive_clients'' ''1000'' cfg) ''recursive_clients'') (\<lambda>clients.
     then_ok (prefetch_line cfg) (\<lambda>prefetch.
     then_ok (stale_lines cfg) (\<lambda>stale.
       Inr (join [newline]
         ([cache_header,
           ''max-cache-size '' @ str_int size @ ''m;'', ''min-cache-ttl '' @ str_int min_ttl @ '';'',
           ''max-cache-ttl '' @ str_int max_ttl @ '';'', ''min-ncache-ttl '' @ str_int min_nttl @ '';'',
           ''max-ncache-ttl '' @ str_int max_nttl @ '';'', ''recursive-clients '' @ str_int clients @ '';'',
           prefetch] @ stale) @ [newline])))))))))"

section \<open>Deployment\<close>

record cache_fs =
  cf_options :: "string option"
  cf_named_options :: "string option"
  cf_backups :: "(string \<times> string) list"

text \<open>\<^verbatim>\<open>named-checkconf -p\<close> gives its output or the error raised, \<^verbatim>\<open>rndc reconfig\<close> succeeds or not,
  \<^verbatim>\<open>dig\<close> has an exit code and an output.\<close>

record cache_tools =
  ct_checkconf :: "cache_fs \<Rightarrow> string result"
  ct_reconfig :: "cache_fs \<Rightarrow> bool"
  ct_dig :: "cache_fs \<Rightarrow> string \<Rightarrow> int \<times> string"

definition CACHE_OPTIONS_CONF :: string where
  "CACHE_OPTIONS_CONF = ''/var/lib/alderpointdns/compiled/bind/cache-options.conf''"

text \<open>\<open>insert_after needle ins s\<close> puts \<open>ins\<close> behind the first occurrence of the needle.\<close>

fun insert_after :: "string \<Rightarrow> string \<Rightarrow> string \<Rightarrow> string" where
  "insert_after needle ins [] = []"
| "insert_after needle ins (c # s) =
     (if startswith (c # s) needle then needle @ ins @ drop (length needle) (c # s) else c # insert_after needle ins s)"

definition ensure_named_options_include :: "string \<Rightarrow> cache_fs \<Rightarrow> cache_fs \<times> bool result" where
  "ensure_named_options_include stamp fs =
     (let include_text = [CHR 0x09] @ ''include '' @ [CHR 0x22] @ CACHE_OPTIONS_CONF @ [CHR 0x22] @ '';'';
          current = (case cf_named_options fs of None \<Rightarrow> [] | Some s \<Rightarrow> s)
      in if contains current CACHE_OPTIONS_CONF then (fs, Inr False)
         else if \<not> contains current ''options {'' then (fs, Inl ''named.conf.options is missing an options block'')
         else
           (fs\<lparr>cf_backups := (case cf_named_options fs of
                 None \<Rightarrow> cf_backups fs
               | Some s \<Rightarrow> AList.update (''named.conf.options.pre-cache.'' @ stamp) s (cf_backups fs)),
               cf_named_options :=
                 Some (insert_after ''options {'' ([newline] @ include_text @ [newline]) current)\<rparr>, Inr True))"

definition cache_resolves :: "int \<times> string \<Rightarrow> bool" where
  "cache_resolves ans =
     (fst ans = 0 \<and> contains (snd ans) ''status: NOERROR'' \<and> contains (snd ans) [CHR 0x09, CHR ''A'', CHR 0x09])"

text \<open>From the moved file to the health check: the files, the output of the validation and the outcome.\<close>

definition activate_cache_options :: "cache_tools \<Rightarrow> string \<Rightarrow> cache_fs \<Rightarrow> cache_fs \<times> string \<times> unit result" where
  "activate_cache_options tools stamp fs =
     (case ensure_named_options_include stamp fs of
        (fs, Inl e) \<Rightarrow> (fs, [], Inl e)
      | (fs, Inr _) \<Rightarrow>
          (case ct_checkconf tools fs of
             Inl e \<Rightarrow> (fs, [], Inl e)
           | Inr out \<Rightarrow>
               if \<not> ct_reconfig tools fs then (fs, out, Inl ''rndc reconfig failed'')
               else if \<not> cache_resolves (ct_dig tools fs ''cloudflare.com'')
               then (fs, out, Inl ''post-deploy ordinary resolution failed after cache options reload'')
               else (fs, out, Inr ())))"

definition restore_cache_options :: "string \<Rightarrow> cache_fs \<Rightarrow> cache_fs" where
  "restore_cache_options backup fs =
     fs\<lparr>cf_options := map_of (cf_backups fs) backup\<rparr>"

definition install_cache_options :: "cache_tools \<Rightarrow> string \<Rightarrow> cache_settings \<Rightarrow> cache_fs \<Rightarrow>
    cache_fs \<times> deploy_status \<times> string \<times> string" where
  "install_cache_options tools stamp cfg fs =
     (case render_cache_options cfg of
        Inl e \<Rightarrow> (fs, Failed, e, [])
      | Inr content \<Rightarrow>
          let backup = ''cache-options.conf.last-good.'' @ stamp;
              fs = fs\<lparr>cf_backups := (case cf_options fs of
                          None \<Rightarrow> cf_backups fs | Some s \<Rightarrow> AList.update backup s (cf_backups fs))\<rparr>
          in case activate_cache_options tools stamp (fs\<lparr>cf_options := Some content\<rparr>) of
               (fs, out, Inr _) \<Rightarrow>
                 (fs, Deployed,
                  ''max-cache-size='' @ dict_get cfg ''max_cache_size_mb'' [] @ ''m prefetch='' @
                  dict_get cfg ''prefetch_enabled'' [] @ '' serve-stale='' @ dict_get cfg ''serve_stale_enabled'' [], out)
             | (fs, out, Inl e) \<Rightarrow> (restore_cache_options backup fs, RolledBack, e, out))"

text \<open>\<^verbatim>\<open>text[-4000:]\<close>.\<close>

definition last_chars :: "nat \<Rightarrow> string \<Rightarrow> string" where
  "last_chars n s = drop (length s - n) s"

definition deploy_cache_options ::
  "(string \<Rightarrow> string) \<Rightarrow> cache_tools \<Rightarrow> int \<Rightarrow> string \<Rightarrow> string \<Rightarrow> string \<Rightarrow> cache_db \<Rightarrow> cache_fs \<Rightarrow>
   cache_db \<times> cache_fs \<times> nat result" where
  "deploy_cache_options sanitize tools total_mb stamp started finished db0 fs =
     (let db = cache_init_db total_mb db0;
          rid = next_rowid cd_id (cache_deployments db);
          running = insert_row cd_id (\<lambda>i r. r\<lparr>cd_id := i\<rparr>)
            \<lparr>cd_id = 0, cd_started_at = started, cd_finished_at = None, cd_status = Running, cd_message = [],
             cd_validation_output = []\<rparr> (cache_deployments db)
      in case install_cache_options tools stamp (snd (cache_settings_of total_mb db)) fs of
           (fs', status, msg, out) \<Rightarrow>
             (db\<lparr>cache_deployments := update_where (\<lambda>r. cd_id r = rid)
                (\<lambda>r. r\<lparr>cd_finished_at := Some finished, cd_status := status, cd_message := sanitize msg,
                       cd_validation_output := last_chars 4000 (sanitize out)\<rparr>) running\<rparr>,
              fs', if status = Deployed then Inr rid else Inl msg))"

section \<open>Flushes\<close>

text \<open>\<^verbatim>\<open>repr(s)\<close> of a text without quotes, backslashes and unprintable characters.\<close>

definition py_repr :: "string \<Rightarrow> string" where
  "py_repr s = [CHR 0x27] @ s @ [CHR 0x27]"

definition read_scope :: "string \<Rightarrow> flush_scope option" where
  "read_scope s =
     (if s = ''all'' then Some FlushAll else if s = ''name'' then Some FlushName
      else if s = ''tree'' then Some FlushTree else None)"

text \<open>The target that is stored with a request; for the whole cache it is stored as given.\<close>

definition flush_target :: "flush_scope \<Rightarrow> string \<Rightarrow> string option \<Rightarrow> string option result" where
  "flush_target sc scope target =
     (if sc = FlushAll then Inr target
      else case target of
        None \<Rightarrow> Inl (''flush scope '' @ py_repr scope @ '' requires a target name'')
      | Some t \<Rightarrow>
          if py_strip t = [] then Inl (''flush scope '' @ py_repr scope @ '' requires a target name'')
          else let clean = py_lower (rstrip_dots (py_strip t)) in
            if list_all (\<lambda>part. part \<noteq> [] \<and> length part \<le> 63) (split_char dot clean) then Inr (Some clean)
            else Inl ''invalid target name'')"

definition request_flush :: "int \<Rightarrow> string \<Rightarrow> string \<Rightarrow> string option \<Rightarrow> cache_db \<Rightarrow> cache_db \<times> nat result" where
  "request_flush total_mb ts scope target db =
     (case read_scope scope of
        None \<Rightarrow> (db, Inl (''unknown flush scope '' @ py_repr scope))
      | Some sc \<Rightarrow>
          (case flush_target sc scope target of
             Inl e \<Rightarrow> (db, Inl e)
           | Inr tg \<Rightarrow>
               let db = cache_init_db total_mb db in
               (db\<lparr>cache_flushes := insert_row fl_id (\<lambda>i r. r\<lparr>fl_id := i\<rparr>)
                  \<lparr>fl_id = 0, fl_requested_at = ts, fl_finished_at = None, fl_scope = sc, fl_target = tg,
                   fl_status = FlushPending, fl_message = []\<rparr> (cache_flushes db)\<rparr>,
                Inr (next_rowid fl_id (cache_flushes db)))))"

text \<open>\<^verbatim>\<open>SELECT ... ORDER BY id DESC\<close>.\<close>

definition newest_first :: "('r \<Rightarrow> nat) \<Rightarrow> 'r list \<Rightarrow> 'r list" where
  "newest_first rid t = rev (sort_key rid t)"

definition flush_message :: "flush_scope \<Rightarrow> string option \<Rightarrow> string" where
  "flush_message sc target =
     (case sc of
        FlushAll \<Rightarrow> ''flushed entire cache''
      | FlushName \<Rightarrow> ''flushed name '' @ (case target of None \<Rightarrow> ''None'' | Some t \<Rightarrow> t)
      | FlushTree \<Rightarrow> ''flushed subtree '' @ (case target of None \<Rightarrow> ''None'' | Some t \<Rightarrow> t))"

definition process_pending_flush ::
  "(flush_scope \<Rightarrow> string option \<Rightarrow> unit result) \<Rightarrow> int \<Rightarrow> string \<Rightarrow> cache_db \<Rightarrow> cache_db \<times> nat option" where
  "process_pending_flush rndc total_mb ts db0 =
     (let db = cache_init_db total_mb db0 in
      case newest_first fl_id (filter (\<lambda>r. fl_status r = FlushPending) (cache_flushes db)) of
        [] \<Rightarrow> (db, None)
      | row # _ \<Rightarrow>
          let (status, msg) = (case rndc (fl_scope row) (fl_target row) of
                Inr _ \<Rightarrow> (FlushCompleted, flush_message (fl_scope row) (fl_target row))
              | Inl e \<Rightarrow> (FlushFailed, e));
              t1 = update_where (\<lambda>r. fl_id r = fl_id row)
                (\<lambda>r. r\<lparr>fl_status := status, fl_message := msg, fl_finished_at := Some ts\<rparr>) (cache_flushes db);
              t2 = update_where (\<lambda>r. fl_status r = FlushPending \<and> fl_id r \<noteq> fl_id row)
                (\<lambda>r. r\<lparr>fl_status := FlushSkipped, fl_finished_at := Some ts\<rparr>) t1
          in (db\<lparr>cache_flushes := t2\<rparr>, Some (fl_id row)))"

definition cache_last_deployment :: "int \<Rightarrow> cache_db \<Rightarrow> cache_deployment option" where
  "cache_last_deployment total_mb db =
     (case newest_first cd_id (cache_deployments (cache_init_db total_mb db)) of [] \<Rightarrow> None | r # _ \<Rightarrow> Some r)"

definition recent_flushes :: "int \<Rightarrow> nat \<Rightarrow> cache_db \<Rightarrow> cache_flush list" where
  "recent_flushes total_mb limit db = take limit (newest_first fl_id (cache_flushes (cache_init_db total_mb db)))"

section \<open>What the settings stand for\<close>

text \<open>The options as numbers: the specification of the generated file.\<close>

record cache_opts =
  opt_size :: int
  opt_min_ttl :: int
  opt_max_ttl :: int
  opt_min_nttl :: int
  opt_max_nttl :: int
  opt_clients :: int
  opt_prefetch :: "(int \<times> int) option"
  opt_stale :: "(int \<times> int option) option"

definition opts_in_range :: "int \<Rightarrow> cache_opts \<Rightarrow> bool" where
  "opts_in_range total_mb p \<longleftrightarrow>
     16 \<le> opt_size p \<and> opt_size p \<le> max 64 (3 * total_mb div 4) \<and>
     0 \<le> opt_min_ttl p \<and> opt_min_ttl p \<le> opt_max_ttl p \<and> opt_min_ttl p \<le> 86400 \<and> opt_max_ttl p \<le> 2592000 \<and>
     0 \<le> opt_min_nttl p \<and> opt_min_nttl p \<le> opt_max_nttl p \<and> opt_min_nttl p \<le> 86400 \<and> opt_max_nttl p \<le> 604800 \<and>
     100 \<le> opt_clients p \<and> opt_clients p \<le> 100000 \<and>
     (case opt_prefetch p of None \<Rightarrow> True | Some (t, e) \<Rightarrow> 1 \<le> t \<and> t \<le> 3600 \<and> t \<le> e \<and> e \<le> 86400) \<and>
     (case opt_stale p of None \<Rightarrow> True
      | Some (m, w) \<Rightarrow> 60 \<le> m \<and> m \<le> 604800 \<and> (case w of None \<Rightarrow> True | Some n \<Rightarrow> 0 \<le> n \<and> n \<le> 60000))"

definition opts_text :: "cache_opts \<Rightarrow> string" where
  "opts_text p = concat (map (\<lambda>l. l @ [newline])
     ([cache_header, ''max-cache-size '' @ str_int (opt_size p) @ ''m;'',
       ''min-cache-ttl '' @ str_int (opt_min_ttl p) @ '';'', ''max-cache-ttl '' @ str_int (opt_max_ttl p) @ '';'',
       ''min-ncache-ttl '' @ str_int (opt_min_nttl p) @ '';'', ''max-ncache-ttl '' @ str_int (opt_max_nttl p) @ '';'',
       ''recursive-clients '' @ str_int (opt_clients p) @ '';'',
       (case opt_prefetch p of None \<Rightarrow> ''prefetch 0;''
        | Some (t, e) \<Rightarrow> ''prefetch '' @ str_int t @ '' '' @ str_int e @ '';'')] @
      (case opt_stale p of None \<Rightarrow> [''stale-answer-enable no;'']
       | Some (m, w) \<Rightarrow> [''stale-answer-enable yes;'', ''max-stale-ttl '' @ str_int m @ '';'',
           ''stale-answer-client-timeout '' @ (case w of None \<Rightarrow> ''off'' | Some n \<Rightarrow> str_int n) @ '';''])))"

lemma then_ok_Inr [simp]: "then_ok (Inr x) f = f x"
  by (simp add: then_ok_def)

lemma then_ok_eq_Inr: "then_ok r f = Inr y \<longleftrightarrow> (\<exists>x. r = Inr x \<and> f x = Inr y)"
  by (cases r) (simp_all add: then_ok_def)

lemma validate_int_Inr: "validate_int n v lo hi = Inr i \<Longrightarrow> lo \<le> i \<and> i \<le> hi"
  by (auto simp: validate_int_def split: option.splits if_splits)

lemma int_digits_all: "list_all is_ascii_digit s \<Longrightarrow> int_digits True s = Some s"
  by (induction s) auto

lemma int_digits_str_nat: "int_digits b (str_nat n) = Some (str_nat n)"
proof -
  have "list_all is_ascii_digit (str_nat n)" "str_nat n \<noteq> []" by (simp_all add: str_nat_digits)
  then show ?thesis by (cases "str_nat n") (simp_all add: int_digits_all)
qed

lemma digit_not_space: "is_ascii_digit c \<Longrightarrow> \<not> py_isspace c \<and> c \<noteq> CHR ''-'' \<and> c \<noteq> CHR ''+''"
  by (auto simp: is_ascii_digit_def py_isspace_def Let_def)

lemma str_nat_strip: "py_strip (str_nat n) = str_nat n"
  using str_nat_digits [of n] digit_not_space by (intro strip_by_none) (auto simp: list_all_iff)

lemma int_of_str_nat: "int_of_str (str_nat n) = Some (int n)"
proof -
  obtain c t where ct: "str_nat n = c # t" by (cases "str_nat n") auto
  have "is_ascii_digit c" using str_nat_digits [of n] by (simp add: ct)
  then show ?thesis
    using int_digits_str_nat [of False n] str_nat_strip [of n] digits_val_str_nat [of n] digit_not_space [of c]
    by (simp add: int_of_str_def Let_def ct)
qed

lemma strip_neg: "py_strip (CHR ''-'' # str_nat k) = CHR ''-'' # str_nat k"
  using str_nat_digits [of k] digit_not_space by (intro strip_by_none) (auto simp: list_all_iff py_isspace_def)

lemma int_of_str_int [simp]: "int_of_str (str_int i) = Some i"
  using int_of_str_nat [of "nat i"] int_digits_str_nat [of False "nat (- i)"] strip_neg [of "nat (- i)"]
  by (auto simp: str_int_def int_of_str_def Let_def)

lemma map_of_fold_update:
  "map_of (fold (\<lambda>(k, v) d. AList.update k v d) kvs d) = map_of d ++ map_of (rev kvs)"
  by (induction kvs arbitrary: d) (auto simp: update_conv')

lemma map_of_fold_setdefault:
  "map_of d k = Some v \<Longrightarrow> map_of (fold (\<lambda>(k, v) d. dict_setdefault k v d) kvs d) k = Some v"
proof (induction kvs arbitrary: d)
  case (Cons p kvs)
  obtain a b where p: "p = (a, b)" by (cases p)
  have "map_of (dict_setdefault a b d) k = Some v"
    using Cons.prems by (auto simp: map_of_setdefault)
  from Cons.IH [OF this] show ?case by (simp add: p)
qed simp

lemma setdefault_present: "(\<forall>p\<in>set kvs. map_of d (fst p) \<noteq> None) \<Longrightarrow> fold (\<lambda>(k, v) d. dict_setdefault k v d) kvs d = d"
  by (induction kvs arbitrary: d) (auto simp: dict_setdefault_def)

lemma setdefault_adds: "p \<in> set kvs \<Longrightarrow> map_of (fold (\<lambda>(k, v) d. dict_setdefault k v d) kvs d) (fst p) \<noteq> None"
proof (induction kvs arbitrary: d)
  case (Cons q kvs)
  obtain a b where q: "q = (a, b)" by (cases q)
  obtain v where "map_of (dict_setdefault a b d) a = Some v"
    by (cases "map_of d a") (simp_all add: map_of_setdefault)
  then show ?case using Cons map_of_fold_setdefault [of "dict_setdefault a b d" a v kvs] by (auto simp: q)
qed simp

lemma cache_init_idem [simp]: "cache_init_db total_mb (cache_init_db total_mb db) = cache_init_db total_mb db"
  using setdefault_present [of "cache_defaults total_mb"] setdefault_adds [of _ "cache_defaults total_mb"]
  by (simp add: cache_init_db_def)

lemma cache_init_deployments [simp]: "cache_deployments (cache_init_db total_mb db) = cache_deployments db"
  by (simp add: cache_init_db_def)

lemma cache_init_flushes [simp]: "cache_flushes (cache_init_db total_mb db) = cache_flushes db"
  by (simp add: cache_init_db_def)

lemma join_lines: "xs \<noteq> [] \<Longrightarrow> join [newline] xs @ [newline] = concat (map (\<lambda>l. l @ [newline]) xs)"
proof (induction xs)
  case (Cons x xs) then show ?case by (cases xs) auto
qed simp

lemma validated_options:
  assumes "cache_validate_settings total_mb values = Inr kvs" and cfg: "\<And>k v. map_of kvs k = Some v \<Longrightarrow> map_of cfg k = Some v"
  shows "\<exists>p. opts_in_range total_mb p \<and> render_cache_options cfg = Inr (opts_text p)"
proof -
  from assms(1) obtain size a b c d t e m w n where
    range: "16 \<le> size" "size \<le> max_size_ceiling total_mb" "0 \<le> a" "a \<le> 86400" "b \<le> 2592000" "a \<le> b"
      "0 \<le> c" "c \<le> 86400" "d \<le> 604800" "c \<le> d" "1 \<le> t" "t \<le> 3600" "t \<le> e" "e \<le> 86400" "60 \<le> m" "m \<le> 604800"
      "100 \<le> n" "n \<le> 100000"
    and w: "validate_stale_timeout (dict_get values ''stale_answer_client_timeout'' (PyStr ''off'')) = Inr w"
    and kvs: "kvs = [(''max_cache_size_mb'', str_int size), (''min_cache_ttl'', str_int a), (''max_cache_ttl'', str_int b),
            (''min_ncache_ttl'', str_int c), (''max_ncache_ttl'', str_int d),
            (''prefetch_enabled'', if truthy (dict_get values ''prefetch_enabled'' (PyStr ''0'')) then ''1'' else ''0''),
            (''prefetch_trigger'', str_int t), (''prefetch_eligible'', str_int e),
            (''serve_stale_enabled'', if truthy (dict_get values ''serve_stale_enabled'' (PyStr ''0'')) then ''1'' else ''0''),
            (''max_stale_ttl'', str_int m), (''stale_answer_client_timeout'', w), (''recursive_clients'', str_int n)]"
    unfolding cache_validate_settings_def
    by (auto simp: then_ok_eq_Inr not_less split: if_splits dest!: validate_int_Inr)
  from w obtain x where x: "w = (case x of None \<Rightarrow> ''off'' | Some i \<Rightarrow> str_int i)"
      "case x of None \<Rightarrow> True | Some i \<Rightarrow> 0 \<le> i \<and> i \<le> 60000"
    by (auto simp: validate_stale_timeout_def Let_def then_ok_eq_Inr split: if_splits dest!: validate_int_Inr
        intro: that [of None] that [of "Some i" for i])
  let ?pf = "truthy (dict_get values ''prefetch_enabled'' (PyStr ''0''))"
  let ?st = "truthy (dict_get values ''serve_stale_enabled'' (PyStr ''0''))"
  let ?p = "\<lparr>opt_size = size, opt_min_ttl = a, opt_max_ttl = b, opt_min_nttl = c, opt_max_nttl = d, opt_clients = n,
     opt_prefetch = (if ?pf then Some (t, e) else None), opt_stale = (if ?st then Some (m, x) else None)\<rparr>"
  have vals: "map_of cfg ''max_cache_size_mb'' = Some (str_int size)" "map_of cfg ''min_cache_ttl'' = Some (str_int a)"
    "map_of cfg ''max_cache_ttl'' = Some (str_int b)" "map_of cfg ''min_ncache_ttl'' = Some (str_int c)"
    "map_of cfg ''max_ncache_ttl'' = Some (str_int d)" "map_of cfg ''prefetch_trigger'' = Some (str_int t)"
    "map_of cfg ''prefetch_eligible'' = Some (str_int e)" "map_of cfg ''max_stale_ttl'' = Some (str_int m)"
    "map_of cfg ''stale_answer_client_timeout'' = Some w" "map_of cfg ''recursive_clients'' = Some (str_int n)"
    "map_of cfg ''prefetch_enabled'' = Some (if ?pf then ''1'' else ''0'')"
    "map_of cfg ''serve_stale_enabled'' = Some (if ?st then ''1'' else ''0'')"
    by (rule cfg, simp add: kvs)+
  have "render_cache_options cfg = Inr (opts_text ?p)"
    by (simp add: render_cache_options_def opts_text_def cfg_int_def prefetch_line_def stale_lines_def vals
        dict_setdefault_def dict_get_def join_lines x(1))
  moreover have "opts_in_range total_mb ?p"
    using range x(2) by (auto simp: opts_in_range_def max_size_ceiling_def mult.commute)
  ultimately show ?thesis by blast
qed

lemma updated_settings_lookup:
  assumes "cache_update_settings total_mb values db = Inr db'"
  shows "\<exists>kvs. cache_validate_settings total_mb values = Inr kvs \<and>
    (\<forall>k v. map_of kvs k = Some v \<longrightarrow> map_of (snd (cache_settings_of total_mb db')) k = Some v)"
proof -
  from assms obtain kvs where kvs: "cache_validate_settings total_mb values = Inr kvs"
    and db': "cache_settings_table db' =
      fold (\<lambda>(k, v) d. AList.update k v d) kvs (cache_settings_table (cache_init_db total_mb db))"
    by (auto simp: cache_update_settings_def then_ok_eq_Inr Let_def)
  have "distinct (map fst kvs)" using kvs
    by (auto simp: cache_validate_settings_def then_ok_eq_Inr split: if_splits)
  then have "map_of kvs k = Some v \<Longrightarrow> map_of (cache_settings_table db') k = Some v" for k v
    using map_of_inject_set [of "rev kvs" kvs] by (simp add: db' map_of_fold_update map_add_Some_iff rev_map [symmetric])
  then show ?thesis using kvs
    by (auto simp: cache_settings_of_def cache_init_db_def Let_def intro!: map_of_fold_setdefault)
qed

section \<open>Deployment\<close>

lemma include_keeps_options:
  "ensure_named_options_include stamp fs = (fs', r) \<Longrightarrow> cf_options fs' = cf_options fs \<and>
     (\<forall>s. map_of (cf_backups fs') (''cache-options.conf.last-good.'' @ s) =
          map_of (cf_backups fs) (''cache-options.conf.last-good.'' @ s))"
  by (auto simp: ensure_named_options_include_def Let_def update_conv' split: if_splits option.splits)

lemma activate_keeps_options:
  "activate_cache_options tools stamp fs = (fs', out, r) \<Longrightarrow> cf_options fs' = cf_options fs \<and>
     (\<forall>s. map_of (cf_backups fs') (''cache-options.conf.last-good.'' @ s) =
          map_of (cf_backups fs) (''cache-options.conf.last-good.'' @ s))"
  using include_keeps_options [of stamp fs]
  by (auto simp: activate_cache_options_def split: prod.splits sum.splits if_splits)

lemma install_restores:
  assumes "install_cache_options tools stamp cfg fs = (fs', status, msg, out)"
    and "cf_options fs \<noteq> None \<or> map_of (cf_backups fs) (''cache-options.conf.last-good.'' @ stamp) = None"
  shows "(status = Deployed \<longrightarrow> (\<exists>content. render_cache_options cfg = Inr content \<and> cf_options fs' = Some content)) \<and>
    (status \<noteq> Deployed \<longrightarrow> cf_options fs' = cf_options fs) \<and> status \<in> {Deployed, Failed, RolledBack}"
  using assms
  by (auto simp: install_cache_options_def restore_cache_options_def Let_def update_conv' split: sum.splits prod.splits
      option.splits dest!: activate_keeps_options)

lemma cache_deployment_cases:
  assumes "deploy_cache_options sanitize tools total_mb stamp started finished db fs = (db', fs', r)"
    and "cf_options fs \<noteq> None \<or> map_of (cf_backups fs) (''cache-options.conf.last-good.'' @ stamp) = None"
  shows "(case r of
      Inl _ \<Rightarrow> cf_options fs' = cf_options fs
    | Inr rid \<Rightarrow> \<exists>content. render_cache_options (snd (cache_settings_of total_mb db)) = Inr content \<and>
        cf_options fs' = Some content) \<and>
    (\<exists>row. row_by_id cd_id (next_rowid cd_id (cache_deployments db)) (cache_deployments db') = Some row \<and>
       (cd_status row = Deployed \<longleftrightarrow> \<not> isl r) \<and> cd_status row \<noteq> Running \<and> cd_finished_at row = Some finished)"
proof -
  obtain f1 status msg out where
    inst: "install_cache_options tools stamp (snd (cache_settings_of total_mb db)) fs = (f1, status, msg, out)"
    by (cases "install_cache_options tools stamp (snd (cache_settings_of total_mb db)) fs") auto
  have res: "fs' = f1" "r = (if status = Deployed then Inr (next_rowid cd_id (cache_deployments db)) else Inl msg)"
    and row: "\<exists>row. row_by_id cd_id (next_rowid cd_id (cache_deployments db)) (cache_deployments db') = Some row \<and>
       cd_status row = status \<and> cd_finished_at row = Some finished"
    using assms(1) inst
    by (auto simp: deploy_cache_options_def cache_settings_of_def Let_def cache_init_idem
        cache_deployment_table.lookup_updated cache_deployment_table.lookup_inserted)
  from install_restores [OF inst assms(2)] res row show ?thesis by (auto split: if_splits)
qed

lemma cache_failure_restores:
  assumes "deploy_cache_options sanitize tools total_mb stamp started finished db fs = (db', fs', r)"
    and "cf_options fs \<noteq> None \<or> map_of (cf_backups fs) (''cache-options.conf.last-good.'' @ stamp) = None"
  shows "isl r \<Longrightarrow> cf_options fs' = cf_options fs"
  using cache_deployment_cases [OF assms] by (cases r) auto

section \<open>The flush queue\<close>

lemma newest_first_hd:
  assumes "newest_first rid t = r # rs"
  shows "r \<in> set t \<and> (\<forall>r'\<in>set t. rid r' \<le> rid r)"
proof -
  have s: "sort_key rid t = rev rs @ [r]" using assms by (metis newest_first_def rev.simps(2) rev_rev_ident)
  have "sorted (map rid (rev rs @ [r]))" using sorted_sort_key [of rid t] by (simp only: s)
  moreover have "set (rev rs @ [r]) = set t" by (simp only: s [symmetric] set_sort)
  ultimately show ?thesis by (auto simp: sorted_append)
qed

lemma newest_first_Nil: "newest_first rid t = [] \<longleftrightarrow> t = []"
  by (metis newest_first_def rev_is_Nil_conv set_empty set_sort)

lemma settled_flushes:
  "status \<noteq> FlushPending \<Longrightarrow> list_all (\<lambda>r. fl_status r \<noteq> FlushPending)
     (update_where (\<lambda>r. fl_status r = FlushPending \<and> fl_id r \<noteq> i) (\<lambda>r. r\<lparr>fl_status := FlushSkipped, fl_finished_at := fin\<rparr>)
       (update_where (\<lambda>r. fl_id r = i) (\<lambda>r. r\<lparr>fl_status := status, fl_message := msg, fl_finished_at := fin\<rparr>) t))"
  by (induction t) (auto simp: update_where_def)

lemma update_where_ids: "(\<And>r. rid (f r) = rid r) \<Longrightarrow> map rid (update_where p f t) = map rid t"
  by (simp add: update_where_def)

section \<open>Properties\<close>

text \<open>
  saved settings are what the name server is configured with: after an accepted update the
  generated options file is the text of options that are within the documented ranges (cache size up to
  three quarters of the memory, minimum TTLs not above the maximum ones), so rendering cannot fail.
\<close>

theorem saved_cache_options_rendered:
  assumes "cache_update_settings total_mb values db = Inr db'"
  shows "\<exists>p. opts_in_range total_mb p \<and>
    render_cache_options (snd (cache_settings_of total_mb db')) = Inr (opts_text p)"
  using updated_settings_lookup [OF assms] validated_options by metis

theorem saved_cache_options_rendered_witness:
  "case cache_update_settings 2048
      [(''max_cache_size_mb'', PyStr ''64''), (''min_cache_ttl'', PyInt 0), (''max_cache_ttl'', PyStr ''60''),
       (''min_ncache_ttl'', PyInt 0), (''max_ncache_ttl'', PyInt 9), (''max_stale_ttl'', PyInt 60),
       (''prefetch_enabled'', PyStr ''on''), (''recursive_clients'', PyInt 100)]
      \<lparr>cache_settings_table = [], cache_deployments = [], cache_flushes = []\<rparr> of
     Inl _ \<Rightarrow> False
   | Inr db' \<Rightarrow> \<exists>p. opts_in_range 2048 p \<and> render_cache_options (snd (cache_settings_of 2048 db')) = Inr (opts_text p)"
  (is "case ?u of Inl _ \<Rightarrow> False | Inr db' \<Rightarrow> ?Q db'")
proof -
  have "\<not> isl ?u" by code_simp
  then obtain db' where "?u = Inr db'" by (cases ?u) auto
  with saved_cache_options_rendered [OF this] show ?thesis by simp
qed

text \<open>
  a deployment of the cache options either installs the rendered text, or raises and leaves the
  options file as it was, provided a file was there or no backup carries the time stamp of this run; the
  row of the run says which.
\<close>

theorem cache_deployment_all_or_nothing:
  assumes "deploy_cache_options sanitize tools total_mb stamp started finished db fs = (db', fs', r)"
    and "cf_options fs \<noteq> None \<or> map_of (cf_backups fs) (''cache-options.conf.last-good.'' @ stamp) = None"
  shows "(case r of
      Inl _ \<Rightarrow> cf_options fs' = cf_options fs
    | Inr rid \<Rightarrow> \<exists>content. render_cache_options (snd (cache_settings_of total_mb db)) = Inr content \<and>
        cf_options fs' = Some content) \<and>
    (\<exists>row. row_by_id cd_id (next_rowid cd_id (cache_deployments db)) (cache_deployments db') = Some row \<and>
       (cd_status row = Deployed \<longleftrightarrow> \<not> isl r) \<and> cd_status row \<noteq> Running \<and> cd_finished_at row = Some finished)"
  using cache_deployment_cases [OF assms] .

theorem cache_deployment_all_or_nothing_witness:
  "case deploy_cache_options id
      \<lparr>ct_checkconf = (\<lambda>_. Inr []), ct_reconfig = (\<lambda>_. True), ct_dig = (\<lambda>_ _. (0, ''status: SERVFAIL''))\<rparr> 2048 ''1''
      ''t0'' ''t1'' \<lparr>cache_settings_table = [], cache_deployments = [], cache_flushes = []\<rparr>
      \<lparr>cf_options = Some ''old'', cf_named_options = Some ''options { };'', cf_backups = []\<rparr> of (db', fs', r) \<Rightarrow>
     (case r of Inl _ \<Rightarrow> cf_options fs' = Some ''old''
      | Inr rid \<Rightarrow> \<exists>content. render_cache_options (snd (cache_settings_of 2048
          \<lparr>cache_settings_table = [], cache_deployments = [], cache_flushes = []\<rparr>)) = Inr content \<and> cf_options fs' = Some content)"
  (is "case ?d of (db', fs', r) \<Rightarrow> ?Q db' fs' r")
proof -
  obtain db' fs' r where d: "?d = (db', fs', r)" by (cases ?d) auto
  from cache_deployment_all_or_nothing [OF d] have "?Q db' fs' r" by (cases r) simp_all
  then show ?thesis by (simp only: d prod.case)
qed

text \<open>
  one run empties the flush queue: afterwards no request is pending and no row is lost; the run
  reports the newest pending request, or nothing when none was pending.
\<close>

theorem flush_queue_emptied:
  "case process_pending_flush rndc total_mb ts db of (db', handled) \<Rightarrow>
     list_all (\<lambda>r. fl_status r \<noteq> FlushPending) (cache_flushes db') \<and>
     map fl_id (cache_flushes db') = map fl_id (cache_flushes db) \<and>
     (let pending = filter (\<lambda>r. fl_status r = FlushPending) (cache_flushes db) in
      case handled of
        None \<Rightarrow> pending = [] \<and> cache_flushes db' = cache_flushes db
      | Some i \<Rightarrow> pending \<noteq> [] \<and> i = Max (fl_id ` set pending))"
proof (cases "newest_first fl_id (filter (\<lambda>r. fl_status r = FlushPending) (cache_flushes db))")
  case Nil
  then have "filter (\<lambda>r. fl_status r = FlushPending) (cache_flushes db) = []" by (simp add: newest_first_Nil)
  with Nil show ?thesis
    by (simp add: process_pending_flush_def Let_def filter_empty_conv list_all_iff)
next
  case (Cons row rest)
  let ?pending = "filter (\<lambda>r. fl_status r = FlushPending) (cache_flushes db)"
  have row: "row \<in> set ?pending" "\<forall>r\<in>set ?pending. fl_id r \<le> fl_id row"
    using newest_first_hd [OF Cons] by auto
  then have "fl_id row = Max (fl_id ` set ?pending)"
    by (intro Max_eqI [symmetric]) auto
  then show ?thesis using row(1) Cons
    by (simp add: process_pending_flush_def Let_def update_where_ids settled_flushes filter_empty_conv split: sum.split) blast
qed

end
