(* ===== verification/Rule_Store.thy ===== *)
theory Rule_Store
  imports Rule_Parser
begin

text \<open>
  The custom-rule table of \<^verbatim>\<open>app/custom_rules.py\<close> (sections "CRUD and queries" and the schema part):
  \<^verbatim>\<open>custom_filter_rules\<close> rows extend a parsed rule; \<^verbatim>\<open>custom_rules\<close> is the legacy table that
  \<open>migrate_legacy_rules\<close> copies from once.  Every operation takes the clock reading \<open>ts\<close> that \<^verbatim>\<open>now()\<close>
  returns during it.  An operation that raises leaves the database as it was (the connection closes
  without commit).  Shown: the table invariant \<open>store_ok\<close> is kept by every operation, so it holds in
  every reachable state; adding the same text again changes nothing; the counters add up; a rule that
  is not valid is never enabled.
\<close>

section \<open>Tables\<close>

record rule_row = parsed_rule +
  row_id :: nat
  enabled :: bool
  source_system :: string
  import_job_id :: "nat option"
  created_at :: string
  updated_at :: string

record legacy_row =
  lr_id :: nat
  lr_domain :: string
  lr_action :: rule_action
  lr_enabled :: bool
  lr_comment :: string
  lr_created_at :: string
  migrated_to_v2 :: bool

text \<open>\<open>legacy_rules\<close> is \<open>None\<close> when the legacy table does not exist.\<close>

record rules_db =
  filter_rules :: "rule_row list"
  legacy_rules :: "legacy_row list option"

interpretation rule_table: id_table row_id "\<lambda>i r. r\<lparr>row_id := i\<rparr>"
  by unfold_locales simp

definition find_duplicate :: "rule_row list \<Rightarrow> string \<Rightarrow> rule_action \<Rightarrow> rule_row option" where
  "find_duplicate rows n a = List.find (\<lambda>r. normalized r = n \<and> action r = a) rows"

section \<open>Schema initialisation and legacy migration\<close>

definition legacy_text :: "legacy_row \<Rightarrow> string" where
  "legacy_text row = (if lr_action row = Aallow then ''@@||'' else ''||'') @ lr_domain row @ ''^''"

definition legacy_to_row :: "string \<Rightarrow> legacy_row \<Rightarrow> rule_row" where
  "legacy_to_row ts row =
     \<lparr>rule_text = legacy_text row, normalized = legacy_text row,
      rule_type = (if lr_action row = Aallow then Rallow else Rblock), action = lr_action row,
      domain = Some (lr_domain row), match_subdomains = True, pattern = None, rewrite_address = None,
      address_family = None, qtype_restriction = None, priority = 0, validation_state = Valid,
      unsupported_reason = [], comment = lr_comment row, row_id = 0, enabled = lr_enabled row,
      source_system = ''legacy'', import_job_id = None, created_at = lr_created_at row, updated_at = ts\<rparr>"

definition insert_rule_row :: "rule_row \<Rightarrow> rule_row list \<Rightarrow> rule_row list" where
  "insert_rule_row r t = insert_row row_id (\<lambda>i r. r\<lparr>row_id := i\<rparr>) r t"

definition migrate_one :: "string \<Rightarrow> legacy_row \<Rightarrow> rule_row list \<Rightarrow> rule_row list" where
  "migrate_one ts row t =
     (case find_duplicate t (legacy_text row) (lr_action row) of
        None \<Rightarrow> insert_rule_row (legacy_to_row ts row) t
      | Some _ \<Rightarrow> t)"

fun migrate_rows :: "string \<Rightarrow> legacy_row list \<Rightarrow> rule_row list \<Rightarrow> rule_row list" where
  "migrate_rows ts [] t = t"
| "migrate_rows ts (row # rows) t = migrate_rows ts rows (migrate_one ts row t)"

definition migrate_legacy_rules :: "string \<Rightarrow> rules_db \<Rightarrow> rules_db" where
  "migrate_legacy_rules ts db =
     (case legacy_rules db of
        None \<Rightarrow> db
      | Some legacy \<Rightarrow>
          db\<lparr>filter_rules := migrate_rows ts (filter (\<lambda>r. \<not> migrated_to_v2 r) legacy) (filter_rules db),
             legacy_rules := Some (map (\<lambda>r. r\<lparr>migrated_to_v2 := True\<rparr>) legacy)\<rparr>)"

text \<open>\<^verbatim>\<open>init_db\<close>: the tables exist (\<^verbatim>\<open>CREATE TABLE IF NOT EXISTS\<close>) and the legacy rows are copied.\<close>

definition init_db :: "string \<Rightarrow> rules_db \<Rightarrow> rules_db" where
  "init_db ts db = migrate_legacy_rules ts db"

section \<open>Adding rules\<close>

datatype insert_status = Added | Duplicate

record insert_result =
  res_id :: nat
  res_status :: insert_status
  res_rule_text :: string
  res_rule_type :: rule_kind
  res_action :: rule_action
  res_validation_state :: vstate
  res_reason :: string

definition stored_enabled :: "parsed_rule \<Rightarrow> bool \<Rightarrow> bool" where
  "stored_enabled rule en =
     (if validation_state rule \<noteq> Valid then False
      else if rule_type rule = Rcomment then True
      else en)"

definition new_rule_row ::
  "string \<Rightarrow> parsed_rule \<Rightarrow> string \<Rightarrow> string \<Rightarrow> bool \<Rightarrow> nat option \<Rightarrow> rule_row" where
  "new_rule_row ts rule src cm en job =
     parsed_rule.extend (rule\<lparr>comment := (if comment rule \<noteq> [] then comment rule else cm)\<rparr>)
       \<lparr>row_id = 0, enabled = stored_enabled rule en, source_system = src, import_job_id = job,
        created_at = ts, updated_at = ts\<rparr>"

definition insert_rule ::
  "string \<Rightarrow> string \<Rightarrow> string \<Rightarrow> bool \<Rightarrow> nat option \<Rightarrow> parsed_rule \<Rightarrow> rule_row list \<Rightarrow>
   rule_row list \<times> insert_result" where
  "insert_rule ts src cm en job rule t =
     (let result = (\<lambda>i st. \<lparr>res_id = i, res_status = st, res_rule_text = rule_text rule,
            res_rule_type = rule_type rule, res_action = action rule,
            res_validation_state = validation_state rule, res_reason = unsupported_reason rule\<rparr>)
      in case find_duplicate t (normalized rule) (action rule) of
        Some existing \<Rightarrow> (t, result (row_id existing) Duplicate)
      | None \<Rightarrow>
          (insert_rule_row (new_rule_row ts rule src cm en job) t, result (next_rowid row_id t) Added))"

fun insert_rules ::
  "string \<Rightarrow> string \<Rightarrow> string \<Rightarrow> bool \<Rightarrow> nat option \<Rightarrow> parsed_rule list \<Rightarrow> rule_row list \<Rightarrow>
   rule_row list \<times> insert_result list" where
  "insert_rules ts src cm en job [] t = (t, [])"
| "insert_rules ts src cm en job (rule # rules) t =
     (case insert_rule ts src cm en job rule t of
        (t', res) \<Rightarrow>
          (case insert_rules ts src cm en job rules t' of (t'', ress) \<Rightarrow> (t'', res # ress)))"

definition add_rule ::
  "stdlib \<Rightarrow> string \<Rightarrow> string \<Rightarrow> string \<Rightarrow> string \<Rightarrow> bool \<Rightarrow> nat option \<Rightarrow> bool \<Rightarrow> rules_db \<Rightarrow>
   rules_db \<times> insert_result list" where
  "add_rule lib ts raw src cm en job plain db0 =
     (let db = init_db ts db0 in
      case insert_rules ts src cm en job (parse_rule lib raw plain) (filter_rules db) of
        (t, ress) \<Rightarrow> (db\<lparr>filter_rules := t\<rparr>, ress))"

record bulk_summary =
  sum_lines :: "(nat \<times> string \<times> insert_result list) list"
  added_active :: nat
  added_inactive :: nat
  duplicates :: nat
  invalids :: nat
  unsupporteds :: nat
  comments :: nat

definition empty_summary :: bulk_summary where
  "empty_summary = \<lparr>sum_lines = [], added_active = 0, added_inactive = 0, duplicates = 0,
     invalids = 0, unsupporteds = 0, comments = 0\<rparr>"

definition tally :: "bool \<Rightarrow> insert_result \<Rightarrow> bulk_summary \<Rightarrow> bulk_summary" where
  "tally en res s =
     (if res_status res = Duplicate then s\<lparr>duplicates := duplicates s + 1\<rparr>
      else if res_rule_type res = Rcomment then s\<lparr>comments := comments s + 1\<rparr>
      else if res_validation_state res = Invalid then s\<lparr>invalids := invalids s + 1\<rparr>
      else if res_validation_state res = Unsupported then s\<lparr>unsupporteds := unsupporteds s + 1\<rparr>
      else if en then s\<lparr>added_active := added_active s + 1\<rparr>
      else s\<lparr>added_inactive := added_inactive s + 1\<rparr>)"

fun bulk_lines ::
  "stdlib \<Rightarrow> string \<Rightarrow> string \<Rightarrow> string \<Rightarrow> bool \<Rightarrow> nat option \<Rightarrow> bool \<Rightarrow> nat \<Rightarrow> string list \<Rightarrow>
   rule_row list \<Rightarrow> bulk_summary \<Rightarrow> rule_row list \<times> bulk_summary" where
  "bulk_lines lib ts src cm en job plain n [] t s = (t, s)"
| "bulk_lines lib ts src cm en job plain n (line # lines) t s =
     (if py_strip line = [] then bulk_lines lib ts src cm en job plain (n + 1) lines t s
      else case insert_rules ts src cm en job (parse_rule lib line plain) t of
        (t', ress) \<Rightarrow>
          bulk_lines lib ts src cm en job plain (n + 1) lines t'
            (fold (tally en) ress (s\<lparr>sum_lines := sum_lines s @ [(n, py_strip line, ress)]\<rparr>)))"

definition add_rules_bulk ::
  "stdlib \<Rightarrow> string \<Rightarrow> string \<Rightarrow> string \<Rightarrow> string \<Rightarrow> bool \<Rightarrow> nat option \<Rightarrow> bool \<Rightarrow> rules_db \<Rightarrow>
   rules_db \<times> bulk_summary" where
  "add_rules_bulk lib ts raw src cm en job plain db0 =
     (let db = init_db ts db0 in
      case bulk_lines lib ts src cm en job plain 1 (splitlines raw) (filter_rules db) empty_summary of
        (t, s) \<Rightarrow> (db\<lparr>filter_rules := t\<rparr>, s))"

section \<open>Reading and changing rules\<close>

definition get_rule :: "string \<Rightarrow> nat \<Rightarrow> rules_db \<Rightarrow> rules_db \<times> rule_row option" where
  "get_rule ts i db0 = (let db = init_db ts db0 in (db, row_by_id row_id i (filter_rules db)))"

definition updated_row :: "string \<Rightarrow> parsed_rule \<Rightarrow> string \<Rightarrow> bool \<Rightarrow> rule_row \<Rightarrow> rule_row" where
  "updated_row ts rule cm en row =
     parsed_rule.extend (rule\<lparr>comment := (if cm \<noteq> [] then cm else comment rule)\<rparr>)
       \<lparr>row_id = row_id row, enabled = (if validation_state rule \<noteq> Valid then False else en),
        source_system = source_system row, import_job_id = import_job_id row,
        created_at = created_at row, updated_at = ts\<rparr>"

record update_result =
  upd_id :: nat
  upd_validation_state :: vstate
  upd_reason :: string
  upd_enabled :: bool

definition update_rule ::
  "stdlib \<Rightarrow> string \<Rightarrow> nat \<Rightarrow> string \<Rightarrow> string \<Rightarrow> bool \<Rightarrow> bool \<Rightarrow> rules_db \<Rightarrow>
   (rules_db \<times> update_result) result" where
  "update_rule lib ts i raw cm en plain db0 =
     (let db = init_db ts db0; t = filter_rules db in
      case row_by_id row_id i t of
        None \<Rightarrow> Inl ''rule not found''
      | Some row \<Rightarrow>
          (case parse_rule lib raw plain of
             [rule] \<Rightarrow>
               if rule_type rule \<noteq> Rcomment \<and> validation_state rule = Valid \<and>
                  (case find_duplicate t (normalized rule) (action rule) of
                     None \<Rightarrow> False | Some existing \<Rightarrow> row_id existing \<noteq> i)
               then Inl ''an identical rule already exists''
               else Inr (db\<lparr>filter_rules :=
                             update_where (\<lambda>r. row_id r = i) (updated_row ts rule cm en) t\<rparr>,
                         \<lparr>upd_id = i, upd_validation_state = validation_state rule,
                          upd_reason = unsupported_reason rule,
                          upd_enabled = (if validation_state rule \<noteq> Valid then False else en)\<rparr>)
           | _ \<Rightarrow> Inl ''an edit must contain exactly one rule''))"

definition show_state :: "vstate \<Rightarrow> string" where
  "show_state v = (case v of Valid \<Rightarrow> ''valid'' | Unsupported \<Rightarrow> ''unsupported'' | Invalid \<Rightarrow> ''invalid'')"

definition touch_enabled :: "string \<Rightarrow> bool \<Rightarrow> rule_row \<Rightarrow> rule_row" where
  "touch_enabled ts en r = r\<lparr>enabled := en, updated_at := ts\<rparr>"

definition set_enabled :: "string \<Rightarrow> nat \<Rightarrow> bool \<Rightarrow> rules_db \<Rightarrow> rules_db result" where
  "set_enabled ts i en db0 =
     (let db = init_db ts db0; t = filter_rules db in
      case row_by_id row_id i t of
        None \<Rightarrow> Inl ''rule not found''
      | Some row \<Rightarrow>
          if en \<and> validation_state row \<noteq> Valid
          then Inl (''this rule cannot be enabled ('' @ show_state (validation_state row) @ ''): '' @
                    (if unsupported_reason row \<noteq> [] then unsupported_reason row else ''no details''))
          else Inr (db\<lparr>filter_rules := update_where (\<lambda>r. row_id r = i) (touch_enabled ts en) t\<rparr>))"

definition toggle_rule :: "string \<Rightarrow> nat \<Rightarrow> rules_db \<Rightarrow> rules_db result" where
  "toggle_rule ts i db0 =
     (let db = init_db ts db0 in
      case row_by_id row_id i (filter_rules db) of
        None \<Rightarrow> Inl ''rule not found''
      | Some row \<Rightarrow> set_enabled ts i (\<not> enabled row) db)"

definition delete_rule :: "string \<Rightarrow> nat \<Rightarrow> rules_db \<Rightarrow> rules_db" where
  "delete_rule ts i db0 =
     (let db = init_db ts db0 in
      db\<lparr>filter_rules := delete_where (\<lambda>r. row_id r = i) (filter_rules db)\<rparr>)"

fun bulk_enable_rows ::
  "string \<Rightarrow> nat list \<Rightarrow> bool \<Rightarrow> rule_row list \<Rightarrow> nat \<Rightarrow> nat \<Rightarrow> rule_row list \<times> nat \<times> nat" where
  "bulk_enable_rows ts [] en t updated skipped = (t, updated, skipped)"
| "bulk_enable_rows ts (i # ids) en t updated skipped =
     (case row_by_id row_id i t of
        None \<Rightarrow> bulk_enable_rows ts ids en t updated (skipped + 1)
      | Some row \<Rightarrow>
          if en \<and> validation_state row \<noteq> Valid then bulk_enable_rows ts ids en t updated (skipped + 1)
          else bulk_enable_rows ts ids en (update_where (\<lambda>r. row_id r = i) (touch_enabled ts en) t)
                 (updated + 1) skipped)"

definition bulk_set_enabled :: "string \<Rightarrow> nat list \<Rightarrow> bool \<Rightarrow> rules_db \<Rightarrow> rules_db \<times> nat \<times> nat" where
  "bulk_set_enabled ts ids en db0 =
     (let db = init_db ts db0 in
      case bulk_enable_rows ts ids en (filter_rules db) 0 0 of
        (t, updated, skipped) \<Rightarrow> (db\<lparr>filter_rules := t\<rparr>, updated, skipped))"

fun bulk_delete_rows :: "nat list \<Rightarrow> rule_row list \<Rightarrow> nat \<Rightarrow> rule_row list \<times> nat" where
  "bulk_delete_rows [] t deleted = (t, deleted)"
| "bulk_delete_rows (i # ids) t deleted =
     (let t' = delete_where (\<lambda>r. row_id r = i) t
      in bulk_delete_rows ids t' (deleted + (length t - length t')))"

definition bulk_delete :: "string \<Rightarrow> nat list \<Rightarrow> rules_db \<Rightarrow> rules_db \<times> nat" where
  "bulk_delete ts ids db0 =
     (let db = init_db ts db0 in
      case bulk_delete_rows ids (filter_rules db) 0 of
        (t, deleted) \<Rightarrow> (db\<lparr>filter_rules := t\<rparr>, deleted))"

section \<open>Listing and counting\<close>

text \<open>SQLite's \<^verbatim>\<open>LIKE\<close>: \<^verbatim>\<open>%\<close> any text, \<^verbatim>\<open>_\<close> any character, ASCII letters without case.\<close>

definition ascii_fold :: "char \<Rightarrow> char" where
  "ascii_fold c = (if is_ascii_upper c then char_of ((of_char c :: nat) + 32) else c)"

fun like :: "string \<Rightarrow> string \<Rightarrow> bool" where
  "like [] s = (s = [])"
| "like (x # p) [] = (x = CHR ''%'' \<and> like p [])"
| "like (x # p) (c # s) =
     (if x = CHR ''%'' then like p (c # s) \<or> like (x # p) s
      else (x = CHR ''_'' \<or> ascii_fold x = ascii_fold c) \<and> like p s)"

definition like_opt :: "string \<Rightarrow> string option \<Rightarrow> bool" where
  "like_opt p v = (case v of None \<Rightarrow> False | Some s \<Rightarrow> like p s)"

datatype status_filter = AnyStatus | StatusEnabled | StatusDisabled | StatusUnsupported | StatusInvalid

definition row_listed :: "string \<Rightarrow> rule_kind option \<Rightarrow> status_filter \<Rightarrow> rule_row \<Rightarrow> bool" where
  "row_listed search kind status r =
     ((py_strip search = [] \<or>
       (let term = ''%'' @ py_strip search @ ''%'' in
        like term (rule_text r) \<or> like_opt term (domain r) \<or> like_opt term (pattern r) \<or>
        like term (comment r))) \<and>
      (case kind of None \<Rightarrow> True | Some k \<Rightarrow> rule_type r = k) \<and>
      (case status of
         AnyStatus \<Rightarrow> True
       | StatusEnabled \<Rightarrow> validation_state r = Valid \<and> enabled r
       | StatusDisabled \<Rightarrow> validation_state r = Valid \<and> \<not> enabled r
       | StatusUnsupported \<Rightarrow> validation_state r = Unsupported
       | StatusInvalid \<Rightarrow> validation_state r = Invalid))"

definition list_rules ::
  "string \<Rightarrow> string \<Rightarrow> rule_kind option \<Rightarrow> status_filter \<Rightarrow> rules_db \<Rightarrow> rules_db \<times> rule_row list" where
  "list_rules ts search kind status db0 =
     (let db = init_db ts db0 in (db, rev (filter (row_listed search kind status) (filter_rules db))))"

record rule_counters =
  c_total :: nat
  c_active :: nat
  c_disabled :: nat
  c_allow :: nat
  c_block :: nat
  c_rewrite :: nat
  c_regex :: nat
  c_comment :: nat
  c_unsupported :: nat
  c_invalid :: nat

definition zero_counters :: rule_counters where
  "zero_counters = \<lparr>c_total = 0, c_active = 0, c_disabled = 0, c_allow = 0, c_block = 0,
     c_rewrite = 0, c_regex = 0, c_comment = 0, c_unsupported = 0, c_invalid = 0\<rparr>"

text \<open>The source adds the size of each (type, state, enabled) group; adding one per row is the same sum.\<close>

definition count_row :: "rule_row \<Rightarrow> rule_counters \<Rightarrow> rule_counters" where
  "count_row r c0 =
     (let c = c0\<lparr>c_total := c_total c0 + 1\<rparr> in
      if validation_state r = Invalid then c\<lparr>c_invalid := c_invalid c + 1\<rparr>
      else if validation_state r = Unsupported then c\<lparr>c_unsupported := c_unsupported c + 1\<rparr>
      else if rule_type r = Rcomment then c\<lparr>c_comment := c_comment c + 1\<rparr>
      else let c = (if enabled r then c\<lparr>c_active := c_active c + 1\<rparr>
                    else c\<lparr>c_disabled := c_disabled c + 1\<rparr>) in
        (case rule_type r of
           Rregex_allow \<Rightarrow> c\<lparr>c_regex := c_regex c + 1\<rparr>
         | Rregex_block \<Rightarrow> c\<lparr>c_regex := c_regex c + 1\<rparr>
         | Rblock \<Rightarrow> c\<lparr>c_block := c_block c + 1\<rparr>
         | Rallow \<Rightarrow> c\<lparr>c_allow := c_allow c + 1\<rparr>
         | Rrewrite \<Rightarrow> c\<lparr>c_rewrite := c_rewrite c + 1\<rparr>
         | Runsupported \<Rightarrow> c\<lparr>c_unsupported := c_unsupported c + 1\<rparr>
         | Rcomment \<Rightarrow> c))"

definition rule_counts :: "string \<Rightarrow> rules_db \<Rightarrow> rules_db \<times> rule_counters" where
  "rule_counts ts db0 = (let db = init_db ts db0 in (db, fold count_row (filter_rules db) zero_counters))"

section \<open>The table invariant\<close>

definition enabled_ok :: "rule_row \<Rightarrow> bool" where
  "enabled_ok r = (enabled r \<longrightarrow> validation_state r = Valid)"

text \<open>Among rules with an effect, the normalised text and the action identify the row.\<close>

definition keys_unique :: "rule_row list \<Rightarrow> bool" where
  "keys_unique t =
     (\<forall>r\<in>set t. \<forall>s\<in>set t. normalized r = normalized s \<and> action r = action s \<and> action r \<noteq> Anone
        \<longrightarrow> row_id r = row_id s)"

definition table_ok :: "stdlib \<Rightarrow> rule_row list \<Rightarrow> bool" where
  "table_ok lib t =
     (rowids_ok row_id t \<and> (\<forall>r\<in>set t. rule_ok lib r \<and> enabled_ok r) \<and> keys_unique t)"

definition legacy_ok :: "legacy_row \<Rightarrow> bool" where
  "legacy_ok row = (wf_name (lr_domain row) \<and> lr_action row \<in> {Aallow, Ablock})"

definition store_ok :: "stdlib \<Rightarrow> rules_db \<Rightarrow> bool" where
  "store_ok lib db =
     (table_ok lib (filter_rules db) \<and>
      (case legacy_rules db of None \<Rightarrow> True | Some l \<Rightarrow> list_all legacy_ok l))"

lemma rule_ok_row_update [simp]:
  "rule_ok lib ((r :: rule_row)\<lparr>row_id := i\<rparr>) = rule_ok lib r"
  "rule_ok lib ((r :: rule_row)\<lparr>enabled := b\<rparr>) = rule_ok lib r"
  "rule_ok lib ((r :: rule_row)\<lparr>updated_at := t\<rparr>) = rule_ok lib r"
  by (simp_all add: rule_ok_defs split: rule_kind.split)

lemma extend_sel:
  "normalized (parsed_rule.extend p m) = normalized p" "action (parsed_rule.extend p m) = action p"
  "validation_state (parsed_rule.extend p m) = validation_state p"
  "rule_type (parsed_rule.extend p m) = rule_type p" "domain (parsed_rule.extend p m) = domain p"
  "pattern (parsed_rule.extend p m) = pattern p"
  "rewrite_address (parsed_rule.extend p m) = rewrite_address p"
  "address_family (parsed_rule.extend p m) = address_family p"
  "priority (parsed_rule.extend p m) = priority p"
  "match_subdomains (parsed_rule.extend p m) = match_subdomains p"
  by (simp_all add: parsed_rule.defs)

lemma rule_ok_extend: "rule_ok lib (parsed_rule.extend (p\<lparr>comment := c\<rparr>) m) = rule_ok lib p"
  by (simp add: rule_ok_defs extend_sel split: rule_kind.split)

lemma new_rule_row_sel:
  "normalized (new_rule_row ts rule src cm en job) = normalized rule"
  "action (new_rule_row ts rule src cm en job) = action rule"
  "rule_ok lib (new_rule_row ts rule src cm en job) = rule_ok lib rule"
  "enabled_ok (new_rule_row ts rule src cm en job)"
  unfolding new_rule_row_def rule_ok_extend enabled_ok_def
  by (simp_all add: extend_sel stored_enabled_def) (simp add: parsed_rule.defs stored_enabled_def)

lemma updated_row_sel:
  "normalized (updated_row ts rule cm en row) = normalized rule"
  "action (updated_row ts rule cm en row) = action rule"
  "rule_ok lib (updated_row ts rule cm en row) = rule_ok lib rule"
  "row_id (updated_row ts rule cm en row) = row_id row"
  "enabled_ok (updated_row ts rule cm en row)"
  unfolding updated_row_def rule_ok_extend enabled_ok_def
  by (simp_all add: extend_sel) (simp_all add: parsed_rule.defs)

lemma find_duplicate_None:
  "find_duplicate t n a = None \<longleftrightarrow> (\<forall>r\<in>set t. \<not> (normalized r = n \<and> action r = a))"
  by (auto simp: find_duplicate_def find_None_iff)

lemma find_duplicate_Some:
  "find_duplicate t n a = Some r \<Longrightarrow> r \<in> set t \<and> normalized r = n \<and> action r = a"
  by (auto simp: find_duplicate_def find_Some_iff)

lemma set_insert_rule_row: "set (insert_rule_row r t) = insert (r\<lparr>row_id := next_rowid row_id t\<rparr>) (set t)"
  by (auto simp: insert_rule_row_def insert_row_def)

lemma table_okI:
  "rowids_ok row_id t \<Longrightarrow> (\<And>r. r \<in> set t \<Longrightarrow> rule_ok lib r \<and> enabled_ok r) \<Longrightarrow> keys_unique t \<Longrightarrow> table_ok lib t"
  by (simp add: table_ok_def)

lemma table_okD:
  assumes "table_ok lib t"
  shows "rowids_ok row_id t" "keys_unique t" "r \<in> set t \<Longrightarrow> rule_ok lib r" "r \<in> set t \<Longrightarrow> enabled_ok r"
  using assms by (simp_all add: table_ok_def)

lemma keys_uniqueD:
  "keys_unique t \<Longrightarrow> r \<in> set t \<Longrightarrow> s \<in> set t \<Longrightarrow> normalized r = normalized s \<Longrightarrow> action r = action s \<Longrightarrow>
   action r \<noteq> Anone \<Longrightarrow> row_id r = row_id s"
  unfolding keys_unique_def by blast

lemma keys_unique_insert:
  assumes "keys_unique t" "find_duplicate t (normalized r) (action r) = None"
  shows "keys_unique (insert_rule_row r t)"
  unfolding keys_unique_def set_insert_rule_row
proof (intro ballI impI, elim conjE)
  fix a b
  let ?n = "r\<lparr>row_id := next_rowid row_id t\<rparr>"
  assume ab: "a \<in> insert ?n (set t)" "b \<in> insert ?n (set t)"
    and key: "normalized a = normalized b" "action a = action b" "action a \<noteq> Anone"
  have fresh: "\<not> (normalized s = normalized ?n \<and> action s = action ?n)" if "s \<in> set t" for s
    using assms(2) that by (simp add: find_duplicate_None)
  consider "a = ?n" "b = ?n" | "a \<in> set t" "b \<in> set t" | "a \<in> set t" "b = ?n" | "a = ?n" "b \<in> set t"
    using ab by blast
  then show "row_id a = row_id b"
  proof cases
    case 2
    then show ?thesis by (rule keys_uniqueD [OF assms(1) _ _ key])
  next
    case 3
    with key fresh [of a] show ?thesis by blast
  next
    case 4
    with key fresh [of b] show ?thesis by metis
  qed simp
qed

lemma table_ok_insert:
  assumes t: "table_ok lib t" and r: "rule_ok lib r" "enabled_ok r"
    and new: "find_duplicate t (normalized r) (action r) = None"
  shows "table_ok lib (insert_rule_row r t)"
proof (rule table_okI)
  show "rowids_ok row_id (insert_rule_row r t)"
    unfolding insert_rule_row_def by (rule rule_table.insert_keeps_ids [OF table_okD(1) [OF t]])
  show "keys_unique (insert_rule_row r t)" by (rule keys_unique_insert [OF table_okD(2) [OF t] new])
  show "rule_ok lib s \<and> enabled_ok s" if "s \<in> set (insert_rule_row r t)" for s
  proof (cases "s \<in> set t")
    case True
    then show ?thesis using table_okD(3,4) [OF t] by simp
  next
    case False
    with that have "s = r\<lparr>row_id := next_rowid row_id t\<rparr>" by (simp add: set_insert_rule_row)
    with r show ?thesis by (simp add: enabled_ok_def)
  qed
qed

lemma table_ok_delete: "table_ok lib t \<Longrightarrow> table_ok lib (delete_where p t)"
  by (rule table_okI) (auto simp: keys_unique_def delete_where_def rowids_ok_delete [unfolded delete_where_def]
    dest: table_okD keys_uniqueD)

lemma touch_enabled_sel:
  "row_id (touch_enabled ts en r) = row_id r" "normalized (touch_enabled ts en r) = normalized r"
  "action (touch_enabled ts en r) = action r" "rule_ok lib (touch_enabled ts en r) = rule_ok lib r"
  "enabled_ok (touch_enabled ts en r) = (en \<longrightarrow> validation_state r = Valid)"
  by (simp_all add: touch_enabled_def enabled_ok_def)

text \<open>Changing the rows with one identifier keeps keys unique when the new key clashes with no other row.\<close>

lemma keys_unique_update:
  assumes t: "keys_unique t" and ids: "\<And>r. row_id (f r) = row_id r"
    and clash: "\<And>r s. r \<in> set t \<Longrightarrow> s \<in> set t \<Longrightarrow> row_id r = i \<Longrightarrow> normalized (f r) = normalized s \<Longrightarrow>
      action (f r) = action s \<Longrightarrow> action (f r) \<noteq> Anone \<Longrightarrow> row_id s = i"
  shows "keys_unique (update_where (\<lambda>r. row_id r = i) f t)"
  unfolding keys_unique_def
proof (intro ballI impI, elim conjE)
  fix r s
  assume r: "r \<in> set (update_where (\<lambda>r. row_id r = i) f t)"
    and s: "s \<in> set (update_where (\<lambda>r. row_id r = i) f t)"
    and key: "normalized r = normalized s" "action r = action s" "action r \<noteq> Anone"
  from r obtain r0 where r0: "r0 \<in> set t" "r = (if row_id r0 = i then f r0 else r0)"
    by (auto simp: set_update_where)
  from s obtain s0 where s0: "s0 \<in> set t" "s = (if row_id s0 = i then f s0 else s0)"
    by (auto simp: set_update_where)
  have "row_id r0 = row_id s0"
  proof (cases "row_id r0 = i"; cases "row_id s0 = i")
    assume "row_id r0 = i" "row_id s0 \<noteq> i"
    with r0 s0 key have "row_id s0 = i" by (intro clash [of r0 s0]) auto
    with \<open>row_id s0 \<noteq> i\<close> show ?thesis by simp
  next
    assume "row_id r0 \<noteq> i" "row_id s0 = i"
    with r0 s0 key have "row_id r0 = i" by (intro clash [of s0 r0]) auto
    with \<open>row_id r0 \<noteq> i\<close> show ?thesis by simp
  next
    assume "row_id r0 \<noteq> i" "row_id s0 \<noteq> i"
    with r0 s0 key show ?thesis by (intro keys_uniqueD [OF t]) auto
  qed simp
  with r0 s0 ids show "row_id r = row_id s" by simp
qed

lemma table_ok_touch:
  assumes t: "table_ok lib t" and row: "row_by_id row_id i t = Some row"
    and en: "en \<longrightarrow> validation_state row = Valid"
  shows "table_ok lib (update_where (\<lambda>r. row_id r = i) (touch_enabled ts en) t)"
proof (rule table_okI)
  have uniq: "r = row" if "r \<in> set t" "row_id r = i" for r
    using that row row_by_id_unique [OF table_okD(1) [OF t], of r] by simp
  show "rowids_ok row_id (update_where (\<lambda>r. row_id r = i) (touch_enabled ts en) t)"
    using table_okD(1) [OF t] by (rule rowids_ok_update) (rule touch_enabled_sel(1))
  show "keys_unique (update_where (\<lambda>r. row_id r = i) (touch_enabled ts en) t)"
  proof (rule keys_unique_update [OF table_okD(2) [OF t]])
    show "row_id (touch_enabled ts en r) = row_id r" for r by (rule touch_enabled_sel(1))
  next
    fix r s
    assume "r \<in> set t" "s \<in> set t" "row_id r = i" "normalized (touch_enabled ts en r) = normalized s"
      "action (touch_enabled ts en r) = action s" "action (touch_enabled ts en r) \<noteq> Anone"
    then have "row_id r = row_id s"
      by (intro keys_uniqueD [OF table_okD(2) [OF t]]) (simp_all add: touch_enabled_sel)
    with \<open>row_id r = i\<close> show "row_id s = i" by simp
  qed
  show "rule_ok lib r \<and> enabled_ok r"
    if r: "r \<in> set (update_where (\<lambda>r. row_id r = i) (touch_enabled ts en) t)" for r
  proof -
    from r obtain r0 where "r0 \<in> set t" "r = (if row_id r0 = i then touch_enabled ts en r0 else r0)"
      by (auto simp: set_update_where)
    moreover have "validation_state r0 = validation_state row" if "row_id r0 = i" "r0 \<in> set t"
      using uniq that by blast
    ultimately show ?thesis using table_okD(3,4) [OF t, of r0] en
      by (cases "row_id r0 = i") (simp_all add: touch_enabled_sel)
  qed
qed

lemma table_ok_update:
  assumes t: "table_ok lib t" and ok: "rule_ok lib rule"
    and dup: "action rule \<noteq> Anone \<Longrightarrow>
      (case find_duplicate t (normalized rule) (action rule) of None \<Rightarrow> True | Some e \<Rightarrow> row_id e = i)"
  shows "table_ok lib (update_where (\<lambda>r. row_id r = i) (updated_row ts rule cm en) t)"
proof (rule table_okI)
  have none: "row_id r = i" if "r \<in> set t" "normalized r = normalized rule" "action r = action rule"
    "action rule \<noteq> Anone" for r
  proof (cases "find_duplicate t (normalized rule) (action rule)")
    case None
    with that show ?thesis unfolding find_duplicate_None by blast
  next
    case (Some e)
    then have e: "e \<in> set t" "normalized e = normalized rule" "action e = action rule"
      by (simp_all add: find_duplicate_Some)
    have "row_id r = row_id e"
      by (rule keys_uniqueD [OF table_okD(2) [OF t] that(1) e(1)]) (use that e in simp_all)
    with Some dup [OF that(4)] show ?thesis by simp
  qed
  show "rowids_ok row_id (update_where (\<lambda>r. row_id r = i) (updated_row ts rule cm en) t)"
    using table_okD(1) [OF t] by (rule rowids_ok_update) (rule updated_row_sel(4))
  show "keys_unique (update_where (\<lambda>r. row_id r = i) (updated_row ts rule cm en) t)"
  proof (rule keys_unique_update [OF table_okD(2) [OF t]])
    show "row_id (updated_row ts rule cm en r) = row_id r" for r by (rule updated_row_sel(4))
  next
    fix r s
    assume "r \<in> set t" "s \<in> set t" "normalized (updated_row ts rule cm en r) = normalized s"
      "action (updated_row ts rule cm en r) = action s" "action (updated_row ts rule cm en r) \<noteq> Anone"
    then show "row_id s = i" by (intro none) (simp_all add: updated_row_sel)
  qed
  show "rule_ok lib r \<and> enabled_ok r"
    if r: "r \<in> set (update_where (\<lambda>r. row_id r = i) (updated_row ts rule cm en) t)" for r
  proof -
    from r obtain r0 where "r0 \<in> set t" "r = (if row_id r0 = i then updated_row ts rule cm en r0 else r0)"
      by (auto simp: set_update_where)
    with table_okD(3,4) [OF t, of r0] ok show ?thesis
      by (cases "row_id r0 = i") (simp_all add: updated_row_sel)
  qed
qed

subsection \<open>Preservation\<close>

lemma insert_rule_table_ok:
  assumes "table_ok lib t" "rule_ok lib rule" "insert_rule ts src cm en job rule t = (t', res)"
  shows "table_ok lib t'"
  using assms table_ok_insert [of lib t "new_rule_row ts rule src cm en job"]
  by (auto simp: insert_rule_def new_rule_row_sel Let_def split: option.splits)

lemma insert_rules_table_ok:
  "table_ok lib t \<Longrightarrow> \<forall>r\<in>set rules. rule_ok lib r \<Longrightarrow>
   insert_rules ts src cm en job rules t = (t', ress) \<Longrightarrow> table_ok lib t'"
proof (induction rules arbitrary: t t' ress)
  case (Cons rule rules)
  obtain t1 res where 1: "insert_rule ts src cm en job rule t = (t1, res)" by (metis surj_pair)
  obtain t2 ress' where 2: "insert_rules ts src cm en job rules t1 = (t2, ress')" by (metis surj_pair)
  have "table_ok lib t1" using Cons.prems 1 by (auto intro: insert_rule_table_ok)
  with Cons.IH [OF this _ 2] Cons.prems 1 2 show ?case by simp
qed simp

lemma bulk_lines_table_ok:
  "table_ok lib t \<Longrightarrow> bulk_lines lib ts src cm en job plain n lines t s = (t', s') \<Longrightarrow> table_ok lib t'"
proof (induction lines arbitrary: n t s)
  case (Cons line lines)
  show ?case
  proof (cases "py_strip line = []")
    case True
    with Cons show ?thesis by simp
  next
    case False
    obtain t1 ress where 1: "insert_rules ts src cm en job (parse_rule lib line plain) t = (t1, ress)"
      by (metis surj_pair)
    have "table_ok lib t1"
      using insert_rules_table_ok [OF Cons.prems(1) _ 1] parse_rule_ok by blast
    from Cons.IH [OF this] Cons.prems(2) False 1 show ?thesis by simp
  qed
qed simp

lemma legacy_to_row_ok: "legacy_ok row \<Longrightarrow> rule_ok lib (legacy_to_row ts row) \<and> enabled_ok (legacy_to_row ts row)"
  by (auto simp: legacy_ok_def legacy_to_row_def rule_ok_defs enabled_ok_def)

lemma migrate_rows_table_ok:
  "table_ok lib t \<Longrightarrow> \<forall>r\<in>set rows. legacy_ok r \<Longrightarrow> table_ok lib (migrate_rows ts rows t)"
proof (induction rows arbitrary: t)
  case (Cons row rows)
  have "table_ok lib (migrate_one ts row t)"
    using Cons.prems legacy_to_row_ok [of row lib ts] table_ok_insert [of lib t "legacy_to_row ts row"]
    by (auto simp: migrate_one_def legacy_to_row_def split: option.splits)
  with Cons show ?case by simp
qed simp

lemma init_db_store_ok: "store_ok lib db \<Longrightarrow> store_ok lib (init_db ts db)"
  unfolding init_db_def migrate_legacy_rules_def store_ok_def
  by (cases "legacy_rules db") (auto simp: list_all_iff legacy_ok_def intro: migrate_rows_table_ok)

lemma store_ok_rules:
  "store_ok lib db \<Longrightarrow> table_ok lib t \<Longrightarrow> store_ok lib (db\<lparr>filter_rules := t\<rparr>)"
  by (simp add: store_ok_def)

lemma store_ok_table: "store_ok lib db \<Longrightarrow> table_ok lib (filter_rules db)"
  by (simp add: store_ok_def)

lemmas store_ok_intros = store_ok_rules init_db_store_ok

lemma add_rule_store_ok:
  assumes "store_ok lib db"
  shows "store_ok lib (fst (add_rule lib ts raw src cm en job plain db))"
proof -
  obtain t ress where 1: "insert_rules ts src cm en job (parse_rule lib raw plain)
      (filter_rules (init_db ts db)) = (t, ress)" by (metis surj_pair)
  have "table_ok lib t"
    by (rule insert_rules_table_ok [OF store_ok_table [OF init_db_store_ok [OF assms]] _ 1])
       (blast intro: parse_rule_ok)
  then show ?thesis by (simp add: add_rule_def Let_def 1 store_ok_intros assms)
qed

lemma add_rules_bulk_store_ok:
  assumes "store_ok lib db"
  shows "store_ok lib (fst (add_rules_bulk lib ts raw src cm en job plain db))"
proof -
  obtain t s where 1: "bulk_lines lib ts src cm en job plain 1 (splitlines raw)
      (filter_rules (init_db ts db)) empty_summary = (t, s)" by (metis surj_pair)
  have "table_ok lib t"
    by (rule bulk_lines_table_ok [OF store_ok_table [OF init_db_store_ok [OF assms]] 1])
  then show ?thesis unfolding add_rules_bulk_def Let_def 1 by (simp add: store_ok_intros assms)
qed

lemma update_rule_store_ok:
  assumes db: "store_ok lib db" and upd: "update_rule lib ts i raw cm en plain db = Inr (db', res)"
  shows "store_ok lib db'"
proof -
  let ?t = "filter_rules (init_db ts db)"
  have t: "table_ok lib ?t" by (rule store_ok_table [OF init_db_store_ok [OF db]])
  from upd obtain row rule where row: "row_by_id row_id i ?t = Some row"
    and rule: "parse_rule lib raw plain = [rule]"
    and nodup: "\<not> (rule_type rule \<noteq> Rcomment \<and> validation_state rule = Valid \<and>
                  (case find_duplicate ?t (normalized rule) (action rule) of
                     None \<Rightarrow> False | Some existing \<Rightarrow> row_id existing \<noteq> i))"
    and db': "db' = (init_db ts db)\<lparr>filter_rules :=
                       update_where (\<lambda>r. row_id r = i) (updated_row ts rule cm en) ?t\<rparr>"
    unfolding update_rule_def Let_def by (auto split: option.splits list.splits if_splits)
  have ok: "rule_ok lib rule" using parse_rule_ok [of rule lib raw plain] rule by simp
  have "case find_duplicate ?t (normalized rule) (action rule) of None \<Rightarrow> True | Some e \<Rightarrow> row_id e = i"
    if "action rule \<noteq> Anone"
  proof -
    from that ok have "rule_type rule \<noteq> Rcomment" "validation_state rule = Valid"
      by (auto simp: rule_ok_def split: if_splits)
    with nodup show ?thesis by (auto split: option.splits)
  qed
  then have "table_ok lib (update_where (\<lambda>r. row_id r = i) (updated_row ts rule cm en) ?t)"
    by (rule table_ok_update [OF t ok])
  then show ?thesis unfolding db' by (intro store_ok_intros db)
qed

lemma set_enabled_store_ok:
  assumes "store_ok lib db" "set_enabled ts i en db = Inr db'"
  shows "store_ok lib db'"
proof -
  let ?t = "filter_rules (init_db ts db)"
  from assms(2) obtain row where row: "row_by_id row_id i ?t = Some row"
    and en: "\<not> (en \<and> validation_state row \<noteq> Valid)"
    and db': "db' = (init_db ts db)\<lparr>filter_rules := update_where (\<lambda>r. row_id r = i) (touch_enabled ts en) ?t\<rparr>"
    unfolding set_enabled_def Let_def by (auto split: option.splits if_splits)
  have "table_ok lib (update_where (\<lambda>r. row_id r = i) (touch_enabled ts en) ?t)"
    using en by (intro table_ok_touch [OF store_ok_table [OF init_db_store_ok [OF assms(1)]] row]) simp
  then show ?thesis unfolding db' by (intro store_ok_intros assms(1))
qed

lemma toggle_rule_store_ok:
  assumes "store_ok lib db" "toggle_rule ts i db = Inr db'"
  shows "store_ok lib db'"
  using assms unfolding toggle_rule_def Let_def
  by (auto split: option.splits dest: init_db_store_ok intro: set_enabled_store_ok)

lemma delete_rule_store_ok: "store_ok lib db \<Longrightarrow> store_ok lib (delete_rule ts i db)"
  unfolding delete_rule_def Let_def by (intro store_ok_intros table_ok_delete store_ok_table)

lemma bulk_enable_table_ok:
  "table_ok lib t \<Longrightarrow> bulk_enable_rows ts ids en t u k = (t', u', k') \<Longrightarrow> table_ok lib t'"
proof (induction ids arbitrary: t u k)
  case (Cons i ids)
  show ?case
  proof (cases "row_by_id row_id i t")
    case None
    with Cons show ?thesis by simp
  next
    case (Some row)
    show ?thesis
    proof (cases "en \<and> validation_state row \<noteq> Valid")
      case True
      with Some Cons show ?thesis by simp
    next
      case False
      then have "table_ok lib (update_where (\<lambda>r. row_id r = i) (touch_enabled ts en) t)"
        by (intro table_ok_touch [OF Cons.prems(1) Some]) simp
      from Cons.IH [OF this] Cons.prems(2) Some False show ?thesis by simp
    qed
  qed
qed simp

lemma bulk_set_enabled_store_ok:
  assumes "store_ok lib db"
  shows "store_ok lib (fst (bulk_set_enabled ts ids en db))"
proof -
  obtain t u k where 1: "bulk_enable_rows ts ids en (filter_rules (init_db ts db)) 0 0 = (t, u, k)"
    by (metis prod_cases3)
  have "table_ok lib t"
    by (rule bulk_enable_table_ok [OF store_ok_table [OF init_db_store_ok [OF assms]] 1])
  then show ?thesis by (simp add: bulk_set_enabled_def Let_def 1 store_ok_intros assms)
qed

lemma bulk_delete_table_ok: "table_ok lib t \<Longrightarrow> bulk_delete_rows ids t k = (t', k') \<Longrightarrow> table_ok lib t'"
  by (induction ids arbitrary: t k) (auto simp: Let_def dest: table_ok_delete)

lemma bulk_delete_store_ok:
  assumes "store_ok lib db"
  shows "store_ok lib (fst (bulk_delete ts ids db))"
proof -
  obtain t k where 1: "bulk_delete_rows ids (filter_rules (init_db ts db)) 0 = (t, k)"
    by (metis surj_pair)
  have "table_ok lib t"
    by (rule bulk_delete_table_ok [OF store_ok_table [OF init_db_store_ok [OF assms]] 1])
  then show ?thesis by (simp add: bulk_delete_def Let_def 1 store_ok_intros assms)
qed

subsection \<open>Reachable databases\<close>

inductive store_step :: "stdlib \<Rightarrow> rules_db \<Rightarrow> rules_db \<Rightarrow> bool" for lib where
  step_init: "store_step lib db (init_db ts db)"
| step_add: "add_rule lib ts raw src cm en job plain db = (db', ress) \<Longrightarrow> store_step lib db db'"
| step_bulk: "add_rules_bulk lib ts raw src cm en job plain db = (db', s) \<Longrightarrow> store_step lib db db'"
| step_update: "update_rule lib ts i raw cm en plain db = Inr (db', res) \<Longrightarrow> store_step lib db db'"
| step_set: "set_enabled ts i en db = Inr db' \<Longrightarrow> store_step lib db db'"
| step_toggle: "toggle_rule ts i db = Inr db' \<Longrightarrow> store_step lib db db'"
| step_delete: "store_step lib db (delete_rule ts i db)"
| step_bulk_set: "bulk_set_enabled ts ids en db = (db', u, k) \<Longrightarrow> store_step lib db db'"
| step_bulk_delete: "bulk_delete ts ids db = (db', k) \<Longrightarrow> store_step lib db db'"

text \<open>A fresh database: no custom rules, and a legacy table (if any) of normalised domains.\<close>

definition fresh_store :: "rules_db \<Rightarrow> bool" where
  "fresh_store db =
     (filter_rules db = [] \<and> (case legacy_rules db of None \<Rightarrow> True | Some l \<Rightarrow> list_all legacy_ok l))"

inductive store_reachable :: "stdlib \<Rightarrow> rules_db \<Rightarrow> bool" for lib where
  reach_fresh: "fresh_store db \<Longrightarrow> store_reachable lib db"
| reach_step: "store_reachable lib db \<Longrightarrow> store_step lib db db' \<Longrightarrow> store_reachable lib db'"

lemma fresh_store_ok: "fresh_store db \<Longrightarrow> store_ok lib db"
  by (simp add: fresh_store_def store_ok_def table_ok_def rowids_ok_def keys_unique_def)

lemma store_step_ok: "store_step lib db db' \<Longrightarrow> store_ok lib db \<Longrightarrow> store_ok lib db'"
proof (induction rule: store_step.induct)
  case (step_add ts raw src cm en job plain db db' ress)
  then show ?case using add_rule_store_ok [of lib db ts raw src cm en job plain] by simp
next
  case (step_bulk ts raw src cm en job plain db db' s)
  then show ?case using add_rules_bulk_store_ok [of lib db ts raw src cm en job plain] by simp
next
  case (step_bulk_set ts ids en db db' u k)
  then show ?case using bulk_set_enabled_store_ok [of lib db ts ids en] by simp
next
  case (step_bulk_delete ts ids db db' k)
  then show ?case using bulk_delete_store_ok [of lib db ts ids] by simp
qed (auto intro: init_db_store_ok update_rule_store_ok set_enabled_store_ok toggle_rule_store_ok
    delete_rule_store_ok)

lemma store_reachable_ok: "store_reachable lib db \<Longrightarrow> store_ok lib db"
  by (induction rule: store_reachable.induct) (auto intro: fresh_store_ok store_step_ok)

subsection \<open>Adding twice, counting\<close>

lemma find_duplicate_None_iff:
  "find_duplicate t n a = None \<longleftrightarrow> (\<forall>r\<in>set t. \<not> (normalized r = n \<and> action r = a))"
  by (auto simp: find_duplicate_def find_None_iff)

lemma insert_rule_mono:
  "find_duplicate t n a \<noteq> None \<Longrightarrow> find_duplicate (fst (insert_rule ts src cm en job rule t)) n a \<noteq> None"
  by (auto simp: insert_rule_def Let_def insert_rule_row_def insert_row_def find_duplicate_None_iff split: option.splits)

lemma insert_rule_key:
  "find_duplicate (fst (insert_rule ts src cm en job rule t)) (normalized rule) (action rule) \<noteq> None"
proof (cases "find_duplicate t (normalized rule) (action rule)")
  case None
  then have "fst (insert_rule ts src cm en job rule t) = insert_rule_row (new_rule_row ts rule src cm en job) t"
    by (simp add: insert_rule_def Let_def)
  then show ?thesis unfolding find_duplicate_None_iff
    by (simp add: insert_rule_row_def insert_row_def new_rule_row_def parsed_rule.defs)
qed (simp add: insert_rule_def Let_def)

lemma insert_rules_mono:
  "find_duplicate t n a \<noteq> None \<Longrightarrow> find_duplicate (fst (insert_rules ts src cm en job rules t)) n a \<noteq> None"
proof (induction rules arbitrary: t)
  case (Cons rule rules)
  then show ?case using insert_rule_mono [OF Cons.prems, of ts src cm en job rule]
    by (auto split: prod.splits) (metis fst_conv)
qed simp

lemma insert_rules_keys:
  "rule \<in> set rules \<Longrightarrow> find_duplicate (fst (insert_rules ts src cm en job rules t)) (normalized rule) (action rule) \<noteq> None"
proof (induction rules arbitrary: t)
  case (Cons x rules)
  obtain t1 res where 1: "insert_rule ts src cm en job x t = (t1, res)" by (metis surj_pair)
  have x: "find_duplicate t1 (normalized x) (action x) \<noteq> None"
    using insert_rule_key [of ts src cm en job x t] 1 by simp
  have eq: "fst (insert_rules ts src cm en job (x # rules) t) = fst (insert_rules ts src cm en job rules t1)"
    by (simp add: 1 split: prod.splits)
  show ?case
  proof (cases "rule = x")
    case True
    then show ?thesis unfolding eq using insert_rules_mono [OF x] by simp
  next
    case False
    then show ?thesis unfolding eq using Cons by simp
  qed
qed simp

lemma insert_rules_present:
  assumes "\<forall>rule\<in>set rules. find_duplicate t (normalized rule) (action rule) \<noteq> None"
  shows "fst (insert_rules ts src cm en job rules t) = t \<and>
    (\<forall>res\<in>set (snd (insert_rules ts src cm en job rules t)). res_status res = Duplicate)"
  using assms
proof (induction rules)
  case (Cons x rules)
  then obtain e where "find_duplicate t (normalized x) (action x) = Some e" by auto
  then have "insert_rule ts src cm en job x t = (t, snd (insert_rule ts src cm en job x t))"
    "res_status (snd (insert_rule ts src cm en job x t)) = Duplicate"
    by (auto simp: insert_rule_def Let_def)
  then show ?case using Cons by (auto split: prod.splits)
qed simp

lemma init_db_again: "init_db ts' ((init_db ts db)\<lparr>filter_rules := t\<rparr>) = (init_db ts db)\<lparr>filter_rules := t\<rparr>"
proof (cases "legacy_rules db")
  case None
  then show ?thesis by (simp add: init_db_def migrate_legacy_rules_def)
next
  case (Some l)
  have "filter (\<lambda>r. \<not> migrated_to_v2 r) (map (\<lambda>r. r\<lparr>migrated_to_v2 := True\<rparr>) l) = []" by (induction l) auto
  then show ?thesis by (simp add: init_db_def migrate_legacy_rules_def Some)
qed

lemma add_rule_again:
  "add_rule lib ts' raw src' cm' en' job' plain (fst (add_rule lib ts raw src cm en job plain db)) =
     (db', ress) \<Longrightarrow>
   db' = fst (add_rule lib ts raw src cm en job plain db) \<and> (\<forall>res\<in>set ress. res_status res = Duplicate)"
proof -
  let ?rules = "parse_rule lib raw plain"
  define t where "t = fst (insert_rules ts src cm en job ?rules (filter_rules (init_db ts db)))"
  have one: "fst (add_rule lib ts raw src cm en job plain db) = (init_db ts db)\<lparr>filter_rules := t\<rparr>"
    by (simp add: add_rule_def Let_def t_def split: prod.splits)
  have "\<forall>rule\<in>set ?rules. find_duplicate t (normalized rule) (action rule) \<noteq> None"
    unfolding t_def using insert_rules_keys by blast
  note two = insert_rules_present [OF this, of ts' src' cm' en' job']
  assume "add_rule lib ts' raw src' cm' en' job' plain (fst (add_rule lib ts raw src cm en job plain db)) = (db', ress)"
  then show ?thesis using two unfolding one
    by (auto simp: add_rule_def Let_def init_db_again split: prod.splits)
qed

definition counters_ok :: "rule_counters \<Rightarrow> bool" where
  "counters_ok c =
     (c_total c = c_active c + c_disabled c + c_comment c + c_unsupported c + c_invalid c \<and>
      c_active c + c_disabled c = c_allow c + c_block c + c_rewrite c + c_regex c)"

lemma count_row_ok: "rule_ok lib r \<Longrightarrow> counters_ok c \<Longrightarrow> counters_ok (count_row r c)"
  by (cases "validation_state r"; cases "rule_type r")
     (auto simp: counters_ok_def count_row_def Let_def rule_ok_def)

lemma count_rows_ok: "\<forall>r\<in>set t. rule_ok lib r \<Longrightarrow> counters_ok c \<Longrightarrow> counters_ok (fold count_row t c)"
  by (induction t arbitrary: c) (auto intro: count_row_ok)

lemma rule_counts_ok:
  assumes "store_ok lib db"
  shows "counters_ok (snd (rule_counts ts db))"
proof -
  have "table_ok lib (filter_rules (init_db ts db))"
    by (rule store_ok_table [OF init_db_store_ok [OF assms]])
  moreover have "counters_ok zero_counters" by (simp add: counters_ok_def zero_counters_def)
  ultimately show ?thesis
    by (auto simp: rule_counts_def Let_def table_ok_def intro!: count_rows_ok)
qed

section \<open>Properties\<close>

text \<open>
  C5: whatever sequence of additions, imports, edits, toggles, deletions and migrations is run on a
  fresh database, every stored rule is well formed, only valid rules are enabled, row ids are
  increasing, and no two rules with an effect share normal form and action.
\<close>

theorem rule_store_invariant:
  assumes "store_reachable lib db"
  shows "store_ok lib db"
  using assms by (rule store_reachable_ok)

theorem rule_store_invariant_witness:
  "store_ok plain_lib (fst (add_rule plain_lib ''t'' ''@@||example.com^'' ''manual'' [] True None False
     \<lparr>filter_rules = [], legacy_rules = Some []\<rparr>))"
proof (rule rule_store_invariant)
  have "fresh_store \<lparr>filter_rules = [], legacy_rules = Some []\<rparr>" by code_simp
  then have "store_reachable plain_lib \<lparr>filter_rules = [], legacy_rules = Some []\<rparr>" by (rule reach_fresh)
  then show "store_reachable plain_lib (fst (add_rule plain_lib ''t'' ''@@||example.com^'' ''manual'' [] True None False
     \<lparr>filter_rules = [], legacy_rules = Some []\<rparr>))"
    by (rule store_reachable.reach_step) (rule step_add, rule surjective_pairing)
qed

text \<open>
  adding the same text a second time, whatever the other arguments, changes nothing and reports
  every rule of it as a duplicate.
\<close>

theorem add_rule_idempotent:
  "(case add_rule lib ts' raw src' cm' en' job' plain (fst (add_rule lib ts raw src cm en job plain db)) of
      (db', ress) \<Rightarrow> db' = fst (add_rule lib ts raw src cm en job plain db) \<and>
                     list_all (\<lambda>res. res_status res = Duplicate) ress)"
  by (simp add: list_all_iff split: prod.splits) (blast dest: add_rule_again)

text \<open>
  the counters of the rules page add up: every row is counted as active, disabled, comment,
  unsupported or invalid, and the active and disabled ones as allow, block, rewrite or regex.
\<close>

theorem rule_counters_add_up:
  assumes "store_reachable lib db"
  shows "counters_ok (snd (rule_counts ts db))"
  by (rule rule_counts_ok [OF store_reachable_ok [OF assms]])

theorem rule_counters_add_up_witness:
  "counters_ok (snd (rule_counts ''t'' \<lparr>filter_rules = [], legacy_rules = Some
     [\<lparr>lr_id = 1, lr_domain = ''example.com'', lr_action = Ablock, lr_enabled = True, lr_comment = [], lr_created_at = [],
       migrated_to_v2 = False\<rparr>]\<rparr>))"
proof (rule rule_counters_add_up)
  have "fresh_store \<lparr>filter_rules = [], legacy_rules = Some
     [\<lparr>lr_id = 1, lr_domain = ''example.com'', lr_action = Ablock, lr_enabled = True, lr_comment = [], lr_created_at = [],
       migrated_to_v2 = False\<rparr>]\<rparr>" by code_simp
  then show "store_reachable plain_lib \<lparr>filter_rules = [], legacy_rules = Some
     [\<lparr>lr_id = 1, lr_domain = ''example.com'', lr_action = Ablock, lr_enabled = True, lr_comment = [], lr_created_at = [],
       migrated_to_v2 = False\<rparr>]\<rparr>" by (rule reach_fresh)
qed

end
