(* ===== verification/Rule_Compile.thy ===== *)
theory Rule_Compile
  imports Rule_Store
begin

text \<open>
  Compilation of the enabled custom rules (\<^verbatim>\<open>app/custom_rules.py\<close>, section "Compilation: RPZ records
  and the dnsdist regex layer"): \<open>collect_active\<close> gathers the enabled valid rows into one entry per
  name, \<open>resolve_conflicts\<close> decides same-name conflicts, \<open>subtract_allowed\<close> removes allowed names from
  the external block set, \<open>rpz_records\<close> writes the zone records and \<open>render_dnsdist_data\<close> the four
  data files of the dnsdist layer.  Shown: what each name is left with after conflict resolution,
  that the records of one owner never clash, and that the data files are always rendered.
\<close>

section \<open>The active rule set\<close>

record rewrite_entry =
  rw_a :: "string option"
  rw_aaaa :: "string option"
  rw_subdomains :: bool

record domain_entry =
  de_exact :: bool
  de_subdomains :: bool
  de_priority :: int

record active_rule_set =
  ars_rewrites :: "(string \<times> rewrite_entry) list"
  ars_allows :: "(string \<times> domain_entry) list"
  ars_blocks :: "(string \<times> domain_entry) list"
  regex_allow :: "string list"
  regex_block :: "string list"

definition ActiveRuleSet :: active_rule_set where
  "ActiveRuleSet = \<lparr>ars_rewrites = [], ars_allows = [], ars_blocks = [], regex_allow = [], regex_block = []\<rparr>"

definition new_rewrite_entry :: rewrite_entry where
  "new_rewrite_entry = \<lparr>rw_a = None, rw_aaaa = None, rw_subdomains = False\<rparr>"

definition new_domain_entry :: domain_entry where
  "new_domain_entry = \<lparr>de_exact = False, de_subdomains = False, de_priority = 0\<rparr>"

text \<open>
  \<^verbatim>\<open>row["domain"]\<close> and \<^verbatim>\<open>row["pattern"]\<close>; a valid row of a type that reads them has them (\<open>rule_ok\<close>).
\<close>

definition row_text :: "string option \<Rightarrow> string" where
  "row_text v = (case v of None \<Rightarrow> [] | Some s \<Rightarrow> s)"

definition put_address :: "rule_row \<Rightarrow> rewrite_entry \<Rightarrow> rewrite_entry" where
  "put_address row e =
     (let e = (if address_family row = Some Ipv4
               then (if rw_a e = None then e\<lparr>rw_a := rewrite_address row\<rparr> else e)
               else (if rw_aaaa e = None then e\<lparr>rw_aaaa := rewrite_address row\<rparr> else e))
      in if match_subdomains row then e\<lparr>rw_subdomains := True\<rparr> else e)"

definition put_scope :: "rule_row \<Rightarrow> domain_entry \<Rightarrow> domain_entry" where
  "put_scope row e =
     (let e = (if match_subdomains row then e\<lparr>de_subdomains := True\<rparr> else e\<lparr>de_exact := True\<rparr>)
      in e\<lparr>de_priority := max (de_priority e) (priority row)\<rparr>)"

text \<open>\<^verbatim>\<open>entry = d.setdefault(k, new)\<close> followed by changes of the entry in place.\<close>

definition dict_amend :: "'k \<Rightarrow> 'v \<Rightarrow> ('v \<Rightarrow> 'v) \<Rightarrow> ('k \<times> 'v) list \<Rightarrow> ('k \<times> 'v) list" where
  "dict_amend k new f d = (let d = dict_setdefault k new d in AList.update k (f (dict_get d k new)) d)"

definition collect_row :: "rule_row \<Rightarrow> active_rule_set \<Rightarrow> active_rule_set" where
  "collect_row row a =
     (case rule_type row of
        Rrewrite \<Rightarrow> a\<lparr>ars_rewrites := dict_amend (row_text (domain row)) new_rewrite_entry (put_address row) (ars_rewrites a)\<rparr>
      | Rallow \<Rightarrow> a\<lparr>ars_allows := dict_amend (row_text (domain row)) new_domain_entry (put_scope row) (ars_allows a)\<rparr>
      | Rblock \<Rightarrow> a\<lparr>ars_blocks := dict_amend (row_text (domain row)) new_domain_entry (put_scope row) (ars_blocks a)\<rparr>
      | Rregex_allow \<Rightarrow> a\<lparr>regex_allow := regex_allow a @ [row_text (pattern row)]\<rparr>
      | Rregex_block \<Rightarrow> a\<lparr>regex_block := regex_block a @ [row_text (pattern row)]\<rparr>
      | _ \<Rightarrow> a)"

text \<open>\<^verbatim>\<open>WHERE enabled=1 AND validation_state='valid' ORDER BY priority DESC, id\<close>\<close>

definition enabled_rows :: "rule_row list \<Rightarrow> rule_row list" where
  "enabled_rows t = filter (\<lambda>r. enabled r \<and> validation_state r = Valid) t"

definition active_rows :: "rule_row list \<Rightarrow> rule_row list" where
  "active_rows t = sort_key (\<lambda>r. - priority r) (enabled_rows t)"

definition collect_rows :: "rule_row list \<Rightarrow> active_rule_set" where
  "collect_rows t = fold collect_row (active_rows t) ActiveRuleSet"

section \<open>Conflict resolution\<close>

text \<open>The entry \<open>blk\<close> of one blocked name against the rewrite and the allow of that name.\<close>

definition resolve_block :: "string \<times> domain_entry \<Rightarrow> active_rule_set \<Rightarrow> active_rule_set" where
  "resolve_block item a =
     (case item of (name, blk) \<Rightarrow>
      let blk1 = (case map_of (ars_rewrites a) name of
                    None \<Rightarrow> blk
                  | Some rewrite \<Rightarrow>
                      let b = blk\<lparr>de_exact := False\<rparr>
                      in if rw_subdomains rewrite then b\<lparr>de_subdomains := False\<rparr> else b);
          after = (case map_of (ars_allows a) name of
                     None \<Rightarrow> (blk1, ars_allows a)
                   | Some allow \<Rightarrow>
                       if de_priority blk1 > de_priority allow then (blk1, AList.delete name (ars_allows a))
                       else let b = blk1\<lparr>de_exact := False\<rparr>
                            in (if de_subdomains allow then b\<lparr>de_subdomains := False\<rparr> else b, ars_allows a))
      in case after of (blk2, als) \<Rightarrow>
        a\<lparr>ars_allows := als,
          ars_blocks := (if \<not> de_exact blk2 \<and> \<not> de_subdomains blk2 then AList.delete name (ars_blocks a)
                     else AList.update name blk2 (ars_blocks a))\<rparr>)"

definition resolve_allow :: "string \<Rightarrow> active_rule_set \<Rightarrow> active_rule_set" where
  "resolve_allow name a =
     (case map_of (ars_rewrites a) name of
        None \<Rightarrow> a
      | Some rewrite \<Rightarrow>
          if rw_subdomains rewrite then a\<lparr>ars_allows := AList.delete name (ars_allows a)\<rparr>
          else let e = (dict_get (ars_allows a) name new_domain_entry)\<lparr>de_exact := False\<rparr> in
            if \<not> de_subdomains e then a\<lparr>ars_allows := AList.delete name (ars_allows a)\<rparr>
            else a\<lparr>ars_allows := AList.update name e (ars_allows a)\<rparr>)"

definition resolve_conflicts :: "active_rule_set \<Rightarrow> active_rule_set" where
  "resolve_conflicts a =
     (let b = fold resolve_block (ars_blocks a) a
      in fold resolve_allow (map fst (ars_allows b)) b)"

definition collect_active :: "string \<Rightarrow> rules_db \<Rightarrow> rules_db \<times> active_rule_set" where
  "collect_active ts db0 =
     (let db = init_db ts db0 in (db, resolve_conflicts (collect_rows (filter_rules db))))"

section \<open>External block set\<close>

definition subtract_allowed :: "string set \<Rightarrow> active_rule_set \<Rightarrow> string set" where
  "subtract_allowed domains a =
     (if ars_allows a = [] then domains
      else let subdomain_allows = map fst (filter (\<lambda>(n, e). de_subdomains e) (ars_allows a)) in
        Set.filter (\<lambda>d. \<not> (d \<in> set (map fst (ars_allows a)) \<or>
                           list_ex (\<lambda>n. d = n \<or> endswith d (''.'' @ n)) subdomain_allows)) domains)"

section \<open>RPZ records\<close>

datatype rdata = RA string | RAAAA string | Passthru | Nxdomain

definition show_rdata :: "rdata \<Rightarrow> string" where
  "show_rdata d =
     (case d of RA x \<Rightarrow> ''A '' @ x | RAAAA x \<Rightarrow> ''AAAA '' @ x
      | Passthru \<Rightarrow> ''CNAME rpz-passthru.'' | Nxdomain \<Rightarrow> ''CNAME .'')"

type_synonym rpz_record = "string \<times> rdata"

definition show_record :: "rpz_record \<Rightarrow> string" where
  "show_record r = fst r @ '' '' @ show_rdata (snd r)"

text \<open>The records so far and the owners they occupy.\<close>

type_synonym rpz_state = "rpz_record list \<times> string set"

definition emit_new :: "string \<Rightarrow> rdata \<Rightarrow> rpz_state \<Rightarrow> rpz_state" where
  "emit_new owner d s =
     (if owner \<in> snd s then s else (fst s @ [(owner, d)], insert owner (snd s)))"

definition address_records :: "string \<Rightarrow> bool \<Rightarrow> (string \<Rightarrow> rdata) \<Rightarrow> string option \<Rightarrow> rpz_record list" where
  "address_records name subs mk v =
     (case v of
        None \<Rightarrow> []
      | Some addr \<Rightarrow>
          if addr = [] then []
          else (name, mk addr) # (if subs then [(wildcard name, mk addr)] else []))"

definition emit_rewrite :: "active_rule_set \<Rightarrow> string \<Rightarrow> rpz_state \<Rightarrow> rpz_state" where
  "emit_rewrite a name s =
     (let e = dict_get (ars_rewrites a) name new_rewrite_entry; subs = rw_subdomains e in
      (fst s @ address_records name subs RA (rw_a e) @ address_records name subs RAAAA (rw_aaaa e),
       (if subs then insert (wildcard name) (insert name (snd s)) else insert name (snd s))))"

definition emit_allow :: "active_rule_set \<Rightarrow> string \<Rightarrow> rpz_state \<Rightarrow> rpz_state" where
  "emit_allow a name s =
     (let e = dict_get (ars_allows a) name new_domain_entry;
          s = (if de_exact e \<or> de_subdomains e then emit_new name Passthru s else s)
      in if de_subdomains e then emit_new (wildcard name) Passthru s else s)"

definition emit_block :: "active_rule_set \<Rightarrow> string \<Rightarrow> rpz_state \<Rightarrow> rpz_state" where
  "emit_block a name s =
     (let e = dict_get (ars_blocks a) name new_domain_entry;
          s = (if de_exact e then emit_new name Nxdomain s else s)
      in if de_subdomains e then emit_new (wildcard name) Nxdomain (emit_new name Nxdomain s) else s)"

definition custom_records :: "active_rule_set \<Rightarrow> rpz_state" where
  "custom_records a =
     fold (emit_block a) (sorted_keys (ars_blocks a))
       (fold (emit_allow a) (sorted_keys (ars_allows a))
         (fold (emit_rewrite a) (sorted_keys (ars_rewrites a)) ([], {})))"

definition rpz_records :: "active_rule_set \<Rightarrow> string list \<times> string set" where
  "rpz_records a = (case custom_records a of (rs, occupied) \<Rightarrow> (map show_record rs, occupied))"

section \<open>The dnsdist data files\<close>

definition check_line_safe :: "string \<Rightarrow> string result" where
  "check_line_safe entry =
     (if list_ex is_control entry
      then Inl ''refusing to write a data-file entry containing control characters''
      else Inr entry)"

fun check_lines :: "string list \<Rightarrow> string list result" where
  "check_lines [] = Inr []"
| "check_lines (e # es) =
     (case check_line_safe e of
        Inl err \<Rightarrow> Inl err
      | Inr x \<Rightarrow> (case check_lines es of Inl err \<Rightarrow> Inl err | Inr xs \<Rightarrow> Inr (x # xs)))"

definition data_text :: "string list \<Rightarrow> string result" where
  "data_text entries =
     (case check_lines entries of
        Inl err \<Rightarrow> Inl err
      | Inr xs \<Rightarrow> Inr (join [newline] xs @ (if entries = [] then [] else [newline])))"

definition pass_suffixes :: "active_rule_set \<Rightarrow> string list \<Rightarrow> string set" where
  "pass_suffixes a local_zones =
     set local_zones \<union> fst ` set (filter (\<lambda>(n, e). de_subdomains e) (ars_allows a)) \<union>
     fst ` set (filter (\<lambda>(n, e). rw_subdomains e) (ars_rewrites a))"

definition pass_exact :: "active_rule_set \<Rightarrow> string list \<Rightarrow> string set" where
  "pass_exact a local_zones =
     (fst ` set (filter (\<lambda>(n, e). de_exact e \<and> \<not> de_subdomains e) (ars_allows a)) \<union>
      fst ` set (filter (\<lambda>(n, e). \<not> rw_subdomains e) (ars_rewrites a))) - pass_suffixes a local_zones"

record dnsdist_data =
  pass_suffix_data :: string
  pass_exact_data :: string
  regex_allow_data :: string
  regex_block_data :: string

definition render_dnsdist_data :: "active_rule_set \<Rightarrow> string list \<Rightarrow> dnsdist_data result" where
  "render_dnsdist_data a local_zones =
     (case data_text (sorted_list_of_set (pass_suffixes a local_zones)) of
        Inl err \<Rightarrow> Inl err
      | Inr t1 \<Rightarrow>
     (case data_text (sorted_list_of_set (pass_exact a local_zones)) of
        Inl err \<Rightarrow> Inl err
      | Inr t2 \<Rightarrow>
     (case data_text (map deployed_pattern (regex_allow a)) of
        Inl err \<Rightarrow> Inl err
      | Inr t3 \<Rightarrow>
     (case data_text (map deployed_pattern (regex_block a)) of
        Inl err \<Rightarrow> Inl err
      | Inr t4 \<Rightarrow>
          Inr \<lparr>pass_suffix_data = t1, pass_exact_data = t2, regex_allow_data = t3, regex_block_data = t4\<rparr>))))"

text \<open>The loader's reading of a data file: its non-empty lines (\<^verbatim>\<open>alderpointdnsCustomLines\<close> in the Lua).\<close>

definition lua_lines :: "string \<Rightarrow> string list" where
  "lua_lines s = filter (\<lambda>l. l \<noteq> []) (split_char newline s)"

record layer_counts =
  n_regex_allow :: nat
  n_regex_block :: nat
  n_rewrites :: nat
  n_allows :: nat
  n_blocks :: nat

definition dnsdist_layer_counts :: "active_rule_set \<Rightarrow> layer_counts" where
  "dnsdist_layer_counts a =
     \<lparr>n_regex_allow = length (regex_allow a), n_regex_block = length (regex_block a),
      n_rewrites = length (ars_rewrites a), n_allows = length (ars_allows a), n_blocks = length (ars_blocks a)\<rparr>"

section \<open>What is collected\<close>

lemma map_of_amend:
  "map_of (dict_amend k new f d) = (map_of d)(k \<mapsto> f (case map_of d k of None \<Rightarrow> new | Some v \<Rightarrow> v))"
  by (auto simp: dict_amend_def Let_def update_conv' map_of_setdefault dict_get_def fun_eq_iff split: option.splits)

lemma distinct_amend: "distinct (map fst d) \<Longrightarrow> distinct (map fst (dict_amend k new f d))"
  by (simp add: dict_amend_def Let_def distinct_update distinct_setdefault)

text \<open>The rows of one type and name, in the order given.\<close>

definition rows_for :: "rule_kind \<Rightarrow> string \<Rightarrow> rule_row list \<Rightarrow> rule_row list" where
  "rows_for k n rows = filter (\<lambda>r. rule_type r = k \<and> row_text (domain r) = n) rows"

definition fold_entry :: "('r \<Rightarrow> 'e \<Rightarrow> 'e) \<Rightarrow> 'e \<Rightarrow> 'r list \<Rightarrow> 'e option" where
  "fold_entry f new rs = (if rs = [] then None else Some (fold f rs new))"

lemma collected_lookup:
  "map_of (ars_rewrites (fold collect_row rows ActiveRuleSet)) n =
     fold_entry put_address new_rewrite_entry (rows_for Rrewrite n rows)"
  "map_of (ars_allows (fold collect_row rows ActiveRuleSet)) n =
     fold_entry put_scope new_domain_entry (rows_for Rallow n rows)"
  "map_of (ars_blocks (fold collect_row rows ActiveRuleSet)) n =
     fold_entry put_scope new_domain_entry (rows_for Rblock n rows)"
proof (induction rows rule: rev_induct)
  case Nil
  { case 1 show ?case by (simp add: ActiveRuleSet_def rows_for_def fold_entry_def)
  next case 2 show ?case by (simp add: ActiveRuleSet_def rows_for_def fold_entry_def)
  next case 3 show ?case by (simp add: ActiveRuleSet_def rows_for_def fold_entry_def) }
next
  case (snoc r rows)
  { case 1 show ?case using snoc
      by (cases "rule_type r") (auto simp: collect_row_def map_of_amend rows_for_def fold_entry_def)
  next case 2 show ?case using snoc
      by (cases "rule_type r") (auto simp: collect_row_def map_of_amend rows_for_def fold_entry_def)
  next case 3 show ?case using snoc
      by (cases "rule_type r") (auto simp: collect_row_def map_of_amend rows_for_def fold_entry_def) }
qed

lemma collected_distinct:
  "distinct (map fst (ars_rewrites (fold collect_row rows ActiveRuleSet)))"
  "distinct (map fst (ars_allows (fold collect_row rows ActiveRuleSet)))"
  "distinct (map fst (ars_blocks (fold collect_row rows ActiveRuleSet)))"
proof (induction rows rule: rev_induct)
  case Nil
  { case 1 show ?case by (simp add: ActiveRuleSet_def)
  next case 2 show ?case by (simp add: ActiveRuleSet_def)
  next case 3 show ?case by (simp add: ActiveRuleSet_def) }
next
  case (snoc r rows)
  { case 1 show ?case using snoc by (cases "rule_type r") (auto simp: collect_row_def distinct_amend)
  next case 2 show ?case using snoc by (cases "rule_type r") (auto simp: collect_row_def distinct_amend)
  next case 3 show ?case using snoc by (cases "rule_type r") (auto simp: collect_row_def distinct_amend) }
qed

lemma fold_put_scope:
  "de_exact (fold put_scope rs e) = (de_exact e \<or> (\<exists>r\<in>set rs. \<not> match_subdomains r))"
  "de_subdomains (fold put_scope rs e) = (de_subdomains e \<or> (\<exists>r\<in>set rs. match_subdomains r))"
  "de_priority (fold put_scope rs e) = foldl max (de_priority e) (map priority rs)"
  by (induction rs arbitrary: e) (auto simp: put_scope_def Let_def)

lemma fold_put_address:
  "rw_subdomains (fold put_address rs e) = (rw_subdomains e \<or> (\<exists>r\<in>set rs. match_subdomains r))"
  by (induction rs arbitrary: e) (auto simp: put_address_def Let_def)

text \<open>The address of a family is that of the first row of the family.\<close>

definition first_address :: "bool \<Rightarrow> rule_row list \<Rightarrow> string option" where
  "first_address v4 rs =
     Option.bind (List.find (\<lambda>r. (address_family r = Some Ipv4) = v4 \<and> rewrite_address r \<noteq> None) rs) rewrite_address"

lemma fold_put_address_first:
  "rw_a (fold put_address rs e) = (case rw_a e of None \<Rightarrow> first_address True rs | Some x \<Rightarrow> Some x)"
  "rw_aaaa (fold put_address rs e) = (case rw_aaaa e of None \<Rightarrow> first_address False rs | Some x \<Rightarrow> Some x)"
  by (induction rs arbitrary: e) (auto simp: put_address_def first_address_def Let_def split: option.split)

section \<open>What conflict resolution leaves\<close>

definition outranked :: "domain_entry option \<Rightarrow> domain_entry \<Rightarrow> bool" where
  "outranked blk allow = (case blk of None \<Rightarrow> False | Some b \<Rightarrow> de_priority b > de_priority allow)"

text \<open>An allow entry of a name: gone if the block outranks it or a rewrite covers the subdomains too.\<close>

definition allow_left :: "rewrite_entry option \<Rightarrow> domain_entry option \<Rightarrow> domain_entry \<Rightarrow> domain_entry option" where
  "allow_left rw blk allow =
     (if outranked blk allow then None
      else case rw of
        None \<Rightarrow> Some allow
      | Some w \<Rightarrow> if rw_subdomains w \<or> \<not> de_subdomains allow then None else Some (allow\<lparr>de_exact := False\<rparr>))"

text \<open>A block entry keeps a scope only if no rewrite and no allow that it does not outrank takes it.\<close>

definition block_left :: "rewrite_entry option \<Rightarrow> domain_entry option \<Rightarrow> domain_entry \<Rightarrow> domain_entry option" where
  "block_left rw allow blk =
     (let yields = (\<lambda>scope. case allow of None \<Rightarrow> False | Some e \<Rightarrow> \<not> de_priority blk > de_priority e \<and> scope e);
          ex = (de_exact blk \<and> rw = None \<and> \<not> yields (\<lambda>_. True));
          su = (de_subdomains blk \<and> (case rw of None \<Rightarrow> True | Some w \<Rightarrow> \<not> rw_subdomains w) \<and>
                \<not> yields de_subdomains)
      in if ex \<or> su then Some (blk\<lparr>de_exact := ex, de_subdomains := su\<rparr>) else None)"

definition ars_distinct :: "active_rule_set \<Rightarrow> bool" where
  "ars_distinct a =
     (distinct (map fst (ars_rewrites a)) \<and> distinct (map fst (ars_allows a)) \<and> distinct (map fst (ars_blocks a)))"

lemma resolve_block_rewrites [simp]: "ars_rewrites (resolve_block item a) = ars_rewrites a"
  by (simp add: resolve_block_def Let_def split: prod.split)

lemma resolve_block_lookup:
  "map_of (ars_blocks (resolve_block (n, blk) a)) =
     (map_of (ars_blocks a))(n := block_left (map_of (ars_rewrites a) n) (map_of (ars_allows a) n) blk)"
  "map_of (ars_allows (resolve_block (n, blk) a)) =
     (map_of (ars_allows a))(n := Option.bind (map_of (ars_allows a) n)
        (\<lambda>e. if outranked (Some blk) e then None else Some e))"
  by (cases "map_of (ars_rewrites a) n"; cases "map_of (ars_allows a) n";
      auto simp: resolve_block_def block_left_def outranked_def Let_def update_conv' delete_conv')+

lemma resolve_blocks_lookup:
  assumes "distinct (map fst items)"
  shows "ars_rewrites (fold resolve_block items a) = ars_rewrites a"
    "map_of (ars_blocks (fold resolve_block items a)) n =
       (case map_of items n of None \<Rightarrow> map_of (ars_blocks a) n
        | Some blk \<Rightarrow> block_left (map_of (ars_rewrites a) n) (map_of (ars_allows a) n) blk)"
    "map_of (ars_allows (fold resolve_block items a)) n =
       (case map_of (ars_allows a) n of None \<Rightarrow> None
        | Some e \<Rightarrow> if outranked (map_of items n) e then None else Some e)"
  using assms
proof (induction items arbitrary: a)
  case Nil
  { case 1 show ?case by simp
  next case 2 show ?case by simp
  next case 3 show ?case by (simp add: outranked_def split: option.split) }
next
  case (Cons item items)
  obtain m blk where item: "item = (m, blk)" by (cases item)
  { case 1 with Cons show ?case by simp
  next case 2
    with Cons.IH(2) [of "resolve_block item a"] show ?case
      by (cases "n = m") (auto simp: item resolve_block_lookup map_of_eq_None_iff [THEN iffD2] split: option.split)
  next case 3
    with Cons.IH(3) [of "resolve_block item a"] show ?case
      by (cases "n = m") (auto simp: item resolve_block_lookup outranked_def map_of_eq_None_iff [THEN iffD2]
        split: option.split) }
qed

lemma resolve_allow_same [simp]:
  "ars_rewrites (resolve_allow n a) = ars_rewrites a" "ars_blocks (resolve_allow n a) = ars_blocks a"
  by (simp_all add: resolve_allow_def Let_def split: option.split)

lemma resolve_allow_lookup:
  assumes "map_of (ars_allows a) n = Some e"
  shows "map_of (ars_allows (resolve_allow n a)) =
     (map_of (ars_allows a))(n := allow_left (map_of (ars_rewrites a) n) None e)"
  using assms by (auto simp: resolve_allow_def allow_left_def outranked_def Let_def update_conv' delete_conv'
    dict_get_def fun_eq_iff split: option.split)

lemma resolve_allows_lookup:
  assumes "distinct names" "set names \<subseteq> dom (map_of (ars_allows a))"
  shows "ars_rewrites (fold resolve_allow names a) = ars_rewrites a"
    "ars_blocks (fold resolve_allow names a) = ars_blocks a"
    "map_of (ars_allows (fold resolve_allow names a)) n =
       (if n \<in> set names then allow_left (map_of (ars_rewrites a) n) None (the (map_of (ars_allows a) n))
        else map_of (ars_allows a) n)"
  using assms
proof (induction names arbitrary: a)
  case Nil
  { case 1 show ?case by simp
  next case 2 show ?case by simp
  next case 3 show ?case by simp }
next
  case (Cons m names)
  have sub: "distinct names \<and> set names \<subseteq> dom (map_of (ars_allows (resolve_allow m a)))"
    if "distinct (m # names)" "set (m # names) \<subseteq> dom (map_of (ars_allows a))" for a
    using that by (auto simp: resolve_allow_lookup dom_def)
  { case 1 then show ?case using Cons.IH(1) [of "resolve_allow m a"] sub [OF 1] by simp
  next case 2 then show ?case using Cons.IH(2) [of "resolve_allow m a"] sub [OF 2] by simp
  next case 3
    then have "m \<in> dom (map_of (ars_allows a))" by simp
    then obtain e where "map_of (ars_allows a) m = Some e" by blast
    then show ?case
      using Cons.IH(3) [OF conjunct1 [OF sub [OF 3]] conjunct2 [OF sub [OF 3]]] 3(1)
      by (auto simp: resolve_allow_lookup) }
qed

lemma resolve_block_distinct: "ars_distinct a \<Longrightarrow> ars_distinct (resolve_block item a)"
  by (auto simp: resolve_block_def ars_distinct_def Let_def distinct_update distinct_delete
    split: prod.splits option.splits if_splits)

lemma resolve_allow_distinct: "ars_distinct a \<Longrightarrow> ars_distinct (resolve_allow n a)"
  by (auto simp: resolve_allow_def ars_distinct_def Let_def distinct_update distinct_delete
    split: option.splits)

lemma fold_distinct:
  "(\<And>x a. ars_distinct a \<Longrightarrow> ars_distinct (f x a)) \<Longrightarrow> ars_distinct a \<Longrightarrow> ars_distinct (fold f xs a)"
  by (induction xs arbitrary: a) auto

lemma resolve_distinct: "ars_distinct a \<Longrightarrow> ars_distinct (resolve_conflicts a)"
  unfolding resolve_conflicts_def Let_def by (intro fold_distinct resolve_block_distinct resolve_allow_distinct)

lemma resolve_lookup:
  assumes "ars_distinct a"
  shows "ars_rewrites (resolve_conflicts a) = ars_rewrites a"
    "map_of (ars_blocks (resolve_conflicts a)) n =
       Option.bind (map_of (ars_blocks a) n)
         (block_left (map_of (ars_rewrites a) n) (map_of (ars_allows a) n))"
    "map_of (ars_allows (resolve_conflicts a)) n =
       Option.bind (map_of (ars_allows a) n)
         (allow_left (map_of (ars_rewrites a) n) (map_of (ars_blocks a) n))"
proof -
  let ?b = "fold resolve_block (ars_blocks a) a"
  have d: "distinct (map fst (ars_blocks a))" "distinct (map fst (ars_allows ?b))"
    using assms fold_distinct [of resolve_block a "ars_blocks a", OF resolve_block_distinct assms]
    by (simp_all add: ars_distinct_def)
  note B = resolve_blocks_lookup [OF d(1)]
  have sub: "set (map fst (ars_allows ?b)) \<subseteq> dom (map_of (ars_allows ?b))"
    by (simp add: dom_map_of_conv_image_fst)
  note A = resolve_allows_lookup [OF d(2) sub]
  show "ars_rewrites (resolve_conflicts a) = ars_rewrites a"
    unfolding resolve_conflicts_def Let_def A B ..
  show "map_of (ars_blocks (resolve_conflicts a)) n =
       Option.bind (map_of (ars_blocks a) n)
         (block_left (map_of (ars_rewrites a) n) (map_of (ars_allows a) n))"
    unfolding resolve_conflicts_def Let_def A(2) B by (simp split: option.split)
  have "n \<in> set (map fst (ars_allows ?b)) \<longleftrightarrow> map_of (ars_allows ?b) n \<noteq> None"
    by (metis map_of_eq_None_iff list.set_map)
  then show "map_of (ars_allows (resolve_conflicts a)) n =
       Option.bind (map_of (ars_allows a) n)
         (allow_left (map_of (ars_rewrites a) n) (map_of (ars_blocks a) n))"
    unfolding resolve_conflicts_def Let_def A(3) B(1)
    by (simp add: B(3) allow_left_def outranked_def split: option.split)
qed

lemma collect_rows_distinct: "ars_distinct (collect_rows t)"
  by (simp add: ars_distinct_def collect_rows_def collected_distinct)

section \<open>The records of the zone\<close>

lemma map_of_dict_get: "map_of d k = Some v \<Longrightarrow> dict_get d k x = v"
  by (simp add: dict_get_def)

lemma set_sorted_keys [simp]: "set (sorted_keys d) = dom (map_of d)"
  by (simp add: sorted_keys_def dom_map_of_conv_image_fst)

lemma distinct_sorted_keys: "distinct (map fst d) \<Longrightarrow> distinct (sorted_keys d)"
  by (simp add: sorted_keys_def)

text \<open>Allows and blocks are requests for an owner that go to the first one that asks.\<close>

definition emit_request :: "rpz_record \<Rightarrow> rpz_state \<Rightarrow> rpz_state" where
  "emit_request r s = emit_new (fst r) (snd r) s"

definition allow_requests :: "active_rule_set \<Rightarrow> string \<Rightarrow> rpz_record list" where
  "allow_requests a n =
     (let e = dict_get (ars_allows a) n new_domain_entry in
      (if de_exact e \<or> de_subdomains e then [(n, Passthru)] else []) @
      (if de_subdomains e then [(wildcard n, Passthru)] else []))"

definition block_requests :: "active_rule_set \<Rightarrow> string \<Rightarrow> rpz_record list" where
  "block_requests a n =
     (let e = dict_get (ars_blocks a) n new_domain_entry in
      (if de_exact e then [(n, Nxdomain)] else []) @
      (if de_subdomains e then [(n, Nxdomain), (wildcard n, Nxdomain)] else []))"

lemma emit_allow_requests: "emit_allow a n s = fold emit_request (allow_requests a n) s"
  by (simp add: emit_allow_def allow_requests_def emit_request_def Let_def)

lemma emit_block_requests: "emit_block a n s = fold emit_request (block_requests a n) s"
  by (simp add: emit_block_def block_requests_def emit_request_def Let_def)

lemma fold_concat_map: "fold (\<lambda>x. fold f (g x)) xs s = fold f (concat (map g xs)) s"
  by (induction xs arbitrary: s) auto

definition scope_requests :: "active_rule_set \<Rightarrow> rpz_record list" where
  "scope_requests a =
     concat (map (allow_requests a) (sorted_keys (ars_allows a))) @
     concat (map (block_requests a) (sorted_keys (ars_blocks a)))"

definition rewrite_records :: "active_rule_set \<Rightarrow> rpz_state" where
  "rewrite_records a = fold (emit_rewrite a) (sorted_keys (ars_rewrites a)) ([], {})"

lemma custom_records_requests:
  "custom_records a = fold emit_request (scope_requests a) (rewrite_records a)"
  by (simp add: custom_records_def rewrite_records_def scope_requests_def emit_allow_requests [abs_def]
    emit_block_requests [abs_def] fold_concat_map)

lemma emit_requests_owners: "snd (fold emit_request rs s) = snd s \<union> fst ` set rs"
  by (induction rs arbitrary: s) (auto simp: emit_request_def emit_new_def)

lemma emit_requests_records:
  "(o', d) \<in> set (fst (fold emit_request rs s)) \<longleftrightarrow>
     (o', d) \<in> set (fst s) \<or> o' \<notin> snd s \<and> map_of rs o' = Some d"
  by (induction rs arbitrary: s) (auto simp: emit_request_def emit_new_def)

text \<open>Two records of one owner are an A and an AAAA record.\<close>

definition compatible :: "rpz_record \<Rightarrow> rpz_record \<Rightarrow> bool" where
  "compatible x y =
     (fst x = fst y \<longrightarrow>
      (case (snd x, snd y) of (RA _, RAAAA _) \<Rightarrow> True | (RAAAA _, RA _) \<Rightarrow> True | _ \<Rightarrow> False))"

definition zone_ok :: "rpz_record list \<Rightarrow> bool" where
  "zone_ok rs = sorted_wrt compatible rs"

definition rpz_state_ok :: "rpz_state \<Rightarrow> bool" where
  "rpz_state_ok s = (zone_ok (fst s) \<and> fst ` set (fst s) \<subseteq> snd s)"

lemma emit_requests_ok: "rpz_state_ok s \<Longrightarrow> rpz_state_ok (fold emit_request rs s)"
proof (induction rs arbitrary: s)
  case (Cons r rs)
  have "rpz_state_ok (emit_request r s)"
    using Cons.prems by (auto simp: rpz_state_ok_def zone_ok_def emit_request_def emit_new_def
      sorted_wrt_append compatible_def)
  with Cons.IH show ?case by simp
qed simp

definition owners_of :: "string \<Rightarrow> bool \<Rightarrow> string set" where
  "owners_of n subs = (if subs then {n, wildcard n} else {n})"

text \<open>No name of the set is a wildcard, so owners of different names differ.\<close>

definition plain_names :: "string set \<Rightarrow> bool" where
  "plain_names N = (\<forall>n\<in>N. n = [] \<or> hd n \<noteq> CHR ''*'')"

lemma wildcard_inject [simp]: "wildcard a = wildcard b \<longleftrightarrow> a = b"
  by (simp add: wildcard_def)

lemma plain_not_wildcard: "plain_names N \<Longrightarrow> n \<in> N \<Longrightarrow> n \<noteq> wildcard m"
  by (auto simp: plain_names_def wildcard_def)

lemma self_not_wildcard [simp]: "n \<noteq> wildcard n" "wildcard n \<noteq> n"
  by (auto simp: wildcard_def dest: arg_cong [where f = length])

lemma owners_disjoint:
  "plain_names N \<Longrightarrow> m \<in> N \<Longrightarrow> n \<in> N \<Longrightarrow> m \<noteq> n \<Longrightarrow> owners_of m b \<inter> owners_of n c = {}"
  using plain_not_wildcard [of N] by (auto simp: owners_of_def)

lemma address_records_owner: "r \<in> set (address_records n subs mk v) \<Longrightarrow> fst r \<in> owners_of n subs"
  by (auto simp: address_records_def owners_of_def split: option.splits if_splits)

lemma address_records_ok:
  "zone_ok (address_records n subs RA v @ address_records n subs RAAAA w)"
  by (auto simp: address_records_def zone_ok_def compatible_def split: option.splits)

lemma emit_rewrites_ok:
  "distinct ns \<Longrightarrow> plain_names (set ns \<union> M) \<Longrightarrow> set ns \<inter> M = {} \<Longrightarrow>
   snd s \<subseteq> (\<Union>m\<in>M. owners_of m True) \<Longrightarrow> rpz_state_ok s \<Longrightarrow>
   rpz_state_ok (fold (emit_rewrite a) ns s)"
proof (induction ns arbitrary: s M)
  case (Cons n ns)
  let ?e = "dict_get (ars_rewrites a) n new_rewrite_entry"
  let ?new = "address_records n (rw_subdomains ?e) RA (rw_a ?e) @ address_records n (rw_subdomains ?e) RAAAA (rw_aaaa ?e)"
  have eq: "emit_rewrite a n s = (fst s @ ?new, snd s \<union> owners_of n (rw_subdomains ?e))"
    by (auto simp: emit_rewrite_def Let_def owners_of_def)
  have fresh: "o' \<notin> snd s" if "o' \<in> owners_of n True" for o'
  proof
    assume "o' \<in> snd s"
    with Cons.prems(4) obtain m where m: "m \<in> M" "o' \<in> owners_of m True" by blast
    from m(1) Cons.prems(3) have "m \<in> set (n # ns) \<union> M" "m \<noteq> n" by auto
    with owners_disjoint [OF Cons.prems(2), of m n True True] that m(2) show False by auto
  qed
  have own: "fst r \<in> owners_of n (rw_subdomains ?e)" if "r \<in> set ?new" for r
    using that by (auto dest: address_records_owner)
  have "compatible x y" if "x \<in> set (fst s)" "y \<in> set ?new" for x y
  proof -
    have "fst x \<in> snd s" using Cons.prems(5) that(1) by (auto simp: rpz_state_ok_def)
    moreover have "fst y \<in> owners_of n True"
      using own [OF that(2)] by (auto simp: owners_of_def split: if_splits)
    ultimately show ?thesis using fresh [of "fst y"] by (auto simp: compatible_def)
  qed
  then have "zone_ok (fst s @ ?new)"
    using Cons.prems(5) address_records_ok [of n "rw_subdomains ?e" "rw_a ?e" "rw_aaaa ?e"]
    unfolding rpz_state_ok_def zone_ok_def sorted_wrt_append [of _ "fst s" ?new] by blast
  moreover have "fst ` set (fst s @ ?new) \<subseteq> snd s \<union> owners_of n (rw_subdomains ?e)"
    using Cons.prems(5) own unfolding rpz_state_ok_def by auto
  ultimately have ok: "rpz_state_ok (emit_rewrite a n s)" unfolding eq rpz_state_ok_def by simp
  have "snd (emit_rewrite a n s) \<subseteq> (\<Union>m\<in>insert n M. owners_of m True)"
    using Cons.prems(4) unfolding eq by (auto simp: owners_of_def split: if_splits)
  then have "rpz_state_ok (fold (emit_rewrite a) ns (emit_rewrite a n s))"
    using Cons.prems(1-3) ok by (intro Cons.IH [of "insert n M"]) simp_all
  then show ?case by simp
qed simp

lemma custom_records_ok:
  assumes "ars_distinct a" "plain_names (dom (map_of (ars_rewrites a)))"
  shows "rpz_state_ok (custom_records a)"
proof -
  have "rpz_state_ok (rewrite_records a)"
    unfolding rewrite_records_def using assms
    by (intro emit_rewrites_ok [where M = "{}"])
       (auto simp: ars_distinct_def distinct_sorted_keys rpz_state_ok_def zone_ok_def)
  then show ?thesis by (simp add: custom_records_requests emit_requests_ok)
qed

text \<open>Which owners each kind of entry asks for.\<close>

definition rewrite_owners :: "active_rule_set \<Rightarrow> string set" where
  "rewrite_owners a = {o'. \<exists>n e. map_of (ars_rewrites a) n = Some e \<and> o' \<in> owners_of n (rw_subdomains e)}"

definition scope_owners :: "(string \<times> domain_entry) list \<Rightarrow> string set" where
  "scope_owners d =
     {o'. \<exists>n e. map_of d n = Some e \<and> (de_exact e \<or> de_subdomains e) \<and> o' \<in> owners_of n (de_subdomains e)}"

lemma allow_requests_iff:
  "(o', d) \<in> set (concat (map (allow_requests a) (sorted_keys (ars_allows a)))) \<longleftrightarrow>
     d = Passthru \<and> o' \<in> scope_owners (ars_allows a)"
  by (fastforce simp: allow_requests_def scope_owners_def owners_of_def dom_def dict_get_def
    split: if_splits option.splits)

lemma block_requests_iff:
  "(o', d) \<in> set (concat (map (block_requests a) (sorted_keys (ars_blocks a)))) \<longleftrightarrow>
     d = Nxdomain \<and> o' \<in> scope_owners (ars_blocks a)"
  by (fastforce simp: block_requests_def scope_owners_def owners_of_def dom_def dict_get_def
    split: if_splits option.splits)

lemma map_of_constant:
  assumes "\<And>k d. (k, d) \<in> set rs \<longleftrightarrow> d = c \<and> k \<in> K"
  shows "map_of rs k = (if k \<in> K then Some c else None)"
proof (cases "map_of rs k")
  case None
  then have "k \<notin> fst ` set rs" by (simp add: map_of_eq_None_iff)
  with assms [of k c] None show ?thesis by force
next
  case (Some d)
  with assms [of k d] show ?thesis by (auto dest: map_of_SomeD)
qed

lemma scope_requests_lookup:
  "map_of (scope_requests a) o' =
     (if o' \<in> scope_owners (ars_allows a) then Some Passthru
      else if o' \<in> scope_owners (ars_blocks a) then Some Nxdomain else None)"
  unfolding scope_requests_def map_of_append
  by (simp add: map_add_def map_of_constant [OF allow_requests_iff] map_of_constant [OF block_requests_iff]
    del: set_concat)

lemma rewrites_emitted:
  "snd (fold (emit_rewrite a) ns s) =
     snd s \<union> (\<Union>n\<in>set ns. owners_of n (rw_subdomains (dict_get (ars_rewrites a) n new_rewrite_entry)))"
  "set (fst (fold (emit_rewrite a) ns s)) =
     set (fst s) \<union> (\<Union>n\<in>set ns. let e = dict_get (ars_rewrites a) n new_rewrite_entry in
        set (address_records n (rw_subdomains e) RA (rw_a e)) \<union>
        set (address_records n (rw_subdomains e) RAAAA (rw_aaaa e)))"
  by (induction ns arbitrary: s) (auto simp: emit_rewrite_def Let_def owners_of_def)

lemma rewrite_records_owners: "snd (rewrite_records a) = rewrite_owners a"
  unfolding rewrite_records_def rewrites_emitted(1) rewrite_owners_def
  by (force simp: dom_def dict_get_def)

lemma rewrite_records_iff:
  "(o', d) \<in> set (fst (rewrite_records a)) \<longleftrightarrow>
     (\<exists>n e x. map_of (ars_rewrites a) n = Some e \<and> o' \<in> owners_of n (rw_subdomains e) \<and> x \<noteq> [] \<and>
        (rw_a e = Some x \<and> d = RA x \<or> rw_aaaa e = Some x \<and> d = RAAAA x))"
  unfolding rewrite_records_def rewrites_emitted(2)
  by (fastforce simp: dom_def dict_get_def address_records_def owners_of_def Let_def split: option.splits if_splits)

lemma custom_records_owners:
  "snd (custom_records a) = rewrite_owners a \<union> scope_owners (ars_allows a) \<union> scope_owners (ars_blocks a)"
proof -
  have "fst ` set (scope_requests a) = dom (map_of (scope_requests a))"
    by (simp add: dom_map_of_conv_image_fst)
  also have "\<dots> = scope_owners (ars_allows a) \<union> scope_owners (ars_blocks a)"
    by (auto simp: dom_def scope_requests_lookup split: if_splits)
  finally show ?thesis by (auto simp: custom_records_requests emit_requests_owners rewrite_records_owners)
qed

lemma custom_records_iff:
  "(o', d) \<in> set (fst (custom_records a)) \<longleftrightarrow>
     (o', d) \<in> set (fst (rewrite_records a)) \<or>
     o' \<notin> rewrite_owners a \<and>
     (if o' \<in> scope_owners (ars_allows a) then d = Passthru
      else o' \<in> scope_owners (ars_blocks a) \<and> d = Nxdomain)"
  by (auto simp: custom_records_requests emit_requests_records rewrite_records_owners scope_requests_lookup)

section \<open>Subtraction of allowed names\<close>

lemma subtract_allowed_iff:
  assumes "distinct (map fst (ars_allows a))"
  shows "d \<in> subtract_allowed D a \<longleftrightarrow>
    d \<in> D \<and> map_of (ars_allows a) d = None \<and>
    (\<forall>n e. map_of (ars_allows a) n = Some e \<and> de_subdomains e \<longrightarrow> \<not> covers n d)"
proof (cases "ars_allows a = []")
  case False
  have "(\<exists>n\<in>set (map fst (filter (\<lambda>(n, e). de_subdomains e) (ars_allows a))). covers n d) \<longleftrightarrow>
     (\<exists>n e. map_of (ars_allows a) n = Some e \<and> de_subdomains e \<and> covers n d)"
    using assms by (force simp: map_of_eq_Some_iff)
  with False show ?thesis
    by (auto simp: subtract_allowed_def Let_def list_ex_iff covers_def below_def map_of_eq_None_iff)
qed (simp add: subtract_allowed_def)

section \<open>The data files are always rendered\<close>

lemma check_lines_ok: "\<forall>e\<in>set es. \<forall>c\<in>set e. \<not> is_control c \<Longrightarrow> check_lines es = Inr es"
  by (induction es) (auto simp: check_line_safe_def list_ex_iff)

lemma data_text_ok:
  "\<forall>e\<in>set es. \<forall>c\<in>set e. \<not> is_control c \<Longrightarrow>
   data_text es = Inr (join [newline] es @ (if es = [] then [] else [newline]))"
  by (simp add: data_text_def check_lines_ok)

lemma newline_control: "is_control newline"
  by (simp add: is_control_def newline_def)

lemma lua_lines_data_text:
  assumes "\<forall>e\<in>set es. e \<noteq> [] \<and> (\<forall>c\<in>set e. \<not> is_control c)" "data_text es = Inr s"
  shows "lua_lines s = es"
proof (cases "es = []")
  case True
  with assms show ?thesis by (simp add: data_text_def lua_lines_def)
next
  case False
  have "\<forall>e\<in>set es. newline \<notin> set e" using assms(1) newline_control by blast
  then have "split_char newline (join [newline] es @ newline # []) = es @ [[]]"
    using False by (simp add: split_char_append split_char_join)
  moreover have "s = join [newline] es @ [newline]"
    using assms False by (simp add: data_text_ok)
  moreover have "filter (\<lambda>l. l \<noteq> []) es = es" using assms(1) by (simp add: filter_id_conv)
  ultimately show ?thesis by (simp add: lua_lines_def)
qed

section \<open>Active sets of a well-formed table\<close>

lemma set_active_rows: "set (active_rows t) = {r \<in> set t. enabled r \<and> validation_state r = Valid}"
  by (auto simp: active_rows_def enabled_rows_def)

lemma rows_for_set: "r \<in> set (rows_for k n rows) \<longleftrightarrow> r \<in> set rows \<and> rule_type r = k \<and> row_text (domain r) = n"
  by (auto simp: rows_for_def)

lemma table_ok_active_name:
  assumes "table_ok lib t" "r \<in> set (active_rows t)" "rule_type r \<in> {Rallow, Rblock, Rrewrite}"
  shows "domain r = Some (row_text (domain r)) \<and> wf_name (row_text (domain r))"
proof -
  have "rule_ok lib r" "validation_state r = Valid"
    using assms table_okD(3) [OF assms(1), of r] by (auto simp: set_active_rows)
  with assms(3) show ?thesis by (auto simp: rule_ok_defs row_text_def split: option.splits)
qed

definition active_ok :: "stdlib \<Rightarrow> active_rule_set \<Rightarrow> bool" where
  "active_ok lib a =
     (ars_distinct a \<and>
      (\<forall>n \<in> dom (map_of (ars_rewrites a)) \<union> dom (map_of (ars_allows a)) \<union> dom (map_of (ars_blocks a)). wf_name n) \<and>
      (\<forall>p \<in> set (regex_allow a) \<union> set (regex_block a). safe_pattern lib p))"

lemma collected_names:
  assumes "table_ok lib t"
  shows "n \<in> dom (map_of (ars_rewrites (collect_rows t))) \<Longrightarrow> wf_name n"
    "n \<in> dom (map_of (ars_allows (collect_rows t))) \<Longrightarrow> wf_name n"
    "n \<in> dom (map_of (ars_blocks (collect_rows t))) \<Longrightarrow> wf_name n"
proof -
  have "wf_name n" if "rows_for k n (active_rows t) \<noteq> []" "k \<in> {Rallow, Rblock, Rrewrite}" for k
  proof -
    from that(1) obtain r where "r \<in> set (rows_for k n (active_rows t))" by (meson last_in_set)
    then show ?thesis using table_ok_active_name [OF assms, of r] that(2) by (auto simp: rows_for_set)
  qed
  then show "n \<in> dom (map_of (ars_rewrites (collect_rows t))) \<Longrightarrow> wf_name n"
    "n \<in> dom (map_of (ars_allows (collect_rows t))) \<Longrightarrow> wf_name n"
    "n \<in> dom (map_of (ars_blocks (collect_rows t))) \<Longrightarrow> wf_name n"
    by (auto simp: collect_rows_def collected_lookup fold_entry_def split: if_splits)
qed

lemma collected_regex:
  "regex_allow (fold collect_row rows a) =
     regex_allow a @ map (\<lambda>r. row_text (pattern r)) (filter (\<lambda>r. rule_type r = Rregex_allow) rows)"
  "regex_block (fold collect_row rows a) =
     regex_block a @ map (\<lambda>r. row_text (pattern r)) (filter (\<lambda>r. rule_type r = Rregex_block) rows)"
  by (induction rows arbitrary: a) (auto simp: collect_row_def split: rule_kind.split)

lemma resolve_regex [simp]:
  "regex_allow (resolve_conflicts a) = regex_allow a" "regex_block (resolve_conflicts a) = regex_block a"
proof -
  have B: "regex_allow (fold resolve_block xs b) = regex_allow b \<and> regex_block (fold resolve_block xs b) = regex_block b"
    for xs b by (induction xs arbitrary: b) (auto simp: resolve_block_def Let_def split: prod.split)
  have A: "regex_allow (fold resolve_allow xs b) = regex_allow b \<and> regex_block (fold resolve_allow xs b) = regex_block b"
    for xs b by (induction xs arbitrary: b) (auto simp: resolve_allow_def Let_def split: option.split)
  show "regex_allow (resolve_conflicts a) = regex_allow a" "regex_block (resolve_conflicts a) = regex_block a"
    by (simp_all add: resolve_conflicts_def Let_def A B)
qed

lemma collect_rows_ok:
  assumes "table_ok lib t"
  shows "active_ok lib (collect_rows t)"
proof -
  have "safe_pattern lib (row_text (pattern r))"
    if "r \<in> set (active_rows t)" "rule_type r = Rregex_allow \<or> rule_type r = Rregex_block" for r
    using that table_okD(3) [OF assms, of r]
    by (auto simp: set_active_rows rule_ok_defs row_text_def split: option.splits)
  then have "\<forall>p \<in> set (regex_allow (collect_rows t)) \<union> set (regex_block (collect_rows t)). safe_pattern lib p"
    by (auto simp: collect_rows_def collected_regex ActiveRuleSet_def)
  then show ?thesis
    unfolding active_ok_def using collect_rows_distinct collected_names [OF assms] by blast
qed

lemma resolve_ok: "active_ok lib a \<Longrightarrow> active_ok lib (resolve_conflicts a)"
proof -
  assume a: "active_ok lib a"
  then have d: "ars_distinct a" by (simp add: active_ok_def)
  have sub: "dom (map_of (ars_allows (resolve_conflicts a))) \<subseteq> dom (map_of (ars_allows a))"
    "dom (map_of (ars_blocks (resolve_conflicts a))) \<subseteq> dom (map_of (ars_blocks a))"
    by (auto simp: dom_def resolve_lookup [OF d] bind_eq_Some_conv)
  show ?thesis using a sub resolve_distinct [OF d] unfolding active_ok_def resolve_lookup(1) [OF d] resolve_regex
    by blast
qed

lemma collect_active_ok:
  assumes "store_ok lib db"
  shows "active_ok lib (snd (collect_active ts db))"
  using store_ok_table [OF init_db_store_ok [OF assms]]
  by (simp add: collect_active_def Let_def collect_rows_ok resolve_ok)

lemma wf_name_chars: "wf_name n \<Longrightarrow> c \<in> set n \<Longrightarrow> name_char c"
  by (auto simp: wf_name_def dest: wf_domain_chars)

lemma wf_name_ne: "wf_name n \<Longrightarrow> n \<noteq> []"
  by (auto simp: wf_name_def dest: wf_domain_ne)

lemma wf_names_plain: "(\<And>n. n \<in> N \<Longrightarrow> wf_name n) \<Longrightarrow> plain_names N"
  unfolding plain_names_def
  by (metis name_char_facts(6) hd_in_set wf_name_chars list.set_intros(1) list.set_intros(2))

lemma active_names_no_control:
  "active_ok lib a \<Longrightarrow> n \<in> dom (map_of (ars_rewrites a)) \<union> dom (map_of (ars_allows a)) \<Longrightarrow>
   n \<noteq> [] \<and> (\<forall>c\<in>set n. \<not> is_control c)"
  unfolding active_ok_def using wf_name_chars name_char_facts(3) wf_name_ne by blast

lemma pass_sets_bound:
  "pass_suffixes a Z \<subseteq> set Z \<union> dom (map_of (ars_rewrites a)) \<union> dom (map_of (ars_allows a))"
  "pass_exact a Z \<subseteq> dom (map_of (ars_rewrites a)) \<union> dom (map_of (ars_allows a))"
  "finite (pass_suffixes a Z)" "finite (pass_exact a Z)"
  by (auto simp: pass_suffixes_def pass_exact_def dom_map_of_conv_image_fst)

lemma sorted_list_all: "N \<subseteq> M \<Longrightarrow> finite N \<Longrightarrow> \<forall>n\<in>M. P n \<Longrightarrow> \<forall>n\<in>set (sorted_list_of_set N). P n"
  by auto

lemma deployed_safe:
  "safe_pattern lib p \<Longrightarrow> deployed_pattern p \<noteq> [] \<and> (\<forall>c\<in>set (deployed_pattern p). \<not> is_control c)"
  using deployed_pattern_no_control [of p] deployed_pattern_ne [of p] by (auto simp: safe_pattern_def list_all_iff)

lemma render_dnsdist_data_total:
  assumes a: "active_ok lib a" and Z: "\<forall>z\<in>set Z. z \<noteq> [] \<and> (\<forall>c\<in>set z. \<not> is_control c)"
  shows "\<exists>d. render_dnsdist_data a Z = Inr d \<and>
    lua_lines (pass_suffix_data d) = sorted_list_of_set (pass_suffixes a Z) \<and>
    lua_lines (pass_exact_data d) = sorted_list_of_set (pass_exact a Z) \<and>
    lua_lines (regex_allow_data d) = map deployed_pattern (regex_allow a) \<and>
    lua_lines (regex_block_data d) = map deployed_pattern (regex_block a)"
proof -
  have lines: "\<exists>s. data_text es = Inr s \<and> lua_lines s = es"
    if es: "\<forall>e\<in>set es. e \<noteq> [] \<and> (\<forall>c\<in>set e. \<not> is_control c)" for es
  proof -
    from es have "\<forall>e\<in>set es. \<forall>c\<in>set e. \<not> is_control c" by blast
    from data_text_ok [OF this] lua_lines_data_text [OF es] show ?thesis by blast
  qed
  have "\<forall>e\<in>set (sorted_list_of_set (pass_suffixes a Z)). e \<noteq> [] \<and> (\<forall>c\<in>set e. \<not> is_control c)"
    by (rule sorted_list_all [OF pass_sets_bound(1,3)]) (use Z active_names_no_control [OF a] in blast)
  then obtain s1 where s1: "data_text (sorted_list_of_set (pass_suffixes a Z)) = Inr s1"
    "lua_lines s1 = sorted_list_of_set (pass_suffixes a Z)" using lines by blast
  have "\<forall>e\<in>set (sorted_list_of_set (pass_exact a Z)). e \<noteq> [] \<and> (\<forall>c\<in>set e. \<not> is_control c)"
    by (rule sorted_list_all [OF pass_sets_bound(2,4)]) (use active_names_no_control [OF a] in blast)
  then obtain s2 where s2: "data_text (sorted_list_of_set (pass_exact a Z)) = Inr s2"
    "lua_lines s2 = sorted_list_of_set (pass_exact a Z)" using lines by blast
  have safe: "\<forall>p \<in> set (regex_allow a) \<union> set (regex_block a). safe_pattern lib p"
    using a by (simp add: active_ok_def)
  have pats: "\<forall>e\<in>set (map deployed_pattern ps). e \<noteq> [] \<and> (\<forall>c\<in>set e. \<not> is_control c)"
    if "set ps \<subseteq> set (regex_allow a) \<union> set (regex_block a)" for ps
  proof
    fix e assume "e \<in> set (map deployed_pattern ps)"
    then obtain p where "p \<in> set ps" "e = deployed_pattern p" by auto
    with that safe have "safe_pattern lib p" by blast
    from deployed_safe [OF this] \<open>e = deployed_pattern p\<close>
    show "e \<noteq> [] \<and> (\<forall>c\<in>set e. \<not> is_control c)" by simp
  qed
  obtain s3 where s3: "data_text (map deployed_pattern (regex_allow a)) = Inr s3"
    "lua_lines s3 = map deployed_pattern (regex_allow a)" using lines [OF pats] by blast
  obtain s4 where s4: "data_text (map deployed_pattern (regex_block a)) = Inr s4"
    "lua_lines s4 = map deployed_pattern (regex_block a)" using lines [OF pats] by blast
  show ?thesis unfolding render_dnsdist_data_def s1 s2 s3 s4 by (simp add: s1 s2 s3 s4)
qed

section \<open>Properties\<close>

text \<open>A small store for the examples: a block rule and an exact allow below it.\<close>

definition add_texts :: "stdlib \<Rightarrow> string list \<Rightarrow> rules_db \<Rightarrow> rules_db" where
  "add_texts lib raws db = fold (\<lambda>raw db. fst (add_rule lib ''t'' raw ''manual'' [] True None False db)) raws db"

lemma add_texts_reachable: "store_reachable lib db \<Longrightarrow> store_reachable lib (add_texts lib raws db)"
proof (induction raws arbitrary: db)
  case (Cons raw raws)
  have "store_reachable lib (fst (add_rule lib ''t'' raw ''manual'' [] True None False db))"
    by (rule store_reachable.reach_step [OF Cons.prems step_add]) (rule surjective_pairing)
  from Cons.IH [OF this] show ?case by (simp add: add_texts_def)
qed (simp add: add_texts_def)

definition example_store :: rules_db where
  "example_store = add_texts plain_lib
     [''||ads.example.com^'', ''@@|ok.ads.example.com^'']
     \<lparr>filter_rules = [], legacy_rules = None\<rparr>"

lemma example_reachable: "store_reachable plain_lib example_store"
  unfolding example_store_def
  by (intro add_texts_reachable reach_fresh) (simp add: fresh_store_def)

lemma example_rules:
  "parse_rule plain_lib ''||ads.example.com^'' False = [(ParsedRule ''||ads.example.com^'')\<lparr>normalized := ''||ads.example.com^'',
     action := Ablock, rule_type := Rblock, match_subdomains := True, domain := Some ''ads.example.com''\<rparr>]"
  "parse_rule plain_lib ''@@|ok.ads.example.com^'' False = [(ParsedRule ''@@|ok.ads.example.com^'')\<lparr>normalized := ''@@|ok.ads.example.com^'',
     action := Aallow, rule_type := Rallow, match_subdomains := False, domain := Some ''ok.ads.example.com''\<rparr>]"
proof -
  have wf: "wf_name ''ads.example.com''" "wf_name ''ok.ads.example.com''" by code_simp+
  show "parse_rule plain_lib ''||ads.example.com^'' False = [(ParsedRule ''||ads.example.com^'')\<lparr>normalized := ''||ads.example.com^'',
     action := Ablock, rule_type := Rblock, match_subdomains := True, domain := Some ''ads.example.com''\<rparr>]"
    using parse_anchored [OF wf(1) refl, of plain_lib False True False] by (simp add: rule_prefix_def)
  show "parse_rule plain_lib ''@@|ok.ads.example.com^'' False = [(ParsedRule ''@@|ok.ads.example.com^'')\<lparr>normalized := ''@@|ok.ads.example.com^'',
     action := Aallow, rule_type := Rallow, match_subdomains := False, domain := Some ''ok.ads.example.com''\<rparr>]"
    using parse_anchored [OF wf(2) refl, of plain_lib True False False] by (simp add: rule_prefix_def)
qed

definition example_row :: "nat \<Rightarrow> string \<Rightarrow> rule_kind \<Rightarrow> rule_action \<Rightarrow> string \<Rightarrow> bool \<Rightarrow> rule_row" where
  "example_row i txt k a d subs =
     \<lparr>rule_text = txt, normalized = txt, rule_type = k, action = a, domain = Some d, match_subdomains = subs,
      pattern = None, rewrite_address = None, address_family = None, qtype_restriction = None, priority = 0,
      validation_state = Valid, unsupported_reason = [], comment = [], row_id = i, enabled = True,
      source_system = ''manual'', import_job_id = None, created_at = ''t'', updated_at = ''t''\<rparr>"

lemma example_store_rows:
  "example_store = \<lparr>filter_rules = [example_row 1 ''||ads.example.com^'' Rblock Ablock ''ads.example.com'' True,
     example_row 2 ''@@|ok.ads.example.com^'' Rallow Aallow ''ok.ads.example.com'' False], legacy_rules = None\<rparr>"
  by (simp add: example_store_def add_texts_def add_rule_def Let_def init_db_def migrate_legacy_rules_def example_rules
      insert_rule_def find_duplicate_def insert_rule_row_def insert_row_def next_rowid_def new_rule_row_def
      parsed_rule.defs ParsedRule_def stored_enabled_def example_row_def)

text \<open>
  The records of the custom rules of a reachable store: no owner carries two records that DNS forbids together, and every owner
  is marked as occupied.
\<close>

lemma custom_records_reachable:
  assumes "store_reachable lib db"
  shows "rpz_state_ok (custom_records (snd (collect_active ts db)))"
proof -
  have ok: "active_ok lib (snd (collect_active ts db))"
    by (rule collect_active_ok [OF store_reachable_ok [OF assms]])
  then have "plain_names (dom (map_of (ars_rewrites (snd (collect_active ts db)))))"
    by (intro wf_names_plain) (auto simp: active_ok_def)
  with ok show ?thesis using custom_records_ok by (simp add: active_ok_def)
qed

text \<open>
  conflict resolution of one name, whatever the other rules are: a rewrite of the name takes the
  exact name (and the subdomains when it covers them) from blocks and allows; an allow that the block
  does not outrank takes the exact name, and the subdomains when it has them; a block of higher
  priority removes the allow; and an entry left without scope disappears.
\<close>

theorem conflict_resolution_pointwise:
  "ars_rewrites (resolve_conflicts (collect_rows t)) = ars_rewrites (collect_rows t) \<and>
   map_of (ars_blocks (resolve_conflicts (collect_rows t))) n =
     Option.bind (map_of (ars_blocks (collect_rows t)) n)
       (block_left (map_of (ars_rewrites (collect_rows t)) n) (map_of (ars_allows (collect_rows t)) n)) \<and>
   map_of (ars_allows (resolve_conflicts (collect_rows t))) n =
     Option.bind (map_of (ars_allows (collect_rows t)) n)
       (allow_left (map_of (ars_rewrites (collect_rows t)) n) (map_of (ars_blocks (collect_rows t)) n))"
  using resolve_lookup [OF collect_rows_distinct] by blast

text \<open>
  the external block set loses exactly the allowed names and, for allow rules with subdomains,
  everything below them.
\<close>

theorem subtract_allowed_exact:
  "subtract_allowed D (snd (collect_active ts db)) =
     D - {d. \<exists>n e. map_of (ars_allows (snd (collect_active ts db))) n = Some e \<and>
              (d = n \<or> de_subdomains e \<and> covers n d)}"
proof -
  have "ars_distinct (snd (collect_active ts db))"
    using resolve_distinct [OF collect_rows_distinct] by (simp add: collect_active_def Let_def)
  then have d: "distinct (map fst (ars_allows (snd (collect_active ts db))))" by (simp add: ars_distinct_def)
  show ?thesis
  proof (rule set_eqI)
    fix x
    show "x \<in> subtract_allowed D (snd (collect_active ts db)) \<longleftrightarrow> x \<in> D - {d. \<exists>n e.
        map_of (ars_allows (snd (collect_active ts db))) n = Some e \<and> (d = n \<or> de_subdomains e \<and> covers n d)}"
      unfolding subtract_allowed_iff [OF d] Diff_iff mem_Collect_eq by (metis not_None_eq)
  qed
qed

text \<open>
  C31: for every reachable store and local zones without control characters, the four data files of
  the dnsdist layer are rendered (no rule can make the deployment raise), and the Lua loader reads
  back exactly the pass-through names and the deployed patterns, in order.
\<close>

theorem dnsdist_files_read_back:
  assumes "store_reachable lib db" "\<forall>z\<in>set Z. z \<noteq> [] \<and> (\<forall>c\<in>set z. \<not> is_control c)"
  shows "\<exists>d. render_dnsdist_data (snd (collect_active ts db)) Z = Inr d \<and>
    lua_lines (pass_suffix_data d) = sorted_list_of_set (pass_suffixes (snd (collect_active ts db)) Z) \<and>
    lua_lines (pass_exact_data d) = sorted_list_of_set (pass_exact (snd (collect_active ts db)) Z) \<and>
    lua_lines (regex_allow_data d) = map deployed_pattern (regex_allow (snd (collect_active ts db))) \<and>
    lua_lines (regex_block_data d) = map deployed_pattern (regex_block (snd (collect_active ts db)))"
  by (rule render_dnsdist_data_total [OF collect_active_ok [OF store_reachable_ok [OF assms(1)]] assms(2)])

theorem dnsdist_files_read_back_witness:
  "\<exists>d. render_dnsdist_data (snd (collect_active ''t'' example_store)) [''home.arpa''] = Inr d \<and>
    lua_lines (pass_suffix_data d) = sorted_list_of_set (pass_suffixes (snd (collect_active ''t'' example_store)) [''home.arpa'']) \<and>
    lua_lines (pass_exact_data d) = sorted_list_of_set (pass_exact (snd (collect_active ''t'' example_store)) [''home.arpa'']) \<and>
    lua_lines (regex_allow_data d) = map deployed_pattern (regex_allow (snd (collect_active ''t'' example_store))) \<and>
    lua_lines (regex_block_data d) = map deployed_pattern (regex_block (snd (collect_active ''t'' example_store)))"
proof (rule dnsdist_files_read_back [OF example_reachable])
  show "\<forall>z\<in>set [''home.arpa'']. z \<noteq> [] \<and> (\<forall>c\<in>set z. \<not> is_control c)" by code_simp
qed

end
