(* ===== verification/Rpz_Eval.thy ===== *)
theory Rpz_Eval
  imports Rule_Compile Local_Dns
begin

text \<open>
  The response-policy zone and the domain tester: \<^verbatim>\<open>rpz_name\<close> and \<^verbatim>\<open>render_rpz\<close>
  of \<^verbatim>\<open>app/alderpointdns_compiler.py\<close>; \<^verbatim>\<open>_local_zone_names\<close>, \<^verbatim>\<open>_rpz_status\<close>, \<^verbatim>\<open>_regex_matches\<close> and
  \<^verbatim>\<open>evaluate_domain\<close> of \<^verbatim>\<open>app/custom_rules.py\<close>.  Shown: reading the rendered text back gives exactly
  the records that were rendered, owner by owner.
\<close>

section \<open>Rendering\<close>

definition rpz_name :: "string \<Rightarrow> string" where
  "rpz_name d = rstrip_by (\<lambda>c. c = dot) d"

definition external_records :: "string set \<Rightarrow> string list \<Rightarrow> rpz_record list" where
  "external_records occupied domains =
     concat (map (\<lambda>d. let name = rpz_name d in
       (if name \<notin> occupied then [(name, Nxdomain)] else []) @
       (if wildcard name \<notin> occupied then [(wildcard name, Nxdomain)] else [])) domains)"

definition rpz_header :: "nat \<Rightarrow> string list" where
  "rpz_header serial =
     [''$TTL 2h'',
      ''@ IN SOA localhost. hostmaster.localhost. '' @ str_nat serial @ '' 1h 15m 30d 2h'',
      ''@ IN NS localhost.'',
      []]"

text \<open>\<open>clock\<close> is \<^verbatim>\<open>int(time.time())\<close>; the custom rules are absent when the caller passes none.\<close>

definition zone_records :: "string set \<Rightarrow> active_rule_set option \<Rightarrow> rpz_record list" where
  "zone_records domains custom =
     (let st = (case custom of None \<Rightarrow> ([], {}) | Some a \<Rightarrow> custom_records a)
      in fst st @ external_records (snd st) (sorted_list_of_set domains))"

definition render_rpz :: "nat \<Rightarrow> string set \<Rightarrow> active_rule_set option \<Rightarrow> string" where
  "render_rpz clock domains custom =
     join [newline] (rpz_header clock @ map show_record (zone_records domains custom)) @ [newline]"

section \<open>Reading the compiled zone\<close>

record rpz_info =
  rpz_available :: bool
  rpz_blocked :: bool
  rpz_exact :: "bool option"
  rpz_entry :: "string option"
  rpz_rdata :: "string option"

definition skip_line :: "string list \<Rightarrow> bool" where
  "skip_line parts =
     (length parts \<noteq> 2 \<or> hd parts = ''@'' \<or> hd parts = ''$TTL'' \<or> startswith (hd parts) '';'')"

definition owner_lists :: "string list \<Rightarrow> (string \<times> string list) list" where
  "owner_lists lines =
     fold (\<lambda>line owners.
         let parts = split_ws1 line in
         if skip_line parts then owners
         else let owners = dict_setdefault (hd parts) [] owners
              in AList.update (hd parts) (dict_get owners (hd parts) [] @ [py_strip (parts ! 1)]) owners)
       lines []"

definition parents :: "string \<Rightarrow> string list" where
  "parents q = (let labels = split_char dot q in map (\<lambda>i. join ''.'' (drop i labels)) [1..<length labels])"

type_synonym candidate = "nat \<times> nat \<times> string"

definition better :: "candidate option \<Rightarrow> candidate \<Rightarrow> candidate option" where
  "better best cand = (case best of None \<Rightarrow> Some cand | Some b \<Rightarrow> if cand > b then Some cand else Some b)"

definition best_candidate :: "(string \<Rightarrow> bool) \<Rightarrow> string \<Rightarrow> candidate option" where
  "best_candidate owned q =
     fold (\<lambda>p best. if owned (wildcard p) then better best (0, count_char dot p + 1, wildcard p) else best)
       (parents q) (if owned q then Some (1, count_char dot q + 1, q) else None)"

definition rpz_status :: "string option \<Rightarrow> string \<Rightarrow> rpz_info" where
  "rpz_status file q =
     (case file of
        None \<Rightarrow> \<lparr>rpz_available = False, rpz_blocked = False, rpz_exact = None, rpz_entry = None, rpz_rdata = None\<rparr>
      | Some content \<Rightarrow>
          let owners = owner_lists (splitlines content) in
          (case best_candidate (\<lambda>owner. map_of owners owner \<noteq> None) q of
             None \<Rightarrow> \<lparr>rpz_available = True, rpz_blocked = False, rpz_exact = None, rpz_entry = None, rpz_rdata = None\<rparr>
           | Some (ex, _, owner) \<Rightarrow>
               let rd = dict_get owners owner [] in
               \<lparr>rpz_available = True, rpz_blocked = list_ex (\<lambda>r. r = ''CNAME .'') rd, rpz_exact = Some (ex \<noteq> 0),
                rpz_entry = Some owner, rpz_rdata = Some (join ''; '' rd)\<rparr>))"

section \<open>Testing a domain\<close>

text \<open>\<open>None\<close> when the local record table does not exist.\<close>

definition local_zone_names :: "local_db option \<Rightarrow> string list" where
  "local_zone_names ldb =
     (case ldb of
        None \<Rightarrow> []
      | Some db \<Rightarrow>
          let internal = dict_get (dns_settings db) ''internal_domain'' DEFAULT_DOMAIN
          in sorted_list_of_set (insert internal
               (set (map (\<lambda>r. if ld_type r \<in> {TA, TAAAA, TCNAME} then forward_zone_for_fqdn (ld_fqdn r) internal
                              else join ''.'' (tl (split_char dot (ld_fqdn r))))
                     (filter ld_enabled (dns_records db))))))"

definition regex_matches :: "stdlib \<Rightarrow> string \<Rightarrow> string \<Rightarrow> bool" where
  "regex_matches lib pat q =
     (re_compile_error lib (deployed_pattern pat) = None \<and> re_search lib (deployed_pattern pat) q)"

datatype verdict = Resolve | Local | VRewrite | VAllow | VBlock

record rule_summary =
  s_id :: nat
  s_rule_text :: string
  s_rule_type :: rule_kind
  s_action :: rule_action
  s_priority :: int

definition summary_of :: "rule_row \<Rightarrow> rule_summary" where
  "summary_of row = \<lparr>s_id = row_id row, s_rule_text = rule_text row, s_rule_type = rule_type row,
     s_action = action row, s_priority = priority row\<rparr>"

record evaluation =
  ev_domain :: string
  ev_action :: verdict
  ev_matched :: "rule_summary list"
  ev_local_zone :: "string option"
  ev_rpz :: rpz_info
  ev_response :: string

definition row_matches :: "string \<Rightarrow> rule_row \<Rightarrow> bool" where
  "row_matches q row =
     (rule_type row \<in> {Rrewrite, Rallow, Rblock} \<and>
      (case domain row of
         None \<Rightarrow> False
       | Some d \<Rightarrow> d \<noteq> [] \<and> (q = d \<or> match_subdomains row \<and> endswith q (''.'' @ d))))"

definition match_key :: "string \<Rightarrow> rule_row \<Rightarrow> nat \<times> nat" where
  "match_key q row =
     (let d = row_text (domain row) in (if q = d then 1 else 0, count_char dot d + 1))"

definition best_matches :: "string \<Rightarrow> rule_row list \<Rightarrow> rule_row list" where
  "best_matches q rows =
     (let ms = filter (row_matches q) rows
      in filter (\<lambda>r. match_key q r = Max (set (map (match_key q) ms))) ms)"

definition of_kind :: "rule_kind \<Rightarrow> rule_row list \<Rightarrow> rule_row list" where
  "of_kind k rows = filter (\<lambda>r. rule_type r = k) rows"

definition top_priority :: "rule_row list \<Rightarrow> int" where
  "top_priority rows = Max (set (map priority rows))"

text \<open>The verdict among the most specific matches: rewrite, then a block that outranks, then allow.\<close>

definition decide :: "rule_row list \<Rightarrow> verdict \<times> rule_row list \<times> string" where
  "decide best =
     (let rewrites = of_kind Rrewrite best; allows = of_kind Rallow best; blocks = of_kind Rblock best in
      if rewrites \<noteq> [] then
        (VRewrite, rewrites, ''answers with '' @ join '', '' (map (\<lambda>r. row_text (rewrite_address r)) rewrites))
      else if allows \<noteq> [] \<and> blocks \<noteq> [] \<and> top_priority blocks > top_priority allows then
        (VBlock, blocks, ''blocked (an important block rule outranks the allow rule)'')
      else if allows \<noteq> [] then
        (VAllow, allows, ''allowed (rpz-passthru overrides block rules and blocklists)'')
      else (VBlock, blocks, ''blocked (RPZ CNAME ., answers NXDOMAIN)''))"

definition finish :: "evaluation \<Rightarrow> verdict \<Rightarrow> rule_row list \<Rightarrow> string \<Rightarrow> evaluation" where
  "finish ev v rows msg = ev\<lparr>ev_action := v, ev_matched := map summary_of rows, ev_response := msg\<rparr>"

definition evaluate_rules :: "stdlib \<Rightarrow> rule_row list \<Rightarrow> evaluation \<Rightarrow> evaluation" where
  "evaluate_rules lib rows ev =
     (let q = ev_domain ev; info = ev_rpz ev;
          allow_hits = filter (\<lambda>r. rule_type r = Rregex_allow \<and> regex_matches lib (row_text (pattern r)) q) rows;
          block_hits = filter (\<lambda>r. rule_type r = Rregex_block \<and> regex_matches lib (row_text (pattern r)) q) rows
      in if filter (row_matches q) rows \<noteq> [] then
           (case decide (best_matches q rows) of (v, ms, msg) \<Rightarrow> finish ev v ms msg)
         else if allow_hits \<noteq> [] then
           (if rpz_blocked info
            then finish ev VBlock (take 1 allow_hits)
              ''the regex allow rule bypasses regex blocks, but the external blocklist RPZ entry still blocks this name''
            else finish ev VAllow (take 1 allow_hits) ''allowed (regex allow passes the query to BIND before regex blocks)'')
         else if block_hits \<noteq> [] then
           finish ev VBlock (take 1 block_hits) ''blocked at the dnsdist layer (NXDOMAIN, no RPZ SOA in the response)''
         else if rpz_blocked info then
           ev\<lparr>ev_action := VBlock,
              ev_response := ''blocked by the compiled blocklist RPZ ('' @
                (if rpz_exact info = Some True then ''exact'' else ''wildcard'') @ '' entry '' @
                row_text (rpz_entry info) @ '')''\<rparr>
         else ev)"

definition evaluate_domain ::
  "stdlib \<Rightarrow> string \<Rightarrow> string option \<Rightarrow> local_db option \<Rightarrow> string \<Rightarrow> rules_db \<Rightarrow> (rules_db \<times> evaluation) result" where
  "evaluate_domain lib ts file ldb name db0 =
     (case normalize_domain lib name of
        None \<Rightarrow> Inl ''not a valid domain name''
      | Some q \<Rightarrow>
          let db = init_db ts db0;
              ev = \<lparr>ev_domain = q, ev_action = Resolve, ev_matched = [], ev_local_zone = None,
                    ev_rpz = rpz_status file q, ev_response = ''resolves normally through the upstream path''\<rparr>
          in case List.find (\<lambda>zone. q = zone \<or> endswith q (''.'' @ zone)) (local_zone_names ldb) of
               Some zone \<Rightarrow>
                 Inr (db, ev\<lparr>ev_action := Local, ev_local_zone := Some zone,
                     ev_response := ''answered from local authoritative zone '' @ zone @ '' (always wins)''\<rparr>)
             | None \<Rightarrow> Inr (db, evaluate_rules lib (enabled_rows (filter_rules db)) ev))"

section \<open>Reading back the rendered text\<close>

text \<open>Records that survive the text form: no blank in owner or address, no comment or directive owner.\<close>

definition clean_word :: "string \<Rightarrow> bool" where
  "clean_word w = (w \<noteq> [] \<and> (\<forall>c\<in>set w. \<not> py_isspace c \<and> \<not> is_linebreak c))"

definition clean_record :: "rpz_record \<Rightarrow> bool" where
  "clean_record r =
     (clean_word (fst r) \<and> hd (fst r) \<notin> {CHR '';'', CHR ''@'', CHR ''$''} \<and>
      (case snd r of RA x \<Rightarrow> clean_word x | RAAAA x \<Rightarrow> clean_word x | _ \<Rightarrow> True))"

lemma split_ws1_two:
  assumes "clean_word w" "v \<noteq> []" "\<not> py_isspace (hd v)"
  shows "split_ws1 (w @ '' '' @ v) = [w, v]"
proof -
  obtain a w' where w: "w = a # w'" using assms(1) by (cases w) (auto simp: clean_word_def)
  obtain b v' where v: "v = b # v'" using assms(2) by (cases v) auto
  have sp: "py_isspace CHR '' ''" by (simp add: py_isspace_def)
  have nw: "\<forall>c\<in>set w. \<not> py_isspace c" using assms(1) by (simp add: clean_word_def)
  then have d: "dropWhile py_isspace (w @ '' '' @ v) = w @ '' '' @ v" by (simp add: w)
  have t: "takeWhile (\<lambda>c. \<not> py_isspace c) (w @ '' '' @ v) = w"
    "dropWhile (\<lambda>c. \<not> py_isspace c) (w @ '' '' @ v) = '' '' @ v"
    using nw sp by (simp_all add: takeWhile_append dropWhile_append)
  have r: "dropWhile py_isspace ('' '' @ v) = v" using assms(3) sp by (simp add: v)
  show ?thesis unfolding split_ws1_def Let_def d t r using w assms(2) by simp
qed

lemma show_rdata_facts:
  assumes "clean_record r"
  shows "show_rdata (snd r) \<noteq> []" "\<not> py_isspace (hd (show_rdata (snd r)))" "py_strip (show_rdata (snd r)) = show_rdata (snd r)"
proof -
  let ?s = "show_rdata (snd r)"
  have A: "\<not> py_isspace CHR ''A''" "\<not> py_isspace CHR ''C''" "\<not> py_isspace CHR ''.''"
    by (simp_all add: py_isspace_def)
  have "?s \<noteq> [] \<and> \<not> py_isspace (hd ?s) \<and> \<not> py_isspace (last ?s)"
    using assms A by (cases "snd r") (auto simp: show_rdata_def clean_record_def clean_word_def)
  then show "?s \<noteq> []" "\<not> py_isspace (hd ?s)" "py_strip ?s = ?s" by (simp_all add: strip_by_id)
qed

lemma show_record_parts:
  assumes "clean_record r"
  shows "split_ws1 (show_record r) = [fst r, show_rdata (snd r)]" "\<not> skip_line (split_ws1 (show_record r))"
proof -
  show eq: "split_ws1 (show_record r) = [fst r, show_rdata (snd r)]"
    unfolding show_record_def using assms show_rdata_facts [OF assms]
    by (intro split_ws1_two) (simp_all add: clean_record_def)
  show "\<not> skip_line (split_ws1 (show_record r))"
    unfolding eq skip_line_def using assms by (auto simp: clean_record_def prefix_def)
qed

lemma show_record_no_break:
  assumes "clean_record r" "c \<in> set (show_record r)"
  shows "\<not> is_linebreak c"
proof -
  have "\<forall>x\<in>set '' CNAMErpz-pasthu.''. \<not> is_linebreak x" by (simp add: is_linebreak_def)
  moreover have "c \<in> set (fst r) \<or> c \<in> set '' CNAMErpz-pasthu.'' \<or> (\<exists>x. snd r \<in> {RA x, RAAAA x} \<and> c \<in> set x)"
    using assms(2) by (cases "snd r") (auto simp: show_record_def show_rdata_def)
  ultimately show ?thesis using assms(1) by (auto simp: clean_record_def clean_word_def)
qed

definition add_owner_line :: "string \<Rightarrow> (string \<times> string list) list \<Rightarrow> (string \<times> string list) list" where
  "add_owner_line line owners =
     (let parts = split_ws1 line in
      if skip_line parts then owners
      else let owners = dict_setdefault (hd parts) [] owners
           in AList.update (hd parts) (dict_get owners (hd parts) [] @ [py_strip (parts ! 1)]) owners)"

lemma owner_lists_fold: "owner_lists lines = fold add_owner_line lines []"
  by (simp add: owner_lists_def add_owner_line_def [abs_def])

lemma owner_lists_records:
  "\<forall>r\<in>set rs. clean_record r \<Longrightarrow>
   map_of (fold add_owner_line (map show_record rs) d) k =
     (let mine = map (show_rdata \<circ> snd) (filter (\<lambda>r. fst r = k) rs) in
      case map_of d k of None \<Rightarrow> if mine = [] then None else Some mine | Some l \<Rightarrow> Some (l @ mine))"
proof (induction rs arbitrary: d)
  case Nil
  show ?case by (simp split: option.split)
next
  case (Cons r rs)
  then have r: "clean_record r" by simp
  have step: "map_of (add_owner_line (show_record r) d) =
      (map_of d)(fst r \<mapsto> (case map_of d (fst r) of None \<Rightarrow> [] | Some l \<Rightarrow> l) @ [show_rdata (snd r)])"
    using show_record_parts [OF r] show_rdata_facts(3) [OF r]
    by (auto simp: add_owner_line_def Let_def update_conv' map_of_setdefault dict_get_def fun_eq_iff split: option.splits)
  show ?case using Cons by (auto simp: step Let_def split: option.splits)
qed

lemma str_nat_no_break: "c \<in> set (str_nat n) \<Longrightarrow> \<not> is_linebreak c \<and> \<not> py_isspace c"
  using str_nat_digits [of n]
  by (auto simp: list_all_iff is_ascii_digit_def is_linebreak_def py_isspace_def Let_def)

lemma rpz_header_skipped: "fold add_owner_line (rpz_header n) d = d"
proof -
  have sp: "\<not> py_isspace CHR ''I''" "\<not> py_isspace CHR ''2''" by (simp_all add: py_isspace_def)
  have w: "clean_word ''@''" "clean_word ''$TTL''"
    by (auto simp: clean_word_def py_isspace_def is_linebreak_def)
  have "split_ws1 (''@'' @ '' '' @ (''IN SOA localhost. hostmaster.localhost. '' @ str_nat n @ '' 1h 15m 30d 2h'')) =
      [''@'', ''IN SOA localhost. hostmaster.localhost. '' @ str_nat n @ '' 1h 15m 30d 2h'']"
    using sp w by (intro split_ws1_two) simp_all
  moreover have "split_ws1 (''@'' @ '' '' @ ''IN NS localhost.'') = [''@'', ''IN NS localhost.'']"
    using sp w by (intro split_ws1_two) simp_all
  moreover have "split_ws1 (''$TTL'' @ '' '' @ ''2h'') = [''$TTL'', ''2h'']"
    using sp w by (intro split_ws1_two) simp_all
  moreover have "split_ws1 [] = []" by (simp add: split_ws1_def)
  ultimately show ?thesis by (simp add: rpz_header_def add_owner_line_def skip_line_def)
qed

lemma rpz_header_no_break: "l \<in> set (rpz_header n) \<Longrightarrow> c \<in> set l \<Longrightarrow> \<not> is_linebreak c"
proof -
  let ?ok = "list_all (\<lambda>c. \<not> is_linebreak c)"
  have lits: "?ok ''$TTL 2h''" "?ok ''@ IN SOA localhost. hostmaster.localhost. ''" "?ok '' 1h 15m 30d 2h''"
    "?ok ''@ IN NS localhost.''" by code_simp+
  have "?ok (str_nat n)" using str_nat_no_break by (auto simp: list_all_iff)
  with lits have "list_all ?ok (rpz_header n)" unfolding rpz_header_def
    by (simp only: list_all_append list.pred_inject simp_thms)
  then show "l \<in> set (rpz_header n) \<Longrightarrow> c \<in> set l \<Longrightarrow> ?thesis" by (simp add: list_all_iff)
qed

lemma rendered_owners:
  assumes "\<forall>r\<in>set (zone_records D custom). clean_record r"
  shows "map_of (owner_lists (splitlines (render_rpz n D custom))) k =
    (let mine = map (show_rdata \<circ> snd) (filter (\<lambda>r. fst r = k) (zone_records D custom)) in
     if mine = [] then None else Some mine)"
proof -
  let ?rs = "zone_records D custom"
  have "splitlines (render_rpz n D custom) = rpz_header n @ map show_record ?rs"
    unfolding render_rpz_def
  proof (rule splitlines_join)
    show "\<forall>l\<in>set (rpz_header n @ map show_record ?rs). \<forall>c\<in>set l. \<not> is_linebreak c"
    proof (intro ballI)
      fix l c assume "l \<in> set (rpz_header n @ map show_record ?rs)" and c: "c \<in> set l"
      then consider "l \<in> set (rpz_header n)" | r where "r \<in> set ?rs" "l = show_record r" by auto
      then show "\<not> is_linebreak c"
        by cases (use c assms rpz_header_no_break show_record_no_break in blast)+
    qed
  qed (simp add: rpz_header_def)
  then show ?thesis by (simp add: owner_lists_fold rpz_header_skipped owner_lists_records [OF assms])
qed

section \<open>Properties\<close>

text \<open>
  reading the rendered zone back gives the records that were rendered: for records without blanks,
  each owner has in the text exactly its record data, in order, and an owner without records has none.
\<close>

theorem rendered_zone_read_back:
  assumes "\<forall>r\<in>set (zone_records D custom). clean_record r"
  shows "map_of (owner_lists (splitlines (render_rpz clock D custom))) k =
    (let mine = map (show_rdata \<circ> snd) (filter (\<lambda>r. fst r = k) (zone_records D custom)) in
     if mine = [] then None else Some mine)"
  by (rule rendered_owners [OF assms])

theorem rendered_zone_read_back_witness:
  "map_of (owner_lists (splitlines (render_rpz 7 {''ads.example.com''} None))) ''*.ads.example.com'' =
    (let mine = map (show_rdata \<circ> snd) (filter (\<lambda>r. fst r = ''*.ads.example.com'') (zone_records {''ads.example.com''} None)) in
     if mine = [] then None else Some mine)"
  by (rule rendered_zone_read_back) code_simp

end
