(* ===== verification/Rpz_Agreement.thy ===== *)
theory Rpz_Agreement
  imports Rpz_Eval
begin

text \<open>
  The domain tester against the compiled zone.  \<open>evaluate_domain\<close> walks the rule rows, the compiler
  turns the same rows into zone records that a resolver looks up by owner.  Shown: for names with a
  matching domain rule both give the same verdict, provided no rule is marked important and no
  external name lies below a rewrite of a whole subtree (both conditions are needed).
\<close>

section \<open>Parents of a name\<close>

lemma parents_below: "p \<in> set (parents q) \<longleftrightarrow> below q p"
proof
  assume "p \<in> set (parents q)"
  then obtain i where i: "1 \<le> i" "i < length (split_char dot q)" "p = join ''.'' (drop i (split_char dot q))"
    by (auto simp: parents_def Let_def)
  have "q = join [dot] (take i (split_char dot q) @ drop i (split_char dot q))" by simp
  also have "\<dots> = join [dot] (take i (split_char dot q)) @ [dot] @ p"
    unfolding i(3) by (rule join_append) (use i in auto)
  finally show "below q p" by (auto simp: below_iff)
next
  assume "below q p"
  then obtain u where u: "q = u @ dot # p" by (auto simp: below_iff)
  have s: "split_char dot q = split_char dot u @ split_char dot p" by (simp add: u split_char_append)
  have "p = join ''.'' (drop (length (split_char dot u)) (split_char dot q))" by (simp add: s)
  moreover have "1 \<le> length (split_char dot u)" by (simp add: Suc_leI)
  moreover have "length (split_char dot u) < length (split_char dot q)" by (simp add: s)
  ultimately show "p \<in> set (parents q)" unfolding parents_def Let_def
    by (auto simp: image_iff intro!: bexI [of _ "length (split_char dot u)"])
qed

lemma parents_sorted: "sorted_wrt below (parents q)"
proof -
  have "below (join ''.'' (drop i ls)) (join ''.'' (drop j ls))"
    if "i < j" "j < length ls" for i j and ls :: "string list"
  proof -
    have "drop i ls = take (j - i) (drop i ls) @ drop j ls"
      using that by (metis append_take_drop_id drop_drop le_add_diff_inverse2 less_imp_le_nat)
    then have "join [dot] (drop i ls) = join [dot] (take (j - i) (drop i ls) @ drop j ls)" by simp
    also have "\<dots> = join [dot] (take (j - i) (drop i ls)) @ [dot] @ join [dot] (drop j ls)"
      by (rule join_append) (use that in auto)
    finally show ?thesis by (auto simp: below_iff)
  qed
  then show ?thesis by (auto simp: parents_def Let_def sorted_wrt_map sorted_wrt_iff_nth_less)
qed

lemma count_char_below: "below p n \<Longrightarrow> count_char dot n < count_char dot p"
  by (auto simp: below_iff count_char_def)

lemma covers_suffix: "covers p q \<Longrightarrow> suffix p q"
  by (auto simp: covers_def below_def dest: suffix_ConsD)

text \<open>Two names above one name lie one above the other.\<close>

lemma below_linear:
  assumes "covers p q" "covers n q" "length n < length p"
  shows "below p n"
proof -
  have q: "suffix p q" "suffix n q" using assms(1,2) by (simp_all add: covers_suffix)
  obtain u where u: "q = u @ p" using q(1) by (auto simp: suffix_def)
  obtain w where w: "p = w @ n" using q assms(3) by (metis suffix_def suffix_same_cases suffix_length_le not_less)
  have "w \<noteq> []" using assms(3) w by auto
  have "q \<noteq> n" using u w \<open>w \<noteq> []\<close> by auto
  with assms(2) have "below q n" by (simp add: covers_def)
  then obtain v where "q = v @ dot # n" by (auto simp: below_iff)
  with u w have "u @ w = v @ [dot]" by simp
  then have "last w = dot" using \<open>w \<noteq> []\<close> by (metis last_appendR last_snoc)
  then have "w = butlast w @ [dot]" using \<open>w \<noteq> []\<close> by (metis append_butlast_last_id)
  then have "p = butlast w @ dot # n" using w by (metis append.assoc append_Cons append_Nil)
  then show ?thesis by (auto simp: below_iff)
qed

lemma covers_same_length: "covers p q \<Longrightarrow> covers n q \<Longrightarrow> length p = length n \<Longrightarrow> p = n"
  using covers_suffix [of p q] covers_suffix [of n q] by (auto simp: suffix_def)

section \<open>The owner a lookup uses\<close>

definition zone_owner :: "(string \<Rightarrow> bool) \<Rightarrow> string \<Rightarrow> string option" where
  "zone_owner owned q =
     (if owned q then Some q else map_option wildcard (List.find (\<lambda>p. owned (wildcard p)) (parents q)))"

definition consider_parent :: "(string \<Rightarrow> bool) \<Rightarrow> string \<Rightarrow> candidate option \<Rightarrow> candidate option" where
  "consider_parent owned p best =
     (if owned (wildcard p) then better best (0, count_char dot p + 1, wildcard p) else best)"

lemma consider_keeps:
  "\<forall>p\<in>set ps. \<not> (0, count_char dot p + 1, wildcard p) > b \<Longrightarrow> fold (consider_parent owned) ps (Some b) = Some b"
  by (induction ps) (auto simp: consider_parent_def better_def)

lemma consider_first:
  "sorted_wrt below ps \<Longrightarrow> fold (consider_parent owned) ps None =
     map_option (\<lambda>p. (0, count_char dot p + 1, wildcard p)) (List.find (\<lambda>p. owned (wildcard p)) ps)"
proof (induction ps)
  case (Cons p ps)
  show ?case
  proof (cases "owned (wildcard p)")
    case True
    have "fold (consider_parent owned) ps (Some (0, count_char dot p + 1, wildcard p)) =
        Some (0, count_char dot p + 1, wildcard p)"
    proof (rule consider_keeps, intro ballI)
      fix x assume "x \<in> set ps"
      with Cons.prems have "count_char dot x < count_char dot p" by (simp add: count_char_below)
      then show "\<not> (0, count_char dot p + 1, wildcard p) < (0::nat, count_char dot x + 1, wildcard x)"
        by (simp add: less_prod_def)
    qed
    with True show ?thesis by (simp add: consider_parent_def [of _ p] better_def)
  next
    case False
    with Cons show ?thesis by (simp add: consider_parent_def [of _ p])
  qed
qed simp

lemma best_candidate_owner:
  "best_candidate owned q =
     (if owned q then Some (1, count_char dot q + 1, q)
      else map_option (\<lambda>p. (0, count_char dot p + 1, wildcard p)) (List.find (\<lambda>p. owned (wildcard p)) (parents q)))"
proof -
  have f: "best_candidate owned q =
      fold (consider_parent owned) (parents q) (if owned q then Some (1, count_char dot q + 1, q) else None)"
    by (simp add: best_candidate_def consider_parent_def [abs_def])
  show ?thesis
  proof (cases "owned q")
    case True
    then show ?thesis unfolding f by (simp add: consider_keeps less_prod_def)
  next
    case False
    then show ?thesis unfolding f by (simp add: consider_first parents_sorted)
  qed
qed

lemma find_parent:
  assumes "below q p" "P p" "\<And>x. below q x \<Longrightarrow> length p < length x \<Longrightarrow> \<not> P x"
  shows "List.find P (parents q) = Some p"
proof -
  have p: "p \<in> set (parents q)" using assms(1) by (simp add: parents_below)
  then obtain xs ys where ps: "parents q = xs @ p # ys" by (meson split_list)
  have "below x p" if "x \<in> set xs" for x
    using parents_sorted [of q] that by (auto simp: ps sorted_wrt_append)
  moreover have "below q x" if "x \<in> set xs" for x using that ps parents_below [of x q] by simp
  ultimately have "\<forall>x\<in>set xs. \<not> P x" using assms(3) below_length by blast
  then have "List.find P xs = None" by (simp add: find_None_iff)
  with assms(2) show ?thesis by (simp add: ps find_append_None)
qed

section \<open>Owners in terms of the rows\<close>

text \<open>An enabled rule of a kind for a name, and one that covers its subdomains.\<close>

definition has_rule :: "rule_row list \<Rightarrow> rule_kind \<Rightarrow> string \<Rightarrow> bool" where
  "has_rule t k n = (\<exists>r\<in>set (enabled_rows t). rule_type r = k \<and> row_text (domain r) = n)"

definition has_sub_rule :: "rule_row list \<Rightarrow> rule_kind \<Rightarrow> string \<Rightarrow> bool" where
  "has_sub_rule t k n = (\<exists>r\<in>set (enabled_rows t). rule_type r = k \<and> row_text (domain r) = n \<and> match_subdomains r)"

definition no_important :: "rule_row list \<Rightarrow> bool" where
  "no_important t = (\<forall>r\<in>set (enabled_rows t). priority r = 0)"

lemma has_sub_has: "has_sub_rule t k n \<Longrightarrow> has_rule t k n"
  by (auto simp: has_rule_def has_sub_rule_def)

lemma set_active_enabled: "set (active_rows t) = set (enabled_rows t)"
  by (simp add: active_rows_def)

lemma rows_for_has: "rows_for k n (active_rows t) \<noteq> [] \<longleftrightarrow> has_rule t k n"
  by (auto simp: rows_for_def has_rule_def filter_empty_conv set_active_enabled)

lemma rows_for_sub: "(\<exists>r\<in>set (rows_for k n (active_rows t)). match_subdomains r) \<longleftrightarrow> has_sub_rule t k n"
  by (auto simp: rows_for_set has_sub_rule_def set_active_enabled)

lemma foldl_max_zero: "\<forall>x\<in>set xs. x = 0 \<Longrightarrow> foldl max (0::int) xs = 0"
  by (induction xs) auto

lemma collected_rewrite:
  "(map_of (ars_rewrites (collect_rows t)) n \<noteq> None) = has_rule t Rrewrite n"
  "map_of (ars_rewrites (collect_rows t)) n = Some e \<Longrightarrow> rw_subdomains e = has_sub_rule t Rrewrite n"
  unfolding collect_rows_def collected_lookup fold_entry_def rows_for_has [symmetric] rows_for_sub [symmetric]
  by (auto simp: fold_put_address new_rewrite_entry_def split: if_splits)

lemma scope_entry:
  assumes "no_important t" "fold_entry put_scope new_domain_entry (rows_for k n (active_rows t)) = Some e"
  shows "de_subdomains e = has_sub_rule t k n" "de_exact e \<or> de_subdomains e" "de_priority e = 0" "has_rule t k n"
proof -
  let ?rs = "rows_for k n (active_rows t)"
  have e: "?rs \<noteq> []" "e = fold put_scope ?rs new_domain_entry"
    using assms(2) by (auto simp: fold_entry_def split: if_splits)
  show "de_subdomains e = has_sub_rule t k n"
    by (simp add: e(2) fold_put_scope new_domain_entry_def rows_for_sub)
  show "has_rule t k n" using e(1) by (simp add: rows_for_has)
  obtain r where "r \<in> set ?rs" using e(1) by (meson last_in_set)
  then show "de_exact e \<or> de_subdomains e" by (auto simp: e(2) fold_put_scope)
  have "\<forall>x\<in>set (map priority ?rs). x = 0"
    using assms(1) by (auto simp: no_important_def rows_for_set set_active_enabled)
  then show "de_priority e = 0" by (simp add: e(2) fold_put_scope new_domain_entry_def foldl_max_zero)
qed

lemma collected_scope:
  assumes "no_important t"
  shows "map_of (ars_allows (collect_rows t)) n = Some e \<Longrightarrow>
      de_subdomains e = has_sub_rule t Rallow n \<and> (de_exact e \<or> de_subdomains e) \<and> de_priority e = 0 \<and> has_rule t Rallow n"
    "map_of (ars_blocks (collect_rows t)) n = Some e \<Longrightarrow>
      de_subdomains e = has_sub_rule t Rblock n \<and> (de_exact e \<or> de_subdomains e) \<and> de_priority e = 0 \<and> has_rule t Rblock n"
    "map_of (ars_allows (collect_rows t)) n = None \<longleftrightarrow> \<not> has_rule t Rallow n"
    "map_of (ars_blocks (collect_rows t)) n = None \<longleftrightarrow> \<not> has_rule t Rblock n"
proof -
  have none: "fold_entry put_scope new_domain_entry (rows_for k n (active_rows t)) = None \<longleftrightarrow> \<not> has_rule t k n" for k
    using rows_for_has [of k n t] by (auto simp: fold_entry_def)
  show "map_of (ars_allows (collect_rows t)) n = Some e \<Longrightarrow>
      de_subdomains e = has_sub_rule t Rallow n \<and> (de_exact e \<or> de_subdomains e) \<and> de_priority e = 0 \<and> has_rule t Rallow n"
    "map_of (ars_blocks (collect_rows t)) n = Some e \<Longrightarrow>
      de_subdomains e = has_sub_rule t Rblock n \<and> (de_exact e \<or> de_subdomains e) \<and> de_priority e = 0 \<and> has_rule t Rblock n"
    unfolding collect_rows_def collected_lookup by (intro conjI scope_entry [OF assms]; assumption)+
  show "map_of (ars_allows (collect_rows t)) n = None \<longleftrightarrow> \<not> has_rule t Rallow n"
    "map_of (ars_blocks (collect_rows t)) n = None \<longleftrightarrow> \<not> has_rule t Rblock n"
    unfolding collect_rows_def collected_lookup by (rule none)+
qed

definition compiled :: "rule_row list \<Rightarrow> active_rule_set" where
  "compiled t = resolve_conflicts (collect_rows t)"

lemmas compiled_lookup = resolve_lookup [OF collect_rows_distinct, folded compiled_def]

text \<open>With equal priorities an allow loses a scope only to a rewrite.\<close>

lemma compiled_allow:
  assumes "no_important t"
  shows "(\<exists>e. map_of (ars_allows (compiled t)) n = Some e \<and> de_subdomains e) \<longleftrightarrow>
      has_sub_rule t Rallow n \<and> \<not> has_sub_rule t Rrewrite n"
    "\<not> has_rule t Rrewrite n \<Longrightarrow>
      (\<exists>e. map_of (ars_allows (compiled t)) n = Some e \<and> (de_exact e \<or> de_subdomains e)) \<longleftrightarrow> has_rule t Rallow n"
proof -
  let ?al = "map_of (ars_allows (collect_rows t)) n"
  let ?bl = "map_of (ars_blocks (collect_rows t)) n"
  let ?rw = "map_of (ars_rewrites (collect_rows t)) n"
  have low: "\<not> outranked ?bl e" if "?al = Some e" for e
    using collected_scope(1,2) [OF assms] that by (auto simp: outranked_def split: option.splits)
  have rw: "?rw = None \<longleftrightarrow> \<not> has_rule t Rrewrite n" "\<And>w. ?rw = Some w \<Longrightarrow> rw_subdomains w = has_sub_rule t Rrewrite n"
    using collected_rewrite by blast+
  show "(\<exists>e. map_of (ars_allows (compiled t)) n = Some e \<and> de_subdomains e) \<longleftrightarrow>
      has_sub_rule t Rallow n \<and> \<not> has_sub_rule t Rrewrite n"
  proof (cases ?al)
    case None
    then have "\<not> has_sub_rule t Rallow n" using collected_scope(3) [OF assms] has_sub_has by blast
    with None show ?thesis by (simp add: compiled_lookup)
  next
    case (Some e)
    with low collected_scope(1) [OF assms Some] rw show ?thesis
      by (cases ?rw) (auto simp: compiled_lookup allow_left_def dest: has_sub_has)
  qed
  show "\<not> has_rule t Rrewrite n \<Longrightarrow>
      (\<exists>e. map_of (ars_allows (compiled t)) n = Some e \<and> (de_exact e \<or> de_subdomains e)) \<longleftrightarrow> has_rule t Rallow n"
  proof (cases ?al)
    case None
    then have "\<not> has_rule t Rallow n" using collected_scope(3) [OF assms] by blast
    with None show ?thesis by (simp add: compiled_lookup)
  next
    case (Some e)
    assume "\<not> has_rule t Rrewrite n"
    with Some low collected_scope(1) [OF assms Some] rw show ?thesis
      by (auto simp: compiled_lookup allow_left_def)
  qed
qed

lemma compiled_block:
  assumes "no_important t"
  shows "\<not> has_sub_rule t Rrewrite n \<Longrightarrow> \<not> has_sub_rule t Rallow n \<Longrightarrow>
      (\<exists>e. map_of (ars_blocks (compiled t)) n = Some e \<and> de_subdomains e) \<longleftrightarrow> has_sub_rule t Rblock n"
    "\<not> has_rule t Rrewrite n \<Longrightarrow> \<not> has_rule t Rallow n \<Longrightarrow>
      (\<exists>e. map_of (ars_blocks (compiled t)) n = Some e \<and> (de_exact e \<or> de_subdomains e)) \<longleftrightarrow> has_rule t Rblock n"
proof -
  let ?al = "map_of (ars_allows (collect_rows t)) n"
  let ?bl = "map_of (ars_blocks (collect_rows t)) n"
  let ?rw = "map_of (ars_rewrites (collect_rows t)) n"
  have rw: "?rw = None \<longleftrightarrow> \<not> has_rule t Rrewrite n" "\<And>w. ?rw = Some w \<Longrightarrow> rw_subdomains w = has_sub_rule t Rrewrite n"
    using collected_rewrite by blast+
  show "(\<exists>e. map_of (ars_blocks (compiled t)) n = Some e \<and> de_subdomains e) \<longleftrightarrow> has_sub_rule t Rblock n"
    if no: "\<not> has_sub_rule t Rrewrite n" "\<not> has_sub_rule t Rallow n"
  proof (cases ?bl)
    case None
    then have "\<not> has_sub_rule t Rblock n" using collected_scope(4) [OF assms] has_sub_has by blast
    with None show ?thesis by (simp add: compiled_lookup)
  next
    case (Some b)
    have rs: "case ?rw of None \<Rightarrow> True | Some w \<Rightarrow> \<not> rw_subdomains w" using rw(2) no(1) by (cases ?rw) auto
    have as: "case ?al of None \<Rightarrow> True | Some e \<Rightarrow> \<not> de_subdomains e"
      using collected_scope(1) [OF assms] no(2) by (cases ?al) auto
    show ?thesis using rs as collected_scope(2) [OF assms Some]
      by (cases ?al) (auto simp: compiled_lookup block_left_def Let_def Some)
  qed
  show "(\<exists>e. map_of (ars_blocks (compiled t)) n = Some e \<and> (de_exact e \<or> de_subdomains e)) \<longleftrightarrow> has_rule t Rblock n"
    if no: "\<not> has_rule t Rrewrite n" "\<not> has_rule t Rallow n"
  proof (cases ?bl)
    case None
    then have "\<not> has_rule t Rblock n" using collected_scope(4) [OF assms] by blast
    with None show ?thesis by (simp add: compiled_lookup)
  next
    case (Some b)
    have "?rw = None" "?al = None" using rw no collected_scope(3) [OF assms] by blast+
    then show ?thesis using collected_scope(2) [OF assms Some]
      by (auto simp: compiled_lookup block_left_def Let_def Some)
  qed
qed

lemma compiled_names_wf:
  assumes "table_ok lib t" "has_rule t k n" "k \<in> {Rrewrite, Rallow, Rblock}"
  shows "wf_name n"
  using assms table_ok_active_name [OF assms(1)] by (auto simp: has_rule_def set_active_enabled)

lemma wf_not_wildcard: "wf_name n \<Longrightarrow> n \<noteq> wildcard m"
  using wf_name_chars [of n "CHR ''*''"] name_char_facts(6) [of "CHR ''*''"] by (auto simp: wildcard_def)

lemma rewrite_owners_compiled:
  assumes "table_ok lib t"
  shows "wf_name n \<Longrightarrow> n \<in> rewrite_owners (compiled t) \<longleftrightarrow> has_rule t Rrewrite n"
    "wildcard n \<in> rewrite_owners (compiled t) \<longleftrightarrow> has_sub_rule t Rrewrite n"
proof -
  have look: "map_of (ars_rewrites (compiled t)) m = map_of (ars_rewrites (collect_rows t)) m" for m
    by (simp add: compiled_lookup)
  have ex: "(\<exists>e. map_of (ars_rewrites (compiled t)) m = Some e) \<longleftrightarrow> has_rule t Rrewrite m" for m
    using collected_rewrite(1) [of t m] by (simp add: look)
  have wild: "m \<noteq> wildcard k" if "has_rule t Rrewrite m" for m k
    using compiled_names_wf [OF assms that] wf_not_wildcard by simp
  show "n \<in> rewrite_owners (compiled t) \<longleftrightarrow> has_rule t Rrewrite n" if "wf_name n"
    using ex [of n] wf_not_wildcard [OF that] by (auto simp: rewrite_owners_def owners_of_def)
  show "wildcard n \<in> rewrite_owners (compiled t) \<longleftrightarrow> has_sub_rule t Rrewrite n"
  proof
    assume "wildcard n \<in> rewrite_owners (compiled t)"
    then obtain m e where m: "map_of (ars_rewrites (compiled t)) m = Some e" "wildcard n \<in> owners_of m (rw_subdomains e)"
      by (auto simp: rewrite_owners_def)
    with ex [of m] wild have "m \<noteq> wildcard n" by blast
    with m(2) have "m = n" "rw_subdomains e" by (auto simp: owners_of_def split: if_splits)
    with m(1) collected_rewrite(2) show "has_sub_rule t Rrewrite n" by (auto simp: look)
  next
    assume sub: "has_sub_rule t Rrewrite n"
    with ex [of n] has_sub_has obtain e where e: "map_of (ars_rewrites (compiled t)) n = Some e" by blast
    with collected_rewrite(2) sub have "rw_subdomains e" by (simp add: look)
    with e show "wildcard n \<in> rewrite_owners (compiled t)" by (auto simp: rewrite_owners_def owners_of_def)
  qed
qed

lemma scope_owners_iff:
  assumes "\<forall>m\<in>dom (map_of d). wf_name m"
  shows "wf_name n \<Longrightarrow> n \<in> scope_owners d \<longleftrightarrow> (\<exists>e. map_of d n = Some e \<and> (de_exact e \<or> de_subdomains e))"
    "wildcard n \<in> scope_owners d \<longleftrightarrow> (\<exists>e. map_of d n = Some e \<and> de_subdomains e)"
proof -
  show "n \<in> scope_owners d \<longleftrightarrow> (\<exists>e. map_of d n = Some e \<and> (de_exact e \<or> de_subdomains e))" if "wf_name n"
    using wf_not_wildcard [OF that] by (auto simp: scope_owners_def owners_of_def split: if_splits)
  have wild: "m \<noteq> wildcard n" if "map_of d m = Some e" for m e
    using assms that wf_not_wildcard by blast
  show "wildcard n \<in> scope_owners d \<longleftrightarrow> (\<exists>e. map_of d n = Some e \<and> de_subdomains e)"
  proof
    assume "wildcard n \<in> scope_owners d"
    then obtain m e where m: "map_of d m = Some e" "wildcard n \<in> owners_of m (de_subdomains e)"
      by (auto simp: scope_owners_def)
    with wild [OF m(1)] show "\<exists>e. map_of d n = Some e \<and> de_subdomains e"
      by (auto simp: owners_of_def split: if_splits)
  qed (auto simp: scope_owners_def owners_of_def)
qed

lemma compiled_scope_names:
  assumes "table_ok lib t"
  shows "\<forall>m\<in>dom (map_of (ars_allows (compiled t))). wf_name m"
    "\<forall>m\<in>dom (map_of (ars_blocks (compiled t))). wf_name m"
  using resolve_ok [OF collect_rows_ok [OF assms]] by (simp_all add: compiled_def active_ok_def)

text \<open>The rule kind that decides an owner: rewrite before allow before block.\<close>

definition first_kind :: "(rule_kind \<Rightarrow> bool) \<Rightarrow> verdict option" where
  "first_kind has =
     (if has Rrewrite then Some VRewrite else if has Rallow then Some VAllow
      else if has Rblock then Some VBlock else None)"

definition owner_verdict :: "active_rule_set \<Rightarrow> string \<Rightarrow> verdict option" where
  "owner_verdict a owner =
     (if owner \<in> rewrite_owners a then Some VRewrite
      else if owner \<in> scope_owners (ars_allows a) then Some VAllow
      else if owner \<in> scope_owners (ars_blocks a) then Some VBlock else None)"

lemma owner_verdict_compiled:
  assumes t: "table_ok lib t" and p: "no_important t"
  shows "wf_name n \<Longrightarrow> owner_verdict (compiled t) n = first_kind (\<lambda>k. has_rule t k n)"
    "owner_verdict (compiled t) (wildcard n) = first_kind (\<lambda>k. has_sub_rule t k n)"
proof -
  note al = scope_owners_iff [OF compiled_scope_names(1) [OF t]]
  note bl = scope_owners_iff [OF compiled_scope_names(2) [OF t]]
  show "owner_verdict (compiled t) n = first_kind (\<lambda>k. has_rule t k n)" if "wf_name n"
    using rewrite_owners_compiled(1) [OF t that] al(1) [OF that] bl(1) [OF that]
      compiled_allow(2) [OF p, of n] compiled_block(2) [OF p, of n]
    unfolding owner_verdict_def first_kind_def by simp
  show "owner_verdict (compiled t) (wildcard n) = first_kind (\<lambda>k. has_sub_rule t k n)"
    using rewrite_owners_compiled(2) [OF t, of n] al(2) [of n] bl(2) [of n]
      compiled_allow(1) [OF p, of n] compiled_block(1) [OF p, of n]
    unfolding owner_verdict_def first_kind_def by simp
qed

section \<open>Records of one owner\<close>

lemma join_ne: "2 \<le> length xs \<Longrightarrow> sep \<noteq> [] \<Longrightarrow> join sep xs \<noteq> []"
  by (induction sep xs rule: join.induct) auto

lemma str_v6_ne: "str_v6 n \<noteq> []"
proof -
  obtain s l where sl: "best_zero_run 0 (0, 0) (0, 0) (hextets n) = (s, l)" by (metis surj_pair)
  let ?ws = "map hex_nat (hextets n)"
  have ws: "length ?ws = 8" by (simp add: hextets_def)
  have "join '':'' ((if s = 0 then [[]] else []) @ take s ?ws @ [[]] @ drop (s + l) ?ws @
      (if s + l = length ?ws then [[]] else [])) \<noteq> []"
    by (rule join_ne) (use ws in \<open>cases s; simp\<close>, simp)
  moreover have "join '':'' ?ws \<noteq> []" by (rule join_ne) (use ws in simp_all)
  ultimately show ?thesis unfolding str_v6_def Let_def sl by simp
qed

lemma str_ip_ne: "str_ip i \<noteq> []"
  by (cases i rule: str_ip.cases) (simp_all add: str_v4_def str_v6_ne)

lemma first_address_ne:
  assumes "\<forall>r\<in>set rs. address_ok r" "rs \<noteq> []"
  shows "\<exists>x. x \<noteq> [] \<and> (first_address True rs = Some x \<or> first_address False rs = Some x)"
proof -
  obtain r where r: "r \<in> set rs" using assms(2) by (meson last_in_set)
  define v4 where "v4 = (address_family r = Some Ipv4)"
  let ?P = "\<lambda>r. (address_family r = Some Ipv4) = v4 \<and> rewrite_address r \<noteq> None"
  have "?P r" using assms(1) r by (auto simp: address_ok_def v4_def)
  then have "List.find ?P rs \<noteq> None" using r by (auto simp: find_None_iff)
  then obtain s where s: "List.find ?P rs = Some s" by blast
  then have "s \<in> set rs" by (auto simp: find_Some_iff)
  with assms(1) obtain i where "rewrite_address s = Some (str_ip i)" by (auto simp: address_ok_def)
  then have "first_address v4 rs = Some (str_ip i)" unfolding first_address_def s by simp
  with str_ip_ne [of i] show ?thesis by (cases v4) auto
qed

lemma rewrite_entry_address:
  assumes "table_ok lib t" "map_of (ars_rewrites (collect_rows t)) n = Some e"
  shows "\<exists>x. x \<noteq> [] \<and> (rw_a e = Some x \<or> rw_aaaa e = Some x)"
proof -
  let ?rs = "rows_for Rrewrite n (active_rows t)"
  have e: "?rs \<noteq> []" "e = fold put_address ?rs new_rewrite_entry"
    using assms(2) by (auto simp: collect_rows_def collected_lookup fold_entry_def split: if_splits)
  have "\<forall>r\<in>set ?rs. address_ok r"
  proof
    fix r assume "r \<in> set ?rs"
    then have "r \<in> set t" "validation_state r = Valid" "rule_type r = Rrewrite"
      by (auto simp: rows_for_set set_active_rows)
    with table_okD(3) [OF assms(1), of r] show "address_ok r" by (simp add: rule_ok_def)
  qed
  from first_address_ne [OF this e(1)] show ?thesis
    by (simp add: e(2) fold_put_address_first new_rewrite_entry_def)
qed

lemma external_records_iff:
  "(k, d) \<in> set (external_records occ ds) \<longleftrightarrow>
     d = Nxdomain \<and> k \<notin> occ \<and> (\<exists>x\<in>set ds. k = rpz_name x \<or> k = wildcard (rpz_name x))"
  by (auto simp: external_records_def Let_def split: if_splits)

lemma rpz_name_wf: "wf_name x \<Longrightarrow> rpz_name x = x"
  unfolding rpz_name_def by (rule rstrip_by_id) (use wf_domain_no_edge_dot in \<open>auto simp: wf_name_def\<close>)

text \<open>An external name asks for itself and everything below it.\<close>

definition external_owner :: "string set \<Rightarrow> string \<Rightarrow> bool" where
  "external_owner D k = (\<exists>x\<in>D. k = x \<or> k = wildcard x)"

definition verdict_at :: "rpz_record list \<Rightarrow> string \<Rightarrow> verdict option" where
  "verdict_at rs k =
     (if k \<notin> fst ` set rs then None
      else if (k, Nxdomain) \<in> set rs then Some VBlock
      else if (k, Passthru) \<in> set rs then Some VAllow else Some VRewrite)"

definition zone_verdict :: "rpz_record list \<Rightarrow> string \<Rightarrow> verdict" where
  "zone_verdict rs q =
     (case zone_owner (\<lambda>k. k \<in> fst ` set rs) q of
        None \<Rightarrow> Resolve
      | Some k \<Rightarrow> (case verdict_at rs k of None \<Rightarrow> Resolve | Some v \<Rightarrow> v))"

lemma occupied_iff: "k \<in> snd (custom_records a) \<longleftrightarrow> owner_verdict a k \<noteq> None"
  by (auto simp: custom_records_owners owner_verdict_def)

text \<open>Owners of the whole zone: external names take only owners the custom rules left free.\<close>

lemma external_block_ok:
  assumes "distinct ds" "\<forall>x\<in>set ds. wf_name x"
  shows "zone_ok (external_records occ ds)"
  using assms
proof (induction ds)
  case Nil
  show ?case by (simp add: external_records_def zone_ok_def)
next
  case (Cons x ds)
  define new where "new = (if rpz_name x \<notin> occ then [(rpz_name x, Nxdomain)] else []) @ (if wildcard (rpz_name x) \<notin> occ then [(wildcard (rpz_name x), Nxdomain)] else [])"
  have x: "wf_name x" "rpz_name x = x" using Cons.prems(2) rpz_name_wf by auto
  have split: "external_records occ (x # ds) = new @ external_records occ ds" by (simp add: external_records_def new_def Let_def)
  have own: "k = x \<or> k = wildcard x" if "(k, d) \<in> set new" for k d using that x by (auto simp: new_def split: if_splits)
  have "fst a \<noteq> fst b" if a: "a \<in> set new" and b: "b \<in> set (external_records occ ds)" for a b
  proof -
    obtain y where y: "y \<in> set ds" "fst b = y \<or> fst b = wildcard y"
      using b external_records_iff [of "fst b" "snd b" occ ds] Cons.prems(2) rpz_name_wf by fastforce
    have "wf_name y" "y \<noteq> x" using y(1) Cons.prems by auto
    moreover have "fst a = x \<or> fst a = wildcard x" using a own [of "fst a" "snd a"] by simp
    ultimately show ?thesis using y(2) x(1) wf_not_wildcard by (metis wildcard_inject)
  qed
  then have "compatible a b" if "a \<in> set new" "b \<in> set (external_records occ ds)" for a b using that by (simp add: compatible_def)
  moreover have "sorted_wrt compatible new" using x wf_not_wildcard [of x] by (auto simp: new_def compatible_def)
  moreover have "zone_ok (external_records occ ds)" using Cons by simp
  ultimately show ?case unfolding split zone_ok_def sorted_wrt_append by blast
qed

lemma zone_records_compatible:
  assumes "rpz_state_ok (custom_records a)" "finite D" "\<forall>x\<in>D. wf_name x"
  shows "zone_ok (zone_records D (Some a))"
proof -
  let ?ext = "external_records (snd (custom_records a)) (sorted_list_of_set D)"
  have "fst b \<notin> snd (custom_records a)" if "b \<in> set ?ext" for b
    using that external_records_iff [of "fst b" "snd b"] by simp
  moreover have "fst x \<in> snd (custom_records a)" if "x \<in> set (fst (custom_records a))" for x
    using assms(1) that by (auto simp: rpz_state_ok_def)
  ultimately have "compatible x b" if "x \<in> set (fst (custom_records a))" "b \<in> set ?ext" for x b
    using that by (metis compatible_def)
  then show ?thesis using external_block_ok [of "sorted_list_of_set D"] assms
    by (auto simp: zone_records_def Let_def zone_ok_def sorted_wrt_append rpz_state_ok_def)
qed

lemma zone_records_iff:
  assumes "finite D" "\<forall>x\<in>D. wf_name x"
  shows "(k, d) \<in> set (zone_records D (Some a)) \<longleftrightarrow>
    (k, d) \<in> set (fst (custom_records a)) \<or> d = Nxdomain \<and> owner_verdict a k = None \<and> external_owner D k"
  using assms
  by (auto simp: zone_records_def Let_def external_records_iff occupied_iff external_owner_def rpz_name_wf)

lemma verdict_at_zone:
  assumes t: "table_ok lib t" and D: "finite D" "\<forall>x\<in>D. wf_name x"
  shows "verdict_at (zone_records D (Some (compiled t))) k =
    (case owner_verdict (compiled t) k of Some v \<Rightarrow> Some v
     | None \<Rightarrow> if external_owner D k then Some VBlock else None)"
proof -
  let ?a = "compiled t" and ?rs = "zone_records D (Some (compiled t))"
  note iff = zone_records_iff [OF D, of k _ ?a]
  have own: "k \<in> fst ` set ?rs \<longleftrightarrow> (\<exists>d. (k, d) \<in> set ?rs)" by force
  have rr: "\<exists>d. (k, d) \<in> set (fst (rewrite_records ?a))" if k: "k \<in> rewrite_owners ?a"
  proof -
    from k obtain n e where n: "map_of (ars_rewrites ?a) n = Some e" "k \<in> owners_of n (rw_subdomains e)"
      by (auto simp: rewrite_owners_def)
    then show ?thesis using rewrite_entry_address [OF t, of n e]
      by (auto simp: rewrite_records_iff compiled_lookup)
  qed
  have addr: "(k, Nxdomain) \<notin> set (fst (rewrite_records ?a))" "(k, Passthru) \<notin> set (fst (rewrite_records ?a))"
    by (auto simp: rewrite_records_iff)
  have only: "k \<in> rewrite_owners ?a" if "(k, d) \<in> set (fst (rewrite_records ?a))" for d
    using that by (auto simp: rewrite_records_iff rewrite_owners_def)
  show ?thesis
  proof (cases "owner_verdict ?a k")
    case None
    then show ?thesis using only
      by (auto simp: verdict_at_def own iff custom_records_iff owner_verdict_def split: if_splits)
  next
    case (Some v)
    then show ?thesis using rr addr only
      by (auto simp: verdict_at_def own iff custom_records_iff owner_verdict_def split: if_splits)
  qed
qed

lemma owned_iff: "k \<in> fst ` set rs \<longleftrightarrow> verdict_at rs k \<noteq> None"
  by (simp add: verdict_at_def)

lemma find_longest:
  assumes "List.find P (parents q) = Some p"
  shows "below q p" "P p" "below q x \<Longrightarrow> P x \<Longrightarrow> length x \<le> length p"
proof -
  from assms obtain i where i: "i < length (parents q)" "P (parents q ! i)" "p = parents q ! i"
    "\<And>j. j < i \<Longrightarrow> \<not> P (parents q ! j)" by (auto simp: find_Some_iff)
  show "P p" using i by simp
  show "below q p" using i(1,3) parents_below [of p q] by simp
  assume x: "below q x" "P x"
  then obtain j where j: "j < length (parents q)" "x = parents q ! j"
    using parents_below [of x q] by (auto simp: in_set_conv_nth)
  have "i \<le> j" using i(4) [of j] x(2) j by (meson not_le)
  then show "length x \<le> length p"
  proof (cases "i = j")
    case False
    with \<open>i \<le> j\<close> have "below p x"
      using parents_sorted [of q] i(1,3) j by (auto simp: sorted_wrt_iff_nth_less)
    then show ?thesis by (auto dest: below_length)
  qed (simp add: i(3) j(2))
qed

section \<open>The tester's choice\<close>

lemma decide_first_kind:
  assumes "\<forall>r\<in>set best. priority r = 0" "first_kind (\<lambda>k. \<exists>r\<in>set best. rule_type r = k) = Some v"
  shows "fst (decide best) = v"
proof -
  have ne: "of_kind k best \<noteq> [] \<longleftrightarrow> (\<exists>r\<in>set best. rule_type r = k)" for k
    by (auto simp: of_kind_def filter_empty_conv)
  have zero: "top_priority (of_kind k best) = 0" if "of_kind k best \<noteq> []" for k
  proof -
    have "set (map priority (of_kind k best)) = {0}"
      using that assms(1) by (auto simp: of_kind_def filter_empty_conv)
    then show ?thesis by (simp only: top_priority_def Max_singleton)
  qed
  from assms(2) zero show ?thesis unfolding decide_def Let_def first_kind_def
    by (auto simp: ne [symmetric] split: if_splits)
qed

lemma row_matches_iff:
  assumes "table_ok lib t" "r \<in> set (enabled_rows t)" "wf_name q"
  shows "row_matches q r \<longleftrightarrow> rule_type r \<in> {Rrewrite, Rallow, Rblock} \<and>
    (row_text (domain r) = q \<or> match_subdomains r \<and> below q (row_text (domain r)))"
proof (cases "rule_type r \<in> {Rrewrite, Rallow, Rblock}")
  case True
  with table_ok_active_name [OF assms(1), of r] assms(2)
  have "domain r = Some (row_text (domain r))" "row_text (domain r) \<noteq> []"
    by (auto simp: set_active_enabled dest: wf_name_ne)
  then show ?thesis using True by (cases "domain r") (auto simp: row_matches_def below_def row_text_def)
next
  case False
  then show ?thesis by (auto simp: row_matches_def)
qed

definition dns_kind :: "rule_kind \<Rightarrow> bool" where
  "dns_kind k = (k \<in> {Rrewrite, Rallow, Rblock})"

lemma first_kind_cong: "(\<And>k. dns_kind k \<Longrightarrow> f k = g k) \<Longrightarrow> first_kind f = first_kind g"
  by (simp add: first_kind_def dns_kind_def)

lemma first_kind_None: "first_kind f = None \<longleftrightarrow> (\<forall>k. dns_kind k \<longrightarrow> \<not> f k)"
  by (auto simp: first_kind_def dns_kind_def)

lemma best_matches_key:
  assumes "r0 \<in> set rows" "row_matches q r0"
    and "\<And>r. r \<in> set rows \<Longrightarrow> row_matches q r \<Longrightarrow> match_key q r \<le> match_key q r0"
  shows "r \<in> set (best_matches q rows) \<longleftrightarrow> r \<in> set rows \<and> row_matches q r \<and> match_key q r = match_key q r0"
proof -
  have "Max (set (map (match_key q) (filter (row_matches q) rows))) = match_key q r0"
    using assms by (intro Max_eqI) auto
  then show ?thesis by (auto simp: best_matches_def Let_def)
qed

text \<open>A rule for the name itself decides.\<close>

lemma best_matches_exact:
  assumes t: "table_ok lib t" and q: "wf_name q" and k: "dns_kind k" "has_rule t k q"
  shows "r \<in> set (best_matches q (enabled_rows t)) \<longleftrightarrow>
    r \<in> set (enabled_rows t) \<and> dns_kind (rule_type r) \<and> row_text (domain r) = q"
proof -
  note m = row_matches_iff [OF t _ q, folded dns_kind_def]
  obtain r0 where r0: "r0 \<in> set (enabled_rows t)" "rule_type r0 = k" "row_text (domain r0) = q"
    using k(2) by (auto simp: has_rule_def)
  then have m0: "row_matches q r0" using m [OF r0(1)] k(1) by simp
  have key: "match_key q r = (if row_text (domain r) = q then 1 else 0, count_char dot (row_text (domain r)) + 1)" for r
    by (auto simp: match_key_def Let_def)
  have "match_key q r \<le> match_key q r0" for r by (auto simp: key r0(3) less_eq_prod_def)
  from best_matches_key [OF r0(1) m0 this] m show ?thesis by (auto simp: key r0(3))
qed

text \<open>Otherwise the longest name with a subdomain rule decides.\<close>

lemma best_matches_parent:
  assumes t: "table_ok lib t" and q: "wf_name q"
    and none: "\<And>k. dns_kind k \<Longrightarrow> \<not> has_rule t k q"
    and n: "below q n" "dns_kind k" "has_sub_rule t k n"
    and longest: "\<And>x k. below q x \<Longrightarrow> dns_kind k \<Longrightarrow> has_sub_rule t k x \<Longrightarrow> length x \<le> length n"
  shows "r \<in> set (best_matches q (enabled_rows t)) \<longleftrightarrow>
    r \<in> set (enabled_rows t) \<and> dns_kind (rule_type r) \<and> match_subdomains r \<and> row_text (domain r) = n"
proof -
  note m = row_matches_iff [OF t _ q, folded dns_kind_def]
  obtain r0 where r0: "r0 \<in> set (enabled_rows t)" "rule_type r0 = k" "row_text (domain r0) = n" "match_subdomains r0"
    using n(3) by (auto simp: has_sub_rule_def)
  then have m0: "row_matches q r0" using m [OF r0(1)] n by simp
  have key0: "match_key q r0 = (0, count_char dot n + 1)"
    using n(1) by (auto simp: match_key_def r0(3) Let_def)
  have key: "match_key q r = (0, count_char dot (row_text (domain r)) + 1)" "below q (row_text (domain r))"
    "match_subdomains r" "length (row_text (domain r)) \<le> length n"
    if "r \<in> set (enabled_rows t)" "row_matches q r" for r
  proof -
    from that m have r: "dns_kind (rule_type r)" "row_text (domain r) = q \<or> match_subdomains r \<and> below q (row_text (domain r))"
      by auto
    have ne: "row_text (domain r) \<noteq> q" using none [OF r(1)] that(1) by (auto simp: has_rule_def)
    with r(2) show b: "below q (row_text (domain r))" "match_subdomains r" by auto
    show "match_key q r = (0, count_char dot (row_text (domain r)) + 1)"
      using ne by (auto simp: match_key_def Let_def)
    show "length (row_text (domain r)) \<le> length n"
      using b that(1) by (intro longest [OF b(1) r(1)]) (auto simp: has_sub_rule_def)
  qed
  have shorter: "row_text (domain r) = n \<or> count_char dot (row_text (domain r)) < count_char dot n"
    if r: "r \<in> set (enabled_rows t)" "row_matches q r" for r
  proof (cases "length (row_text (domain r)) = length n")
    case True
    then show ?thesis using covers_same_length [of "row_text (domain r)" q n] key(2) [OF r] n(1) by (simp add: covers_def)
  next
    case False
    with key(4) [OF r] have "below n (row_text (domain r))"
      using key(2) [OF r] n(1) by (intro below_linear [of _ q]) (auto simp: covers_def)
    then show ?thesis by (simp add: count_char_below)
  qed
  have "match_key q r \<le> match_key q r0" if "r \<in> set (enabled_rows t)" "row_matches q r" for r
    using shorter [OF that] key(1) [OF that] by (auto simp: key0 less_eq_prod_def)
  note bm = best_matches_key [OF r0(1) m0 this]
  show ?thesis
  proof
    assume "r \<in> set (best_matches q (enabled_rows t))"
    then have r: "r \<in> set (enabled_rows t)" "row_matches q r" "match_key q r = (0, count_char dot n + 1)"
      by (simp_all add: bm key0)
    with shorter [OF r(1,2)] key [OF r(1,2)] m [OF r(1)]
    show "r \<in> set (enabled_rows t) \<and> dns_kind (rule_type r) \<and> match_subdomains r \<and> row_text (domain r) = n" by auto
  next
    assume r: "r \<in> set (enabled_rows t) \<and> dns_kind (rule_type r) \<and> match_subdomains r \<and> row_text (domain r) = n"
    with m [of r] n(1) have "row_matches q r" by simp
    with r key(1) [of r] show "r \<in> set (best_matches q (enabled_rows t))" by (simp add: bm key0)
  qed
qed

section \<open>Agreement\<close>

text \<open>No external name lies below the name of a rewrite that covers its subdomains.\<close>

definition rewrites_clear :: "rule_row list \<Rightarrow> string set \<Rightarrow> bool" where
  "rewrites_clear t E = (\<forall>x\<in>E. \<forall>r\<in>set (enabled_rows t).
     rule_type r = Rrewrite \<and> match_subdomains r \<longrightarrow> \<not> below x (row_text (domain r)))"

lemma external_owner_plain: "\<forall>x\<in>D. wf_name x \<Longrightarrow> wf_name q \<Longrightarrow> external_owner D q \<longleftrightarrow> q \<in> D"
  by (auto simp: external_owner_def dest: wf_not_wildcard)

lemma external_owner_wild: "\<forall>x\<in>D. wf_name x \<Longrightarrow> external_owner D (wildcard p) \<longleftrightarrow> p \<in> D"
  by (metis external_owner_def wf_not_wildcard wildcard_inject)

lemma no_external_above:
  assumes t: "table_ok lib t" "no_important t" and E: "rewrites_clear t E"
    and v: "first_kind (\<lambda>k. has_sub_rule t k n) = Some v" "v \<noteq> VBlock" and x: "below x n"
  shows "x \<notin> subtract_allowed E (compiled t)"
proof
  assume in_D: "x \<in> subtract_allowed E (compiled t)"
  have "distinct (map fst (ars_allows (compiled t)))"
    using resolve_distinct [OF collect_rows_distinct] by (simp add: compiled_def ars_distinct_def)
  note sub = subtract_allowed_iff [OF this, of x E]
  from v consider "has_sub_rule t Rrewrite n" | "\<not> has_sub_rule t Rrewrite n" "has_sub_rule t Rallow n"
    by (auto simp: first_kind_def split: if_splits)
  then show False
  proof cases
    case 1
    with E in_D x show False by (auto simp: sub rewrites_clear_def has_sub_rule_def)
  next
    case 2
    then obtain e where "map_of (ars_allows (compiled t)) n = Some e" "de_subdomains e"
      using compiled_allow(1) [OF t(2), of n] by blast
    with in_D x show False by (auto simp: sub covers_def)
  qed
qed

lemma first_kind_best:
  assumes "\<And>r. r \<in> set best \<longleftrightarrow> r \<in> set rows \<and> dns_kind (rule_type r) \<and> Q r"
  shows "first_kind (\<lambda>k. \<exists>r\<in>set best. rule_type r = k) = first_kind (\<lambda>k. \<exists>r\<in>set rows. rule_type r = k \<and> Q r)"
  by (rule first_kind_cong) (use assms in auto)

lemma zone_verdict_exact:
  assumes t: "table_ok lib t" "no_important t" and D: "finite D" "\<forall>x\<in>D. wf_name x" and q: "wf_name q"
    and v: "first_kind (\<lambda>k. has_rule t k q) = Some v"
  shows "zone_verdict (zone_records D (Some (compiled t))) q = v"
  using v by (simp add: zone_verdict_def zone_owner_def owned_iff verdict_at_zone [OF t(1) D]
    owner_verdict_compiled(1) [OF t q])

lemma zone_verdict_parent:
  assumes t: "table_ok lib t" "no_important t" and q: "wf_name q" and E: "finite E" "\<forall>x\<in>E. wf_name x" "rewrites_clear t E"
    and none: "first_kind (\<lambda>k. has_rule t k q) = None"
    and n: "below q n" "first_kind (\<lambda>k. has_sub_rule t k n) = Some v"
    and longest: "\<And>x. below q x \<Longrightarrow> first_kind (\<lambda>k. has_sub_rule t k x) \<noteq> None \<Longrightarrow> length x \<le> length n"
  shows "zone_verdict (zone_records (subtract_allowed E (compiled t)) (Some (compiled t))) q = v"
proof -
  let ?D = "subtract_allowed E (compiled t)" and ?rs = "zone_records (subtract_allowed E (compiled t)) (Some (compiled t))"
  have D: "finite ?D" "\<forall>x\<in>?D. wf_name x"
    using E by (auto simp: subtract_allowed_def Let_def)
  have vq: "verdict_at ?rs q = (if q \<in> ?D then Some VBlock else None)"
    by (simp add: verdict_at_zone [OF t(1) D] owner_verdict_compiled(1) [OF t q] none external_owner_plain [OF D(2) q])
  have vw: "verdict_at ?rs (wildcard p) = (case first_kind (\<lambda>k. has_sub_rule t k p) of Some v \<Rightarrow> Some v
      | None \<Rightarrow> if p \<in> ?D then Some VBlock else None)" for p
    by (simp add: verdict_at_zone [OF t(1) D] owner_verdict_compiled(2) [OF t] external_owner_wild [OF D(2)])
  have own: "List.find (\<lambda>p. wildcard p \<in> fst ` set ?rs) (parents q) \<noteq> None"
    using n by (auto simp: find_None_iff owned_iff vw parents_below)
  then obtain p where p: "List.find (\<lambda>p. wildcard p \<in> fst ` set ?rs) (parents q) = Some p" by blast
  note lp = find_longest [OF p]
  have len: "length n \<le> length p" using lp(3) [OF n(1)] n(2) by (simp add: owned_iff vw)
  show ?thesis
  proof (cases "v = VBlock")
    case True
    have "verdict_at ?rs (wildcard p) = Some VBlock"
    proof (cases "first_kind (\<lambda>k. has_sub_rule t k p)")
      case None
      with lp(2) show ?thesis by (simp add: owned_iff vw split: if_splits)
    next
      case (Some w)
      with longest [OF lp(1)] len have "length p = length n" by simp
      with lp(1) n(1) have "p = n" by (intro covers_same_length [of _ q]) (simp_all add: covers_def)
      with n(2) True show ?thesis by (simp add: vw)
    qed
    with True p vq show ?thesis by (simp add: zone_verdict_def zone_owner_def owned_iff)
  next
    case False
    note ext = no_external_above [OF t E(3) n(2) False]
    have "q \<notin> ?D" using ext [OF n(1)] .
    have "p = n"
    proof (rule ccontr)
      assume "p \<noteq> n"
      then have "length n < length p"
        using len covers_same_length [of p q n] lp(1) n(1) by (auto simp: covers_def le_less)
      then have "below p n" using lp(1) n(1) by (intro below_linear [of _ q]) (simp_all add: covers_def)
      from ext [OF this] have "p \<notin> ?D" .
      moreover have "first_kind (\<lambda>k. has_sub_rule t k p) = None"
        using longest [OF lp(1)] \<open>length n < length p\<close> by force
      ultimately show False using lp(2) by (simp add: owned_iff vw)
    qed
    with \<open>q \<notin> ?D\<close> p n(2) vq vw [of n] show ?thesis by (simp add: zone_verdict_def zone_owner_def owned_iff)
  qed
qed

lemma tester_agrees:
  assumes t: "table_ok lib t" "no_important t" and q: "wf_name q"
    and E: "finite E" "\<forall>x\<in>E. wf_name x" "rewrites_clear t E"
    and match: "filter (row_matches q) (enabled_rows t) \<noteq> []"
  shows "zone_verdict (zone_records (subtract_allowed E (compiled t)) (Some (compiled t))) q =
    fst (decide (best_matches q (enabled_rows t)))"
proof -
  let ?best = "best_matches q (enabled_rows t)"
  have zero: "\<forall>r\<in>set ?best. priority r = 0"
    using t(2) by (auto simp: best_matches_def Let_def no_important_def)
  show ?thesis
  proof (cases "first_kind (\<lambda>k. has_rule t k q)")
    case (Some v)
    then obtain k where k: "dns_kind k" "has_rule t k q" using first_kind_None [of "\<lambda>k. has_rule t k q"] by auto
    have "finite (subtract_allowed E (compiled t))" "\<forall>x\<in>subtract_allowed E (compiled t). wf_name x"
      using E(1,2) by (auto simp: subtract_allowed_def Let_def)
    from zone_verdict_exact [OF t this q Some]
    have "zone_verdict (zone_records (subtract_allowed E (compiled t)) (Some (compiled t))) q = v" .
    moreover have "first_kind (\<lambda>k. \<exists>r\<in>set ?best. rule_type r = k) = Some v"
      using first_kind_best [OF best_matches_exact [OF t(1) q k]] Some by (simp add: has_rule_def)
    ultimately show ?thesis using decide_first_kind [OF zero] by simp
  next
    case None
    then have none: "\<And>k. dns_kind k \<Longrightarrow> \<not> has_rule t k q" by (simp add: first_kind_None)
    from match obtain r where r: "r \<in> set (enabled_rows t)" "row_matches q r" by (auto simp: filter_empty_conv)
    with row_matches_iff [OF t(1) r(1) q] none have "dns_kind (rule_type r)" "match_subdomains r" "below q (row_text (domain r))"
      by (auto simp: dns_kind_def has_rule_def)
    with r(1) have "below q (row_text (domain r))" "first_kind (\<lambda>k. has_sub_rule t k (row_text (domain r))) \<noteq> None"
      by (auto simp: first_kind_None has_sub_rule_def)
    then have "List.find (\<lambda>n. first_kind (\<lambda>k. has_sub_rule t k n) \<noteq> None) (parents q) \<noteq> None"
      using parents_below by (auto simp: find_None_iff)
    then obtain n where "List.find (\<lambda>n. first_kind (\<lambda>k. has_sub_rule t k n) \<noteq> None) (parents q) = Some n" by blast
    note n = find_longest [OF this]
    from n(2) obtain v where v: "first_kind (\<lambda>k. has_sub_rule t k n) = Some v" by blast
    then obtain k where k: "dns_kind k" "has_sub_rule t k n"
      using first_kind_None [of "\<lambda>k. has_sub_rule t k n"] by auto
    have long: "length x \<le> length n" if "below q x" "dns_kind j" "has_sub_rule t j x" for x j
      using that by (intro n(3)) (auto simp: first_kind_None)
    have "first_kind (\<lambda>k. \<exists>r\<in>set ?best. rule_type r = k) = Some v"
      using first_kind_best [OF best_matches_parent [OF t(1) q none n(1) k long]] v
      by (simp add: has_sub_rule_def conj_commute)
    with decide_first_kind [OF zero] have "fst (decide ?best) = v" by simp
    with zone_verdict_parent [OF t q E None n(1) v n(3)] show ?thesis by simp
  qed
qed

section \<open>The text form\<close>

definition plain_addresses :: "rule_row list \<Rightarrow> bool" where
  "plain_addresses t =
     (\<forall>r\<in>set (enabled_rows t). rule_type r = Rrewrite \<longrightarrow> clean_word (row_text (rewrite_address r)))"

lemma clean_owner:
  assumes "wf_name n" "k \<in> owners_of n b"
  shows "clean_word k \<and> hd k \<notin> {CHR '';'', CHR ''@'', CHR ''$''}"
proof -
  have n: "clean_word n" "hd n \<notin> set ''/:@;$!#^|*%''"
    using wf_name_chars [OF assms(1)] wf_name_ne [OF assms(1)] name_char_facts
    by (auto simp: clean_word_def dest!: hd_in_set)
  moreover have "clean_word (wildcard n)"
    using n(1) by (auto simp: clean_word_def wildcard_def py_isspace_def is_linebreak_def)
  ultimately show ?thesis using assms(2) by (auto simp: owners_of_def wildcard_def split: if_splits)
qed

lemma first_address_source: "first_address v rs = Some x \<Longrightarrow> \<exists>r\<in>set rs. rewrite_address r = Some x"
  by (auto simp: first_address_def bind_eq_Some_conv find_Some_iff)

lemma compiled_addresses_clean:
  assumes "plain_addresses t" "map_of (ars_rewrites (compiled t)) n = Some e" "rw_a e = Some x \<or> rw_aaaa e = Some x"
  shows "clean_word x"
proof -
  let ?rs = "rows_for Rrewrite n (active_rows t)"
  have "e = fold put_address ?rs new_rewrite_entry"
    using assms(2) by (auto simp: compiled_lookup collect_rows_def collected_lookup fold_entry_def split: if_splits)
  with assms(3) have "first_address True ?rs = Some x \<or> first_address False ?rs = Some x"
    by (simp add: fold_put_address_first new_rewrite_entry_def)
  then obtain r where "r \<in> set ?rs" "rewrite_address r = Some x" using first_address_source by blast
  with assms(1) show ?thesis
    by (auto simp: plain_addresses_def rows_for_set set_active_enabled row_text_def)
qed

lemma zone_records_clean:
  assumes t: "table_ok lib t" "plain_addresses t" and D: "finite D" "\<forall>x\<in>D. wf_name x"
  shows "\<forall>r\<in>set (zone_records D (Some (compiled t))). clean_record r"
proof
  fix r assume r: "r \<in> set (zone_records D (Some (compiled t)))"
  obtain k d where kd: "r = (k, d)" by (cases r)
  have names: "wf_name m" if "map_of (ars_rewrites (compiled t)) m = Some e" for m e
    using that resolve_ok [OF collect_rows_ok [OF t(1)]] by (auto simp: compiled_def active_ok_def)
  have "\<exists>n b. wf_name n \<and> k \<in> owners_of n b"
  proof -
    from r kd have "k \<in> rewrite_owners (compiled t) \<union> scope_owners (ars_allows (compiled t)) \<union>
        scope_owners (ars_blocks (compiled t)) \<or> external_owner D k"
      by (auto simp: zone_records_iff [OF D] custom_records_iff rewrite_records_iff rewrite_owners_def split: if_splits)
    then consider "k \<in> rewrite_owners (compiled t)" | "k \<in> scope_owners (ars_allows (compiled t))"
      | "k \<in> scope_owners (ars_blocks (compiled t))" | "external_owner D k" by blast
    then show ?thesis
    proof cases
      case 4
      then obtain x where "x \<in> D" "k \<in> owners_of x True" by (auto simp: external_owner_def owners_of_def)
      with D(2) show ?thesis by blast
    qed (use names compiled_scope_names [OF t(1)] in \<open>auto simp: rewrite_owners_def scope_owners_def, blast+\<close>)
  qed
  then have "clean_word k \<and> hd k \<notin> {CHR '';'', CHR ''@'', CHR ''$''}" using clean_owner by blast
  moreover have "case d of RA x \<Rightarrow> clean_word x | RAAAA x \<Rightarrow> clean_word x | _ \<Rightarrow> True"
    using r kd compiled_addresses_clean [OF t(2)]
    by (auto simp: zone_records_iff [OF D] custom_records_iff rewrite_records_iff split: if_splits rdata.split)
  ultimately show "clean_record r" by (simp add: clean_record_def kd)
qed

lemma show_rdata_Nxdomain:
  "show_rdata d = ''CNAME .'' \<longleftrightarrow> d = Nxdomain" "''CNAME .'' = show_rdata d \<longleftrightarrow> d = Nxdomain"
  by (cases d; simp add: show_rdata_def)+

lemma rpz_status_zone:
  assumes "\<forall>r\<in>set (zone_records D custom). clean_record r"
  shows "rpz_blocked (rpz_status (Some (render_rpz c D custom)) q) \<longleftrightarrow>
      zone_verdict (zone_records D custom) q = VBlock"
    "rpz_entry (rpz_status (Some (render_rpz c D custom)) q) =
      zone_owner (\<lambda>k. k \<in> fst ` set (zone_records D custom)) q"
proof -
  let ?rs = "zone_records D custom"
  let ?ow = "owner_lists (splitlines (render_rpz c D custom))"
  note look = rendered_owners [OF assms, of c]
  have own: "map_of ?ow k \<noteq> None \<longleftrightarrow> k \<in> fst ` set ?rs" for k
    by (auto simp: look Let_def filter_empty_conv)
  have blk: "list_ex (\<lambda>r. r = ''CNAME .'') (dict_get ?ow k []) \<longleftrightarrow> (k, Nxdomain) \<in> set ?rs" for k
  proof -
    have "dict_get ?ow k [] = map (show_rdata \<circ> snd) (filter (\<lambda>r. fst r = k) ?rs)"
      by (simp add: dict_get_def look Let_def)
    then show ?thesis by (force simp: list_ex_iff image_iff show_rdata_Nxdomain)
  qed
  have va: "(case verdict_at ?rs k of None \<Rightarrow> Resolve | Some v \<Rightarrow> v) = VBlock \<longleftrightarrow> (k, Nxdomain) \<in> set ?rs" for k
    by (force simp: verdict_at_def)
  let ?best = "best_candidate (\<lambda>k. map_of ?ow k \<noteq> None) q"
  have zo: "zone_owner (\<lambda>k. k \<in> fst ` set ?rs) q = map_option (snd \<circ> snd) ?best"
    unfolding best_candidate_owner zone_owner_def own by (simp add: option.map_comp comp_def)
  show "rpz_entry (rpz_status (Some (render_rpz c D custom)) q) = zone_owner (\<lambda>k. k \<in> fst ` set ?rs) q"
    unfolding zo rpz_status_def option.case Let_def by (cases ?best) auto
  show "rpz_blocked (rpz_status (Some (render_rpz c D custom)) q) \<longleftrightarrow> zone_verdict ?rs q = VBlock"
    unfolding zone_verdict_def zo rpz_status_def option.case Let_def
  proof (cases ?best)
    case (Some x)
    then show "rpz_blocked (case ?best of None \<Rightarrow> \<lparr>rpz_available = True, rpz_blocked = False, rpz_exact = None,
          rpz_entry = None, rpz_rdata = None\<rparr>
        | Some (ex, _, owner) \<Rightarrow> \<lparr>rpz_available = True,
            rpz_blocked = list_ex (\<lambda>r. r = ''CNAME .'') (dict_get ?ow owner []), rpz_exact = Some (ex \<noteq> 0),
            rpz_entry = Some owner, rpz_rdata = Some (join ''; '' (dict_get ?ow owner []))\<rparr>) \<longleftrightarrow>
        (case map_option (snd \<circ> snd) ?best of None \<Rightarrow> Resolve
         | Some k \<Rightarrow> case verdict_at ?rs k of None \<Rightarrow> Resolve | Some v \<Rightarrow> v) = VBlock"
      by (cases x) (simp add: blk va)
  qed simp
qed

lemma tester_verdict:
  assumes "store_ok lib db" and "no_important (filter_rules (init_db ts db))"
    and "finite E" "\<forall>x\<in>E. wf_name x" "rewrites_clear (filter_rules (init_db ts db)) E"
    and "normalize_domain lib name = Some q"
    and "\<forall>z\<in>set (local_zone_names ldb). \<not> covers z q"
    and "\<exists>r\<in>set (enabled_rows (filter_rules (init_db ts db))). row_matches q r"
  shows "\<exists>db' ev. evaluate_domain lib ts file ldb name db = Inr (db', ev) \<and> ev_rpz ev = rpz_status file q \<and>
    ev_action ev = zone_verdict (zone_records (subtract_allowed E (snd (collect_active ts db)))
      (Some (snd (collect_active ts db)))) q"
proof -
  let ?t = "filter_rules (init_db ts db)"
  have t: "table_ok lib ?t" by (rule store_ok_table [OF init_db_store_ok [OF assms(1)]])
  have c: "snd (collect_active ts db) = compiled ?t" by (simp add: collect_active_def Let_def compiled_def)
  have q: "wf_name q" by (rule normalize_domain_name [OF assms(6)])
  have m: "filter (row_matches q) (enabled_rows ?t) \<noteq> []" using assms(8) by (simp add: filter_empty_conv)
  have nolocal: "List.find (\<lambda>zone. q = zone \<or> endswith q (''.'' @ zone)) (local_zone_names ldb) = None"
    using assms(7) by (auto simp: find_None_iff covers_def below_def)
  obtain v ms msg where d: "decide (best_matches q (enabled_rows ?t)) = (v, ms, msg)" by (metis prod_cases3)
  have "zone_verdict (zone_records (subtract_allowed E (compiled ?t)) (Some (compiled ?t))) q = v"
    using tester_agrees [OF t assms(2) q assms(3-5) m] d by simp
  then show ?thesis unfolding c evaluate_domain_def assms(6) option.case Let_def nolocal
    by (simp add: evaluate_rules_def Let_def m d finish_def)
qed

section \<open>Properties\<close>

text \<open>
  C2: the domain tester says what the compiled zone does.  For a reachable store without important
  rules, external names of which none lies below a subdomain rewrite, and a name that some rule
  matches and no local zone covers, the verdict of \<^verbatim>\<open>evaluate_domain\<close> is the verdict of the zone that the
  deployment compiles from the same database.
\<close>

theorem tester_agrees_with_zone:
  assumes "store_reachable lib db"
    and "no_important (filter_rules (init_db ts db))"
    and "finite E" "\<forall>x\<in>E. wf_name x" "rewrites_clear (filter_rules (init_db ts db)) E"
    and "normalize_domain lib name = Some q"
    and "\<forall>z\<in>set (local_zone_names ldb). \<not> covers z q"
    and "\<exists>r\<in>set (enabled_rows (filter_rules (init_db ts db))). row_matches q r"
  shows "\<exists>db' ev. evaluate_domain lib ts file ldb name db = Inr (db', ev) \<and>
    ev_action ev = zone_verdict (zone_records (subtract_allowed E (snd (collect_active ts db)))
      (Some (snd (collect_active ts db)))) q"
  using tester_verdict [OF store_reachable_ok [OF assms(1)] assms(2-8)] by blast

theorem tester_agrees_with_zone_witness:
  "\<exists>db' ev. evaluate_domain plain_lib ''t'' None None ''ok.ads.example.com'' example_store = Inr (db', ev) \<and>
    ev_action ev = zone_verdict (zone_records (subtract_allowed {''bad.example.net''} (snd (collect_active ''t'' example_store)))
      (Some (snd (collect_active ''t'' example_store)))) ''ok.ads.example.com''"
proof (rule tester_agrees_with_zone [OF example_reachable])
  show "no_important (filter_rules (init_db ''t'' example_store))" unfolding example_store_rows by code_simp
  show "finite {''bad.example.net''}" by simp
  show "\<forall>x\<in>{''bad.example.net''}. wf_name x" by code_simp
  show "rewrites_clear (filter_rules (init_db ''t'' example_store)) {''bad.example.net''}" unfolding example_store_rows by code_simp
  show "normalize_domain plain_lib ''ok.ads.example.com'' = Some ''ok.ads.example.com''" by code_simp
  show "\<forall>z\<in>set (local_zone_names None). \<not> covers z ''ok.ads.example.com''" by (simp add: local_zone_names_def)
  show "\<exists>r\<in>set (enabled_rows (filter_rules (init_db ''t'' example_store))). row_matches ''ok.ads.example.com'' r"
    unfolding example_store_rows by code_simp
qed

text \<open>
  C6: in the zone compiled from a reachable rule store and any finite set of well-formed external names, no owner carries two
  records that DNS forbids together: a second record of an owner is only ever the AAAA beside its A, be the records from custom
  rules, from blocklists, or one from each.  (A CNAME beside any other record would make the whole zone fail to load.)
\<close>

theorem compiled_zone_owners_compatible:
  assumes "store_reachable lib db" "finite D" "\<forall>x\<in>D. wf_name x"
  shows "zone_ok (zone_records D (Some (snd (collect_active ts db))))"
  using zone_records_compatible [OF custom_records_reachable [OF assms(1)] assms(2,3)] .

theorem compiled_zone_owners_compatible_witness:
  "zone_ok (zone_records {''ads.example.com'', ''bad.example.net''} (Some (snd (collect_active ''t'' example_store))))"
  by (rule compiled_zone_owners_compatible [OF example_reachable]) (simp, code_simp)

text \<open>
  the status the tester reads from the zone file is the one the records give: a name is shown as
  blocked exactly when the record that decides it is a block, and the entry shown is the exact owner
  or else the wildcard of the nearest parent that has one.
\<close>

theorem zone_file_status_exact:
  assumes "store_reachable lib db" "plain_addresses (filter_rules (init_db ts db))"
    and "finite D" "\<forall>x\<in>D. wf_name x"
  shows "(rpz_blocked (rpz_status (Some (render_rpz clock D (Some (snd (collect_active ts db))))) q) \<longleftrightarrow>
      zone_verdict (zone_records D (Some (snd (collect_active ts db)))) q = VBlock) \<and>
    rpz_entry (rpz_status (Some (render_rpz clock D (Some (snd (collect_active ts db))))) q) =
      zone_owner (\<lambda>k. k \<in> fst ` set (zone_records D (Some (snd (collect_active ts db))))) q"
proof -
  let ?t = "filter_rules (init_db ts db)"
  have c: "snd (collect_active ts db) = compiled ?t" by (simp add: collect_active_def Let_def compiled_def)
  have t: "table_ok lib ?t"
    by (rule store_ok_table [OF init_db_store_ok [OF store_reachable_ok [OF assms(1)]]])
  note clean = zone_records_clean [OF t assms(2-4)]
  show ?thesis unfolding c using rpz_status_zone [OF clean] by blast
qed

theorem zone_file_status_exact_witness:
  "(rpz_blocked (rpz_status (Some (render_rpz 7 {''bad.example.net''} (Some (snd (collect_active ''t'' example_store))))) ''x.bad.example.net'') \<longleftrightarrow>
      zone_verdict (zone_records {''bad.example.net''} (Some (snd (collect_active ''t'' example_store)))) ''x.bad.example.net'' = VBlock) \<and>
    rpz_entry (rpz_status (Some (render_rpz 7 {''bad.example.net''} (Some (snd (collect_active ''t'' example_store))))) ''x.bad.example.net'') =
      zone_owner (\<lambda>k. k \<in> fst ` set (zone_records {''bad.example.net''} (Some (snd (collect_active ''t'' example_store))))) ''x.bad.example.net''"
proof (rule zone_file_status_exact [OF example_reachable])
  show "plain_addresses (filter_rules (init_db ''t'' example_store))" unfolding example_store_rows by code_simp
  show "finite {''bad.example.net''}" by simp
  show "\<forall>x\<in>{''bad.example.net''}. wf_name x" by code_simp
qed

definition important_store :: rules_db where
  "important_store = add_texts plain_lib [''@@||example.com^'', ''|example.com^$important'']
     \<lparr>filter_rules = [], legacy_rules = None\<rparr>"

text \<open>
  with important rules the two differ: an important exact block removes the subdomain allow of
  the same name from the compiled zone altogether, while the tester still reports the subdomains as
  allowed.
\<close>

theorem tester_differs_for_important_block:
  "(case evaluate_domain plain_lib ''t'' None None ''www.example.com'' important_store of
      Inl _ \<Rightarrow> False | Inr (_, ev) \<Rightarrow> ev_action ev = VAllow) \<and>
   zone_verdict (zone_records {''www.example.com''} (Some (snd (collect_active ''t'' important_store)))) ''www.example.com'' = VBlock \<and>
   subtract_allowed {''www.example.com''} (snd (collect_active ''t'' important_store)) = {''www.example.com''}"
  by code_simp

text \<open>The store that holds the one rule \<^verbatim>\<open>||example.com^$dnsrewrite=1.2.3.4\<close>.\<close>

definition rewrite_store :: rules_db where
  "rewrite_store = \<lparr>filter_rules = [(example_row 1 ''||example.com^$dnsrewrite=1.2.3.4'' Rrewrite Arewrite ''example.com'' True)
     \<lparr>rewrite_address := Some ''1.2.3.4'', address_family := Some Ipv4\<rparr>], legacy_rules = None\<rparr>"

text \<open>
  the condition on rewrites is needed: an external name below a rewrite that covers its subdomains is blocked by the zone, while the
  tester reports the rewrite.
\<close>

theorem tester_differs_below_rewrite:
  "(case evaluate_domain plain_lib ''t'' None None ''ads.example.com'' rewrite_store of
      Inl _ \<Rightarrow> False | Inr (_, ev) \<Rightarrow> ev_action ev = VRewrite) \<and>
   zone_verdict (zone_records (subtract_allowed {''ads.example.com''} (snd (collect_active ''t'' rewrite_store)))
     (Some (snd (collect_active ''t'' rewrite_store)))) ''ads.example.com'' = VBlock"
  by code_simp

end
