(* ===== verification/Policy_Cache.thy ===== *)
theory Policy_Cache
  imports Source_Lists Dns_Cache Rpz_Agreement
begin

text \<open>
  The reusable protection policy (\<^verbatim>\<open>app/alderpointdns_compiler.py\<close>): the refreshed zone serial, the
  manifest of everything the compiled policy depends on, the cached pair of zone and manifest, and the
  test whether the cached zone may be activated without a rebuild.  The digest of a manifest (SHA-256 of
  its canonical JSON) and the hash of a file are arguments.  Shown: refreshing the serial of a rendered
  zone is rendering it at the new time, and a cached zone that passes the test is the zone a rebuild from
  the current database and downloads would give.
\<close>

section \<open>The zone serial\<close>

text \<open>
  The pattern of \<^verbatim>\<open>refresh_rpz_serial\<close> as a sequence of literals, runs of blanks and runs of digits.  A run
  is followed by something it cannot contain, so the greedy match is the only one.
\<close>

datatype token = Lit string | Blanks | Digits

fun eat :: "token \<Rightarrow> string \<Rightarrow> (string \<times> string) option" where
  "eat (Lit w) s = (if startswith s w then Some (w, drop (length w) s) else None)"
| "eat Blanks s = (case takeWhile py_isspace s of [] \<Rightarrow> None | w \<Rightarrow> Some (w, dropWhile py_isspace s))"
| "eat Digits s = (case takeWhile is_ascii_digit s of [] \<Rightarrow> None | w \<Rightarrow> Some (w, dropWhile is_ascii_digit s))"

fun eats :: "token list \<Rightarrow> string \<Rightarrow> (string \<times> string) option" where
  "eats [] s = Some ([], s)"
| "eats (t # ts) s =
     (case eat t s of None \<Rightarrow> None
      | Some (w, r) \<Rightarrow> (case eats ts r of None \<Rightarrow> None | Some (v, r') \<Rightarrow> Some (w @ v, r')))"

definition serial_before :: "token list" where
  "serial_before = [Lit ''@'', Blanks, Lit ''IN'', Blanks, Lit ''SOA'', Blanks, Lit ''localhost.'', Blanks,
     Lit ''hostmaster.localhost.'', Blanks]"

definition serial_after :: "token list" where
  "serial_after = [Blanks, Lit ''1h'', Blanks, Lit ''15m'', Blanks, Lit ''30d'', Blanks, Lit ''2h'']"

definition refresh_at :: "string \<Rightarrow> string \<Rightarrow> string option" where
  "refresh_at serial s =
     (case eats serial_before s of
        None \<Rightarrow> None
      | Some (u, r) \<Rightarrow>
          (case eat Digits r of
             None \<Rightarrow> None
           | Some (_, r1) \<Rightarrow>
               (case eats serial_after r1 of None \<Rightarrow> None | Some (v, r2) \<Rightarrow> Some (u @ serial @ v @ r2))))"

fun refresh_text :: "string \<Rightarrow> string \<Rightarrow> string" where
  "refresh_text serial [] = []"
| "refresh_text serial (c # s) =
     (case refresh_at serial (c # s) of Some t \<Rightarrow> t | None \<Rightarrow> c # refresh_text serial s)"

definition refresh_rpz_serial :: "nat \<Rightarrow> string \<Rightarrow> string" where
  "refresh_rpz_serial clock rpz_text = refresh_text (str_nat clock) rpz_text"

section \<open>The manifest\<close>

definition POLICY_CACHE_VERSION :: string where
  "POLICY_CACHE_VERSION = ''2026-08-09-v1-policy-manifest''"

definition RPZ_ZONE :: string where "RPZ_ZONE = ''alderpointdns.rpz''"

type_synonym upstream_row = "(string \<times> pyval) list"

text \<open>The database tables and files the compiled policy depends on.\<close>

record policy_state =
  ps_sources :: source_db
  ps_rules :: rules_db
  ps_local :: local_db
  ps_cache :: cache_db
  ps_upstream :: "upstream_row list"
  ps_files :: file_map

record source_item =
  si_id :: nat
  si_name :: string
  si_url :: string
  si_enabled :: bool
  si_category :: string
  si_content_sha256 :: "string option"

record rule_view =
  rv_id :: nat
  rv_rule_text :: string
  rv_normalized :: string
  rv_rule_type :: rule_kind
  rv_action :: rule_action
  rv_domain :: "string option"
  rv_match_subdomains :: bool
  rv_pattern :: "string option"
  rv_rewrite_address :: "string option"
  rv_address_family :: "family option"
  rv_qtype_restriction :: "string option"
  rv_priority :: int
  rv_enabled :: bool
  rv_validation_state :: vstate

record local_view =
  lv_id :: nat
  lv_name :: string
  lv_fqdn :: string
  lv_type :: rtype
  lv_value :: string
  lv_ttl :: int
  lv_enabled :: bool
  lv_auto_ptr :: bool
  lv_ptr_record_id :: "nat option"
  lv_comment :: string

record policy_manifest =
  pm_policy_version :: string
  pm_parser_version :: string
  pm_zone :: string
  pm_sources :: "source_item list"
  pm_rules :: "rule_view list"
  pm_legacy :: "(nat \<times> string \<times> rule_action \<times> bool \<times> string) list"
  pm_local_settings :: "(string \<times> string) list"
  pm_local_records :: "local_view list"
  pm_cache_settings :: "(string \<times> string) list"
  pm_upstream :: "upstream_row list"

definition rule_columns :: "rule_row \<Rightarrow> rule_view" where
  "rule_columns r = \<lparr>rv_id = row_id r, rv_rule_text = rule_text r, rv_normalized = normalized r,
     rv_rule_type = rule_type r, rv_action = action r, rv_domain = domain r, rv_match_subdomains = match_subdomains r,
     rv_pattern = pattern r, rv_rewrite_address = rewrite_address r, rv_address_family = address_family r,
     rv_qtype_restriction = qtype_restriction r, rv_priority = priority r, rv_enabled = enabled r,
     rv_validation_state = validation_state r\<rparr>"

definition local_columns :: "local_record \<Rightarrow> local_view" where
  "local_columns r = \<lparr>lv_id = ld_id r, lv_name = ld_name r, lv_fqdn = ld_fqdn r, lv_type = ld_type r,
     lv_value = ld_value r, lv_ttl = ld_ttl r, lv_enabled = ld_enabled r, lv_auto_ptr = ld_auto_ptr r,
     lv_ptr_record_id = ld_ptr_record_id r, lv_comment = ld_comment r\<rparr>"

text \<open>The loop over the sources; an enabled source without a download ends it with nothing.\<close>

fun source_items :: "(string \<Rightarrow> string) \<Rightarrow> file_map \<Rightarrow> source_row list \<Rightarrow> source_item list option" where
  "source_items sha files [] = Some []"
| "source_items sha files (s # ss) =
     (let item = \<lambda>h. \<lparr>si_id = src_id s, si_name = src_name s, si_url = src_url s, si_enabled = src_enabled s,
                      si_category = src_category s, si_content_sha256 = h\<rparr> in
      if src_enabled s then
        (case map_of files (current_path sha s) of
           None \<Rightarrow> None
         | Some content \<Rightarrow> map_option (\<lambda>rest. item (Some (sha content)) # rest) (source_items sha files ss))
      else map_option (\<lambda>rest. item None # rest) (source_items sha files ss))"

definition protection_policy_manifest :: "(string \<Rightarrow> string) \<Rightarrow> policy_state \<Rightarrow> policy_manifest option" where
  "protection_policy_manifest sha st =
     map_option (\<lambda>items.
       \<lparr>pm_policy_version = POLICY_CACHE_VERSION, pm_parser_version = PARSER_CACHE_VERSION, pm_zone = RPZ_ZONE,
        pm_sources = items,
        pm_rules = map rule_columns (sort_key row_id (filter_rules (ps_rules st))),
        pm_legacy = (case legacy_rules (ps_rules st) of
            None \<Rightarrow> []
          | Some rows \<Rightarrow> map (\<lambda>r. (lr_id r, lr_domain r, lr_action r, lr_enabled r, lr_comment r)) (sort_key lr_id rows)),
        pm_local_settings = sort_key fst (dns_settings (ps_local st)),
        pm_local_records = map local_columns (sort_key ld_id (dns_records (ps_local st))),
        pm_cache_settings = sort_key fst (cache_settings_table (ps_cache st)),
        pm_upstream = ps_upstream st\<rparr>)
     (source_items sha (ps_files st) (sort_key src_id (sources (ps_sources st))))"

section \<open>The cached pair\<close>

record cached_manifest =
  cm_sha256 :: string
  cm_active_domains :: nat

text \<open>The manifest file is missing, unreadable (with the error shown) or read.\<close>

record policy_cache =
  pc_rpz :: "string option"
  pc_manifest :: "cached_manifest result option"

text \<open>
  \<open>steps\<close> counts the file operations that succeed before an \<^verbatim>\<open>OSError\<close>: two staged writes, then the
  replacement of the zone and of the manifest.
\<close>

definition record_reusable_protection_policy ::
  "(policy_manifest \<Rightarrow> string) \<Rightarrow> (string \<Rightarrow> string) \<Rightarrow> nat \<Rightarrow> policy_state \<Rightarrow> string \<Rightarrow> nat \<Rightarrow> policy_cache \<Rightarrow> policy_cache" where
  "record_reusable_protection_policy digest sha steps st rpz_text active_domains pc =
     (if active_domains = 0 then pc
      else case protection_policy_manifest sha st of
        None \<Rightarrow> pc
      | Some m \<Rightarrow>
          \<lparr>pc_rpz = (if 3 \<le> steps then Some rpz_text else pc_rpz pc),
           pc_manifest = (if 4 \<le> steps
             then Some (Inr \<lparr>cm_sha256 = digest m, cm_active_domains = active_domains\<rparr>) else pc_manifest pc)\<rparr>)"

definition has_regex_rules :: "rule_row list \<Rightarrow> bool" where
  "has_regex_rules t =
     list_ex (\<lambda>r. enabled r \<and> validation_state r = Valid \<and> rule_type r \<in> {Rregex_allow, Rregex_block}) t"

definition reusable_protection_policy_available ::
  "(policy_manifest \<Rightarrow> string) \<Rightarrow> (string \<Rightarrow> string) \<Rightarrow> policy_state \<Rightarrow> policy_cache \<Rightarrow> bool \<times> string" where
  "reusable_protection_policy_available digest sha st pc =
     (case (pc_rpz pc, pc_manifest pc) of
        (Some _, Some cached) \<Rightarrow>
          if has_regex_rules (filter_rules (ps_rules st))
          then (False, ''enabled regex rules require full dnsdist-layer deployment'')
          else (case cached of
              Inl e \<Rightarrow> (False, ''cached policy manifest is unreadable: '' @ e)
            | Inr cm \<Rightarrow>
                (case protection_policy_manifest sha st of
                   None \<Rightarrow> (False, ''current policy inputs are incomplete'')
                 | Some m \<Rightarrow>
                     if cm_sha256 cm \<noteq> digest m then (False, ''current policy inputs do not match cached manifest'')
                     else (True, ''cached compiled policy matches current inputs'')))
      | _ \<Rightarrow> (False, ''cached policy artifact is missing''))"

section \<open>Compilation\<close>

text \<open>
  What a deployment compiles: the blocks left of the sources and the active custom rules.  \<open>net\<close> is absent
  when nothing is downloaded.
\<close>

definition compile_blocks ::
  "stdlib \<Rightarrow> (string \<Rightarrow> string) \<Rightarrow> string \<Rightarrow> (nat \<Rightarrow> fetch) option \<Rightarrow> policy_state \<Rightarrow> string set" where
  "compile_blocks lib sha ts net st =
     subtract_allowed (co_blocks (collect_rules lib sha ts net (ps_sources st) (ps_files st)))
       (snd (collect_active ts (ps_rules st)))"

definition compile_rpz ::
  "stdlib \<Rightarrow> (string \<Rightarrow> string) \<Rightarrow> string \<Rightarrow> (nat \<Rightarrow> fetch) option \<Rightarrow> nat \<Rightarrow> policy_state \<Rightarrow> string" where
  "compile_rpz lib sha ts net clock st =
     render_rpz clock (compile_blocks lib sha ts net st) (Some (snd (collect_active ts (ps_rules st))))"

section \<open>Refreshing is rendering again\<close>

lemma render_rpz_split:
  "\<exists>rest. \<forall>clock. render_rpz clock D custom =
     ''$TTL 2h'' @ [newline] @ ''@ IN SOA localhost. hostmaster.localhost. '' @ str_nat clock @ '' 1h 15m 30d 2h'' @ rest"
  by (rule exI [of _ "[newline] @ join [newline] (''@ IN NS localhost.'' # [] # map show_record (zone_records D custom)) @ [newline]"])
     (simp add: render_rpz_def rpz_header_def)

lemma takeWhile_digits: "takeWhile is_ascii_digit (str_nat n @ CHR '' '' # s) = str_nat n"
  "dropWhile is_ascii_digit (str_nat n @ CHR '' '' # s) = CHR '' '' # s"
  using str_nat_digits [of n] by (auto simp: list_all_iff is_ascii_digit_def Let_def intro!: takeWhile_tail dropWhile_append3
      [THEN trans] dropWhile_append2 [THEN trans])

lemma eat_digits: "eat Digits (str_nat n @ CHR '' '' # s) = Some (str_nat n, CHR '' '' # s)"
  unfolding eat.simps takeWhile_digits by (cases "str_nat n") simp_all

lemma refresh_at_serial:
  "refresh_at serial (''@ IN SOA localhost. hostmaster.localhost. '' @ str_nat n @ '' 1h 15m 30d 2h'' @ rest) =
     Some (''@ IN SOA localhost. hostmaster.localhost. '' @ serial @ '' 1h 15m 30d 2h'' @ rest)"
proof -
  obtain c t where ct: "str_nat n = c # t" by (cases "str_nat n") auto
  have "is_ascii_digit c" using str_nat_digits [of n] by (simp add: ct)
  then have c: "\<not> py_isspace c" using digit_not_space by blast
  have "eats serial_before (''@ IN SOA localhost. hostmaster.localhost. '' @ str_nat n @ '' 1h 15m 30d 2h'' @ rest) =
      Some (''@ IN SOA localhost. hostmaster.localhost. '', str_nat n @ '' 1h 15m 30d 2h'' @ rest)"
    using c by (simp add: serial_before_def ct py_isspace_def)
  moreover have "eat Digits (str_nat n @ '' 1h 15m 30d 2h'' @ rest) = Some (str_nat n, '' 1h 15m 30d 2h'' @ rest)"
    using eat_digits [of n "''1h 15m 30d 2h'' @ rest"] by (simp only: append_Cons append_Nil)
  moreover have "eats serial_after ('' 1h 15m 30d 2h'' @ rest) = Some ('' 1h 15m 30d 2h'', rest)"
    by (simp add: serial_after_def py_isspace_def)
  ultimately show ?thesis by (simp add: refresh_at_def)
qed

lemma refresh_at_None: "c \<noteq> CHR ''@'' \<Longrightarrow> refresh_at serial (c # s) = None"
  by (simp add: refresh_at_def serial_before_def)

lemma refresh_rendered: "refresh_rpz_serial clock' (render_rpz clock D custom) = render_rpz clock' D custom"
proof -
  obtain rest where r: "\<And>clock. render_rpz clock D custom =
     ''$TTL 2h'' @ [newline] @ ''@ IN SOA localhost. hostmaster.localhost. '' @ str_nat clock @ '' 1h 15m 30d 2h'' @ rest"
    using render_rpz_split [of D custom] by blast
  have "refresh_text z (''$TTL 2h'' @ [newline] @ s) = ''$TTL 2h'' @ [newline] @ refresh_text z s" for z s
    by (simp add: refresh_at_None newline_def)
  moreover have "refresh_text z (''@ IN SOA localhost. hostmaster.localhost. '' @ str_nat clock @ '' 1h 15m 30d 2h'' @ rest) =
      ''@ IN SOA localhost. hostmaster.localhost. '' @ z @ '' 1h 15m 30d 2h'' @ rest" for z
    using refresh_at_serial [of z clock rest] by simp
  ultimately show ?thesis by (simp only: refresh_rpz_serial_def r)
qed

section \<open>What the manifest determines\<close>

text \<open>The downloads on disk are among the contents \<open>K\<close>; the names of one source as its download on disk has them.\<close>

definition downloads_in :: "string set \<Rightarrow> file_map \<Rightarrow> bool" where
  "downloads_in K files \<longleftrightarrow> (\<forall>p content. prefix ''current/'' p \<longrightarrow> map_of files p = Some content \<longrightarrow> content \<in> K)"

lemma downloads_inD: "downloads_in K files \<Longrightarrow> map_of files (current_path sha s) = Some content \<Longrightarrow> content \<in> K"
  using current_path_prefix unfolding downloads_in_def by blast

definition source_names :: "stdlib \<Rightarrow> (string \<Rightarrow> string) \<Rightarrow> file_map \<Rightarrow> source_row \<Rightarrow> string set \<times> string set" where
  "source_names lib sha files s =
     (case map_of files (current_path sha s) of
        None \<Rightarrow> ({}, {})
      | Some content \<Rightarrow> (case parse_rule_lines lib (file_lines content) of (bs, als, _) \<Rightarrow> (bs, als)))"

definition entry_names :: "source_row \<times> parse_state \<Rightarrow> string set \<times> string set" where
  "entry_names e = (fst (snd e), fst (snd (snd e)))"

lemma gather_source_names:
  assumes g: "gather_inv lib sha K files g" and inj: "inj_on sha K"
    and K: "downloads_in K files" and path: "sr_path r = Some (current_path sha s)"
  shows "map entry_names (ga_entries (gather_source lib sha ts (s, r) g)) =
    map entry_names (ga_entries g) @ [source_names lib sha files s]"
proof -
  have same: "map_of (ga_files g) (current_path sha s) = map_of files (current_path sha s)"
    using g current_path_prefix by (auto simp: gather_inv_def)
  show ?thesis
  proof (cases "map_of files (current_path sha s)")
    case None
    then show ?thesis using same
      by (auto simp: gather_source_def source_names_def entry_names_def path Let_def split: option.splits)
  next
    case (Some content)
    then have k: "content \<in> K" using K current_path_prefix by (auto simp: downloads_in_def)
    obtain res f c where p: "parse_source_file lib sha ts s content (ga_files g) (ga_cache g) = (res, f, c)"
      by (metis prod_cases3)
    have cs: "cache_sound lib sha K (ga_files g) (ga_cache g)" using g by (simp add: gather_inv_def)
    have "res = parse_rule_lines lib (file_lines content)" by (rule parse_source_file_sound(1) [OF inj k cs p])
    then show ?thesis using same Some p
      by (auto simp: gather_source_def source_names_def entry_names_def path Let_def split: option.splits prod.splits)
  qed
qed

lemma fetch_local:
  "fetch_all sha None ss files = (pending, downloads, files') \<Longrightarrow>
     files' = files \<and> map fst pending = ss \<and> (\<forall>(s, r)\<in>set pending. sr_path r = Some (current_path sha s))"
  by (induction ss arbitrary: pending downloads) (auto simp: Let_def split: prod.splits)

lemma gather_all_names:
  assumes "inj_on sha K" and K: "downloads_in K files"
  shows "gather_inv lib sha K files g \<Longrightarrow> (\<forall>(s, r)\<in>set pending. sr_path r = Some (current_path sha s)) \<Longrightarrow>
    map entry_names (ga_entries (fold (gather_source lib sha ts) pending g)) =
      map entry_names (ga_entries g) @ map (source_names lib sha files \<circ> fst) pending"
proof (induction pending arbitrary: g)
  case (Cons p pending)
  obtain s r where p: "p = (s, r)" by (cases p)
  have "gather_inv lib sha K files (gather_source lib sha ts (s, r) g)"
    using Cons.prems p K by (intro gather_source_inv [OF _ assms(1)]) (auto simp: downloads_in_def)
  moreover have "map entry_names (ga_entries (gather_source lib sha ts (s, r) g)) =
      map entry_names (ga_entries g) @ [source_names lib sha files s]"
    by (rule gather_source_names [OF Cons.prems(1) assms(1) K]) (use Cons.prems(2) p in auto)
  ultimately show ?case using Cons.IH Cons.prems(2) by (simp add: p)
qed simp

lemma names_of_entries:
  "blocks_of es = \<Union> (fst ` set (map entry_names es))" "allows_of es = \<Union> (snd ` set (map entry_names es))"
  by (auto simp: blocks_of_def allows_of_def entry_names_def)

lemma collected_blocks:
  assumes "inj_on sha K" "cache_sound lib sha K files (parse_cache db)" and K: "downloads_in K files"
  shows "co_blocks (collect_rules lib sha ts None db files) =
    (\<Union>s\<in>set (enabled_sources (sources db)). fst (source_names lib sha files s)) -
    (\<Union>s\<in>set (enabled_sources (sources db)). snd (source_names lib sha files s))"
proof -
  obtain pending downloads files1 where f: "fetch_all sha None (enabled_sources (sources db)) files = (pending, downloads, files1)"
    by (metis prod_cases3)
  note ff = fetch_local [OF f]
  let ?g0 = "\<lparr>ga_entries = [], ga_errors = [], ga_files = files, ga_cache = parse_cache db\<rparr>"
  have "gather_inv lib sha K files ?g0" using assms(2) by (simp add: gather_inv_def)
  then have "map entry_names (ga_entries (fold (gather_source lib sha ts) pending ?g0)) =
      map entry_names (ga_entries ?g0) @ map (source_names lib sha files \<circ> fst) pending"
    by (rule gather_all_names [OF assms(1) K]) (use ff in auto)
  with ff have eq: "map entry_names (ga_entries (fold (gather_source lib sha ts) pending ?g0)) =
      map (source_names lib sha files) (enabled_sources (sources db))"
    by (simp add: map_map [symmetric] del: map_map)
  have "co_blocks (collect_rules lib sha ts None db files) =
      blocks_of (ga_entries (fold (gather_source lib sha ts) pending ?g0)) -
      allows_of (ga_entries (fold (gather_source lib sha ts) pending ?g0))"
    using ff by (simp add: collect_rules_def f Let_def attribute_unique_same)
  then show ?thesis by (simp only: names_of_entries eq set_map image_image)
qed

lemma source_items_content:
  assumes "source_items sha files ss = Some items" "s \<in> set ss" "src_enabled s"
  shows "\<exists>content. map_of files (current_path sha s) = Some content \<and>
    \<lparr>si_id = src_id s, si_name = src_name s, si_url = src_url s, si_enabled = True, si_category = src_category s,
     si_content_sha256 = Some (sha content)\<rparr> \<in> set items"
  using assms by (induction ss arbitrary: items) (auto simp: Let_def split: if_splits option.splits)

lemma source_items_source:
  "source_items sha files ss = Some items \<Longrightarrow> i \<in> set items \<Longrightarrow> si_enabled i \<Longrightarrow>
   \<exists>s content. s \<in> set ss \<and> src_enabled s \<and> map_of files (current_path sha s) = Some content \<and>
    i = \<lparr>si_id = src_id s, si_name = src_name s, si_url = src_url s, si_enabled = True, si_category = src_category s,
     si_content_sha256 = Some (sha content)\<rparr>"
proof (induction ss arbitrary: items)
  case (Cons s ss)
  obtain first rest where items: "items = first # rest" "source_items sha files ss = Some rest"
    using Cons.prems(1) by (auto simp: Let_def split: if_splits option.splits)
  show ?case
  proof (cases "i = first")
    case True
    then show ?thesis using Cons.prems items
      by (intro exI [of _ s]) (auto simp: Let_def split: if_splits option.splits)
  next
    case False
    then show ?thesis using Cons.IH [OF items(2)] Cons.prems(2,3) items(1) by auto
  qed
qed simp

lemma same_items_names:
  assumes "source_items sha files ss = Some items" "source_items sha files' ss' = Some items" "inj_on sha K"
    and "downloads_in K files" "downloads_in K files'"
  shows "source_names lib sha files ` set (enabled_sources ss) \<subseteq> source_names lib sha files' ` set (enabled_sources ss')"
proof
  fix x assume "x \<in> source_names lib sha files ` set (enabled_sources ss)"
  then obtain s where s: "s \<in> set ss" "src_enabled s" "x = source_names lib sha files s"
    by (auto simp: enabled_sources_def)
  from source_items_content [OF assms(1) s(1,2)] obtain content where
    c: "map_of files (current_path sha s) = Some content"
    and i: "\<lparr>si_id = src_id s, si_name = src_name s, si_url = src_url s, si_enabled = True, si_category = src_category s,
     si_content_sha256 = Some (sha content)\<rparr> \<in> set items" by blast
  from source_items_source [OF assms(2) i] obtain s' content' where s': "s' \<in> set ss'" "src_enabled s'"
    "map_of files' (current_path sha s') = Some content'" "src_id s' = src_id s" "src_name s' = src_name s"
    "sha content' = sha content" by auto
  have "content' = content"
    by (rule inj_onD [OF assms(3) s'(6) downloads_inD [OF assms(5) s'(3)] downloads_inD [OF assms(4) c]])
  then have "source_names lib sha files' s' = x" using c s' s(3) by (simp add: source_names_def)
  then show "x \<in> source_names lib sha files' ` set (enabled_sources ss')"
    using s'(1,2) by (auto simp: enabled_sources_def)
qed

lemma map_insort_key: "map g (insort_key (\<lambda>x. f (g x)) x xs) = insort_key f (g x) (map g xs)"
  by (induction xs) auto

lemma map_sort_key: "map g (sort_key (\<lambda>x. f (g x)) xs) = sort_key f (map g xs)"
  by (induction xs) (simp_all add: map_insort_key sort_key_def)

text \<open>The active rule set as a function of the listed columns.\<close>

definition row_of_columns :: "rule_view \<Rightarrow> rule_row" where
  "row_of_columns v = parsed_rule.extend
     \<lparr>rule_text = rv_rule_text v, normalized = rv_normalized v, rule_type = rv_rule_type v, action = rv_action v,
      domain = rv_domain v, match_subdomains = rv_match_subdomains v, pattern = rv_pattern v,
      rewrite_address = rv_rewrite_address v, address_family = rv_address_family v,
      qtype_restriction = rv_qtype_restriction v, priority = rv_priority v, validation_state = rv_validation_state v,
      unsupported_reason = [], comment = []\<rparr>
     \<lparr>row_id = rv_id v, enabled = rv_enabled v, source_system = [], import_job_id = None, created_at = [], updated_at = []\<rparr>"

lemma columns_kept [simp]:
  "priority (row_of_columns (rule_columns r)) = priority r" "enabled (row_of_columns (rule_columns r)) = enabled r"
  "validation_state (row_of_columns (rule_columns r)) = validation_state r"
  "rule_type (row_of_columns (rule_columns r)) = rule_type r" "domain (row_of_columns (rule_columns r)) = domain r"
  "pattern (row_of_columns (rule_columns r)) = pattern r"
  "match_subdomains (row_of_columns (rule_columns r)) = match_subdomains r"
  "rewrite_address (row_of_columns (rule_columns r)) = rewrite_address r"
  "address_family (row_of_columns (rule_columns r)) = address_family r"
  by (simp_all add: row_of_columns_def rule_columns_def parsed_rule.defs)

lemma collect_row_columns: "collect_row (row_of_columns (rule_columns r)) = collect_row r"
proof -
  have "put_scope (row_of_columns (rule_columns r)) = put_scope r"
    "put_address (row_of_columns (rule_columns r)) = put_address r"
    by (simp_all add: fun_eq_iff put_scope_def put_address_def)
  then show ?thesis by (intro ext) (simp add: collect_row_def split: rule_kind.split)
qed

lemma collect_rows_columns: "collect_rows (map row_of_columns (map rule_columns t)) = collect_rows t"
proof -
  let ?h = "\<lambda>r. row_of_columns (rule_columns r)"
  have "active_rows (map ?h t) = map ?h (active_rows t)"
    using map_sort_key [of ?h "\<lambda>r. - priority r"] by (simp add: active_rows_def enabled_rows_def filter_map o_def)
  moreover have "fold collect_row (map ?h rows) a = fold collect_row rows a" for rows a
    by (induction rows arbitrary: a) (simp_all add: collect_row_columns)
  ultimately show ?thesis by (simp add: collect_rows_def o_def)
qed

text \<open>No legacy row is waiting to be copied.\<close>

definition legacy_done :: "rules_db \<Rightarrow> bool" where
  "legacy_done db = (case legacy_rules db of None \<Rightarrow> True | Some rows \<Rightarrow> list_all migrated_to_v2 rows)"

lemma init_db_done: "legacy_done db \<Longrightarrow> filter_rules (init_db ts db) = filter_rules db"
  by (auto simp: legacy_done_def init_db_def migrate_legacy_rules_def list_all_iff filter_empty_conv
      split: option.splits intro!: arg_cong [where f = "\<lambda>x. migrate_rows ts x (filter_rules db)", THEN trans])

lemma init_db_same: "legacy_done db \<Longrightarrow> init_db ts db = db"
proof -
  assume l: "legacy_done db"
  then have "map (\<lambda>r. r\<lparr>migrated_to_v2 := True\<rparr>) rows = rows" if "legacy_rules db = Some rows" for rows
    using that by (auto simp: legacy_done_def list_all_iff intro!: map_idI)
  then show ?thesis using init_db_done [OF l, of ts]
    by (auto simp: init_db_def migrate_legacy_rules_def split: option.splits)
qed

lemma sorted_by_id: "rowids_ok row_id t \<Longrightarrow> sort_key row_id t = t"
  by (rule sort_key_id_if_sorted) (auto simp: rowids_ok_def intro: strict_sorted_imp_sorted)

definition policy_ok :: "stdlib \<Rightarrow> (string \<Rightarrow> string) \<Rightarrow> string set \<Rightarrow> policy_state \<Rightarrow> bool" where
  "policy_ok lib sha K st \<longleftrightarrow>
     store_reachable lib (ps_rules st) \<and> legacy_done (ps_rules st) \<and>
     cache_sound lib sha K (ps_files st) (parse_cache (ps_sources st)) \<and>
     downloads_in K (ps_files st)"

lemma same_manifest_same_policy:
  assumes inj: "inj_on sha K" and ok: "policy_ok lib sha K st" "policy_ok lib sha K st'"
    and m: "protection_policy_manifest sha st = Some m" "protection_policy_manifest sha st' = Some m"
  shows "compile_rpz lib sha ts None clock st = compile_rpz lib sha ts' None clock st'"
proof -
  obtain items where it: "source_items sha (ps_files st) (sort_key src_id (sources (ps_sources st))) = Some items"
      "source_items sha (ps_files st') (sort_key src_id (sources (ps_sources st'))) = Some items"
    and rules: "map rule_columns (sort_key row_id (filter_rules (ps_rules st))) =
        map rule_columns (sort_key row_id (filter_rules (ps_rules st')))"
    using m by (auto simp: protection_policy_manifest_def)
  have K: "downloads_in K (ps_files st)" "downloads_in K (ps_files st')"
    and cs: "cache_sound lib sha K (ps_files st) (parse_cache (ps_sources st))"
      "cache_sound lib sha K (ps_files st') (parse_cache (ps_sources st'))"
    using ok by (auto simp: policy_ok_def)
  have sorted_enabled: "set (enabled_sources (sort_key src_id t)) = set (enabled_sources t)" for t
    by (auto simp: enabled_sources_def)
  have names: "source_names lib sha (ps_files st) ` set (enabled_sources (sources (ps_sources st))) =
      source_names lib sha (ps_files st') ` set (enabled_sources (sources (ps_sources st')))"
    using same_items_names [OF it inj K] same_items_names [OF it(2,1) inj K(2,1)] unfolding sorted_enabled by blast
  have union: "(\<Union>s\<in>A. f (g s)) = \<Union> (f ` g ` A)" for A f and g :: "source_row \<Rightarrow> string set \<times> string set"
    by blast
  have blocks: "co_blocks (collect_rules lib sha ts None (ps_sources st) (ps_files st)) =
      co_blocks (collect_rules lib sha ts' None (ps_sources st') (ps_files st'))"
    by (simp only: collected_blocks [OF inj cs(1) K(1)] collected_blocks [OF inj cs(2) K(2)] union names)
  have t: "rowids_ok row_id (filter_rules (ps_rules st))" "rowids_ok row_id (filter_rules (ps_rules st'))"
    using ok store_reachable_ok by (auto simp: policy_ok_def store_ok_def table_ok_def)
  have "collect_rows (filter_rules (ps_rules st)) = collect_rows (filter_rules (ps_rules st'))"
    using rules collect_rows_columns by (metis sorted_by_id [OF t(1)] sorted_by_id [OF t(2)])
  then have "snd (collect_active ts (ps_rules st)) = snd (collect_active ts' (ps_rules st'))"
    using ok by (simp add: collect_active_def Let_def init_db_done policy_ok_def)
  with blocks show ?thesis by (simp add: compile_rpz_def compile_blocks_def)
qed

lemma cached_zone_current:
  assumes "inj_on sha K" "inj_on digest M" "policy_ok lib sha K st0" "policy_ok lib sha K st"
    and "set_option (protection_policy_manifest sha st0) \<union> set_option (protection_policy_manifest sha st) \<subseteq> M"
    and "protection_policy_manifest sha st0 \<noteq> None" "0 < n"
    and "fst (reusable_protection_policy_available digest sha st
      (record_reusable_protection_policy digest sha 4 st0 (compile_rpz lib sha ts0 None clock0 st0) n pc))"
  shows "map_option (refresh_rpz_serial clock)
      (pc_rpz (record_reusable_protection_policy digest sha 4 st0 (compile_rpz lib sha ts0 None clock0 st0) n pc)) =
    Some (compile_rpz lib sha ts None clock st)"
proof -
  obtain m0 where m0: "protection_policy_manifest sha st0 = Some m0" using assms(6) by blast
  obtain m where m: "protection_policy_manifest sha st = Some m" and eq: "digest m0 = digest m"
    using assms(7,8) by (auto simp: reusable_protection_policy_available_def record_reusable_protection_policy_def m0
        split: option.splits if_splits)
  have "m0 = m" using assms(5) m m0 by (intro inj_onD [OF assms(2) eq]) auto
  then have "compile_rpz lib sha ts0 None clock st0 = compile_rpz lib sha ts None clock st"
    using m m0 by (intro same_manifest_same_policy [OF assms(1,3,4)]) simp_all
  then show ?thesis using assms(7) m0
    by (simp add: record_reusable_protection_policy_def compile_rpz_def refresh_rendered)
qed

section \<open>Properties\<close>

text \<open>
  refreshing the serial of a rendered zone, as the rollback and the reuse of a cached policy do, is
  rendering the same policy at the new time.
\<close>

theorem refreshed_serial_rerenders:
  "refresh_rpz_serial clock' (render_rpz clock D custom) = render_rpz clock' D custom"
  by (rule refresh_rendered)

text \<open>
  reusing a cached policy equals rebuilding it.  If the cached pair was recorded for one state and the
  test passes in another (same digest, no regex rules), then the cached zone with a refreshed serial is the
  zone that compiling the current database and downloads gives.  Hashes are assumed to be injective on the
  contents and manifests that occur.
\<close>

theorem reused_policy_is_current:
  assumes "inj_on sha K" "inj_on digest M" "policy_ok lib sha K st0" "policy_ok lib sha K st"
    and "set_option (protection_policy_manifest sha st0) \<union> set_option (protection_policy_manifest sha st) \<subseteq> M"
    and "protection_policy_manifest sha st0 \<noteq> None" "0 < n"
    and "fst (reusable_protection_policy_available digest sha st
      (record_reusable_protection_policy digest sha 4 st0 (compile_rpz lib sha ts0 None clock0 st0) n pc))"
  shows "map_option (refresh_rpz_serial clock)
      (pc_rpz (record_reusable_protection_policy digest sha 4 st0 (compile_rpz lib sha ts0 None clock0 st0) n pc)) =
    Some (compile_rpz lib sha ts None clock st)"
  using cached_zone_current [OF assms] .

definition example_policy :: policy_state where
  "example_policy = \<lparr>ps_sources = example_sources, ps_rules = example_store,
     ps_local = \<lparr>dns_settings = [], dns_records = [], client_aliases = [], dns_deployments = []\<rparr>,
     ps_cache = \<lparr>cache_settings_table = [], cache_deployments = [], cache_flushes = []\<rparr>, ps_upstream = [],
     ps_files = [(''current/1-list.txt'', ''ads.example.com'')]\<rparr>"

lemma example_policy_ok: "policy_ok plain_lib id UNIV example_policy"
proof -
  have "legacy_done example_store" unfolding example_store_rows by (simp add: legacy_done_def)
  then show ?thesis
    by (simp add: policy_ok_def example_policy_def example_reachable cache_sound_def example_sources_def downloads_in_def)
qed

theorem reused_policy_is_current_witness:
  "map_option (refresh_rpz_serial 9)
      (pc_rpz (record_reusable_protection_policy (\<lambda>_. ''h'') id 4 example_policy
        (compile_rpz plain_lib id ''t'' None 5 example_policy) 1 \<lparr>pc_rpz = None, pc_manifest = None\<rparr>)) =
    Some (compile_rpz plain_lib id ''u'' None 9 example_policy)"
proof -
  have man: "protection_policy_manifest id example_policy \<noteq> None"
    unfolding example_policy_def example_store_rows by code_simp
  have regex: "\<not> has_regex_rules (filter_rules (ps_rules example_policy))"
    unfolding example_policy_def example_store_rows by code_simp
  obtain m where m: "protection_policy_manifest id example_policy = Some m" using man by blast
  show ?thesis
  proof (rule reused_policy_is_current [where K = UNIV and M = "{m}"])
    show "inj_on (\<lambda>_. ''h'') {m}" by simp
  qed (use m regex example_policy_ok in \<open>simp_all add: reusable_protection_policy_available_def record_reusable_protection_policy_def\<close>)
qed

end
