(* ===== verification/Dns_Checks.thy ===== *)
theory Dns_Checks
  imports Rpz_Agreement
begin

text \<open>
  The checks a deployment runs against the live resolver (\<^verbatim>\<open>app/alderpointdns_compiler.py\<close>): the reading
  of \<^verbatim>\<open>dig\<close> output, the allow-policy check and the polling loop.  A \<^verbatim>\<open>dig\<close> run is its exit code and its
  output, given by an argument.  Shown: the allow-policy check depends on the compiled policy alone and
  never fails for a policy the compiler itself produced, and the polling loop ends after a bounded number
  of polls.
\<close>

section \<open>Reading \<^verbatim>\<open>dig\<close> output\<close>

type_synonym dig_answer = "int \<times> string"

definition tab_A :: string where "tab_A = [CHR 0x09, CHR ''A'', CHR 0x09]"

definition is_blocked :: "dig_answer \<Rightarrow> bool" where
  "is_blocked ans =
     (fst ans = 0 \<and>
      (contains (snd ans) ''status: NXDOMAIN'' \<or>
       contains (snd ans) ''status: NOERROR'' \<and> contains (snd ans) ''ANSWER: 0'' \<and> \<not> contains (snd ans) tab_A))"

definition resolves :: "dig_answer \<Rightarrow> bool" where
  "resolves ans = (fst ans = 0 \<and> contains (snd ans) ''status: NOERROR'' \<and> contains (snd ans) tab_A)"

definition resolves_to :: "dig_answer \<Rightarrow> string \<Rightarrow> bool" where
  "resolves_to ans address = (fst ans = 0 \<and> contains (snd ans) ''status: NOERROR'' \<and> contains (snd ans) address)"

record dns_result =
  dr_domain :: string
  dr_status :: "string option"
  dr_answer_count :: nat
  dr_a_records :: "string list"
  dr_aaaa_records :: "string list"
  dr_cname_records :: "string list"
  dr_timed_out :: bool
  dr_transport_ok :: bool

definition DNSResult :: "string \<Rightarrow> dns_result" where
  "DNSResult d = \<lparr>dr_domain = d, dr_status = None, dr_answer_count = 0, dr_a_records = [], dr_aaaa_records = [],
     dr_cname_records = [], dr_timed_out = False, dr_transport_ok = True\<rparr>"

definition resolved :: "dns_result \<Rightarrow> bool" where
  "resolved r = (dr_a_records r \<noteq> [] \<or> dr_aaaa_records r \<noteq> [] \<or> dr_cname_records r \<noteq> [])"

definition is_nodata :: "dns_result \<Rightarrow> bool" where
  "is_nodata r = (dr_status r = Some ''NOERROR'' \<and> dr_answer_count r = 0)"

definition is_nxdomain :: "dns_result \<Rightarrow> bool" where
  "is_nxdomain r = (dr_status r = Some ''NXDOMAIN'')"

definition is_servfail :: "dns_result \<Rightarrow> bool" where
  "is_servfail r = (dr_status r = Some ''SERVFAIL'')"

definition usable :: "dns_result \<Rightarrow> bool" where
  "usable r = (dr_transport_ok r \<and> \<not> dr_timed_out r)"

text \<open>
  \<^verbatim>\<open>re.search(key + r"\s*(p+)", text).group(1)\<close> for a class \<open>p\<close> of characters that are not blank.
\<close>

fun search_field :: "string \<Rightarrow> (char \<Rightarrow> bool) \<Rightarrow> string \<Rightarrow> string option" where
  "search_field key p [] = None"
| "search_field key p (c # s) =
     (let v = takeWhile p (dropWhile py_isspace (drop (length key) (c # s))) in
      if startswith (c # s) key \<and> v \<noteq> [] then Some v else search_field key p s)"

definition word_char :: "char \<Rightarrow> bool" where
  "word_char c = (py_isalnum c \<or> c = CHR ''_'')"

text \<open>\<^verbatim>\<open>_DIG_ANSWER_LINE_RE\<close>: five fields, the first ends with a dot, the second is a number.\<close>

definition dig_answer_line :: "string \<Rightarrow> (string \<times> string) option" where
  "dig_answer_line line =
     (case split_ws line of
        [name, ttl, cls, ty, value] \<Rightarrow>
          if \<not> py_isspace (hd line) \<and> endswith name ''.'' \<and> 2 \<le> length name \<and> list_all is_ascii_digit ttl \<and>
             ty \<in> {''A'', ''AAAA'', ''CNAME''}
          then Some (ty, value) else None
      | _ \<Rightarrow> None)"

definition add_answer :: "string \<times> string \<Rightarrow> dns_result \<Rightarrow> dns_result" where
  "add_answer m r =
     (case m of (ty, value) \<Rightarrow>
        if ty = ''A'' then r\<lparr>dr_a_records := dr_a_records r @ [value]\<rparr>
        else if ty = ''AAAA'' then r\<lparr>dr_aaaa_records := dr_aaaa_records r @ [value]\<rparr>
        else if ty = ''CNAME'' then r\<lparr>dr_cname_records := dr_cname_records r @ [value]\<rparr>
        else r)"

fun scan_answers :: "bool \<Rightarrow> string list \<Rightarrow> dns_result \<Rightarrow> dns_result" where
  "scan_answers inside [] r = r"
| "scan_answers inside (line # ls) r =
     (if startswith line '';; ANSWER SECTION'' then scan_answers True ls r
      else if inside \<and> (py_strip line = [] \<or> startswith line '';;'') then scan_answers False ls r
      else if \<not> inside then scan_answers inside ls r
      else case dig_answer_line line of
             None \<Rightarrow> scan_answers inside ls r
           | Some m \<Rightarrow> scan_answers inside ls (add_answer m r))"

definition classify_dns :: "dig_answer \<Rightarrow> string \<Rightarrow> dns_result" where
  "classify_dns ans d =
     (if fst ans \<noteq> 0 then
        let timed_out = contains (py_lower (snd ans)) ''timed out'' \<or>
                        contains (py_lower (snd ans)) ''no servers could be reached''
        in (DNSResult d)\<lparr>dr_timed_out := timed_out, dr_transport_ok := \<not> timed_out\<rparr>
      else scan_answers False (splitlines (snd ans))
        ((DNSResult d)\<lparr>dr_status := search_field ''status:'' word_char (snd ans),
           dr_answer_count := (case search_field ''ANSWER:'' is_ascii_digit (snd ans) of
                                 None \<Rightarrow> 0 | Some n \<Rightarrow> digits_val n)\<rparr>))"

section \<open>The allow-policy check\<close>

record allow_validation =
  av_ok :: bool
  av_tested_domain :: "string option"
  av_message :: string

definition custom_allow_represented :: "string \<Rightarrow> string \<Rightarrow> active_rule_set \<Rightarrow> bool" where
  "custom_allow_represented d rpz_text active =
     (case map_of (ars_allows active) d of
        None \<Rightarrow> True
      | Some allow \<Rightarrow>
          let name = rpz_name d in
          \<not> ((de_exact allow \<or> de_subdomains allow) \<and> \<not> contains rpz_text (name @ '' CNAME rpz-passthru.'')) \<and>
          \<not> (de_subdomains allow \<and> \<not> contains rpz_text (''*.'' @ name @ '' CNAME rpz-passthru.'')))"

definition check_prefix :: string where
  "check_prefix = ''post-deploy allow-policy check failed: ''"

fun allow_mismatch :: "string set \<Rightarrow> active_rule_set \<Rightarrow> string \<Rightarrow> string list \<Rightarrow> allow_validation option" where
  "allow_mismatch active_blocks active rpz_text [] = None"
| "allow_mismatch active_blocks active rpz_text (d # ds) =
     (if d \<in> active_blocks then
        Some \<lparr>av_ok = False, av_tested_domain = Some d,
              av_message = check_prefix @ d @ '' is allow-listed but still present in the active block set''\<rparr>
      else if \<not> custom_allow_represented d rpz_text active then
        Some \<lparr>av_ok = False, av_tested_domain = Some d,
              av_message = check_prefix @ ''custom allow rule for '' @ d @
                '' is missing its rpz-passthru representation in the compiled policy''\<rparr>
      else allow_mismatch active_blocks active rpz_text ds)"

definition validate_allow_domains ::
  "(string \<Rightarrow> dig_answer) \<Rightarrow> string set \<Rightarrow> string set \<Rightarrow> active_rule_set \<Rightarrow> string \<Rightarrow> nat \<Rightarrow> allow_validation" where
  "validate_allow_domains dig allowed_domains active_blocks active rpz_text max_live_checks =
     (let ds = sorted_list_of_set allowed_domains in
      case allow_mismatch active_blocks active rpz_text ds of
        Some bad \<Rightarrow> bad
      | None \<Rightarrow>
          (case List.find (\<lambda>d. let r = classify_dns (dig d) d in usable r \<and> resolved r) (take max_live_checks ds) of
             Some tested \<Rightarrow>
               \<lparr>av_ok = True, av_tested_domain = Some tested,
                av_message = ''allow-domain policy verified; '' @ tested @ '' resolves normally''\<rparr>
           | None \<Rightarrow>
               \<lparr>av_ok = True, av_tested_domain = None,
                av_message = ''allow-domain policy verified structurally; no live allow-domain candidate could be '' @
                  ''confirmed resolving (non-fatal)''\<rparr>))"

section \<open>Polling\<close>

text \<open>
  Times in milliseconds since the call: \<^verbatim>\<open>time.sleep(1)\<close> takes at least a second and \<open>delay i\<close> is the rest
  of the time between two readings of the monotonic clock.  \<open>predicate i\<close> is the outcome of the \<open>i\<close>-th poll.
\<close>

function wait_loop :: "(nat \<Rightarrow> bool) \<Rightarrow> (nat \<Rightarrow> nat) \<Rightarrow> nat \<Rightarrow> nat \<Rightarrow> nat \<Rightarrow> bool" where
  "wait_loop predicate delay deadline now i =
     (if now < deadline then
        if predicate i then True
        else wait_loop predicate delay deadline (now + 1000 + delay (Suc i)) (Suc i)
      else predicate i)"
  by pat_completeness auto
termination by (relation "measure (\<lambda>(_, _, deadline, now, _). deadline - now)") auto

declare wait_loop.simps [simp del]

definition wait_until :: "(nat \<Rightarrow> bool) \<Rightarrow> (nat \<Rightarrow> nat) \<Rightarrow> nat \<Rightarrow> bool" where
  "wait_until predicate delay timeout = wait_loop predicate delay (timeout * 1000) (delay 0) 0"

lemma wait_loop_polls:
  "\<exists>n. i \<le> n \<and> (now < deadline \<longrightarrow> (n - i) * 1000 < deadline - now + 1000) \<and> (deadline \<le> now \<longrightarrow> n = i) \<and>
     (wait_loop predicate delay deadline now i \<longleftrightarrow> (\<exists>j. i \<le> j \<and> j \<le> n \<and> predicate j))"
proof (induction predicate delay deadline now i rule: wait_loop.induct)
  case (1 predicate delay deadline now i)
  show ?case
  proof (cases "now < deadline \<and> \<not> predicate i")
    case True
    then obtain n where n: "Suc i \<le> n"
      "now + 1000 + delay (Suc i) < deadline \<longrightarrow> (n - Suc i) * 1000 < deadline - (now + 1000 + delay (Suc i)) + 1000"
      "deadline \<le> now + 1000 + delay (Suc i) \<longrightarrow> n = Suc i"
      "wait_loop predicate delay deadline (now + 1000 + delay (Suc i)) (Suc i) \<longleftrightarrow>
         (\<exists>j. Suc i \<le> j \<and> j \<le> n \<and> predicate j)"
      using 1 by blast
    have "(\<exists>j. Suc i \<le> j \<and> j \<le> n \<and> predicate j) \<longleftrightarrow> (\<exists>j. i \<le> j \<and> j \<le> n \<and> predicate j)"
      using True by (metis Suc_leD Suc_leI le_neq_implies_less)
    moreover have "(n - i) * 1000 < deadline - now + 1000"
      using n(1-3) True by (cases "now + 1000 + delay (Suc i) < deadline") (auto simp: algebra_simps)
    ultimately show ?thesis using n(1,4) True
      by (intro exI [of _ n]) (simp add: wait_loop.simps [of predicate delay deadline now i])
  next
    case False
    then show ?thesis by (intro exI [of _ i]) (auto simp: wait_loop.simps [of predicate delay deadline now i])
  qed
qed

lemma wait_loop_finds:
  "\<lbrakk>predicate k; i \<le> k; \<forall>j. i < j \<and> j \<le> k \<longrightarrow> delay j = 0; now + (k - i) * 1000 \<le> deadline\<rbrakk>
   \<Longrightarrow> wait_loop predicate delay deadline now i"
proof (induction predicate delay deadline now i rule: wait_loop.induct)
  case (1 predicate delay deadline now i)
  show ?case
  proof (cases "i = k \<or> predicate i")
    case True
    then show ?thesis using 1(2) by (auto simp: wait_loop.simps [of predicate delay deadline now i])
  next
    case False
    then have less: "now < deadline" "delay (Suc i) = 0" "Suc i \<le> k" using 1(3-5) by auto
    then have "now + 1000 + delay (Suc i) + (k - Suc i) * 1000 \<le> deadline" using 1(5) by (simp add: algebra_simps)
    then show ?thesis
      using 1 less False by (subst wait_loop.simps) auto
  qed
qed

section \<open>Allow rules in the compiled zone\<close>

lemma allow_mismatch_None:
  "allow_mismatch B a zt ds = None \<longleftrightarrow> (\<forall>d\<in>set ds. d \<notin> B \<and> custom_allow_represented d zt a)"
  by (induction ds) auto

lemma allow_mismatch_bad: "allow_mismatch B a zt ds = Some bad \<Longrightarrow> \<not> av_ok bad"
  by (induction ds) (auto split: if_splits)

lemma validate_allow_ok:
  "finite A \<Longrightarrow> av_ok (validate_allow_domains dig A B a zt n) \<longleftrightarrow>
     (\<forall>d\<in>A. d \<notin> B \<and> custom_allow_represented d zt a)"
  using allow_mismatch_None [of B a zt "sorted_list_of_set A"] allow_mismatch_bad [of B a zt "sorted_list_of_set A"]
  by (auto simp: validate_allow_domains_def Let_def split: option.split)

lemma contains_joined: "l \<in> set ls \<Longrightarrow> contains (join sep ls) l"
proof (induction sep ls rule: join.induct)
  case (3 sep x y xs)
  then show ?case by (force simp: contains_iff_sublist sublist_append)
qed (simp_all add: contains_iff_sublist)

lemma record_in_text:
  assumes "r \<in> set (zone_records D custom)"
  shows "contains (render_rpz clock D custom) (show_record r)"
proof -
  have "contains (join [newline] (rpz_header clock @ map show_record (zone_records D custom))) (show_record r)"
    by (rule contains_joined) (use assms in auto)
  then show ?thesis by (simp add: render_rpz_def contains_iff_sublist sublist_append)
qed

lemma passthru_record:
  assumes "o' \<in> scope_owners (ars_allows a)" "o' \<notin> rewrite_owners a"
  shows "contains (render_rpz clock D (Some a)) (o' @ '' CNAME rpz-passthru.'')"
proof -
  have "(o', Passthru) \<in> set (zone_records D (Some a))"
    using assms by (simp add: zone_records_def Let_def custom_records_iff)
  from record_in_text [OF this] show ?thesis by (simp add: show_record_def show_rdata_def)
qed

lemma not_rewrite_owner:
  assumes "active_ok lib a" "wf_name n"
  shows "n \<in> rewrite_owners a \<longleftrightarrow> map_of (ars_rewrites a) n \<noteq> None"
    "wildcard n \<in> rewrite_owners a \<longleftrightarrow> (\<exists>e. map_of (ars_rewrites a) n = Some e \<and> rw_subdomains e)"
proof -
  have wf: "map_of (ars_rewrites a) m = Some e \<Longrightarrow> wf_name m" for m e
    using assms(1) by (auto simp: active_ok_def dom_def)
  have plain: "plain_names (insert n (dom (map_of (ars_rewrites a))))"
    using assms wf by (intro wf_names_plain) (auto simp: dom_def)
  show "n \<in> rewrite_owners a \<longleftrightarrow> map_of (ars_rewrites a) n \<noteq> None"
    using plain_not_wildcard [OF plain, of n] by (auto simp: rewrite_owners_def owners_of_def split: if_splits)
  show "wildcard n \<in> rewrite_owners a \<longleftrightarrow> (\<exists>e. map_of (ars_rewrites a) n = Some e \<and> rw_subdomains e)"
    using plain_not_wildcard [OF plain, of _ n] wf
    by (auto simp: rewrite_owners_def owners_of_def dom_def split: if_splits)
qed

text \<open>An allow entry that conflict resolution leaves is not rewritten, or only for the exact name.\<close>

lemma left_allow_rewrite:
  assumes "map_of (ars_allows (compiled t)) n = Some e" "map_of (ars_rewrites (compiled t)) n = Some w"
  shows "\<not> rw_subdomains w \<and> de_subdomains e"
  using assms
  by (auto simp: compiled_lookup allow_left_def bind_eq_Some_conv split: if_splits)

lemma compiled_allow_represented:
  assumes ok: "active_ok lib (compiled t)"
  shows "custom_allow_represented d (render_rpz clock D (Some (compiled t))) (compiled t)"
proof (cases "map_of (ars_allows (compiled t)) d")
  case (Some e)
  let ?txt = "render_rpz clock D (Some (compiled t))"
  have wf: "wf_name d" using ok Some by (auto simp: active_ok_def dom_def)
  have wild: "contains ?txt (''*.'' @ d @ '' CNAME rpz-passthru.'')" if "de_subdomains e"
  proof -
    have "wildcard d \<notin> rewrite_owners (compiled t)"
      using left_allow_rewrite [OF Some] by (auto simp: not_rewrite_owner [OF ok wf])
    moreover have "wildcard d \<in> scope_owners (ars_allows (compiled t))"
      using Some that by (auto simp: scope_owners_def owners_of_def)
    ultimately show ?thesis using passthru_record [of "wildcard d" "compiled t" clock D] by (simp add: wildcard_def)
  qed
  have "contains ?txt (d @ '' CNAME rpz-passthru.'')" if "de_exact e \<or> de_subdomains e"
  proof (cases "de_subdomains e")
    case True
    then obtain u v where "?txt = u @ (''*.'' @ d @ '' CNAME rpz-passthru.'') @ v" using wild by (auto simp: contains_iff)
    then have "?txt = (u @ ''*.'') @ (d @ '' CNAME rpz-passthru.'') @ v" by simp
    then show ?thesis unfolding contains_iff by blast
  next
    case False
    then have "d \<notin> rewrite_owners (compiled t)"
      using left_allow_rewrite [OF Some] by (cases "map_of (ars_rewrites (compiled t)) d") (auto simp: not_rewrite_owner [OF ok wf])
    moreover have "d \<in> scope_owners (ars_allows (compiled t))"
      using Some that False by (auto simp: scope_owners_def owners_of_def)
    ultimately show ?thesis by (intro passthru_record)
  qed
  with wild show ?thesis by (auto simp: custom_allow_represented_def Some Let_def rpz_name_wf [OF wf])
qed (simp add: custom_allow_represented_def)

section \<open>Properties\<close>

text \<open>
  the allow-policy check of a deployment judges the compiled policy and nothing else: whatever the
  live lookups answer, it passes exactly when no allowed name is in the block set and every custom allow
  has its records, and for the policy compiled from a reachable store and source lists whose exceptions
  were taken out it always passes.
\<close>

theorem allow_check_passes:
  assumes "store_reachable lib db" "finite S" "S \<inter> E = {}"
  shows "(finite A \<longrightarrow> av_ok (validate_allow_domains dig A B a zt n) =
      (\<forall>d\<in>A. d \<notin> B \<and> custom_allow_represented d zt a)) \<and>
    av_ok (validate_allow_domains dig (S \<union> fst ` set (ars_allows (snd (collect_active ts db))))
      (subtract_allowed E (snd (collect_active ts db))) (snd (collect_active ts db))
      (render_rpz clock (subtract_allowed E (snd (collect_active ts db))) (Some (snd (collect_active ts db)))) n)"
proof -
  let ?a = "snd (collect_active ts db)"
  have c: "?a = compiled (filter_rules (init_db ts db))" by (simp add: collect_active_def Let_def compiled_def)
  have ok: "active_ok lib ?a" by (rule collect_active_ok [OF store_reachable_ok [OF assms(1)]])
  have "d \<notin> subtract_allowed E ?a" if "d \<in> S \<union> fst ` set (ars_allows ?a)" for d
    using that assms(3) ok
    by (auto simp: subtract_allowed_iff active_ok_def ars_distinct_def dom_map_of_conv_image_fst [symmetric])
  moreover have "custom_allow_represented d (render_rpz clock (subtract_allowed E ?a) (Some ?a)) ?a" for d
    using compiled_allow_represented [OF ok [unfolded c]] by (simp add: c)
  ultimately show ?thesis using assms(2) by (simp add: validate_allow_ok)
qed

theorem allow_check_passes_witness:
  "av_ok (validate_allow_domains (\<lambda>_. (9, ''connection timed out'')) ({''cdn.example.net''} \<union> fst ` set (ars_allows (snd (collect_active ''t'' example_store))))
      (subtract_allowed {''bad.example.net''} (snd (collect_active ''t'' example_store))) (snd (collect_active ''t'' example_store))
      (render_rpz 7 (subtract_allowed {''bad.example.net''} (snd (collect_active ''t'' example_store)))
        (Some (snd (collect_active ''t'' example_store)))) 5)"
  by (rule conjunct2 [OF allow_check_passes [OF example_reachable, of "{''cdn.example.net''}"]]) auto

text \<open>
  the polling loop ends: with a timeout of \<open>t\<close> seconds it polls at most \<open>t + 1\<close> times, whatever the
  delays, returns whether one of these polls succeeded, and when the polls take no time of their own it
  does not miss a success within the timeout.
\<close>

theorem wait_until_bounded:
  "(\<exists>n\<le>timeout. wait_until predicate delay timeout = (\<exists>j\<le>n. predicate j)) \<and>
   (predicate k \<and> k \<le> timeout \<and> (\<forall>j\<le>k. delay j = 0) \<longrightarrow> wait_until predicate delay timeout)"
proof
  obtain n where n: "delay 0 < timeout * 1000 \<longrightarrow> n * 1000 < timeout * 1000 - delay 0 + 1000"
    "timeout * 1000 \<le> delay 0 \<longrightarrow> n = 0" "wait_until predicate delay timeout \<longleftrightarrow> (\<exists>j\<le>n. predicate j)"
    using wait_loop_polls [of 0 "delay 0" "timeout * 1000" predicate delay] by (auto simp: wait_until_def)
  have "n \<le> timeout" using n(1,2) by (cases "delay 0 < timeout * 1000") auto
  with n(3) show "\<exists>n\<le>timeout. wait_until predicate delay timeout = (\<exists>j\<le>n. predicate j)" by blast
  show "predicate k \<and> k \<le> timeout \<and> (\<forall>j\<le>k. delay j = 0) \<longrightarrow> wait_until predicate delay timeout"
    using wait_loop_finds [of predicate k 0 delay "delay 0" "timeout * 1000"] by (auto simp: wait_until_def)
qed

theorem wait_until_bounded_witness:
  "wait_until (\<lambda>i. i = 3) (\<lambda>_. 0) 50"
  using wait_until_bounded [of 50 "\<lambda>i. i = 3" "\<lambda>_. 0" 3] by simp

end
