(* ===== verification/Dnsdist_Layer.thy ===== *)
theory Dnsdist_Layer
  imports Rpz_Eval
begin

text \<open>
  The dnsdist layer of the custom rules (\<^verbatim>\<open>app/custom_rules.py\<close>): the static Lua loader, the include in
  \<^verbatim>\<open>dnsdist.conf\<close>, and the installation of the loader with its data files.  \<^verbatim>\<open>dnsdist --check-config\<close> and
  \<^verbatim>\<open>systemctl restart dnsdist\<close> are arguments; plain file operations succeed.  Shown: a failed installation
  leaves the installed files as they were, a successful one installs exactly the rendered files and can be
  undone by the caller, and the include is inserted once.
\<close>

section \<open>The loader\<close>

definition CUSTOM_RULES_LUA_NAME :: string where "CUSTOM_RULES_LUA_NAME = ''custom-rules.conf''"
definition PASS_SUFFIX_DATA :: string where "PASS_SUFFIX_DATA = ''custom-pass-suffixes.txt''"
definition PASS_EXACT_DATA :: string where "PASS_EXACT_DATA = ''custom-pass-exact.txt''"
definition REGEX_ALLOW_DATA :: string where "REGEX_ALLOW_DATA = ''custom-regex-allow.txt''"
definition REGEX_BLOCK_DATA :: string where "REGEX_BLOCK_DATA = ''custom-regex-block.txt''"
definition COMPILED_DNSDIST_DIR :: string where "COMPILED_DNSDIST_DIR = ''/var/lib/alderpointdns/compiled/dnsdist''"

definition custom_rules_lua_path :: string where
  "custom_rules_lua_path = COMPILED_DNSDIST_DIR @ ''/'' @ CUSTOM_RULES_LUA_NAME"

definition render_dnsdist_lua :: "string \<Rightarrow> string" where
  \<open>render_dnsdist_lua data_dir = join [newline]
     [''-- Managed by Alderpoint DNS custom filtering rules. Do not edit by hand.'',
      ''-- Static loader: user-controlled values live only in the data files below'',
      ''-- (one entry per line); no user text is ever interpolated into Lua code.'',
      ''local alderpointdnsCustomDataDir = "'' @ data_dir @ ''"'',
      [],
      ''local function alderpointdnsCustomLines(name)'',
      ''  local entries = {}'',
      ''  local handle = io.open(alderpointdnsCustomDataDir .. "/" .. name, "r")'',
      ''  if handle then'',
      ''    for line in handle:lines() do'',
      ''      if line ~= "" then'',
      ''        table.insert(entries, line)'',
      ''      end'',
      ''    end'',
      ''    handle:close()'',
      ''  end'',
      ''  return entries'',
      ''end'',
      [],
      ''-- 1. Local zones and subdomain allows/rewrites go straight to BIND.'',
      ''local alderpointdnsPassSuffixes = alderpointdnsCustomLines("'' @ PASS_SUFFIX_DATA @ ''")'',
      ''if #alderpointdnsPassSuffixes > 0 then'',
      ''  local suffixes = newSuffixMatchNode()'',
      ''  for _, entry in ipairs(alderpointdnsPassSuffixes) do'',
      ''    suffixes:add(newDNSName(entry))'',
      ''  end'',
      ''  addAction(SuffixMatchNodeRule(suffixes), PoolAction("alderpointdns_bind"))'',
      ''end'',
      [],
      ''-- 2. Exact allows and exact rewrites go straight to BIND.'',
      ''local alderpointdnsPassNames = alderpointdnsCustomLines("'' @ PASS_EXACT_DATA @ ''")'',
      ''if #alderpointdnsPassNames > 0 then'',
      ''  local names = newDNSNameSet()'',
      ''  for _, entry in ipairs(alderpointdnsPassNames) do'',
      ''    names:add(newDNSName(entry))'',
      ''  end'',
      ''  addAction(QNameSetRule(names), PoolAction("alderpointdns_bind"))'',
      ''end'',
      [],
      ''-- 3. Regex allows pass, then 4. regex blocks answer NXDOMAIN.'',
      ''for _, entry in ipairs(alderpointdnsCustomLines("'' @ REGEX_ALLOW_DATA @ ''")) do'',
      ''  addAction(RegexRule(entry), PoolAction("alderpointdns_bind"))'',
      ''end'',
      ''for _, entry in ipairs(alderpointdnsCustomLines("'' @ REGEX_BLOCK_DATA @ ''")) do'',
      ''  addAction(RegexRule(entry), RCodeAction(DNSRCode.NXDOMAIN))'',
      ''end''] @ [newline]\<close>

section \<open>The include\<close>

record dnsdist_fs =
  dd_conf :: "string option"
  dd_packaged :: "string option"
  dd_files :: "(string \<times> string) list"
  dd_backups :: "(string \<times> string) list"

text \<open>\<open>dd_files\<close> is the directory of the compiled files, by name.  \<open>insert_before needle ins s\<close> is
  \<^verbatim>\<open>s.replace(needle, ins + needle, 1)\<close>, \<open>replace_all old new s\<close> is \<^verbatim>\<open>s.replace(old, new)\<close> for a non-empty
  \<open>old\<close>.\<close>

fun insert_before :: "string \<Rightarrow> string \<Rightarrow> string \<Rightarrow> string" where
  "insert_before needle ins [] = []"
| "insert_before needle ins (c # s) =
     (if startswith (c # s) needle then ins @ (c # s) else c # insert_before needle ins s)"

function replace_all :: "string \<Rightarrow> string \<Rightarrow> string \<Rightarrow> string" where
  "replace_all old new [] = []"
| "replace_all old new (c # s) =
     (if old \<noteq> [] \<and> startswith (c # s) old then new @ replace_all old new (drop (length old) (c # s))
      else c # replace_all old new s)"
  by pat_completeness auto
termination by (relation "measure (\<lambda>(_, _, s). length s)") (auto simp: Suc_diff_le neq_Nil_conv)

definition bind_pool_marker :: string where
  \<open>bind_pool_marker = ''addAction(AllRule(), PoolAction("alderpointdns_bind"))''\<close>

definition include_block :: string where
  \<open>include_block = concat (map (\<lambda>l. l @ [newline])
     [''local alderpointdnsCustomRulesConfig = "'' @ custom_rules_lua_path @ ''"'',
      ''local alderpointdnsCustomRulesFile = io.open(alderpointdnsCustomRulesConfig, "r")'',
      ''if alderpointdnsCustomRulesFile then'',
      ''  alderpointdnsCustomRulesFile:close()'',
      ''  dofile(alderpointdnsCustomRulesConfig)'',
      ''end''])\<close>

definition ensure_dnsdist_custom_include :: "string \<Rightarrow> dnsdist_fs \<Rightarrow> dnsdist_fs \<times> bool result" where
  "ensure_dnsdist_custom_include stamp fs =
     (case (case dd_conf fs of Some s \<Rightarrow> Some s | None \<Rightarrow> dd_packaged fs) of
        None \<Rightarrow> (fs, Inl ''No such file or directory'')
      | Some current \<Rightarrow>
          if contains current custom_rules_lua_path then (fs, Inr False)
          else if \<not> contains current bind_pool_marker
          then (fs, Inl ''dnsdist.conf is missing the default bind-pool action marker'')
          else
            (fs\<lparr>dd_backups := (case dd_conf fs of
                   None \<Rightarrow> dd_backups fs
                 | Some s \<Rightarrow> AList.update (''dnsdist.conf.pre-custom-rules.'' @ stamp) s (dd_backups fs)),
                dd_conf := Some (insert_before bind_pool_marker (include_block @ [newline]) current)\<rparr>, Inr True))"

section \<open>Installation\<close>

text \<open>\<open>lt_check conf files\<close>: \<^verbatim>\<open>dnsdist --check-config\<close> on the composite configuration and the staged
  files; \<open>lt_restart\<close>: whether \<^verbatim>\<open>systemctl restart dnsdist\<close> succeeds on the installed files.\<close>

record layer_tools =
  lt_check :: "string \<Rightarrow> (string \<times> string) list \<Rightarrow> bool"
  lt_restart :: "dnsdist_fs \<Rightarrow> bool"

record layer_info =
  li_changed :: bool
  li_backups :: "(string \<times> string option) list"
  li_counts :: layer_counts

definition data_files :: "dnsdist_data \<Rightarrow> (string \<times> string) list" where
  "data_files d =
     [(PASS_SUFFIX_DATA, pass_suffix_data d), (PASS_EXACT_DATA, pass_exact_data d),
      (REGEX_ALLOW_DATA, regex_allow_data d), (REGEX_BLOCK_DATA, regex_block_data d)]"

definition layer_targets :: "dnsdist_data \<Rightarrow> (string \<times> string) list" where
  "layer_targets d = (CUSTOM_RULES_LUA_NAME, render_dnsdist_lua COMPILED_DNSDIST_DIR) # data_files d"

text \<open>One target: copy of the installed file (if any), then the new content in its place.\<close>

definition install_target :: "string \<Rightarrow> string \<times> string \<Rightarrow> dnsdist_fs \<times> (string \<times> string option) list \<Rightarrow>
    dnsdist_fs \<times> (string \<times> string option) list" where
  "install_target stamp target st =
     (case (target, st) of ((name, content), (fs, backups)) \<Rightarrow>
        let backup = name @ ''.last-good.'' @ stamp in
        case map_of (dd_files fs) name of
          None \<Rightarrow> (fs\<lparr>dd_files := AList.update name content (dd_files fs)\<rparr>, backups @ [(name, None)])
        | Some old \<Rightarrow>
            (fs\<lparr>dd_backups := AList.update backup old (dd_backups fs),
                dd_files := AList.update name content (dd_files fs)\<rparr>, backups @ [(name, Some backup)]))"

definition restore_one :: "string \<times> string option \<Rightarrow> dnsdist_fs \<Rightarrow> dnsdist_fs" where
  "restore_one item fs =
     (case Option.bind (snd item) (map_of (dd_backups fs)) of
        Some old \<Rightarrow> fs\<lparr>dd_files := AList.update (fst item) old (dd_files fs)\<rparr>
      | None \<Rightarrow> fs\<lparr>dd_files := AList.delete (fst item) (dd_files fs)\<rparr>)"

definition restore_dnsdist_backups :: "(string \<times> string option) list \<Rightarrow> dnsdist_fs \<Rightarrow> dnsdist_fs" where
  "restore_dnsdist_backups backups fs = fold restore_one backups fs"

definition install_layer :: "layer_tools \<Rightarrow> string \<Rightarrow> string \<Rightarrow> dnsdist_data \<Rightarrow> dnsdist_fs \<Rightarrow>
    dnsdist_fs \<times> (string \<times> string option) list \<times> unit result" where
  "install_layer tools stamp stage d fs =
     (case ensure_dnsdist_custom_include stamp fs of
        (fs, Inl e) \<Rightarrow> (fs, [], Inl e)
      | (fs, Inr _) \<Rightarrow>
          let staged_lua = stage @ ''/'' @ CUSTOM_RULES_LUA_NAME;
              staged = (CUSTOM_RULES_LUA_NAME, render_dnsdist_lua stage) # data_files d
          in if (case dd_conf fs of
                   None \<Rightarrow> False
                 | Some conf \<Rightarrow> \<not> lt_check tools (replace_all custom_rules_lua_path staged_lua conf) staged)
             then (fs, [], Inl ''dnsdist --check-config failed'')
             else case fold (install_target stamp) (layer_targets d) (fs, []) of
                    (fs, backups) \<Rightarrow>
                      (fs, backups, if lt_restart tools fs then Inr () else Inl ''systemctl restart dnsdist failed''))"

definition deploy_dnsdist_layer :: "layer_tools \<Rightarrow> string \<Rightarrow> string \<Rightarrow> string list \<Rightarrow> active_rule_set \<Rightarrow> dnsdist_fs \<Rightarrow>
    dnsdist_fs \<times> layer_info result" where
  "deploy_dnsdist_layer tools stamp stage local_zones active fs =
     (case render_dnsdist_data active local_zones of
        Inl e \<Rightarrow> (fs, Inl e)
      | Inr d \<Rightarrow>
          let changed = list_ex (\<lambda>(name, content). map_of (dd_files fs) name \<noteq> Some content) (layer_targets d);
              info = \<lparr>li_changed = changed, li_backups = [], li_counts = dnsdist_layer_counts active\<rparr>
          in if \<not> changed then (fs, Inr info)
             else case install_layer tools stamp stage d fs of
                    (fs, backups, Inr _) \<Rightarrow> (fs, Inr (info\<lparr>li_backups := backups\<rparr>))
                  | (fs, backups, Inl e) \<Rightarrow> (restore_dnsdist_backups backups fs, Inl e))"

definition rollback_dnsdist_layer :: "layer_info \<Rightarrow> dnsdist_fs \<Rightarrow> dnsdist_fs" where
  "rollback_dnsdist_layer info fs =
     (if \<not> li_changed info \<or> li_backups info = [] then fs else restore_dnsdist_backups (li_backups info) fs)"

section \<open>Restoring what was installed\<close>

lemma include_keeps_files:
  "ensure_dnsdist_custom_include stamp fs = (fs', r) \<Longrightarrow> dd_files fs' = dd_files fs"
  by (auto simp: ensure_dnsdist_custom_include_def split: option.splits if_splits)

text \<open>What the backups of installed names hold, and what the other files are.\<close>

definition undoable :: "string \<Rightarrow> (string \<rightharpoonup> string) \<Rightarrow> string set \<Rightarrow> (string \<times> string option) list \<Rightarrow> dnsdist_fs \<Rightarrow> bool" where
  "undoable stamp old names backups fs \<longleftrightarrow>
     fst ` set backups = names \<and>
     (\<forall>(n, b)\<in>set backups. b \<in> {None, Some (n @ ''.last-good.'' @ stamp)}) \<and>
     (\<forall>(n, b)\<in>set backups. Option.bind b (map_of (dd_backups fs)) = old n) \<and>
     (\<forall>n. n \<notin> names \<longrightarrow> map_of (dd_files fs) n = old n)"

lemma restore_one_files [simp]:
  "map_of (dd_files (restore_one item fs)) =
     (map_of (dd_files fs))(fst item := Option.bind (snd item) (map_of (dd_backups fs)))"
  by (auto simp: restore_one_def update_conv' delete_conv' fun_eq_iff split: option.split)

lemma restore_one_backups [simp]: "dd_backups (restore_one item fs) = dd_backups fs"
  by (simp add: restore_one_def split: option.split)

lemma restore_undoes:
  "undoable stamp old names backups fs \<Longrightarrow> map_of (dd_files (restore_dnsdist_backups backups fs)) = old"
proof -
  have "(\<forall>(n, b)\<in>set backups. Option.bind b (map_of (dd_backups fs)) = old n) \<Longrightarrow>
      (\<forall>n. n \<notin> fst ` set backups \<longrightarrow> map_of (dd_files fs) n = old n) \<Longrightarrow>
      map_of (dd_files (fold restore_one backups fs)) = old" for fs
  proof (induction backups arbitrary: fs)
    case (Cons item backups)
    then show ?case by (cases item) (auto intro!: Cons.IH)
  qed (auto simp: fun_eq_iff)
  then show "undoable stamp old names backups fs \<Longrightarrow> ?thesis"
    by (simp add: undoable_def restore_dnsdist_backups_def)
qed

lemma install_target_undoable:
  assumes "undoable stamp old names backups fs" "name \<notin> names"
    and "install_target stamp (name, content) (fs, backups) = (fs', backups')"
  shows "undoable stamp old (insert name names) backups' fs' \<and>
    map_of (dd_files fs') = (map_of (dd_files fs))(name \<mapsto> content)"
proof (cases "map_of (dd_files fs) name")
  case None
  then have "old name = None" using assms(1,2) by (auto simp: undoable_def)
  with None show ?thesis using assms by (auto simp: undoable_def install_target_def Let_def update_conv')
next
  case (Some x)
  let ?b = "name @ ''.last-good.'' @ stamp"
  have new: "fs' = fs\<lparr>dd_backups := AList.update ?b x (dd_backups fs), dd_files := AList.update name content (dd_files fs)\<rparr>"
    "backups' = backups @ [(name, Some ?b)]"
    using assms(3) Some by (auto simp: install_target_def Let_def)
  have "old name = Some x" using assms(1,2) Some by (auto simp: undoable_def)
  moreover have "Option.bind b (map_of (dd_backups fs')) = old n" if nb: "(n, b) \<in> set backups" for n b
  proof -
    have "n \<in> names" using assms(1) nb by (force simp: undoable_def)
    moreover have "b \<in> {None, Some (n @ ''.last-good.'' @ stamp)}" "Option.bind b (map_of (dd_backups fs)) = old n"
      using assms(1) nb by (auto simp: undoable_def)
    ultimately show ?thesis using assms(2) by (auto simp: new(1) update_conv')
  qed
  ultimately show ?thesis using assms(1) by (auto simp: undoable_def new update_conv')
qed

lemma install_targets_undoable:
  "\<lbrakk>undoable stamp old names backups fs; distinct (map fst targets); names \<inter> fst ` set targets = {};
    fold (install_target stamp) targets (fs, backups) = (fs', backups')\<rbrakk>
   \<Longrightarrow> undoable stamp old (names \<union> fst ` set targets) backups' fs' \<and>
     (\<forall>(n, c)\<in>set targets. map_of (dd_files fs') n = Some c) \<and>
     (\<forall>n. n \<notin> fst ` set targets \<longrightarrow> map_of (dd_files fs') n = map_of (dd_files fs) n)"
proof (induction targets arbitrary: names backups fs)
  case (Cons t targets)
  obtain name content where t: "t = (name, content)" by (cases t)
  obtain fs1 b1 where one: "install_target stamp t (fs, backups) = (fs1, b1)"
    by (cases "install_target stamp t (fs, backups)")
  have step: "undoable stamp old (insert name names) b1 fs1"
    "map_of (dd_files fs1) = (map_of (dd_files fs))(name \<mapsto> content)"
    using install_target_undoable [OF Cons.prems(1) _ one [unfolded t]] Cons.prems(3) by (auto simp: t)
  have rest: "undoable stamp old (insert name names \<union> fst ` set targets) backups' fs'"
    "\<forall>(n, c)\<in>set targets. map_of (dd_files fs') n = Some c"
    "\<forall>n. n \<notin> fst ` set targets \<longrightarrow> map_of (dd_files fs') n = map_of (dd_files fs1) n"
    using Cons.IH [OF step(1)] Cons.prems(2-4) one by (auto simp: t)
  moreover have "map_of (dd_files fs') name = Some content" using rest(3) Cons.prems(2) step(2) by (simp add: t)
  ultimately show ?case using step(2) by (auto simp: t)
qed simp

lemma undoable_start: "undoable stamp (map_of (dd_files fs)) {} [] fs"
  by (simp add: undoable_def)

lemmas layer_names = CUSTOM_RULES_LUA_NAME_def PASS_SUFFIX_DATA_def PASS_EXACT_DATA_def REGEX_ALLOW_DATA_def
  REGEX_BLOCK_DATA_def

lemma layer_targets_distinct: "distinct (map fst (layer_targets d))"
  by (simp add: layer_targets_def data_files_def layer_names)

lemma install_layer_undoable:
  assumes "install_layer tools stamp stage d fs = (fs', backups, r)"
  shows "(backups = [] \<and> isl r \<and> dd_files fs' = dd_files fs) \<or>
    (undoable stamp (map_of (dd_files fs)) (fst ` set (layer_targets d)) backups fs' \<and>
     (\<forall>(n, c)\<in>set (layer_targets d). map_of (dd_files fs') n = Some c) \<and>
     (\<forall>n. n \<notin> fst ` set (layer_targets d) \<longrightarrow> map_of (dd_files fs') n = map_of (dd_files fs) n))"
proof -
  obtain f1 r1 where inc: "ensure_dnsdist_custom_include stamp fs = (f1, r1)"
    by (cases "ensure_dnsdist_custom_include stamp fs")
  have f1: "dd_files f1 = dd_files fs" by (rule include_keeps_files [OF inc])
  obtain f2 b2 where inst: "fold (install_target stamp) (layer_targets d) (f1, []) = (f2, b2)"
    by (cases "fold (install_target stamp) (layer_targets d) (f1, [])")
  note installed = install_targets_undoable [OF undoable_start layer_targets_distinct _ inst, simplified]
  show ?thesis using assms installed f1 by (auto simp: install_layer_def inc inst Let_def split: sum.splits if_splits)
qed

lemma insert_before_contains: "contains s needle \<Longrightarrow> needle \<noteq> [] \<Longrightarrow> contains (insert_before needle ins s) (ins @ needle)"
proof (induction s)
  case (Cons c s)
  then show ?case by (auto simp: contains_iff_sublist sublist_append prefix_def sublist_Cons_right)
qed simp

lemma contains_trans: "contains s t \<Longrightarrow> contains t u \<Longrightarrow> contains s u"
  unfolding contains_iff_sublist by (rule sublist_order.order_trans)

lemma contains_first: "contains (concat (map (\<lambda>l. l @ [newline]) ((a @ p @ b) # rest))) p"
  by (simp add: contains_iff_sublist sublist_append)

lemma include_names_path: "contains include_block custom_rules_lua_path"
  unfolding include_block_def by (rule contains_first)

text \<open>A configuration that was checked or extended names the loader, so it is extended once only.\<close>

lemma include_once:
  assumes "ensure_dnsdist_custom_include stamp fs = (fs', Inr b)"
  shows "ensure_dnsdist_custom_include stamp' fs' = (fs', Inr False)"
proof (cases b)
  case True
  then obtain current where c: "dd_conf fs' = Some (insert_before bind_pool_marker (include_block @ [newline]) current)"
      "contains current bind_pool_marker"
    using assms by (auto simp: ensure_dnsdist_custom_include_def split: option.splits if_splits)
  have "contains (insert_before bind_pool_marker (include_block @ [newline]) current)
      ((include_block @ [newline]) @ bind_pool_marker)"
    by (rule insert_before_contains [OF c(2)]) (simp add: bind_pool_marker_def)
  moreover have "contains ((include_block @ [newline]) @ bind_pool_marker) custom_rules_lua_path"
    using include_names_path by (simp add: contains_iff_sublist sublist_append)
  ultimately have "contains (insert_before bind_pool_marker (include_block @ [newline]) current) custom_rules_lua_path"
    by (rule contains_trans)
  then show ?thesis using c by (simp add: ensure_dnsdist_custom_include_def)
next
  case False
  then show ?thesis using assms by (auto simp: ensure_dnsdist_custom_include_def split: option.splits if_splits)
qed

lemma layer_restores:
  assumes "deploy_dnsdist_layer tools stamp stage zones active fs = (fs', r)"
  shows "case r of
      Inl _ \<Rightarrow> map_of (dd_files fs') = map_of (dd_files fs)
    | Inr info \<Rightarrow> (\<exists>d. render_dnsdist_data active zones = Inr d \<and>
        (\<forall>(n, c)\<in>set (layer_targets d). map_of (dd_files fs') n = Some c) \<and>
        (\<forall>n. n \<notin> fst ` set (layer_targets d) \<longrightarrow> map_of (dd_files fs') n = map_of (dd_files fs) n)) \<and>
        map_of (dd_files (rollback_dnsdist_layer info fs')) = map_of (dd_files fs)"
proof (cases "render_dnsdist_data active zones")
  case (Inl e)
  then show ?thesis using assms by (auto simp: deploy_dnsdist_layer_def)
next
  case (Inr d)
  show ?thesis
  proof (cases "list_ex (\<lambda>(name, content). map_of (dd_files fs) name \<noteq> Some content) (layer_targets d)")
    case False
    then show ?thesis using assms Inr
      by (auto simp: deploy_dnsdist_layer_def rollback_dnsdist_layer_def Let_def list_ex_iff)
  next
    case True
    obtain f1 bk o' where inst: "install_layer tools stamp stage d fs = (f1, bk, o')"
      by (cases "install_layer tools stamp stage d fs")
    show ?thesis using assms Inr True install_layer_undoable [OF inst] restore_undoes [of stamp "map_of (dd_files fs)" _ bk f1]
      by (cases o') (auto simp: deploy_dnsdist_layer_def rollback_dnsdist_layer_def Let_def inst
          restore_dnsdist_backups_def)
  qed
qed

section \<open>Properties\<close>

text \<open>
  C15: the dnsdist layer is installed completely or not at all.  When the deployment raises, every
  compiled file reads as before; when it succeeds, the loader and the four data files hold the rendered
  texts, all other files read as before, and the caller's rollback brings every file back.
\<close>

theorem layer_all_or_nothing:
  assumes "deploy_dnsdist_layer tools stamp stage zones active fs = (fs', r)"
  shows "case r of
      Inl _ \<Rightarrow> map_of (dd_files fs') = map_of (dd_files fs)
    | Inr info \<Rightarrow> (\<exists>d. render_dnsdist_data active zones = Inr d \<and>
        (\<forall>(n, c)\<in>set (layer_targets d). map_of (dd_files fs') n = Some c) \<and>
        (\<forall>n. n \<notin> fst ` set (layer_targets d) \<longrightarrow> map_of (dd_files fs') n = map_of (dd_files fs) n)) \<and>
        map_of (dd_files (rollback_dnsdist_layer info fs')) = map_of (dd_files fs)"
  using layer_restores [OF assms] .

theorem layer_all_or_nothing_witness:
  "case deploy_dnsdist_layer \<lparr>lt_check = (\<lambda>_ _. True), lt_restart = (\<lambda>_. False)\<rparr> ''7'' ''/s'' [] ActiveRuleSet
      \<lparr>dd_conf = None, dd_packaged = Some custom_rules_lua_path, dd_files = [(PASS_EXACT_DATA, ''old'')], dd_backups = []\<rparr> of
     (fs', r) \<Rightarrow> isl r \<and> map_of (dd_files fs') = [PASS_EXACT_DATA \<mapsto> ''old'']"
  (is "case ?d of (fs', r) \<Rightarrow> _")
proof -
  obtain fs' r where d: "?d = (fs', r)" by (cases ?d)
  have "isl (snd ?d)"
    by (simp add: deploy_dnsdist_layer_def render_dnsdist_data_def data_text_def pass_suffixes_def pass_exact_def
        ActiveRuleSet_def Let_def layer_targets_def data_files_def layer_names install_layer_def
        ensure_dnsdist_custom_include_def contains_iff_sublist split: prod.split)
  then show ?thesis using layer_all_or_nothing [OF d] by (cases r) (auto simp: d)
qed

end
