(* ===== verification/Deploy.thy ===== *)
theory Deploy
  imports Policy_Cache Dns_Checks Dnsdist_Layer
begin

text \<open>
  The deployment pipeline (\<^verbatim>\<open>deploy\<close> and \<^verbatim>\<open>protection_enable_reuse\<close> of
  \<^verbatim>\<open>app/alderpointdns_compiler.py\<close>): one function per stage, run in order until one raises, with the rollback
  and the row of the run written on every path.  The outside world (programs, clock, network, test
  switches) is one argument; the upstream-resolver and replication stages, which change nothing of the
  state kept here, enter by whether they raise.  The deployment lock makes runs sequential.  Shown: every
  run ends with its outcome recorded, a failed run leaves the policy, the dnsdist layer and the cache
  options as they were, a successful one installs the compiled policy, and reuse installs what a rebuild
  would.
\<close>

section \<open>State and surroundings\<close>

record deployment =
  dl_id :: nat
  dl_started_at :: string
  dl_finished_at :: "string option"
  dl_status :: deploy_status
  dl_active_domains :: nat
  dl_blocked_test :: "string option"
  dl_allowed_test :: "string option"
  dl_message :: string
  dl_trigger :: "string option"

text \<open>\<open>ap_compiled\<close> is the column \<^verbatim>\<open>last_compile_success\<close> of the sources, by id.\<close>

record appliance =
  ap_policy :: policy_state
  ap_compiled :: "(nat \<times> string) list"
  ap_deployments :: "deployment list"
  ap_rpz :: "string option"
  ap_backups :: file_map
  ap_bind :: bind_fs
  ap_cache_fs :: cache_fs
  ap_dnsdist :: dnsdist_fs
  ap_policy_cache :: policy_cache

interpretation deploy_rows: id_table dl_id "\<lambda>i r. r\<lparr>dl_id := i\<rparr>"
  by unfold_locales simp

record world =
  w_lib :: stdlib
  w_sha :: "string \<Rightarrow> string"
  w_digest :: "policy_manifest \<Rightarrow> string"
  w_net :: "nat \<Rightarrow> fetch"
  w_started :: string
  w_installed_at :: string
  w_finished :: string
  w_stamp :: nat
  w_clock :: nat
  w_rollback_clock :: nat
  w_checkzone :: "string \<Rightarrow> bool"
  w_checkconf :: "appliance \<Rightarrow> bool"
  w_reload :: "appliance \<Rightarrow> bool"
  w_bind_tools :: bind_tools
  w_server_ip :: string
  w_today :: nat
  w_upstream :: "policy_state \<Rightarrow> unit result"
  w_meminfo :: "string option"
  w_sanitize :: "string \<Rightarrow> string"
  w_cache_tools :: cache_tools
  w_layer_tools :: layer_tools
  w_stage_dir :: string
  w_dig :: "appliance \<Rightarrow> string \<Rightarrow> string \<Rightarrow> nat \<Rightarrow> dig_answer"
  w_delay :: "nat \<Rightarrow> nat"
  w_record_steps :: nat
  w_replication :: "unit result"
  w_invalid_rpz_switch :: bool
  w_postcheck_fail_switch :: bool

text \<open>The local variables of a run.\<close>

record run =
  run_ap :: appliance
  run_blocks :: "string set"
  run_allowed :: "string set"
  run_errors :: "string list"
  run_custom :: active_rule_set
  run_active_domains :: nat
  run_rpz_text :: string
  run_blocked_test :: "string option"
  run_allowed_test :: "string option"
  run_layer :: "layer_info option"
  run_cache_snapshot :: "string option"
  run_cache_deployed :: bool

definition new_run :: "appliance \<Rightarrow> run" where
  "new_run ap = \<lparr>run_ap = ap, run_blocks = {}, run_allowed = {}, run_errors = [], run_custom = ActiveRuleSet,
     run_active_domains = 0, run_rpz_text = [], run_blocked_test = None, run_allowed_test = None, run_layer = None,
     run_cache_snapshot = None, run_cache_deployed = False\<rparr>"

type_synonym stage = "run \<Rightarrow> run \<times> unit result"

text \<open>The body of the \<^verbatim>\<open>try\<close>: the stages in order, until one raises.\<close>

fun run_stages :: "stage list \<Rightarrow> stage" where
  "run_stages [] r = (r, Inr ())"
| "run_stages (st # sts) r = (case st r of (r', Inl e) \<Rightarrow> (r', Inl e) | (r', Inr _) \<Rightarrow> run_stages sts r')"

section \<open>The stages\<close>

definition collect_stage :: "world \<Rightarrow> bool \<Rightarrow> bool \<Rightarrow> stage" where
  "collect_stage w download fail_on_source_errors r =
     (let ap = run_ap r; p = ap_policy ap;
          c = collect_rules (w_lib w) (w_sha w) (w_started w) (if download then Some (w_net w) else None)
                (ps_sources p) (ps_files p);
          r = r\<lparr>run_ap := ap\<lparr>ap_policy := p\<lparr>ps_sources := co_db c, ps_files := co_files c\<rparr>\<rparr>,
                run_blocks := co_blocks c, run_allowed := co_allows c, run_errors := co_errors c\<rparr>
      in (r, if fail_on_source_errors \<and> co_errors c \<noteq> []
             then Inl (''initial default blocklist download failed: '' @ join ''; '' (co_errors c)) else Inr ()))"

definition invalid_record_text :: string where
  "invalid_record_text = ''this is not a valid zone record'' @ [newline]"

definition compile_stage :: "world \<Rightarrow> stage" where
  "compile_stage w r =
     (let ap = run_ap r; p = ap_policy ap in
      case collect_active (w_started w) (ps_rules p) of (rules, active) \<Rightarrow>
        let blocks = subtract_allowed (run_blocks r) active in
        (r\<lparr>run_ap := ap\<lparr>ap_policy := p\<lparr>ps_rules := rules\<rparr>\<rparr>, run_custom := active, run_blocks := blocks,
           run_active_domains := card blocks + length (ars_blocks active),
           run_rpz_text := render_rpz (w_clock w) blocks (Some active) @
             (if w_invalid_rpz_switch w then invalid_record_text else [])\<rparr>, Inr ()))"

definition validate_stage :: "world \<Rightarrow> stage" where
  "validate_stage w r =
     (if \<not> w_checkzone w (run_rpz_text r) then (r, Inl ''named-checkzone failed'')
      else
        let ap = run_ap r; b = ap_bind ap;
            ap = (if fs_zones_conf b = None then ap\<lparr>ap_bind := b\<lparr>fs_zones_conf := Some []\<rparr>\<rparr> else ap)
        in (r\<lparr>run_ap := ap\<rparr>, if w_checkconf w ap then Inr () else Inl ''named-checkconf failed''))"

definition backup_name :: "world \<Rightarrow> string" where
  "backup_name w = ''alderpointdns.rpz.last-good.'' @ str_nat (w_stamp w)"

definition take_rpz_backup :: "world \<Rightarrow> appliance \<Rightarrow> appliance" where
  "take_rpz_backup w ap =
     (case ap_rpz ap of None \<Rightarrow> ap | Some s \<Rightarrow> ap\<lparr>ap_backups := AList.update (backup_name w) s (ap_backups ap)\<rparr>)"

definition mark_compiled :: "string \<Rightarrow> appliance \<Rightarrow> appliance" where
  "mark_compiled ts ap =
     ap\<lparr>ap_compiled := fold (\<lambda>s. AList.update (src_id s) ts)
          (enabled_sources (sources (ps_sources (ap_policy ap)))) (ap_compiled ap)\<rparr>"

definition install_stage :: "world \<Rightarrow> stage" where
  "install_stage w r =
     (let ap = (take_rpz_backup w (run_ap r))\<lparr>ap_rpz := Some (run_rpz_text r)\<rparr> in
      if w_reload w ap then (r\<lparr>run_ap := mark_compiled (w_installed_at w) ap\<rparr>, Inr ())
      else (r\<lparr>run_ap := ap\<rparr>, Inl ''rndc reload failed''))"

definition zones_stage :: "world \<Rightarrow> stage" where
  "zones_stage w r =
     (let ap = run_ap r; p = ap_policy ap in
      case deploy_zones (w_lib w) (w_bind_tools w) (w_server_ip w) (w_today w) (ps_local p) (ap_bind ap) of
        (ldb, bind, res) \<Rightarrow>
          (r\<lparr>run_ap := ap\<lparr>ap_policy := p\<lparr>ps_local := ldb\<rparr>, ap_bind := bind\<rparr>\<rparr>,
           case res of Inl e \<Rightarrow> Inl e | Inr _ \<Rightarrow> Inr ()))"

definition upstream_stage :: "world \<Rightarrow> stage" where
  "upstream_stage w r = (r, w_upstream w (ap_policy (run_ap r)))"

definition cache_stage :: "world \<Rightarrow> stage" where
  "cache_stage w r =
     (let ap = run_ap r; p = ap_policy ap; r = r\<lparr>run_cache_snapshot := cf_options (ap_cache_fs ap)\<rparr> in
      case detect_total_memory_mb (w_meminfo w) of
        Inl e \<Rightarrow> (r, Inl e)
      | Inr total_mb \<Rightarrow>
          (case deploy_cache_options (w_sanitize w) (w_cache_tools w) total_mb (str_nat (w_stamp w)) (w_started w)
              (w_finished w) (ps_cache p) (ap_cache_fs ap) of
             (cdb, cfs, res) \<Rightarrow>
               let r = r\<lparr>run_ap := ap\<lparr>ap_policy := p\<lparr>ps_cache := cdb\<rparr>, ap_cache_fs := cfs\<rparr>\<rparr> in
               (case res of Inl e \<Rightarrow> (r, Inl e) | Inr _ \<Rightarrow> (r\<lparr>run_cache_deployed := True\<rparr>, Inr ()))))"

definition layer_stage :: "world \<Rightarrow> stage" where
  "layer_stage w r =
     (let ap = run_ap r in
      case deploy_dnsdist_layer (w_layer_tools w) (str_nat (w_stamp w)) (w_stage_dir w)
          (local_zone_names (Some (ps_local (ap_policy ap)))) (run_custom r) (ap_dnsdist ap) of
        (fs, Inl e) \<Rightarrow> (r\<lparr>run_ap := ap\<lparr>ap_dnsdist := fs\<rparr>\<rparr>, Inl e)
      | (fs, Inr info) \<Rightarrow> (r\<lparr>run_ap := ap\<lparr>ap_dnsdist := fs\<rparr>, run_layer := Some info\<rparr>, Inr ()))"

text \<open>The name looked up as blocked: a well-known one when it is blocked, else the first.\<close>

definition blocked_probe :: "string set \<Rightarrow> active_rule_set \<Rightarrow> string option" where
  "blocked_probe blocks active =
     (let custom_blocks = fst ` set (filter (\<lambda>(n, e). de_subdomains e \<or> de_exact e) (ars_blocks active)) in
      if blocks \<noteq> {} then
        Some (if ''cloudflare-dns.com'' \<in> blocks then ''cloudflare-dns.com'' else hd (sorted_list_of_set blocks))
      else if custom_blocks \<noteq> {} then Some (hd (sorted_list_of_set custom_blocks))
      else None)"

definition blocked_stage :: "world \<Rightarrow> stage" where
  "blocked_stage w r =
     (if w_postcheck_fail_switch w then (r, Inl ''forced post-deploy failure for rollback test'')
      else if \<not> resolves (w_dig w (run_ap r) ''cloudflare.com'' ''A'' 0)
      then (r, Inl ''post-deploy ordinary resolution failed'')
      else let probe = blocked_probe (run_blocks r) (run_custom r); r = r\<lparr>run_blocked_test := probe\<rparr> in
        case probe of
          None \<Rightarrow> (r, Inr ())
        | Some d \<Rightarrow>
            if wait_until (\<lambda>i. is_blocked (w_dig w (run_ap r) d ''A'' i)) (w_delay w) 50 then (r, Inr ())
            else (r, Inl (''post-deploy blocked-domain test failed for '' @ d)))"

definition allowed_stage :: "world \<Rightarrow> stage" where
  "allowed_stage w r =
     (let allowed = run_allowed r \<union> fst ` set (ars_allows (run_custom r)); r = r\<lparr>run_allowed := allowed\<rparr> in
      if allowed = {} then (r, Inr ())
      else
        let res = validate_allow_domains (\<lambda>d. w_dig w (run_ap r) d ''A'' 0) allowed (run_blocks r) (run_custom r)
              (run_rpz_text r) 5
        in if \<not> av_ok res then (r, Inl (av_message res))
           else (r\<lparr>run_allowed_test := av_tested_domain res,
                   run_errors := run_errors r @ (if av_tested_domain res = None then [av_message res] else [])\<rparr>, Inr ()))"

definition rewrite_stage :: "world \<Rightarrow> stage" where
  "rewrite_stage w r =
     (case sorted_keys (ars_rewrites (run_custom r)) of
        [] \<Rightarrow> (r, Inr ())
      | name # _ \<Rightarrow>
          let entry = dict_get (ars_rewrites (run_custom r)) name new_rewrite_entry;
              has_a = (case rw_a entry of None \<Rightarrow> False | Some x \<Rightarrow> x \<noteq> []);
              (ty, addr) = (if has_a then (''A'', rw_a entry) else (''AAAA'', rw_aaaa entry))
          in case addr of
               None \<Rightarrow> (r, Inl ''argument of type NoneType'')
             | Some address \<Rightarrow>
                 if wait_until (\<lambda>i. resolves_to (w_dig w (run_ap r) name ty i) address) (w_delay w) 50
                 then (r, Inr ())
                 else (r, Inl (''post-deploy rewrite test failed for '' @ name)))"

definition record_stage :: "world \<Rightarrow> stage" where
  "record_stage w r =
     (let ap = run_ap r in
      (r\<lparr>run_ap := ap\<lparr>ap_policy_cache := record_reusable_protection_policy (w_digest w) (w_sha w) (w_record_steps w)
           (ap_policy ap) (run_rpz_text r) (run_active_domains r) (ap_policy_cache ap)\<rparr>\<rparr>, w_replication w))"

definition deploy_stages :: "world \<Rightarrow> bool \<Rightarrow> bool \<Rightarrow> stage list" where
  "deploy_stages w download fail_on_source_errors =
     [collect_stage w download fail_on_source_errors, compile_stage w, validate_stage w, install_stage w,
      zones_stage w, upstream_stage w, cache_stage w, layer_stage w, blocked_stage w, allowed_stage w,
      rewrite_stage w, record_stage w]"

section \<open>Rollback and record\<close>

text \<open>\<^verbatim>\<open>restore_rpz_backup_for_rollback\<close>: the file is written before the reload is tried.\<close>

definition restore_rpz_backup_for_rollback :: "world \<Rightarrow> string \<Rightarrow> appliance \<Rightarrow> appliance \<times> unit result" where
  "restore_rpz_backup_for_rollback w saved ap =
     (let ap = ap\<lparr>ap_rpz := Some (refresh_rpz_serial (w_rollback_clock w) saved)\<rparr> in
      (ap, if w_reload w ap then Inr () else Inl ''rndc reload failed''))"

definition rollback_layer :: "run \<Rightarrow> appliance \<Rightarrow> appliance" where
  "rollback_layer r ap =
     (case run_layer r of None \<Rightarrow> ap | Some info \<Rightarrow> ap\<lparr>ap_dnsdist := rollback_dnsdist_layer info (ap_dnsdist ap)\<rparr>)"

definition rollback_rpz :: "world \<Rightarrow> appliance \<Rightarrow> appliance \<times> string list" where
  "rollback_rpz w ap =
     (case map_of (ap_backups ap) (backup_name w) of
        None \<Rightarrow> (ap, [])
      | Some saved \<Rightarrow>
          (case restore_rpz_backup_for_rollback w saved ap of
             (ap, Inr _) \<Rightarrow> (ap, [])
           | (ap, Inl e) \<Rightarrow> (ap, [''RPZ rollback failed: '' @ e])))"

definition rollback_cache :: "run \<Rightarrow> appliance \<Rightarrow> appliance" where
  "rollback_cache r ap =
     (if run_cache_deployed r then ap\<lparr>ap_cache_fs := (ap_cache_fs ap)\<lparr>cf_options := run_cache_snapshot r\<rparr>\<rparr> else ap)"

definition roll_back :: "world \<Rightarrow> run \<Rightarrow> string \<Rightarrow> appliance \<times> deploy_status \<times> string" where
  "roll_back w r message =
     (case rollback_rpz w (rollback_layer r (run_ap r)) of (ap, errs) \<Rightarrow>
        let ap = rollback_cache r ap in
        if errs \<noteq> [] then (ap, RollbackFailed, message @ ''; '' @ join ''; '' errs) else (ap, RolledBack, message))"

definition start_row :: "world \<Rightarrow> string option \<Rightarrow> string \<Rightarrow> appliance \<Rightarrow> appliance" where
  "start_row w trigger message ap =
     ap\<lparr>ap_deployments := insert_row dl_id (\<lambda>i d. d\<lparr>dl_id := i\<rparr>)
          \<lparr>dl_id = 0, dl_started_at = w_started w, dl_finished_at = None, dl_status = Running, dl_active_domains = 0,
           dl_blocked_test = None, dl_allowed_test = None, dl_message = message, dl_trigger = trigger\<rparr> (ap_deployments ap)\<rparr>"

definition finish_row :: "world \<Rightarrow> nat \<Rightarrow> deploy_status \<Rightarrow> string \<Rightarrow> run \<Rightarrow> appliance \<Rightarrow> appliance" where
  "finish_row w rid status message r ap =
     ap\<lparr>ap_deployments := update_where (\<lambda>d. dl_id d = rid)
          (\<lambda>d. d\<lparr>dl_finished_at := Some (w_finished w), dl_status := status, dl_active_domains := run_active_domains r,
                 dl_blocked_test := run_blocked_test r, dl_allowed_test := run_allowed_test r, dl_message := message\<rparr>)
          (ap_deployments ap)\<rparr>"

definition deploy :: "world \<Rightarrow> bool \<Rightarrow> string option \<Rightarrow> bool \<Rightarrow> appliance \<Rightarrow> appliance \<times> nat result" where
  "deploy w download trigger fail_on_source_errors ap =
     (let rid = next_rowid dl_id (ap_deployments ap) in
      case run_stages (deploy_stages w download fail_on_source_errors) (new_run (start_row w trigger [] ap)) of
        (r, Inr _) \<Rightarrow> (finish_row w rid Deployed (join ''; '' (run_errors r)) r (run_ap r), Inr rid)
      | (r, Inl e) \<Rightarrow>
          (case roll_back w r e of (ap', status, message) \<Rightarrow> (finish_row w rid status message r ap', Inl e)))"

section \<open>Reuse of the cached policy\<close>

text \<open>The commands that read and stage the cached pair cannot fail once the test has passed.\<close>

definition reuse_install_stage :: "world \<Rightarrow> stage" where
  "reuse_install_stage w r =
     (let ap = run_ap r;
          cached = (case pc_rpz (ap_policy_cache ap) of None \<Rightarrow> [] | Some s \<Rightarrow> s);
          active = (case pc_manifest (ap_policy_cache ap) of Some (Inr m) \<Rightarrow> cm_active_domains m | _ \<Rightarrow> 0);
          content = refresh_rpz_serial (w_clock w) cached;
          r = r\<lparr>run_rpz_text := content, run_active_domains := active\<rparr>
      in if \<not> w_checkzone w content then (r, Inl ''named-checkzone failed'')
         else if \<not> w_checkconf w ap then (r, Inl ''named-checkconf failed'')
         else install_stage w r)"

definition reuse_check_stage :: "world \<Rightarrow> stage" where
  "reuse_check_stage w r =
     (r, if \<not> resolves (w_dig w (run_ap r) ''cloudflare.com'' ''A'' 0) then Inl ''post-deploy ordinary resolution failed''
         else w_replication w)"

text \<open>
  When the test fails the command ends with exit code 2 and the reason; nothing was changed.  The rollback
  is that of a run that reached neither the cache nor the layer stage.
\<close>

datatype reuse_outcome = Unavailable string | Reused nat | ReuseFailed string

definition protection_enable_reuse :: "world \<Rightarrow> appliance \<Rightarrow> appliance \<times> reuse_outcome" where
  "protection_enable_reuse w ap =
     (case reusable_protection_policy_available (w_digest w) (w_sha w) (ap_policy ap) (ap_policy_cache ap) of
        (False, reason) \<Rightarrow> (ap, Unavailable reason)
      | (True, _) \<Rightarrow>
          let rid = next_rowid dl_id (ap_deployments ap);
              ap1 = start_row w (Some ''protection-reuse'') ''reusing cached compiled protection policy'' ap
          in case run_stages [reuse_install_stage w, reuse_check_stage w] (new_run ap1) of
               (r, Inr _) \<Rightarrow>
                 (finish_row w rid Deployed ''reused cached compiled protection policy'' r (run_ap r), Reused rid)
             | (r, Inl e) \<Rightarrow>
                 (case roll_back w r e of (ap', status, message) \<Rightarrow> (finish_row w rid status message r ap', ReuseFailed e)))"

section \<open>Frames\<close>

lemmas stage_defs = collect_stage_def compile_stage_def validate_stage_def install_stage_def zones_stage_def
  upstream_stage_def cache_stage_def layer_stage_def blocked_stage_def allowed_stage_def rewrite_stage_def
  record_stage_def take_rpz_backup_def mark_compiled_def

lemma run_stages_frame:
  "(\<And>st r. st \<in> set sts \<Longrightarrow> f (fst (st r)) = f r) \<Longrightarrow> f (fst (run_stages sts r)) = f r"
proof (induction sts arbitrary: r)
  case (Cons st sts)
  have "f (fst (st r)) = f r" using Cons.prems by simp
  moreover have "f (fst (run_stages sts r')) = f r'" for r' using Cons.IH Cons.prems by simp
  ultimately show ?case by (cases "st r"; cases "snd (st r)") auto
qed simp

text \<open>Only one stage touches what \<open>f\<close> reads: at the end it is as before or as that stage left it.\<close>

lemma run_stages_one:
  assumes "\<And>st r. st \<in> set (before @ after) \<Longrightarrow> f (fst (st r)) = f r"
  shows "\<exists>r1. f r1 = f r \<and>
    (f (fst (run_stages (before @ st # after) r)) = f r \<or>
     f (fst (run_stages (before @ st # after) r)) = f (fst (st r1)))"
  using assms
proof (induction before arbitrary: r)
  case Nil
  then have "f (fst (run_stages after r')) = f r'" for r' by (intro run_stages_frame) simp
  then show ?case by (intro exI [of _ r]) (cases "st r"; cases "snd (st r)"; auto)
next
  case (Cons s before)
  have one: "f (fst (s r)) = f r" using Cons.prems by simp
  have IH: "\<exists>r1. f r1 = f r' \<and> (f (fst (run_stages (before @ st # after) r')) = f r' \<or>
      f (fst (run_stages (before @ st # after) r')) = f (fst (st r1)))" for r'
    using Cons.IH Cons.prems by simp
  show ?case
  proof (cases "snd (s r)")
    case (Inl e)
    then show ?thesis using one by (intro exI [of _ r]) (cases "s r"; auto)
  next
    case (Inr u)
    then show ?thesis using IH [of "fst (s r)"] one by (cases "s r") auto
  qed
qed

lemma stages_keep_rows:
  "st \<in> set (deploy_stages w download strict) \<Longrightarrow> ap_deployments (run_ap (fst (st r))) = ap_deployments (run_ap r)"
  by (auto simp: deploy_stages_def stage_defs Let_def split: prod.splits sum.splits option.splits list.splits)

definition rpz_part :: "run \<Rightarrow> string option \<times> file_map" where
  "rpz_part r = (ap_rpz (run_ap r), ap_backups (run_ap r))"

definition layer_part :: "run \<Rightarrow> dnsdist_fs \<times> layer_info option" where
  "layer_part r = (ap_dnsdist (run_ap r), run_layer r)"

definition cache_part :: "run \<Rightarrow> cache_fs \<times> string option \<times> bool" where
  "cache_part r = (ap_cache_fs (run_ap r), run_cache_snapshot r, run_cache_deployed r)"

lemma stages_keep_rpz:
  "st \<in> {collect_stage w download strict, compile_stage w, validate_stage w, zones_stage w, upstream_stage w,
     cache_stage w, layer_stage w, blocked_stage w, allowed_stage w, rewrite_stage w, record_stage w} \<Longrightarrow>
   rpz_part (fst (st r)) = rpz_part r"
  by (auto simp: rpz_part_def stage_defs Let_def split: prod.splits sum.splits option.splits list.splits)

lemma stages_keep_layer:
  "st \<in> {collect_stage w download strict, compile_stage w, validate_stage w, install_stage w, zones_stage w, upstream_stage w,
     cache_stage w, blocked_stage w, allowed_stage w, rewrite_stage w, record_stage w} \<Longrightarrow>
   layer_part (fst (st r)) = layer_part r"
  by (auto simp: layer_part_def stage_defs Let_def split: prod.splits sum.splits option.splits list.splits)

lemma stages_keep_cache:
  "st \<in> {collect_stage w download strict, compile_stage w, validate_stage w, install_stage w, zones_stage w, upstream_stage w,
     layer_stage w, blocked_stage w, allowed_stage w, rewrite_stage w, record_stage w} \<Longrightarrow>
   cache_part (fst (st r)) = cache_part r"
  by (auto simp: cache_part_def stage_defs Let_def split: prod.splits sum.splits option.splits list.splits if_splits)

section \<open>What a failed run leaves\<close>

abbreviation deploy_run :: "world \<Rightarrow> bool \<Rightarrow> bool \<Rightarrow> run \<Rightarrow> run" where
  "deploy_run w download strict r \<equiv> fst (run_stages (deploy_stages w download strict) r)"

lemma run_rpz_part:
  "\<exists>r1. rpz_part r1 = rpz_part r \<and> (rpz_part (deploy_run w download strict r) = rpz_part r \<or>
     rpz_part (deploy_run w download strict r) = rpz_part (fst (install_stage w r1)))"
  using run_stages_one [of "[collect_stage w download strict, compile_stage w, validate_stage w]"
      "[zones_stage w, upstream_stage w, cache_stage w, layer_stage w, blocked_stage w, allowed_stage w, rewrite_stage w, record_stage w]"
      rpz_part r "install_stage w"] stages_keep_rpz [where w = w and download = download and strict = strict]
  by (simp add: deploy_stages_def)

lemma run_layer_part:
  "\<exists>r1. layer_part r1 = layer_part r \<and> (layer_part (deploy_run w download strict r) = layer_part r \<or>
     layer_part (deploy_run w download strict r) = layer_part (fst (layer_stage w r1)))"
  using run_stages_one [of "[collect_stage w download strict, compile_stage w, validate_stage w, install_stage w, zones_stage w,
        upstream_stage w, cache_stage w]" "[blocked_stage w, allowed_stage w, rewrite_stage w, record_stage w]"
      layer_part r "layer_stage w"] stages_keep_layer [where w = w and download = download and strict = strict]
  by (simp add: deploy_stages_def)

lemma run_cache_part:
  "\<exists>r1. cache_part r1 = cache_part r \<and> (cache_part (deploy_run w download strict r) = cache_part r \<or>
     cache_part (deploy_run w download strict r) = cache_part (fst (cache_stage w r1)))"
  using run_stages_one [of "[collect_stage w download strict, compile_stage w, validate_stage w, install_stage w, zones_stage w,
        upstream_stage w]" "[layer_stage w, blocked_stage w, allowed_stage w, rewrite_stage w, record_stage w]"
      cache_part r "cache_stage w"] stages_keep_cache [where w = w and download = download and strict = strict]
  by (simp add: deploy_stages_def)

lemma install_stage_backup:
  "map_of (ap_backups (run_ap (fst (install_stage w r)))) (backup_name w) =
     (case ap_rpz (run_ap r) of None \<Rightarrow> map_of (ap_backups (run_ap r)) (backup_name w) | Some s \<Rightarrow> Some s)"
  by (simp add: install_stage_def take_rpz_backup_def mark_compiled_def Let_def update_conv' split: option.split)

lemma layer_stage_undo:
  assumes "run_layer r = None"
  shows "map_of (dd_files (case run_layer (fst (layer_stage w r)) of
      None \<Rightarrow> ap_dnsdist (run_ap (fst (layer_stage w r)))
    | Some info \<Rightarrow> rollback_dnsdist_layer info (ap_dnsdist (run_ap (fst (layer_stage w r)))))) =
    map_of (dd_files (ap_dnsdist (run_ap r)))"
proof -
  obtain fs res where d: "deploy_dnsdist_layer (w_layer_tools w) (str_nat (w_stamp w)) (w_stage_dir w)
      (local_zone_names (Some (ps_local (ap_policy (run_ap r))))) (run_custom r) (ap_dnsdist (run_ap r)) = (fs, res)"
    by (metis surj_pair)
  show ?thesis using layer_restores [OF d] assms by (cases res) (simp_all add: layer_stage_def Let_def d)
qed

lemma cache_stage_undo:
  assumes "\<not> run_cache_deployed r" "cf_options (ap_cache_fs (run_ap r)) \<noteq> None \<or>
      map_of (cf_backups (ap_cache_fs (run_ap r))) (''cache-options.conf.last-good.'' @ str_nat (w_stamp w)) = None"
  shows "(if run_cache_deployed (fst (cache_stage w r)) then run_cache_snapshot (fst (cache_stage w r))
     else cf_options (ap_cache_fs (run_ap (fst (cache_stage w r))))) = cf_options (ap_cache_fs (run_ap r))"
proof (cases "detect_total_memory_mb (w_meminfo w)")
  case (Inr total_mb)
  obtain cdb cfs res where d: "deploy_cache_options (w_sanitize w) (w_cache_tools w) total_mb (str_nat (w_stamp w)) (w_started w)
      (w_finished w) (ps_cache (ap_policy (run_ap r))) (ap_cache_fs (run_ap r)) = (cdb, cfs, res)"
    by (metis prod_cases3)
  show ?thesis using cache_failure_restores [OF d assms(2)] assms(1) Inr
    by (cases res) (simp_all add: cache_stage_def Let_def d)
qed (use assms(1) in \<open>simp add: cache_stage_def Let_def\<close>)

lemma layer_undone:
  fixes w :: world and download strict :: bool and r0 :: run
  assumes start: "layer_part r0 = (fs, None)"
  defines "r \<equiv> deploy_run w download strict r0"
  shows "map_of (dd_files (case run_layer r of None \<Rightarrow> ap_dnsdist (run_ap r)
      | Some info \<Rightarrow> rollback_dnsdist_layer info (ap_dnsdist (run_ap r)))) = map_of (dd_files fs)"
proof (cases "layer_part r = layer_part r0")
  case True
  then show ?thesis using start by (simp add: layer_part_def)
next
  case False
  then obtain r1 where r1: "layer_part r1 = (fs, None)" "layer_part r = layer_part (fst (layer_stage w r1))"
    using run_layer_part [of r0 w download strict] start by (auto simp: r_def)
  then have eq: "ap_dnsdist (run_ap r) = ap_dnsdist (run_ap (fst (layer_stage w r1)))"
    "run_layer r = run_layer (fst (layer_stage w r1))" by (simp_all add: layer_part_def)
  show ?thesis unfolding eq using layer_stage_undo [of r1 w] r1(1) by (simp add: layer_part_def)
qed

lemma cache_undone:
  fixes w :: world and download strict :: bool and r0 :: run
  assumes start: "cache_part r0 = (fs, None, False)"
    and fresh: "cf_options fs \<noteq> None \<or>
      map_of (cf_backups fs) (''cache-options.conf.last-good.'' @ str_nat (w_stamp w)) = None"
  defines "r \<equiv> deploy_run w download strict r0"
  shows "(if run_cache_deployed r then run_cache_snapshot r else cf_options (ap_cache_fs (run_ap r))) = cf_options fs"
proof (cases "cache_part r = cache_part r0")
  case True
  then show ?thesis using start by (simp add: cache_part_def)
next
  case False
  then obtain r1 where r1: "cache_part r1 = (fs, None, False)" "cache_part r = cache_part (fst (cache_stage w r1))"
    using run_cache_part [of r0 w download strict] start by (auto simp: r_def)
  then have eq: "ap_cache_fs (run_ap r) = ap_cache_fs (run_ap (fst (cache_stage w r1)))"
    "run_cache_snapshot r = run_cache_snapshot (fst (cache_stage w r1))"
    "run_cache_deployed r = run_cache_deployed (fst (cache_stage w r1))" by (simp_all add: cache_part_def)
  have "ap_cache_fs (run_ap r1) = fs" "\<not> run_cache_deployed r1" using r1(1) by (simp_all add: cache_part_def)
  then show ?thesis unfolding eq using cache_stage_undo [of r1 w] fresh by (simp only: not_False_eq_True simp_thms)
qed

text \<open>What the rollback writes.\<close>

lemma roll_back_parts:
  assumes "roll_back w r e = (ap', status, message)"
  shows "ap_rpz ap' = (case map_of (ap_backups (run_ap r)) (backup_name w) of
      None \<Rightarrow> ap_rpz (run_ap r) | Some s \<Rightarrow> Some (refresh_rpz_serial (w_rollback_clock w) s))"
    "ap_dnsdist ap' = (case run_layer r of None \<Rightarrow> ap_dnsdist (run_ap r)
      | Some info \<Rightarrow> rollback_dnsdist_layer info (ap_dnsdist (run_ap r)))"
    "cf_options (ap_cache_fs ap') = (if run_cache_deployed r then run_cache_snapshot r else cf_options (ap_cache_fs (run_ap r)))"
    "ap_deployments ap' = ap_deployments (run_ap r)" "status \<in> {RolledBack, RollbackFailed}"
  using assms
  by (auto simp: roll_back_def rollback_rpz_def rollback_layer_def rollback_cache_def restore_rpz_backup_for_rollback_def
      Let_def split: option.splits prod.splits sum.splits if_splits)

lemma start_row_parts [simp]:
  "ap_rpz (start_row w t m ap) = ap_rpz ap" "ap_backups (start_row w t m ap) = ap_backups ap"
  "ap_dnsdist (start_row w t m ap) = ap_dnsdist ap" "ap_cache_fs (start_row w t m ap) = ap_cache_fs ap"
  "ap_policy (start_row w t m ap) = ap_policy ap" "ap_policy_cache (start_row w t m ap) = ap_policy_cache ap"
  by (simp_all add: start_row_def)

lemma finish_row_parts [simp]:
  "ap_rpz (finish_row w i st m r ap) = ap_rpz ap" "ap_backups (finish_row w i st m r ap) = ap_backups ap"
  "ap_dnsdist (finish_row w i st m r ap) = ap_dnsdist ap" "ap_cache_fs (finish_row w i st m r ap) = ap_cache_fs ap"
  by (simp_all add: finish_row_def)

lemma finished_row:
  assumes "ap_deployments ap1 = ap_deployments (start_row w t m ap)"
  shows "\<exists>row. row_by_id dl_id (next_rowid dl_id (ap_deployments ap))
      (ap_deployments (finish_row w (next_rowid dl_id (ap_deployments ap)) status msg r ap1)) = Some row \<and>
    dl_status row = status \<and> dl_finished_at row = Some (w_finished w) \<and> dl_message row = msg \<and> dl_trigger row = t \<and>
    dl_active_domains row = run_active_domains r"
    "i \<noteq> next_rowid dl_id (ap_deployments ap) \<Longrightarrow>
     row_by_id dl_id i (ap_deployments (finish_row w (next_rowid dl_id (ap_deployments ap)) status msg r ap1)) =
       row_by_id dl_id i (ap_deployments ap)"
  using assms
  by (simp_all add: finish_row_def start_row_def deploy_rows.lookup_updated deploy_rows.lookup_inserted
      deploy_rows.lookup_insert_other option.map_ident)

lemma run_keeps_rows:
  "ap_deployments (run_ap (deploy_run w download strict (new_run ap))) = ap_deployments ap"
  using run_stages_frame [of "deploy_stages w download strict" "\<lambda>r. ap_deployments (run_ap r)" "new_run ap"]
    stages_keep_rows by (simp add: new_run_def)

section \<open>What a successful run installs\<close>

lemma run_stages_append:
  "run_stages (as @ bs) r = (case run_stages as r of (r', Inl e) \<Rightarrow> (r', Inl e) | (r', Inr _) \<Rightarrow> run_stages bs r')"
proof (induction as arbitrary: r)
  case (Cons a as)
  show ?case by (cases "a r"; cases "snd (a r)") (auto simp: Cons.IH)
qed simp

lemma first_stages:
  assumes "run_stages [collect_stage w download strict, compile_stage w, validate_stage w, install_stage w] (new_run ap) = (r, Inr ())"
  shows "ap_rpz (run_ap r) = Some (compile_rpz (w_lib w) (w_sha w) (w_started w)
      (if download then Some (w_net w) else None) (w_clock w) (ap_policy ap) @
      (if w_invalid_rpz_switch w then invalid_record_text else []))"
  using assms
  by (auto simp: collect_stage_def compile_stage_def validate_stage_def install_stage_def take_rpz_backup_def
      mark_compiled_def new_run_def compile_rpz_def compile_blocks_def Let_def
      split: prod.splits if_splits option.splits)

lemma successful_run:
  assumes "run_stages (deploy_stages w download strict) (new_run ap) = (r, Inr ())"
  shows "ap_rpz (run_ap r) = Some (compile_rpz (w_lib w) (w_sha w) (w_started w)
      (if download then Some (w_net w) else None) (w_clock w) (ap_policy ap) @
      (if w_invalid_rpz_switch w then invalid_record_text else []))"
proof -
  let ?before = "[collect_stage w download strict, compile_stage w, validate_stage w, install_stage w]"
  let ?after = "[zones_stage w, upstream_stage w, cache_stage w, layer_stage w, blocked_stage w, allowed_stage w,
      rewrite_stage w, record_stage w]"
  have split: "deploy_stages w download strict = ?before @ ?after" by (simp add: deploy_stages_def)
  obtain r1 where r1: "run_stages ?before (new_run ap) = (r1, Inr ())" "run_stages ?after r1 = (r, Inr ())"
    using assms unfolding split run_stages_append by (auto split: prod.splits sum.splits)
  have "rpz_part (fst (run_stages ?after r1)) = rpz_part r1"
    by (rule run_stages_frame, rule stages_keep_rpz [where download = download and strict = strict]) auto
  then show ?thesis using first_stages [OF r1(1)] r1(2) by (simp add: rpz_part_def)
qed

lemma live_zone_of_deploy:
  assumes "deploy w download trigger strict ap = (ap', Inr i)"
  shows "ap_rpz ap' = Some (compile_rpz (w_lib w) (w_sha w) (w_started w)
    (if download then Some (w_net w) else None) (w_clock w) (ap_policy ap) @
    (if w_invalid_rpz_switch w then invalid_record_text else []))"
proof -
  obtain r where "run_stages (deploy_stages w download strict) (new_run (start_row w trigger [] ap)) = (r, Inr ())"
    "ap_rpz ap' = ap_rpz (run_ap r)"
    using assms by (auto simp: deploy_def Let_def split: prod.splits sum.splits)
  with successful_run show ?thesis by fastforce
qed

text \<open>A deployment leaves the rules as they are, apart from a pending migration.\<close>

abbreviation run_rules :: "run \<Rightarrow> rules_db" where
  "run_rules r \<equiv> ps_rules (ap_policy (run_ap r))"

lemma stages_keep_rules:
  "st \<in> {collect_stage w download strict, validate_stage w, install_stage w, zones_stage w, upstream_stage w,
     cache_stage w, layer_stage w, blocked_stage w, allowed_stage w, rewrite_stage w, record_stage w} \<Longrightarrow>
   run_rules (fst (st r)) = run_rules r"
  by (auto simp: stage_defs Let_def split: prod.splits sum.splits option.splits list.splits)

lemma run_rules_kept:
  "run_rules (fst (run_stages (deploy_stages w download strict) r)) \<in> {run_rules r, init_db (w_started w) (run_rules r)}"
proof -
  have "\<exists>r1. run_rules r1 = run_rules r \<and>
    (run_rules (fst (run_stages ([collect_stage w download strict] @ compile_stage w #
        [validate_stage w, install_stage w, zones_stage w, upstream_stage w, cache_stage w, layer_stage w,
         blocked_stage w, allowed_stage w, rewrite_stage w, record_stage w]) r)) = run_rules r \<or>
     run_rules (fst (run_stages ([collect_stage w download strict] @ compile_stage w #
        [validate_stage w, install_stage w, zones_stage w, upstream_stage w, cache_stage w, layer_stage w,
         blocked_stage w, allowed_stage w, rewrite_stage w, record_stage w]) r)) = run_rules (fst (compile_stage w r1)))"
    by (rule run_stages_one, rule stages_keep_rules [where download = download and strict = strict]) auto
  then show ?thesis
    by (auto simp: deploy_stages_def compile_stage_def collect_active_def Let_def simp del: run_stages.simps)
qed

lemma row_policy [simp]:
  "ap_policy (start_row w trigger msg ap) = ap_policy ap" "ap_policy (finish_row w rid st m r ap) = ap_policy ap"
  by (simp_all add: start_row_def finish_row_def)

lemma deployed_rules:
  assumes "deploy w download trigger strict ap = (ap', Inr i)" "legacy_done (ps_rules (ap_policy ap))"
  shows "ps_rules (ap_policy ap') = ps_rules (ap_policy ap)"
proof -
  obtain r where "run_stages (deploy_stages w download strict) (new_run (start_row w trigger [] ap)) = (r, Inr ())"
    "ap_policy ap' = ap_policy (run_ap r)"
    using assms by (auto simp: deploy_def Let_def split: prod.splits sum.splits)
  then show ?thesis
    using run_rules_kept [of w download strict "new_run (start_row w trigger [] ap)"] init_db_same [OF assms(2)]
    by (auto simp: new_run_def)
qed

lemma reuse_install_live:
  assumes "reuse_install_stage w r = (r1, Inr u)"
  shows "ap_rpz (run_ap r1) = Some (refresh_rpz_serial (w_clock w)
    (case pc_rpz (ap_policy_cache (run_ap r)) of None \<Rightarrow> [] | Some s \<Rightarrow> s))"
  using assms by (auto simp: reuse_install_stage_def install_stage_def mark_compiled_def Let_def split: if_splits)

lemma reuse_success:
  assumes "protection_enable_reuse w ap = (ap', Reused i)"
  shows "fst (reusable_protection_policy_available (w_digest w) (w_sha w) (ap_policy ap) (ap_policy_cache ap))"
    "ap_rpz ap' = Some (refresh_rpz_serial (w_clock w) (case pc_rpz (ap_policy_cache ap) of None \<Rightarrow> [] | Some s \<Rightarrow> s))"
proof -
  let ?ap1 = "start_row w (Some ''protection-reuse'') ''reusing cached compiled protection policy'' ap"
  show "fst (reusable_protection_policy_available (w_digest w) (w_sha w) (ap_policy ap) (ap_policy_cache ap))"
    using assms by (auto simp: protection_enable_reuse_def split: prod.splits bool.splits)
  with assms obtain r where run: "run_stages [reuse_install_stage w, reuse_check_stage w] (new_run ?ap1) = (r, Inr ())"
      "ap_rpz ap' = ap_rpz (run_ap r)"
    by (auto simp: protection_enable_reuse_def Let_def simp del: run_stages.simps split: prod.splits sum.splits)
  obtain r1 u where "reuse_install_stage w (new_run ?ap1) = (r1, Inr u)" "run_ap r = run_ap r1"
    using run(1) by (auto simp: reuse_check_stage_def split: prod.splits sum.splits)
  then show "ap_rpz ap' = Some (refresh_rpz_serial (w_clock w) (case pc_rpz (ap_policy_cache ap) of None \<Rightarrow> [] | Some s \<Rightarrow> s))"
    using reuse_install_live [of w "new_run ?ap1"] run(2) by (simp add: new_run_def)
qed

section \<open>An example\<close>

text \<open>An appliance with an old policy, no sources and no rules, and a world in which every program succeeds.\<close>

definition example_world :: world where
  "example_world = \<lparr>w_lib = plain_lib, w_sha = id, w_digest = (\<lambda>_. ''h''), w_net = (\<lambda>_. OpenError ''offline''),
     w_started = ''t0'', w_installed_at = ''t1'', w_finished = ''t2'', w_stamp = 1, w_clock = 2, w_rollback_clock = 3,
     w_checkzone = (\<lambda>_. True), w_checkconf = (\<lambda>_. True), w_reload = (\<lambda>_. True),
     w_bind_tools = \<lparr>tool_checkzone = (\<lambda>_ _. True), tool_checkconf = (\<lambda>_. True), tool_reconfig = (\<lambda>_. True),
       tool_dig = (\<lambda>_ _ _. (0, []))\<rparr>,
     w_server_ip = ''192.0.2.1'', w_today = 1, w_upstream = (\<lambda>_. Inr ()), w_meminfo = None, w_sanitize = id,
     w_cache_tools = \<lparr>ct_checkconf = (\<lambda>_. Inr []), ct_reconfig = (\<lambda>_. True),
       ct_dig = (\<lambda>_ _. (0, ''status: NOERROR'' @ tab_A))\<rparr>,
     w_layer_tools = \<lparr>lt_check = (\<lambda>_ _. True), lt_restart = (\<lambda>_. True)\<rparr>, w_stage_dir = ''/s'',
     w_dig = (\<lambda>_ _ _ _. (0, ''status: NOERROR'' @ tab_A)), w_delay = (\<lambda>_. 0), w_record_steps = 4,
     w_replication = Inr (), w_invalid_rpz_switch = False, w_postcheck_fail_switch = False\<rparr>"

definition example_appliance :: appliance where
  "example_appliance = \<lparr>
     ap_policy = \<lparr>ps_sources = \<lparr>sources = [], parse_cache = []\<rparr>, ps_rules = \<lparr>filter_rules = [], legacy_rules = None\<rparr>,
       ps_local = \<lparr>dns_settings = [(''internal_domain'', ''home.arpa''), (''default_ttl'', ''60'')], dns_records = [], client_aliases = [], dns_deployments = []\<rparr>,
       ps_cache = \<lparr>cache_settings_table = [(''max_cache_size_mb'', ''64''), (''max_cache_ttl'', ''60''), (''max_ncache_ttl'', ''60''),
          (''recursive_clients'', ''100''), (''max_stale_ttl'', ''60'')], cache_deployments = [], cache_flushes = []\<rparr>,
       ps_upstream = [], ps_files = []\<rparr>,
     ap_compiled = [], ap_deployments = [], ap_rpz = Some ''old'', ap_backups = [],
     ap_bind = \<lparr>fs_zone_dir = None, fs_zones_conf = None, fs_named_local = Some []\<rparr>,
     ap_cache_fs = \<lparr>cf_options = Some [], cf_named_options = Some ''options {'', cf_backups = []\<rparr>,
     ap_dnsdist = \<lparr>dd_conf = None, dd_packaged = Some custom_rules_lua_path, dd_files = [], dd_backups = []\<rparr>,
     ap_policy_cache = \<lparr>pc_rpz = None, pc_manifest = None\<rparr>\<rparr>"

lemma example_deploys: "\<not> isl (snd (deploy example_world False None False example_appliance))"
  by code_simp

lemma example_fails:
  "isl (snd (deploy (example_world\<lparr>w_postcheck_fail_switch := True\<rparr>) False None False example_appliance))"
  by code_simp

definition reuse_appliance :: appliance where
  "reuse_appliance = example_appliance\<lparr>ap_policy_cache := record_reusable_protection_policy (\<lambda>_. ''h'') id 4
     (ap_policy example_appliance) (compile_rpz plain_lib id ''t'' None 1 (ap_policy example_appliance)) 1
     (ap_policy_cache example_appliance)\<rparr>"

lemma example_reuses: "snd (protection_enable_reuse example_world reuse_appliance) = Reused 1"
  by code_simp

lemma reuse_policy_ok: "policy_ok plain_lib id UNIV (ap_policy example_appliance)"
  by (auto simp: policy_ok_def example_appliance_def legacy_done_def cache_sound_def downloads_in_def fresh_store_def
      intro!: reach_fresh)

section \<open>Properties\<close>

text \<open>
  C9: every deployment leaves a finished row: whatever fails, the row of the run has a finishing time and
  one of the statuses deployed, rolled back or rollback failed; it is deployed exactly when the call
  returns its id, and no other row changes.
\<close>

theorem deploy_outcome_recorded:
  "case deploy w download trigger strict ap of (ap', res) \<Rightarrow>
     (\<exists>row. row_by_id dl_id (next_rowid dl_id (ap_deployments ap)) (ap_deployments ap') = Some row \<and>
        dl_finished_at row = Some (w_finished w) \<and> dl_trigger row = trigger \<and>
        (case res of
           Inr i \<Rightarrow> i = next_rowid dl_id (ap_deployments ap) \<and> dl_status row = Deployed
         | Inl _ \<Rightarrow> dl_status row \<in> {RolledBack, RollbackFailed})) \<and>
     (\<forall>i. i = next_rowid dl_id (ap_deployments ap) \<or>
        row_by_id dl_id i (ap_deployments ap') = row_by_id dl_id i (ap_deployments ap))"
proof -
  obtain r res where run: "run_stages (deploy_stages w download strict) (new_run (start_row w trigger [] ap)) = (r, res)"
    by (metis surj_pair)
  have rows: "ap_deployments (run_ap r) = ap_deployments (start_row w trigger [] ap)"
    using run_keeps_rows [of w download strict "start_row w trigger [] ap"] run by simp
  show ?thesis
  proof (cases res)
    case (Inr u)
    then show ?thesis using finished_row [OF rows] run by (fastforce simp: deploy_def Let_def)
  next
    case (Inl e)
    obtain ap2 status msg where rb: "roll_back w r e = (ap2, status, msg)" by (metis prod_cases3)
    have "ap_deployments ap2 = ap_deployments (start_row w trigger [] ap)" using roll_back_parts(4) [OF rb] rows by simp
    from finished_row [OF this] show ?thesis using run Inl rb roll_back_parts(5) [OF rb]
      by (fastforce simp: deploy_def Let_def)
  qed
qed

text \<open>
  C3: a failed deployment takes the policy back.  If a policy was live and no backup carries the time
  stamp of this run, then after an exception in any stage the live zone is the previous one, at most with
  a fresh serial, the files of the dnsdist layer read as before, and so does the cache options file.
\<close>

theorem failed_deploy_restores:
  assumes "deploy w download trigger strict ap = (ap', Inl e)" "ap_rpz ap = Some live"
    and "map_of (ap_backups ap) (backup_name w) = None"
    and "cf_options (ap_cache_fs ap) \<noteq> None \<or>
      map_of (cf_backups (ap_cache_fs ap)) (''cache-options.conf.last-good.'' @ str_nat (w_stamp w)) = None"
  shows "(ap_rpz ap' = Some live \<or> ap_rpz ap' = Some (refresh_rpz_serial (w_rollback_clock w) live)) \<and>
    map_of (dd_files (ap_dnsdist ap')) = map_of (dd_files (ap_dnsdist ap)) \<and>
    cf_options (ap_cache_fs ap') = cf_options (ap_cache_fs ap)"
proof -
  let ?start = "new_run (start_row w trigger [] ap)"
  let ?r = "deploy_run w download strict ?start"
  obtain ap2 status msg where rb: "roll_back w ?r e = (ap2, status, msg)" by (metis prod_cases3)
  have ap': "ap' = finish_row w (next_rowid dl_id (ap_deployments ap)) status msg ?r ap2"
    using assms(1) rb by (auto simp: deploy_def Let_def split: prod.splits sum.splits)
  note undone = roll_back_parts [OF rb]
  have start: "rpz_part ?start = (Some live, ap_backups ap)" "layer_part ?start = (ap_dnsdist ap, None)"
    "cache_part ?start = (ap_cache_fs ap, None, False)"
    using assms(2) by (simp_all add: rpz_part_def layer_part_def cache_part_def new_run_def)
  have "ap_rpz ap2 = Some live \<or> ap_rpz ap2 = Some (refresh_rpz_serial (w_rollback_clock w) live)"
    using run_rpz_part [of ?start w download strict] start(1) assms(3) install_stage_backup [of w] undone(1)
    by (auto simp: rpz_part_def)
  moreover have "map_of (dd_files (ap_dnsdist ap2)) = map_of (dd_files (ap_dnsdist ap))"
    using layer_undone [OF start(2)] undone(2) by simp
  moreover have "cf_options (ap_cache_fs ap2) = cf_options (ap_cache_fs ap)"
    using cache_undone [OF start(3) assms(4)] undone(3) by simp
  ultimately show ?thesis by (simp add: ap')
qed

theorem failed_deploy_restores_witness:
  "let ap' = fst (deploy (example_world\<lparr>w_postcheck_fail_switch := True\<rparr>) False None False example_appliance) in
    (ap_rpz ap' = Some ''old'' \<or> ap_rpz ap' = Some (refresh_rpz_serial 3 ''old'')) \<and>
    map_of (dd_files (ap_dnsdist ap')) = Map.empty \<and> cf_options (ap_cache_fs ap') = Some []"
proof -
  obtain ap' e where "deploy (example_world\<lparr>w_postcheck_fail_switch := True\<rparr>) False None False example_appliance = (ap', Inl e)"
    using example_fails by (cases "deploy (example_world\<lparr>w_postcheck_fail_switch := True\<rparr>) False None False example_appliance")
      (auto simp: isl_def)
  with failed_deploy_restores [OF this, of "''old''"] show ?thesis
    by (simp add: example_appliance_def example_world_def)
qed

text \<open>
  C8: a successful deployment activates the compiled policy: the live zone is what collecting the
  sources, compiling the rules, subtracting the allowed names and rendering give for the state before the
  run (plus the invalid record when the test switch for it is set).
\<close>

theorem successful_deploy_installs:
  assumes "deploy w download trigger strict ap = (ap', Inr i)"
  shows "ap_rpz ap' = Some (compile_rpz (w_lib w) (w_sha w) (w_started w)
    (if download then Some (w_net w) else None) (w_clock w) (ap_policy ap) @
    (if w_invalid_rpz_switch w then invalid_record_text else []))"
  using live_zone_of_deploy [OF assms] .

theorem successful_deploy_installs_witness:
  "ap_rpz (fst (deploy example_world False None False example_appliance)) =
    Some (compile_rpz plain_lib id ''t0'' None 2 (ap_policy example_appliance))"
proof -
  obtain ap' i where "deploy example_world False None False example_appliance = (ap', Inr i)"
    using example_deploys
    by (cases "deploy example_world False None False example_appliance";
        cases "snd (deploy example_world False None False example_appliance)") auto
  with successful_deploy_installs [OF this] show ?thesis by (simp add: example_world_def)
qed

text \<open>
  the first deployment is not taken back.  With no policy live before, a run that fails after the
  zone was moved into place (here: the reload fails) is recorded as rolled back, yet the new zone stays
  the live one.
\<close>

theorem first_failure_stays_live:
  assumes "ap_rpz ap = None" "map_of (ap_backups ap) (backup_name w) = None"
    and "\<forall>content. w_checkzone w content" "\<forall>a. w_checkconf w a" "\<forall>a. \<not> w_reload w a"
  shows "case deploy w download trigger False ap of (ap', res) \<Rightarrow>
    res = Inl ''rndc reload failed'' \<and> ap_rpz ap' \<noteq> None \<and>
    (\<exists>row. row_by_id dl_id (next_rowid dl_id (ap_deployments ap)) (ap_deployments ap') = Some row \<and> dl_status row = RolledBack)"
proof -
  let ?ap = "start_row w trigger [] ap"
  have "run_stages (deploy_stages w download False) (new_run ?ap) =
      (let r = fst (run_stages [collect_stage w download False, compile_stage w, validate_stage w] (new_run ?ap)) in
       (fst (install_stage w r), Inl ''rndc reload failed''))"
    using assms(3-5)
    by (simp add: deploy_stages_def collect_stage_def compile_stage_def validate_stage_def install_stage_def Let_def
        split: prod.splits)
  then obtain r where run: "run_stages (deploy_stages w download False) (new_run ?ap) = (r, Inl ''rndc reload failed'')"
    "r = fst (install_stage w (fst (run_stages [collect_stage w download False, compile_stage w, validate_stage w] (new_run ?ap))))"
    by (simp add: Let_def)
  have "rpz_part (fst (run_stages [collect_stage w download False, compile_stage w, validate_stage w] (new_run ?ap))) =
      (None, ap_backups ap)"
    using run_stages_frame [of "[collect_stage w download False, compile_stage w, validate_stage w]" rpz_part "new_run ?ap"]
      stages_keep_rpz [where w = w and download = download and strict = False] assms(1)
    by (auto simp: rpz_part_def new_run_def)
  then have parts: "ap_rpz (run_ap r) \<noteq> None" "map_of (ap_backups (run_ap r)) (backup_name w) = None"
    using assms(2) install_stage_backup [of w] by (simp_all add: run(2) rpz_part_def install_stage_def mark_compiled_def Let_def)
  obtain ap2 status msg where rb: "roll_back w r ''rndc reload failed'' = (ap2, status, msg)" by (metis prod_cases3)
  then have st: "status = RolledBack" "ap_rpz ap2 \<noteq> None"
    using parts by (auto simp: roll_back_def rollback_rpz_def rollback_layer_def rollback_cache_def Let_def
        split: option.splits if_splits prod.splits)
  have "ap_deployments ap2 = ap_deployments ?ap"
    using roll_back_parts(4) [OF rb] run_keeps_rows [of w download False ?ap] run(1) by simp
  from finished_row [OF this] show ?thesis using run(1) rb st by (fastforce simp: deploy_def Let_def)
qed

theorem first_failure_stays_live_witness:
  "case deploy (example_world\<lparr>w_reload := \<lambda>_. False\<rparr>) False None False (example_appliance\<lparr>ap_rpz := None\<rparr>) of (ap', res) \<Rightarrow>
    res = Inl ''rndc reload failed'' \<and> ap_rpz ap' \<noteq> None \<and>
    (\<exists>row. row_by_id dl_id 1 (ap_deployments ap') = Some row \<and> dl_status row = RolledBack)"
  using first_failure_stays_live [of "example_appliance\<lparr>ap_rpz := None\<rparr>" "example_world\<lparr>w_reload := \<lambda>_. False\<rparr>" False None]
  by (simp add: example_appliance_def example_world_def next_rowid_def)

text \<open>
  C4: enabling protection from the cache activates what a rebuild would, if the cached pair is what recording an earlier
  state gives: zone and manifest both from that state, which had a manifest and at least one name.  If then the command
  reports reuse, hash and digest tell the contents and manifests that occur apart, and both states are well formed, the live
  zone is the zone that compiling the current database and downloads gives at this time.
\<close>

theorem reuse_activates_current_policy:
  assumes "protection_enable_reuse w ap = (ap', Reused i)"
    and "ap_policy_cache ap = record_reusable_protection_policy (w_digest w) (w_sha w) 4 old
      (compile_rpz (w_lib w) (w_sha w) ts_old None clock_old old) n pc" "0 < n"
    and "inj_on (w_sha w) K" "inj_on (w_digest w) M" "policy_ok (w_lib w) (w_sha w) K old"
    and "policy_ok (w_lib w) (w_sha w) K (ap_policy ap)"
    and "set_option (protection_policy_manifest (w_sha w) old) \<union>
      set_option (protection_policy_manifest (w_sha w) (ap_policy ap)) \<subseteq> M"
    and "protection_policy_manifest (w_sha w) old \<noteq> None"
  shows "ap_rpz ap' = Some (compile_rpz (w_lib w) (w_sha w) ts None (w_clock w) (ap_policy ap))"
proof -
  let ?text = "case pc_rpz (ap_policy_cache ap) of None \<Rightarrow> [] | Some s \<Rightarrow> s"
  note avail = reuse_success(1) [OF assms(1)]
  have "ap_rpz ap' = Some (refresh_rpz_serial (w_clock w) ?text)" by (rule reuse_success(2) [OF assms(1)])
  moreover from cached_zone_current [where clock = "w_clock w" and ts = ts, OF assms(4-9,3) avail [unfolded assms(2)], folded assms(2)]
  have "refresh_rpz_serial (w_clock w) ?text = compile_rpz (w_lib w) (w_sha w) ts None (w_clock w) (ap_policy ap)"
    by auto
  ultimately show ?thesis by simp
qed

theorem reuse_activates_current_policy_witness:
  "ap_rpz (fst (protection_enable_reuse example_world reuse_appliance)) =
    Some (compile_rpz plain_lib id ''now'' None 2 (ap_policy example_appliance))"
proof -
  let ?st = "ap_policy example_appliance"
  obtain m where m: "protection_policy_manifest id ?st = Some m"
    by (simp add: example_appliance_def protection_policy_manifest_def)
  obtain ap' where run: "protection_enable_reuse example_world reuse_appliance = (ap', Reused 1)"
    using example_reuses by (cases "protection_enable_reuse example_world reuse_appliance") auto
  have "ap_rpz ap' = Some (compile_rpz (w_lib example_world) (w_sha example_world) ''now'' None (w_clock example_world)
      (ap_policy reuse_appliance))"
    by (rule reuse_activates_current_policy [OF run, where K = UNIV and M = "{m}" and n = 1 and old = ?st])
      (use m reuse_policy_ok in \<open>simp_all add: example_world_def reuse_appliance_def\<close>)
  then show ?thesis unfolding run fst_conv by (simp add: example_world_def reuse_appliance_def)
qed

end
