(* ===== verification/Filter_Schedule.thy ===== *)
theory Filter_Schedule
  imports Domain_Names
begin

text \<open>
  The schedule of automatic blocklist updates (\<^verbatim>\<open>app/filter_schedule.py\<close>): the settings table, the
  fixed list of intervals, the systemd drop-in generated from it and the stored summary of the last
  run.  \<^verbatim>\<open>systemctl\<close> is a parameter (whether each command succeeds).  Shown: only the texts of the
  allowlist ever reach the drop-in file, saved intervals are deployed, and stored messages hold no
  URL and are bounded in length.
\<close>

section \<open>Settings\<close>

type_synonym schedule_settings = "(string \<times> string) list"

definition DISABLED :: string where "DISABLED = ''disabled''"

text \<open>The first label has a long dash in the program; it is written here as a hyphen.\<close>

definition INTERVAL_CHOICES :: "(string \<times> string) list" where
  "INTERVAL_CHOICES =
     [(DISABLED, ''Disabled - No Updates''), (''1'', ''1 Hour''), (''12'', ''12 Hours''), (''24'', ''1 Day''),
      (''72'', ''3 Days''), (''168'', ''1 Week'')]"

definition INTERVAL_VALUES :: "string list" where
  "INTERVAL_VALUES = map fst INTERVAL_CHOICES"

definition INTERVAL_HOURS :: "(string \<times> nat) list" where
  "INTERVAL_HOURS = [(''1'', 1), (''12'', 12), (''24'', 24), (''72'', 72), (''168'', 168)]"

definition DEFAULT_INTERVAL :: string where "DEFAULT_INTERVAL = ''24''"

definition SETTINGS_DEFAULTS :: schedule_settings where
  "SETTINGS_DEFAULTS =
     [(''interval_hours'', DEFAULT_INTERVAL), (''last_attempt'', []), (''last_success'', []), (''last_result'', [])]"

definition schedule_init :: "schedule_settings \<Rightarrow> schedule_settings" where
  "schedule_init db =
     (let db = fold (\<lambda>(k, v) d. dict_setdefault k v d) SETTINGS_DEFAULTS db in
      case map_of db ''interval_hours'' of
        Some v \<Rightarrow> if v \<notin> set INTERVAL_VALUES then AList.update ''interval_hours'' DEFAULT_INTERVAL db else db
      | None \<Rightarrow> db)"

text \<open>Operator input, as the types the validation distinguishes.\<close>

datatype raw_value = RawBool bool | RawInt int | RawStr string | RawOther

definition interval_error :: string where
  "interval_error = ''filter update interval must be one of: '' @ join '', '' (map snd INTERVAL_CHOICES)"

definition validate_interval :: "raw_value \<Rightarrow> string result" where
  "validate_interval raw =
     (case raw of
        RawBool _ \<Rightarrow> Inl interval_error
      | RawInt i \<Rightarrow> if str_int i \<in> set INTERVAL_VALUES then Inr (str_int i) else Inl interval_error
      | RawStr s \<Rightarrow>
          (let candidate = py_lower (py_strip s) in
           if candidate \<in> set INTERVAL_VALUES then Inr candidate else Inl interval_error)
      | RawOther \<Rightarrow> Inl interval_error)"

definition validate_settings :: "(string \<times> raw_value) list \<Rightarrow> schedule_settings result" where
  "validate_settings values =
     (case validate_interval (dict_get values ''interval_hours'' (RawStr DEFAULT_INTERVAL)) of
        Inl e \<Rightarrow> Inl e
      | Inr v \<Rightarrow> Inr [(''interval_hours'', v)])"

definition put_all :: "schedule_settings \<Rightarrow> schedule_settings \<Rightarrow> schedule_settings" where
  "put_all kvs db = fold (\<lambda>(k, v) d. AList.update k v d) kvs db"

definition schedule_update_settings :: "(string \<times> raw_value) list \<Rightarrow> schedule_settings \<Rightarrow> schedule_settings result" where
  "schedule_update_settings values db =
     (case validate_settings values of Inl e \<Rightarrow> Inl e | Inr kvs \<Rightarrow> Inr (put_all kvs (schedule_init db)))"

definition interval_value :: "schedule_settings \<Rightarrow> string" where
  "interval_value cfg =
     (let candidate = dict_get cfg ''interval_hours'' DEFAULT_INTERVAL in
      if candidate \<in> set INTERVAL_VALUES then candidate else DEFAULT_INTERVAL)"

definition is_enabled :: "schedule_settings \<Rightarrow> bool" where
  "is_enabled cfg = (interval_value cfg \<noteq> DISABLED)"

definition interval_label :: "string \<Rightarrow> string" where
  "interval_label v = (case map_of INTERVAL_CHOICES v of Some l \<Rightarrow> l | None \<Rightarrow> dict_get INTERVAL_CHOICES DEFAULT_INTERVAL [])"

text \<open>\<open>None\<close> is the \<^verbatim>\<open>KeyError\<close> of a value without hours.\<close>

definition drop_in_content :: "string \<Rightarrow> string option" where
  "drop_in_content v =
     (case map_of INTERVAL_HOURS v of
        None \<Rightarrow> None
      | Some h \<Rightarrow> Some (''[Timer]'' @ [newline] @ ''OnBootSec='' @ str_nat h @ ''h'' @ [newline] @
                          ''OnUnitActiveSec='' @ str_nat h @ ''h'' @ [newline]))"

section \<open>Deployment of the timer\<close>

record timer_state =
  timer_override :: "string option"
  timer_enabled :: bool

text \<open>Whether each \<^verbatim>\<open>systemctl\<close> command succeeds in a state.\<close>

record systemd =
  sd_daemon_reload :: "timer_state \<Rightarrow> bool"
  sd_enable :: "timer_state \<Rightarrow> bool"
  sd_disable :: "timer_state \<Rightarrow> bool"

record schedule_report =
  rep_state :: string
  rep_interval :: string
  rep_label :: string

definition deploy_filter_schedule ::
  "systemd \<Rightarrow> schedule_settings \<Rightarrow> timer_state \<Rightarrow> schedule_settings \<times> timer_state \<times> schedule_report result" where
  "deploy_filter_schedule sd db0 ts =
     (let db = schedule_init db0; value = interval_value db in
      case (if value = DISABLED then Inr (ts\<lparr>timer_override := None\<rparr>)
            else case drop_in_content value of
                   None \<Rightarrow> Inl (''KeyError: '' @ value)
                 | Some content \<Rightarrow> Inr (ts\<lparr>timer_override := Some content\<rparr>)) of
        Inl e \<Rightarrow> (db, ts, Inl e)
      | Inr ts1 \<Rightarrow>
          if \<not> sd_daemon_reload sd ts1 then (db, ts1, Inl ''systemctl daemon-reload failed'')
          else if value = DISABLED then
            (db, (if sd_disable sd ts1 then ts1\<lparr>timer_enabled := False\<rparr> else ts1),
             Inr \<lparr>rep_state = ''disabled'', rep_interval = value, rep_label = interval_label value\<rparr>)
          else if \<not> sd_enable sd ts1 then (db, ts1, Inl ''systemctl enable failed'')
          else (db, ts1\<lparr>timer_enabled := True\<rparr>,
                Inr \<lparr>rep_state = ''enabled'', rep_interval = value, rep_label = interval_label value\<rparr>))"

section \<open>Summary of the last run\<close>

definition set_value :: "string \<Rightarrow> string \<Rightarrow> schedule_settings \<Rightarrow> schedule_settings" where
  "set_value key value db = AList.update key value (schedule_init db)"

definition record_attempt :: "string \<Rightarrow> schedule_settings \<Rightarrow> schedule_settings" where
  "record_attempt stamp db = set_value ''last_attempt'' stamp db"

definition record_success :: "string \<Rightarrow> schedule_settings \<Rightarrow> schedule_settings" where
  "record_success stamp db = set_value ''last_success'' stamp db"

definition MAX_RESULT_CHARS :: nat where "MAX_RESULT_CHARS = 500"

definition is_alpha :: "char \<Rightarrow> bool" where
  "is_alpha c = (is_ascii_lower c \<or> is_ascii_upper c)"

definition is_word_char :: "char \<Rightarrow> bool" where
  "is_word_char c = (py_isalnum c \<or> c = CHR ''_'')"

definition scheme_char :: "char \<Rightarrow> bool" where
  "scheme_char c = (is_alpha c \<or> is_ascii_digit c \<or> c = CHR ''+'' \<or> c = CHR ''.'' \<or> c = CHR ''-'')"

text \<open>
  A match of \<^verbatim>\<open>[a-zA-Z][a-zA-Z0-9+.-]*://\S*\<close> at the front: the scheme characters exclude the colon, so
  the greedy run is the only one that can be followed by \<^verbatim>\<open>://\<close>; what follows is taken up to the next
  blank.  The scan carries whether the previous character is a word character, for the \<^verbatim>\<open>\b\<close>.
\<close>

definition url_at :: "string \<Rightarrow> bool" where
  "url_at s = (s \<noteq> [] \<and> is_alpha (hd s) \<and> startswith (dropWhile scheme_char s) ''://'')"

fun sub_urls :: "bool \<Rightarrow> string \<Rightarrow> string" where
  "sub_urls prev [] = []"
| "sub_urls prev (c # s) =
     (if \<not> prev \<and> url_at (c # s)
      then ''[url removed]'' @ sub_urls False (dropWhile (\<lambda>x. \<not> py_isspace x) s)
      else c # sub_urls (is_word_char c) s)"

definition sanitize_message :: "string \<Rightarrow> string" where
  "sanitize_message raw =
     (let cleaned = join '' '' (split_ws (sub_urls False (py_strip raw))) in
      if length cleaned > MAX_RESULT_CHARS then take MAX_RESULT_CHARS cleaned @ ''...'' else cleaned)"

text \<open>\<^verbatim>\<open>json.dumps\<close> of a string (ASCII output) and of the summary object.\<close>

definition hex_digit :: "nat \<Rightarrow> char" where
  "hex_digit d = (if d < 10 then char_of (48 + d) else char_of (87 + d))"

definition json_char :: "char \<Rightarrow> string" where
  "json_char c = (let n = (of_char c :: nat) in
     if n = 34 then [CHR 0x5C, CHR 0x22] else if n = 92 then [CHR 0x5C, CHR 0x5C]
     else if n = 10 then [CHR 0x5C, CHR ''n''] else if n = 13 then [CHR 0x5C, CHR ''r'']
     else if n = 9 then [CHR 0x5C, CHR ''t''] else if n = 12 then [CHR 0x5C, CHR ''f'']
     else if n = 8 then [CHR 0x5C, CHR ''b'']
     else if 32 \<le> n \<and> n \<le> 126 then [c]
     else [CHR 0x5C, CHR ''u'', CHR ''0'', CHR ''0'', hex_digit (n div 16), hex_digit (n mod 16)])"

definition json_string :: "string \<Rightarrow> string" where
  "json_string s = [CHR 0x22] @ concat (map json_char s) @ [CHR 0x22]"

definition json_object :: "(string \<times> string) list \<Rightarrow> string" where
  "json_object kvs = ''{'' @ join '', '' (map (\<lambda>(k, v). json_string k @ '': '' @ v) kvs) @ ''}''"

definition record_result :: "string \<Rightarrow> string \<Rightarrow> int \<Rightarrow> string \<Rightarrow> int option \<Rightarrow> schedule_settings \<Rightarrow> schedule_settings" where
  "record_result stamp status active_domains err deployment_id db =
     set_value ''last_result''
       (json_object ([(''finished_at'', json_string stamp), (''status'', json_string status),
                      (''active_domains'', str_int active_domains), (''error'', json_string (sanitize_message err))] @
                     (case deployment_id of None \<Rightarrow> [] | Some i \<Rightarrow> [(''deployment_id'', str_int i)]))) db"

text \<open>The next run, from the output of \<^verbatim>\<open>systemctl show\<close>.\<close>

fun next_elapse_lines :: "string list \<Rightarrow> string option" where
  "next_elapse_lines [] = None"
| "next_elapse_lines (l # ls) =
     (case partition_char CHR ''='' l of (key, sep, v) \<Rightarrow>
        if \<not> sep \<or> py_strip key \<noteq> ''NextElapseUSecRealtime'' then next_elapse_lines ls
        else let value = py_strip v in
             if value = [] \<or> value = ''n/a'' \<or> value = ''0'' then None else Some value)"

definition parse_next_elapse :: "string \<Rightarrow> string option" where
  "parse_next_elapse output = next_elapse_lines (splitlines output)"

section \<open>The allowlist\<close>

lemmas interval_defs = INTERVAL_VALUES_def INTERVAL_CHOICES_def INTERVAL_HOURS_def DISABLED_def DEFAULT_INTERVAL_def

lemma interval_value_listed: "interval_value cfg \<in> set INTERVAL_VALUES"
proof -
  have "DEFAULT_INTERVAL \<in> set INTERVAL_VALUES" by code_simp
  then show ?thesis by (auto simp: interval_value_def Let_def)
qed

lemma listed_hours:
  assumes "v \<in> set INTERVAL_VALUES" "v \<noteq> DISABLED"
  shows "\<exists>h. h \<in> {1, 12, 24, 72, 168} \<and> v = str_nat h \<and> map_of INTERVAL_HOURS v = Some h"
proof -
  have "str_nat 1 = ''1''" "str_nat 12 = ''12''" "str_nat 24 = ''24''" "str_nat 72 = ''72''" "str_nat 168 = ''168''"
    by code_simp+
  then show ?thesis using assms by (auto simp: interval_defs)
qed

text \<open>The five texts a drop-in can have.\<close>

definition drop_in_text :: "nat \<Rightarrow> string" where
  "drop_in_text h = ''[Timer]'' @ [newline] @ ''OnBootSec='' @ str_nat h @ ''h'' @ [newline] @
                    ''OnUnitActiveSec='' @ str_nat h @ ''h'' @ [newline]"

lemma deploy_override:
  "timer_override (fst (snd (deploy_filter_schedule sd db ts))) =
     (let v = interval_value (schedule_init db) in if v = DISABLED then None else drop_in_content v)"
proof -
  have h: "drop_in_content (interval_value (schedule_init db)) \<noteq> None"
    if "interval_value (schedule_init db) \<noteq> DISABLED"
    using listed_hours [OF interval_value_listed that] by (auto simp: drop_in_content_def)
  then show ?thesis by (auto simp: deploy_filter_schedule_def Let_def split: option.splits)
qed

lemma validate_interval_listed: "validate_interval raw = Inr v \<Longrightarrow> v \<in> set INTERVAL_VALUES"
  by (auto simp: validate_interval_def Let_def split: raw_value.splits if_splits)

lemma interval_value_update: "v \<in> set INTERVAL_VALUES \<Longrightarrow> interval_value (AList.update ''interval_hours'' v db) = v"
  by (simp add: interval_value_def dict_get_def update_conv')

lemma init_keeps_listed:
  assumes "map_of db ''interval_hours'' = Some v" "v \<in> set INTERVAL_VALUES"
  shows "map_of (schedule_init db) ''interval_hours'' = Some v"
proof -
  have step: "map_of (dict_setdefault k w d) ''interval_hours'' = Some v" if "map_of d ''interval_hours'' = Some v" for k w d
    using that by (auto simp: dict_setdefault_def map_add_def split: option.splits)
  then have "map_of (fold (\<lambda>(k, v) d. dict_setdefault k v d) kvs db) ''interval_hours'' = Some v" for kvs
    using assms(1) by (induction kvs arbitrary: db) auto
  then show ?thesis using assms(2) by (simp add: schedule_init_def Let_def)
qed

section \<open>No URL in a stored message\<close>

text \<open>Whether the pattern matches anywhere, \<open>prev\<close> as in the scan.\<close>

fun has_url :: "bool \<Rightarrow> string \<Rightarrow> bool" where
  "has_url prev [] = False"
| "has_url prev (c # s) = (\<not> prev \<and> url_at (c # s) \<or> has_url (is_word_char c) s)"

lemma dropWhile_run: "\<forall>x\<in>set r. p x \<Longrightarrow> dropWhile p (r @ s) = dropWhile p s"
  by (induction r) auto

lemma url_atI:
  assumes "r \<noteq> []" "is_alpha (hd r)" "list_all scheme_char r"
  shows "url_at (r @ ''://'' @ u)"
proof -
  have colon: "\<not> scheme_char CHR '':''" by code_simp
  have "dropWhile scheme_char (r @ ''://'' @ u) = dropWhile scheme_char (''://'' @ u)"
    using assms(3) by (intro dropWhile_run) (simp add: list_all_iff)
  also have "\<dots> = ''://'' @ u" using colon by simp
  finally show ?thesis using assms(1,2) by (simp add: url_at_def)
qed

lemma url_atE:
  assumes "url_at s"
  obtains r u where "r \<noteq> []" "is_alpha (hd r)" "list_all scheme_char r" "s = r @ ''://'' @ u"
proof -
  let ?r = "takeWhile scheme_char s"
  from assms obtain c t where c: "s = c # t" "is_alpha c" by (cases s) (auto simp: url_at_def)
  from assms obtain u where u: "dropWhile scheme_char s = ''://'' @ u" by (auto simp: url_at_def prefix_def)
  show ?thesis
  proof (rule that)
    show "?r \<noteq> []" "is_alpha (hd ?r)" using c by (simp_all add: scheme_char_def)
    show "list_all scheme_char ?r" by (auto simp: list_all_iff dest: set_takeWhileD)
    show "s = ?r @ ''://'' @ u" by (metis u takeWhile_dropWhile_id)
  qed
qed

text \<open>A match stays within one word: the text after a blank, or after a character that is neither a
  scheme character nor in \<^verbatim>\<open>://\<close>, does not matter.\<close>

definition url_stop :: "char \<Rightarrow> bool" where
  "url_stop c = (\<not> scheme_char c \<and> c \<noteq> CHR '':'' \<and> c \<noteq> CHR ''/'')"

lemma prefix_before: "prefix p (a @ c # b) \<Longrightarrow> c \<notin> set p \<Longrightarrow> prefix p a"
  by (induction a arbitrary: p) (auto simp: prefix_Cons)

lemma url_at_append: "url_at a \<Longrightarrow> url_at (a @ b)"
  by (erule url_atE) (simp add: url_atI [simplified])

lemma url_at_prefix:
  assumes "url_at (a @ c # b)" "url_stop c"
  shows "url_at a"
proof -
  from assms(1) obtain r u where r: "r \<noteq> []" "is_alpha (hd r)" "list_all scheme_char r"
    and eq: "a @ c # b = r @ ''://'' @ u" by (rule url_atE)
  have "prefix (r @ ''://'') (a @ c # b)" unfolding eq by simp
  moreover have "c \<notin> set (r @ ''://'')" using assms(2) r(3) by (auto simp: url_stop_def list_all_iff)
  ultimately obtain v where "a = (r @ ''://'') @ v" using prefix_before by (metis prefixE)
  then show ?thesis using url_atI [OF r] by simp
qed

lemma url_at_stop: "url_stop c \<Longrightarrow> url_at (a @ c # b) \<longleftrightarrow> url_at a"
  by (blast intro: url_at_append url_at_prefix)

lemma has_url_stop:
  assumes "url_stop c"
  shows "has_url prev (a @ c # b) \<longleftrightarrow> has_url prev a \<or> has_url (is_word_char c) b"
proof (induction a arbitrary: prev)
  case Nil
  have "\<not> url_at (c # b)" using assms by (simp add: url_at_def url_stop_def scheme_char_def)
  then show ?case by simp
next
  case (Cons x a)
  then show ?case using url_at_stop [OF assms, of "x # a" b] by simp
qed

lemma space_url_stop: "py_isspace c \<Longrightarrow> url_stop c \<and> \<not> is_word_char c"
  by (auto simp: url_stop_def scheme_char_def is_alpha_def is_ascii_lower_def is_ascii_upper_def
      is_ascii_digit_def is_word_char_def py_isalnum_def py_isspace_def Let_def)

text \<open>The scan copies a prefix of its input up to the first replacement, which starts with a bracket.\<close>

lemma sub_urls_prefix:
  "prefix p (sub_urls w s) \<Longrightarrow> CHR ''['' \<notin> set p \<Longrightarrow> prefix p s"
proof (induction w s arbitrary: p rule: sub_urls.induct)
  case (2 w c s)
  then show ?case by (cases p) (auto split: if_splits)
qed simp

lemma url_at_sub_urls: "url_at (c # sub_urls w s) \<Longrightarrow> url_at (c # s)"
proof (erule url_atE)
  fix r u
  assume r: "r \<noteq> []" "is_alpha (hd r)" "list_all scheme_char r" and eq: "c # sub_urls w s = r @ ''://'' @ u"
  obtain r' where r': "r = c # r'" using r(1) eq by (cases r) auto
  have b: "\<not> scheme_char CHR ''[''" by code_simp
  have "prefix (r' @ ''://'') (sub_urls w s)" using eq r' by simp
  moreover have "CHR ''['' \<notin> set (r' @ ''://'')" using r(3) b by (auto simp: r' list_all_iff)
  ultimately have "prefix (r' @ ''://'') s" by (rule sub_urls_prefix)
  then obtain v where "s = (r' @ ''://'') @ v" by (rule prefixE)
  then show "url_at (c # s)" using url_atI [OF r, of v] by (simp add: r')
qed

lemma has_url_removed:
  assumes "t = [] \<or> py_isspace (hd t)" "\<not> has_url False t"
  shows "\<not> has_url w (''[url removed]'' @ t)"
proof -
  have "\<not> has_url True ''[url removed''" "\<not> has_url False ''[url removed''" by code_simp+
  then have "\<not> has_url w ''[url removed''" by (cases w) auto
  moreover have "url_stop CHR '']''" "\<not> is_word_char CHR '']''" by code_simp+
  ultimately show ?thesis using assms(2) has_url_stop [of "CHR '']''" w "''[url removed''" t] by simp
qed

lemma sub_urls_no_url: "\<not> has_url w (sub_urls w s)"
proof (induction w s rule: sub_urls.induct)
  case (2 w c s)
  show ?case
  proof (cases "\<not> w \<and> url_at (c # s)")
    case True
    let ?d = "dropWhile (\<lambda>x. \<not> py_isspace x) s"
    have "sub_urls False ?d = [] \<or> py_isspace (hd (sub_urls False ?d))"
    proof (cases ?d)
      case Nil
      then show ?thesis by (simp only: Nil sub_urls.simps simp_thms)
    next
      case (Cons x y)
      then have sp: "py_isspace x" by (metis dropWhile_eq_Cons_conv)
      then have "\<not> url_at (x # y)" using space_url_stop [OF sp] by (auto simp: url_at_def url_stop_def scheme_char_def)
      then show ?thesis using Cons sp by simp
    qed
    then have "\<not> has_url w (''[url removed]'' @ sub_urls False ?d)" using 2(1) [OF True] by (rule has_url_removed)
    moreover have "sub_urls w (c # s) = ''[url removed]'' @ sub_urls False ?d" using True by simp
    ultimately show ?thesis by metis
  next
    case False
    then have eq: "sub_urls w (c # s) = c # sub_urls (is_word_char c) s" by auto
    show ?thesis unfolding eq has_url.simps
      using 2(2) [OF False] False url_at_sub_urls [of c "is_word_char c" s] by blast
  qed
qed simp

lemma has_url_words: "has_url False s \<longleftrightarrow> (\<exists>w\<in>set (split_ws s). has_url False w)"
proof -
  have "has_url False (rev a @ s) \<longleftrightarrow> (\<exists>w\<in>set (split_ws_aux a s). has_url False w)"
    if "\<forall>c\<in>set a. \<not> py_isspace c" for a
    using that
  proof (induction a s rule: split_ws_aux.induct)
    case (2 a c s)
    then show ?case
    proof (cases "py_isspace c")
      case True
      then show ?thesis using 2(1) [OF True] 2(2) [OF True] space_url_stop [OF True] has_url_stop [of c False "rev a" s] 2(4)
        by (cases "a = []") auto
    qed (use 2 in auto)
  qed auto
  from this [of "[]"] show ?thesis by (simp add: split_ws_def)
qed

lemma has_url_join: "has_url False (join '' '' ws) \<longleftrightarrow> (\<exists>w\<in>set ws. has_url False w)"
proof (induction "'' ''" ws rule: join.induct)
  case (3 x y xs)
  have "url_stop CHR '' ''" "\<not> is_word_char CHR '' ''" by code_simp+
  then show ?case using 3 has_url_stop [of "CHR '' ''" False x "join '' '' (y # xs)"] by simp
qed auto

text \<open>Cutting a text and appending an ellipsis makes no new match.\<close>

lemma url_at_ellipsis: "url_at (a @ ''...'') \<Longrightarrow> url_at a"
proof (erule url_atE)
  fix r u
  assume r: "r \<noteq> []" "is_alpha (hd r)" "list_all scheme_char r" and eq: "a @ ''...'' = r @ ''://'' @ u"
  have "length (r @ ''://'') \<le> length a"
  proof (rule ccontr)
    assume "\<not> ?thesis"
    then have lt: "length a < length r + 3" by simp
    have sl: "(r @ ''://'' @ u) ! (length r + 2) = CHR ''/''" by (simp add: nth_append)
    have len: "length r + 2 < length (a @ ''...'')" by (simp add: eq)
    have "(a @ ''...'') ! (length r + 2) = ''...'' ! (length r + 2 - length a)"
      using lt by (simp add: nth_append)
    moreover have "length r + 2 - length a < 3" using len lt by simp
    ultimately have "(a @ ''...'') ! (length r + 2) = CHR ''.''"
      by (auto simp: less_Suc_eq numeral_eq_Suc)
    then show False using sl by (simp add: eq)
  qed
  then have "prefix (r @ ''://'') a"
    using eq by (metis append.assoc prefix_def prefix_length_prefix)
  then obtain v where "a = (r @ ''://'') @ v" by (rule prefixE)
  then show "url_at a" using url_atI [OF r, of v] by simp
qed

lemma has_url_ellipsis: "has_url w (a @ ''...'') \<Longrightarrow> has_url w a"
proof (induction a arbitrary: w)
  case Nil
  have "\<not> has_url True ''...''" "\<not> has_url False ''...''" by code_simp+
  then have "\<not> has_url w ''...''" by (cases w) auto
  then show ?case using Nil by (simp only: append_Nil)
next
  case (Cons x a)
  then show ?case using url_at_ellipsis [of "x # a"] by auto
qed

lemma has_url_take: "has_url w (take n s) \<Longrightarrow> has_url w s"
proof (induction s arbitrary: w n)
  case (Cons x s)
  then obtain m where n: "n = Suc m" by (cases n) auto
  have "url_at (x # take m s) \<Longrightarrow> url_at (x # s)"
    using url_at_append [of "x # take m s" "drop m s"] by simp
  then show ?case using Cons by (auto simp: n)
qed simp

lemma sanitized_no_url: "\<not> has_url False (sanitize_message raw)"
proof -
  let ?c = "join '' '' (split_ws (sub_urls False (py_strip raw)))"
  have c: "\<not> has_url False ?c" using sub_urls_no_url has_url_words has_url_join by metis
  then have "\<not> has_url False (take MAX_RESULT_CHARS ?c @ ''...'')"
    using has_url_ellipsis has_url_take by blast
  with c show ?thesis by (simp add: sanitize_message_def Let_def)
qed

lemma sanitized_length: "length (sanitize_message raw) \<le> MAX_RESULT_CHARS + 3"
  by (simp add: sanitize_message_def Let_def)

lemma schedule_init_other:
  "k \<noteq> ''interval_hours'' \<Longrightarrow> map_of db k = Some v \<Longrightarrow> map_of (schedule_init db) k = Some v"
proof -
  assume k: "k \<noteq> ''interval_hours''" and v: "map_of db k = Some v"
  have step: "map_of (dict_setdefault k' w d) k = Some v" if "map_of d k = Some v" for k' w d
    using that by (auto simp: dict_setdefault_def map_add_def split: option.splits)
  then have "map_of (fold (\<lambda>(k, v) d. dict_setdefault k v d) kvs db) k = Some v" for kvs
    using v by (induction kvs arbitrary: db) auto
  then show ?thesis using k by (auto simp: schedule_init_def Let_def update_conv' split: option.splits)
qed

section \<open>Properties\<close>

text \<open>
  whatever the settings table holds and whichever \<^verbatim>\<open>systemctl\<close> command fails, the drop-in file
  after a deployment of the schedule is absent or one of the five fixed texts: no operator text
  reaches a unit file.
\<close>

theorem drop_in_from_allowlist:
  "timer_override (fst (snd (deploy_filter_schedule sd db ts))) \<in>
     insert None (Some ` drop_in_text ` {1, 12, 24, 72, 168})"
proof -
  define v where "v = interval_value (schedule_init db)"
  show ?thesis
  proof (cases "v = DISABLED")
    case True
    then show ?thesis by (simp add: deploy_override v_def)
  next
    case False
    moreover from this obtain h where "h \<in> {1, 12, 24, 72, 168}" "map_of INTERVAL_HOURS v = Some h"
      using listed_hours [OF interval_value_listed [of "schedule_init db"]] by (auto simp: v_def)
    ultimately show ?thesis
      by (auto simp: deploy_override v_def [symmetric] drop_in_content_def drop_in_text_def)
  qed
qed

text \<open>
  an accepted interval is what the next deployment uses: after saving it, the drop-in has its
  hours, or is removed when the schedule was disabled.
\<close>

theorem saved_interval_deployed:
  assumes "schedule_update_settings [(''interval_hours'', raw)] db = Inr db'"
  shows "\<exists>v. validate_interval raw = Inr v \<and> v \<in> set INTERVAL_VALUES \<and>
     timer_override (fst (snd (deploy_filter_schedule sd db' ts))) = (if v = DISABLED then None else drop_in_content v)"
proof -
  from assms obtain v where v: "validate_interval raw = Inr v"
    and db': "db' = AList.update ''interval_hours'' v (schedule_init db)"
    by (auto simp: schedule_update_settings_def validate_settings_def dict_get_def put_all_def split: sum.splits)
  have listed: "v \<in> set INTERVAL_VALUES" by (rule validate_interval_listed [OF v])
  have "map_of db' ''interval_hours'' = Some v" by (simp add: db' update_conv')
  then have "interval_value (schedule_init db') = v"
    using init_keeps_listed [OF _ listed] listed by (simp add: interval_value_def dict_get_def)
  then show ?thesis using v listed by (simp add: deploy_override)
qed

theorem saved_interval_deployed_witness:
  "\<exists>v. validate_interval (RawStr '' 72 '') = Inr v \<and> v \<in> set INTERVAL_VALUES \<and>
     timer_override (fst (snd (deploy_filter_schedule
       \<lparr>sd_daemon_reload = (\<lambda>_. True), sd_enable = (\<lambda>_. True), sd_disable = (\<lambda>_. True)\<rparr>
       (put_all [(''interval_hours'', ''72'')] (schedule_init []))
       \<lparr>timer_override = None, timer_enabled = False\<rparr>))) = (if v = DISABLED then None else drop_in_content v)"
  by (rule saved_interval_deployed [of "RawStr '' 72 ''" "[]"]) code_simp

text \<open>
  a message stored with the result of an automatic run holds no match of the URL pattern and at
  most 503 characters, whatever the error text was.
\<close>

theorem stored_message_clean:
  "\<not> has_url False (sanitize_message raw) \<and> length (sanitize_message raw) \<le> 503"
  using sanitized_no_url sanitized_length [of raw] by (simp add: MAX_RESULT_CHARS_def)

end
