(* ===== verification/Compiler_Commands.thy ===== *)
theory Compiler_Commands
  imports Deploy Filter_Schedule
begin

text \<open>
  The commands around the deployment (\<^verbatim>\<open>app/alderpointdns_compiler.py\<close>): schema initialisation with its
  version gate and seeds, the editing and updating of sources, the fresh-install bootstrap with its bounded
  retries, and the timer entry point.  Of the schema, the tables with seeded rows and the tables of the
  modelled components are kept.  Shown: the defaults are seeded once, on a genuinely fresh database only;
  the bootstrap makes at most three deployments; the timer records a success only when one happened; and
  adding a source touches that source alone.
\<close>

section \<open>Schema\<close>

record system =
  sy_ap :: appliance
  sy_version :: nat
  sy_has_tables :: bool
  sy_schedule :: schedule_settings
  sy_categories :: "(string \<times> string \<times> string) list"
  sy_profiles :: "(string \<times> string \<times> string) list"
  sy_profile_categories :: "(string \<times> string) list"

definition SCHEMA_VERSION :: nat where "SCHEMA_VERSION = 3"

definition HAGEZI_MULTI_NORMAL_URL :: string where
  "HAGEZI_MULTI_NORMAL_URL = ''https://cdn.jsdelivr.net/gh/hagezi/dns-blocklists@latest/adblock/multi.txt''"

text \<open>Name, address and category of each source.\<close>

definition DEFAULT_FRESH_INSTALL_SOURCES :: "(string \<times> string \<times> string) list" where
  "DEFAULT_FRESH_INSTALL_SOURCES =
     [(''AdGuard DNS filter'', ''https://adguardteam.github.io/AdGuardSDNSFilter/Filters/filter.txt'', ''ads_trackers''),
      (''StevenBlack Unified Hosts'', ''https://raw.githubusercontent.com/StevenBlack/hosts/master/hosts'', ''ads_trackers''),
      (''HaGeZi Multi Normal'', HAGEZI_MULTI_NORMAL_URL, ''ads_trackers'')]"

definition PUBLIC_SOURCES :: "(string \<times> string \<times> string) list" where
  "PUBLIC_SOURCES =
     [(''AdGuard DNS filter'', ''https://adguardteam.github.io/HostlistsRegistry/assets/filter_1.txt'', ''ads_trackers''),
      (''OISD Blocklist Big'', ''https://adguardteam.github.io/HostlistsRegistry/assets/filter_27.txt'', ''ads_trackers''),
      (''1Hosts Lite'', ''https://adguardteam.github.io/HostlistsRegistry/assets/filter_24.txt'', ''ads_trackers''),
      (''StevenBlack Unified Hosts'', ''https://raw.githubusercontent.com/StevenBlack/hosts/master/hosts'', ''ads_trackers''),
      (''HaGeZi Multi Normal'', HAGEZI_MULTI_NORMAL_URL, ''ads_trackers''),
      (''HaGeZi Multi Pro'', ''https://raw.githubusercontent.com/hagezi/dns-blocklists/main/adblock/pro.txt'', ''ads_trackers''),
      (''Peter Lowe Blocklist'', ''https://adguardteam.github.io/HostlistsRegistry/assets/filter_3.txt'', ''ads_trackers''),
      (''Dan Pollock Hosts'', ''https://adguardteam.github.io/HostlistsRegistry/assets/filter_4.txt'', ''ads_trackers''),
      (''AWAvenue Ads Rule'', ''https://raw.githubusercontent.com/TG-Twilight/AWAvenue-Ads-Rule/main/AWAvenue-Ads-Rule.txt'', ''ads_trackers''),
      (''AdGuard Popup Hosts'', ''https://adguardteam.github.io/HostlistsRegistry/assets/filter_59.txt'', ''ads_trackers''),
      (''OISD Blocklist Small'', ''https://adguardteam.github.io/HostlistsRegistry/assets/filter_5.txt'', ''ads_trackers''),
      (''ShadowWhisperer Tracking'', ''https://raw.githubusercontent.com/ShadowWhisperer/BlockLists/master/Lists/Tracking'', ''ads_trackers''),
      (''URLHaus Malicious URL Blocklist'', ''https://adguardteam.github.io/HostlistsRegistry/assets/filter_11.txt'', ''malware''),
      (''Dandelion Sprout Anti-Malware'', ''https://adguardteam.github.io/HostlistsRegistry/assets/filter_12.txt'', ''malware''),
      (''Phishing Army'', ''https://adguardteam.github.io/HostlistsRegistry/assets/filter_18.txt'', ''malware''),
      (''Stalkerware Indicators'', ''https://raw.githubusercontent.com/AssoEchap/stalkerware-indicators/master/generated/hosts'', ''malware''),
      (''ShadowWhisperer Malware'', ''https://raw.githubusercontent.com/ShadowWhisperer/BlockLists/master/Lists/Malware'', ''malware''),
      (''HaGeZi Threat Intelligence Feeds'', ''https://raw.githubusercontent.com/hagezi/dns-blocklists/main/adblock/tif.txt'', ''malware''),
      (''uBlock Badware Risks'', ''https://raw.githubusercontent.com/uBlockOrigin/uAssets/master/filters/badware.txt'', ''malware'')]"

definition default_categories :: "(string \<times> string \<times> string) list" where
  "default_categories =
     [(''malware'', ''Malware'', ''Malware, phishing, scam, and threat-intelligence lists''),
      (''ads_trackers'', ''Ads and trackers'', ''Advertising, affiliate, analytics, and tracking lists''),
      (''adult_content'', ''Adult content'', ''Adult and explicit-content filtering lists''),
      (''iot_telemetry'', ''IoT telemetry'', ''Device telemetry and vendor tracking lists''),
      (''safesearch'', ''SafeSearch'', ''Search and video safety-enforcement policy''),
      (''custom'', ''Custom categories'', ''Operator-defined categories and local rules'')]"

definition default_profiles :: "(string \<times> string \<times> string) list" where
  "default_profiles =
     [(''trusted'', ''Trusted'', ''Minimal policy for trusted administrator devices''),
      (''standard'', ''Standard'', ''Default balanced malware, ads, and tracker protection''),
      (''iot'', ''IoT'', ''Stricter telemetry-aware policy for appliance networks''),
      (''restricted'', ''Restricted'', ''Most restrictive built-in profile for sensitive networks'')]"

definition profile_defaults :: "(string \<times> string list) list" where
  "profile_defaults =
     [(''trusted'', [''malware'']), (''standard'', [''malware'', ''ads_trackers'']),
      (''iot'', [''malware'', ''ads_trackers'', ''iot_telemetry'']),
      (''restricted'', [''malware'', ''ads_trackers'', ''adult_content'', ''iot_telemetry'', ''safesearch''])]"

text \<open>\<^verbatim>\<open>INSERT OR IGNORE\<close> into a table with the given unique key.\<close>

definition insert_ignore :: "('r \<Rightarrow> 'k) \<Rightarrow> 'r \<Rightarrow> 'r list \<Rightarrow> 'r list" where
  "insert_ignore key row t = (if key row \<in> key ` set t then t else t @ [row])"

definition new_source :: "string \<Rightarrow> string \<Rightarrow> bool \<Rightarrow> string \<Rightarrow> source_row" where
  "new_source name url en category =
     \<lparr>src_id = 0, src_name = name, src_url = url, src_enabled = en, src_category = category, last_attempt = None,
      last_success = None, last_error = None, http_status = None, downloaded_bytes = 0, using_cached_copy = False,
      src_stats = ParseStats, last_warning = [], final_active_domains = 0\<rparr>"

definition insert_source :: "source_row \<Rightarrow> source_row list \<Rightarrow> source_row list" where
  "insert_source s t = insert_row src_id (\<lambda>i r. r\<lparr>src_id := i\<rparr>) s t"

definition seed_source :: "string \<times> string \<times> string \<Rightarrow> source_row list \<Rightarrow> source_row list" where
  "seed_source item t =
     (case item of (name, url, category) \<Rightarrow>
        if name \<in> src_name ` set t then t else insert_source (new_source name url True category) t)"

definition map_sources :: "(source_row list \<Rightarrow> source_row list) \<Rightarrow> system \<Rightarrow> system" where
  "map_sources f s =
     (let ap = sy_ap s; p = ap_policy ap; q = ps_sources p in
      s\<lparr>sy_ap := ap\<lparr>ap_policy := p\<lparr>ps_sources := q\<lparr>sources := f (sources q)\<rparr>\<rparr>\<rparr>\<rparr>)"

definition seed_fresh_install_defaults :: "system \<Rightarrow> system" where
  "seed_fresh_install_defaults s = map_sources (fold seed_source DEFAULT_FRESH_INSTALL_SOURCES) s"

definition apply_schema :: "string \<Rightarrow> string \<Rightarrow> bool \<Rightarrow> system \<Rightarrow> system" where
  "apply_schema sip ts seed_defaults s =
     (let s = s\<lparr>sy_has_tables := True,
            sy_categories := fold (insert_ignore fst) default_categories (sy_categories s),
            sy_profiles := fold (insert_ignore fst) default_profiles (sy_profiles s),
            sy_profile_categories := fold (insert_ignore id)
              (concat (map (\<lambda>(profile, cs). map (Pair profile) cs) profile_defaults)) (sy_profile_categories s)\<rparr>;
          s = (if seed_defaults then seed_fresh_install_defaults s else s);
          ap = sy_ap s; p = ap_policy ap
      in s\<lparr>sy_ap := ap\<lparr>ap_policy := p\<lparr>ps_local := local_init_db sip (ps_local p), ps_rules := init_db ts (ps_rules p)\<rparr>\<rparr>,
           sy_schedule := schedule_init (sy_schedule s)\<rparr>)"

definition compiler_init_db :: "string \<Rightarrow> string \<Rightarrow> bool \<Rightarrow> system \<Rightarrow> system \<times> bool" where
  "compiler_init_db sip ts seed_defaults s =
     (if SCHEMA_VERSION \<le> sy_version s then (s, False)
      else
        let genuinely_fresh = (seed_defaults \<and> sy_version s = 0 \<and> \<not> sy_has_tables s);
            s = apply_schema sip ts genuinely_fresh s
        in (s\<lparr>sy_version := SCHEMA_VERSION\<rparr>, if seed_defaults then genuinely_fresh else True))"

section \<open>Sources\<close>

text \<open>\<^verbatim>\<open>INSERT ... ON CONFLICT(name) DO UPDATE\<close>.\<close>

definition upsert_source :: "string \<Rightarrow> string \<Rightarrow> bool \<Rightarrow> string \<Rightarrow> source_row list \<Rightarrow> source_row list" where
  "upsert_source name url en category t =
     (if name \<in> src_name ` set t
      then update_where (\<lambda>s. src_name s = name) (\<lambda>s. s\<lparr>src_url := url, src_enabled := en, src_category := category\<rparr>) t
      else insert_source (new_source name url en category) t)"

definition add_source :: "string \<Rightarrow> string \<Rightarrow> string \<Rightarrow> string \<Rightarrow> bool \<Rightarrow> string \<Rightarrow> system \<Rightarrow> system" where
  "add_source sip ts name url en category s =
     map_sources (upsert_source name url en category) (fst (compiler_init_db sip ts False s))"

definition seed_lab :: "string \<Rightarrow> string \<Rightarrow> system \<Rightarrow> system" where
  "seed_lab sip ts s =
     map_sources (seed_source (''AdGuard DNS filter'',
       ''https://adguardteam.github.io/HostlistsRegistry/assets/filter_1.txt'', ''ads_trackers''))
       (fst (compiler_init_db sip ts False s))"

definition seed_public :: "string \<Rightarrow> string \<Rightarrow> bool \<Rightarrow> system \<Rightarrow> system" where
  "seed_public sip ts en s =
     map_sources (fold (\<lambda>(name, url, category). upsert_source name url en category) PUBLIC_SOURCES)
       (fst (compiler_init_db sip ts False s))"

definition add_custom :: "stdlib \<Rightarrow> string \<Rightarrow> string \<Rightarrow> string \<Rightarrow> bool \<Rightarrow> string \<Rightarrow> system \<Rightarrow> system \<times> insert_result list result" where
  "add_custom lib sip ts raw allow cm s =
     (let s = fst (compiler_init_db sip ts False s) in
      case normalize_domain lib raw of
        None \<Rightarrow> (s, Inl (''invalid domain: '' @ raw))
      | Some d \<Rightarrow>
          let ap = sy_ap s; p = ap_policy ap in
          case add_rule lib ts ((if allow then ''@@||'' else ''||'') @ d @ ''^'') ''manual'' cm True None True (ps_rules p) of
            (rules, results) \<Rightarrow> (s\<lparr>sy_ap := ap\<lparr>ap_policy := p\<lparr>ps_rules := rules\<rparr>\<rparr>\<rparr>, Inr results))"

text \<open>One source is downloaded; then all statistics are recomputed from the copies on disk.\<close>

definition update_one_source :: "stdlib \<Rightarrow> (string \<Rightarrow> string) \<Rightarrow> string \<Rightarrow> (nat \<Rightarrow> fetch) \<Rightarrow> source_row \<Rightarrow> policy_state \<Rightarrow>
    policy_state \<times> source_result \<times> parse_stats" where
  "update_one_source lib sha ts net s p =
     (case download_source sha s (net (src_id s)) (ps_files p) of
        (result, files) \<Rightarrow>
          let using_cached = (\<not> sr_success result \<and>
                (case sr_path result of None \<Rightarrow> False | Some path \<Rightarrow> map_of files path \<noteq> None));
              q = ps_sources p;
              q = q\<lparr>sources := record_download_result ts result using_cached (sources q)\<rparr>;
              c = collect_rules lib sha ts None q files;
              stats = (case List.find (\<lambda>e. src_id (fst e) = src_id s) (co_entries c) of
                         None \<Rightarrow> ParseStats | Some e \<Rightarrow> stats_of e)
          in (p\<lparr>ps_sources := co_db c, ps_files := co_files c\<rparr>, result, stats))"

definition update_source :: "stdlib \<Rightarrow> (string \<Rightarrow> string) \<Rightarrow> string \<Rightarrow> string \<Rightarrow> (nat \<Rightarrow> fetch) \<Rightarrow> nat \<Rightarrow> system \<Rightarrow>
    system \<times> (source_result \<times> parse_stats) result" where
  "update_source lib sha sip ts net i s =
     (let s = fst (compiler_init_db sip ts False s); ap = sy_ap s; p = ap_policy ap in
      case row_by_id src_id i (sources (ps_sources p)) of
        None \<Rightarrow> (s, Inl (''source not found: '' @ str_nat i))
      | Some row \<Rightarrow>
          (case update_one_source lib sha ts net row p of
             (p, result, stats) \<Rightarrow> (s\<lparr>sy_ap := ap\<lparr>ap_policy := p\<rparr>\<rparr>, Inr (result, stats))))"

text \<open>The exit code of \<^verbatim>\<open>update_sources\<close>, from the health of the enabled sources.\<close>

definition degraded :: "health \<Rightarrow> bool" where
  "degraded h = (h \<in> {HealthWarning, UnsupportedFormat, UsingCached})"

definition update_exit_code :: "health list \<Rightarrow> nat" where
  "update_exit_code hs =
     (let hard_failures = length (filter (\<lambda>h. h = HealthError) hs); degraded_n = length (filter degraded hs) in
      if hs \<noteq> [] \<and> hard_failures = length hs then 1
      else if hard_failures \<noteq> 0 \<or> degraded_n \<noteq> 0 then 2 else 0)"

definition update_sources :: "stdlib \<Rightarrow> (string \<Rightarrow> string) \<Rightarrow> string \<Rightarrow> string \<Rightarrow> (nat \<Rightarrow> fetch) \<Rightarrow> system \<Rightarrow>
    system \<times> nat" where
  "update_sources lib sha sip ts net s =
     (let s = fst (compiler_init_db sip ts False s); ap = sy_ap s; p = ap_policy ap;
          c = collect_rules lib sha ts (Some net) (ps_sources p) (ps_files p);
          s = s\<lparr>sy_ap := ap\<lparr>ap_policy := p\<lparr>ps_sources := co_db c, ps_files := co_files c\<rparr>\<rparr>\<rparr>
      in (s, update_exit_code (map source_health (enabled_sources (sources (co_db c))))))"

section \<open>Fresh installation\<close>

definition FRESH_INSTALL_DEPLOY_RETRY_DELAYS_SECONDS :: "nat list" where
  "FRESH_INSTALL_DEPLOY_RETRY_DELAYS_SECONDS = [5, 15]"

definition deployment_row :: "nat \<Rightarrow> appliance \<Rightarrow> deployment option" where
  "deployment_row i ap = row_by_id dl_id i (ap_deployments ap)"

text \<open>The schema is current when an attempt starts.  The attempts, one surrounding world each; the delays slept so far are returned.\<close>

fun try_deploys :: "(nat \<Rightarrow> world) \<Rightarrow> nat \<Rightarrow> nat list \<Rightarrow> appliance \<Rightarrow> appliance \<times> nat result \<times> nat list" where
  "try_deploys ws k [] ap =
     (case deploy (ws k) True (Some ''fresh-install'') True ap of (ap, r) \<Rightarrow> (ap, r, []))"
| "try_deploys ws k (d # ds) ap =
     (case deploy (ws k) True (Some ''fresh-install'') True ap of
        (ap, Inr i) \<Rightarrow> (ap, Inr i, [])
      | (ap, Inl _) \<Rightarrow> (case try_deploys ws (Suc k) ds ap of (ap, r, slept) \<Rightarrow> (ap, r, d # slept)))"

datatype fresh_outcome = NotFresh | InitialFailed | InitialDeployed nat nat

definition fresh_install_init :: "string \<Rightarrow> string \<Rightarrow> (nat \<Rightarrow> world) \<Rightarrow> system \<Rightarrow> system \<times> fresh_outcome \<times> nat list" where
  "fresh_install_init sip ts ws s =
     (case compiler_init_db sip ts True s of (s, seeded) \<Rightarrow>
        if \<not> seeded then (s, NotFresh, [])
        else case try_deploys ws 1 FRESH_INSTALL_DEPLOY_RETRY_DELAYS_SECONDS (sy_ap s) of
          (ap, Inl _, slept) \<Rightarrow> (s\<lparr>sy_ap := ap\<rparr>, InitialFailed, slept)
        | (ap, Inr i, slept) \<Rightarrow>
            (s\<lparr>sy_ap := ap\<rparr>,
             (case deployment_row i ap of
                None \<Rightarrow> InitialFailed
              | Some row \<Rightarrow>
                  if dl_status row \<noteq> Deployed \<or> dl_active_domains row = 0 then InitialFailed
                  else InitialDeployed i (dl_active_domains row)), slept))"

section \<open>Scheduled updates\<close>

definition show_status :: "deploy_status \<Rightarrow> string" where
  "show_status st = (case st of Running \<Rightarrow> ''running'' | Deployed \<Rightarrow> ''deployed'' | Failed \<Rightarrow> ''failed''
     | RolledBack \<Rightarrow> ''rolled_back'' | RollbackFailed \<Rightarrow> ''rollback_failed'')"

text \<open>\<open>t1\<close>, \<open>t2\<close> and \<open>t3\<close> are the times of the attempt, the result and the success; the flag is exit code 0.\<close>

definition filter_update_run :: "world \<Rightarrow> string \<Rightarrow> string \<Rightarrow> string \<Rightarrow> system \<Rightarrow> system \<times> bool" where
  "filter_update_run w t1 t2 t3 s =
     (let s = s\<lparr>sy_schedule := record_attempt t1 (sy_schedule s)\<rparr>;
          s = fst (compiler_init_db (w_server_ip w) (w_started w) False s);
          sched = sy_schedule s
      in case deploy w True (Some ''scheduled'') False (sy_ap s) of
        (ap, Inl e) \<Rightarrow>
          (s\<lparr>sy_ap := ap, sy_schedule := record_result t2 ''failed'' 0 e None sched\<rparr>, False)
      | (ap, Inr i) \<Rightarrow>
          let (status, active, msg) = (case deployment_row i ap of
                None \<Rightarrow> (''deployed'', 0, [])
              | Some row \<Rightarrow> (show_status (dl_status row), int (dl_active_domains row), dl_message row))
          in (s\<lparr>sy_ap := ap, sy_schedule :=
                record_success t3 (record_result t2 status active msg (Some (int i)) sched)\<rparr>, True))"

section \<open>What the commands keep\<close>

abbreviation source_table :: "system \<Rightarrow> source_row list" where
  "source_table s \<equiv> sources (ps_sources (ap_policy (sy_ap s)))"

definition references_ok :: "system \<Rightarrow> bool" where
  "references_ok s \<longleftrightarrow> (\<forall>(p, c)\<in>set (sy_profile_categories s).
     p \<in> fst ` set (sy_profiles s) \<and> c \<in> fst ` set (sy_categories s))"

lemma fold_insert_ignore_keys:
  "key ` set (fold (insert_ignore key) rows t) = key ` set rows \<union> key ` set t"
  by (induction rows arbitrary: t) (auto simp: insert_ignore_def)

lemma fold_insert_ignore_id: "set (fold (insert_ignore id) rows t) = set rows \<union> set t"
  using fold_insert_ignore_keys [of id rows t] by simp

lemma default_references:
  "(p, c) \<in> set (concat (map (\<lambda>(profile, cs). map (Pair profile) cs) profile_defaults)) \<Longrightarrow>
   p \<in> fst ` set default_profiles \<and> c \<in> fst ` set default_categories"
  by (auto simp: profile_defaults_def default_profiles_def default_categories_def)

lemma apply_schema_sources:
  "source_table (apply_schema sip ts seed s) =
     (if seed then fold seed_source DEFAULT_FRESH_INSTALL_SOURCES (source_table s) else source_table s)"
  by (simp add: apply_schema_def seed_fresh_install_defaults_def map_sources_def Let_def)

lemma apply_schema_references:
  assumes "references_ok s"
  shows "references_ok (apply_schema sip ts seed s)"
proof -
  let ?s = "apply_schema sip ts seed s"
  have eq: "sy_profiles ?s = fold (insert_ignore fst) default_profiles (sy_profiles s)"
    "sy_categories ?s = fold (insert_ignore fst) default_categories (sy_categories s)"
    "sy_profile_categories ?s = fold (insert_ignore id)
       (concat (map (\<lambda>(profile, cs). map (Pair profile) cs) profile_defaults)) (sy_profile_categories s)"
    by (simp_all add: apply_schema_def seed_fresh_install_defaults_def map_sources_def Let_def)
  show ?thesis using assms default_references
    unfolding references_ok_def eq fold_insert_ignore_keys fold_insert_ignore_id by fast
qed

lemma init_gate:
  "compiler_init_db sip' ts' seed' (fst (compiler_init_db sip ts seed s)) = (fst (compiler_init_db sip ts seed s), False)"
  by (simp add: compiler_init_db_def Let_def)

lemma init_sources:
  "source_table (fst (compiler_init_db sip ts seed s)) =
     (if seed \<and> sy_version s = 0 \<and> \<not> sy_has_tables s
      then fold seed_source DEFAULT_FRESH_INSTALL_SOURCES (source_table s) else source_table s)"
  by (auto simp: compiler_init_db_def Let_def apply_schema_sources SCHEMA_VERSION_def)

lemma init_deployments:
  "ap_deployments (sy_ap (fst (compiler_init_db sip ts seed s))) = ap_deployments (sy_ap s)"
  by (simp add: compiler_init_db_def Let_def apply_schema_def seed_fresh_install_defaults_def map_sources_def)

lemma deploy_row_count: "length (ap_deployments (fst (deploy w download trigger strict ap))) = Suc (length (ap_deployments ap))"
proof -
  obtain r res where run: "run_stages (deploy_stages w download strict) (new_run (start_row w trigger [] ap)) = (r, res)"
    by (metis surj_pair)
  have rows: "ap_deployments (run_ap r) = ap_deployments (start_row w trigger [] ap)"
    using run_keeps_rows [of w download strict "start_row w trigger [] ap"] run by simp
  have count: "length (ap_deployments (finish_row w i st m r1 ap1)) = Suc (length (ap_deployments ap))"
    if "ap_deployments ap1 = ap_deployments (start_row w trigger [] ap)" for i st m r1 ap1
    using that by (simp add: finish_row_def start_row_def update_where_def insert_row_def)
  show ?thesis
  proof (cases res)
    case (Inr u)
    then show ?thesis using count rows by (simp add: deploy_def Let_def run)
  next
    case (Inl e)
    obtain ap2 st msg where rb: "roll_back w r e = (ap2, st, msg)" by (metis prod_cases3)
    show ?thesis using count [of ap2] roll_back_parts(4) [OF rb] rows Inl by (simp add: deploy_def Let_def run rb)
  qed
qed

lemma deploy_success_live: "deploy w download trigger strict ap = (ap', Inr i) \<Longrightarrow> ap_rpz ap' \<noteq> None"
  using successful_run by (fastforce simp: deploy_def Let_def split: prod.splits sum.splits)

lemma try_deploys_bounded:
  "try_deploys ws k ds ap = (ap', r, slept) \<Longrightarrow>
   prefix slept ds \<and> length (ap_deployments ap') = length (ap_deployments ap) + Suc (length slept) \<and>
   (\<not> isl r \<longrightarrow> ap_rpz ap' \<noteq> None)"
proof (induction ds arbitrary: k ap slept ap' r)
  case Nil
  then show ?case using deploy_row_count [of "ws k" True "Some ''fresh-install''" True ap]
      deploy_success_live [of "ws k" True "Some ''fresh-install''" True ap] by (cases r) (auto split: prod.splits)
next
  case (Cons d ds)
  obtain ap1 r1 where d1: "deploy (ws k) True (Some ''fresh-install'') True ap = (ap1, r1)" by (metis surj_pair)
  have one: "length (ap_deployments ap1) = Suc (length (ap_deployments ap))"
    using deploy_row_count [of "ws k" True "Some ''fresh-install''" True ap] d1 by simp
  show ?case
  proof (cases r1)
    case (Inr i)
    then show ?thesis using Cons.prems d1 one deploy_success_live by auto
  next
    case (Inl e)
    obtain ap2 r2 s2 where rest: "try_deploys ws (Suc k) ds ap1 = (ap2, r2, s2)" by (metis prod_cases3)
    from Cons.IH [OF rest] show ?thesis using Cons.prems d1 Inl rest one by auto
  qed
qed

lemma set_value_lookup: "map_of (set_value k v db) = (map_of (schedule_init db))(k \<mapsto> v)"
  by (simp add: set_value_def update_conv')

lemma init_keeps_value:
  assumes "map_of db k = Some v" "k \<noteq> ''interval_hours''"
  shows "map_of (schedule_init db) k = Some v"
proof -
  have "map_of (fold (\<lambda>(k, v) d. dict_setdefault k v d) SETTINGS_DEFAULTS db) k = Some v"
    using assms(1) by (rule map_of_fold_setdefault)
  then show ?thesis using assms(2) by (simp add: schedule_init_def Let_def update_conv' split: option.split)
qed

lemma init_schedule_value:
  assumes "map_of (sy_schedule s) k = Some v" "k \<noteq> ''interval_hours''"
  shows "map_of (sy_schedule (fst (compiler_init_db sip ts seed s))) k = Some v"
  using assms init_keeps_value
  by (simp add: compiler_init_db_def Let_def apply_schema_def seed_fresh_install_defaults_def map_sources_def)

lemma filter_updated:
  assumes "\<And>s. src_name (f s) = src_name s"
  shows "filter (\<lambda>s. src_name s \<noteq> name) (update_where (\<lambda>s. src_name s = name) f t) = filter (\<lambda>s. src_name s \<noteq> name) t"
    "filter (\<lambda>s. src_name s = name) (update_where (\<lambda>s. src_name s = name) f t) = map f (filter (\<lambda>s. src_name s = name) t)"
    "map src_name (update_where (\<lambda>s. src_name s = name) f t) = map src_name t"
  using assms by (induction t) (auto simp: update_where_def)

lemma one_by_name: "distinct (map src_name t) \<Longrightarrow> name \<in> src_name ` set t \<Longrightarrow> \<exists>s. filter (\<lambda>s. src_name s = name) t = [s]"
  by (induction t) (auto simp: filter_empty_conv image_iff)

lemma upsert_source_facts:
  assumes "distinct (map src_name t)"
  shows "distinct (map src_name (upsert_source name url en category t))"
    "filter (\<lambda>s. src_name s \<noteq> name) (upsert_source name url en category t) = filter (\<lambda>s. src_name s \<noteq> name) t"
    "\<exists>s. filter (\<lambda>s. src_name s = name) (upsert_source name url en category t) = [s] \<and>
       src_url s = url \<and> src_enabled s = en \<and> src_category s = category"
  using assms one_by_name [OF assms, of name]
  by (auto simp: upsert_source_def filter_updated insert_source_def insert_row_def new_source_def filter_empty_conv)

section \<open>Properties\<close>

text \<open>
  the defaults are seeded once.  Initialising the schema a second time, with or without the seeding
  flag, changes nothing; the sources change only on a database without version and tables, which then gets
  the default sources; and the seeded rows keep every profile entry pointing to a profile and a category.
\<close>

theorem defaults_seeded_once:
  "case compiler_init_db sip ts seed s of (s1, fresh) \<Rightarrow>
     compiler_init_db sip' ts' seed' s1 = (s1, False) \<and>
     source_table s1 = (if seed \<and> sy_version s = 0 \<and> \<not> sy_has_tables s
       then fold seed_source DEFAULT_FRESH_INSTALL_SOURCES (source_table s) else source_table s) \<and>
     (references_ok s \<longrightarrow> references_ok s1)"
proof -
  have "references_ok s \<Longrightarrow> references_ok (fst (compiler_init_db sip ts seed s))"
    using apply_schema_references by (simp add: compiler_init_db_def Let_def references_ok_def)
  then show ?thesis
    using init_gate [of sip' ts' seed' sip ts seed s] init_sources [of sip ts seed s]
    by (cases "compiler_init_db sip ts seed s") simp
qed

definition example_system :: system where
  "example_system = \<lparr>sy_ap = example_appliance, sy_version = 0, sy_has_tables = False, sy_schedule = [(''last_success'', ''y'')],
     sy_categories = [], sy_profiles = [], sy_profile_categories = []\<rparr>"

theorem defaults_seeded_once_witness:
  "map src_name (source_table (fst (compiler_init_db [] ''t'' True example_system))) = map fst DEFAULT_FRESH_INSTALL_SOURCES \<and>
   references_ok (fst (compiler_init_db [] ''t'' True example_system))"
  using defaults_seeded_once [where sip = "[]" and ts = "''t''" and seed = True and s = example_system]
  by (cases "compiler_init_db [] ''t'' True example_system")
    (simp add: references_ok_def example_system_def example_appliance_def DEFAULT_FRESH_INSTALL_SOURCES_def seed_source_def
      insert_source_def insert_row_def new_source_def HAGEZI_MULTI_NORMAL_URL_def)

text \<open>
  C33: the bootstrap of a fresh installation ends: it makes at most three deployments and sleeps at most
  twenty seconds, and reports an initial deployment only with a live policy of at least one blocked name.
\<close>

theorem bootstrap_bounded:
  "case fresh_install_init sip ts ws s of (s', outcome, slept) \<Rightarrow>
     length (ap_deployments (sy_ap s')) \<le> length (ap_deployments (sy_ap s)) + 3 \<and> sum_list slept \<le> 20 \<and>
     (case outcome of InitialDeployed i n \<Rightarrow> 0 < n \<and> ap_rpz (sy_ap s') \<noteq> None | _ \<Rightarrow> True)"
proof -
  obtain s1 seeded where init: "compiler_init_db sip ts True s = (s1, seeded)" by (metis surj_pair)
  obtain ap r slept where try_it: "try_deploys ws 1 FRESH_INSTALL_DEPLOY_RETRY_DELAYS_SECONDS (sy_ap s1) = (ap, r, slept)"
    by (metis prod_cases3)
  have rows: "ap_deployments (sy_ap s1) = ap_deployments (sy_ap s)"
    using init_deployments [of sip ts True s] init by simp
  have "prefix slept [5, 15]" using try_deploys_bounded [OF try_it] by (simp add: FRESH_INSTALL_DEPLOY_RETRY_DELAYS_SECONDS_def)
  then have "length slept \<le> 2 \<and> sum_list slept \<le> 20" by (auto simp: prefix_Cons)
  then show ?thesis using try_deploys_bounded [OF try_it] rows
    by (cases r) (auto simp: fresh_install_init_def init try_it simp del: One_nat_def split: option.splits if_splits)
qed

text \<open>
  a scheduled run records the attempt whatever happens, and a success exactly when the deployment
  succeeded, in which case a policy is live; after a failure the recorded success is the earlier one.
\<close>

theorem scheduled_run_recorded:
  assumes "map_of (sy_schedule s) ''last_success'' = Some earlier"
  shows "case filter_update_run w t1 t2 t3 s of (s', ok) \<Rightarrow>
     map_of (sy_schedule s') ''last_attempt'' = Some t1 \<and>
     map_of (sy_schedule s') ''last_success'' = Some (if ok then t3 else earlier) \<and>
     (if ok then ap_rpz (sy_ap s') \<noteq> None else True)"
proof -
  let ?s1 = "fst (compiler_init_db (w_server_ip w) (w_started w) False (s\<lparr>sy_schedule := record_attempt t1 (sy_schedule s)\<rparr>))"
  have one: "map_of (sy_schedule ?s1) ''last_attempt'' = Some t1" "map_of (sy_schedule ?s1) ''last_success'' = Some earlier"
    by (rule init_schedule_value; use init_keeps_value [OF assms] in \<open>simp add: record_attempt_def set_value_lookup\<close>)+
  then have kept: "map_of (record_result t2 st a e i (sy_schedule ?s1)) ''last_attempt'' = Some t1"
    "map_of (record_result t2 st a e i (sy_schedule ?s1)) ''last_success'' = Some earlier" for st a e i
    by (simp_all add: record_result_def set_value_lookup init_keeps_value)
  then have good: "map_of (record_success t3 (record_result t2 st a e i (sy_schedule ?s1))) ''last_attempt'' = Some t1"
    "map_of (record_success t3 (record_result t2 st a e i (sy_schedule ?s1))) ''last_success'' = Some t3" for st a e i
    by (simp_all add: record_success_def set_value_lookup init_keeps_value)
  obtain ap r where d: "deploy w True (Some ''scheduled'') False (sy_ap ?s1) = (ap, r)" by (metis surj_pair)
  show ?thesis using kept good deploy_success_live [of w True "Some ''scheduled''" False "sy_ap ?s1" ap] d
    by (cases r) (auto simp: filter_update_run_def Let_def split: prod.split)
qed

theorem scheduled_run_recorded_witness:
  "case filter_update_run (example_world\<lparr>w_postcheck_fail_switch := True\<rparr>) ''a'' ''b'' ''c'' example_system of (s', ok) \<Rightarrow>
     map_of (sy_schedule s') ''last_attempt'' = Some ''a'' \<and>
     map_of (sy_schedule s') ''last_success'' = Some (if ok then ''c'' else ''y'') \<and>
     (if ok then ap_rpz (sy_ap s') \<noteq> None else True)"
  by (rule scheduled_run_recorded) (simp add: example_system_def)

text \<open>
  adding a source changes that source alone: names stay unique, there is exactly one source of the
  given name, with the given address, state and category, and the other rows are as before.
\<close>

theorem add_source_upserts:
  assumes "distinct (map src_name (source_table s))"
  shows "distinct (map src_name (source_table (add_source sip ts name url en category s))) \<and>
    filter (\<lambda>r. src_name r \<noteq> name) (source_table (add_source sip ts name url en category s)) =
      filter (\<lambda>r. src_name r \<noteq> name) (source_table s) \<and>
    (\<exists>r. filter (\<lambda>r. src_name r = name) (source_table (add_source sip ts name url en category s)) = [r] \<and>
       src_url r = url \<and> src_enabled r = en \<and> src_category r = category)"
proof -
  have "source_table (add_source sip ts name url en category s) = upsert_source name url en category (source_table s)"
    using init_sources [of sip ts False s] by (simp add: add_source_def map_sources_def Let_def)
  then show ?thesis using upsert_source_facts [OF assms] by simp
qed

theorem add_source_upserts_witness:
  "\<exists>r. filter (\<lambda>r. src_name r = ''list'') (source_table (add_source [] ''t'' ''list'' ''https://example.net/l'' True ''malware'' example_system)) = [r] \<and>
     src_url r = ''https://example.net/l'' \<and> src_enabled r \<and> src_category r = ''malware''"
  using add_source_upserts [of example_system "[]" "''t''" "''list''" "''https://example.net/l''" True "''malware''"]
  by (simp add: example_system_def example_appliance_def)

end
