(* ===== verification/Categories.thy ===== *)
theory Categories
  imports Source_Lists Rule_Store "HOL-Library.Product_Lexorder" "HOL-Library.Multiset"
begin

text \<open>
  Managed blocklist categories (\<^verbatim>\<open>app/blocklist_categories.py\<close>): the \<^verbatim>\<open>categories\<close> table, the
  \<^verbatim>\<open>category\<close> column of the sources, the migration of free-text values, and the operations of the
  Blocklists page.  Shown: no operation leaves a source pointing at a category that does not exist,
  keys and names stay unique, \<^verbatim>\<open>uncategorized\<close> always exists, and the migration is a no-op once every
  source references a real key.
\<close>

section \<open>State\<close>

record category_row =
  cat_key :: string
  cat_name :: string
  cat_description :: string

record category_db =
  categories :: "category_row list"
  cat_sources :: "source_row list"

definition UNCATEGORIZED_KEY :: string where "UNCATEGORIZED_KEY = ''uncategorized''"

text \<open>\<^verbatim>\<open>re.sub\<close> of every maximal run of a character class by a fixed text.\<close>

fun sub_runs :: "(char \<Rightarrow> bool) \<Rightarrow> string \<Rightarrow> string \<Rightarrow> string" where
  "sub_runs p rep [] = []"
| "sub_runs p rep (c # s) =
     (if p c then rep @ sub_runs p rep (dropWhile p s) else c # sub_runs p rep s)"

definition normalize_name :: "string \<Rightarrow> string" where
  "normalize_name raw = sub_runs py_isspace '' '' (py_strip raw)"

definition key_char :: "char \<Rightarrow> bool" where
  "key_char c = (is_ascii_lower c \<or> is_ascii_digit c)"

definition slugify :: "string \<Rightarrow> string" where
  "slugify raw =
     strip_by (\<lambda>c. c = CHR ''_'') (sub_runs (\<lambda>c. \<not> key_char c) ''_'' (py_lower (py_strip raw)))"

section \<open>Operations\<close>

definition cat_keys :: "category_row list \<Rightarrow> string set" where
  "cat_keys t = set (map cat_key t)"

text \<open>\<^verbatim>\<open>INSERT OR IGNORE\<close>: the key is the primary key.\<close>

definition insert_or_ignore :: "category_row \<Rightarrow> category_row list \<Rightarrow> category_row list" where
  "insert_or_ignore r t = (if cat_key r \<in> cat_keys t then t else t @ [r])"

definition ensure_uncategorized :: "category_row list \<Rightarrow> category_row list" where
  "ensure_uncategorized t = insert_or_ignore
     \<lparr>cat_key = UNCATEGORIZED_KEY, cat_name = ''Uncategorized'',
      cat_description = ''Blocklist sources without a specific category''\<rparr> t"

definition repoint :: "string \<Rightarrow> string \<Rightarrow> source_row list \<Rightarrow> source_row list" where
  "repoint old new = update_where (\<lambda>s. src_category s = old) (\<lambda>s. s\<lparr>src_category := new\<rparr>)"

definition fold_name :: "string \<Rightarrow> string" where
  "fold_name s = map ascii_fold s"

definition source_count :: "source_row list \<Rightarrow> string \<Rightarrow> nat" where
  "source_count ss k = length (filter (\<lambda>s. src_category s = k) ss)"

definition list_categories :: "category_db \<Rightarrow> category_db \<times> (category_row \<times> nat) list" where
  "list_categories db =
     (let t = ensure_uncategorized (categories db) in
      (db\<lparr>categories := t\<rparr>,
       map (\<lambda>c. (c, source_count (cat_sources db) (cat_key c)))
         (sort_key (\<lambda>c. (cat_key c = UNCATEGORIZED_KEY, fold_name (cat_name c))) (sort_key cat_key t))))"

record migration =
  mig_rows :: "category_row list"
  mig_sources :: "source_row list"
  known_keys :: "string set"
  name_to_key :: "(string \<times> string) list"

definition or_else :: "string \<Rightarrow> string \<Rightarrow> string" where
  "or_else a b = (if a = [] then b else a)"

definition migrate_value :: "string \<Rightarrow> migration \<Rightarrow> migration" where
  "migrate_value raw m =
     (if raw \<in> known_keys m then m
      else
        let name = normalize_name raw;
            existing = dict_get (name_to_key m) (py_lower name) [];
            key = or_else existing (or_else (slugify name) UNCATEGORIZED_KEY);
            m = (if key \<in> known_keys m then m
                 else m\<lparr>mig_rows := insert_or_ignore \<lparr>cat_key = key, cat_name = name, cat_description = []\<rparr> (mig_rows m),
                        known_keys := insert key (known_keys m),
                        name_to_key := AList.update (py_lower name) key (name_to_key m)\<rparr>)
        in if key \<noteq> raw then m\<lparr>mig_sources := repoint raw key (mig_sources m)\<rparr> else m)"

text \<open>\<^verbatim>\<open>SELECT DISTINCT\<close> keeps first occurrences.\<close>

definition distinct_first :: "'a list \<Rightarrow> 'a list" where
  "distinct_first xs = rev (remdups (rev xs))"

definition migrate_existing_categories :: "category_db \<Rightarrow> category_db" where
  "migrate_existing_categories db =
     (let t = ensure_uncategorized (categories db);
          n2k = fold (\<lambda>c d. AList.update (py_lower (py_strip (cat_name c))) (cat_key c) d) t [];
          raw_values = distinct_first (filter (\<lambda>c. c \<noteq> []) (map src_category (cat_sources db)));
          m = fold migrate_value raw_values
                \<lparr>mig_rows = t, mig_sources = cat_sources db, known_keys = cat_keys t, name_to_key = n2k\<rparr>
      in \<lparr>categories = mig_rows m, cat_sources = repoint [] UNCATEGORIZED_KEY (mig_sources m)\<rparr>)"

definition exists_error :: "string \<Rightarrow> string" where
  "exists_error name = ''category '' @ [CHR 0x22] @ name @ [CHR 0x22] @ '' already exists''"

definition create_category :: "string \<Rightarrow> category_db \<Rightarrow> (category_db \<times> string) result" where
  "create_category name db =
     (let clean_name = normalize_name name; key = slugify clean_name in
      if clean_name = [] then Inl ''category name is required''
      else if length clean_name > 64 then Inl ''category name must be 64 characters or fewer''
      else if key = [] then Inl ''category name must contain at least one letter or number''
      else if list_ex (\<lambda>c. cat_key c = key \<or> fold_name (cat_name c) = fold_name clean_name) (categories db)
      then Inl (exists_error clean_name)
      else Inr (db\<lparr>categories := categories db @ [\<lparr>cat_key = key, cat_name = clean_name, cat_description = []\<rparr>]\<rparr>, key))"

definition rename_category :: "string \<Rightarrow> string \<Rightarrow> category_db \<Rightarrow> category_db result" where
  "rename_category key new_name db =
     (let clean_name = normalize_name new_name in
      if key = UNCATEGORIZED_KEY then Inl ''the Uncategorized category cannot be renamed''
      else if clean_name = [] then Inl ''category name is required''
      else if key \<notin> cat_keys (categories db) then Inl ''category not found''
      else if list_ex (\<lambda>c. fold_name (cat_name c) = fold_name clean_name \<and> cat_key c \<noteq> key) (categories db)
      then Inl (exists_error clean_name)
      else Inr (db\<lparr>categories := update_where (\<lambda>c. cat_key c = key) (\<lambda>c. c\<lparr>cat_name := clean_name\<rparr>) (categories db)\<rparr>))"

definition merge_category :: "string \<Rightarrow> string \<Rightarrow> category_db \<Rightarrow> category_db result" where
  "merge_category source_key target_key db =
     (if source_key = target_key then Inl ''cannot merge a category into itself''
      else if source_key \<notin> cat_keys (categories db) \<or> target_key \<notin> cat_keys (categories db)
      then Inl ''category not found''
      else Inr \<lparr>categories = (if source_key \<noteq> UNCATEGORIZED_KEY
                              then delete_where (\<lambda>c. cat_key c = source_key) (categories db) else categories db),
                cat_sources = repoint source_key target_key (cat_sources db)\<rparr>)"

definition delete_category :: "string \<Rightarrow> string option \<Rightarrow> category_db \<Rightarrow> category_db result" where
  "delete_category key reassign_to db =
     (let target = or_else (case reassign_to of None \<Rightarrow> [] | Some r \<Rightarrow> r) UNCATEGORIZED_KEY;
          removed = db\<lparr>categories := delete_where (\<lambda>c. cat_key c = key) (categories db)\<rparr>
      in if key = UNCATEGORIZED_KEY then Inl ''the Uncategorized category cannot be deleted''
         else if key \<notin> cat_keys (categories db) then Inl ''category not found''
         else if source_count (cat_sources db) key = 0 then Inr removed
         else if target = key then Inl ''choose a different category to reassign these sources to''
         else if target \<notin> cat_keys (categories db) then Inl ''reassignment category not found''
         else Inr (removed\<lparr>cat_sources := repoint key target (cat_sources db)\<rparr>))"

section \<open>Invariant\<close>

definition refs_ok :: "category_row list \<Rightarrow> source_row list \<Rightarrow> bool" where
  "refs_ok t ss = (\<forall>s\<in>set ss. src_category s \<in> cat_keys t)"

definition rows_ok :: "category_row list \<Rightarrow> bool" where
  "rows_ok t = (distinct (map cat_key t) \<and> distinct (map (\<lambda>c. fold_name (cat_name c)) t) \<and> [] \<notin> cat_keys t)"

definition cat_ok :: "category_db \<Rightarrow> bool" where
  "cat_ok db = (rows_ok (categories db) \<and> UNCATEGORIZED_KEY \<in> cat_keys (categories db) \<and>
     refs_ok (categories db) (cat_sources db))"

inductive cat_step :: "category_db \<Rightarrow> category_db \<Rightarrow> bool" where
  step_list: "cat_step db (fst (list_categories db))"
| step_migrate: "cat_step db (migrate_existing_categories db)"
| step_create: "create_category name db = Inr (db', key) \<Longrightarrow> cat_step db db'"
| step_rename: "rename_category key name db = Inr db' \<Longrightarrow> cat_step db db'"
| step_merge: "merge_category a b db = Inr db' \<Longrightarrow> cat_step db db'"
| step_delete: "delete_category key r db = Inr db' \<Longrightarrow> cat_step db db'"

lemma set_repoint: "src_category ` set (repoint a b ss) \<subseteq> insert b (src_category ` set ss - {a})"
  by (auto simp: repoint_def update_where_def)

lemma repoint_keeps: "c \<in> src_category ` set (repoint a b ss) \<Longrightarrow> c = b \<or> (c \<noteq> a \<and> c \<in> src_category ` set ss)"
  using set_repoint by blast

lemma repoint_count:
  "a \<noteq> b \<Longrightarrow> source_count (repoint a b ss) b = source_count ss a + source_count ss b"
  by (induction ss) (auto simp: repoint_def update_where_def source_count_def)

lemma refs_ok_iff: "refs_ok t ss \<longleftrightarrow> src_category ` set ss \<subseteq> cat_keys t"
  by (auto simp: refs_ok_def)

lemma cat_keys_insert [simp]: "cat_keys (insert_or_ignore r t) = insert (cat_key r) (cat_keys t)"
  by (auto simp: insert_or_ignore_def cat_keys_def)

lemma cat_keys_append [simp]: "cat_keys (t @ u) = cat_keys t \<union> cat_keys u"
  by (simp add: cat_keys_def)

lemma cat_keys_delete [simp]: "cat_keys (delete_where (\<lambda>c. cat_key c = k) t) = cat_keys t - {k}"
  by (auto simp: cat_keys_def delete_where_def)

lemma cat_keys_rename [simp]:
  "cat_keys (update_where p (\<lambda>c. c\<lparr>cat_name := n\<rparr>) t) = cat_keys t"
  by (force simp: cat_keys_def update_where_def)

lemma rows_ok_delete: "rows_ok t \<Longrightarrow> rows_ok (delete_where p t)"
  by (auto simp: rows_ok_def delete_where_def distinct_map_filter cat_keys_def)

lemma rows_ok_append:
  "rows_ok t \<Longrightarrow> cat_key r \<notin> cat_keys t \<Longrightarrow> cat_key r \<noteq> [] \<Longrightarrow> \<forall>c\<in>set t. fold_name (cat_name c) \<noteq> fold_name (cat_name r) \<Longrightarrow>
   rows_ok (t @ [r])"
  by (auto simp: rows_ok_def cat_keys_def)


subsection \<open>The migration\<close>

lemma lower_char_isspace [simp]: "py_isspace (lower_char c) = py_isspace c"
proof -
  have "of_char c < (256 :: nat)" by (simp add: of_char_of)
  then show ?thesis by (auto simp: py_isspace_def lower_char_def Let_def)
qed

lemma ascii_fold_lower: "lower_char (ascii_fold c) = lower_char c"
  by (auto simp: ascii_fold_def lower_char_def is_ascii_upper_def Let_def)

lemma fold_name_lower:
  assumes "fold_name a = fold_name b"
  shows "py_lower a = py_lower b"
proof -
  have eq: "py_lower (fold_name s) = py_lower s" for s
    by (simp add: py_lower_def fold_name_def ascii_fold_lower)
  from assms have "py_lower (fold_name a) = py_lower (fold_name b)" by simp
  then show ?thesis by (simp only: eq)
qed

lemma dropWhile_lower: "dropWhile py_isspace (py_lower s) = py_lower (dropWhile py_isspace s)"
  by (simp add: py_lower_def dropWhile_map comp_def)

lemma py_strip_lower: "py_strip (py_lower s) = py_lower (py_strip s)"
  by (simp add: strip_by_def lstrip_by_def rstrip_by_def py_lower_def dropWhile_map comp_def rev_map)

lemma sub_runs_eq_Nil [simp]: "rep \<noteq> [] \<Longrightarrow> sub_runs p rep s = [] \<longleftrightarrow> s = []"
  by (cases s) auto

lemma sub_runs_last: "s \<noteq> [] \<Longrightarrow> \<not> p (last s) \<Longrightarrow> last (sub_runs p [x] s) = last s"
proof (induction p "[x]" s rule: sub_runs.induct)
  case (2 p c s)
  show ?case
  proof (cases "p c")
    case True
    then have ne: "s \<noteq> []" "\<not> p (last s)" using 2(4) by (auto split: if_splits)
    then have "dropWhile p s \<noteq> []" by (auto simp: dropWhile_eq_Nil_conv)
    moreover have "last (dropWhile p s) = last s"
      using calculation by (metis dropWhile_eq_Nil_conv last_appendR takeWhile_dropWhile_id)
    ultimately show ?thesis using 2(1) [OF True] True ne by auto
  qed (use 2 in auto)
qed simp

lemma normalize_name_stripped: "py_strip (normalize_name raw) = normalize_name raw"
proof (cases "py_strip raw = []")
  case True
  then have "normalize_name raw = []" by (simp add: normalize_name_def)
  then show ?thesis by (simp add: strip_by_def lstrip_by_def rstrip_by_def)
next
  case False
  then obtain c s where cs: "py_strip raw = c # s" by (cases "py_strip raw") auto
  then have ends: "\<not> py_isspace c" "\<not> py_isspace (last (py_strip raw))"
    using strip_by_ends [OF False] by auto
  have "hd (normalize_name raw) = c" using cs ends by (simp add: normalize_name_def)
  moreover have "last (normalize_name raw) = last (py_strip raw)"
    unfolding normalize_name_def using False ends(2) by (rule sub_runs_last)
  ultimately show ?thesis using ends by (intro strip_by_id) simp
qed

text \<open>What holds between the migrated values; \<open>rest\<close> are those still to be visited.\<close>

definition migration_ok :: "string set \<Rightarrow> migration \<Rightarrow> bool" where
  "migration_ok rest m \<longleftrightarrow>
     known_keys m = cat_keys (mig_rows m) \<and> rows_ok (mig_rows m) \<and> UNCATEGORIZED_KEY \<in> known_keys m \<and>
     (\<forall>c\<in>set (mig_rows m). \<exists>k. map_of (name_to_key m) (py_lower (py_strip (cat_name c))) = Some k) \<and>
     (\<forall>n k. map_of (name_to_key m) n = Some k \<longrightarrow> k \<in> known_keys m) \<and>
     (\<forall>s\<in>set (mig_sources m). src_category s \<in> known_keys m \<union> insert [] rest)"

text \<open>The key chosen for a free-text value is never empty, and a name in use gets its row's key.\<close>

lemma migrate_value_ok:
  assumes ok: "migration_ok (insert raw rest) m"
  shows "migration_ok rest (migrate_value raw m)"
proof (cases "raw \<in> known_keys m")
  case True
  then show ?thesis using ok by (auto simp: migrate_value_def migration_ok_def)
next
  case False
  define name where "name = normalize_name raw"
  define existing where "existing = dict_get (name_to_key m) (py_lower name) []"
  define key where "key = or_else existing (or_else (slugify name) UNCATEGORIZED_KEY)"
  note okd = ok [unfolded migration_ok_def]
  have ne: "key \<noteq> []" by (simp add: key_def or_else_def UNCATEGORIZED_KEY_def)
  have fresh: "fold_name (cat_name c) \<noteq> fold_name name"
    if "c \<in> set (mig_rows m)" "key \<notin> known_keys m" for c
  proof
    assume "fold_name (cat_name c) = fold_name name"
    then have "py_lower (cat_name c) = py_lower name" by (rule fold_name_lower)
    then have "py_lower (py_strip (cat_name c)) = py_lower name"
      by (metis name_def normalize_name_stripped py_strip_lower)
    with that(1) okd obtain k where k: "map_of (name_to_key m) (py_lower name) = Some k" by metis
    with okd have "k \<in> known_keys m" by blast
    moreover from this okd have "k \<noteq> []" by (auto simp: rows_ok_def)
    ultimately have "key = k" using k by (simp add: key_def existing_def dict_get_def or_else_def)
    with \<open>k \<in> known_keys m\<close> that(2) show False by simp
  qed
  define m' where "m' = (if key \<in> known_keys m then m
                 else m\<lparr>mig_rows := insert_or_ignore \<lparr>cat_key = key, cat_name = name, cat_description = []\<rparr> (mig_rows m),
                        known_keys := insert key (known_keys m),
                        name_to_key := AList.update (py_lower name) key (name_to_key m)\<rparr>)"
  have step: "migrate_value raw m = (if key \<noteq> raw then m'\<lparr>mig_sources := repoint raw key (mig_sources m')\<rparr> else m')"
    using False by (simp add: migrate_value_def Let_def name_def existing_def key_def m'_def)
  have keyin: "key \<in> known_keys m'" by (simp add: m'_def)
  have m': "migration_ok (insert raw rest) m'"
  proof (cases "key \<in> known_keys m")
    case True
    then show ?thesis using ok by (simp add: m'_def)
  next
    case new: False
    have rows: "rows_ok (mig_rows m @ [\<lparr>cat_key = key, cat_name = name, cat_description = []\<rparr>])"
      using okd new ne fresh by (intro rows_ok_append) auto
    have strip: "py_strip name = name" by (simp add: name_def normalize_name_stripped)
    show ?thesis
      using okd new rows strip
      unfolding migration_ok_def m'_def
      by (auto simp: insert_or_ignore_def update_conv' cat_keys_def)
  qed
  show ?thesis
  proof (cases "key = raw")
    case True
    then show ?thesis using m' keyin unfolding step migration_ok_def by auto
  next
    case False
    then show ?thesis using m' keyin unfolding step migration_ok_def
      by (auto simp: repoint_def update_where_def)
  qed
qed

lemma migrate_values_ok:
  "migration_ok (set raws) m \<Longrightarrow> migration_ok {} (fold migrate_value raws m)"
  by (induction raws arbitrary: m) (auto dest: migrate_value_ok)


lemma set_distinct_first [simp]: "set (distinct_first xs) = set xs"
  by (simp add: distinct_first_def)

lemma find_snoc:
  "List.find P (xs @ [x]) = (case List.find P xs of Some y \<Rightarrow> Some y | None \<Rightarrow> if P x then Some x else None)"
  by (induction xs) auto

lemma fold_update_lookup:
  "map_of (fold (\<lambda>c d. AList.update (f c) (g c) d) t d0) n =
     (case List.find (\<lambda>c. f c = n) (rev t) of Some c \<Rightarrow> Some (g c) | None \<Rightarrow> map_of d0 n)"
proof (induction t arbitrary: d0)
  case (Cons c t)
  then show ?case by (auto simp: update_conv' find_snoc split: option.splits)
qed simp

text \<open>A database on which the migration may be started: whatever the sources contain.\<close>

definition cat_start :: "category_db \<Rightarrow> bool" where
  "cat_start db = (rows_ok (categories db) \<and>
     (UNCATEGORIZED_KEY \<in> cat_keys (categories db) \<or>
      (\<forall>c\<in>set (categories db). fold_name (cat_name c) \<noteq> UNCATEGORIZED_KEY)))"

lemma ensure_uncategorized_id: "UNCATEGORIZED_KEY \<in> cat_keys t \<Longrightarrow> ensure_uncategorized t = t"
  by (simp add: ensure_uncategorized_def insert_or_ignore_def)

lemma ensure_uncategorized_ok:
  assumes "cat_start db"
  shows "rows_ok (ensure_uncategorized (categories db))"
    and "UNCATEGORIZED_KEY \<in> cat_keys (ensure_uncategorized (categories db))"
proof -
  have f: "fold_name ''Uncategorized'' = UNCATEGORIZED_KEY" by code_simp
  show "UNCATEGORIZED_KEY \<in> cat_keys (ensure_uncategorized (categories db))"
    by (simp add: ensure_uncategorized_def)
  show "rows_ok (ensure_uncategorized (categories db))"
  proof (cases "UNCATEGORIZED_KEY \<in> cat_keys (categories db)")
    case True
    then show ?thesis using assms by (simp add: ensure_uncategorized_id cat_start_def)
  next
    case False
    then show ?thesis using assms unfolding ensure_uncategorized_def insert_or_ignore_def cat_start_def
      by (auto simp: f UNCATEGORIZED_KEY_def intro!: rows_ok_append)
  qed
qed

lemma migrate_ok:
  assumes "cat_start db"
  shows "cat_ok (migrate_existing_categories db)"
proof -
  define t where "t = ensure_uncategorized (categories db)"
  define n2k where "n2k = fold (\<lambda>c d. AList.update (py_lower (py_strip (cat_name c))) (cat_key c) d) t []"
  define raws where "raws = distinct_first (filter (\<lambda>c. c \<noteq> []) (map src_category (cat_sources db)))"
  define m where "m = \<lparr>mig_rows = t, mig_sources = cat_sources db, known_keys = cat_keys t, name_to_key = n2k\<rparr>"
  have n: "map_of n2k x = map_option cat_key (List.find (\<lambda>c. py_lower (py_strip (cat_name c)) = x) (rev t))" for x
    by (simp add: n2k_def fold_update_lookup split: option.splits)
  have keys: "k \<in> cat_keys t" if "map_of n2k x = Some k" for x k
    using that by (auto simp: n cat_keys_def find_Some_iff) (metis length_rev nth_mem set_rev imageI)
  have names: "\<exists>k. map_of n2k (py_lower (py_strip (cat_name c))) = Some k" if "c \<in> set t" for c
  proof -
    from that have "List.find (\<lambda>d. py_lower (py_strip (cat_name d)) = py_lower (py_strip (cat_name c))) (rev t) \<noteq> None"
      by (auto simp: find_None_iff)
    then show ?thesis by (auto simp: n)
  qed
  have "migration_ok (set raws) m"
    unfolding migration_ok_def m_def raws_def
    using ensure_uncategorized_ok [OF assms] keys names by (auto simp: t_def)
  then have "migration_ok {} (fold migrate_value raws m)" by (rule migrate_values_ok)
  then show ?thesis
    unfolding migrate_existing_categories_def Let_def cat_ok_def refs_ok_def
    by (fold t_def, fold n2k_def, fold m_def, fold raws_def)
       (auto simp: migration_ok_def repoint_def update_where_def)
qed

lemma migrate_value_known: "raw \<in> known_keys m \<Longrightarrow> migrate_value raw m = m"
  by (simp add: migrate_value_def)

lemma fold_migrate_known: "set raws \<subseteq> known_keys m \<Longrightarrow> fold migrate_value raws m = m"
  by (induction raws) (auto simp: migrate_value_known)

lemma repoint_absent: "a \<notin> src_category ` set ss \<Longrightarrow> repoint a b ss = ss"
  by (induction ss) (auto simp: repoint_def update_where_def)

lemma migrate_noop:
  assumes "cat_ok db"
  shows "migrate_existing_categories db = db"
proof -
  let ?raws = "distinct_first (filter (\<lambda>c. c \<noteq> []) (map src_category (cat_sources db)))"
  have ok: "UNCATEGORIZED_KEY \<in> cat_keys (categories db)" "src_category ` set (cat_sources db) \<subseteq> cat_keys (categories db)"
    "[] \<notin> cat_keys (categories db)"
    using assms by (auto simp: cat_ok_def refs_ok_iff rows_ok_def)
  then have "[] \<notin> src_category ` set (cat_sources db)" by blast
  moreover have "set ?raws \<subseteq> cat_keys (categories db)" using ok by auto
  ultimately show ?thesis using ok
    by (simp add: migrate_existing_categories_def ensure_uncategorized_id fold_migrate_known repoint_absent)
qed

subsection \<open>The other operations\<close>

lemma list_categories_ok: "cat_ok db \<Longrightarrow> fst (list_categories db) = db"
  by (simp add: list_categories_def cat_ok_def ensure_uncategorized_id)

lemma create_category_ok:
  assumes "cat_ok db" "create_category name db = Inr (db', key)"
  shows "cat_ok db'"
proof -
  let ?r = "\<lparr>cat_key = slugify (normalize_name name), cat_name = normalize_name name, cat_description = []\<rparr>"
  from assms(2) have new: "slugify (normalize_name name) \<noteq> []"
    "\<not> list_ex (\<lambda>c. cat_key c = slugify (normalize_name name) \<or> fold_name (cat_name c) = fold_name (normalize_name name)) (categories db)"
    "db' = db\<lparr>categories := categories db @ [?r]\<rparr>"
    by (auto simp: create_category_def Let_def split: if_splits)
  have "rows_ok (categories db @ [?r])"
    using assms(1) new(1,2) by (intro rows_ok_append) (auto simp: cat_ok_def cat_keys_def list_ex_iff)
  then show ?thesis using assms(1) new(3) by (auto simp: cat_ok_def refs_ok_def)
qed

lemma rename_category_ok:
  assumes "cat_ok db" "rename_category key name db = Inr db'"
  shows "cat_ok db'"
proof -
  let ?n = "normalize_name name"
  let ?t = "update_where (\<lambda>c. cat_key c = key) (\<lambda>c. c\<lparr>cat_name := ?n\<rparr>) (categories db)"
  from assms(2) have free: "\<forall>c\<in>set (categories db). cat_key c \<noteq> key \<longrightarrow> fold_name (cat_name c) \<noteq> fold_name ?n"
    and db': "db' = db\<lparr>categories := ?t\<rparr>"
    by (auto simp: rename_category_def Let_def list_ex_iff split: if_splits)
  have keys: "map cat_key ?t = map cat_key (categories db)" by (auto simp: update_where_def)
  have dk: "distinct (map cat_key (categories db))" and dn: "distinct (map (\<lambda>c. fold_name (cat_name c)) (categories db))"
    using assms(1) by (auto simp: cat_ok_def rows_ok_def)
  have "distinct (map (\<lambda>c. fold_name (cat_name c)) ?t)"
    using dk dn free
  proof (induction "categories db" arbitrary: db)
    case (Cons c t)
    have IH: "distinct (map (\<lambda>c. fold_name (cat_name c)) (update_where (\<lambda>c. cat_key c = key) (\<lambda>c. c\<lparr>cat_name := ?n\<rparr>) t))"
      using Cons(1) [of "\<lparr>categories = t, cat_sources = []\<rparr>"] Cons.prems Cons(2) [symmetric] by simp
    then show ?case using Cons.prems Cons(2) [symmetric]
      by (auto simp: update_where_def image_iff split: if_splits)
  qed (simp add: update_where_def)
  then show ?thesis using assms(1) by (auto simp: db' cat_ok_def rows_ok_def keys refs_ok_def)
qed

lemma merge_category_ok:
  assumes "cat_ok db" "merge_category a b db = Inr db'"
  shows "cat_ok db'"
proof -
  from assms(2) have ab: "a \<noteq> b" "b \<in> cat_keys (categories db)"
    and db': "db' = \<lparr>categories = (if a \<noteq> UNCATEGORIZED_KEY
        then delete_where (\<lambda>c. cat_key c = a) (categories db) else categories db),
      cat_sources = repoint a b (cat_sources db)\<rparr>"
    by (auto simp: merge_category_def split: if_splits)
  show ?thesis using assms(1) ab set_repoint [of a b "cat_sources db"]
    by (auto simp: db' cat_ok_def refs_ok_iff rows_ok_delete)
qed

lemma delete_category_ok:
  assumes "cat_ok db" "delete_category key r db = Inr db'"
  shows "cat_ok db'"
proof (cases "source_count (cat_sources db) key = 0")
  case True
  with assms(2) have "db' = db\<lparr>categories := delete_where (\<lambda>c. cat_key c = key) (categories db)\<rparr>" "key \<noteq> UNCATEGORIZED_KEY"
    by (auto simp: delete_category_def Let_def split: if_splits)
  moreover have "\<forall>s\<in>set (cat_sources db). src_category s \<noteq> key"
    using True by (auto simp: source_count_def filter_empty_conv)
  ultimately show ?thesis using assms(1) by (auto simp: cat_ok_def refs_ok_def rows_ok_delete)
next
  case False
  define target where "target = or_else (case r of None \<Rightarrow> [] | Some r \<Rightarrow> r) UNCATEGORIZED_KEY"
  from False assms(2) have "target \<noteq> key" "target \<in> cat_keys (categories db)" "key \<noteq> UNCATEGORIZED_KEY"
    and db': "db' = db\<lparr>categories := delete_where (\<lambda>c. cat_key c = key) (categories db),
                       cat_sources := repoint key target (cat_sources db)\<rparr>"
    by (auto simp: delete_category_def Let_def target_def split: if_splits)
  then show ?thesis using assms(1) set_repoint [of key target "cat_sources db"]
    by (auto simp: cat_ok_def refs_ok_iff rows_ok_delete)
qed

lemma cat_ok_start: "cat_ok db \<Longrightarrow> cat_start db"
  by (simp add: cat_ok_def cat_start_def)

lemma cat_step_ok: "cat_step db db' \<Longrightarrow> cat_ok db \<Longrightarrow> cat_ok db'"
proof (induction rule: cat_step.induct)
  case (step_list db)
  then show ?case by (simp add: list_categories_ok)
next
  case (step_migrate db)
  then show ?case by (simp add: migrate_noop)
qed (blast intro: create_category_ok rename_category_ok merge_category_ok delete_category_ok)+

text \<open>The databases the module can produce from a started one.\<close>

inductive cat_reachable :: "category_db \<Rightarrow> bool" where
  reach_start: "cat_start db \<Longrightarrow> cat_reachable (migrate_existing_categories db)"
| reach_step: "cat_reachable db \<Longrightarrow> cat_step db db' \<Longrightarrow> cat_reachable db'"

lemma cat_reachable_inv: "cat_reachable db \<Longrightarrow> cat_ok db"
  by (induction rule: cat_reachable.induct) (auto intro: migrate_ok cat_step_ok)

lemma sum_source_count:
  assumes "distinct ks" "src_category ` set ss \<subseteq> set ks"
  shows "sum_list (map (source_count ss) ks) = length ss"
  using assms(2)
proof (induction ss)
  case Nil
  then show ?case by (simp add: source_count_def)
next
  case (Cons s ss)
  have "source_count (s # ss) k = source_count ss k + (if k = src_category s then 1 else 0)" for k
    by (simp add: source_count_def)
  moreover have "sum_list (map (\<lambda>k. if k = src_category s then 1 else 0 :: nat) ks) = 1"
    using Cons.prems assms(1) by (simp add: sum_list_distinct_conv_sum_set sum.delta)
  ultimately show ?case using Cons by (simp add: sum_list_addf)
qed

lemma listed_counts:
  assumes "cat_ok db"
  shows "sum_list (map snd (snd (list_categories db))) = length (cat_sources db)"
proof -
  let ?l = "sort_key (\<lambda>c. (cat_key c = UNCATEGORIZED_KEY, fold_name (cat_name c))) (sort_key cat_key (categories db))"
  have t: "ensure_uncategorized (categories db) = categories db"
    using assms by (simp add: cat_ok_def ensure_uncategorized_id)
  have ms: "mset (map cat_key ?l) = mset (map cat_key (categories db))" by simp
  have d: "distinct (map cat_key ?l)"
    using assms ms by (metis cat_ok_def mset_eq_imp_distinct_iff rows_ok_def)
  have "src_category ` set (cat_sources db) \<subseteq> set (map cat_key ?l)"
    using assms by (simp add: cat_ok_def refs_ok_iff cat_keys_def)
  then have "sum_list (map (source_count (cat_sources db)) (map cat_key ?l)) = length (cat_sources db)"
    by (rule sum_source_count [OF d])
  then show ?thesis by (simp add: list_categories_def t comp_def)
qed

section \<open>Properties\<close>

text \<open>
  whatever sequence of listing, migrating, creating, renaming, merging and deleting is run,
  every blocklist source references an existing category, keys are unique and non-empty, names are
  unique without regard to case, and \<^verbatim>\<open>uncategorized\<close> exists.
\<close>

theorem categories_invariant:
  assumes "cat_reachable db"
  shows "cat_ok db"
  using assms by (rule cat_reachable_inv)

definition example_categories :: category_db where
  "example_categories = \<lparr>categories = [\<lparr>cat_key = ''malware'', cat_name = ''Malware'', cat_description = []\<rparr>],
     cat_sources = [example_source\<lparr>src_category := '' Ad  Lists''\<rparr>]\<rparr>"

lemma example_start: "cat_start example_categories"
  by code_simp

theorem categories_invariant_witness:
  "cat_ok (migrate_existing_categories example_categories) \<and>
   map src_category (cat_sources (migrate_existing_categories example_categories)) = [''ad_lists'']"
proof (rule conjI)
  show "cat_ok (migrate_existing_categories example_categories)"
    by (rule categories_invariant [OF reach_start [OF example_start]])
  show "map src_category (cat_sources (migrate_existing_categories example_categories)) = [''ad_lists'']"
    by code_simp
qed

text \<open>
  the migration of free-text categories works on any sources and is idempotent: a second run
  changes nothing.
\<close>

theorem migrate_idempotent:
  assumes "cat_start db"
  shows "migrate_existing_categories (migrate_existing_categories db) = migrate_existing_categories db"
  by (rule migrate_noop [OF migrate_ok [OF assms]])

theorem migrate_idempotent_witness:
  "migrate_existing_categories (migrate_existing_categories example_categories) =
   migrate_existing_categories example_categories"
  by (rule migrate_idempotent [OF example_start])

text \<open>
  the source counts of the category list add up to the number of sources: each source is counted
  under exactly one category.
\<close>

theorem category_counts_partition:
  assumes "cat_reachable db"
  shows "sum_list (map snd (snd (list_categories db))) = length (cat_sources db)"
  by (rule listed_counts [OF cat_reachable_inv [OF assms]])

theorem category_counts_partition_witness:
  "sum_list (map snd (snd (list_categories (migrate_existing_categories example_categories)))) =
   length (cat_sources (migrate_existing_categories example_categories))"
  by (rule category_counts_partition [OF reach_start [OF example_start]])

end
