(* ===== verification/Db_Retry.thy ===== *)
theory Db_Retry
  imports Complex_Main Prelude
begin

text \<open>
  Retrying SQLite writes (\<^verbatim>\<open>app/db_retry.py\<close>).  The retried function is a parameter: one call turns a
  state of the world into another and either returns or raises.  Delays are rational numbers of
  seconds (the program uses floats); the jitter of each pause is a parameter between 0 and 1.
  Shown: the loop returns exactly the first outcome that is not a lock error, or the busy error when
  the budget is spent, and the time slept is bounded.
\<close>

section \<open>Model\<close>

datatype exc = OperationalError string | OtherError string | DatabaseBusyError string

definition DEFAULT_ATTEMPTS :: nat where "DEFAULT_ATTEMPTS = 5"

definition DEFAULT_BASE_DELAY :: rat where "DEFAULT_BASE_DELAY = 1 / 20"

definition DEFAULT_MAX_DELAY :: rat where "DEFAULT_MAX_DELAY = 1"

fun is_lock_error :: "exc \<Rightarrow> bool" where
  "is_lock_error (OperationalError msg) = (contains (py_lower msg) ''locked'' \<or> contains (py_lower msg) ''busy'')"
| "is_lock_error _ = False"

text \<open>The pause after attempt number \<open>attempt\<close>, \<open>u\<close> being the fraction of the jitter drawn.\<close>

definition pause :: "rat \<Rightarrow> rat \<Rightarrow> rat \<Rightarrow> nat \<Rightarrow> rat" where
  "pause base mx u attempt = (let delay = min mx (base * 2 ^ attempt) in delay + u * (delay / 4))"

fun exc_message :: "exc \<Rightarrow> string" where
  "exc_message (OperationalError m) = m"
| "exc_message (OtherError m) = m"
| "exc_message (DatabaseBusyError m) = m"

text \<open>
  The loop: the state after the last call, the pauses made, and the outcome.  \<open>last_exc\<close> is the text
  of the last lock error, the text \<^verbatim>\<open>None\<close> before there is one.
\<close>

function retry_loop ::
  "('s \<Rightarrow> 's \<times> (exc + 'a)) \<Rightarrow> (nat \<Rightarrow> rat) \<Rightarrow> rat \<Rightarrow> rat \<Rightarrow> nat \<Rightarrow> nat \<Rightarrow> string \<Rightarrow> 's \<Rightarrow>
   's \<times> rat list \<times> (exc + 'a)" where
  "retry_loop func jitter base mx attempts attempt last_exc s =
     (if attempt \<ge> attempts then (s, [], Inl (DatabaseBusyError last_exc))
      else case func s of
             (s', Inr v) \<Rightarrow> (s', [], Inr v)
           | (s', Inl e) \<Rightarrow>
               if \<not> is_lock_error e then (s', [], Inl e)
               else (case retry_loop func jitter base mx attempts (Suc attempt) (exc_message e) s' of
                       (s'', ps, res) \<Rightarrow>
                         (s'', (if attempt < attempts - 1 then [pause base mx (jitter attempt) attempt] else []) @ ps, res)))"
  by pat_completeness auto
termination
  by (relation "measure (\<lambda>(func, jitter, base, mx, attempts, attempt, last_exc, s). attempts - attempt)") auto

declare retry_loop.simps [simp del]

definition retry_on_locked ::
  "('s \<Rightarrow> 's \<times> (exc + 'a)) \<Rightarrow> (nat \<Rightarrow> rat) \<Rightarrow> nat \<Rightarrow> rat \<Rightarrow> rat \<Rightarrow> 's \<Rightarrow> 's \<times> rat list \<times> (exc + 'a)" where
  "retry_on_locked func jitter attempts base mx s = retry_loop func jitter base mx attempts 0 ''None'' s"

section \<open>The calls of the retried function\<close>

definition after_calls :: "('s \<Rightarrow> 's \<times> 'r) \<Rightarrow> nat \<Rightarrow> 's \<Rightarrow> 's" where
  "after_calls func k s = ((\<lambda>x. fst (func x)) ^^ k) s"

definition outcome :: "('s \<Rightarrow> 's \<times> 'r) \<Rightarrow> 's \<Rightarrow> nat \<Rightarrow> 'r" where
  "outcome func s k = snd (func (after_calls func k s))"

definition locked :: "exc + 'a \<Rightarrow> bool" where
  "locked r = (case r of Inl e \<Rightarrow> is_lock_error e | Inr _ \<Rightarrow> False)"

definition lock_text :: "('s \<Rightarrow> 's \<times> (exc + 'a)) \<Rightarrow> 's \<Rightarrow> nat \<Rightarrow> string" where
  "lock_text func s n = (case n of 0 \<Rightarrow> ''None''
     | Suc k \<Rightarrow> (case outcome func s k of Inl e \<Rightarrow> exc_message e | Inr _ \<Rightarrow> ''None''))"

lemma after_calls_Suc: "after_calls func (Suc k) s = fst (func (after_calls func k s))"
  by (simp add: after_calls_def)

lemma func_after_calls: "func (after_calls func k s) = (after_calls func (Suc k) s, outcome func s k)"
  by (simp add: after_calls_Suc outcome_def)

text \<open>What the loop computes when it is at attempt \<open>a\<close>, in terms of the sequence of outcomes.\<close>

lemma retry_loop_spec:
  assumes "a \<le> n"
  shows "retry_loop func jitter base mx n a (lock_text func s a) (after_calls func a s) =
    (case List.find (\<lambda>k. \<not> locked (outcome func s k)) [a..<n] of
       Some k \<Rightarrow> (after_calls func (Suc k) s, map (\<lambda>i. pause base mx (jitter i) i) [a..<k], outcome func s k)
     | None \<Rightarrow> (after_calls func n s, map (\<lambda>i. pause base mx (jitter i) i) [a..<n - 1],
                 Inl (DatabaseBusyError (lock_text func s n))))"
  using assms
proof (induction "n - a" arbitrary: a)
  case 0
  then have "a = n" by simp
  then show ?case by (simp add: retry_loop.simps)
next
  case (Suc d)
  then have lt: "a < n" and d: "d = n - Suc a" by auto
  let ?p = "\<lambda>i. pause base mx (jitter i) i"
  let ?P = "\<lambda>k. \<not> locked (outcome func s k)"
  have upt: "[a..<n] = a # [Suc a..<n]" using lt by (simp add: upt_conv_Cons)
  show ?case
  proof (cases "locked (outcome func s a)")
    case False
    then show ?thesis using lt
      by (subst retry_loop.simps) (auto simp: func_after_calls upt locked_def split: sum.splits)
  next
    case True
    then obtain e where e: "outcome func s a = Inl e" "is_lock_error e"
      by (auto simp: locked_def split: sum.splits)
    have nxt: "lock_text func s (Suc a) = exc_message e" by (simp add: lock_text_def e)
    have IH: "retry_loop func jitter base mx n (Suc a) (exc_message e) (after_calls func (Suc a) s) =
      (case List.find ?P [Suc a..<n] of
         Some k \<Rightarrow> (after_calls func (Suc k) s, map ?p [Suc a..<k], outcome func s k)
       | None \<Rightarrow> (after_calls func n s, map ?p [Suc a..<n - 1], Inl (DatabaseBusyError (lock_text func s n))))"
      using Suc.hyps(1) [OF d] lt by (simp add: nxt)
    have later: "k > a \<and> k < n" if "List.find ?P [Suc a..<n] = Some k" for k
      using that by (auto simp: find_Some_iff)
    show ?thesis
    proof (cases "List.find ?P [Suc a..<n]")
      case None
      then show ?thesis using lt e IH
        by (subst retry_loop.simps) (auto simp: func_after_calls upt locked_def upt_rec [of a "n - Suc 0"])
    next
      case (Some k)
      with later have "k > a" "k < n" by auto
      then have "a < n - 1" "[a..<k] = a # [Suc a..<k]" by (auto simp: upt_conv_Cons)
      then show ?thesis using lt e IH Some
        by (subst retry_loop.simps) (auto simp: func_after_calls upt locked_def)
    qed
  qed
qed

lemma pause_bounds:
  assumes "0 \<le> base" "0 \<le> mx" "0 \<le> u" "u \<le> 1"
  shows "pause base mx u k \<le> 5 / 4 * mx" "pause base mx u k \<le> 5 / 4 * (base * 2 ^ k)" "0 \<le> pause base mx u k"
proof -
  let ?d = "min mx (base * 2 ^ k)"
  have d: "0 \<le> ?d" "?d \<le> mx" "?d \<le> base * 2 ^ k" using assms by auto
  have u: "u * (?d / 4) \<le> 1 * (?d / 4)" using assms d by (intro mult_right_mono) auto
  have n: "0 \<le> u * (?d / 4)" using assms d by (intro mult_nonneg_nonneg) auto
  show "pause base mx u k \<le> 5 / 4 * mx" using u d unfolding pause_def Let_def by linarith
  show "pause base mx u k \<le> 5 / 4 * (base * 2 ^ k)" using u d unfolding pause_def Let_def by linarith
  show "0 \<le> pause base mx u k" using n d unfolding pause_def Let_def by linarith
qed

text \<open>The pauses up to attempt \<open>m\<close>: each one at most the cap, and together at most a geometric sum.\<close>

lemma sum_pauses_bound:
  assumes "0 \<le> base" "0 \<le> mx" "\<And>i. 0 \<le> jitter i \<and> jitter i \<le> 1"
  shows "sum_list (map (\<lambda>i. pause base mx (jitter i) i) [0..<m]) \<le> rat_of_nat m * (5 / 4 * mx)"
    and "sum_list (map (\<lambda>i. pause base mx (jitter i) i) [0..<m]) \<le> 5 / 4 * base * (2 ^ m - 1)"
proof (induction m)
  case (Suc m)
  note b = pause_bounds [OF assms(1,2), of "jitter m" m]
  {
    case 1
    then show ?case using Suc(1) b(1) assms(3) [of m] by (simp add: algebra_simps)
  next
    case 2
    then show ?case using Suc(2) b(2) assms(3) [of m] by (simp add: algebra_simps)
  }
qed simp_all

lemma retry_on_locked_unfold:
  "retry_on_locked func jitter n base mx s =
    (case List.find (\<lambda>k. \<not> locked (outcome func s k)) [0..<n] of
       Some k \<Rightarrow> (after_calls func (Suc k) s, map (\<lambda>i. pause base mx (jitter i) i) [0..<k], outcome func s k)
     | None \<Rightarrow> (after_calls func n s, map (\<lambda>i. pause base mx (jitter i) i) [0..<n - 1],
                 Inl (DatabaseBusyError (lock_text func s n))))"
  using retry_loop_spec [of 0 n func jitter base mx s]
  by (simp add: retry_on_locked_def lock_text_def after_calls_def)

lemma pauses_are_prefix:
  "\<exists>m\<le>n - 1. fst (snd (retry_on_locked func jitter n base mx s)) = map (\<lambda>i. pause base mx (jitter i) i) [0..<m]"
proof (cases "List.find (\<lambda>k. \<not> locked (outcome func s k)) [0..<n]")
  case None
  then show ?thesis by (auto simp: retry_on_locked_unfold)
next
  case (Some k)
  then have "k \<le> n - 1" by (auto simp: find_Some_iff)
  then show ?thesis using Some by (auto simp: retry_on_locked_unfold)
qed

lemma pauses_bounded:
  assumes "0 \<le> base" "0 \<le> mx" "\<And>i. 0 \<le> jitter i \<and> jitter i \<le> 1"
  shows "sum_list (fst (snd (retry_on_locked func jitter n base mx s)))
    \<le> min (rat_of_nat (n - 1) * (5 / 4 * mx)) (5 / 4 * base * (2 ^ (n - 1) - 1))"
proof -
  obtain m where m: "m \<le> n - 1"
    and eq: "fst (snd (retry_on_locked func jitter n base mx s)) = map (\<lambda>i. pause base mx (jitter i) i) [0..<m]"
    using pauses_are_prefix [of n func jitter base mx s] by auto
  have "rat_of_nat m * (5 / 4 * mx) \<le> rat_of_nat (n - 1) * (5 / 4 * mx)"
    using m assms(2) by (intro mult_right_mono) auto
  moreover have "5 / 4 * base * (2 ^ m - 1) \<le> 5 / 4 * base * (2 ^ (n - 1) - 1)"
    using m assms(1) by (intro mult_left_mono) (auto simp: power_increasing)
  moreover note sum_pauses_bound [where base = base and mx = mx and jitter = jitter and m = m, OF assms]
  ultimately show ?thesis unfolding eq min_le_iff_disj min.bounded_iff by linarith
qed

section \<open>Properties\<close>

text \<open>
  \<^verbatim>\<open>retry_on_locked\<close> calls the function until the first outcome that is not a lock error and
  returns (or raises) exactly that outcome, pausing once per failed attempt; when every one of the
  \<open>n\<close> attempts meets a lock it has made exactly \<open>n\<close> calls and raises the busy error with the last
  message.
\<close>

theorem retry_returns_first_settled:
  "retry_on_locked func jitter n base mx s =
    (case List.find (\<lambda>k. \<not> locked (outcome func s k)) [0..<n] of
       Some k \<Rightarrow> (after_calls func (Suc k) s, map (\<lambda>i. pause base mx (jitter i) i) [0..<k], outcome func s k)
     | None \<Rightarrow> (after_calls func n s, map (\<lambda>i. pause base mx (jitter i) i) [0..<n - 1],
                 Inl (DatabaseBusyError (lock_text func s n))))"
  by (rule retry_on_locked_unfold)

text \<open>
  the time slept is bounded by the cap times the number of pauses and by the geometric sum of
  the doubling delays (each with at most a quarter of jitter); with the default budget of five
  attempts, 50 ms and a cap of one second, the retries sleep less than one second altogether.
\<close>

theorem retry_sleep_bounded:
  assumes "0 \<le> base" "0 \<le> mx" "\<And>i. 0 \<le> jitter i \<and> jitter i \<le> 1"
  shows "sum_list (fst (snd (retry_on_locked func jitter n base mx s)))
      \<le> min (rat_of_nat (n - 1) * (5 / 4 * mx)) (5 / 4 * base * (2 ^ (n - 1) - 1)) \<and>
    sum_list (fst (snd (retry_on_locked func jitter DEFAULT_ATTEMPTS DEFAULT_BASE_DELAY DEFAULT_MAX_DELAY s))) < 1"
proof (rule conjI)
  show "sum_list (fst (snd (retry_on_locked func jitter n base mx s)))
      \<le> min (rat_of_nat (n - 1) * (5 / 4 * mx)) (5 / 4 * base * (2 ^ (n - 1) - 1))"
    by (rule pauses_bounded [OF assms])
  show "sum_list (fst (snd (retry_on_locked func jitter DEFAULT_ATTEMPTS DEFAULT_BASE_DELAY DEFAULT_MAX_DELAY s))) < 1"
    using pauses_bounded [of DEFAULT_BASE_DELAY DEFAULT_MAX_DELAY jitter func DEFAULT_ATTEMPTS s] assms(3)
    by (auto simp: DEFAULT_ATTEMPTS_def DEFAULT_BASE_DELAY_def DEFAULT_MAX_DELAY_def)
qed

theorem retry_sleep_bounded_witness:
  "sum_list (fst (snd (retry_on_locked (\<lambda>n. (Suc n, if n < 2 then Inl (OperationalError ''database is locked'') else Inr n))
     (\<lambda>_. 1) DEFAULT_ATTEMPTS DEFAULT_BASE_DELAY DEFAULT_MAX_DELAY (0 :: nat)))) < 1"
  by (rule retry_sleep_bounded [of 1 1, THEN conjunct2]) simp_all

end
