(* ===== verification/Ip_Texts.thy ===== *)
theory Ip_Texts
  imports Ipaddress
begin

text \<open>
  Reading back the texts that the \<^verbatim>\<open>ipaddress\<close> module prints.  Shown: the compressed form of every IPv6
  address, and the text of every network with cleared host bits, is read as the same address or network.
  Stored identifiers are such texts, so comparing texts compares addresses.
\<close>

section \<open>Hexadecimal groups\<close>

lemma hex_digit_val_hex_char: "d < 16 \<Longrightarrow> hex_digit_val (hex_char d) = Some d"
  by (auto simp: hex_digit_val_def hex_char_def Let_def)

lemma hex_val_snoc:
  "hex_val acc (s @ [c]) =
     (case hex_val acc s of None \<Rightarrow> None | Some v \<Rightarrow> map_option (\<lambda>d. 16 * v + d) (hex_digit_val c))"
  by (induction s arbitrary: acc) (auto split: option.splits)

lemma hex_val_hex_nat: "hex_val 0 (hex_nat n) = Some n"
proof (induction n rule: hex_nat.induct)
  case (1 n)
  then show ?case
    by (cases "n < 16") (simp_all add: hex_nat.simps [of n] hex_digit_val_hex_char hex_val_snoc)
qed

lemma hex_nat_ne [simp]: "hex_nat n \<noteq> []"
  by (simp add: hex_nat.simps [of n])

lemma hex_nat_0: "hex_nat 0 = ''0''"
  by code_simp

lemma length_hex_nat: "n < 16 ^ Suc k \<Longrightarrow> length (hex_nat n) \<le> Suc k"
proof (induction k arbitrary: n)
  case 0
  then show ?case by (simp add: hex_nat.simps [of n])
next
  case (Suc k)
  then have "n div 16 < 16 ^ Suc k" by (auto simp: less_mult_imp_div_less algebra_simps)
  then have "length (hex_nat (n div 16)) \<le> Suc k" by (rule Suc.IH)
  then show ?case by (simp add: hex_nat.simps [of n])
qed

lemma parse_hextet_hex_nat: "h < 65536 \<Longrightarrow> parse_hextet (hex_nat h) = Some h"
  using length_hex_nat [of h 3] by (simp add: parse_hextet_def hex_val_hex_nat)

definition hex_group_char :: "char \<Rightarrow> bool" where
  "hex_group_char c = (hex_digit_val c \<noteq> None)"

lemma hex_nat_chars: "c \<in> set (hex_nat n) \<Longrightarrow> hex_group_char c"
proof (induction n rule: hex_nat.induct)
  case (1 n)
  then show ?case
    by (cases "n < 16") (auto simp: hex_nat.simps [of n] hex_group_char_def hex_digit_val_hex_char)
qed

lemma hex_group_char_plain:
  "hex_group_char c \<Longrightarrow> c \<noteq> CHR '':'' \<and> c \<noteq> dot \<and> c \<noteq> CHR ''%'' \<and> c \<noteq> CHR ''/''"
  by (auto simp: hex_group_char_def hex_digit_val_def Let_def)

lemma hextets_val_map:
  "\<forall>h\<in>set hs. h < 65536 \<Longrightarrow> hextets_val acc (map hex_nat hs) = Some (foldl (\<lambda>a h. 65536 * a + h) acc hs)"
  by (induction hs arbitrary: acc) (simp_all add: parse_hextet_hex_nat)

section \<open>Groups of an address\<close>

lemma hextets_bound: "h \<in> set (hextets n) \<Longrightarrow> h < 65536"
  by (auto simp: hextets_def)

lemma length_hextets [simp]: "length (hextets n) = 8"
  by (simp add: hextets_def)

lemma foldl_hextets:
  assumes "n < 2 ^ 128"
  shows "foldl (\<lambda>a h. 65536 * a + h) 0 (hextets n) = n"
proof -
  have up: "n div 65536 ^ Suc k * 65536 + n div 65536 ^ k mod 65536 = n div 65536 ^ k" for k
  proof -
    have "n div 65536 ^ Suc k = n div 65536 ^ k div 65536" by (simp only: power_Suc2 div_mult2_eq)
    then show ?thesis by simp
  qed
  have part: "foldl (\<lambda>a h. 65536 * a + h) 0 (map (\<lambda>i. n div 65536 ^ (7 - i) mod 65536) [0..<k]) = n div 65536 ^ (8 - k)"
    if "k \<le> 8" for k
    using that
  proof (induction k)
    case 0
    have "n div 65536 ^ 8 = 0" using assms by simp
    then show ?case by simp
  next
    case (Suc k)
    then have "8 - k = Suc (7 - k)" "8 - Suc k = 7 - k" by simp_all
    with Suc show ?case using up [of "7 - k"] by (simp add: mult.commute)
  qed
  show ?thesis using part [of 8] by (simp add: hextets_def)
qed

section \<open>The compressed run\<close>

lemma best_zero_run_sound:
  assumes "best_zero_run i (cs, cl) (bs, bl) hs = (s, l)" "drop i H = hs" "i \<le> length H"
    and "0 < cl \<longrightarrow> cs + cl = i" "\<forall>j. cs \<le> j \<and> j < cs + cl \<longrightarrow> H ! j = 0"
    and "bs + bl \<le> length H" "\<forall>j. bs \<le> j \<and> j < bs + bl \<longrightarrow> H ! j = (0 :: nat)"
  shows "s + l \<le> length H \<and> (\<forall>j. s \<le> j \<and> j < s + l \<longrightarrow> H ! j = 0)"
  using assms
proof (induction hs arbitrary: i cs cl bs bl)
  case (Cons h hs)
  have i: "i < length H" using Cons.prems(2,3) by (cases "i < length H") auto
  have h: "H ! i = h" "drop (Suc i) H = hs"
    using Cons.prems(2) i by (simp_all add: Cons_nth_drop_Suc [symmetric])
  show ?case
  proof (cases "h = 0")
    case True
    define cs' where "cs' = (if cl = 0 then i else cs)"
    have cur: "cs' + Suc cl = Suc i" using Cons.prems(4) by (auto simp: cs'_def)
    have zero: "\<forall>j. cs' \<le> j \<and> j < cs' + Suc cl \<longrightarrow> H ! j = 0"
      using Cons.prems(4,5) h(1) True by (auto simp: cs'_def less_Suc_eq)
    show ?thesis
    proof (cases "Suc cl > bl")
      case longer: True
      then have "best_zero_run (Suc i) (cs', Suc cl) (cs', Suc cl) hs = (s, l)"
        using Cons.prems(1) True by (simp add: cs'_def [symmetric] Let_def)
      then show ?thesis by (rule Cons.IH [OF _ h(2)]) (use i cur zero in simp_all)
    next
      case shorter: False
      then have "best_zero_run (Suc i) (cs', Suc cl) (bs, bl) hs = (s, l)"
        using Cons.prems(1) True by (simp add: cs'_def [symmetric] Let_def)
      then show ?thesis by (rule Cons.IH [OF _ h(2)]) (use i cur zero Cons.prems(6,7) in simp_all)
    qed
  next
    case False
    then have "best_zero_run (Suc i) (0, 0) (bs, bl) hs = (s, l)" using Cons.prems(1) by simp
    then show ?thesis by (rule Cons.IH [OF _ h(2)]) (use i Cons.prems(6,7) in simp_all)
  qed
qed simp

section \<open>Addresses\<close>

text \<open>A scope that an address can carry.\<close>

definition scope_ok :: "string option \<Rightarrow> bool" where
  "scope_ok sc = (case sc of None \<Rightarrow> True | Some x \<Rightarrow> x \<noteq> [] \<and> CHR ''%'' \<notin> set x \<and> CHR ''/'' \<notin> set x)"

lemma filter_upt_single:
  assumes "a \<le> i" "i < b" "\<And>j. a \<le> j \<Longrightarrow> j < b \<Longrightarrow> P j \<longleftrightarrow> j = i"
  shows "filter P [a..<b] = [i]"
proof -
  have "[a..<b] = [a..<i] @ i # [Suc i..<b]" using assms(1,2) upt_add_eq_append [OF assms(1), of "b - i"] by (simp add: upt_conv_Cons)
  moreover have "filter P [a..<i] = []" "filter P [Suc i..<b] = []" "P i"
    using assms by (auto simp: filter_empty_conv)
  ultimately show ?thesis by simp
qed

lemma parts_val_compressed:
  assumes "\<forall>w\<in>set A \<union> set B. w \<noteq> []" "length A + length B \<le> 6"
  shows "parts_val ((if A = [] then [[]] else []) @ A @ [[]] @ B @ (if B = [] then [[]] else [])) =
    hextets_val 0 (A @ replicate (8 - (length A + length B)) ''0'' @ B)" (is "parts_val ?parts = _")
proof -
  let ?i = "if A = [] then 1 else length A"
  have ne: "A ! j \<noteq> []" if "j < length A" for j using that assms(1) nth_mem by blast
  have ne': "B ! j \<noteq> []" if "j < length B" for j using that assms(1) nth_mem by blast
  have "?parts ! j = [] \<longleftrightarrow> j = ?i" if "1 \<le> j" "j < length ?parts - 1" for j
  proof (cases "A = []")
    case True
    with that ne' [of "j - 2"] show ?thesis
      by (cases "B = []"; cases j) (auto simp: nth_Cons' nth_append)
  next
    case False
    with that ne [of j] ne' [of "j - Suc (length A)"] show ?thesis
      by (cases "B = []") (auto simp: nth_append nth_Cons')
  qed
  then have inner: "inner_empty ?parts = [?i]"
    unfolding inner_empty_def by (intro filter_upt_single) (auto simp: Suc_le_eq)
  have hd: "hd ?parts = [] \<longleftrightarrow> A = []" using assms(1) by (cases A) auto
  have last: "last ?parts = [] \<longleftrightarrow> B = []" using assms(1) last_in_set [of B] by (cases "B = []") auto
  show ?thesis using assms(2)
    unfolding parts_val_def Let_def inner list.case hd last by (cases "A = []"; cases "B = []") auto
qed

lemma parts_val_plain:
  "length ws = 8 \<Longrightarrow> \<forall>w\<in>set ws. w \<noteq> [] \<Longrightarrow> parts_val ws = hextets_val 0 ws"
proof -
  assume ws: "length ws = 8" "\<forall>w\<in>set ws. w \<noteq> []"
  then have "inner_empty ws = []" by (auto simp: inner_empty_def filter_empty_conv)
  moreover have "hd ws \<noteq> []" "last ws \<noteq> []" using ws by (cases ws; auto)+
  ultimately show ?thesis using ws(1) by (simp add: parts_val_def)
qed

lemma join_chars: "c \<in> set (join sep xs) \<Longrightarrow> c \<in> set sep \<or> (\<exists>x\<in>set xs. c \<in> set x)"
  by (induction sep xs rule: join.induct) auto

text \<open>The texts between the colons of a printed address.\<close>

definition groups :: "nat \<Rightarrow> string list" where
  "groups n =
     (let hs = hextets n; ws = map hex_nat hs in
      case best_zero_run 0 (0, 0) (0, 0) hs of (s, l) \<Rightarrow>
        if l > 1 then
          (if s = 0 then [[]] else []) @ take s ws @ [[]] @ drop (s + l) ws @ (if s + l = length ws then [[]] else [])
        else ws)"

lemma str_v6_groups: "str_v6 n = join '':'' (groups n)"
  by (simp add: str_v6_def groups_def Let_def split: prod.split)

lemma groups_chars: "w \<in> set (groups n) \<Longrightarrow> c \<in> set w \<Longrightarrow> hex_group_char c"
  by (auto simp: groups_def Let_def hex_nat_chars split: prod.splits if_splits dest!: in_set_takeD in_set_dropD)

lemma parts_val_groups:
  assumes "n < 2 ^ 128"
  shows "parts_val (groups n) = Some n \<and> 3 \<le> length (groups n)"
proof -
  let ?hs = "hextets n" and ?ws = "map hex_nat (hextets n)"
  have whole: "hextets_val 0 ?ws = Some n"
    using hextets_val_map [of ?hs 0] hextets_bound foldl_hextets [OF assms] by simp
  have ne: "\<forall>w\<in>set ?ws. w \<noteq> []" by auto
  obtain s l where run: "best_zero_run 0 (0, 0) (0, 0) ?hs = (s, l)" by fastforce
  show ?thesis
  proof (cases "l > 1")
    case False
    then show ?thesis using whole parts_val_plain [of ?ws] ne run by (simp add: groups_def)
  next
    case True
    have zero: "s + l \<le> 8" "\<forall>j. s \<le> j \<and> j < s + l \<longrightarrow> ?hs ! j = 0"
      using best_zero_run_sound [OF run, of ?hs] by simp_all
    let ?A = "take s ?ws" and ?B = "drop (s + l) ?ws"
    have AB: "(s = 0) = (?A = [])" "(s + l = length ?ws) = (?B = [])" "length ?A = s" "length ?B = 8 - (s + l)"
      using zero(1) True length_hextets [of n] by (auto simp del: length_hextets)
    have "take l (drop s ?hs) = replicate l 0"
      using zero by (intro nth_equalityI) simp_all
    then have mid: "take l (drop s ?ws) = replicate (8 - (length ?A + length ?B)) ''0''"
      using zero(1) unfolding AB(3,4) by (simp add: take_map drop_map hex_nat_0)
    have "?ws = ?A @ take l (drop s ?ws) @ drop l (drop s ?ws)" by (simp only: append_take_drop_id)
    then have ws: "?ws = ?A @ replicate (8 - (length ?A + length ?B)) ''0'' @ ?B"
      by (simp only: mid drop_drop add.commute [of l s])
    have shape: "groups n = (if ?A = [] then [[]] else []) @ ?A @ [[]] @ ?B @ (if ?B = [] then [[]] else [])"
      unfolding AB(1,2) [symmetric] using run True by (simp add: groups_def Let_def)
    have "\<forall>w\<in>set ?A \<union> set ?B. w \<noteq> []" using ne by (blast dest: in_set_takeD in_set_dropD)
    moreover have "length ?A + length ?B \<le> 6" using zero(1) True unfolding AB(3,4) by simp
    ultimately have "parts_val (groups n) = hextets_val 0 ?ws"
      unfolding shape by (subst ws) (rule parts_val_compressed)
    moreover have "3 \<le> length (groups n)"
      unfolding shape using zero(1) True by (cases "?A = []"; cases "?B = []") (auto simp: Suc_le_eq)
    ultimately show ?thesis using whole by simp
  qed
qed

lemma str_v6_chars: "c \<in> set (str_v6 n) \<Longrightarrow> c = CHR '':'' \<or> hex_group_char c"
  unfolding str_v6_groups by (auto dest!: join_chars simp: groups_chars)

lemma parse_v6_printed:
  assumes "n < 2 ^ 128" "scope_ok sc"
  shows "parse_v6 (str_ip (V6 n sc)) = Some (V6 n sc)"
proof -
  have ne: "groups n \<noteq> []" using parts_val_groups [OF assms(1)] by auto
  have plain: "CHR '':'' \<notin> set w \<and> dot \<notin> set w" if "w \<in> set (groups n)" for w
    using groups_chars [OF that] hex_group_char_plain by blast
  then have split: "split_char CHR '':'' (str_v6 n) = groups n"
    unfolding str_v6_groups using ne by (intro split_char_join) auto
  have chars: "CHR ''%'' \<notin> set (str_v6 n)" "CHR ''/'' \<notin> set (str_v6 n)"
    using str_v6_chars hex_group_char_plain by fastforce+
  have tail: "expand_v4_tail (groups n) = Some (groups n)"
    using plain [of "last (groups n)"] ne by (simp add: expand_v4_tail_def)
  show ?thesis
  proof (cases sc)
    case None
    then show ?thesis using split chars tail parts_val_groups [OF assms(1)]
      by (simp add: parse_v6_def partition_char_none)
  next
    case (Some x)
    then have "partition_char CHR ''%'' (str_v6 n @ ''%'' @ x) = (str_v6 n, True, x)"
      using chars(1) by (simp add: partition_char_hit)
    with Some show ?thesis using split chars tail parts_val_groups [OF assms(1)] assms(2)
      by (simp add: parse_v6_def scope_ok_def)
  qed
qed

section \<open>Values the module returns\<close>

fun ip_ok :: "ip \<Rightarrow> bool" where
  "ip_ok (V4 n) = (n < 2 ^ 32)"
| "ip_ok (V6 n sc) = (n < 2 ^ 128 \<and> scope_ok sc)"

fun net_ok :: "network \<Rightarrow> bool" where
  "net_ok (Net4 a p) = (a < 2 ^ 32 \<and> p \<le> 32 \<and> clear_host (32 - p) a = a)"
| "net_ok (Net6 a sc p) = (a < 2 ^ 128 \<and> p \<le> 128 \<and> clear_host (128 - p) a = a \<and> scope_ok sc)"

lemma parse_v4_no_colon: "CHR '':'' \<in> set s \<Longrightarrow> parse_v4 s = None"
  using parse_v4_chars [of s _ "CHR '':''"] by (cases "parse_v4 s") (auto simp: is_ascii_digit_def)

lemma str_v6_colon: "n < 2 ^ 128 \<Longrightarrow> CHR '':'' \<in> set (str_ip (V6 n sc))"
  using parse_v6_colon [OF parse_v6_printed [of n None]] by (cases sc) (simp_all add: scope_ok_def)

theorem ip_address_printed: "ip_ok i \<Longrightarrow> ip_address (str_ip i) = Some i"
proof (cases i)
  case (V6 n sc)
  assume "ip_ok i"
  with V6 show ?thesis
    using parse_v6_printed [of n sc] parse_v4_no_colon [OF str_v6_colon [of n sc]] by (simp add: ip_address_def)
qed (simp add: ip_address_str_v4 del: str_ip.simps)

lemma digit_bound:
  fixes v :: nat
  assumes "d < b" "v < (b * acc + d + 1) * b ^ k"
  shows "v < (acc + 1) * b ^ Suc k"
proof -
  have "b * acc + d + 1 \<le> (acc + 1) * b" using assms(1) by (simp add: algebra_simps)
  then have "(b * acc + d + 1) * b ^ k \<le> (acc + 1) * b * b ^ k" by (rule mult_le_mono1)
  with assms(2) show ?thesis by (simp only: power_Suc mult.assoc)
qed

lemma hex_val_bound: "hex_val acc s = Some v \<Longrightarrow> v < (acc + 1) * 16 ^ length s"
proof (induction s arbitrary: acc)
  case (Cons c s)
  then obtain d where d: "hex_digit_val c = Some d" "hex_val (16 * acc + d) s = Some v" by (auto split: option.splits)
  have "d < 16" using d(1) by (auto simp: hex_digit_val_def Let_def split: if_splits)
  from digit_bound [OF this Cons.IH [OF d(2)]] show ?case by simp
qed simp

lemma parse_hextet_bound: "parse_hextet s = Some v \<Longrightarrow> v < 65536"
proof -
  assume "parse_hextet s = Some v"
  then have "length s \<le> 4" "v < 16 ^ length s"
    using hex_val_bound [of 0 s v] by (auto simp: parse_hextet_def split: if_splits)
  moreover from this have "(16::nat) ^ length s \<le> 16 ^ 4" by (intro power_increasing) simp_all
  ultimately show ?thesis by simp
qed

lemma hextets_val_bound: "hextets_val acc ps = Some v \<Longrightarrow> v < (acc + 1) * 65536 ^ length ps"
proof (induction ps arbitrary: acc)
  case (Cons p ps)
  then obtain d where d: "parse_hextet p = Some d" "hextets_val (65536 * acc + d) ps = Some v" by (auto split: option.splits)
  from digit_bound [OF parse_hextet_bound [OF d(1)] Cons.IH [OF d(2)]] show ?case by simp
qed simp

lemma parts_val_bound: "parts_val ps = Some v \<Longrightarrow> v < 2 ^ 128"
proof -
  assume v: "parts_val ps = Some v"
  have "\<exists>qs. hextets_val 0 qs = Some v \<and> length qs = 8"
  proof (cases "inner_empty ps")
    case Nil
    then show ?thesis using v by (auto simp: parts_val_def Let_def split: if_splits)
  next
    case (Cons i rest)
    then have rest: "rest = []" using v by (auto simp: parts_val_def Let_def split: list.splits if_splits)
    have "i \<in> set (inner_empty ps)" using Cons by simp
    then have i: "1 \<le> i" "i < length ps - 1" by (auto simp: inner_empty_def)
    define hi where "hi = (if hd ps = [] then i - 1 else i)"
    define lo where "lo = (if last ps = [] then length ps - i - 2 else length ps - i - 1)"
    have "hi + lo \<le> 7" "hextets_val 0 (take hi ps @ replicate (8 - (hi + lo)) ''0'' @ drop (length ps - lo) ps) = Some v"
      using v Cons rest by (auto simp: parts_val_def Let_def hi_def lo_def split: if_splits)
    moreover have "hi \<le> length ps" "lo \<le> length ps" using i by (auto simp: hi_def lo_def)
    ultimately show ?thesis by (intro exI conjI) (assumption, simp)
  qed
  then show ?thesis using hextets_val_bound [of 0 _ v] by fastforce
qed

lemma parse_v6_ok: "parse_v6 s = Some i \<Longrightarrow> ip_ok i \<and> \<not> is_v4 i"
proof -
  assume p: "parse_v6 s = Some i"
  obtain addr f sc where pc: "partition_char CHR ''%'' s = (addr, f, sc)" by (metis prod_cases3)
  from p pc obtain ps v where v: "parts_val ps = Some v" "i = V6 v (if f then Some sc else None)"
    by (auto simp: parse_v6_def Let_def split: if_splits option.splits)
  have "CHR ''/'' \<notin> set s" "f \<Longrightarrow> sc \<noteq> [] \<and> CHR ''%'' \<notin> set sc"
    using p pc by (auto simp: parse_v6_def split: if_splits)
  then show ?thesis using v parts_val_bound [OF v(1)] partition_char_sound [OF pc]
    by (auto simp: scope_ok_def split: if_splits)
qed

theorem ip_address_ok: "ip_address s = Some i \<Longrightarrow> ip_ok i"
  using parse_v4_bound parse_v6_ok by (fastforce simp: ip_address_def split: option.splits)

section \<open>Networks\<close>

lemma clear_host_idem [simp]: "clear_host k (clear_host k n) = clear_host k n"
proof -
  have "n - n mod 2 ^ k = n div 2 ^ k * 2 ^ k" by (simp add: minus_mod_eq_div_mult)
  then show ?thesis by (simp add: clear_host_def)
qed

lemma clear_host_le: "clear_host k n \<le> n"
  by (simp add: clear_host_def)

lemma mask_prefix_bound: "mask_prefix m = Some p \<Longrightarrow> p \<le> 32"
  by (auto simp: mask_prefix_def find_Some_iff)

lemma parse_mask4_bound: "parse_mask4 s = Some p \<Longrightarrow> p \<le> 32"
  by (auto simp: parse_mask4_def parse_prefix_def dest!: mask_prefix_bound split: if_splits option.splits)

lemma parse_net4_ok: "parse_net4 a m = Some net \<Longrightarrow> net_ok net"
proof -
  assume "parse_net4 a m = Some net"
  then obtain n p where n: "parse_v4 a = Some n" "(case m of None \<Rightarrow> Some 32 | Some s \<Rightarrow> parse_mask4 s) = Some p"
      "net = Net4 (clear_host (32 - p) n) p"
    by (auto simp: parse_net4_def split: option.splits)
  have "p \<le> 32" using n(2) by (cases m) (auto dest: parse_mask4_bound)
  moreover have "clear_host (32 - p) n < 2 ^ 32" by (rule le_less_trans [OF clear_host_le parse_v4_bound [OF n(1)]])
  ultimately show ?thesis by (simp add: n(3))
qed

lemma parse_net6_ok: "parse_net6 a m = Some net \<Longrightarrow> net_ok net"
proof -
  assume "parse_net6 a m = Some net"
  then obtain n sc p where n: "parse_v6 a = Some (V6 n sc)"
      "(case m of None \<Rightarrow> Some 128 | Some s \<Rightarrow> parse_prefix 128 s) = Some p"
      "net = Net6 (clear_host (128 - p) n) (if clear_host (128 - p) n = n then sc else None) p"
    by (auto simp: parse_net6_def split: option.splits ip.splits)
  have "p \<le> 128" using n(2) by (cases m) (auto simp: parse_prefix_def split: if_splits)
  moreover have "n < 2 ^ 128" "scope_ok sc" using parse_v6_ok [OF n(1)] by simp_all
  moreover have "clear_host (128 - p) n < 2 ^ 128" by (rule le_less_trans [OF clear_host_le \<open>n < 2 ^ 128\<close>])
  ultimately show ?thesis by (simp add: n(3) scope_ok_def)
qed

theorem ip_network_ok: "ip_network s = Some net \<Longrightarrow> net_ok net"
  by (auto simp: ip_network_def dest: parse_net4_ok parse_net6_ok split: list.splits option.splits)

lemma parse_prefix_str_nat: "p \<le> m \<Longrightarrow> parse_prefix m (str_nat p) = Some p"
  by (simp add: parse_prefix_def str_nat_digits)

lemma str_nat_no_slash: "CHR ''/'' \<notin> set (str_nat n)"
  using str_nat_digits [of n] by (auto simp: list_all_iff is_ascii_digit_def)

lemma str_v4_no_slash: "n < 2 ^ 32 \<Longrightarrow> CHR ''/'' \<notin> set (str_v4 n)"
  using parse_v4_chars [OF parse_v4_str_v4, of n "CHR ''/''"] by (auto simp: is_ascii_digit_def)

lemma str_v6_no_slash: "scope_ok sc \<Longrightarrow> CHR ''/'' \<notin> set (str_ip (V6 n sc))"
  using str_v6_chars [of "CHR ''/''" n] hex_group_char_plain by (cases sc) (auto simp: scope_ok_def)

lemma split_slash:
  "CHR ''/'' \<notin> set a \<Longrightarrow> CHR ''/'' \<notin> set b \<Longrightarrow> split_char CHR ''/'' (a @ ''/'' @ b) = [a, b]"
  using split_char_join [of "[a, b]" "CHR ''/''"] by simp

theorem ip_network_printed: "net_ok net \<Longrightarrow> ip_network (str_network net) = Some net"
proof (cases net)
  case (Net4 a p)
  assume "net_ok net"
  with Net4 show ?thesis
    using split_slash [OF str_v4_no_slash str_nat_no_slash, of a p]
    by (simp add: ip_network_def parse_net4_def parse_mask4_def parse_prefix_str_nat parse_v4_str_v4)
next
  case (Net6 a sc p)
  assume "net_ok net"
  with Net6 show ?thesis
    using split_slash [OF str_v6_no_slash str_nat_no_slash, of sc a p] parse_v4_no_colon [OF str_v6_colon [of a sc]]
      parse_v6_printed [of a sc]
    by (simp add: ip_network_def parse_net4_def parse_net6_def parse_prefix_str_nat del: str_ip.simps)
qed

end
