(* ===== verification/Client_Ids.thy ===== *)
theory Client_Ids
  imports Ip_Texts
begin

text \<open>
  Client identifiers (\<^verbatim>\<open>app/clients.py\<close>): exact addresses, networks and ClientIDs, and the encodings of a
  ClientID as DNS label and as DoH path, with the Base32 coder of Python's \<^verbatim>\<open>base64\<close> module.  Bytes are
  numbers below 256.  Shown: the DNS label of a ClientID fits a label and decodes to the same ClientID, and
  normalising an identifier twice gives what normalising it once gives.
\<close>

section \<open>Positional notation\<close>

definition of_base :: "nat \<Rightarrow> nat list \<Rightarrow> nat" where
  "of_base b ds = foldl (\<lambda>a d. b * a + d) 0 ds"

definition to_base :: "nat \<Rightarrow> nat \<Rightarrow> nat \<Rightarrow> nat list" where
  "to_base b k n = map (\<lambda>i. n div b ^ (k - 1 - i) mod b) [0..<k]"

function chunks :: "nat \<Rightarrow> 'a list \<Rightarrow> 'a list list" where
  "chunks k xs = (if k = 0 \<or> xs = [] then [] else take k xs # chunks k (drop k xs))"
  by pat_completeness auto
termination by (relation "measure (\<lambda>(_, xs). length xs)") auto

declare chunks.simps [simp del]

section \<open>Base32\<close>

definition b32_char :: "nat \<Rightarrow> char" where
  "b32_char d = (if d < 26 then char_of (65 + d) else char_of (24 + d))"

definition b32_val :: "char \<Rightarrow> nat option" where
  "b32_val c = (let n = (of_char c :: nat) in
     if 65 \<le> n \<and> n \<le> 90 then Some (n - 65) else if 50 \<le> n \<and> n \<le> 55 then Some (n - 24) else None)"

definition b32_pad :: "nat \<Rightarrow> nat" where
  "b32_pad leftover = (if leftover = 1 then 6 else if leftover = 2 then 4 else if leftover = 3 then 3
     else if leftover = 4 then 1 else 0)"

definition b32_quantum :: "nat list \<Rightarrow> string" where
  "b32_quantum bytes = map b32_char (to_base 32 8 (of_base 256 bytes))"

definition b32encode :: "nat list \<Rightarrow> string" where
  "b32encode s =
     (let leftover = length s mod 5;
          padded = (if leftover = 0 then s else s @ replicate (5 - leftover) 0);
          encoded = concat (map b32_quantum (chunks 5 padded));
          pads = b32_pad leftover
      in take (length encoded - pads) encoded @ replicate pads CHR ''='')"

definition b32_acc :: "string \<Rightarrow> nat option" where
  "b32_acc quanta = map_option (of_base 32) (those (map b32_val quanta))"

definition b32decode :: "string \<Rightarrow> nat list result" where
  "b32decode s =
     (if length s mod 8 \<noteq> 0 then Inl ''Incorrect padding''
      else
        let body = rstrip_by (\<lambda>c. c = CHR ''='') s; padchars = length s - length body in
        case those (map b32_acc (chunks 8 body)) of
          None \<Rightarrow> Inl ''Non-base32 digit found''
        | Some accs \<Rightarrow>
            let decoded = concat (map (to_base 256 5) accs) in
            if padchars \<notin> {0, 1, 3, 4, 6} then Inl ''Incorrect padding''
            else if padchars \<noteq> 0 \<and> decoded \<noteq> [] then
              Inr (take (length decoded - 5) decoded @
                take ((43 - 5 * padchars) div 8) (to_base 256 5 (last accs * 32 ^ padchars)))
            else Inr decoded)"

section \<open>ClientIDs\<close>

definition CLIENTID_ALLOWED_HEX_LENGTHS :: "nat list" where "CLIENTID_ALLOWED_HEX_LENGTHS = [48, 64]"
definition CLIENTID_MIN_HEX_LEN :: nat where "CLIENTID_MIN_HEX_LEN = 48"
definition CLIENTID_MAX_HEX_LEN :: nat where "CLIENTID_MAX_HEX_LEN = 64"
definition DNS_LABEL_MAX_LEN :: nat where "DNS_LABEL_MAX_LEN = 63"
definition CLIENTID_SNI_SUFFIX :: string where "CLIENTID_SNI_SUFFIX = ''clientid.alderpointdns.local''"

definition is_hex_lower :: "char \<Rightarrow> bool" where
  "is_hex_lower c = (c \<in> set ''0123456789abcdef'')"

text \<open>\<open>token_hex\<close> is the random generator of the \<^verbatim>\<open>secrets\<close> module.\<close>

definition generate_clientid :: "(nat \<Rightarrow> string) \<Rightarrow> int \<Rightarrow> string result" where
  "generate_clientid token_hex bits =
     (if bits = 192 then Inr (token_hex 24)
      else if bits = 256 then Inr (token_hex 32)
      else Inl ''ClientID strength must be 192 or 256 bits'')"

definition validate_clientid :: "string \<Rightarrow> string result" where
  "validate_clientid raw =
     (let content = py_lower (py_strip raw); n = length content in
      if content = [] then Inl ''ClientID is required''
      else if list_ex (\<lambda>c. \<not> is_hex_lower c) content then Inl ''ClientID must be hexadecimal (0-9, a-f)''
      else if n < CLIENTID_MIN_HEX_LEN then
        Inl (''ClientID is only '' @ str_nat n @ '' hex characters; Alderpoint requires at least '' @
          str_nat CLIENTID_MIN_HEX_LEN @ '' (192-bit). Shorter/weaker ClientIDs (including 32-hex/128-bit) are not accepted.'')
      else if n \<notin> set CLIENTID_ALLOWED_HEX_LENGTHS then
        (if n > CLIENTID_MAX_HEX_LEN then
           Inl (''ClientID is '' @ str_nat n @ '' hex characters, longer than the supported 256-bit (64 hex) maximum'')
         else
           Inl (''ClientID must be exactly 48 hex characters (192-bit) or 64 hex characters (256-bit); got '' @ str_nat n))
      else Inr content)"

definition clientid_strength_bits :: "string \<Rightarrow> nat option" where
  "clientid_strength_bits canonical_hex = map_of [(48, 192), (64, 256)] (length canonical_hex)"

text \<open>\<^verbatim>\<open>bytes.fromhex\<close> (blanks between the pairs are skipped) and \<^verbatim>\<open>bytes.hex\<close>.\<close>

fun from_hex :: "string \<Rightarrow> nat list option" where
  "from_hex [] = Some []"
| "from_hex (c # s) =
     (if (of_char c :: nat) = 32 \<or> 9 \<le> (of_char c :: nat) \<and> (of_char c :: nat) \<le> 13 then from_hex s
      else case s of
        [] \<Rightarrow> None
      | d # s' \<Rightarrow>
          (case (hex_digit_val c, hex_digit_val d, from_hex s') of
             (Some x, Some y, Some bs) \<Rightarrow> Some ((16 * x + y) # bs)
           | _ \<Rightarrow> None))"

definition to_hex :: "nat list \<Rightarrow> string" where
  "to_hex bs = concat (map (\<lambda>b. [hex_char (b div 16), hex_char (b mod 16)]) bs)"

definition clientid_dns_label :: "string \<Rightarrow> string result" where
  "clientid_dns_label canonical_hex =
     (if length canonical_hex \<le> DNS_LABEL_MAX_LEN then Inr canonical_hex
      else case from_hex canonical_hex of
        None \<Rightarrow> Inl ''non-hexadecimal number found in fromhex() arg''
      | Some raw \<Rightarrow> Inr (py_lower (rstrip_by (\<lambda>c. c = CHR ''='') (b32encode raw))))"

definition clientid_from_dns_label :: "string \<Rightarrow> string result" where
  "clientid_from_dns_label label =
     (let content = py_lower (py_strip label); n = length content in
      if content \<noteq> [] \<and> list_all is_hex_lower content \<and> n \<in> set CLIENTID_ALLOWED_HEX_LENGTHS then Inr content
      else case b32decode (py_upper content @ replicate ((8 - n mod 8) mod 8) CHR ''='') of
        Inl e \<Rightarrow> Inl ([CHR 0x27] @ label @ [CHR 0x27] @ '' is not a valid ClientID or DNS-safe label: '' @ e)
      | Inr raw \<Rightarrow> Inr (to_hex raw))"

definition clientid_doh_path :: "string \<Rightarrow> string \<Rightarrow> string" where
  "clientid_doh_path base_path canonical_hex = rstrip_by (\<lambda>c. c = CHR ''/'') base_path @ ''/'' @ canonical_hex"

definition clientid_sni_hostname :: "string \<Rightarrow> string result" where
  "clientid_sni_hostname canonical_hex =
     map_sum id (\<lambda>label. label @ ''.'' @ CLIENTID_SNI_SUFFIX) (clientid_dns_label canonical_hex)"

section \<open>Identifiers\<close>

datatype identifier_kind = Kipv4 | Kipv4_cidr | Kipv6 | Kipv6_cidr | Kclientid

definition is_hex_any :: "char \<Rightarrow> bool" where
  "is_hex_any c = (c \<in> set ''0123456789abcdefABCDEF'')"

fun net_kind :: "network \<Rightarrow> identifier_kind" where
  "net_kind (Net4 _ _) = Kipv4_cidr"
| "net_kind (Net6 _ _ _) = Kipv6_cidr"

fun ip_kind :: "ip \<Rightarrow> identifier_kind" where
  "ip_kind (V4 _) = Kipv4"
| "ip_kind (V6 _ _) = Kipv6"

definition normalize_identifier :: "string \<Rightarrow> (identifier_kind \<times> string) result" where
  "normalize_identifier raw =
     (let content = py_strip raw;
          bad = Inl ([CHR 0x27] @ raw @ [CHR 0x27] @ '' is not a valid IPv4/IPv6 address, CIDR, or ClientID'')
      in if content = [] then Inl ''identifier is required''
         else if length content \<le> CLIENTID_MAX_HEX_LEN \<and> list_all is_hex_any content
         then map_sum id (Pair Kclientid) (validate_clientid content)
         else if CHR ''/'' \<in> set content then
           (case ip_network content of
              None \<Rightarrow> bad
            | Some net \<Rightarrow> Inr (net_kind net, str_network net))
         else
           (case ip_address content of
              None \<Rightarrow> bad
            | Some address \<Rightarrow> Inr (ip_kind address, str_ip address)))"

definition identifier_network :: "identifier_kind \<Rightarrow> string \<Rightarrow> network option result" where
  "identifier_network kind value =
     (if kind = Kclientid then Inr None
      else case ip_network value of
        None \<Rightarrow> Inl ([CHR 0x27] @ value @ [CHR 0x27] @ '' does not appear to be an IPv4 or IPv6 network'')
      | Some net \<Rightarrow> Inr (Some net))"

section \<open>Positional notation is read back\<close>

lemma of_base_snoc: "of_base b (ds @ [d]) = b * of_base b ds + d"
  by (simp add: of_base_def)

lemma length_to_base [simp]: "length (to_base b k n) = k"
  by (simp add: to_base_def)

lemma to_base_Suc: "to_base b (Suc k) n = to_base b k (n div b) @ [n mod b]"
proof -
  have "n div b ^ (k - i) mod b = n div b div b ^ (k - 1 - i) mod b" if "i < k" for i
  proof -
    have "b ^ (k - i) = b * b ^ (k - 1 - i)" using that by (simp flip: power_Suc add: Suc_diff_Suc)
    then show ?thesis by (simp only: div_mult2_eq)
  qed
  then show ?thesis by (simp add: to_base_def)
qed

lemma of_to_base: "n < b ^ k \<Longrightarrow> of_base b (to_base b k n) = n"
proof (induction k arbitrary: n)
  case (Suc k)
  then have "n div b < b ^ k" by (simp add: less_mult_imp_div_less mult.commute)
  from Suc.IH [OF this] show ?case by (simp add: to_base_Suc of_base_snoc)
qed (simp add: to_base_def of_base_def)

lemma of_base_bound: "\<forall>d\<in>set ds. d < b \<Longrightarrow> of_base b ds < b ^ length ds"
proof (induction ds rule: rev_induct)
  case (snoc d ds)
  then have "d < b" "of_base b ds + 1 \<le> b ^ length ds" by simp_all
  then have "b * of_base b ds + d < b * (of_base b ds + 1)" "b * (of_base b ds + 1) \<le> b * b ^ length ds"
    by (simp_all only: mult_le_mono2) simp
  then show ?case by (simp add: of_base_snoc)
qed (simp add: of_base_def)

lemma to_of_base: "\<forall>d\<in>set ds. d < b \<Longrightarrow> to_base b (length ds) (of_base b ds) = ds"
proof (induction ds rule: rev_induct)
  case (snoc d ds)
  then show ?case by (simp add: to_base_Suc of_base_snoc)
qed (simp add: to_base_def)

lemma to_base_bound: "0 < b \<Longrightarrow> d \<in> set (to_base b k n) \<Longrightarrow> d < b"
  by (auto simp: to_base_def)

lemma of_base_append: "of_base b (xs @ ys) = of_base b xs * b ^ length ys + of_base b ys"
proof (induction ys rule: rev_induct)
  case (snoc y ys)
  then show ?case by (simp add: of_base_snoc algebra_simps flip: append_assoc)
qed (simp add: of_base_def)

lemma of_base_zeros: "of_base b (replicate k 0) = 0"
  by (induction k) (simp_all add: of_base_def)


lemma take_to_base: "p \<le> k \<Longrightarrow> take (k - p) (to_base b k n) = to_base b (k - p) (n div b ^ p)"
proof (induction p arbitrary: k n)
  case (Suc p)
  then obtain k' where k: "k = Suc k'" by (cases k) auto
  with Suc show ?case by (simp add: to_base_Suc div_mult2_eq)
qed simp

section \<open>Chunks\<close>

lemma chunks_Nil [simp]: "chunks k [] = []"
  by (simp add: chunks.simps [of k])

lemma concat_chunks: "0 < k \<Longrightarrow> concat (chunks k xs) = xs"
proof (induction k xs rule: chunks.induct)
  case (1 k xs)
  then show ?case by (cases "xs = []") (simp_all add: chunks.simps [of k xs])
qed

lemma chunks_append: "0 < k \<Longrightarrow> length a mod k = 0 \<Longrightarrow> chunks k (a @ b) = chunks k a @ chunks k b"
proof (induction k a rule: chunks.induct)
  case (1 k a)
  show ?case
  proof (cases "a = []")
    case False
    then have "k \<le> length a" using "1.prems" by (metis mod_less leI length_0_conv)
    moreover have "chunks k (drop k a @ b) = chunks k (drop k a) @ chunks k b"
      using "1.IH" False "1.prems" \<open>k \<le> length a\<close> by (simp add: le_mod_geq)
    ultimately show ?thesis using False "1.prems"
      by (simp add: chunks.simps [of k "a @ b"] chunks.simps [of k a])
  qed simp
qed

lemma chunks_length: "0 < k \<Longrightarrow> length xs mod k = 0 \<Longrightarrow> c \<in> set (chunks k xs) \<Longrightarrow> length c = k"
proof (induction k xs rule: chunks.induct)
  case (1 k xs)
  then have ne: "xs \<noteq> []" by (auto simp: chunks.simps [of k xs])
  then have "k \<le> length xs" using "1.prems" by (metis mod_less leI length_0_conv)
  moreover from this have "length (drop k xs) mod k = 0" using "1.prems" by (simp add: le_mod_geq)
  moreover have "c = take k xs \<or> c \<in> set (chunks k (drop k xs))"
    using "1.prems" ne by (simp add: chunks.simps [of k xs])
  ultimately show ?case using "1.IH" ne "1.prems" by auto
qed

lemma chunks_subset: "0 < k \<Longrightarrow> c \<in> set (chunks k xs) \<Longrightarrow> set c \<subseteq> set xs"
  using concat_chunks [of k xs] by (metis set_concat UN_upper)

lemma chunks_single: "0 < length c \<Longrightarrow> length c \<le> k \<Longrightarrow> chunks k c = [c]"
  by (cases "k = 0") (simp_all add: chunks.simps [of k c])

lemma length_chunks: "0 < k \<Longrightarrow> length xs mod k = 0 \<Longrightarrow> k * length (chunks k xs) = length xs"
proof -
  assume k: "0 < k" "length xs mod k = 0"
  have "length (concat (chunks k xs)) = sum_list (map (\<lambda>_. k) (chunks k xs))"
    unfolding length_concat by (rule arg_cong [where f = sum_list], rule map_cong) (use chunks_length [OF k] in auto)
  then show ?thesis using concat_chunks [OF k(1), of xs] by (simp add: sum_list_triv)
qed

lemma chunks_concat: "0 < k \<Longrightarrow> \<forall>c\<in>set cs. length c = k \<Longrightarrow> chunks k (concat cs) = cs"
proof (induction cs)
  case (Cons c cs)
  then show ?case using chunks_append [of k c "concat cs"] chunks_single [of c k] by simp
qed simp

section \<open>Base32 is read back\<close>

lemma b32_val_char: "d < 32 \<Longrightarrow> b32_val (b32_char d) = Some d"
  by (auto simp: b32_val_def b32_char_def Let_def)

lemma b32_char_plain: "d < 32 \<Longrightarrow> b32_char d \<noteq> CHR ''=''"
  using b32_val_char [of d] by (auto simp: b32_val_def)

lemma b32_acc_chars: "\<forall>d\<in>set ds. d < 32 \<Longrightarrow> b32_acc (map b32_char ds) = Some (of_base 32 ds)"
proof -
  assume "\<forall>d\<in>set ds. d < 32"
  then have "those (map b32_val (map b32_char ds)) = Some ds" by (induction ds) (auto simp: b32_val_char)
  then show ?thesis by (simp add: b32_acc_def)
qed

lemma those_map_Some: "\<forall>x\<in>set xs. f x = Some (g x) \<Longrightarrow> those (map f xs) = Some (map g xs)"
  by (induction xs) auto

definition byte_list :: "nat list \<Rightarrow> bool" where
  "byte_list bs = (\<forall>b\<in>set bs. b < 256)"

lemma quantum_acc:
  assumes "byte_list c" "length c = 5"
  shows "b32_acc (b32_quantum c) = Some (of_base 256 c)" "to_base 256 5 (of_base 256 c) = c"
proof -
  have "of_base 256 c < 256 ^ 5" using of_base_bound [of c 256] assms by (simp add: byte_list_def)
  then have "of_base 32 (to_base 32 8 (of_base 256 c)) = of_base 256 c" by (intro of_to_base) simp
  then show "b32_acc (b32_quantum c) = Some (of_base 256 c)"
    using b32_acc_chars [of "to_base 32 8 (of_base 256 c)"] to_base_bound [of 32] by (auto simp: b32_quantum_def)
  show "to_base 256 5 (of_base 256 c) = c" using to_of_base [of c 256] assms by (simp add: byte_list_def)
qed

lemma length_quantum [simp]: "length (b32_quantum c) = 8"
  by (simp add: b32_quantum_def)

lemma quantum_plain: "x \<in> set (b32_quantum c) \<Longrightarrow> x \<noteq> CHR ''=''"
  using b32_char_plain to_base_bound [of 32] by (auto simp: b32_quantum_def)

text \<open>The last quantum of \<open>k\<close> bytes keeps the digits that are not padding; the dropped ones are zero.\<close>

lemma partial_quantum:
  assumes "byte_list r" "0 < length r" "length r < 5"
  defines "p \<equiv> b32_pad (length r)" and "z \<equiv> r @ replicate (5 - length r) 0"
  shows "\<exists>acc. b32_acc (take (8 - p) (b32_quantum z)) = Some acc \<and> acc * 32 ^ p = of_base 256 z"
    "to_base 256 5 (of_base 256 z) = z" "p \<in> {1, 3, 4, 6}" "(43 - 5 * p) div 8 = length r"
proof -
  have k: "length r = 1 \<or> length r = 2 \<or> length r = 3 \<or> length r = 4" using assms(2,3) by arith
  then show p: "p \<in> {1, 3, 4, 6}" "(43 - 5 * p) div 8 = length r" by (auto simp: p_def b32_pad_def)
  have z: "byte_list z" "length z = 5" using assms by (auto simp: z_def byte_list_def)
  then show "to_base 256 5 (of_base 256 z) = z" by (rule quantum_acc)
  have "32 ^ p dvd (256 :: nat) ^ (5 - length r)" using k by (elim disjE) (simp_all add: p_def b32_pad_def)
  moreover have "of_base 256 z = of_base 256 r * 256 ^ (5 - length r)"
    by (simp add: z_def of_base_append of_base_zeros)
  ultimately have "32 ^ p dvd of_base 256 z" by simp
  then have "of_base 256 z div 32 ^ p * 32 ^ p = of_base 256 z" by simp
  moreover have "b32_acc (take (8 - p) (b32_quantum z)) = Some (of_base 256 z div 32 ^ p)"
  proof -
    have "of_base 256 z < 32 ^ (8 - p) * 32 ^ p"
      using of_base_bound [of z 256] z p(1) by (auto simp: byte_list_def)
    then have "of_base 256 z div 32 ^ p < 32 ^ (8 - p)" by (rule less_mult_imp_div_less)
    moreover have "take (8 - p) (b32_quantum z) = map b32_char (to_base 32 (8 - p) (of_base 256 z div 32 ^ p))"
      using take_to_base [of p 8 32 "of_base 256 z"] p(1) by (auto simp: b32_quantum_def take_map)
    ultimately show ?thesis using b32_acc_chars to_base_bound [of 32] of_to_base by simp
  qed
  ultimately show "\<exists>acc. b32_acc (take (8 - p) (b32_quantum z)) = Some acc \<and> acc * 32 ^ p = of_base 256 z" by blast
qed


definition b32_text :: "string \<Rightarrow> bool" where
  "b32_text e = (\<forall>c\<in>set e. \<exists>d<32. c = b32_char d)"

lemma quantum_text: "b32_text (b32_quantum c)"
  using to_base_bound [of 32] by (auto simp: b32_text_def b32_quantum_def)

text \<open>What the encoder writes, split at the last partial quantum.\<close>

lemma b32encode_split:
  assumes "byte_list bs"
  obtains ls r where "bs = ls @ r" "length ls mod 5 = 0" "length r < 5" "byte_list ls" "byte_list r"
    "b32encode bs = concat (map b32_quantum (chunks 5 ls)) @
       (if r = [] then [] else
          take (8 - b32_pad (length r)) (b32_quantum (r @ replicate (5 - length r) 0)) @ replicate (b32_pad (length r)) CHR ''='')"
proof -
  define ls where "ls = take (5 * (length bs div 5)) bs"
  define r where "r = drop (5 * (length bs div 5)) bs"
  have bs: "bs = ls @ r" by (simp add: ls_def r_def)
  have ls: "length ls mod 5 = 0"
    using times_div_less_eq_dividend [of 5 "length bs"] by (simp add: ls_def min_absorb2)
  have r: "length r = length bs mod 5" by (simp add: r_def minus_mult_div_eq_mod)
  have "b32encode bs = concat (map b32_quantum (chunks 5 ls)) @
       (if r = [] then [] else
          take (8 - b32_pad (length r)) (b32_quantum (r @ replicate (5 - length r) 0)) @ replicate (b32_pad (length r)) CHR ''='')"
  proof (cases "r = []")
    case True
    then have "ls = bs" "length bs mod 5 = 0" by (metis bs append_Nil2, metis r list.size(3))
    moreover from this(2) have "b32encode bs = concat (map b32_quantum (chunks 5 bs))"
      by (simp add: b32encode_def Let_def b32_pad_def)
    ultimately show ?thesis using True by simp
  next
    case False
    then have k: "length bs mod 5 \<noteq> 0" by (metis r length_0_conv)
    have k': "length (r @ replicate (5 - length r) 0) = 5" by (simp add: r)
    let ?z = "r @ replicate (5 - length r) 0" and ?E = "concat (map b32_quantum (chunks 5 ls))"
    have "chunks 5 ?z = [?z]" by (rule chunks_single) (use k' in linarith)+
    then have ch: "chunks 5 (ls @ ?z) = chunks 5 ls @ [?z]"
      by (subst chunks_append [OF _ ls]) simp_all
    have z: "bs @ replicate (5 - length r) 0 = ls @ ?z" by (subst bs) simp
    have "b32encode bs =
        take (length (?E @ b32_quantum ?z) - b32_pad (length r)) (?E @ b32_quantum ?z) @ replicate (b32_pad (length r)) CHR ''=''"
      using k unfolding b32encode_def Let_def
      by (simp only: if_False z ch r [symmetric] map_append concat_append list.map concat.simps append_Nil2)
    moreover have "b32_pad (length r) \<le> 8" by (simp add: b32_pad_def)
    ultimately show ?thesis using False by (simp only: if_False length_append take_append length_quantum) simp
  qed
  moreover have "byte_list ls" "byte_list r" using assms by (simp_all add: bs byte_list_def)
  moreover have "length r < 5" by (simp add: r)
  ultimately show ?thesis by (intro that [OF bs ls])
qed

lemma length_quanta: "length (concat (map b32_quantum cs)) mod 8 = 0"
  by (induction cs) (simp_all add: mod_add_left_eq)

lemma chunks_quanta: "chunks 8 (concat (map b32_quantum cs) @ e) = map b32_quantum cs @ chunks 8 e"
proof -
  show ?thesis using chunks_concat [of 8 "map b32_quantum cs"] length_quanta by (simp add: chunks_append)
qed

lemma accs_quanta:
  assumes "byte_list ls" "length ls mod 5 = 0"
  shows "those (map b32_acc (map b32_quantum (chunks 5 ls))) = Some (map (of_base 256) (chunks 5 ls))"
    "concat (map (to_base 256 5) (map (of_base 256) (chunks 5 ls))) = ls"
proof -
  have c: "byte_list c \<and> length c = 5" if "c \<in> set (chunks 5 ls)" for c
    using that assms chunks_length [of 5 ls c] chunks_subset [of 5 c ls] by (auto simp: byte_list_def)
  then have "\<forall>c\<in>set (chunks 5 ls). b32_acc (b32_quantum c) = Some (of_base 256 c)" using quantum_acc(1) by blast
  from those_map_Some [OF this]
  show "those (map b32_acc (map b32_quantum (chunks 5 ls))) = Some (map (of_base 256) (chunks 5 ls))" by (simp add: comp_def)
  have "map (to_base 256 5) (map (of_base 256) (chunks 5 ls)) = chunks 5 ls"
    using c quantum_acc(2) by (simp add: map_idI)
  then show "concat (map (to_base 256 5) (map (of_base 256) (chunks 5 ls))) = ls" by (simp add: concat_chunks)
qed

lemma those_append: "those xs = Some a \<Longrightarrow> those ys = Some b \<Longrightarrow> those (xs @ ys) = Some (a @ b)"
  by (induction xs arbitrary: a) (auto split: option.splits)

lemma rstrip_padding: "CHR ''='' \<notin> set e \<Longrightarrow> rstrip_by (\<lambda>c. c = CHR ''='') (e @ replicate k CHR ''='') = e"
proof -
  assume e: "CHR ''='' \<notin> set e"
  have "dropWhile (\<lambda>c. c = CHR ''='') (replicate k CHR ''='' @ rev e) = rev e"
    using e by (induction k) (cases "rev e"; auto simp: dropWhile_eq_self_iff)+
  then show ?thesis by (simp add: rstrip_by_def)
qed

lemma b32_text_plain: "b32_text e \<Longrightarrow> CHR ''='' \<notin> set e"
  using b32_char_plain by (fastforce simp: b32_text_def)

lemma b32decode_padded:
  assumes "b32_text e" "(length e + k) mod 8 = 0" "k \<in> {1, 3, 4, 6}"
    and "those (map b32_acc (chunks 8 e)) = Some (accs @ [acc])"
  shows "b32decode (e @ replicate k CHR ''='') =
    Inr (concat (map (to_base 256 5) accs) @ take ((43 - 5 * k) div 8) (to_base 256 5 (acc * 32 ^ k)))"
proof -
  have k: "k \<noteq> 0" "k \<in> {0, 1, 3, 4, 6}" using assms(3) by auto
  have ne: "to_base 256 5 acc \<noteq> []" using length_to_base [of 256 5 acc] by fastforce
  show ?thesis
    unfolding b32decode_def Let_def rstrip_padding [OF b32_text_plain [OF assms(1)]] assms(4)
    using assms(2) k ne by simp
qed

lemma b32decode_encoded:
  assumes "byte_list bs"
  shows "\<exists>e k. b32encode bs = e @ replicate k CHR ''='' \<and> b32_text e \<and> k = b32_pad (length bs mod 5) \<and>
    (length e + k) mod 8 = 0 \<and> b32decode (b32encode bs) = Inr bs"
  using assms
proof (rule b32encode_split)
  fix ls r
  assume bs: "bs = ls @ r" and ls: "length ls mod 5 = 0" "byte_list ls" and r: "length r < 5" "byte_list r"
  let ?E = "concat (map b32_quantum (chunks 5 ls))" and ?p = "b32_pad (length r)"
  let ?q = "b32_quantum (r @ replicate (5 - length r) 0)"
  assume enc: "b32encode bs = ?E @ (if r = [] then [] else take (8 - ?p) ?q @ replicate ?p CHR ''='')"
  have E: "b32_text ?E" "length ?E mod 8 = 0"
    using quantum_text length_quanta by (auto simp: b32_text_def)
  show ?thesis
  proof (cases "r = []")
    case True
    have "chunks 8 ?E = map b32_quantum (chunks 5 ls)" using chunks_quanta [of "chunks 5 ls" "[]"] by simp
    moreover have "rstrip_by (\<lambda>c. c = CHR ''='') ?E = ?E" using rstrip_padding [OF b32_text_plain [OF E(1)], of 0] by simp
    ultimately have "b32decode ?E = Inr ls"
      using accs_quanta [OF ls(2,1)] E(2) by (simp add: b32decode_def Let_def)
    moreover have "b32encode bs = ?E" using True by (simp add: enc)
    ultimately show ?thesis using E True by (intro exI [of _ ?E] exI [of _ 0]) (simp add: bs b32_pad_def ls(1))
  next
    case False
    let ?e = "take (8 - ?p) ?q"
    note pq = partial_quantum [OF r(2) _ r(1)]
    have p: "?p \<in> {1, 3, 4, 6}" "(43 - 5 * ?p) div 8 = length r" using pq(3,4) False by simp_all
    obtain acc where acc: "b32_acc ?e = Some acc" "acc * 32 ^ ?p = of_base 256 (r @ replicate (5 - length r) 0)"
      using pq(1) False by auto
    have e: "b32_text ?e" "length ?e = 8 - ?p" using quantum_text by (auto simp: b32_text_def dest: in_set_takeD)
    have plain: "b32_text (?E @ ?e)" using E(1) e(1) by (auto simp: b32_text_def)
    have len: "(length (?E @ ?e) + ?p) mod 8 = 0" using E(2) e(2) p(1) by (auto simp: mod_add_left_eq)
    have code: "b32encode bs = (?E @ ?e) @ replicate ?p CHR ''=''" using False by (simp add: enc)
    have "chunks 8 (?E @ ?e) = map b32_quantum (chunks 5 ls) @ [?e]"
      using chunks_quanta [of "chunks 5 ls" ?e] chunks_single [of ?e 8] e(2) p(1) by auto
    then have "those (map b32_acc (chunks 8 (?E @ ?e))) = Some (map (of_base 256) (chunks 5 ls) @ [acc])"
      using accs_quanta(1) [OF ls(2,1)] acc(1) by (simp add: those_append)
    from b32decode_padded [OF plain len p(1) this]
    have "b32decode (b32encode bs) = Inr (ls @ take (length r) (r @ replicate (5 - length r) 0))"
      unfolding code accs_quanta(2) [OF ls(2,1)] p(2) acc(2) using pq(2) False by simp
    then show ?thesis using code plain len p(1) by (intro exI [of _ "?E @ ?e"] exI [of _ ?p]) (simp add: bs mod_add_left_eq [of "length ls", symmetric] ls r)
  qed
qed


section \<open>Labels are read back\<close>

lemma b32_case: "d < 32 \<Longrightarrow> upper_char (lower_char (b32_char d)) = b32_char d"
  by (auto simp: upper_char_def lower_char_def b32_char_def is_ascii_lower_def Let_def)

lemma b32_lower_plain: "d < 32 \<Longrightarrow> \<not> py_isspace (lower_char (b32_char d))"
  by (auto simp: py_isspace_def lower_char_def b32_char_def Let_def)

lemma b32_text_lower: "b32_text e \<Longrightarrow> py_upper (py_lower e) = e \<and> py_strip (py_lower e) = py_lower e"
proof -
  assume e: "b32_text e"
  have "py_upper (py_lower e) = e"
    using e b32_case by (auto simp: py_upper_def py_lower_def b32_text_def intro!: map_idI)
  moreover have "py_strip (py_lower e) = py_lower e"
    by (rule strip_by_none) (use e b32_lower_plain in \<open>auto simp: py_lower_def b32_text_def\<close>)
  ultimately show ?thesis by simp
qed

lemma is_hex_lower_val: "is_hex_lower c \<Longrightarrow> \<exists>d<16. hex_digit_val c = Some d \<and> hex_char d = c"
proof -
  have "list_all (\<lambda>c. case hex_digit_val c of None \<Rightarrow> False | Some d \<Rightarrow> d < 16 \<and> hex_char d = c) ''0123456789abcdef''"
    by code_simp
  then show "is_hex_lower c \<Longrightarrow> ?thesis" unfolding list_all_iff is_hex_lower_def by (fastforce split: option.splits)
qed

lemma is_hex_lower_plain: "is_hex_lower c \<Longrightarrow> \<not> py_isspace c \<and> lower_char c = c \<and> \<not> is_control c"
proof -
  have "list_all (\<lambda>c. \<not> py_isspace c \<and> lower_char c = c \<and> \<not> is_control c) ''0123456789abcdef''" by code_simp
  then show "is_hex_lower c \<Longrightarrow> ?thesis" unfolding list_all_iff is_hex_lower_def by blast
qed

lemma from_hex_lower:
  "\<forall>c\<in>set s. is_hex_lower c \<Longrightarrow> length s = 2 * k \<Longrightarrow>
   \<exists>bs. from_hex s = Some bs \<and> byte_list bs \<and> length bs = k \<and> to_hex bs = s"
proof (induction k arbitrary: s)
  case (Suc k)
  then obtain c d s' where s: "s = c # d # s'" by (metis length_Suc_conv mult_Suc_right add_2_eq_Suc)
  with Suc.prems obtain bs where bs: "from_hex s' = Some bs" "byte_list bs" "length bs = k" "to_hex bs = s'"
    using Suc.IH [of s'] by auto
  obtain x y where xy: "x < 16" "hex_digit_val c = Some x" "hex_char x = c" "y < 16" "hex_digit_val d = Some y" "hex_char y = d"
    using is_hex_lower_val [of c] is_hex_lower_val [of d] Suc.prems(1) s by auto
  have blank: "\<not> ((of_char c :: nat) = 32 \<or> 9 \<le> (of_char c :: nat) \<and> (of_char c :: nat) \<le> 13)"
    using is_hex_lower_plain [of c] Suc.prems(1) s by (auto simp: py_isspace_def Let_def)
  have "from_hex s = Some ((16 * x + y) # bs)"
    by (simp only: s from_hex.simps(2) blank if_False list.case option.case prod.case xy(2,5) bs(1))
  then show ?case using xy bs s by (intro exI [of _ "(16 * x + y) # bs"]) (auto simp: byte_list_def to_hex_def)
qed (simp add: byte_list_def to_hex_def)

definition clientid_ok :: "string \<Rightarrow> bool" where
  "clientid_ok c = (length c \<in> {48, 64} \<and> list_all is_hex_lower c)"

lemma validate_clientid_ok: "validate_clientid raw = Inr c \<Longrightarrow> clientid_ok c"
  by (auto simp: validate_clientid_def clientid_ok_def CLIENTID_ALLOWED_HEX_LENGTHS_def Let_def list_ex_iff list_all_iff
      split: if_splits)

lemma clientid_ok_plain:
  "clientid_ok c \<Longrightarrow> py_strip c = c \<and> py_lower c = c \<and> c \<noteq> []"
  using is_hex_lower_plain by (auto simp: clientid_ok_def list_all_iff py_lower_def intro!: strip_by_none map_idI)

lemma clientid_ok_accepted: "clientid_ok c \<Longrightarrow> validate_clientid c = Inr c"
  using clientid_ok_plain [of c]
  by (auto simp: validate_clientid_def clientid_ok_def Let_def CLIENTID_MIN_HEX_LEN_def CLIENTID_ALLOWED_HEX_LENGTHS_def
      list_ex_iff list_all_iff)

lemma b32_lower_no_control: "d < 32 \<Longrightarrow> \<not> is_control (lower_char (b32_char d))"
  by (auto simp: is_control_def lower_char_def b32_char_def Let_def)

lemma clientid_label:
  assumes "clientid_ok c"
  obtains label where "clientid_dns_label c = Inr label" "length label \<le> 63" "clientid_from_dns_label label = Inr c"
    "\<forall>x\<in>set label. \<not> is_control x"
proof (cases "length c = 48")
  case True
  then have "clientid_from_dns_label c = Inr c"
    using assms clientid_ok_plain [OF assms]
    by (simp add: clientid_from_dns_label_def clientid_ok_def CLIENTID_ALLOWED_HEX_LENGTHS_def)
  moreover have "\<forall>x\<in>set c. \<not> is_control x" using assms is_hex_lower_plain by (auto simp: clientid_ok_def list_all_iff)
  ultimately show ?thesis using True by (intro that [of c]) (simp_all add: clientid_dns_label_def DNS_LABEL_MAX_LEN_def)
next
  case False
  then have c: "length c = 2 * 32" "\<forall>x\<in>set c. is_hex_lower x" using assms by (auto simp: clientid_ok_def list_all_iff)
  obtain bs where bs: "from_hex c = Some bs" "byte_list bs" "length bs = 32" "to_hex bs = c"
    using from_hex_lower [OF c(2,1)] by blast
  obtain e where e: "b32encode bs = e @ replicate 4 CHR ''=''" "b32_text e" "b32decode (b32encode bs) = Inr bs"
    using b32decode_encoded [OF bs(2)] bs(3) by (auto simp: b32_pad_def)
  have "length (bs @ replicate 3 0) mod 5 = 0" using bs(3) by simp
  then have "length (chunks 5 (bs @ replicate 3 0)) = 7" using length_chunks [of 5 "bs @ replicate 3 0"] bs(3) by simp
  then have "length (b32encode bs) = 56" using bs(3) by (simp add: b32encode_def length_concat comp_def sum_list_triv b32_pad_def)
  then have len: "length e = 52" by (simp add: e(1))
  have len_lower: "length (py_lower e) = 52" by (simp add: len py_lower_def)
  have label: "clientid_dns_label c = Inr (py_lower e)"
    using c(1) bs(1) rstrip_padding [OF b32_text_plain [OF e(2)]] by (simp add: clientid_dns_label_def DNS_LABEL_MAX_LEN_def e(1))
  have "clientid_from_dns_label (py_lower e) = Inr c"
    using b32_text_lower [OF e(2)] e(1,3) bs(4) len
    by (simp add: clientid_from_dns_label_def CLIENTID_ALLOWED_HEX_LENGTHS_def Let_def len_lower)
  moreover have "\<forall>x\<in>set (py_lower e). \<not> is_control x"
    using e(2) b32_lower_no_control by (auto simp: b32_text_def py_lower_def)
  ultimately show ?thesis using label len_lower by (intro that [of "py_lower e"]) simp_all
qed


text \<open>Different ClientIDs have different host names and different paths.\<close>

lemma sni_hostname_ok:
  assumes "clientid_ok c"
  obtains h where "clientid_sni_hostname c = Inr h" "h \<noteq> []" "\<forall>x\<in>set h. \<not> is_control x"
proof -
  have "list_all (\<lambda>x. \<not> is_control x) (''.'' @ CLIENTID_SNI_SUFFIX)" by code_simp
  then have "\<forall>x\<in>set (''.'' @ CLIENTID_SNI_SUFFIX). \<not> is_control x" unfolding list_all_iff .
  moreover obtain label where "clientid_dns_label c = Inr label" "\<forall>x\<in>set label. \<not> is_control x"
    by (rule clientid_label [OF assms])
  ultimately show ?thesis
    by (intro that [of "label @ ''.'' @ CLIENTID_SNI_SUFFIX"]) (auto simp: clientid_sni_hostname_def)
qed

lemma sni_hostname_inj:
  assumes "clientid_ok c" "clientid_ok d" "clientid_sni_hostname c = Inr h" "clientid_sni_hostname d = Inr h"
  shows "c = d"
proof -
  obtain l m where "clientid_dns_label c = Inr l" "clientid_from_dns_label l = Inr c"
    "clientid_dns_label d = Inr m" "clientid_from_dns_label m = Inr d"
    using clientid_label [OF assms(1)] clientid_label [OF assms(2)] by metis
  with assms(3,4) show ?thesis by (auto simp: clientid_sni_hostname_def)
qed

lemma doh_path_inj: "clientid_doh_path b c = clientid_doh_path b d \<Longrightarrow> c = d"
  by (simp add: clientid_doh_path_def)

section \<open>Identifiers are canonical\<close>

text \<open>What is stored for an identifier of each kind.\<close>

definition identifier_ok :: "identifier_kind \<Rightarrow> string \<Rightarrow> bool" where
  "identifier_ok kind value \<longleftrightarrow>
     kind = Kclientid \<and> clientid_ok value \<or>
     (\<exists>i. ip_ok i \<and> kind = ip_kind i \<and> value = str_ip i) \<or>
     (\<exists>net. net_ok net \<and> kind = net_kind net \<and> value = str_network net)"

lemma normalize_cases:
  assumes "normalize_identifier raw = Inr (kind, value)"
  obtains (clientid) "kind = Kclientid" "validate_clientid (py_strip raw) = Inr value"
  | (net) net where "ip_network (py_strip raw) = Some net" "kind = net_kind net" "value = str_network net"
  | (address) i where "ip_address (py_strip raw) = Some i" "kind = ip_kind i" "value = str_ip i"
  using assms by (cases "validate_clientid (py_strip raw)")
    (auto simp: normalize_identifier_def Let_def split: if_splits option.splits)

lemma normalize_identifier_ok: "normalize_identifier raw = Inr (kind, value) \<Longrightarrow> identifier_ok kind value"
  by (erule normalize_cases) (auto simp: identifier_ok_def dest: validate_clientid_ok ip_network_ok ip_address_ok)

lemma mark_not_hex: "c \<in> set s \<Longrightarrow> c = CHR '':'' \<or> c = dot \<or> c = CHR ''/'' \<Longrightarrow> \<not> list_all is_hex_any s"
proof -
  have "\<not> is_hex_any CHR '':''" "\<not> is_hex_any dot" "\<not> is_hex_any CHR ''/''" by (simp_all add: is_hex_any_def)
  then show "c \<in> set s \<Longrightarrow> c = CHR '':'' \<or> c = dot \<or> c = CHR ''/'' \<Longrightarrow> ?thesis" unfolding list_all_iff by blast
qed

lemma is_hex_lower_any: "is_hex_lower c \<Longrightarrow> is_hex_any c"
proof -
  have "set ''0123456789abcdef'' \<subseteq> set ''0123456789abcdefABCDEF''" by code_simp
  then show "is_hex_lower c \<Longrightarrow> ?thesis" unfolding is_hex_lower_def is_hex_any_def by blast
qed

lemma str_nat_no_space: "c \<in> set (str_nat n) \<Longrightarrow> \<not> py_isspace c"
  using str_nat_digits [of n] unfolding list_all_iff by (auto simp: is_ascii_digit_def py_isspace_def Let_def)

lemma str_ip_mark: "ip_ok i \<Longrightarrow> \<exists>c\<in>set (str_ip i). c = CHR '':'' \<or> c = dot"
proof (cases i)
  case (V4 n)
  then show ?thesis by (simp add: str_v4_def)
next
  case (V6 n sc)
  assume "ip_ok i"
  with V6 show ?thesis using str_v6_colon [of n sc] by auto
qed

lemma ip_ok_no_slash: "ip_ok i \<Longrightarrow> CHR ''/'' \<notin> set (str_ip i)"
  using str_v4_no_slash str_v6_no_slash by (cases i) (auto simp del: str_ip.simps(2,3))

lemma str_ip_head: "ip_ok i \<Longrightarrow> \<not> py_isspace (hd (str_ip i))"
proof (cases i)
  case (V4 n)
  assume "ip_ok i"
  have "hd (str_v4 n) \<in> set (str_nat (n div 16777216 mod 256))" by (simp add: str_v4_def)
  with V4 show ?thesis using str_nat_no_space by simp
next
  case (V6 n sc)
  assume "ip_ok i"
  with V6 have ne: "str_v6 n \<noteq> []" using str_v6_colon [of n None] by auto
  have "hd (str_v6 n) = CHR '':'' \<or> hex_group_char (hd (str_v6 n))" by (rule str_v6_chars [OF hd_in_set [OF ne]])
  with V6 ne show ?thesis
    by (cases sc) (auto simp: hex_group_char_def hex_digit_val_def py_isspace_def Let_def split: if_splits)
qed

lemma normalize_address:
  assumes "ip_ok i" "py_strip (str_ip i) = str_ip i"
  shows "normalize_identifier (str_ip i) = Inr (ip_kind i, str_ip i)"
proof -
  have "\<not> list_all is_hex_any (str_ip i)" "str_ip i \<noteq> []" using str_ip_mark [OF assms(1)] mark_not_hex by auto
  then show ?thesis using ip_ok_no_slash [OF assms(1)] ip_address_printed [OF assms(1)] assms(2)
    by (simp add: normalize_identifier_def)
qed

fun net_ip :: "network \<Rightarrow> ip" where
  "net_ip (Net4 a _) = V4 a"
| "net_ip (Net6 a sc _) = V6 a sc"

lemma str_network_ip: "str_network net = str_ip (net_ip net) @ ''/'' @ str_nat (prefixlen net)"
  by (cases net) simp_all

lemma net_ip_ok: "net_ok net \<Longrightarrow> ip_ok (net_ip net)"
  by (cases net) simp_all

lemma normalize_network:
  assumes "net_ok net"
  shows "normalize_identifier (str_network net) = Inr (net_kind net, str_network net)"
proof -
  let ?p = "str_nat (prefixlen net)"
  have "\<not> py_isspace (last ?p)" by (rule str_nat_no_space [OF last_in_set]) simp
  moreover have "str_ip (net_ip net) \<noteq> []" using str_ip_mark [OF net_ip_ok [OF assms]] by auto
  ultimately have "py_strip (str_network net) = str_network net"
    using str_ip_head [OF net_ip_ok [OF assms]] by (intro strip_by_id) (simp add: str_network_ip hd_append)
  moreover have "CHR ''/'' \<in> set (str_network net)" by (simp add: str_network_ip)
  moreover from this have "\<not> list_all is_hex_any (str_network net)" by (rule mark_not_hex) simp
  moreover have "str_network net \<noteq> []" by (simp add: str_network_ip)
  ultimately show ?thesis using ip_network_printed [OF assms] by (simp add: normalize_identifier_def Let_def)
qed

lemma normalize_clientid: "clientid_ok c \<Longrightarrow> normalize_identifier c = Inr (Kclientid, c)"
proof -
  assume c: "clientid_ok c"
  then have "list_all is_hex_any c" using is_hex_lower_any by (auto simp: clientid_ok_def list_all_iff)
  with c show ?thesis using clientid_ok_plain [OF c] clientid_ok_accepted [OF c]
    by (auto simp: normalize_identifier_def Let_def clientid_ok_def CLIENTID_MAX_HEX_LEN_def)
qed

text \<open>The scope of an accepted address ends like the input, which has no trailing blank.\<close>

lemma printed_address_stripped:
  assumes "ip_address (py_strip raw) = Some i"
  shows "py_strip (str_ip i) = str_ip i"
proof -
  have ok: "ip_ok i" by (rule ip_address_ok [OF assms])
  have "\<not> py_isspace (last (str_ip i))"
  proof (cases i)
    case (V4 n)
    have "last (str_v4 n) = last (str_nat (n mod 256))" by (simp add: str_v4_def)
    then show ?thesis using V4 str_nat_no_space [OF last_in_set [OF str_nat_ne]] by simp
  next
    case (V6 n sc)
    show ?thesis
    proof (cases sc)
      case None
      have ne: "str_v6 n \<noteq> []" using ok V6 str_v6_colon [of n None] by auto
      have "last (str_v6 n) = CHR '':'' \<or> hex_group_char (last (str_v6 n))" by (rule str_v6_chars [OF last_in_set [OF ne]])
      with V6 None show ?thesis
        by (auto simp: hex_group_char_def hex_digit_val_def py_isspace_def Let_def split: if_splits)
    next
      case (Some x)
      have p: "parse_v6 (py_strip raw) = Some (V6 n (Some x))" using assms V6 Some by (auto simp: ip_address_def split: option.splits)
      obtain addr f y where pc: "partition_char CHR ''%'' (py_strip raw) = (addr, f, y)" by (metis prod_cases3)
      have "f" "y = x" using p pc by (auto simp: parse_v6_def Let_def split: if_splits option.splits)
      then have "py_strip raw = addr @ CHR ''%'' # x" using partition_char_sound [OF pc] by simp
      moreover have "x \<noteq> []" using ok V6 Some by (simp add: scope_ok_def)
      ultimately have "last (py_strip raw) = last x" "py_strip raw \<noteq> []" by simp_all
      then show ?thesis using strip_by_ends(2) [of py_isspace raw] V6 Some \<open>x \<noteq> []\<close> by simp
    qed
  qed
  then show ?thesis using str_ip_head [OF ok] by (intro strip_by_id) simp
qed

section \<open>Properties\<close>

text \<open>
  the label form of a ClientID is lossless: every accepted ClientID has a DNS label of at most 63
  characters, and reading that label back gives the ClientID.
\<close>

theorem clientid_label_round_trip:
  assumes "validate_clientid raw = Inr c"
  shows "\<exists>label. clientid_dns_label c = Inr label \<and> length label \<le> DNS_LABEL_MAX_LEN \<and>
    clientid_from_dns_label label = Inr c"
  using clientid_label [OF validate_clientid_ok [OF assms]] by (metis DNS_LABEL_MAX_LEN_def)

theorem clientid_label_round_trip_witness:
  "\<exists>label. clientid_dns_label (replicate 64 CHR ''a'') = Inr label \<and> length label \<le> DNS_LABEL_MAX_LEN \<and>
    clientid_from_dns_label label = Inr (replicate 64 CHR ''a'')"
proof (rule clientid_label_round_trip)
  show "validate_clientid (replicate 64 CHR ''a'') = Inr (replicate 64 CHR ''a'')"
    by (rule clientid_ok_accepted) (simp add: clientid_ok_def is_hex_lower_def list_all_iff)
qed

text \<open>
  stored identifiers are canonical: normalising an identifier that was normalised before gives the
  same kind and text, for addresses, networks and ClientIDs.
\<close>

theorem normalize_identifier_idempotent:
  assumes "normalize_identifier raw = Inr (kind, value)"
  shows "normalize_identifier value = Inr (kind, value)"
  using assms
proof (cases rule: normalize_cases)
  case clientid
  then show ?thesis using normalize_clientid validate_clientid_ok by simp
next
  case (net n)
  then show ?thesis using normalize_network [OF ip_network_ok] by simp
next
  case (address i)
  then show ?thesis using normalize_address [OF ip_address_ok printed_address_stripped] by simp
qed

theorem normalize_identifier_idempotent_witness:
  "normalize_identifier (str_network (Net4 167772160 8)) = Inr (Kipv4_cidr, str_network (Net4 167772160 8))"
proof (rule normalize_identifier_idempotent)
  show "normalize_identifier (str_network (Net4 167772160 8)) = Inr (Kipv4_cidr, str_network (Net4 167772160 8))"
    using normalize_network [of "Net4 167772160 8"] by (simp add: clear_host_def)
qed

end
