(* ===== verification/Client_Access.thy ===== *)
theory Client_Access
  imports Client_Ids Local_Dns
begin

text \<open>
  Persistent clients and the access policy (\<^verbatim>\<open>app/clients.py\<close>): the tables of clients, identifiers and access
  rules, the operations on them, the copy of legacy aliases at every start, and the evaluation of the policy
  for a request.  An operation returns the database and its result: a failure undoes its own statements but
  keeps what \<^verbatim>\<open>init_db\<close> committed before.  Shown: identifiers stay canonical, unique and attached to existing
  clients; a deleted client is not recreated from an alias; a deny rule beats an allow rule, and both beat the
  default.
\<close>

section \<open>Tables\<close>

datatype access_action = Allow | Deny

datatype access_kind = ByIdentifier identifier_kind | ByClient

record client_row =
  cl_id :: nat
  cl_name :: string
  cl_description :: string
  cl_enabled :: bool
  cl_created_at :: string
  cl_updated_at :: string

record identifier_row =
  ci_id :: nat
  ci_client :: nat
  ci_kind :: identifier_kind
  ci_value :: string
  ci_created_at :: string

record access_rule =
  ar_id :: nat
  ar_action :: access_action
  ar_kind :: access_kind
  ar_value :: "string option"
  ar_client :: "nat option"
  ar_created_at :: string

text \<open>\<open>ac_settings\<close> is the row of \<^verbatim>\<open>access_settings\<close>, \<open>ac_aliases\<close> the legacy table where it exists.\<close>

record access_db =
  ac_clients :: "client_row list"
  ac_identifiers :: "identifier_row list"
  ac_rules :: "access_rule list"
  ac_settings :: "(access_action \<times> string) option"
  ac_aliases :: "alias_row list option"

interpretation client_table: id_table cl_id "\<lambda>i r. r\<lparr>cl_id := i\<rparr>"
  by unfold_locales simp

interpretation identifier_table: id_table ci_id "\<lambda>i r. r\<lparr>ci_id := i\<rparr>"
  by unfold_locales simp

interpretation access_rule_table: id_table ar_id "\<lambda>i r. r\<lparr>ar_id := i\<rparr>"
  by unfold_locales simp

definition quoted :: "string \<Rightarrow> string" where
  "quoted s = [CHR 0x27] @ s @ [CHR 0x27]"

definition kind_text :: "identifier_kind \<Rightarrow> string" where
  "kind_text k = (case k of Kipv4 \<Rightarrow> ''ipv4'' | Kipv4_cidr \<Rightarrow> ''ipv4_cidr'' | Kipv6 \<Rightarrow> ''ipv6''
     | Kipv6_cidr \<Rightarrow> ''ipv6_cidr'' | Kclientid \<Rightarrow> ''clientid'')"

definition rule_kind_text :: "access_kind \<Rightarrow> string" where
  "rule_kind_text k = (case k of ByIdentifier i \<Rightarrow> kind_text i | ByClient \<Rightarrow> ''client'')"

definition action_text :: "access_action \<Rightarrow> string" where
  "action_text a = (case a of Allow \<Rightarrow> ''allow'' | Deny \<Rightarrow> ''deny'')"

definition read_action :: "string \<Rightarrow> access_action option" where
  "read_action s = (if s = ''allow'' then Some Allow else if s = ''deny'' then Some Deny else None)"

section \<open>Schema and legacy aliases\<close>

definition insert_client :: "client_row \<Rightarrow> access_db \<Rightarrow> access_db \<times> nat" where
  "insert_client c db =
     (db\<lparr>ac_clients := insert_row cl_id (\<lambda>i r. r\<lparr>cl_id := i\<rparr>) c (ac_clients db)\<rparr>, next_rowid cl_id (ac_clients db))"

definition has_identifier :: "identifier_kind \<Rightarrow> string \<Rightarrow> access_db \<Rightarrow> bool" where
  "has_identifier k v db = list_ex (\<lambda>r. ci_kind r = k \<and> ci_value r = v) (ac_identifiers db)"

definition put_identifier :: "nat \<Rightarrow> identifier_kind \<Rightarrow> string \<Rightarrow> string \<Rightarrow> access_db \<Rightarrow> access_db \<times> nat" where
  "put_identifier client k v ts db =
     (db\<lparr>ac_identifiers := insert_row ci_id (\<lambda>i r. r\<lparr>ci_id := i\<rparr>)
           \<lparr>ci_id = 0, ci_client = client, ci_kind = k, ci_value = v, ci_created_at = ts\<rparr> (ac_identifiers db)\<rparr>,
      next_rowid ci_id (ac_identifiers db))"

definition migrate_alias :: "string \<Rightarrow> alias_row \<Rightarrow> access_db \<times> nat \<Rightarrow> access_db \<times> nat" where
  "migrate_alias ts row st =
     (case (st, normalize_identifier (al_cidr row)) of
        ((db, migrated), Inl _) \<Rightarrow> (db, migrated)
      | ((db, migrated), Inr (k, v)) \<Rightarrow>
          if has_identifier k v db then (db, migrated)
          else
            let created = (if al_created_at row \<noteq> [] then al_created_at row else ts);
                updated = (if al_updated_at row \<noteq> [] then al_updated_at row else created);
                (db, i) = insert_client \<lparr>cl_id = 0, cl_name = (if al_display_name row \<noteq> [] then al_display_name row else v),
                  cl_description = al_description row, cl_enabled = True, cl_created_at = created, cl_updated_at = updated\<rparr> db
            in (fst (put_identifier i k v created db), Suc migrated))"

definition migrate_client_aliases :: "string \<Rightarrow> access_db \<Rightarrow> access_db \<times> nat" where
  "migrate_client_aliases ts db =
     (case ac_aliases db of None \<Rightarrow> (db, 0) | Some rows \<Rightarrow> fold (migrate_alias ts) rows (db, 0))"

definition access_init_db :: "string \<Rightarrow> access_db \<Rightarrow> access_db" where
  "access_init_db ts db =
     fst (migrate_client_aliases ts
       (case ac_settings db of None \<Rightarrow> db\<lparr>ac_settings := Some (Allow, ts)\<rparr> | Some _ \<Rightarrow> db))"

definition legacy_alias_cidr :: "identifier_kind \<Rightarrow> string \<Rightarrow> string option" where
  "legacy_alias_cidr k v = (if k = Kclientid then None else map_option str_network (ip_network v))"

definition delete_legacy_aliases_for_identifiers :: "identifier_row list \<Rightarrow> access_db \<Rightarrow> access_db" where
  "delete_legacy_aliases_for_identifiers ids db =
     (let cidrs = List.map_filter (\<lambda>r. legacy_alias_cidr (ci_kind r) (ci_value r)) ids in
      db\<lparr>ac_aliases := map_option (delete_where (\<lambda>a. al_cidr a \<in> set cidrs)) (ac_aliases db)\<rparr>)"

section \<open>Clients\<close>

type_synonym 'a outcome = "access_db \<times> 'a result"

definition check_client_texts :: "string \<Rightarrow> string \<Rightarrow> string result" where
  "check_client_texts name description =
     (let n = py_strip name in
      if n = [] then Inl ''client name is required''
      else if length n > 200 then Inl ''client name is too long (200 characters max)''
      else if length description > 2000 then Inl ''description is too long (2000 characters max)''
      else Inr n)"

fun normalize_all :: "string list \<Rightarrow> (identifier_kind \<times> string) list result" where
  "normalize_all [] = Inr []"
| "normalize_all (v # vs) =
     (case normalize_identifier v of
        Inl e \<Rightarrow> Inl e
      | Inr x \<Rightarrow> (case normalize_all vs of Inl e \<Rightarrow> Inl e | Inr xs \<Rightarrow> Inr (x # xs)))"

definition insert_identifier :: "nat \<Rightarrow> identifier_kind \<Rightarrow> string \<Rightarrow> string \<Rightarrow> access_db \<Rightarrow> (access_db \<times> nat) result" where
  "insert_identifier client k v ts db =
     (if has_identifier k v db
      then Inl (''identifier '' @ quoted v @ '' is already assigned to another client'')
      else Inr (put_identifier client k v ts db))"

fun insert_identifiers :: "nat \<Rightarrow> string \<Rightarrow> (identifier_kind \<times> string) list \<Rightarrow> access_db \<Rightarrow> access_db result" where
  "insert_identifiers client ts [] db = Inr db"
| "insert_identifiers client ts ((k, v) # xs) db =
     (case insert_identifier client k v ts db of
        Inl e \<Rightarrow> Inl e
      | Inr (db, _) \<Rightarrow> insert_identifiers client ts xs db)"

definition create_client :: "string \<Rightarrow> string \<Rightarrow> string \<Rightarrow> string list \<Rightarrow> bool \<Rightarrow> access_db \<Rightarrow> nat outcome" where
  "create_client ts name description identifiers en db0 =
     (case check_client_texts name description of
        Inl e \<Rightarrow> (db0, Inl e)
      | Inr n \<Rightarrow>
     (case normalize_all identifiers of
        Inl e \<Rightarrow> (db0, Inl e)
      | Inr xs \<Rightarrow>
          let db = access_init_db ts db0;
              (db1, i) = insert_client \<lparr>cl_id = 0, cl_name = n, cl_description = description, cl_enabled = en,
                 cl_created_at = ts, cl_updated_at = ts\<rparr> db
          in case insert_identifiers i ts xs db1 of Inl e \<Rightarrow> (db, Inl e) | Inr db2 \<Rightarrow> (db2, Inr i)))"

definition change_client :: "nat \<Rightarrow> (client_row \<Rightarrow> client_row) \<Rightarrow> access_db \<Rightarrow> unit outcome" where
  "change_client i f db =
     (if row_by_id cl_id i (ac_clients db) = None then (db, Inl ''client not found'')
      else (db\<lparr>ac_clients := update_where (\<lambda>r. cl_id r = i) f (ac_clients db)\<rparr>, Inr ()))"

definition update_client :: "string \<Rightarrow> nat \<Rightarrow> string \<Rightarrow> string \<Rightarrow> bool \<Rightarrow> access_db \<Rightarrow> unit outcome" where
  "update_client ts i name description en db0 =
     (case check_client_texts name description of
        Inl e \<Rightarrow> (db0, Inl e)
      | Inr n \<Rightarrow>
          change_client i (\<lambda>r. r\<lparr>cl_name := n, cl_description := description, cl_enabled := en, cl_updated_at := ts\<rparr>)
            (access_init_db ts db0))"

definition set_client_enabled :: "string \<Rightarrow> nat \<Rightarrow> bool \<Rightarrow> access_db \<Rightarrow> unit outcome" where
  "set_client_enabled ts i en db0 =
     change_client i (\<lambda>r. r\<lparr>cl_enabled := en, cl_updated_at := ts\<rparr>) (access_init_db ts db0)"

definition delete_client :: "string \<Rightarrow> nat \<Rightarrow> access_db \<Rightarrow> unit outcome" where
  "delete_client ts i db0 =
     (let db = access_init_db ts db0;
          ids = filter (\<lambda>r. ci_client r = i) (ac_identifiers db);
          db1 = delete_legacy_aliases_for_identifiers ids db;
          db2 = db1\<lparr>ac_rules := delete_where (\<lambda>r. ar_kind r = ByClient \<and> ar_client r = Some i) (ac_rules db1),
                    ac_identifiers := delete_where (\<lambda>r. ci_client r = i) (ac_identifiers db1)\<rparr>
      in if row_by_id cl_id i (ac_clients db) = None then (db, Inl ''client not found'')
         else (db2\<lparr>ac_clients := delete_where (\<lambda>r. cl_id r = i) (ac_clients db2)\<rparr>, Inr ()))"

definition touch_client :: "string \<Rightarrow> nat \<Rightarrow> access_db \<Rightarrow> access_db" where
  "touch_client ts i db =
     db\<lparr>ac_clients := update_where (\<lambda>r. cl_id r = i) (\<lambda>r. r\<lparr>cl_updated_at := ts\<rparr>) (ac_clients db)\<rparr>"

definition add_identifier :: "string \<Rightarrow> nat \<Rightarrow> string \<Rightarrow> access_db \<Rightarrow> nat outcome" where
  "add_identifier ts i raw_value db0 =
     (case normalize_identifier raw_value of
        Inl e \<Rightarrow> (db0, Inl e)
      | Inr (k, v) \<Rightarrow>
          let db = access_init_db ts db0 in
          if row_by_id cl_id i (ac_clients db) = None then (db, Inl ''client not found'')
          else case insert_identifier i k v ts db of
            Inl e \<Rightarrow> (db, Inl e)
          | Inr (db1, n) \<Rightarrow> (touch_client ts i db1, Inr n))"

definition remove_identifier :: "string \<Rightarrow> nat \<Rightarrow> access_db \<Rightarrow> unit outcome" where
  "remove_identifier ts n db0 =
     (let db = access_init_db ts db0 in
      case row_by_id ci_id n (ac_identifiers db) of
        None \<Rightarrow> (db, Inl ''identifier not found'')
      | Some row \<Rightarrow>
          let db1 = delete_legacy_aliases_for_identifiers [row] db;
              db2 = db1\<lparr>ac_identifiers := delete_where (\<lambda>r. ci_id r = n) (ac_identifiers db1)\<rparr>
          in (touch_client ts (ci_client row) db2, Inr ()))"

section \<open>Rules\<close>

definition get_default_policy :: "string \<Rightarrow> access_db \<Rightarrow> access_db \<times> access_action" where
  "get_default_policy ts db0 =
     (let db = access_init_db ts db0 in (db, case ac_settings db of Some (p, _) \<Rightarrow> p | None \<Rightarrow> Allow))"

definition set_default_policy :: "string \<Rightarrow> string \<Rightarrow> access_db \<Rightarrow> unit outcome" where
  "set_default_policy ts policy db0 =
     (case read_action policy of
        None \<Rightarrow> (db0, Inl (''default policy must be '' @ quoted ''allow'' @ '' or '' @ quoted ''deny''))
      | Some p \<Rightarrow>
          let db = access_init_db ts db0 in
          (db\<lparr>ac_settings := map_option (\<lambda>_. (p, ts)) (ac_settings db)\<rparr>, Inr ()))"

definition same_rule :: "access_action \<Rightarrow> access_kind \<Rightarrow> string option \<Rightarrow> nat option \<Rightarrow> access_rule \<Rightarrow> bool" where
  "same_rule a k v c r = (ar_action r = a \<and> ar_kind r = k \<and> ar_value r = v \<and> ar_client r = c)"

text \<open>Kind, stored value and client of a new rule.\<close>

definition rule_target :: "string \<Rightarrow> string option \<Rightarrow> nat option \<Rightarrow> access_db \<Rightarrow>
    (access_kind \<times> string option \<times> nat option) result" where
  "rule_target kind value client db =
     (let given = (case value of None \<Rightarrow> [] | Some v \<Rightarrow> v) in
      if kind = ''client'' then
        (case client of
           None \<Rightarrow> Inl (''a persistent client must be selected for a '' @ quoted ''client'' @ '' rule'')
         | Some i \<Rightarrow>
             if i = 0 then Inl (''a persistent client must be selected for a '' @ quoted ''client'' @ '' rule'')
             else if row_by_id cl_id i (ac_clients db) = None then Inl ''client not found''
             else Inr (ByClient, None, Some i))
      else if kind = ''clientid'' then map_sum id (\<lambda>v. (ByIdentifier Kclientid, Some v, None)) (validate_clientid given)
      else if kind \<in> {''ipv4'', ''ipv4_cidr'', ''ipv6'', ''ipv6_cidr''} then
        map_sum id (\<lambda>(k, v). (ByIdentifier k, Some v, None)) (normalize_identifier given)
      else Inl (''unsupported rule kind '' @ quoted kind))"

definition add_access_rule :: "string \<Rightarrow> string \<Rightarrow> string \<Rightarrow> string option \<Rightarrow> nat option \<Rightarrow> access_db \<Rightarrow> nat outcome" where
  "add_access_rule ts action kind value client db0 =
     (case read_action action of
        None \<Rightarrow> (db0, Inl (''action must be '' @ quoted ''allow'' @ '' or '' @ quoted ''deny''))
      | Some a \<Rightarrow>
          let db = access_init_db ts db0 in
          case rule_target kind value client db of
            Inl e \<Rightarrow> (db, Inl e)
          | Inr (k, v, c) \<Rightarrow>
              if list_ex (same_rule a k v c) (ac_rules db) then (db, Inl ''this rule already exists'')
              else (db\<lparr>ac_rules := insert_row ar_id (\<lambda>i r. r\<lparr>ar_id := i\<rparr>)
                      \<lparr>ar_id = 0, ar_action = a, ar_kind = k, ar_value = v, ar_client = c, ar_created_at = ts\<rparr> (ac_rules db)\<rparr>,
                    Inr (next_rowid ar_id (ac_rules db))))"

definition remove_access_rule :: "string \<Rightarrow> nat \<Rightarrow> access_db \<Rightarrow> unit outcome" where
  "remove_access_rule ts i db0 =
     (let db = access_init_db ts db0 in
      if row_by_id ar_id i (ac_rules db) = None then (db, Inl ''rule not found'')
      else (db\<lparr>ac_rules := delete_where (\<lambda>r. ar_id r = i) (ac_rules db)\<rparr>, Inr ()))"

section \<open>Views\<close>

record client_view = client_row +
  cv_identifiers :: "identifier_row list"

definition view_client :: "access_db \<Rightarrow> client_row \<Rightarrow> client_view" where
  "view_client db c = client_row.extend c (client_view.fields
     (sort_key (\<lambda>r. (kind_text (ci_kind r), ci_value r)) (filter (\<lambda>r. ci_client r = cl_id c) (ac_identifiers db))))"

text \<open>\<^verbatim>\<open>COLLATE NOCASE\<close> folds the ASCII letters.\<close>

definition nocase :: "string \<Rightarrow> string" where
  "nocase s = map (\<lambda>c. if is_ascii c then lower_char c else c) s"

definition list_clients :: "string \<Rightarrow> access_db \<Rightarrow> access_db \<times> client_view list" where
  "list_clients ts db0 =
     (let db = access_init_db ts db0 in (db, map (view_client db) (sort_key (\<lambda>c. nocase (cl_name c)) (ac_clients db))))"

definition get_client :: "string \<Rightarrow> nat \<Rightarrow> access_db \<Rightarrow> access_db \<times> client_view option" where
  "get_client ts i db0 =
     (let db = access_init_db ts db0 in (db, map_option (view_client db) (row_by_id cl_id i (ac_clients db))))"

definition list_access_rules :: "string \<Rightarrow> access_db \<Rightarrow> access_db \<times> access_rule list" where
  "list_access_rules ts db0 =
     (let db = access_init_db ts db0 in
      (db, sort_key (\<lambda>r. (action_text (ar_action r), rule_kind_text (ar_kind r), ar_value r \<noteq> None,
              case ar_value r of None \<Rightarrow> [] | Some v \<Rightarrow> v)) (ac_rules db)))"

definition clients_by_id :: "client_view list \<Rightarrow> nat \<rightharpoonup> client_view" where
  "clients_by_id cs = map_of (map (\<lambda>c. (cl_id c, c)) cs)"

section \<open>Evaluation\<close>

record access_decision =
  ad_allowed :: bool
  ad_reason :: string

definition rule_matches_ip :: "identifier_kind \<Rightarrow> string \<Rightarrow> ip \<Rightarrow> bool" where
  "rule_matches_ip kind value address =
     (if kind = Kipv4 \<or> kind = Kipv6 then ip_address value = Some address
      else if kind = Kipv4_cidr \<or> kind = Kipv6_cidr then
        (case ip_network value of None \<Rightarrow> False | Some net \<Rightarrow> in_network address net)
      else False)"

record effective_rule =
  er_action :: access_action
  er_kind :: identifier_kind
  er_value :: string
  er_source :: string

definition expand_rule :: "(nat \<rightharpoonup> client_view) \<Rightarrow> access_rule \<Rightarrow> effective_rule list" where
  "expand_rule by_id r =
     (case ar_kind r of
        ByClient \<Rightarrow>
          (case Option.bind (ar_client r) by_id of
             None \<Rightarrow> []
           | Some c \<Rightarrow>
               if \<not> cl_enabled c then []
               else map (\<lambda>i. \<lparr>er_action = ar_action r, er_kind = ci_kind i, er_value = ci_value i,
                      er_source = ''client:'' @ cl_name c\<rparr>) (cv_identifiers c))
      | ByIdentifier k \<Rightarrow>
          [\<lparr>er_action = ar_action r, er_kind = k, er_value = (case ar_value r of None \<Rightarrow> [] | Some v \<Rightarrow> v),
            er_source = ''rule:'' @ kind_text k\<rparr>])"

definition expand_rules :: "access_rule list \<Rightarrow> (nat \<rightharpoonup> client_view) \<Rightarrow> effective_rule list" where
  "expand_rules rules by_id = concat (map (expand_rule by_id) rules)"

definition effective_match :: "ip option \<Rightarrow> string option \<Rightarrow> effective_rule \<Rightarrow> bool" where
  "effective_match address clientid r =
     (if er_kind r = Kclientid then clientid \<noteq> None \<and> clientid \<noteq> Some [] \<and> clientid = Some (er_value r)
      else case address of None \<Rightarrow> False | Some a \<Rightarrow> rule_matches_ip (er_kind r) (er_value r) a)"

definition decision_text :: "string \<Rightarrow> effective_rule \<Rightarrow> string" where
  "decision_text verb r = verb @ '' by '' @ er_source r @ '' ('' @ kind_text (er_kind r) @ ''='' @ er_value r @ '')''"

definition evaluate_access ::
  "string option \<Rightarrow> string option \<Rightarrow> access_rule list \<Rightarrow> (nat \<rightharpoonup> client_view) \<Rightarrow> access_action \<Rightarrow> access_decision" where
  "evaluate_access remote_ip clientid rules by_id policy =
     (let address = (case remote_ip of None \<Rightarrow> None | Some s \<Rightarrow> if s = [] then None else ip_address s);
          matches = filter (effective_match address clientid) (expand_rules rules by_id);
          deny_matches = filter (\<lambda>r. er_action r = Deny) matches;
          allow_matches = filter (\<lambda>r. er_action r = Allow) matches
      in case deny_matches of
           m # _ \<Rightarrow> \<lparr>ad_allowed = False, ad_reason = decision_text ''denied'' m\<rparr>
         | [] \<Rightarrow>
             (case allow_matches of
                m # _ \<Rightarrow> \<lparr>ad_allowed = True, ad_reason = decision_text ''allowed'' m\<rparr>
              | [] \<Rightarrow> \<lparr>ad_allowed = (policy = Allow), ad_reason = ''default policy ('' @ action_text policy @ '')''\<rparr>))"

definition effective_access_for_client ::
  "client_view \<Rightarrow> access_rule list \<Rightarrow> (nat \<rightharpoonup> client_view) \<Rightarrow> access_action \<Rightarrow> (identifier_row \<times> access_decision) list result" where
  "effective_access_for_client c rules by_id policy =
     (if list_ex (\<lambda>i. ci_kind i \<in> {Kipv4_cidr, Kipv6_cidr} \<and> ip_network (ci_value i) = None) (cv_identifiers c)
      then Inl ''does not appear to be an IPv4 or IPv6 network''
      else Inr (map (\<lambda>i.
        let ip = (if ci_kind i \<in> {Kipv4, Kipv6} then Some (ci_value i)
                  else if ci_kind i \<in> {Kipv4_cidr, Kipv6_cidr} then map_option (str_ip \<circ> net_ip) (ip_network (ci_value i))
                  else None);
            cid = (if ci_kind i = Kclientid then Some (ci_value i) else None)
        in (i, if \<not> cl_enabled c then \<lparr>ad_allowed = False, ad_reason = ''client disabled''\<rparr>
               else evaluate_access ip cid rules by_id policy)) (cv_identifiers c)))"

text \<open>The most specific network of an enabled client; the earlier row on a tie.\<close>

definition better_name :: "ip \<Rightarrow> string \<times> string \<Rightarrow> (nat \<times> string) option \<Rightarrow> (nat \<times> string) option" where
  "better_name address row best =
     (case ip_network (fst row) of
        None \<Rightarrow> best
      | Some net \<Rightarrow>
          if in_network address net \<and> (case best of None \<Rightarrow> True | Some (p, _) \<Rightarrow> prefixlen net > p)
          then Some (prefixlen net, snd row) else best)"

definition named_networks :: "access_db \<Rightarrow> (string \<times> string) list" where
  "named_networks db =
     concat (map (\<lambda>r. case row_by_id cl_id (ci_client r) (ac_clients db) of
        None \<Rightarrow> []
      | Some c \<Rightarrow> if cl_enabled c \<and> ci_kind r \<noteq> Kclientid then [(ci_value r, cl_name c)] else []) (ac_identifiers db))"

definition resolve_client_name :: "string \<Rightarrow> string \<Rightarrow> string \<Rightarrow> local_db \<Rightarrow> access_db \<Rightarrow> access_db \<times> string option" where
  "resolve_client_name ts sip raw_client ldb db0 =
     (case ip_address raw_client of
        None \<Rightarrow> (db0, None)
      | Some address \<Rightarrow>
          let db = access_init_db ts db0 in
          (db, case fold (better_name address) (named_networks db) None of
                 Some (_, name) \<Rightarrow> Some name
               | None \<Rightarrow> (case alias_for_client sip raw_client ldb of Inl _ \<Rightarrow> None | Inr r \<Rightarrow> r)))"

section \<open>The table invariant\<close>

definition client_ids :: "access_db \<Rightarrow> nat set" where
  "client_ids db = cl_id ` set (ac_clients db)"

abbreviation identifier_key :: "identifier_row \<Rightarrow> identifier_kind \<times> string" where
  "identifier_key r \<equiv> (ci_kind r, ci_value r)"

abbreviation rule_key :: "access_rule \<Rightarrow> access_action \<times> access_kind \<times> string option \<times> nat option" where
  "rule_key r \<equiv> (ar_action r, ar_kind r, ar_value r, ar_client r)"

definition access_rule_ok :: "nat set \<Rightarrow> access_rule \<Rightarrow> bool" where
  "access_rule_ok ids r =
     (case ar_kind r of
        ByClient \<Rightarrow> ar_value r = None \<and> (\<exists>i\<in>ids. ar_client r = Some i)
      | ByIdentifier k \<Rightarrow> ar_client r = None \<and> (\<exists>v. ar_value r = Some v \<and> identifier_ok k v))"

definition identifiers_ok :: "nat set \<Rightarrow> identifier_row list \<Rightarrow> bool" where
  "identifiers_ok ids t \<longleftrightarrow>
     rowids_ok ci_id t \<and> distinct (map identifier_key t) \<and>
     (\<forall>r\<in>set t. identifier_ok (ci_kind r) (ci_value r) \<and> ci_client r \<in> ids)"

definition access_rules_ok :: "nat set \<Rightarrow> access_rule list \<Rightarrow> bool" where
  "access_rules_ok ids t \<longleftrightarrow>
     rowids_ok ar_id t \<and> distinct (map rule_key t) \<and> (\<forall>r\<in>set t. access_rule_ok ids r)"

definition access_ok :: "access_db \<Rightarrow> bool" where
  "access_ok db \<longleftrightarrow>
     rowids_ok cl_id (ac_clients db) \<and> identifiers_ok (client_ids db) (ac_identifiers db) \<and>
     access_rules_ok (client_ids db) (ac_rules db)"

lemma identifiers_ok_mono: "identifiers_ok ids t \<Longrightarrow> ids \<subseteq> ids' \<Longrightarrow> identifiers_ok ids' t"
  by (auto simp: identifiers_ok_def)

lemma access_rules_ok_mono: "access_rules_ok ids t \<Longrightarrow> ids \<subseteq> ids' \<Longrightarrow> access_rules_ok ids' t"
  by (fastforce simp: access_rules_ok_def access_rule_ok_def split: access_kind.splits)

lemma insert_client_ok:
  assumes "access_ok db" "insert_client c db = (db', i)"
  shows "access_ok db' \<and> i \<in> client_ids db' \<and> ac_identifiers db' = ac_identifiers db \<and> ac_aliases db' = ac_aliases db"
proof -
  have db': "db' = db\<lparr>ac_clients := ac_clients db @ [c\<lparr>cl_id := i\<rparr>]\<rparr>" "i = next_rowid cl_id (ac_clients db)"
    using assms(2) by (auto simp: insert_client_def insert_row_def)
  then have ids: "client_ids db' = insert i (client_ids db)" by (simp add: client_ids_def)
  have "rowids_ok cl_id (ac_clients db')"
    using assms(1) client_table.insert_keeps_ids [of "ac_clients db" c] by (simp add: access_ok_def db' insert_row_def)
  then show ?thesis using assms(1) identifiers_ok_mono access_rules_ok_mono
    by (auto simp: access_ok_def ids) (auto simp: db' intro: identifiers_ok_mono access_rules_ok_mono)
qed

lemma has_identifier_iff: "has_identifier k v db \<longleftrightarrow> (k, v) \<in> identifier_key ` set (ac_identifiers db)"
  by (force simp: has_identifier_def list_ex_iff)

lemma put_identifier_ok:
  assumes "access_ok db" "\<not> has_identifier k v db" "identifier_ok k v" "i \<in> client_ids db"
  shows "access_ok (fst (put_identifier i k v ts db))"
proof -
  let ?r = "\<lparr>ci_id = 0, ci_client = i, ci_kind = k, ci_value = v, ci_created_at = ts\<rparr>"
  have "rowids_ok ci_id (insert_row ci_id (\<lambda>i r. r\<lparr>ci_id := i\<rparr>) ?r (ac_identifiers db))"
    using assms(1) by (intro identifier_table.insert_keeps_ids) (simp add: access_ok_def identifiers_ok_def)
  then show ?thesis using assms
    by (auto simp: access_ok_def identifiers_ok_def put_identifier_def client_ids_def has_identifier_iff insert_row_def)
qed

lemma put_identifier_simps [simp]:
  "ac_clients (fst (put_identifier i k v ts db)) = ac_clients db"
  "ac_aliases (fst (put_identifier i k v ts db)) = ac_aliases db"
  "ac_settings (fst (put_identifier i k v ts db)) = ac_settings db"
  "identifier_key ` set (ac_identifiers (fst (put_identifier i k v ts db))) =
     insert (k, v) (identifier_key ` set (ac_identifiers db))"
  by (auto simp: put_identifier_def insert_row_def)

lemma migrate_alias_ok:
  assumes "access_ok db" "migrate_alias ts row (db, n) = (db', n')"
  shows "access_ok db' \<and> ac_aliases db' = ac_aliases db \<and>
    identifier_key ` set (ac_identifiers db) \<subseteq> identifier_key ` set (ac_identifiers db') \<and>
    (\<forall>k v. normalize_identifier (al_cidr row) = Inr (k, v) \<longrightarrow> has_identifier k v db')"
proof (cases "normalize_identifier (al_cidr row)")
  case (Inl e)
  then show ?thesis using assms by (simp add: migrate_alias_def)
next
  case (Inr kv)
  obtain k v where kv: "kv = (k, v)" by (cases kv)
  show ?thesis
  proof (cases "has_identifier k v db")
    case True
    then show ?thesis using assms Inr kv by (simp add: migrate_alias_def)
  next
    case False
    then obtain c created db1 i where one: "insert_client c db = (db1, i)" "db' = fst (put_identifier i k v created db1)"
      using assms(2) Inr kv by (auto simp: migrate_alias_def Let_def split: prod.splits)
    note ins = insert_client_ok [OF assms(1) one(1)]
    have "identifier_ok k v" using normalize_identifier_ok Inr kv by simp
    then have "access_ok db'" unfolding one(2) using ins False
      by (intro put_identifier_ok) (simp_all add: has_identifier_iff)
    then show ?thesis using ins Inr kv by (auto simp: one(2) has_identifier_iff)
  qed
qed

lemma migrate_aliases_ok:
  "access_ok db \<Longrightarrow> fold (migrate_alias ts) rows (db, n) = (db', n') \<Longrightarrow>
   access_ok db' \<and> ac_aliases db' = ac_aliases db \<and>
   identifier_key ` set (ac_identifiers db) \<subseteq> identifier_key ` set (ac_identifiers db') \<and>
   (\<forall>row\<in>set rows. \<forall>k v. normalize_identifier (al_cidr row) = Inr (k, v) \<longrightarrow> has_identifier k v db')"
proof (induction rows arbitrary: db n)
  case (Cons row rows)
  obtain db1 n1 where one: "migrate_alias ts row (db, n) = (db1, n1)" by (cases "migrate_alias ts row (db, n)")
  note step = migrate_alias_ok [OF Cons.prems(1) one]
  have "fold (migrate_alias ts) rows (db1, n1) = (db', n')" using Cons.prems(2) one by simp
  from Cons.IH [OF _ this] step show ?case by (fastforce simp: has_identifier_iff)
qed simp

lemma access_ok_settings [simp]: "access_ok (db\<lparr>ac_settings := x\<rparr>) = access_ok db"
  by (simp add: access_ok_def client_ids_def)

lemma access_ok_aliases [simp]: "access_ok (db\<lparr>ac_aliases := x\<rparr>) = access_ok db"
  by (simp add: access_ok_def client_ids_def)

lemma access_init_db_ok:
  assumes "access_ok db"
  shows "access_ok (access_init_db ts db)"
proof -
  let ?db = "case ac_settings db of None \<Rightarrow> db\<lparr>ac_settings := Some (Allow, ts)\<rparr> | Some _ \<Rightarrow> db"
  have ok: "access_ok ?db" using assms by (simp split: option.split)
  show ?thesis
  proof (cases "ac_aliases ?db")
    case None
    then show ?thesis using ok by (simp add: access_init_db_def migrate_client_aliases_def)
  next
    case (Some rows)
    obtain db' n' where f: "fold (migrate_alias ts) rows (?db, 0) = (db', n')" by (metis surj_pair)
    then show ?thesis using migrate_aliases_ok [OF ok f] Some by (simp add: access_init_db_def migrate_client_aliases_def)
  qed
qed

text \<open>After initialisation every alias that is an identifier is one of the table.\<close>

lemma access_init_db_migrated:
  assumes "access_ok db" "ac_aliases (access_init_db ts db) = Some rows" "row \<in> set rows"
    and "normalize_identifier (al_cidr row) = Inr (k, v)"
  shows "has_identifier k v (access_init_db ts db)"
proof -
  let ?db = "case ac_settings db of None \<Rightarrow> db\<lparr>ac_settings := Some (Allow, ts)\<rparr> | Some _ \<Rightarrow> db"
  have ok: "access_ok ?db" using assms(1) by (simp split: option.split)
  show ?thesis
  proof (cases "ac_aliases ?db")
    case None
    then show ?thesis using assms(2) by (simp add: access_init_db_def migrate_client_aliases_def)
  next
    case (Some rs)
    obtain db' n' where f: "fold (migrate_alias ts) rs (?db, 0) = (db', n')" by (metis surj_pair)
    then have db': "access_init_db ts db = db'" using Some by (simp add: access_init_db_def migrate_client_aliases_def)
    then show ?thesis using migrate_aliases_ok [OF ok f] assms(2-4) Some by auto
  qed
qed

lemma access_init_db_settings: "\<exists>p. ac_settings (access_init_db ts db) = Some p"
proof -
  have "ac_settings (fst (migrate_alias ts row st)) = ac_settings (fst st)" for row st
    by (cases st; cases "normalize_identifier (al_cidr row)")
       (auto simp: migrate_alias_def insert_client_def Let_def split: prod.splits)
  then have "ac_settings (fst (fold (migrate_alias ts) rows st)) = ac_settings (fst st)" for rows st
    by (induction rows arbitrary: st) simp_all
  then show ?thesis by (auto simp: access_init_db_def migrate_client_aliases_def split: option.split)
qed

section \<open>Operations keep the invariant\<close>

lemma change_client_ok:
  assumes "access_ok db" "\<And>r. cl_id (f r) = cl_id r"
  shows "access_ok (db\<lparr>ac_clients := update_where p f (ac_clients db)\<rparr>) \<and>
    client_ids (db\<lparr>ac_clients := update_where p f (ac_clients db)\<rparr>) = client_ids db"
proof -
  have "map cl_id (update_where p f (ac_clients db)) = map cl_id (ac_clients db)"
    by (auto simp: update_where_def assms(2))
  from arg_cong [OF this, of set] have ids: "client_ids (db\<lparr>ac_clients := update_where p f (ac_clients db)\<rparr>) = client_ids db"
    by (simp add: client_ids_def)
  then show ?thesis using assms(1) by (simp add: access_ok_def rowids_ok_update assms(2))
qed

lemma touch_client_ok: "access_ok db \<Longrightarrow> access_ok (touch_client ts i db)"
  unfolding touch_client_def by (rule change_client_ok [THEN conjunct1]) simp_all

lemma insert_identifiers_ok:
  "\<lbrakk>access_ok db; \<forall>(k, v)\<in>set xs. identifier_ok k v; i \<in> client_ids db; insert_identifiers i ts xs db = Inr db'\<rbrakk> \<Longrightarrow>
   access_ok db'"
proof (induction xs arbitrary: db)
  case (Cons x xs)
  obtain k v where x: "x = (k, v)" by (cases x)
  with Cons.prems have new: "\<not> has_identifier k v db"
    and rest: "insert_identifiers i ts xs (fst (put_identifier i k v ts db)) = Inr db'"
    by (auto simp: insert_identifier_def split: if_splits prod.splits)
  have "client_ids (fst (put_identifier i k v ts db)) = client_ids db" by (simp add: client_ids_def)
  then show ?case using Cons.prems x put_identifier_ok [OF Cons.prems(1) new] by (intro Cons.IH [OF _ _ _ rest]) auto
qed simp

lemma normalize_all_ok: "normalize_all vs = Inr xs \<Longrightarrow> \<forall>(k, v)\<in>set xs. identifier_ok k v"
  by (induction vs arbitrary: xs) (auto split: sum.splits dest: normalize_identifier_ok)

lemma create_client_ok:
  assumes "access_ok db"
  shows "access_ok (fst (create_client ts name description identifiers en db))"
proof -
  let ?c = "\<lambda>n. \<lparr>cl_id = 0, cl_name = n, cl_description = description, cl_enabled = en, cl_created_at = ts, cl_updated_at = ts\<rparr>"
  have init: "access_ok (access_init_db ts db)" by (rule access_init_db_ok [OF assms])
  have "access_ok db2"
    if xs: "normalize_all identifiers = Inr xs" and c: "insert_client (?c n) (access_init_db ts db) = (db1, i)"
      and ins: "insert_identifiers i ts xs db1 = Inr db2" for n xs db1 i db2
    using insert_client_ok [OF init c] normalize_all_ok [OF xs] ins by (blast intro: insert_identifiers_ok)
  then show ?thesis using assms init by (auto simp: create_client_def Let_def split: sum.splits prod.splits)
qed

lemma update_client_ok: "access_ok db \<Longrightarrow> access_ok (fst (update_client ts i name description en db))"
  using access_init_db_ok [of db ts] by (auto simp: update_client_def change_client_def change_client_ok split: sum.splits)

lemma set_client_enabled_ok: "access_ok db \<Longrightarrow> access_ok (fst (set_client_enabled ts i en db))"
  using access_init_db_ok [of db ts] by (auto simp: set_client_enabled_def change_client_def change_client_ok)

lemma identifiers_ok_delete:
  assumes "identifiers_ok ids t" "\<And>r. r \<in> set t \<Longrightarrow> \<not> p r \<Longrightarrow> ci_client r \<in> ids'"
  shows "identifiers_ok ids' (delete_where p t)"
  using assms rowids_ok_delete by (auto simp: identifiers_ok_def delete_where_def distinct_map_filter)

lemma access_rules_ok_delete:
  assumes "access_rules_ok ids t" "\<And>r. r \<in> set t \<Longrightarrow> \<not> p r \<Longrightarrow> access_rule_ok ids' r"
  shows "access_rules_ok ids' (delete_where p t)"
  using assms rowids_ok_delete by (auto simp: access_rules_ok_def delete_where_def distinct_map_filter)

lemma delete_client_ok:
  assumes "access_ok db0"
  shows "access_ok (fst (delete_client ts i db0))"
proof -
  define db where "db = access_init_db ts db0"
  have ok: "access_ok db" unfolding db_def by (rule access_init_db_ok [OF assms])
  let ?ids = "client_ids db - {i}"
  have "identifiers_ok ?ids (delete_where (\<lambda>r. ci_client r = i) (ac_identifiers db))"
    using ok by (intro identifiers_ok_delete [where ids = "client_ids db"]) (auto simp: access_ok_def identifiers_ok_def)
  moreover have "access_rules_ok ?ids (delete_where (\<lambda>r. ar_kind r = ByClient \<and> ar_client r = Some i) (ac_rules db))"
    using ok by (intro access_rules_ok_delete [where ids = "client_ids db"])
      (auto simp: access_ok_def access_rules_ok_def access_rule_ok_def split: access_kind.splits)
  moreover have "rowids_ok cl_id (delete_where (\<lambda>r. cl_id r = i) (ac_clients db))"
    using ok by (intro rowids_ok_delete) (simp add: access_ok_def)
  moreover have "cl_id ` set (delete_where (\<lambda>r. cl_id r = i) (ac_clients db)) = ?ids"
    by (auto simp: client_ids_def delete_where_def)
  ultimately show ?thesis using ok
    by (simp add: delete_client_def Let_def db_def [symmetric] delete_legacy_aliases_for_identifiers_def)
       (simp add: access_ok_def client_ids_def)
qed

lemma add_identifier_ok:
  assumes "access_ok db0"
  shows "access_ok (fst (add_identifier ts i raw db0))"
proof -
  have init: "access_ok (access_init_db ts db0)" by (rule access_init_db_ok [OF assms])
  have "access_ok (touch_client ts i db1)"
    if n: "normalize_identifier raw = Inr (k, v)" and c: "row_by_id cl_id i (ac_clients (access_init_db ts db0)) \<noteq> None"
      and ins: "insert_identifier i k v ts (access_init_db ts db0) = Inr (db1, m)" for k v db1 m
  proof -
    have "i \<in> client_ids (access_init_db ts db0)" using c by (auto simp: row_by_id_None client_ids_def)
    with ins init normalize_identifier_ok [OF n] have "access_ok db1"
      by (auto simp: insert_identifier_def split: if_splits dest: put_identifier_ok [where ts = ts] simp del: put_identifier_simps)
    then show ?thesis by (rule touch_client_ok)
  qed
  then show ?thesis using assms init by (auto simp: add_identifier_def Let_def split: sum.splits prod.splits)
qed

lemma remove_identifier_ok:
  assumes "access_ok db0"
  shows "access_ok (fst (remove_identifier ts n db0))"
proof -
  define db where "db = access_init_db ts db0"
  have ok: "access_ok db" unfolding db_def by (rule access_init_db_ok [OF assms])
  then have "identifiers_ok (client_ids db) (delete_where (\<lambda>r. ci_id r = n) (ac_identifiers db))"
    by (intro identifiers_ok_delete [where ids = "client_ids db"]) (auto simp: access_ok_def identifiers_ok_def)
  with ok have "access_ok (db\<lparr>ac_aliases := x, ac_identifiers := delete_where (\<lambda>r. ci_id r = n) (ac_identifiers db)\<rparr>)" for x
    by (simp add: access_ok_def client_ids_def)
  then show ?thesis using ok
    by (auto simp: remove_identifier_def Let_def db_def [symmetric] delete_legacy_aliases_for_identifiers_def
      intro!: touch_client_ok split: option.split)
qed

lemma set_default_policy_ok: "access_ok db \<Longrightarrow> access_ok (fst (set_default_policy ts p db))"
  using access_init_db_ok [of db ts] by (auto simp: set_default_policy_def Let_def split: option.split)

lemma rule_target_ok:
  assumes "rule_target kind value client db = Inr (k, v, c)"
  shows "access_rule_ok (client_ids db)
    \<lparr>ar_id = i, ar_action = a, ar_kind = k, ar_value = v, ar_client = c, ar_created_at = ts\<rparr>"
proof -
  define given where "given = (case value of None \<Rightarrow> [] | Some v \<Rightarrow> v)"
  note target = assms [unfolded rule_target_def Let_def, folded given_def]
  show ?thesis
  proof (cases "kind = ''client''")
    case True
    then obtain j where "k = ByClient" "v = None" "c = Some j" "row_by_id cl_id j (ac_clients db) \<noteq> None"
      using target by (auto split: option.splits if_splits)
    then show ?thesis by (auto simp: access_rule_ok_def row_by_id_None client_ids_def)
  next
    case False
    have "\<exists>k' v'. k = ByIdentifier k' \<and> v = Some v' \<and> c = None \<and> identifier_ok k' v'"
    proof (cases "kind = ''clientid''")
      case True
      then show ?thesis using target by (cases "validate_clientid given") (auto simp: identifier_ok_def dest: validate_clientid_ok)
    next
      case cid: False
      have "map_sum id (\<lambda>(k, v). (ByIdentifier k, Some v, None)) (normalize_identifier given) = Inr (k, v, c)"
        using target unfolding if_not_P [OF False] if_not_P [OF cid] by (simp del: insert_iff split: if_split_asm)
      then show ?thesis by (cases "normalize_identifier given") (auto dest: normalize_identifier_ok)
    qed
    then show ?thesis by (auto simp: access_rule_ok_def)
  qed
qed

lemma add_access_rule_ok:
  assumes "access_ok db0"
  shows "access_ok (fst (add_access_rule ts action kind value client db0))"
proof -
  define db where "db = access_init_db ts db0"
  have ok: "access_ok db" unfolding db_def by (rule access_init_db_ok [OF assms])
  let ?r = "\<lambda>a k v c. \<lparr>ar_id = 0, ar_action = a, ar_kind = k, ar_value = v, ar_client = c, ar_created_at = ts\<rparr>"
  have "access_ok (db\<lparr>ac_rules := insert_row ar_id (\<lambda>i r. r\<lparr>ar_id := i\<rparr>) (?r a k v c) (ac_rules db)\<rparr>)"
    if t: "rule_target kind value client db = Inr (k, v, c)" and new: "\<not> list_ex (same_rule a k v c) (ac_rules db)" for a k v c
  proof -
    have "rowids_ok ar_id (insert_row ar_id (\<lambda>i r. r\<lparr>ar_id := i\<rparr>) (?r a k v c) (ac_rules db))"
      using ok by (intro access_rule_table.insert_keeps_ids) (simp add: access_ok_def access_rules_ok_def)
    then show ?thesis using ok new rule_target_ok [OF t]
      by (auto simp: access_ok_def access_rules_ok_def client_ids_def list_ex_iff same_rule_def insert_row_def)
  qed
  then show ?thesis using assms ok
    by (auto simp: add_access_rule_def Let_def db_def [symmetric] split: option.splits sum.splits prod.splits)
qed

lemma remove_access_rule_ok:
  assumes "access_ok db0"
  shows "access_ok (fst (remove_access_rule ts i db0))"
proof -
  define db where "db = access_init_db ts db0"
  have ok: "access_ok db" unfolding db_def by (rule access_init_db_ok [OF assms])
  then have "access_rules_ok (client_ids db) (delete_where (\<lambda>r. ar_id r = i) (ac_rules db))"
    by (intro access_rules_ok_delete [where ids = "client_ids db"]) (auto simp: access_ok_def access_rules_ok_def)
  with ok show ?thesis by (auto simp: remove_access_rule_def Let_def db_def [symmetric] access_ok_def client_ids_def)
qed

lemmas access_operations_ok = access_init_db_ok create_client_ok update_client_ok set_client_enabled_ok delete_client_ok
  add_identifier_ok remove_identifier_ok set_default_policy_ok add_access_rule_ok remove_access_rule_ok

section \<open>The legacy alias table\<close>

text \<open>Every stored alias is the text of a network: \<^verbatim>\<open>local_dns.upsert_alias\<close> stores no other.\<close>

definition legacy_rows :: "access_db \<Rightarrow> alias_row list" where
  "legacy_rows db = (case ac_aliases db of None \<Rightarrow> [] | Some rows \<Rightarrow> rows)"

definition legacy_row_ok :: "alias_row \<Rightarrow> bool" where
  "legacy_row_ok a \<longleftrightarrow> (\<exists>net. net_ok net \<and> al_cidr a = str_network net)"

lemma upsert_alias_rows:
  assumes "upsert_alias ts sip cidr nm desc ldb = Inr ldb'" "\<forall>a\<in>set (client_aliases ldb). legacy_row_ok a"
  shows "\<forall>a\<in>set (client_aliases ldb'). legacy_row_ok a"
  using assms
  by (fastforce simp: upsert_alias_def Let_def legacy_row_ok_def insert_row_def set_update_where
    dest: ip_network_ok split: option.splits if_splits)

lemma migrate_alias_aliases: "ac_aliases (fst (migrate_alias ts row st)) = ac_aliases (fst st)"
  by (cases st; cases "normalize_identifier (al_cidr row)")
     (auto simp: migrate_alias_def insert_client_def Let_def split: prod.splits)

lemma access_init_db_aliases [simp]: "ac_aliases (access_init_db ts db) = ac_aliases db"
proof -
  have "ac_aliases (fst (fold (migrate_alias ts) rows st)) = ac_aliases (fst st)" for rows st
    by (induction rows arbitrary: st) (simp_all add: migrate_alias_aliases)
  then show ?thesis by (simp add: access_init_db_def migrate_client_aliases_def split: option.split)
qed

lemma insert_identifiers_aliases: "insert_identifiers i ts xs db = Inr db' \<Longrightarrow> ac_aliases db' = ac_aliases db"
  by (induction i ts xs db rule: insert_identifiers.induct)
     (auto simp: insert_identifier_def put_identifier_def split: if_splits)

lemma delete_legacy_rows:
  "set (legacy_rows (delete_legacy_aliases_for_identifiers ids db)) \<subseteq> set (legacy_rows db)"
  by (auto simp: delete_legacy_aliases_for_identifiers_def legacy_rows_def delete_where_def split: option.splits)

text \<open>Initialisation with every alias already migrated changes nothing.\<close>

lemma migrate_present:
  "\<forall>row\<in>set rows. \<forall>k v. normalize_identifier (al_cidr row) = Inr (k, v) \<longrightarrow> has_identifier k v db \<Longrightarrow>
   fold (migrate_alias ts) rows (db, n) = (db, n)"
  by (induction rows) (auto simp: migrate_alias_def split: sum.splits)

lemma access_init_db_idle:
  assumes "ac_settings db \<noteq> None"
    and "\<And>row k v. row \<in> set (legacy_rows db) \<Longrightarrow> normalize_identifier (al_cidr row) = Inr (k, v) \<Longrightarrow> has_identifier k v db"
  shows "access_init_db ts db = db"
  using assms migrate_present [of "legacy_rows db" db ts 0]
  by (auto simp: access_init_db_def migrate_client_aliases_def legacy_rows_def split: option.splits)

lemma legacy_alias_cidr_network:
  assumes "net_ok net"
  shows "legacy_alias_cidr (net_kind net) (str_network net) = Some (str_network net)"
proof -
  have "net_kind net \<noteq> Kclientid" by (cases net) simp_all
  then show ?thesis using ip_network_printed [OF assms] by (simp add: legacy_alias_cidr_def)
qed

section \<open>Runs of operations\<close>

text \<open>
  Every view (\<^verbatim>\<open>list_clients\<close> and the like) starts with \<^verbatim>\<open>init_db\<close>: it is the step \<open>as_view\<close>.  The alias
  table is in the same database and written by \<^verbatim>\<open>app/local_dns.py\<close>.
\<close>

inductive access_step :: "access_db \<Rightarrow> access_db \<Rightarrow> bool" where
  as_view: "access_step db (access_init_db ts db)"
| as_create: "access_step db (fst (create_client ts name description identifiers en db))"
| as_update: "access_step db (fst (update_client ts i name description en db))"
| as_enable: "access_step db (fst (set_client_enabled ts i en db))"
| as_delete: "access_step db (fst (delete_client ts i db))"
| as_identify: "access_step db (fst (add_identifier ts i raw db))"
| as_forget: "access_step db (fst (remove_identifier ts i db))"
| as_policy: "access_step db (fst (set_default_policy ts p db))"
| as_rule: "access_step db (fst (add_access_rule ts action kind value client db))"
| as_unrule: "access_step db (fst (remove_access_rule ts i db))"
| as_alias: "client_aliases (ldb :: local_db) = legacy_rows db \<Longrightarrow> upsert_alias ts sip cidr nm desc ldb = Inr ldb' \<Longrightarrow>
    access_step db (db\<lparr>ac_aliases := Some (client_aliases ldb')\<rparr>)"
| as_unalias: "client_aliases (ldb :: local_db) = legacy_rows db \<Longrightarrow>
    access_step db (db\<lparr>ac_aliases := Some (client_aliases (delete_alias sip rid ldb))\<rparr>)"

definition fresh_access :: access_db where
  "fresh_access = \<lparr>ac_clients = [], ac_identifiers = [], ac_rules = [], ac_settings = None, ac_aliases = None\<rparr>"

inductive access_reachable :: "access_db \<Rightarrow> bool" where
  ar_start: "access_reachable fresh_access"
| ar_step: "access_reachable db \<Longrightarrow> access_step db db' \<Longrightarrow> access_reachable db'"

lemma access_step_ok: "access_step db db' \<Longrightarrow> access_ok db \<Longrightarrow> access_ok db'"
  by (induction rule: access_step.induct) (simp_all add: access_operations_ok)

lemma access_reachable_ok: "access_reachable db \<Longrightarrow> access_ok db"
proof (induction rule: access_reachable.induct)
  case ar_start
  show ?case by (simp add: fresh_access_def access_ok_def identifiers_ok_def access_rules_ok_def rowids_ok_def)
qed (rule access_step_ok)

lemma access_op_aliases:
  "ac_aliases (fst (create_client ts name description identifiers en db)) = ac_aliases db"
  "ac_aliases (fst (update_client ts i name description en db)) = ac_aliases db"
  "ac_aliases (fst (set_client_enabled ts i en db)) = ac_aliases db"
  "ac_aliases (fst (add_identifier ts i raw db)) = ac_aliases db"
  "ac_aliases (fst (set_default_policy ts p db)) = ac_aliases db"
  "ac_aliases (fst (add_access_rule ts action kind value client db)) = ac_aliases db"
  "ac_aliases (fst (remove_access_rule ts i db)) = ac_aliases db"
  subgoal by (auto simp: create_client_def insert_client_def Let_def split: sum.splits dest!: insert_identifiers_aliases)
  subgoal by (simp add: update_client_def change_client_def split: sum.split)
  subgoal by (simp add: set_client_enabled_def change_client_def)
  subgoal by (auto simp: add_identifier_def insert_identifier_def put_identifier_def touch_client_def Let_def split: sum.split if_splits)
  subgoal by (simp add: set_default_policy_def Let_def split: option.split)
  subgoal by (auto simp: add_access_rule_def Let_def split: option.split sum.split)
  subgoal by (simp add: remove_access_rule_def Let_def)
  done

lemma delete_op_aliases:
  "set (legacy_rows (fst (delete_client ts i db))) \<subseteq> set (legacy_rows db)"
  "set (legacy_rows (fst (remove_identifier ts i db))) \<subseteq> set (legacy_rows db)"
  using delete_legacy_rows [of _ "access_init_db ts db"]
  by (auto simp: delete_client_def remove_identifier_def touch_client_def legacy_rows_def Let_def split: option.splits)

lemma access_reachable_legacy: "access_reachable db \<Longrightarrow> \<forall>a\<in>set (legacy_rows db). legacy_row_ok a"
proof (induction rule: access_reachable.induct)
  case (ar_step db db')
  from ar_step.hyps(2) ar_step.IH show ?case
  proof (induction rule: access_step.induct)
    case (as_alias ldb db ts sip cidr nm desc ldb')
    have "\<forall>a\<in>set (client_aliases ldb'). legacy_row_ok a"
      by (rule upsert_alias_rows [OF as_alias(2)]) (use as_alias(1,3) in \<open>simp only:\<close>)
    then show ?case by (simp add: legacy_rows_def)
  next
    case (as_unalias ldb db sip rid)
    then show ?case by (auto simp: legacy_rows_def delete_alias_def Let_def delete_where_def)
  next
    case (as_delete db ts i)
    then show ?case using delete_op_aliases(1) by blast
  next
    case (as_forget db ts i)
    then show ?case using delete_op_aliases(2) by blast
  qed (simp_all add: legacy_rows_def access_op_aliases)
qed (simp add: fresh_access_def legacy_rows_def)

section \<open>The decision\<close>

lemma evaluate_access_allowed:
  "ad_allowed (evaluate_access remote cid rules by_id policy) \<longleftrightarrow>
     (let hit = (\<lambda>a. \<exists>r\<in>set (expand_rules rules by_id). er_action r = a \<and>
            effective_match (Option.bind remote (\<lambda>s. if s = [] then None else ip_address s)) cid r)
      in \<not> hit Deny \<and> (hit Allow \<or> policy = Allow))"
proof -
  have addr: "(case remote of None \<Rightarrow> None | Some s \<Rightarrow> if s = [] then None else ip_address s) =
    Option.bind remote (\<lambda>s. if s = [] then None else ip_address s)" by (cases remote) simp_all
  have nil: "(case filter P xs of [] \<Rightarrow> a | m # _ \<Rightarrow> \<lparr>ad_allowed = b, ad_reason = t m\<rparr>) =
      (if \<exists>x\<in>set xs. P x then \<lparr>ad_allowed = b, ad_reason = t (hd (filter P xs))\<rparr> else a)"
    for P and xs :: "effective_rule list" and a b t
    by (cases "filter P xs") (auto simp: filter_empty_conv dest: arg_cong [of _ _ set])
  show ?thesis by (auto simp: evaluate_access_def Let_def addr nil)
qed

lemma expanded_rules_ok:
  assumes ok: "access_ok db" and r: "r \<in> set (expand_rules (ac_rules db) (clients_by_id (map (view_client db) cs)))"
  shows "identifier_ok (er_kind r) (er_value r) \<and>
    (er_value r \<in> ci_value ` set (ac_identifiers db) \<or> Some (er_value r) \<in> ar_value ` set (ac_rules db))"
proof -
  obtain rule where rule: "rule \<in> set (ac_rules db)" "r \<in> set (expand_rule (clients_by_id (map (view_client db) cs)) rule)"
    using r by (auto simp: expand_rules_def)
  have rok: "access_rule_ok (client_ids db) rule" using ok rule(1) by (auto simp: access_ok_def access_rules_ok_def)
  show ?thesis
  proof (cases "ar_kind rule")
    case (ByIdentifier k)
    then show ?thesis using rule rok by (auto simp: expand_rule_def access_rule_ok_def image_iff intro!: bexI [of _ rule])
  next
    case ByClient
    let ?by = "clients_by_id (map (view_client db) cs)"
    obtain c where c: "Option.bind (ar_client rule) ?by = Some c"
      using rule(2) ByClient by (cases "Option.bind (ar_client rule) ?by") (auto simp: expand_rule_def)
    then obtain i where i: "i \<in> set (cv_identifiers c)" "er_kind r = ci_kind i" "er_value r = ci_value i"
      using rule(2) ByClient by (auto simp: expand_rule_def split: if_splits)
    have "c \<in> set (map (view_client db) cs)"
      using c by (auto simp: clients_by_id_def bind_eq_Some_conv dest!: map_of_SomeD)
    then have "i \<in> set (ac_identifiers db)" using i(1) by (auto simp: view_client_def client_row.defs client_view.defs)
    then show ?thesis using ok i(2,3) by (auto simp: access_ok_def identifiers_ok_def)
  qed
qed

lemma expand_rules_set: "set rules = set rules' \<Longrightarrow> set (expand_rules rules by_id) = set (expand_rules rules' by_id)"
  by (simp add: expand_rules_def)

lemma access_init_db_again:
  assumes "access_ok db"
  shows "access_init_db ts' (access_init_db ts db) = access_init_db ts db"
proof (rule access_init_db_idle)
  show "ac_settings (access_init_db ts db) \<noteq> None" using access_init_db_settings by auto
  fix row k v
  assume "row \<in> set (legacy_rows (access_init_db ts db))" "normalize_identifier (al_cidr row) = Inr (k, v)"
  then show "has_identifier k v (access_init_db ts db)"
    by (cases "ac_aliases (access_init_db ts db)") (auto simp: legacy_rows_def intro: access_init_db_migrated [OF assms])
qed

section \<open>Properties\<close>

lemma set_map_filter: "y \<in> set (List.map_filter f xs) \<longleftrightarrow> (\<exists>x\<in>set xs. f x = Some y)"
  by (induction xs) (auto simp: map_filter_simps split: option.split)

lemma delete_client_idle:
  assumes reach: "access_reachable db0" and del: "delete_client ts i db0 = (db', Inr ())"
  shows "access_init_db ts' db' = db'"
proof (rule access_init_db_idle)
  define db where "db = access_init_db ts db0"
  have ok: "access_ok db0" by (rule access_reachable_ok [OF reach])
  have settings: "ac_settings db' = ac_settings db"
    and ids: "ac_identifiers db' = delete_where (\<lambda>r. ci_client r = i) (ac_identifiers db)"
    and aliases: "ac_aliases db' = ac_aliases (delete_legacy_aliases_for_identifiers (filter (\<lambda>r. ci_client r = i) (ac_identifiers db)) db)"
    using del by (auto simp: delete_client_def Let_def db_def delete_legacy_aliases_for_identifiers_def split: if_splits)
  show "ac_settings db' \<noteq> None" using access_init_db_settings [of ts db0] settings by (auto simp: db_def)
  fix row k v
  assume row: "row \<in> set (legacy_rows db')" and kv: "normalize_identifier (al_cidr row) = Inr (k, v)"
  obtain rows where rows: "ac_aliases db = Some rows" "row \<in> set rows"
    and kept: "\<And>r. r \<in> set (ac_identifiers db) \<Longrightarrow> ci_client r = i \<Longrightarrow>
      legacy_alias_cidr (ci_kind r) (ci_value r) \<noteq> Some (al_cidr row)"
    using row by (cases "ac_aliases db") (auto simp: legacy_rows_def aliases delete_legacy_aliases_for_identifiers_def Let_def
      delete_where_def set_map_filter split: option.splits)
  have "legacy_row_ok row" using access_reachable_legacy [OF reach] rows by (simp add: db_def legacy_rows_def)
  then obtain net where net: "net_ok net" "al_cidr row = str_network net" by (auto simp: legacy_row_ok_def)
  with kv have k: "k = net_kind net" "v = str_network net" using normalize_network by auto
  have "has_identifier k v db"
    unfolding db_def by (rule access_init_db_migrated [OF ok _ rows(2) kv]) (use rows(1) in \<open>simp add: db_def\<close>)
  then obtain r where r: "r \<in> set (ac_identifiers db)" "ci_kind r = k" "ci_value r = v"
    by (auto simp: has_identifier_def list_ex_iff)
  then have "ci_client r \<noteq> i" using kept [OF r(1)] legacy_alias_cidr_network [OF net(1)] net(2) k by auto
  with r show "has_identifier k v db'" by (auto simp: has_identifier_def list_ex_iff ids delete_where_def)
qed

text \<open>
  C16: whatever sequence of client, identifier, rule, policy and alias operations runs on a fresh
  database, stored identifiers are canonical, each belongs to one existing client and to no second one,
  no access rule is stored twice, and every rule names an existing client or a canonical identifier.
\<close>

theorem access_invariant:
  assumes "access_reachable db"
  shows "access_ok db"
  by (rule access_reachable_ok [OF assms])

definition example_access :: access_db where
  "example_access = fst (create_client ''t0'' ''tv'' [] [] True fresh_access)"

lemma example_access_reachable: "access_reachable example_access"
  unfolding example_access_def by (rule ar_step [OF ar_start as_create])

theorem access_invariant_witness: "access_ok example_access"
  by (rule access_invariant [OF example_access_reachable])

text \<open>
  C17: a deleted client does not come back: on a database any sequence of operations produced, the
  copy of legacy aliases that every later start performs changes nothing after a successful deletion, the
  client is gone, and so are all its identifiers.
\<close>

theorem deleted_client_stays_deleted:
  assumes "access_reachable db" "delete_client ts i db = (db', Inr ())"
  shows "access_init_db ts' db' = db' \<and> i \<notin> client_ids db' \<and>
    (\<forall>r\<in>set (ac_identifiers (access_init_db ts db)). ci_client r = i \<longrightarrow> \<not> has_identifier (ci_kind r) (ci_value r) db')"
proof -
  let ?db = "access_init_db ts db"
  have "distinct (map identifier_key (ac_identifiers ?db))"
    using access_init_db_ok [OF access_reachable_ok [OF assms(1)]] by (simp add: access_ok_def identifiers_ok_def)
  then have "inj_on identifier_key (set (ac_identifiers ?db))" by (simp add: distinct_map)
  moreover have "ac_identifiers db' = delete_where (\<lambda>r. ci_client r = i) (ac_identifiers ?db)" "i \<notin> client_ids db'"
    using assms(2) by (auto simp: delete_client_def Let_def delete_legacy_aliases_for_identifiers_def client_ids_def
      delete_where_def split: if_splits)
  ultimately show ?thesis using delete_client_idle [OF assms, of ts']
    by (auto simp: has_identifier_iff delete_where_def inj_on_def)
qed

definition aliased_access :: access_db where
  "aliased_access = fresh_access\<lparr>ac_aliases := Some
     [\<lparr>al_id = 1, al_cidr = ''10.0.0.0/8'', al_display_name = ''lan'', al_description = [],
       al_created_at = ''t0'', al_updated_at = ''t0''\<rparr>]\<rparr>"

lemma aliased_network:
  "net_ok (Net4 167772160 8)" "str_network (Net4 167772160 8) = ''10.0.0.0/8''"
proof -
  have "str_nat 10 = ''10''" "str_nat 0 = ''0''" "str_nat 8 = ''8''" by code_simp+
  then show "str_network (Net4 167772160 8) = ''10.0.0.0/8''" by (simp add: str_v4_def)
qed (simp add: clear_host_def)

lemma aliased_access_reachable: "access_reachable aliased_access"
proof -
  have "ip_network ''10.0.0.0/8'' = Some (Net4 167772160 8)"
    using ip_network_printed [OF aliased_network(1)] by (simp only: aliased_network(2))
  moreover have "py_strip ''10.0.0.0/8'' = ''10.0.0.0/8''" "py_strip ''lan'' = ''lan''" by code_simp+
  ultimately have "upsert_alias ''t0'' ''192.0.2.1'' ''10.0.0.0/8'' ''lan'' [] empty_local =
    Inr ((local_init_db ''192.0.2.1'' empty_local)\<lparr>client_aliases := the (ac_aliases aliased_access)\<rparr>)"
    by (simp add: upsert_alias_def aliased_network(2) aliased_access_def empty_local_def Let_def insert_row_def next_rowid_def
      del: str_network.simps)
  from ar_step [OF ar_start as_alias [OF _ this]] show ?thesis
    by (simp add: empty_local_def fresh_access_def legacy_rows_def aliased_access_def)
qed

theorem deleted_client_stays_deleted_witness:
  "access_init_db ''t2'' (fst (delete_client ''t1'' 1 aliased_access)) = fst (delete_client ''t1'' 1 aliased_access) \<and>
   1 \<notin> client_ids (fst (delete_client ''t1'' 1 aliased_access)) \<and>
   \<not> has_identifier Kipv4_cidr ''10.0.0.0/8'' (fst (delete_client ''t1'' 1 aliased_access))"
proof -
  have "normalize_identifier ''10.0.0.0/8'' = Inr (Kipv4_cidr, ''10.0.0.0/8'')"
    using normalize_network [OF aliased_network(1)] by (simp only: aliased_network(2)) simp
  then have rows: "map cl_id (ac_clients (access_init_db ''t1'' aliased_access)) = [1]"
    "map (\<lambda>r. (ci_client r, ci_kind r, ci_value r)) (ac_identifiers (access_init_db ''t1'' aliased_access)) = [(1, Kipv4_cidr, ''10.0.0.0/8'')]"
    by (simp_all add: access_init_db_def migrate_client_aliases_def aliased_access_def fresh_access_def migrate_alias_def
      has_identifier_def insert_client_def insert_row_def next_rowid_def put_identifier_def Let_def)
  from rows(1) have "row_by_id cl_id 1 (ac_clients (access_init_db ''t1'' aliased_access)) \<noteq> None"
    by (auto simp: row_by_id_None)
  then have "delete_client ''t1'' 1 aliased_access = (fst (delete_client ''t1'' 1 aliased_access), Inr ())"
    by (simp add: delete_client_def Let_def)
  from deleted_client_stays_deleted [OF aliased_access_reachable this, of "''t2''"] rows(2) show ?thesis by auto
qed

text \<open>
  the access decision for a request is a refusal when some expanded rule that matches it denies, otherwise
  an admission when some matching rule allows, otherwise the default policy: it depends on the set of
  rules, not on their order or repetition.
\<close>

theorem evaluate_access_precedence:
  "ad_allowed (evaluate_access remote cid rules by_id policy) \<longleftrightarrow>
     (let matching = {r. effective_match (Option.bind remote (\<lambda>s. if s = [] then None else ip_address s)) cid r \<and>
                         (\<exists>rule\<in>set rules. r \<in> set (expand_rule by_id rule))}
      in if \<exists>r\<in>matching. er_action r = Deny then False
         else if \<exists>r\<in>matching. er_action r = Allow then True else policy = Allow)"
  unfolding evaluate_access_allowed Let_def by (auto simp: expand_rules_def)

end
