(* ===== verification/Access_Layer.thy ===== *)
theory Access_Layer
  imports Client_Access Dnsdist_Layer
begin

text \<open>
  Enforcement of the access policy in dnsdist (\<^verbatim>\<open>app/clients.py\<close>): the data files rendered from the rules,
  the static loader that reads them, the decision the loader's rules take for a request, the include and the
  ClientID paths in \<^verbatim>\<open>dnsdist.conf\<close>, and the installation.  How dnsdist matches a netmask, a server name and
  a path is the locale \<open>dnsdist_matchers\<close>; \<open>doh\<close> is the \<^verbatim>\<open>doh_path\<close> setting of \<^verbatim>\<open>app/encryption.py\<close>.  Shown:
  the compiled rules decide like \<^verbatim>\<open>evaluate_access\<close>, and an installation is complete or leaves the installed
  files as they were.
\<close>

section \<open>Data files\<close>

definition ACCESS_LUA_NAME :: string where "ACCESS_LUA_NAME = ''access-policy.conf''"
definition DATA_ALLOW_V4 :: string where "DATA_ALLOW_V4 = ''access-allow-v4.txt''"
definition DATA_ALLOW_V6 :: string where "DATA_ALLOW_V6 = ''access-allow-v6.txt''"
definition DATA_DENY_V4 :: string where "DATA_DENY_V4 = ''access-deny-v4.txt''"
definition DATA_DENY_V6 :: string where "DATA_DENY_V6 = ''access-deny-v6.txt''"
definition DATA_ALLOW_SNI :: string where "DATA_ALLOW_SNI = ''access-allow-sni.txt''"
definition DATA_DENY_SNI :: string where "DATA_DENY_SNI = ''access-deny-sni.txt''"
definition DATA_ALLOW_PATH :: string where "DATA_ALLOW_PATH = ''access-allow-path.txt''"
definition DATA_DENY_PATH :: string where "DATA_DENY_PATH = ''access-deny-path.txt''"
definition DATA_DOH_CLIENTID_PATHS :: string where "DATA_DOH_CLIENTID_PATHS = ''access-doh-clientid-paths.txt''"
definition DEFAULT_POLICY_DATA :: string where "DEFAULT_POLICY_DATA = ''access-default-policy.txt''"

lemmas access_names = ACCESS_LUA_NAME_def DATA_ALLOW_V4_def DATA_ALLOW_V6_def DATA_DENY_V4_def DATA_DENY_V6_def
  DATA_ALLOW_SNI_def DATA_DENY_SNI_def DATA_ALLOW_PATH_def DATA_DENY_PATH_def DATA_DOH_CLIENTID_PATHS_def
  DEFAULT_POLICY_DATA_def

definition access_lua_path :: string where
  "access_lua_path = COMPILED_DNSDIST_DIR @ ''/'' @ ACCESS_LUA_NAME"

definition doh_base :: "string option \<Rightarrow> string" where
  "doh_base doh = (case doh of None \<Rightarrow> ''/dns-query'' | Some p \<Rightarrow> if p = [] then ''/dns-query'' else p)"

definition render_doh_clientid_paths :: "string option \<Rightarrow> access_db \<Rightarrow> string result" where
  "render_doh_clientid_paths doh db =
     (let values = ci_value ` set (filter (\<lambda>r. ci_kind r = Kclientid) (ac_identifiers db)) \<union>
                   set (List.map_filter (\<lambda>r. if ar_kind r = ByIdentifier Kclientid then ar_value r else None) (ac_rules db))
      in data_text (sorted_list_of_set (clientid_doh_path (doh_base doh) ` values)))"

definition mask_v4 :: "effective_rule \<Rightarrow> string option" where
  "mask_v4 r = (case er_kind r of Kipv4 \<Rightarrow> Some (er_value r @ ''/32'') | Kipv4_cidr \<Rightarrow> Some (er_value r) | _ \<Rightarrow> None)"

definition mask_v6 :: "effective_rule \<Rightarrow> string option" where
  "mask_v6 r = (case er_kind r of Kipv6 \<Rightarrow> Some (er_value r @ ''/128'') | Kipv6_cidr \<Rightarrow> Some (er_value r) | _ \<Rightarrow> None)"

definition path_entry :: "string \<Rightarrow> effective_rule \<Rightarrow> string option" where
  "path_entry doh_base_path r = (if er_kind r = Kclientid then Some (clientid_doh_path doh_base_path (er_value r)) else None)"

text \<open>The entries of one action; \<open>sni_rules\<close> is the loop over the rules, which stops where a ClientID has no label.\<close>

definition entries_for :: "access_action \<Rightarrow> (effective_rule \<Rightarrow> string option) \<Rightarrow> effective_rule list \<Rightarrow> string set" where
  "entries_for a entry rs = set (List.map_filter entry (filter (\<lambda>r. er_action r = a) rs))"

fun sni_rules :: "effective_rule list \<Rightarrow> (access_action \<times> string) list result" where
  "sni_rules [] = Inr []"
| "sni_rules (r # rs) =
     (if er_kind r \<noteq> Kclientid then sni_rules rs
      else case clientid_sni_hostname (er_value r) of
        Inl e \<Rightarrow> Inl e
      | Inr h \<Rightarrow> (case sni_rules rs of Inl e \<Rightarrow> Inl e | Inr hs \<Rightarrow> Inr ((er_action r, h) # hs)))"

definition sni_for :: "access_action \<Rightarrow> (access_action \<times> string) list \<Rightarrow> string set" where
  "sni_for a hs = set (map snd (filter (\<lambda>(b, h). b = a) hs))"

fun data_texts :: "(string \<times> string set) list \<Rightarrow> (string \<times> string) list result" where
  "data_texts [] = Inr []"
| "data_texts ((name, entries) # rest) =
     (case data_text (sorted_list_of_set entries) of
        Inl e \<Rightarrow> Inl e
      | Inr t \<Rightarrow> (case data_texts rest of Inl e \<Rightarrow> Inl e | Inr ts \<Rightarrow> Inr ((name, t) # ts)))"

definition render_access_data :: "access_rule list \<Rightarrow> (nat \<rightharpoonup> client_view) \<Rightarrow> access_action \<Rightarrow> string \<Rightarrow>
    (string \<times> string) list result" where
  "render_access_data rules by_id default_policy doh_base_path =
     (let expanded = expand_rules rules by_id in
      case sni_rules expanded of
        Inl e \<Rightarrow> Inl e
      | Inr hs \<Rightarrow>
          map_sum id (\<lambda>files. files @ [(DEFAULT_POLICY_DATA, action_text default_policy @ [newline])])
            (data_texts
              [(DATA_ALLOW_V4, entries_for Allow mask_v4 expanded), (DATA_ALLOW_V6, entries_for Allow mask_v6 expanded),
               (DATA_DENY_V4, entries_for Deny mask_v4 expanded), (DATA_DENY_V6, entries_for Deny mask_v6 expanded),
               (DATA_ALLOW_SNI, sni_for Allow hs), (DATA_DENY_SNI, sni_for Deny hs),
               (DATA_ALLOW_PATH, entries_for Allow (path_entry doh_base_path) expanded),
               (DATA_DENY_PATH, entries_for Deny (path_entry doh_base_path) expanded)]))"

section \<open>The loader\<close>

definition render_access_lua :: "string \<Rightarrow> string" where
  \<open>render_access_lua data_dir = join [newline]
     [''-- Managed by Alderpoint DNS Clients & Access. Do not edit by hand.'',
      ''-- Static loader: user-controlled values live only in the data files below'',
      ''-- (one entry per line); no user text is ever interpolated into Lua code.'',
      ''local alderpointdnsAccessDataDir = "'' @ data_dir @ ''"'',
      [],
      ''local function alderpointdnsAccessLines(name)'',
      ''  local entries = {}'',
      ''  local handle = io.open(alderpointdnsAccessDataDir .. "/" .. name, "r")'',
      ''  if handle then'',
      ''    for line in handle:lines() do'',
      ''      if line ~= "" then'',
      ''        table.insert(entries, line)'',
      ''      end'',
      ''    end'',
      ''    handle:close()'',
      ''  end'',
      ''  return entries'',
      ''end'',
      [],
      ''local function alderpointdnsNMG(name)'',
      ''  local entries = alderpointdnsAccessLines(name)'',
      ''  if #entries == 0 then'',
      ''    return nil'',
      ''  end'',
      ''  local nmg = newNMG()'',
      ''  for _, entry in ipairs(entries) do'',
      ''    nmg:addMask(entry)'',
      ''  end'',
      ''  return nmg'',
      ''end'',
      [],
      ''local alderpointdnsDenyV4 = alderpointdnsNMG("'' @ DATA_DENY_V4 @ ''")'',
      ''local alderpointdnsDenyV6 = alderpointdnsNMG("'' @ DATA_DENY_V6 @ ''")'',
      ''if alderpointdnsDenyV4 then'',
      ''  addAction(NetmaskGroupRule(alderpointdnsDenyV4), RCodeAction(DNSRCode.REFUSED))'',
      ''end'',
      ''if alderpointdnsDenyV6 then'',
      ''  addAction(NetmaskGroupRule(alderpointdnsDenyV6), RCodeAction(DNSRCode.REFUSED))'',
      ''end'',
      ''for _, sni in ipairs(alderpointdnsAccessLines("'' @ DATA_DENY_SNI @ ''")) do'',
      ''  addAction(SNIRule(sni), RCodeAction(DNSRCode.REFUSED))'',
      ''end'',
      ''for _, path in ipairs(alderpointdnsAccessLines("'' @ DATA_DENY_PATH @ ''")) do'',
      ''  addAction(HTTPPathRule(path), RCodeAction(DNSRCode.REFUSED))'',
      ''end'',
      [],
      ''local alderpointdnsDefaultPolicy = "allow"'',
      ''local alderpointdnsPolicyFile = io.open(alderpointdnsAccessDataDir .. "/access-default-policy.txt", "r")'',
      ''if alderpointdnsPolicyFile then'',
      ''  local line = alderpointdnsPolicyFile:read("*l")'',
      ''  alderpointdnsPolicyFile:close()'',
      ''  if line then'',
      ''    alderpointdnsDefaultPolicy = line'',
      ''  end'',
      ''end'',
      [],
      ''if alderpointdnsDefaultPolicy == "deny" then'',
      ''  -- Loopback is always exempt from the *default*-deny gate (documented in'',
      ''  -- docs/clients-and-access.md) so Alderpoint'' @ [CHR 0x27] @ ''s own internal health'',
      ''  -- checks/acceptance tests never get locked out. An explicit deny rule'',
      ''  -- above already ran and would have REFUSED loopback first if an admin'',
      ''  -- deliberately added one.'',
      ''  local alderpointdnsAllowV4 = alderpointdnsNMG("'' @ DATA_ALLOW_V4 @ ''") or newNMG()'',
      ''  alderpointdnsAllowV4:addMask("127.0.0.1/32")'',
      ''  local alderpointdnsAllowV6 = alderpointdnsNMG("'' @ DATA_ALLOW_V6 @ ''") or newNMG()'',
      ''  alderpointdnsAllowV6:addMask("::1/128")'',
      ''  local alderpointdnsGateParts = {'',
      ''    NetmaskGroupRule(alderpointdnsAllowV4),'',
      ''    NetmaskGroupRule(alderpointdnsAllowV6)'',
      ''  }'',
      ''  for _, sni in ipairs(alderpointdnsAccessLines("'' @ DATA_ALLOW_SNI @ ''")) do'',
      ''    table.insert(alderpointdnsGateParts, SNIRule(sni))'',
      ''  end'',
      ''  for _, path in ipairs(alderpointdnsAccessLines("'' @ DATA_ALLOW_PATH @ ''")) do'',
      ''    table.insert(alderpointdnsGateParts, HTTPPathRule(path))'',
      ''  end'',
      ''  addAction(NotRule(OrRule(alderpointdnsGateParts)), RCodeAction(DNSRCode.REFUSED))'',
      ''end''] @ [newline]\<close>

text \<open>
  What the loader does with a request: the refusing rules in order, then the default gate.  \<open>mm\<close>, \<open>sm\<close> and
  \<open>pm\<close> are dnsdist's netmask, server name and path matching, the entry first.
\<close>

record access_request =
  rq_addr :: ip
  rq_sni :: "string option"
  rq_path :: "string option"

definition access_lines :: "(string \<times> string) list \<Rightarrow> string \<Rightarrow> string list" where
  "access_lines files name = (case map_of files name of None \<Rightarrow> [] | Some s \<Rightarrow> lua_lines s)"

definition first_line :: "string \<Rightarrow> string option" where
  "first_line s = (if s = [] then None else Some (takeWhile (\<lambda>c. c \<noteq> newline) s))"

definition loader_policy :: "(string \<times> string) list \<Rightarrow> string" where
  "loader_policy files =
     (case Option.bind (map_of files DEFAULT_POLICY_DATA) first_line of None \<Rightarrow> ''allow'' | Some line \<Rightarrow> line)"

definition opt_match :: "(string \<Rightarrow> string \<Rightarrow> bool) \<Rightarrow> string option \<Rightarrow> string \<Rightarrow> bool" where
  "opt_match m got entry = (case got of None \<Rightarrow> False | Some x \<Rightarrow> m entry x)"

definition access_refused :: "(string \<Rightarrow> ip \<Rightarrow> bool) \<Rightarrow> (string \<Rightarrow> string \<Rightarrow> bool) \<Rightarrow> (string \<Rightarrow> string \<Rightarrow> bool) \<Rightarrow>
    (string \<times> string) list \<Rightarrow> access_request \<Rightarrow> bool" where
  "access_refused mm sm pm files q =
     (list_ex (\<lambda>e. mm e (rq_addr q)) (access_lines files DATA_DENY_V4) \<or>
      list_ex (\<lambda>e. mm e (rq_addr q)) (access_lines files DATA_DENY_V6) \<or>
      list_ex (opt_match sm (rq_sni q)) (access_lines files DATA_DENY_SNI) \<or>
      list_ex (opt_match pm (rq_path q)) (access_lines files DATA_DENY_PATH) \<or>
      (loader_policy files = ''deny'' \<and>
       \<not> (list_ex (\<lambda>e. mm e (rq_addr q)) (access_lines files DATA_ALLOW_V4 @ [''127.0.0.1/32'']) \<or>
          list_ex (\<lambda>e. mm e (rq_addr q)) (access_lines files DATA_ALLOW_V6 @ [''::1/128'']) \<or>
          list_ex (opt_match sm (rq_sni q)) (access_lines files DATA_ALLOW_SNI) \<or>
          list_ex (opt_match pm (rq_path q)) (access_lines files DATA_ALLOW_PATH))))"

section \<open>dnsdist.conf\<close>

definition DOH_ALTSVC_MARKER_BEGIN :: string where
  "DOH_ALTSVC_MARKER_BEGIN = ''-- ALDERPOINT-DNS-MANAGED-BLOCK: doh-altsvc BEGIN''"
definition DOH_ALTSVC_MARKER_END :: string where
  "DOH_ALTSVC_MARKER_END = ''-- ALDERPOINT-DNS-MANAGED-BLOCK: doh-altsvc END''"

text \<open>\<open>find_text s t\<close> is \<^verbatim>\<open>s.find(t)\<close>, \<open>replace_first\<close> is \<^verbatim>\<open>s.replace(old, new, 1)\<close> for a non-empty \<open>old\<close>.\<close>

fun find_text :: "string \<Rightarrow> string \<Rightarrow> nat option" where
  "find_text [] t = (if t = [] then Some 0 else None)"
| "find_text (c # s) t = (if startswith (c # s) t then Some 0 else map_option Suc (find_text s t))"

fun replace_first :: "string \<Rightarrow> string \<Rightarrow> string \<Rightarrow> string" where
  "replace_first old new [] = []"
| "replace_first old new (c # s) =
     (if startswith (c # s) old then new @ drop (length old) (c # s) else c # replace_first old new s)"

definition extract_block :: "string \<Rightarrow> string option" where
  "extract_block s =
     (case (find_text s DOH_ALTSVC_MARKER_BEGIN, find_text s DOH_ALTSVC_MARKER_END) of
        (Some start, Some stop) \<Rightarrow>
          if stop < start then None
          else Some (take (stop + length DOH_ALTSVC_MARKER_END - start) (drop start s))
      | _ \<Rightarrow> None)"

definition ensure_doh_clientid_paths_migration :: "string \<Rightarrow> dnsdist_fs \<Rightarrow> dnsdist_fs \<times> bool result" where
  "ensure_doh_clientid_paths_migration stamp fs =
     (let managed = (\<lambda>s. contains s DOH_ALTSVC_MARKER_BEGIN \<and> contains s DOH_ALTSVC_MARKER_END) in
      case dd_conf fs of
        None \<Rightarrow> (fs, Inr False)
      | Some current \<Rightarrow>
          if \<not> managed current \<or> contains current DATA_DOH_CLIENTID_PATHS then (fs, Inr False)
          else case dd_packaged fs of
            None \<Rightarrow> (fs, Inl ''No such file or directory'')
          | Some template \<Rightarrow>
              if \<not> managed template then (fs, Inr False)
              else case (extract_block current, extract_block template) of
                (Some old_block, Some new_block) \<Rightarrow>
                  (fs\<lparr>dd_backups := AList.update (''dnsdist.conf.pre-doh-clientid-paths.'' @ stamp) current (dd_backups fs),
                      dd_conf := Some (replace_first old_block new_block current)\<rparr>, Inr True)
              | _ \<Rightarrow> (fs, Inr False))"

definition access_include_block :: string where
  \<open>access_include_block = concat (map (\<lambda>l. l @ [newline])
     [''local alderpointdnsAccessConfig = "'' @ access_lua_path @ ''"'',
      ''local alderpointdnsAccessFile = io.open(alderpointdnsAccessConfig, "r")'',
      ''if alderpointdnsAccessFile then'',
      ''  alderpointdnsAccessFile:close()'',
      ''  dofile(alderpointdnsAccessConfig)'',
      ''end''])\<close>

definition ensure_dnsdist_access_include :: "string \<Rightarrow> dnsdist_fs \<Rightarrow> dnsdist_fs \<times> bool result" where
  "ensure_dnsdist_access_include stamp fs =
     (case (case dd_conf fs of Some s \<Rightarrow> Some s | None \<Rightarrow> dd_packaged fs) of
        None \<Rightarrow> (fs, Inl ''No such file or directory'')
      | Some current \<Rightarrow>
          if contains current access_lua_path then (fs, Inr False)
          else if \<not> contains current bind_pool_marker
          then (fs, Inl ''dnsdist.conf is missing the default bind-pool action marker'')
          else
            (fs\<lparr>dd_backups := (case dd_conf fs of
                   None \<Rightarrow> dd_backups fs
                 | Some s \<Rightarrow> AList.update (''dnsdist.conf.pre-access-policy.'' @ stamp) s (dd_backups fs)),
                dd_conf := Some (insert_before bind_pool_marker (access_include_block @ [newline]) current)\<rparr>, Inr True))"

section \<open>Installation\<close>

record access_info =
  ai_changed :: bool
  ai_backups :: "(string \<times> string option) list"
  ai_default_policy :: access_action
  ai_rule_count :: nat

text \<open>The files of the current policy; \<open>init_db\<close> runs first and stays committed.\<close>

definition access_files :: "string \<Rightarrow> string option \<Rightarrow> access_db \<Rightarrow>
    access_db \<times> ((string \<times> string) list \<times> access_action \<times> nat) result" where
  "access_files ts doh db0 =
     (let (db, rules) = list_access_rules ts (access_init_db ts db0);
          (db, clients) = list_clients ts db;
          (db, policy) = get_default_policy ts db
      in (db, case render_doh_clientid_paths doh db of
                Inl e \<Rightarrow> Inl e
              | Inr paths \<Rightarrow>
                  map_sum id (\<lambda>files. (files @ [(DATA_DOH_CLIENTID_PATHS, paths)], policy, length rules))
                    (render_access_data rules (clients_by_id clients) policy (doh_base doh))))"

definition access_targets :: "(string \<times> string) list \<Rightarrow> (string \<times> string) list" where
  "access_targets files = (ACCESS_LUA_NAME, render_access_lua COMPILED_DNSDIST_DIR) # files"

definition access_changed :: "(string \<times> string) list \<Rightarrow> dnsdist_fs \<Rightarrow> bool" where
  "access_changed files fs = list_ex (\<lambda>(name, content). map_of (dd_files fs) name \<noteq> Some content) (access_targets files)"

definition install_access :: "layer_tools \<Rightarrow> string \<Rightarrow> string \<Rightarrow> (string \<times> string) list \<Rightarrow> dnsdist_fs \<Rightarrow>
    dnsdist_fs \<times> (string \<times> string option) list \<times> unit result" where
  "install_access tools stamp stage files fs =
     (case ensure_dnsdist_access_include stamp fs of
        (fs, Inl e) \<Rightarrow> (fs, [], Inl e)
      | (fs, Inr _) \<Rightarrow>
          let staged_lua = stage @ ''/'' @ ACCESS_LUA_NAME;
              staged = (ACCESS_LUA_NAME, render_access_lua stage) # files
          in if (case dd_conf fs of
                   None \<Rightarrow> False
                 | Some conf \<Rightarrow> \<not> lt_check tools (replace_all access_lua_path staged_lua conf) staged)
             then (fs, [], Inl ''dnsdist --check-config failed'')
             else case fold (install_target stamp) (access_targets files) (fs, []) of
                    (fs, backups) \<Rightarrow>
                      (fs, backups, if lt_restart tools fs then Inr () else Inl ''systemctl restart dnsdist failed''))"

definition deploy_access_layer :: "layer_tools \<Rightarrow> string \<Rightarrow> string \<Rightarrow> string \<Rightarrow> string option \<Rightarrow> access_db \<Rightarrow> dnsdist_fs \<Rightarrow>
    access_db \<times> dnsdist_fs \<times> access_info result" where
  "deploy_access_layer tools ts stamp stage doh db0 fs =
     (case access_files ts doh db0 of
        (db, Inl e) \<Rightarrow> (db, fs, Inl e)
      | (db, Inr (files, policy, n)) \<Rightarrow>
          let info = \<lparr>ai_changed = access_changed files fs, ai_backups = [], ai_default_policy = policy, ai_rule_count = n\<rparr>
          in if \<not> access_changed files fs then (db, fs, Inr info)
             else case install_access tools stamp stage files fs of
                    (fs, backups, Inr _) \<Rightarrow> (db, fs, Inr (info\<lparr>ai_backups := backups\<rparr>))
                  | (fs, backups, Inl e) \<Rightarrow> (db, restore_dnsdist_backups backups fs, Inl e))"

definition ensure_access_data_files :: "string \<Rightarrow> string option \<Rightarrow> access_db \<Rightarrow> dnsdist_fs \<Rightarrow>
    access_db \<times> dnsdist_fs \<times> bool result" where
  "ensure_access_data_files ts doh db0 fs =
     (case access_files ts doh db0 of
        (db, Inl e) \<Rightarrow> (db, fs, Inl e)
      | (db, Inr (files, _)) \<Rightarrow>
          if access_changed files fs
          then (db, fs\<lparr>dd_files := fold (\<lambda>(name, content). AList.update name content) (access_targets files) (dd_files fs)\<rparr>, Inr True)
          else (db, fs, Inr False))"

definition rollback_access_layer :: "access_info \<Rightarrow> dnsdist_fs \<Rightarrow> dnsdist_fs" where
  "rollback_access_layer info fs =
     (if \<not> ai_changed info \<or> ai_backups info = [] then fs else restore_dnsdist_backups (ai_backups info) fs)"

section \<open>Matching in dnsdist\<close>

text \<open>
  What the loader relies on: a netmask entry covers an address as the network it denotes does, and server
  names and paths are compared exactly.  An address or entry with a scope is outside the contract.
\<close>

definition unscoped :: "string \<Rightarrow> bool" where
  "unscoped v \<longleftrightarrow> CHR ''%'' \<notin> set v"

fun plain_address :: "ip \<Rightarrow> bool" where
  "plain_address (V4 n) \<longleftrightarrow> n < 2 ^ 32"
| "plain_address (V6 n sc) \<longleftrightarrow> n < 2 ^ 128 \<and> sc = None"

lemma printed_unscoped: "plain_address i \<Longrightarrow> CHR ''%'' \<notin> set (str_ip i)"
proof (cases i)
  case (V4 n)
  assume "plain_address i"
  with V4 show ?thesis using parse_v4_chars [OF parse_v4_str_v4, of n "CHR ''%''"] by (auto simp: is_ascii_digit_def)
next
  case (V6 n sc)
  assume "plain_address i"
  with V6 show ?thesis using str_v6_chars [of "CHR ''%''" n] hex_group_char_plain by auto
qed

text \<open>The host entry the loader writes for an address, and the network it denotes.\<close>

fun host_network :: "ip \<Rightarrow> network" where
  "host_network (V4 n) = Net4 n 32"
| "host_network (V6 n sc) = Net6 n sc 128"

lemma host_network_text:
  assumes "plain_address i"
  shows "ip_network (str_network (host_network i)) = Some (host_network i)" "unscoped (str_network (host_network i))"
    "plain_address a \<Longrightarrow> in_network a (host_network i) \<longleftrightarrow> i = a"
proof -
  have "net_ok (host_network i)" using assms by (cases i) (simp_all add: clear_host_def scope_ok_def)
  then show "ip_network (str_network (host_network i)) = Some (host_network i)" by (rule ip_network_printed)
  have "str_nat 32 = ''32''" "str_nat 128 = ''128''" by code_simp+
  then show "unscoped (str_network (host_network i))"
    using printed_unscoped [OF assms] by (cases i) (simp_all add: unscoped_def)
  show "plain_address a \<Longrightarrow> in_network a (host_network i) \<longleftrightarrow> i = a"
    using assms by (cases i; cases a) (auto simp: clear_host_def)
qed

text \<open>The mask of an address or network rule, in either file.\<close>

definition rule_mask :: "effective_rule \<Rightarrow> string option" where
  "rule_mask r = (case mask_v4 r of Some e \<Rightarrow> Some e | None \<Rightarrow> mask_v6 r)"

lemma unscoped_address: "ip_ok i \<Longrightarrow> unscoped (str_ip i) \<Longrightarrow> plain_address i"
  by (cases i rule: str_ip.cases) (auto simp: unscoped_def)

text \<open>An entry the loader reads back: one non-empty line.\<close>

definition line_ok :: "string \<Rightarrow> bool" where
  "line_ok e \<longleftrightarrow> e \<noteq> [] \<and> (\<forall>c\<in>set e. \<not> is_control c)"

lemma printed_no_control: "plain_address i \<Longrightarrow> c \<in> set (str_ip i) \<Longrightarrow> \<not> is_control c"
proof (cases i)
  case (V4 n)
  assume "plain_address i" "c \<in> set (str_ip i)"
  with V4 show ?thesis using parse_v4_chars [OF parse_v4_str_v4, of n c] by (auto simp: is_ascii_digit_def is_control_def Let_def)
next
  case (V6 n sc)
  assume "plain_address i" "c \<in> set (str_ip i)"
  with V6 show ?thesis using str_v6_chars [of c n]
    by (auto simp: hex_group_char_def hex_digit_val_def is_control_def Let_def split: if_splits)
qed

lemma network_line_ok:
  assumes "net_ok net" "unscoped (str_network net)"
  shows "line_ok (str_network net)"
proof -
  have "plain_address (net_ip net)"
    using assms by (intro unscoped_address) (auto simp: net_ip_ok unscoped_def str_network_ip)
  moreover have "c \<in> set (str_nat n) \<Longrightarrow> \<not> is_control c" for c n
    using str_nat_digits [of n] unfolding list_all_iff by (auto simp: is_ascii_digit_def is_control_def Let_def)
  moreover have "\<not> is_control CHR ''/''" by code_simp
  ultimately show ?thesis using printed_no_control by (auto simp: line_ok_def str_network_ip)
qed

lemma rule_mask_network:
  assumes "identifier_ok (er_kind r) (er_value r)" "unscoped (er_value r)"
  shows "(er_kind r = Kclientid \<and> clientid_ok (er_value r) \<and> rule_mask r = None) \<or>
    (\<exists>e net. er_kind r \<noteq> Kclientid \<and> rule_mask r = Some e \<and> ip_network e = Some net \<and> unscoped e \<and> line_ok e \<and>
      (\<forall>a. plain_address a \<longrightarrow> rule_matches_ip (er_kind r) (er_value r) a = in_network a net))"
  using assms(1) unfolding identifier_ok_def
proof (elim disjE exE conjE)
  assume "er_kind r = Kclientid" "clientid_ok (er_value r)"
  then show ?thesis by (simp add: rule_mask_def mask_v4_def mask_v6_def)
next
  fix i assume i: "ip_ok i" "er_kind r = ip_kind i" "er_value r = str_ip i"
  then have plain: "plain_address i" using assms(2) unscoped_address by simp
  have "str_nat 32 = ''32''" "str_nat 128 = ''128''" by code_simp+
  then have "rule_mask r = Some (str_network (host_network i))" "er_kind r \<noteq> Kclientid"
    using i(2,3) plain by (cases i; simp add: rule_mask_def mask_v4_def mask_v6_def)+
  moreover have "rule_matches_ip (er_kind r) (er_value r) a \<longleftrightarrow> i = a" for a
    using i ip_address_printed [OF i(1)] by (cases i) (auto simp: rule_matches_ip_def)
  moreover have "line_ok (str_network (host_network i))"
    by (rule network_line_ok [OF ip_network_ok [OF host_network_text(1) [OF plain]] host_network_text(2) [OF plain]])
  ultimately show ?thesis using host_network_text [OF plain] by auto
next
  fix net assume net: "net_ok net" "er_kind r = net_kind net" "er_value r = str_network net"
  then have "rule_mask r = Some (str_network net)" "er_kind r \<noteq> Kclientid"
    by (cases net; simp add: rule_mask_def mask_v4_def mask_v6_def)+
  moreover have "rule_matches_ip (er_kind r) (er_value r) a \<longleftrightarrow> in_network a net" for a
    using net ip_network_printed [OF net(1)] by (cases net) (simp_all add: rule_matches_ip_def)
  ultimately show ?thesis using ip_network_printed [OF net(1)] assms(2) net(3) network_line_ok [OF net(1)] by auto
qed

section \<open>Rendering never fails on canonical rules\<close>

lemma entries_for_iff: "e \<in> entries_for a entry rs \<longleftrightarrow> (\<exists>r\<in>set rs. er_action r = a \<and> entry r = Some e)"
  by (auto simp: entries_for_def set_map_filter)

lemma data_texts_ok:
  "\<forall>(n, es)\<in>set xs. finite es \<and> (\<forall>e\<in>es. line_ok e) \<Longrightarrow>
   \<exists>ys. data_texts xs = Inr ys \<and> map fst ys = map fst xs \<and>
     (distinct (map fst xs) \<longrightarrow> (\<forall>(n, es)\<in>set xs. set (access_lines (ys @ rest) n) = es))"
proof (induction xs)
  case (Cons x xs)
  obtain n es where x: "x = (n, es)" by (cases x)
  have lines: "\<forall>e\<in>set (sorted_list_of_set es). e \<noteq> [] \<and> (\<forall>c\<in>set e. \<not> is_control c)"
    using Cons.prems by (auto simp: x line_ok_def)
  then obtain t where t: "data_text (sorted_list_of_set es) = Inr t" using data_text_ok by blast
  with lines have "lua_lines t = sorted_list_of_set es" by (rule lua_lines_data_text)
  then have "set (lua_lines t) = es" using Cons.prems by (simp add: x)
  moreover obtain ys where ys: "data_texts xs = Inr ys" "map fst ys = map fst xs"
    "distinct (map fst xs) \<longrightarrow> (\<forall>(n, es)\<in>set xs. set (access_lines (ys @ rest) n) = es)"
    using Cons by auto
  moreover have "access_lines ((n, t) # ys @ rest) m = (if m = n then lua_lines t else access_lines (ys @ rest) m)" for m
    by (simp add: access_lines_def)
  ultimately have "data_texts (x # xs) = Inr ((n, t) # ys)" "map fst ((n, t) # ys) = map fst (x # xs)"
    "distinct (map fst (x # xs)) \<longrightarrow> (\<forall>(m, es)\<in>set (x # xs). set (access_lines (((n, t) # ys) @ rest) m) = es)"
    by (auto simp: x t image_iff split: prod.splits)
  then show ?case by blast
qed (simp add: access_lines_def)

definition rule_ok :: "effective_rule \<Rightarrow> bool" where
  "rule_ok r \<longleftrightarrow> identifier_ok (er_kind r) (er_value r) \<and> unscoped (er_value r)"

lemma rule_ok_clientid: "rule_ok r \<Longrightarrow> er_kind r = Kclientid \<Longrightarrow> clientid_ok (er_value r)"
  using rule_mask_network [of r] by (auto simp: rule_ok_def)

lemma mask_lines_ok:
  assumes "rule_ok r"
  shows "mask_v4 r = Some e \<Longrightarrow> line_ok e" "mask_v6 r = Some e \<Longrightarrow> line_ok e"
proof -
  have e: "rule_mask r = Some e \<Longrightarrow> line_ok e" using assms rule_mask_network [of r] by (auto simp: rule_ok_def)
  show "mask_v4 r = Some e \<Longrightarrow> line_ok e" using e by (simp add: rule_mask_def)
  show "mask_v6 r = Some e \<Longrightarrow> line_ok e"
    using e by (cases "er_kind r") (simp_all add: rule_mask_def mask_v4_def mask_v6_def)
qed

lemma path_lines_ok:
  assumes "\<forall>c\<in>set base. \<not> is_control c" "clientid_ok v"
  shows "line_ok (clientid_doh_path base v)"
proof -
  have "set (rstrip_by (\<lambda>c. c = CHR ''/'') base) \<subseteq> set base" by (auto simp: rstrip_by_def dest: set_dropWhileD)
  moreover have "\<not> is_control CHR ''/''" by code_simp
  moreover have "\<forall>c\<in>set v. \<not> is_control c" using assms(2) is_hex_lower_plain by (auto simp: clientid_ok_def list_all_iff)
  ultimately show ?thesis using assms(1) by (auto simp: line_ok_def clientid_doh_path_def)
qed

lemma sni_rules_ok:
  "\<forall>r\<in>set rs. er_kind r = Kclientid \<longrightarrow> clientid_ok (er_value r) \<Longrightarrow>
   \<exists>hs. sni_rules rs = Inr hs \<and> (\<forall>a. sni_for a hs =
     {h. \<exists>r\<in>set rs. er_action r = a \<and> er_kind r = Kclientid \<and> clientid_sni_hostname (er_value r) = Inr h})"
proof (induction rs)
  case (Cons r rs)
  then obtain hs where hs: "sni_rules rs = Inr hs" "\<forall>a. sni_for a hs =
     {h. \<exists>r\<in>set rs. er_action r = a \<and> er_kind r = Kclientid \<and> clientid_sni_hostname (er_value r) = Inr h}" by auto
  show ?case
  proof (cases "er_kind r = Kclientid")
    case True
    have "clientid_ok (er_value r)" using Cons.prems True by simp
    from sni_hostname_ok [OF this] obtain h where h: "clientid_sni_hostname (er_value r) = Inr h" .
    have "sni_for a ((er_action r, h) # hs) = (if er_action r = a then insert h (sni_for a hs) else sni_for a hs)" for a
      by (simp add: sni_for_def)
    with hs True h show ?thesis by auto
  qed (use hs in auto)
qed (simp add: sni_for_def)

lemma render_access_data_ok:
  assumes rules: "\<forall>r\<in>set (expand_rules rules by_id). rule_ok r" and base: "\<forall>c\<in>set base. \<not> is_control c"
  shows "\<exists>files. render_access_data rules by_id policy base = Inr files \<and> map_of files DEFAULT_POLICY_DATA = Some (action_text policy @ [newline]) \<and>
    (let rs = expand_rules rules by_id;
         hosts = (\<lambda>a. {h. \<exists>r\<in>set rs. er_action r = a \<and> er_kind r = Kclientid \<and> clientid_sni_hostname (er_value r) = Inr h})
     in set (access_lines files DATA_ALLOW_V4) = entries_for Allow mask_v4 rs \<and>
        set (access_lines files DATA_ALLOW_V6) = entries_for Allow mask_v6 rs \<and>
        set (access_lines files DATA_DENY_V4) = entries_for Deny mask_v4 rs \<and>
        set (access_lines files DATA_DENY_V6) = entries_for Deny mask_v6 rs \<and>
        set (access_lines files DATA_ALLOW_SNI) = hosts Allow \<and> set (access_lines files DATA_DENY_SNI) = hosts Deny \<and>
        set (access_lines files DATA_ALLOW_PATH) = entries_for Allow (path_entry base) rs \<and>
        set (access_lines files DATA_DENY_PATH) = entries_for Deny (path_entry base) rs)"
proof -
  define rs where "rs = expand_rules rules by_id"
  obtain hs where hs: "sni_rules rs = Inr hs" and sni: "\<And>a. sni_for a hs =
     {h. \<exists>r\<in>set rs. er_action r = a \<and> er_kind r = Kclientid \<and> clientid_sni_hostname (er_value r) = Inr h}"
    using sni_rules_ok [of rs] rules rule_ok_clientid by (auto simp: rs_def)
  have masks: "finite (entries_for a f rs)" "e \<in> entries_for a mask_v4 rs \<Longrightarrow> line_ok e" "e \<in> entries_for a mask_v6 rs \<Longrightarrow> line_ok e"
    "e \<in> entries_for a (path_entry base) rs \<Longrightarrow> line_ok e" for a f e
    using rules mask_lines_ok path_lines_ok [OF base] rule_ok_clientid
    by (auto simp: entries_for_iff rs_def path_entry_def split: if_splits) (simp add: entries_for_def)
  have hosts: "finite (sni_for a hs)" "h \<in> sni_for a hs \<Longrightarrow> line_ok h" for a h
  proof -
    show "finite (sni_for a hs)" by (simp add: sni_for_def)
    assume "h \<in> sni_for a hs"
    then obtain r where r: "rule_ok r" "er_kind r = Kclientid" "clientid_sni_hostname (er_value r) = Inr h"
      using rules by (auto simp: sni rs_def)
    obtain h' where "clientid_sni_hostname (er_value r) = Inr h'" "h' \<noteq> []" "\<forall>x\<in>set h'. \<not> is_control x"
      by (rule sni_hostname_ok [OF rule_ok_clientid [OF r(1,2)]])
    with r(3) show "line_ok h" by (simp add: line_ok_def)
  qed
  let ?xs = "[(DATA_ALLOW_V4, entries_for Allow mask_v4 rs), (DATA_ALLOW_V6, entries_for Allow mask_v6 rs),
      (DATA_DENY_V4, entries_for Deny mask_v4 rs), (DATA_DENY_V6, entries_for Deny mask_v6 rs),
      (DATA_ALLOW_SNI, sni_for Allow hs), (DATA_DENY_SNI, sni_for Deny hs),
      (DATA_ALLOW_PATH, entries_for Allow (path_entry base) rs), (DATA_DENY_PATH, entries_for Deny (path_entry base) rs)]"
  let ?p = "[(DEFAULT_POLICY_DATA, action_text policy @ [newline])]"
  have "\<forall>(n, es)\<in>set ?xs. finite es \<and> (\<forall>e\<in>es. line_ok e)" using masks hosts by auto
  from data_texts_ok [OF this, of ?p] obtain ys where ys: "data_texts ?xs = Inr ys" "map fst ys = map fst ?xs"
    "distinct (map fst ?xs) \<longrightarrow> (\<forall>(n, es)\<in>set ?xs. set (access_lines (ys @ ?p) n) = es)" by blast
  have "distinct (map fst ?xs)" "DEFAULT_POLICY_DATA \<notin> set (map fst ?xs)" by (simp_all add: access_names)
  moreover from this(2) have "map_of ys DEFAULT_POLICY_DATA = None" by (metis ys(2) map_of_eq_None_iff list.set_map)
  moreover have "render_access_data rules by_id policy base = Inr (ys @ ?p)"
    using ys(1) by (simp add: render_access_data_def rs_def [symmetric] hs)
  ultimately show ?thesis using ys(3) by (simp add: rs_def [symmetric] sni map_add_def)
qed

lemma loader_policy_read: "map_of files DEFAULT_POLICY_DATA = Some (action_text p @ [newline]) \<Longrightarrow> loader_policy files = action_text p"
  by (cases p) (simp_all add: loader_policy_def first_line_def action_text_def newline_def)

text \<open>The rules that hit a request, for one action, and the addresses the gate always lets through.\<close>

definition carries :: "string \<Rightarrow> access_request \<Rightarrow> string \<Rightarrow> bool" where
  "carries base q c \<longleftrightarrow> clientid_ok c \<and>
     ((\<exists>h. clientid_sni_hostname c = Inr h \<and> rq_sni q = Some h) \<or> rq_path q = Some (clientid_doh_path base c))"

definition loopback :: "ip \<Rightarrow> bool" where
  "loopback a \<longleftrightarrow> a = V4 2130706433 \<or> a = V6 1 None"

locale dnsdist_matchers =
  fixes mm :: "string \<Rightarrow> ip \<Rightarrow> bool"
    and sm :: "string \<Rightarrow> string \<Rightarrow> bool"
    and pm :: "string \<Rightarrow> string \<Rightarrow> bool"
  assumes mask_match: "ip_network e = Some net \<Longrightarrow> unscoped e \<Longrightarrow> plain_address a \<Longrightarrow> mm e a = in_network a net"
    and sni_match: "sm s t \<longleftrightarrow> s = t"
    and path_match: "pm p t \<longleftrightarrow> p = t"
begin

lemma rule_mask_matches:
  assumes "identifier_ok (er_kind r) (er_value r)" "unscoped (er_value r)" "plain_address a"
  shows "(\<exists>e. rule_mask r = Some e \<and> mm e a) \<longleftrightarrow> er_kind r \<noteq> Kclientid \<and> rule_matches_ip (er_kind r) (er_value r) a"
  using rule_mask_network [OF assms(1,2)] mask_match assms(3) by auto

lemma rule_hit:
  assumes r: "rule_ok r" and q: "plain_address (rq_addr q)" "\<And>c. carries base q c \<longleftrightarrow> cid = Some c"
  shows "effective_match (Some (rq_addr q)) cid r \<longleftrightarrow>
    (\<exists>e. mask_v4 r = Some e \<and> mm e (rq_addr q)) \<or> (\<exists>e. mask_v6 r = Some e \<and> mm e (rq_addr q)) \<or>
    (er_kind r = Kclientid \<and> (\<exists>h. clientid_sni_hostname (er_value r) = Inr h \<and> opt_match sm (rq_sni q) h)) \<or>
    (\<exists>p. path_entry base r = Some p \<and> opt_match pm (rq_path q) p)"
proof -
  have masks: "(\<exists>e. rule_mask r = Some e \<and> mm e a) \<longleftrightarrow> (\<exists>e. mask_v4 r = Some e \<and> mm e a) \<or> (\<exists>e. mask_v6 r = Some e \<and> mm e a)" for a
    by (cases "er_kind r") (simp_all add: rule_mask_def mask_v4_def mask_v6_def)
  show ?thesis
  proof (cases "er_kind r = Kclientid")
    case True
    have ok: "clientid_ok (er_value r)" by (rule rule_ok_clientid [OF r True])
    have "\<not> (\<exists>e. rule_mask r = Some e \<and> mm e (rq_addr q))" using r rule_mask_matches [of r "rq_addr q"] q(1) True by (auto simp: rule_ok_def)
    moreover have "effective_match (Some (rq_addr q)) cid r \<longleftrightarrow> carries base q (er_value r)"
      using True clientid_ok_plain [OF ok] by (auto simp: effective_match_def q(2))
    ultimately show ?thesis using True ok masks sni_match path_match
      by (auto simp: carries_def path_entry_def opt_match_def split: option.splits)
  next
    case False
    then show ?thesis using masks rule_mask_matches [of r "rq_addr q"] r q(1)
      by (auto simp: effective_match_def path_entry_def rule_ok_def)
  qed
qed

lemma loopback_masks:
  assumes "plain_address a"
  shows "mm ''127.0.0.1/32'' a \<or> mm ''::1/128'' a \<longleftrightarrow> loopback a"
proof -
  have "str_nat 127 = ''127''" "str_nat 0 = ''0''" "str_nat 1 = ''1''" "str_nat 32 = ''32''" by code_simp+
  then have v4: "str_network (host_network (V4 2130706433)) = ''127.0.0.1/32''" by (simp add: str_v4_def)
  have h: "hextets 1 = [0, 0, 0, 0, 0, 0, 0, 1]" by (simp add: hextets_def upt_rec)
  have "hex_nat 0 = ''0''" "hex_nat 1 = ''1''" "str_nat 128 = ''128''" by code_simp+
  then have v6: "str_network (host_network (V6 1 None)) = ''::1/128''"
    unfolding host_network.simps str_network.simps str_ip.simps str_v6_def h by simp
  have "mm (str_network (host_network i)) a \<longleftrightarrow> i = a" if "plain_address i" for i
    using mask_match [OF host_network_text(1,2) [OF that] assms] host_network_text(3) [OF that assms] by simp
  from this [of "V4 2130706433"] this [of "V6 1 None"] show ?thesis unfolding v4 v6 by (auto simp: loopback_def)
qed

lemma refused_iff:
  assumes rules: "\<forall>r\<in>set (expand_rules rules by_id). rule_ok r" and base: "\<forall>c\<in>set base. \<not> is_control c"
    and q: "plain_address (rq_addr q)" "\<And>c. carries base q c \<longleftrightarrow> cid = Some c"
  shows "\<exists>files. render_access_data rules by_id policy base = Inr files \<and>
    (access_refused mm sm pm files q \<longleftrightarrow>
     \<not> ad_allowed (evaluate_access (Some (str_ip (rq_addr q))) cid rules by_id (if loopback (rq_addr q) then Allow else policy)))"
proof -
  define rs where "rs = expand_rules rules by_id"
  define hosts where "hosts a = {h. \<exists>r\<in>set rs. er_action r = a \<and> er_kind r = Kclientid \<and> clientid_sni_hostname (er_value r) = Inr h}" for a
  define hit where "hit a \<longleftrightarrow> (\<exists>r\<in>set rs. er_action r = a \<and> effective_match (Some (rq_addr q)) cid r)" for a
  have hits: "hit a \<longleftrightarrow> (\<exists>e\<in>entries_for a mask_v4 rs. mm e (rq_addr q)) \<or> (\<exists>e\<in>entries_for a mask_v6 rs. mm e (rq_addr q)) \<or>
      (\<exists>h\<in>hosts a. opt_match sm (rq_sni q) h) \<or> (\<exists>p\<in>entries_for a (path_entry base) rs. opt_match pm (rq_path q) p)" for a
  proof -
    have "hit a \<longleftrightarrow> (\<exists>r\<in>set rs. er_action r = a \<and>
      ((\<exists>e. mask_v4 r = Some e \<and> mm e (rq_addr q)) \<or> (\<exists>e. mask_v6 r = Some e \<and> mm e (rq_addr q)) \<or>
       (er_kind r = Kclientid \<and> (\<exists>h. clientid_sni_hostname (er_value r) = Inr h \<and> opt_match sm (rq_sni q) h)) \<or>
       (\<exists>p. path_entry base r = Some p \<and> opt_match pm (rq_path q) p)))"
      unfolding hit_def using rule_hit [OF _ q] rules by (intro bex_cong) (auto simp: rs_def)
    then show ?thesis unfolding Bex_def entries_for_iff hosts_def mem_Collect_eq by blast
  qed
  obtain files where files: "render_access_data rules by_id policy base = Inr files \<and>
      map_of files DEFAULT_POLICY_DATA = Some (action_text policy @ [newline]) \<and>
        set (access_lines files DATA_ALLOW_V4) = entries_for Allow mask_v4 rs \<and>
        set (access_lines files DATA_ALLOW_V6) = entries_for Allow mask_v6 rs \<and>
        set (access_lines files DATA_DENY_V4) = entries_for Deny mask_v4 rs \<and>
        set (access_lines files DATA_DENY_V6) = entries_for Deny mask_v6 rs \<and>
        set (access_lines files DATA_ALLOW_SNI) = hosts Allow \<and> set (access_lines files DATA_DENY_SNI) = hosts Deny \<and>
        set (access_lines files DATA_ALLOW_PATH) = entries_for Allow (path_entry base) rs \<and>
        set (access_lines files DATA_DENY_PATH) = entries_for Deny (path_entry base) rs"
    using render_access_data_ok [OF rules base, of policy, unfolded Let_def, folded rs_def, folded hosts_def] by (rule exE)
  note lines = files [THEN conjunct2, THEN conjunct2]
  have "access_refused mm sm pm files q \<longleftrightarrow> hit Deny \<or> policy = Deny \<and> \<not> (hit Allow \<or> loopback (rq_addr q))"
    using loopback_masks [OF q(1)] loader_policy_read [OF files [THEN conjunct2, THEN conjunct1]]
    by (cases policy) (auto simp: access_refused_def list_ex_iff lines hits action_text_def)
  moreover have "ad_allowed (evaluate_access (Some (str_ip (rq_addr q))) cid rules by_id p) \<longleftrightarrow> \<not> hit Deny \<and> (hit Allow \<or> p = Allow)" for p
  proof -
    have "ip_ok (rq_addr q)" using q(1) by (cases "rq_addr q") (auto simp: scope_ok_def)
    then have "ip_address (str_ip (rq_addr q)) = Some (rq_addr q)" "str_ip (rq_addr q) \<noteq> []"
      using ip_address_printed str_ip_mark by fastforce+
    then show ?thesis by (simp add: evaluate_access_allowed hit_def rs_def)
  qed
  ultimately show ?thesis using files [THEN conjunct1] by (cases policy) auto
qed

end

text \<open>Python's own reading of a network as the mask, and exact comparison of the texts.\<close>

definition network_covers :: "string \<Rightarrow> ip \<Rightarrow> bool" where
  "network_covers e a = (case ip_network e of None \<Rightarrow> False | Some net \<Rightarrow> in_network a net)"

interpretation exact_matchers: dnsdist_matchers network_covers "(=)" "(=)"
  by unfold_locales (auto simp: network_covers_def)

section \<open>The files of a database\<close>

definition table_unscoped :: "access_db \<Rightarrow> bool" where
  "table_unscoped db \<longleftrightarrow> list_all (\<lambda>r. unscoped (ci_value r)) (ac_identifiers db) \<and>
     list_all (\<lambda>r. case ar_value r of None \<Rightarrow> True | Some v \<Rightarrow> unscoped v) (ac_rules db)"

lemma access_lines_append [simp]: "m \<noteq> n \<Longrightarrow> access_lines (files @ [(n, p)]) m = access_lines files m"
  by (simp add: access_lines_def map_add_def split: option.split)

lemma access_refused_paths:
  "access_refused mm sm pm (files @ [(DATA_DOH_CLIENTID_PATHS, p)]) q = access_refused mm sm pm files q"
proof -
  have "loader_policy (files @ [(DATA_DOH_CLIENTID_PATHS, p)]) = loader_policy files"
    by (simp add: loader_policy_def access_names map_add_def split: option.split)
  moreover have "access_lines (files @ [(DATA_DOH_CLIENTID_PATHS, p)]) m = access_lines files m"
    if "m \<in> {DATA_ALLOW_V4, DATA_ALLOW_V6, DATA_DENY_V4, DATA_DENY_V6, DATA_ALLOW_SNI, DATA_DENY_SNI, DATA_ALLOW_PATH, DATA_DENY_PATH}" for m
    using that by (intro access_lines_append) (auto simp: access_names)
  ultimately show ?thesis by (simp add: access_refused_def)
qed

lemma render_doh_clientid_paths_ok:
  assumes "access_ok db" "\<forall>c\<in>set (doh_base doh). \<not> is_control c"
  shows "\<exists>t. render_doh_clientid_paths doh db = Inr t"
proof -
  define vals where "vals = ci_value ` set (filter (\<lambda>r. ci_kind r = Kclientid) (ac_identifiers db)) \<union>
    set (List.map_filter (\<lambda>r. if ar_kind r = ByIdentifier Kclientid then ar_value r else None) (ac_rules db))"
  have "ip_kind i \<noteq> Kclientid" "net_kind net \<noteq> Kclientid" for i net by (cases i; simp) (cases net; simp)
  then have kind: "identifier_ok Kclientid v \<Longrightarrow> clientid_ok v" for v unfolding identifier_ok_def by metis
  have "clientid_ok v" if "v \<in> vals" for v
    using that assms(1) unfolding vals_def
    by (auto simp: access_ok_def identifiers_ok_def access_rules_ok_def access_rule_ok_def set_map_filter
      intro!: kind split: if_splits)
  then have "\<forall>e\<in>set (sorted_list_of_set (clientid_doh_path (doh_base doh) ` vals)). \<forall>c\<in>set e. \<not> is_control c"
    using path_lines_ok [OF assms(2)] by (auto simp: line_ok_def vals_def)
  then show ?thesis using data_text_ok by (auto simp: render_doh_clientid_paths_def vals_def)
qed

lemma stored_rules_ok:
  assumes "access_ok db" "table_unscoped db" "set rules = set (ac_rules db)"
  shows "\<forall>r\<in>set (expand_rules rules (clients_by_id (map (view_client db) cs))). rule_ok r"
  using expanded_rules_ok [OF assms(1)] assms(2) unfolding expand_rules_set [OF assms(3)]
  by (fastforce simp: rule_ok_def table_unscoped_def list_all_iff split: option.splits)

lemma access_files_eq:
  assumes "access_ok db0" and db: "db = access_init_db ts db0"
  shows "fst (access_files ts doh db0) = db" "list_access_rules ts' db = (db, snd (list_access_rules ts' db))"
    "list_clients ts' db = (db, snd (list_clients ts' db))" "get_default_policy ts' db = (db, snd (get_default_policy ts' db))"
    "set (snd (list_access_rules ts' db)) = set (ac_rules db)" "snd (list_clients ts' db) = map (view_client db) (sort_key (\<lambda>c. nocase (cl_name c)) (ac_clients db))"
  using access_init_db_again [OF assms(1), of _ ts]
  by (simp_all add: access_files_def list_access_rules_def list_clients_def get_default_policy_def Let_def db)

lemma access_files_render:
  assumes "access_ok db0" and db: "db = access_init_db ts db0" and "render_doh_clientid_paths doh db = Inr paths"
    and "render_access_data (snd (list_access_rules ts db)) (clients_by_id (snd (list_clients ts db))) (snd (get_default_policy ts db)) (doh_base doh) = Inr files"
  shows "access_files ts doh db0 = (db, Inr (files @ [(DATA_DOH_CLIENTID_PATHS, paths)], snd (get_default_policy ts db), length (snd (list_access_rules ts db))))"
proof -
  obtain rules clients policy where "list_access_rules ts db = (db, rules)" "list_clients ts db = (db, clients)"
    "get_default_policy ts db = (db, policy)" using access_files_eq(2-4) [OF assms(1) db] by blast
  then show ?thesis using assms(3,4) by (simp add: access_files_def db [symmetric])
qed

section \<open>Installing is all or nothing\<close>

lemma data_texts_names: "data_texts xs = Inr ys \<Longrightarrow> map fst ys = map fst xs"
  by (induction xs arbitrary: ys rule: data_texts.induct) (auto split: sum.splits)

lemma render_access_data_names:
  assumes "render_access_data rules by_id policy base = Inr files"
  shows "map fst files = [DATA_ALLOW_V4, DATA_ALLOW_V6, DATA_DENY_V4, DATA_DENY_V6, DATA_ALLOW_SNI, DATA_DENY_SNI,
      DATA_ALLOW_PATH, DATA_DENY_PATH, DEFAULT_POLICY_DATA]"
proof -
  obtain hs where "sni_rules (expand_rules rules by_id) = Inr hs"
    using assms by (auto simp: render_access_data_def Let_def split: sum.splits)
  with assms obtain ys where "files = ys @ [(DEFAULT_POLICY_DATA, action_text policy @ [newline])]"
    and ys: "data_texts
        [(DATA_ALLOW_V4, entries_for Allow mask_v4 (expand_rules rules by_id)), (DATA_ALLOW_V6, entries_for Allow mask_v6 (expand_rules rules by_id)),
         (DATA_DENY_V4, entries_for Deny mask_v4 (expand_rules rules by_id)), (DATA_DENY_V6, entries_for Deny mask_v6 (expand_rules rules by_id)),
         (DATA_ALLOW_SNI, sni_for Allow hs), (DATA_DENY_SNI, sni_for Deny hs),
         (DATA_ALLOW_PATH, entries_for Allow (path_entry base) (expand_rules rules by_id)),
         (DATA_DENY_PATH, entries_for Deny (path_entry base) (expand_rules rules by_id))] = Inr ys" (is "data_texts ?xs = _")
    unfolding render_access_data_def Let_def by (cases "data_texts ?xs") (auto simp del: data_texts.simps)
  with data_texts_names [OF ys] show ?thesis by simp
qed

lemma access_targets_distinct:
  assumes "access_files ts doh db0 = (db, Inr (files, policy, n))"
  shows "distinct (map fst (access_targets files))"
proof -
  obtain d1 rules d2 cs d3 p where "list_access_rules ts (access_init_db ts db0) = (d1, rules)" "list_clients ts d1 = (d2, cs)"
    "get_default_policy ts d2 = (d3, p)" by (metis surj_pair)
  with assms obtain ys paths where "files = ys @ [(DATA_DOH_CLIENTID_PATHS, paths)]"
    and ys: "render_access_data rules (clients_by_id cs) p (doh_base doh) = Inr ys"
    by (cases "render_access_data rules (clients_by_id cs) p (doh_base doh)") (auto simp: access_files_def split: sum.splits)
  with render_access_data_names [OF ys] show ?thesis by (simp add: access_targets_def access_names)
qed

lemma access_include_keeps_files: "ensure_dnsdist_access_include stamp fs = (fs', r) \<Longrightarrow> dd_files fs' = dd_files fs"
  by (auto simp: ensure_dnsdist_access_include_def split: option.splits if_splits)

lemma install_access_undoable:
  assumes "install_access tools stamp stage files fs = (fs', backups, r)" "distinct (map fst (access_targets files))"
  shows "(backups = [] \<and> isl r \<and> dd_files fs' = dd_files fs) \<or>
    (undoable stamp (map_of (dd_files fs)) (fst ` set (access_targets files)) backups fs' \<and>
     (\<forall>(n, c)\<in>set (access_targets files). map_of (dd_files fs') n = Some c) \<and>
     (\<forall>n. n \<notin> fst ` set (access_targets files) \<longrightarrow> map_of (dd_files fs') n = map_of (dd_files fs) n))"
proof -
  obtain f1 r1 where inc: "ensure_dnsdist_access_include stamp fs = (f1, r1)"
    by (cases "ensure_dnsdist_access_include stamp fs")
  have f1: "dd_files f1 = dd_files fs" by (rule access_include_keeps_files [OF inc])
  obtain f2 b2 where inst: "fold (install_target stamp) (access_targets files) (f1, []) = (f2, b2)"
    by (cases "fold (install_target stamp) (access_targets files) (f1, [])")
  note installed = install_targets_undoable [OF undoable_start assms(2) _ inst, simplified]
  show ?thesis using assms(1) installed f1 by (auto simp: install_access_def inc inst Let_def split: sum.splits if_splits)
qed

section \<open>Properties\<close>

text \<open>
  C7: the compiled access rules decide like the policy evaluation of the web interface.  On a database any
  sequence of operations produced, without scoped addresses and with a printable DoH path, the data files
  are rendered, and dnsdist refuses a request exactly when \<^verbatim>\<open>evaluate_access\<close> does for its address and the
  ClientID its server name or path carries, with the default policy taken as allow for the two loopback
  addresses.
\<close>

theorem access_layer_agrees:
  assumes "dnsdist_matchers mm sm pm" and "access_reachable db0" and "table_unscoped (access_init_db ts db0)"
    and "\<forall>c\<in>set (doh_base doh). \<not> is_control c"
    and "plain_address (rq_addr q)" and "\<forall>c. carries (doh_base doh) q c \<longleftrightarrow> cid = Some c"
  shows "\<exists>db files policy n. access_files ts doh db0 = (db, Inr (files, policy, n)) \<and> policy = snd (get_default_policy ts db) \<and>
    (access_refused mm sm pm files q \<longleftrightarrow>
     \<not> ad_allowed (evaluate_access (Some (str_ip (rq_addr q))) cid (snd (list_access_rules ts db))
        (clients_by_id (snd (list_clients ts db))) (if loopback (rq_addr q) then Allow else policy)))"
proof -
  define db where "db = access_init_db ts db0"
  have ok0: "access_ok db0" by (rule access_reachable_ok [OF assms(2)])
  then have ok: "access_ok db" unfolding db_def by (rule access_init_db_ok)
  note eqs = access_files_eq [OF ok0 db_def]
  obtain paths where paths: "render_doh_clientid_paths doh db = Inr paths"
    using render_doh_clientid_paths_ok [OF ok assms(4)] by blast
  have "\<forall>r\<in>set (expand_rules (snd (list_access_rules ts db)) (clients_by_id (snd (list_clients ts db)))). rule_ok r"
    unfolding eqs(6) by (rule stored_rules_ok [OF ok assms(3) [folded db_def] eqs(5)])
  from dnsdist_matchers.refused_iff [OF assms(1) this assms(4,5), of cid "snd (get_default_policy ts db)"] assms(6)
  obtain files where files: "render_access_data (snd (list_access_rules ts db)) (clients_by_id (snd (list_clients ts db)))
      (snd (get_default_policy ts db)) (doh_base doh) = Inr files"
    "access_refused mm sm pm files q \<longleftrightarrow>
     \<not> ad_allowed (evaluate_access (Some (str_ip (rq_addr q))) cid (snd (list_access_rules ts db))
        (clients_by_id (snd (list_clients ts db))) (if loopback (rq_addr q) then Allow else snd (get_default_policy ts db)))" by blast
  from access_files_render [OF ok0 db_def paths files(1)] files(2) show ?thesis by (auto simp: access_refused_paths)
qed

definition denied_access :: access_db where
  "denied_access = fst (add_access_rule ''t1'' ''deny'' ''ipv4_cidr'' (Some ''10.0.0.0/8'') None fresh_access)"

lemma denied_access_reachable: "access_reachable denied_access"
  unfolding denied_access_def by (rule access_reachable.ar_step [OF access_reachable.ar_start as_rule])

lemma denied_access_table:
  "access_init_db ''t2'' denied_access = denied_access" "ac_identifiers denied_access = []" "ac_clients denied_access = []"
  "ac_rules denied_access = [\<lparr>ar_id = 1, ar_action = Deny, ar_kind = ByIdentifier Kipv4_cidr, ar_value = Some ''10.0.0.0/8'',
     ar_client = None, ar_created_at = ''t1''\<rparr>]" "table_unscoped denied_access"
proof -
  have n: "normalize_identifier ''10.0.0.0/8'' = Inr (Kipv4_cidr, ''10.0.0.0/8'')"
    using normalize_network [OF aliased_network(1)] by (simp only: aliased_network(2)) simp
  have eq: "denied_access = fresh_access\<lparr>ac_settings := Some (Allow, ''t1''), ac_rules := [\<lparr>ar_id = 1, ar_action = Deny,
    ar_kind = ByIdentifier Kipv4_cidr, ar_value = Some ''10.0.0.0/8'', ar_client = None, ar_created_at = ''t1''\<rparr>]\<rparr>"
    by (simp add: denied_access_def add_access_rule_def read_action_def rule_target_def n access_init_db_def migrate_client_aliases_def
      fresh_access_def insert_row_def next_rowid_def Let_def)
  show "access_init_db ''t2'' denied_access = denied_access" "ac_identifiers denied_access = []" "ac_clients denied_access = []"
    "ac_rules denied_access = [\<lparr>ar_id = 1, ar_action = Deny, ar_kind = ByIdentifier Kipv4_cidr, ar_value = Some ''10.0.0.0/8'',
     ar_client = None, ar_created_at = ''t1''\<rparr>]" "table_unscoped denied_access"
    by (simp_all add: eq fresh_access_def access_init_db_def migrate_client_aliases_def table_unscoped_def unscoped_def)
qed

theorem access_layer_agrees_witness:
  "\<exists>db files policy n. access_files ''t2'' None denied_access = (db, Inr (files, policy, n)) \<and> policy = snd (get_default_policy ''t2'' db) \<and>
    (access_refused network_covers (=) (=) files \<lparr>rq_addr = V4 167772161, rq_sni = None, rq_path = None\<rparr> \<longleftrightarrow>
     \<not> ad_allowed (evaluate_access (Some (str_ip (V4 167772161))) None (snd (list_access_rules ''t2'' db))
        (clients_by_id (snd (list_clients ''t2'' db))) (if loopback (V4 167772161) then Allow else policy)))"
proof -
  let ?q = "\<lparr>rq_addr = V4 167772161, rq_sni = None, rq_path = None\<rparr>"
  have "list_all (\<lambda>c. \<not> is_control c) (doh_base None)" by code_simp
  then have "\<forall>c\<in>set (doh_base None). \<not> is_control c" unfolding list_all_iff .
  moreover have "table_unscoped (access_init_db ''t2'' denied_access)" by (simp add: denied_access_table)
  ultimately show ?thesis
    using access_layer_agrees [OF exact_matchers.dnsdist_matchers_axioms denied_access_reachable, of "''t2''" None ?q None]
    by (simp add: carries_def)
qed

text \<open>
  the access layer is installed completely or not at all.  When the deployment raises, every compiled
  file reads as before; when it succeeds, the loader and the ten data files hold the texts of the current
  policy, all other files read as before, and the caller's rollback brings every file back.
\<close>

theorem access_layer_all_or_nothing:
  assumes "deploy_access_layer tools ts stamp stage doh db fs = (db', fs', r)"
  shows "case r of
      Inl _ \<Rightarrow> map_of (dd_files fs') = map_of (dd_files fs)
    | Inr info \<Rightarrow> (\<exists>files policy n. access_files ts doh db = (db', Inr (files, policy, n)) \<and>
        (\<forall>(name, content)\<in>set (access_targets files). map_of (dd_files fs') name = Some content) \<and>
        (\<forall>name. name \<notin> fst ` set (access_targets files) \<longrightarrow> map_of (dd_files fs') name = map_of (dd_files fs) name)) \<and>
        map_of (dd_files (rollback_access_layer info fs')) = map_of (dd_files fs)"
proof -
  obtain d out where files: "access_files ts doh db = (d, out)" by (cases "access_files ts doh db")
  show ?thesis
  proof (cases out)
    case (Inl e)
    then show ?thesis using assms by (auto simp: deploy_access_layer_def files)
  next
    case (Inr x)
    obtain fl policy n where x: "x = (fl, policy, n)" by (cases x)
    note names = access_targets_distinct [OF files [unfolded Inr x]]
    show ?thesis
    proof (cases "access_changed fl fs")
      case False
      then show ?thesis using assms Inr x
        by (auto simp: deploy_access_layer_def rollback_access_layer_def files access_changed_def Let_def list_ex_iff)
    next
      case True
      obtain f1 bk o' where inst: "install_access tools stamp stage fl fs = (f1, bk, o')"
        by (cases "install_access tools stamp stage fl fs")
      show ?thesis using assms Inr x True install_access_undoable [OF inst names] restore_undoes [of stamp "map_of (dd_files fs)" _ bk f1]
        by (cases o') (auto simp: deploy_access_layer_def rollback_access_layer_def Let_def files inst restore_dnsdist_backups_def)
    qed
  qed
qed

theorem access_layer_all_or_nothing_witness:
  "case deploy_access_layer \<lparr>lt_check = (\<lambda>_ _. True), lt_restart = (\<lambda>_. False)\<rparr> ''t1'' ''7'' ''/s'' None fresh_access
      \<lparr>dd_conf = Some access_lua_path, dd_packaged = None, dd_files = [(DATA_DENY_V4, ''old'')], dd_backups = []\<rparr> of
     (db', fs', r) \<Rightarrow> isl r \<and> map_of (dd_files fs') = [DATA_DENY_V4 \<mapsto> ''old'']"
  (is "case ?d of (db', fs', r) \<Rightarrow> _")
proof -
  obtain db' fs' r where d: "?d = (db', fs', r)" by (metis prod_cases3)
  have "\<exists>ys p n. snd (access_files ''t1'' None fresh_access) = Inr (ys, p, n)"
    by (simp add: access_files_def list_access_rules_def list_clients_def get_default_policy_def access_init_db_def
      migrate_client_aliases_def fresh_access_def render_doh_clientid_paths_def render_access_data_def expand_rules_def
      entries_for_def sni_for_def data_text_def map_filter_simps Let_def)
  then obtain ys p n d0 where f: "access_files ''t1'' None fresh_access = (d0, Inr (ys, p, n))" by (metis prod.collapse)
  have "isl (snd (snd ?d))"
    by (simp add: deploy_access_layer_def f access_changed_def access_targets_def access_names install_access_def Let_def
        ensure_dnsdist_access_include_def contains_iff_sublist split: prod.split)
  then show ?thesis using access_layer_all_or_nothing [OF d] by (cases r) (auto simp: d)
qed

end
