(* ===== verification/Dns_Wire.thy ===== *)
theory Dns_Wire
  imports Client_Ids "HOL-Library.Word"
begin

unbundle bit_operations_syntax

text \<open>
  DNS messages on the wire, as the upstream probes build and read them (\<^verbatim>\<open>app/upstream_dns.py\<close>).  A message is a
  list of bytes, its header fields are 16-bit words.  Shown: the reader gets back exactly the addresses of the
  answer section of every well-formed response to the query the program sends.
\<close>

type_synonym bytes = "8 word list"

section \<open>Big-endian fields\<close>

definition pack16 :: "16 word \<Rightarrow> bytes" where
  "pack16 w = [ucast (drop_bit 8 w), ucast w]"

definition unpack16 :: "bytes \<Rightarrow> nat \<Rightarrow> 16 word" where
  "unpack16 packet i = push_bit 8 (ucast (packet ! i)) OR ucast (packet ! Suc i)"

section \<open>Queries\<close>

fun encode_labels :: "string list \<Rightarrow> bytes result" where
  "encode_labels [] = Inr []"
| "encode_labels (part # parts) =
     (if length part > 255 then Inl ''bytes must be in range(0, 256)''
      else if \<not> py_isascii part then Inl ''ordinal not in range(128)''
      else map_sum id (\<lambda>rest. of_nat (length part) # map of_char part @ rest) (encode_labels parts))"

definition build_dns_query :: "string \<Rightarrow> 16 word \<Rightarrow> int \<Rightarrow> (16 word \<times> bytes) result" where
  "build_dns_query qname qtype query_id =
     (let qid = word_of_int query_id :: 16 word in
      map_sum id (\<lambda>labels. (qid, pack16 qid @ pack16 0x0100 @ pack16 1 @ pack16 0 @ pack16 0 @ pack16 0 @
          labels @ [0] @ pack16 qtype @ pack16 1))
        (encode_labels (split_char dot (rstrip_by (\<lambda>c. c = dot) qname))))"

section \<open>Responses\<close>

definition truncated :: string where "truncated = ''truncated DNS response''"

function skip_dns_name :: "bytes \<Rightarrow> nat \<Rightarrow> nat result" where
  "skip_dns_name packet offset =
     (if offset \<ge> length packet then Inl truncated
      else let len = packet ! offset in
        if len AND 0xC0 = 0xC0 then Inr (offset + 2)
        else if len = 0 then Inr (offset + 1)
        else skip_dns_name packet (offset + 1 + unat len))"
  by pat_completeness auto
termination by (relation "measure (\<lambda>(packet, offset). length packet - offset)") auto

declare skip_dns_name.simps [simp del]

fun skip_questions :: "bool \<Rightarrow> bytes \<Rightarrow> nat \<Rightarrow> nat \<Rightarrow> nat result" where
  "skip_questions check packet offset 0 = Inr offset"
| "skip_questions check packet offset (Suc n) =
     (case skip_dns_name packet offset of
        Inl e \<Rightarrow> Inl e
      | Inr o2 \<Rightarrow>
          if check \<and> o2 + 4 > length packet then Inl ''truncated DNS question''
          else skip_questions check packet (o2 + 4) n)"

definition validate_dns_response :: "bytes \<Rightarrow> 16 word \<Rightarrow> bool \<Rightarrow> unit result" where
  "validate_dns_response packet query_id require_answer =
     (if length packet < 12 then Inl truncated
      else let rid = unpack16 packet 0; flags = unpack16 packet 2; qdcount = unpack16 packet 4; ancount = unpack16 packet 6;
               rcode = flags AND 0x000F
        in if rid \<noteq> query_id then Inl ''mismatched DNS response''
           else if flags AND 0x8000 = 0 then Inl ''DNS response bit was not set''
           else if rcode \<noteq> 0 then Inl (''DNS response rcode '' @ str_nat (unat rcode))
           else if require_answer \<and> unat ancount < 1 then Inl ''DNS response contained no answers''
           else map_sum id (\<lambda>_. ()) (skip_questions True packet 12 (unat qdcount)))"

text \<open>\<^verbatim>\<open>ipaddress.ip_address\<close> on bytes.\<close>

definition bytes_val :: "bytes \<Rightarrow> nat" where
  "bytes_val bs = foldl (\<lambda>a b. a * 256 + unat b) 0 bs"

definition ip_of_bytes :: "bytes \<Rightarrow> ip option" where
  "ip_of_bytes bs = (if length bs = 4 then Some (V4 (bytes_val bs)) else if length bs = 16 then Some (V6 (bytes_val bs) None) else None)"

fun read_answers :: "bytes \<Rightarrow> 16 word \<Rightarrow> nat \<Rightarrow> nat \<Rightarrow> string list result" where
  "read_answers packet qtype offset 0 = Inr []"
| "read_answers packet qtype offset (Suc n) =
     (case skip_dns_name packet offset of
        Inl e \<Rightarrow> Inl e
      | Inr o2 \<Rightarrow>
          if o2 + 10 > length packet then Inl ''truncated DNS answer''
          else let rtype = unpack16 packet o2; rdlength = unat (unpack16 packet (o2 + 8));
                   rdata = take rdlength (drop (o2 + 10) packet)
            in if rtype = qtype \<and> (qtype = 1 \<and> rdlength = 4 \<or> qtype = 28 \<and> rdlength = 16) then
                 (case ip_of_bytes rdata of
                    None \<Rightarrow> Inl ''does not appear to be an IPv4 or IPv6 address''
                  | Some i \<Rightarrow> map_sum id (\<lambda>rest. str_ip i # rest) (read_answers packet qtype (o2 + 10 + rdlength) n))
               else read_answers packet qtype (o2 + 10 + rdlength) n)"

definition extract_dns_addresses :: "bytes \<Rightarrow> 16 word \<Rightarrow> 16 word \<Rightarrow> string list result" where
  "extract_dns_addresses packet query_id qtype =
     (case validate_dns_response packet query_id False of
        Inl e \<Rightarrow> Inl e
      | Inr _ \<Rightarrow>
          (case skip_questions False packet 12 (unat (unpack16 packet 4)) of
             Inl e \<Rightarrow> Inl e
           | Inr offset \<Rightarrow> read_answers packet qtype offset (unat (unpack16 packet 6))))"

section \<open>Reading what was written\<close>

lemma unpack_pack: "unpack16 (a @ pack16 w @ b) (length a) = w"
proof -
  have "(a @ pack16 w @ b) ! length a = ucast (drop_bit 8 w)" "(a @ pack16 w @ b) ! Suc (length a) = ucast w"
    by (simp_all add: pack16_def nth_append)
  moreover have "push_bit 8 (ucast (ucast (drop_bit 8 w) :: 8 word)) OR ucast (ucast w :: 8 word) = w"
    by (rule bit_word_eqI) (auto simp: bit_simps)
  ultimately show ?thesis by (simp add: unpack16_def)
qed

lemma length_pack16 [simp]: "length (pack16 w) = 2"
  by (simp add: pack16_def)

text \<open>Names on the wire: labels of 1 to 63 bytes, ended by the root or by a compression pointer.\<close>

inductive wire_name :: "bytes \<Rightarrow> bool" where
  wn_root: "wire_name [0]"
| wn_pointer: "b AND 0xC0 = 0xC0 \<Longrightarrow> wire_name [b, b']"
| wn_label: "0 < length l \<Longrightarrow> length l < 64 \<Longrightarrow> wire_name n \<Longrightarrow> wire_name (of_nat (length l) # l @ n)"

lemma small_label:
  assumes "0 < k" "k < 64"
  shows "(of_nat k :: 8 word) AND 0xC0 \<noteq> 0xC0" "(of_nat k :: 8 word) \<noteq> 0" "unat (of_nat k :: 8 word) = k"
proof -
  show un: "unat (of_nat k :: 8 word) = k" using assms by (simp add: unat_of_nat)
  then show "(of_nat k :: 8 word) \<noteq> 0" using assms(1) by (metis less_irrefl unat_0)
  have "(of_nat k :: 8 word) < 0xC0" using un assms(2) by (simp add: word_less_nat_alt)
  then show "(of_nat k :: 8 word) AND 0xC0 \<noteq> 0xC0" by (metis leD word_and_le2)
qed

lemma skip_wire_name:
  "wire_name n \<Longrightarrow> skip_dns_name (pre @ n @ post) (length pre) = Inr (length pre + length n)"
proof (induction n arbitrary: pre rule: wire_name.induct)
  case wn_root
  then show ?case by (subst skip_dns_name.simps) simp
next
  case (wn_pointer b b')
  then show ?case by (subst skip_dns_name.simps) simp
next
  case (wn_label l n)
  let ?p = "pre @ of_nat (length l) # l"
  have "skip_dns_name (?p @ n @ post) (length ?p) = Inr (length ?p + length n)" by (rule wn_label.IH)
  moreover have "length pre + 1 + unat (of_nat (length l) :: 8 word) = length ?p" using small_label(3) wn_label.hyps by simp
  ultimately show ?case using small_label [of "length l"] wn_label.hyps by (subst skip_dns_name.simps) (simp add: Let_def)
qed

lemma encode_labels_wire:
  assumes "encode_labels ls = Inr e" "\<forall>l\<in>set ls. 0 < length l \<and> length l < 64"
  shows "wire_name (e @ [0])"
  using assms
proof (induction ls arbitrary: e)
  case (Cons l ls)
  then obtain e' where e: "encode_labels ls = Inr e'" "e = of_nat (length l) # map of_char l @ e'"
    by (cases "encode_labels ls") (auto split: if_splits)
  have "wire_name (of_nat (length (map of_char l :: bytes)) # map of_char l @ (e' @ [0]))"
    using Cons e(1) by (intro wn_label) auto
  then show ?case by (simp add: e(2))
qed (simp add: wn_root)

record answer =
  an_name :: bytes
  an_type :: "16 word"
  an_class :: "16 word"
  an_ttl :: bytes
  an_data :: bytes

definition answer_ok :: "answer \<Rightarrow> bool" where
  "answer_ok a \<longleftrightarrow> wire_name (an_name a) \<and> length (an_ttl a) = 4 \<and> length (an_data a) < 2 ^ 16"

definition answer_bytes :: "answer \<Rightarrow> bytes" where
  "answer_bytes a = an_name a @ pack16 (an_type a) @ pack16 (an_class a) @ an_ttl a @ pack16 (of_nat (length (an_data a))) @ an_data a"

definition address_answer :: "16 word \<Rightarrow> answer \<Rightarrow> bool" where
  "address_answer qtype a \<longleftrightarrow> an_type a = qtype \<and> (qtype = 1 \<and> length (an_data a) = 4 \<or> qtype = 28 \<and> length (an_data a) = 16)"

definition answer_addresses :: "16 word \<Rightarrow> answer list \<Rightarrow> string list" where
  "answer_addresses qtype answers = map (\<lambda>a. str_ip (the (ip_of_bytes (an_data a)))) (filter (address_answer qtype) answers)"

lemma read_answers_written:
  "\<forall>a\<in>set answers. answer_ok a \<Longrightarrow>
   read_answers (pre @ concat (map answer_bytes answers) @ post) qtype (length pre) (length answers) = Inr (answer_addresses qtype answers)"
proof (induction answers arbitrary: pre)
  case (Cons a answers)
  let ?rest = "concat (map answer_bytes answers) @ post" and ?n = "length (an_data a)"
  let ?p = "pre @ concat (map answer_bytes (a # answers)) @ post" and ?o = "length pre + length (an_name a)"
  have ok: "wire_name (an_name a)" "length (an_ttl a) = 4" "?n < 2 ^ 16" using Cons.prems by (auto simp: answer_ok_def)
  have "?p = pre @ an_name a @ (pack16 (an_type a) @ pack16 (an_class a) @ an_ttl a @ pack16 (of_nat ?n) @ an_data a @ ?rest)"
    by (simp add: answer_bytes_def)
  then have skip: "skip_dns_name ?p (length pre) = Inr ?o" using skip_wire_name [OF ok(1)] by metis
  have "?p = (pre @ an_name a) @ pack16 (an_type a) @ (pack16 (an_class a) @ an_ttl a @ pack16 (of_nat ?n) @ an_data a @ ?rest)"
    by (simp add: answer_bytes_def)
  then have type: "unpack16 ?p ?o = an_type a" using unpack_pack by (metis length_append)
  have "?p = (pre @ an_name a @ pack16 (an_type a) @ pack16 (an_class a) @ an_ttl a) @ pack16 (of_nat ?n) @ (an_data a @ ?rest)"
    by (simp add: answer_bytes_def)
  moreover have "length (pre @ an_name a @ pack16 (an_type a) @ pack16 (an_class a) @ an_ttl a) = ?o + 8" by (simp add: ok(2))
  ultimately have "unpack16 ?p (?o + 8) = of_nat ?n" using unpack_pack by metis
  then have len: "unat (unpack16 ?p (?o + 8)) = ?n" using ok(3) by (simp add: unat_of_nat)
  have split: "?p = (pre @ an_name a @ pack16 (an_type a) @ pack16 (an_class a) @ an_ttl a @ pack16 (of_nat ?n)) @ (an_data a @ ?rest)"
    "length (pre @ an_name a @ pack16 (an_type a) @ pack16 (an_class a) @ an_ttl a @ pack16 (of_nat ?n)) = ?o + 10"
    by (simp_all add: answer_bytes_def ok(2))
  then have data: "take ?n (drop (?o + 10) ?p) = an_data a" "?o + 10 \<le> length ?p" by (metis append_eq_conv_conj, metis le_add1 length_append)
  have IH: "read_answers ?p qtype (?o + 10 + ?n) (length answers) = Inr (answer_addresses qtype answers)"
  proof -
    have "length (answer_bytes a) = length (an_name a) + (10 + ?n)" by (simp add: answer_bytes_def ok(2))
    then show ?thesis using Cons.IH [of "pre @ answer_bytes a"] Cons.prems by (simp add: add.assoc)
  qed
  show ?case
  proof (cases "address_answer qtype a")
    case True
    then have "ip_of_bytes (an_data a) \<noteq> None" by (auto simp: address_answer_def ip_of_bytes_def)
    with True show ?thesis using skip type len data IH
      by (auto simp: address_answer_def answer_addresses_def Let_def)
  next
    case False
    then show ?thesis using skip type len data IH by (auto simp: address_answer_def answer_addresses_def Let_def)
  qed
qed (simp add: answer_addresses_def)

text \<open>A response to \<open>query\<close>: its question section, and the given answers.\<close>

definition dns_response :: "16 word \<Rightarrow> 16 word \<Rightarrow> bytes \<Rightarrow> answer list \<Rightarrow> bytes" where
  "dns_response qid flags query answers =
     pack16 qid @ pack16 flags @ pack16 1 @ pack16 (of_nat (length answers)) @ pack16 0 @ pack16 0 @
     drop 12 query @ concat (map answer_bytes answers)"

lemma response_fields:
  "unpack16 (dns_response qid flags query answers) 0 = qid" "unpack16 (dns_response qid flags query answers) 2 = flags"
  "unpack16 (dns_response qid flags query answers) 4 = 1"
  "unpack16 (dns_response qid flags query answers) 6 = of_nat (length answers)"
proof -
  have at: "unpack16 (a @ pack16 w @ b) i = w" if "length a = i" for a b w i using unpack_pack [of a w b] that by simp
  show "unpack16 (dns_response qid flags query answers) 0 = qid" unfolding dns_response_def using unpack_pack [of "[]"] by simp
  show "unpack16 (dns_response qid flags query answers) 2 = flags" unfolding dns_response_def by (rule at) simp
  show "unpack16 (dns_response qid flags query answers) 4 = 1"
    unfolding dns_response_def using at [of "pack16 qid @ pack16 flags" 4 1] by simp
  show "unpack16 (dns_response qid flags query answers) 6 = of_nat (length answers)"
    unfolding dns_response_def using at [of "pack16 qid @ pack16 flags @ pack16 1" 6 "of_nat (length answers)"] by simp
qed

lemma response_read:
  assumes q: "build_dns_query qname qtype query_id = Inr (qid, query)"
    and labels: "\<forall>l\<in>set (split_char dot (rstrip_by (\<lambda>c. c = dot) qname)). 0 < length l \<and> length l < 64"
    and flags: "flags AND 0x8000 \<noteq> 0" "flags AND 0x000F = 0"
    and answers: "\<forall>a\<in>set answers. answer_ok a" "length answers < 2 ^ 16"
  shows "validate_dns_response (dns_response qid flags query answers) qid need = (if need \<and> answers = [] then Inl ''DNS response contained no answers'' else Inr ())"
    and "extract_dns_addresses (dns_response qid flags query answers) qid qtype = Inr (answer_addresses qtype answers)"
proof -
  let ?r = "dns_response qid flags query answers"
  define hdr where "hdr = pack16 qid @ pack16 flags @ pack16 1 @ pack16 (of_nat (length answers)) @ pack16 0 @ pack16 0"
  obtain e where e: "encode_labels (split_char dot (rstrip_by (\<lambda>c. c = dot) qname)) = Inr e"
    "query = pack16 qid @ pack16 0x0100 @ pack16 1 @ pack16 0 @ pack16 0 @ pack16 0 @ e @ [0] @ pack16 qtype @ pack16 1"
    using q by (cases "encode_labels (split_char dot (rstrip_by (\<lambda>c. c = dot) qname))") (auto simp: build_dns_query_def Let_def)
  have r: "?r = hdr @ (e @ [0]) @ (pack16 qtype @ pack16 1 @ concat (map answer_bytes answers))" and hdr: "length hdr = 12"
    by (simp_all add: dns_response_def e(2) hdr_def)
  have skip: "skip_dns_name ?r 12 = Inr (12 + length (e @ [0]))"
    using skip_wire_name [OF encode_labels_wire [OF e(1) labels], of hdr] r hdr by simp
  have len: "length ?r = 12 + length (e @ [0]) + 4 + length (concat (map answer_bytes answers))" by (simp add: r hdr)
  have n: "unat (of_nat (length answers) :: 16 word) = length answers" using answers(2) by (simp add: unat_of_nat)
  have qs: "skip_questions check ?r 12 (unat (1 :: 16 word)) = Inr (12 + length (e @ [0]) + 4)" for check
    using skip len by simp
  show v: "validate_dns_response ?r qid need = (if need \<and> answers = [] then Inl ''DNS response contained no answers'' else Inr ())" for need
    using flags len qs by (auto simp: validate_dns_response_def response_fields n Let_def simp del: One_nat_def)
  have "read_answers ?r qtype (12 + length (e @ [0]) + 4) (length answers) = Inr (answer_addresses qtype answers)"
    using read_answers_written [OF answers(1), of "hdr @ (e @ [0]) @ pack16 qtype @ pack16 1" "[]" qtype]
    by (simp add: r hdr)
  then show "extract_dns_addresses ?r qid qtype = Inr (answer_addresses qtype answers)"
    by (simp only: extract_dns_addresses_def v qs response_fields n sum.case simp_thms if_False)
qed

section \<open>Properties\<close>

text \<open>
  C34: a response is read as it was written.  To the query the program sends for a name with legal labels, every
  response with the same identifier, the response bit and return code 0 is accepted when it has an answer, and the
  addresses read from it are those of the address records of the asked type, all of them and in order, whatever
  the names (compressed or not) and the other records of the answer section are.
\<close>

theorem dns_response_round_trip:
  assumes "build_dns_query qname qtype query_id = Inr (qid, query)"
    and "\<forall>l\<in>set (split_char dot (rstrip_by (\<lambda>c. c = dot) qname)). 0 < length l \<and> length l < 64"
    and "flags AND 0x8000 \<noteq> 0" "flags AND 0x000F = 0"
    and "\<forall>a\<in>set answers. answer_ok a" "length answers < 2 ^ 16" "answers \<noteq> []"
  shows "validate_dns_response (dns_response qid flags query answers) qid True = Inr () \<and>
    extract_dns_addresses (dns_response qid flags query answers) qid qtype = Inr (answer_addresses qtype answers)"
  using response_read [OF assms(1-6)] assms(7) by simp

definition example_answer :: answer where
  "example_answer = \<lparr>an_name = [0xC0, 12], an_type = 1, an_class = 1, an_ttl = [0, 0, 0, 60], an_data = [192, 0, 2, 1]\<rparr>"

theorem dns_response_round_trip_witness:
  "case build_dns_query ''a.b'' 1 7 of
     Inl _ \<Rightarrow> False
   | Inr (qid, query) \<Rightarrow>
       validate_dns_response (dns_response qid 0x8180 query [example_answer]) qid True = Inr () \<and>
       extract_dns_addresses (dns_response qid 0x8180 query [example_answer]) qid 1 = Inr (answer_addresses 1 [example_answer])"
proof -
  have labels: "split_char dot (rstrip_by (\<lambda>c. c = dot) ''a.b'') = [''a'', ''b'']" by code_simp
  obtain qid query where q: "build_dns_query ''a.b'' 1 7 = Inr (qid, query)"
    by (simp add: build_dns_query_def labels py_isascii_def is_ascii_def Let_def)
  have "answer_ok example_answer" by (simp add: answer_ok_def example_answer_def wn_pointer)
  then show ?thesis using dns_response_round_trip [OF q, of "0x8180" "[example_answer]"] by (simp add: q labels)
qed

end
