(* ===== verification/Urls.thy ===== *)
theory Urls
  imports Dns_Cache
begin

text \<open>
  The part of \<^verbatim>\<open>urllib.parse\<close> the program calls: \<^verbatim>\<open>urlparse\<close> with the host name and port of its result.  A
  \<^verbatim>\<open>ValueError\<close> is \<open>Inl\<close>.
\<close>

record url =
  url_scheme :: string
  url_netloc :: string
  url_path :: string
  url_query :: string
  url_fragment :: string

definition scheme_char :: "char \<Rightarrow> bool" where
  "scheme_char c = (is_ascii_lower c \<or> is_ascii_upper c \<or> is_ascii_digit c \<or> c = CHR ''+'' \<or> c = CHR ''-'' \<or> c = CHR ''.'')"

definition split_scheme :: "string \<Rightarrow> string \<times> string" where
  "split_scheme s =
     (case partition_char CHR '':'' s of
        (before, True, after) \<Rightarrow>
          if before \<noteq> [] \<and> (is_ascii_lower (hd before) \<or> is_ascii_upper (hd before)) \<and> list_all scheme_char before
          then (py_lower before, after) else ([], s)
      | _ \<Rightarrow> ([], s))"

text \<open>\<^verbatim>\<open>rpartition('@')[2]\<close>.\<close>

definition after_last :: "char \<Rightarrow> string \<Rightarrow> string" where
  "after_last c s = last (split_char c s)"

definition hostinfo :: "string \<Rightarrow> string \<times> string option" where
  "hostinfo netloc =
     (let info = after_last CHR ''@'' netloc;
          (host, port) =
            (case partition_char CHR ''['' info of
               (_, True, bracketed) \<Rightarrow>
                 (case partition_char CHR '']'' bracketed of (h, _, p) \<Rightarrow> (h, snd (snd (partition_char CHR '':'' p))))
             | _ \<Rightarrow> (case partition_char CHR '':'' info of (h, _, p) \<Rightarrow> (h, p)))
      in (host, if port = [] then None else Some port))"

text \<open>\<^verbatim>\<open>\Av[a-fA-F0-9]+\..+\Z\<close>.\<close>

definition ip_future :: "string \<Rightarrow> bool" where
  "ip_future h =
     (case partition_char dot (tl h) of
        (v, True, rest) \<Rightarrow> v \<noteq> [] \<and> list_all (\<lambda>c. hex_digit_val c \<noteq> None) v \<and> rest \<noteq> [] \<and> newline \<notin> set rest
      | _ \<Rightarrow> False)"

definition check_bracketed_host :: "string \<Rightarrow> unit result" where
  "check_bracketed_host h =
     (if startswith h ''v'' then (if ip_future h then Inr () else Inl ''IPvFuture address is invalid'')
      else case ip_address h of
        None \<Rightarrow> Inl (ip_error h)
      | Some (V4 _) \<Rightarrow> Inl ''An IPv4 address cannot be in brackets''
      | Some (V6 _ _) \<Rightarrow> Inr ())"

definition check_netloc :: "string \<Rightarrow> unit result" where
  "check_netloc netloc =
     (let bad = Inl ''Invalid IPv6 URL''; opening = CHR ''['' \<in> set netloc; closing = CHR '']'' \<in> set netloc in
      if opening \<noteq> closing then bad
      else if \<not> opening then Inr ()
      else case partition_char CHR ''['' (after_last CHR ''@'' netloc) of
        (before, True, bracketed) \<Rightarrow>
          if before \<noteq> [] then bad
          else (case partition_char CHR '']'' bracketed of
             (h, _, port) \<Rightarrow> if port \<noteq> [] \<and> \<not> startswith port '':'' then bad else check_bracketed_host h)
      | (info, False, _) \<Rightarrow> check_bracketed_host (fst (partition_char CHR '':'' info)))"

definition split_params :: "string \<Rightarrow> string" where
  "split_params path =
     (let segments = split_char CHR ''/'' path in
      join ''/'' (butlast segments @ [fst (partition_char CHR '';'' (last segments))]))"

text \<open>The path parameters are cut off for the schemes that have them; \<^verbatim>\<open>https\<close> is the one that matters here.\<close>

definition urlparse :: "string \<Rightarrow> url result" where
  "urlparse raw =
     (let s = filter (\<lambda>c. c \<notin> {CHR 9, CHR 10, CHR 13}) (dropWhile (\<lambda>c. (of_char c :: nat) \<le> 32) raw);
          (scheme, rest) = split_scheme s;
          (netloc, tail) = (if startswith rest ''//''
             then (let t = drop 2 rest; stop = (\<lambda>c. c \<notin> {CHR ''/'', CHR ''?'', CHR ''#''}) in (takeWhile stop t, dropWhile stop t))
             else ([], rest))
      in case check_netloc netloc of
           Inl e \<Rightarrow> Inl e
         | Inr _ \<Rightarrow>
             (case partition_char CHR ''#'' tail of (nofrag, _, fragment) \<Rightarrow>
              case partition_char CHR ''?'' nofrag of (path, _, query) \<Rightarrow>
                Inr \<lparr>url_scheme = scheme, url_netloc = netloc,
                     url_path = (if scheme = ''https'' then split_params path else path), url_query = query, url_fragment = fragment\<rparr>))"

definition url_hostname :: "url \<Rightarrow> string option" where
  "url_hostname u =
     (let host = fst (hostinfo (url_netloc u)) in
      if host = [] then None
      else case partition_char CHR ''%'' host of (h, p, zone) \<Rightarrow> Some (py_lower h @ (if p then CHR ''%'' # zone else [])))"

definition url_port :: "url \<Rightarrow> nat option result" where
  "url_port u =
     (case snd (hostinfo (url_netloc u)) of
        None \<Rightarrow> Inr None
      | Some p \<Rightarrow>
          if \<not> list_all is_ascii_digit p then Inl (''Port could not be cast to integer value as '' @ [CHR 0x27] @ p @ [CHR 0x27])
          else if digits_val p > 65535 then Inl ''Port out of range 0-65535''
          else Inr (Some (digits_val p)))"

end
