(* ===== verification/Redaction.thy ===== *)
theory Redaction
  imports Filter_Schedule
begin

text \<open>
  Log redaction and filtering (\<^verbatim>\<open>app/service_logs.py\<close>): the fixed substitutions applied to every log line
  and every stored tool output, the unit allowlist and the severity filter.  Patterns are values of a small
  type whose matcher tries the alternatives in the order of Python's \<^verbatim>\<open>re\<close>.  \<^verbatim>\<open>journalctl\<close> and the JSON
  decoder are arguments.  Shown: no quoted BIND secret survives the redaction.
\<close>

section \<open>Patterns\<close>

text \<open>
  Repetition is of character classes only, as in the patterns of the module.  \<open>rx_ends r s\<close> lists what is left
  of \<open>s\<close> after each way to match \<open>r\<close> at its start, in the order in which \<^verbatim>\<open>re\<close> tries them.
\<close>

datatype rx = Chr "char \<Rightarrow> bool" | Greedy nat "char \<Rightarrow> bool" | Lazy nat "char \<Rightarrow> bool" | Cat rx rx | Alt rx rx | Eps

fun rx_ends :: "rx \<Rightarrow> string \<Rightarrow> string list" where
  "rx_ends (Chr p) s = (case s of [] \<Rightarrow> [] | c # t \<Rightarrow> if p c then [t] else [])"
| "rx_ends (Greedy n p) s = map (\<lambda>k. drop k s) (rev [n..<Suc (length (takeWhile p s))])"
| "rx_ends (Lazy n p) s = map (\<lambda>k. drop k s) [n..<Suc (length (takeWhile p s))]"
| "rx_ends (Cat a b) s = concat (map (rx_ends b) (rx_ends a s))"
| "rx_ends (Alt a b) s = rx_ends a s @ rx_ends b s"
| "rx_ends Eps s = [s]"

fun lit :: "string \<Rightarrow> rx" where
  "lit [] = Eps"
| "lit (c # s) = Cat (Chr ((=) c)) (lit s)"

text \<open>\<^verbatim>\<open>(?i)\<close> on a lower-case literal.\<close>

fun lit_i :: "string \<Rightarrow> rx" where
  "lit_i [] = Eps"
| "lit_i (c # s) = Cat (Chr (\<lambda>d. lower_char d = c)) (lit_i s)"

fun cats :: "rx list \<Rightarrow> rx" where
  "cats [] = Eps"
| "cats (r # rs) = Cat r (cats rs)"

text \<open>
  A substitution: group 1, the rest of the pattern, the text that follows \<^verbatim>\<open>\1\<close> in the replacement, and
  whether the pattern starts at a word boundary before a letter.
\<close>

record redaction =
  rd_group :: rx
  rd_rest :: rx
  rd_text :: string
  rd_bound :: bool

definition first_match :: "redaction \<Rightarrow> string \<Rightarrow> (string \<times> string) option" where
  "first_match d s =
     (case concat (map (\<lambda>u. map (Pair u) (rx_ends (rd_rest d) u)) (rx_ends (rd_group d) s)) of [] \<Rightarrow> None | m # _ \<Rightarrow> Some m)"

text \<open>\<^verbatim>\<open>pattern.sub\<close>; \<open>prev\<close>: the character before is a word character.  No pattern here matches the empty text.\<close>

function redact :: "redaction \<Rightarrow> bool \<Rightarrow> string \<Rightarrow> string" where
  "redact d prev [] = []"
| "redact d prev (c # s) =
     (case (if rd_bound d \<and> prev then None else first_match d (c # s)) of
        Some (u, v) \<Rightarrow>
          if length v \<le> length s
          then take (Suc (length s) - length u) (c # s) @ rd_text d @
               redact d (is_word_char ((c # s) ! (length s - length v))) v
          else c # redact d (is_word_char c) s
      | None \<Rightarrow> c # redact d (is_word_char c) s)"
  by pat_completeness auto
termination by (relation "measure (\<lambda>(_, _, s). length s)") auto

section \<open>The patterns of the module\<close>

abbreviation ws :: "nat \<Rightarrow> rx" where
  "ws n \<equiv> Greedy n py_isspace"

definition in_text :: "string \<Rightarrow> char \<Rightarrow> bool" where
  "in_text s c = (c \<in> set s)"

definition header_value :: "string \<Rightarrow> char \<Rightarrow> bool" where
  "header_value extra c = (is_ascii_digit c \<or> is_ascii_lower (lower_char c) \<or> in_text extra c)"

definition bare_value :: "char \<Rightarrow> bool" where
  "bare_value c = (c \<noteq> CHR 0x27 \<and> c \<noteq> CHR ''\"'' \<and> \<not> py_isspace c \<and> c \<noteq> CHR '','' \<and> c \<noteq> CHR '';'')"

text \<open>\<^verbatim>\<open>(['"]?)[^'"\s,;]+\2\<close>.\<close>

definition quoted_value :: rx where
  "quoted_value =
     Alt (cats [Chr ((=) CHR 0x27), Greedy 1 bare_value, Chr ((=) CHR 0x27)])
     (Alt (cats [Chr ((=) CHR ''\"''), Greedy 1 bare_value, Chr ((=) CHR ''\"'')])
          (Greedy 1 bare_value))"

definition assigned :: "rx list \<Rightarrow> redaction" where
  "assigned words =
     \<lparr>rd_group = cats (words @ [ws 0, Chr (in_text ''=:''), ws 0]), rd_rest = quoted_value, rd_text = ''[REDACTED]'', rd_bound = True\<rparr>"

abbreviation dash :: rx where
  "dash \<equiv> Alt (Chr (in_text ''_-'')) Eps"

definition is_upper_or_space :: "char \<Rightarrow> bool" where
  "is_upper_or_space c = (is_ascii c \<and> lower_char c \<noteq> c \<or> c = CHR '' '')"

definition bind_secret :: redaction where
  "bind_secret = \<lparr>rd_group = Cat (lit_i ''secret'') (ws 1),
     rd_rest = cats [Chr ((=) CHR ''\"''), Greedy 0 (\<lambda>c. c \<noteq> CHR ''\"''), Chr ((=) CHR ''\"'')],
     rd_text = [CHR ''\"''] @ ''[REDACTED]'' @ [CHR ''\"''], rd_bound = False\<rparr>"

definition REDACTION_PATTERNS :: "redaction list" where
  "REDACTION_PATTERNS =
     [\<lparr>rd_group = cats [lit_i ''authorization:'', ws 0, lit_i ''basic'', ws 1], rd_rest = Greedy 1 (header_value ''+/=._:-''),
        rd_text = ''[REDACTED]'', rd_bound = False\<rparr>,
      \<lparr>rd_group = cats [lit_i ''authorization:'', ws 0, lit_i ''bearer'', ws 1], rd_rest = Greedy 1 (header_value ''._:-''),
        rd_text = ''[REDACTED]'', rd_bound = False\<rparr>,
      \<lparr>rd_group = cats [lit_i ''x-api-key:'', ws 0], rd_rest = Greedy 1 (\<lambda>c. \<not> py_isspace c),
        rd_text = ''[REDACTED]'', rd_bound = False\<rparr>,
      assigned [lit_i ''api'', dash, lit_i ''key''], assigned [lit_i ''password''], assigned [lit_i ''session'', dash, lit_i ''secret''],
      assigned [lit_i ''secret''], assigned [lit_i ''token''], assigned [lit_i ''private'', dash, lit_i ''key''],
      \<lparr>rd_group = Eps,
        rd_rest = cats [lit ''-----BEGIN '', Greedy 0 is_upper_or_space, lit ''PRIVATE KEY-----'', Lazy 0 (\<lambda>_. True),
          lit ''-----END '', Greedy 0 is_upper_or_space, lit ''PRIVATE KEY-----''],
        rd_text = ''[REDACTED PRIVATE KEY]'', rd_bound = False\<rparr>,
      \<lparr>rd_group = Cat (lit ''https://'') (Greedy 1 (\<lambda>c. c \<noteq> CHR ''?'' \<and> \<not> py_isspace c)),
        rd_rest = Cat (Chr ((=) CHR ''?'')) (Greedy 1 (\<lambda>c. \<not> in_text [CHR '' '', CHR 10, CHR 13, CHR 9] c)),
        rd_text = ''?[REDACTED_QUERY]'', rd_bound = False\<rparr>,
      bind_secret]"

definition sanitize :: "string \<Rightarrow> string" where
  "sanitize message = fold (\<lambda>d s. redact d False s) REDACTION_PATTERNS message"

section \<open>Secrets in BIND configurations\<close>

text \<open>The text starts with the word \<^verbatim>\<open>secret\<close>, blanks and a quoted \<open>body\<close>.\<close>

definition secret_head :: "string \<Rightarrow> string \<Rightarrow> bool" where
  "secret_head kw w \<longleftrightarrow> map lower_char kw = ''secret'' \<and> w \<noteq> [] \<and> (\<forall>c\<in>set w. py_isspace c)"

definition has_secret :: "string \<Rightarrow> string \<Rightarrow> bool" where
  "has_secret s body \<longleftrightarrow> (\<exists>kw w v. s = kw @ w @ CHR ''\"'' # body @ CHR ''\"'' # v \<and> secret_head kw w \<and> CHR ''\"'' \<notin> set body)"

lemma rx_ends_lit_i:
  "rx_ends (lit_i x) s = (if map lower_char (take (length x) s) = x then [drop (length x) s] else [])"
proof (induction x arbitrary: s)
  case (Cons c x)
  then show ?case by (cases s) auto
qed simp

lemma rx_ends_until:
  assumes "\<not> p q"
  shows "concat (map (rx_ends (Cat (Chr ((=) q)) r)) (rx_ends (Greedy n p) s)) =
    (let t = dropWhile p s in if n \<le> length (takeWhile p s) \<and> t \<noteq> [] \<and> hd t = q then rx_ends r (tl t) else [])"
proof -
  let ?k = "length (takeWhile p s)"
  have short: "rx_ends (Cat (Chr ((=) q)) r) (drop j s) = []" if "j < ?k" for j
  proof -
    have "j < length s" using that length_takeWhile_le [of p s] by linarith
    moreover from that have "p (s ! j)" using nth_mem [OF that] set_takeWhileD takeWhile_nth [OF that] by metis
    ultimately show ?thesis using assms by (cases "drop j s") (auto simp: nth_via_drop)
  qed
  have "drop ?k s = dropWhile p s" by (metis append_eq_conv_conj takeWhile_dropWhile_id)
  then have long: "rx_ends (Cat (Chr ((=) q)) r) (drop ?k s) =
      (let t = dropWhile p s in if t \<noteq> [] \<and> hd t = q then rx_ends r (tl t) else [])"
    by (cases "dropWhile p s") auto
  show ?thesis
  proof (cases "n \<le> ?k")
    case True
    then have "rx_ends (Greedy n p) s = drop ?k s # map (\<lambda>k. drop k s) (rev [n..<?k])" by simp
    moreover have "concat (map (rx_ends (Cat (Chr ((=) q)) r)) (map (\<lambda>k. drop k s) (rev [n..<?k]))) = []"
      using short by auto
    ultimately show ?thesis using long True by simp
  qed simp
qed

lemma quote_not_space: "\<not> py_isspace CHR ''\"''"
  by code_simp

lemma bind_secret_ends:
  "concat (map (\<lambda>u. map (Pair u) (rx_ends (rd_rest bind_secret) u)) (rx_ends (rd_group bind_secret) s)) =
    (let t = drop 6 s; u = dropWhile py_isspace t; b = dropWhile (\<lambda>c. c \<noteq> CHR ''\"'') (tl u) in
     if map lower_char (take 6 s) = ''secret'' \<and> takeWhile py_isspace t \<noteq> [] \<and> u \<noteq> [] \<and> hd u = CHR ''\"'' \<and> b \<noteq> []
     then [(u, tl b)] else [])"
proof -
  let ?t = "drop 6 s" and ?q = "CHR ''\"''"
  have rest: "rx_ends (rd_rest bind_secret) u =
      (if u \<noteq> [] \<and> hd u = ?q \<and> dropWhile (\<lambda>c. c \<noteq> ?q) (tl u) \<noteq> [] then [tl (dropWhile (\<lambda>c. c \<noteq> ?q) (tl u))] else [])" for u
  proof -
    have "rx_ends (cats [Greedy 0 (\<lambda>c. c \<noteq> ?q), Chr ((=) ?q)]) v =
        (if dropWhile (\<lambda>c. c \<noteq> ?q) v \<noteq> [] then [tl (dropWhile (\<lambda>c. c \<noteq> ?q) v)] else [])" for v
      using rx_ends_until [of "\<lambda>c. c \<noteq> ?q" ?q Eps 0 v] hd_dropWhile [of "\<lambda>c. c \<noteq> ?q" v] by (auto simp: Let_def)
    moreover have "rx_ends (Cat (Chr ((=) ?q)) r) u = (if u \<noteq> [] \<and> hd u = ?q then rx_ends r (tl u) else [])" for r by (cases u) auto
    moreover have "rd_rest bind_secret = Cat (Chr ((=) ?q)) (cats [Greedy 0 (\<lambda>c. c \<noteq> ?q), Chr ((=) ?q)])"
      by (simp add: bind_secret_def)
    ultimately show ?thesis by simp
  qed
  have pairs: "concat (map (\<lambda>u. map (Pair u) (rx_ends (rd_rest bind_secret) u)) (rx_ends (Greedy 1 py_isspace) ?t)) =
    (let u = dropWhile py_isspace ?t; b = dropWhile (\<lambda>c. c \<noteq> ?q) (tl u) in
     if takeWhile py_isspace ?t \<noteq> [] \<and> u \<noteq> [] \<and> hd u = ?q \<and> b \<noteq> [] then [(u, tl b)] else [])"
  proof -
    let ?k = "length (takeWhile py_isspace ?t)"
    have "rx_ends (rd_rest bind_secret) (drop j ?t) = []" if "j < ?k" for j
    proof -
      have "py_isspace (?t ! j)" "j < length ?t"
        using nth_mem [OF that] set_takeWhileD takeWhile_nth [OF that] that length_takeWhile_le [of py_isspace ?t] by (metis, linarith)
      then have "hd (drop j ?t) \<noteq> ?q" using quote_not_space by (metis hd_drop_conv_nth)
      then show ?thesis by (simp add: rest)
    qed
    then have short: "concat (map (\<lambda>u. map (Pair u) (rx_ends (rd_rest bind_secret) u)) (map (\<lambda>k. drop k ?t) (rev [1..<?k]))) = []"
      by auto
    have "drop ?k ?t = dropWhile py_isspace ?t" by (metis append_eq_conv_conj takeWhile_dropWhile_id)
    with short show ?thesis
      by (cases "1 \<le> ?k") (auto simp: rest Let_def Suc_le_eq)
  qed
  have g: "rd_group bind_secret = Cat (lit_i ''secret'') (Greedy 1 py_isspace)" by (simp only: bind_secret_def redaction.select_convs)
  have six: "length ''secret'' = 6" by simp
  have group: "rx_ends (rd_group bind_secret) s = (if map lower_char (take 6 s) = ''secret'' then rx_ends (Greedy 1 py_isspace) ?t else [])"
    unfolding g rx_ends.simps(4) rx_ends_lit_i six
    by (cases "map lower_char (take 6 s) = ''secret''") (simp_all only: simp_thms if_True if_False list.map concat.simps append_Nil2)
  show ?thesis unfolding group using pairs unfolding Let_def
    by (cases "map lower_char (take 6 s) = ''secret''") (simp_all only: simp_thms if_True if_False list.map concat.simps)
qed

lemma first_secret_Some:
  assumes "first_match bind_secret s = Some (u, v)"
  shows "\<exists>kw w body. s = kw @ w @ u \<and> u = CHR ''\"'' # body @ CHR ''\"'' # v \<and> secret_head kw w \<and> CHR ''\"'' \<notin> set body"
proof -
  let ?q = "CHR ''\"''" and ?t = "drop 6 s"
  have m: "map lower_char (take 6 s) = ''secret''" "takeWhile py_isspace ?t \<noteq> []" "u = dropWhile py_isspace ?t" "u \<noteq> []" "hd u = ?q"
    "dropWhile (\<lambda>c. c \<noteq> ?q) (tl u) \<noteq> []" "v = tl (dropWhile (\<lambda>c. c \<noteq> ?q) (tl u))"
    using assms unfolding first_match_def bind_secret_ends by (auto simp: Let_def split: if_splits)
  let ?body = "takeWhile (\<lambda>c. c \<noteq> ?q) (tl u)"
  have "tl u = ?body @ ?q # v"
    using m(6,7) hd_dropWhile [OF m(6)] by (metis list.collapse takeWhile_dropWhile_id)
  then have "u = ?q # ?body @ ?q # v" using m(4,5) by (metis list.collapse)
  moreover have "s = take 6 s @ takeWhile py_isspace ?t @ u" by (simp add: m(3))
  moreover have "secret_head (take 6 s) (takeWhile py_isspace ?t)" using m(1,2) by (auto simp: secret_head_def dest: set_takeWhileD)
  moreover have "?q \<notin> set ?body" by (auto dest: set_takeWhileD)
  ultimately show ?thesis by blast
qed

lemma first_secret_None:
  assumes "first_match bind_secret s = None"
  shows "\<not> has_secret s body"
proof
  assume "has_secret s body"
  then obtain kw w v where s: "s = kw @ w @ CHR ''\"'' # body @ CHR ''\"'' # v" "secret_head kw w" "CHR ''\"'' \<notin> set body"
    by (auto simp: has_secret_def)
  have "map lower_char kw = ''secret''" using s(2) by (simp add: secret_head_def)
  from arg_cong [OF this, of length] have kw: "length kw = 6" by simp
  have w: "\<forall>c\<in>set w. py_isspace c" "w \<noteq> []" using s(2) by (auto simp: secret_head_def)
  have "takeWhile py_isspace (drop 6 s) = w" "dropWhile py_isspace (drop 6 s) = CHR ''\"'' # body @ CHR ''\"'' # v"
    using kw w quote_not_space by (simp_all add: s(1) takeWhile_append2 dropWhile_append2)
  moreover have "dropWhile (\<lambda>c. c \<noteq> CHR ''\"'') (body @ CHR ''\"'' # v) = CHR ''\"'' # v" using s(3) by (induction body) auto
  moreover have "map lower_char (take 6 s) = ''secret''" using s(2) kw by (simp add: s(1) secret_head_def)
  ultimately show False using assms w(2) unfolding first_match_def bind_secret_ends by (simp add: Let_def del: dropWhile_eq_Nil_conv)
qed

lemma takeWhile_quote: "q \<notin> set a \<Longrightarrow> takeWhile (\<lambda>c. c \<noteq> q) (a @ q # b) = a"
  by (induction a) auto

lemma first_quote_unique:
  assumes "a @ q # b = a' @ q # b'" "q \<notin> set a" "q \<notin> set a'"
  shows "a = a' \<and> b = b'"
  using takeWhile_quote [OF assms(2), of b] takeWhile_quote [OF assms(3), of b'] assms(1) by auto

lemma secret_head_chars:
  assumes "secret_head kw w"
  shows "CHR ''\"'' \<notin> set (kw @ w)" "kw \<noteq> []" "lower_char (hd kw) = CHR ''s''"
    "\<And>i. 0 < i \<Longrightarrow> i < length (kw @ w) \<Longrightarrow> lower_char ((kw @ w) ! i) \<noteq> CHR ''s''"
proof -
  have m: "map lower_char kw = ''secret''" using assms by (simp add: secret_head_def)
  from arg_cong [OF m, of length] have len: "length kw = 6" by simp
  then show "kw \<noteq> []" by auto
  with arg_cong [OF m, of hd] show "lower_char (hd kw) = CHR ''s''" by (simp add: hd_map)
  have "lower_char CHR ''\"'' \<notin> set ''secret''" by code_simp
  with m have "CHR ''\"'' \<notin> set kw" by (metis image_eqI list.set_map)
  then show "CHR ''\"'' \<notin> set (kw @ w)" using assms quote_not_space by (auto simp: secret_head_def)
  fix i assume i: "0 < i" "i < length (kw @ w)"
  show "lower_char ((kw @ w) ! i) \<noteq> CHR ''s''"
  proof (cases "i < 6")
    case True
    have "list_all (\<lambda>i. ''secret'' ! i \<noteq> CHR ''s'') [1..<6]" by code_simp
    then have "''secret'' ! i \<noteq> CHR ''s''" using True i(1) by (auto simp: list_all_iff)
    moreover have "lower_char (kw ! i) = ''secret'' ! i" using m True len by (metis nth_map)
    ultimately show ?thesis using True len by (simp add: nth_append)
  next
    case False
    have space: "py_isspace c \<Longrightarrow> lower_char c \<noteq> CHR ''s''" for c
      by (auto simp: py_isspace_def lower_char_def Let_def)
    have "(kw @ w) ! i \<in> set w" using False i(2) len by (simp add: nth_append)
    then show ?thesis using assms space by (auto simp: secret_head_def)
  qed
qed

definition no_secret :: "string \<Rightarrow> bool" where
  "no_secret s \<longleftrightarrow> (\<forall>a b body. s = a @ b \<longrightarrow> has_secret b body \<longrightarrow> body = ''[REDACTED]'')"

text \<open>Up to the first replaced quotation the output is the input.\<close>

lemma redact_prefix:
  "redact bind_secret prev s = s \<or>
   (\<exists>y kw w body v out. s = y @ kw @ w @ CHR ''\"'' # body @ CHR ''\"'' # v \<and> secret_head kw w \<and>
      redact bind_secret prev s = y @ kw @ w @ CHR ''\"'' # out)"
proof (induction s arbitrary: prev)
  case (Cons c s)
  show ?case
  proof (cases "first_match bind_secret (c # s)")
    case None
    then have "redact bind_secret prev (c # s) = c # redact bind_secret (is_word_char c) s" by simp
    with Cons.IH [of "is_word_char c"] show ?thesis by (metis append_Cons)
  next
    case (Some m)
    obtain u v where m: "first_match bind_secret (c # s) = Some (u, v)" using Some by (cases m) simp
    from first_secret_Some [OF m] obtain kw w body where d: "c # s = kw @ w @ u" "u = CHR ''\"'' # body @ CHR ''\"'' # v" "secret_head kw w"
      by blast
    have e: "Suc (length s) - length u = length (kw @ w)" using arg_cong [OF d(1), of length] by simp
    have "take (Suc (length s) - length u) (c # s) = kw @ w" unfolding e d(1) by simp
    moreover have "length v \<le> length s" using arg_cong [OF d(1), of length] secret_head_chars(2) [OF d(3)] by (simp add: d(2))
    ultimately have "\<exists>out. redact bind_secret prev (c # s) = kw @ w @ CHR ''\"'' # out"
      using m by (auto simp: bind_secret_def [THEN arg_cong, of rd_bound] bind_secret_def [THEN arg_cong, of rd_text])
    with d show ?thesis by (metis append_Nil)
  qed
qed simp

lemma unmatched_start:
  assumes none: "first_match bind_secret (c # s) = None"
  shows "\<not> has_secret (c # redact bind_secret prev s) body"
proof
  let ?q = "CHR ''\"''"
  assume "has_secret (c # redact bind_secret prev s) body"
  then obtain kw w v where out: "c # redact bind_secret prev s = kw @ w @ ?q # body @ ?q # v" and hd: "secret_head kw w" "?q \<notin> set body"
    by (auto simp: has_secret_def)
  note h = secret_head_chars [OF hd(1)]
  from redact_prefix [of prev s] show False
  proof (elim disjE exE conjE)
    assume "redact bind_secret prev s = s"
    with out hd have "has_secret (c # s) body" by (auto simp: has_secret_def)
    then show False using first_secret_None [OF none] by blast
  next
    fix y kw2 w2 body2 v2 o2
    assume s: "s = y @ kw2 @ w2 @ ?q # body2 @ ?q # v2" "secret_head kw2 w2" and r: "redact bind_secret prev s = y @ kw2 @ w2 @ ?q # o2"
    note h2 = secret_head_chars [OF s(2)]
    have eq: "(kw @ w) @ ?q # body @ ?q # v = ((c # y) @ kw2 @ w2) @ ?q # o2" using out r by simp
    show False
    proof (cases "?q \<in> set (c # y)")
      case False
      then have "kw @ w = (c # y) @ kw2 @ w2" using first_quote_unique [OF eq] h(1) h2(1) by auto
      then have "(kw @ w) ! length (c # y) = hd kw2" "length (c # y) < length (kw @ w)"
        using h2(2) by (simp_all add: nth_append hd_conv_nth del: append_Cons)
      then show False using h(4) [of "length (c # y)"] h2(3) by simp
    next
      case True
      then obtain y1 y2 where y: "c # y = y1 @ ?q # y2" "?q \<notin> set y1" by (meson split_list_first)
      then have "(kw @ w) @ ?q # body @ ?q # v = y1 @ ?q # (y2 @ kw2 @ w2 @ ?q # o2)" using eq by simp
      then have y1: "kw @ w = y1" by (rule first_quote_unique [OF _ h(1) y(2), THEN conjunct1])
      have "c # s = (c # y) @ kw2 @ w2 @ ?q # body2 @ ?q # v2" by (simp add: s(1))
      then have cs: "c # s = kw @ w @ ?q # y2 @ kw2 @ w2 @ ?q # body2 @ ?q # v2" unfolding y(1) y1 [symmetric] by simp
      have "?q \<in> set (y2 @ kw2 @ w2 @ ?q # body2 @ ?q # v2)" by simp
      then obtain b1 b2 where "y2 @ kw2 @ w2 @ ?q # body2 @ ?q # v2 = b1 @ ?q # b2" "?q \<notin> set b1" by (meson split_list_first)
      with cs have "c # s = kw @ w @ ?q # b1 @ ?q # b2" "?q \<notin> set b1" by (simp_all only: simp_thms)
      with hd(1) have "has_secret (c # s) b1" unfolding has_secret_def by blast
      then show False using first_secret_None [OF none] by blast
    qed
  qed
qed

lemma redact_no_secret: "no_secret (redact bind_secret prev s)"
proof (induction s arbitrary: prev rule: length_induct)
  case (1 s)
  show ?case
  proof (cases s)
    case Nil
    then show ?thesis by (simp add: has_secret_def no_secret_def)
  next
    case (Cons c t)
    show ?thesis
    proof (cases "first_match bind_secret (c # t)")
      case None
      then have out: "redact bind_secret prev s = c # redact bind_secret (is_word_char c) t" using Cons by simp
      have "no_secret (redact bind_secret (is_word_char c) t)" using 1 Cons by simp
      then show ?thesis using unmatched_start [OF None] unfolding out no_secret_def by (auto simp: Cons_eq_append_conv)
    next
      case (Some m)
      let ?q = "CHR ''\"''"
      obtain u v where m: "first_match bind_secret (c # t) = Some (u, v)" using Some by (cases m) simp
      from first_secret_Some [OF m] obtain kw w body where d: "c # t = kw @ w @ u" "u = ?q # body @ ?q # v" "secret_head kw w" by blast
      note h = secret_head_chars [OF d(3)]
      have e: "Suc (length t) - length u = length (kw @ w)" using arg_cong [OF d(1), of length] by simp
      have "take (Suc (length t) - length u) (c # t) = kw @ w" unfolding e d(1) by simp
      moreover have len: "length v \<le> length t" using arg_cong [OF d(1), of length] h(2) by (simp add: d(2))
      ultimately obtain p where out: "redact bind_secret prev s = (kw @ w @ ?q # ''[REDACTED]'' @ [?q]) @ redact bind_secret p v"
        using m Cons by (auto simp: bind_secret_def [THEN arg_cong, of rd_bound] bind_secret_def [THEN arg_cong, of rd_text])
      have rest: "no_secret (redact bind_secret p v)" using 1 Cons len by simp
      have head: "lower_char (((kw @ w) @ ?q # ''[REDACTED]'' @ [?q]) ! i) \<noteq> CHR ''s''"
        if "0 < i" "i < length ((kw @ w) @ ?q # ''[REDACTED]'' @ [?q])" for i
      proof (cases "i < length (kw @ w)")
        case True
        with h(4) [OF that(1) True] show ?thesis by (subst nth_append) (simp only: if_True simp_thms)
      next
        case False
        have "list_all (\<lambda>c. lower_char c \<noteq> CHR ''s'') (?q # ''[REDACTED]'' @ [?q])" by code_simp
        moreover have "((kw @ w) @ ?q # ''[REDACTED]'' @ [?q]) ! i \<in> set (?q # ''[REDACTED]'' @ [?q])"
          using False that(2) by (subst nth_append) (simp only: if_False, rule nth_mem, simp)
        ultimately show ?thesis unfolding list_all_iff by blast
      qed
      show ?thesis unfolding no_secret_def
      proof (intro allI impI)
        fix a b body' assume split: "redact bind_secret prev s = a @ b" and sec: "has_secret b body'"
        have b0: "b \<noteq> [] \<and> lower_char (hd b) = CHR ''s''"
          using sec secret_head_chars(2,3) by (fastforce simp: has_secret_def)
        let ?x = "(kw @ w) @ ?q # ''[REDACTED]'' @ [?q]"
        have ab: "a @ b = ?x @ redact bind_secret p v" using split out by simp
        consider "a = []" | "0 < length a" "length a < length ?x" | "length ?x \<le> length a" by (cases a) fastforce+
        then show "body' = ''[REDACTED]''"
        proof cases
          case 1
          obtain kw' w' v' where b: "b = kw' @ w' @ ?q # body' @ ?q # v'" "secret_head kw' w'" "?q \<notin> set body'"
            using sec unfolding has_secret_def by blast
          have "(kw' @ w') @ ?q # (body' @ ?q # v') = (kw @ w) @ ?q # (''[REDACTED]'' @ ?q # redact bind_secret p v)"
            using ab 1 b(1) by simp
          from first_quote_unique [OF this secret_head_chars(1) [OF b(2)] h(1)]
          have "body' @ ?q # v' = ''[REDACTED]'' @ ?q # redact bind_secret p v" by blast
          from first_quote_unique [OF this b(3)] show ?thesis by simp
        next
          case 2
          have "hd b = (a @ b) ! length a" using b0 by (simp add: nth_append hd_conv_nth)
          also have "\<dots> = ?x ! length a" unfolding ab using 2(2) by (simp only: nth_append if_True)
          finally show ?thesis using head [OF 2] b0 by simp
        next
          case 3
          have "redact bind_secret p v = drop (length ?x) (?x @ redact bind_secret p v)" by simp
          also have "\<dots> = drop (length ?x) (a @ b)" by (simp only: ab)
          also have "\<dots> = drop (length ?x) a @ b" using 3 by (simp only: drop_append diff_is_0_eq [THEN iffD2] drop_0)
          finally show ?thesis using rest sec by (auto simp: no_secret_def)
        qed
      qed
    qed
  qed
qed

section \<open>Log entries\<close>

definition ALLOWED_UNITS :: "string list" where
  "ALLOWED_UNITS = [''alderpointdns'', ''alderpointdns-analytics'', ''named'', ''dnsdist'']"

definition MAX_LINES_FETCHED :: nat where "MAX_LINES_FETCHED = 500"

record log_entry =
  le_ts :: string
  le_priority :: int
  le_severity :: string
  le_message :: string

definition SEVERITY_LEVELS :: "(string \<times> int list) list" where
  "SEVERITY_LEVELS = [(''error'', [0, 1, 2, 3]), (''warning'', [4]), (''info'', [5, 6]), (''debug'', [7])]"

definition PRIORITY_LABELS :: "(int \<times> string) list" where
  "PRIORITY_LABELS = [(0, ''emerg''), (1, ''alert''), (2, ''crit''), (3, ''err''), (4, ''warning''), (5, ''notice''), (6, ''info''), (7, ''debug'')]"

text \<open>\<open>priority_int\<close>: the value \<^verbatim>\<open>int(raw)\<close> gives, if any.\<close>

definition priority_int :: "int option \<Rightarrow> int" where
  "priority_int raw = (case raw of None \<Rightarrow> 6 | Some n \<Rightarrow> max 0 (min 7 n))"

text \<open>A decoded journal line: priority, printed time stamp and message; \<open>decode\<close> is the JSON decoder.\<close>

type_synonym journal_record = "int option \<times> string \<times> string"

definition fetch_unit_logs :: "(string \<Rightarrow> (bool \<times> string)) \<Rightarrow> (string \<Rightarrow> journal_record option) \<Rightarrow> string \<Rightarrow> log_entry list result" where
  "fetch_unit_logs journalctl decode unit =
     (if unit \<notin> set ALLOWED_UNITS then Inl (''unit '' @ [CHR 0x27] @ unit @ [CHR 0x27] @ '' is not in the supported log allowlist'')
      else case journalctl unit of
        (False, _) \<Rightarrow> Inr []
      | (True, out) \<Rightarrow>
          Inr (concat (map (\<lambda>line.
            let line = py_strip line in
            if line = [] then []
            else case decode line of
              None \<Rightarrow> []
            | Some (raw, ts, message) \<Rightarrow>
                let priority = priority_int raw in
                [\<lparr>le_ts = ts, le_priority = priority,
                  le_severity = (case map_of PRIORITY_LABELS priority of None \<Rightarrow> ''info'' | Some l \<Rightarrow> l),
                  le_message = sanitize message\<rparr>]) (splitlines out))))"

definition filter_entries :: "log_entry list \<Rightarrow> string \<Rightarrow> int \<Rightarrow> log_entry list" where
  "filter_entries entries severity lines =
     (let n = nat (max 10 (min (int MAX_LINES_FETCHED) lines));
          chosen = (case map_of SEVERITY_LEVELS severity of
             None \<Rightarrow> entries
           | Some allowed \<Rightarrow> filter (\<lambda>e. le_priority e \<in> set allowed) entries)
      in drop (length chosen - n) chosen)"

section \<open>Properties\<close>

lemma sanitize_last: "sanitize m = redact bind_secret False (fold (\<lambda>d s. redact d False s) (butlast REDACTION_PATTERNS) m)"
  by (simp add: sanitize_def REDACTION_PATTERNS_def)

lemma no_secret_sanitize: "no_secret (sanitize m)"
  unfolding sanitize_last by (rule redact_no_secret)

lemma no_secret_drop: "no_secret s \<Longrightarrow> no_secret (drop n s)"
  unfolding no_secret_def by (metis append.assoc append_take_drop_id)

text \<open>
  no shared secret of a BIND configuration survives the redaction: wherever the redacted text has the word
  secret, in any case, followed by blanks and a quotation, the quotation is the redaction mark.
\<close>

theorem bind_secrets_redacted: "no_secret (sanitize message)"
  by (rule no_secret_sanitize)

end
