(* ===== verification/Upstream_Resolvers.thy ===== *)
theory Upstream_Resolvers
  imports Urls Local_Dns Redaction "HOL-Library.Multiset"
begin

text \<open>
  Upstream resolvers (\<^verbatim>\<open>app/upstream_dns.py\<close>): validation, the table with its operations, and the recorded results
  of the direct probes.  A raised exception undoes the whole operation, its seeding included.  Arguments: the
  clock, the text of \<^verbatim>\<open>named.conf.options\<close> (\<open>opts\<close>), and latencies as printed.  Shown: once a resolver is
  enabled one stays enabled, a resolver is reported as failed exactly after three failed probes in a row, and
  moving a resolver swaps it with its neighbour.
\<close>

section \<open>Validation\<close>

datatype protocol = Plain | Dot | Doh

definition read_protocol :: "string \<Rightarrow> protocol option" where
  "read_protocol s = (if s = ''plain'' then Some Plain else if s = ''dot'' then Some Dot else if s = ''doh'' then Some Doh else None)"

definition strip_brackets :: "string \<Rightarrow> string" where
  "strip_brackets s = strip_by (\<lambda>c. c = CHR ''['' \<or> c = CHR '']'') s"

definition host_is_ip :: "string \<Rightarrow> bool" where
  "host_is_ip value = (ip_address (strip_brackets value) \<noteq> None)"

definition normalize_host :: "stdlib \<Rightarrow> string \<Rightarrow> string result" where
  "normalize_host lib value =
     (let host = py_lower (strip_brackets (py_strip value)) in
      if host = [] then Inl ''resolver address is required''
      else case ip_address host of
        Some i \<Rightarrow> Inr (str_ip i)
      | None \<Rightarrow>
          (case idna_encode lib host of
             None \<Rightarrow> Inl ''resolver hostname is not valid IDNA''
           | Some h \<Rightarrow> if \<not> local_domain_re h then Inl ''resolver hostname is invalid'' else Inr h))"

definition py_true :: "pyval \<Rightarrow> bool" where
  "py_true v = (case v of PyInt i \<Rightarrow> i \<noteq> 0 | PyStr s \<Rightarrow> s \<noteq> [] | PyBool b \<Rightarrow> b | PyNone \<Rightarrow> False)"

definition normalize_port :: "pyval \<Rightarrow> int \<Rightarrow> int result" where
  "normalize_port value default_port =
     (case (if py_true value then py_int value else Some default_port) of
        None \<Rightarrow> Inl ''resolver port must be a number''
      | Some port \<Rightarrow> if port < 1 \<or> port > 65535 then Inl ''resolver port must be between 1 and 65535'' else Inr port)"

fun normalize_ips :: "string list \<Rightarrow> string list result" where
  "normalize_ips [] = Inr []"
| "normalize_ips (raw # rest) =
     (let v = py_strip raw in
      if v = [] then normalize_ips rest
      else case ip_address v of
        None \<Rightarrow> Inl (ip_error v)
      | Some i \<Rightarrow> map_sum id (\<lambda>out. str_ip i # out) (normalize_ips rest))"

definition normalize_bootstrap :: "string \<Rightarrow> string result" where
  "normalize_bootstrap value =
     map_sum id (join '', '') (normalize_ips (split_char CHR '','' (map (\<lambda>c. if c = newline then CHR '','' else c) value)))"

record endpoint =
  ep_address :: string
  ep_port :: int
  ep_doh_path :: string
  ep_tls_hostname :: string
  ep_bootstrap :: string

definition or_text :: "string \<Rightarrow> string \<Rightarrow> string" where
  "or_text a b = (if a = [] then b else a)"

text \<open>Host and bootstrap addresses of a DoH resolver, checked together.\<close>

definition doh_host :: "stdlib \<Rightarrow> string \<Rightarrow> string \<Rightarrow> (string \<times> string) result" where
  "doh_host lib address bootstrap_ips =
     then_ok (normalize_host lib address) (\<lambda>host.
     then_ok (normalize_bootstrap bootstrap_ips) (\<lambda>bootstrap.
       if \<not> host_is_ip host \<and> bootstrap = [] then Inl ''DoH resolver hostname requires at least one bootstrap IP''
       else Inr (host, bootstrap)))"

definition normalize_doh_url :: "stdlib \<Rightarrow> string \<Rightarrow> pyval \<Rightarrow> string \<Rightarrow> string \<Rightarrow> string \<Rightarrow> endpoint result" where
  "normalize_doh_url lib address port doh_path bootstrap_ips tls_hostname =
     then_ok (urlparse (py_strip address)) (\<lambda>parsed.
     if url_scheme parsed \<noteq> [] then
       (case (url_scheme parsed = ''https'', url_hostname parsed) of
          (True, Some hostname) \<Rightarrow>
            if url_query parsed \<noteq> [] \<or> url_fragment parsed \<noteq> []
            then Inl ''DoH resolver URL must not include query parameters or fragments''
            else
              then_ok (normalize_host lib hostname) (\<lambda>host.
              then_ok (url_port parsed) (\<lambda>p.
              then_ok (normalize_bootstrap bootstrap_ips) (\<lambda>bootstrap.
                if \<not> host_is_ip host \<and> bootstrap = [] then Inl ''DoH resolver hostname requires at least one bootstrap IP''
                else Inr \<lparr>ep_address = host, ep_port = (case p of None \<Rightarrow> 443 | Some n \<Rightarrow> if n = 0 then 443 else int n),
                       ep_doh_path = or_text (url_path parsed) ''/dns-query'',
                       ep_tls_hostname = or_text (py_lower (py_strip tls_hostname)) host, ep_bootstrap = bootstrap\<rparr>)))
        | _ \<Rightarrow> Inl ''DoH resolver URL must be an https:// URL'')
     else
       then_ok (doh_host lib address bootstrap_ips) (\<lambda>(host, bootstrap).
       then_ok (normalize_port port 443) (\<lambda>n.
         Inr \<lparr>ep_address = host, ep_port = n, ep_doh_path = or_text (py_strip doh_path) ''/dns-query'',
              ep_tls_hostname = or_text (py_lower (py_strip tls_hostname)) host, ep_bootstrap = bootstrap\<rparr>)))"

record resolver_data =
  rv_name :: string
  rv_protocol :: protocol
  rv_enabled :: bool
  rv_endpoint :: endpoint

definition field :: "(string \<times> pyval) list \<Rightarrow> string \<Rightarrow> string" where
  "field values key = (case map_of values key of None \<Rightarrow> [] | Some v \<Rightarrow> py_str v)"

definition plain_endpoint :: "stdlib \<Rightarrow> protocol \<Rightarrow> (string \<times> pyval) list \<Rightarrow> endpoint result" where
  "plain_endpoint lib protocol values =
     then_ok (normalize_host lib (field values ''address'')) (\<lambda>address.
     then_ok (normalize_port (case map_of values ''port'' of None \<Rightarrow> PyNone | Some v \<Rightarrow> v) (if protocol = Dot then 853 else 53)) (\<lambda>port.
     then_ok (normalize_bootstrap (field values ''bootstrap_ips'')) (\<lambda>bootstrap.
       let tls = py_lower (py_strip (field values ''tls_hostname'')) in
       Inr \<lparr>ep_address = address, ep_port = port, ep_doh_path = [],
            ep_tls_hostname = (if protocol = Dot then or_text tls address else tls), ep_bootstrap = bootstrap\<rparr>)))"

definition validate_resolver :: "stdlib \<Rightarrow> (string \<times> pyval) list \<Rightarrow> resolver_data result" where
  "validate_resolver lib values =
     (let text_protocol = py_lower (py_strip (case map_of values ''protocol'' of None \<Rightarrow> ''plain'' | Some v \<Rightarrow> py_str v)) in
      case read_protocol text_protocol of
        None \<Rightarrow> Inl ''resolver protocol must be plain, dot, or doh''
      | Some protocol \<Rightarrow>
          let name = py_strip (case map_of values ''name'' of
                 Some v \<Rightarrow> if py_true v then py_str v else py_upper text_protocol
               | None \<Rightarrow> py_upper text_protocol);
              en = py_lower (case map_of values ''enabled'' of None \<Rightarrow> ''0'' | Some v \<Rightarrow> py_str v) \<in> {''1'', ''true'', ''on'', ''yes''}
          in if name = [] then Inl ''friendly name is required''
             else
               then_ok (if protocol = Doh
                        then normalize_doh_url lib (field values ''address'')
                          (case map_of values ''port'' of None \<Rightarrow> PyNone | Some v \<Rightarrow> v)
                          (field values ''doh_path'') (field values ''bootstrap_ips'') (field values ''tls_hostname'')
                        else plain_endpoint lib protocol values) (\<lambda>ep.
               if ep_doh_path ep \<noteq> [] \<and> \<not> startswith (ep_doh_path ep) ''/'' then Inl ''DoH path must start with /''
               else Inr \<lparr>rv_name = take 120 name, rv_protocol = protocol, rv_enabled = en, rv_endpoint = ep\<rparr>))"

section \<open>Tables\<close>

datatype probe_status = Checking | Healthy | ProbeFailed | ProbeDisabled

record resolver =
  ur_id :: nat
  ur_name :: string
  ur_protocol :: protocol
  ur_endpoint :: endpoint
  ur_enabled :: bool
  ur_position :: nat
  ur_last_status :: string
  ur_last_message :: string
  ur_last_latency :: "string option"
  ur_last_checked :: "string option"
  ur_probe_status :: probe_status
  ur_probe_message :: string
  ur_probe_latency :: "string option"
  ur_probe_checked :: "string option"
  ur_probe_failures :: nat
  ur_created_at :: string
  ur_updated_at :: string

record upstream_deployment =
  ud_id :: nat
  ud_started_at :: string
  ud_finished_at :: "string option"
  ud_status :: deploy_status
  ud_message :: string
  ud_output :: string

record upstream_db =
  up_resolvers :: "resolver list"
  up_deployments :: "upstream_deployment list"

interpretation resolver_table: id_table ur_id "\<lambda>i r. r\<lparr>ur_id := i\<rparr>"
  by unfold_locales simp

interpretation upstream_deployment_table: id_table ud_id "\<lambda>i r. r\<lparr>ud_id := i\<rparr>"
  by unfold_locales simp

definition insert_resolver :: "string \<Rightarrow> resolver_data \<Rightarrow> nat \<Rightarrow> probe_status \<Rightarrow> string \<Rightarrow> resolver list \<Rightarrow> resolver list" where
  "insert_resolver ts d pos status message t =
     insert_row ur_id (\<lambda>i r. r\<lparr>ur_id := i\<rparr>)
       \<lparr>ur_id = 0, ur_name = rv_name d, ur_protocol = rv_protocol d, ur_endpoint = rv_endpoint d, ur_enabled = rv_enabled d,
        ur_position = pos, ur_last_status = ''unknown'', ur_last_message = [], ur_last_latency = None, ur_last_checked = None,
        ur_probe_status = status, ur_probe_message = message, ur_probe_latency = None, ur_probe_checked = None,
        ur_probe_failures = 0, ur_created_at = ts, ur_updated_at = ts\<rparr> t"

section \<open>Seeding from \<open>named.conf.options\<close>\<close>

text \<open>
  The match of \<^verbatim>\<open>forwarders\s*(?:port\s+(\d+)\s*)?\{([^}]*)\};\<close> at the start of a text: port digits, body, rest.
\<close>

definition forwarders_at :: "string \<Rightarrow> (string option \<times> string \<times> string) option" where
  "forwarders_at s =
     (if \<not> startswith s ''forwarders'' then None
      else
        let t = dropWhile py_isspace (drop 10 s);
            with_port = (if startswith t ''port'' \<and> drop 4 t \<noteq> [] \<and> py_isspace (hd (drop 4 t)) then
                (let u = dropWhile py_isspace (drop 4 t); d = takeWhile is_ascii_digit u in
                 if d = [] then None else Some (d, dropWhile py_isspace (dropWhile is_ascii_digit u)))
              else None);
            (port, u) = (case with_port of None \<Rightarrow> (None, t) | Some (d, u) \<Rightarrow> (Some d, u))
        in if \<not> startswith u ''{'' then None
           else case dropWhile (\<lambda>c. c \<noteq> CHR ''}'') (tl u) of
             a # b # rest \<Rightarrow> if b = CHR '';'' then Some (port, takeWhile (\<lambda>c. c \<noteq> CHR ''}'') (tl u), rest) else None
           | _ \<Rightarrow> None)"

fun search_forwarders :: "string \<Rightarrow> (string option \<times> string \<times> string) option" where
  "search_forwarders [] = None"
| "search_forwarders (c # s) = (case forwarders_at (c # s) of Some m \<Rightarrow> Some m | None \<Rightarrow> search_forwarders s)"

definition seed_servers :: "string option \<Rightarrow> nat \<times> string list" where
  "seed_servers opts =
     (case search_forwarders (case opts of None \<Rightarrow> [] | Some t \<Rightarrow> t) of
        None \<Rightarrow> (53, [''1.1.1.2'', ''1.0.0.2'', ''4.2.2.1'', ''4.2.2.2''])
      | Some (port, body, _) \<Rightarrow>
          (case port of None \<Rightarrow> 53 | Some d \<Rightarrow> digits_val d,
           filter (\<lambda>s. s \<noteq> []) (map py_strip (split_char CHR '';'' (map (\<lambda>c. if c = newline then CHR '' '' else c) body)))))"

fun seed_rows :: "stdlib \<Rightarrow> string \<Rightarrow> nat \<Rightarrow> nat \<Rightarrow> string list \<Rightarrow> resolver list \<Rightarrow> resolver list" where
  "seed_rows lib ts port idx [] t = t"
| "seed_rows lib ts port idx (server # servers) t =
     seed_rows lib ts port (Suc idx) servers
       (case normalize_host lib server of
          Inl _ \<Rightarrow> t
        | Inr address \<Rightarrow>
            insert_resolver ts \<lparr>rv_name = ''Imported upstream '' @ str_nat idx, rv_protocol = Plain, rv_enabled = True,
              rv_endpoint = \<lparr>ep_address = address, ep_port = int port, ep_doh_path = [], ep_tls_hostname = [], ep_bootstrap = []\<rparr>\<rparr>
              idx Checking [] t)"

definition upstream_init_db :: "stdlib \<Rightarrow> string \<Rightarrow> string option \<Rightarrow> upstream_db \<Rightarrow> upstream_db" where
  "upstream_init_db lib ts opts db =
     (if up_resolvers db \<noteq> [] then db
      else case seed_servers opts of (port, servers) \<Rightarrow> db\<lparr>up_resolvers := seed_rows lib ts port 1 servers []\<rparr>)"

section \<open>Operations\<close>

definition by_position :: "resolver list \<Rightarrow> resolver list" where
  "by_position t = sort_key (\<lambda>r. (ur_position r, ur_id r)) t"

definition resolvers :: "stdlib \<Rightarrow> string \<Rightarrow> string option \<Rightarrow> upstream_db \<Rightarrow> upstream_db \<times> resolver list" where
  "resolvers lib ts opts db0 = (let db = upstream_init_db lib ts opts db0 in (db, by_position (up_resolvers db)))"

definition enabled_resolvers :: "stdlib \<Rightarrow> string \<Rightarrow> string option \<Rightarrow> upstream_db \<Rightarrow> upstream_db \<times> resolver list" where
  "enabled_resolvers lib ts opts db0 = (case resolvers lib ts opts db0 of (db, rows) \<Rightarrow> (db, filter ur_enabled rows))"

definition probe_text :: "probe_status \<Rightarrow> string" where
  "probe_text s = (case s of Checking \<Rightarrow> ''checking'' | Healthy \<Rightarrow> ''healthy'' | ProbeFailed \<Rightarrow> ''failed'' | ProbeDisabled \<Rightarrow> ''disabled'')"

record resolver_display =
  di_id :: nat
  di_enabled :: bool
  di_status :: string
  di_message :: string
  di_latency :: "string option"
  di_checked :: "string option"

definition display_resolver :: "resolver \<Rightarrow> resolver_display" where
  "display_resolver r =
     (if \<not> ur_enabled r
      then \<lparr>di_id = ur_id r, di_enabled = False, di_status = ''disabled'', di_message = ''Disabled'', di_latency = None, di_checked = ur_probe_checked r\<rparr>
      else
        \<lparr>di_id = ur_id r, di_enabled = True, di_status = probe_text (ur_probe_status r),
         di_message = or_text (ur_probe_message r) (if ur_probe_status r = Checking then ''No completed direct probe yet'' else []),
         di_latency = ur_probe_latency r, di_checked = ur_probe_checked r\<rparr>)"

text \<open>\<^verbatim>\<open>probe_telemetry\<close>: the label and the tone of a displayed status.\<close>

definition telemetry_label :: "string \<Rightarrow> string" where
  "telemetry_label status =
     (if status = ''failed'' then ''Unhealthy'' else case status of [] \<Rightarrow> [] | c # cs \<Rightarrow> upper_char c # cs)"

definition telemetry_tone :: "string \<Rightarrow> string" where
  "telemetry_tone status =
     (if status = ''healthy'' then ''healthy'' else if status = ''failed'' then ''down''
      else if status = ''disabled'' then ''neutral'' else ''unavailable'')"

definition reset_probe_state :: "nat \<Rightarrow> bool \<Rightarrow> resolver list \<Rightarrow> resolver list" where
  "reset_probe_state i en t =
     update_where (\<lambda>r. ur_id r = i) (\<lambda>r. r\<lparr>ur_probe_status := (if en then Checking else ProbeDisabled),
       ur_probe_message := (if en then [] else ''Disabled''), ur_probe_latency := None, ur_probe_checked := None, ur_probe_failures := 0\<rparr>) t"

definition add_resolver :: "stdlib \<Rightarrow> string \<Rightarrow> string option \<Rightarrow> (string \<times> pyval) list \<Rightarrow> upstream_db \<Rightarrow> (upstream_db \<times> nat) result" where
  "add_resolver lib ts opts values db0 =
     then_ok (validate_resolver lib values) (\<lambda>d.
       let db = upstream_init_db lib ts opts db0; t = up_resolvers db; pos = Max (insert 0 (ur_position ` set t)) + 1 in
       Inr (db\<lparr>up_resolvers := insert_resolver ts d pos (if rv_enabled d then Checking else ProbeDisabled)
              (if rv_enabled d then [] else ''Disabled'') t\<rparr>, next_rowid ur_id t))"

definition LAST_ENABLED_MESSAGE :: string where
  "LAST_ENABLED_MESSAGE = ''At least one upstream resolver must be enabled.''"

definition would_leave_zero_enabled :: "nat \<Rightarrow> bool \<Rightarrow> resolver list \<Rightarrow> bool" where
  "would_leave_zero_enabled i disabling t =
     (if \<not> disabling then False else length (filter (\<lambda>r. ur_id r \<noteq> i \<and> ur_enabled r) t) = 0)"

definition update_resolver :: "stdlib \<Rightarrow> string \<Rightarrow> string option \<Rightarrow> nat \<Rightarrow> (string \<times> pyval) list \<Rightarrow> upstream_db \<Rightarrow> upstream_db result" where
  "update_resolver lib ts opts i values db0 =
     then_ok (validate_resolver lib values) (\<lambda>d.
       let db = upstream_init_db lib ts opts db0; t = up_resolvers db in
       if row_by_id ur_id i t = None then Inl ''resolver not found''
       else if would_leave_zero_enabled i (\<not> rv_enabled d) t then Inl LAST_ENABLED_MESSAGE
       else Inr (db\<lparr>up_resolvers := reset_probe_state i (rv_enabled d) (update_where (\<lambda>r. ur_id r = i)
              (\<lambda>r. r\<lparr>ur_name := rv_name d, ur_protocol := rv_protocol d, ur_endpoint := rv_endpoint d,
                     ur_enabled := rv_enabled d, ur_updated_at := ts\<rparr>) t)\<rparr>))"

text \<open>Positions \<open>1, 2, \<dots>\<close> for the given identifiers, one \<^verbatim>\<open>UPDATE\<close> each.\<close>

fun number_from :: "nat \<Rightarrow> nat list \<Rightarrow> resolver list \<Rightarrow> resolver list" where
  "number_from pos [] t = t"
| "number_from pos (i # ids) t = number_from (Suc pos) ids (update_where (\<lambda>r. ur_id r = i) (\<lambda>r. r\<lparr>ur_position := pos\<rparr>) t)"

definition renumber :: "resolver list \<Rightarrow> resolver list" where
  "renumber t = number_from 1 (map ur_id (by_position t)) t"

definition delete_resolver :: "stdlib \<Rightarrow> string \<Rightarrow> string option \<Rightarrow> nat \<Rightarrow> upstream_db \<Rightarrow> upstream_db result" where
  "delete_resolver lib ts opts i db0 =
     (let db = upstream_init_db lib ts opts db0; t = up_resolvers db in
      if (case row_by_id ur_id i t of None \<Rightarrow> False | Some r \<Rightarrow> would_leave_zero_enabled i (ur_enabled r) t)
      then Inl LAST_ENABLED_MESSAGE
      else Inr (db\<lparr>up_resolvers := renumber (delete_where (\<lambda>r. ur_id r = i) t)\<rparr>))"

definition set_resolver_enabled :: "stdlib \<Rightarrow> string \<Rightarrow> string option \<Rightarrow> nat \<Rightarrow> bool \<Rightarrow> upstream_db \<Rightarrow> upstream_db result" where
  "set_resolver_enabled lib ts opts i en db0 =
     (let db = upstream_init_db lib ts opts db0; t = up_resolvers db in
      if would_leave_zero_enabled i (\<not> en) t then Inl LAST_ENABLED_MESSAGE
      else Inr (db\<lparr>up_resolvers := reset_probe_state i en
             (update_where (\<lambda>r. ur_id r = i) (\<lambda>r. r\<lparr>ur_enabled := en, ur_updated_at := ts\<rparr>) t)\<rparr>))"

definition swap_at :: "nat \<Rightarrow> nat \<Rightarrow> 'a list \<Rightarrow> 'a list" where
  "swap_at i j xs = xs[i := xs ! j, j := xs ! i]"

definition move_resolver :: "stdlib \<Rightarrow> string \<Rightarrow> string option \<Rightarrow> nat \<Rightarrow> string \<Rightarrow> upstream_db \<Rightarrow> upstream_db result" where
  "move_resolver lib ts opts i direction db0 =
     (let db = upstream_init_db lib ts opts db0; t = up_resolvers db; ids = map ur_id (by_position t) in
      case find_char i ids of
        None \<Rightarrow> Inl ''resolver not found''
      | Some idx \<Rightarrow>
          let new = (if direction = ''up'' then int idx - 1 else int idx + 1) in
          if 0 \<le> new \<and> new < int (length ids)
          then Inr (db\<lparr>up_resolvers := number_from 1 (swap_at idx (nat new) ids) t\<rparr>)
          else Inr db)"

section \<open>Probe results\<close>

definition UPSTREAM_PROBE_FAILURE_THRESHOLD :: nat where "UPSTREAM_PROBE_FAILURE_THRESHOLD = 3"

text \<open>
  \<^verbatim>\<open>_safe_message\<close>: the match of \<^verbatim>\<open>https://([^/?#]+)[^\s'"]*\<close>, cut after the host; then the same for \<^verbatim>\<open>/dns-query\<close>.
\<close>

definition probe_token :: "char \<Rightarrow> bool" where
  "probe_token c = (\<not> py_isspace c \<and> c \<noteq> CHR 0x27 \<and> c \<noteq> CHR 0x22)"

definition safe_message :: "string \<Rightarrow> string" where
  "safe_message s =
     redact \<lparr>rd_group = Cat (lit ''https://'') (Greedy 1 (\<lambda>c. \<not> in_text ''/?#'' c)), rd_rest = Greedy 0 probe_token,
             rd_text = ''/...'', rd_bound = False\<rparr> False s"

definition redact_probe_message :: "string \<Rightarrow> string" where
  "redact_probe_message s =
     redact \<lparr>rd_group = lit ''/dns-query'', rd_rest = Greedy 0 probe_token, rd_text = ''/...'', rd_bound = False\<rparr> False
       (safe_message (sanitize s))"

definition failed_probe :: "string \<Rightarrow> string \<Rightarrow> resolver \<Rightarrow> resolver" where
  "failed_probe ts message r =
     (let failures = Suc (ur_probe_failures r) in
      if failures \<ge> UPSTREAM_PROBE_FAILURE_THRESHOLD
      then r\<lparr>ur_probe_status := ProbeFailed, ur_probe_message := take 400 (redact_probe_message message),
             ur_probe_latency := None, ur_probe_checked := Some ts, ur_probe_failures := failures\<rparr>
      else r\<lparr>ur_probe_status := Checking,
             ur_probe_message := ''Probe failed '' @ str_nat failures @ ''/'' @ str_nat UPSTREAM_PROBE_FAILURE_THRESHOLD @ ''; waiting for confirmation'',
             ur_probe_latency := None, ur_probe_checked := Some ts, ur_probe_failures := failures\<rparr>)"

text \<open>The result of a probe: its latency, or the text of the exception.\<close>

definition record_probe_result :: "stdlib \<Rightarrow> string \<Rightarrow> string option \<Rightarrow> nat \<Rightarrow> string result \<Rightarrow> upstream_db \<Rightarrow> upstream_db" where
  "record_probe_result lib ts opts i outcome db0 =
     (let db = upstream_init_db lib ts opts db0 in
      case outcome of
        Inr latency \<Rightarrow>
          db\<lparr>up_resolvers := update_where (\<lambda>r. ur_id r = i \<and> ur_enabled r)
            (\<lambda>r. r\<lparr>ur_probe_status := Healthy, ur_probe_message := ''Direct probe succeeded'', ur_probe_latency := Some latency,
                   ur_probe_checked := Some ts, ur_probe_failures := 0\<rparr>) (up_resolvers db)\<rparr>
      | Inl message \<Rightarrow>
          if \<not> list_ex (\<lambda>r. ur_id r = i \<and> ur_enabled r) (up_resolvers db) then db0
          else db\<lparr>up_resolvers := update_where (\<lambda>r. ur_id r = i \<and> ur_enabled r) (failed_probe ts message) (up_resolvers db)\<rparr>)"

text \<open>One round of the probe loop: the resolver whose turn it is, probed; \<open>probe\<close> is the network.\<close>

definition probe_round :: "stdlib \<Rightarrow> string \<Rightarrow> string option \<Rightarrow> (resolver \<Rightarrow> string result) \<Rightarrow> nat \<times> upstream_db \<Rightarrow> nat \<times> upstream_db" where
  "probe_round lib ts opts probe st =
     (case st of (cursor, db0) \<Rightarrow>
      case enabled_resolvers lib ts opts db0 of
        (db, []) \<Rightarrow> (cursor, db)
      | (db, rows) \<Rightarrow>
          let row = by_position rows ! (cursor mod length rows) in
          (Suc cursor, record_probe_result lib ts opts (ur_id row) (probe row) db))"

section \<open>One resolver stays enabled\<close>

definition has_enabled :: "resolver list \<Rightarrow> bool" where
  "has_enabled t = list_ex ur_enabled t"

lemma has_enabled_update:
  "(\<And>r. ur_enabled (f r) = ur_enabled r) \<Longrightarrow> has_enabled (update_where p f t) = has_enabled t"
  by (auto simp: has_enabled_def list_ex_iff update_where_def)

lemma has_enabled_number: "has_enabled (number_from pos ids t) = has_enabled t"
  by (induction pos ids t rule: number_from.induct) (simp_all add: has_enabled_update)

lemma has_enabled_reset: "has_enabled (reset_probe_state i en t) = has_enabled t"
  unfolding reset_probe_state_def by (rule has_enabled_update) simp

lemma has_enabled_init: "has_enabled (up_resolvers db) \<Longrightarrow> upstream_init_db lib ts opts db = db"
  by (auto simp: upstream_init_db_def has_enabled_def)

lemma has_enabled_insert: "has_enabled t \<Longrightarrow> has_enabled (insert_resolver ts d pos st m t)"
  by (auto simp: has_enabled_def insert_resolver_def insert_row_def)

lemma others_enabled: "\<not> would_leave_zero_enabled i True t \<longleftrightarrow> (\<exists>r\<in>set t. ur_id r \<noteq> i \<and> ur_enabled r)"
  by (auto simp: would_leave_zero_enabled_def filter_empty_conv)

text \<open>Changing the enabled flag of one row, guarded as the program guards it.\<close>

lemma has_enabled_set:
  assumes "has_enabled t" "\<not> would_leave_zero_enabled i (\<not> en) t" "\<And>r. ur_enabled (f r) = en" "\<And>r. ur_id (f r) = ur_id r"
  shows "has_enabled (update_where (\<lambda>r. ur_id r = i) f t)"
proof (cases en)
  case True
  obtain r where r: "r \<in> set t" "ur_enabled r" using assms(1) by (auto simp: has_enabled_def list_ex_iff)
  then have "(if ur_id r = i then f r else r) \<in> set (update_where (\<lambda>r. ur_id r = i) f t)" by (auto simp: update_where_def)
  then show ?thesis using True r(2) assms(3) by (auto simp: has_enabled_def list_ex_iff split: if_splits)
next
  case False
  then obtain r where "r \<in> set t" "ur_id r \<noteq> i" "ur_enabled r" using assms(2) others_enabled by auto
  then show ?thesis by (auto simp: has_enabled_def list_ex_iff set_update_where intro!: bexI [of _ r])
qed

section \<open>The table invariant\<close>

text \<open>What the probe columns of a row say.\<close>

definition probe_ok :: "resolver \<Rightarrow> bool" where
  "probe_ok r \<longleftrightarrow>
     (if ur_enabled r
      then ur_probe_status r \<noteq> ProbeDisabled \<and> (ur_probe_status r = ProbeFailed \<longleftrightarrow> UPSTREAM_PROBE_FAILURE_THRESHOLD \<le> ur_probe_failures r) \<and>
           (ur_probe_status r = Healthy \<longrightarrow> ur_probe_failures r = 0)
      else ur_probe_status r = ProbeDisabled \<and> ur_probe_failures r = 0)"

definition resolvers_ok :: "resolver list \<Rightarrow> bool" where
  "resolvers_ok t \<longleftrightarrow> rowids_ok ur_id t \<and> (\<forall>r\<in>set t. probe_ok r)"

lemma update_where_twice:
  "(\<And>r. p (f r) = p r) \<Longrightarrow> update_where p g (update_where p f t) = update_where p (\<lambda>r. g (f r)) t"
  by (simp add: update_where_def)

lemma resolvers_ok_update:
  assumes "resolvers_ok t" "\<And>r. ur_id (f r) = ur_id r" "\<And>r. r \<in> set t \<Longrightarrow> p r \<Longrightarrow> probe_ok (f r)"
  shows "resolvers_ok (update_where p f t)"
  using assms rowids_ok_update [of ur_id t f p] by (auto simp: resolvers_ok_def set_update_where)

lemma resolvers_ok_insert:
  assumes "resolvers_ok t" "st = (if rv_enabled d then Checking else ProbeDisabled)"
  shows "resolvers_ok (insert_resolver ts d pos st m t)"
proof -
  have "rowids_ok ur_id (insert_resolver ts d pos st m t)"
    unfolding insert_resolver_def using assms(1) by (intro resolver_table.insert_keeps_ids) (simp add: resolvers_ok_def)
  moreover have "\<forall>r\<in>set (insert_resolver ts d pos st m t). probe_ok r"
    using assms by (simp add: insert_resolver_def insert_row_def resolvers_ok_def) (simp add: probe_ok_def UPSTREAM_PROBE_FAILURE_THRESHOLD_def)
  ultimately show ?thesis by (simp add: resolvers_ok_def)
qed

lemma resolvers_ok_number: "resolvers_ok t \<Longrightarrow> resolvers_ok (number_from pos ids t)"
proof (induction pos ids t rule: number_from.induct)
  case (2 pos i ids t)
  have "resolvers_ok (update_where (\<lambda>r. ur_id r = i) (\<lambda>r. r\<lparr>ur_position := pos\<rparr>) t)"
    by (rule resolvers_ok_update [OF 2(2)]) (use 2(2) in \<open>auto simp: resolvers_ok_def probe_ok_def\<close>)
  then show ?case using 2(1) by simp
qed simp

lemma seed_rows_ok: "resolvers_ok t \<Longrightarrow> resolvers_ok (seed_rows lib ts port idx servers t)"
proof (induction servers arbitrary: idx t)
  case (Cons server servers)
  show ?case unfolding seed_rows.simps
    by (rule Cons.IH) (cases "normalize_host lib server", use Cons.prems in \<open>auto intro: resolvers_ok_insert\<close>)
qed simp

lemma upstream_init_ok: "resolvers_ok (up_resolvers db) \<Longrightarrow> resolvers_ok (up_resolvers (upstream_init_db lib ts opts db))"
  by (auto simp: upstream_init_db_def split: prod.split intro!: seed_rows_ok)

lemma reset_after_set_ok:
  assumes "resolvers_ok t" "\<And>r. ur_enabled (f r) = en" "\<And>r. ur_id (f r) = ur_id r"
  shows "resolvers_ok (reset_probe_state i en (update_where (\<lambda>r. ur_id r = i) f t))"
proof -
  let ?g = "\<lambda>r. r\<lparr>ur_probe_status := (if en then Checking else ProbeDisabled),
       ur_probe_message := (if en then [] else ''Disabled''), ur_probe_latency := None, ur_probe_checked := None, ur_probe_failures := 0\<rparr>"
  have "reset_probe_state i en (update_where (\<lambda>r. ur_id r = i) f t) = update_where (\<lambda>r. ur_id r = i) (\<lambda>r. ?g (f r)) t"
    unfolding reset_probe_state_def by (rule update_where_twice) (simp add: assms(3))
  moreover have "resolvers_ok (update_where (\<lambda>r. ur_id r = i) (\<lambda>r. ?g (f r)) t)"
    by (rule resolvers_ok_update [OF assms(1)]) (simp_all add: assms(2,3) probe_ok_def UPSTREAM_PROBE_FAILURE_THRESHOLD_def)
  ultimately show ?thesis by simp
qed

lemma failed_probe_ok: "ur_enabled r \<Longrightarrow> probe_ok (failed_probe ts m r)"
  by (simp add: failed_probe_def probe_ok_def Let_def)

lemma failed_probe_sel [simp]: "ur_id (failed_probe ts m r) = ur_id r" "ur_enabled (failed_probe ts m r) = ur_enabled r"
  by (simp_all add: failed_probe_def Let_def)

inductive upstream_step :: "stdlib \<Rightarrow> upstream_db \<Rightarrow> upstream_db \<Rightarrow> bool" for lib where
  us_view: "upstream_step lib db (upstream_init_db lib ts opts db)"
| us_add: "add_resolver lib ts opts vals db = Inr (db', i) \<Longrightarrow> upstream_step lib db db'"
| us_update: "update_resolver lib ts opts i vals db = Inr db' \<Longrightarrow> upstream_step lib db db'"
| us_delete: "delete_resolver lib ts opts i db = Inr db' \<Longrightarrow> upstream_step lib db db'"
| us_enable: "set_resolver_enabled lib ts opts i en db = Inr db' \<Longrightarrow> upstream_step lib db db'"
| us_move: "move_resolver lib ts opts i direction db = Inr db' \<Longrightarrow> upstream_step lib db db'"
| us_probe: "upstream_step lib db (record_probe_result lib ts opts i outcome db)"

lemma upstream_step_ok: "upstream_step lib db db' \<Longrightarrow> resolvers_ok (up_resolvers db) \<Longrightarrow> resolvers_ok (up_resolvers db')"
proof (induction rule: upstream_step.induct)
  case (us_view db ts opts)
  then show ?case by (rule upstream_init_ok)
next
  case (us_add ts opts vals db db' i)
  then show ?case using upstream_init_ok [of db lib ts opts]
    by (cases "validate_resolver lib vals") (auto simp: add_resolver_def then_ok_def Let_def intro!: resolvers_ok_insert)
next
  case (us_update ts opts i vals db db')
  then show ?case using upstream_init_ok [of db lib ts opts]
    by (cases "validate_resolver lib vals") (auto simp: update_resolver_def then_ok_def Let_def intro!: reset_after_set_ok split: if_splits)
next
  case (us_delete ts opts i db db')
  then have "resolvers_ok (delete_where (\<lambda>r. ur_id r = i) (up_resolvers (upstream_init_db lib ts opts db)))"
    using upstream_init_ok [of db lib ts opts] rowids_ok_delete by (auto simp: resolvers_ok_def delete_where_def)
  then show ?case using us_delete
    by (auto simp: delete_resolver_def Let_def renumber_def intro!: resolvers_ok_number split: if_splits)
next
  case (us_enable ts opts i en db db')
  then show ?case using upstream_init_ok [of db lib ts opts]
    by (auto simp: set_resolver_enabled_def Let_def intro!: reset_after_set_ok split: if_splits)
next
  case (us_move ts opts i direction db db')
  then show ?case using upstream_init_ok [of db lib ts opts]
    by (auto simp: move_resolver_def Let_def intro!: resolvers_ok_number split: option.splits if_splits)
next
  case (us_probe db ts opts i outcome)
  then show ?case using upstream_init_ok [of db lib ts opts]
    by (auto simp: record_probe_result_def Let_def intro!: resolvers_ok_update failed_probe_ok split: sum.splits)
       (auto simp: probe_ok_def UPSTREAM_PROBE_FAILURE_THRESHOLD_def)
qed

lemma upstream_step_enabled:
  "upstream_step lib db db' \<Longrightarrow> resolvers_ok (up_resolvers db) \<Longrightarrow> has_enabled (up_resolvers db) \<Longrightarrow> has_enabled (up_resolvers db')"
proof (induction rule: upstream_step.induct)
  case (us_view db ts opts)
  then show ?case by (simp add: has_enabled_init)
next
  case (us_add ts opts vals db db' i)
  then show ?case
    by (cases "validate_resolver lib vals") (auto simp: add_resolver_def then_ok_def Let_def has_enabled_init has_enabled_insert)
next
  case (us_update ts opts i vals db db')
  then show ?case
    by (cases "validate_resolver lib vals")
       (auto simp: update_resolver_def then_ok_def Let_def has_enabled_init has_enabled_reset intro!: has_enabled_set split: if_splits)
next
  case (us_delete ts opts i db db')
  let ?t = "up_resolvers db"
  have db': "db' = db\<lparr>up_resolvers := renumber (delete_where (\<lambda>r. ur_id r = i) ?t)\<rparr>"
    and guard: "\<not> (case row_by_id ur_id i ?t of None \<Rightarrow> False | Some r \<Rightarrow> would_leave_zero_enabled i (ur_enabled r) ?t)"
    using us_delete by (auto simp: delete_resolver_def Let_def has_enabled_init split: if_splits)
  obtain r where r: "r \<in> set ?t" "ur_enabled r" using us_delete.prems(2) by (auto simp: has_enabled_def list_ex_iff)
  have "\<exists>r\<in>set ?t. ur_id r \<noteq> i \<and> ur_enabled r"
  proof (cases "row_by_id ur_id i ?t")
    case None
    then show ?thesis using r by (auto simp: row_by_id_None)
  next
    case (Some q)
    show ?thesis
    proof (cases "ur_enabled q")
      case True
      then show ?thesis using guard Some others_enabled by simp
    next
      case False
      have "row_by_id ur_id (ur_id r) ?t = Some r" using us_delete.prems(1) r(1) by (intro row_by_id_unique) (auto simp: resolvers_ok_def)
      with False Some r(2) have "ur_id r \<noteq> i" by auto
      then show ?thesis using r by blast
    qed
  qed
  then have "has_enabled (delete_where (\<lambda>r. ur_id r = i) ?t)" by (auto simp: has_enabled_def list_ex_iff delete_where_def)
  then show ?case by (simp add: db' renumber_def has_enabled_number)
next
  case (us_enable ts opts i en db db')
  then show ?case
    by (auto simp: set_resolver_enabled_def Let_def has_enabled_init has_enabled_reset intro!: has_enabled_set split: if_splits)
next
  case (us_move ts opts i direction db db')
  then show ?case
    by (auto simp: move_resolver_def Let_def has_enabled_init has_enabled_number split: option.splits if_splits)
next
  case (us_probe db ts opts i outcome)
  then show ?case
    by (auto simp: record_probe_result_def has_enabled_init Let_def intro: has_enabled_update [THEN iffD2] split: sum.splits)
qed

lemma upstream_steps_keep:
  "(upstream_step lib)\<^sup>*\<^sup>* db db' \<Longrightarrow> resolvers_ok (up_resolvers db) \<Longrightarrow> has_enabled (up_resolvers db) \<Longrightarrow>
   resolvers_ok (up_resolvers db') \<and> has_enabled (up_resolvers db')"
  by (induction rule: rtranclp_induct) (auto dest: upstream_step_ok upstream_step_enabled)

section \<open>The order of the resolvers\<close>

lemma number_from_other: "r \<in> set (number_from p ids t) \<Longrightarrow> ur_id r \<notin> set ids \<Longrightarrow> r \<in> set t"
proof (induction p ids t rule: number_from.induct)
  case (2 p i ids t)
  then have "r \<in> set (update_where (\<lambda>r. ur_id r = i) (\<lambda>r. r\<lparr>ur_position := p\<rparr>) t)" by simp
  then show ?case using 2(3) by (auto simp: update_where_def split: if_splits)
qed simp

lemma number_from_position:
  "r \<in> set (number_from p ids t) \<Longrightarrow> distinct ids \<Longrightarrow> k < length ids \<Longrightarrow> ur_id r = ids ! k \<Longrightarrow> ur_position r = p + k"
proof (induction p ids t arbitrary: k rule: number_from.induct)
  case (2 p i ids t)
  show ?case
  proof (cases k)
    case 0
    then have "r \<in> set (update_where (\<lambda>r. ur_id r = i) (\<lambda>r. r\<lparr>ur_position := p\<rparr>) t)"
      using 2(2,3,5) by - (rule number_from_other [of r "Suc p" ids], simp_all)
    then obtain x where "r = (if ur_id x = i then x\<lparr>ur_position := p\<rparr> else x)" using set_update_where [THEN iffD1, of r] by blast
    moreover have "ur_id r = i" using 0 2(5) by simp
    ultimately have "r = x\<lparr>ur_position := p\<rparr>" by (cases "ur_id x = i") simp_all
    then show ?thesis using 0 by simp
  next
    case (Suc k')
    then have "ur_position r = Suc p + k'" using 2(2-5) by (intro 2(1)) simp_all
    then show ?thesis using Suc by simp
  qed
qed simp

lemma number_from_ids: "map ur_id (number_from p ids t) = map ur_id t"
  by (induction p ids t rule: number_from.induct) (auto simp: update_where_def)

lemma by_position_ids: "mset (map ur_id (by_position t)) = mset (map ur_id t)"
  by (simp add: by_position_def)

lemma by_position_sorted: "sorted (map ur_position (by_position t))"
proof -
  have "sorted (map (\<lambda>r. (ur_position r, ur_id r)) (by_position t))" unfolding by_position_def by (rule sorted_sort_key)
  then show ?thesis unfolding sorted_map by (rule sorted_wrt_mono_rel [rotated]) auto
qed

text \<open>Numbering the rows in the order of a list makes that list their order.\<close>

lemma number_from_order:
  assumes d: "distinct ids" and m: "mset ids = mset (map ur_id t)"
  shows "map ur_id (by_position (number_from p ids t)) = ids"
proof -
  let ?t = "number_from p ids t"
  let ?out = "map ur_id (by_position ?t)"
  let ?pos = "\<lambda>i. p + the (map_of (zip ids [0..<length ids]) i)"
  have pos: "?pos (ids ! k) = p + k" if "k < length ids" for k
    using that d by (simp add: map_of_zip_nth)
  have perm: "mset ?out = mset ids" unfolding by_position_ids number_from_ids m ..
  have "map ?pos ids = [p..<p + length ids]" by (rule nth_equalityI) (simp_all add: pos)
  then have sorted_ids: "sorted (map ?pos ids)" by simp
  have "ur_position r = ?pos (ur_id r)" if r: "r \<in> set (by_position ?t)" for r
  proof -
    have "ur_id r \<in> set ids" using r perm by (metis image_eqI list.set_map mset_eq_setD)
    then obtain k where k: "k < length ids" "ur_id r = ids ! k" by (auto simp: in_set_conv_nth)
    have "r \<in> set ?t" using r by (simp add: by_position_def)
    from number_from_position [OF this d k] show ?thesis using pos [OF k(1)] k(2) by simp
  qed
  then have "map ?pos ?out = map ur_position (by_position ?t)" by simp
  then have sorted_out: "sorted (map ?pos ?out)" using by_position_sorted [of ?t] by (simp only:)
  have inj: "inj_on ?pos (set ids)" using pos by (intro inj_onI) (metis add_left_cancel in_set_conv_nth)
  have "sort_key ?pos ids = ?out" by (rule sort_key_inj_key_eq [OF perm [symmetric] inj sorted_out])
  moreover have "sort_key ?pos ids = ids" by (rule sort_key_inj_key_eq [OF refl inj sorted_ids])
  ultimately show ?thesis by simp
qed

lemma find_char_nth: "distinct xs \<Longrightarrow> k < length xs \<Longrightarrow> find_char (xs ! k) xs = Some k"
  by (induction xs arbitrary: k) (auto simp: nth_Cons split: nat.split)

lemma swap_at_mset: "i < length xs \<Longrightarrow> j < length xs \<Longrightarrow> mset (swap_at i j xs) = mset xs"
  unfolding swap_at_def by (rule mset_swap)

section \<open>Probe histories\<close>

text \<open>The results of successive probes of one resolver, with the times at which they were recorded.\<close>

definition record_probes :: "stdlib \<Rightarrow> string option \<Rightarrow> nat \<Rightarrow> (string \<times> string result) list \<Rightarrow> upstream_db \<Rightarrow> upstream_db" where
  "record_probes lib opts i history db = fold (\<lambda>(ts, outcome). record_probe_result lib ts opts i outcome) history db"

text \<open>What a history says: the failures at its end, and the status that follows.\<close>

definition failures_in_row :: "(string \<times> string result) list \<Rightarrow> nat" where
  "failures_in_row history = length (takeWhile (\<lambda>(ts, outcome). isl outcome) (rev history))"

definition probe_verdict :: "(string \<times> string result) list \<Rightarrow> probe_status" where
  "probe_verdict history =
     (if UPSTREAM_PROBE_FAILURE_THRESHOLD \<le> failures_in_row history then ProbeFailed
      else if failures_in_row history = 0 \<and> history \<noteq> [] then Healthy else Checking)"

definition probe_reads :: "nat \<Rightarrow> (string \<times> string result) list \<Rightarrow> resolver list \<Rightarrow> bool" where
  "probe_reads i history t \<longleftrightarrow> (\<exists>r\<in>set t. ur_id r = i) \<and>
     (\<forall>r\<in>set t. ur_id r = i \<longrightarrow> ur_enabled r \<and> ur_probe_failures r = failures_in_row history \<and> ur_probe_status r = probe_verdict history)"

lemma failures_in_row_snoc:
  "failures_in_row (history @ [(ts, Inl m)]) = Suc (failures_in_row history)" "failures_in_row (history @ [(ts, Inr l)]) = 0"
  by (simp_all add: failures_in_row_def)

lemma failed_probe_reads:
  "ur_enabled r \<Longrightarrow> ur_probe_failures r = failures_in_row history \<Longrightarrow>
   ur_probe_failures (failed_probe ts m r) = failures_in_row (history @ [(ts', Inl m')]) \<and>
   ur_probe_status (failed_probe ts m r) = probe_verdict (history @ [(ts', Inl m')])"
  by (simp add: failed_probe_def Let_def probe_verdict_def failures_in_row_snoc)

lemma probe_reads_update:
  assumes "probe_reads i history t" "\<And>r. ur_id (f r) = ur_id r"
    "\<And>r. ur_enabled r \<Longrightarrow> ur_probe_failures r = failures_in_row history \<Longrightarrow>
       ur_enabled (f r) \<and> ur_probe_failures (f r) = failures_in_row history' \<and> ur_probe_status (f r) = probe_verdict history'"
  shows "probe_reads i history' (update_where (\<lambda>r. ur_id r = i \<and> ur_enabled r) f t)"
proof -
  let ?t = "update_where (\<lambda>r. ur_id r = i \<and> ur_enabled r) f t"
  have "map ur_id ?t = map ur_id t" by (simp add: update_where_def assms(2))
  moreover have "i \<in> set (map ur_id t)" using assms(1) by (auto simp: probe_reads_def)
  ultimately have "i \<in> set (map ur_id ?t)" by (simp only:)
  then have "\<exists>r\<in>set ?t. ur_id r = i" by auto
  moreover have "ur_enabled r \<and> ur_probe_failures r = failures_in_row history' \<and> ur_probe_status r = probe_verdict history'"
    if r: "r \<in> set ?t" "ur_id r = i" for r
  proof -
    obtain q where q: "q \<in> set t" "r = (if ur_id q = i \<and> ur_enabled q then f q else q)"
      using set_update_where [THEN iffD1, OF r(1)] by blast
    then have i: "ur_id q = i" using r(2) assms(2) by (cases "ur_id q = i \<and> ur_enabled q") simp_all
    then have e: "ur_enabled q" "ur_probe_failures q = failures_in_row history" using assms(1) q(1) by (simp_all add: probe_reads_def)
    then have "r = f q" using q(2) i by simp
    then show ?thesis using assms(3) [OF e] by (simp only:)
  qed
  ultimately show ?thesis unfolding probe_reads_def by blast
qed

lemma record_probe_reads:
  assumes "probe_reads i history (up_resolvers db)"
  shows "probe_reads i (history @ [(ts, outcome)]) (up_resolvers (record_probe_result lib ts opts i outcome db))"
proof -
  have "up_resolvers db \<noteq> []" using assms by (auto simp: probe_reads_def)
  then have init: "upstream_init_db lib ts opts db = db" by (simp add: upstream_init_db_def)
  have row: "list_ex (\<lambda>r. ur_id r = i \<and> ur_enabled r) (up_resolvers db)" using assms by (auto simp: probe_reads_def list_ex_iff)
  show ?thesis
  proof (cases outcome)
    case (Inl m)
    have "probe_reads i (history @ [(ts, Inl m)]) (update_where (\<lambda>r. ur_id r = i \<and> ur_enabled r) (failed_probe ts m) (up_resolvers db))"
      using failed_probe_reads [of _ history ts m ts m] by (intro probe_reads_update [OF assms]) simp_all
    then show ?thesis using row by (simp add: record_probe_result_def init Inl)
  next
    case (Inr l)
    show ?thesis unfolding Inr record_probe_result_def init Let_def sum.case
      by simp (rule probe_reads_update [OF assms],
          simp_all add: probe_verdict_def failures_in_row_snoc UPSTREAM_PROBE_FAILURE_THRESHOLD_def)
  qed
qed

lemma record_probes_read:
  "probe_reads i [] (up_resolvers db) \<Longrightarrow> probe_reads i history (up_resolvers (record_probes lib opts i history db))"
proof (induction history rule: rev_induct)
  case (snoc x history)
  then show ?case using record_probe_reads by (cases x) (simp add: record_probes_def)
qed (simp add: record_probes_def)

section \<open>Theorems\<close>

text \<open>
  C19: Once the table holds an enabled resolver, every sequence of the operations an administrator or the probe
  loop performs leaves an enabled resolver in it, and the probe columns of every row stay consistent.
\<close>

theorem one_resolver_stays_enabled:
  assumes "resolvers_ok (up_resolvers db)" "has_enabled (up_resolvers db)" "(upstream_step lib)\<^sup>*\<^sup>* db db'"
  shows "resolvers_ok (up_resolvers db') \<and> has_enabled (up_resolvers db')"
  using upstream_steps_keep [OF assms(3,1,2)] .

definition example_resolver :: "nat \<Rightarrow> string \<Rightarrow> resolver" where
  "example_resolver i address =
     \<lparr>ur_id = i, ur_name = ''Imported'', ur_protocol = Plain,
      ur_endpoint = \<lparr>ep_address = address, ep_port = 53, ep_doh_path = [], ep_tls_hostname = [], ep_bootstrap = []\<rparr>, ur_enabled = True,
      ur_position = i, ur_last_status = ''unknown'', ur_last_message = [], ur_last_latency = None, ur_last_checked = None,
      ur_probe_status = Checking, ur_probe_message = [], ur_probe_latency = None, ur_probe_checked = None,
      ur_probe_failures = 0, ur_created_at = ''t0'', ur_updated_at = ''t0''\<rparr>"

definition example_upstreams :: upstream_db where
  "example_upstreams = \<lparr>up_resolvers = [example_resolver 1 ''1.1.1.2'', example_resolver 2 ''9.9.9.9''], up_deployments = []\<rparr>"

theorem one_resolver_stays_enabled_witness:
  "map ur_enabled (up_resolvers (projr (set_resolver_enabled plain_lib ''t1'' None 1 False example_upstreams))) = [False, True] \<and>
   has_enabled (up_resolvers (projr (set_resolver_enabled plain_lib ''t1'' None 1 False example_upstreams)))"
proof -
  let ?r = "set_resolver_enabled plain_lib ''t1'' None 1 False example_upstreams"
  have "upstream_step plain_lib example_upstreams (projr ?r)" by (rule upstream_step.us_enable [of _ "''t1''" None 1 False]) code_simp
  moreover have "resolvers_ok (up_resolvers example_upstreams)" by code_simp
  moreover have "has_enabled (up_resolvers example_upstreams)" by code_simp
  moreover have "map ur_enabled (up_resolvers (projr ?r)) = [False, True]" by code_simp
  ultimately show ?thesis using one_resolver_stays_enabled [of example_upstreams plain_lib "projr ?r"] by blast
qed

text \<open>
  A resolver whose probe state was reset is reported as failed exactly after three failed probes in a row,
  as healthy exactly after a successful one, and as being checked otherwise, whatever the results before.
\<close>

theorem probe_status_of_history:
  assumes "resolvers_ok (up_resolvers db)" "r \<in> set (up_resolvers db)" "ur_enabled r"
    "ur_probe_status r = Checking" "ur_probe_failures r = 0"
  shows "probe_reads (ur_id r) history (up_resolvers (record_probes lib opts (ur_id r) history db))"
proof (rule record_probes_read)
  have same: "q = r" if "q \<in> set (up_resolvers db)" "ur_id q = ur_id r" for q
  proof -
    have ids: "rowids_ok ur_id (up_resolvers db)" using assms(1) by (simp add: resolvers_ok_def)
    have "Some q = Some r" unfolding row_by_id_unique [OF ids that(1), symmetric] row_by_id_unique [OF ids assms(2), symmetric] that(2) ..
    then show ?thesis by simp
  qed
  have "probe_verdict [] = Checking" "failures_in_row [] = 0"
    by (simp_all add: probe_verdict_def failures_in_row_def UPSTREAM_PROBE_FAILURE_THRESHOLD_def)
  then show "probe_reads (ur_id r) [] (up_resolvers db)" unfolding probe_reads_def
    by (intro conjI ballI impI) (use assms(2-5) in \<open>auto dest: same\<close>)
qed

definition three_timeouts :: "(string \<times> string result) list" where
  "three_timeouts = [(''t1'', Inl ''timed out''), (''t2'', Inl ''timed out''), (''t3'', Inl ''timed out'')]"

theorem probe_status_of_history_witness:
  "probe_verdict three_timeouts = ProbeFailed \<and>
   probe_reads 1 three_timeouts (up_resolvers (record_probes plain_lib None 1 three_timeouts example_upstreams))"
proof -
  let ?r = "example_resolver 1 ''1.1.1.2''"
  have "resolvers_ok (up_resolvers example_upstreams)" by code_simp
  moreover have "?r \<in> set (up_resolvers example_upstreams)" by (simp add: example_upstreams_def)
  moreover have "ur_enabled ?r" "ur_probe_status ?r = Checking" "ur_probe_failures ?r = 0" by (simp_all add: example_resolver_def)
  ultimately have "probe_reads (ur_id ?r) three_timeouts (up_resolvers (record_probes plain_lib None (ur_id ?r) three_timeouts example_upstreams))"
    by (rule probe_status_of_history)
  moreover have "ur_id ?r = 1" by (simp add: example_resolver_def)
  moreover have "probe_verdict three_timeouts = ProbeFailed" by code_simp
  ultimately show ?thesis by metis
qed

text \<open>
  Moving a resolver up or down exchanges it with its neighbour in the order in which dnsdist tries them and
  leaves the order of the others; at either end the order stays.
\<close>

theorem move_resolver_swaps:
  assumes "resolvers_ok (up_resolvers db)" "ids = map ur_id (by_position (up_resolvers db))" "k < length ids"
  shows "\<exists>db'. move_resolver lib ts opts (ids ! k) direction db = Inr db' \<and>
     map ur_id (by_position (up_resolvers db')) =
       (if direction = ''up'' then (if k = 0 then ids else swap_at k (k - 1) ids)
        else (if Suc k < length ids then swap_at k (Suc k) ids else ids))"
proof -
  let ?t = "up_resolvers db"
  have perm: "mset ids = mset (map ur_id ?t)" unfolding assms(2) by (rule by_position_ids)
  have "distinct (map ur_id ?t)" using assms(1) strict_sorted_iff by (auto simp: resolvers_ok_def rowids_ok_def)
  then have d: "distinct ids" using mset_eq_imp_distinct_iff [OF perm] by simp
  have "?t \<noteq> []" using assms(2,3) by (auto simp: by_position_def)
  then have init: "upstream_init_db lib ts opts db = db" by (simp add: upstream_init_db_def)
  have idx: "find_char (ids ! k) ids = Some k" using find_char_nth [OF d assms(3)] .
  have order: "map ur_id (by_position (number_from 1 (swap_at k j ids) ?t)) = swap_at k j ids" if "j < length ids" for j
  proof (rule number_from_order)
    have "mset (swap_at k j ids) = mset ids" using swap_at_mset [OF assms(3) that] .
    then show "mset (swap_at k j ids) = mset (map ur_id ?t)" "distinct (swap_at k j ids)" using perm d mset_eq_imp_distinct_iff by metis+
  qed
  have "move_resolver lib ts opts (ids ! k) direction db =
     (let new = (if direction = ''up'' then int k - 1 else int k + 1) in
      if 0 \<le> new \<and> new < int (length ids)
      then Inr (db\<lparr>up_resolvers := number_from 1 (swap_at k (nat new) ids) ?t\<rparr>) else Inr db)"
    unfolding move_resolver_def init Let_def assms(2) [symmetric] idx option.case ..
  then show ?thesis using order assms(3) by (cases k) (auto simp: nat_add_distrib Let_def simp flip: assms(2))
qed

theorem move_resolver_swaps_witness:
  "map ur_id (by_position (up_resolvers (projr (move_resolver plain_lib ''t1'' None 2 ''up'' example_upstreams)))) = [2, 1]"
proof -
  have ids: "map ur_id (by_position (up_resolvers example_upstreams)) = [1, 2]" by code_simp
  have "resolvers_ok (up_resolvers example_upstreams)" by code_simp
  from move_resolver_swaps [OF this ids [symmetric], of 1 plain_lib "''t1''" None "''up''"]
  show ?thesis by (auto simp: swap_at_def)
qed

end
