(* ===== verification/Upstream_Deploy.thy ===== *)
theory Upstream_Deploy
  imports Upstream_Resolvers Dnsdist_Layer
begin

text \<open>
  Deployment of the upstream resolvers (\<^verbatim>\<open>app/upstream_dns.py\<close>): rendering for dnsdist and BIND, the includes in
  \<^verbatim>\<open>dnsdist.conf\<close> and \<^verbatim>\<open>named.conf.options\<close>, reconciliation over the dnsdist console, and the deployment with its
  rollback.  External commands are one argument: the outcome of a command may depend on the files and on the
  commands run before it.  Shown: a failed deployment leaves the two managed files as they were and a finished
  row, no BIND secret reaches that row, the check after activation gives up after eleven rounds, a quoted text
  is read back by Lua as it was, and a resolver is marked healthy only when dnsdist says so.
\<close>

section \<open>Files and commands\<close>

record upstream_fs =
  uf_dd :: dnsdist_fs
  uf_options :: "string option"

text \<open>
  \<open>ut_run log fs cmd\<close>: exit code and output of a command, or the text of the exception when it cannot be run;
  \<open>ut_signal\<close>: how a negative exit code is described; \<open>ut_spent k\<close>: milliseconds spent by the commands of round
  \<open>k\<close> of the check after activation.
\<close>

record upstream_tools =
  ut_run :: "string list list \<Rightarrow> upstream_fs \<Rightarrow> string list \<Rightarrow> (int \<times> string) result"
  ut_signal :: "int \<Rightarrow> string"
  ut_spent :: "nat \<Rightarrow> nat"

definition quoted :: "string \<Rightarrow> string" where
  "quoted s = CHR 0x27 # s @ [CHR 0x27]"

definition command_failed :: "upstream_tools \<Rightarrow> string list \<Rightarrow> int \<Rightarrow> string" where
  "command_failed tools cmd code =
     ''Command '' @ quoted (''['' @ join '', '' (map quoted cmd) @ '']'') @
     (if code < 0 then '' died with '' @ ut_signal tools code @ ''.''
      else '' returned non-zero exit status '' @ str_int code @ ''.'')"

text \<open>\<^verbatim>\<open>run(command)\<close>, which raises on a non-zero exit code.\<close>

definition run_checked :: "upstream_tools \<Rightarrow> string list list \<Rightarrow> upstream_fs \<Rightarrow> string list \<Rightarrow> string result" where
  "run_checked tools log fs cmd =
     then_ok (ut_run tools log fs cmd) (\<lambda>(code, out). if code = 0 then Inr out else Inl (command_failed tools cmd code))"

definition DNSDIST_UPSTREAM_NAME :: string where "DNSDIST_UPSTREAM_NAME = ''upstream-forwarder.conf''"
definition BIND_FORWARDERS_NAME :: string where "BIND_FORWARDERS_NAME = ''upstream-forwarders.conf''"
definition DNSDIST_UPSTREAM_CONF :: string where "DNSDIST_UPSTREAM_CONF = ''/var/lib/alderpointdns/compiled/dnsdist/upstream-forwarder.conf''"
definition BIND_FORWARDERS_CONF :: string where "BIND_FORWARDERS_CONF = ''/var/lib/alderpointdns/compiled/bind/upstream-forwarders.conf''"
definition LOOPBACK_FORWARDER :: string where "LOOPBACK_FORWARDER = ''127.0.0.1''"
definition LOOPBACK_FORWARDER_PORT :: nat where "LOOPBACK_FORWARDER_PORT = 5355"
definition TEST_DOMAIN :: string where "TEST_DOMAIN = ''cloudflare.com''"
definition POST_DEPLOY_CHECK_TIMEOUT :: nat where "POST_DEPLOY_CHECK_TIMEOUT = 5000"
definition POST_DEPLOY_CHECK_RETRY_INTERVAL :: nat where "POST_DEPLOY_CHECK_RETRY_INTERVAL = 500"

section \<open>Rendering\<close>

definition lua_quote :: "string \<Rightarrow> string" where
  "lua_quote v = CHR 0x22 # concat (map (\<lambda>c. if c = CHR 0x5C \<or> c = CHR 0x22 then [CHR 0x5C, c] else [c]) v) @ [CHR 0x22]"

text \<open>A resolver with the address dnsdist connects to (\<^verbatim>\<open>_dnsdist_address\<close>).\<close>

type_synonym prepared = "resolver \<times> string"

definition address_for_dnsdist :: "prepared \<Rightarrow> string" where
  "address_for_dnsdist p =
     (let r = fst p; override = py_strip (snd p);
          host0 = (if override \<noteq> [] then override else ep_address (ur_endpoint r));
          host = (if contains host0 '':'' \<and> \<not> startswith host0 ''['' then ''['' @ host0 @ '']'' else host0)
      in host @ '':'' @ str_int (ep_port (ur_endpoint r)))"

definition bootstrap_ips :: "resolver \<Rightarrow> string list" where
  "bootstrap_ips r = filter (\<lambda>s. s \<noteq> []) (map py_strip (split_char CHR '','' (ep_bootstrap (ur_endpoint r))))"

definition protocol_text :: "protocol \<Rightarrow> string" where
  "protocol_text p = (case p of Plain \<Rightarrow> ''plain'' | Dot \<Rightarrow> ''dot'' | Doh \<Rightarrow> ''doh'')"

text \<open>An \<^verbatim>\<open>UpstreamDNSError\<close>, or another exception.\<close>

datatype upstream_error = Upstream_error string | Other_error string

definition error_text :: "upstream_error \<Rightarrow> string" where
  "error_text e = (case e of Upstream_error m \<Rightarrow> m | Other_error m \<Rightarrow> m)"

fun first_ip :: "string list \<Rightarrow> string option" where
  "first_ip [] = None"
| "first_ip (raw # rest) =
     (case ip_address (case split_ws (py_strip raw) of [] \<Rightarrow> [] | w # _ \<Rightarrow> w) of
        Some i \<Rightarrow> Some (str_ip i)
      | None \<Rightarrow> first_ip rest)"

definition dig_command :: "string \<Rightarrow> string \<Rightarrow> string \<Rightarrow> string list" where
  "dig_command resolver address qtype =
     [''dig'', CHR ''@'' # resolver, address, qtype, ''+short'', ''+time=3'', ''+tries=1'']"

fun dig_all :: "upstream_tools \<Rightarrow> upstream_fs \<Rightarrow> string \<Rightarrow> (string \<times> string) list \<Rightarrow> string list list \<Rightarrow> string list \<Rightarrow>
    string list list \<times> (upstream_error + string)" where
  "dig_all tools fs address [] log errors =
     (log, Inl (Upstream_error (''bootstrap resolution failed for '' @ address @ '': '' @
        (if errors \<noteq> [] then join ''; '' (take 4 errors) else ''no A or AAAA address returned''))))"
| "dig_all tools fs address ((qtype, resolver) # rest) log errors =
     (let cmd = dig_command resolver address qtype in
      case ut_run tools log fs cmd of
        Inl e \<Rightarrow> (log @ [cmd], Inl (Other_error e))
      | Inr (code, out) \<Rightarrow>
          if code \<noteq> 0 then dig_all tools fs address rest (log @ [cmd])
            (errors @ [resolver @ '' '' @ qtype @ '': dig exited '' @ str_int code])
          else case first_ip (splitlines out) of
            Some ip \<Rightarrow> (log @ [cmd], Inr ip)
          | None \<Rightarrow> dig_all tools fs address rest (log @ [cmd]) errors)"

definition resolve_backend_address :: "upstream_tools \<Rightarrow> upstream_fs \<Rightarrow> resolver \<Rightarrow> string list list \<Rightarrow>
    string list list \<times> (upstream_error + string)" where
  "resolve_backend_address tools fs r log =
     (let address = ep_address (ur_endpoint r); bootstrap = bootstrap_ips r in
      if ur_protocol r = Plain \<or> host_is_ip address then (log, Inr address)
      else if bootstrap = []
      then (log, Inl (Upstream_error (py_upper (protocol_text (ur_protocol r)) @ '' resolver hostname requires at least one bootstrap IP'')))
      else dig_all tools fs address (concat (map (\<lambda>qtype. map (Pair qtype) bootstrap) [''A'', ''AAAA''])) log [])"

text \<open>\<^verbatim>\<open>prepare_dnsdist_rows_partial\<close>: an \<^verbatim>\<open>UpstreamDNSError\<close> costs one resolver, another exception the deployment.\<close>

fun prepare_dnsdist_rows_partial :: "upstream_tools \<Rightarrow> upstream_fs \<Rightarrow> resolver list \<Rightarrow> string list list \<Rightarrow>
    string list list \<times> (prepared list \<times> (resolver \<times> string) list) result" where
  "prepare_dnsdist_rows_partial tools fs [] log = (log, Inr ([], []))"
| "prepare_dnsdist_rows_partial tools fs (r # rs) log =
     (case resolve_backend_address tools fs r log of
        (log, Inl (Other_error e)) \<Rightarrow> (log, Inl e)
      | (log, Inl (Upstream_error e)) \<Rightarrow>
          map_prod id (map_sum id (\<lambda>(rows, failures). (rows, (r, e) # failures))) (prepare_dnsdist_rows_partial tools fs rs log)
      | (log, Inr address) \<Rightarrow>
          map_prod id (map_sum id (\<lambda>(rows, failures). ((r, address) # rows, failures))) (prepare_dnsdist_rows_partial tools fs rs log))"

definition name_char :: "char \<Rightarrow> bool" where
  "name_char c = (is_ascii_lower c \<or> is_ascii_upper c \<or> is_ascii_digit c \<or> c = CHR ''_'' \<or> c = CHR ''-'')"

text \<open>\<^verbatim>\<open>re.sub(r'[^a-zA-Z0-9_-]+', '-', name)\<close>; the flag: inside a run of other characters.\<close>

fun dash_runs :: "bool \<Rightarrow> string \<Rightarrow> string" where
  "dash_runs inside [] = []"
| "dash_runs inside (c # s) =
     (if name_char c then c # dash_runs False s
      else if inside then dash_runs True s else CHR ''-'' # dash_runs True s)"

definition new_server_statement :: "prepared \<Rightarrow> string" where
  \<open>new_server_statement p =
     (let r = fst p; ep = ur_endpoint r;
          opts = [''address='' @ lua_quote (address_for_dnsdist p),
                  ''name='' @ lua_quote (''upstream-'' @ str_nat (ur_id r) @ ''-'' @ take 42 (dash_runs False (ur_name r))),
                  ''pool="alderpointdns_upstreams"'', ''checkName="cloudflare.com."'', ''checkType="A"'', ''mustResolve=true'',
                  ''order='' @ str_nat (ur_position r)];
          tls = (if ur_protocol r = Plain then []
                 else [''tls="openssl"'', ''validateCertificates=true'', ''subjectName='' @ lua_quote (or_text (ep_tls_hostname ep) (ep_address ep))]);
          doh = (if ur_protocol r = Doh then [''dohPath='' @ lua_quote (or_text (ep_doh_path ep) ''/dns-query'')] else [])
      in ''newServer({'' @ join '', '' (opts @ tls @ doh) @ ''})'')\<close>

definition render_dnsdist_upstreams :: "prepared list \<Rightarrow> string" where
  \<open>render_dnsdist_upstreams rows =
     join [newline]
       ([''-- Managed by Alderpoint DNS. Generated upstream forwarder; do not edit by hand.'',
         ''alderpointdnsUpstreamsEnabled = true'',
         ''addLocal("'' @ LOOPBACK_FORWARDER @ '':'' @ str_nat LOOPBACK_FORWARDER_PORT @ ''", {reusePort=true})'',
         ''setPoolServerPolicy(firstAvailable, "alderpointdns_upstreams")''] @ map new_server_statement rows) @ [newline]\<close>

definition render_bind_forwarders :: string where
  "render_bind_forwarders =
     join [newline]
       [''// Managed by Alderpoint DNS. Generated upstream forwarder target; do not edit by hand.'',
        ''forwarders port '' @ str_nat LOOPBACK_FORWARDER_PORT @ '' { '' @ LOOPBACK_FORWARDER @ ''; };'', []]"

section \<open>Includes\<close>

text \<open>\<^verbatim>\<open>s.replace(old, new, 1)\<close> for a non-empty \<open>old\<close>.\<close>

fun replace_first :: "string \<Rightarrow> string \<Rightarrow> string \<Rightarrow> string" where
  "replace_first old new [] = []"
| "replace_first old new (c # s) =
     (if startswith (c # s) old then new @ drop (length old) (c # s) else c # replace_first old new s)"

text \<open>\<^verbatim>\<open>\n\s*forwarders\s*(?:port\s+\d+\s*)?\{[^}]*\};\<close>, replaced by nothing.\<close>

definition forwarders_block :: redaction where
  "forwarders_block =
     \<lparr>rd_group = Eps,
      rd_rest = cats [Chr ((=) newline), ws 0, lit ''forwarders'', ws 0,
        Alt (cats [lit ''port'', ws 1, Greedy 1 is_ascii_digit, ws 0]) Eps,
        Chr ((=) CHR ''{''), Greedy 0 (\<lambda>c. c \<noteq> CHR ''}''), lit ''};''],
      rd_text = [], rd_bound = False\<rparr>"

definition forward_only :: string where "forward_only = ''forward only;''"

definition forwarders_include_line :: string where
  \<open>forwarders_include_line = CHR 9 # ''include "'' @ BIND_FORWARDERS_CONF @ ''";''\<close>

definition ensure_named_forwarders_include :: "string \<Rightarrow> upstream_fs \<Rightarrow> upstream_fs \<times> unit result" where
  "ensure_named_forwarders_include stamp fs =
     (case uf_options fs of
        None \<Rightarrow> (fs, Inl ''No such file or directory'')
      | Some current \<Rightarrow>
          if contains current BIND_FORWARDERS_CONF then (fs, Inr ())
          else
            let dd = uf_dd fs;
                fs = fs\<lparr>uf_dd := dd\<lparr>dd_backups := AList.update (''named.conf.options.pre-upstream.'' @ stamp) current (dd_backups dd)\<rparr>\<rparr>;
                current = redact forwarders_block False current
            in if \<not> contains current forward_only then (fs, Inl ''named.conf.options is missing forward only;'')
               else (fs\<lparr>uf_options := Some (replace_first forward_only (forward_only @ [newline] @ forwarders_include_line) current)\<rparr>, Inr ()))"

definition upstream_include_block :: string where
  \<open>upstream_include_block = concat (map (\<lambda>l. l @ [newline])
     [''alderpointdnsUpstreamsEnabled = false'',
      ''local alderpointdnsUpstreamConfig = "'' @ DNSDIST_UPSTREAM_CONF @ ''"'',
      ''local alderpointdnsUpstreamFile = io.open(alderpointdnsUpstreamConfig, "r")'',
      ''if alderpointdnsUpstreamFile then'',
      ''  alderpointdnsUpstreamFile:close()'',
      ''  dofile(alderpointdnsUpstreamConfig)'',
      ''end''])\<close>

definition cache_marker :: string where
  \<open>cache_marker = ''getPool(""):setCache(pc)''\<close>

definition server_head :: string where
  \<open>server_head = ''newServer({'' @ [newline] @ ''  address="127.0.0.1:5354",''\<close>

definition route_marker :: string where
  "route_marker = ''}), RCodeAction(DNSRCode.REFUSED))''"

definition upstream_route :: string where
  \<open>upstream_route = concat (map (\<lambda>l. l @ [newline])
     [''if alderpointdnsUpstreamsEnabled then'',
      ''  addAction(DSTPortRule(5355), PoolAction("alderpointdns_upstreams"))'',
      ''end'',
      ''addAction(AllRule(), PoolAction("alderpointdns_bind"))'', []])\<close>

definition ensure_dnsdist_include :: "string \<Rightarrow> dnsdist_fs \<Rightarrow> dnsdist_fs \<times> unit result" where
  \<open>ensure_dnsdist_include stamp fs =
     (case (case dd_conf fs of Some s \<Rightarrow> Some s | None \<Rightarrow> dd_packaged fs) of
        None \<Rightarrow> (fs, Inl ''No such file or directory'')
      | Some current \<Rightarrow>
          if contains current DNSDIST_UPSTREAM_CONF then (fs, Inr ())
          else
            let fs = fs\<lparr>dd_backups := (case dd_conf fs of
                   None \<Rightarrow> dd_backups fs
                 | Some s \<Rightarrow> AList.update (''dnsdist.conf.pre-upstream.'' @ stamp) s (dd_backups fs))\<rparr>
            in if \<not> contains current cache_marker then (fs, Inl ''dnsdist.conf is missing packet-cache pool marker'')
               else
                 let current = replace_first cache_marker
                       (''getPool("alderpointdns_bind"):setCache(pc)'' @ [newline, newline] @ upstream_include_block) current;
                     current = replace_first server_head (server_head @ [newline] @ ''  pool="alderpointdns_bind",'') current
                 in if \<not> contains current route_marker then (fs, Inl ''dnsdist.conf is missing action marker'')
                    else (fs\<lparr>dd_conf := Some (replace_first route_marker (route_marker @ [newline, newline] @ upstream_route) current)\<rparr>, Inr ()))\<close>

section \<open>The dnsdist console\<close>

fun digit_part :: "string \<Rightarrow> bool" where
  "digit_part [] = False"
| "digit_part [c] = is_ascii_digit c"
| "digit_part (c # d # s) = (is_ascii_digit c \<and> (if d = CHR ''_'' then digit_part s else digit_part (d # s)))"

definition drop_sign :: "string \<Rightarrow> string" where
  "drop_sign s = (case s of [] \<Rightarrow> [] | c # t \<Rightarrow> if c = CHR ''+'' \<or> c = CHR ''-'' then t else s)"

definition is_mantissa :: "string \<Rightarrow> bool" where
  "is_mantissa s =
     (case partition_char CHR ''.'' s of
        (a, False, _) \<Rightarrow> digit_part a
      | (a, True, b) \<Rightarrow> (a = [] \<or> digit_part a) \<and> (b = [] \<or> digit_part b) \<and> (a \<noteq> [] \<or> b \<noteq> []))"

text \<open>The texts Python's \<^verbatim>\<open>float\<close> accepts, once stripped.\<close>

definition is_float_text :: "string \<Rightarrow> bool" where
  "is_float_text s =
     (let t = py_lower (drop_sign s) in
      t = ''inf'' \<or> t = ''infinity'' \<or> t = ''nan'' \<or>
      (case partition_char CHR ''e'' t of
         (m, False, _) \<Rightarrow> is_mantissa m
       | (m, True, x) \<Rightarrow> is_mantissa m \<and> digit_part (drop_sign x)))"

definition parse_backend_metric :: "string \<Rightarrow> string option" where
  "parse_backend_metric s =
     (let v = py_strip s in
      if v = [] \<or> v = ''-'' then None else if is_float_text v then Some v else None)"

record backend_snapshot =
  bs_up :: bool
  bs_queries :: int
  bs_lat :: "string option"
  bs_tcp :: "string option"

definition all_digits :: "string \<Rightarrow> bool" where
  "all_digits s = (s \<noteq> [] \<and> list_all py_isdigit s)"

definition snapshot_line :: "string \<Rightarrow> (string \<times> backend_snapshot) list \<Rightarrow> (string \<times> backend_snapshot) list" where
  "snapshot_line line states =
     (let parts = split_ws line in
      if length parts < 14 \<or> \<not> all_digits (parts ! 0) then states
      else AList.update (parts ! 2)
        \<lparr>bs_up = (py_lower (py_strip (parts ! 3)) = ''up''),
         bs_queries = (case int_of_str (parts ! 8) of None \<Rightarrow> 0 | Some n \<Rightarrow> n),
         bs_lat = parse_backend_metric (parts ! 11), bs_tcp = parse_backend_metric (parts ! 12)\<rparr> states)"

definition show_servers :: "string list" where
  "show_servers = [''dnsdist'', ''-e'', ''showServers()'']"

definition backend_snapshots :: "upstream_tools \<Rightarrow> string list list \<Rightarrow> upstream_fs \<Rightarrow> (string \<times> backend_snapshot) list" where
  "backend_snapshots tools log fs =
     (case ut_run tools log fs show_servers of
        Inl _ \<Rightarrow> []
      | Inr (code, out) \<Rightarrow> if code \<noteq> 0 then [] else fold snapshot_line (splitlines out) [])"

definition latency_for_resolver :: "resolver \<Rightarrow> backend_snapshot \<Rightarrow> string option" where
  "latency_for_resolver r snapshot =
     (if ur_protocol r \<noteq> Plain then bs_tcp snapshot
      else if bs_lat snapshot \<noteq> None then bs_lat snapshot else bs_tcp snapshot)"

text \<open>Index and address of the members of the upstream pool.\<close>

fun pool_entries :: "string list \<Rightarrow> (string \<times> string) list" where
  "pool_entries [] = []"
| "pool_entries (line # lines) =
     (let parts = split_ws line in
      if length parts < 5 \<or> \<not> all_digits (parts ! 0) \<or> last parts \<noteq> ''alderpointdns_upstreams'' then pool_entries lines
      else (parts ! 0, parts ! 2) # pool_entries lines)"

definition live_upstream_pool_snapshot :: "upstream_tools \<Rightarrow> string list list \<Rightarrow> upstream_fs \<Rightarrow> (string \<times> string) list option" where
  "live_upstream_pool_snapshot tools log fs =
     (case ut_run tools log fs show_servers of
        Inl _ \<Rightarrow> None
      | Inr (code, out) \<Rightarrow> if code \<noteq> 0 then None else Some (pool_entries (splitlines out)))"

definition reconcile_statements :: "(string \<times> string) list \<Rightarrow> prepared list \<Rightarrow> string list" where
  "reconcile_statements entries rows =
     map (\<lambda>e. ''rmServer(getServer('' @ fst e @ ''))'') (sort_key (\<lambda>e. - the (int_of_str (fst e))) entries) @ map new_server_statement rows"

definition console_reconcile :: "upstream_tools \<Rightarrow> string list list \<Rightarrow> upstream_fs \<Rightarrow> prepared list \<Rightarrow> string list list \<times> bool result" where
  "console_reconcile tools log fs rows =
     (let log1 = log @ [show_servers] in
      case live_upstream_pool_snapshot tools log fs of
        None \<Rightarrow> (log1, Inr False)
      | Some entries \<Rightarrow>
          if entries = [] then (log1, Inr False)
          else case find (\<lambda>e. int_of_str (fst e) = None) entries of
            Some e \<Rightarrow> (log1, Inl (''invalid literal for int() with base 10: '' @ quoted (fst e)))
          | None \<Rightarrow>
              let script = [''dnsdist'', ''-e'', join [newline] (reconcile_statements entries rows)]; log2 = log1 @ [script] in
              (case ut_run tools log1 fs script of
                 Inl _ \<Rightarrow> (log2, Inr False)
               | Inr (code, _) \<Rightarrow>
                   if code \<noteq> 0 then (log2, Inr False)
                   else (log2 @ [show_servers],
                     case live_upstream_pool_snapshot tools log2 fs of
                       None \<Rightarrow> Inr False
                     | Some live \<Rightarrow> Inr (sort (map snd live) = sort (map address_for_dnsdist rows)))))"

section \<open>The deployment\<close>

definition check_configs :: "upstream_tools \<Rightarrow> string list list \<Rightarrow> upstream_fs \<Rightarrow> string list list \<times> string \<times> unit result" where
  "check_configs tools log fs =
     (let check_dnsdist = [''dnsdist'', ''--check-config'']; check_named = [''named-checkconf'', ''-p'', ''/etc/bind/named.conf''] in
      case run_checked tools log fs check_dnsdist of
        Inl e \<Rightarrow> (log @ [check_dnsdist], [], Inl e)
      | Inr out1 \<Rightarrow>
          (case run_checked tools (log @ [check_dnsdist]) fs check_named of
             Inl e \<Rightarrow> (log @ [check_dnsdist, check_named], out1, Inl e)
           | Inr out2 \<Rightarrow> (log @ [check_dnsdist, check_named], out1 @ out2, Inr ())))"

definition resolved :: "int \<Rightarrow> string \<Rightarrow> bool" where
  "resolved code out = (code = 0 \<and> contains out ''status: NOERROR'' \<and> contains out [CHR 9, CHR ''A'', CHR 9])"

definition unresolved_message :: string where
  "unresolved_message = ''post-deploy upstream resolution failed: none of the currently enabled '' @
     ''upstream resolvers returned a successful answer (checked against a '' @
     ''freshly flushed cache entry, so a stale cached answer could not mask this)''"

definition flush_command :: "string list" where
  "flush_command = [''rndc'', ''flushname'', TEST_DOMAIN]"

definition lookup_command :: "string list" where
  "lookup_command = [''dig'', ''@127.0.0.1'', ''-p'', ''5353'', TEST_DOMAIN, ''A'', ''+time=5'', ''+tries=1'']"

text \<open>Round \<open>k\<close> of the check after activation, \<open>elapsed\<close> milliseconds after the first round began.\<close>

function post_deploy_check :: "upstream_tools \<Rightarrow> upstream_fs \<Rightarrow> nat \<Rightarrow> nat \<Rightarrow> string list list \<Rightarrow> string list list \<times> unit result" where
  "post_deploy_check tools fs k elapsed log =
     (case run_checked tools log fs flush_command of
        Inl e \<Rightarrow> (log @ [flush_command], Inl e)
      | Inr _ \<Rightarrow>
          let log = log @ [flush_command, lookup_command]; t = elapsed + ut_spent tools k in
          (case ut_run tools (butlast log) fs lookup_command of
             Inl e \<Rightarrow> (log, Inl e)
           | Inr (code, out) \<Rightarrow>
               if resolved code out then (log, Inr ())
               else if t \<ge> POST_DEPLOY_CHECK_TIMEOUT then (log, Inl unresolved_message)
               else post_deploy_check tools fs (Suc k) (t + POST_DEPLOY_CHECK_RETRY_INTERVAL) log))"
  by pat_completeness auto
termination
  by (relation "measure (\<lambda>(tools, fs, k, elapsed, log). POST_DEPLOY_CHECK_TIMEOUT - elapsed)")
     (auto simp: POST_DEPLOY_CHECK_TIMEOUT_def POST_DEPLOY_CHECK_RETRY_INTERVAL_def)

declare post_deploy_check.simps [simp del]

definition restart_command :: "string list" where
  "restart_command = [''systemctl'', ''restart'', ''dnsdist'']"

definition reconfig_command :: "string list" where
  "reconfig_command = [''rndc'', ''reconfig'']"

text \<open>Activation: over the console, else by a restart; the result says which.\<close>

definition activate_upstreams :: "upstream_tools \<Rightarrow> string list list \<Rightarrow> upstream_fs \<Rightarrow> prepared list \<Rightarrow> string list list \<times> bool result" where
  "activate_upstreams tools log fs rows =
     (case console_reconcile tools log fs rows of
        (log, Inl e) \<Rightarrow> (log, Inl e)
      | (log, Inr console) \<Rightarrow>
          (case (if console then (log, Inr []) else (log @ [restart_command], run_checked tools log fs restart_command)) of
             (log, Inl e) \<Rightarrow> (log, Inl e)
           | (log, Inr _) \<Rightarrow>
               (case run_checked tools log fs reconfig_command of
                  Inl e \<Rightarrow> (log @ [reconfig_command], Inl e)
                | Inr _ \<Rightarrow>
                    (case post_deploy_check tools fs 0 0 (log @ [reconfig_command]) of
                       (log, Inl e) \<Rightarrow> (log, Inl e)
                     | (log, Inr _) \<Rightarrow> (log, Inr console)))))"

definition upstream_targets :: "prepared list \<Rightarrow> (string \<times> string) list" where
  "upstream_targets rows = [(DNSDIST_UPSTREAM_NAME, render_dnsdist_upstreams rows), (BIND_FORWARDERS_NAME, render_bind_forwarders)]"

definition ensure_includes :: "string \<Rightarrow> upstream_fs \<Rightarrow> upstream_fs \<times> unit result" where
  "ensure_includes stamp fs =
     (case ensure_dnsdist_include stamp (uf_dd fs) of
        (dd, Inl e) \<Rightarrow> (fs\<lparr>uf_dd := dd\<rparr>, Inl e)
      | (dd, Inr _) \<Rightarrow> ensure_named_forwarders_include stamp (fs\<lparr>uf_dd := dd\<rparr>))"

text \<open>The body of the \<^verbatim>\<open>try\<close>, up to the bookkeeping: files, commands run, backups, output, and the result.\<close>

record upstream_attempt =
  ua_fs :: upstream_fs
  ua_log :: "string list list"
  ua_backups :: "(string \<times> string option) list"
  ua_output :: string
  ua_result :: "(bool \<times> prepared list \<times> (resolver \<times> string) list) result"

definition attempt_upstreams :: "upstream_tools \<Rightarrow> string \<Rightarrow> resolver list \<Rightarrow> upstream_fs \<Rightarrow> upstream_attempt" where
  "attempt_upstreams tools stamp rows fs =
     (case prepare_dnsdist_rows_partial tools fs rows [] of
        (log, Inl e) \<Rightarrow> \<lparr>ua_fs = fs, ua_log = log, ua_backups = [], ua_output = [], ua_result = Inl e\<rparr>
      | (log, Inr (prepared, failures)) \<Rightarrow>
          if prepared = []
          then \<lparr>ua_fs = fs, ua_log = log, ua_backups = [], ua_output = [],
                ua_result = Inl (''no enabled upstream resolver could be rendered: '' @
                  (case failures of [] \<Rightarrow> ''no enabled upstream resolver could be rendered'' | (_, e) # _ \<Rightarrow> e))\<rparr>
          else
            (case fold (install_target stamp) (upstream_targets prepared) (uf_dd fs, []) of
               (dd, backups) \<Rightarrow>
                 (case ensure_includes stamp (fs\<lparr>uf_dd := dd\<rparr>) of
                    (fs, Inl e) \<Rightarrow> \<lparr>ua_fs = fs, ua_log = log, ua_backups = backups, ua_output = [], ua_result = Inl e\<rparr>
                  | (fs, Inr _) \<Rightarrow>
                      (case check_configs tools log fs of
                         (log, out, Inl e) \<Rightarrow> \<lparr>ua_fs = fs, ua_log = log, ua_backups = backups, ua_output = out, ua_result = Inl e\<rparr>
                       | (log, out, Inr _) \<Rightarrow>
                           (case activate_upstreams tools log fs prepared of
                              (log, r) \<Rightarrow>
                                \<lparr>ua_fs = fs, ua_log = log, ua_backups = backups, ua_output = out,
                                 ua_result = map_sum id (\<lambda>console. (console, prepared, failures)) r\<rparr>)))))"

section \<open>Bookkeeping\<close>

definition mark_failed :: "string \<Rightarrow> string \<Rightarrow> nat \<Rightarrow> resolver list \<Rightarrow> resolver list" where
  "mark_failed ts message i t =
     update_where (\<lambda>r. ur_id r = i) (\<lambda>r. r\<lparr>ur_last_status := ''failed'', ur_last_message := message, ur_last_checked := Some ts\<rparr>) t"

text \<open>SQLite stores a NaN as \<^verbatim>\<open>NULL\<close>.\<close>

definition sql_real :: "string option \<Rightarrow> string option" where
  "sql_real x = (case x of None \<Rightarrow> None | Some s \<Rightarrow> if py_lower (drop_sign s) = ''nan'' then None else Some s)"

definition mark_healthy :: "string \<Rightarrow> string option \<Rightarrow> nat \<Rightarrow> resolver list \<Rightarrow> resolver list" where
  "mark_healthy ts latency i t =
     update_where (\<lambda>r. ur_id r = i) (\<lambda>r. r\<lparr>ur_last_status := ''healthy'', ur_last_message := ''dnsdist marked this upstream reachable'',
       ur_last_latency := sql_real latency, ur_last_checked := Some ts\<rparr>) t"

definition report_backend :: "string \<Rightarrow> (string \<times> backend_snapshot) list \<Rightarrow> prepared \<Rightarrow> nat \<times> resolver list \<Rightarrow> nat \<times> resolver list" where
  "report_backend ts states p st =
     (case (map_of states (address_for_dnsdist p), st) of
        (None, _) \<Rightarrow> st
      | (Some snapshot, (down, t)) \<Rightarrow>
          if \<not> bs_up snapshot
          then (Suc down, mark_failed ts ''dnsdist marked this upstream unreachable; other enabled upstreams are handling traffic'' (ur_id (fst p)) t)
          else (down, mark_healthy ts (latency_for_resolver (fst p) snapshot) (ur_id (fst p)) t))"

definition report_backends :: "string \<Rightarrow> (string \<times> backend_snapshot) list \<Rightarrow> prepared list \<Rightarrow> (resolver \<times> string) list \<Rightarrow>
    resolver list \<Rightarrow> nat \<times> resolver list" where
  "report_backends ts states prepared failures t =
     fold (report_backend ts states) prepared
       (length failures, fold (\<lambda>(r, message). mark_failed ts (take 400 message) (ur_id r)) failures t)"

definition deployed_message :: "bool \<Rightarrow> nat \<Rightarrow> nat \<Rightarrow> nat \<Rightarrow> string" where
  "deployed_message console deployed wanted down =
     (let note = (if console then ''applied live, no dnsdist restart'' else ''applied via dnsdist restart'') in
      (if deployed = wanted then ''deployed '' @ str_nat wanted @ '' enabled upstream resolver(s) ('' @ note @ '')''
       else ''deployed '' @ str_nat deployed @ '' of '' @ str_nat wanted @ '' enabled upstream resolver(s) ('' @ note @ '')'') @
      (if down \<noteq> 0 then '' ('' @ str_nat down @ '' of them currently unreachable; traffic is being served by the rest)'' else []))"

definition last_chars :: "nat \<Rightarrow> 'a list \<Rightarrow> 'a list" where
  "last_chars n s = drop (length s - n) s"

definition finish_deployment :: "string \<Rightarrow> nat \<Rightarrow> deploy_status \<Rightarrow> string \<Rightarrow> string \<Rightarrow> upstream_db \<Rightarrow> upstream_db" where
  "finish_deployment ts i status message output db =
     db\<lparr>up_deployments := update_where (\<lambda>d. ud_id d = i) (\<lambda>d. d\<lparr>ud_finished_at := Some ts, ud_status := status,
          ud_message := sanitize message, ud_output := last_chars 4000 (sanitize output)\<rparr>) (up_deployments db)\<rparr>"

section \<open>Rollback and the whole deployment\<close>

definition journal_command :: "string list" where
  "journal_command = [''journalctl'', ''-u'', ''dnsdist'', ''-n'', ''60'', ''--no-pager'', ''--output=short-iso'']"

definition capture_service_diagnostics :: "upstream_tools \<Rightarrow> string list list \<Rightarrow> upstream_fs \<Rightarrow> string" where
  "capture_service_diagnostics tools log fs = (case ut_run tools log fs journal_command of Inl _ \<Rightarrow> [] | Inr (_, out) \<Rightarrow> out)"

text \<open>
  The \<^verbatim>\<open>except\<close> block: files, commands, status, resolvers, output and the exception raised in the end.  A restart
  command that cannot be run raises a new exception before the status is set.
\<close>

definition roll_back_upstreams :: "upstream_tools \<Rightarrow> string \<Rightarrow> string \<Rightarrow> upstream_attempt \<Rightarrow> resolver list \<Rightarrow>
    upstream_fs \<times> string list list \<times> deploy_status \<times> resolver list \<times> string \<times> string" where
  "roll_back_upstreams tools ts e a t =
     (let message = safe_message e;
          diagnostics = capture_service_diagnostics tools (ua_log a) (ua_fs a);
          output = ua_output a @ (if diagnostics \<noteq> []
            then [newline, newline] @ ''--- journalctl -u dnsdist (captured at failure, before rollback) ---'' @ [newline] @ diagnostics else []);
          log1 = ua_log a @ [journal_command];
          fs = (ua_fs a)\<lparr>uf_dd := restore_dnsdist_backups (ua_backups a) (uf_dd (ua_fs a))\<rparr>
      in case ut_run tools log1 fs restart_command of
           Inl e' \<Rightarrow> (fs, log1 @ [restart_command], Failed, t, output, e')
         | Inr _ \<Rightarrow>
             (case ut_run tools (log1 @ [restart_command]) fs reconfig_command of
                Inl e' \<Rightarrow> (fs, log1 @ [restart_command, reconfig_command], Failed, t, output, e')
              | Inr _ \<Rightarrow>
                  (fs, log1 @ [restart_command, reconfig_command], RolledBack,
                   update_where ur_enabled (\<lambda>r. r\<lparr>ur_last_status := ''failed'', ur_last_message := take 400 message, ur_last_checked := Some ts\<rparr>) t,
                   output, e)))"

record upstream_clock =
  uc_started :: string
  uc_checked :: string
  uc_finished :: string
  uc_stamp :: string

definition insert_deployment :: "string \<Rightarrow> upstream_deployment list \<Rightarrow> upstream_deployment list" where
  "insert_deployment ts t =
     insert_row ud_id (\<lambda>i r. r\<lparr>ud_id := i\<rparr>)
       \<lparr>ud_id = 0, ud_started_at = ts, ud_finished_at = None, ud_status = Running, ud_message = [], ud_output = []\<rparr> t"

definition deploy_upstreams :: "stdlib \<Rightarrow> upstream_tools \<Rightarrow> upstream_clock \<Rightarrow> upstream_fs \<Rightarrow> upstream_db \<Rightarrow>
    upstream_fs \<times> upstream_db \<times> nat result" where
  "deploy_upstreams lib tools clk fs db0 =
     (let db1 = upstream_init_db lib (uc_started clk) (uf_options fs) db0;
          i = next_rowid ud_id (up_deployments db1);
          db = db1\<lparr>up_deployments := insert_deployment (uc_started clk) (up_deployments db1)\<rparr>;
          rows = filter ur_enabled (by_position (up_resolvers db))
      in if rows = []
         then (fs, db\<lparr>up_deployments := update_where (\<lambda>d. ud_id d = i) (\<lambda>d. d\<lparr>ud_finished_at := Some (uc_finished clk),
                 ud_status := Failed, ud_message := LAST_ENABLED_MESSAGE\<rparr>) (up_deployments db)\<rparr>, Inl LAST_ENABLED_MESSAGE)
         else
           let a = attempt_upstreams tools (uc_stamp clk) rows fs in
           (case ua_result a of
              Inr (console, prepared, failures) \<Rightarrow>
                (case report_backends (uc_checked clk) (backend_snapshots tools (ua_log a) (ua_fs a)) prepared failures (up_resolvers db) of
                   (down, t) \<Rightarrow>
                     (ua_fs a,
                      finish_deployment (uc_finished clk) i Deployed (deployed_message console (length prepared) (length rows) down)
                        (ua_output a) (db\<lparr>up_resolvers := t\<rparr>), Inr i))
            | Inl e \<Rightarrow>
                (case roll_back_upstreams tools (uc_checked clk) e a (up_resolvers db) of
                   (fs', _, status, t, output, e') \<Rightarrow>
                     (fs', finish_deployment (uc_finished clk) i status (safe_message e) output (db\<lparr>up_resolvers := t\<rparr>), Inl e'))))"

definition last_deployment :: "stdlib \<Rightarrow> string \<Rightarrow> string option \<Rightarrow> upstream_db \<Rightarrow> upstream_db \<times> upstream_deployment option" where
  "last_deployment lib ts opts db0 =
     (let db = upstream_init_db lib ts opts db0 in
      (db, case sort_key (\<lambda>d. - int (ud_id d)) (up_deployments db) of [] \<Rightarrow> None | d # _ \<Rightarrow> Some d))"

section \<open>Quoted texts\<close>

text \<open>A Lua string in double quotes, at the start of a text: its value and what follows.\<close>

fun lua_body :: "string \<Rightarrow> (string \<times> string) option" where
  "lua_body [] = None"
| "lua_body (c # s) =
     (if c = CHR 0x22 then Some ([], s)
      else if c = newline \<or> c = CHR 13 then None
      else if c = CHR 0x5C then
        (case s of
           d # t \<Rightarrow> if d = CHR 0x5C \<or> d = CHR 0x22 then map_option (map_prod ((#) d) id) (lua_body t) else None
         | [] \<Rightarrow> None)
      else map_option (map_prod ((#) c) id) (lua_body s))"

definition lua_string :: "string \<Rightarrow> (string \<times> string) option" where
  "lua_string s = (case s of [] \<Rightarrow> None | c # t \<Rightarrow> if c = CHR 0x22 then lua_body t else None)"

lemma lua_body_quoted:
  "newline \<notin> set v \<Longrightarrow> CHR 13 \<notin> set v \<Longrightarrow>
   lua_body (concat (map (\<lambda>c. if c = CHR 0x5C \<or> c = CHR 0x22 then [CHR 0x5C, c] else [c]) v) @ CHR 0x22 # rest) = Some (v, rest)"
  by (induction v) (auto simp: newline_def)

section \<open>The check after activation\<close>

lemma post_deploy_check_commands:
  "length (fst (post_deploy_check tools fs k elapsed log)) \<le> length log + 2 * ((POST_DEPLOY_CHECK_TIMEOUT + 499 - elapsed) div 500 + 1)"
proof (induction tools fs k elapsed log rule: post_deploy_check.induct)
  case (1 tools fs k elapsed log)
  show ?case
  proof (cases "run_checked tools log fs flush_command")
    case (Inl e)
    then show ?thesis by (simp add: post_deploy_check.simps [of tools fs k elapsed log])
  next
    case (Inr x)
    let ?log = "log @ [flush_command, lookup_command]" and ?t = "elapsed + ut_spent tools k"
    note step = post_deploy_check.simps [of tools fs k elapsed log, unfolded Inr sum.case Let_def]
    show ?thesis
    proof (cases "ut_run tools (butlast ?log) fs lookup_command")
      case (Inl e)
      then show ?thesis by (simp add: step)
    next
      case r: (Inr out)
      obtain code answer where out: "out = (code, answer)" by (cases out)
      show ?thesis
      proof (cases "resolved code answer \<or> ?t \<ge> POST_DEPLOY_CHECK_TIMEOUT")
        case True
        then show ?thesis using r out by (auto simp: step)
      next
        case False
        let ?next = "post_deploy_check tools fs (Suc k) (?t + POST_DEPLOY_CHECK_RETRY_INTERVAL) ?log"
        have "length (fst ?next) \<le> length ?log + 2 * ((POST_DEPLOY_CHECK_TIMEOUT + 499 - (?t + POST_DEPLOY_CHECK_RETRY_INTERVAL)) div 500 + 1)"
          using 1 [OF Inr refl refl] r out False by simp
        moreover have "post_deploy_check tools fs k elapsed log = ?next" using r out False by (simp add: step)
        moreover have "(POST_DEPLOY_CHECK_TIMEOUT + 499 - (?t + POST_DEPLOY_CHECK_RETRY_INTERVAL)) div 500 + 1 \<le>
            (POST_DEPLOY_CHECK_TIMEOUT + 499 - elapsed) div 500"
        proof -
          have e: "5499 - elapsed = (4999 - elapsed) + 500" using False by (simp add: POST_DEPLOY_CHECK_TIMEOUT_def)
          have "(4999 - (elapsed + ut_spent tools k)) div 500 \<le> (4999 - elapsed) div 500" by (rule div_le_mono) simp
          then show ?thesis by (simp add: POST_DEPLOY_CHECK_TIMEOUT_def POST_DEPLOY_CHECK_RETRY_INTERVAL_def e)
        qed
        ultimately show ?thesis by simp
      qed
    qed
  qed
qed

section \<open>Rolling back\<close>

lemma undoable_other_backups:
  assumes "undoable stamp old names backups fs" "dd_files fs' = dd_files fs"
    "\<And>n. n \<in> names \<Longrightarrow> map_of (dd_backups fs') (n @ ''.last-good.'' @ stamp) = map_of (dd_backups fs) (n @ ''.last-good.'' @ stamp)"
  shows "undoable stamp old names backups fs'"
proof -
  have "Option.bind b (map_of (dd_backups fs')) = old n" if nb: "(n, b) \<in> set backups" for n b
  proof -
    have "n \<in> names" using assms(1) nb by (force simp: undoable_def)
    moreover have "b \<in> {None, Some (n @ ''.last-good.'' @ stamp)}" "Option.bind b (map_of (dd_backups fs)) = old n"
      using assms(1) nb unfolding undoable_def by blast+
    ultimately show ?thesis using assms(3) by auto
  qed
  then show ?thesis using assms(1,2) unfolding undoable_def by auto
qed

abbreviation upstream_names :: "string set" where
  "upstream_names \<equiv> {DNSDIST_UPSTREAM_NAME, BIND_FORWARDERS_NAME}"

lemma other_backup_key:
  "n \<in> upstream_names \<Longrightarrow> key = ''dnsdist.conf.pre-upstream.'' @ stamp \<or> key = ''named.conf.options.pre-upstream.'' @ stamp \<Longrightarrow>
   n @ ''.last-good.'' @ stamp \<noteq> key"
  by (auto simp: DNSDIST_UPSTREAM_NAME_def BIND_FORWARDERS_NAME_def)

lemma dnsdist_include_undoable:
  assumes "undoable stamp old upstream_names backups fs" "ensure_dnsdist_include stamp fs = (fs', r)"
  shows "undoable stamp old upstream_names backups fs' \<and> dd_files fs' = dd_files fs"
proof -
  have files: "dd_files fs' = dd_files fs"
    using assms(2) by (auto simp: ensure_dnsdist_include_def Let_def split: option.splits if_splits)
  have new: "dd_backups fs' = dd_backups fs \<or> (\<exists>s. dd_backups fs' = AList.update (''dnsdist.conf.pre-upstream.'' @ stamp) s (dd_backups fs))"
    using assms(2) by (auto simp: ensure_dnsdist_include_def Let_def split: option.splits if_splits)
  have "map_of (dd_backups fs') (n @ ''.last-good.'' @ stamp) = map_of (dd_backups fs) (n @ ''.last-good.'' @ stamp)"
    if n: "n \<in> upstream_names" for n
  proof -
    have "n @ ''.last-good.'' @ stamp \<noteq> ''dnsdist.conf.pre-upstream.'' @ stamp" by (rule other_backup_key [OF n]) blast
    then show ?thesis using new by (elim disjE exE) (simp_all only: update_conv' fun_upd_apply if_False)
  qed
  then have "undoable stamp old upstream_names backups fs'"
    by (rule undoable_other_backups [OF assms(1) files])
  with files show ?thesis by simp
qed

lemma named_include_undoable:
  assumes "undoable stamp old upstream_names backups (uf_dd fs)" "ensure_named_forwarders_include stamp fs = (fs', r)"
  shows "undoable stamp old upstream_names backups (uf_dd fs') \<and> dd_files (uf_dd fs') = dd_files (uf_dd fs)"
proof -
  have files: "dd_files (uf_dd fs') = dd_files (uf_dd fs)"
    using assms(2) by (auto simp: ensure_named_forwarders_include_def Let_def split: option.splits if_splits)
  have new: "dd_backups (uf_dd fs') = dd_backups (uf_dd fs) \<or>
      (\<exists>s. dd_backups (uf_dd fs') = AList.update (''named.conf.options.pre-upstream.'' @ stamp) s (dd_backups (uf_dd fs)))"
    using assms(2) by (auto simp: ensure_named_forwarders_include_def Let_def split: option.splits if_splits)
  have "map_of (dd_backups (uf_dd fs')) (n @ ''.last-good.'' @ stamp) = map_of (dd_backups (uf_dd fs)) (n @ ''.last-good.'' @ stamp)"
    if n: "n \<in> upstream_names" for n
  proof -
    have "n @ ''.last-good.'' @ stamp \<noteq> ''named.conf.options.pre-upstream.'' @ stamp" by (rule other_backup_key [OF n]) blast
    then show ?thesis using new by (elim disjE exE) (simp_all only: update_conv' fun_upd_apply if_False)
  qed
  then have "undoable stamp old upstream_names backups (uf_dd fs')"
    by (rule undoable_other_backups [OF assms(1) files])
  with files show ?thesis by simp
qed

lemma includes_undoable:
  assumes "undoable stamp old upstream_names backups (uf_dd fs)" "ensure_includes stamp fs = (fs', r)"
  shows "undoable stamp old upstream_names backups (uf_dd fs') \<and> dd_files (uf_dd fs') = dd_files (uf_dd fs)"
proof -
  obtain dd r1 where d: "ensure_dnsdist_include stamp (uf_dd fs) = (dd, r1)" by (cases "ensure_dnsdist_include stamp (uf_dd fs)")
  note one = dnsdist_include_undoable [OF assms(1) d]
  show ?thesis
  proof (cases r1)
    case (Inl e)
    then show ?thesis using assms(2) one by (auto simp: ensure_includes_def d)
  next
    case (Inr u)
    then have "ensure_named_forwarders_include stamp (fs\<lparr>uf_dd := dd\<rparr>) = (fs', r)" using assms(2) by (simp add: ensure_includes_def d)
    from named_include_undoable [OF _ this, of old backups] one show ?thesis by simp
  qed
qed


lemma prepared_rows:
  "prepare_dnsdist_rows_partial tools fs rows log = (log', Inr (prepared, failures)) \<Longrightarrow> fst ` set prepared \<union> fst ` set failures \<subseteq> set rows"
proof (induction rows arbitrary: log log' prepared failures)
  case (Cons r rs)
  obtain l1 res where r: "resolve_backend_address tools fs r log = (l1, res)" by (cases "resolve_backend_address tools fs r log")
  obtain l2 rest where rest: "prepare_dnsdist_rows_partial tools fs rs l1 = (l2, rest)" by (cases "prepare_dnsdist_rows_partial tools fs rs l1")
  from Cons.prems obtain p f where pf: "rest = Inr (p, f)"
    by (cases rest) (auto simp: r rest split: sum.splits upstream_error.splits)
  have "fst ` set p \<union> fst ` set f \<subseteq> set rs" using Cons.IH rest pf by simp
  then show ?case using Cons.prems by (auto simp: r rest pf image_subset_iff split: sum.splits upstream_error.splits)
qed simp

lemma upstream_targets_names: "distinct (map fst (upstream_targets p))" "fst ` set (upstream_targets p) = upstream_names"
  by (auto simp: upstream_targets_def DNSDIST_UPSTREAM_NAME_def BIND_FORWARDERS_NAME_def)

text \<open>What an attempt leaves: nothing touched, or the two managed files written and restorable.\<close>

definition written :: "resolver list \<Rightarrow> prepared list \<Rightarrow> upstream_fs \<Rightarrow> upstream_fs \<Rightarrow> bool" where
  "written rows prepared fs fs' \<longleftrightarrow> prepared \<noteq> [] \<and> fst ` set prepared \<subseteq> set rows \<and>
     map_of (dd_files (uf_dd fs')) =
       (map_of (dd_files (uf_dd fs)))(DNSDIST_UPSTREAM_NAME \<mapsto> render_dnsdist_upstreams prepared, BIND_FORWARDERS_NAME \<mapsto> render_bind_forwarders)"

lemma attempt_cases:
  fixes tools stamp rows fs
  defines "a \<equiv> attempt_upstreams tools stamp rows fs"
  shows "(ua_fs a = fs \<and> ua_backups a = [] \<and> isl (ua_result a)) \<or>
    undoable stamp (map_of (dd_files (uf_dd fs))) upstream_names (ua_backups a) (uf_dd (ua_fs a)) \<and>
    (\<exists>prepared failures. written rows prepared fs (ua_fs a) \<and>
       (case ua_result a of Inl _ \<Rightarrow> True | Inr (console, p, f) \<Rightarrow> p = prepared \<and> f = failures \<and> fst ` set f \<subseteq> set rows))"
proof -
  obtain log res where p: "prepare_dnsdist_rows_partial tools fs rows [] = (log, res)" by (cases "prepare_dnsdist_rows_partial tools fs rows []")
  show ?thesis
  proof (cases "\<exists>prepared failures. res = Inr (prepared, failures) \<and> prepared \<noteq> []")
    case False
    then show ?thesis unfolding a_def attempt_upstreams_def p by (cases res) auto
  next
    case True
    then obtain prepared failures where res: "res = Inr (prepared, failures)" "prepared \<noteq> []" by blast
    obtain dd backups where i: "fold (install_target stamp) (upstream_targets prepared) (uf_dd fs, []) = (dd, backups)"
      by (cases "fold (install_target stamp) (upstream_targets prepared) (uf_dd fs, [])")
    note installed = install_targets_undoable [OF undoable_start upstream_targets_names(1) _ i, simplified upstream_targets_names(2), simplified]
    obtain fs1 r1 where inc: "ensure_includes stamp (fs\<lparr>uf_dd := dd\<rparr>) = (fs1, r1)" by (cases "ensure_includes stamp (fs\<lparr>uf_dd := dd\<rparr>)")
    have und: "undoable stamp (map_of (dd_files (uf_dd fs))) upstream_names backups (uf_dd fs1)" "dd_files (uf_dd fs1) = dd_files dd"
      using includes_undoable [OF _ inc, of "map_of (dd_files (uf_dd fs))" backups] installed by simp_all
    have "map_of (dd_files dd) n = ((map_of (dd_files (uf_dd fs)))(DNSDIST_UPSTREAM_NAME \<mapsto> render_dnsdist_upstreams prepared,
        BIND_FORWARDERS_NAME \<mapsto> render_bind_forwarders)) n" for n
      using installed by (cases "n \<in> upstream_names") (auto simp: upstream_targets_def)
    then have w: "written rows prepared fs fs1" using prepared_rows p res und(2) by (auto simp: written_def fun_eq_iff)
    have f: "fst ` set failures \<subseteq> set rows" using prepared_rows p res by blast
    have "ua_fs a = fs1 \<and> ua_backups a = backups \<and> (\<forall>x. ua_result a = Inr x \<longrightarrow> snd x = (prepared, failures))"
      unfolding a_def attempt_upstreams_def p res
      by (cases r1; cases "snd (snd (check_configs tools log fs1))"; cases "snd (activate_upstreams tools (fst (check_configs tools log fs1)) fs1 prepared)")
         (auto simp: i inc res(2) split: prod.splits sum.splits)
    then show ?thesis using und(1) w f by (cases "ua_result a") auto
  qed
qed

lemma roll_back_fs:
  "roll_back_upstreams tools ts e a t = (fs', l, st, t', out, e') \<Longrightarrow>
   fs' = (ua_fs a)\<lparr>uf_dd := restore_dnsdist_backups (ua_backups a) (uf_dd (ua_fs a))\<rparr> \<and> st \<in> {Failed, RolledBack} \<and>
   map ur_id t' = map ur_id t"
  by (auto simp: roll_back_upstreams_def Let_def update_where_def split: sum.splits)

lemma roll_back_restores:
  assumes "ua_result (attempt_upstreams tools stamp rows fs) = Inl e"
    "roll_back_upstreams tools ts e (attempt_upstreams tools stamp rows fs) t = (fs', l, st, t', out, e')"
  shows "map_of (dd_files (uf_dd fs')) = map_of (dd_files (uf_dd fs))"
  using attempt_cases [of tools stamp rows fs] restore_undoes roll_back_fs [OF assms(2)]
  by (auto simp: restore_dnsdist_backups_def)

section \<open>The recorded deployment\<close>

lemma no_quote_no_secret: "CHR ''\"'' \<notin> set s \<Longrightarrow> no_secret s"
  by (auto simp: no_secret_def has_secret_def)

lemma started_row:
  "row_by_id ud_id (next_rowid ud_id t) (insert_deployment ts t) =
     Some \<lparr>ud_id = next_rowid ud_id t, ud_started_at = ts, ud_finished_at = None, ud_status = Running, ud_message = [], ud_output = []\<rparr>"
  unfolding insert_deployment_def upstream_deployment_table.lookup_inserted by simp

lemma upstream_finished_row:
  assumes "row_by_id ud_id i (up_deployments db) = Some d"
  shows "row_by_id ud_id i (up_deployments (finish_deployment ts i st m out db)) =
     Some (d\<lparr>ud_finished_at := Some ts, ud_status := st, ud_message := sanitize m, ud_output := last_chars 4000 (sanitize out)\<rparr>)"
  using assms by (simp add: finish_deployment_def upstream_deployment_table.lookup_updated)

definition stored_row :: "upstream_clock \<Rightarrow> nat result \<Rightarrow> upstream_deployment \<Rightarrow> bool" where
  "stored_row clk r d \<longleftrightarrow>
     ud_started_at d = uc_started clk \<and> ud_finished_at d = Some (uc_finished clk) \<and>
     ud_status d \<in> (if isl r then {Failed, RolledBack} else {Deployed}) \<and>
     no_secret (ud_message d) \<and> no_secret (ud_output d) \<and> length (ud_output d) \<le> 4000"

lemma finished_row_stored:
  assumes "row_by_id ud_id i (up_deployments db) = Some d" "ud_started_at d = uc_started clk"
    "st \<in> (if isl r then {Failed, RolledBack} else {Deployed})"
  shows "\<exists>d. row_by_id ud_id i (up_deployments (finish_deployment (uc_finished clk) i st m out db)) = Some d \<and> stored_row clk r d"
  using upstream_finished_row [OF assms(1)] assms(2,3) no_secret_sanitize no_secret_drop
  by (auto simp: stored_row_def last_chars_def)

section \<open>Health claims\<close>

text \<open>
  The console of dnsdist, asked after the commands of the deployment, lists the address that this deployment rendered for the resolver as
  up.  A row that claims health has that, or is a row that claimed it at an earlier check.
\<close>

definition listed_up :: "(string \<times> backend_snapshot) list \<Rightarrow> prepared list \<Rightarrow> nat \<Rightarrow> bool" where
  "listed_up states prepared i \<longleftrightarrow>
     (\<exists>p\<in>set prepared. ur_id (fst p) = i \<and> (case map_of states (address_for_dnsdist p) of None \<Rightarrow> False | Some s \<Rightarrow> bs_up s))"

definition confirmed_up :: "upstream_tools \<Rightarrow> upstream_attempt \<Rightarrow> nat \<Rightarrow> bool" where
  "confirmed_up tools a i \<longleftrightarrow>
     (case ua_result a of
        Inl _ \<Rightarrow> False
      | Inr (console, prepared, failures) \<Rightarrow> listed_up (backend_snapshots tools (ua_log a) (ua_fs a)) prepared i)"

definition deployment_attempt :: "stdlib \<Rightarrow> upstream_tools \<Rightarrow> upstream_clock \<Rightarrow> upstream_fs \<Rightarrow> upstream_db \<Rightarrow> upstream_attempt" where
  "deployment_attempt lib tools clk fs db =
     attempt_upstreams tools (uc_stamp clk)
       (filter ur_enabled (by_position (up_resolvers (upstream_init_db lib (uc_started clk) (uf_options fs) db)))) fs"

definition healthy_known :: "(nat \<Rightarrow> bool) \<Rightarrow> resolver list \<Rightarrow> resolver \<Rightarrow> bool" where
  "healthy_known up old r \<longleftrightarrow>
     (ur_last_status r = ''healthy'' \<longrightarrow>
        up (ur_id r) \<or>
        (\<exists>q\<in>set old. ur_id q = ur_id r \<and> ur_last_status q = ''healthy'' \<and> ur_last_checked q = ur_last_checked r))"

lemma healthy_known_old: "list_all (healthy_known up old) old"
  by (auto simp: list_all_iff healthy_known_def)

lemma healthy_known_update:
  "list_all P t \<Longrightarrow> (\<And>r. r \<in> set t \<Longrightarrow> p r \<Longrightarrow> P (f r)) \<Longrightarrow> list_all P (update_where p f t)"
  by (auto simp: list_all_iff set_update_where)

lemma mark_failed_known: "list_all (healthy_known up old) t \<Longrightarrow> list_all (healthy_known up old) (mark_failed ts m i t)"
  unfolding mark_failed_def by (rule healthy_known_update) (simp_all add: healthy_known_def)

lemma report_backend_known:
  assumes "list_all (healthy_known (listed_up states prepared) old) (snd st)" "p \<in> set prepared"
  shows "list_all (healthy_known (listed_up states prepared) old) (snd (report_backend ts states p st))"
proof (cases "map_of states (address_for_dnsdist p)")
  case (Some snapshot)
  have up: "listed_up states prepared (ur_id (fst p))" if "bs_up snapshot"
    using that Some assms(2) unfolding listed_up_def by (auto intro!: bexI [of _ p])
  have "list_all (healthy_known (listed_up states prepared) old) (mark_healthy ts l (ur_id (fst p)) (snd st))" if "bs_up snapshot" for l
    unfolding mark_healthy_def
    by (rule healthy_known_update [OF assms(1)]) (use up [OF that] in \<open>simp add: healthy_known_def\<close>)
  with assms mark_failed_known Some show ?thesis by (cases st) (auto simp: report_backend_def)
qed (use assms in \<open>simp add: report_backend_def\<close>)

lemma report_backends_known:
  assumes "list_all (healthy_known (listed_up states prepared) old) t"
  shows "list_all (healthy_known (listed_up states prepared) old) (snd (report_backends ts states prepared failures t))"
proof -
  have "list_all (healthy_known (listed_up states prepared) old) (fold (\<lambda>(r, m). mark_failed ts (take 400 m) (ur_id r)) failures t)"
    using assms mark_failed_known by (induction failures arbitrary: t) auto
  moreover have "set ps \<subseteq> set prepared \<Longrightarrow> list_all (healthy_known (listed_up states prepared) old) (snd st) \<Longrightarrow>
      list_all (healthy_known (listed_up states prepared) old) (snd (fold (report_backend ts states) ps st))" for ps st
    using report_backend_known by (induction ps arbitrary: st) auto
  ultimately show ?thesis by (simp add: report_backends_def)
qed

lemma roll_back_known:
  "roll_back_upstreams tools ts e a t = (fs', l, st, t', out, e') \<Longrightarrow> list_all (healthy_known up t) t'"
  using healthy_known_old [of up t]
  by (auto simp: roll_back_upstreams_def Let_def healthy_known_def intro!: healthy_known_update split: sum.splits)

section \<open>The include that stays\<close>

lemma replace_first_contains: "contains s old \<Longrightarrow> old \<noteq> [] \<Longrightarrow> contains (replace_first old new s) new"
proof (induction s)
  case (Cons c s)
  then show ?case by (auto simp: contains_iff_sublist sublist_append prefix_def sublist_Cons_right)
qed simp

lemma include_line_names: "contains (forward_only @ [newline] @ forwarders_include_line) BIND_FORWARDERS_CONF"
proof -
  have "forward_only @ [newline] @ forwarders_include_line =
      (forward_only @ [newline] @ CHR 9 # ''include '' @ [CHR 0x22]) @ BIND_FORWARDERS_CONF @ [CHR 0x22, CHR '';'']"
    by (simp add: forwarders_include_line_def)
  then show ?thesis unfolding contains_iff_sublist by (metis sublist_appendI)
qed

lemma named_include_changed:
  assumes "ensure_named_forwarders_include stamp fs = (fs', r)" "uf_options fs' \<noteq> uf_options fs"
  shows "\<exists>t. uf_options fs' = Some t \<and> contains t BIND_FORWARDERS_CONF"
proof -
  obtain current where c: "uf_options fs = Some current" using assms by (cases "uf_options fs") (auto simp: ensure_named_forwarders_include_def)
  let ?t = "redact forwarders_block False current"
  have t: "contains ?t forward_only" "uf_options fs' = Some (replace_first forward_only (forward_only @ [newline] @ forwarders_include_line) ?t)"
    using assms c by (auto simp: ensure_named_forwarders_include_def Let_def split: if_splits)
  have "forward_only \<noteq> []" by (simp add: forward_only_def)
  from contains_trans [OF replace_first_contains [OF t(1) this] include_line_names] t(2) show ?thesis by blast
qed

lemma attempt_options_changed:
  assumes "uf_options (ua_fs (attempt_upstreams tools stamp rows fs)) \<noteq> uf_options fs"
  shows "\<exists>t. uf_options (ua_fs (attempt_upstreams tools stamp rows fs)) = Some t \<and> contains t BIND_FORWARDERS_CONF"
proof -
  let ?a = "attempt_upstreams tools stamp rows fs"
  have "ua_fs ?a = fs \<or> (\<exists>dd r. ensure_includes stamp (fs\<lparr>uf_dd := dd\<rparr>) = (ua_fs ?a, r))"
    unfolding attempt_upstreams_def by (auto split: prod.splits sum.splits)
  then obtain dd r where "ensure_includes stamp (fs\<lparr>uf_dd := dd\<rparr>) = (ua_fs ?a, r)" using assms by auto
  then have "uf_options (ua_fs ?a) = uf_options fs \<or> (\<exists>dd r. ensure_named_forwarders_include stamp (fs\<lparr>uf_dd := dd\<rparr>) = (ua_fs ?a, r))"
    unfolding ensure_includes_def by (auto split: prod.splits sum.splits dest!: arg_cong [of _ _ uf_options])
  then show ?thesis using assms named_include_changed by fastforce
qed

section \<open>The whole deployment\<close>

lemma deploy_upstreams_cases:
  fixes lib tools clk fs db
  defines "db1 \<equiv> upstream_init_db lib (uc_started clk) (uf_options fs) db"
  shows "case deploy_upstreams lib tools clk fs db of (fs', db', r) \<Rightarrow>
    (case r of
       Inl _ \<Rightarrow> map_of (dd_files (uf_dd fs')) = map_of (dd_files (uf_dd fs)) \<and>
         (uf_options fs' = uf_options fs \<or> (\<exists>t. uf_options fs' = Some t \<and> contains t BIND_FORWARDERS_CONF))
     | Inr i \<Rightarrow> i = next_rowid ud_id (up_deployments db1) \<and> (\<exists>prepared. written (filter ur_enabled (up_resolvers db1)) prepared fs fs')) \<and>
    list_all (healthy_known (confirmed_up tools (deployment_attempt lib tools clk fs db)) (up_resolvers db1)) (up_resolvers db') \<and>
    (\<exists>d. row_by_id ud_id (next_rowid ud_id (up_deployments db1)) (up_deployments db') = Some d \<and> stored_row clk r d)"
proof -
  let ?i = "next_rowid ud_id (up_deployments db1)" and ?t = "up_resolvers db1"
  define dep where "dep = insert_deployment (uc_started clk) (up_deployments db1)"
  define rows where "rows = filter ur_enabled (by_position ?t)"
  have rows_set: "set rows = set (filter ur_enabled ?t)" by (auto simp: rows_def by_position_def)
  have d: "\<exists>d. row_by_id ud_id ?i dep = Some d \<and> ud_started_at d = uc_started clk" unfolding dep_def started_row by simp
  show ?thesis
  proof (cases "rows = []")
    case True
    let ?dep = "update_where (\<lambda>d. ud_id d = ?i) (\<lambda>d. d\<lparr>ud_finished_at := Some (uc_finished clk), ud_status := Failed, ud_message := LAST_ENABLED_MESSAGE\<rparr>) dep"
    have "deploy_upstreams lib tools clk fs db = (fs, db1\<lparr>up_deployments := ?dep\<rparr>, Inl LAST_ENABLED_MESSAGE)"
      using True by (simp add: deploy_upstreams_def Let_def dep_def rows_def db1_def)
    moreover have "no_secret LAST_ENABLED_MESSAGE" by (rule no_quote_no_secret) (simp add: LAST_ENABLED_MESSAGE_def)
    moreover have "no_secret []" by (rule no_quote_no_secret) simp
    ultimately show ?thesis
      by (simp add: healthy_known_old upstream_deployment_table.lookup_updated dep_def started_row stored_row_def)
  next
    case False
    let ?a = "attempt_upstreams tools (uc_stamp clk) rows fs"
    show ?thesis
    proof (cases "ua_result ?a")
      case (Inl e)
      obtain fs' l st t out e' where rb: "roll_back_upstreams tools (uc_checked clk) e ?a ?t = (fs', l, st, t, out, e')"
        by (cases "roll_back_upstreams tools (uc_checked clk) e ?a ?t") auto
      let ?db = "db1\<lparr>up_deployments := dep, up_resolvers := t\<rparr>"
      have dep: "deploy_upstreams lib tools clk fs db =
          (fs', finish_deployment (uc_finished clk) ?i st (safe_message e) out ?db, Inl e')"
        using False Inl rb by (simp add: deploy_upstreams_def Let_def dep_def rows_def db1_def)
      note fs' = roll_back_fs [OF rb]
      have "uf_options fs' = uf_options fs \<or> (\<exists>t. uf_options fs' = Some t \<and> contains t BIND_FORWARDERS_CONF)"
        using attempt_options_changed [of tools "uc_stamp clk" rows fs] fs' by auto
      moreover have "\<exists>d. row_by_id ud_id ?i (up_deployments (finish_deployment (uc_finished clk) ?i st (safe_message e) out ?db)) = Some d \<and>
          stored_row clk (Inl e' :: nat result) d"
        using d fs' by (auto intro: finished_row_stored)
      ultimately show ?thesis using roll_back_restores [OF Inl rb] roll_back_known [OF rb] unfolding dep by (simp add: finish_deployment_def)
    next
      case (Inr x)
      obtain console prepared failures where x: "x = (console, prepared, failures)" by (cases x) auto
      let ?s = "backend_snapshots tools (ua_log ?a) (ua_fs ?a)"
      obtain down t where rp: "report_backends (uc_checked clk) ?s prepared failures ?t = (down, t)"
        by (cases "report_backends (uc_checked clk) ?s prepared failures ?t") auto
      let ?db = "db1\<lparr>up_deployments := dep, up_resolvers := t\<rparr>"
      let ?m = "deployed_message console (length prepared) (length rows) down"
      have dep: "deploy_upstreams lib tools clk fs db =
          (ua_fs ?a, finish_deployment (uc_finished clk) ?i Deployed ?m (ua_output ?a) ?db, Inr ?i)"
        using False Inr x rp by (simp add: deploy_upstreams_def Let_def dep_def rows_def db1_def)
      have w: "written rows prepared fs (ua_fs ?a)" using attempt_cases [of tools "uc_stamp clk" rows fs] Inr x by auto
      have "confirmed_up tools (deployment_attempt lib tools clk fs db) = listed_up ?s prepared"
        using Inr x by (simp add: fun_eq_iff confirmed_up_def deployment_attempt_def rows_def db1_def)
      then have "list_all (healthy_known (confirmed_up tools (deployment_attempt lib tools clk fs db)) ?t) t"
        using report_backends_known [OF healthy_known_old, of ?s prepared ?t "uc_checked clk" failures] rp by simp
      moreover have "written (filter ur_enabled ?t) prepared fs (ua_fs ?a)" using w rows_set by (simp add: written_def)
      moreover have "\<exists>d. row_by_id ud_id ?i (up_deployments (finish_deployment (uc_finished clk) ?i Deployed ?m (ua_output ?a) ?db)) = Some d \<and>
          stored_row clk (Inr ?i) d"
        using d by (auto intro: finished_row_stored)
      ultimately show ?thesis unfolding dep by (auto simp: finish_deployment_def)
    qed
  qed
qed

section \<open>Theorems\<close>

text \<open>
  C18: A deployment of the upstream resolvers is all or nothing for the files it manages.  When it fails, at
  whatever step, they are as before; when it succeeds they hold the rendering of a non-empty list of enabled
  resolvers and the fixed forwarder file.  Either way its row is finished with a fitting status.
\<close>

theorem upstream_deploy_all_or_nothing:
  "case deploy_upstreams lib tools clk fs db of (fs', db', r) \<Rightarrow>
     (let db1 = upstream_init_db lib (uc_started clk) (uf_options fs) db in
      (case r of
         Inl _ \<Rightarrow> map_of (dd_files (uf_dd fs')) = map_of (dd_files (uf_dd fs))
       | Inr i \<Rightarrow> i = next_rowid ud_id (up_deployments db1) \<and> (\<exists>prepared. written (filter ur_enabled (up_resolvers db1)) prepared fs fs')) \<and>
      (\<exists>d. row_by_id ud_id (next_rowid ud_id (up_deployments db1)) (up_deployments db') = Some d \<and>
           ud_finished_at d = Some (uc_finished clk) \<and> ud_status d \<in> (if isl r then {Failed, RolledBack} else {Deployed})))"
  using deploy_upstreams_cases [where lib = lib and tools = tools and clk = clk and fs = fs and db = db] unfolding stored_row_def Let_def by (auto split: prod.splits sum.splits)


text \<open>
  Whatever the tools print (\<^verbatim>\<open>named-checkconf -p\<close> prints the keys of the configuration), the stored row of
  a deployment holds no quoted BIND secret, and at most 4000 characters of output.
\<close>

theorem stored_output_clean:
  "case deploy_upstreams lib tools clk fs db of (fs', db', r) \<Rightarrow>
     (case row_by_id ud_id (next_rowid ud_id (up_deployments (upstream_init_db lib (uc_started clk) (uf_options fs) db))) (up_deployments db') of
        None \<Rightarrow> False
      | Some d \<Rightarrow> no_secret (ud_message d) \<and> no_secret (ud_output d) \<and> length (ud_output d) \<le> 4000)"
  using deploy_upstreams_cases [where lib = lib and tools = tools and clk = clk and fs = fs and db = db]
  unfolding stored_row_def by (auto split: prod.splits)

text \<open>
  C20: After a deployment a resolver is marked as healthy only when dnsdist confirms that very resolver: the deployment
  succeeded, and the console, asked after its commands, lists the address rendered for this resolver as up; or the row was marked
  healthy by an earlier check and is left as it was.  An unreachable console, an address missing from its answer, a failed
  deployment or the health of another resolver never makes a resolver healthy.
\<close>

theorem healthy_only_when_up:
  "case deploy_upstreams lib tools clk fs db of (fs', db', r) \<Rightarrow>
     list_all (healthy_known (confirmed_up tools (deployment_attempt lib tools clk fs db))
         (up_resolvers (upstream_init_db lib (uc_started clk) (uf_options fs) db))) (up_resolvers db')"
  using deploy_upstreams_cases [where lib = lib and tools = tools and clk = clk and fs = fs and db = db] by (auto split: prod.splits)

text \<open>
  C35: The check after activation ends: it runs at most eleven rounds of two commands, however the commands
  behave and however long they take.
\<close>

theorem post_deploy_check_bounded: "length (fst (post_deploy_check tools fs 0 0 log)) \<le> length log + 22"
  using post_deploy_check_commands [of tools fs 0 0 log] by (simp add: POST_DEPLOY_CHECK_TIMEOUT_def)

text \<open>
  A text without line breaks is read back by Lua from its quotation, whatever quotes and backslashes it
  holds, so no resolver name, host or path can end its string literal.
\<close>

theorem lua_quote_round_trip:
  assumes "newline \<notin> set v" "CHR 13 \<notin> set v"
  shows "lua_string (lua_quote v @ rest) = Some (v, rest)"
  using lua_body_quoted [OF assms] by (simp add: lua_quote_def lua_string_def)

theorem lua_quote_round_trip_witness:
  "lua_string (lua_quote [CHR ''a'', CHR 0x22, CHR 0x5C] @ ''})'') = Some ([CHR ''a'', CHR 0x22, CHR 0x5C], ''})'')"
  using lua_quote_round_trip [of "[CHR ''a'', CHR 0x22, CHR 0x5C]" "''})''"] by (simp add: newline_def)

text \<open>
  A failed first deployment does not undo what it did to \<^verbatim>\<open>named.conf.options\<close>: when the text changed, it
  names the forwarder file, which the rollback has removed.
\<close>

theorem failed_first_deployment_include:
  assumes "deploy_upstreams lib tools clk fs db = (fs', db', Inl e)" "map_of (dd_files (uf_dd fs)) BIND_FORWARDERS_NAME = None"
    "uf_options fs' \<noteq> uf_options fs"
  shows "\<exists>t. uf_options fs' = Some t \<and> contains t BIND_FORWARDERS_CONF \<and> map_of (dd_files (uf_dd fs')) BIND_FORWARDERS_NAME = None"
  using deploy_upstreams_cases [where lib = lib and tools = tools and clk = clk and fs = fs and db = db] assms by auto

definition failing_tools :: upstream_tools where
  "failing_tools = \<lparr>ut_run = (\<lambda>_ _ _. Inl ''x''), ut_signal = (\<lambda>_. []), ut_spent = (\<lambda>_. 0)\<rparr>"

definition fresh_fs :: upstream_fs where
  "fresh_fs = \<lparr>uf_dd = \<lparr>dd_conf = Some DNSDIST_UPSTREAM_CONF, dd_packaged = None, dd_files = [], dd_backups = []\<rparr>, uf_options = Some ''forward only;''\<rparr>"

definition example_clock :: upstream_clock where
  "example_clock = \<lparr>uc_started = ''t1'', uc_checked = ''t2'', uc_finished = ''t3'', uc_stamp = ''1''\<rparr>"

lemma fresh_attempt:
  "ua_result (attempt_upstreams failing_tools stamp [example_resolver 1 ''1.1.1.2''] fresh_fs) = Inl ''x'' \<and>
   uf_options (ua_fs (attempt_upstreams failing_tools stamp [example_resolver 1 ''1.1.1.2''] fresh_fs)) \<noteq> uf_options fresh_fs"
proof -
  let ?r = "example_resolver 1 ''1.1.1.2''" and ?o = "''forward only;''"
  have prep: "prepare_dnsdist_rows_partial failing_tools fresh_fs [?r] [] = ([], Inr ([(?r, ep_address (ur_endpoint ?r))], []))"
    by (simp add: resolve_backend_address_def example_resolver_def)
  obtain dd backups where i: "fold (install_target stamp) (upstream_targets [(?r, ep_address (ur_endpoint ?r))]) (uf_dd fresh_fs, []) = (dd, backups)"
    by (cases "fold (install_target stamp) (upstream_targets [(?r, ep_address (ur_endpoint ?r))]) (uf_dd fresh_fs, [])")
  then have conf: "dd_conf dd = Some DNSDIST_UPSTREAM_CONF"
    by (auto simp: upstream_targets_def install_target_def Let_def fresh_fs_def split: option.splits)
  have inc1: "ensure_dnsdist_include stamp dd = (dd, Inr ())"
    by (simp add: ensure_dnsdist_include_def conf contains_iff_sublist)
  have "redact forwarders_block False ?o = ?o" "\<not> contains ?o BIND_FORWARDERS_CONF" "contains ?o forward_only" by code_simp+
  then have inc2: "\<exists>fs. ensure_named_forwarders_include stamp (fresh_fs\<lparr>uf_dd := dd\<rparr>) = (fs, Inr ()) \<and>
      uf_options fs = Some (replace_first forward_only (forward_only @ [newline] @ forwarders_include_line) ?o)"
    unfolding ensure_named_forwarders_include_def Let_def by (simp add: fresh_fs_def)
  then obtain fs where fs: "ensure_includes stamp (fresh_fs\<lparr>uf_dd := dd\<rparr>) = (fs, Inr ())"
      "uf_options fs = Some (replace_first forward_only (forward_only @ [newline] @ forwarders_include_line) ?o)"
    unfolding ensure_includes_def by (auto simp: inc1)
  have "replace_first forward_only (forward_only @ [newline] @ forwarders_include_line) ?o \<noteq> ?o" by code_simp
  moreover have "attempt_upstreams failing_tools stamp [?r] fresh_fs =
     \<lparr>ua_fs = fs, ua_log = [[''dnsdist'', ''--check-config'']], ua_backups = backups, ua_output = [], ua_result = Inl ''x''\<rparr>"
    unfolding attempt_upstreams_def prep using i fs(1) by (simp add: check_configs_def run_checked_def failing_tools_def then_ok_def)
  ultimately show ?thesis using fs(2) by (simp add: fresh_fs_def)
qed

lemma deploy_failed:
  assumes "up_resolvers db = [r]" "ur_enabled r" "ua_result (attempt_upstreams tools (uc_stamp clk) [r] fs) = Inl e"
  shows "\<exists>fs' db' e'. deploy_upstreams lib tools clk fs db = (fs', db', Inl e') \<and>
    uf_options fs' = uf_options (ua_fs (attempt_upstreams tools (uc_stamp clk) [r] fs))"
proof -
  let ?a = "attempt_upstreams tools (uc_stamp clk) [r] fs"
  have init: "upstream_init_db lib (uc_started clk) (uf_options fs) db = db" using assms(1) by (simp add: upstream_init_db_def)
  obtain fs' l st t out e' where rb: "roll_back_upstreams tools (uc_checked clk) e ?a [r] = (fs', l, st, t, out, e')"
    by (cases "roll_back_upstreams tools (uc_checked clk) e ?a [r]") auto
  have "uf_options fs' = uf_options (ua_fs ?a)" using roll_back_fs [OF rb] by simp
  then show ?thesis unfolding deploy_upstreams_def init Let_def using assms rb by (simp add: by_position_def)
qed

theorem failed_first_deployment_include_witness:
  "\<exists>fs' db' e t. deploy_upstreams plain_lib failing_tools example_clock fresh_fs
       \<lparr>up_resolvers = [example_resolver 1 ''1.1.1.2''], up_deployments = []\<rparr> = (fs', db', Inl e) \<and>
     uf_options fs' = Some t \<and> contains t BIND_FORWARDERS_CONF \<and> map_of (dd_files (uf_dd fs')) BIND_FORWARDERS_NAME = None"
proof -
  let ?db = "\<lparr>up_resolvers = [example_resolver 1 ''1.1.1.2''], up_deployments = []\<rparr>"
  have "ur_enabled (example_resolver 1 ''1.1.1.2'')" by (simp add: example_resolver_def)
  with deploy_failed [of ?db "example_resolver 1 ''1.1.1.2''" failing_tools example_clock fresh_fs "''x''" plain_lib] fresh_attempt
  obtain fs' db' e where d: "deploy_upstreams plain_lib failing_tools example_clock fresh_fs ?db = (fs', db', Inl e)"
      "uf_options fs' \<noteq> uf_options fresh_fs"
    by auto
  have "map_of (dd_files (uf_dd fresh_fs)) BIND_FORWARDERS_NAME = None" by (simp add: fresh_fs_def)
  from failed_first_deployment_include [OF d(1) this d(2)] d(1) show ?thesis by blast
qed

end
