(* ===== verification/Py_Text.thy ===== *)
theory Py_Text
  imports Dns_Cache
begin

text \<open>
  Texts of Python values in error messages: \<^verbatim>\<open>repr\<close> of a string and the message of \<^verbatim>\<open>int\<close>, shared by the modules
  for notifications and replication.
\<close>

definition hex_digit :: "nat \<Rightarrow> char" where
  "hex_digit n = (if n < 10 then char_of (48 + n) else char_of (87 + n))"

text \<open>\<^verbatim>\<open>repr\<close> of a string.\<close>

definition repr_char :: "char \<Rightarrow> char \<Rightarrow> string" where
  "repr_char q c =
     (let n = of_char c :: nat in
      if c = q \<or> c = CHR 0x5C then [CHR 0x5C, c]
      else if n = 9 then [CHR 0x5C, CHR ''t''] else if n = 10 then [CHR 0x5C, CHR ''n''] else if n = 13 then [CHR 0x5C, CHR ''r'']
      else if n < 32 \<or> (127 \<le> n \<and> n \<le> 160) \<or> n = 173 then [CHR 0x5C, CHR ''x'', hex_digit (n div 16), hex_digit (n mod 16)]
      else [c])"

definition py_repr :: "string \<Rightarrow> string" where
  "py_repr s =
     (let q = (if CHR 0x27 \<in> set s \<and> CHR 0x22 \<notin> set s then CHR 0x22 else CHR 0x27) in
      q # concat (map (repr_char q) s) @ [q])"

definition int_error :: "pyval \<Rightarrow> string" where
  "int_error v =
     (case v of
        PyNone \<Rightarrow> ''int() argument must be a string, a bytes-like object or a real number, not '' @ py_repr ''NoneType''
      | _ \<Rightarrow> ''invalid literal for int() with base 10: '' @ py_repr (py_str v))"

end
