(* ===== verification/Notifications.thy ===== *)
theory Notifications
  imports Upstream_Resolvers Py_Text
begin

text \<open>
  Notifications (\<^verbatim>\<open>app/notifications.py\<close>): providers, subscriptions, message formats, and the dispatch with its
  cooldown and history.  Arguments (record \<open>notify_world\<close>): the clock in microseconds, the printed form of a time
  stamp, SHA-256, and the delivery of a request (SMTP or HTTP), which succeeds or raises.  Stored time stamps
  are seconds.  Shown: the tables stay well formed, a dispatch handles every eligible subscription exactly once
  and by its own rate state, and what the interface shows of the providers does not depend on their secrets.
\<close>

section \<open>Tables\<close>

definition SEVERITIES :: "string list" where
  "SEVERITIES = [''info'', ''warning'', ''critical'']"

definition severity_rank :: "string \<Rightarrow> nat option" where
  "severity_rank s = map_of [(''info'', 0), (''warning'', 1), (''critical'', 2)] s"

definition WEBHOOK_PRESETS :: "string list" where
  "WEBHOOK_PRESETS = [''generic'', ''discord'', ''slack'', ''teams'', ''ntfy'', ''gotify'', ''pushover'']"

definition EVENT_CATEGORIES :: "string list" where
  "EVENT_CATEGORIES =
     [''service_unavailable'', ''service_repeated_restart'', ''resolver_degraded'', ''resolver_all_unavailable'',
      ''blocklist_update_failure'', ''deploy_failure'', ''backup_failure'', ''replication_delayed'', ''tls_cert_expiring'',
      ''low_disk_space'', ''abnormal_servfail_rate'']"

definition DEFAULT_COOLDOWN_MINUTES :: nat where "DEFAULT_COOLDOWN_MINUTES = 30"

record smtp_config =
  sm_host :: string
  sm_port :: int
  sm_use_tls :: bool
  sm_from :: string
  sm_to :: string
  sm_username :: string

datatype provider_config = Smtp smtp_config | Webhook string

record provider =
  pr_id :: nat
  pr_name :: string
  pr_enabled :: bool
  pr_config :: provider_config
  pr_secret :: string
  pr_last_test_at :: "int option"
  pr_last_test_ok :: "bool option"
  pr_last_failure_at :: "int option"
  pr_last_failure_error :: string
  pr_created_at :: int
  pr_updated_at :: int

record subscription =
  sb_id :: nat
  sb_provider :: nat
  sb_category :: string
  sb_min_severity :: string
  sb_enabled :: bool
  sb_cooldown :: "int option"

record rate_state =
  rs_last_sent :: int
  rs_fingerprint :: string
  rs_suppressed :: nat

datatype delivery = Sent | Suppressed | Undelivered

record history_row =
  hs_id :: nat
  hs_at :: int
  hs_category :: string
  hs_severity :: string
  hs_host :: string
  hs_component :: string
  hs_message :: string
  hs_began_at :: string
  hs_recovered :: bool
  hs_admin_link :: string
  hs_provider :: nat
  hs_provider_name :: string
  hs_status :: delivery
  hs_error :: string

record notify_db =
  nd_settings :: "(string \<times> string) list"
  nd_providers :: "provider list"
  nd_subscriptions :: "subscription list"
  nd_rate :: "((string \<times> nat) \<times> rate_state) list"
  nd_history :: "history_row list"
  nd_checks :: "((string \<times> string) \<times> string) list"

interpretation provider_table: id_table pr_id "\<lambda>i r. r\<lparr>pr_id := i\<rparr>"
  by unfold_locales simp

interpretation subscription_table: id_table sb_id "\<lambda>i r. r\<lparr>sb_id := i\<rparr>"
  by unfold_locales simp

interpretation history_table: id_table hs_id "\<lambda>i r. r\<lparr>hs_id := i\<rparr>"
  by unfold_locales simp

definition notify_init_db :: "notify_db \<Rightarrow> notify_db" where
  "notify_init_db db =
     db\<lparr>nd_settings := (if map_of (nd_settings db) ''cooldown_minutes'' = None
          then nd_settings db @ [(''cooldown_minutes'', str_nat DEFAULT_COOLDOWN_MINUTES)] else nd_settings db)\<rparr>"

definition notify_update_settings :: "(string \<times> pyval) list \<Rightarrow> notify_db \<Rightarrow> notify_db result" where
  "notify_update_settings values db0 =
     (let db = notify_init_db db0 in
      case map_of values ''cooldown_minutes'' of
        None \<Rightarrow> Inr db
      | Some v \<Rightarrow>
          (case py_int v of
             None \<Rightarrow> Inl (int_error v)
           | Some minutes \<Rightarrow>
               if minutes < 0 \<or> minutes > 24 * 60 then Inl ''cooldown must be between 0 and 1440 minutes''
               else Inr (db\<lparr>nd_settings := AList.update ''cooldown_minutes'' (str_int minutes) (nd_settings db)\<rparr>)))"

section \<open>Providers\<close>

definition validate_smtp :: "(string \<times> pyval) list \<Rightarrow> provider_config result" where
  "validate_smtp config =
     (let host = py_strip (field config ''host'');
          from_addr = py_strip (field config ''from_addr''); to_addrs = py_strip (field config ''to_addrs'') in
      if host = [] then Inl ''SMTP host is required''
      else case (case map_of config ''port'' of None \<Rightarrow> Some 587 | Some v \<Rightarrow> py_int v) of
        None \<Rightarrow> Inl ''SMTP port must be a number''
      | Some port \<Rightarrow>
          if \<not> (1 \<le> port \<and> port \<le> 65535) then Inl ''SMTP port must be between 1 and 65535''
          else if from_addr = [] \<or> to_addrs = [] then Inl ''SMTP sender and at least one recipient are required''
          else Inr (Smtp \<lparr>sm_host = host, sm_port = port,
                 sm_use_tls = (case map_of config ''use_tls'' of None \<Rightarrow> True | Some v \<Rightarrow> py_true v),
                 sm_from = from_addr, sm_to = to_addrs, sm_username = py_strip (field config ''username'')\<rparr>))"

definition validate_webhook :: "(string \<times> pyval) list \<Rightarrow> provider_config result" where
  "validate_webhook config =
     (let preset = py_lower (py_strip (case map_of config ''preset'' of None \<Rightarrow> ''generic'' | Some v \<Rightarrow> py_str v)) in
      if preset \<notin> set WEBHOOK_PRESETS then Inl (''unknown webhook preset '' @ py_repr preset) else Inr (Webhook preset))"

definition validate_provider :: "string \<Rightarrow> (string \<times> pyval) list \<Rightarrow> provider_config result" where
  "validate_provider kind config =
     (if kind = ''smtp'' then validate_smtp config
      else if kind = ''webhook'' then validate_webhook config
      else Inl (''unknown provider kind '' @ py_repr kind))"

definition add_provider :: "int \<Rightarrow> string \<Rightarrow> string \<Rightarrow> (string \<times> pyval) list \<Rightarrow> string \<Rightarrow> bool \<Rightarrow> notify_db \<Rightarrow> (notify_db \<times> nat) result" where
  "add_provider ts kind name config secret en db0 =
     (let clean_name = py_strip name in
      if clean_name = [] then Inl ''provider name is required''
      else then_ok (validate_provider kind config) (\<lambda>clean.
        if py_strip secret = [] \<and> kind = ''webhook'' then Inl ''webhook URL is required''
        else
          let db = notify_init_db db0 in
          Inr (db\<lparr>nd_providers := insert_row pr_id (\<lambda>i r. r\<lparr>pr_id := i\<rparr>)
                 \<lparr>pr_id = 0, pr_name = clean_name, pr_enabled = en, pr_config = clean, pr_secret = secret,
                  pr_last_test_at = None, pr_last_test_ok = None, pr_last_failure_at = None, pr_last_failure_error = [],
                  pr_created_at = ts, pr_updated_at = ts\<rparr> (nd_providers db)\<rparr>, next_rowid pr_id (nd_providers db))))"

definition provider_kind :: "provider_config \<Rightarrow> string" where
  "provider_kind c = (case c of Smtp _ \<Rightarrow> ''smtp'' | Webhook _ \<Rightarrow> ''webhook'')"

definition update_provider :: "int \<Rightarrow> nat \<Rightarrow> string option \<Rightarrow> (string \<times> pyval) list option \<Rightarrow> string option \<Rightarrow> bool option \<Rightarrow>
    notify_db \<Rightarrow> notify_db result" where
  "update_provider ts i name config secret en db0 =
     (let db = notify_init_db db0 in
      case row_by_id pr_id i (nd_providers db) of
        None \<Rightarrow> Inl (''notification provider '' @ str_nat i @ '' not found'')
      | Some row \<Rightarrow>
          then_ok (case config of Some c \<Rightarrow> validate_provider (provider_kind (pr_config row)) c | None \<Rightarrow> Inr (pr_config row)) (\<lambda>new_config.
            let new_name = or_text (py_strip (case name of None \<Rightarrow> [] | Some n \<Rightarrow> n)) (pr_name row);
                new_secret = (case secret of None \<Rightarrow> pr_secret row | Some s \<Rightarrow> or_text s (pr_secret row));
                new_enabled = (case en of None \<Rightarrow> pr_enabled row | Some b \<Rightarrow> b)
            in Inr (db\<lparr>nd_providers := update_where (\<lambda>r. pr_id r = i) (\<lambda>r. r\<lparr>pr_name := new_name, pr_config := new_config,
                     pr_secret := new_secret, pr_enabled := new_enabled, pr_updated_at := ts\<rparr>) (nd_providers db)\<rparr>)))"

definition delete_provider :: "nat \<Rightarrow> notify_db \<Rightarrow> notify_db" where
  "delete_provider i db0 =
     (let db = notify_init_db db0 in
      db\<lparr>nd_subscriptions := delete_where (\<lambda>s. sb_provider s = i) (nd_subscriptions db),
         nd_rate := filter (\<lambda>e. snd (fst e) \<noteq> i) (nd_rate db),
         nd_providers := delete_where (\<lambda>r. pr_id r = i) (nd_providers db)\<rparr>)"

definition toggle_provider :: "int \<Rightarrow> nat \<Rightarrow> notify_db \<Rightarrow> notify_db" where
  "toggle_provider ts i db0 =
     (let db = notify_init_db db0 in
      db\<lparr>nd_providers := update_where (\<lambda>r. pr_id r = i) (\<lambda>r. r\<lparr>pr_enabled := \<not> pr_enabled r, pr_updated_at := ts\<rparr>) (nd_providers db)\<rparr>)"

definition clear_provider_failure :: "nat \<Rightarrow> notify_db \<Rightarrow> notify_db" where
  "clear_provider_failure i db0 =
     (let db = notify_init_db db0 in
      db\<lparr>nd_providers := update_where (\<lambda>r. pr_id r = i) (\<lambda>r. r\<lparr>pr_last_failure_at := None, pr_last_failure_error := []\<rparr>) (nd_providers db)\<rparr>)"

record public_view =
  pv_id :: nat
  pv_kind :: string
  pv_name :: string
  pv_enabled :: bool
  pv_config :: provider_config
  pv_has_secret :: bool
  pv_last_test_at :: "int option"
  pv_last_test_ok :: "bool option"
  pv_last_failure_at :: "int option"
  pv_last_failure_error :: string
  pv_created_at :: int
  pv_updated_at :: int

definition public_provider :: "provider \<Rightarrow> public_view" where
  "public_provider r =
     \<lparr>pv_id = pr_id r, pv_kind = provider_kind (pr_config r), pv_name = pr_name r, pv_enabled = pr_enabled r, pv_config = pr_config r,
      pv_has_secret = (pr_secret r \<noteq> []), pv_last_test_at = pr_last_test_at r, pv_last_test_ok = pr_last_test_ok r,
      pv_last_failure_at = pr_last_failure_at r, pv_last_failure_error = pr_last_failure_error r,
      pv_created_at = pr_created_at r, pv_updated_at = pr_updated_at r\<rparr>"

definition list_providers :: "notify_db \<Rightarrow> public_view list" where
  "list_providers db = map public_provider (sort_key pr_name (nd_providers (notify_init_db db)))"

definition get_provider_row :: "nat \<Rightarrow> notify_db \<Rightarrow> provider option" where
  "get_provider_row i db = row_by_id pr_id i (nd_providers (notify_init_db db))"

section \<open>Subscriptions\<close>

definition same_subscription :: "nat \<Rightarrow> string \<Rightarrow> subscription \<Rightarrow> bool" where
  "same_subscription i category s \<longleftrightarrow> sb_provider s = i \<and> sb_category s = category"

definition set_subscription :: "nat \<Rightarrow> string \<Rightarrow> string \<Rightarrow> bool \<Rightarrow> int option \<Rightarrow> notify_db \<Rightarrow> notify_db result" where
  "set_subscription i category min_severity en cooldown db0 =
     (if category \<notin> set EVENT_CATEGORIES then Inl (''unknown event category '' @ py_repr category)
      else if min_severity \<notin> set SEVERITIES then Inl (''unknown severity '' @ py_repr min_severity)
      else
        let db = notify_init_db db0 in
        Inr (db\<lparr>nd_subscriptions :=
          (if list_ex (same_subscription i category) (nd_subscriptions db)
           then update_where (same_subscription i category) (\<lambda>s. s\<lparr>sb_min_severity := min_severity, sb_enabled := en, sb_cooldown := cooldown\<rparr>)
                  (nd_subscriptions db)
           else insert_row sb_id (\<lambda>j s. s\<lparr>sb_id := j\<rparr>)
                  \<lparr>sb_id = 0, sb_provider = i, sb_category = category, sb_min_severity = min_severity, sb_enabled = en, sb_cooldown = cooldown\<rparr>
                  (nd_subscriptions db))\<rparr>))"

definition delete_subscription :: "nat \<Rightarrow> notify_db \<Rightarrow> notify_db" where
  "delete_subscription i db0 =
     (let db = notify_init_db db0 in db\<lparr>nd_subscriptions := delete_where (\<lambda>s. sb_id s = i) (nd_subscriptions db)\<rparr>)"

text \<open>Subscriptions joined with their providers; one without a provider joins with nothing.\<close>

definition joined :: "notify_db \<Rightarrow> (subscription \<times> provider) list" where
  "joined db =
     concat (map (\<lambda>s. case row_by_id pr_id (sb_provider s) (nd_providers db) of None \<Rightarrow> [] | Some p \<Rightarrow> [(s, p)]) (nd_subscriptions db))"

definition list_subscriptions :: "notify_db \<Rightarrow> (subscription \<times> string \<times> string) list" where
  "list_subscriptions db =
     map (\<lambda>(s, p). (s, pr_name p, provider_kind (pr_config p)))
       (sort_key (\<lambda>(s, p). (pr_name p, sb_category s)) (joined (notify_init_db db)))"

section \<open>Messages and requests\<close>

record notification =
  nm_category :: string
  nm_severity :: string
  nm_host :: string
  nm_component :: string
  nm_summary :: string
  nm_began_at :: string
  nm_recovered :: bool
  nm_admin_link :: string

definition notification_title :: "notification \<Rightarrow> string" where
  "notification_title m =
     ''['' @ (if nm_recovered m then ''RECOVERED'' else py_upper (nm_severity m)) @ ''] '' @ nm_component m @ '': '' @ nm_summary m"

definition body_lines :: "notification \<Rightarrow> string list" where
  "body_lines m =
     [''Severity: '' @ (if nm_recovered m then ''recovered'' else nm_severity m), ''Host: '' @ nm_host m, ''Component: '' @ nm_component m,
      ''What happened: '' @ nm_summary m, ''Began: '' @ nm_began_at m, ''Recovered: '' @ (if nm_recovered m then ''yes'' else ''no'')] @
     (if nm_admin_link m \<noteq> [] then [''Details: '' @ nm_admin_link m] else [])"

datatype json = JText string | JNat nat | JFlag bool

text \<open>What is handed to \<^verbatim>\<open>smtplib\<close> and \<^verbatim>\<open>httpx\<close>.\<close>

record mail =
  ml_host :: string
  ml_port :: int
  ml_starttls :: bool
  ml_login :: "(string \<times> string) option"
  ml_subject :: string
  ml_from :: string
  ml_recipients :: "string list"
  ml_body :: string

datatype request =
    Mail mail
  | Post_json string "(string \<times> json) list" "(string \<times> string) list"
  | Post_text string string "(string \<times> string) list"
  | Post_form string "(string \<times> string) list"

definition header_ok :: "string \<Rightarrow> bool" where
  "header_ok v = (length (splitlines v) \<le> 1)"

definition send_smtp :: "smtp_config \<Rightarrow> string \<Rightarrow> notification \<Rightarrow> request result" where
  "send_smtp c secret m =
     (let recipients = filter (\<lambda>a. a \<noteq> []) (map py_strip (split_char CHR '','' (sm_to c))) in
      if \<not> (header_ok (notification_title m) \<and> header_ok (sm_from c) \<and> header_ok (join '', '' recipients))
      then Inl ''Header values may not contain linefeed or carriage return characters''
      else Inr (Mail \<lparr>ml_host = sm_host c, ml_port = sm_port c, ml_starttls = sm_use_tls c,
             ml_login = (if sm_username c \<noteq> [] \<and> secret \<noteq> [] then Some (sm_username c, secret) else None),
             ml_subject = notification_title m, ml_from = sm_from c, ml_recipients = recipients, ml_body = join [newline] (body_lines m)\<rparr>))"

definition severity_color :: "string \<Rightarrow> string" where
  "severity_color s = (if s = ''warning'' then ''e3a008'' else if s = ''critical'' then ''e02424'' else ''4a90d9'')"

definition ntfy_priority :: "string \<Rightarrow> string" where
  "ntfy_priority s = (if s = ''warning'' then ''4'' else if s = ''critical'' then ''5'' else ''3'')"

definition gotify_priority :: "string \<Rightarrow> nat" where
  "gotify_priority s = (if s = ''info'' then 2 else if s = ''critical'' then 9 else 5)"

text \<open>A JSON body, or a plain text with headers.\<close>

definition webhook_payload :: "string \<Rightarrow> notification \<Rightarrow> (string \<times> json) list + string \<times> (string \<times> string) list" where
  "webhook_payload preset m =
     (let title = notification_title m; body = join [newline] (body_lines m) in
      if preset = ''discord'' then Inl [(''content'', JText (''**'' @ title @ ''**'' @ [newline] @ body))]
      else if preset = ''slack'' then Inl [(''text'', JText (''*'' @ title @ ''*'' @ [newline] @ body))]
      else if preset = ''teams'' then
        Inl [(''@type'', JText ''MessageCard''), (''@context'', JText ''http://schema.org/extensions''), (''summary'', JText title),
             (''themeColor'', JText (severity_color (nm_severity m))), (''title'', JText title),
             (''text'', JText (concat (map (\<lambda>c. if c = newline then [newline, newline] else [c]) body)))]
      else if preset = ''ntfy'' then Inr (body, [(''Title'', title), (''Priority'', ntfy_priority (nm_severity m))])
      else if preset = ''gotify'' then
        Inl [(''title'', JText title), (''message'', JText body), (''priority'', JNat (gotify_priority (nm_severity m)))]
      else if preset = ''pushover'' then Inl [(''title'', JText title), (''message'', JText body)]
      else
        Inl [(''event_category'', JText (nm_category m)), (''severity'', JText (nm_severity m)), (''host'', JText (nm_host m)),
             (''component'', JText (nm_component m)), (''summary'', JText (nm_summary m)), (''began_at'', JText (nm_began_at m)),
             (''recovered'', JFlag (nm_recovered m)), (''admin_link'', JText (nm_admin_link m))])"

definition send_webhook :: "string \<Rightarrow> string \<Rightarrow> notification \<Rightarrow> request result" where
  "send_webhook preset secret m =
     (if preset = ''pushover'' then
        (case partition_char CHR '':'' secret of
           (_, False, _) \<Rightarrow> Inl (''Pushover secret must be '' @ CHR 0x27 # ''<user_key>:<app_token>'' @ [CHR 0x27])
         | (user_key, True, app_token) \<Rightarrow>
             Inr (Post_form ''https://api.pushover.net/1/messages.json''
               [(''title'', notification_title m), (''message'', join [newline] (body_lines m)), (''token'', app_token), (''user'', user_key)]))
      else case webhook_payload preset m of
        Inl body \<Rightarrow> Inr (Post_json secret body [])
      | Inr (body, headers) \<Rightarrow> Inr (Post_text secret body headers))"

record notify_world =
  nw_started :: int
  nw_clock :: "nat \<Rightarrow> int"
  nw_done :: "nat \<Rightarrow> int"
  nw_iso :: "int \<Rightarrow> string"
  nw_sha :: "string \<Rightarrow> string"
  nw_deliver :: "request \<Rightarrow> unit result"

text \<open>
  Clock readings in microseconds: at the start, before the decision on the \<open>k\<close>-th eligible subscription, and after
  its delivery.  A delivery that succeeds leaves the error empty.
\<close>

definition send_provider :: "notify_world \<Rightarrow> provider \<Rightarrow> notification \<Rightarrow> unit result" where
  "send_provider w p m =
     then_ok (case pr_config p of Smtp c \<Rightarrow> send_smtp c (pr_secret p) m | Webhook preset \<Rightarrow> send_webhook preset (pr_secret p) m) (nw_deliver w)"

definition seconds :: "int \<Rightarrow> int" where
  "seconds us = us div 1000000"

definition error_of :: "unit result \<Rightarrow> string" where
  "error_of r = (case r of Inl e \<Rightarrow> e | Inr _ \<Rightarrow> [])"

definition delivery_status :: "unit result \<Rightarrow> delivery" where
  "delivery_status r = (if isl r then Undelivered else Sent)"

definition add_history :: "int \<Rightarrow> notification \<Rightarrow> nat \<Rightarrow> string \<Rightarrow> delivery \<Rightarrow> string \<Rightarrow> history_row list \<Rightarrow> history_row list" where
  "add_history ts m i name status error t =
     insert_row hs_id (\<lambda>j r. r\<lparr>hs_id := j\<rparr>)
       \<lparr>hs_id = 0, hs_at = ts, hs_category = nm_category m, hs_severity = nm_severity m, hs_host = nm_host m, hs_component = nm_component m,
        hs_message = nm_summary m, hs_began_at = nm_began_at m, hs_recovered = nm_recovered m, hs_admin_link = nm_admin_link m,
        hs_provider = i, hs_provider_name = name, hs_status = status, hs_error = error\<rparr> t"

definition note_failure :: "int \<Rightarrow> nat \<Rightarrow> unit result \<Rightarrow> provider list \<Rightarrow> provider list" where
  "note_failure ts i r t =
     update_where (\<lambda>p. pr_id p = i) (\<lambda>p. p\<lparr>pr_last_failure_at := (if isl r then Some ts else None), pr_last_failure_error := error_of r\<rparr>) t"

definition send_test :: "notify_world \<Rightarrow> nat \<Rightarrow> notify_db \<Rightarrow> (notify_db \<times> unit result) result" where
  "send_test w i db0 =
     (let db = notify_init_db db0 in
      case row_by_id pr_id i (nd_providers db) of
        None \<Rightarrow> Inl (''notification provider '' @ str_nat i @ '' not found'')
      | Some p \<Rightarrow>
          let m = \<lparr>nm_category = ''test'', nm_severity = ''info'', nm_host = ''this appliance'', nm_component = ''Notifications'',
                   nm_summary = ''Test notification from Alderpoint DNS'', nm_began_at = nw_iso w (seconds (nw_started w)),
                   nm_recovered = False, nm_admin_link = []\<rparr>;
              r = send_provider w p m; ts = seconds (nw_done w 0)
          in Inr (db\<lparr>nd_providers := update_where (\<lambda>p. pr_id p = i) (\<lambda>p. p\<lparr>pr_last_test_at := Some ts, pr_last_test_ok := Some (\<not> isl r)\<rparr>)
                       (note_failure ts i r (nd_providers db)),
                     nd_history := add_history ts m i (pr_name p) (delivery_status r) (error_of r) (nd_history db)\<rparr>, r))"

section \<open>Dispatch\<close>

definition fingerprint :: "notify_world \<Rightarrow> notification \<Rightarrow> string" where
  "fingerprint w m = take 16 (nw_sha w (nm_category m @ '':'' @ nm_component m))"

record outcome =
  oc_provider :: nat
  oc_name :: string
  oc_status :: delivery
  oc_error :: string

text \<open>Whether the \<open>k\<close>-th message is held back, by the state of its provider.\<close>

definition held_back :: "notify_world \<Rightarrow> notification \<Rightarrow> int \<Rightarrow> nat \<Rightarrow> rate_state option \<Rightarrow> bool" where
  "held_back w m cooldown k state =
     (\<not> nm_recovered m \<and>
      (case state of
         None \<Rightarrow> False
       | Some s \<Rightarrow> rs_fingerprint s = fingerprint w m \<and> nw_clock w k - rs_last_sent s * 1000000 < cooldown * 60 * 1000000))"

definition cooldown_of :: "int \<Rightarrow> subscription \<Rightarrow> int" where
  "cooldown_of default_cooldown s = (case sb_cooldown s of Some c \<Rightarrow> c | None \<Rightarrow> default_cooldown)"

definition dispatch_one :: "notify_world \<Rightarrow> notification \<Rightarrow> int \<Rightarrow> nat \<Rightarrow> subscription \<times> provider \<Rightarrow> notify_db \<Rightarrow> notify_db \<times> outcome" where
  "dispatch_one w m default_cooldown k sp db =
     (case sp of (s, p) \<Rightarrow>
      let i = sb_provider s; key = (nm_category m, i); ts = seconds (nw_done w k); state = map_of (nd_rate db) key in
      if held_back w m (cooldown_of default_cooldown s) k state
      then
        (db\<lparr>nd_rate := map (\<lambda>e. if fst e = key then (key, (snd e)\<lparr>rs_suppressed := Suc (rs_suppressed (snd e))\<rparr>) else e) (nd_rate db),
            nd_history := add_history ts m i (pr_name p) Suppressed [] (nd_history db)\<rparr>,
         \<lparr>oc_provider = i, oc_name = pr_name p, oc_status = Suppressed, oc_error = []\<rparr>)
      else
        let r = send_provider w p m in
        (db\<lparr>nd_rate := AList.update key \<lparr>rs_last_sent = ts, rs_fingerprint = fingerprint w m, rs_suppressed = 0\<rparr> (nd_rate db),
            nd_history := add_history ts m i (pr_name p) (delivery_status r) (error_of r) (nd_history db),
            nd_providers := note_failure ts i r (nd_providers db)\<rparr>,
         \<lparr>oc_provider = i, oc_name = pr_name p, oc_status = delivery_status r, oc_error = error_of r\<rparr>))"

text \<open>The loop over the rows; an unknown minimum severity raises \<^verbatim>\<open>KeyError\<close>.\<close>

fun dispatch_loop :: "notify_world \<Rightarrow> notification \<Rightarrow> int \<Rightarrow> nat \<Rightarrow> (subscription \<times> provider) list \<Rightarrow> notify_db \<Rightarrow> notify_db \<times> outcome list result" where
  "dispatch_loop w m default_cooldown k [] db = (db, Inr [])"
| "dispatch_loop w m default_cooldown k (sp # rest) db =
     (case severity_rank (sb_min_severity (fst sp)) of
        None \<Rightarrow> (db, Inl (py_repr (sb_min_severity (fst sp))))
      | Some least \<Rightarrow>
          if the (severity_rank (nm_severity m)) < least then dispatch_loop w m default_cooldown k rest db
          else case dispatch_one w m default_cooldown k sp db of
            (db, out) \<Rightarrow> map_prod id (map_sum id ((#) out)) (dispatch_loop w m default_cooldown (Suc k) rest db))"

definition matching :: "string \<Rightarrow> notify_db \<Rightarrow> (subscription \<times> provider) list" where
  "matching category db = filter (\<lambda>(s, p). sb_category s = category \<and> sb_enabled s \<and> pr_enabled p) (joined db)"

definition cooldown_setting :: "notify_db \<Rightarrow> int option" where
  "cooldown_setting db =
     (case map_of (nd_settings db) ''cooldown_minutes'' of None \<Rightarrow> Some (int DEFAULT_COOLDOWN_MINUTES) | Some v \<Rightarrow> int_of_str v)"

definition dispatch_message :: "notify_world \<Rightarrow> string \<Rightarrow> string \<Rightarrow> string \<Rightarrow> string \<Rightarrow> string option \<Rightarrow> bool \<Rightarrow> string \<Rightarrow> string \<Rightarrow> notification" where
  "dispatch_message w category severity component summary began_at recovered admin_link host =
     (let started = nw_iso w (seconds (nw_started w)) in
      \<lparr>nm_category = category, nm_severity = severity, nm_host = host, nm_component = component, nm_summary = summary,
       nm_began_at = (case began_at of None \<Rightarrow> started | Some t \<Rightarrow> or_text t started),
       nm_recovered = recovered, nm_admin_link = admin_link\<rparr>)"

definition dispatch :: "notify_world \<Rightarrow> string \<Rightarrow> string \<Rightarrow> string \<Rightarrow> string \<Rightarrow> string option \<Rightarrow> bool \<Rightarrow> string \<Rightarrow> string \<Rightarrow> notify_db \<Rightarrow>
    notify_db \<times> outcome list result" where
  "dispatch w category severity component summary began_at recovered admin_link host db0 =
     (if severity \<notin> set SEVERITIES then (db0, Inl (''unknown severity '' @ py_repr severity))
      else
        let m = dispatch_message w category severity component summary began_at recovered admin_link host;
            db = notify_init_db db0
        in case cooldown_setting db of
          None \<Rightarrow> (db0, Inl (int_error (PyStr (the (map_of (nd_settings db) ''cooldown_minutes'')))))
        | Some default_cooldown \<Rightarrow>
            (case dispatch_loop w m default_cooldown 0 (matching category db) db of
               (db', Inl e) \<Rightarrow> (if nd_history db' = nd_history db then db0 else db', Inl e)
             | (db', Inr outs) \<Rightarrow> (db', Inr outs)))"

definition notification_history :: "nat \<Rightarrow> notify_db \<Rightarrow> history_row list" where
  "notification_history limit db = take limit (rev (nd_history (notify_init_db db)))"

definition get_check_state :: "string \<Rightarrow> string \<Rightarrow> notify_db \<Rightarrow> string option" where
  "get_check_state category component db = map_of (nd_checks (notify_init_db db)) (category, component)"

definition set_check_state :: "string \<Rightarrow> string \<Rightarrow> string \<Rightarrow> notify_db \<Rightarrow> notify_db" where
  "set_check_state category component state db0 =
     (let db = notify_init_db db0 in db\<lparr>nd_checks := AList.update (category, component) state (nd_checks db)\<rparr>)"

section \<open>Well-formed tables\<close>

definition config_ok :: "provider_config \<Rightarrow> string \<Rightarrow> bool" where
  "config_ok c secret =
     (case c of
        Smtp sc \<Rightarrow> sm_host sc \<noteq> [] \<and> 1 \<le> sm_port sc \<and> sm_port sc \<le> 65535 \<and> sm_from sc \<noteq> [] \<and> sm_to sc \<noteq> []
      | Webhook preset \<Rightarrow> preset \<in> set WEBHOOK_PRESETS \<and> secret \<noteq> [])"

definition provider_ok :: "provider \<Rightarrow> bool" where
  "provider_ok p \<longleftrightarrow> pr_name p \<noteq> [] \<and> config_ok (pr_config p) (pr_secret p)"

definition subscription_ok :: "subscription \<Rightarrow> bool" where
  "subscription_ok s \<longleftrightarrow> sb_category s \<in> set EVENT_CATEGORIES \<and> sb_min_severity s \<in> set SEVERITIES"

definition subscription_key :: "subscription \<Rightarrow> nat \<times> string" where
  "subscription_key s = (sb_provider s, sb_category s)"

definition cooldown_ok :: "notify_db \<Rightarrow> bool" where
  "cooldown_ok db \<longleftrightarrow> (\<exists>n. cooldown_setting db = Some n \<and> 0 \<le> n \<and> n \<le> 1440)"

definition notify_ok :: "notify_db \<Rightarrow> bool" where
  "notify_ok db \<longleftrightarrow>
     cooldown_ok db \<and> rowids_ok pr_id (nd_providers db) \<and> (\<forall>p\<in>set (nd_providers db). provider_ok p) \<and>
     rowids_ok sb_id (nd_subscriptions db) \<and> distinct (map subscription_key (nd_subscriptions db)) \<and>
     (\<forall>s\<in>set (nd_subscriptions db). subscription_ok s) \<and>
     rowids_ok hs_id (nd_history db) \<and> distinct (map fst (nd_rate db))"

lemma init_tables [simp]:
  "nd_providers (notify_init_db db) = nd_providers db" "nd_subscriptions (notify_init_db db) = nd_subscriptions db"
  "nd_rate (notify_init_db db) = nd_rate db" "nd_history (notify_init_db db) = nd_history db" "nd_checks (notify_init_db db) = nd_checks db"
  by (simp_all add: notify_init_db_def)

lemma init_settings: "map_of (nd_settings (notify_init_db db)) ''cooldown_minutes'' =
    Some (case map_of (nd_settings db) ''cooldown_minutes'' of None \<Rightarrow> str_nat DEFAULT_COOLDOWN_MINUTES | Some v \<Rightarrow> v)"
  by (simp add: notify_init_db_def map_add_def split: option.split)

lemma init_cooldown: "cooldown_setting (notify_init_db db) = cooldown_setting db"
  unfolding cooldown_setting_def init_settings by (simp add: int_of_str_nat split: option.split)

lemma init_ok [simp]: "notify_ok (notify_init_db db) = notify_ok db"
  by (simp add: notify_ok_def cooldown_ok_def init_cooldown)

lemma other_cooldown: "nd_settings db' = nd_settings db \<Longrightarrow> cooldown_ok db' = cooldown_ok db"
  by (simp add: cooldown_ok_def cooldown_setting_def)

lemma validated_config_ok:
  assumes "validate_provider kind config = Inr c" "kind = ''webhook'' \<Longrightarrow> secret \<noteq> []"
  shows "config_ok c secret"
proof (cases "kind = ''smtp''")
  case True
  then show ?thesis using assms(1)
    by (auto simp: validate_provider_def validate_smtp_def Let_def config_ok_def split: if_splits option.splits)
next
  case False
  then show ?thesis using assms
    by (auto simp: validate_provider_def validate_webhook_def Let_def config_ok_def split: if_splits)
qed

lemma providers_update_ok:
  assumes "notify_ok db" "\<And>p. pr_id (f p) = pr_id p" "\<And>p. p \<in> set (nd_providers db) \<Longrightarrow> c p \<Longrightarrow> provider_ok (f p)"
  shows "notify_ok (db\<lparr>nd_providers := update_where c f (nd_providers db)\<rparr>)"
  using assms rowids_ok_update [of pr_id "nd_providers db" f c]
  by (auto simp: notify_ok_def set_update_where other_cooldown [of "db\<lparr>nd_providers := x\<rparr>" db for x])

lemma note_failure_ok: "notify_ok db \<Longrightarrow> notify_ok (db\<lparr>nd_providers := note_failure ts i r (nd_providers db)\<rparr>)"
  unfolding note_failure_def by (rule providers_update_ok) (simp_all add: notify_ok_def provider_ok_def)

lemma history_ok: "notify_ok db \<Longrightarrow> notify_ok (db\<lparr>nd_history := add_history ts m i name st e (nd_history db)\<rparr>)"
  unfolding notify_ok_def
  by (simp add: other_cooldown [of "db\<lparr>nd_history := x\<rparr>" db for x]) (simp add: add_history_def history_table.insert_keeps_ids)

lemma rate_ok: "notify_ok db \<Longrightarrow> distinct (map fst t) \<Longrightarrow> notify_ok (db\<lparr>nd_rate := t\<rparr>)"
  by (simp add: notify_ok_def other_cooldown [of "db\<lparr>nd_rate := x\<rparr>" db for x])

lemma dispatch_one_ok: "notify_ok db \<Longrightarrow> notify_ok (fst (dispatch_one w m c k sp db))"
proof -
  assume ok: "notify_ok db"
  obtain s p where sp: "sp = (s, p)" by (cases sp)
  let ?key = "(nm_category m, sb_provider s)"
  have bump: "distinct (map fst (map (\<lambda>e. if fst e = ?key then (?key, (snd e)\<lparr>rs_suppressed := Suc (rs_suppressed (snd e))\<rparr>) else e) (nd_rate db)))"
  proof -
    have "map fst (map (\<lambda>e. if fst e = ?key then (?key, (snd e)\<lparr>rs_suppressed := Suc (rs_suppressed (snd e))\<rparr>) else e) (nd_rate db)) = map fst (nd_rate db)"
      by (auto simp: comp_def)
    then show ?thesis using ok by (simp only: notify_ok_def)
  qed
  have new: "distinct (map fst (AList.update ?key v (nd_rate db)))" for v
    using ok distinct_update by (auto simp: notify_ok_def)
  show ?thesis
    unfolding dispatch_one_def sp
    using history_ok [OF rate_ok [OF ok bump]] note_failure_ok [OF history_ok [OF rate_ok [OF ok new]]]
    by (simp add: Let_def)
qed

lemma dispatch_loop_ok: "notify_ok db \<Longrightarrow> notify_ok (fst (dispatch_loop w m c k rows db))"
proof (induction rows arbitrary: k db)
  case (Cons sp rows)
  have "notify_ok (fst (dispatch_one w m c k sp db))" by (rule dispatch_one_ok [OF Cons.prems])
  then show ?case using Cons by (auto split: option.split prod.split)
qed simp

lemma dispatch_ok: "notify_ok db \<Longrightarrow> notify_ok (fst (dispatch w category severity component summary began_at recovered link host db))"
proof -
  assume ok: "notify_ok db"
  have "notify_ok (fst (dispatch_loop w m c 0 rows (notify_init_db db)))" for m c rows using ok by (intro dispatch_loop_ok) simp
  then show ?thesis using ok unfolding dispatch_def Let_def by (auto split: option.split prod.split sum.split) (metis fst_conv)+
qed

inductive notify_step :: "notify_db \<Rightarrow> notify_db \<Rightarrow> bool" where
  ns_settings: "notify_update_settings values db = Inr db' \<Longrightarrow> notify_step db db'"
| ns_add: "add_provider ts kind name config secret en db = Inr (db', i) \<Longrightarrow> notify_step db db'"
| ns_update: "update_provider ts i name config secret en db = Inr db' \<Longrightarrow> notify_step db db'"
| ns_delete: "notify_step db (delete_provider i db)"
| ns_toggle: "notify_step db (toggle_provider ts i db)"
| ns_clear: "notify_step db (clear_provider_failure i db)"
| ns_subscribe: "set_subscription i category sev en cooldown db = Inr db' \<Longrightarrow> notify_step db db'"
| ns_unsubscribe: "notify_step db (delete_subscription i db)"
| ns_test: "send_test w i db = Inr (db', r) \<Longrightarrow> notify_step db db'"
| ns_dispatch: "dispatch w category severity component summary began_at recovered link host db = (db', r) \<Longrightarrow> notify_step db db'"
| ns_check: "notify_step db (set_check_state category component state db)"

lemma providers_ok_map:
  "notify_ok db \<Longrightarrow> (\<And>p. pr_id (f p) = pr_id p) \<Longrightarrow> (\<And>p. provider_ok p \<Longrightarrow> c p \<Longrightarrow> provider_ok (f p)) \<Longrightarrow>
   notify_ok (db\<lparr>nd_providers := update_where c f (nd_providers db)\<rparr>)"
  by (rule providers_update_ok) (auto simp: notify_ok_def)

lemma update_settings_ok:
  assumes "notify_ok db" "notify_update_settings values db = Inr db'"
  shows "notify_ok db'"
proof (cases "map_of values ''cooldown_minutes''")
  case None
  then show ?thesis using assms init_ok [of db] by (simp add: notify_update_settings_def)
next
  case (Some v)
  then obtain n where v: "py_int v = Some n" using assms(2) by (cases "py_int v") (auto simp: notify_update_settings_def)
  with Some have n: "0 \<le> n" "n \<le> 24 * 60"
    "db' = (notify_init_db db)\<lparr>nd_settings := AList.update ''cooldown_minutes'' (str_int n) (nd_settings (notify_init_db db))\<rparr>"
    using assms(2) by (auto simp: notify_update_settings_def Let_def split: option.splits if_splits)
  have "str_int n = str_nat (nat n)" using n(1) by (simp add: str_int_def)
  then have "cooldown_setting db' = Some n" using n(1) by (simp add: cooldown_setting_def n(3) update_conv' int_of_str_nat)
  then show ?thesis using assms(1) n by (simp add: notify_ok_def cooldown_ok_def)
qed

lemma add_provider_ok:
  assumes "notify_ok db" "add_provider ts kind name config secret en db = Inr (db', i)"
  shows "notify_ok db'"
proof -
  obtain c where c: "validate_provider kind config = Inr c" using assms(2)
    by (cases "validate_provider kind config") (auto simp: add_provider_def then_ok_def Let_def split: if_splits)
  let ?row = "\<lparr>pr_id = 0, pr_name = py_strip name, pr_enabled = en, pr_config = c, pr_secret = secret,
      pr_last_test_at = None, pr_last_test_ok = None, pr_last_failure_at = None, pr_last_failure_error = [],
      pr_created_at = ts, pr_updated_at = ts\<rparr>"
  have d: "db' = (notify_init_db db)\<lparr>nd_providers := insert_row pr_id (\<lambda>i r. r\<lparr>pr_id := i\<rparr>) ?row (nd_providers db)\<rparr>"
    "py_strip name \<noteq> []" "kind = ''webhook'' \<longrightarrow> py_strip secret \<noteq> []"
    using assms(2) by (auto simp: add_provider_def then_ok_def Let_def c split: if_splits)
  have "py_strip [] = []" by (simp add: strip_by_def lstrip_by_def rstrip_by_def)
  with d(3) have "kind = ''webhook'' \<longrightarrow> secret \<noteq> []" by auto
  then have "config_ok c secret" using validated_config_ok [OF c] by blast
  then have "provider_ok (?row\<lparr>pr_id := j\<rparr>)" for j using d(2) by (simp add: provider_ok_def)
  moreover have "rowids_ok pr_id (insert_row pr_id (\<lambda>i r. r\<lparr>pr_id := i\<rparr>) ?row (nd_providers db))"
    using assms(1) by (intro provider_table.insert_keeps_ids) (simp add: notify_ok_def)
  ultimately show ?thesis using assms(1) init_ok [of db] unfolding d(1)
    by (simp add: notify_ok_def other_cooldown [of "(notify_init_db db)\<lparr>nd_providers := x\<rparr>" "notify_init_db db" for x]) (simp add: insert_row_def)
qed

lemma update_provider_ok:
  assumes "notify_ok db" "update_provider ts i name config secret en db = Inr db'"
  shows "notify_ok db'"
proof -
  obtain row where row: "row_by_id pr_id i (nd_providers db) = Some row" using assms(2)
    by (cases "row_by_id pr_id i (nd_providers db)") (auto simp: update_provider_def)
  then have ok: "provider_ok row" using assms(1) row_by_id_Some [OF row] by (simp add: notify_ok_def)
  let ?secret = "case secret of None \<Rightarrow> pr_secret row | Some s \<Rightarrow> or_text s (pr_secret row)"
  let ?name = "or_text (py_strip (case name of None \<Rightarrow> [] | Some n \<Rightarrow> n)) (pr_name row)"
  have sec: "pr_secret row \<noteq> [] \<Longrightarrow> ?secret \<noteq> []" by (auto simp: or_text_def split: option.split)
  have name: "?name \<noteq> []" using ok by (auto simp: or_text_def provider_ok_def)
  obtain c en' where d: "db' = (notify_init_db db)\<lparr>nd_providers := update_where (\<lambda>r. pr_id r = i) (\<lambda>r. r\<lparr>pr_name := ?name, pr_config := c,
      pr_secret := ?secret, pr_enabled := en', pr_updated_at := ts\<rparr>) (nd_providers (notify_init_db db))\<rparr>"
    "(case config of Some c \<Rightarrow> validate_provider (provider_kind (pr_config row)) c | None \<Rightarrow> Inr (pr_config row)) = Inr c"
    using assms(2) by (auto simp: update_provider_def row then_ok_def Let_def split: sum.splits)
  have "config_ok c ?secret"
  proof (cases config)
    case None
    then show ?thesis using ok sec d(2) by (auto simp: provider_ok_def config_ok_def split: provider_config.splits)
  next
    case (Some x)
    have "provider_kind (pr_config row) = ''webhook'' \<Longrightarrow> pr_secret row \<noteq> []"
      using ok by (auto simp: provider_ok_def config_ok_def provider_kind_def split: provider_config.splits)
    then show ?thesis using validated_config_ok [of "provider_kind (pr_config row)" x c ?secret] d(2) Some sec by simp
  qed
  then show ?thesis unfolding d(1) using name assms(1) by (intro providers_ok_map) (simp_all add: provider_ok_def)
qed

lemma set_subscription_ok:
  assumes "notify_ok db" "set_subscription i category sev en cooldown db = Inr db'"
  shows "notify_ok db'"
proof -
  let ?t = "nd_subscriptions db"
  have new: "category \<in> set EVENT_CATEGORIES" "sev \<in> set SEVERITIES"
    using assms(2) by (auto simp: set_subscription_def split: if_splits)
  have ok: "rowids_ok sb_id ?t" "distinct (map subscription_key ?t)" "\<forall>s\<in>set ?t. subscription_ok s"
    using assms(1) by (simp_all add: notify_ok_def)
  obtain t where t: "db' = (notify_init_db db)\<lparr>nd_subscriptions := t\<rparr>"
    and cases: "t = (if list_ex (same_subscription i category) ?t
           then update_where (same_subscription i category) (\<lambda>s. s\<lparr>sb_min_severity := sev, sb_enabled := en, sb_cooldown := cooldown\<rparr>) ?t
           else insert_row sb_id (\<lambda>j s. s\<lparr>sb_id := j\<rparr>)
                  \<lparr>sb_id = 0, sb_provider = i, sb_category = category, sb_min_severity = sev, sb_enabled = en, sb_cooldown = cooldown\<rparr> ?t)"
    using assms(2) new by (auto simp: set_subscription_def Let_def)
  have "rowids_ok sb_id t \<and> distinct (map subscription_key t) \<and> (\<forall>s\<in>set t. subscription_ok s)"
  proof (cases "list_ex (same_subscription i category) ?t")
    case True
    then have t': "t = update_where (same_subscription i category) (\<lambda>s. s\<lparr>sb_min_severity := sev, sb_enabled := en, sb_cooldown := cooldown\<rparr>) ?t"
      using cases by simp
    have "map subscription_key t = map subscription_key ?t" by (simp add: t' update_where_def subscription_key_def)
    moreover have "rowids_ok sb_id t" unfolding t' by (rule rowids_ok_update [OF ok(1)]) simp
    moreover have "\<forall>s\<in>set t. subscription_ok s" using ok(3) new by (auto simp: t' set_update_where subscription_ok_def)
    ultimately show ?thesis using ok(2) by simp
  next
    case False
    then have t': "t = insert_row sb_id (\<lambda>j s. s\<lparr>sb_id := j\<rparr>)
        \<lparr>sb_id = 0, sb_provider = i, sb_category = category, sb_min_severity = sev, sb_enabled = en, sb_cooldown = cooldown\<rparr> ?t"
      using cases by simp
    have "rowids_ok sb_id t" unfolding t' by (rule subscription_table.insert_keeps_ids [OF ok(1)])
    moreover have "(i, category) \<notin> set (map subscription_key ?t)"
      using False by (auto simp: list_ex_iff same_subscription_def subscription_key_def)
    ultimately show ?thesis using ok(2,3) new by (simp add: t') (simp add: insert_row_def subscription_key_def subscription_ok_def)
  qed
  then show ?thesis using assms(1) init_ok [of db] unfolding t
    by (simp add: notify_ok_def other_cooldown [of "(notify_init_db db)\<lparr>nd_subscriptions := x\<rparr>" "notify_init_db db" for x])
qed

lemma send_test_ok:
  assumes "notify_ok db" "send_test w i db = Inr (db', r)"
  shows "notify_ok db'"
proof -
  obtain ts m name st e where "db' = (let db1 = (notify_init_db db)\<lparr>nd_providers := note_failure ts i r (nd_providers (notify_init_db db))\<rparr>;
        db2 = db1\<lparr>nd_providers := update_where (\<lambda>p. pr_id p = i) (\<lambda>p. p\<lparr>pr_last_test_at := Some ts, pr_last_test_ok := Some (\<not> isl r)\<rparr>) (nd_providers db1)\<rparr>
      in db2\<lparr>nd_history := add_history ts m i name st e (nd_history db2)\<rparr>)"
    using assms(2) by (auto simp: send_test_def Let_def split: option.splits)
  then show ?thesis unfolding Let_def using assms(1)
    by (simp only:) (intro history_ok providers_ok_map note_failure_ok, simp_all add: provider_ok_def)
qed

lemma deletions_ok:
  assumes "notify_ok db"
  shows "notify_ok (delete_provider i db)" "notify_ok (delete_subscription i db)"
proof -
  have c: "cooldown_ok (notify_init_db db)" using assms init_ok [of db] by (simp add: notify_ok_def)
  have keys: "distinct (map subscription_key (delete_where q (nd_subscriptions db)))" "distinct (map fst (filter q' (nd_rate db)))" for q q'
    using assms by (simp_all add: notify_ok_def delete_where_def distinct_map_filter)
  show "notify_ok (delete_provider i db)" "notify_ok (delete_subscription i db)"
    using assms c keys
    by (simp_all add: rowids_ok_delete notify_ok_def delete_provider_def delete_subscription_def Let_def other_cooldown [of "(notify_init_db db)\<lparr>nd_subscriptions := x\<rparr>" "notify_init_db db" for x]
        other_cooldown [of "(notify_init_db db)\<lparr>nd_subscriptions := x, nd_rate := y, nd_providers := z\<rparr>" "notify_init_db db" for x y z])
qed

lemma notify_step_ok: "notify_step db db' \<Longrightarrow> notify_ok db \<Longrightarrow> notify_ok db'"
proof (induction rule: notify_step.induct)
  case (ns_dispatch w category severity component summary began_at recovered link host db db' r)
  then show ?case using dispatch_ok [of db w category severity component summary began_at recovered link host] by simp
next
  case (ns_check db category component state)
  then show ?case using init_ok [of db]
    by (simp add: set_check_state_def Let_def notify_ok_def other_cooldown [of "(notify_init_db db)\<lparr>nd_checks := x\<rparr>" "notify_init_db db" for x])
qed (auto simp: toggle_provider_def clear_provider_failure_def Let_def provider_ok_def
    dest: update_settings_ok add_provider_ok update_provider_ok set_subscription_ok send_test_ok deletions_ok
    intro!: providers_ok_map [of "notify_init_db _", simplified])

section \<open>What a dispatch does\<close>

text \<open>
  The abstract dispatch: the eligible subscriptions in order, each decided by the rate state its provider had
  before, and the rate states after.
\<close>

definition eligible :: "string \<Rightarrow> (subscription \<times> provider) list \<Rightarrow> (subscription \<times> provider) list" where
  "eligible severity rows = filter (\<lambda>(s, p). the (severity_rank (sb_min_severity s)) \<le> the (severity_rank severity)) rows"

definition expected_outcome :: "notify_world \<Rightarrow> notification \<Rightarrow> int \<Rightarrow> (string \<times> nat \<rightharpoonup> rate_state) \<Rightarrow> nat \<times> subscription \<times> provider \<Rightarrow> outcome" where
  "expected_outcome w m c rate e =
     (case e of (k, s, p) \<Rightarrow>
      if held_back w m (cooldown_of c s) k (rate (nm_category m, sb_provider s))
      then \<lparr>oc_provider = sb_provider s, oc_name = pr_name p, oc_status = Suppressed, oc_error = []\<rparr>
      else \<lparr>oc_provider = sb_provider s, oc_name = pr_name p, oc_status = delivery_status (send_provider w p m), oc_error = error_of (send_provider w p m)\<rparr>)"

definition expected_rate :: "notify_world \<Rightarrow> notification \<Rightarrow> int \<Rightarrow> nat \<times> subscription \<times> provider \<Rightarrow> (string \<times> nat \<rightharpoonup> rate_state) \<Rightarrow> (string \<times> nat \<rightharpoonup> rate_state)" where
  "expected_rate w m c e rate =
     (case e of (k, s, p) \<Rightarrow>
      let key = (nm_category m, sb_provider s) in
      if held_back w m (cooldown_of c s) k (rate key)
      then rate(key := map_option (\<lambda>r. r\<lparr>rs_suppressed := Suc (rs_suppressed r)\<rparr>) (rate key))
      else rate(key \<mapsto> \<lparr>rs_last_sent = seconds (nw_done w k), rs_fingerprint = fingerprint w m, rs_suppressed = 0\<rparr>))"

definition history_entry :: "history_row \<Rightarrow> outcome" where
  "history_entry h = \<lparr>oc_provider = hs_provider h, oc_name = hs_provider_name h, oc_status = hs_status h, oc_error = hs_error h\<rparr>"

lemma map_of_bump:
  "map_of (map (\<lambda>e. if fst e = key then (key, f (snd e)) else e) t) = (map_of t)(key := map_option f (map_of t key))"
  by (induction t) (auto simp: fun_eq_iff)

lemma dispatch_one_spec:
  assumes "dispatch_one w m c k (s, p) db = (db', out)"
  shows "out = expected_outcome w m c (map_of (nd_rate db)) (k, s, p)"
    "map_of (nd_rate db') = expected_rate w m c (k, s, p) (map_of (nd_rate db))"
    "\<exists>h. nd_history db' = nd_history db @ [h] \<and> history_entry h = out"
    "nd_subscriptions db' = nd_subscriptions db" "nd_settings db' = nd_settings db" "nd_checks db' = nd_checks db"
proof -
  let ?key = "(nm_category m, sb_provider s)"
  let ?held = "held_back w m (cooldown_of c s) k (map_of (nd_rate db) ?key)"
  note defs = dispatch_one_def Let_def prod.case
  show "out = expected_outcome w m c (map_of (nd_rate db)) (k, s, p)"
    using assms unfolding defs expected_outcome_def by (cases ?held) (auto simp: delivery_status_def)
  show "map_of (nd_rate db') = expected_rate w m c (k, s, p) (map_of (nd_rate db))"
    using assms unfolding defs expected_rate_def by (cases ?held) (auto simp: map_of_bump [where f = "\<lambda>r. r\<lparr>rs_suppressed := Suc (rs_suppressed r)\<rparr>"] update_conv')
  show "\<exists>h. nd_history db' = nd_history db @ [h] \<and> history_entry h = out"
    using assms unfolding defs by (cases ?held) (auto simp: add_history_def insert_row_def history_entry_def)
  show "nd_subscriptions db' = nd_subscriptions db" "nd_settings db' = nd_settings db" "nd_checks db' = nd_checks db"
    using assms unfolding defs by (cases ?held; auto)+
qed

lemma expected_rate_other:
  "sb_provider s \<noteq> i \<Longrightarrow> expected_rate w m c (k, s, p) rate (nm_category m, i) = rate (nm_category m, i)"
  by (simp add: expected_rate_def Let_def)

lemma expected_outcomes_cong:
  assumes "\<forall>sp\<in>set rows. rate (nm_category m, sb_provider (fst sp)) = rate' (nm_category m, sb_provider (fst sp))"
  shows "map (expected_outcome w m c rate) (enumerate k rows) = map (expected_outcome w m c rate') (enumerate k rows)"
proof (rule map_cong [OF refl])
  fix e assume "e \<in> set (enumerate k rows)"
  then have "snd e \<in> snd ` set (enumerate k rows)" by (rule imageI)
  then have "snd e \<in> set rows" unfolding set_map [symmetric] map_snd_enumerate .
  moreover obtain j s p where e: "e = (j, s, p)" by (rule prod_cases3)
  ultimately show "expected_outcome w m c rate e = expected_outcome w m c rate' e" using assms by (auto simp: expected_outcome_def)
qed

lemma dispatch_loop_spec:
  assumes "distinct (map (\<lambda>sp. sb_provider (fst sp)) rows)" "\<forall>sp\<in>set rows. severity_rank (sb_min_severity (fst sp)) \<noteq> None"
  shows "\<exists>db' outs hs. dispatch_loop w m c k rows db = (db', Inr outs) \<and>
    outs = map (expected_outcome w m c (map_of (nd_rate db))) (enumerate k (eligible (nm_severity m) rows)) \<and>
    map_of (nd_rate db') = fold (expected_rate w m c) (enumerate k (eligible (nm_severity m) rows)) (map_of (nd_rate db)) \<and>
    nd_history db' = nd_history db @ hs \<and> map history_entry hs = outs \<and>
    nd_subscriptions db' = nd_subscriptions db \<and> nd_settings db' = nd_settings db \<and> nd_checks db' = nd_checks db"
  using assms
proof (induction rows arbitrary: k db)
  case Nil
  then show ?case by (simp add: eligible_def)
next
  case (Cons sp rows)
  obtain s p where sp: "sp = (s, p)" by (cases sp)
  obtain least where least: "severity_rank (sb_min_severity s) = Some least" using Cons.prems(2) by (auto simp: sp)
  have prems: "distinct (map (\<lambda>sp. sb_provider (fst sp)) rows)" "\<forall>sp\<in>set rows. severity_rank (sb_min_severity (fst sp)) \<noteq> None"
    using Cons.prems by simp_all
  show ?case
  proof (cases "the (severity_rank (nm_severity m)) < least")
    case True
    then have "eligible (nm_severity m) (sp # rows) = eligible (nm_severity m) rows" by (simp add: eligible_def sp least)
    then show ?thesis using Cons.IH [OF prems, of k db] True by (simp add: sp least)
  next
    case False
    then have e: "eligible (nm_severity m) (sp # rows) = (s, p) # eligible (nm_severity m) rows" by (simp add: eligible_def sp least)
    obtain db1 out where one: "dispatch_one w m c k (s, p) db = (db1, out)" by (cases "dispatch_one w m c k (s, p) db")
    note spec = dispatch_one_spec [OF one]
    obtain db' outs hs where rest: "dispatch_loop w m c (Suc k) rows db1 = (db', Inr outs)"
        "outs = map (expected_outcome w m c (map_of (nd_rate db1))) (enumerate (Suc k) (eligible (nm_severity m) rows))"
        "map_of (nd_rate db') = fold (expected_rate w m c) (enumerate (Suc k) (eligible (nm_severity m) rows)) (map_of (nd_rate db1))"
        "nd_history db' = nd_history db1 @ hs" "map history_entry hs = outs"
        "nd_subscriptions db' = nd_subscriptions db1" "nd_settings db' = nd_settings db1" "nd_checks db' = nd_checks db1"
      using Cons.IH [OF prems, of "Suc k" db1] by (elim exE conjE) (rule that, assumption+)
    have "dispatch_loop w m c k (sp # rows) db = (db', Inr (out # outs))" using False one rest(1) by (simp add: sp least)
    moreover have "\<forall>sp\<in>set (eligible (nm_severity m) rows).
        map_of (nd_rate db1) (nm_category m, sb_provider (fst sp)) = map_of (nd_rate db) (nm_category m, sb_provider (fst sp))"
    proof
      fix q assume "q \<in> set (eligible (nm_severity m) rows)"
      then have "q \<in> set rows" by (simp add: eligible_def)
      then have "sb_provider s \<noteq> sb_provider (fst q)" using Cons.prems(1) by (auto simp: sp)
      then show "map_of (nd_rate db1) (nm_category m, sb_provider (fst q)) = map_of (nd_rate db) (nm_category m, sb_provider (fst q))"
        unfolding spec(2) by (rule expected_rate_other)
    qed
    from expected_outcomes_cong [OF this]
    have "out # outs = map (expected_outcome w m c (map_of (nd_rate db))) (enumerate k (eligible (nm_severity m) (sp # rows)))"
      unfolding e rest(2) spec(1) by simp
    moreover have "map_of (nd_rate db') = fold (expected_rate w m c) (enumerate k (eligible (nm_severity m) (sp # rows))) (map_of (nd_rate db))"
      unfolding e rest(3) spec(2) by simp
    moreover obtain h where "nd_history db1 = nd_history db @ [h]" "history_entry h = out" using spec(3) by blast
    then have "nd_history db' = nd_history db @ (h # hs)" "map history_entry (h # hs) = out # outs" using rest(4,5) by simp_all
    ultimately show ?thesis using rest(6-8) spec(4-6) by metis
  qed
qed

lemma joined_subscriptions: "map fst (joined db) = filter (\<lambda>s. row_by_id pr_id (sb_provider s) (nd_providers db) \<noteq> None) (nd_subscriptions db)"
proof -
  have "map fst (concat (map (\<lambda>s. case row_by_id pr_id (sb_provider s) (nd_providers db) of None \<Rightarrow> [] | Some p \<Rightarrow> [(s, p)]) t)) =
      filter (\<lambda>s. row_by_id pr_id (sb_provider s) (nd_providers db) \<noteq> None) t" for t
    by (induction t) (auto split: option.split)
  then show ?thesis by (simp add: joined_def)
qed

lemma matching_rows:
  assumes "notify_ok db"
  shows "distinct (map (\<lambda>sp. sb_provider (fst sp)) (matching category db))"
    "\<forall>sp\<in>set (matching category db). severity_rank (sb_min_severity (fst sp)) \<noteq> None"
proof -
  have "distinct (map subscription_key (map fst (joined db)))"
    unfolding joined_subscriptions using assms by (intro distinct_map_filter) (simp add: notify_ok_def)
  then have d: "distinct (map (\<lambda>sp. subscription_key (fst sp)) (matching category db))"
    unfolding matching_def by (intro distinct_map_filter) (simp add: comp_def)
  have "sb_category (fst sp) = category" if "sp \<in> set (matching category db)" for sp using that by (auto simp: matching_def)
  then show "distinct (map (\<lambda>sp. sb_provider (fst sp)) (matching category db))"
    using d by (auto simp: distinct_map subscription_key_def inj_on_def)
  show "\<forall>sp\<in>set (matching category db). severity_rank (sb_min_severity (fst sp)) \<noteq> None"
  proof
    fix sp assume "sp \<in> set (matching category db)"
    then have "fst sp \<in> set (map fst (joined db))" by (auto simp: matching_def)
    then have "fst sp \<in> set (nd_subscriptions db)" unfolding joined_subscriptions by simp
    then have "sb_min_severity (fst sp) \<in> set SEVERITIES" using assms by (auto simp: notify_ok_def subscription_ok_def)
    then show "severity_rank (sb_min_severity (fst sp)) \<noteq> None" by (auto simp: SEVERITIES_def severity_rank_def)
  qed
qed

lemma joined_init [simp]: "joined (notify_init_db db) = joined db"
  by (simp add: joined_def)

lemma matching_init [simp]: "matching category (notify_init_db db) = matching category db"
  by (simp add: matching_def)

lemma dispatch_spec:
  assumes ok: "notify_ok db" and sev: "severity \<in> set SEVERITIES"
    and m: "m = dispatch_message w category severity component summary began_at recovered link host"
    and rows: "rows = enumerate 0 (eligible severity (matching category db))"
  shows "\<exists>db' outs hs c. dispatch w category severity component summary began_at recovered link host db = (db', Inr outs) \<and>
    cooldown_setting db = Some c \<and> 0 \<le> c \<and> c \<le> 1440 \<and>
    outs = map (expected_outcome w m c (map_of (nd_rate db))) rows \<and>
    map_of (nd_rate db') = fold (expected_rate w m c) rows (map_of (nd_rate db)) \<and>
    nd_history db' = nd_history db @ hs \<and> map history_entry hs = outs \<and>
    nd_subscriptions db' = nd_subscriptions db \<and> cooldown_setting db' = Some c"
proof -
  obtain c where c: "cooldown_setting db = Some c" "0 \<le> c" "c \<le> 1440" using ok by (auto simp: notify_ok_def cooldown_ok_def)
  have sev_m: "nm_severity m = severity" by (simp add: m dispatch_message_def Let_def)
  have "\<exists>db' outs hs. dispatch_loop w m c 0 (matching category db) (notify_init_db db) = (db', Inr outs) \<and>
      outs = map (expected_outcome w m c (map_of (nd_rate db))) rows \<and>
      map_of (nd_rate db') = fold (expected_rate w m c) rows (map_of (nd_rate db)) \<and>
      nd_history db' = nd_history db @ hs \<and> map history_entry hs = outs \<and>
      nd_subscriptions db' = nd_subscriptions db \<and> nd_settings db' = nd_settings (notify_init_db db)"
    using dispatch_loop_spec [OF matching_rows [OF ok, of category], of w m c 0 "notify_init_db db"] unfolding rows sev_m init_tables by blast
  then obtain db' outs hs where l: "dispatch_loop w m c 0 (matching category db) (notify_init_db db) = (db', Inr outs)"
      "outs = map (expected_outcome w m c (map_of (nd_rate db))) rows"
      "map_of (nd_rate db') = fold (expected_rate w m c) rows (map_of (nd_rate db))"
      "nd_history db' = nd_history db @ hs" "map history_entry hs = outs"
      "nd_subscriptions db' = nd_subscriptions db" "nd_settings db' = nd_settings (notify_init_db db)" by (elim exE conjE) (rule that, assumption+)
  have "dispatch w category severity component summary began_at recovered link host db = (db', Inr outs)"
    unfolding dispatch_def Let_def init_cooldown c(1) using sev l(1) by (simp add: m)
  moreover have "cooldown_setting db' = Some c" using c(1) init_cooldown [of db] l(7) by (simp add: cooldown_setting_def)
  ultimately show ?thesis using c l(2-6) by blast
qed

lemma dispatch_specD:
  assumes "notify_ok db" "severity \<in> set SEVERITIES" "cooldown_setting db = Some c"
    and "dispatch w category severity component summary began_at recovered link host db = (db', Inr outs)"
    and "m = dispatch_message w category severity component summary began_at recovered link host"
    and "rows = enumerate 0 (eligible severity (matching category db))"
  shows "outs = map (expected_outcome w m c (map_of (nd_rate db))) rows"
    "map_of (nd_rate db') = fold (expected_rate w m c) rows (map_of (nd_rate db))"
    "nd_subscriptions db' = nd_subscriptions db" "cooldown_setting db' = Some c" "notify_ok db'"
proof -
  obtain d os hs c' where spec: "dispatch w category severity component summary began_at recovered link host db = (d, Inr os)"
      "cooldown_setting db = Some c'" "0 \<le> c'" "c' \<le> 1440" "os = map (expected_outcome w m c' (map_of (nd_rate db))) rows"
      "map_of (nd_rate d) = fold (expected_rate w m c') rows (map_of (nd_rate db))"
      "nd_history d = nd_history db @ hs" "map history_entry hs = os"
      "nd_subscriptions d = nd_subscriptions db" "cooldown_setting d = Some c'"
    using dispatch_spec [OF assms(1,2,5,6)] by (elim exE conjE) (rule that, assumption+)
  have "(d, Inr os) = (db', Inr outs)" using spec(1) unfolding assms(4) by simp
  then have same: "d = db'" "os = outs" by (auto)
  have c: "c' = c" using spec(2) unfolding assms(3) by simp
  show "outs = map (expected_outcome w m c (map_of (nd_rate db))) rows" using spec(5) unfolding same c .
  show "map_of (nd_rate db') = fold (expected_rate w m c) rows (map_of (nd_rate db))" using spec(6) unfolding same c .
  show "nd_subscriptions db' = nd_subscriptions db" using spec(9) unfolding same .
  show "cooldown_setting db' = Some c" using spec(10) unfolding same c .
  show "notify_ok db'" using dispatch_ok [OF assms(1), of w category severity component summary began_at recovered link host] unfolding assms(4) by simp
qed

section \<open>Recovery notices and the cooldown\<close>

lemma recovery_rate:
  assumes "nm_recovered m" "\<exists>e\<in>set rows. sb_provider (fst (snd e)) = i \<or> (\<exists>k. rate (nm_category m, i) = Some \<lparr>rs_last_sent = seconds (nw_done w k), rs_fingerprint = fingerprint w m, rs_suppressed = 0\<rparr>)"
  shows "\<exists>k. fold (expected_rate w m c) rows rate (nm_category m, i) =
    Some \<lparr>rs_last_sent = seconds (nw_done w k), rs_fingerprint = fingerprint w m, rs_suppressed = 0\<rparr>"
  using assms(2)
proof (induction rows arbitrary: rate)
  case (Cons e rows)
  obtain k s p where e: "e = (k, s, p)" by (rule prod_cases3)
  let ?done = "\<lambda>rate. \<exists>k. rate (nm_category m, i) = Some \<lparr>rs_last_sent = seconds (nw_done w k), rs_fingerprint = fingerprint w m, rs_suppressed = 0\<rparr>"
  have step: "expected_rate w m c e rate = rate((nm_category m, sb_provider s) \<mapsto>
      \<lparr>rs_last_sent = seconds (nw_done w k), rs_fingerprint = fingerprint w m, rs_suppressed = 0\<rparr>)"
    using assms(1) by (simp add: e expected_rate_def held_back_def Let_def)
  have keep: "?done rate \<or> sb_provider s = i \<Longrightarrow> ?done (expected_rate w m c e rate)" unfolding step by auto
  show ?case
  proof (cases "rows = []")
    case True
    then show ?thesis using Cons.prems keep by (auto simp: e)
  next
    case False
    then obtain e' where "e' \<in> set rows" by (cases rows) auto
    then show ?thesis using Cons.prems keep Cons.IH [of "expected_rate w m c e rate"] by (auto simp: e)
  qed
qed simp

lemma expected_provider: "oc_provider (expected_outcome w m c rate e) = sb_provider (fst (snd e))"
  by (cases e) (simp add: expected_outcome_def split: prod.split)

lemma eligible_subscriptions:
  "fst ` set (eligible severity (matching category db)) \<subseteq>
     {s \<in> set (nd_subscriptions db). sb_category s = category \<and> sb_enabled s \<and> the (severity_rank (sb_min_severity s)) \<le> the (severity_rank severity)}"
proof
  fix s assume "s \<in> fst ` set (eligible severity (matching category db))"
  then obtain p where sp: "(s, p) \<in> set (joined db)" "sb_category s = category" "sb_enabled s"
      "the (severity_rank (sb_min_severity s)) \<le> the (severity_rank severity)"
    by (auto simp: eligible_def matching_def)
  then have "s \<in> set (map fst (joined db))" by force
  then show "s \<in> {s \<in> set (nd_subscriptions db). sb_category s = category \<and> sb_enabled s \<and> the (severity_rank (sb_min_severity s)) \<le> the (severity_rank severity)}"
    using sp(2-4) unfolding joined_subscriptions by simp
qed

section \<open>Secrets\<close>

definition map_secrets :: "(string \<Rightarrow> string) \<Rightarrow> notify_db \<Rightarrow> notify_db" where
  "map_secrets f db = db\<lparr>nd_providers := map (\<lambda>p. p\<lparr>pr_secret := f (pr_secret p)\<rparr>) (nd_providers db)\<rparr>"

lemma sort_key_map: "sort_key g (map f xs) = map f (sort_key (\<lambda>x. g (f x)) xs)"
proof (rule properties_for_sort_key)
  have "filter (\<lambda>y. g (f x) = g (f y)) (sort_key (\<lambda>x. g (f x)) xs) = filter (\<lambda>y. g (f x) = g (f y)) xs" for x
    using sort_key_stable [of "\<lambda>x. g (f x)" "g (f x)" xs] by (simp add: eq_commute [of "g (f x)"])
  then show "filter (\<lambda>y. g k = g y) (map f (sort_key (\<lambda>x. g (f x)) xs)) = filter (\<lambda>y. g k = g y) (map f xs)"
    if "k \<in> set (map f (sort_key (\<lambda>x. g (f x)) xs))" for k
    using that by (auto simp: filter_map comp_def)
qed (simp_all add: comp_def)

section \<open>Theorems\<close>

text \<open>
  C24: Every sequence of operations on notification settings, providers, subscriptions and checks, with any deliveries
  between them, keeps the tables well formed: valid cooldown, complete provider configurations, one subscription
  per provider and category with known category and severity, one rate state per category and provider.
\<close>

theorem notify_invariant:
  assumes "notify_ok db" "notify_step\<^sup>*\<^sup>* db db'"
  shows "notify_ok db'"
  using assms(2,1) by (induction rule: rtranclp_induct) (auto dest: notify_step_ok)

text \<open>
  C23: A dispatch with a known severity never raises.  It handles exactly the enabled subscriptions of the category whose
  minimum severity is reached, each once and in order.  A message is held back exactly when it is no recovery
  notice, the last message delivered for that category and provider was of the same component, and the cooldown has
  not passed; otherwise it is sent.  Results, history and rate states say so.
\<close>

theorem dispatch_refines:
  assumes "notify_ok db" "severity \<in> set SEVERITIES"
    and "m = dispatch_message w category severity component summary began_at recovered link host"
    and "rows = enumerate 0 (eligible severity (matching category db))"
  shows "\<exists>db' outs hs c. dispatch w category severity component summary began_at recovered link host db = (db', Inr outs) \<and>
    cooldown_setting db = Some c \<and> 0 \<le> c \<and> c \<le> 1440 \<and>
    outs = map (expected_outcome w m c (map_of (nd_rate db))) rows \<and>
    map_of (nd_rate db') = fold (expected_rate w m c) rows (map_of (nd_rate db)) \<and>
    nd_history db' = nd_history db @ hs \<and> map history_entry hs = outs"
  using dispatch_spec [OF assms] by blast

text \<open>
  What the interface lists of the providers does not depend on their secrets, only on whether there is one.
\<close>

theorem listed_providers_hide_secrets:
  assumes "\<And>s. f s = [] \<longleftrightarrow> s = []"
  shows "list_providers (map_secrets f db) = list_providers db"
  by (simp add: list_providers_def map_secrets_def sort_key_map public_provider_def assms comp_def)


text \<open>
  C27: The text of a failed test delivery is listed as it is.  The message of \<^verbatim>\<open>raise_for_status\<close> names the requested URL, which
  for every webhook preset but pushover is the secret, so after one failed \<^verbatim>\<open>send_test\<close> to such a provider the listing shows
  its secret.
\<close>

theorem failed_delivery_shows_secret:
  assumes "row_by_id pr_id i (nd_providers db) = Some p" "pr_config p = Webhook preset" "preset \<noteq> ''pushover''"
    and "\<And>url body headers. nw_deliver w (Post_json url body headers) = Inl (status_text url)"
    and "\<And>url body headers. nw_deliver w (Post_text url body headers) = Inl (status_text url)"
    and "\<And>url. contains (status_text url) url"
  shows "\<exists>db' r. send_test w i db = Inr (db', r) \<and> list_ex (\<lambda>v. pv_id v = i \<and> contains (pv_last_failure_error v) (pr_secret p)) (list_providers db')"
proof -
  define m where "m = \<lparr>nm_category = ''test'', nm_severity = ''info'', nm_host = ''this appliance'', nm_component = ''Notifications'',
     nm_summary = ''Test notification from Alderpoint DNS'', nm_began_at = nw_iso w (seconds (nw_started w)), nm_recovered = False, nm_admin_link = []\<rparr>"
  have r: "send_provider w p m = Inl (status_text (pr_secret p))"
    using assms(2-5) by (simp add: send_provider_def then_ok_def send_webhook_def split: sum.split)
  let ?f = "\<lambda>q. q\<lparr>pr_last_failure_at := Some (seconds (nw_done w 0)), pr_last_failure_error := status_text (pr_secret p),
     pr_last_test_at := Some (seconds (nw_done w 0)), pr_last_test_ok := Some False\<rparr>"
  obtain db' where d: "send_test w i db = Inr (db', Inl (status_text (pr_secret p)))"
      "nd_providers db' = update_where (\<lambda>q. pr_id q = i) (\<lambda>q. q\<lparr>pr_last_test_at := Some (seconds (nw_done w 0)), pr_last_test_ok := Some (\<not> isl (Inl (status_text (pr_secret p)) :: unit result))\<rparr>)
         (note_failure (seconds (nw_done w 0)) i (Inl (status_text (pr_secret p))) (nd_providers db))"
    using r assms(1) unfolding send_test_def init_tables m_def [symmetric] Let_def by simp
  have "p \<in> set (nd_providers db)" "pr_id p = i" using row_by_id_Some [OF assms(1)] by auto
  then have "?f p \<in> set (nd_providers db')" unfolding d(2) note_failure_def error_of_def by (force simp: update_where_def)
  then have "public_provider (?f p) \<in> set (list_providers db')" by (simp add: list_providers_def)
  moreover have "pv_id (public_provider (?f p)) = i" "pv_last_failure_error (public_provider (?f p)) = status_text (pr_secret p)"
    using \<open>pr_id p = i\<close> by (simp_all add: public_provider_def)
  ultimately show ?thesis using d(1) assms(6) unfolding list_ex_iff by metis
qed

text \<open>
  A recovery notice starts the cooldown of its component: a failure that follows within the cooldown is held
  back for every provider that got the recovery notice, which therefore is the last thing it hears.
\<close>

theorem failure_after_recovery_held_back:
  assumes "notify_ok db" "severity \<in> set SEVERITIES" "cooldown_setting db = Some c" "\<forall>s\<in>set (nd_subscriptions db). sb_cooldown s = None"
    and "dispatch w category severity component summary None True link host db = (db1, Inr outs1)"
    and "dispatch w' category severity component summary' None False link host db1 = (db2, Inr outs2)"
    and "nw_sha w' = nw_sha w" "\<forall>j k. nw_clock w' k < seconds (nw_done w j) * 1000000 + c * 60 * 1000000"
  shows "list_all (\<lambda>o2. oc_status o2 = Suppressed) (filter (\<lambda>o2. oc_provider o2 \<in> oc_provider ` set outs1) outs2)"
proof -
  define m where "m = dispatch_message w category severity component summary None True link host"
  define m' where "m' = dispatch_message w' category severity component summary' None False link host"
  define rows where "rows = enumerate 0 (eligible severity (matching category db))"
  define rows' where "rows' = enumerate 0 (eligible severity (matching category db1))"
  note one = dispatch_specD [OF assms(1-3,5) m_def rows_def]
  note two = dispatch_specD(1) [OF one(5) assms(2) one(4) assms(6) m'_def rows'_def]
  have fp: "fingerprint w' m' = fingerprint w m" "nm_category m = category" "nm_category m' = category" "nm_recovered m" "\<not> nm_recovered m'"
    using assms(7) by (simp_all add: m_def m'_def fingerprint_def dispatch_message_def Let_def)
  have "oc_status o2 = Suppressed" if o2: "o2 \<in> set outs2" "oc_provider o2 \<in> oc_provider ` set outs1" for o2
  proof -
    obtain e where e: "e \<in> set rows'" "o2 = expected_outcome w' m' c (map_of (nd_rate db1)) e"
      using o2(1) unfolding two set_map by (rule imageE)
    define i where "i = sb_provider (fst (snd e))"
    have "oc_provider o2 = i" unfolding e(2) i_def by (rule expected_provider)
    then have "\<exists>e\<in>set rows. sb_provider (fst (snd e)) = i"
      using o2(2) unfolding one(1) set_map image_image expected_provider by (metis (no_types, lifting) imageE)
    then have "\<exists>k. fold (expected_rate w m c) rows (map_of (nd_rate db)) (nm_category m, i) =
        Some \<lparr>rs_last_sent = seconds (nw_done w k), rs_fingerprint = fingerprint w m, rs_suppressed = 0\<rparr>"
      by (intro recovery_rate [of m rows i "map_of (nd_rate db)" w c] fp(4)) blast
    then obtain j where j: "map_of (nd_rate db1) (category, i) =
        Some \<lparr>rs_last_sent = seconds (nw_done w j), rs_fingerprint = fingerprint w m, rs_suppressed = 0\<rparr>"
      unfolding one(2) fp(2) by (rule exE)
    have t: "nw_clock w' (fst e) < seconds (nw_done w j) * 1000000 + c * 60 * 1000000" using assms(8) by blast
    have "snd e \<in> snd ` set rows'" using e(1) by (rule imageI)
    then have "snd e \<in> set (eligible severity (matching category db1))" unfolding set_map [symmetric] rows'_def map_snd_enumerate .
    then have "fst (snd e) \<in> set (nd_subscriptions db1)" using eligible_subscriptions [of severity category db1] by blast
    then have "cooldown_of c (fst (snd e)) = c" using assms(4) unfolding one(3) by (simp add: cooldown_of_def)
    then have "held_back w' m' (cooldown_of c (fst (snd e))) (fst e) (map_of (nd_rate db1) (category, i))"
      unfolding j held_back_def using t fp(1,5) by simp
    then show ?thesis unfolding e(2) i_def by (cases e) (simp add: expected_outcome_def fp(3))
  qed
  then show ?thesis unfolding list_all_iff by simp
qed

section \<open>Witnesses\<close>

definition example_provider :: provider where
  "example_provider =
     \<lparr>pr_id = 1, pr_name = ''ops'', pr_enabled = True, pr_config = Webhook ''slack'', pr_secret = ''https://x/t'',
      pr_last_test_at = None, pr_last_test_ok = None, pr_last_failure_at = None, pr_last_failure_error = [],
      pr_created_at = 0, pr_updated_at = 0\<rparr>"

definition example_notify :: notify_db where
  "example_notify =
     \<lparr>nd_settings = [(''cooldown_minutes'', ''30'')], nd_providers = [example_provider],
      nd_subscriptions = [\<lparr>sb_id = 1, sb_provider = 1, sb_category = ''deploy_failure'', sb_min_severity = ''warning'', sb_enabled = True, sb_cooldown = None\<rparr>],
      nd_rate = [], nd_history = [], nd_checks = []\<rparr>"

definition example_notify_world :: notify_world where
  "example_notify_world =
     \<lparr>nw_started = 0, nw_clock = (\<lambda>_. 0), nw_done = (\<lambda>_. 0), nw_iso = (\<lambda>_. ''t''), nw_sha = (\<lambda>s. s), nw_deliver = (\<lambda>_. Inr ())\<rparr>"

lemma example_notify_ok: "notify_ok example_notify"
proof -
  have "cooldown_setting example_notify = Some 30" by code_simp
  then have "cooldown_ok example_notify" by (simp add: cooldown_ok_def)
  moreover have "rowids_ok pr_id (nd_providers example_notify)" "rowids_ok sb_id (nd_subscriptions example_notify)"
    "rowids_ok hs_id (nd_history example_notify)" by (simp_all add: example_notify_def rowids_ok_def)
  moreover have "list_all provider_ok (nd_providers example_notify)" by code_simp
  moreover have "list_all subscription_ok (nd_subscriptions example_notify)" by code_simp
  ultimately show ?thesis by (simp add: notify_ok_def example_notify_def list_all_iff)
qed

theorem notify_invariant_witness: "notify_ok (toggle_provider 5 1 example_notify)"
  by (rule notify_invariant [OF example_notify_ok]) (rule r_into_rtranclp, rule ns_toggle)

theorem dispatch_refines_witness:
  "\<exists>db' outs. dispatch example_notify_world ''deploy_failure'' ''critical'' ''Deploy'' ''failed'' None False [] ''h'' example_notify = (db', Inr outs) \<and>
     outs = [\<lparr>oc_provider = 1, oc_name = ''ops'', oc_status = Sent, oc_error = []\<rparr>]"
proof -
  let ?m = "dispatch_message example_notify_world ''deploy_failure'' ''critical'' ''Deploy'' ''failed'' None False [] ''h''"
  let ?rows = "enumerate 0 (eligible ''critical'' (matching ''deploy_failure'' example_notify))"
  have sev: "''critical'' \<in> set SEVERITIES" by code_simp
  have "map_of (nd_rate example_notify) = Map.empty" by (simp add: example_notify_def)
  moreover have "map (expected_outcome example_notify_world ?m c Map.empty) ?rows = [\<lparr>oc_provider = 1, oc_name = ''ops'', oc_status = Sent, oc_error = []\<rparr>]" for c
  proof -
    have rows: "?rows = [(0, hd (nd_subscriptions example_notify), example_provider)]" by code_simp
    have "send_provider example_notify_world example_provider ?m = Inr ()" by code_simp
    then show ?thesis unfolding rows
      by (simp add: expected_outcome_def held_back_def delivery_status_def error_of_def) (simp add: example_notify_def example_provider_def)
  qed
  ultimately show ?thesis using dispatch_refines [OF example_notify_ok sev refl refl, of example_notify_world "''deploy_failure''" "''Deploy''" "''failed''" None False "[]" "''h''"]
    by metis
qed

theorem listed_providers_hide_secrets_witness:
  "list_providers (map_secrets (\<lambda>s. if s = [] then [] else ''hidden'') example_notify) = list_providers example_notify"
  by (rule listed_providers_hide_secrets) simp

definition refusing_world :: notify_world where
  "refusing_world = example_notify_world\<lparr>nw_deliver := (\<lambda>r. case r of Post_json u _ _ \<Rightarrow> Inl (''404 for url '' @ u) | Post_text u _ _ \<Rightarrow> Inl (''404 for url '' @ u) | _ \<Rightarrow> Inr ())\<rparr>"

theorem failed_delivery_shows_secret_witness:
  "\<exists>db' r. send_test refusing_world 1 example_notify = Inr (db', r) \<and>
     list_ex (\<lambda>v. pv_id v = 1 \<and> contains (pv_last_failure_error v) ''https://x/t'') (list_providers db')"
proof -
  have row: "row_by_id pr_id 1 (nd_providers example_notify) = Some example_provider" by code_simp
  have c: "pr_config example_provider = Webhook ''slack''" "''slack'' \<noteq> ''pushover''" by (simp_all add: example_provider_def)
  have sec: "pr_secret example_provider = ''https://x/t''" by (simp add: example_provider_def)
  have deliver: "nw_deliver refusing_world (Post_json u b h) = Inl (''404 for url '' @ u)" "nw_deliver refusing_world (Post_text u t h) = Inl (''404 for url '' @ u)" for u b h t
    by (simp_all add: refusing_world_def)
  have "contains (''404 for url '' @ u) u" for u unfolding contains_iff_sublist by (metis append_Nil2 sublist_appendI)
  from failed_delivery_shows_secret [OF row c deliver this] show ?thesis unfolding sec .
qed

theorem failure_after_recovery_held_back_witness:
  "\<exists>db1 outs1 db2 outs2.
     dispatch example_notify_world ''deploy_failure'' ''critical'' ''Deploy'' ''good'' None True [] ''h'' example_notify = (db1, Inr outs1) \<and>
     dispatch example_notify_world ''deploy_failure'' ''critical'' ''Deploy'' ''bad'' None False [] ''h'' db1 = (db2, Inr outs2) \<and>
     list_all (\<lambda>o2. oc_status o2 = Suppressed) (filter (\<lambda>o2. oc_provider o2 \<in> oc_provider ` set outs1) outs2)"
proof -
  let ?w = example_notify_world
  have sev: "''critical'' \<in> set SEVERITIES" by code_simp
  obtain db1 outs1 where one: "dispatch ?w ''deploy_failure'' ''critical'' ''Deploy'' ''good'' None True [] ''h'' example_notify = (db1, Inr outs1)"
    using dispatch_spec [OF example_notify_ok sev refl refl] by blast
  then have ok: "notify_ok db1"
    using dispatch_ok [OF example_notify_ok, of ?w "''deploy_failure''" "''critical''" "''Deploy''" "''good''" None True "[]" "''h''"] by simp
  obtain db2 outs2 where two: "dispatch ?w ''deploy_failure'' ''critical'' ''Deploy'' ''bad'' None False [] ''h'' db1 = (db2, Inr outs2)"
    using dispatch_spec [OF ok sev refl refl] by blast
  have c: "cooldown_setting example_notify = Some 30" by code_simp
  have subs: "\<forall>s\<in>set (nd_subscriptions example_notify). sb_cooldown s = None" by (simp add: example_notify_def)
  have clock: "\<forall>j k. nw_clock ?w k < seconds (nw_done ?w j) * 1000000 + 30 * 60 * 1000000" by (simp add: example_notify_world_def seconds_def)
  from failure_after_recovery_held_back [OF example_notify_ok sev c subs one two refl clock] one two show ?thesis by blast
qed

end
