(* ===== verification/Notify_Check.thy ===== *)
theory Notify_Check
  imports Notifications Source_Lists
begin

text \<open>
  The periodic checks behind the notifications (\<^verbatim>\<open>app/notify_check.py\<close>).  Every check reads something (services,
  tables of other modules; arguments here, each of which may raise) and reports a transition between good and
  bad once.  Shown: over any sequence of observations the notification history grows by the notices of the transitions,
  each to the subscribed providers, and with well-formed tables no check fails by itself.
\<close>

section \<open>Transitions\<close>

definition fire_edge :: "notify_world \<Rightarrow> string \<Rightarrow> string \<Rightarrow> bool \<Rightarrow> string \<Rightarrow> string \<Rightarrow> string \<Rightarrow> notify_db \<Rightarrow> notify_db \<times> unit result" where
  "fire_edge w category component bad summary_bad summary_ok severity db =
     (let previous = get_check_state category component db; host = ''this appliance'' in
      if bad then
        (case (if previous \<noteq> Some ''bad'' then dispatch w category severity component summary_bad None False [] host db else (db, Inr [])) of
           (db, Inl e) \<Rightarrow> (db, Inl e)
         | (db, Inr _) \<Rightarrow> (set_check_state category component ''bad'' db, Inr ()))
      else
        (case (if previous = Some ''bad'' then dispatch w category severity component summary_ok None True [] host db else (db, Inr [])) of
           (db, Inl e) \<Rightarrow> (db, Inl e)
         | (db, Inr _) \<Rightarrow> (set_check_state category component ''ok'' db, Inr ())))"

section \<open>The checks\<close>

record writer_state =
  wr_status :: string
  wr_stale :: bool
  wr_detail :: string

text \<open>
  \<open>ci_systemctl\<close>: exit code and stripped output (or code 1 and the error text); the latest rows of the deployment
  and backup tables as status and message; \<open>ci_health\<close>: the latest health of each resolver.
\<close>

record check_inputs =
  ci_systemctl :: "string list \<Rightarrow> int \<times> string"
  ci_writer :: "writer_state result"
  ci_deployment :: "(string \<times> string) option result"
  ci_sources :: "source_row list result"
  ci_backup :: "(string \<times> string) option result"
  ci_resolvers :: "resolver list result"
  ci_health :: "(nat \<times> string) list result"
  ci_replication :: "(string \<times> string) list result"
  ci_world :: "string \<Rightarrow> string \<Rightarrow> notify_world"

type_synonym check = "check_inputs \<Rightarrow> notify_db \<Rightarrow> notify_db \<times> unit result"

definition edge_check :: "check_inputs \<Rightarrow> string \<Rightarrow> string \<Rightarrow> bool \<Rightarrow> string \<Rightarrow> string \<Rightarrow> string \<Rightarrow> notify_db \<Rightarrow> notify_db \<times> unit result" where
  "edge_check ci category component bad summary_bad summary_ok severity db =
     fire_edge (ci_world ci category component) category component bad summary_bad summary_ok severity db"

text \<open>A loop of checks; the first exception leaves it.\<close>

fun each :: "('a \<Rightarrow> notify_db \<Rightarrow> notify_db \<times> unit result) \<Rightarrow> 'a list \<Rightarrow> notify_db \<Rightarrow> notify_db \<times> unit result" where
  "each f [] db = (db, Inr ())"
| "each f (x # xs) db = (case f x db of (db, Inl e) \<Rightarrow> (db, Inl e) | (db, Inr _) \<Rightarrow> each f xs db)"

definition SERVICE_UNITS :: "(string \<times> string) list" where
  "SERVICE_UNITS =
     [(''named'', ''BIND (named)''), (''dnsdist'', ''dnsdist''), (''alderpointdns'', ''Alderpoint DNS web''),
      (''alderpointdns-analytics'', ''Analytics collector'')]"

definition service_state :: "check_inputs \<Rightarrow> string \<Rightarrow> string" where
  "service_state ci unit_name =
     (case ci_systemctl ci [''is-active'', unit_name] of (code, out) \<Rightarrow> if code = 0 then out else ''inactive'')"

definition check_service_availability :: check where
  "check_service_availability ci =
     each (\<lambda>(unit_name, label).
       let state = service_state ci unit_name in
       edge_check ci ''service_unavailable'' label (state \<noteq> ''active'')
         (label @ '' is not active (systemd state: '' @ state @ '')'') (label @ '' is active again'') ''critical'') SERVICE_UNITS"

definition check_analytics_writer :: check where
  "check_analytics_writer ci db =
     (if service_state ci ''alderpointdns-analytics'' \<noteq> ''active'' then (db, Inr ())
      else case ci_writer ci of
        Inl e \<Rightarrow> (db, Inl e)
      | Inr h \<Rightarrow>
          if wr_status h = ''unknown'' then (db, Inr ())
          else edge_check ci ''service_unavailable'' ''Analytics collector (writer thread)'' (wr_stale h \<or> wr_status h = ''dead'')
            (''Analytics service is active but its writer thread is unresponsive: '' @ or_text (wr_detail h) (''status='' @ wr_status h))
            ''Analytics writer thread is responsive again'' ''critical'' db)"

definition REPEATED_RESTART_THRESHOLD :: int where "REPEATED_RESTART_THRESHOLD = 3"

definition previous_restarts :: "string option \<Rightarrow> int result" where
  "previous_restarts raw =
     (case raw of
        None \<Rightarrow> Inr 0
      | Some s \<Rightarrow> if s \<noteq> [] \<and> list_all py_isdigit s
          then (case int_of_str s of None \<Rightarrow> Inl (int_error (PyStr s)) | Some n \<Rightarrow> Inr n) else Inr 0)"

definition check_restarts :: "check_inputs \<Rightarrow> string \<times> string \<Rightarrow> notify_db \<Rightarrow> notify_db \<times> unit result" where
  "check_restarts ci ul db =
     (case ul of (unit_name, label) \<Rightarrow>
      let category = ''service_repeated_restart'' in
      case ci_systemctl ci [''show'', unit_name, ''--property=NRestarts'', ''--value''] of (code, out) \<Rightarrow>
        if code \<noteq> 0 then (db, Inr ())
        else case int_of_str out of
          None \<Rightarrow> (db, Inr ())
        | Some restarts \<Rightarrow>
            (case previous_restarts (get_check_state category label db) of
               Inl e \<Rightarrow> (db, Inl e)
             | Inr previous \<Rightarrow>
                 (case (if restarts > previous \<and> restarts \<ge> REPEATED_RESTART_THRESHOLD
                        then map_prod id (map_sum id (\<lambda>_. ())) (dispatch (ci_world ci category label) category ''warning'' label
                               (label @ '' has restarted '' @ str_int restarts @ '' times since boot'') None False [] ''this appliance'' db)
                        else (db, Inr ())) of
                    (db, Inl e) \<Rightarrow> (db, Inl e)
                  | (db, Inr _) \<Rightarrow> (set_check_state category label (str_int restarts) db, Inr ()))))"

definition check_repeated_restarts :: check where
  "check_repeated_restarts ci = each (check_restarts ci) SERVICE_UNITS"

definition latest_row :: "string \<Rightarrow> string \<Rightarrow> string \<Rightarrow> string \<Rightarrow> string \<Rightarrow> (string \<times> string) option result \<Rightarrow> check" where
  "latest_row category component lead summary_ok severity row ci db =
     (case row of
        Inl e \<Rightarrow> (db, Inl e)
      | Inr None \<Rightarrow> (db, Inr ())
      | Inr (Some (status, message)) \<Rightarrow>
          edge_check ci category component (status \<noteq> ''deployed'') (lead @ py_repr status @ '': '' @ take 200 message) summary_ok severity db)"

definition check_deploy_and_blocklist :: check where
  "check_deploy_and_blocklist ci =
     latest_row ''deploy_failure'' ''Blocklist/configuration deploy'' ''Latest deployment ended with status ''
       ''Deployment succeeded again'' ''critical'' (ci_deployment ci) ci"

definition HEALTH_LABELS :: "health \<Rightarrow> string" where
  "HEALTH_LABELS h =
     (case h of Source_Lists.Healthy \<Rightarrow> ''Healthy'' | HealthyRedundant \<Rightarrow> ''Healthy, redundant'' | HealthWarning \<Rightarrow> ''Warning''
      | UnsupportedFormat \<Rightarrow> ''Unsupported format'' | HealthError \<Rightarrow> ''Error'' | UsingCached \<Rightarrow> ''Using cached copy''
      | Pending \<Rightarrow> ''Pending'' | HealthDisabled \<Rightarrow> ''Disabled'')"

definition check_source :: "check_inputs \<Rightarrow> source_row \<Rightarrow> notify_db \<Rightarrow> notify_db \<times> unit result" where
  "check_source ci s =
     (let health = source_health s;
          reason = or_text (case last_error s of None \<Rightarrow> [] | Some e \<Rightarrow> e) (or_text (last_warning s) (HEALTH_LABELS health));
          detail = (if health = UsingCached then reason @ ''. Previous compiled copy remains active.'' else reason)
      in edge_check ci ''blocklist_update_failure'' (src_name s) (health \<in> {HealthError, UsingCached, UnsupportedFormat})
           detail ''Source updates and parses cleanly again'' ''warning'')"

definition check_blocklist_sources :: check where
  "check_blocklist_sources ci db =
     (case ci_sources ci of Inl e \<Rightarrow> (db, Inl e) | Inr rows \<Rightarrow> each (check_source ci) rows db)"

definition check_backup :: check where
  "check_backup ci =
     latest_row ''backup_failure'' ''Backup'' ''Latest backup ended with status '' ''Backup succeeded again'' ''warning'' (ci_backup ci) ci"

definition check_upstream_resolvers :: check where
  "check_upstream_resolvers ci db =
     (case ci_resolvers ci of
        Inl e \<Rightarrow> (db, Inl e)
      | Inr rows \<Rightarrow>
          if rows = [] then (db, Inr ())
          else case ci_health ci of
            Inl e \<Rightarrow> (db, Inl e)
          | Inr health \<Rightarrow>
              let down = filter (\<lambda>r. dict_get health (ur_id r) ''unknown'' \<notin> {''up'', ''unknown''}) rows;
                  all_down = (length down = length rows)
              in case edge_check ci ''resolver_all_unavailable'' ''Upstream resolvers'' all_down ''All upstream resolvers are unavailable''
                        ''Upstream resolvers are reachable again'' ''critical'' db of
                   (db, Inl e) \<Rightarrow> (db, Inl e)
                 | (db, Inr _) \<Rightarrow>
                     edge_check ci ''resolver_degraded'' ''Upstream resolvers'' (down \<noteq> [] \<and> \<not> all_down)
                       (str_nat (length down) @ '' of '' @ str_nat (length rows) @ '' upstream resolver(s) degraded: '' @ join '', '' (map ur_name down))
                       ''Upstream resolvers recovered'' ''warning'' db)"

definition HEALTHY_SYNC_STATUSES :: "string list" where
  "HEALTHY_SYNC_STATUSES = [[], ''success'', ''up_to_date'', ''skipped'', ''no_generation'']"

definition check_replication :: check where
  "check_replication ci db =
     (case ci_replication ci of
        Inl e \<Rightarrow> (db, Inl e)
      | Inr cfg \<Rightarrow>
          if map_of cfg ''role'' \<noteq> Some ''replica'' then (db, Inr ())
          else
            let status = dict_get cfg ''last_sync_status'' []; drifted = (map_of cfg ''drift_detected'' = Some ''1'');
                sick = (status \<notin> set HEALTHY_SYNC_STATUSES)
            in edge_check ci ''replication_delayed'' ''Replication'' (sick \<or> drifted)
                 (''Replication is unhealthy: sync status '' @ py_repr status @ (if drifted then '' with drift detected'' else []))
                 ''Replication is healthy again'' (if sick then ''critical'' else ''warning'') db)"

definition CHECKS :: "(string \<times> check) list" where
  "CHECKS =
     [(''check_service_availability'', check_service_availability), (''check_analytics_writer'', check_analytics_writer),
      (''check_repeated_restarts'', check_repeated_restarts), (''check_deploy_and_blocklist'', check_deploy_and_blocklist),
      (''check_blocklist_sources'', check_blocklist_sources), (''check_backup'', check_backup),
      (''check_upstream_resolvers'', check_upstream_resolvers), (''check_replication'', check_replication)]"

text \<open>Every check runs; one that raises adds a line.\<close>

definition run_check :: "check_inputs \<Rightarrow> string \<times> check \<Rightarrow> notify_db \<times> string list \<Rightarrow> notify_db \<times> string list" where
  "run_check ci c st =
     (case snd c ci (fst st) of
        (db, Inl e) \<Rightarrow> (db, snd st @ [fst c @ '': '' @ e])
      | (db, Inr _) \<Rightarrow> (db, snd st))"

definition run_all_checks :: "check_inputs \<Rightarrow> notify_db \<Rightarrow> notify_db \<times> string list" where
  "run_all_checks ci db = fold (run_check ci) CHECKS (db, [])"

definition notify_main :: "check_inputs \<Rightarrow> notify_db \<Rightarrow> notify_db \<times> int \<times> string list" where
  "notify_main ci db =
     (case run_all_checks ci db of (db, errors) \<Rightarrow> (db, if errors \<noteq> [] then 1 else 0, map (\<lambda>e. ''notify-check: '' @ e) errors))"

section \<open>Notices at transitions\<close>

text \<open>Observations of one condition, each with the world in which a notice would be sent.\<close>

fun observe :: "string \<Rightarrow> string \<Rightarrow> string \<Rightarrow> string \<Rightarrow> string \<Rightarrow> (notify_world \<times> bool) list \<Rightarrow> notify_db \<Rightarrow> notify_db \<times> unit result" where
  "observe category component summary_bad summary_ok severity [] db = (db, Inr ())"
| "observe category component summary_bad summary_ok severity ((w, bad) # rest) db =
     (case fire_edge w category component bad summary_bad summary_ok severity db of
        (db, Inl e) \<Rightarrow> (db, Inl e)
      | (db, Inr _) \<Rightarrow> observe category component summary_bad summary_ok severity rest db)"

fun transitions :: "bool \<Rightarrow> bool list \<Rightarrow> bool list" where
  "transitions prev [] = []"
| "transitions prev (b # bs) = (if b \<noteq> prev then b # transitions b bs else transitions b bs)"

lemma get_after_set: "get_check_state c k (set_check_state c k v db) = Some v"
  by (simp add: get_check_state_def set_check_state_def Let_def update_conv')

lemma set_check_ok: "notify_ok db \<Longrightarrow> notify_ok (set_check_state c k v db)"
  by (rule notify_step_ok [OF notify_step.ns_check])

lemma dispatch_returns:
  assumes "notify_ok db" "severity \<in> set SEVERITIES"
  shows "\<exists>db' outs. dispatch w category severity component summary began_at recovered link host db = (db', Inr outs) \<and> notify_ok db'"
proof -
  obtain db' outs where d: "dispatch w category severity component summary began_at recovered link host db = (db', Inr outs)"
    using dispatch_spec [OF assms refl refl] by blast
  moreover have "notify_ok db'" using dispatch_ok [OF assms(1), of w category severity component summary began_at recovered link host] d by simp
  ultimately show ?thesis by blast
qed

text \<open>What a row of the notification history says was sent to whom, and who is to be told.\<close>

type_synonym notice = "nat \<times> string \<times> string \<times> string \<times> string \<times> bool"

definition notice_row :: "history_row \<Rightarrow> notice" where
  "notice_row h = (hs_provider h, hs_category h, hs_severity h, hs_component h, hs_message h, hs_recovered h)"

definition audience :: "string \<Rightarrow> string \<Rightarrow> notify_db \<Rightarrow> nat list" where
  "audience category severity db = map (\<lambda>sp. sb_provider (fst sp)) (eligible severity (matching category db))"

definition notices_for :: "string \<Rightarrow> string \<Rightarrow> string \<Rightarrow> string \<Rightarrow> bool \<Rightarrow> nat list \<Rightarrow> notice list" where
  "notices_for category severity component summary recovered is = map (\<lambda>i. (i, category, severity, component, summary, recovered)) is"

definition provider_view :: "notify_db \<Rightarrow> (nat \<times> bool) list" where
  "provider_view db = map (\<lambda>p. (pr_id p, pr_enabled p)) (nd_providers db)"

lemma note_failure_view: "map (\<lambda>p. (pr_id p, pr_enabled p)) (note_failure ts i r t) = map (\<lambda>p. (pr_id p, pr_enabled p)) t"
  by (auto simp: note_failure_def update_where_def)

lemma view_lookup: "map_of (provider_view db) i = map_option pr_enabled (row_by_id pr_id i (nd_providers db))"
proof -
  have "map_of (map (\<lambda>p. (pr_id p, pr_enabled p)) t) i = map_option pr_enabled (row_by_id pr_id i t)" for t
    by (induction t) (auto simp: row_by_id_def)
  then show ?thesis by (simp add: provider_view_def)
qed

lemma audience_alt:
  "audience category severity db =
     map sb_provider (filter (\<lambda>s. map_of (provider_view db) (sb_provider s) = Some True \<and> sb_category s = category \<and> sb_enabled s \<and>
       the (severity_rank (sb_min_severity s)) \<le> the (severity_rank severity)) (nd_subscriptions db))"
proof -
  have "map (\<lambda>sp. sb_provider (fst sp)) (eligible severity (filter (\<lambda>(s, p). sb_category s = category \<and> sb_enabled s \<and> pr_enabled p)
      (concat (map (\<lambda>s. case row_by_id pr_id (sb_provider s) (nd_providers db) of None \<Rightarrow> [] | Some p \<Rightarrow> [(s, p)]) t)))) =
    map sb_provider (filter (\<lambda>s. map_of (provider_view db) (sb_provider s) = Some True \<and> sb_category s = category \<and> sb_enabled s \<and>
       the (severity_rank (sb_min_severity s)) \<le> the (severity_rank severity)) t)" for t
    unfolding view_lookup eligible_def by (induction t) (auto split: option.split)
  then show ?thesis by (simp add: audience_def matching_def joined_def)
qed

lemma audience_cong:
  "provider_view db' = provider_view db \<Longrightarrow> nd_subscriptions db' = nd_subscriptions db \<Longrightarrow> audience category severity db' = audience category severity db"
  by (simp add: audience_alt)

lemma dispatch_one_notice:
  assumes "dispatch_one w m c k (s, p) db = (db', out)"
  shows "\<exists>h. nd_history db' = nd_history db @ [h] \<and>
      notice_row h = (sb_provider s, nm_category m, nm_severity m, nm_component m, nm_summary m, nm_recovered m)"
    and "provider_view db' = provider_view db" "nd_subscriptions db' = nd_subscriptions db"
proof -
  let ?held = "held_back w m (cooldown_of c s) k (map_of (nd_rate db) (nm_category m, sb_provider s))"
  note defs = dispatch_one_def Let_def prod.case
  show "\<exists>h. nd_history db' = nd_history db @ [h] \<and>
      notice_row h = (sb_provider s, nm_category m, nm_severity m, nm_component m, nm_summary m, nm_recovered m)"
    using assms unfolding defs by (cases ?held) (auto simp: add_history_def insert_row_def notice_row_def)
  show "provider_view db' = provider_view db" "nd_subscriptions db' = nd_subscriptions db"
    using assms unfolding defs by (cases ?held; auto simp: provider_view_def note_failure_view)+
qed

lemma dispatch_loop_notices:
  assumes "dispatch_loop w m c k rows db = (db', Inr outs)" "\<forall>sp\<in>set rows. severity_rank (sb_min_severity (fst sp)) \<noteq> None"
  shows "(\<exists>hs. nd_history db' = nd_history db @ hs \<and>
      map notice_row hs = notices_for (nm_category m) (nm_severity m) (nm_component m) (nm_summary m) (nm_recovered m)
        (map (\<lambda>sp. sb_provider (fst sp)) (eligible (nm_severity m) rows))) \<and>
    provider_view db' = provider_view db \<and> nd_subscriptions db' = nd_subscriptions db"
  using assms
proof (induction rows arbitrary: k db outs)
  case Nil
  then show ?case by (simp add: eligible_def notices_for_def)
next
  case (Cons sp rows)
  obtain s p where sp: "sp = (s, p)" by (cases sp)
  obtain least where least: "severity_rank (sb_min_severity s) = Some least" using Cons.prems(2) by (auto simp: sp)
  have ranks: "\<forall>sp\<in>set rows. severity_rank (sb_min_severity (fst sp)) \<noteq> None" using Cons.prems(2) by simp
  show ?case
  proof (cases "the (severity_rank (nm_severity m)) < least")
    case True
    then have "dispatch_loop w m c k rows db = (db', Inr outs)" "eligible (nm_severity m) (sp # rows) = eligible (nm_severity m) rows"
      using Cons.prems(1) by (simp_all add: sp least eligible_def)
    then show ?thesis using Cons.IH [OF _ ranks] by simp
  next
    case False
    obtain db1 out where one: "dispatch_one w m c k (s, p) db = (db1, out)" by (cases "dispatch_one w m c k (s, p) db")
    note n = dispatch_one_notice [OF one]
    obtain h where h: "nd_history db1 = nd_history db @ [h]"
      "notice_row h = (sb_provider s, nm_category m, nm_severity m, nm_component m, nm_summary m, nm_recovered m)" using n(1) by blast
    obtain d r where rest: "dispatch_loop w m c (Suc k) rows db1 = (d, r)" by (cases "dispatch_loop w m c (Suc k) rows db1")
    then obtain os where os: "d = db'" "r = Inr os" using Cons.prems(1) False one by (cases r) (auto simp: sp least)
    from Cons.IH [OF rest [unfolded os] ranks] obtain hs where hs: "nd_history db' = nd_history db1 @ hs"
      "map notice_row hs = notices_for (nm_category m) (nm_severity m) (nm_component m) (nm_summary m) (nm_recovered m)
        (map (\<lambda>sp. sb_provider (fst sp)) (eligible (nm_severity m) rows))"
      "provider_view db' = provider_view db1" "nd_subscriptions db' = nd_subscriptions db1" by blast
    have "eligible (nm_severity m) (sp # rows) = sp # eligible (nm_severity m) rows" using False by (simp add: eligible_def sp least)
    then show ?thesis using h hs n(2,3) by (auto simp: sp notices_for_def intro!: exI [of _ "h # hs"])
  qed
qed

text \<open>A dispatch tells every provider of the audience what it is given, in order, and records nothing else.\<close>

lemma dispatch_notices:
  assumes "notify_ok db" "severity \<in> set SEVERITIES"
  shows "\<exists>db' outs hs. dispatch w category severity component summary None recovered [] host db = (db', Inr outs) \<and> notify_ok db' \<and>
    nd_history db' = nd_history db @ hs \<and>
    map notice_row hs = notices_for category severity component summary recovered (audience category severity db) \<and>
    audience category severity db' = audience category severity db"
proof -
  define m where "m = dispatch_message w category severity component summary None recovered [] host"
  have m: "nm_category m = category" "nm_severity m = severity" "nm_component m = component" "nm_summary m = summary" "nm_recovered m = recovered"
    by (simp_all add: m_def dispatch_message_def Let_def)
  obtain db' outs where d: "dispatch w category severity component summary None recovered [] host db = (db', Inr outs)" "notify_ok db'"
    using dispatch_returns [OF assms] by blast
  then obtain c where l: "dispatch_loop w m c 0 (matching category db) (notify_init_db db) = (db', Inr outs)"
    unfolding dispatch_def Let_def m_def [symmetric] using assms(2) by (auto split: option.splits prod.splits sum.splits)
  from dispatch_loop_notices [OF l matching_rows(2) [OF assms(1)]] obtain hs where
    "nd_history db' = nd_history (notify_init_db db) @ hs"
    "map notice_row hs = notices_for category severity component summary recovered (audience category severity db)"
    "provider_view db' = provider_view (notify_init_db db)" "nd_subscriptions db' = nd_subscriptions (notify_init_db db)"
    unfolding m audience_def by blast
  moreover from this have "audience category severity db' = audience category severity db"
    by (intro audience_cong) (simp_all add: provider_view_def init_tables)
  ultimately show ?thesis using d by (auto simp: init_tables)
qed

lemma fire_edge_result:
  assumes "notify_ok db" "severity \<in> set SEVERITIES"
  shows "\<exists>db' hs. fire_edge w category component bad summary_bad summary_ok severity db = (db', Inr ()) \<and> notify_ok db' \<and>
    get_check_state category component db' = Some (if bad then ''bad'' else ''ok'') \<and>
    audience category severity db' = audience category severity db \<and>
    nd_history db' = nd_history db @ hs \<and>
    map notice_row hs = (if bad = (get_check_state category component db = Some ''bad'') then []
      else notices_for category severity component (if bad then summary_bad else summary_ok) (\<not> bad) (audience category severity db))"
proof -
  have set: "nd_history (set_check_state category component v d) = nd_history d"
    "audience category severity (set_check_state category component v d) = audience category severity d" for v d
    by (simp_all add: set_check_state_def Let_def audience_alt provider_view_def init_tables)
  note after = set_check_ok get_after_set set
  show ?thesis
  proof (cases "bad = (get_check_state category component db = Some ''bad'')")
    case True
    then show ?thesis using assms(1) by (cases bad) (simp_all add: fire_edge_def Let_def after)
  next
    case False
    obtain d outs hs where d: "dispatch w category severity component (if bad then summary_bad else summary_ok) None (\<not> bad) [] ''this appliance'' db = (d, Inr outs)"
      "notify_ok d" "nd_history d = nd_history db @ hs"
      "map notice_row hs = notices_for category severity component (if bad then summary_bad else summary_ok) (\<not> bad) (audience category severity db)"
      "audience category severity d = audience category severity db"
      using dispatch_notices [OF assms, of w category component "if bad then summary_bad else summary_ok" "\<not> bad" "''this appliance''"]
      by (elim exE conjE) (rule that, assumption+)
    then show ?thesis using False by (cases bad) (simp_all add: fire_edge_def Let_def after)
  qed
qed

lemma observe_transitions:
  assumes "notify_ok db" "severity \<in> set SEVERITIES"
  shows "\<exists>db' hs. observe category component summary_bad summary_ok severity obs db = (db', Inr ()) \<and> nd_history db' = nd_history db @ hs \<and>
    map notice_row hs = concat (map (\<lambda>bad. notices_for category severity component (if bad then summary_bad else summary_ok) (\<not> bad)
      (audience category severity db)) (transitions (get_check_state category component db = Some ''bad'') (map snd obs)))"
  using assms(1)
proof (induction obs arbitrary: db)
  case (Cons x obs)
  obtain w bad where x: "x = (w, bad)" by (cases x)
  obtain db1 hs where one: "fire_edge w category component bad summary_bad summary_ok severity db = (db1, Inr ())" "notify_ok db1"
    "get_check_state category component db1 = Some (if bad then ''bad'' else ''ok'')"
    "audience category severity db1 = audience category severity db" "nd_history db1 = nd_history db @ hs"
    "map notice_row hs = (if bad = (get_check_state category component db = Some ''bad'') then []
      else notices_for category severity component (if bad then summary_bad else summary_ok) (\<not> bad) (audience category severity db))"
    using fire_edge_result [OF Cons.prems assms(2), of w category component bad summary_bad summary_ok] by (elim exE conjE) (rule that, assumption+)
  have now: "(get_check_state category component db1 = Some ''bad'') = bad" by (simp add: one(3))
  from Cons.IH [OF one(2)] obtain db' hs' where rest: "observe category component summary_bad summary_ok severity obs db1 = (db', Inr ())"
    "nd_history db' = nd_history db1 @ hs'"
    "map notice_row hs' = concat (map (\<lambda>bad. notices_for category severity component (if bad then summary_bad else summary_ok) (\<not> bad)
      (audience category severity db)) (transitions bad (map snd obs)))" unfolding now one(4) by blast
  have "observe category component summary_bad summary_ok severity (x # obs) db = (db', Inr ())" using one(1) rest(1) by (simp add: x)
  moreover have "nd_history db' = nd_history db @ (hs @ hs')" using rest(2) one(5) by simp
  moreover have "map notice_row (hs @ hs') = concat (map (\<lambda>bad. notices_for category severity component (if bad then summary_bad else summary_ok) (\<not> bad)
      (audience category severity db)) (transitions (get_check_state category component db = Some ''bad'') (map snd (x # obs))))"
    unfolding map_append rest(3) one(6) by (auto simp: x)
  ultimately show ?case by blast
qed simp

section \<open>Checks do not fail by themselves\<close>

definition run_ok :: "notify_db \<Rightarrow> bool" where
  "run_ok db \<longleftrightarrow> notify_ok db \<and> (\<forall>label. \<not> isl (previous_restarts (get_check_state ''service_repeated_restart'' label db)))"

definition returns :: "(notify_db \<Rightarrow> notify_db \<times> unit result) \<Rightarrow> bool" where
  "returns f \<longleftrightarrow> (\<forall>db. run_ok db \<longrightarrow> (\<exists>db'. f db = (db', Inr ()) \<and> run_ok db'))"

lemma returnsI: "(\<And>db. run_ok db \<Longrightarrow> \<exists>db'. f db = (db', Inr ()) \<and> run_ok db') \<Longrightarrow> returns f"
  by (simp add: returns_def)

lemma returnsE: "returns f \<Longrightarrow> run_ok db \<Longrightarrow> (\<And>db'. f db = (db', Inr ()) \<Longrightarrow> run_ok db' \<Longrightarrow> P) \<Longrightarrow> P"
  unfolding returns_def by blast

lemma returns_nothing: "returns (\<lambda>db. (db, Inr ()))"
  by (simp add: returns_def)

lemma returns_each: "(\<And>x. x \<in> set xs \<Longrightarrow> returns (f x)) \<Longrightarrow> returns (each f xs)"
proof (induction xs)
  case Nil
  then show ?case by (simp add: returns_def)
next
  case (Cons x xs)
  show ?case
  proof (rule returnsI)
    fix db assume "run_ok db"
    with Cons.prems [of x] obtain db1 where one: "f x db = (db1, Inr ())" "run_ok db1" by (auto elim: returnsE)
    moreover obtain db' where "each f xs db1 = (db', Inr ())" "run_ok db'" using Cons one(2) by (auto elim: returnsE)
    ultimately show "\<exists>db'. each f (x # xs) db = (db', Inr ()) \<and> run_ok db'" by simp
  qed
qed

lemma dispatch_one_checks: "nd_checks (fst (dispatch_one w m c k sp db)) = nd_checks db"
proof -
  obtain s p where "sp = (s, p)" by (cases sp)
  then show ?thesis using dispatch_one_spec(6) [of w m c k s p db] by (cases "dispatch_one w m c k (s, p) db") simp
qed

lemma dispatch_loop_checks: "nd_checks (fst (dispatch_loop w m c k rows db)) = nd_checks db"
proof (induction rows arbitrary: k db)
  case (Cons sp rows)
  then show ?case using dispatch_one_checks [of w m c k sp db] by (auto split: option.split prod.split)
qed simp

lemma dispatch_checks: "dispatch w category severity component summary began_at recovered link host db = (db', r) \<Longrightarrow> nd_checks db' = nd_checks db"
  unfolding dispatch_def Let_def
  by (auto split: if_splits option.splits prod.splits sum.splits) (metis dispatch_loop_checks fst_conv init_tables(5))+

lemma get_check_cong: "nd_checks db' = nd_checks db \<Longrightarrow> get_check_state c k db' = get_check_state c k db"
  by (simp add: get_check_state_def)

lemma run_ok_dispatch:
  assumes "run_ok db" "severity \<in> set SEVERITIES"
  shows "\<exists>db' outs. dispatch w category severity component summary began_at recovered link host db = (db', Inr outs) \<and> run_ok db'"
proof -
  obtain db' outs where d: "dispatch w category severity component summary began_at recovered link host db = (db', Inr outs)" "notify_ok db'"
    using dispatch_returns [OF _ assms(2)] assms(1) unfolding run_ok_def by blast
  then have "run_ok db'" using assms(1) get_check_cong [OF dispatch_checks [OF d(1)]] by (simp add: run_ok_def)
  with d(1) show ?thesis by blast
qed

lemma run_ok_set:
  assumes "run_ok db" "category = ''service_repeated_restart'' \<longrightarrow> \<not> isl (previous_restarts (Some v))"
  shows "run_ok (set_check_state category k v db)"
  using assms set_check_ok [of db category k v]
  by (auto simp: run_ok_def get_check_state_def set_check_state_def Let_def update_conv')

lemma returns_edge:
  assumes "severity \<in> set SEVERITIES" "category \<noteq> ''service_repeated_restart''"
  shows "returns (edge_check ci category component bad summary_bad summary_ok severity)"
proof (rule returnsI)
  fix db assume ok: "run_ok db"
  let ?w = "ci_world ci category component"
  obtain d1 o1 where bad: "dispatch ?w category severity component summary_bad None False [] ''this appliance'' db = (d1, Inr o1)" "run_ok d1"
    using run_ok_dispatch [OF ok assms(1)] by blast
  obtain d2 o2 where good: "dispatch ?w category severity component summary_ok None True [] ''this appliance'' db = (d2, Inr o2)" "run_ok d2"
    using run_ok_dispatch [OF ok assms(1)] by blast
  show "\<exists>db'. edge_check ci category component bad summary_bad summary_ok severity db = (db', Inr ()) \<and> run_ok db'"
    unfolding edge_check_def fire_edge_def Let_def bad(1) good(1) using ok bad(2) good(2) run_ok_set assms(2)
    by (cases bad; cases "get_check_state category component db = Some ''bad''") simp_all
qed

lemma str_int_previous: "\<not> isl (previous_restarts (Some (str_int n)))"
proof (cases "n < 0")
  case True
  then have "\<not> list_all py_isdigit (str_int n)" by (simp add: str_int_def py_isdigit_def is_ascii_digit_def)
  then show ?thesis by (simp add: previous_restarts_def)
next
  case False
  then have "str_int n = str_nat (nat n)" by (simp add: str_int_def)
  then show ?thesis by (simp add: previous_restarts_def int_of_str_nat)
qed

lemma returns_restarts: "returns (check_restarts ci ul)"
proof (rule returnsI)
  fix db assume ok: "run_ok db"
  let ?c = "''service_repeated_restart''"
  obtain u label where ul: "ul = (u, label)" by (cases ul)
  obtain code out where sys: "ci_systemctl ci [''show'', u, ''--property=NRestarts'', ''--value''] = (code, out)" by fastforce
  obtain n where prev: "previous_restarts (get_check_state ?c label db) = Inr n"
    using ok by (cases "previous_restarts (get_check_state ?c label db)") (auto simp: run_ok_def dest: spec [of _ label])
  have sev: "''warning'' \<in> set SEVERITIES" by (simp add: SEVERITIES_def)
  show "\<exists>db'. check_restarts ci ul db = (db', Inr ()) \<and> run_ok db'"
  proof (cases "code \<noteq> 0 \<or> int_of_str out = None")
    case True
    then show ?thesis using ok by (auto simp: check_restarts_def ul sys Let_def split: option.split)
  next
    case False
    then obtain restarts where r: "int_of_str out = Some restarts" "code = 0" by auto
    obtain d o1 where d: "dispatch (ci_world ci ?c label) ?c ''warning'' label (label @ '' has restarted '' @ str_int restarts @ '' times since boot'')
        None False [] ''this appliance'' db = (d, Inr o1)" "run_ok d"
      using run_ok_dispatch [OF ok sev] by blast
    show ?thesis
      unfolding check_restarts_def ul prod.case Let_def sys r option.case prev sum.case d(1)
      using ok d(2) run_ok_set [OF _ impI [OF str_int_previous]] by simp
  qed
qed

lemma returns_latest:
  assumes "severity \<in> set SEVERITIES" "category \<noteq> ''service_repeated_restart''" "\<not> isl row"
  shows "returns (latest_row category component lead summary_ok severity row ci)"
proof (cases row)
  case (Inr r)
  then show ?thesis using returns_edge [OF assms(1,2)] returns_nothing
    by (cases r) (auto simp: latest_row_def [abs_def] split: prod.split)
qed (use assms(3) in simp)

definition inputs_ok :: "check_inputs \<Rightarrow> bool" where
  "inputs_ok ci \<longleftrightarrow> \<not> isl (ci_writer ci) \<and> \<not> isl (ci_deployment ci) \<and> \<not> isl (ci_sources ci) \<and> \<not> isl (ci_backup ci) \<and>
     \<not> isl (ci_resolvers ci) \<and> \<not> isl (ci_health ci) \<and> \<not> isl (ci_replication ci)"


lemma returns_upstream:
  assumes "inputs_ok ci"
  shows "returns (check_upstream_resolvers ci)"
proof -
  obtain rows health where i: "ci_resolvers ci = Inr rows" "ci_health ci = Inr health"
    using assms by (cases "ci_resolvers ci"; cases "ci_health ci") (auto simp: inputs_ok_def)
  define down where "down = filter (\<lambda>r. dict_get health (ur_id r) ''unknown'' \<notin> {''up'', ''unknown''}) rows"
  let ?e1 = "edge_check ci ''resolver_all_unavailable'' ''Upstream resolvers'' (length down = length rows) ''All upstream resolvers are unavailable''
      ''Upstream resolvers are reachable again'' ''critical''"
  let ?e2 = "edge_check ci ''resolver_degraded'' ''Upstream resolvers'' (down \<noteq> [] \<and> length down \<noteq> length rows)
      (str_nat (length down) @ '' of '' @ str_nat (length rows) @ '' upstream resolver(s) degraded: '' @ join '', '' (map ur_name down))
      ''Upstream resolvers recovered'' ''warning''"
  have e: "returns ?e1" "returns ?e2" by (rule returns_edge; simp add: SEVERITIES_def)+
  show ?thesis
  proof (rule returnsI)
    fix db assume ok: "run_ok db"
    obtain db1 where one: "?e1 db = (db1, Inr ())" "run_ok db1" using e(1) ok by (auto elim: returnsE)
    obtain db2 where two: "?e2 db1 = (db2, Inr ())" "run_ok db2" using e(2) one(2) by (auto elim: returnsE)
    have "check_upstream_resolvers ci db = (if rows = [] then (db, Inr ()) else (db2, Inr ()))"
      unfolding check_upstream_resolvers_def i sum.case Let_def down_def [symmetric] one(1) prod.case two(1) ..
    then show "\<exists>db'. check_upstream_resolvers ci db = (db', Inr ()) \<and> run_ok db'" using ok two(2) by simp
  qed
qed

lemma returns_checks:
  assumes "inputs_ok ci" "c \<in> set CHECKS"
  shows "returns (snd c ci)"
proof -
  have sev: "''critical'' \<in> set SEVERITIES" "''warning'' \<in> set SEVERITIES" by (simp_all add: SEVERITIES_def)
  have "returns (check_service_availability ci)"
    unfolding check_service_availability_def by (rule returns_each) (auto simp: Let_def intro: returns_edge [OF sev(1)])
  moreover have "returns (check_analytics_writer ci)"
    using assms(1) returns_edge [OF sev(1), of "''service_unavailable''"] returns_nothing
    by (cases "ci_writer ci") (auto simp: inputs_ok_def returns_def check_analytics_writer_def)
  moreover have "returns (check_repeated_restarts ci)"
    unfolding check_repeated_restarts_def by (rule returns_each) (rule returns_restarts)
  moreover have "returns (check_deploy_and_blocklist ci)" "returns (check_backup ci)"
    unfolding check_deploy_and_blocklist_def check_backup_def using assms(1)
    by (auto intro!: returns_latest sev simp: inputs_ok_def)
  moreover have "returns (check_blocklist_sources ci)"
  proof (cases "ci_sources ci")
    case (Inr rows)
    have "returns (each (check_source ci) rows)"
      unfolding check_source_def Let_def by (rule returns_each) (rule returns_edge [OF sev(2)], simp)
    then show ?thesis using Inr by (simp add: check_blocklist_sources_def [abs_def])
  qed (use assms(1) in \<open>simp add: inputs_ok_def\<close>)
  moreover have "returns (check_replication ci)"
  proof (cases "ci_replication ci")
    case (Inr cfg)
    have e: "returns (edge_check ci ''replication_delayed'' ''Replication'' b s1 s2 (if x then ''critical'' else ''warning''))" for b s1 s2 x
      using returns_edge [OF sev(1)] returns_edge [OF sev(2)] by simp
    show ?thesis
    proof (rule returnsI)
      fix db assume "run_ok db"
      then show "\<exists>db'. check_replication ci db = (db', Inr ()) \<and> run_ok db'"
        using e unfolding check_replication_def Inr sum.case Let_def returns_def
        by (cases "map_of cfg ''role'' \<noteq> Some ''replica''") (simp_all only: if_True if_False simp_thms, blast+)
    qed
  qed (use assms(1) in \<open>simp add: inputs_ok_def\<close>)
  ultimately show ?thesis using assms returns_upstream by (auto simp: CHECKS_def)
qed

lemma fold_checks:
  assumes "inputs_ok ci" "set cs \<subseteq> set CHECKS" "run_ok db"
  shows "\<exists>db'. fold (run_check ci) cs (db, []) = (db', []) \<and> run_ok db'"
  using assms(2,3)
proof (induction cs arbitrary: db)
  case (Cons c cs)
  then obtain db1 where "snd c ci db = (db1, Inr ())" and ok: "run_ok db1" using returns_checks [OF assms(1), of c] by (auto elim: returnsE)
  then have "run_check ci c (db, []) = (db1, [])" by (simp add: run_check_def)
  then show ?case using Cons.IH [OF _ ok] Cons.prems(1) by simp
qed simp

section \<open>Theorems\<close>

text \<open>
  C25: Over any sequence of observations of a condition whose stored state was not bad, nothing is raised, and the rows added to
  the notification history are exactly these: for every transition, in order, one row for each provider subscribed to
  the category at that severity, a failure notice with the failure text when the condition turns bad, a recovery notice with
  the recovery text when it turns good again, and none while it stays.
\<close>

theorem notices_at_transitions:
  assumes "notify_ok db" "severity \<in> set SEVERITIES" "get_check_state category component db \<noteq> Some ''bad''"
  shows "\<exists>db' hs. observe category component summary_bad summary_ok severity obs db = (db', Inr ()) \<and> nd_history db' = nd_history db @ hs \<and>
    map notice_row hs = concat (map (\<lambda>bad. notices_for category severity component (if bad then summary_bad else summary_ok) (\<not> bad)
      (audience category severity db)) (transitions False (map snd obs)))"
  using observe_transitions [OF assms(1,2), of category component summary_bad summary_ok obs] assms(3) by simp

theorem notices_at_transitions_witness:
  "\<exists>db' hs. observe ''deploy_failure'' ''Deploy'' ''bad'' ''good'' ''critical''
      [(example_notify_world, True), (example_notify_world, True), (example_notify_world, False)] example_notify = (db', Inr ()) \<and>
    nd_history db' = nd_history example_notify @ hs \<and>
    map notice_row hs = [(1, ''deploy_failure'', ''critical'', ''Deploy'', ''bad'', False), (1, ''deploy_failure'', ''critical'', ''Deploy'', ''good'', True)]"
proof -
  have "''critical'' \<in> set SEVERITIES" by (simp add: SEVERITIES_def)
  moreover have "get_check_state ''deploy_failure'' ''Deploy'' example_notify \<noteq> Some ''bad''" by (simp add: get_check_state_def example_notify_def)
  moreover have "audience ''deploy_failure'' ''critical'' example_notify = [1]" by code_simp
  ultimately show ?thesis
    using notices_at_transitions [OF example_notify_ok, of "''critical''" "''deploy_failure''" "''Deploy''" "''bad''" "''good''"
        "[(example_notify_world, True), (example_notify_world, True), (example_notify_world, False)]"] by (simp add: notices_for_def)
qed

text \<open>
  C26: With well-formed notification tables and readable inputs every check runs to its end: no error is reported, the
  exit code is 0, and the tables stay well formed, whatever the deliveries do.
\<close>

theorem checks_run_clean:
  assumes "inputs_ok ci" "run_ok db"
  shows "\<exists>db'. notify_main ci db = (db', 0, []) \<and> run_ok db'"
  using fold_checks [OF assms(1) subset_refl assms(2)] by (auto simp: notify_main_def run_all_checks_def)

definition quiet_inputs :: check_inputs where
  "quiet_inputs =
     \<lparr>ci_systemctl = (\<lambda>_. (0, ''active'')), ci_writer = Inr \<lparr>wr_status = ''ok'', wr_stale = False, wr_detail = []\<rparr>, ci_deployment = Inr None,
      ci_sources = Inr [], ci_backup = Inr (Some (''failed'', ''disk full'')), ci_resolvers = Inr [], ci_health = Inr [], ci_replication = Inr [],
      ci_world = (\<lambda>_ _. example_notify_world)\<rparr>"

theorem checks_run_clean_witness: "\<exists>db'. notify_main quiet_inputs example_notify = (db', 0, [])"
proof -
  have "inputs_ok quiet_inputs" by (simp add: inputs_ok_def quiet_inputs_def)
  moreover have "run_ok example_notify"
    using example_notify_ok by (simp add: run_ok_def get_check_state_def previous_restarts_def) (simp add: example_notify_def)
  ultimately show ?thesis using checks_run_clean by blast
qed

end
