(* ===== verification/Enrollment.thy ===== *)
theory Enrollment
  imports Py_Text
begin

text \<open>
  Replication (\<^verbatim>\<open>app/replication.py\<close>), first part: settings, enrollment tokens and enrolled replicas of a primary.
  A token is reserved by the listener, spent by the privileged process that issues the certificate, or released.
  Arguments: clock (seconds), random tokens and node ids, SHA-256, and the issue of a certificate with openssl
  (record \<open>issuer\<close>), which may raise.  An operation without a pending transaction runs alone; only the privileged
  step is split in two, since it reads the reservation long before it writes.  Shown: the tables stay well formed,
  a token buys at most one certificate when the privileged steps of a token do not overlap, and a revoked replica
  stays out.
\<close>

section \<open>Tables\<close>

datatype enroll_status = Waiting | Consumed | Withdrawn | Expired

record enrollment =
  en_id :: nat
  en_node :: string
  en_name :: string
  en_hash :: string
  en_created_at :: int
  en_expires_at :: int
  en_status :: enroll_status
  en_consumed_at :: "int option"
  en_reserved_at :: "int option"

datatype replica_status = Active | Paused | Revoked

record replica =
  rp_id :: nat
  rp_node :: string
  rp_name :: string
  rp_fingerprint :: string
  rp_serial :: string
  rp_enrolled_at :: int
  rp_status :: replica_status
  rp_acked :: int
  rp_ack_hash :: string
  rp_seen_at :: "int option"
  rp_result :: string

record repl_db =
  rd_settings :: "(string \<times> string) list"
  rd_enrollments :: "enrollment list"
  rd_replicas :: "replica list"

interpretation enrollment_table: id_table en_id "\<lambda>i r. r\<lparr>en_id := i\<rparr>"
  by unfold_locales simp

interpretation replica_table: id_table rp_id "\<lambda>i r. r\<lparr>rp_id := i\<rparr>"
  by unfold_locales simp

section \<open>Settings\<close>

definition ENROLLMENT_TTL_MINUTES :: int where "ENROLLMENT_TTL_MINUTES = 15"

definition RESERVATION_TTL_SECONDS :: int where "RESERVATION_TTL_SECONDS = 45"

definition REPLICATION_DEFAULTS :: "(string \<times> string) list" where
  "REPLICATION_DEFAULTS =
     [(''role'', ''standalone''), (''listen_host'', ''0.0.0.0''), (''listen_port'', ''8843''), (''poll_interval_seconds'', ''60''),
      (''primary_address'', []), (''paused'', ''0''), (''include_encryption_settings'', ''0''), (''include_certificates'', ''0''),
      (''last_applied_generation'', ''0''), (''last_applied_hash'', []), (''last_sync_status'', []), (''last_sync_at'', []),
      (''drift_detected'', ''0''), (''drift_checked_at'', [])]"

definition node_id :: "string \<Rightarrow> repl_db \<Rightarrow> repl_db \<times> string" where
  "node_id uuid db =
     (case map_of (rd_settings db) ''node_id'' of
        Some v \<Rightarrow> (db, v)
      | None \<Rightarrow> (db\<lparr>rd_settings := rd_settings db @ [(''node_id'', uuid)]\<rparr>, uuid))"

definition replication_settings :: "string \<Rightarrow> repl_db \<Rightarrow> repl_db" where
  "replication_settings uuid db =
     (let db = fst (node_id uuid db) in db\<lparr>rd_settings := fold (\<lambda>(k, v). dict_setdefault k v) REPLICATION_DEFAULTS (rd_settings db)\<rparr>)"

definition replication_update_settings :: "(string \<times> pyval) list \<Rightarrow> repl_db \<Rightarrow> repl_db" where
  "replication_update_settings kvs db = db\<lparr>rd_settings := fold (\<lambda>(k, v). AList.update k (py_str v)) kvs (rd_settings db)\<rparr>"

definition ROLES :: "string list" where
  "ROLES = [''standalone'', ''primary'', ''replica'']"

definition set_role :: "string \<Rightarrow> repl_db \<Rightarrow> repl_db result" where
  "set_role role db =
     (if role \<notin> set ROLES then Inl (''unknown role '' @ py_repr role)
      else Inr (replication_update_settings [(''role'', PyStr role)] db))"

section \<open>Certificates\<close>

text \<open>What \<^verbatim>\<open>_fingerprint\<close> and \<^verbatim>\<open>_serial_of\<close> make of the output of openssl.\<close>

definition after_equals :: "string \<Rightarrow> string" where
  "after_equals out = (case partition_char CHR ''='' out of (a, found, b) \<Rightarrow> py_strip (if found then b else a))"

definition fingerprint_text :: "string \<Rightarrow> string" where
  "fingerprint_text out = py_lower (filter (\<lambda>c. c \<noteq> CHR '':'') (after_equals out))"

record certificate =
  ce_cert :: string
  ce_key :: string
  ce_fingerprint :: string
  ce_serial :: string

text \<open>
  \<open>is_sign\<close>: \<^verbatim>\<open>_issue_cert\<close> for a node id and a number of days, the certificate and key texts; \<open>is_fingerprint\<close>,
  \<open>is_serial\<close>: what openssl prints for a certificate; \<open>is_server\<close>: \<^verbatim>\<open>ensure_server_cert\<close>; \<open>is_ca\<close>: the CA certificate.
\<close>

record issuer =
  is_sign :: "string \<Rightarrow> int \<Rightarrow> (string \<times> string) result"
  is_fingerprint :: "string \<Rightarrow> string"
  is_serial :: "string \<Rightarrow> string"
  is_server :: "unit result"
  is_ca :: "string result"

definition issue_client_cert :: "issuer \<Rightarrow> string \<Rightarrow> int \<Rightarrow> certificate result" where
  "issue_client_cert w node days =
     (case is_sign w node days of
        Inl e \<Rightarrow> Inl e
      | Inr (cert, key) \<Rightarrow>
          Inr \<lparr>ce_cert = cert, ce_key = key, ce_fingerprint = fingerprint_text (is_fingerprint w cert),
               ce_serial = after_equals (is_serial w cert)\<rparr>)"

section \<open>Enrollment tokens\<close>

definition generate_enrollment_token :: "(string \<Rightarrow> string) \<Rightarrow> string \<Rightarrow> string \<Rightarrow> int \<Rightarrow> string \<Rightarrow> repl_db \<Rightarrow> (repl_db \<times> string) result" where
  "generate_enrollment_token sha raw_token uuid t node_name db =
     (let name = py_strip node_name in
      if name = [] then Inl ''node_name is required''
      else if list_ex (\<lambda>e. en_node e = uuid) (rd_enrollments db) then Inl ''UNIQUE constraint failed: replication_enrollments.node_id''
      else Inr (db\<lparr>rd_enrollments := insert_row en_id (\<lambda>i r. r\<lparr>en_id := i\<rparr>)
             \<lparr>en_id = 0, en_node = uuid, en_name = name, en_hash = sha raw_token, en_created_at = t,
              en_expires_at = t + ENROLLMENT_TTL_MINUTES * 60, en_status = Waiting, en_consumed_at = None, en_reserved_at = None\<rparr>
             (rd_enrollments db)\<rparr>, raw_token))"

definition revoke_enrollment :: "nat \<Rightarrow> repl_db \<Rightarrow> repl_db" where
  "revoke_enrollment i db =
     db\<lparr>rd_enrollments := update_where (\<lambda>e. en_id e = i \<and> en_status e = Waiting) (\<lambda>e. e\<lparr>en_status := Withdrawn\<rparr>) (rd_enrollments db)\<rparr>"

definition expire_stale_enrollments :: "int \<Rightarrow> repl_db \<Rightarrow> repl_db" where
  "expire_stale_enrollments t db =
     (let es = update_where (\<lambda>e. en_status e = Waiting \<and> en_expires_at e < t) (\<lambda>e. e\<lparr>en_status := Expired\<rparr>) (rd_enrollments db) in
      db\<lparr>rd_enrollments := update_where
           (\<lambda>e. en_status e = Waiting \<and> (case en_reserved_at e of None \<Rightarrow> False | Some r \<Rightarrow> r < t - RESERVATION_TTL_SECONDS))
           (\<lambda>e. e\<lparr>en_reserved_at := None\<rparr>) es\<rparr>)"

definition list_enrollments :: "int \<Rightarrow> repl_db \<Rightarrow> repl_db \<times> enrollment list" where
  "list_enrollments t db = (let db = expire_stale_enrollments t db in (db, rev (rd_enrollments db)))"

record enrolled =
  el_node :: string
  el_name :: string
  el_ca :: string
  el_cert :: string
  el_key :: string

definition put_replica :: "enrollment \<Rightarrow> certificate \<Rightarrow> int \<Rightarrow> replica list \<Rightarrow> replica list" where
  "put_replica row issued t rs =
     (if list_ex (\<lambda>r. rp_node r = en_node row) rs
      then update_where (\<lambda>r. rp_node r = en_node row)
             (\<lambda>r. r\<lparr>rp_fingerprint := ce_fingerprint issued, rp_serial := ce_serial issued, rp_enrolled_at := t, rp_status := Active\<rparr>) rs
      else insert_row rp_id (\<lambda>i r. r\<lparr>rp_id := i\<rparr>)
             \<lparr>rp_id = 0, rp_node = en_node row, rp_name = en_name row, rp_fingerprint = ce_fingerprint issued, rp_serial = ce_serial issued,
              rp_enrolled_at = t, rp_status = Active, rp_acked = 0, rp_ack_hash = [], rp_seen_at = None, rp_result = []\<rparr> rs)"

text \<open>
  The writes are committed before the server certificate is made and the CA certificate is read, so an exception
  there leaves them.
\<close>

definition finish_enrollment :: "issuer \<Rightarrow> int \<Rightarrow> int \<Rightarrow> enrollment \<Rightarrow> repl_db \<Rightarrow> repl_db \<times> enrolled result" where
  "finish_enrollment w days t row db =
     (case issue_client_cert w (en_node row) days of
        Inl e \<Rightarrow> (db, Inl e)
      | Inr issued \<Rightarrow>
          (db\<lparr>rd_replicas := put_replica row issued t (rd_replicas db),
              rd_enrollments := update_where (\<lambda>e. en_id e = en_id row) (\<lambda>e. e\<lparr>en_status := Consumed, en_consumed_at := Some t\<rparr>)
                (rd_enrollments db)\<rparr>,
           case is_server w of
             Inl e \<Rightarrow> Inl e
           | Inr _ \<Rightarrow>
               (case is_ca w of
                  Inl e \<Rightarrow> Inl e
                | Inr ca \<Rightarrow> Inr \<lparr>el_node = en_node row, el_name = en_name row, el_ca = ca, el_cert = ce_cert issued, el_key = ce_key issued\<rparr>)))"

definition enroll_rejected :: string where
  "enroll_rejected = ''enrollment token is invalid, expired, or already used''"

text \<open>The sweep belongs to the rejected transaction here and is rolled back with it.\<close>

definition consume_enrollment :: "issuer \<Rightarrow> (string \<Rightarrow> string) \<Rightarrow> int \<Rightarrow> int \<Rightarrow> string \<Rightarrow> repl_db \<Rightarrow> repl_db \<times> enrolled result" where
  "consume_enrollment w sha days t raw_token db0 =
     (let db = expire_stale_enrollments t db0 in
      case List.find (\<lambda>e. en_hash e = sha raw_token \<and> en_status e = Waiting \<and> t \<le> en_expires_at e) (rd_enrollments db) of
        None \<Rightarrow> (db0, Inl enroll_rejected)
      | Some row \<Rightarrow>
          (case issue_client_cert w (en_node row) days of
             Inl e \<Rightarrow> (db0, Inl e)
           | Inr _ \<Rightarrow> finish_enrollment w days t row db))"

definition reservable :: "string \<Rightarrow> int \<Rightarrow> enrollment \<Rightarrow> bool" where
  "reservable h t e = (en_hash e = h \<and> en_status e = Waiting \<and> en_reserved_at e = None \<and> t \<le> en_expires_at e)"

definition request_enrollment_consumption :: "(string \<Rightarrow> string) \<Rightarrow> int \<Rightarrow> string \<Rightarrow> repl_db \<Rightarrow> repl_db \<times> (string \<times> string \<times> string) result" where
  "request_enrollment_consumption sha t raw_token db0 =
     (let db = expire_stale_enrollments t db0; h = sha raw_token in
      if length (filter (reservable h t) (rd_enrollments db)) \<noteq> 1 then (db, Inl enroll_rejected)
      else
        let db' = db\<lparr>rd_enrollments := update_where (reservable h t) (\<lambda>e. e\<lparr>en_reserved_at := Some t\<rparr>) (rd_enrollments db)\<rparr> in
        case List.find (\<lambda>e. en_hash e = h) (rd_enrollments db') of
          None \<Rightarrow> (db, Inl (py_repr ''NoneType'' @ '' object is not subscriptable''))
        | Some row \<Rightarrow> (db', Inr (en_node row, en_name row, h)))"

definition release_enrollment_reservation :: "string \<Rightarrow> repl_db \<Rightarrow> repl_db" where
  "release_enrollment_reservation h db =
     db\<lparr>rd_enrollments := update_where (\<lambda>e. en_hash e = h \<and> en_status e = Waiting) (\<lambda>e. e\<lparr>en_reserved_at := None\<rparr>) (rd_enrollments db)\<rparr>"

text \<open>The privileged step up to its first write: the reservation it works for.\<close>

definition read_reservation :: "string \<Rightarrow> repl_db \<Rightarrow> enrollment result" where
  "read_reservation h db =
     (if h = [] then Inl ''no enrollment reservation token provided''
      else case List.find (\<lambda>e. en_hash e = h \<and> en_status e = Waiting \<and> en_reserved_at e \<noteq> None) (rd_enrollments db) of
        None \<Rightarrow> Inl ''enrollment reservation is invalid, expired, or already completed''
      | Some row \<Rightarrow> Inr row)"

definition process_pending_enrollment_consumption :: "issuer \<Rightarrow> int \<Rightarrow> int \<Rightarrow> string \<Rightarrow> repl_db \<Rightarrow> repl_db \<times> enrolled result" where
  "process_pending_enrollment_consumption w days t h db =
     (case read_reservation h db of Inl e \<Rightarrow> (db, Inl e) | Inr row \<Rightarrow> finish_enrollment w days t row db)"

text \<open>
  The enrollment request of the listener.  \<open>sudo\<close> tells whether the privileged command started and, if so, whether
  its printed result could be read back; when it did not start, what it printed.
\<close>

datatype sudo = Not_started string | Started bool

definition handle_enroll :: "issuer \<Rightarrow> (string \<Rightarrow> string) \<Rightarrow> sudo \<Rightarrow> int \<Rightarrow> string \<Rightarrow> repl_db \<Rightarrow> repl_db \<times> enrolled result" where
  "handle_enroll w sha s t token db0 =
     (if token = [] then (db0, Inl ''token is required'')
      else case request_enrollment_consumption sha t token db0 of
        (db, Inl e) \<Rightarrow> (db, Inl e)
      | (db, Inr (_, _, h)) \<Rightarrow>
          (case (case s of
                   Not_started out \<Rightarrow> (db, Inl (''enrollment could not be completed: '' @ last_chars 500 out))
                 | Started readable \<Rightarrow>
                     (case process_pending_enrollment_consumption w 825 t h db of
                        (db1, Inl e) \<Rightarrow> (db1, Inl (''enrollment could not be completed: '' @ last_chars 500 (''error: '' @ e @ [newline])))
                      | (db1, Inr r) \<Rightarrow> (db1, if readable then Inr r else Inl ''Expecting value: line 1 column 1 (char 0)''))) of
             (db1, Inl e) \<Rightarrow> (release_enrollment_reservation h db1, Inl e)
           | (db1, Inr r) \<Rightarrow> (db1, Inr r)))"

section \<open>Replicas\<close>

definition list_replicas :: "repl_db \<Rightarrow> replica list" where
  "list_replicas db = rev (rd_replicas db)"

definition read_replica_status :: "string \<Rightarrow> replica_status option" where
  "read_replica_status s =
     (if s = ''active'' then Some Active else if s = ''paused'' then Some Paused else if s = ''revoked'' then Some Revoked else None)"

definition set_replica_status :: "nat \<Rightarrow> string \<Rightarrow> repl_db \<Rightarrow> repl_db result" where
  "set_replica_status i status db =
     (case read_replica_status status of
        None \<Rightarrow> Inl (''unknown replica status '' @ py_repr status)
      | Some s \<Rightarrow> Inr (db\<lparr>rd_replicas := update_where (\<lambda>r. rp_id r = i) (\<lambda>r. r\<lparr>rp_status := s\<rparr>) (rd_replicas db)\<rparr>))"

definition replica_by_fingerprint :: "string \<Rightarrow> repl_db \<Rightarrow> replica option" where
  "replica_by_fingerprint fp db = List.find (\<lambda>r. rp_fingerprint r = fp) (rd_replicas db)"

definition replica_status_text :: "replica_status \<Rightarrow> string" where
  "replica_status_text s = (case s of Active \<Rightarrow> ''active'' | Paused \<Rightarrow> ''paused'' | Revoked \<Rightarrow> ''revoked'')"

text \<open>The peer of a request: the SHA-256 of its certificate, if it sent one.\<close>

definition authenticated_replica :: "string option \<Rightarrow> repl_db \<Rightarrow> replica result" where
  "authenticated_replica peer db =
     (case peer of
        None \<Rightarrow> Inl ''client certificate required''
      | Some fp \<Rightarrow>
          (case replica_by_fingerprint fp db of
             None \<Rightarrow> Inl ''unrecognized client certificate''
           | Some r \<Rightarrow> if rp_status r \<noteq> Active then Inl (''replica is '' @ replica_status_text (rp_status r)) else Inr r))"

section \<open>Invariant\<close>

definition enroll_ok :: "repl_db \<Rightarrow> bool" where
  "enroll_ok db \<longleftrightarrow>
     rowids_ok en_id (rd_enrollments db) \<and> distinct (map en_node (rd_enrollments db)) \<and>
     rowids_ok rp_id (rd_replicas db) \<and> distinct (map rp_node (rd_replicas db)) \<and> distinct (map rp_fingerprint (rd_replicas db)) \<and>
     (\<forall>r\<in>set (rd_replicas db). \<exists>e\<in>set (rd_enrollments db). en_node e = rp_node r \<and> en_status e = Consumed)"

text \<open>Certificates are fresh: no enrolled replica has the fingerprint of a new one.\<close>

definition issues_fresh :: "issuer \<Rightarrow> int \<Rightarrow> repl_db \<Rightarrow> bool" where
  "issues_fresh w days db \<longleftrightarrow>
     (\<forall>node c. issue_client_cert w node days = Inr c \<longrightarrow> ce_fingerprint c \<notin> rp_fingerprint ` set (rd_replicas db))"

text \<open>The operations of a primary, one after the other; \<open>A\<close> restricts the replicas whose status an operator sets.\<close>

inductive enroll_step :: "(string \<Rightarrow> string) \<Rightarrow> nat set \<Rightarrow> repl_db \<Rightarrow> repl_db \<Rightarrow> bool" for sha A where
  es_settings: "enroll_step sha A db (replication_settings uuid db)"
| es_update_settings: "enroll_step sha A db (replication_update_settings kvs db)"
| es_generate: "generate_enrollment_token sha raw uuid t name db = Inr (db', tok) \<Longrightarrow> enroll_step sha A db db'"
| es_revoke: "enroll_step sha A db (revoke_enrollment i db)"
| es_list: "enroll_step sha A db (fst (list_enrollments t db))"
| es_consume: "issues_fresh w days db \<Longrightarrow> enroll_step sha A db (fst (consume_enrollment w sha days t raw db))"
| es_reserve: "enroll_step sha A db (fst (request_enrollment_consumption sha t raw db))"
| es_release: "enroll_step sha A db (release_enrollment_reservation h db)"
| es_process: "issues_fresh w days db \<Longrightarrow> enroll_step sha A db (fst (process_pending_enrollment_consumption w days t h db))"
| es_enroll: "issues_fresh w 825 db \<Longrightarrow> enroll_step sha A db (fst (handle_enroll w sha s t token db))"
| es_status: "i \<in> A \<Longrightarrow> set_replica_status i status db = Inr db' \<Longrightarrow> enroll_step sha A db db'"

lemma settings_tables [simp]:
  "rd_enrollments (replication_settings uuid db) = rd_enrollments db" "rd_replicas (replication_settings uuid db) = rd_replicas db"
  "rd_enrollments (replication_update_settings kvs db) = rd_enrollments db" "rd_replicas (replication_update_settings kvs db) = rd_replicas db"
  by (simp_all add: replication_settings_def replication_update_settings_def node_id_def Let_def split: option.split)

text \<open>
  Every operation is made of three kinds of changes: of waiting enrollments (\<open>touch\<close>), of the status of a
  replica, and the finish of a waiting enrollment.
\<close>

definition touch :: "(enrollment \<Rightarrow> bool) \<Rightarrow> (enrollment \<Rightarrow> enrollment) \<Rightarrow> repl_db \<Rightarrow> repl_db" where
  "touch p f db = db\<lparr>rd_enrollments := update_where (\<lambda>e. en_status e = Waiting \<and> p e) f (rd_enrollments db)\<rparr>"

definition same_enrollment :: "(enrollment \<Rightarrow> enrollment) \<Rightarrow> bool" where
  "same_enrollment f \<longleftrightarrow> (\<forall>e. en_id (f e) = en_id e \<and> en_node (f e) = en_node e \<and> en_hash (f e) = en_hash e)"

lemma same_enrollment_updates [simp]:
  "same_enrollment (\<lambda>e. e\<lparr>en_status := s\<rparr>)" "same_enrollment (\<lambda>e. e\<lparr>en_reserved_at := r\<rparr>)"
  "same_enrollment (\<lambda>e. e\<lparr>en_status := s, en_consumed_at := c\<rparr>)"
  by (simp_all add: same_enrollment_def)

lemma map_update_same:
  assumes "same_enrollment f"
  shows "map en_id (update_where p f es) = map en_id es" "map en_node (update_where p f es) = map en_node es" "map en_hash (update_where p f es) = map en_hash es"
  using assms by (simp_all add: update_where_def same_enrollment_def comp_def)

lemma touch_ok:
  assumes "enroll_ok db" "same_enrollment f"
  shows "enroll_ok (touch p f db)"
proof -
  have "\<exists>e\<in>set (update_where (\<lambda>e. en_status e = Waiting \<and> p e) f (rd_enrollments db)). en_node e = n \<and> en_status e = Consumed"
    if "\<exists>e\<in>set (rd_enrollments db). en_node e = n \<and> en_status e = Consumed" for n
    using that by (force simp: update_where_def)
  then show ?thesis using assms map_update_same [OF assms(2)] by (simp add: enroll_ok_def touch_def rowids_ok_def)
qed

lemma enrollment_unique:
  assumes "enroll_ok db" "e \<in> set (rd_enrollments db)" "e' \<in> set (rd_enrollments db)" "en_id e = en_id e' \<or> en_node e = en_node e'"
  shows "e = e'"
proof -
  have "distinct (map en_id (rd_enrollments db))" "distinct (map en_node (rd_enrollments db))"
    using assms(1) rowids_ok_distinct by (auto simp: enroll_ok_def)
  then show ?thesis using assms(2-4) by (auto simp: distinct_map inj_on_def)
qed

lemma finish_new_replica:
  assumes "enroll_ok db" "row \<in> set (rd_enrollments db)" "en_status row = Waiting" "r \<in> set (rd_replicas db)"
  shows "rp_node r \<noteq> en_node row"
proof
  assume n: "rp_node r = en_node row"
  obtain e where "e \<in> set (rd_enrollments db)" "en_node e = rp_node r" "en_status e = Consumed" using assms(1,4) by (auto simp: enroll_ok_def)
  then show False using enrollment_unique [OF assms(1), of e row] assms(2,3) n by auto
qed

lemma finish_put_replica:
  assumes "enroll_ok db" "row \<in> set (rd_enrollments db)" "en_status row = Waiting"
  shows "put_replica row c t (rd_replicas db) = insert_row rp_id (\<lambda>i r. r\<lparr>rp_id := i\<rparr>)
             \<lparr>rp_id = 0, rp_node = en_node row, rp_name = en_name row, rp_fingerprint = ce_fingerprint c, rp_serial = ce_serial c,
              rp_enrolled_at = t, rp_status = Active, rp_acked = 0, rp_ack_hash = [], rp_seen_at = None, rp_result = []\<rparr> (rd_replicas db)"
  using finish_new_replica [OF assms] by (auto simp: put_replica_def list_ex_iff)

lemma finish_ok:
  assumes "enroll_ok db" "issues_fresh w days db" "row \<in> set (rd_enrollments db)" "en_status row = Waiting"
  shows "enroll_ok (fst (finish_enrollment w days t row db))"
proof (cases "issue_client_cert w (en_node row) days")
  case (Inr c)
  let ?f = "\<lambda>e. e\<lparr>en_status := Consumed, en_consumed_at := Some t\<rparr>" and ?E = "rd_enrollments db"
  note same = map_update_same [OF same_enrollment_updates(3), of "\<lambda>e. en_id e = en_id row" "Some t" Consumed ?E]
  have fresh: "ce_fingerprint c \<notin> rp_fingerprint ` set (rd_replicas db)" using assms(2) Inr by (auto simp: issues_fresh_def)
  have ids: "rowids_ok rp_id (put_replica row c t (rd_replicas db))"
    unfolding finish_put_replica [OF assms(1,3,4)] using assms(1) by (intro replica_table.insert_keeps_ids) (simp add: enroll_ok_def)
  have "\<exists>e\<in>set (update_where (\<lambda>e. en_id e = en_id row) ?f ?E). en_node e = n \<and> en_status e = Consumed"
    if n: "n = en_node row \<or> (\<exists>e\<in>set ?E. en_node e = n \<and> en_status e = Consumed)" for n
  proof -
    obtain e where e: "e \<in> set ?E" "en_node e = n" "en_id e = en_id row \<or> en_status e = Consumed" using n assms(3) by blast
    have "(if en_id e = en_id row then ?f e else e) \<in> set (update_where (\<lambda>e. en_id e = en_id row) ?f ?E)"
      using e(1) by (simp add: update_where_def)
    then show ?thesis by (rule bexI [rotated]) (use e in auto)
  qed
  then have "\<forall>r\<in>set (put_replica row c t (rd_replicas db)). \<exists>e\<in>set (update_where (\<lambda>e. en_id e = en_id row) ?f ?E). en_node e = rp_node r \<and> en_status e = Consumed"
    unfolding finish_put_replica [OF assms(1,3,4)] using assms(1) by (simp add: insert_row_def enroll_ok_def)
  moreover have "distinct (map rp_node (put_replica row c t (rd_replicas db)))" "distinct (map rp_fingerprint (put_replica row c t (rd_replicas db)))"
    unfolding finish_put_replica [OF assms(1,3,4)] using assms(1) fresh finish_new_replica [OF assms(1,3,4)]
    by (auto simp: insert_row_def enroll_ok_def eq_commute [of "en_node row"])
  ultimately show ?thesis using assms(1) ids same by (simp add: finish_enrollment_def Inr enroll_ok_def rowids_ok_def)
qed (simp add: finish_enrollment_def assms(1))

lemma expire_touch:
  "expire_stale_enrollments t db =
     touch (\<lambda>e. case en_reserved_at e of None \<Rightarrow> False | Some r \<Rightarrow> r < t - RESERVATION_TTL_SECONDS) (\<lambda>e. e\<lparr>en_reserved_at := None\<rparr>)
       (touch (\<lambda>e. en_expires_at e < t) (\<lambda>e. e\<lparr>en_status := Expired\<rparr>) db)"
  by (simp add: expire_stale_enrollments_def touch_def Let_def)

lemma revoke_touch: "revoke_enrollment i db = touch (\<lambda>e. en_id e = i) (\<lambda>e. e\<lparr>en_status := Withdrawn\<rparr>) db"
  by (simp add: revoke_enrollment_def touch_def conj_commute)

lemma release_touch: "release_enrollment_reservation h db = touch (\<lambda>e. en_hash e = h) (\<lambda>e. e\<lparr>en_reserved_at := None\<rparr>) db"
  by (simp add: release_enrollment_reservation_def touch_def conj_commute)

lemma reserve_touch:
  "fst (request_enrollment_consumption sha t raw db) \<in>
     {expire_stale_enrollments t db, touch (reservable (sha raw) t) (\<lambda>e. e\<lparr>en_reserved_at := Some t\<rparr>) (expire_stale_enrollments t db)}"
proof -
  have "(\<lambda>e. en_status e = Waiting \<and> reservable (sha raw) t e) = reservable (sha raw) t" by (auto simp: reservable_def)
  then show ?thesis by (simp add: request_enrollment_consumption_def touch_def Let_def split: option.split)
qed

lemma touch_replicas [simp]: "rd_replicas (touch p f db) = rd_replicas db"
  by (simp add: touch_def)

lemma issues_fresh_replicas: "rd_replicas db = rd_replicas db' \<Longrightarrow> issues_fresh w days db = issues_fresh w days db'"
  by (simp add: issues_fresh_def)

lemma find_SomeD: "List.find p xs = Some x \<Longrightarrow> x \<in> set xs \<and> p x"
  by (auto simp: find_Some_iff)

lemma read_reservation_Inr:
  assumes "read_reservation h db = Inr row"
  shows "row \<in> set (rd_enrollments db)" "en_status row = Waiting" "en_hash row = h" "h \<noteq> []"
  using assms by (auto simp: read_reservation_def dest: find_SomeD split: if_splits option.splits)

lemma handle_states:
  fixes w sha t token db
  defines "db1 \<equiv> fst (request_enrollment_consumption sha t token db)"
  defines "P \<equiv> \<lambda>h. fst (process_pending_enrollment_consumption w 825 t h db1)"
  shows "\<exists>h. fst (handle_enroll w sha s t token db) \<in> {db, db1, P h, release_enrollment_reservation h db1, release_enrollment_reservation h (P h)}"
proof -
  obtain d r where req: "request_enrollment_consumption sha t token db = (d, r)" by (rule prod.exhaust)
  then have d: "db1 = d" by (simp add: db1_def)
  show ?thesis
  proof (cases r)
    case (Inr v)
    obtain a b h where v: "v = (a, b, h)" by (rule prod_cases3)
    obtain d1 r1 where pr: "process_pending_enrollment_consumption w 825 t h d = (d1, r1)" by (rule prod.exhaust)
    have "P h = d1" by (simp add: P_def d pr)
    moreover have "fst (handle_enroll w sha s t token db) \<in> {db, d, d1, release_enrollment_reservation h d, release_enrollment_reservation h d1}"
      unfolding handle_enroll_def req Inr v by (cases s; cases r1) (simp_all add: pr)
    ultimately show ?thesis unfolding d by metis
  qed (simp add: handle_enroll_def req d)
qed

lemma settings_only: "\<exists>s. replication_settings uuid db = db\<lparr>rd_settings := s\<rparr>"
  by (auto simp: replication_settings_def node_id_def Let_def split: option.split)

text \<open>What holds of a database and is kept by the elementary changes is kept by every operation.\<close>

locale kept_by_changes =
  fixes A :: "nat set" and Q :: "repl_db \<Rightarrow> bool"
  assumes other: "Q db \<Longrightarrow> Q (db\<lparr>rd_settings := s\<rparr>)"
    and touched: "enroll_ok db \<Longrightarrow> Q db \<Longrightarrow> same_enrollment f \<Longrightarrow> Q (touch p f db)"
    and added: "enroll_ok db \<Longrightarrow> Q db \<Longrightarrow> en_status e = Waiting \<Longrightarrow>
      Q (db\<lparr>rd_enrollments := insert_row en_id (\<lambda>i r. r\<lparr>en_id := i\<rparr>) e (rd_enrollments db)\<rparr>)"
    and finished: "enroll_ok db \<Longrightarrow> Q db \<Longrightarrow> issues_fresh w days db \<Longrightarrow> row \<in> set (rd_enrollments db) \<Longrightarrow> en_status row = Waiting \<Longrightarrow>
      Q (fst (finish_enrollment w days t row db))"
    and status: "enroll_ok db \<Longrightarrow> Q db \<Longrightarrow> i \<in> A \<Longrightarrow>
      Q (db\<lparr>rd_replicas := update_where (\<lambda>r. rp_id r = i) (\<lambda>r. r\<lparr>rp_status := st\<rparr>) (rd_replicas db)\<rparr>)"
begin

abbreviation kept :: "repl_db \<Rightarrow> bool" where
  "kept db \<equiv> enroll_ok db \<and> Q db"

lemma kept_touch: "kept db \<Longrightarrow> same_enrollment f \<Longrightarrow> kept (touch p f db)"
  using touch_ok touched by blast

lemma kept_expire: "kept db \<Longrightarrow> kept (expire_stale_enrollments t db)"
  unfolding expire_touch by (intro kept_touch) simp_all

lemma kept_reserve: "kept db \<Longrightarrow> kept (fst (request_enrollment_consumption sha t raw db))"
  using reserve_touch [of sha t raw db] kept_expire [of db t] kept_touch [OF kept_expire [of db t] same_enrollment_updates(2)] by auto

lemma kept_finish:
  "kept db \<Longrightarrow> issues_fresh w days db \<Longrightarrow> row \<in> set (rd_enrollments db) \<Longrightarrow> en_status row = Waiting \<Longrightarrow>
   kept (fst (finish_enrollment w days t row db))"
  using finish_ok finished by blast

lemma kept_process: "kept db \<Longrightarrow> issues_fresh w days db \<Longrightarrow> kept (fst (process_pending_enrollment_consumption w days t h db))"
  unfolding process_pending_enrollment_consumption_def
  by (cases "read_reservation h db") (auto dest: read_reservation_Inr(1,2) intro: kept_finish [THEN conjunct1] kept_finish [THEN conjunct2])

lemma kept_consume:
  assumes "kept db" "issues_fresh w days db"
  shows "kept (fst (consume_enrollment w sha days t raw db))"
proof -
  let ?db = "expire_stale_enrollments t db"
  have "kept ?db" "issues_fresh w days ?db"
    using kept_expire [OF assms(1)] assms(2) issues_fresh_replicas [of ?db db] by (simp_all add: expire_touch)
  then show ?thesis using assms(1) kept_finish [of ?db w days _ t]
    by (auto simp: consume_enrollment_def Let_def dest!: find_SomeD split: option.split sum.split)
qed

lemma kept_handle:
  assumes "kept db" "issues_fresh w 825 db"
  shows "kept (fst (handle_enroll w sha s t token db))"
proof -
  define db1 where "db1 = fst (request_enrollment_consumption sha t token db)"
  have db1: "kept db1" "issues_fresh w 825 db1"
    using kept_reserve [OF assms(1)] reserve_touch [of sha t token db] assms(2) issues_fresh_replicas [of db1 db]
    by (auto simp: db1_def expire_touch)
  have rel: "kept d \<Longrightarrow> kept (release_enrollment_reservation h d)" for h d unfolding release_touch by (rule kept_touch) simp_all
  have "kept (fst (process_pending_enrollment_consumption w 825 t h db1))" for h using kept_process [OF db1] .
  then show ?thesis using assms(1) db1(1) rel handle_states [of w sha s t token db] unfolding db1_def [symmetric] by (elim exE insertE) simp_all
qed

lemma kept_settings: "kept db \<Longrightarrow> kept (db\<lparr>rd_settings := s\<rparr>)"
  using other by (simp add: enroll_ok_def)

lemma kept_add:
  assumes "kept db" "generate_enrollment_token sha raw uuid t name db = Inr (db', tok)"
  shows "kept db'"
proof -
  let ?e = "\<lparr>en_id = 0, en_node = uuid, en_name = py_strip name, en_hash = sha raw, en_created_at = t,
     en_expires_at = t + ENROLLMENT_TTL_MINUTES * 60, en_status = Waiting, en_consumed_at = None, en_reserved_at = None\<rparr>"
  have db': "db' = db\<lparr>rd_enrollments := insert_row en_id (\<lambda>i r. r\<lparr>en_id := i\<rparr>) ?e (rd_enrollments db)\<rparr>"
    "uuid \<notin> en_node ` set (rd_enrollments db)"
    using assms(2) by (auto simp: generate_enrollment_token_def Let_def list_ex_iff split: if_splits)
  have "rowids_ok en_id (insert_row en_id (\<lambda>i r. r\<lparr>en_id := i\<rparr>) ?e (rd_enrollments db))"
    using assms(1) by (intro enrollment_table.insert_keeps_ids) (simp add: enroll_ok_def)
  then have "enroll_ok db'" using assms(1) db' by (auto simp: enroll_ok_def insert_row_def)
  then show ?thesis using added [of db ?e] assms(1) db'(1) by simp
qed

lemma kept_status:
  assumes "kept db" "i \<in> A" "set_replica_status i st db = Inr db'"
  shows "kept db'"
proof -
  obtain s where db': "db' = db\<lparr>rd_replicas := update_where (\<lambda>r. rp_id r = i) (\<lambda>r. r\<lparr>rp_status := s\<rparr>) (rd_replicas db)\<rparr>"
    using assms(3) by (auto simp: set_replica_status_def split: option.splits)
  let ?R = "update_where (\<lambda>r. rp_id r = i) (\<lambda>r. r\<lparr>rp_status := s\<rparr>) (rd_replicas db)"
  have maps: "map rp_id ?R = map rp_id (rd_replicas db)" "map rp_node ?R = map rp_node (rd_replicas db)"
    "map rp_fingerprint ?R = map rp_fingerprint (rd_replicas db)" by (simp_all add: update_where_def)
  have "\<forall>n\<in>rp_node ` set ?R. \<exists>e\<in>set (rd_enrollments db). en_node e = n \<and> en_status e = Consumed"
    using assms(1) unfolding set_map [symmetric] maps by (simp add: enroll_ok_def)
  then have "enroll_ok db'" using assms(1) maps unfolding db' by (simp add: enroll_ok_def rowids_ok_def)
  then show ?thesis using status [of db i s] assms(1,2) db' by simp
qed

lemma kept_step: "enroll_step sha A db db' \<Longrightarrow> kept db \<Longrightarrow> kept db'"
proof (induction rule: enroll_step.induct)
  case (es_settings db uuid)
  then show ?case using settings_only [of uuid db] kept_settings by metis
next
  case (es_update_settings db kvs)
  then show ?case unfolding replication_update_settings_def by (rule kept_settings)
next
  case (es_revoke db i)
  then show ?case unfolding revoke_touch by (rule kept_touch) simp
next
  case (es_list db t)
  then show ?case using kept_expire by (simp add: list_enrollments_def Let_def)
next
  case (es_release db h)
  then show ?case unfolding release_touch by (rule kept_touch) simp
next
  case (es_generate raw uuid t name db db' tok)
  show ?case by (rule kept_add [OF es_generate(2,1)])
next
  case (es_consume w days db t raw)
  show ?case by (rule kept_consume [OF es_consume(2,1)])
next
  case (es_reserve db t raw)
  then show ?case by (rule kept_reserve)
next
  case (es_process w days db t h)
  show ?case by (rule kept_process [OF es_process(2,1)])
next
  case (es_enroll w db s t token)
  show ?case by (rule kept_handle [OF es_enroll(2,1)])
next
  case (es_status i status db db')
  show ?case by (rule kept_status [OF es_status(3,1,2)])
qed

lemma kept_steps: "(enroll_step sha A)\<^sup>*\<^sup>* db db' \<Longrightarrow> kept db \<Longrightarrow> kept db'"
  by (induction rule: rtranclp_induct) (auto dest: kept_step)

end

text \<open>An enrollment that is consumed, withdrawn or expired; a replica that is not active.\<close>

definition settled :: "nat \<Rightarrow> string \<Rightarrow> repl_db \<Rightarrow> bool" where
  "settled i h db \<longleftrightarrow> (\<exists>e\<in>set (rd_enrollments db). en_id e = i \<and> en_hash e = h \<and> en_status e \<noteq> Waiting)"

definition barred :: "nat \<Rightarrow> string \<Rightarrow> repl_db \<Rightarrow> bool" where
  "barred i fp db \<longleftrightarrow> (\<exists>r\<in>set (rd_replicas db). rp_id r = i \<and> rp_fingerprint r = fp \<and> rp_status r \<noteq> Active)"

lemma finish_enrollments:
  "rd_enrollments (fst (finish_enrollment w days t row db)) \<in>
     {rd_enrollments db, update_where (\<lambda>e. en_id e = en_id row) (\<lambda>e. e\<lparr>en_status := Consumed, en_consumed_at := Some t\<rparr>) (rd_enrollments db)}"
  by (simp add: finish_enrollment_def split: sum.split)

lemma finish_replicas:
  assumes "enroll_ok db" "row \<in> set (rd_enrollments db)" "en_status row = Waiting" "r \<in> set (rd_replicas db)"
  shows "r \<in> set (rd_replicas (fst (finish_enrollment w days t row db)))"
  using assms(4) finish_put_replica [OF assms(1-3)] by (simp add: finish_enrollment_def insert_row_def split: sum.split)

lemma settled_update:
  assumes "settled i h db" "same_enrollment f" "\<And>e. p e \<Longrightarrow> en_status e = Waiting \<or> en_status (f e) \<noteq> Waiting"
  shows "settled i h (db\<lparr>rd_enrollments := update_where p f (rd_enrollments db), rd_replicas := rs\<rparr>)"
proof -
  obtain e where e: "e \<in> set (rd_enrollments db)" "en_id e = i" "en_hash e = h" "en_status e \<noteq> Waiting" using assms(1) by (auto simp: settled_def)
  have "(if p e then f e else e) \<in> set (update_where p f (rd_enrollments db))" using e(1) by (simp add: update_where_def)
  moreover have "en_id (if p e then f e else e) = i" "en_hash (if p e then f e else e) = h" "en_status (if p e then f e else e) \<noteq> Waiting"
    using e assms(2,3) by (auto simp: same_enrollment_def)
  ultimately show ?thesis unfolding settled_def by fastforce
qed

interpretation tables: kept_by_changes UNIV "\<lambda>_. True"
  by unfold_locales simp_all

interpretation settled: kept_by_changes A "settled i h" for A i h
proof unfold_locales
  fix db p f assume "settled i h db" "same_enrollment f"
  then show "settled i h (touch p f db)" using settled_update [of i h db f "\<lambda>e. en_status e = Waiting \<and> p e" "rd_replicas db"]
    by (simp add: touch_def)
next
  fix db w days t and row :: enrollment assume s: "settled i h db"
  have "settled i h (db\<lparr>rd_enrollments := es, rd_replicas := rs\<rparr>)"
    if "es \<in> {rd_enrollments db, update_where (\<lambda>e. en_id e = en_id row) (\<lambda>e. e\<lparr>en_status := Consumed, en_consumed_at := Some t\<rparr>) (rd_enrollments db)}" for es rs
    using that s settled_update [OF s, of "\<lambda>e. e\<lparr>en_status := Consumed, en_consumed_at := Some t\<rparr>" "\<lambda>e. en_id e = en_id row" rs] by (auto simp: settled_def)
  from this [OF finish_enrollments [of w days t row db], of "[]"] show "settled i h (fst (finish_enrollment w days t row db))"
    by (simp add: settled_def)
qed (auto simp: settled_def insert_row_def)

interpretation barred: kept_by_changes "- {i}" "barred i fp" for i fp
proof unfold_locales
  fix db w days row t
  assume "enroll_ok db" "barred i fp db" "row \<in> set (rd_enrollments db)" "en_status row = Waiting"
  then show "barred i fp (fst (finish_enrollment w days t row db))" unfolding barred_def using finish_replicas by blast
next
  fix db j st
  assume "barred i fp db" and j: "j \<in> - {i}"
  then obtain r where "r \<in> set (rd_replicas db)" "rp_id r = i" "rp_fingerprint r = fp" "rp_status r \<noteq> Active" by (auto simp: barred_def)
  moreover from this j have "r \<in> set (update_where (\<lambda>r. rp_id r = j) (\<lambda>r. r\<lparr>rp_status := st\<rparr>) (rd_replicas db))"
    by (force simp: update_where_def)
  ultimately show "barred i fp (db\<lparr>rd_replicas := update_where (\<lambda>r. rp_id r = j) (\<lambda>r. r\<lparr>rp_status := st\<rparr>) (rd_replicas db)\<rparr>)"
    unfolding barred_def by auto
qed (auto simp: barred_def touch_def)

section \<open>Refused tokens\<close>

definition spent :: "string \<Rightarrow> repl_db \<Rightarrow> bool" where
  "spent h db \<longleftrightarrow> (\<forall>e\<in>set (rd_enrollments db). en_hash e = h \<longrightarrow> en_status e \<noteq> Waiting)"

lemma settled_spent:
  assumes "settled i h db" "length (filter (\<lambda>e. en_hash e = h) (rd_enrollments db)) \<le> 1"
  shows "spent h db"
proof -
  obtain e where e: "e \<in> set (rd_enrollments db)" "en_hash e = h" "en_status e \<noteq> Waiting" using assms(1) by (auto simp: settled_def)
  obtain x where "set (filter (\<lambda>e. en_hash e = h) (rd_enrollments db)) \<subseteq> {x}"
    using assms(2) by (cases "filter (\<lambda>e. en_hash e = h) (rd_enrollments db)") auto
  then show ?thesis using e by (auto simp: spent_def)
qed

lemma spent_touch: "spent h db \<Longrightarrow> same_enrollment f \<Longrightarrow> spent h (touch p f db)"
  by (auto simp: spent_def touch_def update_where_def same_enrollment_def)

lemma spent_expire: "spent h db \<Longrightarrow> spent h (expire_stale_enrollments t db)"
  unfolding expire_touch by (intro spent_touch) simp_all

lemma find_none: "(\<And>x. x \<in> set xs \<Longrightarrow> \<not> p x) \<Longrightarrow> List.find p xs = None"
  by (simp add: find_None_iff)

lemma spent_refused:
  assumes "spent (sha token) db"
  shows "isl (snd (handle_enroll w sha s t token db))" "isl (snd (consume_enrollment w sha days t token db))"
    "isl (snd (process_pending_enrollment_consumption w days t (sha token) db))"
proof -
  note sp = spent_expire [OF assms, of t]
  have "filter (reservable (sha token) t) (rd_enrollments (expire_stale_enrollments t db)) = []"
    using sp by (auto simp: spent_def reservable_def filter_empty_conv)
  then have "request_enrollment_consumption sha t token db = (expire_stale_enrollments t db, Inl enroll_rejected)"
    by (simp add: request_enrollment_consumption_def Let_def)
  then show "isl (snd (handle_enroll w sha s t token db))" by (simp add: handle_enroll_def)
  have "List.find (\<lambda>e. en_hash e = sha token \<and> en_status e = Waiting \<and> t \<le> en_expires_at e) (rd_enrollments (expire_stale_enrollments t db)) = None"
    using sp by (intro find_none) (auto simp: spent_def)
  then show "isl (snd (consume_enrollment w sha days t token db))" by (simp add: consume_enrollment_def Let_def)
  have "List.find (\<lambda>e. en_hash e = sha token \<and> en_status e = Waiting \<and> en_reserved_at e \<noteq> None) (rd_enrollments db) = None"
    using assms by (intro find_none) (auto simp: spent_def)
  then show "isl (snd (process_pending_enrollment_consumption w days t (sha token) db))"
    by (simp add: process_pending_enrollment_consumption_def read_reservation_def)
qed

lemma finish_settled:
  assumes "issue_client_cert w (en_node row) days = Inr c" "row \<in> set (rd_enrollments db)"
  shows "settled (en_id row) (en_hash row) (fst (finish_enrollment w days t row db))"
proof -
  have "row\<lparr>en_status := Consumed, en_consumed_at := Some t\<rparr> \<in>
      set (update_where (\<lambda>e. en_id e = en_id row) (\<lambda>e. e\<lparr>en_status := Consumed, en_consumed_at := Some t\<rparr>) (rd_enrollments db))"
    using assms(2) by (force simp: update_where_def)
  then show ?thesis unfolding settled_def finish_enrollment_def assms(1) sum.case fst_conv by (intro bexI [where x = "row\<lparr>en_status := Consumed, en_consumed_at := Some t\<rparr>"]) simp_all
qed

lemma finish_Inr:
  assumes "finish_enrollment w days t row db = (db', Inr r)"
  obtains c where "issue_client_cert w (en_node row) days = Inr c"
  using assms by (auto simp: finish_enrollment_def split: sum.splits)

lemma request_Inr:
  assumes "request_enrollment_consumption sha t token db = (d, Inr (node, name, h))"
  shows "h = sha token"
  using assms by (auto simp: request_enrollment_consumption_def Let_def split: if_splits option.splits)

lemma handle_settled:
  assumes "handle_enroll w sha s t token db = (db1, Inr r)"
  shows "\<exists>i. settled i (sha token) db1"
proof -
  obtain d v where req: "request_enrollment_consumption sha t token db = (d, Inr v)"
    using assms by (auto simp: handle_enroll_def split: if_splits prod.splits sum.splits)
  obtain a b h where v: "v = (a, b, h)" by (rule prod_cases3)
  have h: "h = sha token" using request_Inr req v by blast
  have pr: "process_pending_enrollment_consumption w 825 t h d = (db1, Inr r)"
    using assms by (auto simp: handle_enroll_def req v split: if_splits prod.splits sum.splits sudo.splits)
  then obtain row where row: "read_reservation h d = Inr row" "finish_enrollment w 825 t row d = (db1, Inr r)"
    by (auto simp: process_pending_enrollment_consumption_def split: sum.splits)
  obtain c where "issue_client_cert w (en_node row) 825 = Inr c" using finish_Inr [OF row(2)] .
  from finish_settled [OF this read_reservation_Inr(1) [OF row(1)], of t] show ?thesis
    using read_reservation_Inr(3) [OF row(1)] row(2) h by auto
qed

lemma unique_hash_update:
  "same_enrollment f \<Longrightarrow> length (filter (\<lambda>e. en_hash e = h) (update_where p f es)) = length (filter (\<lambda>e. en_hash e = h) es)"
  by (induction es) (auto simp: update_where_def same_enrollment_def)

lemma fold_unique:
  assumes "length (filter p xs) \<le> 1" "x \<in> set xs" "y \<in> set xs" "p x" "p y"
  shows "x = y"
proof -
  obtain z where "set (filter p xs) \<subseteq> {z}" using assms(1) by (cases "filter p xs") auto
  then show ?thesis using assms(2-5) by auto
qed

text \<open>The row that a request reserved is the one the privileged step reads.\<close>

lemma reserved_row:
  assumes req: "request_enrollment_consumption sha t token db = (d, Inr (node, name, h))" and h: "h \<noteq> []"
    and one: "length (filter (\<lambda>e. en_hash e = h) (rd_enrollments db)) \<le> 1"
  obtains row where "read_reservation h d = Inr row" "en_node row = node"
proof -
  let ?x = "expire_stale_enrollments t db"
  have h': "h = sha token" using request_Inr [OF req] .
  have d: "d = ?x\<lparr>rd_enrollments := update_where (reservable h t) (\<lambda>e. e\<lparr>en_reserved_at := Some t\<rparr>) (rd_enrollments ?x)\<rparr>"
    and len: "length (filter (reservable h t) (rd_enrollments ?x)) = 1"
    and f: "\<exists>row. List.find (\<lambda>e. en_hash e = h) (rd_enrollments d) = Some row \<and> en_node row = node"
    using req by (auto simp: request_enrollment_consumption_def Let_def h' split: if_splits option.splits)
  have one': "length (filter (\<lambda>e. en_hash e = h) (rd_enrollments d)) \<le> 1"
    using one by (simp add: d expire_touch touch_def unique_hash_update)
  obtain e where e: "e \<in> set (rd_enrollments ?x)" "reservable h t e"
    using len by (metis One_nat_def filter_empty_conv length_0_conv nat.distinct(1))
  then have ed: "e\<lparr>en_reserved_at := Some t\<rparr> \<in> set (rd_enrollments d)" by (force simp: d update_where_def)
  obtain row where row: "List.find (\<lambda>e. en_hash e = h) (rd_enrollments d) = Some row" "en_node row = node" using f by blast
  have rowd: "row \<in> set (rd_enrollments d)" "en_hash row = h" using find_SomeD [OF row(1)] by auto
  have re: "row = e\<lparr>en_reserved_at := Some t\<rparr>"
    by (rule fold_unique [OF one' rowd(1) ed]) (use e(2) rowd(2) in \<open>simp_all add: reservable_def\<close>)
  have "List.find (\<lambda>e. en_hash e = h \<and> en_status e = Waiting \<and> en_reserved_at e \<noteq> None) (rd_enrollments d) \<noteq> None"
  proof
    assume "List.find (\<lambda>e. en_hash e = h \<and> en_status e = Waiting \<and> en_reserved_at e \<noteq> None) (rd_enrollments d) = None"
    then have "\<not> (en_hash row = h \<and> en_status row = Waiting \<and> en_reserved_at row \<noteq> None)" using rowd(1) unfolding find_None_iff by blast
    then show False using e(2) by (simp add: re reservable_def)
  qed
  then obtain row' where row': "List.find (\<lambda>e. en_hash e = h \<and> en_status e = Waiting \<and> en_reserved_at e \<noteq> None) (rd_enrollments d) = Some row'" by blast
  have "row' = row" using find_SomeD [OF row'] rowd by (intro fold_unique [OF one']) auto
  then show ?thesis using that [of row] row' row(2) h by (simp add: read_reservation_def)
qed

section \<open>Theorems\<close>

text \<open>
  Every sequence of operations of a primary keeps its tables well formed: ids and node names are unique, and every
  replica belongs to an enrollment that was consumed.
\<close>

theorem enrollment_invariant:
  assumes "enroll_ok db" "(enroll_step sha UNIV)\<^sup>*\<^sup>* db db'"
  shows "enroll_ok db'"
  using tables.kept_steps [OF assms(2)] assms(1) by blast

text \<open>
  C11: A token with which a replica has enrolled is refused from then on, whatever operations follow, by the listener
  as well as by the two ways of spending it, as long as no other enrollment has the same token.
\<close>

theorem token_spent_once:
  assumes "enroll_ok db" "issues_fresh w 825 db" "handle_enroll w sha s t token db = (db1, Inr r)" "(enroll_step sha UNIV)\<^sup>*\<^sup>* db1 db2"
    and "length (filter (\<lambda>e. en_hash e = sha token) (rd_enrollments db2)) \<le> 1"
  shows "isl (snd (handle_enroll w' sha s' t' token db2)) \<and> isl (snd (consume_enrollment w' sha days' t' token db2)) \<and>
    isl (snd (process_pending_enrollment_consumption w' days' t' (sha token) db2))"
proof -
  have "enroll_ok db1" using tables.kept_handle [of db w sha s t token] assms(1-3) by simp
  moreover obtain i where "settled i (sha token) db1" using handle_settled [OF assms(3)] by blast
  ultimately have "settled i (sha token) db2" using settled.kept_steps [OF assms(4)] by blast
  from settled_spent [OF this assms(5)] show ?thesis using spent_refused by blast
qed

text \<open>
  C12: A replica that is paused or revoked is refused with its certificate, whatever operations follow, until an
  operator sets its status again; in particular it cannot enroll itself once more.
\<close>

theorem barred_replica_stays_out:
  assumes "enroll_ok db" "r \<in> set (rd_replicas db)" "rp_status r \<noteq> Active" "(enroll_step sha (- {rp_id r}))\<^sup>*\<^sup>* db db'"
  shows "isl (authenticated_replica (Some (rp_fingerprint r)) db')"
proof -
  have "barred (rp_id r) (rp_fingerprint r) db" using assms(2,3) by (auto simp: barred_def)
  then have b: "enroll_ok db'" "barred (rp_id r) (rp_fingerprint r) db'" using barred.kept_steps [OF assms(4)] assms(1) by blast+
  then obtain r' where r': "r' \<in> set (rd_replicas db')" "rp_fingerprint r' = rp_fingerprint r" "rp_status r' \<noteq> Active" by (auto simp: barred_def)
  have "x = r'" if "replica_by_fingerprint (rp_fingerprint r) db' = Some x" for x
    using b(1) r' find_SomeD [OF that [unfolded replica_by_fingerprint_def]] by (auto simp: enroll_ok_def distinct_map inj_on_def)
  then show ?thesis using r'(3) by (auto simp: authenticated_replica_def split: option.split)
qed

text \<open>
  The reservation is read long before the privileged step writes, and the write does not look at the enrollment
  again: an enrollment that is revoked in between is consumed, and its replica is active.
\<close>

theorem revocation_lost_while_issuing:
  assumes "read_reservation h db = Inr row" "issue_client_cert w (en_node row) days = Inr c"
  shows "\<exists>db' out. finish_enrollment w days t row (revoke_enrollment (en_id row) db) = (db', out) \<and>
    list_ex (\<lambda>e. en_id e = en_id row \<and> en_status e = Consumed) (rd_enrollments db') \<and>
    list_ex (\<lambda>r. rp_node r = en_node row \<and> rp_fingerprint r = ce_fingerprint c \<and> rp_status r = Active) (rd_replicas db')"
proof -
  let ?d = "revoke_enrollment (en_id row) db" and ?f = "\<lambda>e. e\<lparr>en_status := Consumed, en_consumed_at := Some t\<rparr>"
  obtain db' out where f: "finish_enrollment w days t row ?d = (db', out)" by (rule prod.exhaust)
  have "row \<in> set (rd_enrollments db)" using read_reservation_Inr [OF assms(1)] by auto
  then have "en_id row \<in> en_id ` set (rd_enrollments ?d)"
    unfolding set_map [symmetric] revoke_touch by (simp add: touch_def map_update_same)
  then obtain e where "e \<in> set (rd_enrollments ?d)" "en_id e = en_id row" by auto
  then have "?f e \<in> set (update_where (\<lambda>e. en_id e = en_id row) ?f (rd_enrollments ?d))" "en_id (?f e) = en_id row"
    by (force simp: update_where_def)+
  moreover have "rd_enrollments db' = update_where (\<lambda>e. en_id e = en_id row) ?f (rd_enrollments ?d)"
    using f by (auto simp: finish_enrollment_def assms(2))
  ultimately have s: "list_ex (\<lambda>e. en_id e = en_id row \<and> en_status e = Consumed) (rd_enrollments db')"
    unfolding list_ex_iff by (intro bexI [where x = "?f e"]) simp_all
  have "rd_replicas db' = put_replica row c t (rd_replicas db)"
    using f by (auto simp: finish_enrollment_def assms(2) revoke_enrollment_def)
  moreover have "list_ex (\<lambda>r. rp_node r = en_node row \<and> rp_fingerprint r = ce_fingerprint c \<and> rp_status r = Active) (put_replica row c t (rd_replicas db))"
  proof (cases "list_ex (\<lambda>r. rp_node r = en_node row) (rd_replicas db)")
    case True
    then obtain r where r: "r \<in> set (rd_replicas db)" "rp_node r = en_node row" by (auto simp: list_ex_iff)
    let ?g = "\<lambda>r. r\<lparr>rp_fingerprint := ce_fingerprint c, rp_serial := ce_serial c, rp_enrolled_at := t, rp_status := Active\<rparr>"
    have "?g r \<in> set (put_replica row c t (rd_replicas db))" using r True by (force simp: put_replica_def update_where_def)
    then show ?thesis unfolding list_ex_iff by (intro bexI [where x = "?g r"]) (simp_all add: r(2))
  qed (simp add: put_replica_def insert_row_def)
  ultimately show ?thesis using f s by auto
qed

text \<open>
  When the server certificate cannot be made, the listener reports a failure and releases the reservation, but the
  token is already spent: the replica has no certificate, and every further attempt with the token is refused.
\<close>

theorem failed_enrollment_spends_token:
  assumes "request_enrollment_consumption sha t token db = (d, Inr (node, name, h))" "token \<noteq> []" "h \<noteq> []"
    and "length (filter (\<lambda>e. en_hash e = h) (rd_enrollments db)) \<le> 1"
    and "issue_client_cert w node 825 = Inr c" "is_server w = Inl e"
  shows "\<exists>db1 message. handle_enroll w sha (Started readable) t token db = (db1, Inl message) \<and> isl (snd (handle_enroll w' sha s' t' token db1))"
proof -
  obtain row where row: "read_reservation h d = Inr row" "en_node row = node" using reserved_row [OF assms(1,3,4)] .
  obtain d1 where f: "finish_enrollment w 825 t row d = (d1, Inl e)" by (simp add: finish_enrollment_def row(2) assms(5,6))
  have h: "h = sha token" using request_Inr [OF assms(1)] .
  have handle: "handle_enroll w sha (Started readable) t token db =
      (release_enrollment_reservation h d1, Inl (''enrollment could not be completed: '' @ last_chars 500 (''error: '' @ e @ [newline])))"
    using assms(1,2) by (simp add: handle_enroll_def process_pending_enrollment_consumption_def row(1) f)
  have "settled (en_id row) h d1"
    using finish_settled [of w row 825 c d t] assms(5) row read_reservation_Inr(1,3) [OF row(1)] f by simp
  moreover have "length (filter (\<lambda>e. en_hash e = h) (rd_enrollments d1)) \<le> 1"
  proof -
    have "length (filter (\<lambda>e. en_hash e = h) (rd_enrollments d)) \<le> 1"
      using reserve_touch [of sha t token db] assms(1,4) by (auto simp: expire_touch touch_def unique_hash_update)
    then show ?thesis using finish_enrollments [of w 825 t row d] by (auto simp: f unique_hash_update)
  qed
  ultimately have "spent h d1" by (rule settled_spent)
  then have "spent h (release_enrollment_reservation h d1)" unfolding release_touch by (rule spent_touch) simp
  then show ?thesis using handle spent_refused(1) [of sha token _ w' s' t'] by (simp add: h)
qed

section \<open>Witnesses\<close>

definition example_issuer :: issuer where
  "example_issuer =
     \<lparr>is_sign = (\<lambda>node days. Inr (''cert-'' @ node, ''key'')), is_fingerprint = (\<lambda>cert. ''sha256 Fingerprint=AB:'' @ cert),
      is_serial = (\<lambda>_. ''serial=01''), is_server = Inr (), is_ca = Inr ''ca''\<rparr>"

definition example_primary :: repl_db where
  "example_primary =
     \<lparr>rd_settings = [],
      rd_enrollments = [\<lparr>en_id = 1, en_node = ''n1'', en_name = ''dns2'', en_hash = ''tok'', en_created_at = 0, en_expires_at = 900,
        en_status = Waiting, en_consumed_at = None, en_reserved_at = None\<rparr>], rd_replicas = []\<rparr>"

definition enrolled_primary :: repl_db where
  "enrolled_primary = fst (handle_enroll example_issuer id (Started True) 5 ''tok'' example_primary)"

lemma example_primary_ok: "enroll_ok example_primary" "issues_fresh example_issuer 825 example_primary"
  by (simp_all add: enroll_ok_def example_primary_def rowids_ok_def issues_fresh_def)

lemma enrolled_primary_ok: "enroll_ok enrolled_primary"
  unfolding enrolled_primary_def using tables.kept_handle [of example_primary example_issuer] example_primary_ok by blast

theorem enrollment_invariant_witness: "enroll_ok (revoke_enrollment 1 example_primary)"
  by (rule enrollment_invariant [OF example_primary_ok(1), where sha = id]) (rule r_into_rtranclp, rule es_revoke)

lemma example_enrolls:
  "handle_enroll example_issuer id (Started True) 5 ''tok'' example_primary =
     (enrolled_primary, Inr \<lparr>el_node = ''n1'', el_name = ''dns2'', el_ca = ''ca'', el_cert = ''cert-n1'', el_key = ''key''\<rparr>)"
proof -
  have "snd (handle_enroll example_issuer id (Started True) 5 ''tok'' example_primary) =
      Inr \<lparr>el_node = ''n1'', el_name = ''dns2'', el_ca = ''ca'', el_cert = ''cert-n1'', el_key = ''key''\<rparr>" by code_simp
  then show ?thesis by (metis enrolled_primary_def prod.collapse)
qed

theorem token_spent_once_witness:
  "isl (snd (handle_enroll example_issuer id (Started True) 6 ''tok'' (release_enrollment_reservation ''tok'' enrolled_primary)))"
proof -
  let ?db = "release_enrollment_reservation ''tok'' enrolled_primary"
  have "length (filter (\<lambda>e. en_hash e = id ''tok'') (rd_enrollments ?db)) \<le> 1" by code_simp
  moreover have "(enroll_step id UNIV)\<^sup>*\<^sup>* enrolled_primary ?db" by (rule r_into_rtranclp, rule es_release)
  ultimately show ?thesis using token_spent_once [OF example_primary_ok example_enrolls] by blast
qed

theorem barred_replica_stays_out_witness:
  "isl (authenticated_replica (Some ''f'') (revoke_enrollment 7 \<lparr>rd_settings = [],
     rd_enrollments = [\<lparr>en_id = 1, en_node = ''n1'', en_name = ''dns2'', en_hash = ''tok'', en_created_at = 0, en_expires_at = 900,
        en_status = Consumed, en_consumed_at = Some 5, en_reserved_at = None\<rparr>],
     rd_replicas = [\<lparr>rp_id = 1, rp_node = ''n1'', rp_name = ''dns2'', rp_fingerprint = ''f'', rp_serial = [], rp_enrolled_at = 5, rp_status = Revoked,
        rp_acked = 0, rp_ack_hash = [], rp_seen_at = None, rp_result = []\<rparr>]\<rparr>))" (is "isl (authenticated_replica (Some ''f'') (revoke_enrollment 7 ?db))")
proof -
  have "enroll_ok ?db" by (simp add: enroll_ok_def rowids_ok_def)
  moreover have "hd (rd_replicas ?db) \<in> set (rd_replicas ?db)" "rp_status (hd (rd_replicas ?db)) \<noteq> Active" by simp_all
  moreover have "(enroll_step id (- {rp_id (hd (rd_replicas ?db))}))\<^sup>*\<^sup>* ?db (revoke_enrollment 7 ?db)" by (rule r_into_rtranclp, rule es_revoke)
  ultimately have "isl (authenticated_replica (Some (rp_fingerprint (hd (rd_replicas ?db)))) (revoke_enrollment 7 ?db))" by (rule barred_replica_stays_out)
  then show ?thesis by simp
qed

definition reserved_primary :: repl_db where
  "reserved_primary = fst (request_enrollment_consumption id 5 ''tok'' example_primary)"

theorem revocation_lost_while_issuing_witness:
  "\<exists>row db' out. read_reservation ''tok'' reserved_primary = Inr row \<and>
     finish_enrollment example_issuer 825 6 row (revoke_enrollment (en_id row) reserved_primary) = (db', out) \<and>
     list_ex (\<lambda>r. rp_node r = ''n1'' \<and> rp_status r = Active) (rd_replicas db')"
proof -
  have "\<not> isl (read_reservation ''tok'' reserved_primary)" "en_node (projr (read_reservation ''tok'' reserved_primary)) = ''n1''" by code_simp+
  then obtain row where row: "read_reservation ''tok'' reserved_primary = Inr row" "en_node row = ''n1''"
    by (metis sum.collapse(2))
  obtain c where "issue_client_cert example_issuer (en_node row) 825 = Inr c" by (simp add: issue_client_cert_def example_issuer_def)
  from revocation_lost_while_issuing [OF row(1) this, of 6] obtain db' out where
    f: "finish_enrollment example_issuer 825 6 row (revoke_enrollment (en_id row) reserved_primary) = (db', out)"
      "list_ex (\<lambda>r. rp_node r = en_node row \<and> rp_fingerprint r = ce_fingerprint c \<and> rp_status r = Active) (rd_replicas db')" by blast
  then have "list_ex (\<lambda>r. rp_node r = ''n1'' \<and> rp_status r = Active) (rd_replicas db')" using row(2) by (auto simp: list_ex_iff)
  then show ?thesis using row(1) f(1) by blast
qed

theorem failed_enrollment_spends_token_witness:
  "\<exists>db1 message. handle_enroll (example_issuer\<lparr>is_server := Inl ''no space''\<rparr>) id (Started True) 5 ''tok'' example_primary = (db1, Inl message) \<and>
     isl (snd (handle_enroll example_issuer id (Started True) 60 ''tok'' db1))"
proof -
  have "snd (request_enrollment_consumption id 5 ''tok'' example_primary) = Inr (''n1'', ''dns2'', ''tok'')" by code_simp
  then have req: "request_enrollment_consumption id 5 ''tok'' example_primary = (reserved_primary, Inr (''n1'', ''dns2'', ''tok''))"
    by (metis reserved_primary_def prod.collapse)
  have one: "length (filter (\<lambda>e. en_hash e = ''tok'') (rd_enrollments example_primary)) \<le> 1" by (simp add: example_primary_def)
  obtain c where c: "issue_client_cert (example_issuer\<lparr>is_server := Inl ''no space''\<rparr>) ''n1'' 825 = Inr c"
    by (simp add: issue_client_cert_def example_issuer_def)
  have sv: "is_server (example_issuer\<lparr>is_server := Inl ''no space''\<rparr>) = Inl ''no space''" by simp
  show ?thesis by (rule failed_enrollment_spends_token [OF req _ _ one c sv]) simp_all
qed

end
