(* ===== verification/Replica_Sync.thy ===== *)
theory Replica_Sync
  imports Enrollment Client_Access
begin

text \<open>
  Replication (\<^verbatim>\<open>app/replication.py\<close>), second part: the replicated payload, the generations of a primary, and the
  synchronisation of a replica.  A table is kept with its column defaults and its constraints, since a synchronisation
  deletes all rows and inserts new ones; every table that exists has the replicated columns.  The payload is a
  value, which its JSON text encodes; kinds and actions of clients and rules are those of the tables.  Arguments:
  the hash of a payload, the fetched generation, and the outcome of the deployment (record \<open>sync_world\<close>).
  Shown: after a successful synchronisation the replica has the payload of the primary and reports no drift, a
  failed deployment brings the replicated tables back, every attempt is recorded, and where the code does less
  than that.
\<close>

section \<open>Tables\<close>

datatype sqlv = VNull | VInt int | VText string

type_synonym row = "(string \<times> sqlv) list"

text \<open>\<open>tb_defaults\<close>: all columns with the value an insertion gives those it leaves out; \<open>tb_refuses\<close>: the constraint a new row violates.\<close>

record sql_table =
  tb_defaults :: row
  tb_refuses :: "row list \<Rightarrow> row \<Rightarrow> string option"
  tb_rows :: "row list"

definition pick :: "string list \<Rightarrow> row \<Rightarrow> row" where
  "pick cols r = map (\<lambda>c. (c, dict_get r c VNull)) cols"

definition select_rows :: "string list \<Rightarrow> sql_table \<Rightarrow> row list" where
  "select_rows cols t = map (pick cols) (tb_rows t)"

definition new_row :: "row \<Rightarrow> row \<Rightarrow> row" where
  "new_row defaults given = map (\<lambda>(c, d). (c, dict_get given c d)) defaults"

fun insert_rows :: "row list \<Rightarrow> sql_table \<Rightarrow> sql_table \<times> unit result" where
  "insert_rows [] t = (t, Inr ())"
| "insert_rows (given # rest) t =
     (let r = new_row (tb_defaults t) given in
      case tb_refuses t (tb_rows t) r of
        Some e \<Rightarrow> (t, Inl e)
      | None \<Rightarrow> insert_rows rest (t\<lparr>tb_rows := tb_rows t @ [r]\<rparr>))"

text \<open>\<^verbatim>\<open>tuple(row[c] for c in cols)\<close>.\<close>

fun row_values :: "string list \<Rightarrow> row \<Rightarrow> row result" where
  "row_values [] r = Inr []"
| "row_values (c # cols) r =
     (case map_of r c of None \<Rightarrow> Inl (py_repr c) | Some v \<Rightarrow> map_sum id ((#) (c, v)) (row_values cols r))"

fun all_values :: "string list \<Rightarrow> row list \<Rightarrow> row list result" where
  "all_values cols [] = Inr []"
| "all_values cols (r # rs) = then_ok (row_values cols r) (\<lambda>v. map_sum id ((#) v) (all_values cols rs))"

definition replace_rows :: "string list \<Rightarrow> row list \<Rightarrow> sql_table \<Rightarrow> sql_table \<times> unit result" where
  "replace_rows cols rows t0 =
     (let t = t0\<lparr>tb_rows := []\<rparr> in
      case all_values cols rows of Inl e \<Rightarrow> (t, Inl e) | Inr given \<Rightarrow> insert_rows given t)"

section \<open>The replicated data\<close>

definition REPLICABLE_TABLES :: "(string \<times> string list) list" where
  "REPLICABLE_TABLES =
     [(''sources'', [''name'', ''url'', ''enabled'', ''category'']),
      (''custom_rules'', [''domain'', ''action'', ''enabled'', ''comment'', ''created_at'']),
      (''custom_filter_rules'',
        [''rule_text'', ''normalized'', ''rule_type'', ''action'', ''domain'', ''match_subdomains'', ''pattern'', ''rewrite_address'',
         ''address_family'', ''qtype_restriction'', ''priority'', ''enabled'', ''validation_state'', ''unsupported_reason'', ''source_system'',
         ''comment'', ''created_at'', ''updated_at'']),
      (''categories'', [''key'', ''name'', ''description'']),
      (''policy_profiles'', [''key'', ''name'', ''description'', ''is_custom'']),
      (''profile_categories'', [''profile_key'', ''category_key'', ''enabled'']),
      (''network_policies'', [''cidr'', ''profile_key'', ''description'', ''enabled'']),
      (''local_dns_records'', [''name'', ''fqdn'', ''record_type'', ''value'', ''ttl'', ''comment'', ''enabled'', ''auto_ptr'', ''created_at'', ''updated_at'']),
      (''client_aliases'', [''cidr'', ''display_name'', ''description'', ''created_at'', ''updated_at'']),
      (''access_settings'', [''default_policy'', ''updated_at''])]"

definition REPLICABLE_LOCAL_DNS_SETTING_KEYS :: "string list" where
  "REPLICABLE_LOCAL_DNS_SETTING_KEYS = [''internal_domain'', ''default_ttl'']"

definition REPLICABLE_CACHE_SETTING_KEYS :: "string list" where
  "REPLICABLE_CACHE_SETTING_KEYS =
     [''max_cache_size_mb'', ''min_cache_ttl'', ''max_cache_ttl'', ''min_ncache_ttl'', ''max_ncache_ttl'', ''prefetch_enabled'',
      ''prefetch_trigger'', ''prefetch_eligible'', ''serve_stale_enabled'', ''max_stale_ttl'', ''stale_answer_client_timeout'']"

definition REPLICABLE_ENCRYPTION_SETTING_KEYS :: "string list" where
  "REPLICABLE_ENCRYPTION_SETTING_KEYS =
     [''doh_enabled'', ''doh3_enabled'', ''dot_enabled'', ''doq_enabled'', ''dnscrypt_enabled'', ''doh_path'', ''doh_port'', ''doh3_port'',
      ''dot_port'', ''doq_port'', ''dnscrypt_port'']"

definition NEVER_REPLICATED_TABLES :: "string list" where
  "NEVER_REPLICATED_TABLES =
     [''query_events'', ''analytics_events'', ''analytics_aggregate_buckets'', ''analytics_counter_state'', ''admins'', ''login_attempts'',
      ''deployments'', ''local_dns_deployments'', ''dns_cache_deployments'', ''dns_cache_flushes'', ''encryption_deployments'', ''import_jobs'',
      ''replication_settings'', ''replication_enrollments'', ''replication_replicas'', ''replication_generations'', ''replication_sync_history'',
      ''upstream_resolvers'', ''upstream_deployments'']"

record client_entry =
  ce_name :: string
  ce_description :: string
  ce_enabled :: bool
  ce_identifiers :: "(identifier_kind \<times> string) list"

record rule_entry =
  re_action :: access_action
  re_kind :: access_kind
  re_value :: "string option"
  re_client_name :: "string option"

type_synonym dict = "(string \<times> string) list"

record sections =
  sc_tables :: "(string \<times> row list) list"
  sc_local :: "dict option"
  sc_cache :: "dict option"
  sc_encryption :: "dict option"
  sc_ca :: "string option"
  sc_clients :: "client_entry list option"
  sc_rules :: "rule_entry list option"

record client_tables =
  ct_clients :: "client_row list"
  ct_identifiers :: "identifier_row list"
  ct_rules :: "access_rule list"

record generation =
  gn_number :: int
  gn_created_at :: string
  gn_source :: string
  gn_schema :: int
  gn_hash :: string
  gn_sections :: sections

record sync_row =
  sy_attempted_at :: string
  sy_generation :: "int option"
  sy_result :: string
  sy_message :: string

text \<open>A node: the tables that exist, the CA certificate file, and the tables of the replication module.\<close>

record node =
  no_tables :: "(string \<times> sql_table) list"
  no_local :: "dict option"
  no_cache :: "dict option"
  no_encryption :: "dict option"
  no_clients :: "client_tables option"
  no_ca :: "string option"
  no_repl :: repl_db
  no_generations :: "generation list"
  no_history :: "sync_row list"

section \<open>Building the payload\<close>

text \<open>The selected entries of a settings table; a dictionary, so listed in the order of the keys.\<close>

definition select_settings :: "string list \<Rightarrow> dict \<Rightarrow> dict" where
  "select_settings keys t = concat (map (\<lambda>k. case map_of t k of None \<Rightarrow> [] | Some v \<Rightarrow> [(k, v)]) keys)"

definition build_clients_section :: "client_tables \<Rightarrow> client_entry list" where
  "build_clients_section ct =
     map (\<lambda>c. \<lparr>ce_name = cl_name c, ce_description = cl_description c, ce_enabled = cl_enabled c,
            ce_identifiers = map (\<lambda>i. (ci_kind i, ci_value i)) (filter (\<lambda>i. ci_client i = cl_id c) (ct_identifiers ct))\<rparr>) (ct_clients ct)"

definition build_access_rules_section :: "client_tables \<Rightarrow> rule_entry list" where
  "build_access_rules_section ct =
     map (\<lambda>r. \<lparr>re_action = ar_action r, re_kind = ar_kind r, re_value = ar_value r,
            re_client_name = (case ar_client r of None \<Rightarrow> None | Some i \<Rightarrow> map_option cl_name (row_by_id cl_id i (ct_clients ct)))\<rparr>) (ct_rules ct)"

definition payload_tables :: "(string \<times> sql_table) list \<Rightarrow> (string \<times> row list) list" where
  "payload_tables ts =
     concat (map (\<lambda>(name, cols). if name \<in> set NEVER_REPLICATED_TABLES then [] else
       case map_of ts name of None \<Rightarrow> [] | Some t \<Rightarrow> [(name, select_rows cols t)]) REPLICABLE_TABLES)"

definition build_payload :: "bool \<Rightarrow> bool \<Rightarrow> node \<Rightarrow> sections" where
  "build_payload include_encryption include_certificates n =
     \<lparr>sc_tables = payload_tables (no_tables n),
      sc_local = map_option (select_settings REPLICABLE_LOCAL_DNS_SETTING_KEYS) (no_local n),
      sc_cache = map_option (select_settings REPLICABLE_CACHE_SETTING_KEYS) (no_cache n),
      sc_encryption = (if include_encryption then map_option (select_settings REPLICABLE_ENCRYPTION_SETTING_KEYS) (no_encryption n) else None),
      sc_ca = (if include_certificates then no_ca n else None),
      sc_clients = map_option build_clients_section (no_clients n),
      sc_rules = map_option build_access_rules_section (no_clients n)\<rparr>"

section \<open>Generations\<close>

definition SCHEMA_VERSION :: int where "SCHEMA_VERSION = 1"

definition repl_setting :: "string \<Rightarrow> node \<Rightarrow> string option" where
  "repl_setting k n = map_of (rd_settings (no_repl n)) k"

definition with_settings :: "string \<Rightarrow> node \<Rightarrow> node" where
  "with_settings uuid n = n\<lparr>no_repl := replication_settings uuid (no_repl n)\<rparr>"

definition create_generation :: "(sections \<Rightarrow> string) \<Rightarrow> string \<Rightarrow> string \<Rightarrow> bool option \<Rightarrow> bool option \<Rightarrow> node \<Rightarrow> node \<times> generation" where
  "create_generation sha uuid t enc cert n0 =
     (let n = with_settings uuid n0;
          inc_enc = (case enc of None \<Rightarrow> repl_setting ''include_encryption_settings'' n = Some ''1'' | Some b \<Rightarrow> b);
          inc_cert = (case cert of None \<Rightarrow> repl_setting ''include_certificates'' n = Some ''1'' | Some b \<Rightarrow> b);
          content = build_payload inc_enc inc_cert n;
          g = \<lparr>gn_number = Max (insert 0 (gn_number ` set (no_generations n))) + 1, gn_created_at = t,
               gn_source = snd (node_id uuid (no_repl n)), gn_schema = SCHEMA_VERSION, gn_hash = sha content, gn_sections = content\<rparr>
      in (n\<lparr>no_generations := no_generations n @ [g]\<rparr>, g))"

definition latest_generation :: "node \<Rightarrow> generation option" where
  "latest_generation n =
     List.find (\<lambda>g. \<forall>h\<in>set (no_generations n). gn_number h \<le> gn_number g) (no_generations n)"

definition on_deploy_success :: "(sections \<Rightarrow> string) \<Rightarrow> string \<Rightarrow> string \<Rightarrow> node \<Rightarrow> node \<times> generation option" where
  "on_deploy_success sha uuid t n0 =
     (let n = with_settings uuid n0 in
      if repl_setting ''role'' n \<noteq> Some ''primary'' then (n, None)
      else map_prod id Some (create_generation sha uuid t None None n))"

section \<open>The listener\<close>

definition change_replica :: "nat \<Rightarrow> (replica \<Rightarrow> replica) \<Rightarrow> node \<Rightarrow> node" where
  "change_replica i f n =
     n\<lparr>no_repl := (no_repl n)\<lparr>rd_replicas := update_where (\<lambda>r. rp_id r = i) f (rd_replicas (no_repl n))\<rparr>\<rparr>"


record ack =
  ak_generation :: pyval
  ak_hash :: string
  ak_result :: string
  ak_message :: string

definition handle_ack :: "string option \<Rightarrow> int \<Rightarrow> ack \<Rightarrow> node \<Rightarrow> node \<times> unit result" where
  "handle_ack peer t a n =
     (case authenticated_replica peer (no_repl n) of
        Inl e \<Rightarrow> (n, Inl e)
      | Inr r \<Rightarrow>
          (case py_int (ak_generation a) of
             None \<Rightarrow> (n, Inl (int_error (ak_generation a)))
           | Some number \<Rightarrow>
               (change_replica (rp_id r) (\<lambda>r.
                  let r = r\<lparr>rp_seen_at := Some t, rp_result := take 500 (ak_result a @ '': '' @ ak_message a)\<rparr> in
                  if ak_result a = ''success'' then r\<lparr>rp_acked := number, rp_ack_hash := ak_hash a\<rparr> else r) n, Inr ())))"

section \<open>Applying a payload\<close>

fun apply_identifiers :: "string \<Rightarrow> nat \<Rightarrow> (identifier_kind \<times> string) list \<Rightarrow> identifier_row list \<Rightarrow> identifier_row list" where
  "apply_identifiers ts i [] t = t"
| "apply_identifiers ts i ((k, v) # rest) t =
     apply_identifiers ts i rest
       (if v = [] \<or> list_ex (\<lambda>r. ci_kind r = k \<and> ci_value r = v) t then t
        else insert_row ci_id (\<lambda>i r. r\<lparr>ci_id := i\<rparr>) \<lparr>ci_id = 0, ci_client = i, ci_kind = k, ci_value = v, ci_created_at = ts\<rparr> t)"

fun apply_clients :: "string \<Rightarrow> client_entry list \<Rightarrow> client_tables \<times> (string \<times> nat) list \<Rightarrow> client_tables \<times> (string \<times> nat) list" where
  "apply_clients ts [] st = st"
| "apply_clients ts (c # cs) (ct, ids) =
     (let name = py_strip (ce_name c) in
      if name = [] then apply_clients ts cs (ct, ids)
      else
        let i = next_rowid cl_id (ct_clients ct) in
        apply_clients ts cs
          (ct\<lparr>ct_clients := insert_row cl_id (\<lambda>i r. r\<lparr>cl_id := i\<rparr>)
                \<lparr>cl_id = 0, cl_name = name, cl_description = ce_description c, cl_enabled = ce_enabled c, cl_created_at = ts, cl_updated_at = ts\<rparr> (ct_clients ct),
              ct_identifiers := apply_identifiers ts i (ce_identifiers c) (ct_identifiers ct)\<rparr>,
           AList.update name i ids))"

definition apply_rule :: "string \<Rightarrow> (string \<times> nat) list \<Rightarrow> rule_entry \<Rightarrow> access_rule list \<Rightarrow> access_rule list" where
  "apply_rule ts ids r t =
     (let put = (\<lambda>client. insert_row ar_id (\<lambda>i r. r\<lparr>ar_id := i\<rparr>)
            \<lparr>ar_id = 0, ar_action = re_action r, ar_kind = re_kind r, ar_value = re_value r, ar_client = client, ar_created_at = ts\<rparr> t) in
      if re_kind r = ByClient then
        (case map_of ids (case re_client_name r of None \<Rightarrow> [] | Some s \<Rightarrow> s) of None \<Rightarrow> t | Some i \<Rightarrow> put (Some i))
      else put None)"

definition apply_clients_access_sections :: "string \<Rightarrow> client_entry list option \<Rightarrow> rule_entry list option \<Rightarrow> client_tables \<Rightarrow> client_tables" where
  "apply_clients_access_sections ts cs rs ct =
     (if cs = None \<and> rs = None then ct
      else
        let (ct1, ids) = apply_clients ts (case cs of None \<Rightarrow> [] | Some l \<Rightarrow> l) (\<lparr>ct_clients = [], ct_identifiers = [], ct_rules = []\<rparr>, [])
        in ct1\<lparr>ct_rules := fold (apply_rule ts ids) (case rs of None \<Rightarrow> [] | Some l \<Rightarrow> l) []\<rparr>)"

definition replace_settings_subset :: "string list \<Rightarrow> dict \<Rightarrow> dict \<Rightarrow> dict" where
  "replace_settings_subset keys new t = filter (\<lambda>(k, _). k \<notin> set keys) t @ filter (\<lambda>(k, _). k \<in> set keys) new"

fun replace_tables :: "(string list \<Rightarrow> row list \<Rightarrow> string list) \<Rightarrow> (string \<times> row list) list \<Rightarrow> (string \<times> string list) list \<Rightarrow>
    (string \<times> sql_table) list \<Rightarrow> (string \<times> sql_table) list \<times> unit result" where
  "replace_tables colf content [] ts = (ts, Inr ())"
| "replace_tables colf content ((name, cols) # rest) ts =
     (case (map_of content name, map_of ts name) of
        (Some rows, Some t) \<Rightarrow>
          (case replace_rows (colf cols rows) rows t of
             (t', Inl e) \<Rightarrow> (AList.update name t' ts, Inl e)
           | (t', Inr _) \<Rightarrow> replace_tables colf content rest (AList.update name t' ts))
      | _ \<Rightarrow> replace_tables colf content rest ts)"

definition or_empty :: "dict option \<Rightarrow> dict" where
  "or_empty d = (case d of None \<Rightarrow> [] | Some x \<Rightarrow> x)"

definition write_sections :: "(string list \<Rightarrow> row list \<Rightarrow> string list) \<Rightarrow> string \<Rightarrow> sections \<Rightarrow> node \<Rightarrow> node \<times> unit result" where
  "write_sections colf ts s n =
     (case replace_tables colf (sc_tables s) REPLICABLE_TABLES (no_tables n) of
        (tabs, Inl e) \<Rightarrow> (n\<lparr>no_tables := tabs\<rparr>, Inl e)
      | (tabs, Inr _) \<Rightarrow>
          (n\<lparr>no_tables := tabs,
             no_local := map_option (replace_settings_subset REPLICABLE_LOCAL_DNS_SETTING_KEYS (or_empty (sc_local s))) (no_local n),
             no_cache := map_option (replace_settings_subset REPLICABLE_CACHE_SETTING_KEYS (or_empty (sc_cache s))) (no_cache n),
             no_encryption := map_option (replace_settings_subset REPLICABLE_ENCRYPTION_SETTING_KEYS (or_empty (sc_encryption s))) (no_encryption n),
             no_clients := map_option (apply_clients_access_sections ts (sc_clients s) (sc_rules s)) (no_clients n)\<rparr>, Inr ()))"

definition apply_sections :: "string \<Rightarrow> sections \<Rightarrow> node \<Rightarrow> node \<times> unit result" where
  "apply_sections = write_sections (\<lambda>cols rows. cols)"

text \<open>The snapshot has neither clients nor access rules.\<close>

definition snapshot_replicable_tables :: "node \<Rightarrow> sections" where
  "snapshot_replicable_tables n =
     \<lparr>sc_tables = concat (map (\<lambda>(name, cols). case map_of (no_tables n) name of None \<Rightarrow> [] | Some t \<Rightarrow> [(name, select_rows cols t)]) REPLICABLE_TABLES),
      sc_local = map_option (select_settings REPLICABLE_LOCAL_DNS_SETTING_KEYS) (no_local n),
      sc_cache = map_option (select_settings REPLICABLE_CACHE_SETTING_KEYS) (no_cache n),
      sc_encryption = map_option (select_settings REPLICABLE_ENCRYPTION_SETTING_KEYS) (no_encryption n),
      sc_ca = None, sc_clients = None, sc_rules = None\<rparr>"

definition restore_snapshot :: "string \<Rightarrow> sections \<Rightarrow> node \<Rightarrow> node \<times> unit result" where
  "restore_snapshot = write_sections (\<lambda>cols rows. if rows = [] then [] else map fst (hd rows))"

section \<open>Synchronisation\<close>

text \<open>
  \<open>sw_fetch\<close>: the answer of the primary or the error; \<open>sw_deploy\<close>: what the deployment reports, or an exception;
  \<open>sw_at\<close>, \<open>sw_end\<close>: the printed times.
\<close>

record sync_world =
  sw_uuid :: string
  sw_sha :: "sections \<Rightarrow> string"
  sw_fetch :: "generation option result"
  sw_deploy :: "(bool \<times> string) result"
  sw_at :: string
  sw_end :: string

record sync_result =
  sr_result :: string
  sr_message :: string
  sr_generation :: "int option"

definition set_repl :: "(string \<times> pyval) list \<Rightarrow> node \<Rightarrow> node" where
  "set_repl kvs n = n\<lparr>no_repl := replication_update_settings kvs (no_repl n)\<rparr>"

definition report :: "node \<Rightarrow> string \<Rightarrow> string \<Rightarrow> int option \<Rightarrow> node \<times> sync_result \<times> ack option" where
  "report n result message g = (n, \<lparr>sr_result = result, sr_message = message, sr_generation = g\<rparr>, None)"

definition acked :: "node \<Rightarrow> string \<Rightarrow> string \<Rightarrow> string \<Rightarrow> generation \<Rightarrow> node \<times> sync_result \<times> ack option" where
  "acked n result message note g =
     (n, \<lparr>sr_result = result, sr_message = message, sr_generation = Some (gn_number g)\<rparr>,
      Some \<lparr>ak_generation = PyInt (gn_number g), ak_hash = gn_hash g, ak_result = result, ak_message = note\<rparr>)"

definition with_failure :: "node \<Rightarrow> string \<Rightarrow> generation \<Rightarrow> node \<times> sync_result \<times> ack option" where
  "with_failure n message g = acked n ''failed'' message message g"

text \<open>From the hash check on: verify, apply, deploy, and restore or acknowledge.\<close>

definition install_generation :: "sync_world \<Rightarrow> generation \<Rightarrow> node \<Rightarrow> node \<times> sync_result \<times> ack option" where
  "install_generation w g n =
     (if sw_sha w (gn_sections g) \<noteq> gn_hash g
      then with_failure n (''payload content hash did not match the generation'' @ [CHR 0x27] @ ''s declared hash'') g
      else
        let snapshot = snapshot_replicable_tables n in
        case apply_sections (sw_at w) (gn_sections g) n of
          (_, Inl e) \<Rightarrow> with_failure n (''failed to apply staged data: '' @ e) g
        | (n1, Inr _) \<Rightarrow>
            (case sw_deploy w of
               Inl e \<Rightarrow> report n1 ''error'' e (Some (gn_number g))
             | Inr (ok, out) \<Rightarrow>
                 if \<not> ok then
                   (case restore_snapshot (sw_at w) snapshot n1 of
                      (n2, Inl e) \<Rightarrow> report n2 ''error'' e (Some (gn_number g))
                    | (n2, Inr _) \<Rightarrow> with_failure n2 (''deploy failed, rolled back: '' @ last_chars 500 out) g)
                 else
                   acked (set_repl [(''last_applied_generation'', PyInt (gn_number g)), (''last_applied_hash'', PyStr (gn_hash g)),
                            (''last_sync_status'', PyStr ''success''), (''last_sync_at'', PyStr (sw_at w)), (''drift_detected'', PyStr ''0'')] n1)
                     ''success'' (''applied generation '' @ str_int (gn_number g)) ''applied'' g))"

definition sync_attempt :: "sync_world \<Rightarrow> bool \<Rightarrow> node \<Rightarrow> node \<times> sync_result \<times> ack option" where
  "sync_attempt w force n0 =
     (let n = with_settings (sw_uuid w) n0 in
      if repl_setting ''paused'' n = Some ''1'' \<and> \<not> force then report n ''skipped'' ''replication is paused'' None
      else case sw_fetch w of
        Inl e \<Rightarrow> report n ''unreachable'' e None
      | Inr None \<Rightarrow> report n ''no_generation'' ''primary has not published a generation yet'' None
      | Inr (Some g) \<Rightarrow>
          let at = dict_get (rd_settings (no_repl n)) ''last_applied_generation'' ''0'' in
          (case (if force then Some None else map_option Some (int_of_str at)) of
             None \<Rightarrow> report n ''error'' (int_error (PyStr at)) (Some (gn_number g))
           | Some limit \<Rightarrow>
               if (case limit of None \<Rightarrow> False | Some l \<Rightarrow> gn_number g \<le> l)
               then report n ''up_to_date'' (''already at generation '' @ at) (Some (gn_number g))
               else if gn_schema g > SCHEMA_VERSION
               then report n ''failed'' (''generation requires schema version '' @ str_int (gn_schema g) @
                      '', this replica only supports '' @ str_int SCHEMA_VERSION) (Some (gn_number g))
               else install_generation w g n))"

text \<open>The \<^verbatim>\<open>finally\<close> clause.\<close>

definition record_attempt :: "sync_world \<Rightarrow> sync_result \<Rightarrow> node \<Rightarrow> node" where
  "record_attempt w r n =
     set_repl [(''last_sync_status'', PyStr (sr_result r)), (''last_sync_at'', PyStr (sw_end w))]
       (n\<lparr>no_history := no_history n @ [\<lparr>sy_attempted_at = sw_at w, sy_generation = sr_generation r, sy_result = sr_result r, sy_message = sr_message r\<rparr>]\<rparr>)"

definition replica_sync_once :: "sync_world \<Rightarrow> bool \<Rightarrow> node \<Rightarrow> node \<times> sync_result \<times> ack option" where
  "replica_sync_once w force n = (case sync_attempt w force n of (n1, r, a) \<Rightarrow> (record_attempt w r n1, r, a))"

record drift =
  dr_drifted :: bool
  dr_local_hash :: string
  dr_expected_hash :: string

definition check_drift :: "string \<Rightarrow> (sections \<Rightarrow> string) \<Rightarrow> string \<Rightarrow> node \<Rightarrow> node \<times> drift" where
  "check_drift uuid sha t n0 =
     (let n = with_settings uuid n0;
          expected = dict_get (rd_settings (no_repl n)) ''last_applied_hash'' [];
          local_hash = sha (build_payload False False n);
          drifted = (expected \<noteq> [] \<and> local_hash \<noteq> expected)
      in (set_repl [(''drift_detected'', PyStr (if drifted then ''1'' else ''0'')), (''drift_checked_at'', PyStr t)] n,
          \<lparr>dr_drifted = drifted, dr_local_hash = local_hash, dr_expected_hash = expected\<rparr>))"

definition sync_history :: "nat \<Rightarrow> node \<Rightarrow> sync_row list" where
  "sync_history limit n = take limit (rev (no_history n))"

definition MAX_BACKOFF_SECONDS :: int where "MAX_BACKOFF_SECONDS = 300"

definition next_backoff :: "int \<Rightarrow> string \<Rightarrow> int \<Rightarrow> int" where
  "next_backoff base_interval result backoff =
     (if result \<in> {''success'', ''up_to_date'', ''skipped'', ''no_generation''} then base_interval
      else min (backoff * 2) MAX_BACKOFF_SECONDS)"

text \<open>What a replica keeps of its enrollment: the three certificate files and the settings.\<close>

record repl_files =
  rf_ca :: string
  rf_cert :: string
  rf_key :: string

definition store_enrollment_material :: "string \<Rightarrow> enrolled \<Rightarrow> node \<Rightarrow> node \<times> repl_files" where
  "store_enrollment_material primary_address e n =
     (set_repl [(''role'', PyStr ''replica''), (''primary_address'', PyStr primary_address), (''last_applied_generation'', PyStr ''0''),
        (''last_applied_hash'', PyStr [])] n,
      \<lparr>rf_ca = el_ca e, rf_cert = el_cert e, rf_key = el_key e\<rparr>)"

text \<open>Host and port of the primary, when this node is an enrolled replica.\<close>

definition build_replica_context :: "string \<Rightarrow> repl_files option \<Rightarrow> node \<Rightarrow> (string \<times> int) option result" where
  "build_replica_context uuid files n0 =
     (let n = with_settings uuid n0; address = dict_get (rd_settings (no_repl n)) ''primary_address'' [] in
      if repl_setting ''role'' n \<noteq> Some ''replica'' \<or> files = None \<or> address = [] then Inr None
      else case partition_char CHR '':'' address of
        (host, _, port) \<Rightarrow>
          if port = [] then Inr (Some (host, 8843))
          else case int_of_str port of None \<Rightarrow> Inl (int_error (PyStr port)) | Some p \<Rightarrow> Inr (Some (host, p)))"

definition not_a_replica :: string where
  "not_a_replica = ''this node is not an enrolled replica''"

definition trigger_sync_now :: "sync_world \<Rightarrow> repl_files option \<Rightarrow> node \<Rightarrow> node \<times> sync_result result" where
  "trigger_sync_now w files n =
     (case build_replica_context (sw_uuid w) files n of
        Inl e \<Rightarrow> (with_settings (sw_uuid w) n, Inl e)
      | Inr None \<Rightarrow> (with_settings (sw_uuid w) n, Inl not_a_replica)
      | Inr (Some _) \<Rightarrow> (case replica_sync_once w True n of (n', r, _) \<Rightarrow> (n', Inr r)))"

section \<open>Rows and tables\<close>

lemma map_of_pick: "map_of (pick cols r) c = (if c \<in> set cols then Some (dict_get r c VNull) else None)"
  by (induction cols) (auto simp: pick_def)

lemma dict_get_new_row:
  assumes "c \<in> fst ` set defaults" "map_of given c = Some v"
  shows "dict_get (new_row defaults given) c d = v"
proof -
  have "map_of (new_row defaults given) c = Some v"
    using assms by (induction defaults) (auto simp: new_row_def dict_get_def)
  then show ?thesis by (simp add: dict_get_def)
qed

lemma pick_new_row:
  assumes "set cols \<subseteq> fst ` set defaults"
  shows "pick cols (new_row defaults (pick cols r)) = pick cols r"
proof -
  have "dict_get (new_row defaults (pick cols r)) c VNull = dict_get r c VNull" if "c \<in> set cols" for c
    using that assms by (intro dict_get_new_row) (auto simp: map_of_pick)
  then show ?thesis by (simp add: pick_def)
qed

lemma row_values_pick: "set cs \<subseteq> set cols \<Longrightarrow> row_values cs (pick cols r) = Inr (pick cs r)"
  by (induction cs) (simp_all add: map_of_pick, simp_all add: pick_def)

lemma all_values_pick: "all_values cols (map (pick cols) rs) = Inr (map (pick cols) rs)"
  by (induction rs) (simp_all add: row_values_pick then_ok_def)

lemma insert_rows_success:
  "insert_rows given t = (t', Inr ()) \<Longrightarrow> t' = t\<lparr>tb_rows := tb_rows t @ map (new_row (tb_defaults t)) given\<rparr>"
proof (induction given arbitrary: t)
  case (Cons g given)
  let ?t = "t\<lparr>tb_rows := tb_rows t @ [new_row (tb_defaults t) g]\<rparr>"
  have "insert_rows given ?t = (t', Inr ())" using Cons.prems by (simp add: Let_def split: option.splits)
  from Cons.IH [OF this] show ?case by simp
qed simp

lemma replaced_rows:
  assumes "replace_rows cols (map (pick cols) rs) t = (t', Inr ())" "set cols \<subseteq> fst ` set (tb_defaults t)"
  shows "select_rows cols t' = map (pick cols) rs" "tb_defaults t' = tb_defaults t"
proof -
  have "insert_rows (map (pick cols) rs) (t\<lparr>tb_rows := []\<rparr>) = (t', Inr ())" using assms(1) by (simp add: replace_rows_def all_values_pick)
  from insert_rows_success [OF this] show "select_rows cols t' = map (pick cols) rs" "tb_defaults t' = tb_defaults t"
    using pick_new_row [OF assms(2)] by (simp_all add: select_rows_def)
qed

text \<open>Dictionaries with at most one entry per listed name.\<close>

definition entries :: "('n \<Rightarrow> 'c \<Rightarrow> 'v option) \<Rightarrow> ('n \<times> 'c) list \<Rightarrow> ('n \<times> 'v) list" where
  "entries f l = concat (map (\<lambda>(n, c). case f n c of None \<Rightarrow> [] | Some v \<Rightarrow> [(n, v)]) l)"

lemma map_of_entries:
  assumes "distinct (map fst l)"
  shows "map_of (entries f l) n = (case map_of l n of None \<Rightarrow> None | Some c \<Rightarrow> f n c)"
  using assms
proof (induction l)
  case (Cons x l)
  obtain m c where x: "x = (m, c)" by (rule prod.exhaust)
  have "map_of l m = None" "distinct (map fst l)" using Cons.prems by (simp_all add: x map_of_eq_None_iff)
  moreover have "entries f (x # l) = (case f m c of None \<Rightarrow> [] | Some v \<Rightarrow> [(m, v)]) @ entries f l" by (simp add: entries_def x)
  ultimately show ?case using Cons.IH by (auto simp: x split: option.split)
qed (simp add: entries_def)

lemma entries_cong: "(\<And>n c. (n, c) \<in> set l \<Longrightarrow> f n c = g n c) \<Longrightarrow> entries f l = entries g l"
  by (induction l) (auto simp: entries_def)

lemma replicable_names: "distinct (map fst REPLICABLE_TABLES)"
  by code_simp

lemma never_replicated: "set (map fst REPLICABLE_TABLES) \<inter> set NEVER_REPLICATED_TABLES = {}"
  by code_simp

lemma payload_entries: "payload_tables ts = entries (\<lambda>n cols. map_option (select_rows cols) (map_of ts n)) REPLICABLE_TABLES"
proof -
  have "n \<notin> set NEVER_REPLICATED_TABLES" if "(n, cols) \<in> set REPLICABLE_TABLES" for n cols using that never_replicated by force
  then show ?thesis unfolding payload_tables_def entries_def
    by (intro arg_cong [where f = concat] map_cong) (auto split: option.split)
qed

lemma snapshot_entries: "sc_tables (snapshot_replicable_tables n) = payload_tables (no_tables n)"
proof -
  have "sc_tables (snapshot_replicable_tables n) = entries (\<lambda>name cols. map_option (select_rows cols) (map_of (no_tables n) name)) REPLICABLE_TABLES"
    unfolding entries_def snapshot_replicable_tables_def sections.simps
    by (intro arg_cong [where f = concat] map_cong refl) (simp split: option.split prod.split)
  then show ?thesis by (simp only: payload_entries)
qed

lemma replaced_tables:
  assumes "replace_tables colf content l ts = (ts', Inr ())" "distinct (map fst l)"
  shows "map_of l n = None \<or> map_of content n = None \<or> map_of ts n = None \<Longrightarrow> map_of ts' n = map_of ts n"
    and "\<lbrakk>map_of l n = Some cols; map_of content n = Some rows; map_of ts n = Some t\<rbrakk> \<Longrightarrow>
      \<exists>t'. replace_rows (colf cols rows) rows t = (t', Inr ()) \<and> map_of ts' n = Some t'"
proof -
  have "(map_of l n = None \<or> map_of content n = None \<or> map_of ts n = None \<longrightarrow> map_of ts' n = map_of ts n) \<and>
    (map_of l n = Some cols \<and> map_of content n = Some rows \<and> map_of ts n = Some t \<longrightarrow>
      (\<exists>t'. replace_rows (colf cols rows) rows t = (t', Inr ()) \<and> map_of ts' n = Some t'))"
    using assms
  proof (induction l arbitrary: ts)
    case (Cons x l)
    obtain name cols' where x: "x = (name, cols')" by (rule prod.exhaust)
    have l: "map_of l name = None" "distinct (map fst l)" using Cons.prems(2) by (simp_all add: x map_of_eq_None_iff)
    show ?case
    proof (cases "map_of content name = None \<or> map_of ts name = None")
      case True
      then have "replace_tables colf content l ts = (ts', Inr ())" using Cons.prems(1) by (auto simp: x split: option.splits)
      from Cons.IH [OF this l(2)] show ?thesis using True l(1) by (auto simp: x)
    next
      case False
      then obtain rows0 t0 where f: "map_of content name = Some rows0" "map_of ts name = Some t0" by auto
      obtain t1 r where r: "replace_rows (colf cols' rows0) rows0 t0 = (t1, r)" by (rule prod.exhaust)
      have "r = Inr ()" "replace_tables colf content l (AList.update name t1 ts) = (ts', Inr ())"
        using Cons.prems(1) f by (auto simp: x r split: sum.splits)
      from Cons.IH [OF this(2) l(2)] show ?thesis using l(1) f r \<open>r = Inr ()\<close> by (auto simp: x update_conv')
    qed
  qed simp
  then show "map_of l n = None \<or> map_of content n = None \<or> map_of ts n = None \<Longrightarrow> map_of ts' n = map_of ts n"
    and "\<lbrakk>map_of l n = Some cols; map_of content n = Some rows; map_of ts n = Some t\<rbrakk> \<Longrightarrow>
      \<exists>t'. replace_rows (colf cols rows) rows t = (t', Inr ()) \<and> map_of ts' n = Some t'" by blast+
qed

text \<open>Tables that have the replicated columns; the same tables exist.\<close>

definition columns_ok :: "(string \<times> sql_table) list \<Rightarrow> bool" where
  "columns_ok ts \<longleftrightarrow> (\<forall>(name, cols)\<in>set REPLICABLE_TABLES. \<forall>t. map_of ts name = Some t \<longrightarrow> set cols \<subseteq> fst ` set (tb_defaults t))"

definition same_tables :: "(string \<times> sql_table) list \<Rightarrow> (string \<times> sql_table) list \<Rightarrow> bool" where
  "same_tables ts ts' \<longleftrightarrow> (\<forall>(name, cols)\<in>set REPLICABLE_TABLES. (map_of ts name = None) = (map_of ts' name = None))"

lemma tables_replaced:
  assumes r: "replace_tables colf (payload_tables src) REPLICABLE_TABLES ts = (ts', Inr ())" and ok: "columns_ok ts" "same_tables src ts"
    and colf: "\<And>name cols t. map_of src name = Some t \<Longrightarrow> tb_rows t = [] \<or> colf cols (select_rows cols t) = cols"
  shows "payload_tables ts' = payload_tables src" "columns_ok ts'" "same_tables src ts'"
proof -
  note rep = replaced_tables [OF r replicable_names]
  have key: "map_option (select_rows cols) (map_of ts' name) = map_option (select_rows cols) (map_of src name) \<and>
      (\<forall>t'. map_of ts' name = Some t' \<longrightarrow> set cols \<subseteq> fst ` set (tb_defaults t'))" if n: "(name, cols) \<in> set REPLICABLE_TABLES" for name cols
  proof (cases "map_of src name")
    case None
    then have "map_of ts name = None" using ok(2) n by (auto simp: same_tables_def)
    then show ?thesis using rep(1) [of name] None by simp
  next
    case (Some t0)
    have m: "map_of REPLICABLE_TABLES name = Some cols" using n replicable_names by simp
    have c: "map_of (payload_tables src) name = Some (select_rows cols t0)"
      unfolding payload_entries map_of_entries [OF replicable_names] by (simp add: m Some)
    obtain t where t: "map_of ts name = Some t" using ok(2) n Some by (fastforce simp: same_tables_def)
    have cols: "set cols \<subseteq> fst ` set (tb_defaults t)" using bspec [OF ok(1) [unfolded columns_ok_def] n] t by simp
    obtain t' where t': "replace_rows (colf cols (select_rows cols t0)) (select_rows cols t0) t = (t', Inr ())" "map_of ts' name = Some t'"
      using rep(2) [OF m c t] by blast
    have "select_rows cols t' = select_rows cols t0 \<and> tb_defaults t' = tb_defaults t"
    proof (cases "tb_rows t0 = []")
      case True
      then show ?thesis using t'(1) by (auto simp: select_rows_def replace_rows_def)
    next
      case False
      then have "replace_rows cols (map (pick cols) (tb_rows t0)) t = (t', Inr ())"
        using t'(1) colf [OF Some, of cols] by (simp add: select_rows_def)
      from replaced_rows [OF this cols] show ?thesis by (simp add: select_rows_def)
    qed
    then show ?thesis using Some t'(2) cols by simp
  qed
  show "payload_tables ts' = payload_tables src" unfolding payload_entries by (rule entries_cong) (use key in blast)
  show "columns_ok ts'" unfolding columns_ok_def using key by blast
  show "same_tables src ts'" unfolding same_tables_def using key by fastforce
qed

section \<open>Settings\<close>

lemma map_of_select: "map_of (select_settings keys t) k = (if k \<in> set keys then map_of t k else None)"
  by (induction keys) (auto simp: select_settings_def map_add_def split: option.splits)

lemma map_of_replaced: "k \<in> set keys \<Longrightarrow> map_of (replace_settings_subset keys new t) k = map_of new k"
proof -
  assume k: "k \<in> set keys"
  have "map_of (filter (\<lambda>(k, _). k \<notin> set keys) t) k = None" using k by (auto simp: map_of_eq_None_iff)
  moreover have "map_of (filter (\<lambda>(k, _). k \<in> set keys) new) k = map_of new k" using k by (induction new) auto
  ultimately show ?thesis by (simp add: replace_settings_subset_def map_add_def split: option.split)
qed

lemma select_replaced: "select_settings keys (replace_settings_subset keys new t) = select_settings keys new"
proof -
  have "map_of (replace_settings_subset keys new t) k = map_of new k" if "k \<in> set keys" for k using that by (rule map_of_replaced)
  then show ?thesis unfolding select_settings_def by (intro arg_cong [where f = concat] map_cong) simp_all
qed

lemma select_select: "select_settings keys (select_settings keys t) = select_settings keys t"
proof -
  have "map_of (select_settings keys t) k = map_of t k" if "k \<in> set keys" for k using that by (simp add: map_of_select)
  then show ?thesis unfolding select_settings_def [of keys "select_settings keys t"] unfolding select_settings_def [of keys t]
    by (intro arg_cong [where f = concat] map_cong) simp_all
qed

section \<open>Clients\<close>

lemma apply_identifiers_append:
  assumes "distinct ks" "\<forall>(k, v)\<in>set ks. v \<noteq> []" "set ks \<inter> (\<lambda>i. (ci_kind i, ci_value i)) ` set t = {}"
  shows "\<exists>new. apply_identifiers ts i ks t = t @ new \<and> map (\<lambda>i. (ci_kind i, ci_value i)) new = ks \<and> (\<forall>r\<in>set new. ci_client r = i)"
  using assms
proof (induction ks arbitrary: t)
  case (Cons x ks)
  obtain k v where x: "x = (k, v)" by (rule prod.exhaust)
  let ?r = "\<lparr>ci_id = next_rowid ci_id t, ci_client = i, ci_kind = k, ci_value = v, ci_created_at = ts\<rparr>"
  have fresh: "\<not> (v = [] \<or> list_ex (\<lambda>r. ci_kind r = k \<and> ci_value r = v) t)" using Cons.prems by (force simp: x list_ex_iff)
  have "\<exists>new. apply_identifiers ts i ks (t @ [?r]) = (t @ [?r]) @ new \<and> map (\<lambda>i. (ci_kind i, ci_value i)) new = ks \<and> (\<forall>r\<in>set new. ci_client r = i)"
    using Cons.prems by (intro Cons.IH) (auto simp: x)
  then obtain new where "apply_identifiers ts i ks (t @ [?r]) = (t @ [?r]) @ new" "map (\<lambda>i. (ci_kind i, ci_value i)) new = ks" "\<forall>r\<in>set new. ci_client r = i" by blast
  then show ?case using fresh by (intro exI [where x = "?r # new"]) (simp add: x insert_row_def)
qed simp

text \<open>Clients whose names are proper and different, with different identifiers; rules that name their client.\<close>

definition entry_keys :: "client_entry list \<Rightarrow> (identifier_kind \<times> string) list" where
  "entry_keys cs = concat (map ce_identifiers cs)"

definition clients_ok :: "client_entry list \<Rightarrow> bool" where
  "clients_ok cs \<longleftrightarrow> distinct (map ce_name cs) \<and> (\<forall>c\<in>set cs. ce_name c \<noteq> [] \<and> py_strip (ce_name c) = ce_name c) \<and>
     distinct (entry_keys cs) \<and> (\<forall>(k, v)\<in>set (entry_keys cs). v \<noteq> [])"

definition rules_ok :: "client_entry list \<Rightarrow> rule_entry list \<Rightarrow> bool" where
  "rules_ok cs rs \<longleftrightarrow> (\<forall>r\<in>set rs. if re_kind r = ByClient then re_client_name r \<in> Some ` ce_name ` set cs else re_client_name r = None)"

definition applied_ok :: "client_tables \<Rightarrow> (string \<times> nat) list \<Rightarrow> bool" where
  "applied_ok ct ids \<longleftrightarrow> rowids_ok cl_id (ct_clients ct) \<and> ci_client ` set (ct_identifiers ct) \<subseteq> cl_id ` set (ct_clients ct) \<and>
     (\<forall>name i. map_of ids name = Some i \<longrightarrow> (\<exists>c\<in>set (ct_clients ct). cl_id c = i \<and> cl_name c = name))"

lemma build_clients_grow:
  assumes ok: "applied_ok ct ids" and i: "i = next_rowid cl_id (ct_clients ct)" and new: "\<forall>r\<in>set new. ci_client r = i" "cl_id c = i"
  shows "build_clients_section (ct\<lparr>ct_clients := ct_clients ct @ [c], ct_identifiers := ct_identifiers ct @ new\<rparr>) =
    build_clients_section ct @ [\<lparr>ce_name = cl_name c, ce_description = cl_description c, ce_enabled = cl_enabled c,
      ce_identifiers = map (\<lambda>i. (ci_kind i, ci_value i)) new\<rparr>]"
proof -
  have less: "cl_id d < i" if "d \<in> set (ct_clients ct)" for d using that by (simp add: i next_rowid_greater)
  have "filter (\<lambda>r. ci_client r = cl_id d) new = []" if "d \<in> set (ct_clients ct)" for d
    using new(1) less [OF that] by (auto simp: filter_empty_conv)
  moreover have "filter (\<lambda>r. ci_client r = i) (ct_identifiers ct) = []"
    using ok less by (fastforce simp: applied_ok_def filter_empty_conv)
  moreover have "filter (\<lambda>r. ci_client r = i) new = new" using new(1) by (simp add: filter_id_conv)
  ultimately show ?thesis by (simp add: build_clients_section_def new(2))
qed

lemma apply_clients_section:
  assumes "clients_ok cs" "applied_ok ct ids" "set (entry_keys cs) \<inter> (\<lambda>i. (ci_kind i, ci_value i)) ` set (ct_identifiers ct) = {}"
  shows "\<exists>ct' ids'. apply_clients ts cs (ct, ids) = (ct', ids') \<and> build_clients_section ct' = build_clients_section ct @ cs \<and>
    applied_ok ct' ids' \<and> dom (map_of ids') = dom (map_of ids) \<union> ce_name ` set cs"
  using assms
proof (induction cs arbitrary: ct ids)
  case (Cons c cs)
  let ?i = "next_rowid cl_id (ct_clients ct)"
  let ?c = "\<lparr>cl_id = ?i, cl_name = ce_name c, cl_description = ce_description c, cl_enabled = ce_enabled c, cl_created_at = ts, cl_updated_at = ts\<rparr>"
  have name: "py_strip (ce_name c) = ce_name c" "ce_name c \<noteq> []" using Cons.prems(1) by (auto simp: clients_ok_def)
  obtain new where new: "apply_identifiers ts ?i (ce_identifiers c) (ct_identifiers ct) = ct_identifiers ct @ new"
      "map (\<lambda>i. (ci_kind i, ci_value i)) new = ce_identifiers c" "\<forall>r\<in>set new. ci_client r = ?i"
    using apply_identifiers_append [of "ce_identifiers c" "ct_identifiers ct" ts ?i] Cons.prems(1,3) by (auto simp: clients_ok_def entry_keys_def)
  let ?ct = "ct\<lparr>ct_clients := ct_clients ct @ [?c], ct_identifiers := ct_identifiers ct @ new\<rparr>" and ?ids = "AList.update (ce_name c) ?i ids"
  have step: "apply_clients ts (c # cs) (ct, ids) = apply_clients ts cs (?ct, ?ids)"
    by (simp add: name new(1) insert_row_def Let_def)
  have grow: "build_clients_section ?ct = build_clients_section ct @ [c]"
    using build_clients_grow [OF Cons.prems(2) refl new(3), of ?c] by (simp add: new(2))
  have ok: "applied_ok ?ct ?ids"
    using Cons.prems(2) new(3) rowids_ok_append [of cl_id "ct_clients ct" ?c] by (auto simp: applied_ok_def update_conv')
  have keys: "set (entry_keys cs) \<inter> (\<lambda>i. (ci_kind i, ci_value i)) ` set (ct_identifiers ?ct) = {}"
  proof -
    have "(\<lambda>i. (ci_kind i, ci_value i)) ` set new = set (ce_identifiers c)" unfolding new(2) [symmetric] by simp
    then show ?thesis using Cons.prems(1,3) by (auto simp: clients_ok_def entry_keys_def image_Un)
  qed
  have cs: "clients_ok cs" using Cons.prems(1) by (simp add: clients_ok_def entry_keys_def)
  obtain ct' ids' where IH: "apply_clients ts cs (?ct, ?ids) = (ct', ids')" "build_clients_section ct' = build_clients_section ?ct @ cs"
      "applied_ok ct' ids'" "dom (map_of ids') = dom (map_of ?ids) \<union> ce_name ` set cs"
    using Cons.IH [OF cs ok keys] by blast
  show ?case using IH unfolding step grow by (auto simp: update_conv')
qed simp

lemma apply_rules_section:
  assumes ok: "applied_ok ct ids" and rs: "\<forall>r\<in>set rs. if re_kind r = ByClient then re_client_name r \<in> Some ` dom (map_of ids) else re_client_name r = None"
  shows "build_access_rules_section (ct\<lparr>ct_rules := fold (apply_rule ts ids) rs t\<rparr>) = build_access_rules_section (ct\<lparr>ct_rules := t\<rparr>) @ rs"
  using rs
proof (induction rs arbitrary: t)
  case (Cons r rs)
  have "\<exists>a. apply_rule ts ids r t = t @ [a] \<and> build_access_rules_section (ct\<lparr>ct_rules := [a]\<rparr>) = [r]"
  proof (cases "re_kind r = ByClient")
    case True
    then obtain name i where n: "re_client_name r = Some name" "map_of ids name = Some i" using Cons.prems by auto
    then obtain c where c: "c \<in> set (ct_clients ct)" "cl_id c = i" "cl_name c = name" using ok n(2) unfolding applied_ok_def by blast
    have "row_by_id cl_id i (ct_clients ct) = Some c"
      using ok row_by_id_unique [of cl_id "ct_clients ct" c] c(1,2) by (simp add: applied_ok_def)
    then show ?thesis using True n c by (simp add: apply_rule_def insert_row_def build_access_rules_section_def Let_def)
  next
    case False
    then show ?thesis using Cons.prems by (simp add: apply_rule_def insert_row_def build_access_rules_section_def Let_def)
  qed
  then obtain a where a: "apply_rule ts ids r t = t @ [a]" "build_access_rules_section (ct\<lparr>ct_rules := [a]\<rparr>) = [r]" by blast
  have app: "build_access_rules_section (ct\<lparr>ct_rules := t @ u\<rparr>) = build_access_rules_section (ct\<lparr>ct_rules := t\<rparr>) @ build_access_rules_section (ct\<lparr>ct_rules := u\<rparr>)" for u
    by (simp add: build_access_rules_section_def cong: option.case_cong)
  show ?case using Cons.IH [of "t @ [a]"] Cons.prems a by (simp add: app)
qed simp

lemma replicated_clients:
  assumes "clients_ok cs" "rules_ok cs rs"
  shows "build_clients_section (apply_clients_access_sections ts (Some cs) (Some rs) ct) = cs"
    "build_access_rules_section (apply_clients_access_sections ts (Some cs) (Some rs) ct) = rs"
proof -
  let ?ct = "\<lparr>ct_clients = [], ct_identifiers = [], ct_rules = []\<rparr>"
  obtain ct' ids where a: "apply_clients ts cs (?ct, []) = (ct', ids)" "build_clients_section ct' = cs" "applied_ok ct' ids" "dom (map_of ids) = ce_name ` set cs"
    using apply_clients_section [OF assms(1), of ?ct "[]" ts] by (auto simp: applied_ok_def rowids_ok_def build_clients_section_def)
  have r: "apply_clients_access_sections ts (Some cs) (Some rs) ct = ct'\<lparr>ct_rules := fold (apply_rule ts ids) rs []\<rparr>"
    by (simp add: apply_clients_access_sections_def a(1))
  show "build_clients_section (apply_clients_access_sections ts (Some cs) (Some rs) ct) = cs"
    using a(2) by (simp add: r build_clients_section_def)
  have "\<forall>r\<in>set rs. if re_kind r = ByClient then re_client_name r \<in> Some ` dom (map_of ids) else re_client_name r = None"
    using assms(2) unfolding a(4) rules_ok_def .
  from apply_rules_section [OF a(3) this, of ts "[]"] show "build_access_rules_section (apply_clients_access_sections ts (Some cs) (Some rs) ct) = rs"
    by (simp add: r build_access_rules_section_def)
qed

section \<open>Payloads of changed nodes\<close>

lemma payload_other [simp]:
  "build_payload a b (n\<lparr>no_repl := x\<rparr>) = build_payload a b n" "build_payload a b (n\<lparr>no_history := h\<rparr>) = build_payload a b n"
  "build_payload a b (n\<lparr>no_generations := gs\<rparr>) = build_payload a b n"
  by (simp_all add: build_payload_def)

lemma payload_settings [simp]:
  "build_payload a b (set_repl kvs n) = build_payload a b n" "build_payload a b (with_settings uuid n) = build_payload a b n"
  "build_payload a b (record_attempt w r n) = build_payload a b n"
  by (simp_all add: set_repl_def with_settings_def record_attempt_def)

lemma settings_fields [simp]:
  "no_tables (set_repl kvs n) = no_tables n" "no_tables (with_settings uuid n) = no_tables n" "no_tables (record_attempt w r n) = no_tables n"
  "no_local (set_repl kvs n) = no_local n" "no_local (with_settings uuid n) = no_local n" "no_local (record_attempt w r n) = no_local n"
  "no_cache (set_repl kvs n) = no_cache n" "no_cache (with_settings uuid n) = no_cache n" "no_cache (record_attempt w r n) = no_cache n"
  "no_encryption (set_repl kvs n) = no_encryption n" "no_encryption (with_settings uuid n) = no_encryption n" "no_encryption (record_attempt w r n) = no_encryption n"
  "no_clients (set_repl kvs n) = no_clients n" "no_clients (with_settings uuid n) = no_clients n" "no_clients (record_attempt w r n) = no_clients n"
  "no_history (set_repl kvs n) = no_history n" "no_history (with_settings uuid n) = no_history n"
  by (simp_all add: set_repl_def with_settings_def record_attempt_def)

text \<open>A replica with the tables of the primary; clients of the primary that survive the way by name.\<close>

definition same_shape :: "node \<Rightarrow> node \<Rightarrow> bool" where
  "same_shape p r \<longleftrightarrow> columns_ok (no_tables r) \<and> same_tables (no_tables p) (no_tables r) \<and> (no_local p = None \<longleftrightarrow> no_local r = None) \<and>
     (no_cache p = None \<longleftrightarrow> no_cache r = None) \<and> (no_clients p = None \<longleftrightarrow> no_clients r = None)"

definition clients_replicable :: "node \<Rightarrow> bool" where
  "clients_replicable p \<longleftrightarrow> (case no_clients p of None \<Rightarrow> True | Some ct \<Rightarrow>
     clients_ok (build_clients_section ct) \<and> rules_ok (build_clients_section ct) (build_access_rules_section ct))"

lemma apply_success:
  assumes "write_sections colf ts s n = (n', Inr ())"
  obtains tabs where "replace_tables colf (sc_tables s) REPLICABLE_TABLES (no_tables n) = (tabs, Inr ())"
    and "n' = n\<lparr>no_tables := tabs,
             no_local := map_option (replace_settings_subset REPLICABLE_LOCAL_DNS_SETTING_KEYS (or_empty (sc_local s))) (no_local n),
             no_cache := map_option (replace_settings_subset REPLICABLE_CACHE_SETTING_KEYS (or_empty (sc_cache s))) (no_cache n),
             no_encryption := map_option (replace_settings_subset REPLICABLE_ENCRYPTION_SETTING_KEYS (or_empty (sc_encryption s))) (no_encryption n),
             no_clients := map_option (apply_clients_access_sections ts (sc_clients s) (sc_rules s)) (no_clients n)\<rparr>"
proof -
  obtain tabs r where t: "replace_tables colf (sc_tables s) REPLICABLE_TABLES (no_tables n) = (tabs, r)" by (rule prod.exhaust)
  have "r = Inr ()" using assms by (cases r) (simp_all add: write_sections_def t)
  then have r: "replace_tables colf (sc_tables s) REPLICABLE_TABLES (no_tables n) = (tabs, Inr ())" using t by simp
  show ?thesis by (rule that [OF r]) (use assms in \<open>simp add: write_sections_def r\<close>)
qed

lemma settings_copied:
  "(p = None) = (r = None) \<Longrightarrow>
   map_option (select_settings keys) (map_option (replace_settings_subset keys (or_empty (map_option (select_settings keys) p))) r) =
   map_option (select_settings keys) p"
  by (cases p; cases r) (simp_all add: or_empty_def select_replaced select_select)

lemma applied_payload:
  assumes a: "apply_sections ts (build_payload enc cert p) n = (n', Inr ())" and sh: "same_shape p n" "clients_replicable p"
  shows "build_payload False False n' = build_payload False False p"
proof -
  let ?s = "build_payload enc cert p"
  obtain tabs where t: "replace_tables (\<lambda>cols rows. cols) (sc_tables ?s) REPLICABLE_TABLES (no_tables n) = (tabs, Inr ())"
    and n': "n' = n\<lparr>no_tables := tabs,
             no_local := map_option (replace_settings_subset REPLICABLE_LOCAL_DNS_SETTING_KEYS (or_empty (sc_local ?s))) (no_local n),
             no_cache := map_option (replace_settings_subset REPLICABLE_CACHE_SETTING_KEYS (or_empty (sc_cache ?s))) (no_cache n),
             no_encryption := map_option (replace_settings_subset REPLICABLE_ENCRYPTION_SETTING_KEYS (or_empty (sc_encryption ?s))) (no_encryption n),
             no_clients := map_option (apply_clients_access_sections ts (sc_clients ?s) (sc_rules ?s)) (no_clients n)\<rparr>"
    using a unfolding apply_sections_def by (rule apply_success)
  have tabs: "payload_tables tabs = payload_tables (no_tables p)"
    using tables_replaced(1) [of "\<lambda>cols rows. cols" "no_tables p" "no_tables n" tabs] t sh(1) by (simp add: build_payload_def same_shape_def)
  have local: "map_option (select_settings REPLICABLE_LOCAL_DNS_SETTING_KEYS) (no_local n') = map_option (select_settings REPLICABLE_LOCAL_DNS_SETTING_KEYS) (no_local p)"
    using settings_copied [of "no_local p" "no_local n"] sh(1) by (simp add: n' build_payload_def same_shape_def)
  have cache: "map_option (select_settings REPLICABLE_CACHE_SETTING_KEYS) (no_cache n') = map_option (select_settings REPLICABLE_CACHE_SETTING_KEYS) (no_cache p)"
    using settings_copied [of "no_cache p" "no_cache n"] sh(1) by (simp add: n' build_payload_def same_shape_def)
  have clients: "map_option build_clients_section (no_clients n') = map_option build_clients_section (no_clients p) \<and>
      map_option build_access_rules_section (no_clients n') = map_option build_access_rules_section (no_clients p)"
  proof (cases "no_clients p")
    case None
    then have "no_clients n' = None" using sh(1) by (simp add: n' same_shape_def)
    then show ?thesis using None by simp
  next
    case (Some ct)
    then obtain ct0 where "no_clients n = Some ct0" using sh(1) by (auto simp: same_shape_def)
    moreover have "clients_ok (build_clients_section ct)" "rules_ok (build_clients_section ct) (build_access_rules_section ct)"
      using sh(2) Some by (simp_all add: clients_replicable_def)
    ultimately show ?thesis using Some replicated_clients by (simp add: n' build_payload_def)
  qed
  show ?thesis using tabs local cache clients by (simp add: build_payload_def n')
qed

section \<open>Outcomes of an attempt\<close>

definition success_settings :: "sync_world \<Rightarrow> generation \<Rightarrow> (string \<times> pyval) list" where
  "success_settings w g =
     [(''last_applied_generation'', PyInt (gn_number g)), (''last_applied_hash'', PyStr (gn_hash g)),
      (''last_sync_status'', PyStr ''success''), (''last_sync_at'', PyStr (sw_at w)), (''drift_detected'', PyStr ''0'')]"

text \<open>How an attempt can end: with a report and the data as before, or having applied the fetched generation.\<close>

datatype ending = Untouched | Kept | Restored | Installed

definition ended :: "sync_world \<Rightarrow> bool \<Rightarrow> node \<Rightarrow> node \<Rightarrow> string \<Rightarrow> ending \<Rightarrow> bool" where
  "ended w force n n' result e \<longleftrightarrow>
     (case e of
        Untouched \<Rightarrow> n' = n \<and> result \<noteq> ''success''
      | _ \<Rightarrow> (\<exists>g n1. sw_fetch w = Inr (Some g) \<and> sw_sha w (gn_sections g) = gn_hash g \<and>
           (force \<or> (\<exists>l. int_of_str (dict_get (rd_settings (no_repl n)) ''last_applied_generation'' ''0'') = Some l \<and> l < gn_number g)) \<and>
           apply_sections (sw_at w) (gn_sections g) n = (n1, Inr ()) \<and>
           (case e of
              Kept \<Rightarrow> result = ''error'' \<and> (n' = n1 \<or> (\<exists>e. restore_snapshot (sw_at w) (snapshot_replicable_tables n) n1 = (n', Inl e)))
            | Restored \<Rightarrow> result = ''failed'' \<and> restore_snapshot (sw_at w) (snapshot_replicable_tables n) n1 = (n', Inr ())
            | _ \<Rightarrow> result = ''success'' \<and> n' = set_repl (success_settings w g) n1)))"

lemma install_ended:
  assumes "install_generation w g n = (n', r, a)" "sw_fetch w = Inr (Some g)"
    and "force \<or> (\<exists>l. int_of_str (dict_get (rd_settings (no_repl n)) ''last_applied_generation'' ''0'') = Some l \<and> l < gn_number g)"
  shows "\<exists>e. ended w force n n' (sr_result r) e"
proof (cases "sw_sha w (gn_sections g) = gn_hash g")
  case False
  then have "ended w force n n' (sr_result r) Untouched" using assms(1) by (auto simp: install_generation_def with_failure_def acked_def ended_def)
  then show ?thesis ..
next
  case sha: True
  obtain n1 v where ap: "apply_sections (sw_at w) (gn_sections g) n = (n1, v)" by (rule prod.exhaust)
  show ?thesis
  proof (cases v)
    case (Inl e)
    then have "ended w force n n' (sr_result r) Untouched"
      using assms(1) sha by (auto simp: install_generation_def with_failure_def acked_def ended_def ap)
    then show ?thesis ..
  next
    case v: (Inr u)
    have ap: "apply_sections (sw_at w) (gn_sections g) n = (n1, Inr ())" using ap v by simp
    show ?thesis
    proof (cases "sw_deploy w")
      case (Inl e)
      then have "n' = n1" "sr_result r = ''error''" using assms(1) sha by (auto simp: install_generation_def report_def ap)
      then have "ended w force n n' (sr_result r) Kept" using sha ap assms(2,3) by (auto simp: ended_def)
      then show ?thesis ..
    next
      case (Inr d)
      obtain ok out where d: "d = (ok, out)" by (rule prod.exhaust)
      show ?thesis
      proof (cases ok)
        case True
        then have "n' = set_repl (success_settings w g) n1" "sr_result r = ''success''"
          using assms(1) sha Inr d by (auto simp: install_generation_def acked_def success_settings_def ap)
        then have "ended w force n n' (sr_result r) Installed" using sha ap assms(2,3) by (auto simp: ended_def)
        then show ?thesis ..
      next
        case False
        obtain n2 z where z: "restore_snapshot (sw_at w) (snapshot_replicable_tables n) n1 = (n2, z)" by (rule prod.exhaust)
        have "n' = n2" "sr_result r = (case z of Inl _ \<Rightarrow> ''error'' | Inr _ \<Rightarrow> ''failed'')"
          using assms(1) sha Inr d False by (auto simp: install_generation_def report_def with_failure_def acked_def ap z split: sum.splits)
        then have "ended w force n n' (sr_result r) (case z of Inl _ \<Rightarrow> Kept | Inr _ \<Rightarrow> Restored)"
          using sha ap assms(2,3) z by (cases z) (auto simp: ended_def)
        then show ?thesis ..
      qed
    qed
  qed
qed

lemma sync_ended:
  assumes "sync_attempt w force n0 = (n', r, a)"
  shows "\<exists>e. ended w force (with_settings (sw_uuid w) n0) n' (sr_result r) e"
proof -
  define n where "n = with_settings (sw_uuid w) n0"
  have rep: "\<exists>e. ended w force n n' (sr_result r) e" if "report n result m k = (n', r, a)" "result \<noteq> ''success''" for result m k
    using that by (intro exI [where x = Untouched]) (auto simp: report_def ended_def)
  show ?thesis
  proof (cases "\<exists>g. sw_fetch w = Inr (Some g) \<and> install_generation w g n = (n', r, a) \<and>
      (force \<or> (\<exists>l. int_of_str (dict_get (rd_settings (no_repl n)) ''last_applied_generation'' ''0'') = Some l \<and> l < gn_number g))")
    case True
    then show ?thesis using install_ended unfolding n_def by blast
  next
    case False
    have "\<exists>result m k. report n result m k = (n', r, a) \<and> result \<noteq> ''success''"
      using assms False unfolding sync_attempt_def n_def [symmetric] Let_def
      by (force split: if_splits sum.splits option.splits)
    then show ?thesis using rep unfolding n_def by blast
  qed
qed

section \<open>Recorded settings\<close>

lemma updated_settings:
  "map_of (fold (\<lambda>(k, v). AList.update k (py_str v)) kvs d) k = (case map_of (rev kvs) k of None \<Rightarrow> map_of d k | Some v \<Rightarrow> Some (py_str v))"
  by (induction kvs arbitrary: d) (auto simp: update_conv' map_add_def split: option.split)

lemma setting_after: "repl_setting k (set_repl kvs n) = (case map_of (rev kvs) k of None \<Rightarrow> repl_setting k n | Some v \<Rightarrow> Some (py_str v))"
  by (simp add: repl_setting_def set_repl_def replication_update_settings_def updated_settings split: option.split)

lemma defaulted_settings: "map_of d k = Some v \<Longrightarrow> map_of (fold (\<lambda>(k, v). dict_setdefault k v) kvs d) k = Some v"
proof (induction kvs arbitrary: d)
  case (Cons x kvs)
  have "map_of (dict_setdefault (fst x) (snd x) d) k = Some v" using Cons.prems by (auto simp: map_of_setdefault)
  from Cons.IH [OF this] show ?case by (simp add: case_prod_beta)
qed simp

lemma setting_kept: "repl_setting k n = Some v \<Longrightarrow> repl_setting k (with_settings uuid n) = Some v"
  by (auto simp: repl_setting_def with_settings_def replication_settings_def node_id_def Let_def intro!: defaulted_settings split: option.split)

lemma setting_recorded: "k \<notin> {''last_sync_status'', ''last_sync_at''} \<Longrightarrow> repl_setting k (record_attempt w r n) = repl_setting k n"
  by (simp add: record_attempt_def setting_after) (simp add: repl_setting_def)

lemma setting_status: "repl_setting ''last_sync_status'' (record_attempt w r n) = Some (sr_result r)"
  by (simp add: record_attempt_def setting_after)

lemma setting_success:
  "repl_setting ''last_applied_hash'' (set_repl (success_settings w g) n) = Some (gn_hash g)"
  "repl_setting ''last_applied_generation'' (set_repl (success_settings w g) n) = Some (str_int (gn_number g))"
  by (simp_all add: setting_after success_settings_def)

lemma sync_success:
  assumes "replica_sync_once w force n0 = (n', r, a)" "sr_result r = ''success''"
  obtains g n1 where "sw_fetch w = Inr (Some g)" "sw_sha w (gn_sections g) = gn_hash g"
    and "apply_sections (sw_at w) (gn_sections g) (with_settings (sw_uuid w) n0) = (n1, Inr ())"
    and "n' = record_attempt w r (set_repl (success_settings w g) n1)"
proof -
  obtain n2 where at: "sync_attempt w force n0 = (n2, r, a)" "n' = record_attempt w r n2"
    using assms(1) by (auto simp: replica_sync_once_def split: prod.splits)
  obtain e where "ended w force (with_settings (sw_uuid w) n0) n2 ''success'' e" using sync_ended [OF at(1)] assms(2) by auto
  then show ?thesis using that at(2) by (cases e) (auto simp: ended_def)
qed

lemma drift_hash:
  assumes "repl_setting ''last_applied_hash'' n = Some h"
  shows "dr_drifted (snd (check_drift uuid sha t n)) \<longleftrightarrow> h \<noteq> [] \<and> sha (build_payload False False n) \<noteq> h"
  using setting_kept [OF assms, of uuid] by (simp add: check_drift_def Let_def dict_get_def repl_setting_def)

lemma success_hash:
  assumes "replica_sync_once w force n0 = (n', r, a)" "sr_result r = ''success''" "sw_fetch w = Inr (Some g)"
  shows "repl_setting ''last_applied_hash'' n' = Some (sw_sha w (gn_sections g))"
proof -
  obtain g' n1 where g': "sw_fetch w = Inr (Some g')" "sw_sha w (gn_sections g') = gn_hash g'"
      "n' = record_attempt w r (set_repl (success_settings w g') n1)" using sync_success [OF assms(1,2)] .
  then show ?thesis using assms(3) setting_recorded [of "''last_applied_hash''"] setting_success(1) [of w g' n1] by simp
qed

lemma published_generation:
  assumes "on_deploy_success sha uuid t p = (p', Some g)"
  shows "latest_generation p' = Some g" "gn_hash g = sha (gn_sections g)" "build_payload a b p' = build_payload a b p"
    and "repl_setting ''include_encryption_settings'' (with_settings uuid (with_settings uuid p)) \<noteq> Some ''1'' \<Longrightarrow>
      repl_setting ''include_certificates'' (with_settings uuid (with_settings uuid p)) \<noteq> Some ''1'' \<Longrightarrow> gn_sections g = build_payload False False p"
proof -
  define q where "q = with_settings uuid (with_settings uuid p)"
  define content where "content = build_payload (repl_setting ''include_encryption_settings'' q = Some ''1'') (repl_setting ''include_certificates'' q = Some ''1'') q"
  define k where "k = Max (insert 0 (gn_number ` set (no_generations q))) + 1"
  have g: "g = \<lparr>gn_number = k, gn_created_at = t, gn_source = snd (node_id uuid (no_repl q)), gn_schema = SCHEMA_VERSION, gn_hash = sha content, gn_sections = content\<rparr>"
    and p': "p' = q\<lparr>no_generations := no_generations q @ [g]\<rparr>"
    using assms by (auto simp: on_deploy_success_def create_generation_def Let_def q_def content_def k_def split: if_splits)
  have less: "gn_number h < gn_number g" if "h \<in> set (no_generations q)" for h
  proof -
    have "gn_number h \<le> Max (insert 0 (gn_number ` set (no_generations q)))" using that by (intro Max_ge) auto
    then show ?thesis by (simp add: g k_def)
  qed
  have "List.find (\<lambda>x. \<forall>h\<in>set (no_generations q @ [g]). gn_number h \<le> gn_number x) (no_generations q) = None"
    unfolding find_None_iff using less by (auto simp: not_le)
  then show "latest_generation p' = Some g" using less by (auto simp: latest_generation_def p' find_append_None intro: less_imp_le)
  show "gn_hash g = sha (gn_sections g)" "build_payload a b p' = build_payload a b p" by (simp_all add: g p' q_def)
  show "gn_sections g = build_payload False False p" if "repl_setting ''include_encryption_settings'' (with_settings uuid (with_settings uuid p)) \<noteq> Some ''1''"
      "repl_setting ''include_certificates'' (with_settings uuid (with_settings uuid p)) \<noteq> Some ''1''"
    using that by (simp add: g content_def q_def)
qed

lemma write_other:
  "no_repl (fst (write_sections colf ts s n)) = no_repl n" "no_history (fst (write_sections colf ts s n)) = no_history n"
  by (simp_all add: write_sections_def split: prod.split sum.split)

lemma ended_settings:
  assumes "ended w force n n' result e" "result \<noteq> ''success''"
  shows "no_repl n' = no_repl n" "no_history n' = no_history n"
proof -
  have ap: "no_repl n1 = no_repl n \<and> no_history n1 = no_history n" if "apply_sections t s n = (n1, r)" for t s n1 r
    using write_other [of "\<lambda>cols rows. cols" t s n] that by (simp add: apply_sections_def)
  have re: "no_repl n2 = no_repl n1 \<and> no_history n2 = no_history n1" if "restore_snapshot t s n1 = (n2, r)" for t s n1 n2 r
    using write_other [of "\<lambda>cols rows. if rows = [] then [] else map fst (hd rows)" t s n1] that by (simp add: restore_snapshot_def)
  have "no_repl n' = no_repl n \<and> no_history n' = no_history n"
  proof (cases "e = Untouched")
    case True
    then show ?thesis using assms(1) by (simp add: ended_def)
  next
    case False
    have "\<exists>(g :: generation) n1. apply_sections (sw_at w) (gn_sections g) n = (n1, Inr ()) \<and> (n' = n1 \<or> (\<exists>r. restore_snapshot (sw_at w) (snapshot_replicable_tables n) n1 = (n', r)))"
    proof (cases e)
      case Kept
      show ?thesis using assms(1) unfolding ended_def Kept ending.case by (elim exE conjE) (intro exI conjI, assumption, blast)
    next
      case Restored
      show ?thesis using assms(1) unfolding ended_def Restored ending.case by (elim exE conjE) (intro exI conjI, assumption, blast)
    qed (use False assms in \<open>simp_all add: ended_def\<close>)
    then obtain g :: generation and n1 where n1: "apply_sections (sw_at w) (gn_sections g) n = (n1, Inr ())" "n' = n1 \<or> (\<exists>r. restore_snapshot (sw_at w) (snapshot_replicable_tables n) n1 = (n', r))" by blast
    from n1(2) show ?thesis
    proof (elim disjE exE)
      fix r assume "restore_snapshot (sw_at w) (snapshot_replicable_tables n) n1 = (n', r)"
      from re [OF this] ap [OF n1(1)] show ?thesis by simp
    qed (use ap [OF n1(1)] in simp)
  qed
  then show "no_repl n' = no_repl n" "no_history n' = no_history n" by blast+
qed

lemma insert_rows_defaults: "tb_defaults (fst (insert_rows given t)) = tb_defaults t"
  by (induction given t rule: insert_rows.induct) (auto simp: Let_def split: option.split)

lemma replace_rows_defaults: "tb_defaults (fst (replace_rows cols rows t)) = tb_defaults t"
  by (simp add: replace_rows_def insert_rows_defaults Let_def split: sum.split)

lemma tables_shape:
  assumes "replace_tables colf content REPLICABLE_TABLES ts = (ts', Inr ())" "columns_ok ts"
  shows "columns_ok ts'" "same_tables ts ts'"
proof -
  note rep = replaced_tables [OF assms(1) replicable_names]
  have "map_option tb_defaults (map_of ts' n) = map_option tb_defaults (map_of ts n)" for n
  proof (cases "map_of REPLICABLE_TABLES n = None \<or> map_of content n = None \<or> map_of ts n = None")
    case True
    then show ?thesis using rep(1) by simp
  next
    case False
    then obtain cols rows t where f: "map_of REPLICABLE_TABLES n = Some cols" "map_of content n = Some rows" "map_of ts n = Some t" by auto
    from rep(2) [OF f] obtain t' where "replace_rows (colf cols rows) rows t = (t', Inr ())" "map_of ts' n = Some t'" by blast
    then show ?thesis using f replace_rows_defaults [of "colf cols rows" rows t] by simp
  qed
  then have eq: "map_of ts' n = None \<longleftrightarrow> map_of ts n = None" "map_of ts' n = Some t' \<Longrightarrow> \<exists>t. map_of ts n = Some t \<and> tb_defaults t = tb_defaults t'" for n t'
    by (metis option.map_disc_iff, metis (no_types, lifting) map_option_eq_Some)
  show "same_tables ts ts'" using eq(1) by (simp add: same_tables_def case_prod_beta)
  have "set cols \<subseteq> fst ` set (tb_defaults t')" if n: "(name, cols) \<in> set REPLICABLE_TABLES" "map_of ts' name = Some t'" for name cols t'
  proof -
    obtain t where t: "map_of ts name = Some t" "tb_defaults t = tb_defaults t'" using eq(2) [OF n(2)] by blast
    then show ?thesis using bspec [OF assms(2) [unfolded columns_ok_def] n(1)] by simp
  qed
  then show "columns_ok ts'" unfolding columns_ok_def by blast
qed

lemma restored_node:
  assumes ap: "apply_sections ts s n = (n1, Inr ())" and re: "restore_snapshot ts (snapshot_replicable_tables n) n1 = (n2, Inr ())" and ok: "columns_ok (no_tables n)"
  shows "(build_payload True False n2)\<lparr>sc_clients := None, sc_rules := None\<rparr> = (build_payload True False n)\<lparr>sc_clients := None, sc_rules := None\<rparr>"
    and "no_clients n2 = no_clients n1"
proof -
  let ?colf = "\<lambda>cols rows :: row list. if rows = [] then [] else map fst (hd rows)" and ?s = "snapshot_replicable_tables n"
  obtain tabs1 where t1: "replace_tables (\<lambda>cols rows. cols) (sc_tables s) REPLICABLE_TABLES (no_tables n) = (tabs1, Inr ())"
    and n1: "n1 = n\<lparr>no_tables := tabs1,
             no_local := map_option (replace_settings_subset REPLICABLE_LOCAL_DNS_SETTING_KEYS (or_empty (sc_local s))) (no_local n),
             no_cache := map_option (replace_settings_subset REPLICABLE_CACHE_SETTING_KEYS (or_empty (sc_cache s))) (no_cache n),
             no_encryption := map_option (replace_settings_subset REPLICABLE_ENCRYPTION_SETTING_KEYS (or_empty (sc_encryption s))) (no_encryption n),
             no_clients := map_option (apply_clients_access_sections ts (sc_clients s) (sc_rules s)) (no_clients n)\<rparr>"
    using ap unfolding apply_sections_def by (rule apply_success)
  obtain tabs2 where t2: "replace_tables ?colf (payload_tables (no_tables n)) REPLICABLE_TABLES tabs1 = (tabs2, Inr ())"
    and n2: "n2 = n1\<lparr>no_tables := tabs2,
             no_local := map_option (replace_settings_subset REPLICABLE_LOCAL_DNS_SETTING_KEYS (or_empty (sc_local ?s))) (no_local n1),
             no_cache := map_option (replace_settings_subset REPLICABLE_CACHE_SETTING_KEYS (or_empty (sc_cache ?s))) (no_cache n1),
             no_encryption := map_option (replace_settings_subset REPLICABLE_ENCRYPTION_SETTING_KEYS (or_empty (sc_encryption ?s))) (no_encryption n1),
             no_clients := map_option (apply_clients_access_sections ts (sc_clients ?s) (sc_rules ?s)) (no_clients n1)\<rparr>"
    using re unfolding restore_snapshot_def by (rule apply_success) (simp add: snapshot_entries n1)
  have "tb_rows t = [] \<or> ?colf cols (select_rows cols t) = cols" for cols t
    by (cases "tb_rows t") (simp_all add: select_rows_def pick_def comp_def)
  then have tabs: "payload_tables tabs2 = payload_tables (no_tables n)"
    by (intro tables_replaced(1) [OF t2 tables_shape [OF t1 ok]])
  show "no_clients n2 = no_clients n1"
    by (cases "no_clients n1") (simp_all add: n2 snapshot_replicable_tables_def apply_clients_access_sections_def)
  have sets: "map_option (select_settings keys) (map_option (replace_settings_subset keys (or_empty (map_option (select_settings keys) d))) (map_option (replace_settings_subset keys x) d)) =
      map_option (select_settings keys) d" for keys d x
    by (rule settings_copied) simp
  show "(build_payload True False n2)\<lparr>sc_clients := None, sc_rules := None\<rparr> = (build_payload True False n)\<lparr>sc_clients := None, sc_rules := None\<rparr>"
    by (simp add: build_payload_def n2 n1 snapshot_replicable_tables_def tabs sets)
qed

section \<open>Theorems\<close>


text \<open>
  C14: Every attempt is recorded: one row of the history and the status setting tell its result.  The applied
  generation changes only when the attempt succeeds, then to the number of the fetched generation, which is larger
  than the one before unless the attempt was forced.
\<close>

theorem sync_recorded:
  assumes "replica_sync_once w force n = (n', r, a)"
  shows "no_history n' = no_history n @ [\<lparr>sy_attempted_at = sw_at w, sy_generation = sr_generation r, sy_result = sr_result r, sy_message = sr_message r\<rparr>] \<and>
    repl_setting ''last_sync_status'' n' = Some (sr_result r) \<and>
    (if sr_result r = ''success''
     then \<exists>g. sw_fetch w = Inr (Some g) \<and> repl_setting ''last_applied_generation'' n' = Some (str_int (gn_number g)) \<and>
       (force \<or> (\<exists>l. int_of_str (dict_get (rd_settings (no_repl (with_settings (sw_uuid w) n))) ''last_applied_generation'' ''0'') = Some l \<and> l < gn_number g))
     else repl_setting ''last_applied_generation'' n' = repl_setting ''last_applied_generation'' (with_settings (sw_uuid w) n))"
proof -
  define q where "q = with_settings (sw_uuid w) n"
  obtain n1 where at: "sync_attempt w force n = (n1, r, a)" "n' = record_attempt w r n1"
    using assms by (auto simp: replica_sync_once_def split: prod.splits)
  obtain e where e: "ended w force q n1 (sr_result r) e" using sync_ended [OF at(1)] by (auto simp: q_def)
  have hist: "no_history n1 = no_history n \<and> (if sr_result r = ''success''
     then \<exists>g. sw_fetch w = Inr (Some g) \<and> repl_setting ''last_applied_generation'' n1 = Some (str_int (gn_number g)) \<and>
       (force \<or> (\<exists>l. int_of_str (dict_get (rd_settings (no_repl q)) ''last_applied_generation'' ''0'') = Some l \<and> l < gn_number g))
     else repl_setting ''last_applied_generation'' n1 = repl_setting ''last_applied_generation'' q)"
  proof (cases "sr_result r = ''success''")
    case True
    then obtain g m where g: "sw_fetch w = Inr (Some g)" "apply_sections (sw_at w) (gn_sections g) q = (m, Inr ())" "n1 = set_repl (success_settings w g) m"
        "force \<or> (\<exists>l. int_of_str (dict_get (rd_settings (no_repl q)) ''last_applied_generation'' ''0'') = Some l \<and> l < gn_number g)"
      using e by (cases e) (auto simp: ended_def)
    have "no_history m = no_history q" using write_other(2) [of "\<lambda>cols rows. cols" "sw_at w" "gn_sections g" q] g(2) by (simp add: apply_sections_def)
    then show ?thesis using True g setting_success(2) by (simp add: q_def)
  next
    case False
    then show ?thesis using ended_settings [OF e] by (simp add: repl_setting_def) (simp add: q_def)
  qed
  have "repl_setting ''last_applied_generation'' n' = repl_setting ''last_applied_generation'' n1" using setting_recorded at(2) by simp
  moreover have "no_history n' = no_history n1 @ [\<lparr>sy_attempted_at = sw_at w, sy_generation = sr_generation r, sy_result = sr_result r, sy_message = sr_message r\<rparr>]"
    by (simp add: at(2) record_attempt_def)
  moreover have "repl_setting ''last_sync_status'' n' = Some (sr_result r)" by (simp add: at(2) setting_status)
  ultimately show ?thesis using hist unfolding q_def by simp
qed

text \<open>
  C13: An attempt that ends neither in success nor with an unexpected error, a failed deployment in particular, leaves the
  replicated columns of the replicated tables and the replicated settings with the values they had, clients and access rules
  aside.  Only that: rows are deleted and inserted anew, so row ids and the columns that are not replicated are not restored.
  Every replicated column exists in its table.
\<close>

theorem failed_sync_restores:
  assumes "replica_sync_once w force n = (n', r, a)" "sr_result r \<notin> {''success'', ''error''}" "columns_ok (no_tables n)"
  shows "(build_payload True False n')\<lparr>sc_clients := None, sc_rules := None\<rparr> = (build_payload True False n)\<lparr>sc_clients := None, sc_rules := None\<rparr>"
proof -
  let ?q = "with_settings (sw_uuid w) n"
  obtain m where at: "sync_attempt w force n = (m, r, a)" "n' = record_attempt w r m"
    using assms(1) by (auto simp: replica_sync_once_def split: prod.splits)
  obtain e where e: "ended w force ?q m (sr_result r) e" using sync_ended [OF at(1)] by blast
  show ?thesis
  proof (cases "e = Untouched")
    case True
    then have "m = ?q" using e by (simp add: ended_def)
    then show ?thesis by (simp add: at(2))
  next
    case False
    obtain s n1 where "apply_sections (sw_at w) s ?q = (n1, Inr ())" "restore_snapshot (sw_at w) (snapshot_replicable_tables ?q) n1 = (m, Inr ())"
      using e assms(2) False by (cases e) (auto simp: ended_def)
    from restored_node(1) [OF this] show ?thesis using assms(3) by (simp add: at(2))
  qed
qed

text \<open>
  C39: The snapshot lacks clients and access rules: after a failed deployment, which is reported as rolled back, the
  replica keeps those of the primary.
\<close>

theorem failed_sync_keeps_clients:
  assumes "sw_fetch w = Inr (Some g)" "gn_schema g \<le> SCHEMA_VERSION" "sw_sha w (gn_sections g) = gn_hash g" "gn_sections g = build_payload enc cert p"
    and "apply_sections (sw_at w) (gn_sections g) (with_settings (sw_uuid w) n) = (n1, Inr ())" "sw_deploy w = Inr (False, out)"
    and "same_shape p n" "clients_replicable p" "replica_sync_once w True n = (n', r, a)" "sr_result r = ''failed''"
  shows "map_option build_clients_section (no_clients n') = map_option build_clients_section (no_clients p) \<and>
    map_option build_access_rules_section (no_clients n') = map_option build_access_rules_section (no_clients p)"
proof -
  let ?q = "with_settings (sw_uuid w) n"
  obtain n2 z where z: "restore_snapshot (sw_at w) (snapshot_replicable_tables ?q) n1 = (n2, z)" by (rule prod.exhaust)
  have "sync_attempt w True n = install_generation w g ?q"
    using assms(1,2) by (simp add: sync_attempt_def Let_def)
  also have "\<dots> = (case z of Inl e \<Rightarrow> report n2 ''error'' e (Some (gn_number g))
      | Inr _ \<Rightarrow> with_failure n2 (''deploy failed, rolled back: '' @ last_chars 500 out) g)"
    using assms(3,5,6) z by (cases z) (simp_all add: install_generation_def)
  finally have "z = Inr ()" "n' = record_attempt w r n2"
    using assms(9,10) by (cases z; auto simp: replica_sync_once_def report_def with_failure_def acked_def)+
  moreover have "no_clients n2 = no_clients n1"
    using restored_node(2) [OF assms(5)] z \<open>z = Inr ()\<close> assms(7) by (simp add: same_shape_def)
  moreover have "build_payload False False n1 = build_payload False False p"
    using applied_payload [of "sw_at w" enc cert p ?q n1] assms(4,5,7,8) by (simp add: same_shape_def)
  then have "map_option build_clients_section (no_clients n1) = map_option build_clients_section (no_clients p)"
    "map_option build_access_rules_section (no_clients n1) = map_option build_access_rules_section (no_clients p)"
    by (simp_all add: build_payload_def)
  ultimately show ?thesis by simp
qed

text \<open>
  C40: A generation without encryption settings, the default, deletes those of the replica: after a successful
  synchronisation none of the protocols, ports and paths configured there is left.
\<close>

theorem sync_deletes_encryption_settings:
  assumes "replica_sync_once w force n = (n', r, a)" "sr_result r = ''success''" "sw_fetch w = Inr (Some g)" "sc_encryption (gn_sections g) = None"
  shows "map_option (select_settings REPLICABLE_ENCRYPTION_SETTING_KEYS) (no_encryption n') = map_option (\<lambda>_. []) (no_encryption n)"
proof -
  obtain g' n1 where g': "sw_fetch w = Inr (Some g')" "apply_sections (sw_at w) (gn_sections g') (with_settings (sw_uuid w) n) = (n1, Inr ())"
      "n' = record_attempt w r (set_repl (success_settings w g') n1)" using sync_success [OF assms(1,2)] .
  have "select_settings keys [] = []" for keys by (simp add: select_settings_def)
  moreover have "no_encryption n1 = map_option (replace_settings_subset REPLICABLE_ENCRYPTION_SETTING_KEYS []) (no_encryption n)"
    using g'(2) unfolding apply_sections_def by (rule apply_success) (use g'(1) assms(3,4) in \<open>simp add: or_empty_def\<close>)
  ultimately show ?thesis by (simp add: g'(3) option.map_comp comp_def select_replaced)
qed

text \<open>
  When the primary does include its encryption settings, the replica reports drift directly after it has applied
  the generation: the check leaves these settings out of its own payload.
\<close>

theorem included_encryption_reported_as_drift:
  assumes "replica_sync_once w force n = (n', r, a)" "sr_result r = ''success''" "sw_fetch w = Inr (Some g)" "sc_encryption (gn_sections g) \<noteq> None"
    and "sw_sha w (gn_sections g) \<noteq> []" "\<And>s. sw_sha w s = sw_sha w (gn_sections g) \<Longrightarrow> s = gn_sections g"
  shows "dr_drifted (snd (check_drift uuid (sw_sha w) t n'))"
proof -
  have "sc_encryption (build_payload False False n') = None" by (simp add: build_payload_def)
  then have "sw_sha w (build_payload False False n') \<noteq> sw_sha w (gn_sections g)" using assms(4,6) by metis
  then show ?thesis using drift_hash [OF success_hash [OF assms(1-3)]] assms(5) by blast
qed

text \<open>
  The pause between two attempts stays between the configured interval and five minutes, whatever the results.
\<close>

theorem backoff_bounded:
  assumes "0 \<le> base" "base \<le> MAX_BACKOFF_SECONDS"
  shows "fold (next_backoff base) results base \<in> {base..MAX_BACKOFF_SECONDS}"
proof -
  have "fold (next_backoff base) results b \<in> {base..MAX_BACKOFF_SECONDS}" if "b \<in> {base..MAX_BACKOFF_SECONDS}" for b
    using that assms by (induction results arbitrary: b) (simp_all add: next_backoff_def)
  then show ?thesis using assms by simp
qed

section \<open>Witnesses\<close>

theorem backoff_bounded_witness: "fold (next_backoff 60) [''unreachable'', ''error'', ''failed''] 60 \<in> {60..MAX_BACKOFF_SECONDS}"
  by (rule backoff_bounded) (simp_all add: MAX_BACKOFF_SECONDS_def)

definition example_table :: "row list \<Rightarrow> sql_table" where
  "example_table rows =
     \<lparr>tb_defaults = [(''name'', VNull), (''url'', VNull), (''enabled'', VInt 1), (''category'', VText ''ads''), (''last_error'', VNull)],
      tb_refuses = (\<lambda>rows r. if dict_get r ''name'' VNull \<in> set (map (\<lambda>r. dict_get r ''name'' VNull) rows) then Some ''UNIQUE constraint failed: sources.name'' else None),
      tb_rows = rows\<rparr>"

definition example_source :: "string \<Rightarrow> row" where
  "example_source s = [(''name'', VText s), (''url'', VText ''u''), (''enabled'', VInt 1), (''category'', VText ''ads''), (''last_error'', VNull)]"

definition example_client :: client_row where
  "example_client = \<lparr>cl_id = 3, cl_name = ''tv'', cl_description = [], cl_enabled = True, cl_created_at = ''t'', cl_updated_at = ''t''\<rparr>"

definition primary_node :: "string \<Rightarrow> node" where
  "primary_node include_encryption =
     \<lparr>no_tables = [(''sources'', example_table [example_source ''a''])], no_local = None, no_cache = Some [(''min_cache_ttl'', ''5'')],
      no_encryption = Some [(''dot_enabled'', ''0'')],
      no_clients = Some \<lparr>ct_clients = [example_client],
        ct_identifiers = [\<lparr>ci_id = 1, ci_client = 3, ci_kind = Kipv4, ci_value = ''10.0.0.9'', ci_created_at = ''t''\<rparr>],
        ct_rules = [\<lparr>ar_id = 1, ar_action = Deny, ar_kind = ByClient, ar_value = None, ar_client = Some 3, ar_created_at = ''t''\<rparr>]\<rparr>,
      no_ca = None,
      no_repl = enrolled_primary\<lparr>rd_settings := [(''role'', ''primary''), (''include_encryption_settings'', include_encryption)]\<rparr>,
      no_generations = [], no_history = []\<rparr>"

definition replica_node :: node where
  "replica_node =
     \<lparr>no_tables = [(''sources'', example_table [example_source ''b''])], no_local = None, no_cache = Some [],
      no_encryption = Some [(''dot_enabled'', ''1''), (''server_name'', ''dns'')],
      no_clients = Some \<lparr>ct_clients = [], ct_identifiers = [], ct_rules = []\<rparr>, no_ca = None,
      no_repl = \<lparr>rd_settings = [], rd_enrollments = [], rd_replicas = []\<rparr>, no_generations = [], no_history = []\<rparr>"

definition example_sha :: "sections \<Rightarrow> string" where
  "example_sha s = (if sc_encryption s = None then ''h'' else ''e'')"

definition published :: "string \<Rightarrow> generation" where
  "published include_encryption = the (snd (on_deploy_success example_sha ''u'' ''t'' (primary_node include_encryption)))"

definition example_sync :: "string \<Rightarrow> bool \<Rightarrow> sync_world" where
  "example_sync include_encryption deployed =
     \<lparr>sw_uuid = ''v'', sw_sha = example_sha, sw_fetch = Inr (Some (published include_encryption)), sw_deploy = Inr (deployed, ''out''), sw_at = ''t1'', sw_end = ''t2''\<rparr>"

lemma example_shape: "same_shape (primary_node x) replica_node" "columns_ok (no_tables replica_node)"
proof -
  have "fst ` set (tb_defaults (example_table rs)) = {''name'', ''url'', ''enabled'', ''category'', ''last_error''}" for rs
    by (simp add: example_table_def insert_commute)
  then have "columns_ok (no_tables replica_node)"
    by (auto simp: columns_ok_def replica_node_def REPLICABLE_TABLES_def)
  then show "same_shape (primary_node x) replica_node" "columns_ok (no_tables replica_node)"
    by (simp_all add: same_shape_def same_tables_def primary_node_def replica_node_def case_prod_beta)
qed

lemma example_replicable: "clients_replicable (primary_node x)"
proof -
  have "py_strip ''tv'' = ''tv''" by code_simp
  then show ?thesis
    by (simp add: clients_replicable_def primary_node_def clients_ok_def rules_ok_def build_clients_section_def build_access_rules_section_def
        entry_keys_def example_client_def row_by_id_def)
qed

lemma sync_cases: "\<exists>n' a. replica_sync_once w force n = (n', fst (snd (replica_sync_once w force n)), a)"
  by (metis prod.collapse)

lemma example_successes:
  "sr_result (fst (snd (replica_sync_once (example_sync ''0'' True) False replica_node))) = ''success''"
  "sr_result (fst (snd (replica_sync_once (example_sync ''0'' False) True replica_node))) = ''failed''"
  by code_simp+

abbreviation first_sync :: "node \<times> sync_result \<times> ack option" where
  "first_sync \<equiv> replica_sync_once (example_sync ''0'' True) False replica_node"

lemma example_sync_fields [simp]:
  "sw_fetch (example_sync x d) = Inr (Some (published x))" "sw_sha (example_sync x d) = example_sha" "sw_uuid (example_sync x d) = ''v''"
  "sw_deploy (example_sync x d) = Inr (d, ''out'')"
  by (simp_all add: example_sync_def)


theorem sync_recorded_witness:
  "repl_setting ''last_sync_status'' (fst first_sync) = Some ''success'' \<and> length (no_history (fst first_sync)) = 1"
proof -
  obtain n' a where s: "first_sync = (n', fst (snd first_sync), a)" using sync_cases by blast
  have "fst first_sync = n'" using s by (metis fst_conv)
  moreover have "no_history replica_node = []" by (simp add: replica_node_def)
  ultimately show ?thesis using sync_recorded [OF s] example_successes(1) by simp
qed

theorem failed_sync_restores_witness:
  "sc_tables (build_payload True False (fst (replica_sync_once (example_sync ''0'' False) True replica_node))) = sc_tables (build_payload True False replica_node)"
proof -
  obtain n' a where s: "replica_sync_once (example_sync ''0'' False) True replica_node =
      (n', fst (snd (replica_sync_once (example_sync ''0'' False) True replica_node)), a)" using sync_cases by blast
  have n': "fst (replica_sync_once (example_sync ''0'' False) True replica_node) = n'" using s by (metis fst_conv)
  have "sr_result (fst (snd (replica_sync_once (example_sync ''0'' False) True replica_node))) \<notin> {''success'', ''error''}"
    unfolding example_successes(2) by simp
  from failed_sync_restores [OF s this example_shape(2)] show ?thesis unfolding n'
    by (cases "build_payload True False n'"; cases "build_payload True False replica_node") simp
qed

theorem failed_sync_keeps_clients_witness:
  "map_option build_clients_section (no_clients (fst (replica_sync_once (example_sync ''0'' False) True replica_node))) =
     map_option build_clients_section (no_clients (primary_node ''0''))"
proof -
  let ?w = "example_sync ''0'' False"
  obtain n' a where s: "replica_sync_once ?w True replica_node = (n', fst (snd (replica_sync_once ?w True replica_node)), a)" using sync_cases by blast
  have n': "fst (replica_sync_once ?w True replica_node) = n'" using s by (metis fst_conv)
  have schema: "gn_schema (published ''0'') \<le> SCHEMA_VERSION" by code_simp
  have hash: "sw_sha ?w (gn_sections (published ''0'')) = gn_hash (published ''0'')" unfolding example_sync_fields by code_simp
  define p' where "p' = fst (on_deploy_success example_sha ''u'' ''t'' (primary_node ''0''))"
  have "snd (on_deploy_success example_sha ''u'' ''t'' (primary_node ''0'')) \<noteq> None" by code_simp
  then have pub: "on_deploy_success example_sha ''u'' ''t'' (primary_node ''0'') = (p', Some (published ''0''))"
    by (metis p'_def published_def option.exhaust_sel prod.collapse)
  have flags: "repl_setting ''include_encryption_settings'' (with_settings ''u'' (with_settings ''u'' (primary_node ''0''))) \<noteq> Some ''1''"
    "repl_setting ''include_certificates'' (with_settings ''u'' (with_settings ''u'' (primary_node ''0''))) \<noteq> Some ''1''" by code_simp+
  have content: "gn_sections (published ''0'') = build_payload False False (primary_node ''0'')" using published_generation(4) [OF pub flags] .
  have "\<not> isl (snd (apply_sections (sw_at ?w) (gn_sections (published ''0'')) (with_settings (sw_uuid ?w) replica_node)))" by code_simp
  then obtain n1 where ap: "apply_sections (sw_at ?w) (gn_sections (published ''0'')) (with_settings (sw_uuid ?w) replica_node) = (n1, Inr ())"
    by (metis old.unit.exhaust prod.collapse sum.collapse(2))
  show ?thesis unfolding n'
    using failed_sync_keeps_clients [OF example_sync_fields(1) schema hash content ap example_sync_fields(4) example_shape(1) example_replicable s example_successes(2)] by blast
qed

theorem sync_deletes_encryption_settings_witness:
  "map_option (select_settings REPLICABLE_ENCRYPTION_SETTING_KEYS) (no_encryption (fst first_sync)) = Some []"
proof -
  obtain n' a where s: "first_sync = (n', fst (snd first_sync), a)" using sync_cases by blast
  have n': "fst first_sync = n'" using s by (metis fst_conv)
  have "sc_encryption (gn_sections (published ''0'')) = None" by code_simp
  moreover have "no_encryption replica_node \<noteq> None" by (simp add: replica_node_def)
  ultimately show ?thesis using sync_deletes_encryption_settings [OF s example_successes(1) example_sync_fields(1)] unfolding n' by auto
qed

definition full_content :: sections where
  "full_content = build_payload True False (primary_node ''1'')"

definition exact_sync :: sync_world where
  "exact_sync =
     \<lparr>sw_uuid = ''v'', sw_sha = (\<lambda>s. if s = full_content then ''e'' else ''h''),
      sw_fetch = Inr (Some \<lparr>gn_number = 1, gn_created_at = ''t'', gn_source = ''u'', gn_schema = 1, gn_hash = ''e'', gn_sections = full_content\<rparr>),
      sw_deploy = Inr (True, []), sw_at = ''t1'', sw_end = ''t2''\<rparr>"

theorem included_encryption_reported_as_drift_witness:
  "dr_drifted (snd (check_drift ''v'' (sw_sha exact_sync) ''t3'' (fst (replica_sync_once exact_sync False replica_node))))"
proof -
  let ?g = "\<lparr>gn_number = 1, gn_created_at = ''t'', gn_source = ''u'', gn_schema = 1, gn_hash = ''e'', gn_sections = full_content\<rparr>"
  obtain n' a where s: "replica_sync_once exact_sync False replica_node = (n', fst (snd (replica_sync_once exact_sync False replica_node)), a)" using sync_cases by blast
  have n': "fst (replica_sync_once exact_sync False replica_node) = n'" using s by (metis fst_conv)
  have ok: "sr_result (fst (snd (replica_sync_once exact_sync False replica_node))) = ''success''" by code_simp
  have g: "sw_fetch exact_sync = Inr (Some ?g)" by (simp add: exact_sync_def)
  have enc: "sc_encryption (gn_sections ?g) \<noteq> None" by (simp add: full_content_def build_payload_def primary_node_def)
  have "sw_sha exact_sync (gn_sections ?g) \<noteq> []" "\<And>s. sw_sha exact_sync s = sw_sha exact_sync (gn_sections ?g) \<Longrightarrow> s = gn_sections ?g"
    by (simp_all add: exact_sync_def split: if_splits)
  from included_encryption_reported_as_drift [OF s ok g enc this] show ?thesis unfolding n' .
qed

end
