(* ===== verification/Network_Config.thy ===== *)
theory Network_Config
  imports Py_Text
begin

text \<open>
  The server's own network interface (\<^verbatim>\<open>src/app/network_config.py\<close>): which networking backend owns the host, the
  validation of a proposed address, the text each backend is given, and the commit-confirm protocol around a change:
  snapshot, stage, arm a watchdog, apply, then confirm or roll back.

  A \<open>host\<close> holds what the module reads back and changes: the configuration files, the rollback state file, the
  log and the commands run so far.  What a command answers is a parameter, a function of the commands run before it
  (\<open>runner\<close>), so that the same command may succeed once and fail the next time; an absent program is
  \<open>No_Tool\<close>.  What the read-only queries see (\<^verbatim>\<open>ip -json\<close>, \<^verbatim>\<open>systemctl is-active\<close>, \<^verbatim>\<open>shutil.which\<close>, \<^verbatim>\<open>nmcli con show\<close>) is a
  \<open>host_view\<close>, an argument of every operation; \<^verbatim>\<open>yaml.safe_dump\<close> and the texts of \<^verbatim>\<open>ipaddress\<close> errors are
  arguments too.  Plain file operations succeed.  \<^verbatim>\<open>detect_ipv4_mode\<close> and \<^verbatim>\<open>detect_ipv6_mode\<close>, which only label the
  page, are not modelled.
\<close>

section \<open>The host\<close>

datatype net_backend = Networkd | NetworkManager | Ifupdown | Netplan | Unsupported

fun backend_text :: "net_backend \<Rightarrow> string" where
  "backend_text Networkd = ''systemd-networkd''"
| "backend_text NetworkManager = ''NetworkManager''"
| "backend_text Ifupdown = ''ifupdown''"
| "backend_text Netplan = ''netplan''"
| "backend_text Unsupported = ''unsupported''"

definition ROLLBACK_TIMEOUT_SECONDS :: int where "ROLLBACK_TIMEOUT_SECONDS = 120"
definition ROLLBACK_SYSTEMD_UNIT :: string where "ROLLBACK_SYSTEMD_UNIT = ''alderpointdns-network-rollback''"
definition NETWORKD_DROPIN_DIR :: string where "NETWORKD_DROPIN_DIR = ''/etc/systemd/network''"
definition NETPLAN_DIR :: string where "NETPLAN_DIR = ''/etc/netplan''"
definition NETPLAN_FILE :: string where "NETPLAN_FILE = NETPLAN_DIR @ ''/90-alderpointdns.yaml''"
definition IFUPDOWN_INTERFACES :: string where "IFUPDOWN_INTERFACES = ''/etc/network/interfaces''"
definition IFUPDOWN_DROPIN_DIR :: string where "IFUPDOWN_DROPIN_DIR = ''/etc/network/interfaces.d''"

text \<open>An address of \<^verbatim>\<open>ip -json addr show\<close>, an interface with its addresses, and what the queries see.\<close>

record addr_info =
  ai_family :: "string option"
  ai_scope :: "string option"
  ai_local :: "string option"
  ai_prefixlen :: "nat option"

record ip_entry =
  ie_ifname :: "string option"
  ie_addrs :: "addr_info list"

record netplan_route =
  nr_to :: string
  nr_via :: string

text \<open>The mapping under \<^verbatim>\<open>network.ethernets.<interface>\<close> of a Netplan file, its keys in insertion order.\<close>

datatype eth_value = Eth_Bool bool | Eth_Routes "netplan_route list" | Eth_Addresses "string list"

record netplan_body =
  nb_interface :: string
  nb_eth :: "(string \<times> eth_value) list"

record host_view =
  hv_netplan_bin :: bool
  hv_nmcli_bin :: bool
  hv_is_active :: "string \<Rightarrow> string option"
  hv_links :: "string list"
  hv_addrs :: "ip_entry list"
  hv_dev :: "string \<Rightarrow> ip_entry list"
  hv_route :: "string \<Rightarrow> int \<times> string"
  hv_nm_cons :: "int \<times> string"
  hv_nm_prop :: "string \<Rightarrow> string \<Rightarrow> int \<times> string"
  hv_addr_error :: "string \<Rightarrow> string"
  hv_dump :: "netplan_body \<Rightarrow> string"

record ip_cfg =
  ic_address :: string
  ic_prefix :: int
  ic_gateway :: string

record validated =
  vd_interface :: string
  vd_ipv4_mode :: string
  vd_ipv6_mode :: string
  vd_ipv4 :: "ip_cfg option"
  vd_ipv6 :: "ip_cfg option"

record snapshot =
  sn_backend :: net_backend
  sn_interface :: string
  sn_files :: "(string \<times> string) list"
  sn_nm :: "(string \<times> string) list"
  sn_live4 :: "(string option \<times> nat option) list"
  sn_live6 :: "(string option \<times> nat option) list"
  sn_gw4 :: "string option"
  sn_gw6 :: "string option"

record rollback_state =
  rs_requested_at :: string
  rs_backend :: net_backend
  rs_interface :: string
  rs_snapshot :: snapshot
  rs_proposed :: validated
  rs_unit :: string
  rs_deadline :: string
  rs_confirmed :: bool

text \<open>The rollback state file; \<open>Garbled\<close> is a file that is not JSON.\<close>

datatype state_file = Absent | Garbled | Written rollback_state

datatype net_exn =
    Config_Error string
  | Called "string list" int string
  | Not_Found string
  | Key_Error string

text \<open>What the rollback log is told; each constructor stands for one message and carries what it interpolates.\<close>

datatype net_event =
    Ev_Apply_Failed string net_backend net_exn
  | Ev_Applied string net_backend string string
  | Ev_Reapply_Failed string net_backend net_exn
  | Ev_Rolled_Back string net_backend string
  | Ev_Confirmed string net_backend

record host =
  h_files :: "(string \<times> string) list"
  h_state :: state_file
  h_cmds :: "string list list"
  h_log :: "net_event list"

datatype cmd_outcome = Ran int string | No_Tool

type_synonym runner = "string list list \<Rightarrow> string list \<Rightarrow> cmd_outcome"
type_synonym 'a net = "host \<Rightarrow> (net_exn + 'a) \<times> host"

text \<open>The instant of an operation: \<^verbatim>\<open>now()\<close>, \<^verbatim>\<open>int(time.time())\<close> and the instant so many seconds later.\<close>

record instant =
  in_now :: string
  in_epoch :: nat
  in_after :: "int \<Rightarrow> string"

section \<open>Commands, files, log\<close>

text \<open>\<^verbatim>\<open>run\<close>: with \<^verbatim>\<open>check\<close>, a non-zero exit raises \<^verbatim>\<open>CalledProcessError\<close>; an absent program raises in either case.\<close>

definition run_cmd :: "runner \<Rightarrow> bool \<Rightarrow> string list \<Rightarrow> string net" where
  "run_cmd r chk c h =
     ((case r (h_cmds h) c of
         No_Tool \<Rightarrow> Inl (Not_Found (hd c))
       | Ran rc out \<Rightarrow> if chk \<and> rc \<noteq> 0 then Inl (Called c rc out) else Inr out),
      h\<lparr>h_cmds := h_cmds h @ [c]\<rparr>)"

definition and_then :: "'a net \<Rightarrow> ('a \<Rightarrow> 'b net) \<Rightarrow> 'b net" where
  "and_then m k h = (case m h of (Inl e, h') \<Rightarrow> (Inl e, h') | (Inr x, h') \<Rightarrow> k x h')"

definition return_net :: "'a \<Rightarrow> 'a net" where
  "return_net x h = (Inr x, h)"

definition write_file :: "string \<Rightarrow> string \<Rightarrow> host \<Rightarrow> host" where
  "write_file p t h = h\<lparr>h_files := AList.update p t (h_files h)\<rparr>"

definition unlink_file :: "string \<Rightarrow> host \<Rightarrow> host" where
  "unlink_file p h = h\<lparr>h_files := AList.delete p (h_files h)\<rparr>"

text \<open>\<^verbatim>\<open>sorted(d.glob("*" + suffix))\<close>: the files directly in the directory.\<close>

definition in_dir :: "string \<Rightarrow> string \<Rightarrow> string \<Rightarrow> bool" where
  "in_dir d suf p = (startswith p (d @ ''/'') \<and> CHR ''/'' \<notin> set (drop (length d + 1) p) \<and> endswith (drop (length d + 1) p) suf)"

definition glob :: "string \<Rightarrow> string \<Rightarrow> host \<Rightarrow> string list" where
  "glob d suf h = sort (filter (in_dir d suf) (map fst (h_files h)))"

definition log_rollback_event :: "net_event \<Rightarrow> host \<Rightarrow> host" where
  "log_rollback_event e h = h\<lparr>h_log := h_log h @ [e]\<rparr>"

section \<open>Backend detection\<close>

definition systemctl_is_active :: "host_view \<Rightarrow> string \<Rightarrow> bool" where
  "systemctl_is_active v unit = (case hv_is_active v unit of None \<Rightarrow> False | Some out \<Rightarrow> py_strip out = ''active'')"

record detected =
  dt_backend :: net_backend
  dt_ambiguous :: bool
  dt_detail :: string

definition netplan_candidate :: "host_view \<Rightarrow> host \<Rightarrow> (net_backend \<times> string) list" where
  "netplan_candidate v h =
     (if hv_netplan_bin v \<and> glob NETPLAN_DIR ''.yaml'' h \<noteq> []
      then [(Netplan, ''netplan binary present, '' @ str_nat (length (glob NETPLAN_DIR ''.yaml'' h)) @ '' yaml file(s) in '' @ NETPLAN_DIR)]
      else [])"

definition backend_candidates :: "host_view \<Rightarrow> host \<Rightarrow> (net_backend \<times> string) list" where
  "backend_candidates v h =
     (let np = netplan_candidate v h;
          nm = (if systemctl_is_active v ''NetworkManager.service'' then [(NetworkManager, ''NetworkManager.service is active'')] else []);
          nd = (if systemctl_is_active v ''systemd-networkd.service'' \<and> np = []
                then [(Networkd, ''systemd-networkd.service is active'')] else []);
          iu = (if np = [] \<and> nm = [] \<and> nd = [] \<and> IFUPDOWN_INTERFACES \<in> fst ` set (h_files h)
                then [(Ifupdown, IFUPDOWN_INTERFACES @ '' exists and no other backend is active'')] else [])
      in np @ nm @ nd @ iu)"

definition detect_backend :: "host_view \<Rightarrow> host \<Rightarrow> detected" where
  "detect_backend v h =
     (let cs = backend_candidates v h in
      case cs of
        [(b, _)] \<Rightarrow> \<lparr>dt_backend = b, dt_ambiguous = False, dt_detail = join ''; '' (map snd cs)\<rparr>
      | [] \<Rightarrow> \<lparr>dt_backend = Unsupported, dt_ambiguous = False, dt_detail = ''no supported networking backend detected''\<rparr>
      | _ \<Rightarrow> \<lparr>dt_backend = Unsupported, dt_ambiguous = True,
               dt_detail = ''multiple networking backends appear active ('' @ join '', '' (map (\<lambda>c. backend_text (fst c)) cs) @
                           ''); refusing to guess''\<rparr>)"

section \<open>Current state\<close>

definition list_interfaces :: "host_view \<Rightarrow> string list" where
  "list_interfaces v = filter (\<lambda>n. n \<noteq> ''lo'') (hv_links v)"

text \<open>\<^verbatim>\<open>re.search(r"\bWORD\s+(\S+)", text)\<close> for a word of word characters.\<close>

definition re_word_char :: "char \<Rightarrow> bool" where
  "re_word_char c = (py_isalnum c \<or> c = CHR ''_'')"

fun search_after :: "string \<Rightarrow> bool \<Rightarrow> string \<Rightarrow> string option" where
  "search_after w inside [] = None"
| "search_after w inside (c # s) =
     (let rest = drop (length w) (c # s);
          arg = takeWhile (\<lambda>x. \<not> py_isspace x) (dropWhile py_isspace rest)
      in if \<not> inside \<and> startswith (c # s) w \<and> rest \<noteq> [] \<and> py_isspace (hd rest) \<and> arg \<noteq> [] then Some arg
         else search_after w (re_word_char c) s)"

definition default_route_interface :: "host_view \<Rightarrow> string \<Rightarrow> string option" where
  "default_route_interface v family =
     (case hv_route v family of (rc, out) \<Rightarrow> if rc \<noteq> 0 then None else search_after ''dev'' False out)"

definition default_gateway :: "host_view \<Rightarrow> string \<Rightarrow> string option" where
  "default_gateway v family =
     (case hv_route v family of (rc, out) \<Rightarrow> if rc \<noteq> 0 then None else search_after ''via'' False out)"

definition interface_addresses ::
  "host_view \<Rightarrow> string \<Rightarrow> (string option \<times> nat option) list \<times> (string option \<times> nat option) list" where
  "interface_addresses v interface =
     (let all = concat (map ie_addrs (hv_dev v interface));
          item = (\<lambda>a. (ai_local a, ai_prefixlen a))
      in (map item (filter (\<lambda>a. ai_family a = Some ''inet'') all),
          map item (filter (\<lambda>a. ai_family a = Some ''inet6'' \<and> ai_scope a \<noteq> Some ''link'') all)))"

definition all_local_addresses :: "host_view \<Rightarrow> string \<Rightarrow> string set" where
  "all_local_addresses v exclude =
     set (concat (map (\<lambda>e. if exclude \<noteq> [] \<and> ie_ifname e = Some exclude then []
                            else concat (map (\<lambda>a. case ai_local a of Some l \<Rightarrow> if l = [] then [] else [l] | None \<Rightarrow> []) (ie_addrs e)))
                      (hv_addrs v)))"

section \<open>Validation\<close>

definition v4_loopback :: "nat \<Rightarrow> bool" where "v4_loopback n = (n div 2 ^ 24 = 127)"
definition v4_multicast :: "nat \<Rightarrow> bool" where "v4_multicast n = (n div 2 ^ 28 = 14)"
definition v6_multicast :: "nat \<Rightarrow> bool" where "v6_multicast n = (n div 2 ^ 120 = 255)"
definition v6_link_local :: "nat \<Rightarrow> bool" where "v6_link_local n = (n div 2 ^ 118 = 1018)"

definition v4_unicast :: "nat \<Rightarrow> bool" where
  "v4_unicast n = (\<not> (v4_loopback n \<or> v4_multicast n \<or> n = 0))"

definition v6_unicast :: "nat \<Rightarrow> bool" where
  "v6_unicast n = (\<not> (n = 1 \<or> v6_multicast n \<or> n = 0))"

text \<open>The numbers of an address text that \<^verbatim>\<open>IPv6Address\<close> accepts.\<close>

definition v6_number :: "string \<Rightarrow> (nat \<times> string option) option" where
  "v6_number s = (case parse_v6 s of Some (V6 n sc) \<Rightarrow> Some (n, sc) | _ \<Rightarrow> None)"

definition given :: "string option \<Rightarrow> int option \<Rightarrow> string option \<Rightarrow> (string \<times> int \<times> string) option" where
  "given a p g =
     (case (a, p, g) of
        (Some a', Some p', Some g') \<Rightarrow> if a' = [] \<or> p' = 0 \<or> g' = [] then None else Some (a', p', g')
      | _ \<Rightarrow> None)"

definition validate_static4 ::
  "host_view \<Rightarrow> string \<Rightarrow> string option \<Rightarrow> int option \<Rightarrow> string option \<Rightarrow> ip_cfg result" where
  "validate_static4 v interface a p g =
     (case given a p g of
        None \<Rightarrow> Inl ''static IPv4 requires an address, prefix length, and gateway''
      | Some (at, pre, gt) \<Rightarrow>
     (case parse_v4 at of
        None \<Rightarrow> Inl (''invalid IPv4 address: '' @ hv_addr_error v at)
      | Some n \<Rightarrow>
      if pre < 0 \<or> 32 < pre then Inl ''IPv4 prefix length must be between 0 and 32''
      else
     (case parse_v4 gt of
        None \<Rightarrow> Inl (''invalid IPv4 gateway: '' @ hv_addr_error v gt)
      | Some gw \<Rightarrow>
      if v4_loopback n then Inl ''IPv4 address must not be a loopback address''
      else if v4_multicast n then Inl ''IPv4 address must not be a multicast address''
      else if n = 0 then Inl ''IPv4 address must not be 0.0.0.0''
      else if \<not> v4_unicast gw then Inl ''IPv4 gateway must be a normal unicast address''
      else let network = Net4 (clear_host (32 - nat pre) n) (nat pre) in
      if \<not> in_network (V4 gw) network then
        Inl (''gateway '' @ gt @ '' is not within the '' @ str_network network @ '' subnet implied by '' @ at @ ''/'' @ str_int pre)
      else if at \<in> all_local_addresses v interface then Inl (at @ '' is already configured on another local interface'')
      else Inr \<lparr>ic_address = at, ic_prefix = pre, ic_gateway = gt\<rparr>)))"

definition validate_static6 ::
  "host_view \<Rightarrow> string \<Rightarrow> string option \<Rightarrow> int option \<Rightarrow> string option \<Rightarrow> ip_cfg result" where
  "validate_static6 v interface a p g =
     (case given a p g of
        None \<Rightarrow> Inl ''static IPv6 requires an address, prefix length, and gateway''
      | Some (at, pre, gt) \<Rightarrow>
     (case v6_number at of
        None \<Rightarrow> Inl (''invalid IPv6 address: '' @ hv_addr_error v at)
      | Some (n, sc) \<Rightarrow>
      if pre < 0 \<or> 128 < pre then Inl ''IPv6 prefix length must be between 0 and 128''
      else
     (case v6_number gt of
        None \<Rightarrow> Inl (''invalid IPv6 gateway: '' @ hv_addr_error v gt)
      | Some (gw, gsc) \<Rightarrow>
      if \<not> v6_unicast n then Inl ''IPv6 address must not be loopback, multicast, or unspecified''
      else if \<not> v6_unicast gw then Inl ''IPv6 gateway must be a normal unicast address''
      else let low = clear_host (128 - nat pre) n;
               network = Net6 low (if low = n then sc else None) (nat pre) in
      if \<not> in_network (V6 gw gsc) network \<and> \<not> v6_link_local gw then
        Inl (''gateway '' @ gt @ '' is not within the '' @ str_network network @ '' subnet implied by '' @ at @ ''/'' @ str_int pre)
      else if at \<in> all_local_addresses v interface then Inl (at @ '' is already configured on another local interface'')
      else Inr \<lparr>ic_address = at, ic_prefix = pre, ic_gateway = gt\<rparr>)))"

text \<open>The fields of a change request.\<close>

record proposal =
  pq_interface :: string
  pq_ipv4_mode :: string
  pq_ipv4_address :: "string option"
  pq_ipv4_prefix :: "int option"
  pq_ipv4_gateway :: "string option"
  pq_ipv6_mode :: string
  pq_ipv6_address :: "string option"
  pq_ipv6_prefix :: "int option"
  pq_ipv6_gateway :: "string option"

definition validate_proposed :: "host_view \<Rightarrow> proposal \<Rightarrow> validated result" where
  "validate_proposed v q =
     (if pq_interface q \<notin> set (list_interfaces v)
      then Inl (''interface '' @ py_repr (pq_interface q) @ '' does not exist on this host'')
      else if pq_ipv4_mode q \<notin> {''dhcp'', ''static'', ''unchanged''}
      then Inl (''ipv4_mode must be '' @ py_repr ''dhcp'' @ '' or '' @ py_repr ''static'')
      else if pq_ipv6_mode q \<notin> {''dhcp'', ''static'', ''slaac'', ''unchanged''}
      then Inl (''ipv6_mode must be '' @ py_repr ''dhcp'' @ '', '' @ py_repr ''static'' @ '', or '' @ py_repr ''slaac'')
      else
     (case (if pq_ipv4_mode q = ''static''
            then map_sum id Some (validate_static4 v (pq_interface q) (pq_ipv4_address q) (pq_ipv4_prefix q) (pq_ipv4_gateway q))
            else Inr None) of
        Inl e \<Rightarrow> Inl e
      | Inr c4 \<Rightarrow>
     (case (if pq_ipv6_mode q = ''static''
            then map_sum id Some (validate_static6 v (pq_interface q) (pq_ipv6_address q) (pq_ipv6_prefix q) (pq_ipv6_gateway q))
            else Inr None) of
        Inl e \<Rightarrow> Inl e
      | Inr c6 \<Rightarrow>
          Inr \<lparr>vd_interface = pq_interface q, vd_ipv4_mode = pq_ipv4_mode q, vd_ipv6_mode = pq_ipv6_mode q,
               vd_ipv4 = c4, vd_ipv6 = c6\<rparr>)))"

section \<open>Snapshot\<close>

definition snapshot_paths_for_backend :: "net_backend \<Rightarrow> host \<Rightarrow> string list" where
  "snapshot_paths_for_backend b h =
     (case b of
        Networkd \<Rightarrow> glob NETWORKD_DROPIN_DIR ''.network'' h
      | Netplan \<Rightarrow> glob NETPLAN_DIR ''.yaml'' h
      | Ifupdown \<Rightarrow>
          (if IFUPDOWN_INTERFACES \<in> fst ` set (h_files h) then [IFUPDOWN_INTERFACES] else []) @ glob IFUPDOWN_DROPIN_DIR [] h
      | NetworkManager \<Rightarrow> []
      | Unsupported \<Rightarrow> [])"

definition nm_connection_for_interface :: "host_view \<Rightarrow> string \<Rightarrow> string option" where
  "nm_connection_for_interface v interface =
     (case hv_nm_cons v of (rc, out) \<Rightarrow>
        if rc \<noteq> 0 then None
        else map_option (\<lambda>ps. ps ! 0)
               (List.find (\<lambda>ps. length ps = 2 \<and> ps ! 1 = interface) (map (split_char CHR '':'') (splitlines out))))"

definition nm_props :: "string list" where
  "nm_props = [''ipv4.method'', ''ipv4.addresses'', ''ipv4.gateway'', ''ipv6.method'', ''ipv6.addresses'', ''ipv6.gateway'']"

definition nm_snapshot :: "host_view \<Rightarrow> net_backend \<Rightarrow> string \<Rightarrow> (string \<times> string) list" where
  "nm_snapshot v b interface =
     (if b = NetworkManager \<and> hv_nmcli_bin v then
        (case nm_connection_for_interface v interface of
           None \<Rightarrow> []
         | Some conn \<Rightarrow>
             if conn = [] then []
             else map (\<lambda>prop. (prop, case hv_nm_prop v conn prop of (rc, out) \<Rightarrow> if rc = 0 then py_strip out else [])) nm_props
                  @ [(''_connection_name'', conn)])
      else [])"

definition snapshot_current :: "host_view \<Rightarrow> net_backend \<Rightarrow> string \<Rightarrow> host \<Rightarrow> snapshot" where
  "snapshot_current v b interface h =
     \<lparr>sn_backend = b, sn_interface = interface,
      sn_files = map (\<lambda>p. (p, dict_get (h_files h) p [])) (snapshot_paths_for_backend b h),
      sn_nm = nm_snapshot v b interface,
      sn_live4 = fst (interface_addresses v interface), sn_live6 = snd (interface_addresses v interface),
      sn_gw4 = default_gateway v ''-4'', sn_gw6 = default_gateway v ''-6''\<rparr>"

section \<open>Staging and applying\<close>

definition cidr :: "ip_cfg \<Rightarrow> string" where
  "cidr c = ic_address c @ ''/'' @ str_int (ic_prefix c)"

definition nl :: string where "nl = [CHR 0x0A]"

definition render_networkd_unit :: "validated \<Rightarrow> string" where
  "render_networkd_unit q =
     join nl
       ([''[Match]'', ''Name='' @ vd_interface q, [], ''[Network]''] @
        (if vd_ipv4_mode q = ''dhcp'' then [''DHCP=ipv4'']
         else case vd_ipv4 q of
                Some c \<Rightarrow> if vd_ipv4_mode q = ''static'' then [''Address='' @ cidr c, ''Gateway='' @ ic_gateway c] else []
              | None \<Rightarrow> []) @
        (if vd_ipv6_mode q = ''dhcp'' then [''DHCP=ipv6'']
         else if vd_ipv6_mode q = ''static'' \<and> vd_ipv6 q \<noteq> None then
           (case vd_ipv6 q of Some c \<Rightarrow> [''Address='' @ cidr c, ''Gateway='' @ ic_gateway c] | None \<Rightarrow> [])
         else if vd_ipv6_mode q = ''slaac'' then [''IPv6AcceptRA=yes'']
         else [])) @ nl"

definition networkd_path :: "string \<Rightarrow> string" where
  "networkd_path interface = NETWORKD_DROPIN_DIR @ ''/90-alderpointdns-'' @ interface @ ''.network''"

definition stage_networkd :: "validated \<Rightarrow> host \<Rightarrow> host" where
  "stage_networkd q h = write_file (networkd_path (vd_interface q)) (render_networkd_unit q) h"

definition apply_networkd :: "runner \<Rightarrow> string \<Rightarrow> string net" where
  "apply_networkd r interface =
     and_then (run_cmd r True [''networkctl'', ''reload'']) (\<lambda>_. run_cmd r True [''networkctl'', ''reconfigure'', interface])"

definition add_route :: "netplan_route \<Rightarrow> (string \<times> eth_value) list \<Rightarrow> (string \<times> eth_value) list" where
  "add_route rt eth =
     AList.update ''routes'' (Eth_Routes ((case map_of eth ''routes'' of Some (Eth_Routes rs) \<Rightarrow> rs | _ \<Rightarrow> []) @ [rt])) eth"

definition netplan_body :: "validated \<Rightarrow> netplan_body" where
  "netplan_body q =
     (let c4 = (if vd_ipv4_mode q = ''static'' then vd_ipv4 q else None);
          c6 = (if vd_ipv6_mode q = ''static'' then vd_ipv6 q else None);
          eth4 = (if vd_ipv4_mode q = ''dhcp'' then [(''dhcp4'', Eth_Bool True)]
                  else case c4 of
                         Some c \<Rightarrow> add_route \<lparr>nr_to = ''0.0.0.0/0'', nr_via = ic_gateway c\<rparr> [(''dhcp4'', Eth_Bool False)]
                       | None \<Rightarrow> []);
          eth6 = (if vd_ipv6_mode q = ''dhcp'' then AList.update ''dhcp6'' (Eth_Bool True) eth4
                  else case c6 of
                         Some c \<Rightarrow> add_route \<lparr>nr_to = ''::/0'', nr_via = ic_gateway c\<rparr> eth4
                       | None \<Rightarrow> if vd_ipv6_mode q = ''slaac'' then AList.update ''accept-ra'' (Eth_Bool True) eth4 else eth4);
          addresses = (case c4 of Some c \<Rightarrow> [cidr c] | None \<Rightarrow> []) @ (case c6 of Some c \<Rightarrow> [cidr c] | None \<Rightarrow> [])
      in \<lparr>nb_interface = vd_interface q,
          nb_eth = (if addresses = [] then eth6 else AList.update ''addresses'' (Eth_Addresses addresses) eth6)\<rparr>)"

definition stage_netplan :: "host_view \<Rightarrow> validated \<Rightarrow> host \<Rightarrow> host" where
  "stage_netplan v q h = write_file NETPLAN_FILE (hv_dump v (netplan_body q)) h"

definition apply_netplan :: "runner \<Rightarrow> string net" where
  "apply_netplan r = and_then (run_cmd r True [''netplan'', ''generate'']) (\<lambda>_. run_cmd r True [''netplan'', ''apply''])"

definition nm_mod :: "string \<Rightarrow> string list \<Rightarrow> string list" where
  "nm_mod conn args = [''nmcli'', ''con'', ''mod'', conn] @ args"

definition stage_networkmanager :: "host_view \<Rightarrow> runner \<Rightarrow> validated \<Rightarrow> string net" where
  "stage_networkmanager v r q =
     (let conn = (case nm_connection_for_interface v (vd_interface q) of
                    Some c \<Rightarrow> if c = [] then vd_interface q else c
                  | None \<Rightarrow> vd_interface q);
          set4 = (if vd_ipv4_mode q = ''dhcp''
                  then run_cmd r True (nm_mod conn [''ipv4.method'', ''auto'', ''ipv4.addresses'', [], ''ipv4.gateway'', []])
                  else case vd_ipv4 q of
                         Some c \<Rightarrow>
                           if vd_ipv4_mode q = ''static''
                           then run_cmd r True (nm_mod conn [''ipv4.method'', ''manual'', ''ipv4.addresses'', cidr c,
                                                             ''ipv4.gateway'', ic_gateway c])
                           else return_net []
                       | None \<Rightarrow> return_net []);
          set6 = (if vd_ipv6_mode q = ''dhcp'' \<or> vd_ipv6_mode q = ''slaac''
                  then run_cmd r True (nm_mod conn [''ipv6.method'', ''auto''])
                  else case vd_ipv6 q of
                         Some c \<Rightarrow>
                           if vd_ipv6_mode q = ''static''
                           then run_cmd r True (nm_mod conn [''ipv6.method'', ''manual'', ''ipv6.addresses'', cidr c,
                                                             ''ipv6.gateway'', ic_gateway c])
                           else return_net []
                       | None \<Rightarrow> return_net [])
      in and_then set4 (\<lambda>_. and_then set6 (\<lambda>_. return_net conn)))"

definition apply_networkmanager :: "runner \<Rightarrow> string \<Rightarrow> string net" where
  "apply_networkmanager r conn = run_cmd r True [''nmcli'', ''con'', ''up'', conn]"

definition ifupdown_path :: "string \<Rightarrow> string" where
  "ifupdown_path interface = IFUPDOWN_DROPIN_DIR @ ''/90-alderpointdns-'' @ interface @ ''.cfg''"

definition netmask_text :: "int \<Rightarrow> string" where
  "netmask_text pre = str_v4 ((2 ^ nat pre - 1) * 2 ^ (32 - nat pre))"

definition render_ifupdown :: "validated \<Rightarrow> string" where
  "render_ifupdown q =
     (let i = vd_interface q in
      join nl
       ((if vd_ipv4_mode q = ''dhcp'' then [''auto '' @ i, ''iface '' @ i @ '' inet dhcp'']
         else case vd_ipv4 q of
                Some c \<Rightarrow>
                  if vd_ipv4_mode q = ''static''
                  then [''auto '' @ i, ''iface '' @ i @ '' inet static'', ''    address '' @ ic_address c,
                        ''    netmask '' @ netmask_text (ic_prefix c), ''    gateway '' @ ic_gateway c]
                  else []
              | None \<Rightarrow> []) @
        (if vd_ipv6_mode q = ''static'' \<and> vd_ipv6 q \<noteq> None then
           (case vd_ipv6 q of
              Some c \<Rightarrow> [''iface '' @ i @ '' inet6 static'', ''    address '' @ ic_address c,
                         ''    netmask '' @ str_int (ic_prefix c), ''    gateway '' @ ic_gateway c]
            | None \<Rightarrow> [])
         else if vd_ipv6_mode q = ''dhcp'' then [''iface '' @ i @ '' inet6 dhcp'']
         else if vd_ipv6_mode q = ''slaac'' then [''iface '' @ i @ '' inet6 auto'']
         else [])) @ nl)"

definition source_line :: string where "source_line = ''source /etc/network/interfaces.d/*''"

definition stage_ifupdown :: "validated \<Rightarrow> host \<Rightarrow> host" where
  "stage_ifupdown q h =
     (let h' = write_file (ifupdown_path (vd_interface q)) (render_ifupdown q) h in
      case map_of (h_files h') IFUPDOWN_INTERFACES of
        None \<Rightarrow> h'
      | Some text \<Rightarrow>
          if \<not> contains text source_line \<and> \<not> contains text ''source-directory /etc/network/interfaces.d''
          then write_file IFUPDOWN_INTERFACES (text @ nl @ source_line @ nl) h'
          else h')"

definition apply_ifupdown :: "runner \<Rightarrow> string \<Rightarrow> string net" where
  "apply_ifupdown r interface =
     and_then (run_cmd r False [''ifdown'', interface]) (\<lambda>_. run_cmd r True [''ifup'', interface])"

section \<open>Rollback state and watchdog\<close>

definition read_rollback_state :: "host \<Rightarrow> rollback_state option" where
  "read_rollback_state h = (case h_state h of Written st \<Rightarrow> Some st | _ \<Rightarrow> None)"

definition write_state_file :: "rollback_state \<Rightarrow> host \<Rightarrow> host" where
  "write_state_file st h = h\<lparr>h_state := Written st\<rparr>"

definition unlink_state :: "host \<Rightarrow> host" where
  "unlink_state h = h\<lparr>h_state := Absent\<rparr>"

definition watchdog_unit :: "instant \<Rightarrow> string" where
  "watchdog_unit t = ROLLBACK_SYSTEMD_UNIT @ ''-'' @ str_nat (in_epoch t)"

definition arm_command :: "string \<Rightarrow> int \<Rightarrow> string list" where
  "arm_command unit timeout =
     [''systemd-run'', ''--unit='' @ unit, ''--description=Alderpoint DNS network config rollback watchdog'',
      ''--on-active='' @ str_int timeout @ ''s'', ''--'',
      ''/opt/alderpointdns/app/alderpointdns_compiler.py'', ''network-rollback-check'']"

definition schedule_rollback_timer :: "runner \<Rightarrow> instant \<Rightarrow> int \<Rightarrow> string net" where
  "schedule_rollback_timer r t timeout =
     and_then (run_cmd r True (arm_command (watchdog_unit t) timeout)) (\<lambda>_. return_net (watchdog_unit t))"

definition cancel_rollback_timer :: "runner \<Rightarrow> string \<Rightarrow> string net" where
  "cancel_rollback_timer r unit =
     and_then (run_cmd r False [''systemctl'', ''stop'', unit]) (\<lambda>_. run_cmd r False [''systemctl'', ''reset-failed'', unit])"

section \<open>Apply, roll back, confirm\<close>

text \<open>The file a change of an interface adds, for the backends that keep files.\<close>

definition staged_path :: "net_backend \<Rightarrow> string \<Rightarrow> string option" where
  "staged_path b interface =
     (case b of
        Networkd \<Rightarrow> Some (networkd_path interface)
      | Netplan \<Rightarrow> Some NETPLAN_FILE
      | Ifupdown \<Rightarrow> Some (ifupdown_path interface)
      | _ \<Rightarrow> None)"

definition restore_files :: "rollback_state \<Rightarrow> (string \<times> string) list \<Rightarrow> (string \<times> string) list" where
  "restore_files st fs =
     (let saved = sn_files (rs_snapshot st); fs' = fold (\<lambda>(p, t). AList.update p t) saved fs in
      case staged_path (rs_backend st) (rs_interface st) of
        None \<Rightarrow> fs'
      | Some p \<Rightarrow> if p \<notin> fst ` set saved then AList.delete p fs' else fs')"

text \<open>\<^verbatim>\<open>profile.get(key, default) or default\<close>\<close>

definition profile_or :: "(string \<times> string) list \<Rightarrow> string \<Rightarrow> string \<Rightarrow> string" where
  "profile_or d k dflt = (let x = dict_get d k dflt in if x = [] then dflt else x)"

definition reapply :: "runner \<Rightarrow> rollback_state \<Rightarrow> string net" where
  "reapply r st =
     (let nm = sn_nm (rs_snapshot st) in
      case rs_backend st of
        Networkd \<Rightarrow> apply_networkd r (rs_interface st)
      | Netplan \<Rightarrow> apply_netplan r
      | NetworkManager \<Rightarrow>
          (case map_of nm ''_connection_name'' of
             None \<Rightarrow> return_net []
           | Some conn \<Rightarrow>
               if conn = [] then return_net []
               else and_then (run_cmd r True (nm_mod conn [''ipv4.method'', profile_or nm ''ipv4.method'' ''auto'',
                                                           ''ipv4.addresses'', profile_or nm ''ipv4.addresses'' [],
                                                           ''ipv4.gateway'', profile_or nm ''ipv4.gateway'' []]))
                      (\<lambda>_. apply_networkmanager r conn))
      | Ifupdown \<Rightarrow> apply_ifupdown r (rs_interface st)
      | Unsupported \<Rightarrow> return_net [])"

definition perform_rollback :: "runner \<Rightarrow> rollback_state \<Rightarrow> unit net" where
  "perform_rollback r st h =
     (let finish = (\<lambda>h. (Inr (), unlink_state (log_rollback_event
                            (Ev_Rolled_Back (rs_interface st) (rs_backend st) (rs_deadline st)) h))) in
      case reapply r st (h\<lparr>h_files := restore_files st (h_files h)\<rparr>) of
        (Inr _, h') \<Rightarrow> finish h'
      | (Inl (Called c rc out), h') \<Rightarrow>
          finish (log_rollback_event (Ev_Reapply_Failed (rs_interface st) (rs_backend st) (Called c rc out)) h')
      | (Inl e, h') \<Rightarrow> (Inl e, h'))"

definition stage_change :: "host_view \<Rightarrow> runner \<Rightarrow> net_backend \<Rightarrow> validated \<Rightarrow> unit net" where
  "stage_change v r b q h =
     (case b of
        Networkd \<Rightarrow> return_net () (stage_networkd q h)
      | Netplan \<Rightarrow> return_net () (stage_netplan v q h)
      | NetworkManager \<Rightarrow> and_then (stage_networkmanager v r q) (\<lambda>_. return_net ()) h
      | Ifupdown \<Rightarrow> return_net () (stage_ifupdown q h)
      | Unsupported \<Rightarrow> return_net () h)"

definition apply_via_backend :: "host_view \<Rightarrow> runner \<Rightarrow> net_backend \<Rightarrow> validated \<Rightarrow> string net" where
  "apply_via_backend v r b q =
     (case b of
        Networkd \<Rightarrow> apply_networkd r (vd_interface q)
      | Netplan \<Rightarrow> apply_netplan r
      | NetworkManager \<Rightarrow> and_then (stage_networkmanager v r q) (apply_networkmanager r)
      | Ifupdown \<Rightarrow> apply_ifupdown r (vd_interface q)
      | Unsupported \<Rightarrow> return_net [])"

definition new_state :: "host_view \<Rightarrow> instant \<Rightarrow> net_backend \<Rightarrow> validated \<Rightarrow> int \<Rightarrow> host \<Rightarrow> rollback_state" where
  "new_state v t b q timeout h =
     \<lparr>rs_requested_at = in_now t, rs_backend = b, rs_interface = vd_interface q,
      rs_snapshot = snapshot_current v b (vd_interface q) h, rs_proposed = q,
      rs_unit = watchdog_unit t, rs_deadline = in_after t timeout, rs_confirmed = False\<rparr>"

text \<open>The part of \<^verbatim>\<open>apply_change\<close> after the state file is written.\<close>

definition go_live :: "host_view \<Rightarrow> runner \<Rightarrow> rollback_state \<Rightarrow> (net_backend \<times> string \<times> string) net" where
  "go_live v r st h =
     (let b = rs_backend st; i = rs_interface st in
      case apply_via_backend v r b (rs_proposed st) h of
        (Inr _, h') \<Rightarrow>
          (Inr (b, rs_unit st, rs_deadline st), log_rollback_event (Ev_Applied i b (rs_unit st) (rs_deadline st)) h')
      | (Inl (Called c rc out), h') \<Rightarrow>
          and_then (perform_rollback r st)
            (\<lambda>_ h''. (Inl (Config_Error (''failed to apply network configuration via '' @ backend_text b @ '': '' @ out)), h''))
            (log_rollback_event (Ev_Apply_Failed i b (Called c rc out)) h')
      | (Inl e, h') \<Rightarrow> (Inl e, h'))"

definition apply_change ::
  "host_view \<Rightarrow> runner \<Rightarrow> instant \<Rightarrow> proposal \<Rightarrow> int \<Rightarrow> (net_backend \<times> string \<times> string) net" where
  "apply_change v r t q timeout h =
     (let d = detect_backend v h; b = dt_backend d in
      if b = Unsupported then
        (Inl (Config_Error (''no single supported networking backend was detected ('' @ dt_detail d @
           ''); refusing to change network configuration -- current settings are shown read-only'')), h)
      else case validate_proposed v q of
        Inl e \<Rightarrow> (Inl (Config_Error e), h)
      | Inr q' \<Rightarrow>
          if h_state h \<noteq> Absent then
            (Inl (Config_Error (''a network configuration change is already pending confirmation; '' @
               ''confirm or wait for it to roll back first'')), h)
          else
            and_then (stage_change v r b q')
              (\<lambda>_. and_then (schedule_rollback_timer r t timeout)
                 (\<lambda>_ h'. let st = new_state v t b q' timeout h in go_live v r st (write_state_file st h'))) h)"

definition rollback_check :: "runner \<Rightarrow> string net" where
  "rollback_check r h =
     (case read_rollback_state h of
        None \<Rightarrow> (Inr ''no pending network change; nothing to roll back'', h)
      | Some st \<Rightarrow>
          if rs_confirmed st then (Inr ''pending change was already confirmed; nothing to roll back'', unlink_state h)
          else and_then (perform_rollback r st)
                 (\<lambda>_. return_net (''rolled back network change on '' @ rs_interface st @
                                  '' (backend '' @ backend_text (rs_backend st) @ '')'')) h)"

definition confirm_change :: "runner \<Rightarrow> string net" where
  "confirm_change r h =
     (case read_rollback_state h of
        None \<Rightarrow> (Inl (Config_Error ''no pending network configuration change to confirm''), h)
      | Some st \<Rightarrow>
          and_then (if rs_unit st = [] then return_net [] else cancel_rollback_timer r (rs_unit st))
            (\<lambda>_ h'. (Inr (''confirmed: '' @ rs_interface st @ '' configuration via '' @ backend_text (rs_backend st) @ '' is now permanent''),
                     log_rollback_event (Ev_Confirmed (rs_interface st) (rs_backend st)) (unlink_state h'))) h)"

section \<open>Audit\<close>

definition CONFIG_FILES_TO_AUDIT :: "string list" where
  "CONFIG_FILES_TO_AUDIT =
     [''/etc/bind/named.conf'', ''/etc/bind/named.conf.local'', ''/etc/bind/named.conf.options'', ''/etc/dnsdist/dnsdist.conf'']"

definition audit_ip_references :: "string \<Rightarrow> host \<Rightarrow> string list" where
  "audit_ip_references old_ip h =
     filter (\<lambda>p. case map_of (h_files h) p of None \<Rightarrow> False | Some text \<Rightarrow> contains text old_ip) CONFIG_FILES_TO_AUDIT"

section \<open>Requests\<close>

text \<open>
  The table \<^verbatim>\<open>network_requests\<close>, through which the web process asks the privileged helper to act.  The payload is the JSON
  object of the request, \<open>None\<close> for an absent key; the result is what \<^verbatim>\<open>result_json\<close> holds.
\<close>

datatype req_kind = Req_Apply | Req_Confirm
datatype req_status = Req_Pending | Req_Done | Req_Failed | Req_Skipped
datatype req_result = Res_None | Res_Applied "net_backend \<times> string \<times> string" | Res_Message string | Res_Error net_exn

record req_payload =
  rp_interface :: "string option"
  rp_ipv4_mode :: "string option"
  rp_ipv4_address :: "string option"
  rp_ipv4_prefix :: "int option"
  rp_ipv4_gateway :: "string option"
  rp_ipv6_mode :: "string option"
  rp_ipv6_address :: "string option"
  rp_ipv6_prefix :: "int option"
  rp_ipv6_gateway :: "string option"
  rp_timeout :: "int option"

definition empty_payload :: req_payload where
  "empty_payload = \<lparr>rp_interface = None, rp_ipv4_mode = None, rp_ipv4_address = None, rp_ipv4_prefix = None, rp_ipv4_gateway = None,
     rp_ipv6_mode = None, rp_ipv6_address = None, rp_ipv6_prefix = None, rp_ipv6_gateway = None, rp_timeout = None\<rparr>"

record net_request =
  nq_id :: nat
  nq_kind :: req_kind
  nq_requested_at :: string
  nq_payload :: req_payload
  nq_status :: req_status
  nq_result :: req_result
  nq_finished_at :: "string option"

definition put_request :: "nat \<Rightarrow> net_request \<Rightarrow> net_request" where
  "put_request i r = r\<lparr>nq_id := i\<rparr>"

interpretation net_requests: id_table nq_id put_request
  by unfold_locales (simp add: put_request_def)

definition new_request :: "req_kind \<Rightarrow> string \<Rightarrow> req_payload \<Rightarrow> net_request" where
  "new_request k ts p = \<lparr>nq_id = 0, nq_kind = k, nq_requested_at = ts, nq_payload = p, nq_status = Req_Pending,
                         nq_result = Res_None, nq_finished_at = None\<rparr>"

definition request_change :: "string \<Rightarrow> req_payload \<Rightarrow> net_request list \<Rightarrow> nat \<times> net_request list" where
  "request_change ts p t = (next_rowid nq_id t, insert_row nq_id put_request (new_request Req_Apply ts p) t)"

definition request_confirm :: "string \<Rightarrow> net_request list \<Rightarrow> nat \<times> net_request list" where
  "request_confirm ts t = (next_rowid nq_id t, insert_row nq_id put_request (new_request Req_Confirm ts empty_payload) t)"

definition mode_or_unchanged :: "string option \<Rightarrow> string" where
  "mode_or_unchanged m = (case m of None \<Rightarrow> ''unchanged'' | Some s \<Rightarrow> s)"

definition payload_proposal :: "string \<Rightarrow> req_payload \<Rightarrow> proposal" where
  "payload_proposal interface p =
     \<lparr>pq_interface = interface, pq_ipv4_mode = mode_or_unchanged (rp_ipv4_mode p), pq_ipv4_address = rp_ipv4_address p,
      pq_ipv4_prefix = rp_ipv4_prefix p, pq_ipv4_gateway = rp_ipv4_gateway p, pq_ipv6_mode = mode_or_unchanged (rp_ipv6_mode p),
      pq_ipv6_address = rp_ipv6_address p, pq_ipv6_prefix = rp_ipv6_prefix p, pq_ipv6_gateway = rp_ipv6_gateway p\<rparr>"

definition serve_request :: "host_view \<Rightarrow> runner \<Rightarrow> instant \<Rightarrow> req_kind \<Rightarrow> req_payload \<Rightarrow> req_result net" where
  "serve_request v r t k p =
     (case k of
        Req_Apply \<Rightarrow>
          (case rp_interface p of
             None \<Rightarrow> (\<lambda>h. (Inl (Key_Error ''interface''), h))
           | Some i \<Rightarrow>
               and_then (apply_change v r t (payload_proposal i p) (case rp_timeout p of None \<Rightarrow> ROLLBACK_TIMEOUT_SECONDS | Some n \<Rightarrow> n))
                 (\<lambda>x. return_net (Res_Applied x)))
      | Req_Confirm \<Rightarrow> and_then (confirm_change r) (\<lambda>m. return_net (Res_Message m)))"

definition settle_request :: "string \<Rightarrow> net_exn + req_result \<Rightarrow> net_request \<Rightarrow> net_request" where
  "settle_request ts res q =
     q\<lparr>nq_status := (case res of Inl _ \<Rightarrow> Req_Failed | Inr _ \<Rightarrow> Req_Done),
       nq_result := (case res of Inl e \<Rightarrow> Res_Error e | Inr x \<Rightarrow> x), nq_finished_at := Some ts\<rparr>"

definition process_pending_request ::
  "host_view \<Rightarrow> runner \<Rightarrow> instant \<Rightarrow> req_kind \<Rightarrow> net_request list \<Rightarrow> host \<Rightarrow>
   (nat \<times> (net_exn + req_result)) option \<times> net_request list \<times> host" where
  "process_pending_request v r t k rows h =
     (case newest_first nq_id (filter (\<lambda>q. nq_kind q = k \<and> nq_status q = Req_Pending) rows) of
        [] \<Rightarrow> (None, rows, h)
      | row # _ \<Rightarrow>
          (case serve_request v r t k (nq_payload row) h of (res, h') \<Rightarrow>
             (Some (nq_id row, res),
              update_where (\<lambda>q. nq_kind q = k \<and> nq_status q = Req_Pending \<and> nq_id q \<noteq> nq_id row)
                (\<lambda>q. q\<lparr>nq_status := Req_Skipped, nq_finished_at := Some (in_now t)\<rparr>)
                (update_where (\<lambda>q. nq_id q = nq_id row) (settle_request (in_now t) res) rows), h')))"

definition latest_request_result :: "req_kind \<Rightarrow> net_request list \<Rightarrow> net_request option" where
  "latest_request_result k rows =
     (case newest_first nq_id (filter (\<lambda>q. nq_kind q = k) rows) of [] \<Rightarrow> None | q # _ \<Rightarrow> Some q)"

section \<open>Lemmas\<close>

subsection \<open>What a command changes\<close>

text \<open>\<open>m\<close> only runs commands, each of them one that \<open>P\<close> allows.\<close>

definition issues :: "(string list \<Rightarrow> bool) \<Rightarrow> 'a net \<Rightarrow> bool" where
  "issues P m = (\<forall>h. \<exists>cs. snd (m h) = h\<lparr>h_cmds := h_cmds h @ cs\<rparr> \<and> list_all P cs)"

named_theorems issues_intros \<open>which commands an operation runs\<close>

lemma issues_run [issues_intros]: "P c \<Longrightarrow> issues P (run_cmd r chk c)"
  unfolding issues_def run_cmd_def by (auto intro!: exI [of _ "[c]"])

lemma issues_return [issues_intros]: "issues P (return_net x)"
  unfolding issues_def return_net_def by (auto intro!: exI [of _ "[]"])

lemma issues_and_then [issues_intros]:
  assumes "issues P m" "\<And>x. issues P (k x)"
  shows "issues P (and_then m k)"
  unfolding issues_def
proof
  fix h
  obtain res h1 where m: "m h = (res, h1)" by (cases "m h")
  obtain cs where cs: "h1 = h\<lparr>h_cmds := h_cmds h @ cs\<rparr>" "list_all P cs" using assms(1) m unfolding issues_def by (metis snd_conv)
  show "\<exists>cs. snd (and_then m k h) = h\<lparr>h_cmds := h_cmds h @ cs\<rparr> \<and> list_all P cs"
  proof (cases res)
    case (Inl e)
    then show ?thesis using m cs by (auto simp: and_then_def)
  next
    case (Inr x)
    obtain ds where "snd (k x h1) = h1\<lparr>h_cmds := h_cmds h1 @ ds\<rparr>" "list_all P ds" using assms(2) unfolding issues_def by blast
    then show ?thesis using m cs Inr by (auto simp: and_then_def intro!: exI [of _ "cs @ ds"])
  qed
qed

lemma issuesE:
  assumes "issues P m" "m h = (res, h')"
  obtains cs where "h' = h\<lparr>h_cmds := h_cmds h @ cs\<rparr>" "list_all P cs"
  using assms unfolding issues_def by (metis snd_conv)

text \<open>The only program the module stops units with is \<^verbatim>\<open>systemctl\<close>; no backend uses it.\<close>

definition not_systemctl :: "string list \<Rightarrow> bool" where
  "not_systemctl c = (c \<noteq> [] \<and> hd c \<noteq> ''systemctl'')"

lemmas backend_defs = apply_networkd_def apply_netplan_def apply_networkmanager_def apply_ifupdown_def stage_networkmanager_def
  nm_mod_def not_systemctl_def

lemma issues_stage_nm [issues_intros]: "issues not_systemctl (stage_networkmanager v r q)"
  by (auto simp: backend_defs Let_def intro!: issues_intros split: option.split)

lemma issues_apply [issues_intros]: "issues not_systemctl (apply_via_backend v r b q)"
  by (cases b) (auto simp: apply_via_backend_def backend_defs Let_def intro!: issues_intros split: option.split)

lemma issues_reapply [issues_intros]: "issues not_systemctl (reapply r st)"
  by (auto simp: reapply_def backend_defs Let_def intro!: issues_intros split: net_backend.split option.split)

lemma issues_arm [issues_intros]: "issues not_systemctl (schedule_rollback_timer r t timeout)"
  by (auto simp: schedule_rollback_timer_def arm_command_def not_systemctl_def intro!: issues_intros)

lemma issues_cancel: "issues (\<lambda>_. True) (cancel_rollback_timer r u)"
  by (auto simp: cancel_rollback_timer_def intro!: issues_intros)

subsection \<open>Requests\<close>

text \<open>Serving a kind of request settles every pending row of that kind; it changes no row of the other kind and no row id.\<close>

text \<open>The two updates after a row has been served.\<close>

definition settled_rows :: "string \<Rightarrow> req_kind \<Rightarrow> nat \<Rightarrow> net_exn + req_result \<Rightarrow> net_request list \<Rightarrow> net_request list" where
  "settled_rows ts k i out rows =
     update_where (\<lambda>q. nq_kind q = k \<and> nq_status q = Req_Pending \<and> nq_id q \<noteq> i)
       (\<lambda>q. q\<lparr>nq_status := Req_Skipped, nq_finished_at := Some ts\<rparr>)
       (update_where (\<lambda>q. nq_id q = i) (settle_request ts out) rows)"

lemma settle_request_simps [simp]:
  "nq_status (settle_request ts out q) \<noteq> Req_Pending" "nq_id (settle_request ts out q) = nq_id q"
  by (simp_all add: settle_request_def split: sum.split)

lemma settled_rows_status:
  assumes "q \<in> set (settled_rows ts k i out rows)" "nq_kind q = k"
  shows "nq_status q \<noteq> Req_Pending"
proof -
  obtain p where p: "p \<in> set (update_where (\<lambda>q. nq_id q = i) (settle_request ts out) rows)"
    "q = (if nq_kind p = k \<and> nq_status p = Req_Pending \<and> nq_id p \<noteq> i then p\<lparr>nq_status := Req_Skipped, nq_finished_at := Some ts\<rparr> else p)"
    using set_update_where [THEN iffD1, OF assms(1) [unfolded settled_rows_def]] by blast
  obtain x where x: "p = (if nq_id x = i then settle_request ts out x else x)" using set_update_where [THEN iffD1, OF p(1)] by blast
  show ?thesis
  proof (cases "nq_kind p = k \<and> nq_status p = Req_Pending \<and> nq_id p \<noteq> i")
    case True
    then show ?thesis using p(2) by simp
  next
    case False
    then have "q = p" using p(2) by (simp only: if_False)
    moreover have "nq_status p \<noteq> Req_Pending \<or> nq_id p \<noteq> i" using x by (cases "nq_id x = i") simp_all
    ultimately show ?thesis using False assms(2) by blast
  qed
qed

lemma settled_rows_ids: "map nq_id (settled_rows ts k i out rows) = map nq_id rows"
  by (simp add: settled_rows_def update_where_def comp_def)

lemma process_cases:
  assumes "process_pending_request v r t k rows h = (res, rows', h')"
  shows "rows' = rows \<and> filter (\<lambda>q. nq_kind q = k \<and> nq_status q = Req_Pending) rows = [] \<or>
         (\<exists>i out. rows' = settled_rows (in_now t) k i out rows)"
proof (cases "newest_first nq_id (filter (\<lambda>q. nq_kind q = k \<and> nq_status q = Req_Pending) rows)")
  case Nil
  then have "rows' = rows" using assms by (simp add: process_pending_request_def)
  then show ?thesis using Nil newest_first_Nil by blast
next
  case (Cons row rest)
  obtain out h1 where "serve_request v r t k (nq_payload row) h = (out, h1)" by (cases "serve_request v r t k (nq_payload row) h")
  then have "rows' = settled_rows (in_now t) k (nq_id row) out rows" using assms Cons by (simp add: process_pending_request_def settled_rows_def)
  then show ?thesis by blast
qed

lemma process_settles:
  assumes "process_pending_request v r t k rows h = (res, rows', h')" "q \<in> set rows'" "nq_kind q = k"
  shows "nq_status q \<noteq> Req_Pending"
  using process_cases [OF assms(1)] assms(2,3) settled_rows_status by (fastforce simp: filter_empty_conv)

lemma process_keeps_ids:
  "process_pending_request v r t k rows h = (res, rows', h') \<Longrightarrow> map nq_id rows' = map nq_id rows"
  using process_cases settled_rows_ids by metis

lemma request_then_latest:
  assumes "rowids_ok nq_id rows" "request_change ts p rows = (i, rows')"
  shows "rowids_ok nq_id rows'" "row_by_id nq_id i rows' = Some (put_request i (new_request Req_Apply ts p))"
  using assms net_requests.insert_keeps_ids net_requests.lookup_inserted by (auto simp: request_change_def)

end
