(* ===== verification/Network_Rollback.thy ===== *)
theory Network_Rollback
  imports Network_Config
begin

text \<open>
  The commit-confirm protocol of \<^verbatim>\<open>src/app/network_config.py\<close>: a change of the server's address takes effect at once but stays
  provisional until the administrator confirms it, and an independent watchdog undoes it otherwise.  The abstract
  machine keeps the committed configuration, the live one and whether a change is pending; the module's three entry points
  refine it step by step, so without a confirmation the committed configuration never moves.  Then where the module
  leaves the protocol: a watchdog that cannot be armed, a backend tool that is missing, and the watchdog of a failed change.
\<close>

section \<open>The abstract machine\<close>

datatype cc_label = Propose | Confirm | Watchdog

record cc_state =
  cc_committed :: "string \<rightharpoonup> string"
  cc_live :: "string \<rightharpoonup> string"
  cc_pending :: bool

inductive cc_step :: "cc_label \<Rightarrow> cc_state \<Rightarrow> cc_state \<Rightarrow> bool" where
  cc_propose: "\<not> cc_pending s \<Longrightarrow> cc_step Propose s (s\<lparr>cc_live := cfg, cc_pending := True\<rparr>)"
| cc_refuse: "cc_step Propose s s"
| cc_confirm: "cc_step Confirm s (s\<lparr>cc_committed := cc_live s, cc_pending := False\<rparr>)"
| cc_revert: "cc_step Watchdog s (s\<lparr>cc_live := cc_committed s, cc_pending := False\<rparr>)"

inductive_cases cc_stepE: "cc_step l s s'"

section \<open>The module's steps\<close>

text \<open>Every program exists and the watchdog can be armed; an interface name has no slash (the kernel allows none).\<close>

definition tools_ok :: "runner \<Rightarrow> bool" where
  "tools_ok r = ((\<forall>past c. r past c \<noteq> No_Tool) \<and> (\<forall>past u n. \<exists>out. r past (arm_command u n) = Ran 0 out))"

definition names_ok :: "host_view \<Rightarrow> bool" where
  "names_ok v = list_all (\<lambda>i. CHR ''/'' \<notin> set i) (hv_links v)"

inductive net_step :: "cc_label \<Rightarrow> host \<Rightarrow> host \<Rightarrow> bool" where
  step_apply: "tools_ok r \<Longrightarrow> names_ok v \<Longrightarrow> net_step Propose h (snd (apply_change v r t q timeout h))"
| step_confirm: "tools_ok r \<Longrightarrow> net_step Confirm h (snd (confirm_change r h))"
| step_watchdog: "tools_ok r \<Longrightarrow> net_step Watchdog h (snd (rollback_check r h))"

inductive net_run :: "host \<Rightarrow> cc_label list \<Rightarrow> host \<Rightarrow> bool" where
  run_none: "net_run h [] h"
| run_step: "net_step l h h1 \<Longrightarrow> net_run h1 ls h2 \<Longrightarrow> net_run h (l # ls) h2"

abbreviation config :: "host \<Rightarrow> string \<rightharpoonup> string" where
  "config h \<equiv> map_of (h_files h)"

definition committed :: "host \<Rightarrow> string \<rightharpoonup> string" where
  "committed h =
     (case h_state h of
        Written st \<Rightarrow> if rs_confirmed st then config h else map_of (restore_files st (h_files h))
      | _ \<Rightarrow> config h)"

definition cc_abs :: "host \<Rightarrow> cc_state" where
  "cc_abs h = \<lparr>cc_committed = committed h, cc_live = config h, cc_pending = (case h_state h of Written _ \<Rightarrow> True | _ \<Rightarrow> False)\<rparr>"

section \<open>Restoring a snapshot\<close>

lemma map_of_fold_writes:
  "map_of (fold (\<lambda>(p, t). AList.update p t) (map (\<lambda>p. (p, f p)) ps) fs) k = (if k \<in> set ps then Some (f k) else map_of fs k)"
  by (induction ps arbitrary: fs) (auto simp: update_conv')

lemma restore_files_undoes:
  assumes saved: "sn_files (rs_snapshot st) = map (\<lambda>p. (p, dict_get fs p [])) ps" "set ps \<subseteq> fst ` set fs"
    and staged: "\<And>p. staged_path (rs_backend st) (rs_interface st) = Some p \<Longrightarrow> p \<in> fst ` set fs \<Longrightarrow> p \<in> set ps"
    and others: "\<And>k. k \<notin> set ps \<Longrightarrow> staged_path (rs_backend st) (rs_interface st) \<noteq> Some k \<Longrightarrow> map_of fs' k = map_of fs k"
  shows "map_of (restore_files st fs') = map_of fs"
proof
  fix k
  let ?sp = "staged_path (rs_backend st) (rs_interface st)"
  have keys: "fst ` set (sn_files (rs_snapshot st)) = set ps" by (simp add: saved(1) image_image)
  have present: "k \<in> set ps \<Longrightarrow> map_of fs k = Some (dict_get fs k [])"
    using saved(2) by (auto simp: dict_get_def dom_map_of_conv_image_fst [symmetric] split: option.split)
  have absent: "?sp = Some k \<Longrightarrow> k \<notin> set ps \<Longrightarrow> map_of fs k = None"
    using staged by (auto simp: map_of_eq_None_iff)
  show "map_of (restore_files st fs') k = map_of fs k"
    using present absent others [of k]
    by (auto simp: restore_files_def Let_def keys saved(1) image_image map_of_fold_writes delete_conv' split: option.split)
qed

lemma set_glob [simp]: "set (glob d suf h) = {p \<in> fst ` set (h_files h). in_dir d suf p}"
  by (auto simp: glob_def)

lemma set_snapshot_paths: "set (snapshot_paths_for_backend b h) \<subseteq> fst ` set (h_files h)"
  by (cases b) (auto simp: snapshot_paths_for_backend_def)

lemma in_dirI: "CHR ''/'' \<notin> set n \<Longrightarrow> suffix suf n \<Longrightarrow> in_dir d suf (d @ ''/'' @ n)"
  by (simp add: in_dir_def)

lemma staged_in_snapshot:
  assumes "staged_path b i = Some p" "CHR ''/'' \<notin> set i" "p \<in> fst ` set (h_files h)"
  shows "p \<in> set (snapshot_paths_for_backend b h)"
proof (cases b)
  case Networkd
  then show ?thesis
    using assms in_dirI [of "''90-alderpointdns-'' @ i @ ''.network''" "''.network''" NETWORKD_DROPIN_DIR]
    by (auto simp: staged_path_def networkd_path_def snapshot_paths_for_backend_def suffix_def)
next
  case Netplan
  then show ?thesis
    using assms in_dirI [of "''90-alderpointdns.yaml''" "''.yaml''" NETPLAN_DIR]
    by (auto simp: staged_path_def NETPLAN_FILE_def snapshot_paths_for_backend_def suffix_def)
next
  case Ifupdown
  then show ?thesis
    using assms in_dirI [of "''90-alderpointdns-'' @ i @ ''.cfg''" "[]" IFUPDOWN_DROPIN_DIR]
    by (auto simp: staged_path_def ifupdown_path_def snapshot_paths_for_backend_def)
qed (use assms in \<open>auto simp: staged_path_def\<close>)

text \<open>Staging changes the staged file and files of the snapshot only, and neither the state file nor the log.\<close>

lemma interfaces_not_dropin: "IFUPDOWN_INTERFACES \<noteq> ifupdown_path i"
  by (simp add: IFUPDOWN_INTERFACES_def ifupdown_path_def IFUPDOWN_DROPIN_DIR_def)

lemma stage_ifupdown_files:
  assumes "k \<notin> set (snapshot_paths_for_backend Ifupdown h)" "k \<noteq> ifupdown_path (vd_interface q)"
  shows "map_of (h_files (stage_ifupdown q h)) k = map_of (h_files h) k"
proof -
  have "k \<noteq> IFUPDOWN_INTERFACES \<or> map_of (h_files h) IFUPDOWN_INTERFACES = None"
    using assms(1) by (auto simp: snapshot_paths_for_backend_def map_of_eq_None_iff split: if_splits)
  moreover have "IFUPDOWN_INTERFACES \<noteq> ifupdown_path (vd_interface q)" by (rule interfaces_not_dropin)
  ultimately show ?thesis
    using assms(2) by (auto simp: stage_ifupdown_def write_file_def Let_def update_conv' split: option.split)
qed

lemma stage_ifupdown_rest [simp]:
  "h_state (stage_ifupdown q h) = h_state h" "h_log (stage_ifupdown q h) = h_log h"
  unfolding stage_ifupdown_def write_file_def Let_def by (simp_all split: option.split)

lemma stage_nm_frame:
  assumes "and_then (stage_networkmanager v r q) (\<lambda>_. return_net ()) h = (res, h')"
  shows "h_state h' = h_state h \<and> h_log h' = h_log h \<and> h_files h' = h_files h"
proof -
  have "issues not_systemctl (and_then (stage_networkmanager v r q) (\<lambda>_. return_net ()))" by (intro issues_intros)
  then obtain cs where "h' = h\<lparr>h_cmds := h_cmds h @ cs\<rparr>" using assms by (rule issuesE)
  then show ?thesis by simp
qed

lemma stage_change_frame:
  assumes "stage_change v r b q h = (res, h')"
  shows "h_state h' = h_state h \<and> h_log h' = h_log h"
    and "k \<notin> set (snapshot_paths_for_backend b h) \<Longrightarrow> staged_path b (vd_interface q) \<noteq> Some k \<Longrightarrow>
         map_of (h_files h') k = map_of (h_files h) k"
proof (atomize (full), cases b)
  case NetworkManager
  then have "and_then (stage_networkmanager v r q) (\<lambda>_. return_net ()) h = (res, h')" using assms by (simp add: stage_change_def)
  from stage_nm_frame [OF this]
  show "(h_state h' = h_state h \<and> h_log h' = h_log h) \<and>
    (k \<notin> set (snapshot_paths_for_backend b h) \<longrightarrow> staged_path b (vd_interface q) \<noteq> Some k \<longrightarrow>
     map_of (h_files h') k = map_of (h_files h) k)" by simp
next
  case Ifupdown
  then have "h' = stage_ifupdown q h" using assms by (simp add: stage_change_def return_net_def)
  then show "(h_state h' = h_state h \<and> h_log h' = h_log h) \<and>
    (k \<notin> set (snapshot_paths_for_backend b h) \<longrightarrow> staged_path b (vd_interface q) \<noteq> Some k \<longrightarrow>
     map_of (h_files h') k = map_of (h_files h) k)" using Ifupdown stage_ifupdown_files [of k h q] by (simp add: staged_path_def)
qed (use assms in \<open>simp_all add: stage_change_def return_net_def stage_networkd_def stage_netplan_def write_file_def
        staged_path_def update_conv' eq_commute\<close>)

text \<open>What staging writes.\<close>

definition staged_text :: "host_view \<Rightarrow> net_backend \<Rightarrow> validated \<Rightarrow> string" where
  "staged_text v b q =
     (case b of
        Networkd \<Rightarrow> render_networkd_unit q
      | Netplan \<Rightarrow> hv_dump v (netplan_body q)
      | Ifupdown \<Rightarrow> render_ifupdown q
      | _ \<Rightarrow> [])"

lemma stage_ifupdown_content: "map_of (h_files (stage_ifupdown q h)) (ifupdown_path (vd_interface q)) = Some (render_ifupdown q)"
  using interfaces_not_dropin [of "vd_interface q"] by (simp add: stage_ifupdown_def write_file_def Let_def update_conv' split: option.split)

lemma staged_content:
  assumes "stage_change v r b q h = (Inr (), h')" "b \<noteq> Unsupported"
  shows "case staged_path b (vd_interface q) of None \<Rightarrow> b = NetworkManager | Some p \<Rightarrow> map_of (h_files h') p = Some (staged_text v b q)"
  using assms stage_ifupdown_content [of q h]
  by (cases b) (auto simp: stage_change_def return_net_def staged_path_def staged_text_def stage_networkd_def stage_netplan_def write_file_def update_conv')

lemma restore_after_staging:
  assumes "stage_change v r b q h = (res, h')" "CHR ''/'' \<notin> set (vd_interface q)"
  shows "map_of (restore_files (new_state v t b q timeout h) (h_files h')) = config h"
proof (rule restore_files_undoes)
  show "sn_files (rs_snapshot (new_state v t b q timeout h)) =
      map (\<lambda>p. (p, dict_get (h_files h) p [])) (snapshot_paths_for_backend b h)"
    by (simp add: new_state_def snapshot_current_def)
  show "set (snapshot_paths_for_backend b h) \<subseteq> fst ` set (h_files h)" by (rule set_snapshot_paths)
next
  fix p
  assume "staged_path (rs_backend (new_state v t b q timeout h)) (rs_interface (new_state v t b q timeout h)) = Some p"
    "p \<in> fst ` set (h_files h)"
  then show "p \<in> set (snapshot_paths_for_backend b h)" using assms(2) by (simp add: new_state_def staged_in_snapshot)
next
  fix k
  assume "k \<notin> set (snapshot_paths_for_backend b h)"
    "staged_path (rs_backend (new_state v t b q timeout h)) (rs_interface (new_state v t b q timeout h)) \<noteq> Some k"
  then show "map_of (h_files h') k = map_of (h_files h) k" using stage_change_frame(2) [OF assms(1)] by (simp add: new_state_def)
qed

section \<open>The entry points\<close>

text \<open>With the tools in place, the only exception of a command is a non-zero exit.\<close>

definition called_only :: "'a net \<Rightarrow> bool" where
  "called_only m = (\<forall>h e h'. m h = (Inl e, h') \<longrightarrow> (\<exists>c rc out. e = Called c rc out))"

named_theorems called_intros \<open>operations whose only exception is a non-zero exit\<close>

lemma called_run [called_intros]: "tools_ok r \<Longrightarrow> called_only (run_cmd r chk c)"
  by (auto simp: called_only_def run_cmd_def tools_ok_def split: cmd_outcome.splits if_splits)

lemma called_return [called_intros]: "called_only (return_net x)"
  by (simp add: called_only_def return_net_def)

lemma called_and_then [called_intros]: "called_only m \<Longrightarrow> (\<And>x. called_only (k x)) \<Longrightarrow> called_only (and_then m k)"
  unfolding called_only_def and_then_def by (auto split: prod.splits sum.splits) blast+

lemma called_stage_nm [called_intros]: "tools_ok r \<Longrightarrow> called_only (stage_networkmanager v r q)"
  by (auto simp: stage_networkmanager_def Let_def intro!: called_intros split: option.split)

lemma called_apply [called_intros]: "tools_ok r \<Longrightarrow> called_only (apply_via_backend v r b q)"
  by (cases b) (auto simp: apply_via_backend_def backend_defs(1-4) intro!: called_intros)

lemma called_reapply [called_intros]: "tools_ok r \<Longrightarrow> called_only (reapply r st)"
  by (auto simp: reapply_def backend_defs(1-4) Let_def intro!: called_intros split: net_backend.split option.split)

lemma perform_rollback_ok:
  assumes "tools_ok r"
  obtains h' where "perform_rollback r st h = (Inr (), h')" "h_files h' = restore_files st (h_files h)" "h_state h' = Absent"
proof -
  let ?h = "h\<lparr>h_files := restore_files st (h_files h)\<rparr>"
  obtain res h1 where re: "reapply r st ?h = (res, h1)" by (cases "reapply r st ?h")
  obtain cs where h1: "h1 = ?h\<lparr>h_cmds := h_cmds ?h @ cs\<rparr>" using issues_reapply re by (rule issuesE)
  show ?thesis
  proof (cases res)
    case (Inr x)
    then show ?thesis using re h1 that by (simp add: perform_rollback_def unlink_state_def log_rollback_event_def)
  next
    case (Inl e)
    then obtain c rc out where "e = Called c rc out" using called_reapply [OF assms, of st] re unfolding called_only_def by blast
    then show ?thesis using re h1 Inl that by (simp add: perform_rollback_def unlink_state_def log_rollback_event_def)
  qed
qed

lemma go_live_cases:
  assumes "tools_ok r"
  shows "h_files (snd (go_live v r st h)) = h_files h \<and> h_state (snd (go_live v r st h)) = h_state h \<or>
         h_files (snd (go_live v r st h)) = restore_files st (h_files h) \<and> h_state (snd (go_live v r st h)) = Absent"
proof -
  let ?m = "apply_via_backend v r (rs_backend st) (rs_proposed st)"
  obtain res h1 where ap: "?m h = (res, h1)" by (cases "?m h")
  obtain cs where h1: "h1 = h\<lparr>h_cmds := h_cmds h @ cs\<rparr>" using issues_apply ap by (rule issuesE)
  show ?thesis
  proof (cases res)
    case (Inr x)
    then show ?thesis using ap h1 by (simp add: go_live_def Let_def log_rollback_event_def)
  next
    case (Inl e)
    then obtain c rc out where e: "e = Called c rc out"
      using called_apply [OF assms, of v "rs_backend st" "rs_proposed st"] ap unfolding called_only_def by blast
    let ?h = "log_rollback_event (Ev_Apply_Failed (rs_interface st) (rs_backend st) (Called c rc out)) h1"
    obtain h2 where "perform_rollback r st ?h = (Inr (), h2)" "h_files h2 = restore_files st (h_files ?h)" "h_state h2 = Absent"
      using assms by (rule perform_rollback_ok)
    then show ?thesis using ap h1 Inl e by (simp add: go_live_def Let_def and_then_def) (simp add: log_rollback_event_def)
  qed
qed

lemma schedule_ok:
  assumes "r (h_cmds h) (arm_command (watchdog_unit t) timeout) = Ran 0 out"
  shows "schedule_rollback_timer r t timeout h =
    (Inr (watchdog_unit t), h\<lparr>h_cmds := h_cmds h @ [arm_command (watchdog_unit t) timeout]\<rparr>)"
  using assms by (simp add: schedule_rollback_timer_def and_then_def run_cmd_def return_net_def)

lemma validate_interface:
  assumes "validate_proposed v q = Inr q'"
  shows "vd_interface q' = pq_interface q" "pq_interface q \<in> set (hv_links v)"
  using assms by (auto simp: validate_proposed_def list_interfaces_def split: if_splits sum.splits)

lemma apply_change_pending:
  assumes "detect_backend v h = d" "dt_backend d \<noteq> Unsupported" "validate_proposed v q = Inr q'" "h_state h = Absent"
  shows "apply_change v r t q timeout h =
    and_then (stage_change v r (dt_backend d) q')
      (\<lambda>_. and_then (schedule_rollback_timer r t timeout)
         (\<lambda>_ h'. go_live v r (new_state v t (dt_backend d) q' timeout h)
                    (write_state_file (new_state v t (dt_backend d) q' timeout h) h'))) h"
  using assms by (simp add: apply_change_def Let_def)

lemma apply_change_refused:
  assumes "\<not> (dt_backend (detect_backend v h) \<noteq> Unsupported \<and> (\<exists>q'. validate_proposed v q = Inr q') \<and> h_state h = Absent)"
  shows "snd (apply_change v r t q timeout h) = h"
  using assms by (auto simp: apply_change_def Let_def split: sum.split)

text \<open>
  A change under working tools: refused, or its commands failed before anything was staged; applied, and now pending with a
  state that restores the old configuration; or rolled back at once.
\<close>

lemma apply_change_cases:
  fixes v :: host_view and r :: runner and t :: instant and q :: proposal and timeout :: int and h :: host
  assumes tools: "tools_ok r" and names: "names_ok v"
  defines "h' \<equiv> snd (apply_change v r t q timeout h)"
  shows "config h' = config h \<and> h_state h' = h_state h \<or>
         h_state h = Absent \<and> (\<exists>st. h_state h' = Written st \<and> \<not> rs_confirmed st \<and> map_of (restore_files st (h_files h')) = config h)"
proof (cases "dt_backend (detect_backend v h) \<noteq> Unsupported \<and> (\<exists>q'. validate_proposed v q = Inr q') \<and> h_state h = Absent")
  case False
  then show ?thesis by (simp add: h'_def apply_change_refused)
next
  case True
  then obtain q' where q': "validate_proposed v q = Inr q'" and absent: "h_state h = Absent" by blast
  let ?b = "dt_backend (detect_backend v h)" and ?st = "new_state v t (dt_backend (detect_backend v h)) q' timeout h"
  have slash: "CHR ''/'' \<notin> set (vd_interface q')" using validate_interface [OF q'] names by (auto simp: names_ok_def list_all_iff)
  obtain res h1 where st: "stage_change v r ?b q' h = (res, h1)" by (cases "stage_change v r ?b q' h")
  note undone = restore_after_staging [OF st slash, of t timeout]
  show ?thesis
  proof (cases res)
    case (Inl e)
    then have "?b = NetworkManager" using st by (auto simp: stage_change_def return_net_def split: net_backend.splits)
    then have "h_files h1 = h_files h \<and> h_state h1 = h_state h" using st stage_nm_frame by (simp add: stage_change_def)
    then show ?thesis using True q' absent st Inl by (simp add: h'_def apply_change_pending and_then_def)
  next
    case (Inr u)
    obtain out where "r (h_cmds h1) (arm_command (watchdog_unit t) timeout) = Ran 0 out" using tools unfolding tools_ok_def by blast
    note arm = schedule_ok [of r h1 t timeout, OF this]
    let ?h2 = "write_state_file ?st (h1\<lparr>h_cmds := h_cmds h1 @ [arm_command (watchdog_unit t) timeout]\<rparr>)"
    have h': "h' = snd (go_live v r ?st ?h2)"
      using True q' absent st Inr arm by (simp add: h'_def apply_change_pending and_then_def)
    have "h_files ?h2 = h_files h1" "h_state ?h2 = Written ?st" "\<not> rs_confirmed ?st"
      by (simp_all add: write_state_file_def new_state_def)
    then show ?thesis using go_live_cases [OF tools, of v ?st ?h2] undone absent unfolding h' by auto
  qed
qed

section \<open>Refinement\<close>

lemma cc_abs_eq: "config h' = config h \<Longrightarrow> h_state h' = h_state h \<Longrightarrow> h_state h = Absent \<or> h_files h' = h_files h \<Longrightarrow> cc_abs h' = cc_abs h"
  by (auto simp: cc_abs_def committed_def split: state_file.split)

lemma refine_apply:
  assumes "tools_ok r" "names_ok v"
  shows "cc_step Propose (cc_abs h) (cc_abs (snd (apply_change v r t q timeout h)))"
proof (cases "h_state h = Absent")
  case False
  then have "snd (apply_change v r t q timeout h) = h" by (simp add: apply_change_refused)
  then show ?thesis by (simp add: cc_refuse)
next
  case True
  let ?h = "snd (apply_change v r t q timeout h)"
  consider "config ?h = config h" "h_state ?h = h_state h"
    | st where "h_state ?h = Written st" "\<not> rs_confirmed st" "map_of (restore_files st (h_files ?h)) = config h"
    using apply_change_cases [OF assms, of t q timeout h] by blast
  then show ?thesis
  proof cases
    case 1
    then have "cc_abs ?h = cc_abs h" using True by (intro cc_abs_eq) simp_all
    then show ?thesis by (simp add: cc_refuse)
  next
    case 2
    then have "cc_abs ?h = (cc_abs h)\<lparr>cc_live := config ?h, cc_pending := True\<rparr>" using True by (simp add: cc_abs_def committed_def)
    moreover have "\<not> cc_pending (cc_abs h)" using True by (simp add: cc_abs_def)
    ultimately show ?thesis by (metis cc_propose)
  qed
qed

lemma rollback_check_ok:
  assumes "tools_ok r"
  shows "config (snd (rollback_check r h)) = committed h"
    and "h_state (snd (rollback_check r h)) = (if read_rollback_state h = None then h_state h else Absent)"
proof -
  have "config (snd (rollback_check r h)) = committed h \<and>
        h_state (snd (rollback_check r h)) = (if read_rollback_state h = None then h_state h else Absent)"
  proof (cases "read_rollback_state h")
    case None
    then show ?thesis by (auto simp: rollback_check_def read_rollback_state_def committed_def split: state_file.splits)
  next
    case (Some st)
    then have st: "h_state h = Written st" by (simp add: read_rollback_state_def split: state_file.splits)
    obtain h' where "perform_rollback r st h = (Inr (), h')" "h_files h' = restore_files st (h_files h)" "h_state h' = Absent"
      using assms by (rule perform_rollback_ok)
    then show ?thesis using Some st by (simp add: rollback_check_def committed_def unlink_state_def and_then_def return_net_def)
  qed
  then show "config (snd (rollback_check r h)) = committed h"
    and "h_state (snd (rollback_check r h)) = (if read_rollback_state h = None then h_state h else Absent)" by simp_all
qed

lemma confirm_change_ok:
  assumes "tools_ok r"
  shows "h_files (snd (confirm_change r h)) = h_files h"
    and "h_state (snd (confirm_change r h)) = (if read_rollback_state h = None then h_state h else Absent)"
proof -
  have no_error: "\<exists>x h'. cancel_rollback_timer r u h = (Inr x, h') \<and> h_files h' = h_files h" for u
    using assms by (auto simp: cancel_rollback_timer_def and_then_def run_cmd_def tools_ok_def split: cmd_outcome.split)
  show "h_files (snd (confirm_change r h)) = h_files h"
    and "h_state (snd (confirm_change r h)) = (if read_rollback_state h = None then h_state h else Absent)"
    using no_error by (auto simp: confirm_change_def and_then_def return_net_def log_rollback_event_def unlink_state_def
        split: option.split prod.split sum.split) (metis Inr_not_Inl prod.inject)+
qed

lemma cc_abs_settled: "h_state h = Absent \<or> h_state h = Garbled \<Longrightarrow> cc_abs h = \<lparr>cc_committed = config h, cc_live = config h, cc_pending = False\<rparr>"
  by (auto simp: cc_abs_def committed_def)

lemma settled_iff: "(h_state h = Absent \<or> h_state h = Garbled) \<longleftrightarrow> read_rollback_state h = None"
  by (cases "h_state h") (simp_all add: read_rollback_state_def)

lemma refine_step: "net_step l h h' \<Longrightarrow> cc_step l (cc_abs h) (cc_abs h')"
proof (induction rule: net_step.induct)
  case (step_apply r v h t q timeout)
  then show ?case by (rule refine_apply)
next
  case (step_confirm r h)
  note ok = confirm_change_ok [OF step_confirm, of h]
  have "cc_abs (snd (confirm_change r h)) = (cc_abs h)\<lparr>cc_committed := cc_live (cc_abs h), cc_pending := False\<rparr>"
    using ok settled_iff [of h] cc_abs_settled [of "snd (confirm_change r h)"] by (auto simp: cc_abs_def split: if_splits)
  then show ?case by (simp add: cc_confirm)
next
  case (step_watchdog r h)
  note ok = rollback_check_ok [OF step_watchdog, of h]
  have "cc_abs (snd (rollback_check r h)) = (cc_abs h)\<lparr>cc_live := cc_committed (cc_abs h), cc_pending := False\<rparr>"
    using ok settled_iff [of h] cc_abs_settled [of "snd (rollback_check r h)"] by (auto simp: cc_abs_def split: if_splits)
  then show ?case by (simp add: cc_revert)
qed

lemma unconfirmed_step: "cc_step l s s' \<Longrightarrow> l \<noteq> Confirm \<Longrightarrow> cc_committed s' = cc_committed s"
  by (auto elim: cc_stepE)

lemma unconfirmed_run: "net_run h ls h' \<Longrightarrow> Confirm \<notin> set ls \<Longrightarrow> committed h' = committed h"
proof (induction rule: net_run.induct)
  case (run_none h)
  show ?case by simp
next
  case (run_step l h h1 ls h2)
  have "committed h1 = committed h" using unconfirmed_step [OF refine_step [OF run_step.hyps(1)]] run_step.prems by (auto simp: cc_abs_def)
  then show ?case using run_step by simp
qed

section \<open>Commands of a change\<close>

lemma perform_rollback_cmds: "\<exists>cs. h_cmds (snd (perform_rollback r st h)) = h_cmds h @ cs \<and> list_all not_systemctl cs"
proof -
  let ?h = "h\<lparr>h_files := restore_files st (h_files h)\<rparr>"
  obtain res h1 where re: "reapply r st ?h = (res, h1)" by (cases "reapply r st ?h")
  obtain cs where "h1 = ?h\<lparr>h_cmds := h_cmds ?h @ cs\<rparr>" "list_all not_systemctl cs" using issues_reapply re by (rule issuesE)
  then show ?thesis using re
    by (auto simp: perform_rollback_def unlink_state_def log_rollback_event_def split: sum.split net_exn.split)
qed

lemma go_live_cmds: "\<exists>cs. h_cmds (snd (go_live v r st h)) = h_cmds h @ cs \<and> list_all not_systemctl cs"
proof -
  let ?m = "apply_via_backend v r (rs_backend st) (rs_proposed st)"
  obtain res h1 where ap: "?m h = (res, h1)" by (cases "?m h")
  obtain cs where h1: "h1 = h\<lparr>h_cmds := h_cmds h @ cs\<rparr>" "list_all not_systemctl cs" using issues_apply ap by (rule issuesE)
  show ?thesis
  proof (cases "\<exists>c rc out. res = Inl (Called c rc out)")
    case True
    then obtain c rc out where res: "res = Inl (Called c rc out)" by blast
    let ?h = "log_rollback_event (Ev_Apply_Failed (rs_interface st) (rs_backend st) (Called c rc out)) h1"
    obtain ds where "h_cmds (snd (perform_rollback r st ?h)) = h_cmds ?h @ ds" "list_all not_systemctl ds"
      using perform_rollback_cmds by blast
    moreover have "snd (go_live v r st h) = snd (perform_rollback r st ?h)"
      using ap res by (simp add: go_live_def Let_def and_then_def split: prod.split sum.split)
    ultimately show ?thesis using h1 by (auto simp: log_rollback_event_def intro!: exI [of _ "cs @ ds"])
  next
    case False
    then have "h_cmds (snd (go_live v r st h)) = h_cmds h1"
      using ap by (auto simp: go_live_def log_rollback_event_def Let_def split: sum.splits net_exn.splits)
    then show ?thesis using h1 by auto
  qed
qed

lemma stage_change_cmds:
  assumes "stage_change v r b q h = (res, h')"
  shows "\<exists>cs. h_cmds h' = h_cmds h @ cs \<and> list_all not_systemctl cs"
proof (cases "b = NetworkManager")
  case True
  have "issues not_systemctl (and_then (stage_networkmanager v r q) (\<lambda>_. return_net ()))" by (intro issues_intros)
  moreover have "and_then (stage_networkmanager v r q) (\<lambda>_. return_net ()) h = (res, h')" using assms True by (simp add: stage_change_def)
  ultimately obtain cs where "h' = h\<lparr>h_cmds := h_cmds h @ cs\<rparr>" "list_all not_systemctl cs" by (rule issuesE)
  then show ?thesis by auto
next
  case False
  have "h_cmds (stage_ifupdown q h) = h_cmds h" unfolding stage_ifupdown_def write_file_def Let_def by (simp split: option.split)
  then show ?thesis using assms False
    by (cases b) (auto simp: stage_change_def return_net_def stage_networkd_def stage_netplan_def write_file_def)
qed

text \<open>A change that got as far as the log has armed its watchdog, and stopped none.\<close>

lemma apply_change_armed:
  assumes "tools_ok r" "apply_change v r t q timeout h = (res, h')" "h_log h' \<noteq> h_log h"
  shows "\<exists>cs. h_cmds h' = h_cmds h @ cs \<and> arm_command (watchdog_unit t) timeout \<in> set cs \<and> list_all not_systemctl cs"
proof -
  let ?b = "dt_backend (detect_backend v h)"
  have "\<not> snd (apply_change v r t q timeout h) = h" using assms(2,3) by auto
  then obtain q' where q': "?b \<noteq> Unsupported" "validate_proposed v q = Inr q'" "h_state h = Absent" using apply_change_refused by blast
  obtain res1 h1 where st: "stage_change v r ?b q' h = (res1, h1)" by (cases "stage_change v r ?b q' h")
  obtain as where as: "h_cmds h1 = h_cmds h @ as" "list_all not_systemctl as" using stage_change_cmds [OF st] by blast
  let ?st = "new_state v t ?b q' timeout h" and ?arm = "arm_command (watchdog_unit t) timeout"
  show ?thesis
  proof (cases res1)
    case (Inl e)
    then have "h' = h1" using assms(2) q' st by (simp add: apply_change_pending and_then_def)
    then show ?thesis using assms(3) stage_change_frame(1) [OF st] by simp
  next
    case (Inr u)
    obtain out where "r (h_cmds h1) ?arm = Ran 0 out" using assms(1) unfolding tools_ok_def by blast
    note arm = schedule_ok [of r h1 t timeout, OF this]
    let ?h2 = "write_state_file ?st (h1\<lparr>h_cmds := h_cmds h1 @ [?arm]\<rparr>)"
    have "h' = snd (go_live v r ?st ?h2)" using assms(2) q' st Inr arm by (simp add: apply_change_pending and_then_def)
    moreover obtain bs where "h_cmds (snd (go_live v r ?st ?h2)) = h_cmds ?h2 @ bs" "list_all not_systemctl bs" using go_live_cmds by blast
    moreover have "not_systemctl ?arm" by (simp add: not_systemctl_def arm_command_def)
    ultimately show ?thesis using as by (auto simp: write_state_file_def intro!: exI [of _ "as @ [?arm] @ bs"])
  qed
qed

section \<open>Validated addresses\<close>

lemma parse_mask4_str_nat: "n \<le> 32 \<Longrightarrow> parse_mask4 (str_nat n) = Some n"
  by (simp add: parse_mask4_def parse_prefix_def str_nat_digits)

lemma ip_network_v4:
  assumes "parse_v4 a = Some n" "0 \<le> p" "p \<le> 32"
  shows "ip_network (a @ ''/'' @ str_int p) = Some (Net4 (clear_host (32 - nat p) n) (nat p))"
proof -
  have "CHR ''/'' \<notin> set a" using parse_v4_chars [OF assms(1), of "CHR ''/''"] by (auto simp: is_ascii_digit_def)
  moreover have "CHR ''/'' \<notin> set (str_nat (nat p))" using str_nat_digits [of "nat p"] by (auto simp: list_all_iff is_ascii_digit_def)
  ultimately have "split_char CHR ''/'' (a @ ''/'' @ str_int p) = [a, str_nat (nat p)]"
    using assms(2) by (simp add: str_int_def split_char_append split_char_single)
  then show ?thesis using assms by (simp add: ip_network_def parse_net4_def parse_mask4_str_nat)
qed

lemma validate_static4_ok:
  assumes "validate_static4 v i a p g = Inr c"
  shows "\<exists>n gw. parse_v4 (ic_address c) = Some n \<and> parse_v4 (ic_gateway c) = Some gw \<and> v4_unicast n \<and> v4_unicast gw \<and>
           1 \<le> ic_prefix c \<and> ic_prefix c \<le> 32 \<and> in_network (V4 gw) (Net4 (clear_host (32 - nat (ic_prefix c)) n) (nat (ic_prefix c))) \<and>
           ic_address c \<notin> all_local_addresses v i"
  using assms by (auto simp: validate_static4_def given_def Let_def v4_unicast_def split: option.splits if_splits prod.splits)

lemma guards_passed:
  "(if x then Inl a else if y then Inl b else if z then Inl c
    else (case m of Inl e \<Rightarrow> Inl e | Inr u \<Rightarrow> (case n of Inl e \<Rightarrow> Inl e | Inr w \<Rightarrow> Inr (f u w)))) = Inr res \<Longrightarrow>
   \<exists>u w. m = Inr u \<and> n = Inr w \<and> res = f u w"
  by (auto split: if_splits sum.splits)

lemma validate_proposed_ipv4:
  assumes "validate_proposed v q = Inr q'"
  shows "pq_ipv4_mode q = ''static'' \<longleftrightarrow> vd_ipv4 q' \<noteq> None"
    and "vd_ipv4 q' = Some c \<Longrightarrow> validate_static4 v (pq_interface q) (pq_ipv4_address q) (pq_ipv4_prefix q) (pq_ipv4_gateway q) = Inr c"
proof -
  define s where "s = validate_static4 v (pq_interface q) (pq_ipv4_address q) (pq_ipv4_prefix q) (pq_ipv4_gateway q)"
  define static where "static \<longleftrightarrow> pq_ipv4_mode q = ''static''"
  have "(if static then map_sum id Some s else Inr None) = Inr (vd_ipv4 q')"
    using guards_passed [OF assms [unfolded validate_proposed_def]] unfolding s_def static_def by fastforce
  then have "(static \<longleftrightarrow> vd_ipv4 q' \<noteq> None) \<and> (vd_ipv4 q' = Some c \<longrightarrow> s = Inr c)" by (cases s; cases static) (auto dest: sym)
  then show "pq_ipv4_mode q = ''static'' \<longleftrightarrow> vd_ipv4 q' \<noteq> None"
    and "vd_ipv4 q' = Some c \<Longrightarrow> validate_static4 v (pq_interface q) (pq_ipv4_address q) (pq_ipv4_prefix q) (pq_ipv4_gateway q) = Inr c"
    unfolding s_def static_def by simp_all
qed

section \<open>A sample host\<close>

definition sample_view :: host_view where
  "sample_view =
     \<lparr>hv_netplan_bin = False, hv_nmcli_bin = False,
      hv_is_active = (\<lambda>u. if u = ''systemd-networkd.service'' then Some ''active'' else Some ''inactive''),
      hv_links = [''lo'', ''eth0'', ''eth1''],
      hv_addrs = [\<lparr>ie_ifname = Some ''eth1'', ie_addrs = [\<lparr>ai_family = Some ''inet6'', ai_scope = Some ''global'',
                    ai_local = Some ''fd00::1'', ai_prefixlen = Some 64\<rparr>]\<rparr>],
      hv_dev = (\<lambda>_. []), hv_route = (\<lambda>_. (0, [])), hv_nm_cons = (0, []), hv_nm_prop = (\<lambda>_ _. (0, [])),
      hv_addr_error = (\<lambda>s. s), hv_dump = nb_interface\<rparr>"

definition ifupdown_view :: host_view where
  "ifupdown_view = sample_view\<lparr>hv_is_active := (\<lambda>_. None)\<rparr>"

definition sample_host :: host where
  "sample_host = \<lparr>h_files = [(IFUPDOWN_INTERFACES, ''auto lo'')], h_state = Absent, h_cmds = [], h_log = []\<rparr>"

definition sample_instant :: instant where
  "sample_instant = \<lparr>in_now = ''t0'', in_epoch = 7, in_after = str_int\<rparr>"

definition dhcp_proposal :: proposal where
  "dhcp_proposal = \<lparr>pq_interface = ''eth0'', pq_ipv4_mode = ''dhcp'', pq_ipv4_address = None, pq_ipv4_prefix = None, pq_ipv4_gateway = None,
     pq_ipv6_mode = ''unchanged'', pq_ipv6_address = None, pq_ipv6_prefix = None, pq_ipv6_gateway = None\<rparr>"

definition static_proposal :: proposal where
  "static_proposal = dhcp_proposal\<lparr>pq_ipv4_mode := ''static'', pq_ipv4_address := Some ''10.0.0.9'', pq_ipv4_prefix := Some 24,
     pq_ipv4_gateway := Some ''10.0.0.1''\<rparr>"

definition dhcp_validated :: validated where
  "dhcp_validated = \<lparr>vd_interface = ''eth0'', vd_ipv4_mode = ''dhcp'', vd_ipv6_mode = ''unchanged'', vd_ipv4 = None, vd_ipv6 = None\<rparr>"

text \<open>Programs that all exist: the one that never fails, and one whose first \<^verbatim>\<open>networkctl reload\<close> fails.\<close>

definition obedient :: runner where
  "obedient past c = Ran 0 []"

definition reload_fails_once :: runner where
  "reload_fails_once past c = (if c = [''networkctl'', ''reload''] \<and> c \<notin> set past then Ran 1 [] else Ran 0 [])"

definition unarmed :: runner where
  "unarmed past c = (if c \<noteq> [] \<and> hd c = ''systemd-run'' then Ran 1 [] else Ran 0 [])"

definition no_ifupdown :: runner where
  "no_ifupdown past c = (if c \<noteq> [] \<and> hd c = ''ifdown'' then No_Tool else Ran 0 [])"

lemma tools_ok_obedient: "tools_ok obedient"
  by (simp add: tools_ok_def obedient_def)

lemma tools_ok_reload_fails_once: "tools_ok reload_fails_once"
  by (simp add: tools_ok_def reload_fails_once_def arm_command_def)

lemma names_ok_sample: "names_ok sample_view"
  by (simp add: names_ok_def sample_view_def)

lemma sample_detected: "dt_backend (detect_backend sample_view h) = Networkd"
  by (simp add: detect_backend_def backend_candidates_def netplan_candidate_def systemctl_is_active_def sample_view_def Let_def
      strip_by_def lstrip_by_def rstrip_by_def py_isspace_def)

lemma ifupdown_detected: "dt_backend (detect_backend ifupdown_view sample_host) = Ifupdown"
  by (simp add: detect_backend_def backend_candidates_def netplan_candidate_def systemctl_is_active_def ifupdown_view_def sample_view_def
      sample_host_def Let_def)

lemma dhcp_validates: "validate_proposed sample_view dhcp_proposal = Inr dhcp_validated"
  "validate_proposed ifupdown_view dhcp_proposal = Inr dhcp_validated"
  by (simp_all add: validate_proposed_def dhcp_proposal_def dhcp_validated_def list_interfaces_def sample_view_def ifupdown_view_def)

lemma sample_pending: "h_state (snd (apply_change sample_view obedient sample_instant dhcp_proposal 120 sample_host)) =
    Written (new_state sample_view sample_instant Networkd dhcp_validated 120 sample_host)"
  by (simp add: apply_change_pending [OF refl _ dhcp_validates(1)] sample_detected and_then_def stage_change_def return_net_def
      schedule_rollback_timer_def run_cmd_def obedient_def go_live_def Let_def apply_via_backend_def apply_networkd_def
      log_rollback_event_def write_state_file_def new_state_def stage_networkd_def write_file_def sample_host_def)

definition failed_host :: host where
  "failed_host = snd (apply_change sample_view reload_fails_once sample_instant dhcp_proposal 120 sample_host)"

lemma sample_fails:
  "\<exists>e. apply_change sample_view reload_fails_once sample_instant dhcp_proposal 120 sample_host = (Inl e, failed_host) \<and>
       h_log failed_host \<noteq> h_log sample_host \<and> h_state failed_host = Absent \<and> [''networkctl'', ''reload''] \<in> set (h_cmds failed_host)"
  unfolding failed_host_def
  by (simp add: apply_change_pending [OF refl _ dhcp_validates(1)] sample_detected and_then_def stage_change_def return_net_def
      schedule_rollback_timer_def run_cmd_def reload_fails_once_def arm_command_def go_live_def Let_def apply_via_backend_def apply_networkd_def
      perform_rollback_def reapply_def unlink_state_def
      log_rollback_event_def write_state_file_def new_state_def stage_networkd_def write_file_def sample_host_def dhcp_validated_def)

lemma sample_then_succeeds:
  assumes "h_state h = Absent" "[''networkctl'', ''reload''] \<in> set (h_cmds h)"
  shows "\<exists>x h'. apply_change sample_view reload_fails_once sample_instant dhcp_proposal 120 h = (Inr x, h')"
  using assms
  by (simp add: apply_change_pending [OF refl _ dhcp_validates(1)] sample_detected and_then_def stage_change_def return_net_def
      schedule_rollback_timer_def run_cmd_def reload_fails_once_def arm_command_def go_live_def Let_def apply_via_backend_def apply_networkd_def
      write_state_file_def new_state_def stage_networkd_def write_file_def dhcp_validated_def)

lemma replicate_6: "replicate 6 x = [x, x, x, x, x, x]"
  by (simp add: numeral_eq_Suc)

lemma sample_v4: "parse_v4 ''10.0.0.9'' = Some 167772169" "parse_v4 ''10.0.0.1'' = Some 167772161"
  by (simp_all add: parse_v4_def parse_octet_def digits_val_def is_ascii_digit_def)

lemma sample_static:
  "validate_proposed sample_view static_proposal =
     Inr \<lparr>vd_interface = ''eth0'', vd_ipv4_mode = ''static'', vd_ipv6_mode = ''unchanged'',
          vd_ipv4 = Some \<lparr>ic_address = ''10.0.0.9'', ic_prefix = 24, ic_gateway = ''10.0.0.1''\<rparr>, vd_ipv6 = None\<rparr>"
  by (simp add: validate_proposed_def static_proposal_def dhcp_proposal_def list_interfaces_def validate_static4_def given_def sample_v4
      v4_loopback_def v4_multicast_def v4_unicast_def clear_host_def all_local_addresses_def sample_view_def)

lemma sample_v6: "v6_number ''fd00::1'' = Some (0xfd000000000000000000000000000001, None)"
  "v6_number ''fd00::2'' = Some (0xfd000000000000000000000000000002, None)"
  "parse_v6 ''FD00::1'' = parse_v6 ''fd00::1''"
  by (simp_all add: v6_number_def parse_v6_def expand_v4_tail_def parts_val_def inner_empty_def parse_hextet_def hex_digit_val_def upt_rec
      Let_def replicate_6)

lemma sample_v6_upper: "v6_number ''FD00::1'' = Some (0xfd000000000000000000000000000001, None)"
  using sample_v6(1) by (simp add: v6_number_def sample_v6(3))

section \<open>Properties\<close>

text \<open>
  C21: The three entry points of the module refine commit-confirm on the configuration files: with the programs in place, a
  change is refused or takes effect provisionally, a confirmation makes the live configuration the committed one, and the
  watchdog makes the committed configuration live again and ends the pending change, whatever the backend commands answer.  The
  profile that NetworkManager keeps is not part of the configuration observed.
\<close>

theorem commit_confirm_refines:
  assumes "net_step l h h'"
  shows "cc_step l (cc_abs h) (cc_abs h')"
  using assms by (rule refine_step)

theorem commit_confirm_refines_witness:
  "cc_step Propose (cc_abs sample_host) (cc_abs (snd (apply_change sample_view obedient sample_instant dhcp_proposal 120 sample_host))) \<and>
   cc_pending (cc_abs (snd (apply_change sample_view obedient sample_instant dhcp_proposal 120 sample_host)))"
proof
  show "cc_step Propose (cc_abs sample_host) (cc_abs (snd (apply_change sample_view obedient sample_instant dhcp_proposal 120 sample_host)))"
    by (rule commit_confirm_refines [OF step_apply [OF tools_ok_obedient names_ok_sample]])
qed (simp add: cc_abs_def sample_pending)

text \<open>
  C22: An address change that nobody confirms does not stick: with the external programs in place and the watchdog armed
  every time (\<open>tools_ok\<close>), after any sequence of changes and watchdog runs that ends with no change pending, every
  configuration file has the content it had before.  The profile that NetworkManager keeps is no configuration file and
  not covered.
\<close>

theorem unconfirmed_changes_do_not_stick:
  assumes "net_run h ls h'" "Confirm \<notin> set ls" "read_rollback_state h = None" "read_rollback_state h' = None"
  shows "map_of (h_files h') = map_of (h_files h)"
proof -
  have "committed g = config g" if "read_rollback_state g = None" for g
    using that by (auto simp: committed_def read_rollback_state_def split: state_file.splits)
  then show ?thesis using unconfirmed_run [OF assms(1,2)] assms(3,4) by metis
qed

theorem unconfirmed_changes_do_not_stick_witness:
  "map_of (h_files (snd (rollback_check obedient (snd (apply_change sample_view obedient sample_instant dhcp_proposal 120 sample_host))))) =
   map_of (h_files sample_host)"
proof (rule unconfirmed_changes_do_not_stick)
  let ?h = "snd (apply_change sample_view obedient sample_instant dhcp_proposal 120 sample_host)"
  show "net_run sample_host [Propose, Watchdog] (snd (rollback_check obedient ?h))"
    by (rule run_step [OF step_apply [OF tools_ok_obedient names_ok_sample] run_step [OF step_watchdog [OF tools_ok_obedient] run_none]])
  show "read_rollback_state (snd (rollback_check obedient ?h)) = None"
    using rollback_check_ok(2) [OF tools_ok_obedient, of ?h] sample_pending by (simp add: read_rollback_state_def)
qed (simp_all add: read_rollback_state_def sample_host_def)

text \<open>
  C38: A change whose watchdog cannot be armed is not undone, on any backend: when \<^verbatim>\<open>systemd-run\<close> exits with an error after the change was
  staged, the change is reported as failed, but everything staged stays: the file of a networkd, Netplan or ifupdown change has the
  new content, the \<^verbatim>\<open>nmcli\<close> commands of a NetworkManager change have been run, no rollback state is written, and the rollback check
  finds nothing to do.\<close>

theorem unarmed_change_stays:
  assumes "dt_backend (detect_backend v h) = b" "b \<noteq> Unsupported" "validate_proposed v q = Inr q'" "h_state h = Absent"
    and "stage_change v r b q' h = (Inr (), h1)"
    and "r (h_cmds h1) (arm_command (watchdog_unit t) timeout) = Ran rc out" "rc \<noteq> 0"
  shows "\<exists>h'. apply_change v r t q timeout h = (Inl (Called (arm_command (watchdog_unit t) timeout) rc out), h') \<and>
    h_files h' = h_files h1 \<and> h_cmds h' = h_cmds h1 @ [arm_command (watchdog_unit t) timeout] \<and>
    (case staged_path b (vd_interface q') of None \<Rightarrow> b = NetworkManager | Some p \<Rightarrow> map_of (h_files h') p = Some (staged_text v b q')) \<and>
    rollback_check r h' = (Inr ''no pending network change; nothing to roll back'', h')"
proof (intro exI conjI)
  let ?h = "h1\<lparr>h_cmds := h_cmds h1 @ [arm_command (watchdog_unit t) timeout]\<rparr>"
  show "apply_change v r t q timeout h = (Inl (Called (arm_command (watchdog_unit t) timeout) rc out), ?h)"
    using assms by (simp add: apply_change_pending and_then_def schedule_rollback_timer_def run_cmd_def)
  show "h_files ?h = h_files h1" "h_cmds ?h = h_cmds h1 @ [arm_command (watchdog_unit t) timeout]" by simp_all
  show "case staged_path b (vd_interface q') of None \<Rightarrow> b = NetworkManager | Some p \<Rightarrow> map_of (h_files ?h) p = Some (staged_text v b q')"
    using staged_content [OF assms(5,2)] by (simp split: option.splits)
  show "rollback_check r ?h = (Inr ''no pending network change; nothing to roll back'', ?h)"
    using assms(4) stage_change_frame(1) [OF assms(5)] by (simp add: rollback_check_def read_rollback_state_def)
qed

theorem unarmed_change_stays_witness:
  "\<exists>h'. apply_change ifupdown_view unarmed sample_instant dhcp_proposal 120 sample_host =
          (Inl (Called (arm_command (watchdog_unit sample_instant) 120) 1 []), h') \<and>
        h_files h' = h_files (stage_ifupdown dhcp_validated sample_host) \<and> h_cmds h' = h_cmds (stage_ifupdown dhcp_validated sample_host) @
          [arm_command (watchdog_unit sample_instant) 120] \<and>
        (case staged_path Ifupdown (vd_interface dhcp_validated) of None \<Rightarrow> Ifupdown = NetworkManager
          | Some p \<Rightarrow> map_of (h_files h') p = Some (staged_text ifupdown_view Ifupdown dhcp_validated)) \<and>
        rollback_check unarmed h' = (Inr ''no pending network change; nothing to roll back'', h')"
  by (rule unarmed_change_stays [OF ifupdown_detected _ dhcp_validates(2)])
     (simp_all add: sample_host_def unarmed_def arm_command_def stage_change_def return_net_def)

text \<open>
  C37: On a host taken for an ifupdown host (\<^verbatim>\<open>/etc/network/interfaces\<close> exists and no other backend is active) without the program
  \<^verbatim>\<open>ifdown\<close>, a valid change whose watchdog is armed raises with its rollback state written; the watchdog raises too, with the
  state still there; and from then on every change is refused.
\<close>

theorem missing_tool_blocks_changes:
  assumes "dt_backend (detect_backend v h) = Ifupdown" "validate_proposed v q = Inr q'" "h_state h = Absent"
    and armed: "\<exists>out. r (h_cmds h) (arm_command (watchdog_unit t) timeout) = Ran 0 out"
    and missing: "\<And>past. r past [''ifdown'', vd_interface q'] = No_Tool"
  shows "\<exists>h1 h2. apply_change v r t q timeout h = (Inl (Not_Found ''ifdown''), h1) \<and>
    rollback_check r h1 = (Inl (Not_Found ''ifdown''), h2) \<and>
    h_state h2 = Written (new_state v t Ifupdown q' timeout h) \<and>
    snd (apply_change w s u p n h2) = h2 \<and> (\<exists>e. fst (apply_change w s u p n h2) = Inl (Config_Error e))"
proof -
  obtain out where arm: "r (h_cmds h) (arm_command (watchdog_unit t) timeout) = Ran 0 out" using armed by blast
  have gone: "apply_ifupdown r (vd_interface q') g =
      (Inl (Not_Found ''ifdown''), g\<lparr>h_cmds := h_cmds g @ [[''ifdown'', vd_interface q']]\<rparr>)" for g
    using missing by (simp add: apply_ifupdown_def and_then_def run_cmd_def)
  have cmds: "h_cmds (stage_ifupdown q' h) = h_cmds h" unfolding stage_ifupdown_def write_file_def Let_def by (simp split: option.split)
  let ?st = "new_state v t Ifupdown q' timeout h"
  let ?h1 = "(stage_ifupdown q' h)\<lparr>h_state := Written ?st, h_cmds := h_cmds h @ [arm_command (watchdog_unit t) timeout, [''ifdown'', vd_interface q']]\<rparr>"
  have st: "rs_backend ?st = Ifupdown" "rs_interface ?st = vd_interface q'" "rs_proposed ?st = q'" "\<not> rs_confirmed ?st"
    by (simp_all add: new_state_def)
  have ap: "apply_change v r t q timeout h = (Inl (Not_Found ''ifdown''), ?h1)"
    using assms(1-3) arm cmds st by (simp add: apply_change_pending and_then_def stage_change_def return_net_def
        schedule_rollback_timer_def run_cmd_def go_live_def apply_via_backend_def gone write_state_file_def)
  obtain h2 where h2: "rollback_check r ?h1 = (Inl (Not_Found ''ifdown''), h2)" "h_state h2 = Written ?st"
    using st by (simp add: rollback_check_def read_rollback_state_def and_then_def perform_rollback_def reapply_def gone)
  have "snd (apply_change w s u p n h2) = h2" using h2(2) by (simp add: apply_change_refused)
  moreover have "\<exists>e. fst (apply_change w s u p n h2) = Inl (Config_Error e)"
    using h2(2) by (simp add: apply_change_def Let_def split: sum.split)
  ultimately show ?thesis using ap h2 by blast
qed

theorem missing_tool_blocks_changes_witness:
  "\<exists>h1 h2. apply_change ifupdown_view no_ifupdown sample_instant dhcp_proposal 120 sample_host = (Inl (Not_Found ''ifdown''), h1) \<and>
    rollback_check no_ifupdown h1 = (Inl (Not_Found ''ifdown''), h2) \<and>
    h_state h2 = Written (new_state ifupdown_view sample_instant Ifupdown dhcp_validated 120 sample_host) \<and>
    snd (apply_change sample_view obedient sample_instant dhcp_proposal 120 h2) = h2 \<and>
    (\<exists>e. fst (apply_change sample_view obedient sample_instant dhcp_proposal 120 h2) = Inl (Config_Error e))"
  by (rule missing_tool_blocks_changes [OF ifupdown_detected dhcp_validates(2)])
     (simp_all add: sample_host_def no_ifupdown_def arm_command_def)

text \<open>
  C36: The watchdog is not tied to its change.  When a change fails while it is applied, it is rolled back at once but its watchdog stays
  armed: no command stops it.  Should the administrator's next change be pending when it fires, that change is rolled back,
  ahead of its own deadline.\<close>

theorem failed_change_leaves_watchdog:
  assumes "tools_ok r" "names_ok v" "h_state h = Absent"
    and "apply_change v r t q timeout h = (Inl e, h1)" "h_log h1 \<noteq> h_log h"
    and "apply_change v r t' q' timeout' h1 = (Inr x, h2)"
  shows "(\<exists>cs. h_cmds h1 = h_cmds h @ cs \<and> arm_command (watchdog_unit t) timeout \<in> set cs \<and> list_all not_systemctl cs) \<and>
    map_of (h_files (snd (rollback_check r h2))) = map_of (h_files h)"
proof
  show "\<exists>cs. h_cmds h1 = h_cmds h @ cs \<and> arm_command (watchdog_unit t) timeout \<in> set cs \<and> list_all not_systemctl cs"
    using assms(1,4,5) by (rule apply_change_armed)
  have "committed (snd (apply_change v r a b c g)) = committed g" for a b c g
    using unconfirmed_step [OF refine_apply [OF assms(1,2)]] by (auto simp: cc_abs_def)
  then have "committed h2 = committed h" using assms(4,6) by (metis snd_conv)
  then show "map_of (h_files (snd (rollback_check r h2))) = map_of (h_files h)"
    using rollback_check_ok(1) [OF assms(1)] assms(3) by (simp add: committed_def)
qed

theorem failed_change_leaves_watchdog_witness:
  "(\<exists>cs. h_cmds failed_host = h_cmds sample_host @ cs \<and> arm_command (watchdog_unit sample_instant) 120 \<in> set cs \<and>
         list_all not_systemctl cs) \<and>
   map_of (h_files (snd (rollback_check reload_fails_once
     (snd (apply_change sample_view reload_fails_once sample_instant dhcp_proposal 120 failed_host))))) = map_of (h_files sample_host)"
proof -
  obtain e where e: "apply_change sample_view reload_fails_once sample_instant dhcp_proposal 120 sample_host = (Inl e, failed_host)"
    "h_log failed_host \<noteq> h_log sample_host" "h_state failed_host = Absent" "[''networkctl'', ''reload''] \<in> set (h_cmds failed_host)"
    using sample_fails by blast
  obtain x h2 where h2: "apply_change sample_view reload_fails_once sample_instant dhcp_proposal 120 failed_host = (Inr x, h2)"
    using sample_then_succeeds [OF e(3,4)] by blast
  show ?thesis
    using failed_change_leaves_watchdog [OF tools_ok_reload_fails_once names_ok_sample _ e(1,2) h2] by (simp add: h2 sample_host_def)
qed

text \<open>
  A static IPv4 change that validation accepts is usable: address and gateway are unicast addresses, the prefix length is between 1
  and 32, the gateway lies in the network of the address, and no other interface has the same address text.\<close>

theorem accepted_ipv4_is_usable:
  assumes "validate_proposed v q = Inr q'" "pq_ipv4_mode q = ''static''"
  shows "\<exists>c n gw net. vd_ipv4 q' = Some c \<and> parse_v4 (ic_address c) = Some n \<and> parse_v4 (ic_gateway c) = Some gw \<and>
    v4_unicast n \<and> v4_unicast gw \<and> 1 \<le> ic_prefix c \<and> ic_prefix c \<le> 32 \<and>
    ip_network (cidr c) = Some net \<and> in_network (V4 gw) net \<and> ic_address c \<notin> all_local_addresses v (pq_interface q)"
proof -
  obtain c where c: "vd_ipv4 q' = Some c" using validate_proposed_ipv4(1) [OF assms(1)] assms(2) by auto
  from validate_static4_ok [OF validate_proposed_ipv4(2) [OF assms(1) c]] obtain n gw where
    ok: "parse_v4 (ic_address c) = Some n" "parse_v4 (ic_gateway c) = Some gw" "v4_unicast n" "v4_unicast gw"
      "1 \<le> ic_prefix c" "ic_prefix c \<le> 32"
      "in_network (V4 gw) (Net4 (clear_host (32 - nat (ic_prefix c)) n) (nat (ic_prefix c)))"
      "ic_address c \<notin> all_local_addresses v (pq_interface q)" by blast
  then have "ip_network (cidr c) = Some (Net4 (clear_host (32 - nat (ic_prefix c)) n) (nat (ic_prefix c)))"
    unfolding cidr_def by (intro ip_network_v4) simp_all
  with ok c show ?thesis by blast
qed

theorem accepted_ipv4_is_usable_witness:
  "\<exists>c n gw net. vd_ipv4 \<lparr>vd_interface = ''eth0'', vd_ipv4_mode = ''static'', vd_ipv6_mode = ''unchanged'',
        vd_ipv4 = Some \<lparr>ic_address = ''10.0.0.9'', ic_prefix = 24, ic_gateway = ''10.0.0.1''\<rparr>, vd_ipv6 = None\<rparr> = Some c \<and>
    parse_v4 (ic_address c) = Some n \<and> parse_v4 (ic_gateway c) = Some gw \<and>
    v4_unicast n \<and> v4_unicast gw \<and> 1 \<le> ic_prefix c \<and> ic_prefix c \<le> 32 \<and>
    ip_network (cidr c) = Some net \<and> in_network (V4 gw) net \<and> ic_address c \<notin> all_local_addresses sample_view (pq_interface static_proposal)"
  by (rule accepted_ipv4_is_usable [OF sample_static]) (simp add: static_proposal_def)

text \<open>
  The check that no other interface has the proposed IPv6 address compares texts: an address that another interface has is accepted
  when it is written in another way.\<close>

theorem ipv6_collision_check_compares_texts:
  "validate_static6 sample_view ''eth0'' (Some ''FD00::1'') (Some 64) (Some ''fd00::2'') =
     Inr \<lparr>ic_address = ''FD00::1'', ic_prefix = 64, ic_gateway = ''fd00::2''\<rparr> \<and>
   ''fd00::1'' \<in> all_local_addresses sample_view ''eth0'' \<and> parse_v6 ''FD00::1'' = parse_v6 ''fd00::1'' \<and>
   validate_static6 sample_view ''eth0'' (Some ''fd00::1'') (Some 64) (Some ''fd00::2'') =
     Inl ''fd00::1 is already configured on another local interface''"
  by (simp add: sample_v6 sample_v6_upper validate_static6_def given_def v6_unicast_def v6_multicast_def v6_link_local_def clear_host_def
      all_local_addresses_def sample_view_def)

end
