(* ===== verification/Spec2Isabelle.thy ===== *)
theory Spec2Isabelle
  imports Compiler_Commands Categories Db_Retry Access_Layer Dns_Wire Upstream_Deploy Notify_Check Replica_Sync Network_Rollback
begin

text \<open>
  Alderpoint DNS is a filtering DNS appliance: \<^verbatim>\<open>dnsdist\<close> answers the clients and passes queries to a
  recursive BIND server, whose response-policy zone (RPZ) blocks, allows or rewrites names.  The Python
  program keeps the configuration in one SQLite database, compiles it into configuration and zone files, and
  installs them with checks and rollback.  This development models that core: everything between the
  configuration tables and the files the two servers load.

  \<^bold>\<open>Parts of the program and their theories.\<close>

  \<^item> \<open>Prelude\<close>: Python strings, dictionaries and SQLite tables, and the lemmas on them; the locale
    \<open>id_table\<close> states what a table with an integer primary key promises and is interpreted for every table
    of the model.
  \<^item> \<open>Ipaddress\<close>, \<open>Domain_Names\<close>: the part of the \<^verbatim>\<open>ipaddress\<close> module the program calls, and the name
    validation of \<^verbatim>\<open>app/alderpointdns_compiler.py\<close> and \<^verbatim>\<open>app/local_dns.py\<close>.  The locale \<open>name_normalizer\<close> is
    the contract of a name gate (accepted names are canonical, and fixed points).
  \<^item> \<open>Regex_Safety\<close>, \<open>Rule_Parser\<close>, \<open>Rule_Store\<close>, \<open>Rule_Compile\<close>, \<open>Rpz_Eval\<close>, \<open>Dnsdist_Layer\<close>:
    \<^verbatim>\<open>app/custom_rules.py\<close> in the order of the file: the checks on regular expressions, the parser of custom
    rules, the table \<^verbatim>\<open>custom_filter_rules\<close> with all operations and the legacy migration, the compilation into
    zone records and dnsdist data, the domain tester (\<^verbatim>\<open>evaluate_domain\<close>), and the installation of the dnsdist
    layer.  \<open>Rpz_Eval\<close> also holds \<^verbatim>\<open>render_rpz\<close> of the compiler.
  \<^item> \<open>Rpz_Agreement\<close>: the refinement between the domain tester and the compiled zone.
  \<^item> \<open>Source_Lists\<close>: blocklist sources of the compiler: the line parser with its fast path, statistics, the
    parse cache, downloads, \<^verbatim>\<open>collect_rules\<close> and \<^verbatim>\<open>source_health\<close>.
  \<^item> \<open>Local_Dns\<close>: \<^verbatim>\<open>app/local_dns.py\<close>: local records, client aliases, zone files and their deployment, and
    the CSV and hosts import.
  \<^item> \<open>Ip_Texts\<close>, \<open>Client_Ids\<close>, \<open>Client_Access\<close>, \<open>Access_Layer\<close>: \<^verbatim>\<open>app/clients.py\<close>: the printed forms of addresses
    and networks, ClientIDs and identifiers, the tables of clients and access rules with their operations and
    the evaluation of the policy, and its enforcement in dnsdist.  The locale \<open>dnsdist_matchers\<close> states how
    dnsdist matches netmasks, server names and paths.
  \<^item> \<open>Dns_Cache\<close>: \<^verbatim>\<open>app/dns_cache.py\<close>: settings, options file, deployment, flush queue.
  \<^item> \<open>Dns_Checks\<close>, \<open>Policy_Cache\<close>, \<open>Deploy\<close>, \<open>Compiler_Commands\<close>: the rest of the compiler: reading \<^verbatim>\<open>dig\<close>,
    the allow check and the polling loop; the reusable policy with its manifest; \<^verbatim>\<open>deploy\<close> and
    \<^verbatim>\<open>protection_enable_reuse\<close>, stage by stage, with the rollback; schema, seeds, source commands, the
    fresh-install bootstrap and the timer entry point.
  \<^item> \<open>Filter_Schedule\<close>, \<open>Categories\<close>, \<open>Db_Retry\<close>: \<^verbatim>\<open>app/filter_schedule.py\<close>,
    \<^verbatim>\<open>app/blocklist_categories.py\<close>, \<^verbatim>\<open>app/db_retry.py\<close>.
  \<^item> \<open>Redaction\<close>: \<^verbatim>\<open>app/service_logs.py\<close>: the patterns that remove secrets from stored and displayed texts.
  \<^item> \<open>Urls\<close>, \<open>Dns_Wire\<close>, \<open>Upstream_Resolvers\<close>, \<open>Upstream_Deploy\<close>: \<^verbatim>\<open>app/upstream_dns.py\<close>: the part of
    \<^verbatim>\<open>urllib.parse\<close> it uses, DNS messages as bytes, the resolver table with validation and probe results, and the
    rendering, console reconciliation and deployment of the enabled resolvers.
  \<^item> \<open>Notifications\<close>, \<open>Notify_Check\<close>: \<^verbatim>\<open>app/notifications.py\<close>, \<^verbatim>\<open>app/notify_check.py\<close>: providers, subscriptions,
    message formats and the dispatch with cooldown and history; the periodic checks and their edge detection.
    \<open>Py_Text\<close> holds the texts of values in error messages.
  \<^item> \<open>Enrollment\<close>, \<open>Replica_Sync\<close>: \<^verbatim>\<open>app/replication.py\<close>: tokens, replicas and their authentication (the locale
    \<open>kept_by_changes\<close> says what a predicate needs to survive every operation of a primary), the replicated payload,
    generations, and the synchronisation of a replica with its restore.
  \<^item> \<open>Network_Config\<close>, \<open>Network_Rollback\<close>: \<^verbatim>\<open>app/network_config.py\<close>: backends, validation, staging, the commit-confirm
    protocol for the server's own address and its request table; the refinement of an abstract commit-confirm machine.

  \<^bold>\<open>How the model corresponds to the code.\<close>  A table is the list of its rows in rowid order, a row a record
  with the columns the code reads or writes; a database file is a record of tables (\<open>rules_db\<close>, \<open>source_db\<close>,
  \<open>local_db\<close>, \<open>cache_db\<close>), an operation a function from the old to the new one with its result.  An
  exception is \<open>Inl\<close> of its message; where a transaction is rolled back the state is the one before.  The
  deployment threads an \<open>appliance\<close> (database tables plus installed files) through its stages.  Clock readings
  and time stamps are arguments.  What the program gets from outside is an argument as well: IDNA decoding,
  \<^verbatim>\<open>re.compile\<close> and \<^verbatim>\<open>re.search\<close> (record \<open>stdlib\<close>, with \<open>plain_lib\<close> as a concrete instance), SHA-256, HTTP
  answers, \<^verbatim>\<open>named-checkzone\<close>, \<^verbatim>\<open>named-checkconf\<close>, \<^verbatim>\<open>rndc\<close>, \<^verbatim>\<open>dig\<close>, \<^verbatim>\<open>systemctl\<close>, \<^verbatim>\<open>dnsdist\<close>, and the
  redaction of log texts (record \<open>world\<close>).  Where a property needs hashes of different contents to differ, it
  assumes this for the contents that occur.

  \<^bold>\<open>What the lemmas show.\<close>  Invariants: every reachable rule store, local record table, category table,
  client database, resolver table and notification database is well formed (rule induction over the step
  relations \<open>store_step\<close>, \<open>local_step\<close>, \<open>cat_step\<close>, \<open>access_step\<close>, \<open>upstream_step\<close>, \<open>notify_step\<close>, \<open>enroll_step\<close>);
  spent tokens and barred replicas stay so.  Refinement: changes of the server's address follow an abstract
  commit-confirm machine (\<open>cc_step\<close>), so that an unconfirmed change does not stick; a replica that has applied a generation has the data of
  the primary;
  the domain tester agrees with the zone that is compiled from the same rules, also after a whole deployment
  (below).  Equivalence: the compiled access rules decide like the policy evaluation; the fast path of the blocklist parser, the parse cache and the reused policy give what
  the full computation gives.  Error behaviour: a failed deployment of the policy, the local zones, the cache
  options, the upstream resolvers or one of the dnsdist layers restores the files it had replaced, a failed
  synchronisation the replicated tables, and each run leaves a finished row.
  Round trips: zone text, dnsdist data files, rule texts, ClientID labels, identifiers, DNS messages, Lua strings.  Bounds and termination: serial numbers grow,
  retries, polls and bootstrap attempts are bounded, stored messages are short and free of URLs.

  \<^bold>\<open>Loops.\<close>  Every loop is a total function: structural recursion, or a measure (the characters left for the
  pattern scanners, the time left for \<^verbatim>\<open>wait_until\<close>, which sleeps one second per round).  There is no fuel.

  \<^bold>\<open>Not modelled.\<close>  Plain file operations are assumed to succeed, and the deployment lock makes runs
  sequential.  The stages \<^verbatim>\<open>deploy_upstreams\<close> and \<^verbatim>\<open>on_deploy_success\<close> enter by their outcome only, as does the deployment
  that a replica starts after applying a generation (what it writes into the tables is left out).  A \<^verbatim>\<open>SELECT\<close> without \<^verbatim>\<open>ORDER BY\<close>
  visits rows in rowid order.  The profile that NetworkManager keeps is outside the configuration whose rollback is shown.  Characters
  beyond Latin-1 are outside the string type.  Left out: the command-line parsing and printing, the sync of
  vendored packages, JSON statistics of the name server, the CSV writer, and the modules for the web
  interface, importer, backup, software updates, analytics,
  encryption, dnsdist upgrades and authentication; of the network module the labels of the page; of the upstream
  module, the threads of the probe loop; of the replication module, TLS, threads and openssl.
\<close>

section \<open>A deployment as seen by the domain tester\<close>

text \<open>The external names a deployment collects, and the downloads it reads them from.\<close>

abbreviation collected_names :: "world \<Rightarrow> bool \<Rightarrow> appliance \<Rightarrow> string set" where
  "collected_names w download ap \<equiv> co_blocks (collect_rules (w_lib w) (w_sha w) (w_started w)
     (if download then Some (w_net w) else None) (ps_sources (ap_policy ap)) (ps_files (ap_policy ap)))"

abbreviation fetched_files :: "world \<Rightarrow> bool \<Rightarrow> appliance \<Rightarrow> file_map" where
  "fetched_files w download ap \<equiv> snd (snd (fetch_all (w_sha w) (if download then Some (w_net w) else None)
     (enabled_sources (sources (ps_sources (ap_policy ap)))) (ps_files (ap_policy ap))))"

lemma collected_names_ok:
  assumes "inj_on (w_sha w) K" "policy_ok (w_lib w) (w_sha w) K (ap_policy ap)"
    "downloads_in K (fetched_files w download ap)"
  shows "finite (collected_names w download ap) \<and> (\<forall>x\<in>collected_names w download ap. wf_name x)"
proof -
  obtain pending downloads files1 where f: "fetch_all (w_sha w) (if download then Some (w_net w) else None)
     (enabled_sources (sources (ps_sources (ap_policy ap)))) (ps_files (ap_policy ap)) = (pending, downloads, files1)"
    by (metis prod_cases3)
  have sound: "cache_sound (w_lib w) (w_sha w) K (ps_files (ap_policy ap)) (parse_cache (ps_sources (ap_policy ap)))"
    using assms(2) by (simp add: policy_ok_def)
  have K: "content \<in> K" if "prefix ''current/'' p" "map_of files1 p = Some content" for p content
    using assms(3) that f by (auto simp: downloads_in_def)
  have "finite (collected_names w download ap)"
    by (rule collect_rules_totals(4) [OF assms(1) sound f]) (use K in blast)
  moreover have "wf_name x" if "x \<in> collected_names w download ap" for x
    by (rule collect_rules_totals(5) [OF assms(1) sound f _ that]) (use K in blast)
  ultimately show ?thesis by blast
qed

definition allow_store :: rules_db where
  "allow_store = delete_rule ''t'' 1 example_store"

definition allow_appliance :: appliance where
  "allow_appliance = example_appliance\<lparr>ap_policy := (ap_policy example_appliance)\<lparr>ps_rules := allow_store\<rparr>\<rparr>"

lemma allow_rules:
  "allow_store =
     \<lparr>filter_rules = [example_row 2 ''@@|ok.ads.example.com^'' Rallow Aallow ''ok.ads.example.com'' False], legacy_rules = None\<rparr>"
  by (simp add: allow_store_def delete_rule_def init_db_def migrate_legacy_rules_def example_store_rows delete_where_def example_row_def)

lemma allow_deploys: "\<not> isl (snd (deploy example_world False None False allow_appliance))"
  unfolding allow_appliance_def allow_rules by code_simp

text \<open>
  C1: After a successful deployment the domain tester and the live zone file agree.  For a database that the operations
  reach, without enabled important rules and with plain rewrite addresses, collected external names of which none lies
  below a rewrite that covers its subdomains, a hash that tells the downloaded contents apart, and a name that some custom rule
  matches and no local zone covers, the tester returns a verdict, and the entry it reads in the installed zone blocks the name
  exactly when the verdict is a block.
\<close>

theorem live_zone_as_tested:
  assumes "deploy w download trigger strict ap = (ap', Inr i)" "\<not> w_invalid_rpz_switch w"
    and "inj_on (w_sha w) K" "policy_ok (w_lib w) (w_sha w) K (ap_policy ap)"
    and "downloads_in K (fetched_files w download ap)"
    and "no_important (filter_rules (ps_rules (ap_policy ap)))"
    and "plain_addresses (filter_rules (ps_rules (ap_policy ap)))"
    and "rewrites_clear (filter_rules (ps_rules (ap_policy ap))) (collected_names w download ap)"
    and "normalize_domain (w_lib w) name = Some q"
    and "\<forall>z\<in>set (local_zone_names ldb). \<not> covers z q"
    and "\<exists>r\<in>set (enabled_rows (filter_rules (ps_rules (ap_policy ap)))). row_matches q r"
  shows "\<exists>rules ev. evaluate_domain (w_lib w) ts (ap_rpz ap') ldb name (ps_rules (ap_policy ap')) = Inr (rules, ev) \<and>
    (rpz_blocked (ev_rpz ev) \<longleftrightarrow> ev_action ev = VBlock)"
proof -
  let ?rules = "ps_rules (ap_policy ap)" and ?E = "collected_names w download ap"
  have reach: "store_reachable (w_lib w) ?rules" "legacy_done ?rules" using assms(4) by (simp_all add: policy_ok_def)
  note same = init_db_same [OF reach(2)] and ok = store_reachable_ok [OF reach(1)]
  have active: "collect_active t ?rules = (?rules, compiled (filter_rules ?rules))" for t
    by (simp add: collect_active_def Let_def compiled_def same)
  let ?a = "compiled (filter_rules ?rules)"
  have E: "finite ?E" "\<forall>x\<in>?E. wf_name x" using collected_names_ok [OF assms(3-5)] by blast+
  then have D: "finite (subtract_allowed ?E ?a)" "\<forall>x\<in>subtract_allowed ?E ?a. wf_name x"
    by (auto simp: subtract_allowed_def)
  have live: "ap_rpz ap' = Some (render_rpz (w_clock w) (subtract_allowed ?E ?a) (Some ?a))"
    using live_zone_of_deploy [OF assms(1)] assms(2) by (simp add: compile_rpz_def compile_blocks_def active)
  obtain rules ev where "evaluate_domain (w_lib w) ts (ap_rpz ap') ldb name ?rules = Inr (rules, ev)"
    "ev_rpz ev = rpz_status (ap_rpz ap') q" "ev_action ev = zone_verdict (zone_records (subtract_allowed ?E ?a) (Some ?a)) q"
    using tester_verdict [OF ok, of ts ?E name q ldb "ap_rpz ap'"] assms(6,8-11) E by (auto simp: same active)
  moreover have "rpz_blocked (rpz_status (ap_rpz ap') q) \<longleftrightarrow> zone_verdict (zone_records (subtract_allowed ?E ?a) (Some ?a)) q = VBlock"
    unfolding live using zone_records_clean [OF store_ok_table [OF ok] assms(7) D] rpz_status_zone(1) by blast
  ultimately show ?thesis using deployed_rules [OF assms(1) reach(2)] by auto
qed

theorem live_zone_as_tested_witness:
  "\<exists>rules ev. evaluate_domain plain_lib ''t'' (ap_rpz (fst (deploy example_world False None False allow_appliance))) None
      ''ok.ads.example.com'' (ps_rules (ap_policy (fst (deploy example_world False None False allow_appliance)))) = Inr (rules, ev) \<and>
    (rpz_blocked (ev_rpz ev) \<longleftrightarrow> ev_action ev = VBlock)"
proof -
  obtain ap' i where d: "deploy example_world False None False allow_appliance = (ap', Inr i)"
    using allow_deploys by (metis isl_def prod.exhaust_sel sum.exhaust_sel)
  have lib: "w_lib example_world = plain_lib" "w_sha example_world = id" by (simp_all add: example_world_def)
  have rules: "filter_rules (ps_rules (ap_policy allow_appliance)) =
      [example_row 2 ''@@|ok.ads.example.com^'' Rallow Aallow ''ok.ads.example.com'' False]"
    by (simp add: allow_appliance_def allow_rules)
  have "store_reachable plain_lib allow_store"
    unfolding allow_store_def by (rule store_reachable.reach_step [OF example_reachable store_step.step_delete])
  moreover have "legacy_done allow_store" by (simp add: legacy_done_def allow_rules)
  ultimately have ok: "policy_ok plain_lib id UNIV (ap_policy allow_appliance)"
    by (simp add: policy_ok_def allow_appliance_def example_appliance_def cache_sound_def downloads_in_def)
  have none: "collected_names example_world False allow_appliance = {}"
    unfolding allow_appliance_def allow_rules by code_simp
  show ?thesis unfolding d fst_conv
  proof (rule live_zone_as_tested [OF d, where K = UNIV and q = "''ok.ads.example.com''", unfolded lib rules none])
    show "policy_ok plain_lib id UNIV (ap_policy allow_appliance)" by (rule ok)
  qed (simp_all add: example_world_def downloads_in_def rewrites_clear_def local_zone_names_def, code_simp+)
qed

end
